(* ===== verification/WPrelude.thy ===== *)
theory WPrelude
  imports
    Main
    "HOL-Library.Word"
    "HOL-Library.Sublist"
    "HOL-Library.Char_ord"
    "HOL-Library.List_Lexorder"
begin

text \<open>
  The prelude of the development: names for the types the components share (references,
  machine integers, instants), the part of the Rust standard library the components use
  (decimal formatting of unsigned integers, \<open>BTreeMap\<close> and \<open>BTreeSet\<close> with their range
  scans, \<open>Vec::retain\<close>, \<open>position\<close> and \<open>find\<close>), the locale for invariants of
  step relations, and the list and string lemmas several components rely on.

  Strings are the bytes of Rust's UTF-8 \<open>String\<close>; their order is the lexicographic order
  on bytes, which is the order of Rust's \<open>Ord\<close> instance. An \<open>Instant\<close> is a number of
  milliseconds, and \<open>duration_since\<close> saturates at zero as \<open>nat\<close> subtraction does.
\<close>

section \<open>Shared types\<close>

type_synonym u32 = "32 word"
type_synonym u64 = "64 word"
type_synonym instant = nat
type_synonym duration = nat

text \<open>\<open>rbx_dom_weak::types::Ref\<close> is a 128-bit identifier; the zero value is \<open>Ref::none()\<close>.\<close>

type_synonym dref = "128 word"

abbreviation ref_none :: dref where
  "ref_none \<equiv> 0"

named_theorems step_simps \<open>unfolding of the atomic operations of a component\<close>

section \<open>Invariants of step relations\<close>

text \<open>
  What a component that is a state machine owes: a set of initial states, a step relation
  and a predicate that holds initially and is kept by every step. The client then knows the
  predicate of every reachable state.
\<close>

locale invariant_system =
  fixes init :: "'s \<Rightarrow> bool"
    and step :: "'s \<Rightarrow> 's \<Rightarrow> bool"
    and inv :: "'s \<Rightarrow> bool"
  assumes init_inv: "init s \<Longrightarrow> inv s"
    and step_inv: "step s t \<Longrightarrow> inv s \<Longrightarrow> inv t"
begin

lemma steps_inv: "step\<^sup>*\<^sup>* s t \<Longrightarrow> inv s \<Longrightarrow> inv t"
  by (induction rule: rtranclp_induct) (auto intro: step_inv)

lemma reachable_inv: "init s \<Longrightarrow> step\<^sup>*\<^sup>* s t \<Longrightarrow> inv t"
  using init_inv steps_inv by blast

end

section \<open>Decimal formatting of unsigned integers\<close>

text \<open>\<open>format!("{}", n)\<close> for an unsigned \<open>n\<close>.\<close>

definition digit_char :: "nat \<Rightarrow> char" where
  "digit_char d = char_of (48 + d)"

definition char_digit :: "char \<Rightarrow> nat" where
  "char_digit c = of_char c - 48"

fun show_nat :: "nat \<Rightarrow> string" where
  "show_nat n =
     (if n < 10 then [digit_char n] else show_nat (n div 10) @ [digit_char (n mod 10)])"

declare show_nat.simps [simp del]

definition parse_nat :: "string \<Rightarrow> nat" where
  "parse_nat cs = foldl (\<lambda>n c. 10 * n + char_digit c) 0 cs"

lemma char_digit_digit_char [simp]: "d < 10 \<Longrightarrow> char_digit (digit_char d) = d"
  by (simp add: char_digit_def digit_char_def)

lemma parse_show_nat [simp]: "parse_nat (show_nat n) = n"
proof (induction n rule: show_nat.induct)
  case (1 n)
  show ?case
  proof (cases "n < 10")
    case True
    then show ?thesis by (subst show_nat.simps) (simp add: parse_nat_def)
  next
    case False
    with 1 show ?thesis by (subst show_nat.simps) (simp add: parse_nat_def)
  qed
qed

lemma show_nat_inject [simp]: "show_nat m = show_nat n \<longleftrightarrow> m = n"
  by (metis parse_show_nat)

section \<open>Vectors\<close>

text \<open>\<open>iter().position(p)\<close>: the index of the first element that satisfies \<open>p\<close>.\<close>

fun position :: "('a \<Rightarrow> bool) \<Rightarrow> 'a list \<Rightarrow> nat option" where
  "position p [] = None"
| "position p (x # xs) = (if p x then Some 0 else map_option Suc (position p xs))"

text \<open>\<open>Vec::remove(i)\<close>; the callers only pass an index that \<open>position\<close> returned.\<close>

definition remove_nth :: "nat \<Rightarrow> 'a list \<Rightarrow> 'a list" where
  "remove_nth i xs = take i xs @ drop (Suc i) xs"

lemma position_None [simp]: "position p xs = None \<longleftrightarrow> (\<forall>x\<in>set xs. \<not> p x)"
  by (induction xs) auto

lemma position_SomeD:
  "position p xs = Some i \<Longrightarrow> i < length xs \<and> p (xs ! i) \<and> (\<forall>j<i. \<not> p (xs ! j))"
  by (induction xs arbitrary: i) (auto simp: less_Suc_eq_0_disj split: if_splits)

lemma position_length: "position p xs = Some i \<Longrightarrow> i < length xs"
  and position_nth: "position p xs = Some i \<Longrightarrow> p (xs ! i)"
  by (auto dest: position_SomeD)

lemma position_cong_map:
  "(\<And>x. x \<in> set xs \<Longrightarrow> p x = q (f x)) \<Longrightarrow> position q (map f xs) = position p xs"
  by (induction xs) auto

lemma find_SomeD: "find p xs = Some x \<Longrightarrow> x \<in> set xs \<and> p x"
  by (induction xs) (auto split: if_splits)

lemma remove_nth_split:
  assumes "i < length xs"
  obtains ys x zs where "xs = ys @ x # zs" "length ys = i" "xs ! i = x" "remove_nth i xs = ys @ zs"
  using that [of "take i xs" "xs ! i" "drop (Suc i) xs"] id_take_nth_drop [OF assms] assms
  by (simp add: remove_nth_def)

lemma length_remove_nth: "i < length xs \<Longrightarrow> length (remove_nth i xs) = length xs - 1"
  by (simp add: remove_nth_def)

lemma set_remove_nth_subset: "set (remove_nth i xs) \<subseteq> set xs"
  by (auto simp: remove_nth_def dest: in_set_takeD in_set_dropD)

lemma map_remove_nth: "map f (remove_nth i xs) = remove_nth i (map f xs)"
  by (simp add: remove_nth_def take_map drop_map)

lemma distinct_remove_nth: "distinct xs \<Longrightarrow> distinct (remove_nth i xs)"
  by (auto simp: remove_nth_def set_take_disj_set_drop_if_distinct)

lemma set_remove_nth_distinct:
  assumes "distinct xs" "i < length xs"
  shows "set (remove_nth i xs) = set xs - {xs ! i}"
  using assms(2)
proof (rule remove_nth_split)
  fix ys x zs
  assume "xs = ys @ x # zs" "xs ! i = x" "remove_nth i xs = ys @ zs"
  with assms(1) show ?thesis by auto
qed

section \<open>Ordered maps\<close>

text \<open>
  \<open>BTreeMap<String, V>\<close> and \<open>BTreeSet<String>\<close>: association lists and lists with strictly
  ascending keys. \<open>om_insert\<close> replaces the value of a key that is already there, as
  \<open>BTreeMap::insert\<close> does; \<open>om_range\<close> is \<open>range(from..)\<close>.
\<close>

type_synonym 'v omap = "(string \<times> 'v) list"
type_synonym oset = "string list"

definition om_ok :: "'v omap \<Rightarrow> bool" where
  "om_ok m \<longleftrightarrow> sorted_wrt (<) (map fst m)"

abbreviation om_get :: "'v omap \<Rightarrow> string \<Rightarrow> 'v option" where
  "om_get \<equiv> map_of"

fun om_insert :: "string \<Rightarrow> 'v \<Rightarrow> 'v omap \<Rightarrow> 'v omap" where
  "om_insert k v [] = [(k, v)]"
| "om_insert k v ((k', v') # m) =
     (if k < k' then (k, v) # (k', v') # m
      else if k = k' then (k, v) # m
      else (k', v') # om_insert k v m)"

definition om_remove :: "string \<Rightarrow> 'v omap \<Rightarrow> 'v omap" where
  "om_remove k m = filter (\<lambda>(k', _). k' \<noteq> k) m"

definition om_range :: "string \<Rightarrow> 'v omap \<Rightarrow> 'v omap" where
  "om_range k m = dropWhile (\<lambda>(k', _). k' < k) m"

definition os_ok :: "oset \<Rightarrow> bool" where
  "os_ok s \<longleftrightarrow> sorted_wrt (<) s"

fun os_insert :: "string \<Rightarrow> oset \<Rightarrow> oset" where
  "os_insert k [] = [k]"
| "os_insert k (k' # s) =
     (if k < k' then k # k' # s else if k = k' then k' # s else k' # os_insert k s)"

definition os_remove :: "string \<Rightarrow> oset \<Rightarrow> oset" where
  "os_remove k s = filter (\<lambda>k'. k' \<noteq> k) s"

definition os_range :: "string \<Rightarrow> oset \<Rightarrow> oset" where
  "os_range k s = dropWhile (\<lambda>k'. k' < k) s"

text \<open>The contract of a finite map that the clients of an ordered map rely on.\<close>

locale finite_map =
  fixes ok :: "'m \<Rightarrow> bool"
    and get :: "'m \<Rightarrow> 'k \<Rightarrow> 'v option"
    and ins :: "'k \<Rightarrow> 'v \<Rightarrow> 'm \<Rightarrow> 'm"
    and del :: "'k \<Rightarrow> 'm \<Rightarrow> 'm"
  assumes get_ins: "ok m \<Longrightarrow> get (ins k v m) = (get m)(k \<mapsto> v)"
    and get_del: "ok m \<Longrightarrow> get (del k m) = (get m)(k := None)"
    and ok_ins: "ok m \<Longrightarrow> ok (ins k v m)"
    and ok_del: "ok m \<Longrightarrow> ok (del k m)"
begin

lemma fold_ins:
  "ok m \<Longrightarrow> ok (fold (\<lambda>(k, v). ins k v) kvs m) \<and>
     get (fold (\<lambda>(k, v). ins k v) kvs m) = get m ++ map_of (rev kvs)"
  by (induction kvs arbitrary: m) (auto simp: get_ins ok_ins)

end

lemma om_insert_keys: "set (map fst (om_insert k v m)) = insert k (set (map fst m))"
  by (induction k v m rule: om_insert.induct) auto

lemma om_insert_ok: "om_ok m \<Longrightarrow> om_ok (om_insert k v m)"
proof (induction k v m rule: om_insert.induct)
  case (2 k v k' v' m)
  have "set (map fst (om_insert k v m)) = insert k (set (map fst m))" by (rule om_insert_keys)
  with 2 show ?case by (fastforce simp: om_ok_def)
qed (simp add: om_ok_def)

lemma om_get_insert: "om_ok m \<Longrightarrow> om_get (om_insert k v m) = (om_get m)(k \<mapsto> v)"
  by (induction k v m rule: om_insert.induct) (auto simp: om_ok_def)

lemma om_get_remove: "om_get (om_remove k m) = (om_get m)(k := None)"
  by (induction m) (auto simp: om_remove_def fun_eq_iff)

lemma om_remove_ok: "om_ok m \<Longrightarrow> om_ok (om_remove k m)"
  unfolding om_ok_def om_remove_def by (induction m) auto

interpretation om: finite_map om_ok om_get om_insert om_remove
  by unfold_locales (simp_all add: om_get_insert om_get_remove om_insert_ok om_remove_ok)

lemma om_ok_distinct: "om_ok m \<Longrightarrow> distinct (map fst m)"
  unfolding om_ok_def by (simp add: strict_sorted_iff)

lemma set_os_insert [simp]: "set (os_insert k s) = insert k (set s)"
  by (induction k s rule: os_insert.induct) auto

lemma os_insert_ok: "os_ok s \<Longrightarrow> os_ok (os_insert k s)"
  unfolding os_ok_def by (induction k s rule: os_insert.induct) fastforce+

lemma set_os_remove [simp]: "set (os_remove k s) = set s - {k}"
  by (auto simp: os_remove_def)

lemma os_remove_ok: "os_ok s \<Longrightarrow> os_ok (os_remove k s)"
  unfolding os_ok_def os_remove_def by (rule sorted_wrt_filter)

subsection \<open>Prefix scans\<close>

text \<open>
  The keys that start with a prefix are one block of the ascending keys, and the block starts
  at the first key that is not below the prefix: scanning \<open>range(prefix..)\<close> while the keys
  start with the prefix visits exactly the keys that do.
\<close>

lemma prefix_le: "prefix p (x :: string) \<Longrightarrow> p \<le> x"
proof (induction p arbitrary: x)
  case (Cons a p)
  then show ?case by (cases x) auto
qed simp

lemma prefix_convex: "(p :: string) \<le> x \<Longrightarrow> x \<le> y \<Longrightarrow> prefix p y \<Longrightarrow> prefix p x"
proof (induction p arbitrary: x y)
  case (Cons a p)
  then show ?case by (cases x; cases y) auto
qed simp

lemma prefix_block_sorted:
  assumes "sorted_wrt (<) (map f xs)"
  shows "takeWhile (\<lambda>x. prefix p (f x)) (dropWhile (\<lambda>x. f x < (p :: string)) xs) =
         filter (\<lambda>x. prefix p (f x)) xs"
  using assms
proof (induction xs)
  case (Cons x xs)
  have tail: "y \<in> set xs \<Longrightarrow> f x < f y" for y using Cons.prems by auto
  show ?case
  proof (cases "f x < p")
    case True
    then have "\<not> prefix p (f x)" using prefix_le [of p "f x"] by auto
    with True Cons show ?thesis by simp
  next
    case ge: False
    then have after: "y \<in> set xs \<Longrightarrow> \<not> f y < p" for y using tail [of y] by auto
    have "dropWhile (\<lambda>x. f x < p) xs = xs" using after by (cases xs) auto
    moreover have "\<not> prefix p (f x) \<Longrightarrow> filter (\<lambda>x. prefix p (f x)) xs = []"
      using ge tail prefix_convex [of p "f x"]
      by (meson filter_False less_imp_le linorder_not_less)
    ultimately show ?thesis using ge Cons by simp
  qed
qed simp

lemma om_range_prefix:
  "om_ok m \<Longrightarrow> takeWhile (\<lambda>(k, _). prefix p k) (om_range p m) = filter (\<lambda>(k, _). prefix p k) m"
  using prefix_block_sorted [of fst m p] by (simp add: om_ok_def om_range_def split_def)

lemma os_range_prefix:
  "os_ok s \<Longrightarrow> takeWhile (prefix p) (os_range p s) = filter (prefix p) s"
  using prefix_block_sorted [of "\<lambda>k. k" s p] by (simp add: os_ok_def os_range_def)

section \<open>Splitting at slashes\<close>

text \<open>\<open>str::split('/')\<close>: the parts between slashes, the empty ones included.\<close>

fun split_slash :: "string \<Rightarrow> string list" where
  "split_slash [] = [[]]"
| "split_slash (c # cs) =
     (if c = CHR ''/'' then [] # split_slash cs
      else case split_slash cs of w # ws \<Rightarrow> (c # w) # ws | [] \<Rightarrow> [[c]])"

end
