(* ===== verification/Meta.thy ===== *)
theory Meta
  imports WPrelude
begin

text \<open>
  Project files and instance metadata (\<^verbatim>\<open>src/project.rs\<close>, \<^verbatim>\<open>src/core/meta.rs\<close>,
  the path helpers of \<^verbatim>\<open>src/ext.rs\<close>, \<^verbatim>\<open>src/glob.rs\<close> and the default sync rules of
  \<^verbatim>\<open>src/constants.rs\<close>): where an instance comes from on disk, which rule gives a file
  its middleware and its name, and which paths a project ignores.

  A path is the list of its components, as Rust's \<open>Path\<close> compares it; the root directory is
  the component \<open>''/''\<close>. A glob is its pattern text: the matcher of the \<open>glob\<close> package is
  the parameter \<open>matches\<close>, its validity check the parameter \<open>valid\<close>, and whether a path is a
  directory, which \<open>get_stem\<close> asks the file system, is the parameter \<open>is_dir\<close>. The
  unresolved property values of a project node stay a type parameter: nothing here inspects
  them.
\<close>

section \<open>Paths\<close>

type_synonym path = "string list"

definition path_name :: "path \<Rightarrow> string" where
  "path_name p = (if p = [] \<or> last p = ''..'' \<or> last p = ''/'' then '''' else last p)"

text \<open>\<open>Path::file_stem\<close>: the name up to its last dot, the whole name when it has no dot
  beyond its first character.\<close>

definition file_stem :: "string \<Rightarrow> string" where
  "file_stem name =
     (let before = rev (tl (dropWhile (\<lambda>c. c \<noteq> CHR ''.'') (rev name)))
      in if CHR ''.'' \<notin> set name \<or> before = '''' then name else before)"

definition path_stem :: "(path \<Rightarrow> bool) \<Rightarrow> path \<Rightarrow> string" where
  "path_stem is_dir p = (if is_dir p then path_name p else file_stem (path_name p))"

definition path_parent :: "path \<Rightarrow> path" where
  "path_parent p = (if p = [] \<or> p = [''/''] then p else butlast p)"

fun strip_path :: "path \<Rightarrow> path \<Rightarrow> path option" where
  "strip_path [] p = Some p"
| "strip_path (c # cs) (d # ds) = (if c = d then strip_path cs ds else None)"
| "strip_path (c # cs) [] = None"

definition strip_suffix :: "string \<Rightarrow> string \<Rightarrow> string option" where
  "strip_suffix sfx name =
     (if suffix sfx name then Some (take (length name - length sfx) name) else None)"

lemma strip_path_Some: "strip_path b p = Some s \<longleftrightarrow> p = b @ s"
  by (induction b p rule: strip_path.induct) auto

lemma strip_suffix_append [simp]: "strip_suffix sfx (name @ sfx) = Some name"
  by (simp add: strip_suffix_def suffix_def)

section \<open>Project files\<close>

datatype scope = Code | Full

definition CODE_CLASSES :: "string list" where
  "CODE_CLASSES = [''Folder'', ''Script'', ''LocalScript'', ''ModuleScript'',
     ''StarterPlayerScripts'', ''StarterCharacterScripts'']"

definition scope_parse :: "string option \<Rightarrow> scope" where
  "scope_parse v = (if v = Some ''full'' then Full else Code)"

definition scope_str :: "scope \<Rightarrow> string" where
  "scope_str s = (case s of Code \<Rightarrow> ''code'' | Full \<Rightarrow> ''full'')"

definition allows_class :: "scope \<Rightarrow> string \<Rightarrow> bool" where
  "allows_class s cls = (case s of Full \<Rightarrow> True | Code \<Rightarrow> cls \<in> set CODE_CLASSES)"

datatype project_path = Required path | Optional path

fun project_path_path :: "project_path \<Rightarrow> path" where
  "project_path_path (Required p) = p"
| "project_path_path (Optional p) = p"

datatype 'u project_node = ProjectNode
  (class_name: "string option")
  (node_path: "project_path option")
  (node_tree: "(string \<times> 'u project_node) list")
  (node_properties: "(string \<times> 'u) list")
  (node_attributes: "'u option")
  (node_tags: "string list")
  (node_keep_unknowns: "bool option")

type_synonym glob = string

datatype middleware = MProject | InstanceData | ServerScript | ClientScript | LocalScript
  | RunServerScript | ModuleScript | StringValue | RichStringValue | LocalizationTable
  | JsonModule | TomlModule | YamlModule | MsgpackModule | JsonModel | RbxmModel | RbxmxModel

record sync_rule =
  sr_middleware :: middleware
  sr_pattern :: "glob option"
  sr_child_pattern :: "glob option"
  sr_exclude :: "glob list"
  sr_suffix :: "string option"

record syncback_settings =
  sb_ignore_globs :: "glob list"
  sb_ignore_names :: "string list"
  sb_ignore_classes :: "string list"
  sb_ignore_properties :: "string list"

record 'u project =
  pj_name :: string
  pj_node :: "'u project_node"
  pj_host :: "string option"
  pj_port :: "16 word option"
  pj_game_id :: "u64 option"
  pj_place_ids :: "u64 list"
  pj_group_id :: "u64 option"
  pj_scope :: "string option"
  pj_ignore_globs :: "glob list"
  pj_sync_rules :: "sync_rule list"
  pj_syncback :: "syncback_settings option"
  pj_legacy_scripts :: "bool option"
  pj_path :: path
  pj_workspace_dir :: path

definition is_place :: "'u project \<Rightarrow> bool" where
  "is_place p \<longleftrightarrow> class_name (pj_node p) = Some ''DataModel''"

definition project_scope :: "'u project \<Rightarrow> scope" where
  "project_scope p = scope_parse (pj_scope p)"

fun rbxts_node :: "'u project_node \<Rightarrow> bool" where
  "rbxts_node (ProjectNode cls np tree props attrs tags keep) =
     ((case np of None \<Rightarrow> False | Some p \<Rightarrow> project_path_path p \<noteq> [] \<and> last (project_path_path p) = ''@rbxts'') \<or>
      list_ex (\<lambda>(_, n). rbxts_node n) tree)"

definition is_ts :: "(glob \<Rightarrow> string \<Rightarrow> bool) \<Rightarrow> 'u project \<Rightarrow> bool" where
  "is_ts matches p \<longleftrightarrow>
     list_ex (\<lambda>g. matches g ''**/tsconfig.json'' \<or> matches g ''**/package.json'') (pj_ignore_globs p) \<or>
     rbxts_node (pj_node p)"

fun wally_node :: "'u project_node \<Rightarrow> bool" where
  "wally_node (ProjectNode cls np tree props attrs tags keep) =
     ((case np of None \<Rightarrow> False | Some p \<Rightarrow> project_path_path p = [''Packages'']) \<or>
      list_ex (\<lambda>(_, n). wally_node n) tree)"

definition is_wally :: "'u project \<Rightarrow> bool" where
  "is_wally p = wally_node (pj_node p)"

fun find_node :: "'u project_node \<Rightarrow> string list \<Rightarrow> 'u project_node option" where
  "find_node node [] = Some node"
| "find_node node (name # names) =
     (case map_of (node_tree node) name of None \<Rightarrow> None | Some child \<Rightarrow> find_node child names)"

section \<open>Sources\<close>

record nodepath =
  np_inner :: "string list"

definition np_new :: nodepath where
  "np_new = \<lparr>np_inner = []\<rparr>"

definition np_join :: "nodepath \<Rightarrow> string \<Rightarrow> nodepath" where
  "np_join np name = \<lparr>np_inner = np_inner np @ [name]\<rparr>"

definition np_parent :: "nodepath \<Rightarrow> nodepath" where
  "np_parent np = \<lparr>np_inner = butlast (np_inner np)\<rparr>"

definition np_is_root :: "nodepath \<Rightarrow> bool" where
  "np_is_root np \<longleftrightarrow> np_inner np = []"

definition find_node_by_path :: "'u project \<Rightarrow> nodepath \<Rightarrow> 'u project_node option" where
  "find_node_by_path p np = find_node (pj_node p) (np_inner np)"

datatype 'u source_kind = SPath path | SProject string path "'u project_node" nodepath | SNone

fun sk_path :: "'u source_kind \<Rightarrow> path option" where
  "sk_path (SPath p) = Some p"
| "sk_path (SProject _ p _ _) = Some p"
| "sk_path SNone = None"

datatype source_entry = EFile path | EFolder path | EData path | EProject path

fun entry_path :: "source_entry \<Rightarrow> path" where
  "entry_path (EFile p) = p"
| "entry_path (EFolder p) = p"
| "entry_path (EData p) = p"
| "entry_path (EProject p) = p"

text \<open>The discriminant the code reads from the \<open>repr(usize)\<close> enum.\<close>

fun entry_index :: "source_entry \<Rightarrow> nat" where
  "entry_index (EFile _) = 0"
| "entry_index (EFolder _) = 1"
| "entry_index (EData _) = 2"
| "entry_index (EProject _) = 3"

record 'u source =
  src_inner :: "'u source_kind"
  src_relevant :: "source_entry list"

definition source_new :: "'u source" where
  "source_new = \<lparr>src_inner = SNone, src_relevant = []\<rparr>"

definition source_file :: "path \<Rightarrow> 'u source" where
  "source_file p = \<lparr>src_inner = SPath p, src_relevant = [EFile p]\<rparr>"

definition source_child_file :: "path \<Rightarrow> path \<Rightarrow> 'u source" where
  "source_child_file folder file =
     \<lparr>src_inner = SPath folder, src_relevant = [EFolder folder, EFile file]\<rparr>"

definition source_directory :: "path \<Rightarrow> 'u source" where
  "source_directory p = \<lparr>src_inner = SPath p, src_relevant = [EFolder p]\<rparr>"

definition source_project :: "string \<Rightarrow> path \<Rightarrow> 'u project_node \<Rightarrow> nodepath \<Rightarrow> 'u source" where
  "source_project name p node np = \<lparr>src_inner = SProject name p node np, src_relevant = []\<rparr>"

definition add_data :: "path \<Rightarrow> 'u source \<Rightarrow> 'u source" where
  "add_data p s = s\<lparr>src_relevant := src_relevant s @ [EData p]\<rparr>"

definition set_data :: "path option \<Rightarrow> 'u source \<Rightarrow> 'u source" where
  "set_data p s =
     (let s = s\<lparr>src_relevant := filter (\<lambda>e. case e of EData _ \<Rightarrow> False | _ \<Rightarrow> True) (src_relevant s)\<rparr>
      in case p of Some p \<Rightarrow> add_data p s | None \<Rightarrow> s)"

definition get_file :: "'u source \<Rightarrow> source_entry option" where
  "get_file s = find (\<lambda>e. case e of EFile _ \<Rightarrow> True | _ \<Rightarrow> False) (src_relevant s)"

definition get_data :: "'u source \<Rightarrow> source_entry option" where
  "get_data s = find (\<lambda>e. case e of EData _ \<Rightarrow> True | _ \<Rightarrow> False) (src_relevant s)"

definition source_paths :: "'u source \<Rightarrow> path list" where
  "source_paths s = map entry_path (src_relevant s)"

section \<open>Sync rules\<close>

record resolved_rule =
  rr_middleware :: middleware
  rr_name :: string

definition rule_new :: "middleware \<Rightarrow> sync_rule" where
  "rule_new mw = \<lparr>sr_middleware = mw, sr_pattern = None, sr_child_pattern = None,
     sr_exclude = [], sr_suffix = None\<rparr>"

definition is_excluded :: "(glob \<Rightarrow> path \<Rightarrow> bool) \<Rightarrow> sync_rule \<Rightarrow> path \<Rightarrow> bool" where
  "is_excluded matches r p = list_ex (\<lambda>g. matches g p) (sr_exclude r)"

definition rule_name :: "(path \<Rightarrow> bool) \<Rightarrow> sync_rule \<Rightarrow> path \<Rightarrow> string" where
  "rule_name is_dir r p =
     (case sr_suffix r of
        Some sfx \<Rightarrow> (case strip_suffix sfx (path_name p) of Some n \<Rightarrow> n | None \<Rightarrow> path_name p)
      | None \<Rightarrow> path_stem is_dir p)"

definition resolve_rule ::
  "(glob \<Rightarrow> path \<Rightarrow> bool) \<Rightarrow> (path \<Rightarrow> bool) \<Rightarrow> sync_rule \<Rightarrow> path \<Rightarrow> resolved_rule option" where
  "resolve_rule matches is_dir r p =
     (case sr_pattern r of
        Some pat \<Rightarrow>
          if matches pat p \<and> \<not> is_excluded matches r p \<and> sr_middleware r \<noteq> InstanceData
          then Some \<lparr>rr_middleware = sr_middleware r, rr_name = rule_name is_dir r p\<rparr> else None
      | None \<Rightarrow> None)"

text \<open>\<open>path.strip_prefix(path.get_parent()).unwrap()\<close> is the last component of the path, and the
  whole path where it has no parent.\<close>

definition stripped_path :: "path \<Rightarrow> path" where
  "stripped_path p = drop (length (path_parent p)) p"

definition resolve_child ::
  "(glob \<Rightarrow> path \<Rightarrow> bool) \<Rightarrow> sync_rule \<Rightarrow> path \<Rightarrow> resolved_rule option" where
  "resolve_child matches r p =
     (case sr_child_pattern r of
        Some pat \<Rightarrow>
          if matches pat (stripped_path p) \<and> \<not> is_excluded matches r p \<and> sr_middleware r \<noteq> InstanceData
          then Some \<lparr>rr_middleware = sr_middleware r, rr_name = path_name (path_parent p)\<rparr> else None
      | None \<Rightarrow> None)"

definition rule :: "middleware \<Rightarrow> glob \<Rightarrow> glob \<Rightarrow> string option \<Rightarrow> glob list \<Rightarrow> sync_rule" where
  "rule mw pat child sfx excl = (rule_new mw)
     \<lparr>sr_pattern := Some pat, sr_child_pattern := Some child, sr_exclude := excl, sr_suffix := sfx\<rparr>"

section \<open>Ignore rules and context\<close>

record ignore_rule =
  ir_pattern :: glob
  ir_path :: path

definition ignore_matches :: "(glob \<Rightarrow> path \<Rightarrow> bool) \<Rightarrow> ignore_rule \<Rightarrow> path \<Rightarrow> bool" where
  "ignore_matches matches r p =
     (case strip_path (ir_path r) p of Some s \<Rightarrow> matches (ir_pattern r) s | None \<Rightarrow> False)"

definition matches_path_with_dir ::
  "(glob \<Rightarrow> bool) \<Rightarrow> (glob \<Rightarrow> path \<Rightarrow> bool) \<Rightarrow> glob \<Rightarrow> path \<Rightarrow> bool" where
  "matches_path_with_dir valid matches g p =
     (if \<not> matches g p \<and> suffix ''/**'' g
      then (let g' = the (strip_suffix ''/**'' g) in if valid g' then matches g' p else False)
      else matches g p)"

definition ignore_matches_with_dir ::
  "(glob \<Rightarrow> bool) \<Rightarrow> (glob \<Rightarrow> path \<Rightarrow> bool) \<Rightarrow> ignore_rule \<Rightarrow> path \<Rightarrow> bool" where
  "ignore_matches_with_dir valid matches r p =
     (case strip_path (ir_path r) p of
        Some s \<Rightarrow> matches_path_with_dir valid matches (ir_pattern r) s
      | None \<Rightarrow> False)"

definition from_globs :: "glob list \<Rightarrow> path \<Rightarrow> ignore_rule list" where
  "from_globs globs p = map (\<lambda>g. \<lparr>ir_pattern = g, ir_path = p\<rparr>) globs"

record syncback_filter =
  sf_ignore_rules :: "ignore_rule list"
  sf_ignore_names :: "string list"
  sf_ignore_classes :: "string list"
  sf_ignore_properties :: "string list"

definition filter_matches_path ::
  "(glob \<Rightarrow> bool) \<Rightarrow> (glob \<Rightarrow> path \<Rightarrow> bool) \<Rightarrow> syncback_filter \<Rightarrow> path \<Rightarrow> bool" where
  "filter_matches_path valid matches f p =
     list_ex (\<lambda>r. ignore_matches_with_dir valid matches r p) (sf_ignore_rules f)"

definition filter_default :: syncback_filter where
  "filter_default = \<lparr>sf_ignore_rules = [], sf_ignore_names = [], sf_ignore_classes = [],
     sf_ignore_properties = []\<rparr>"

record meta_context =
  cx_sync_rules :: "sync_rule list"
  cx_ignore_rules :: "ignore_rule list"
  cx_syncback_filter :: syncback_filter
  cx_scope :: scope

definition context_new :: meta_context where
  "context_new = \<lparr>cx_sync_rules = [], cx_ignore_rules = [], cx_syncback_filter = filter_default,
     cx_scope = Full\<rparr>"

text \<open>\<open>default_sync_rules\<close>: the rules of a project that declares none, first match first.\<close>

definition default_sync_rules :: "sync_rule list" where
  "default_sync_rules = [
     rule MProject ''*.project.json'' ''default.project.json'' None [],
     rule InstanceData ''*.data.json'' ''.data.json'' None [],
     rule InstanceData ''*.meta.json'' ''init.meta.json'' None [],
     rule ServerScript ''*.server.luau'' ''init.server.luau'' (Some ''.server.luau'') [],
     rule ClientScript ''*.client.luau'' ''init.client.luau'' (Some ''.client.luau'') [],
     rule LocalScript ''*.local.luau'' ''init.local.luau'' (Some ''.local.luau'') [],
     rule RunServerScript ''*.runserver.luau'' ''init.runserver.luau'' (Some ''.runserver.luau'') [],
     rule ModuleScript ''*.luau'' ''init.luau'' None [],
     rule ServerScript ''*.server.luau'' ''.src.server.luau'' (Some ''.server.luau'') [''init.server.luau''],
     rule ClientScript ''*.client.luau'' ''.src.client.luau'' (Some ''.client.luau'') [''init.client.luau''],
     rule ModuleScript ''*.luau'' ''.src.luau'' None [''init.luau''],
     rule ServerScript ''*.server.lua'' ''init.server.lua'' (Some ''.server.lua'') [],
     rule ClientScript ''*.client.lua'' ''init.client.lua'' (Some ''.client.lua'') [],
     rule LocalScript ''*.local.lua'' ''init.local.lua'' (Some ''.local.lua'') [],
     rule RunServerScript ''*.runserver.lua'' ''init.runserver.lua'' (Some ''.runserver.lua'') [],
     rule ModuleScript ''*.lua'' ''init.lua'' None [],
     rule ServerScript ''*.server.lua'' ''.src.server.lua'' (Some ''.server.lua'') [''init.server.lua''],
     rule ClientScript ''*.client.lua'' ''.src.client.lua'' (Some ''.client.lua'') [''init.client.lua''],
     rule ModuleScript ''*.lua'' ''.src.lua'' None [''init.lua''],
     rule StringValue ''*.txt'' ''init.txt'' None [],
     rule RichStringValue ''*.md'' ''init.md'' None [],
     rule LocalizationTable ''*.csv'' ''init.csv'' None [],
     rule JsonModule ''*.json'' ''init.json'' None [''*.model.json'', ''*.data.json'', ''*.meta.json''],
     rule TomlModule ''*.toml'' ''init.toml'' None [],
     rule YamlModule ''*.yaml'' ''init.yaml'' None [],
     rule YamlModule ''*.yml'' ''init.yml'' None [],
     rule MsgpackModule ''*.msgpack'' ''init.msgpack'' None [],
     rule JsonModel ''*.model.json'' ''init.model.json'' (Some ''.model.json'') [],
     rule RbxmModel ''*.rbxm'' ''init.rbxm'' None [],
     rule RbxmxModel ''*.rbxmx'' ''init.rbxmx'' None []]"

definition sync_rules :: "meta_context \<Rightarrow> sync_rule list" where
  "sync_rules cx = (if cx_sync_rules cx = [] then default_sync_rules else cx_sync_rules cx)"

text \<open>
  \<open>sync_rules_of_type\<close>: the rules of one middleware, without the ones the configuration
  (\<open>rojo_mode\<close>, \<open>lua_extension\<close>) turns off.
\<close>

definition sync_rules_of_type ::
  "bool \<Rightarrow> bool \<Rightarrow> meta_context \<Rightarrow> middleware \<Rightarrow> bool \<Rightarrow> sync_rule list" where
  "sync_rules_of_type rojo_mode lua_extension cx mw syncback =
     filter (\<lambda>r.
       (case sr_child_pattern r of
          Some child \<Rightarrow> \<not> (prefix ''.src'' child \<and> rojo_mode \<and> syncback) | None \<Rightarrow> True) \<and>
       (case (case sr_pattern r of Some p \<Rightarrow> Some p | None \<Rightarrow> sr_child_pattern r) of
          Some pat \<Rightarrow> \<not> (suffix ''.data.json'' pat \<and> rojo_mode \<and> syncback) \<and>
            \<not> (suffix ''.luau'' pat \<and> lua_extension)
        | None \<Rightarrow> True) \<and>
       sr_middleware r = mw) (sync_rules cx)"

section \<open>Instance metadata\<close>

record 'u meta =
  mt_source :: "'u source"
  mt_context :: meta_context
  mt_keep_unknowns :: bool
  mt_original_name :: "string option"
  mt_mesh_source :: "string option"

definition meta_new :: "'u meta" where
  "meta_new = \<lparr>mt_source = source_new, mt_context = context_new, mt_keep_unknowns = False,
     mt_original_name = None, mt_mesh_source = None\<rparr>"

definition RUNTIME_DIRS :: "string list" where
  "RUNTIME_DIRS = [''.wsync-backups'', ''.wsync-artifacts'', ''.wsync-workflows'']"

definition runtime_globs :: "(glob \<Rightarrow> bool) \<Rightarrow> glob list" where
  "runtime_globs valid =
     filter valid (concat (map (\<lambda>dir. [''**/'' @ dir, ''**/'' @ dir @ ''/**'']) RUNTIME_DIRS))"

definition from_project :: "(glob \<Rightarrow> bool) \<Rightarrow> 'u project \<Rightarrow> 'u meta" where
  "from_project valid p =
     (let flt = (case pj_syncback p of
            Some sb \<Rightarrow> \<lparr>sf_ignore_rules = from_globs (sb_ignore_globs sb) (pj_workspace_dir p),
              sf_ignore_names = sb_ignore_names sb, sf_ignore_classes = sb_ignore_classes sb,
              sf_ignore_properties = sb_ignore_properties sb\<rparr>
          | None \<Rightarrow> filter_default);
          ignore_globs = pj_ignore_globs p @ runtime_globs valid
      in meta_new\<lparr>mt_context := \<lparr>cx_sync_rules = pj_sync_rules p,
           cx_ignore_rules = from_globs ignore_globs (pj_workspace_dir p),
           cx_syncback_filter = flt, cx_scope = project_scope p\<rparr>\<rparr>)"

end
