(* ===== verification/Content.thy ===== *)
theory Content
  imports Meta
begin

text \<open>
  Canonical instance content (\<^verbatim>\<open>src/core/conflict/content.rs\<close>): what the conflict engine
  hashes and compares. A property map is the list of its entries in the iteration order of
  the Rust \<open>HashMap\<close>, so that the independence of the canonical content from that order is a
  theorem and not a modelling choice.

  \<open>rbx_dom_weak\<close>'s \<open>Variant\<close>, \<open>serde_json\<close> and \<open>sha2\<close> are packages outside the
  repository: the variants the code does not inspect are a type parameter, and the
  serialisation and digest functions are the fields of a \<open>codec\<close> every definition takes.
\<close>

section \<open>Data\<close>

datatype 'v variant = VString string | VContentId string | VOther 'v

type_synonym 'v properties = "(string \<times> 'v variant) list"

type_synonym content_hash = string

record ('v, 'j) codec =
  to_value :: "'v variant \<Rightarrow> 'j option"
  json_null :: 'j
  json_text :: "'j \<Rightarrow> string"
  json_string :: "'j \<Rightarrow> string option"
  sha256 :: "string \<Rightarrow> content_hash"

record 'j content_state =
  cs_name :: string
  cs_class :: string
  cs_properties :: "(string \<times> 'j) list"
  cs_hash :: content_hash

record ('u, 'v) updated_snapshot =
  us_id :: dref
  us_meta :: "'u meta option"
  us_name :: "string option"
  us_class :: "string option"
  us_properties :: "'v properties option"

record instance_info =
  info_id :: dref
  info_parent :: dref
  info_instance_path :: string
  info_rel_path :: "string option"

record ('v, 'j) captured =
  cap_info :: instance_info
  cap_content :: "'j content_state"
  cap_properties :: "'v properties"

section \<open>Operations\<close>

definition hex_digit :: "nat \<Rightarrow> char" where
  "hex_digit d = (if d < 10 then char_of (48 + d) else char_of (87 + d))"

definition hash_hex :: "content_hash \<Rightarrow> string" where
  "hash_hex hash =
     concat (map (\<lambda>byte. [hex_digit (of_char byte div 16), hex_digit (of_char byte mod 16)]) hash)"

definition is_script :: "string \<Rightarrow> bool" where
  "is_script cls \<longleftrightarrow> cls = ''Script'' \<or> cls = ''LocalScript'' \<or> cls = ''ModuleScript''"

abbreviation CR :: char where "CR \<equiv> CHR 0x0D"
abbreviation LF :: char where "LF \<equiv> CHR 0x0A"

text \<open>\<open>str::replace("\r\n", "\n")\<close>\<close>

fun fold_crlf :: "string \<Rightarrow> string" where
  "fold_crlf (x # y # xs) =
     (if x = CR \<and> y = LF then LF # fold_crlf xs else x # fold_crlf (y # xs))"
| "fold_crlf xs = xs"

definition normalize_source :: "'v variant \<Rightarrow> 'v variant" where
  "normalize_source v =
     (case v of
        VString source \<Rightarrow> if CR \<in> set source then VString (fold_crlf source) else v
      | _ \<Rightarrow> v)"

definition encode_property :: "('v, 'j) codec \<Rightarrow> string \<times> 'v variant \<Rightarrow> string \<times> 'j" where
  "encode_property c kv =
     (let v = (if fst kv = ''Source'' then normalize_source (snd kv) else snd kv)
      in (fst kv, case to_value c v of Some j \<Rightarrow> j | None \<Rightarrow> json_null c))"

definition hash_input :: "('v, 'j) codec \<Rightarrow> string \<Rightarrow> string \<Rightarrow> (string \<times> 'j) list \<Rightarrow> string" where
  "hash_input c name cls encoded =
     cls @ [CHR 0x00] @ name @ [CHR 0x00] @
     concat (map (\<lambda>(k, v). k @ [CHR 0x00] @ json_text c v @ [CHR 0x00]) encoded)"

definition content_new ::
  "('v, 'j) codec \<Rightarrow> string \<Rightarrow> string \<Rightarrow> 'v properties \<Rightarrow> 'j content_state" where
  "content_new c name cls properties =
     (let encoded = sort_key fst
            (map (encode_property c) (filter (\<lambda>kv. fst kv \<noteq> ''ArgonEmpty'') properties))
      in \<lparr>cs_name = name, cs_class = cls, cs_properties = encoded,
          cs_hash = sha256 c (hash_input c name cls encoded)\<rparr>)"

definition content_source :: "('v, 'j) codec \<Rightarrow> 'j content_state \<Rightarrow> string option" where
  "content_source c s =
     (if \<not> is_script (cs_class s) then None
      else Option.bind (find (\<lambda>(k, _). k = ''Source'') (cs_properties s)) (\<lambda>(_, v). json_string c v))"

definition with_update ::
  "('v, 'j) codec \<Rightarrow> 'j content_state \<Rightarrow> ('u, 'v) updated_snapshot \<Rightarrow> 'v properties \<Rightarrow> 'j content_state"
where
  "with_update c s update base_properties =
     (let name = (case us_name update of Some n \<Rightarrow> n | None \<Rightarrow> cs_name s);
          cls = (case us_class update of Some k \<Rightarrow> k | None \<Rightarrow> cs_class s)
      in case us_properties update of
           Some properties \<Rightarrow> content_new c name cls properties
         | None \<Rightarrow> content_new c name cls base_properties)"

section \<open>Line-ending normalisation\<close>

lemma fold_crlf_no_cr: "CR \<notin> set xs \<Longrightarrow> fold_crlf xs = xs"
  by (induction xs rule: fold_crlf.induct) auto

text \<open>The lines of a file written with one terminator; \<open>fold_crlf\<close> maps one to the other.\<close>

definition join_lines :: "string \<Rightarrow> string list \<Rightarrow> string" where
  "join_lines sep ls = concat (map (\<lambda>l. l @ sep) ls)"

lemma fold_crlf_line: "CR \<notin> set l \<Longrightarrow> fold_crlf (l @ CR # LF # rest) = l @ LF # fold_crlf rest"
proof (induction l)
  case (Cons x l)
  then show ?case by (cases "l @ CR # LF # rest") (auto simp: append_eq_Cons_conv)
qed simp

lemma fold_crlf_join_lines:
  "\<forall>l\<in>set ls. CR \<notin> set l \<Longrightarrow> fold_crlf (join_lines [CR, LF] ls) = join_lines [LF] ls"
proof (induction ls)
  case (Cons l ls)
  have "fold_crlf (join_lines [CR, LF] (l # ls)) = l @ LF # fold_crlf (join_lines [CR, LF] ls)"
    using fold_crlf_line [of l "join_lines [CR, LF] ls"] Cons.prems by (simp add: join_lines_def)
  with Cons show ?case by (simp add: join_lines_def)
qed (simp add: join_lines_def)

lemma normalize_source_VString [simp]: "normalize_source (VString s) = VString (fold_crlf s)"
  by (simp add: normalize_source_def fold_crlf_no_cr)

section \<open>The canonical content\<close>

lemma encode_property_key [simp]: "fst (encode_property c kv) = fst kv"
  by (simp add: encode_property_def Let_def)

lemma sort_key_fst_unique:
  assumes "distinct (map fst xs)" "distinct (map fst ys)" "set xs = set ys"
  shows "sort_key fst xs = sort_key fst ys"
proof (rule map_sorted_distinct_set_unique [where f = fst])
  show "inj_on fst (set (sort_key fst xs) \<union> set (sort_key fst ys))"
    using assms by (simp add: distinct_map)
  show "distinct (map fst (sort_key fst xs))" "distinct (map fst (sort_key fst ys))"
    using assms by (simp_all add: distinct_map)
qed (simp_all add: assms(3))

lemma content_new_simps [simp]:
  "cs_name (content_new c name cls ps) = name"
  "cs_class (content_new c name cls ps) = cls"
  "cs_hash (content_new c name cls ps) =
     sha256 c (hash_input c name cls (cs_properties (content_new c name cls ps)))"
  by (simp_all add: content_new_def Let_def)

definition visible_properties :: "'v properties \<Rightarrow> 'v properties" where
  "visible_properties ps =
     map (\<lambda>(k, v). (k, if k = ''Source'' then normalize_source v else v))
       (filter (\<lambda>kv. fst kv \<noteq> ''ArgonEmpty'') ps)"

lemma content_new_visible:
  assumes "distinct (map fst ps)" "distinct (map fst qs)"
    and "set (visible_properties ps) = set (visible_properties qs)"
  shows "content_new c name cls ps = content_new c name cls qs"
proof -
  let ?enc = "\<lambda>(k, v). (k, case to_value c v of Some j \<Rightarrow> j | None \<Rightarrow> json_null c)"
  have enc: "map (encode_property c) (filter (\<lambda>kv. fst kv \<noteq> ''ArgonEmpty'') xs) =
             map ?enc (visible_properties xs)" for xs :: "('a) properties"
    by (auto simp: visible_properties_def encode_property_def Let_def split_def)
  have keys: "map fst (map ?enc (visible_properties xs)) =
              map fst (filter (\<lambda>kv. fst kv \<noteq> ''ArgonEmpty'') xs)" for xs :: "('a) properties"
    by (auto simp: visible_properties_def split_def)
  have dist: "distinct (map fst xs) \<Longrightarrow> distinct (map fst (map ?enc (visible_properties xs)))"
    for xs :: "('a) properties"
    unfolding keys by (simp add: distinct_map_filter)
  have "sort_key fst (map ?enc (visible_properties ps)) =
        sort_key fst (map ?enc (visible_properties qs))"
    by (rule sort_key_fst_unique) (use assms dist in auto)
  then show ?thesis by (simp add: content_new_def enc)
qed

text \<open>
  The canonical content of an instance, its hash included, depends only on its name, its
  class and the set of its properties: the iteration order of the property map, the
  \<open>ArgonEmpty\<close> wire marker and the line endings of \<open>Source\<close> never show. Two property maps
  with the same visible entries give the same content state, whatever the serialiser and the
  digest are.
\<close>

theorem content_new_canonical:
  assumes "distinct (map fst ps)" "distinct (map fst qs)"
    and "\<And>k v. k \<noteq> ''ArgonEmpty'' \<Longrightarrow> k \<noteq> ''Source'' \<Longrightarrow> (k, v) \<in> set ps \<longleftrightarrow> (k, v) \<in> set qs"
    and "normalize_source ` {v. (''Source'', v) \<in> set ps} = normalize_source ` {v. (''Source'', v) \<in> set qs}"
  shows "content_new c name cls ps = content_new c name cls qs"
proof (rule content_new_visible)
  have vis: "set (visible_properties xs) =
      {(k, v). (k, v) \<in> set xs \<and> k \<noteq> ''ArgonEmpty'' \<and> k \<noteq> ''Source''} \<union>
      {''Source''} \<times> normalize_source ` {v. (''Source'', v) \<in> set xs}" for xs :: "'a properties"
    by (force simp: visible_properties_def)
  show "set (visible_properties ps) = set (visible_properties qs)"
    unfolding vis assms(4) using assms(3) by auto
qed (fact assms(1) assms(2))+

definition example_codec :: "(bool, string) codec" where
  "example_codec = \<lparr>to_value = (\<lambda>v. case v of VString s \<Rightarrow> Some s | VOther b \<Rightarrow> None),
     json_null = ''null'', json_text = (\<lambda>j. j), json_string = Some, sha256 = (\<lambda>s. s)\<rparr>"

theorem content_new_canonical_witness:
  "content_new example_codec ''A'' ''Script''
     [(''Source'', VString (''a'' @ [CR, LF])), (''ArgonEmpty'', VOther True), (''X'', VString ''1'')] =
   content_new example_codec ''A'' ''Script''
     [(''X'', VString ''1''), (''Source'', VString (''a'' @ [LF]))]"
  by (rule content_new_canonical) auto

end
