(* ===== verification/Conflict.thy ===== *)
theory Conflict
  imports Content
begin

text \<open>
  The baseline conflict engine (\<^verbatim>\<open>src/core/conflict/mod.rs\<close>). The engine's state sits
  behind one mutex and every operation takes it for its whole decision, so each operation is
  one function on the state. What an operation does besides is returned: its decision, the
  new state, and the records handed to the notifier after the lock was dropped. The clock
  (\<open>Instant::now()\<close>) and the RFC 3339 time stamp of a new record are arguments.
\<close>

section \<open>Data\<close>

datatype fs_decision = Propagate | FsNoChange | FsConflict

datatype push_decision = Apply | PushNoChange | PushConflict

datatype classification = BothEdited | FsDeletedStudioEdited | StudioDeletedFsEdited

definition classification_str :: "classification \<Rightarrow> string" where
  "classification_str k =
     (case k of
        BothEdited \<Rightarrow> ''both-edited''
      | FsDeletedStudioEdited \<Rightarrow> ''fs-deleted-studio-edited''
      | StudioDeletedFsEdited \<Rightarrow> ''studio-deleted-fs-edited'')"

record 'j side =
  present :: bool
  content :: "'j content_state option"

definition side_present :: "'j content_state \<Rightarrow> 'j side" where
  "side_present s = \<lparr>present = True, content = Some s\<rparr>"

definition side_absent :: "'j side" where
  "side_absent = \<lparr>present = False, content = None\<rparr>"

record 'v studio_apply =
  sa_name :: string
  sa_class :: string
  sa_properties :: "'v properties"

record ('v, 'j) parked_rec =
  pk_id :: string
  pk_instance :: dref
  pk_info :: instance_info
  pk_classification :: classification
  pk_fs :: "'j side"
  pk_studio :: "'j side"
  pk_studio_apply :: "'v studio_apply option"
  pk_detected_at :: string

definition parked_class :: "('v, 'j) parked_rec \<Rightarrow> string" where
  "parked_class p =
     (case content (pk_studio p) of
        Some s \<Rightarrow> cs_class s
      | None \<Rightarrow> (case content (pk_fs p) of Some s \<Rightarrow> cs_class s | None \<Rightarrow> []))"

definition parked_kind :: "('v, 'j) parked_rec \<Rightarrow> string" where
  "parked_kind p = (if is_script (parked_class p) then ''script'' else ''properties'')"

record pending_edit =
  prior :: content_hash
  sent :: content_hash
  pend_at :: instant

record 'v tombstone =
  tb_hashes :: "content_hash list"
  tb_info :: instance_info
  tb_base :: "'v studio_apply"
  tb_at :: instant

record ('v, 'j) engine_state =
  baselines :: "dref \<rightharpoonup> content_hash"
  pending :: "dref \<rightharpoonup> pending_edit"
  tombstones :: "dref \<rightharpoonup> 'v tombstone"
  parked :: "('v, 'j) parked_rec list"
  next_id :: u64
  race_window :: duration
  park_limit :: nat
  overflow_warned :: bool

text \<open>\<open>CONFLICT_RACE_WINDOW\<close> (2 s) and \<open>CONFLICT_PARK_LIMIT\<close> of \<^verbatim>\<open>src/constants.rs\<close>.\<close>

definition CONFLICT_RACE_WINDOW :: duration where "CONFLICT_RACE_WINDOW = 2000"
definition CONFLICT_PARK_LIMIT :: nat where "CONFLICT_PARK_LIMIT = 512"

definition engine_new :: "('v, 'j) engine_state" where
  "engine_new = \<lparr>baselines = Map.empty, pending = Map.empty, tombstones = Map.empty,
     parked = [], next_id = 1, race_window = CONFLICT_RACE_WINDOW,
     park_limit = CONFLICT_PARK_LIMIT, overflow_warned = False\<rparr>"

section \<open>Bookkeeping\<close>

definition stamp :: "dref \<Rightarrow> content_hash \<Rightarrow> ('v, 'j) engine_state \<Rightarrow> ('v, 'j) engine_state" where
  "stamp iid hash st = st\<lparr>baselines := (baselines st)(iid \<mapsto> hash),
     pending := (pending st)(iid := None), tombstones := (tombstones st)(iid := None)\<rparr>"

definition forget :: "dref \<Rightarrow> ('v, 'j) engine_state \<Rightarrow> ('v, 'j) engine_state" where
  "forget iid st = st\<lparr>baselines := (baselines st)(iid := None),
     pending := (pending st)(iid := None), tombstones := (tombstones st)(iid := None)\<rparr>"

text \<open>
  \<open>prune\<close> collects the expired windows first and then commits each; the collected ids are
  distinct map keys, so the commits do not depend on the order they are made in.
\<close>

definition expired :: "instant \<Rightarrow> duration \<Rightarrow> instant \<Rightarrow> bool" where
  "expired now window at \<longleftrightarrow> now - at > window"

definition prune :: "('v, 'j) engine_state \<Rightarrow> instant \<Rightarrow> ('v, 'j) engine_state" where
  "prune st now =
     (let window = race_window st in
      st\<lparr>pending := (\<lambda>iid. case pending st iid of
            Some p \<Rightarrow> if expired now window (pend_at p) then None else Some p | None \<Rightarrow> None),
         baselines := (\<lambda>iid. case pending st iid of
            Some p \<Rightarrow> if expired now window (pend_at p) then Some (sent p) else baselines st iid
          | None \<Rightarrow> baselines st iid),
         tombstones := (\<lambda>iid. case tombstones st iid of
            Some t \<Rightarrow> if now - tb_at t \<le> window then Some t else None | None \<Rightarrow> None)\<rparr>)"

definition parked_index :: "('v, 'j) engine_state \<Rightarrow> dref \<Rightarrow> nat option" where
  "parked_index st iid = position (\<lambda>p. pk_instance p = iid) (parked st)"

definition is_parked :: "('v, 'j) engine_state \<Rightarrow> dref \<Rightarrow> bool" where
  "is_parked st iid \<longleftrightarrow> parked_index st iid \<noteq> None"

definition take_parked ::
  "string \<Rightarrow> ('v, 'j) engine_state \<Rightarrow> ('v, 'j) parked_rec option \<times> ('v, 'j) engine_state" where
  "take_parked conflict_id st =
     (case position (\<lambda>p. pk_id p = conflict_id) (parked st) of
        None \<Rightarrow> (None, st)
      | Some i \<Rightarrow> (Some (parked st ! i), st\<lparr>parked := remove_nth i (parked st)\<rparr>))"

definition restore :: "('v, 'j) parked_rec \<Rightarrow> ('v, 'j) engine_state \<Rightarrow> ('v, 'j) engine_state" where
  "restore p st = st\<lparr>parked := parked st @ [p]\<rparr>"

definition park ::
  "string \<Rightarrow> classification \<Rightarrow> dref \<Rightarrow> instance_info \<Rightarrow> 'j side \<Rightarrow> 'j side \<Rightarrow> 'v studio_apply option
   \<Rightarrow> ('v, 'j) engine_state \<Rightarrow> ('v, 'j) parked_rec option \<times> ('v, 'j) engine_state"
where
  "park ts cls inst info fs studio apply st =
     (if length (parked st) \<ge> park_limit st then (None, st\<lparr>overflow_warned := True\<rparr>)
      else let p = \<lparr>pk_id = ''c'' @ show_nat (unat (next_id st)), pk_instance = inst,
                    pk_info = info, pk_classification = cls, pk_fs = fs, pk_studio = studio,
                    pk_studio_apply = apply, pk_detected_at = ts\<rparr>
           in (Some p, st\<lparr>next_id := next_id st + 1, parked := parked st @ [p],
                 pending := (pending st)(inst := None),
                 tombstones := (tombstones st)(inst := None)\<rparr>))"

text \<open>\<open>entry(iid).or_insert(hash)\<close> on the baselines, returning the value now stored.\<close>

definition seed_baseline ::
  "dref \<Rightarrow> content_hash \<Rightarrow> ('v, 'j) engine_state \<Rightarrow> content_hash \<times> ('v, 'j) engine_state" where
  "seed_baseline iid hash st =
     (case baselines st iid of
        Some b \<Rightarrow> (b, st)
      | None \<Rightarrow> (hash, st\<lparr>baselines := (baselines st)(iid \<mapsto> hash)\<rparr>))"

section \<open>Decisions on filesystem changes\<close>

definition on_fs_addition ::
  "instant \<Rightarrow> dref \<Rightarrow> 'j content_state \<Rightarrow> ('v, 'j) engine_state
   \<Rightarrow> fs_decision \<times> ('v, 'j) engine_state"
where
  "on_fs_addition now iid s st0 =
     (let st = prune st0 now
      in (Propagate, st\<lparr>baselines := (baselines st)(iid \<mapsto> cs_hash s),
                        tombstones := (tombstones st)(iid := None)\<rparr>))"

definition on_fs_update ::
  "instant \<Rightarrow> ('v, 'j) captured \<Rightarrow> 'j content_state \<Rightarrow> ('v, 'j) engine_state
   \<Rightarrow> fs_decision \<times> ('v, 'j) engine_state"
where
  "on_fs_update now pre post st0 =
     (let iid = info_id (cap_info pre); st = prune st0 now in
      case parked_index st iid of
        Some i \<Rightarrow>
          let p = parked st ! i in
          if map_option cs_hash (content (pk_studio p)) = Some (cs_hash post)
          then (FsNoChange, st\<lparr>parked := remove_nth i (parked st),
                               baselines := (baselines st)(iid \<mapsto> cs_hash post)\<rparr>)
          else (FsConflict, st\<lparr>parked := (parked st)[i := p\<lparr>pk_fs := side_present post,
                  pk_classification := (if pk_classification p = FsDeletedStudioEdited
                     then BothEdited else pk_classification p)\<rparr>]\<rparr>)
      | None \<Rightarrow>
          let (baseline, st) = seed_baseline iid (cs_hash (cap_content pre)) st in
          case pending st iid of
            Some p \<Rightarrow>
              if cs_hash post = prior p
              then (Propagate, st\<lparr>pending := (pending st)(iid := None),
                                  baselines := (baselines st)(iid \<mapsto> prior p)\<rparr>)
              else (Propagate, st\<lparr>pending := (pending st)
                                    (iid \<mapsto> p\<lparr>sent := cs_hash post, pend_at := now\<rparr>)\<rparr>)
          | None \<Rightarrow>
              if cs_hash post = baseline then (FsNoChange, st)
              else (Propagate, st\<lparr>pending := (pending st)
                      (iid \<mapsto> \<lparr>prior = baseline, sent = cs_hash post, pend_at = now\<rparr>)\<rparr>))"

definition push_new :: "'a \<Rightarrow> 'a list \<Rightarrow> 'a list" where
  "push_new x xs = (if x \<in> set xs then xs else xs @ [x])"

definition on_fs_removal ::
  "instant \<Rightarrow> ('v, 'j) captured \<Rightarrow> ('v, 'j) engine_state
   \<Rightarrow> fs_decision \<times> ('v, 'j) engine_state \<times> ('v, 'j) parked_rec list"
where
  "on_fs_removal now pre st0 =
     (let iid = info_id (cap_info pre); st = prune st0 now in
      case parked_index st iid of
        Some i \<Rightarrow>
          let p = parked st ! i in
          if \<not> present (pk_studio p)
          then (FsNoChange, st\<lparr>parked := remove_nth i (parked st),
                  baselines := (baselines st)(iid := None), pending := (pending st)(iid := None)\<rparr>, [])
          else
            let p' = p\<lparr>pk_fs := side_absent, pk_classification := FsDeletedStudioEdited\<rparr>
            in (FsConflict, st\<lparr>parked := (parked st)[i := p']\<rparr>,
                if pk_classification p \<noteq> FsDeletedStudioEdited then [p'] else [])
      | None \<Rightarrow>
          let hashes0 = [cs_hash (cap_content pre)];
              hashes1 = (case baselines st iid of Some b \<Rightarrow> push_new b hashes0 | None \<Rightarrow> hashes0);
              hashes = (case pending st iid of Some p \<Rightarrow> push_new (prior p) hashes1 | None \<Rightarrow> hashes1)
          in (Propagate, st\<lparr>baselines := (baselines st)(iid := None),
                pending := (pending st)(iid := None),
                tombstones := (tombstones st)(iid \<mapsto>
                  \<lparr>tb_hashes = hashes, tb_info = cap_info pre,
                   tb_base = \<lparr>sa_name = cs_name (cap_content pre),
                              sa_class = cs_class (cap_content pre),
                              sa_properties = cap_properties pre\<rparr>,
                   tb_at = now\<rparr>)\<rparr>, []))"

section \<open>Decisions on Studio pushes\<close>

definition on_push_addition ::
  "instant \<Rightarrow> dref \<Rightarrow> ('v, 'j) engine_state \<Rightarrow> push_decision \<times> ('v, 'j) engine_state" where
  "on_push_addition now iid st0 =
     (let st = prune st0 now in (Apply, st\<lparr>tombstones := (tombstones st)(iid := None)\<rparr>))"

definition park_conflict ::
  "string \<Rightarrow> classification \<Rightarrow> dref \<Rightarrow> instance_info \<Rightarrow> 'j side \<Rightarrow> 'j side \<Rightarrow> 'v studio_apply option
   \<Rightarrow> ('v, 'j) engine_state
   \<Rightarrow> push_decision \<times> ('v, 'j) engine_state \<times> ('v, 'j) parked_rec list"
where
  "park_conflict ts cls inst info fs studio apply st =
     (case park ts cls inst info fs studio apply st of
        (Some p, st') \<Rightarrow> (PushConflict, st', [p])
      | (None, st') \<Rightarrow> (PushConflict, st', []))"

definition on_push_update ::
  "instant \<Rightarrow> string \<Rightarrow> ('v, 'j) captured \<Rightarrow> 'j content_state \<Rightarrow> 'v studio_apply
   \<Rightarrow> ('v, 'j) engine_state
   \<Rightarrow> push_decision \<times> ('v, 'j) engine_state \<times> ('v, 'j) parked_rec list"
where
  "on_push_update now ts pre pushed apply st0 =
     (let iid = info_id (cap_info pre); st = prune st0 now in
      case parked_index st iid of
        Some i \<Rightarrow>
          let p = parked st ! i in
          if map_option cs_hash (content (pk_fs p)) = Some (cs_hash pushed)
          then (PushNoChange, st\<lparr>parked := remove_nth i (parked st),
                                 baselines := (baselines st)(iid \<mapsto> cs_hash pushed)\<rparr>, [])
          else
            let p' = p\<lparr>pk_studio := side_present pushed, pk_studio_apply := Some apply,
                       pk_classification := (if pk_classification p = StudioDeletedFsEdited
                          then BothEdited else pk_classification p)\<rparr>
            in (PushConflict, st\<lparr>parked := (parked st)[i := p']\<rparr>,
                if pk_classification p = StudioDeletedFsEdited then [p'] else [])
      | None \<Rightarrow>
          let (baseline, st) = seed_baseline iid (cs_hash (cap_content pre)) st in
          case pending st iid of
            Some p \<Rightarrow>
              if cs_hash pushed = sent p
              then (PushNoChange, st\<lparr>pending := (pending st)(iid := None),
                                     baselines := (baselines st)(iid \<mapsto> sent p)\<rparr>, [])
              else if cs_hash pushed = prior p then (PushNoChange, st, [])
              else park_conflict ts BothEdited iid (cap_info pre) (side_present (cap_content pre))
                     (side_present pushed) (Some apply) st
          | None \<Rightarrow>
              if cs_hash pushed = cs_hash (cap_content pre)
              then (PushNoChange, st\<lparr>baselines := (baselines st)(iid \<mapsto> cs_hash pushed)\<rparr>, [])
              else if baseline = cs_hash (cap_content pre) then (Apply, st, [])
              else park_conflict ts BothEdited iid (cap_info pre) (side_present (cap_content pre))
                     (side_present pushed) (Some apply) st)"

definition overlay :: "string option \<Rightarrow> 'v properties option \<Rightarrow> 'v studio_apply \<Rightarrow> 'v studio_apply" where
  "overlay name properties a =
     a\<lparr>sa_name := (case name of Some n \<Rightarrow> n | None \<Rightarrow> sa_name a),
       sa_properties := (case properties of Some ps \<Rightarrow> ps | None \<Rightarrow> sa_properties a)\<rparr>"

definition apply_content :: "('v, 'j) codec \<Rightarrow> 'v studio_apply \<Rightarrow> 'j content_state" where
  "apply_content c a = content_new c (sa_name a) (sa_class a) (sa_properties a)"

definition on_push_update_missing ::
  "('v, 'j) codec \<Rightarrow> instant \<Rightarrow> string \<Rightarrow> dref \<Rightarrow> string option \<Rightarrow> 'v properties option
   \<Rightarrow> ('v, 'j) engine_state
   \<Rightarrow> push_decision \<times> ('v, 'j) engine_state \<times> ('v, 'j) parked_rec list"
where
  "on_push_update_missing c now ts iid name properties st0 =
     (let st = prune st0 now in
      case parked_index st iid of
        Some i \<Rightarrow>
          let p = parked st ! i in
          (PushConflict,
           case pk_studio_apply p of
             Some a \<Rightarrow>
               let a' = overlay name properties a
               in st\<lparr>parked := (parked st)[i := p\<lparr>pk_studio_apply := Some a',
                       pk_studio := side_present (apply_content c a')\<rparr>]\<rparr>
           | None \<Rightarrow> st, [])
      | None \<Rightarrow>
          case tombstones st iid of
            None \<Rightarrow> (PushNoChange, st, [])
          | Some t \<Rightarrow>
              let a = overlay name properties (tb_base t); pushed = apply_content c a in
              if cs_hash pushed \<in> set (tb_hashes t) then (PushNoChange, st, [])
              else park_conflict ts FsDeletedStudioEdited iid (tb_info t) side_absent
                     (side_present pushed) (Some a)
                     (st\<lparr>tombstones := (tombstones st)(iid := None)\<rparr>))"

definition on_push_removal ::
  "instant \<Rightarrow> string \<Rightarrow> ('v, 'j) captured \<Rightarrow> ('v, 'j) engine_state
   \<Rightarrow> push_decision \<times> ('v, 'j) engine_state \<times> ('v, 'j) parked_rec list"
where
  "on_push_removal now ts pre st0 =
     (let iid = info_id (cap_info pre); st = prune st0 now in
      case parked_index st iid of
        Some i \<Rightarrow>
          let p = parked st ! i in
          if \<not> present (pk_fs p)
          then (PushNoChange, st\<lparr>parked := remove_nth i (parked st),
                                 baselines := (baselines st)(iid := None)\<rparr>, [])
          else
            let p' = p\<lparr>pk_studio := side_absent, pk_studio_apply := None,
                       pk_classification := StudioDeletedFsEdited\<rparr>
            in (PushConflict, st\<lparr>parked := (parked st)[i := p']\<rparr>,
                if pk_classification p \<noteq> StudioDeletedFsEdited then [p'] else [])
      | None \<Rightarrow>
          let (baseline, st) = seed_baseline iid (cs_hash (cap_content pre)) st in
          if pending st iid \<noteq> None \<or> baseline \<noteq> cs_hash (cap_content pre)
          then park_conflict ts StudioDeletedFsEdited iid (cap_info pre)
                 (side_present (cap_content pre)) side_absent None st
          else (Apply, st, []))"

definition on_push_removal_missing ::
  "instant \<Rightarrow> dref \<Rightarrow> ('v, 'j) engine_state \<Rightarrow> push_decision \<times> ('v, 'j) engine_state" where
  "on_push_removal_missing now iid st0 =
     (let st = prune st0 now;
          st = (case parked_index st iid of
                  Some i \<Rightarrow> st\<lparr>parked := remove_nth i (parked st)\<rparr> | None \<Rightarrow> st)
      in (PushNoChange, st\<lparr>tombstones := (tombstones st)(iid := None),
                           baselines := (baselines st)(iid := None)\<rparr>))"

end
