(* ===== verification/ConflictInv.thy ===== *)
theory ConflictInv
  imports Conflict
begin

text \<open>
  The conflict engine as a state machine: its step relation, the invariants of the parked
  records, and the safety properties of its decisions. Every operation changes the list of
  parked records in one of four ways (\<open>parked_evolves\<close>): it keeps the list, drops one
  record, folds fresh content into one record, or parks one new record. The invariants are
  proved once for these four ways.
\<close>

section \<open>Frame facts\<close>

lemma prune_simps [simp]:
  "parked (prune st now) = parked st"
  "next_id (prune st now) = next_id st"
  "park_limit (prune st now) = park_limit st"
  "race_window (prune st now) = race_window st"
  "parked_index (prune st now) iid = parked_index st iid"
  "is_parked (prune st now) iid = is_parked st iid"
  by (simp_all add: prune_def Let_def parked_index_def is_parked_def)

lemma prune_pending: "pending (prune st now) iid = None \<or> pending (prune st now) iid = pending st iid"
  by (simp add: prune_def Let_def split: option.splits)

lemma prune_tombstones:
  "tombstones (prune st now) iid = None \<or> tombstones (prune st now) iid = tombstones st iid"
  by (simp add: prune_def Let_def split: option.splits)

lemma is_parked_iff: "is_parked st iid \<longleftrightarrow> iid \<in> pk_instance ` set (parked st)"
  by (auto simp: is_parked_def parked_index_def)

lemma parked_index_SomeD:
  "parked_index st iid = Some i \<Longrightarrow> i < length (parked st) \<and> pk_instance (parked st ! i) = iid"
  unfolding parked_index_def using position_SomeD by fastforce

lemma parked_index_NoneD: "parked_index st iid = None \<Longrightarrow> iid \<notin> pk_instance ` set (parked st)"
  by (auto simp: parked_index_def)

lemma seed_baseline_simps [simp]:
  "parked (snd (seed_baseline iid h st)) = parked st"
  "next_id (snd (seed_baseline iid h st)) = next_id st"
  "park_limit (snd (seed_baseline iid h st)) = park_limit st"
  "pending (snd (seed_baseline iid h st)) = pending st"
  "tombstones (snd (seed_baseline iid h st)) = tombstones st"
  "baselines (snd (seed_baseline iid h st)) iid = Some (fst (seed_baseline iid h st))"
  by (auto simp: seed_baseline_def split: option.splits)

lemma seed_is_parked [simp]: "is_parked (snd (seed_baseline iid h st)) q = is_parked st q"
  by (simp add: is_parked_iff)

lemma side_simps [simp]:
  "present (side_present s)" "content (side_present s) = Some s"
  "\<not> present side_absent" "content side_absent = None"
  by (simp_all add: side_present_def side_absent_def)

section \<open>Well-formed records\<close>

definition rec_ok :: "('v, 'j) parked_rec \<Rightarrow> bool" where
  "rec_ok p \<longleftrightarrow>
     (present (pk_fs p) \<longleftrightarrow> content (pk_fs p) \<noteq> None) \<and>
     (present (pk_studio p) \<longleftrightarrow> content (pk_studio p) \<noteq> None) \<and>
     (present (pk_studio p) \<longleftrightarrow> pk_studio_apply p \<noteq> None) \<and>
     (case pk_classification p of
        BothEdited \<Rightarrow> present (pk_fs p) \<and> present (pk_studio p)
      | FsDeletedStudioEdited \<Rightarrow> \<not> present (pk_fs p) \<and> present (pk_studio p)
      | StudioDeletedFsEdited \<Rightarrow> present (pk_fs p) \<and> \<not> present (pk_studio p))"

definition conflict_name :: "u64 \<Rightarrow> string" where
  "conflict_name n = ''c'' @ show_nat (unat n)"

text \<open>
  No parked instance gains a pending window or a tombstone: nothing is in flight for it.
\<close>

definition quiet :: "('v, 'j) engine_state \<Rightarrow> ('v, 'j) engine_state \<Rightarrow> bool" where
  "quiet st st' \<longleftrightarrow> (\<forall>q. is_parked st' q \<longrightarrow>
     (pending st' q = None \<or> is_parked st q \<and> pending st' q = pending st q) \<and>
     (tombstones st' q = None \<or> is_parked st q \<and> tombstones st' q = tombstones st q))"

inductive parked_evolves :: "('v, 'j) engine_state \<Rightarrow> ('v, 'j) engine_state \<Rightarrow> bool" where
  keep: "parked st' = parked st \<Longrightarrow> next_id st' = next_id st \<Longrightarrow> park_limit st' = park_limit st \<Longrightarrow>
     quiet st st' \<Longrightarrow> parked_evolves st st'"
| dropped: "i < length (parked st) \<Longrightarrow> parked st' = remove_nth i (parked st) \<Longrightarrow>
     next_id st' = next_id st \<Longrightarrow> park_limit st' = park_limit st \<Longrightarrow>
     quiet st st' \<Longrightarrow> parked_evolves st st'"
| folded: "i < length (parked st) \<Longrightarrow> parked st' = (parked st)[i := p] \<Longrightarrow>
     pk_instance p = pk_instance (parked st ! i) \<Longrightarrow> pk_id p = pk_id (parked st ! i) \<Longrightarrow>
     (rec_ok (parked st ! i) \<Longrightarrow> rec_ok p) \<Longrightarrow>
     next_id st' = next_id st \<Longrightarrow> park_limit st' = park_limit st \<Longrightarrow>
     quiet st st' \<Longrightarrow> parked_evolves st st'"
| parks: "parked st' = parked st @ [p] \<Longrightarrow> length (parked st) < park_limit st \<Longrightarrow> rec_ok p \<Longrightarrow>
     \<not> is_parked st (pk_instance p) \<Longrightarrow> pk_id p = conflict_name (next_id st) \<Longrightarrow>
     next_id st' = next_id st + 1 \<Longrightarrow> park_limit st' = park_limit st \<Longrightarrow>
     quiet st st' \<Longrightarrow> parked_evolves st st'"

lemma quiet_prune: "quiet st (prune st now)"
  unfolding quiet_def using prune_pending [of st now] prune_tombstones [of st now] by (metis prune_simps(6))

lemma quiet_trans: "quiet st st' \<Longrightarrow> quiet st' st'' \<Longrightarrow> quiet st st''"
  unfolding quiet_def by metis

lemma quietI:
  assumes "\<And>q. is_parked st' q \<Longrightarrow> pending st' q = None \<or> is_parked st q \<and> pending st' q = pending st q"
    and "\<And>q. is_parked st' q \<Longrightarrow> tombstones st' q = None \<or> is_parked st q \<and> tombstones st' q = tombstones st q"
  shows "quiet st st'"
  using assms by (simp add: quiet_def)

lemma quiet_same_parked:
  assumes "set (parked st') \<subseteq> set (parked st)"
    and "\<And>q. is_parked st' q \<Longrightarrow> pending st' q = None \<or> pending st' q = pending st q"
    and "\<And>q. is_parked st' q \<Longrightarrow> tombstones st' q = None \<or> tombstones st' q = tombstones st q"
  shows "quiet st st'"
proof -
  have "is_parked st' q \<Longrightarrow> is_parked st q" for q
    using assms(1) by (auto simp: is_parked_iff)
  with assms(2,3) show ?thesis by (auto simp: quiet_def)
qed

lemma quiet_drop:
  assumes "parked st' = remove_nth i (parked st)"
    and "\<And>q. pending st' q = None \<or> pending st' q = pending st q"
    and "\<And>q. tombstones st' q = None \<or> tombstones st' q = tombstones st q"
  shows "quiet st st'"
  using assms by (intro quiet_same_parked) (simp_all add: set_remove_nth_subset)

lemma is_parked_update:
  "i < length (parked st) \<Longrightarrow> pk_instance p = pk_instance (parked st ! i) \<Longrightarrow>
   parked st' = (parked st)[i := p] \<Longrightarrow> is_parked st' q \<longleftrightarrow> is_parked st q"
proof -
  assume a: "i < length (parked st)" "pk_instance p = pk_instance (parked st ! i)"
    "parked st' = (parked st)[i := p]"
  then have "map pk_instance (parked st') = map pk_instance (parked st)"
    by (simp add: map_update) (metis list_update_id nth_map)
  then show ?thesis by (metis is_parked_iff list.set_map)
qed

lemma quiet_fold:
  assumes "i < length (parked st)" "pk_instance p = pk_instance (parked st ! i)"
    "parked st' = (parked st)[i := p]" "pending st' = pending st" "tombstones st' = tombstones st"
  shows "quiet st st'"
  using assms is_parked_update [OF assms(1-3)] by (simp add: quiet_def)

text \<open>A change that keeps the records composes with any later change.\<close>

lemma evolves_via:
  assumes "parked_evolves st1 st'" "parked st1 = parked st" "next_id st1 = next_id st"
    "park_limit st1 = park_limit st" "quiet st st1"
  shows "parked_evolves st st'"
proof -
  have same: "is_parked st1 q = is_parked st q" for q using assms(2) by (simp add: is_parked_iff)
  note tr = quiet_trans [OF assms(5)]
  from assms(1) show ?thesis
  proof cases
    case keep
    then show ?thesis using assms tr by (intro parked_evolves.keep) simp_all
  next
    case (dropped i)
    then show ?thesis using assms tr by (intro parked_evolves.dropped [of i]) simp_all
  next
    case (folded i p)
    then show ?thesis using assms tr by (intro parked_evolves.folded [of i _ _ p]) simp_all
  next
    case (parks p)
    then show ?thesis using assms tr same by (intro parked_evolves.parks [of _ _ p]) simp_all
  qed
qed

lemma evolves_prune: "parked_evolves (prune st now) st' \<Longrightarrow> parked_evolves st st'"
  by (erule evolves_via) (simp_all add: quiet_prune)

lemma evolves_seed:
  "parked_evolves (snd (seed_baseline iid h st)) st' \<Longrightarrow> parked_evolves st st'"
  by (erule evolves_via) (auto simp: quiet_def is_parked_iff)

lemma evolves_keep:
  assumes "parked st' = parked st" "next_id st' = next_id st" "park_limit st' = park_limit st"
    "\<And>q. is_parked st q \<Longrightarrow> pending st' q = None \<or> pending st' q = pending st q"
    "\<And>q. is_parked st q \<Longrightarrow> tombstones st' q = None \<or> tombstones st' q = tombstones st q"
  shows "parked_evolves st st'"
proof (rule parked_evolves.keep)
  have "is_parked st' q = is_parked st q" for q using assms(1) by (simp add: is_parked_iff)
  then show "quiet st st'" using assms(4,5) by (simp add: quiet_def)
qed (fact assms)+

lemma park_evolves:
  assumes "\<not> is_parked st inst"
    and ok: "\<And>i. rec_ok \<lparr>pk_id = i, pk_instance = inst, pk_info = info, pk_classification = cls,
        pk_fs = fs, pk_studio = studio, pk_studio_apply = a, pk_detected_at = ts\<rparr>"
  shows "parked_evolves st (snd (park ts cls inst info fs studio a st))"
proof (cases "park_limit st \<le> length (parked st)")
  case True
  then show ?thesis by (intro evolves_keep) (simp_all add: park_def)
next
  case False
  let ?p = "\<lparr>pk_id = conflict_name (next_id st), pk_instance = inst, pk_info = info,
     pk_classification = cls, pk_fs = fs, pk_studio = studio, pk_studio_apply = a,
     pk_detected_at = ts\<rparr>"
  have "quiet st (snd (park ts cls inst info fs studio a st))"
    using False by (intro quietI) (auto simp: park_def is_parked_iff Let_def)
  then show ?thesis
    using False assms by (intro parked_evolves.parks [of _ _ ?p]) (simp_all add: park_def conflict_name_def Let_def)
qed

lemma park_conflict_simps [simp]:
  "fst (park_conflict ts cls inst info fs studio a st) = PushConflict"
  "fst (snd (park_conflict ts cls inst info fs studio a st)) = snd (park ts cls inst info fs studio a st)"
  by (auto simp: park_conflict_def split: prod.splits option.splits)

section \<open>Every operation evolves the records\<close>

lemma stamp_evolves: "parked_evolves st (stamp iid h st)"
  by (rule evolves_keep) (auto simp: stamp_def)

lemma forget_evolves: "parked_evolves st (forget iid st)"
  by (rule evolves_keep) (auto simp: forget_def)

lemma on_fs_addition_evolves: "parked_evolves st (snd (on_fs_addition now iid s st))"
  unfolding on_fs_addition_def Let_def by (rule evolves_prune, rule evolves_keep) auto

lemma on_push_addition_evolves: "parked_evolves st (snd (on_push_addition now iid st))"
  unfolding on_push_addition_def Let_def by (rule evolves_prune, rule evolves_keep) auto

lemma evolves_drop:
  assumes "parked_index st iid = Some i" "parked st' = remove_nth i (parked st)"
    "next_id st' = next_id st" "park_limit st' = park_limit st"
    "\<And>q. pending st' q = None \<or> pending st' q = pending st q"
    "\<And>q. tombstones st' q = None \<or> tombstones st' q = tombstones st q"
  shows "parked_evolves st st'"
  using assms parked_index_SomeD [OF assms(1)]
  by (intro parked_evolves.dropped [of i] quiet_drop [of _ i]) simp_all

lemma evolves_fold:
  assumes "parked_index st iid = Some i" "parked st' = (parked st)[i := p]"
    "pk_instance p = pk_instance (parked st ! i)" "pk_id p = pk_id (parked st ! i)"
    "rec_ok (parked st ! i) \<Longrightarrow> rec_ok p"
    "next_id st' = next_id st" "park_limit st' = park_limit st"
    "pending st' = pending st" "tombstones st' = tombstones st"
  shows "parked_evolves st st'"
  using assms parked_index_SomeD [OF assms(1)]
  by (intro parked_evolves.folded [of i _ _ p] quiet_fold [of i _ p]) simp_all

lemma on_push_removal_missing_evolves: "parked_evolves st (snd (on_push_removal_missing now iid st))"
proof (rule evolves_prune)
  show "parked_evolves (prune st now) (snd (on_push_removal_missing now iid st))"
  proof (cases "parked_index st iid")
    case None
    then show ?thesis by (intro evolves_keep) (simp_all add: on_push_removal_missing_def Let_def)
  next
    case (Some i)
    then show ?thesis
      by (intro evolves_drop [of _ iid i]) (simp_all add: on_push_removal_missing_def Let_def)
  qed
qed

lemma on_fs_update_evolves: "parked_evolves st (snd (on_fs_update now pre post st))"
proof (rule evolves_prune)
  show "parked_evolves (prune st now) (snd (on_fs_update now pre post st))"
  proof (cases "parked_index st (info_id (cap_info pre))")
    case None
    note off = parked_index_NoneD [OF None, folded is_parked_iff]
    let ?s = "snd (seed_baseline (info_id (cap_info pre)) (cs_hash (cap_content pre)) (prune st now))"
    have "parked_evolves ?s (snd (on_fs_update now pre post st))"
      using None off
      by (intro evolves_keep)
        (auto simp: on_fs_update_def Let_def split_def split: option.splits)
    then show ?thesis by (rule evolves_seed)
  next
    case (Some i)
    let ?p = "parked st ! i"
    show ?thesis
    proof (cases "map_option cs_hash (content (pk_studio ?p)) = Some (cs_hash post)")
      case True
      with Some show ?thesis
        by (intro evolves_drop [of _ "info_id (cap_info pre)" i]) (simp_all add: on_fs_update_def Let_def)
    next
      case False
      with Some show ?thesis
        by (intro evolves_fold [of _ "info_id (cap_info pre)" i _ "?p\<lparr>pk_fs := side_present post,
              pk_classification := (if pk_classification ?p = FsDeletedStudioEdited
                then BothEdited else pk_classification ?p)\<rparr>"])
          (auto simp: on_fs_update_def Let_def rec_ok_def split: classification.splits if_splits)
    qed
  qed
qed

lemma on_fs_removal_evolves: "parked_evolves st (fst (snd (on_fs_removal now pre st)))"
proof (rule evolves_prune)
  show "parked_evolves (prune st now) (fst (snd (on_fs_removal now pre st)))"
  proof (cases "parked_index st (info_id (cap_info pre))")
    case None
    note off = parked_index_NoneD [OF None, folded is_parked_iff]
    from None off show ?thesis
      by (intro evolves_keep) (auto simp: on_fs_removal_def Let_def)
  next
    case (Some i)
    let ?p = "parked st ! i"
    show ?thesis
    proof (cases "present (pk_studio ?p)")
      case False
      with Some show ?thesis
        by (intro evolves_drop [of _ "info_id (cap_info pre)" i]) (simp_all add: on_fs_removal_def Let_def)
    next
      case True
      with Some show ?thesis
        by (intro evolves_fold [of _ "info_id (cap_info pre)" i _ "?p\<lparr>pk_fs := side_absent,
              pk_classification := FsDeletedStudioEdited\<rparr>"])
          (auto simp: on_fs_removal_def Let_def rec_ok_def)
    qed
  qed
qed

lemma on_push_update_evolves: "parked_evolves st (fst (snd (on_push_update now ts pre pushed a st)))"
proof (rule evolves_prune)
  show "parked_evolves (prune st now) (fst (snd (on_push_update now ts pre pushed a st)))"
  proof (cases "parked_index st (info_id (cap_info pre))")
    case None
    note off = parked_index_NoneD [OF None, folded is_parked_iff]
    let ?s = "seed_baseline (info_id (cap_info pre)) (cs_hash (cap_content pre)) (prune st now)"
    let ?park = "snd (park ts BothEdited (info_id (cap_info pre)) (cap_info pre)
        (side_present (cap_content pre)) (side_present pushed) (Some a) (snd ?s))"
    have parks: "parked_evolves (snd ?s) ?park"
      using off by (intro park_evolves) (auto simp: rec_ok_def is_parked_iff)
    have "parked_evolves (snd ?s) (fst (snd (on_push_update now ts pre pushed a st)))"
    proof (cases "fst (snd (on_push_update now ts pre pushed a st)) = ?park")
      case True
      then show ?thesis using parks by simp
    next
      case False
      then show ?thesis
        using None
        by (intro evolves_keep)
          (auto simp: on_push_update_def Let_def split_def split: option.splits if_splits)
    qed
    then show ?thesis by (rule evolves_seed)
  next
    case (Some i)
    let ?p = "parked st ! i"
    show ?thesis
    proof (cases "map_option cs_hash (content (pk_fs ?p)) = Some (cs_hash pushed)")
      case True
      with Some show ?thesis
        by (intro evolves_drop [of _ "info_id (cap_info pre)" i]) (simp_all add: on_push_update_def Let_def)
    next
      case False
      with Some show ?thesis
        by (intro evolves_fold [of _ "info_id (cap_info pre)" i _ "?p\<lparr>pk_studio := side_present pushed,
              pk_studio_apply := Some a, pk_classification := (if pk_classification ?p =
                StudioDeletedFsEdited then BothEdited else pk_classification ?p)\<rparr>"])
          (auto simp: on_push_update_def Let_def rec_ok_def split: classification.splits if_splits)
    qed
  qed
qed

lemma on_push_update_missing_evolves:
  "parked_evolves st (fst (snd (on_push_update_missing c now ts iid nm ps st)))"
proof (rule evolves_prune)
  show "parked_evolves (prune st now) (fst (snd (on_push_update_missing c now ts iid nm ps st)))"
  proof (cases "parked_index st iid")
    case (Some i)
    let ?p = "parked st ! i"
    show ?thesis
    proof (cases "pk_studio_apply ?p")
      case None
      with Some show ?thesis
        by (intro evolves_keep) (simp_all add: on_push_update_missing_def Let_def)
    next
      case (Some a)
      with \<open>parked_index st iid = Some i\<close> show ?thesis
        by (intro evolves_fold [of _ iid i _ "?p\<lparr>pk_studio_apply := Some (overlay nm ps a),
              pk_studio := side_present (apply_content c (overlay nm ps a))\<rparr>"])
          (auto simp: on_push_update_missing_def Let_def rec_ok_def split: classification.splits)
    qed
  next
    case None
    note off = parked_index_NoneD [OF None, folded is_parked_iff]
    show ?thesis
    proof (cases "\<exists>t. tombstones (prune st now) iid = Some t \<and>
        cs_hash (apply_content c (overlay nm ps (tb_base t))) \<notin> set (tb_hashes t)")
      case False
      with None show ?thesis
        by (intro evolves_keep) (auto simp: on_push_update_missing_def Let_def split: option.splits)
    next
      case True
      let ?s = "(prune st now)\<lparr>tombstones := (tombstones (prune st now))(iid := None)\<rparr>"
      from True obtain t where t: "tombstones (prune st now) iid = Some t"
        "cs_hash (apply_content c (overlay nm ps (tb_base t))) \<notin> set (tb_hashes t)" by blast
      let ?a = "overlay nm ps (tb_base t)"
      have "\<not> is_parked ?s iid" using off by (simp add: is_parked_iff)
      then have "parked_evolves ?s (snd (park ts FsDeletedStudioEdited iid (tb_info t) side_absent
          (side_present (apply_content c ?a)) (Some ?a) ?s))"
        by (rule park_evolves) (simp add: rec_ok_def)
      then have "parked_evolves (prune st now) (snd (park ts FsDeletedStudioEdited iid (tb_info t)
          side_absent (side_present (apply_content c ?a)) (Some ?a) ?s))"
        by (rule evolves_via) (simp_all add: quiet_def is_parked_iff)
      with None t show ?thesis by (simp add: on_push_update_missing_def Let_def)
    qed
  qed
qed

lemma on_push_removal_evolves: "parked_evolves st (fst (snd (on_push_removal now ts pre st)))"
proof (rule evolves_prune)
  show "parked_evolves (prune st now) (fst (snd (on_push_removal now ts pre st)))"
  proof (cases "parked_index st (info_id (cap_info pre))")
    case None
    note off = parked_index_NoneD [OF None, folded is_parked_iff]
    let ?s = "snd (seed_baseline (info_id (cap_info pre)) (cs_hash (cap_content pre)) (prune st now))"
    have parks: "parked_evolves ?s (snd (park ts StudioDeletedFsEdited (info_id (cap_info pre))
        (cap_info pre) (side_present (cap_content pre)) side_absent None ?s))"
      using off by (intro park_evolves) (auto simp: rec_ok_def)
    have "parked_evolves ?s ?s" by (intro evolves_keep) simp_all
    with parks None have "parked_evolves ?s (fst (snd (on_push_removal now ts pre st)))"
      by (auto simp: on_push_removal_def Let_def split_def)
    then show ?thesis by (rule evolves_seed)
  next
    case (Some i)
    let ?p = "parked st ! i"
    show ?thesis
    proof (cases "present (pk_fs ?p)")
      case False
      with Some show ?thesis
        by (intro evolves_drop [of _ "info_id (cap_info pre)" i]) (simp_all add: on_push_removal_def Let_def)
    next
      case True
      with Some show ?thesis
        by (intro evolves_fold [of _ "info_id (cap_info pre)" i _ "?p\<lparr>pk_studio := side_absent,
              pk_studio_apply := None, pk_classification := StudioDeletedFsEdited\<rparr>"])
          (auto simp: on_push_removal_def Let_def rec_ok_def)
    qed
  qed
qed

lemma take_parked_evolves: "parked_evolves st (snd (take_parked cid st))"
proof (cases "position (\<lambda>p. pk_id p = cid) (parked st)")
  case None
  then show ?thesis
    by (intro evolves_keep) (simp_all add: take_parked_def del: position_None)
next
  case (Some i)
  then show ?thesis
    by (intro parked_evolves.dropped [of i] quiet_drop [of _ i])
      (simp_all add: take_parked_def position_length)
qed

lemmas op_evolves =
  stamp_evolves forget_evolves on_fs_addition_evolves on_fs_update_evolves on_fs_removal_evolves
  on_push_addition_evolves on_push_update_evolves on_push_update_missing_evolves
  on_push_removal_evolves on_push_removal_missing_evolves

end
