(* ===== verification/ConflictSafety.thy ===== *)
theory ConflictSafety
  imports ConflictInv
begin

text \<open>
  The conflict engine's invariants over whole runs and the safety of its decisions: what must
  hold for a Studio push or a filesystem change to be let through, that a race inside the
  window is parked and one after it is not, and how a parked record is kept consistent until
  both sides converge or a resolution takes it.
\<close>

section \<open>The engine as a state machine\<close>

inductive engine_op :: "('v, 'j) codec \<Rightarrow> ('v, 'j) engine_state \<Rightarrow> ('v, 'j) engine_state \<Rightarrow> bool"
  for c where
  op_stamp: "engine_op c st (stamp iid h st)"
| op_forget: "engine_op c st (forget iid st)"
| op_fs_addition: "engine_op c st (snd (on_fs_addition now iid s st))"
| op_fs_update: "engine_op c st (snd (on_fs_update now pre post st))"
| op_fs_removal: "engine_op c st (fst (snd (on_fs_removal now pre st)))"
| op_push_addition: "engine_op c st (snd (on_push_addition now iid st))"
| op_push_update: "engine_op c st (fst (snd (on_push_update now ts pre pushed a st)))"
| op_push_update_missing:
    "engine_op c st (fst (snd (on_push_update_missing c now ts iid nm ps st)))"
| op_push_removal: "engine_op c st (fst (snd (on_push_removal now ts pre st)))"
| op_push_removal_missing: "engine_op c st (snd (on_push_removal_missing now iid st))"

text \<open>
  A resolution (\<^verbatim>\<open>src/server/resolve.rs\<close>) takes a record out of the engine, works without
  holding the engine's lock, and either lands or puts the record back. The second component
  is the records that are out with a resolution; engine operations run meanwhile.
\<close>

type_synonym ('v, 'j) resolving = "('v, 'j) engine_state \<times> ('v, 'j) parked_rec list"

inductive resolve_step :: "('v, 'j) codec \<Rightarrow> ('v, 'j) resolving \<Rightarrow> ('v, 'j) resolving \<Rightarrow> bool"
  for c where
  engine: "engine_op c st st' \<Longrightarrow> resolve_step c (st, out) (st', out)"
| takes: "take_parked cid st = (Some p, st') \<Longrightarrow> resolve_step c (st, out) (st', p # out)"
| landed: "p \<in> set out \<Longrightarrow> resolve_step c (st, out) (st, remove1 p out)"
| failed: "p \<in> set out \<Longrightarrow> resolve_step c (st, out) (restore p st, remove1 p out)"

lemma engine_op_evolves: "engine_op c st st' \<Longrightarrow> parked_evolves st st'"
  by (cases rule: engine_op.cases) (auto simp: op_evolves)

section \<open>Invariants\<close>

definition engine_inv :: "('v, 'j) engine_state \<Rightarrow> bool" where
  "engine_inv st \<longleftrightarrow>
     (\<forall>p\<in>set (parked st). rec_ok p) \<and>
     distinct (map pk_instance (parked st)) \<and>
     length (parked st) \<le> park_limit st \<and>
     (\<forall>q. is_parked st q \<longrightarrow> pending st q = None \<and> tombstones st q = None)"

lemma quiet_inv:
  "quiet st st' \<Longrightarrow> \<forall>q. is_parked st q \<longrightarrow> pending st q = None \<and> tombstones st q = None \<Longrightarrow>
   \<forall>q. is_parked st' q \<longrightarrow> pending st' q = None \<and> tombstones st' q = None"
  unfolding quiet_def by metis

lemma rec_ok_update:
  "\<forall>p\<in>set ps. rec_ok p \<Longrightarrow> i < length ps \<Longrightarrow> (rec_ok (ps ! i) \<Longrightarrow> rec_ok p) \<Longrightarrow>
   \<forall>q\<in>set (ps[i := p]). rec_ok q"
  using set_update_subset_insert [of ps i p] by auto

lemma map_update_same: "i < length xs \<Longrightarrow> f x = f (xs ! i) \<Longrightarrow> map f (xs[i := x]) = map f xs"
  by (metis list_update_id map_update)

lemma evolves_inv:
  assumes "parked_evolves st st'" "engine_inv st"
  shows "engine_inv st'"
proof -
  from assms(1) have quiet: "\<forall>q. is_parked st' q \<longrightarrow> pending st' q = None \<and> tombstones st' q = None"
    using assms(2) unfolding engine_inv_def by (cases rule: parked_evolves.cases) (metis quiet_inv)+
  from assms(1) show ?thesis
  proof cases
    case keep
    with assms(2) quiet show ?thesis by (simp add: engine_inv_def)
  next
    case (dropped i)
    with assms(2) quiet show ?thesis
      using set_remove_nth_subset [of i "parked st"]
      by (auto simp: engine_inv_def map_remove_nth distinct_remove_nth length_remove_nth)
  next
    case (folded i p)
    have "map pk_instance (parked st') = map pk_instance (parked st)"
      using folded by (simp add: map_update_same)
    moreover have "\<forall>q\<in>set (parked st'). rec_ok q"
      unfolding folded(2) using assms(2) folded(1,5) by (intro rec_ok_update) (auto simp: engine_inv_def)
    ultimately show ?thesis using folded(2,7) assms(2) quiet unfolding engine_inv_def by simp
  next
    case (parks p)
    with assms(2) quiet show ?thesis by (auto simp: engine_inv_def is_parked_iff)
  qed
qed

interpretation engine: invariant_system "\<lambda>st. st = engine_new" "engine_op c" engine_inv for c
proof unfold_locales
  fix st :: "('a, 'b) engine_state"
  show "st = engine_new \<Longrightarrow> engine_inv st"
    by (simp add: engine_inv_def engine_new_def is_parked_iff)
qed (blast intro: evolves_inv engine_op_evolves)


definition example_props :: "string \<Rightarrow> bool properties" where
  "example_props src = [(''Source'', VString src)]"

definition example_content :: "string \<Rightarrow> string content_state" where
  "example_content src = content_new example_codec ''Hello'' ''ModuleScript'' (example_props src)"

definition example_captured :: "dref \<Rightarrow> string \<Rightarrow> (bool, string) captured" where
  "example_captured iid src =
     \<lparr>cap_info = \<lparr>info_id = iid, info_parent = 9, info_instance_path = ''S/Hello'',
        info_rel_path = Some ''src/Hello.luau''\<rparr>,
      cap_content = example_content src, cap_properties = example_props src\<rparr>"

definition example_apply :: "string \<Rightarrow> bool studio_apply" where
  "example_apply src = \<lparr>sa_name = ''Hello'', sa_class = ''ModuleScript'', sa_properties = example_props src\<rparr>"

lemmas example_defs = example_props_def example_content_def example_captured_def example_apply_def
  example_codec_def content_new_def encode_property_def hash_input_def Let_def


section \<open>Record ids stay unique across resolutions\<close>

definition ids_inv :: "nat \<Rightarrow> ('v, 'j) resolving \<Rightarrow> bool" where
  "ids_inv n s \<longleftrightarrow>
     distinct (map pk_id (parked (fst s) @ snd s)) \<and>
     (\<forall>p\<in>set (parked (fst s) @ snd s). \<exists>k<unat (next_id (fst s)). pk_id p = ''c'' @ show_nat k) \<and>
     unat (next_id (fst s)) \<le> Suc n"

lemma evolves_ids:
  assumes "parked_evolves st st'" "ids_inv n (st, out)" "Suc n < 2 ^ 64 - 1"
  shows "ids_inv (Suc n) (st', out)"
  using assms(1)
proof cases
  case keep
  with assms show ?thesis by (auto simp: ids_inv_def)
next
  case (dropped i)
  with assms(2) show ?thesis
    using set_remove_nth_subset [of i "parked st"] set_remove_nth_subset [of i "map pk_id (parked st)"]
    by (auto simp: ids_inv_def map_remove_nth distinct_remove_nth)
next
  case (folded i p)
  have "map pk_id (parked st') = map pk_id (parked st)" using folded by (simp add: map_update_same)
  then have "map pk_id (parked st' @ out) = map pk_id (parked st @ out)" by simp
  moreover from this have "pk_id ` set (parked st' @ out) = pk_id ` set (parked st @ out)"
    by (metis list.set_map)
  ultimately show ?thesis using folded assms(2) unfolding ids_inv_def fst_conv snd_conv
    by (metis (no_types, lifting) imageE imageI le_SucI)
next
  case (parks p)
  have bound: "unat (next_id st) < 2 ^ 64 - 1" using assms(2,3) by (simp add: ids_inv_def)
  then have suc: "unat (next_id st') = Suc (unat (next_id st))"
    using parks by (simp add: unat_word_ariths)
  have fresh: "pk_id p \<notin> pk_id ` set (parked st @ out)"
  proof
    assume "pk_id p \<in> pk_id ` set (parked st @ out)"
    then obtain q where "q \<in> set (parked st @ out)" "pk_id q = pk_id p" by (metis imageE)
    then obtain k where "k < unat (next_id st)" "pk_id p = ''c'' @ show_nat k"
      using assms(2) unfolding ids_inv_def by (metis fst_conv snd_conv)
    then show False using parks(5) by (simp add: conflict_name_def)
  qed
  have old: "\<exists>k<unat (next_id st'). pk_id q = ''c'' @ show_nat k" if "q \<in> set (parked st @ out)" for q
    using assms(2) that suc unfolding ids_inv_def by (metis fst_conv snd_conv less_SucI)
  have new: "\<exists>k<unat (next_id st'). pk_id p = ''c'' @ show_nat k"
    using parks(5) suc by (auto simp: conflict_name_def)
  have "distinct (map pk_id (parked st' @ out))"
    using assms(2) fresh parks(1) by (auto simp: ids_inv_def)
  moreover have "\<forall>q\<in>set (parked st' @ out). \<exists>k<unat (next_id st'). pk_id q = ''c'' @ show_nat k"
    using old new parks(1) by auto
  ultimately show ?thesis using assms(2) suc by (simp add: ids_inv_def)
qed

lemma resolve_step_ids:
  assumes "resolve_step c s s'" "ids_inv n s" "Suc n < 2 ^ 64 - 1"
  shows "ids_inv (Suc n) s'"
  using assms(1)
proof cases
  case (engine st st' out)
  then show ?thesis using assms evolves_ids engine_op_evolves by blast
next
  case (takes cid st p st' out)
  then obtain i where pos: "position (\<lambda>p. pk_id p = cid) (parked st) = Some i"
    and i: "p = parked st ! i" "st' = st\<lparr>parked := remove_nth i (parked st)\<rparr>"
    by (auto simp: take_parked_def split: option.splits)
  from remove_nth_split [OF position_length [OF pos]] obtain ys zs where
    "parked st = ys @ p # zs" "remove_nth i (parked st) = ys @ zs" using i(1) by metis
  with i(2) have "parked st = ys @ p # zs" "parked st' = ys @ zs" "next_id st' = next_id st"
    by simp_all
  with takes assms(2) show ?thesis by (auto simp: ids_inv_def)
next
  case (landed p out st)
  then obtain ys zs where "out = ys @ p # zs" "remove1 p out = ys @ zs"
    using remove1_split by metis
  with landed assms(2) show ?thesis by (auto simp: ids_inv_def)
next
  case (failed p out st)
  then obtain ys zs where "out = ys @ p # zs" "remove1 p out = ys @ zs"
    using remove1_split by metis
  with failed assms(2) show ?thesis by (auto simp: ids_inv_def restore_def)
qed

lemma resolve_steps_ids:
  "(resolve_step c ^^ n) (engine_new, []) s \<Longrightarrow> n < 2 ^ 64 - 1 \<Longrightarrow> ids_inv n s"
proof (induction n arbitrary: s)
  case 0
  then have "s = (engine_new, [])" by simp
  then show ?case by (simp add: ids_inv_def engine_new_def)
next
  case (Suc n)
  then obtain t where "(resolve_step c ^^ n) (engine_new, []) t" "resolve_step c t s" by auto
  with Suc show ?case using resolve_step_ids [of c t s n] by simp
qed

text \<open>
  Whatever engine operations and resolutions interleave, as long as fewer than
  \<open>2^64 - 1\<close> steps were taken (the record counter is a \<open>u64\<close>), no two records, parked
  or out with a resolution, carry the same conflict id: the id a client posts to
  \<open>/resolve\<close> names one record.
\<close>

theorem conflict_ids_unique:
  assumes "(resolve_step c ^^ n) (engine_new, []) (st, out)" "n < 2 ^ 64 - 1"
  shows "distinct (map pk_id (parked st @ out))"
  using resolve_steps_ids [OF assms] by (simp add: ids_inv_def)

theorem conflict_ids_unique_witness:
  "distinct (map pk_id (parked (fst (snd (on_push_update 5 ''t'' (example_captured 1 ''b'')
      (example_content ''c'') (example_apply ''c'')
      (snd (on_fs_update 4 (example_captured 1 ''a'') (example_content ''b'') engine_new))))) @ []))"
proof (rule conflict_ids_unique [of 2 example_codec])
  have "(resolve_step example_codec ^^ Suc (Suc 0)) (engine_new, [])
      (fst (snd (on_push_update 5 ''t'' (example_captured 1 ''b'') (example_content ''c'')
        (example_apply ''c'') (snd (on_fs_update 4 (example_captured 1 ''a'') (example_content ''b'')
          engine_new)))), [])"
    by (rule relpowp_Suc_I, rule relpowp_Suc_I, rule relpowp_0_I)
      (rule resolve_step.engine, rule op_fs_update op_push_update)+
  then show "(resolve_step example_codec ^^ 2) (engine_new, [])
      (fst (snd (on_push_update 5 ''t'' (example_captured 1 ''b'') (example_content ''c'')
        (example_apply ''c'') (snd (on_fs_update 4 (example_captured 1 ''a'') (example_content ''b'')
          engine_new)))), [])"
    by (simp only: numeral_2_eq_2)
qed simp

section \<open>When a push is applied\<close>

text \<open>
  The state disk and Studio agree on for an instance at \<open>now\<close>: the sent content once its
  window has expired, otherwise the recorded baseline, otherwise the tree's own content.
\<close>

definition agreed :: "('v, 'j) engine_state \<Rightarrow> instant \<Rightarrow> ('v, 'j) captured \<Rightarrow> content_hash" where
  "agreed st now pre =
     (case pending st (info_id (cap_info pre)) of
        Some p \<Rightarrow> if expired now (race_window st) (pend_at p) then sent p
                  else (case baselines st (info_id (cap_info pre)) of
                          Some b \<Rightarrow> b | None \<Rightarrow> cs_hash (cap_content pre))
      | None \<Rightarrow> (case baselines st (info_id (cap_info pre)) of
                   Some b \<Rightarrow> b | None \<Rightarrow> cs_hash (cap_content pre)))"

definition in_flight :: "('v, 'j) engine_state \<Rightarrow> instant \<Rightarrow> dref \<Rightarrow> bool" where
  "in_flight st now iid \<longleftrightarrow>
     (case pending st iid of Some p \<Rightarrow> \<not> expired now (race_window st) (pend_at p) | None \<Rightarrow> False)"

lemma prune_pending_None: "pending (prune st now) iid = None \<longleftrightarrow> \<not> in_flight st now iid"
  by (simp add: prune_def Let_def in_flight_def split: option.splits)

lemma prune_pending_ex: "(\<exists>p. pending (prune st now) iid = Some p) \<longleftrightarrow> in_flight st now iid"
  by (simp add: prune_def Let_def in_flight_def split: option.splits)

lemma prune_pending_Some:
  "pending (prune st now) iid = Some p \<longleftrightarrow>
     pending st iid = Some p \<and> \<not> expired now (race_window st) (pend_at p)"
  by (auto simp: prune_def Let_def split: option.splits)

lemma seed_agreed:
  "fst (seed_baseline (info_id (cap_info pre)) (cs_hash (cap_content pre)) (prune st now)) =
   agreed st now pre"
  by (simp add: seed_baseline_def prune_def Let_def agreed_def split: option.splits)

lemma parked_index_None: "parked_index st iid = None \<longleftrightarrow> \<not> is_parked st iid"
  by (simp add: is_parked_def)

lemma on_push_update_unparked:
  assumes "\<not> is_parked st (info_id (cap_info pre))" "\<not> in_flight st now (info_id (cap_info pre))"
  shows "fst (on_push_update now ts pre pushed a st) =
     (if cs_hash pushed = cs_hash (cap_content pre) then PushNoChange
      else if agreed st now pre = cs_hash (cap_content pre) then Apply else PushConflict)"
  using assms unfolding parked_index_None [symmetric] prune_pending_None [symmetric]
  by (simp add: on_push_update_def Let_def split_def seed_agreed)

lemma on_push_update_in_flight:
  assumes "\<not> is_parked st (info_id (cap_info pre))" "pending st (info_id (cap_info pre)) = Some p"
    "\<not> expired now (race_window st) (pend_at p)"
  shows "on_push_update now ts pre pushed a st =
     (let s = snd (seed_baseline (info_id (cap_info pre)) (cs_hash (cap_content pre)) (prune st now)) in
      if cs_hash pushed = sent p
      then (PushNoChange, s\<lparr>pending := (pending s)(info_id (cap_info pre) := None),
              baselines := (baselines s)(info_id (cap_info pre) \<mapsto> sent p)\<rparr>, [])
      else if cs_hash pushed = prior p then (PushNoChange, s, [])
      else park_conflict ts BothEdited (info_id (cap_info pre)) (cap_info pre)
             (side_present (cap_content pre)) (side_present pushed) (Some a) s)"
proof -
  have "parked_index st (info_id (cap_info pre)) = None"
    "pending (prune st now) (info_id (cap_info pre)) = Some p"
    using assms by (simp_all add: parked_index_None prune_pending_Some)
  then show ?thesis by (simp add: on_push_update_def Let_def split_def)
qed

lemma on_push_update_parked:
  assumes "is_parked st (info_id (cap_info pre))"
  shows "fst (on_push_update now ts pre pushed a st) \<noteq> Apply"
  using assms by (auto simp: is_parked_def on_push_update_def Let_def split: if_splits)

text \<open>
  C1: A Studio push is applied to disk exactly when the instance is not parked, no edit of
  it is in flight, disk still holds the content both sides last agreed on, and the push
  really changes it. In particular a push never overwrites a disk edit Studio has not seen.
\<close>

theorem push_applied_iff:
  "fst (on_push_update now ts pre pushed a st) = Apply \<longleftrightarrow>
     \<not> is_parked st (info_id (cap_info pre)) \<and>
     \<not> in_flight st now (info_id (cap_info pre)) \<and>
     agreed st now pre = cs_hash (cap_content pre) \<and>
     cs_hash pushed \<noteq> cs_hash (cap_content pre)"
proof (cases "is_parked st (info_id (cap_info pre))")
  case True
  then show ?thesis using on_push_update_parked by blast
next
  case off: False
  show ?thesis
  proof (cases "in_flight st now (info_id (cap_info pre))")
    case True
    then obtain p where "pending st (info_id (cap_info pre)) = Some p"
      "\<not> expired now (race_window st) (pend_at p)"
      by (auto simp: in_flight_def split: option.splits)
    with off True show ?thesis by (simp add: on_push_update_in_flight Let_def)
  next
    case False
    with off show ?thesis by (auto simp: on_push_update_unparked)
  qed
qed

lemma on_push_removal_parked:
  "is_parked st (info_id (cap_info pre)) \<Longrightarrow> fst (on_push_removal now ts pre st) \<noteq> Apply"
  by (auto simp: is_parked_def on_push_removal_def Let_def split: if_splits)

text \<open>
  C2: A Studio deletion is applied to disk exactly when the instance is not parked, no edit
  is in flight and disk holds the agreed content: a deletion never destroys a disk edit
  Studio has not seen.
\<close>

theorem removal_applied_iff:
  "fst (on_push_removal now ts pre st) = Apply \<longleftrightarrow>
     \<not> is_parked st (info_id (cap_info pre)) \<and>
     \<not> in_flight st now (info_id (cap_info pre)) \<and>
     agreed st now pre = cs_hash (cap_content pre)"
proof (cases "is_parked st (info_id (cap_info pre))")
  case True
  then show ?thesis using on_push_removal_parked by blast
next
  case False
  then have "parked_index st (info_id (cap_info pre)) = None" by (simp add: is_parked_def)
  with False show ?thesis
    by (simp add: on_push_removal_def Let_def split_def seed_agreed prune_pending_ex)
qed

section \<open>Parked instances are frozen\<close>

text \<open>
  C8: While an instance is parked nothing travels for it: no update or removal of it is
  propagated to Studio or applied to disk, whichever side reports it and whatever it carries.
\<close>

theorem parked_is_frozen:
  assumes "is_parked st iid" "info_id (cap_info pre) = iid"
  shows "fst (on_fs_update now pre post st) \<noteq> Propagate
    \<and> fst (on_fs_removal now pre st) \<noteq> Propagate
    \<and> fst (on_push_update now ts pre pushed a st) \<noteq> Apply
    \<and> fst (on_push_update_missing c now ts iid nm ps st) \<noteq> Apply
    \<and> fst (on_push_removal now ts pre st) \<noteq> Apply
    \<and> fst (on_push_removal_missing now iid st) \<noteq> Apply"
proof -
  obtain i where i: "parked_index st iid = Some i" using assms(1) by (auto simp: is_parked_def)
  have "fst (on_fs_update now pre post st) \<noteq> Propagate"
    using i assms(2) by (simp add: on_fs_update_def Let_def)
  moreover have "fst (on_fs_removal now pre st) \<noteq> Propagate"
    using i assms(2) by (simp add: on_fs_removal_def Let_def)
  moreover have "fst (on_push_update_missing c now ts iid nm ps st) \<noteq> Apply"
    using i by (simp add: on_push_update_missing_def Let_def)
  moreover have "fst (on_push_removal_missing now iid st) \<noteq> Apply"
    by (simp add: on_push_removal_missing_def Let_def)
  ultimately show ?thesis
    using assms on_push_update_parked on_push_removal_parked by blast
qed

lemma example_parked:
  "is_parked (fst (snd (on_push_update 5 ''t'' (example_captured 1 ''b'') (example_content ''c'')
      (example_apply ''c'') (stamp 1 (cs_hash (example_content ''a'')) engine_new)))) 1"
  by (simp add: on_push_update_def prune_def stamp_def engine_new_def is_parked_def parked_index_def
      seed_baseline_def park_conflict_def park_def CONFLICT_PARK_LIMIT_def example_defs
      split_def expired_def)

theorem parked_is_frozen_witness:
  "fst (on_fs_update 6 (example_captured 1 ''d'') (example_content ''e'')
     (fst (snd (on_push_update 5 ''t'' (example_captured 1 ''b'') (example_content ''c'')
      (example_apply ''c'') (stamp 1 (cs_hash (example_content ''a'')) engine_new))))) \<noteq> Propagate"
  using parked_is_frozen [OF example_parked, of "example_captured 1 ''d''" 6 "example_content ''e''"
      "''t''" "example_content ''e''" "example_apply ''e''" example_codec None None]
  by (simp add: example_captured_def)

lemma parked_index_unique:
  assumes "engine_inv st" "p \<in> set (parked st)"
  obtains i where "parked_index st (pk_instance p) = Some i" "parked st ! i = p"
    "pk_instance p \<notin> pk_instance ` set (remove_nth i (parked st))"
proof -
  have dist: "distinct (map pk_instance (parked st))" using assms(1) by (simp add: engine_inv_def)
  have "is_parked st (pk_instance p)" using assms(2) by (simp add: is_parked_iff)
  then obtain i where i: "parked_index st (pk_instance p) = Some i" by (auto simp: is_parked_def)
  note il = parked_index_SomeD [OF i]
  have at: "parked st ! i = p"
    using il dist assms(2) nth_mem [of i "parked st"] by (auto simp: distinct_map dest: inj_onD)
  have "set (remove_nth i (map pk_instance (parked st))) =
      set (map pk_instance (parked st)) - {map pk_instance (parked st) ! i}"
    using il by (intro set_remove_nth_distinct dist) simp
  then have "pk_instance p \<notin> set (map pk_instance (remove_nth i (parked st)))"
    using il at by (simp add: map_remove_nth)
  with i at that show ?thesis by simp
qed

text \<open>
  A conflict ends by convergence: when disk reaches the content Studio holds, nothing is
  sent, the record disappears and the content both sides now hold becomes the baseline; the
  same holds when Studio reaches the content disk holds.
\<close>

theorem convergence_unparks:
  assumes "engine_inv st" "p \<in> set (parked st)" "info_id (cap_info pre) = pk_instance p"
    and "map_option cs_hash (content (pk_studio p)) = Some (cs_hash s)"
    and "map_option cs_hash (content (pk_fs p)) = Some (cs_hash s')"
  shows "fst (on_fs_update now pre s st) = FsNoChange \<and>
      \<not> is_parked (snd (on_fs_update now pre s st)) (pk_instance p) \<and>
      baselines (snd (on_fs_update now pre s st)) (pk_instance p) = Some (cs_hash s) \<and>
      fst (on_push_update now ts pre s' a st) = PushNoChange \<and>
      \<not> is_parked (fst (snd (on_push_update now ts pre s' a st))) (pk_instance p) \<and>
      baselines (fst (snd (on_push_update now ts pre s' a st))) (pk_instance p) = Some (cs_hash s')"
proof -
  obtain i where i: "parked_index st (pk_instance p) = Some i" "parked st ! i = p"
    "pk_instance p \<notin> pk_instance ` set (remove_nth i (parked st))"
    using parked_index_unique [OF assms(1,2)] by blast
  have "on_fs_update now pre s st = (FsNoChange, (prune st now)\<lparr>parked := remove_nth i (parked st),
      baselines := (baselines (prune st now))(pk_instance p \<mapsto> cs_hash s)\<rparr>)"
    using i(1,2) assms(3,4) by (simp add: on_fs_update_def Let_def)
  moreover have "on_push_update now ts pre s' a st = (PushNoChange,
      (prune st now)\<lparr>parked := remove_nth i (parked st),
      baselines := (baselines (prune st now))(pk_instance p \<mapsto> cs_hash s')\<rparr>, [])"
    using i(1,2) assms(3,5) by (simp add: on_push_update_def Let_def)
  ultimately show ?thesis using i(3) by (simp add: is_parked_iff)
qed

lemmas engine_eval = on_push_update_def on_fs_update_def prune_def stamp_def engine_new_def
  is_parked_def parked_index_def seed_baseline_def park_conflict_def park_def
  CONFLICT_PARK_LIMIT_def CONFLICT_RACE_WINDOW_def split_def expired_def

definition example_conflict :: "(bool, string) engine_state" where
  "example_conflict = fst (snd (on_push_update 5 ''t'' (example_captured 1 ''b'')
     (example_content ''c'') (example_apply ''c'') (stamp 1 (cs_hash (example_content ''a'')) engine_new)))"

lemma example_conflict_inv: "engine_inv example_conflict"
  unfolding example_conflict_def
  by (rule evolves_inv [OF on_push_update_evolves], rule evolves_inv [OF stamp_evolves])
    (simp add: engine_inv_def engine_new_def is_parked_iff)

lemma example_conflict_parked:
  "parked example_conflict =
     [\<lparr>pk_id = ''c'' @ show_nat 1, pk_instance = 1, pk_info = cap_info (example_captured 1 ''b''),
       pk_classification = BothEdited, pk_fs = side_present (example_content ''b''),
       pk_studio = side_present (example_content ''c''), pk_studio_apply = Some (example_apply ''c''),
       pk_detected_at = ''t''\<rparr>]"
  by (simp add: example_conflict_def engine_eval example_defs)

theorem convergence_unparks_witness:
  "fst (on_fs_update 7 (example_captured 1 ''b'') (example_content ''c'') example_conflict) = FsNoChange \<and>
   fst (on_push_update 7 ''t'' (example_captured 1 ''b'') (example_content ''b'') (example_apply ''b'')
     example_conflict) = PushNoChange"
  using convergence_unparks [OF example_conflict_inv, of "hd (parked example_conflict)"
      "example_captured 1 ''b''" "example_content ''c''" "example_content ''b''" 7 "''t''" "example_apply ''b''"]
  by (simp add: example_conflict_parked example_captured_def)

section \<open>The race window\<close>

text \<open>
  C6: An edit on disk of an agreed instance is propagated at once. A Studio edit that
  reaches the daemon afterwards and matches neither the sent nor the agreed content is
  parked if it arrives within the race window of the propagation, and is applied if it
  arrives later: the window commits the sent content as the new agreement.
\<close>

theorem race_window_decides:
  assumes "\<not> is_parked st iid" "info_id (cap_info pre) = iid" "info_id (cap_info cur) = iid"
    and "cs_hash post \<noteq> b" "cs_hash (cap_content cur) = cs_hash post"
    and "cs_hash pushed \<noteq> cs_hash post" "cs_hash pushed \<noteq> b"
  shows "case on_fs_update t pre post (stamp iid b st) of (d, st1) \<Rightarrow>
    d = Propagate \<and>
    fst (on_push_update now ts cur pushed a st1) =
      (if now - t \<le> race_window st then PushConflict else Apply)"
proof -
  define r where "r = on_fs_update t pre post (stamp iid b st)"
  let ?p = "\<lparr>prior = b, sent = cs_hash post, pend_at = t\<rparr>"
  have idx: "parked_index (stamp iid b st) iid = None"
    using assms(1) by (simp add: is_parked_def parked_index_def stamp_def)
  have base: "pending (prune (stamp iid b st) t) iid = None"
    "baselines (prune (stamp iid b st) t) iid = Some b"
    by (simp_all add: prune_def stamp_def Let_def)
  have r: "fst r = Propagate" "pending (snd r) iid = Some ?p"
    "parked (snd r) = parked st" "race_window (snd r) = race_window st"
    using idx base assms(2,4)
    by (simp_all add: r_def on_fs_update_def Let_def seed_baseline_def) (simp_all add: stamp_def)
  have off: "\<not> is_parked (snd r) (info_id (cap_info cur))"
    using assms(1,3) r(3) by (simp add: is_parked_def parked_index_def)
  have "fst r = Propagate \<and> fst (on_push_update now ts cur pushed a (snd r)) =
      (if now - t \<le> race_window st then PushConflict else Apply)"
  proof (cases "now - t \<le> race_window st")
    case True
    then show ?thesis
      using r assms(3,6,7) on_push_update_in_flight [OF off, of ?p]
      by (simp add: expired_def Let_def)
  next
    case False
    then have "\<not> in_flight (snd r) now (info_id (cap_info cur))" "agreed (snd r) now cur = cs_hash post"
      using r assms(3) by (simp_all add: in_flight_def agreed_def expired_def)
    then show ?thesis using off r(1) assms(5,6) False by (simp add: on_push_update_unparked)
  qed
  then show ?thesis by (simp add: r_def split_def)
qed

theorem race_window_decides_witness:
  "fst (on_push_update 2004 ''t'' (example_captured 1 ''b'') (example_content ''c'') (example_apply ''c'')
     (snd (on_fs_update 4 (example_captured 1 ''a'') (example_content ''b'')
        (stamp 1 (cs_hash (example_content ''a'')) engine_new)))) = PushConflict \<and>
   fst (on_push_update 2005 ''t'' (example_captured 1 ''b'') (example_content ''c'') (example_apply ''c'')
     (snd (on_fs_update 4 (example_captured 1 ''a'') (example_content ''b'')
        (stamp 1 (cs_hash (example_content ''a'')) engine_new)))) = Apply"
proof -
  have h: "\<not> is_parked (engine_new :: (bool, string) engine_state) 1" "info_id (cap_info (example_captured 1 x)) = 1"
    "cs_hash (example_content ''b'') \<noteq> cs_hash (example_content ''a'')"
    "cs_hash (example_content ''c'') \<noteq> cs_hash (example_content ''b'')"
    "cs_hash (example_content ''c'') \<noteq> cs_hash (example_content ''a'')"
    "cs_hash (cap_content (example_captured 1 x)) = cs_hash (example_content x)"
    "race_window (engine_new :: (bool, string) engine_state) = 2000" for x
    by (simp_all add: is_parked_def parked_index_def engine_new_def CONFLICT_RACE_WINDOW_def example_defs)
  note w = race_window_decides [where st = engine_new and iid = 1
      and pre = "example_captured 1 ''a''" and cur = "example_captured 1 ''b''"
      and post = "example_content ''b''" and b = "cs_hash (example_content ''a'')"
      and pushed = "example_content ''c''" and t = 4 and ts = "''t''" and a = "example_apply ''c''"]
  show ?thesis using w [where now = 2004] w [where now = 2005] h by (simp add: split_def)
qed

text \<open>
  C7: A deletion on disk is propagated at once. A Studio update of the deleted instance is
  parked if it arrives within the race window and reports anything but the deleted or the
  agreed content; an echo of the deleted content, or an update that arrives later, is dropped
  and never resurrects the instance.
\<close>

theorem deletion_race_decides:
  assumes "\<not> is_parked st iid" "info_id (cap_info pre) = iid"
    and "edit = apply_content c (overlay nm ps \<lparr>sa_name = cs_name (cap_content pre),
           sa_class = cs_class (cap_content pre), sa_properties = cap_properties pre\<rparr>)"
  shows "case on_fs_removal t pre (stamp iid b st) of (d, st1, ns) \<Rightarrow>
    d = Propagate \<and> ns = [] \<and>
    fst (on_push_update_missing c now ts iid nm ps st1) =
      (if now - t \<le> race_window st \<and> cs_hash edit \<notin> {cs_hash (cap_content pre), b}
       then PushConflict else PushNoChange)"
proof -
  define r where "r = on_fs_removal t pre (stamp iid b st)"
  let ?base = "\<lparr>sa_name = cs_name (cap_content pre), sa_class = cs_class (cap_content pre),
    sa_properties = cap_properties pre\<rparr>"
  have idx: "parked_index (stamp iid b st) iid = None"
    using assms(1) by (simp add: is_parked_def parked_index_def stamp_def)
  have base: "pending (prune (stamp iid b st) t) iid = None"
    "baselines (prune (stamp iid b st) t) iid = Some b"
    by (simp_all add: prune_def stamp_def Let_def)
  have r: "fst r = Propagate" "snd (snd r) = []" "parked (fst (snd r)) = parked st"
    "race_window (fst (snd r)) = race_window st"
    "\<exists>h. tombstones (fst (snd r)) iid = Some \<lparr>tb_hashes = h, tb_info = cap_info pre, tb_base = ?base, tb_at = t\<rparr> \<and>
      set h = {cs_hash (cap_content pre), b}"
    using idx base assms(2)
    by (simp_all add: r_def on_fs_removal_def Let_def push_new_def) (simp_all add: stamp_def)
  have off: "parked_index (fst (snd r)) iid = None"
    using idx r(3) by (simp add: parked_index_def stamp_def)
  obtain h where h: "tombstones (fst (snd r)) iid = Some \<lparr>tb_hashes = h, tb_info = cap_info pre,
      tb_base = ?base, tb_at = t\<rparr>" "set h = {cs_hash (cap_content pre), b}" using r(5) by blast
  have "tombstones (prune (fst (snd r)) now) iid =
      (if now - t \<le> race_window st then tombstones (fst (snd r)) iid else None)"
    using h r(4) by (simp add: prune_def Let_def)
  then have "fst (on_push_update_missing c now ts iid nm ps (fst (snd r))) =
      (if now - t \<le> race_window st \<and> cs_hash edit \<notin> {cs_hash (cap_content pre), b}
       then PushConflict else PushNoChange)"
    using off h assms(3) by (simp add: on_push_update_missing_def Let_def)
  then show ?thesis using r(1,2) by (simp add: r_def split_def)
qed

theorem deletion_race_decides_witness:
  "fst (on_push_update_missing example_codec 5 ''t'' 1 None (Some (example_props ''x''))
     (fst (snd (on_fs_removal 4 (example_captured 1 ''a'')
        (stamp 1 (cs_hash (example_content ''a'')) engine_new))))) = PushConflict"
proof -
  have h: "\<not> is_parked (engine_new :: (bool, string) engine_state) 1"
    "race_window (engine_new :: (bool, string) engine_state) = 2000"
    by (simp_all add: is_parked_def parked_index_def engine_new_def CONFLICT_RACE_WINDOW_def)
  show ?thesis
    using deletion_race_decides [OF h(1) _ refl, where pre = "example_captured 1 ''a''" and t = 4
        and b = "cs_hash (example_content ''a'')" and c = example_codec and now = 5 and ts = "''t''"
        and nm = None and ps = "Some (example_props ''x'')"] h(2)
    by (simp add: split_def) (simp add: overlay_def apply_content_def example_defs)
qed

section \<open>A failed resolution can leave two records for one instance\<close>

text \<open>
  While a record is out with a resolution the instance is not parked, so a fresh
  conflict on it parks a second record; when the resolution then fails, \<open>restore\<close> appends the
  old record without looking. The uniqueness of C2 holds between the engine's own operations
  only: this run ends with two records parked for the same instance.
\<close>

theorem failed_resolution_duplicates:
  "\<exists>st. (resolve_step example_codec)\<^sup>*\<^sup>* (engine_new, []) (st, []) \<and>
     map pk_instance (parked st) = [1, 1]"
proof -
  let ?taken = "take_parked (''c'' @ show_nat 1) example_conflict"
  let ?p = "hd (parked example_conflict)"
  let ?again = "fst (snd (on_push_update 6 ''u'' (example_captured 1 ''b'') (example_content ''d'')
      (example_apply ''d'') (snd ?taken)))"
  have 1: "(resolve_step example_codec)\<^sup>*\<^sup>* (engine_new, []) (example_conflict, [])"
    unfolding example_conflict_def
    by (meson resolve_step.engine op_stamp op_push_update rtranclp.rtrancl_refl rtranclp.rtrancl_into_rtrancl)
  have "?taken = (Some ?p, snd ?taken)" by (simp add: take_parked_def example_conflict_parked)
  then have 2: "resolve_step example_codec (example_conflict, []) (snd ?taken, [?p])"
    by (rule resolve_step.takes)
  have 3: "resolve_step example_codec (snd ?taken, [?p]) (?again, [?p])"
    by (intro resolve_step.engine op_push_update)
  have 4: "resolve_step example_codec (?again, [?p]) (restore ?p ?again, [])"
    using resolve_step.failed [of ?p "[?p]" example_codec ?again] by simp
  have "map pk_instance (parked (restore ?p ?again)) = [1, 1]"
    by (simp add: take_parked_def example_conflict_parked restore_def)
      (simp add: example_conflict_def engine_eval example_defs remove_nth_def)
  then show ?thesis
    using 1 2 3 4 by (meson rtranclp.rtrancl_into_rtrancl)
qed

end
