(* ===== verification/SyncBase.thy ===== *)
theory SyncBase
  imports Content
begin

text \<open>
  The sync base (\<^verbatim>\<open>src/server/sync_base.rs\<close>): what both sides last agreed on, per instance
  path. The in-memory part sits behind a mutex, so every method is one function on the state,
  except \<open>tick\<close>, which releases the lock while it takes a tree snapshot: it is two functions,
  and other methods may run between them. The base file is part of the state; a write may
  fail, and because it goes through a temporary file and a rename, a failed write leaves the
  old contents. JSON (\<open>serde_json\<close>) and SHA-256 (\<open>sha2\<close>) are parameters.
\<close>

section \<open>Data\<close>

record key =
  key_class :: string
  key_source :: "string option"

record place =
  place_id :: u64
  game_id :: u64

record base_snapshot =
  sn_entries :: "key omap"
  sn_ambiguous :: oset
  sn_held :: oset

record stored =
  st_version :: u32
  st_place :: "place option"
  st_saved_at :: u64
  st_entries :: "key omap"
  st_ambiguous :: oset

datatype lookup = Known key | Absent | Unknown

record base_view =
  bv_entries :: "key omap"
  bv_ambiguous :: oset

record base_pending =
  bp_epoch :: u64
  bp_snapshot :: base_snapshot

record base_inner =
  sb_stored :: "stored option"
  sb_synced :: bool
  sb_epoch :: u64
  sb_place :: "place option"
  sb_pending :: "base_pending option"
  sb_last_generation :: "u64 option"
  sb_resume_generation :: "u64 option"

text \<open>The base with its file: \<open>None\<close> is a missing file.\<close>

record sync_base =
  sb_inner :: base_inner
  sb_file :: "string option"

text \<open>The packages the base relies on: the digest in lower-case hex and the JSON of a base.\<close>

record base_codec =
  sha_hex :: "string \<Rightarrow> string"
  ser_stored :: "stored \<Rightarrow> string"
  de_stored :: "string \<Rightarrow> stored option"

definition BASE_VERSION :: u32 where "BASE_VERSION = 1"

section \<open>Keys\<close>

definition source_hash :: "base_codec \<Rightarrow> string \<Rightarrow> string" where
  "source_hash c source = (if CR \<in> set source then sha_hex c (fold_crlf source) else sha_hex c source)"

definition key_of :: "base_codec \<Rightarrow> string \<Rightarrow> 'v properties \<Rightarrow> key" where
  "key_of c cls properties =
     \<lparr>key_class = cls,
      key_source = (if is_script cls
        then Some (source_hash c (case map_of properties ''Source'' of Some (VString s) \<Rightarrow> s | _ \<Rightarrow> []))
        else None)\<rparr>"

text \<open>
  \<open>str::trim\<close>: the UTF-8 encodings of the Unicode \<open>White_Space\<close> characters.
\<close>

definition whitespace :: "string list" where
  "whitespace =
     [[CHR 0x09], [CHR 0x0A], [CHR 0x0B], [CHR 0x0C], [CHR 0x0D], [CHR 0x20],
      [CHR 0xC2, CHR 0x85], [CHR 0xC2, CHR 0xA0], [CHR 0xE1, CHR 0x9A, CHR 0x80]] @
     map (\<lambda>b. [CHR 0xE2, CHR 0x80, char_of b]) ([0x80..<0x8B] @ [0xA8, 0xA9, 0xAF :: nat]) @
     [[CHR 0xE2, CHR 0x81, CHR 0x9F], [CHR 0xE3, CHR 0x80, CHR 0x80]]"

function strip_start :: "string list \<Rightarrow> string \<Rightarrow> string" where
  "strip_start ws s =
     (case find (\<lambda>w. w \<noteq> [] \<and> prefix w s) ws of
        None \<Rightarrow> s | Some w \<Rightarrow> strip_start ws (drop (length w) s))"
  by pat_completeness auto
termination
proof (relation "measure (\<lambda>(ws, s). length s)")
  fix ws s w
  assume "find (\<lambda>w. w \<noteq> [] \<and> prefix w s) ws = Some w"
  then have "w \<noteq> []" "length w \<le> length s"
    by (auto simp: find_Some_iff dest: prefix_length_le)
  then show "((ws, drop (length w) s), ws, s) \<in> measure (\<lambda>(ws, s). length s)"
    by (cases s) auto
qed simp

declare strip_start.simps [simp del]

definition trim :: "string \<Rightarrow> string" where
  "trim s = rev (strip_start (map rev whitespace) (rev (strip_start whitespace s)))"

definition ascii_lower :: "char \<Rightarrow> char" where
  "ascii_lower ch = (if 65 \<le> (of_char ch :: nat) \<and> (of_char ch :: nat) \<le> 90 then char_of (of_char ch + 32 :: nat) else ch)"

definition is_hexdigit :: "char \<Rightarrow> bool" where
  "is_hexdigit ch \<longleftrightarrow> (let n = of_char ch :: nat in
     48 \<le> n \<and> n \<le> 57 \<or> 65 \<le> n \<and> n \<le> 70 \<or> 97 \<le> n \<and> n \<le> 102)"

definition key_from_studio :: "string \<Rightarrow> string option \<Rightarrow> key option" where
  "key_from_studio cls source_sha256 =
     (if \<not> is_script cls then Some \<lparr>key_class = cls, key_source = None\<rparr>
      else case source_sha256 of
        None \<Rightarrow> None
      | Some raw \<Rightarrow>
          let hash = map ascii_lower (trim raw) in
          if length hash \<noteq> 64 \<or> \<not> list_all is_hexdigit hash then None
          else Some \<lparr>key_class = cls, key_source = Some hash\<rparr>)"

section \<open>Views of the base\<close>

definition view_lookup :: "base_view \<Rightarrow> string \<Rightarrow> lookup" where
  "view_lookup v path =
     (if path \<in> set (bv_ambiguous v) then Unknown
      else case om_get (bv_entries v) path of Some k \<Rightarrow> Known k | None \<Rightarrow> Absent)"

definition view_descendants :: "base_view \<Rightarrow> string \<Rightarrow> key omap option" where
  "view_descendants v path =
     (let pre = path @ ''/'' in
      if takeWhile (prefix pre) (os_range pre (bv_ambiguous v)) \<noteq> [] then None
      else Some (fold (\<lambda>(k, x). om_insert k x)
        (map (\<lambda>(k, x). (drop (length pre) k, x))
           (takeWhile (\<lambda>(k, _). prefix pre k) (om_range pre (bv_entries v)))) []))"

definition sync_view :: "place option \<Rightarrow> base_inner \<Rightarrow> base_view option" where
  "sync_view connecting st =
     (case sb_stored st of
        None \<Rightarrow> None
      | Some s \<Rightarrow>
          if (\<exists>r c. st_place s = Some r \<and> connecting = Some c \<and> r \<noteq> c) then None
          else if st_place s \<noteq> None \<and> connecting = None then None
          else Some \<lparr>bv_entries = st_entries s, bv_ambiguous = st_ambiguous s\<rparr>)"

section \<open>The session\<close>

definition inner_default :: base_inner where
  "inner_default = \<lparr>sb_stored = None, sb_synced = False, sb_epoch = 0, sb_place = None,
     sb_pending = None, sb_last_generation = None, sb_resume_generation = None\<rparr>"

definition base_load :: "base_codec \<Rightarrow> string option \<Rightarrow> sync_base" where
  "base_load c file =
     \<lparr>sb_inner = inner_default\<lparr>sb_stored :=
        (case file of
           None \<Rightarrow> None
         | Some contents \<Rightarrow>
             (case de_stored c contents of
                Some s \<Rightarrow> if st_version s = BASE_VERSION then Some s else None
              | None \<Rightarrow> None))\<rparr>,
      sb_file = file\<rparr>"

definition persist :: "base_codec \<Rightarrow> bool \<Rightarrow> stored \<Rightarrow> string option \<Rightarrow> string option" where
  "persist c written s file = (if written then Some (ser_stored c s) else file)"

definition merge_base :: "u64 \<Rightarrow> stored option \<Rightarrow> base_snapshot \<Rightarrow> place option \<Rightarrow> stored" where
  "merge_base now previous snap pl =
     \<lparr>st_version = BASE_VERSION,
      st_place = (case pl of Some p \<Rightarrow> Some p | None \<Rightarrow> Option.bind previous st_place),
      st_saved_at = now,
      st_entries = (case previous of
          None \<Rightarrow> sn_entries snap
        | Some s \<Rightarrow> fold (\<lambda>path m. case om_get (st_entries s) path of
              Some k \<Rightarrow> om_insert path k m | None \<Rightarrow> m) (sn_held snap) (sn_entries snap)),
      st_ambiguous = sn_ambiguous snap\<rparr>"

definition begin_compare :: "place option \<Rightarrow> sync_base \<Rightarrow> sync_base" where
  "begin_compare pl b = b\<lparr>sb_inner := (sb_inner b)\<lparr>sb_synced := False,
     sb_epoch := sb_epoch (sb_inner b) + 1, sb_pending := None, sb_resume_generation := None,
     sb_place := (if pl \<noteq> None then pl else sb_place (sb_inner b))\<rparr>\<rparr>"

definition commit ::
  "base_codec \<Rightarrow> bool \<Rightarrow> u64 \<Rightarrow> base_snapshot \<Rightarrow> u64 \<Rightarrow> bool \<Rightarrow> sync_base \<Rightarrow> sync_base" where
  "commit c written now snap generation settle b =
     (let st = sb_inner b; s = merge_base now (sb_stored st) snap (sb_place st) in
      \<lparr>sb_inner = st\<lparr>sb_stored := Some s, sb_synced := True, sb_epoch := sb_epoch st + 1,
          sb_pending := None, sb_last_generation := (if settle then None else Some generation),
          sb_resume_generation := None\<rparr>,
       sb_file = persist c written s (sb_file b)\<rparr>)"

definition drop_session :: "u64 \<Rightarrow> base_inner \<Rightarrow> base_inner" where
  "drop_session generation st = st\<lparr>sb_synced := False, sb_epoch := sb_epoch st + 1,
     sb_pending := None, sb_resume_generation := Some generation\<rparr>"

definition on_disconnect :: "u64 \<Rightarrow> sync_base \<Rightarrow> sync_base" where
  "on_disconnect generation b =
     (if sb_synced (sb_inner b) then b\<lparr>sb_inner := drop_session generation (sb_inner b)\<rparr> else b)"

definition on_reconnect :: "u64 \<Rightarrow> sync_base \<Rightarrow> sync_base" where
  "on_reconnect generation b =
     (let st = sb_inner b in
      case sb_resume_generation st of
        None \<Rightarrow> b
      | Some dropped_at \<Rightarrow>
          if dropped_at = generation
          then b\<lparr>sb_inner := st\<lparr>sb_resume_generation := None, sb_synced := True,
                 sb_epoch := sb_epoch st + 1\<rparr>\<rparr>
          else b\<lparr>sb_inner := st\<lparr>sb_resume_generation := None\<rparr>\<rparr>)"

text \<open>
  The first critical section of \<open>tick\<close>: the new base and, when a snapshot is to be taken, the
  epoch it is taken in.
\<close>

definition tick_begin ::
  "base_codec \<Rightarrow> bool \<Rightarrow> u64 \<Rightarrow> u64 \<Rightarrow> bool \<Rightarrow> sync_base \<Rightarrow> sync_base \<times> u64 option" where
  "tick_begin c written now generation plugin_present b =
     (let st = sb_inner b;
          st = (if sb_synced st \<and> \<not> plugin_present then drop_session generation st else st) in
      if \<not> sb_synced st then (b\<lparr>sb_inner := st\<lparr>sb_pending := None\<rparr>\<rparr>, None)
      else
        let (st, file) = (case sb_pending st of
              None \<Rightarrow> (st, sb_file b)
            | Some p \<Rightarrow>
                if bp_epoch p = sb_epoch st
                then let merged = merge_base now (sb_stored st) (bp_snapshot p) (sb_place st)
                     in (st\<lparr>sb_pending := None, sb_stored := Some merged\<rparr>,
                         persist c written merged (sb_file b))
                else (st\<lparr>sb_pending := None\<rparr>, sb_file b));
            b = \<lparr>sb_inner = st, sb_file = file\<rparr>
        in if sb_last_generation st = Some generation then (b, None)
           else (b, Some (sb_epoch st)))"

text \<open>The second critical section, with the snapshot that was taken between the two.\<close>

definition tick_end :: "u64 \<Rightarrow> base_snapshot \<Rightarrow> u64 \<Rightarrow> sync_base \<Rightarrow> sync_base" where
  "tick_end epoch snap taken_at b =
     (let st = sb_inner b in
      if sb_synced st \<and> sb_epoch st = epoch
      then b\<lparr>sb_inner := st\<lparr>sb_last_generation := Some taken_at,
             sb_pending := Some \<lparr>bp_epoch = epoch, bp_snapshot = snap\<rparr>\<rparr>\<rparr>
      else b)"

end
