(* ===== verification/SyncBaseSafety.thy ===== *)
theory SyncBaseSafety
  imports SyncBase
begin

text \<open>
  What the sync base guarantees: a view only ever comes from the place that was recorded,
  descendants are read off the ordered entries by a prefix scan, held paths keep their old
  key, and over any interleaving of session events only content that provably reached the
  plugin is recorded as agreed.
\<close>

section \<open>Views\<close>

definition view_ok :: "base_view \<Rightarrow> bool" where
  "view_ok v \<longleftrightarrow> om_ok (bv_entries v) \<and> os_ok (bv_ambiguous v)"

lemma map_of_prefix_block:
  "map_of (map (\<lambda>(k, x). (drop (length p) k, x)) (filter (\<lambda>(k, _). prefix p k) m)) rel =
   map_of m (p @ rel)"
proof (induction m)
  case (Cons kx m)
  obtain k x where kx: "kx = (k, x)" by (cases kx)
  have "prefix p k \<Longrightarrow> drop (length p) k = rel \<longleftrightarrow> k = p @ rel"
    by (auto simp: prefix_def)
  moreover have "\<not> prefix p k \<Longrightarrow> k \<noteq> p @ rel" by auto
  ultimately show ?case using Cons kx by auto
qed simp

lemma distinct_prefix_block:
  assumes "distinct (map fst m)"
  shows "distinct (map fst (map (\<lambda>(k, x). (drop (length p) k, x)) (filter (\<lambda>(k, _). prefix p k) m)))"
  using assms
proof (induction m)
  case (Cons kx m)
  obtain k x where kx: "kx = (k, x)" by (cases kx)
  have "drop (length p) k \<noteq> drop (length p) k'" if "prefix p k" "prefix p k'" "k' \<in> fst ` set m" for k'
  proof -
    from that(3) Cons.prems kx have "k \<noteq> k'" by auto
    with that(1,2) show ?thesis by (auto simp: prefix_def)
  qed
  then have "prefix p k \<Longrightarrow> drop (length p) k \<notin>
      set (map fst (map (\<lambda>(k, x). (drop (length p) k, x)) (filter (\<lambda>(k, _). prefix p k) m)))"
    by (force simp: image_iff)
  moreover have "distinct (map fst (map (\<lambda>(k, x). (drop (length p) k, x)) (filter (\<lambda>(k, _). prefix p k) m)))"
    using Cons by simp
  ultimately show ?case unfolding kx by (cases "prefix p k") (simp_all del: map_map set_map)
qed simp

lemma fold_om_insert_map_of:
  assumes "distinct (map fst kvs)"
  shows "om_get (fold (\<lambda>(k, x). om_insert k x) kvs []) = map_of kvs"
    and "om_ok (fold (\<lambda>(k, x). om_insert k x) kvs [])"
proof -
  have "map_of (rev kvs) = map_of kvs"
    using assms by (subst map_of_inject_set) (simp_all flip: rev_map)
  then show "om_get (fold (\<lambda>(k, x). om_insert k x) kvs []) = map_of kvs"
    and "om_ok (fold (\<lambda>(k, x). om_insert k x) kvs [])"
    using om.fold_ins [of "[]" kvs] by (simp_all add: om_ok_def)
qed

lemma view_descendants_spec:
  assumes "view_ok v"
  shows "view_descendants v path = None \<longleftrightarrow> (\<exists>a\<in>set (bv_ambiguous v). prefix (path @ ''/'') a)"
    and "view_descendants v path = Some d \<Longrightarrow> om_get d rel = om_get (bv_entries v) (path @ ''/'' @ rel)"
    and "view_descendants v path = Some d \<Longrightarrow> om_ok d"
proof -
  let ?pre = "path @ ''/''"
  have amb: "takeWhile (prefix ?pre) (os_range ?pre (bv_ambiguous v)) = filter (prefix ?pre) (bv_ambiguous v)"
    and ent: "takeWhile (\<lambda>(k, _). prefix ?pre k) (om_range ?pre (bv_entries v)) =
      filter (\<lambda>(k, _). prefix ?pre k) (bv_entries v)"
    using assms by (simp_all add: view_ok_def os_range_prefix om_range_prefix)
  show "view_descendants v path = None \<longleftrightarrow> (\<exists>a\<in>set (bv_ambiguous v). prefix (path @ ''/'') a)"
    unfolding view_descendants_def Let_def amb by (simp add: filter_empty_conv)
  have dist: "distinct (map fst (bv_entries v))" using assms by (simp add: view_ok_def om_ok_distinct)
  note blk = distinct_prefix_block [OF dist, of ?pre]
  assume "view_descendants v path = Some d"
  then have d: "d = fold (\<lambda>(k, x). om_insert k x) (map (\<lambda>(k, x). (drop (length ?pre) k, x))
      (filter (\<lambda>(k, _). prefix ?pre k) (bv_entries v))) []"
    unfolding view_descendants_def Let_def ent by (simp split: if_splits)
  show "om_get d rel = om_get (bv_entries v) (path @ ''/'' @ rel)"
    unfolding d fold_om_insert_map_of(1) [OF blk]
    using map_of_prefix_block [of ?pre "bv_entries v" rel] by simp
  show "om_ok d" unfolding d by (rule fold_om_insert_map_of(2) [OF blk])
qed

text \<open>
  What the connect classification relies on: a lookup that tells agreed, absent and ambiguous
  paths apart, and the agreed entries below a path, refused when one of them is ambiguous.
\<close>

locale base_interface =
  fixes ok :: "'b \<Rightarrow> bool"
    and entry :: "'b \<Rightarrow> string \<Rightarrow> key option"
    and amb :: "'b \<Rightarrow> string \<Rightarrow> bool"
    and look :: "'b \<Rightarrow> string \<Rightarrow> lookup"
    and below :: "'b \<Rightarrow> string \<Rightarrow> key omap option"
  assumes look_Known: "look b p = Known k \<longleftrightarrow> \<not> amb b p \<and> entry b p = Some k"
    and look_Absent: "look b p = Absent \<longleftrightarrow> \<not> amb b p \<and> entry b p = None"
    and below_refused: "ok b \<Longrightarrow> below b p = None \<longleftrightarrow> (\<exists>a. amb b a \<and> prefix (p @ ''/'') a)"
    and below_entry: "ok b \<Longrightarrow> below b p = Some d \<Longrightarrow> om_get d rel = entry b (p @ ''/'' @ rel)"
    and below_ok: "ok b \<Longrightarrow> below b p = Some d \<Longrightarrow> om_ok d"
begin

lemma look_Unknown: "look b p = Unknown \<longleftrightarrow> amb b p"
proof (cases "look b p")
  case (Known k)
  then show ?thesis using look_Known [of b p k] by simp
next
  case Absent
  then show ?thesis using look_Absent [of b p] by simp
next
  case Unknown
  then show ?thesis using look_Known [of b p] look_Absent [of b p] by (cases "entry b p") auto
qed

end

interpretation bv: base_interface view_ok "\<lambda>v. om_get (bv_entries v)"
  "\<lambda>v p. p \<in> set (bv_ambiguous v)" view_lookup view_descendants
proof unfold_locales
  fix v p k
  show "view_lookup v p = Known k \<longleftrightarrow> p \<notin> set (bv_ambiguous v) \<and> om_get (bv_entries v) p = Some k"
    "view_lookup v p = Absent \<longleftrightarrow> p \<notin> set (bv_ambiguous v) \<and> om_get (bv_entries v) p = None"
    by (auto simp: view_lookup_def split: option.splits)
qed (use view_descendants_spec in blast)+

text \<open>
  The descendants of a path in a base view, which the code reads with a range scan over
  the ordered entries, are exactly the entries whose path extends \<open>path/\<close>, keyed by the
  rest of their path; a sibling whose name merely starts with the same letters is not among
  them. The answer is refused exactly when some ambiguous path lies below.
\<close>

theorem descendants_exact:
  assumes "view_ok v"
  shows "case view_descendants v path of
     None \<Rightarrow> \<exists>a\<in>set (bv_ambiguous v). prefix (path @ ''/'') a
   | Some d \<Rightarrow> (\<forall>a\<in>set (bv_ambiguous v). \<not> prefix (path @ ''/'') a) \<and>
               (\<forall>rel. om_get d rel = om_get (bv_entries v) (path @ ''/'' @ rel))"
proof (cases "view_descendants v path")
  case None
  then show ?thesis using view_descendants_spec(1) [OF assms, of path] by simp
next
  case (Some d)
  then have "\<forall>a\<in>set (bv_ambiguous v). \<not> prefix (path @ ''/'') a"
    using view_descendants_spec(1) [OF assms, of path] by auto
  with Some show ?thesis using view_descendants_spec(2) [OF assms Some] by simp
qed

definition example_view :: base_view where
  "example_view = \<lparr>bv_entries = [(''S'', \<lparr>key_class = ''Folder'', key_source = None\<rparr>),
     (''S/A'', \<lparr>key_class = ''Folder'', key_source = None\<rparr>),
     (''S/A/B'', \<lparr>key_class = ''ModuleScript'', key_source = Some ''h''\<rparr>),
     (''S/AB'', \<lparr>key_class = ''Folder'', key_source = None\<rparr>)], bv_ambiguous = [''T/Dup'']\<rparr>"

lemma example_view_ok: "view_ok example_view"
  by (simp add: view_ok_def om_ok_def os_ok_def example_view_def)

theorem descendants_exact_witness:
  "view_descendants example_view ''S/A'' = Some [(''B'', \<lparr>key_class = ''ModuleScript'', key_source = Some ''h''\<rparr>)]
   \<and> (\<forall>rel. om_get [(''B'', \<lparr>key_class = ''ModuleScript'', key_source = Some ''h''\<rparr>)] rel =
            om_get (bv_entries example_view) (''S/A/'' @ rel))"
proof -
  have d: "view_descendants example_view ''S/A'' =
      Some [(''B'', \<lparr>key_class = ''ModuleScript'', key_source = Some ''h''\<rparr>)]"
    by (simp add: view_descendants_def example_view_def os_range_def om_range_def)
  show ?thesis using descendants_exact [OF example_view_ok, of "''S/A''"] d by simp
qed

text \<open>
  A connect only ever sees the base of the place it names: a base recorded with a place
  is shown to that place only, and one recorded without a place is shown to every place.
\<close>

theorem view_only_same_place:
  "sync_view connecting st = Some v \<longleftrightarrow>
     (\<exists>s. sb_stored st = Some s \<and> (st_place s = None \<or> st_place s = connecting) \<and>
          v = \<lparr>bv_entries = st_entries s, bv_ambiguous = st_ambiguous s\<rparr>)"
proof (cases "sb_stored st")
  case (Some s)
  then show ?thesis
    by (cases "st_place s"; cases connecting) (auto simp: sync_view_def)
qed (simp add: sync_view_def)

section \<open>Merging a snapshot\<close>

lemma fold_held:
  assumes "om_ok m"
  shows "om_ok (fold (\<lambda>path m. case om_get old path of Some k \<Rightarrow> om_insert path k m | None \<Rightarrow> m) held m)
    \<and> om_get (fold (\<lambda>path m. case om_get old path of Some k \<Rightarrow> om_insert path k m | None \<Rightarrow> m) held m) path =
      (if path \<in> set held \<and> om_get old path \<noteq> None then om_get old path else om_get m path)"
  using assms
proof (induction held arbitrary: m)
  case (Cons h held)
  show ?case
  proof (cases "om_get old h")
    case None
    then show ?thesis using Cons.IH [OF Cons.prems] by auto
  next
    case (Some k)
    then show ?thesis
      using Cons.IH [of "om_insert h k m"] Cons.prems by (auto simp: om.ok_ins om.get_ins)
  qed
qed simp

text \<open>
  Folding a snapshot into the base keeps the previous key of every held (parked) path and
  takes everything else from the snapshot; ambiguity is the snapshot's.
\<close>

theorem merge_keeps_held:
  assumes "om_ok (sn_entries snap)"
  shows "om_get (st_entries (merge_base now (Some s) snap pl)) path =
      (if path \<in> set (sn_held snap) \<and> om_get (st_entries s) path \<noteq> None
       then om_get (st_entries s) path else om_get (sn_entries snap) path)
    \<and> om_ok (st_entries (merge_base now (Some s) snap pl))
    \<and> st_ambiguous (merge_base now (Some s) snap pl) = sn_ambiguous snap"
  using fold_held [OF assms, of "st_entries s" "sn_held snap"]
  by (simp add: merge_base_def)

theorem merge_keeps_held_witness:
  "om_get (st_entries (merge_base 9 (Some \<lparr>st_version = 1, st_place = None, st_saved_at = 0,
      st_entries = bv_entries example_view, st_ambiguous = []\<rparr>)
      \<lparr>sn_entries = [(''S'', \<lparr>key_class = ''Model'', key_source = None\<rparr>)], sn_ambiguous = [],
       sn_held = [''S/A/B'', ''S/New'']\<rparr> None)) ''S/A/B'' =
   Some \<lparr>key_class = ''ModuleScript'', key_source = Some ''h''\<rparr>"
  by (subst merge_keeps_held) (simp_all add: om_ok_def example_view_def)

section \<open>The session machine\<close>

text \<open>
  The events that reach the base, in the order their critical sections run. The writer task
  is sequential: \<open>TickBegin\<close> and \<open>TickEnd\<close> alternate, and the second component of the state is
  the epoch a started tick is waiting to store its snapshot under. \<open>TickEnd\<close> carries the
  snapshot that was taken meanwhile.
\<close>

datatype base_event =
    BeginCompare "place option"
  | Commit bool u64 base_snapshot u64 bool
  | Disconnect u64
  | Reconnect u64
  | TickBegin bool u64 u64 bool
  | TickEnd base_snapshot u64

type_synonym base_sys = "sync_base \<times> u64 option"

fun base_exec :: "base_codec \<Rightarrow> base_event \<Rightarrow> base_sys \<Rightarrow> base_sys" where
  "base_exec c (BeginCompare pl) (b, t) = (begin_compare pl b, t)"
| "base_exec c (Commit w now snap g settle) (b, t) = (commit c w now snap g settle b, t)"
| "base_exec c (Disconnect g) (b, t) = (on_disconnect g b, t)"
| "base_exec c (Reconnect g) (b, t) = (on_reconnect g b, t)"
| "base_exec c (TickBegin w now g pres) (b, None) = tick_begin c w now g pres b"
| "base_exec c (TickBegin w now g pres) (b, Some e) = (b, Some e)"
| "base_exec c (TickEnd snap g) (b, None) = (b, None)"
| "base_exec c (TickEnd snap g) (b, Some e) = (tick_end e snap g b, None)"

definition base_run :: "base_codec \<Rightarrow> base_event list \<Rightarrow> base_sys \<Rightarrow> base_sys" where
  "base_run c evs s = fold (base_exec c) evs s"

abbreviation inner_of :: "base_sys \<Rightarrow> base_inner" where
  "inner_of s \<equiv> sb_inner (fst s)"

text \<open>
  A pending snapshot belongs to the live session, a live session has nothing to resume, and a
  tick that is taking a snapshot has used up the pending one.
\<close>

definition session_inv :: "base_sys \<Rightarrow> bool" where
  "session_inv s \<longleftrightarrow>
     (\<forall>p. sb_pending (inner_of s) = Some p \<longrightarrow>
        sb_synced (inner_of s) \<and> bp_epoch p = sb_epoch (inner_of s)) \<and>
     (sb_synced (inner_of s) \<longrightarrow> sb_resume_generation (inner_of s) = None) \<and>
     (snd s \<noteq> None \<longrightarrow> sb_pending (inner_of s) = None)"

lemmas base_op_defs = begin_compare_def commit_def on_disconnect_def on_reconnect_def
  drop_session_def tick_begin_def tick_end_def Let_def

lemma base_exec_inv: "session_inv s \<Longrightarrow> session_inv (base_exec c e s)"
  by (cases "(c, e, s)" rule: base_exec.cases)
    (auto simp: session_inv_def base_op_defs split: option.splits if_splits prod.splits)

interpretation session: invariant_system "\<lambda>s. \<exists>file. s = (base_load c file, None)"
  "\<lambda>s t. \<exists>e. t = base_exec c e s" session_inv for c
proof unfold_locales
  fix s :: base_sys
  show "\<exists>file. s = (base_load c file, None) \<Longrightarrow> session_inv s"
    by (auto simp: session_inv_def base_load_def inner_default_def)
qed (blast intro: base_exec_inv)

lemma base_run_inv: "session_inv s \<Longrightarrow> session_inv (base_run c evs s)"
  unfolding base_run_def by (induction evs arbitrary: s) (simp_all add: base_exec_inv)

lemma base_run_append: "base_run c (es @ fs) s = base_run c fs (base_run c es s)"
  by (simp add: base_run_def)

text \<open>
  While the session is down, nothing is recorded: only a commit, or a reconnect that finds
  the tree exactly as the disconnect left it, starts recording again.
\<close>

fun may_resume :: "u64 \<Rightarrow> base_event \<Rightarrow> bool" where
  "may_resume g (Commit w now snap g' settle) = True"
| "may_resume g (Reconnect g') = (g' = g)"
| "may_resume g e = False"

definition session_down :: "u64 \<Rightarrow> stored option \<Rightarrow> string option \<Rightarrow> base_sys \<Rightarrow> bool" where
  "session_down g stored file s \<longleftrightarrow>
     \<not> sb_synced (inner_of s) \<and> sb_resume_generation (inner_of s) \<in> {None, Some g} \<and>
     sb_stored (inner_of s) = stored \<and> sb_file (fst s) = file"

lemma session_down_step:
  "session_down g stored file s \<Longrightarrow> \<not> may_resume g e \<Longrightarrow> session_down g stored file (base_exec c e s)"
  by (cases "(c, e, s)" rule: base_exec.cases)
    (auto simp: session_down_def base_op_defs split: option.splits if_splits prod.splits)

lemma session_down_run:
  "session_down g stored file s \<Longrightarrow> \<forall>e\<in>set evs. \<not> may_resume g e \<Longrightarrow>
   session_down g stored file (base_run c evs s)"
  unfolding base_run_def by (induction evs arbitrary: s) (simp_all add: session_down_step)

text \<open>
  After the plugin of a synced session disconnects, nothing that happens to the tree is
  recorded as agreed. Whatever compares, ticks and reconnects follow, the stored base and its
  file stay as they were until a connect commits or a reconnect finds the very tree
  generation of the disconnect.
\<close>

theorem disconnect_pauses_recording:
  assumes "sb_synced (sb_inner b)" "\<forall>e\<in>set evs. \<not> may_resume g e"
  shows "sb_stored (inner_of (base_run c (Disconnect g # evs) (b, t))) = sb_stored (sb_inner b) \<and>
         sb_file (fst (base_run c (Disconnect g # evs) (b, t))) = sb_file b \<and>
         \<not> sb_synced (inner_of (base_run c (Disconnect g # evs) (b, t)))"
proof -
  have "session_down g (sb_stored (sb_inner b)) (sb_file b) (base_exec c (Disconnect g) (b, t))"
    using assms(1) by (simp add: session_down_def on_disconnect_def drop_session_def)
  then have "session_down g (sb_stored (sb_inner b)) (sb_file b) (base_run c evs (base_exec c (Disconnect g) (b, t)))"
    using assms(2) by (rule session_down_run)
  then show ?thesis by (simp add: session_down_def base_run_def)
qed

definition example_base_codec :: base_codec where
  "example_base_codec = \<lparr>sha_hex = (\<lambda>s. replicate 64 (if s = [] then CHR ''0'' else CHR ''a'')),
     ser_stored = (\<lambda>_. ''base''), de_stored = (\<lambda>_. None)\<rparr>"

theorem disconnect_pauses_recording_witness:
  "sb_stored (inner_of (base_run example_base_codec
      [Disconnect 5, Reconnect 6, TickBegin True 1 6 True,
       TickEnd \<lparr>sn_entries = [], sn_ambiguous = [], sn_held = []\<rparr> 6, TickBegin True 2 6 True]
      (commit example_base_codec True 0 \<lparr>sn_entries = bv_entries example_view, sn_ambiguous = [], sn_held = []\<rparr> 5 False
        (base_load example_base_codec None), None))) =
   Some (merge_base 0 None \<lparr>sn_entries = bv_entries example_view, sn_ambiguous = [], sn_held = []\<rparr> None)"
proof -
  let ?b = "commit example_base_codec True 0 \<lparr>sn_entries = bv_entries example_view, sn_ambiguous = [], sn_held = []\<rparr> 5 False
        (base_load example_base_codec None)"
  have "sb_synced (sb_inner ?b)"
    "sb_stored (sb_inner ?b) = Some (merge_base 0 None
       \<lparr>sn_entries = bv_entries example_view, sn_ambiguous = [], sn_held = []\<rparr> None)"
    by (simp_all add: commit_def base_load_def inner_default_def Let_def)
  then show ?thesis
    using disconnect_pauses_recording [of ?b "[Reconnect 6, TickBegin True 1 6 True,
       TickEnd \<lparr>sn_entries = [], sn_ambiguous = [], sn_held = []\<rparr> 6, TickBegin True 2 6 True]" 5 example_base_codec None]
    by simp
qed

section \<open>Where a recorded snapshot comes from\<close>

text \<open>Events that end or restart a session, or use up the pending snapshot.\<close>

fun breaks_session :: "base_event \<Rightarrow> bool" where
  "breaks_session (BeginCompare pl) = True"
| "breaks_session (Commit w now snap g settle) = True"
| "breaks_session (Disconnect g) = True"
| "breaks_session (TickBegin w now g pres) = True"
| "breaks_session e = False"

lemma pending_step:
  assumes "session_inv s" "sb_pending (inner_of (base_exec c e s)) = Some p"
  shows "(\<exists>g. e = TickEnd (bp_snapshot p) g) \<or> sb_pending (inner_of s) = Some p \<and> \<not> breaks_session e"
  using assms
  by (cases "(c, e, s)" rule: base_exec.cases)
    (auto simp: session_inv_def base_op_defs split: option.splits if_splits prod.splits)

lemma pending_provenance:
  assumes "session_inv s" "sb_pending (inner_of s) = None"
    "sb_pending (inner_of (base_run c evs s)) = Some p"
  shows "\<exists>pre g mid. evs = pre @ TickEnd (bp_snapshot p) g # mid \<and> (\<forall>e\<in>set mid. \<not> breaks_session e)"
  using assms(3)
proof (induction evs rule: rev_induct)
  case Nil
  then show ?case using assms(2) by (simp add: base_run_def)
next
  case (snoc e evs)
  let ?s = "base_run c evs s"
  have step: "sb_pending (inner_of (base_exec c e ?s)) = Some p"
    using snoc.prems by (simp add: base_run_def)
  from pending_step [OF base_run_inv [OF assms(1)] step] show ?case
  proof
    assume "\<exists>g. e = TickEnd (bp_snapshot p) g"
    then obtain g where "e = TickEnd (bp_snapshot p) g" by blast
    then have "evs @ [e] = evs @ TickEnd (bp_snapshot p) g # [] \<and> (\<forall>e\<in>set []. \<not> breaks_session e)" by simp
    then show ?case by blast
  next
    assume old: "sb_pending (inner_of ?s) = Some p \<and> \<not> breaks_session e"
    then obtain pre g mid where "evs = pre @ TickEnd (bp_snapshot p) g # mid" "\<forall>e\<in>set mid. \<not> breaks_session e"
      using snoc.IH by blast
    then have "evs @ [e] = pre @ TickEnd (bp_snapshot p) g # (mid @ [e]) \<and>
        (\<forall>e\<in>set (mid @ [e]). \<not> breaks_session e)" using old by simp
    then show ?case by blast
  qed
qed

lemma tick_begin_records:
  assumes "session_inv (b, t)" "sb_stored (inner_of (base_exec c (TickBegin w now g pres) (b, t))) \<noteq> sb_stored (sb_inner b)"
  shows "pres \<and> (\<exists>p. sb_pending (sb_inner b) = Some p \<and>
     sb_stored (inner_of (base_exec c (TickBegin w now g pres) (b, t))) =
       Some (merge_base now (sb_stored (sb_inner b)) (bp_snapshot p) (sb_place (sb_inner b))))"
  using assms
  by (cases t) (auto simp: base_op_defs split: option.splits if_splits prod.splits)

text \<open>
  A tick records a tree snapshot as agreed only if the snapshot was taken by an earlier
  tick and nothing broke the session since: between the two there was no disconnect, no new
  compare and no commit, and the plugin is still present. An edit that was queued but never
  delivered is therefore never recorded.
\<close>

theorem recorded_snapshot_survived:
  assumes "base_run c evs (base_load c file, None) = (b, t)"
    and "sb_stored (inner_of (base_exec c (TickBegin w now g pres) (b, t))) \<noteq> sb_stored (sb_inner b)"
  shows "pres \<and> (\<exists>pre snap g' mid. evs = pre @ TickEnd snap g' # mid \<and>
     (\<forall>e\<in>set mid. \<not> breaks_session e) \<and>
     sb_stored (inner_of (base_exec c (TickBegin w now g pres) (b, t))) =
       Some (merge_base now (sb_stored (sb_inner b)) snap (sb_place (sb_inner b))))"
proof -
  have init: "session_inv (base_load c file, None)" by (rule session.init_inv [of _ c]) blast
  then have inv: "session_inv (b, t)" using base_run_inv assms(1) by metis
  from tick_begin_records [OF inv assms(2)] obtain p where p: "pres" "sb_pending (sb_inner b) = Some p"
    "sb_stored (inner_of (base_exec c (TickBegin w now g pres) (b, t))) =
       Some (merge_base now (sb_stored (sb_inner b)) (bp_snapshot p) (sb_place (sb_inner b)))" by blast
  have "sb_pending (inner_of (base_run c evs (base_load c file, None))) = Some p"
    using assms(1) p(2) by simp
  with pending_provenance [OF init, of c evs p] p show ?thesis
    by (auto simp: base_load_def inner_default_def)
qed

definition example_snapshot :: "key omap \<Rightarrow> base_snapshot" where
  "example_snapshot m = \<lparr>sn_entries = m, sn_ambiguous = [], sn_held = []\<rparr>"

theorem recorded_snapshot_survived_witness:
  "\<exists>pre snap g' mid.
     [Commit True 0 (example_snapshot []) 1 False, TickBegin True 1 2 True,
      TickEnd (example_snapshot (bv_entries example_view)) 2] = pre @ TickEnd snap g' # mid \<and>
     (\<forall>e\<in>set mid. \<not> breaks_session e)"
proof -
  let ?evs = "[Commit True 0 (example_snapshot []) 1 False, TickBegin True 1 2 True,
      TickEnd (example_snapshot (bv_entries example_view)) 2]"
  obtain b t where s: "base_run example_base_codec ?evs (base_load example_base_codec None, None) = (b, t)"
    by fastforce
  then have "sb_stored (inner_of (base_exec example_base_codec (TickBegin True 3 2 True) (b, t))) \<noteq> sb_stored (sb_inner b)"
    by (auto simp: base_run_def base_op_defs base_load_def inner_default_def merge_base_def
        example_snapshot_def example_view_def)
  from recorded_snapshot_survived [OF s this] show ?thesis by blast
qed

section \<open>Persistence\<close>

text \<open>
  A committed base whose file was written, and whose JSON reads back, survives a restart:
  the reloaded base shows every entry of the commit to the same place, and nothing to another
  place.
\<close>

theorem commit_reloads:
  assumes "m = merge_base now (sb_stored (sb_inner b)) snap (sb_place (sb_inner b))"
    and "de_stored c (ser_stored c m) = Some m" "sb_place (sb_inner b) = Some pl"
  shows "case commit c True now snap g settle b of b' \<Rightarrow>
    sync_view (Some pl) (sb_inner (base_load c (sb_file b'))) = sync_view (Some pl) (sb_inner b') \<and>
    sync_view (Some pl) (sb_inner b') = Some \<lparr>bv_entries = st_entries m, bv_ambiguous = st_ambiguous m\<rparr> \<and>
    (pl' \<noteq> pl \<longrightarrow> sync_view (Some pl') (sb_inner (base_load c (sb_file b'))) = None) \<and>
    sync_view None (sb_inner (base_load c (sb_file b'))) = None"
proof -
  have "st_version m = BASE_VERSION" "st_place m = Some pl" using assms(1,3) by (simp_all add: merge_base_def)
  then show ?thesis
    using assms by (simp add: commit_def persist_def base_load_def sync_view_def Let_def)
qed

theorem commit_reloads_witness:
  "sync_view (Some \<lparr>place_id = 2, game_id = 7\<rparr>)
     (sb_inner (base_load
       (example_base_codec\<lparr>de_stored := (\<lambda>_. Some (merge_base 0 None (example_snapshot (bv_entries example_view))
          (Some \<lparr>place_id = 1, game_id = 7\<rparr>)))\<rparr>)
       (sb_file (commit (example_base_codec\<lparr>de_stored := (\<lambda>_. Some (merge_base 0 None
          (example_snapshot (bv_entries example_view)) (Some \<lparr>place_id = 1, game_id = 7\<rparr>)))\<rparr>) True 0
          (example_snapshot (bv_entries example_view)) 1 False
          (begin_compare (Some \<lparr>place_id = 1, game_id = 7\<rparr>) (base_load example_base_codec None)))))) = None"
proof -
  let ?m = "merge_base 0 None (example_snapshot (bv_entries example_view)) (Some \<lparr>place_id = 1, game_id = 7\<rparr>)"
  let ?b = "begin_compare (Some \<lparr>place_id = 1, game_id = 7\<rparr>) (base_load example_base_codec None)"
  have h: "?m = merge_base 0 (sb_stored (sb_inner ?b)) (example_snapshot (bv_entries example_view)) (sb_place (sb_inner ?b))"
    "sb_place (sb_inner ?b) = Some \<lparr>place_id = 1, game_id = 7\<rparr>"
    by (simp_all add: begin_compare_def base_load_def inner_default_def)
  show ?thesis
    using commit_reloads [OF h(1) _ h(2), of "example_base_codec\<lparr>de_stored := (\<lambda>_. Some ?m)\<rparr>" 1 False
        "\<lparr>place_id = 2, game_id = 7\<rparr>"] by simp
qed

section \<open>Keys of the two sides\<close>

lemma strip_start_none:
  assumes "\<forall>w\<in>set ws. w = [] \<or> \<not> is_hexdigit (hd w)" "s = [] \<or> is_hexdigit (hd s)"
  shows "strip_start ws s = s"
proof -
  have "find (\<lambda>w. w \<noteq> [] \<and> prefix w s) ws = None"
    using assms by (cases s) (auto simp: find_None_iff prefix_Cons)
  then show ?thesis by (subst strip_start.simps) simp
qed

lemma whitespace_not_hex:
  "\<forall>w\<in>set whitespace. w = [] \<or> \<not> is_hexdigit (hd w)"
  "\<forall>w\<in>set (map rev whitespace). w = [] \<or> \<not> is_hexdigit (hd w)"
  by code_simp+

lemma trim_hex: "list_all is_hexdigit s \<Longrightarrow> trim s = s"
proof -
  assume hex: "list_all is_hexdigit s"
  then have "s = [] \<or> is_hexdigit (hd s)" "rev s = [] \<or> is_hexdigit (hd (rev s))"
    by (metis hd_in_set last_in_set list_all_iff hd_rev rev_is_Nil_conv)+
  then show ?thesis
    by (simp only: trim_def strip_start_none [OF whitespace_not_hex(1)]
        strip_start_none [OF whitespace_not_hex(2)] rev_rev_ident)
qed

lemma is_hexdigit_lower: "is_hexdigit (ascii_lower ch) \<longleftrightarrow> is_hexdigit ch"
  by (auto simp: ascii_lower_def is_hexdigit_def Let_def)

lemma source_hash_fold: "source_hash c s = sha_hex c (fold_crlf s)"
  by (simp add: source_hash_def fold_crlf_no_cr)

text \<open>
  Both sides compute the same key for the same script. If the disk source and the text
  in Studio agree up to CRLF line endings, and the plugin reports the digest of its
  LF-normalised text in hex of any letter case, then the key the daemon derives from the
  report is the key it derives from the file.
\<close>

theorem studio_key_agrees:
  assumes "is_script cls" "map_of props ''Source'' = Some (VString disk)"
    and "fold_crlf disk = fold_crlf studio"
    and "map ascii_lower reported = sha_hex c (fold_crlf studio)"
    and "length (sha_hex c (fold_crlf studio)) = 64" "list_all is_hexdigit (sha_hex c (fold_crlf studio))"
  shows "key_from_studio cls (Some reported) = Some (key_of c cls props)"
proof -
  have "list_all is_hexdigit reported"
    using assms(4,6) unfolding list_all_iff
    by (metis (no_types, lifting) image_eqI is_hexdigit_lower list.set_map)
  then have "trim reported = reported" by (rule trim_hex)
  then show ?thesis
    using assms by (simp add: key_from_studio_def key_of_def source_hash_fold Let_def)
qed

theorem studio_key_agrees_witness:
  "key_from_studio ''Script'' (Some (replicate 64 (CHR ''A''))) =
   Some (key_of example_base_codec ''Script'' [(''Source'', VString ([CHR ''x'', CR, LF]) :: bool variant)])"
proof -
  have "ascii_lower (CHR ''A'') = CHR ''a''" "list_all is_hexdigit (replicate 64 (CHR ''a''))"
    by code_simp+
  then show ?thesis
    by (intro studio_key_agrees [where disk = "[CHR ''x'', CR, LF]" and studio = "[CHR ''x'', LF]"])
      (simp_all add: is_script_def example_base_codec_def)
qed

end
