(* ===== verification/ThreeWay.thy ===== *)
theory ThreeWay
  imports SyncBaseSafety
begin

text \<open>
  Connect-time three-way classification (\<^verbatim>\<open>src/server/three_way.rs\<close>): which side wins each
  difference the plugin reported, judged against the sync base. The classification reads the
  base through its two queries only, so its guarantees are proved in a locale over that
  interface and interpreted on the base view's own queries.
\<close>

section \<open>Definitions\<close>

datatype diff_state = OnlyOnDisk | Differs | MissingOnDisk

datatype winner = StudioWins | StudioKeepDisk | DiskWins

record diff_input =
  di_state :: diff_state
  di_path :: string
  di_disk :: "key option"
  di_studio :: "key option"
  di_descendants :: "key option omap option"
  di_ambiguous :: bool

definition studio_first :: "diff_state \<Rightarrow> winner" where
  "studio_first s = (case s of OnlyOnDisk \<Rightarrow> StudioKeepDisk | Differs \<Rightarrow> StudioKeepDisk
     | MissingOnDisk \<Rightarrow> StudioWins)"

text \<open>
  The comparison of a \<open>MissingOnDisk\<close> root's Studio descendants with the base: same number of
  entries, and every base entry reported with its key.
\<close>

definition subtree_unchanged :: "key option omap \<Rightarrow> key omap \<Rightarrow> bool" where
  "subtree_unchanged studio agreed_below \<longleftrightarrow>
     length studio = length agreed_below \<and>
     list_all (\<lambda>(path, k). case om_get studio path of Some sk \<Rightarrow> sk = Some k | None \<Rightarrow> False) agreed_below"

definition classify :: "base_view option \<Rightarrow> diff_input \<Rightarrow> winner" where
  "classify base inp =
     (case base of
        None \<Rightarrow> studio_first (di_state inp)
      | Some v \<Rightarrow>
          if di_ambiguous inp then studio_first (di_state inp)
          else case view_lookup v (di_path inp) of
            Unknown \<Rightarrow> studio_first (di_state inp)
          | found \<Rightarrow>
              let agreed = (case found of Known k \<Rightarrow> Some k | _ \<Rightarrow> None) in
              (case di_state inp of
                 OnlyOnDisk \<Rightarrow> (case agreed of None \<Rightarrow> DiskWins | Some _ \<Rightarrow> StudioKeepDisk)
               | Differs \<Rightarrow>
                   (case agreed of
                      None \<Rightarrow> StudioKeepDisk
                    | Some k \<Rightarrow>
                        (case (di_disk inp \<noteq> Some k, di_studio inp \<noteq> Some k) of
                           (False, True) \<Rightarrow> StudioWins
                         | (True, False) \<Rightarrow> DiskWins
                         | _ \<Rightarrow> StudioKeepDisk))
               | MissingOnDisk \<Rightarrow>
                   (case agreed of
                      None \<Rightarrow> StudioWins
                    | Some k \<Rightarrow>
                        if di_studio inp \<noteq> Some k then StudioWins
                        else case (di_descendants inp, view_descendants v (di_path inp)) of
                          (Some studio, Some agreed_below) \<Rightarrow>
                            if subtree_unchanged studio agreed_below then DiskWins else StudioWins
                        | _ \<Rightarrow> StudioWins)))"

section \<open>Guarantees\<close>

lemma subtree_unchanged_iff:
  assumes "om_ok studio" "om_ok below"
  shows "subtree_unchanged studio below \<longleftrightarrow>
     (\<forall>rel. om_get studio rel = map_option Some (om_get below rel))"
proof
  assume eq: "\<forall>rel. om_get studio rel = map_option Some (om_get below rel)"
  note ds = om_ok_distinct [OF assms(1)] and db = om_ok_distinct [OF assms(2)]
  have "dom (om_get studio) = dom (om_get below)" using eq by (auto simp: dom_def)
  then have "fst ` set studio = fst ` set below" by (simp add: dom_map_of_conv_image_fst)
  then have "length studio = length below"
    using distinct_card [OF ds] distinct_card [OF db] by simp
  then show "subtree_unchanged studio below"
    using eq db by (auto simp: subtree_unchanged_def list_all_iff)
next
  assume un: "subtree_unchanged studio below"
  note ds = om_ok_distinct [OF assms(1)] and db = om_ok_distinct [OF assms(2)]
  have hit: "om_get below rel = Some k \<Longrightarrow> om_get studio rel = Some (Some k)" for rel k
    using un by (fastforce simp: subtree_unchanged_def list_all_iff dest: map_of_SomeD split: option.splits)
  have sub: "fst ` set below \<subseteq> fst ` set studio"
  proof
    fix rel assume "rel \<in> fst ` set below"
    then obtain k where "om_get below rel = Some k"
      by (metis map_of_eq_None_iff not_None_eq)
    then have "om_get studio rel \<noteq> None" using hit by simp
    then show "rel \<in> fst ` set studio" by (simp add: map_of_eq_None_iff)
  qed
  moreover have "card (fst ` set below) = card (fst ` set studio)"
    using un distinct_card [OF ds] distinct_card [OF db] by (simp add: subtree_unchanged_def)
  ultimately have same: "fst ` set below = fst ` set studio" by (intro card_subset_eq) auto
  show "\<forall>rel. om_get studio rel = map_option Some (om_get below rel)"
  proof
    fix rel
    show "om_get studio rel = map_option Some (om_get below rel)"
    proof (cases "om_get below rel")
      case None
      then have "rel \<notin> fst ` set studio" using same by (metis map_of_eq_None_iff)
      with None show ?thesis by (metis map_of_eq_None_iff option.map_disc_iff)
    next
      case (Some k)
      then show ?thesis using hit by simp
    qed
  qed
qed

context base_interface
begin

text \<open>The comparison finds exactly the subtrees in which every agreed entry is still in place.\<close>

lemma subtree_check:
  assumes "ok b" "om_ok ds"
  shows "(case below b p of None \<Rightarrow> False | Some d \<Rightarrow> subtree_unchanged ds d) \<longleftrightarrow>
    (\<forall>a. amb b a \<longrightarrow> \<not> prefix (p @ ''/'') a) \<and>
    (\<forall>rel. om_get ds rel = map_option Some (entry b (p @ ''/'' @ rel)))"
proof (cases "below b p")
  case None
  then show ?thesis using below_refused [OF assms(1), of p] by auto
next
  case (Some d)
  then have "\<forall>a. amb b a \<longrightarrow> \<not> prefix (p @ ''/'') a" using below_refused [OF assms(1), of p] by auto
  then show ?thesis
    using Some subtree_unchanged_iff [OF assms(2) below_ok [OF assms(1) Some]] below_entry [OF assms(1) Some]
    by simp
qed

end

subsection \<open>What a side wins\<close>

text \<open>
  C4: Disk wins a difference in exactly three situations, all judged by an applicable base on
  an unambiguous path: the path is new on disk since the last sync; both sides have it,
  Studio still holds the agreed key and disk does not; or disk deleted it while Studio's
  instance and its whole subtree still are what was agreed.
\<close>

theorem disk_wins_iff:
  assumes "view_ok v" "\<And>ds. di_descendants inp = Some ds \<Longrightarrow> om_ok ds"
  shows "classify (Some v) inp = DiskWins \<longleftrightarrow>
    \<not> di_ambiguous inp \<and> di_path inp \<notin> set (bv_ambiguous v) \<and>
    (case di_state inp of
       OnlyOnDisk \<Rightarrow> om_get (bv_entries v) (di_path inp) = None
     | Differs \<Rightarrow> \<exists>k. om_get (bv_entries v) (di_path inp) = Some k \<and>
         di_studio inp = Some k \<and> di_disk inp \<noteq> Some k
     | MissingOnDisk \<Rightarrow> \<exists>k ds. om_get (bv_entries v) (di_path inp) = Some k \<and>
         di_studio inp = Some k \<and> di_descendants inp = Some ds \<and>
         (\<forall>a\<in>set (bv_ambiguous v). \<not> prefix (di_path inp @ ''/'') a) \<and>
         (\<forall>rel. om_get ds rel = map_option Some (om_get (bv_entries v) (di_path inp @ ''/'' @ rel))))"
proof -
  have missing: "(case (di_descendants inp, view_descendants v (di_path inp)) of
        (Some ds, Some below) \<Rightarrow> if subtree_unchanged ds below then DiskWins else StudioWins
      | _ \<Rightarrow> StudioWins) = DiskWins \<longleftrightarrow>
    (\<exists>ds. di_descendants inp = Some ds \<and> (\<forall>a\<in>set (bv_ambiguous v). \<not> prefix (di_path inp @ ''/'') a) \<and>
      (\<forall>rel. om_get ds rel = map_option Some (om_get (bv_entries v) (di_path inp @ ''/'' @ rel))))"
  proof (cases "di_descendants inp")
    case (Some ds)
    then show ?thesis
      using bv.subtree_check [OF assms(1) assms(2) [OF Some], of "di_path inp"]
      by (auto split: option.splits)
  qed simp
  show ?thesis
  proof (cases "view_lookup v (di_path inp)")
    case (Known k)
    then have "di_path inp \<notin> set (bv_ambiguous v)" "om_get (bv_entries v) (di_path inp) = Some k"
      by (simp_all add: bv.look_Known)
    then show ?thesis
      using Known missing
      by (cases "di_state inp") (auto simp: classify_def studio_first_def split: bool.splits)
  next
    case Absent
    then have "di_path inp \<notin> set (bv_ambiguous v)" "om_get (bv_entries v) (di_path inp) = None"
      by (simp_all add: bv.look_Absent)
    then show ?thesis
      using Absent by (cases "di_state inp") (simp_all add: classify_def studio_first_def)
  next
    case Unknown
    then have "di_path inp \<in> set (bv_ambiguous v)" by (simp add: bv.look_Unknown)
    with Unknown show ?thesis by (cases "di_state inp") (auto simp: classify_def studio_first_def)
  qed
qed

text \<open>
  C5: When the classification lets Studio win without keeping the disk side, nothing on disk
  is lost: either disk has no such instance, or disk holds exactly the key both sides agreed
  on.
\<close>

theorem studio_win_loses_nothing:
  assumes "classify base inp = StudioWins"
  shows "di_state inp = MissingOnDisk \<or>
    (\<exists>v k. base = Some v \<and> di_state inp = Differs \<and> view_lookup v (di_path inp) = Known k \<and>
       di_disk inp = Some k \<and> di_studio inp \<noteq> Some k)"
  using assms
  by (cases base; cases "di_state inp")
    (auto simp: classify_def studio_first_def split: if_splits lookup.splits option.splits bool.splits)

theorem studio_win_loses_nothing_witness:
  "classify (Some example_view) \<lparr>di_state = Differs, di_path = ''S/A/B'',
      di_disk = Some \<lparr>key_class = ''ModuleScript'', key_source = Some ''h''\<rparr>,
      di_studio = Some \<lparr>key_class = ''ModuleScript'', key_source = Some ''k''\<rparr>,
      di_descendants = None, di_ambiguous = False\<rparr> = StudioWins \<and>
   view_lookup example_view ''S/A/B'' = Known \<lparr>key_class = ''ModuleScript'', key_source = Some ''h''\<rparr>"
proof -
  let ?i = "\<lparr>di_state = Differs, di_path = ''S/A/B'',
      di_disk = Some \<lparr>key_class = ''ModuleScript'', key_source = Some ''h''\<rparr>,
      di_studio = Some \<lparr>key_class = ''ModuleScript'', key_source = Some ''k''\<rparr>,
      di_descendants = None, di_ambiguous = False\<rparr>"
  have "classify (Some example_view) ?i = StudioWins"
    by (simp add: classify_def view_lookup_def example_view_def)
  then show ?thesis using studio_win_loses_nothing [of "Some example_view" ?i] by simp
qed

theorem disk_wins_iff_witness:
  "classify (Some example_view) \<lparr>di_state = MissingOnDisk, di_path = ''S/A'', di_disk = None,
      di_studio = Some \<lparr>key_class = ''Folder'', key_source = None\<rparr>,
      di_descendants = Some [(''B'', Some \<lparr>key_class = ''ModuleScript'', key_source = Some ''h''\<rparr>)],
      di_ambiguous = False\<rparr> = DiskWins"
proof -
  have "om_get [(''B'', Some \<lparr>key_class = ''ModuleScript'', key_source = Some ''h''\<rparr>)] rel =
      map_option Some (om_get (bv_entries example_view) (''S/A/'' @ rel))" for rel
    by (simp add: example_view_def)
  then show ?thesis
    using disk_wins_iff [OF example_view_ok, of "\<lparr>di_state = MissingOnDisk, di_path = ''S/A'', di_disk = None,
      di_studio = Some \<lparr>key_class = ''Folder'', key_source = None\<rparr>,
      di_descendants = Some [(''B'', Some \<lparr>key_class = ''ModuleScript'', key_source = Some ''h''\<rparr>)],
      di_ambiguous = False\<rparr>"]
    by (simp add: om_ok_def) (simp add: example_view_def)
qed

text \<open>
  Without a base the classification is the old Studio-first rule, and with one it never
  prefers disk on a path the base or the report calls ambiguous.
\<close>

theorem ambiguity_is_studio_first:
  "classify None inp = studio_first (di_state inp) \<and>
   (di_ambiguous inp \<or> di_path inp \<in> set (bv_ambiguous v) \<longrightarrow>
      classify (Some v) inp = studio_first (di_state inp))"
  by (auto simp: classify_def view_lookup_def)

theorem ambiguity_is_studio_first_witness:
  "classify (Some example_view) \<lparr>di_state = OnlyOnDisk, di_path = ''T/Dup'', di_disk = None,
      di_studio = None, di_descendants = None, di_ambiguous = False\<rparr> = StudioKeepDisk"
  using ambiguity_is_studio_first [of "\<lparr>di_state = OnlyOnDisk, di_path = ''T/Dup'', di_disk = None,
      di_studio = None, di_descendants = None, di_ambiguous = False\<rparr>" example_view]
  by (simp add: example_view_def studio_first_def)

end
