(* ===== verification/Snapshot.thy ===== *)
theory Snapshot
  imports Content
begin

text \<open>
  Snapshots and change sets (\<^verbatim>\<open>src/core/snapshot.rs\<close>, \<^verbatim>\<open>src/core/changes.rs\<close>,
  \<^verbatim>\<open>src/core/helpers/migrations.rs\<close>) and the messages of the sync queue
  (\<^verbatim>\<open>src/server/mod.rs\<close>). The conversion of a \<open>ContentId\<close> into a \<open>Content\<close> value belongs to
  \<open>rbx_dom_weak\<close> and is the parameter \<open>content_of\<close>; a property map is an association list with
  \<open>prop_insert\<close> and \<open>prop_remove\<close> for the hash map's operations.
\<close>

section \<open>Property maps\<close>

definition prop_remove :: "string \<Rightarrow> 'v properties \<Rightarrow> 'v properties" where
  "prop_remove k ps = filter (\<lambda>(k', _). k' \<noteq> k) ps"

definition prop_insert :: "string \<Rightarrow> 'v variant \<Rightarrow> 'v properties \<Rightarrow> 'v properties" where
  "prop_insert k v ps = (k, v) # prop_remove k ps"

definition prop_extend :: "'v properties \<Rightarrow> 'v properties \<Rightarrow> 'v properties" where
  "prop_extend new ps = fold (\<lambda>(k, v). prop_insert k v) new ps"

lemma prop_get_remove: "map_of (prop_remove k ps) = (map_of ps)(k := None)"
  by (induction ps) (auto simp: prop_remove_def fun_eq_iff)

lemma prop_get_insert: "map_of (prop_insert k v ps) = (map_of ps)(k \<mapsto> v)"
  by (simp add: prop_insert_def prop_get_remove)

interpretation pm: finite_map "\<lambda>_. True" map_of prop_insert prop_remove
  by unfold_locales (simp_all add: prop_get_insert prop_get_remove)

lemma prop_get_extend: "map_of (prop_extend new ps) = map_of ps ++ map_of (rev new)"
  unfolding prop_extend_def using pm.fold_ins [of new ps] by simp

section \<open>Migrations\<close>

definition migrations :: "string \<Rightarrow> (string \<times> string) list option" where
  "migrations cls = map_of [
     (''ImageLabel'', [(''Image'', ''ImageContent'')]),
     (''ImageButton'', [(''Image'', ''ImageContent'')]),
     (''MeshPart'', [(''MeshId'', ''MeshContent''), (''TextureID'', ''TextureContent'')]),
     (''BaseWrap'', [(''CageMeshId'', ''CageMeshContent'')]),
     (''WrapLayer'', [(''ReferenceMeshId'', ''ReferenceMeshContent'')])] cls"

text \<open>
  One entry of the migration loop. \<open>properties.remove(old)\<close> runs before its result is matched
  against \<open>ContentId\<close>, so an old property of any other type is removed as well.
\<close>

definition migrate_entry ::
  "(string \<Rightarrow> 'v variant) \<Rightarrow> string \<times> string \<Rightarrow> 'v properties \<Rightarrow> 'v properties" where
  "migrate_entry content_of = (\<lambda>(old, new) ps.
     if map_of ps new \<noteq> None then ps
     else case map_of ps old of
       Some (VContentId value) \<Rightarrow> prop_insert new (content_of value) (prop_remove old ps)
     | _ \<Rightarrow> prop_remove old ps)"

definition apply_migrations ::
  "(string \<Rightarrow> 'v variant) \<Rightarrow> string \<Rightarrow> 'v properties \<Rightarrow> 'v properties" where
  "apply_migrations content_of cls ps =
     (case migrations cls of None \<Rightarrow> ps | Some ms \<Rightarrow> fold (migrate_entry content_of) ms ps)"

section \<open>Snapshots\<close>

datatype ('u, 'v) snapshot = Snapshot
  (sn_id: dref)
  (sn_meta: "'u meta")
  (sn_name: string)
  (sn_class: string)
  (sn_properties: "'v properties")
  (sn_children: "('u, 'v) snapshot list")

record ('u, 'v) added_snapshot =
  as_id :: dref
  as_meta :: "'u meta"
  as_parent :: dref
  as_name :: string
  as_class :: string
  as_properties :: "'v properties"
  as_children :: "('u, 'v) snapshot list"

definition snapshot_new :: "('u, 'v) snapshot" where
  "snapshot_new = Snapshot ref_none meta_new '''' ''Folder'' [] []"

fun set_properties :: "(string \<Rightarrow> 'v variant) \<Rightarrow> 'v properties \<Rightarrow> ('u, 'v) snapshot \<Rightarrow> ('u, 'v) snapshot" where
  "set_properties content_of ps (Snapshot i m n c _ ch) =
     Snapshot i m n c (apply_migrations content_of c ps) ch"

fun add_property :: "(string \<Rightarrow> 'v variant) \<Rightarrow> string \<Rightarrow> 'v variant \<Rightarrow> ('u, 'v) snapshot \<Rightarrow> ('u, 'v) snapshot" where
  "add_property content_of k v (Snapshot i m n c ps ch) =
     Snapshot i m n c (apply_migrations content_of c (prop_insert k v ps)) ch"

fun extend_properties :: "(string \<Rightarrow> 'v variant) \<Rightarrow> 'v properties \<Rightarrow> ('u, 'v) snapshot \<Rightarrow> ('u, 'v) snapshot" where
  "extend_properties content_of new (Snapshot i m n c ps ch) =
     Snapshot i m n c (apply_migrations content_of c (prop_extend new ps)) ch"

record 'v data_snapshot =
  ds_path :: path
  ds_class :: "string option"
  ds_keep_unknowns :: "bool option"
  ds_original_name :: "string option"
  ds_mesh_source :: "string option"
  ds_properties :: "'v properties"

definition apply_data :: "(string \<Rightarrow> 'v variant) \<Rightarrow> 'v data_snapshot \<Rightarrow> ('u, 'v) snapshot \<Rightarrow> ('u, 'v) snapshot" where
  "apply_data content_of d s = (case s of Snapshot i m n c ps ch \<Rightarrow>
     let c = (case ds_class d of Some cls \<Rightarrow> cls | None \<Rightarrow> c);
         m = (case ds_keep_unknowns d of Some b \<Rightarrow> m\<lparr>mt_keep_unknowns := b\<rparr> | None \<Rightarrow> m);
         (n, m) = (case ds_original_name d of
             Some orig \<Rightarrow> (orig, m\<lparr>mt_original_name := Some orig\<rparr>) | None \<Rightarrow> (n, m));
         m = (case ds_mesh_source d of Some mesh \<Rightarrow> m\<lparr>mt_mesh_source := Some mesh\<rparr> | None \<Rightarrow> m)
     in case extend_properties content_of (ds_properties d) (Snapshot i m n c ps ch) of
          Snapshot i m n c ps ch \<Rightarrow>
            Snapshot i (m\<lparr>mt_source := add_data (ds_path d) (mt_source m)\<rparr>) n c ps ch)"

definition as_new :: "dref \<Rightarrow> ('u, 'v) snapshot \<Rightarrow> ('u, 'v) added_snapshot" where
  "as_new parent s = \<lparr>as_id = sn_id s, as_meta = sn_meta s, as_parent = parent, as_name = sn_name s,
     as_class = sn_class s, as_properties = sn_properties s, as_children = sn_children s\<rparr>"

definition from_added :: "('u, 'v) added_snapshot \<Rightarrow> ('u, 'v) snapshot" where
  "from_added a = Snapshot (as_id a) (as_meta a) (as_name a) (as_class a) (as_properties a) (as_children a)"

definition updated_new :: "dref \<Rightarrow> ('u, 'v) updated_snapshot" where
  "updated_new i = \<lparr>us_id = i, us_meta = None, us_name = None, us_class = None, us_properties = None\<rparr>"

definition updated_is_empty :: "('u, 'v) updated_snapshot \<Rightarrow> bool" where
  "updated_is_empty u \<longleftrightarrow> us_meta u = None \<and> us_name u = None \<and> us_class u = None \<and> us_properties u = None"

section \<open>Change sets\<close>

record ('u, 'v) changes =
  additions :: "('u, 'v) added_snapshot list"
  updates :: "('u, 'v) updated_snapshot list"
  removals :: "dref list"

definition changes_new :: "('u, 'v) changes" where
  "changes_new = \<lparr>additions = [], updates = [], removals = []\<rparr>"

definition changes_add :: "('u, 'v) snapshot \<Rightarrow> dref \<Rightarrow> ('u, 'v) changes \<Rightarrow> ('u, 'v) changes" where
  "changes_add s parent c = c\<lparr>additions := additions c @ [as_new parent s]\<rparr>"

definition changes_update :: "('u, 'v) updated_snapshot \<Rightarrow> ('u, 'v) changes \<Rightarrow> ('u, 'v) changes" where
  "changes_update u c = c\<lparr>updates := updates c @ [u]\<rparr>"

definition changes_remove :: "dref \<Rightarrow> ('u, 'v) changes \<Rightarrow> ('u, 'v) changes" where
  "changes_remove i c = c\<lparr>removals := removals c @ [i]\<rparr>"

definition changes_extend :: "('u, 'v) changes \<Rightarrow> ('u, 'v) changes \<Rightarrow> ('u, 'v) changes" where
  "changes_extend d c = \<lparr>additions = additions c @ additions d, updates = updates c @ updates d,
     removals = removals c @ removals d\<rparr>"

definition changes_is_empty :: "('u, 'v) changes \<Rightarrow> bool" where
  "changes_is_empty c \<longleftrightarrow> additions c = [] \<and> updates c = [] \<and> removals c = []"

definition changes_total :: "('u, 'v) changes \<Rightarrow> nat" where
  "changes_total c = length (additions c) + length (updates c) + length (removals c)"

section \<open>Queue messages\<close>

record project_details =
  pd_version :: string
  pd_name :: string
  pd_game_id :: "u64 option"
  pd_place_ids :: "u64 list"
  pd_root_refs :: "dref list"

datatype ('u, 'v) message = SyncChanges "('u, 'v) changes" | SyncbackChanges
  | SyncDetails project_details | ExecuteCode string | Disconnect string

definition is_change :: "('u, 'v) message \<Rightarrow> bool" where
  "is_change m = (case m of SyncChanges _ \<Rightarrow> True | SyncbackChanges \<Rightarrow> True | _ \<Rightarrow> False)"

section \<open>Properties\<close>

lemma as_new_from_added [simp]: "from_added (as_new parent s) = s"
  by (cases s) (simp add: as_new_def from_added_def)

lemma migrate_entry_get:
  assumes "old \<noteq> new" "q \<noteq> old" "q \<noteq> new"
  shows "map_of (migrate_entry content_of (old, new) ps) q = map_of ps q"
  using assms
  by (auto simp: migrate_entry_def prop_get_insert prop_get_remove split: option.splits variant.splits)

lemma migrate_entry_local:
  assumes "map_of ps old = map_of qs old" "map_of ps new = map_of qs new" "q \<in> {old, new}"
  shows "map_of (migrate_entry content_of (old, new) ps) q = map_of (migrate_entry content_of (old, new) qs) q"
proof (cases "map_of qs new")
  case None
  with assms show ?thesis
    by (cases "map_of qs old")
      (auto simp: migrate_entry_def prop_get_insert prop_get_remove split: variant.splits)
next
  case (Some v)
  with assms show ?thesis by (auto simp: migrate_entry_def)
qed

text \<open>
  The migration map holds for each class at most two pairs, all over different names.
\<close>

lemma migrations_distinct:
  assumes "migrations cls = Some ms"
  shows "distinct (concat (map (\<lambda>(old, new). [old, new]) ms))"
  using assms by (auto simp: migrations_def split: if_splits)

lemma fold_migrate_get:
  assumes "distinct (concat (map (\<lambda>(old, new). [old, new]) ms))" "(old, new) \<in> set ms"
  shows "map_of (fold (migrate_entry content_of) ms ps) new = map_of (migrate_entry content_of (old, new) ps) new \<and>
         map_of (fold (migrate_entry content_of) ms ps) old = map_of (migrate_entry content_of (old, new) ps) old"
  using assms
proof (induction ms arbitrary: ps)
  case (Cons m ms)
  obtain o1 n1 where m: "m = (o1, n1)" by (cases m)
  have other: "map_of (fold (migrate_entry content_of) ms qs) q = map_of qs q"
    if "q \<notin> set (concat (map (\<lambda>(old, new). [old, new]) ms))" for q qs
    using that Cons.prems(1)
  proof (induction ms arbitrary: qs)
    case (Cons m' ms)
    then show ?case using migrate_entry_get [of "fst m'" "snd m'" q content_of qs] by (cases m') auto
  qed simp
  show ?case
  proof (cases "(old, new) = m")
    case True
    then show ?thesis using Cons.prems(1) m by (auto simp: other)
  next
    case False
    then have mem: "(old, new) \<in> set ms" using Cons.prems(2) by auto
    then have fresh: "{old, new} \<subseteq> set (concat (map (\<lambda>(old, new). [old, new]) ms))" by force
    then have "old \<noteq> o1" "old \<noteq> n1" "new \<noteq> o1" "new \<noteq> n1" "o1 \<noteq> n1"
      using Cons.prems(1) m by auto
    then have same: "map_of (migrate_entry content_of (o1, n1) ps) old = map_of ps old"
      "map_of (migrate_entry content_of (o1, n1) ps) new = map_of ps new"
      by (simp_all add: migrate_entry_get)
    have "map_of (migrate_entry content_of (old, new) (migrate_entry content_of (o1, n1) ps)) q =
        map_of (migrate_entry content_of (old, new) ps) q" if "q \<in> {old, new}" for q
      using migrate_entry_local [OF same that] .
    then show ?thesis using Cons.IH [of "migrate_entry content_of m ps"] Cons.prems(1) mem m by simp
  qed
qed simp

text \<open>
  What a property migration does to the two names it connects, on every branch: a map that
  already has the new name is left alone; a \<open>ContentId\<close> under the old name moves to the new
  one; and a value of any other type under the old name is gone afterwards, under both names.
\<close>

theorem migration_outcome:
  assumes "migrations cls = Some ms" "(old, new) \<in> set ms"
  shows "let ps' = apply_migrations content_of cls ps in
    (case (map_of ps new, map_of ps old) of
       (Some v, o1) \<Rightarrow> map_of ps' new = Some v \<and> map_of ps' old = o1
     | (None, Some (VContentId value)) \<Rightarrow> map_of ps' new = Some (content_of value) \<and> map_of ps' old = None
     | (None, _) \<Rightarrow> map_of ps' new = None \<and> map_of ps' old = None)"
proof -
  note dist = migrations_distinct [OF assms(1)]
  have ne: "old \<noteq> new" using dist assms(2) by (induction ms) (auto simp: split_def)
  show ?thesis
    using fold_migrate_get [OF dist assms(2), of content_of ps] ne
    by (auto simp: apply_migrations_def assms(1) Let_def migrate_entry_def prop_get_insert
        prop_get_remove split: option.splits variant.splits)
qed

theorem migration_outcome_witness:
  "map_of (apply_migrations (\<lambda>s. VOther s) ''MeshPart'' [(''TextureID'', VString ''rbxassetid://1'')])
     ''TextureID'' = None \<and>
   map_of (apply_migrations (\<lambda>s. VOther s) ''MeshPart'' [(''TextureID'', VContentId ''rbxassetid://1'')])
     ''TextureContent'' = Some (VOther ''rbxassetid://1'')"
proof -
  have m: "migrations ''MeshPart'' = Some [(''MeshId'', ''MeshContent''), (''TextureID'', ''TextureContent'')]"
    by (simp add: migrations_def)
  show ?thesis
    using migration_outcome [OF m, of "''TextureID''" "''TextureContent''" "\<lambda>s. VOther s"
        "[(''TextureID'', VString ''rbxassetid://1'')]"]
      migration_outcome [OF m, of "''TextureID''" "''TextureContent''" "\<lambda>s. VOther s"
        "[(''TextureID'', VContentId ''rbxassetid://1'')]"]
    by (simp add: Let_def)
qed

end
