(* ===== verification/Tree.thy ===== *)
theory Tree
  imports Snapshot
begin

text \<open>
  The instance tree (\<^verbatim>\<open>src/core/tree.rs\<close>) and the captures taken from it
  (\<^verbatim>\<open>src/core/conflict/content.rs\<close>). The tree keeps a \<open>WeakDom\<close> (\<open>rbx_dom_weak\<close>), a
  \<open>MultiMap\<close> (\<open>multimap\<close>) from paths to instances, the metadata of every instance and a
  generation counter.

  The two packages are outside the repository: their operations are the fields of a
  \<open>tree_ops\<close> record that every definition takes, and \<open>dom_laws\<close> and \<open>multi_laws\<close> state
  their documented behaviour. A panic is \<open>None\<close>. The referents \<open>InstanceBuilder::new\<close> draws
  are a stream \<open>draw\<close> read at a counter.

  The recursive walk of \<open>remove_instance\<close> and the growing work list of \<open>subtree_refs\<close> are
  \<open>partial_function\<close>s: \<open>None\<close> is a walk that does not end.
\<close>

section \<open>The packages\<close>

record 'v inst =
  in_name :: string
  in_class :: string
  in_properties :: "'v properties"
  in_parent :: dref
  in_children :: "dref list"

record ('d, 'm, 'v) tree_ops =
  dom_new :: "dref \<Rightarrow> string \<Rightarrow> string \<Rightarrow> 'v properties \<Rightarrow> 'd"
  dom_root :: "'d \<Rightarrow> dref"
  dom_get :: "'d \<Rightarrow> dref \<Rightarrow> 'v inst option"
  dom_modify :: "dref \<Rightarrow> string \<Rightarrow> string \<Rightarrow> 'v properties \<Rightarrow> 'd \<Rightarrow> 'd"
  dom_insert :: "dref \<Rightarrow> dref \<Rightarrow> string \<Rightarrow> string \<Rightarrow> 'v properties \<Rightarrow> 'd \<Rightarrow> 'd option"
  dom_destroy :: "dref \<Rightarrow> 'd \<Rightarrow> 'd option"
  mm_new :: 'm
  mm_get_vec :: "'m \<Rightarrow> path \<Rightarrow> dref list option"
  mm_insert :: "path \<Rightarrow> dref \<Rightarrow> 'm \<Rightarrow> 'm"
  mm_put_vec :: "path \<Rightarrow> dref list \<Rightarrow> 'm \<Rightarrow> 'm"
  mm_remove :: "path \<Rightarrow> 'm \<Rightarrow> 'm"

text \<open>
  A dom is a tree: the root has no parent, every other instance is listed exactly once, by its
  parent, and following the children ends. Any set of instances of a finite tree has a rank
  that falls from parent to child.
\<close>

definition kids :: "(dref \<Rightarrow> 'v inst option) \<Rightarrow> dref \<Rightarrow> dref list" where
  "kids m i = (case m i of None \<Rightarrow> [] | Some x \<Rightarrow> in_children x)"

definition child_rel :: "(dref \<Rightarrow> 'v inst option) \<Rightarrow> (dref \<times> dref) set" where
  "child_rel m = {(i, j). j \<in> set (kids m i)}"

abbreviation below :: "(dref \<Rightarrow> 'v inst option) \<Rightarrow> dref \<Rightarrow> dref set" where
  "below m i \<equiv> {j. (i, j) \<in> (child_rel m)\<^sup>*}"

definition dom_wf :: "dref \<Rightarrow> (dref \<Rightarrow> 'v inst option) \<Rightarrow> bool" where
  "dom_wf root m \<longleftrightarrow>
     m ref_none = None \<and>
     (\<exists>x. m root = Some x \<and> in_parent x = ref_none) \<and>
     (\<forall>i x. m i = Some x \<longrightarrow> distinct (in_children x) \<and>
        (\<forall>j\<in>set (in_children x). \<exists>y. m j = Some y \<and> in_parent y = i) \<and>
        (i = root \<or> (\<exists>y. m (in_parent x) = Some y \<and> i \<in> set (in_children y)))) \<and>
     (\<exists>rank :: dref \<Rightarrow> nat. \<forall>i j. (i, j) \<in> child_rel m \<longrightarrow> rank j < rank i)"

definition new_law :: "('d, 'm, 'v) tree_ops \<Rightarrow> bool" where
  "new_law ops \<longleftrightarrow> (\<forall>r n c ps. r \<noteq> ref_none \<longrightarrow> dom_root ops (dom_new ops r n c ps) = r \<and>
     dom_get ops (dom_new ops r n c ps) =
       [r \<mapsto> \<lparr>in_name = n, in_class = c, in_properties = ps, in_parent = ref_none, in_children = []\<rparr>])"

definition modify_law :: "('d, 'm, 'v) tree_ops \<Rightarrow> bool" where
  "modify_law ops \<longleftrightarrow> (\<forall>i n c ps d. dom_root ops (dom_modify ops i n c ps d) = dom_root ops d \<and>
     dom_get ops (dom_modify ops i n c ps d) = (dom_get ops d)(i := map_option
       (\<lambda>x. x\<lparr>in_name := n, in_class := c, in_properties := ps\<rparr>) (dom_get ops d i)))"

definition insert_law :: "('d, 'm, 'v) tree_ops \<Rightarrow> bool" where
  "insert_law ops \<longleftrightarrow> (\<forall>p r n c ps d x. dom_get ops d p = Some x \<and> dom_get ops d r = None \<and> r \<noteq> ref_none \<longrightarrow>
     (\<exists>d'. dom_insert ops p r n c ps d = Some d' \<and> dom_root ops d' = dom_root ops d \<and>
       dom_get ops d' = (dom_get ops d)
         (p \<mapsto> x\<lparr>in_children := in_children x @ [r]\<rparr>,
          r \<mapsto> \<lparr>in_name = n, in_class = c, in_properties = ps, in_parent = p, in_children = []\<rparr>)))"

definition destroy_law :: "('d, 'm, 'v) tree_ops \<Rightarrow> bool" where
  "destroy_law ops \<longleftrightarrow> (\<forall>i d x. dom_wf (dom_root ops d) (dom_get ops d) \<and> dom_get ops d i = Some x \<and>
       i \<noteq> dom_root ops d \<longrightarrow>
     (\<exists>d'. dom_destroy ops i d = Some d' \<and> dom_root ops d' = dom_root ops d \<and>
       dom_get ops d' = (\<lambda>j. if j \<in> below (dom_get ops d) i then None
         else if j = in_parent x then map_option
           (\<lambda>y. y\<lparr>in_children := filter (\<lambda>k. k \<noteq> i) (in_children y)\<rparr>) (dom_get ops d j)
         else dom_get ops d j)))"

definition dom_laws :: "('d, 'm, 'v) tree_ops \<Rightarrow> bool" where
  "dom_laws ops \<longleftrightarrow> new_law ops \<and> modify_law ops \<and> insert_law ops \<and> destroy_law ops"

definition multi_laws :: "('d, 'm, 'v) tree_ops \<Rightarrow> bool" where
  "multi_laws ops \<longleftrightarrow>
     mm_get_vec ops (mm_new ops) = Map.empty \<and>
     (\<forall>p i m. mm_get_vec ops (mm_insert ops p i m) = (mm_get_vec ops m)
        (p \<mapsto> (case mm_get_vec ops m p of None \<Rightarrow> [i] | Some v \<Rightarrow> v @ [i]))) \<and>
     (\<forall>p v m. mm_get_vec ops (mm_put_vec ops p v m) = (mm_get_vec ops m)(p \<mapsto> v)) \<and>
     (\<forall>p m. mm_get_vec ops (mm_remove ops p m) = (mm_get_vec ops m)(p := None))"

section \<open>The tree\<close>

record ('d, 'm, 'u) tree =
  t_dom :: 'd
  t_path_to_ids :: 'm
  t_id_to_meta :: "dref \<Rightarrow> 'u meta option"
  t_generation :: u64

definition bump :: "('d, 'm, 'u) tree \<Rightarrow> ('d, 'm, 'u) tree" where
  "bump t = t\<lparr>t_generation := t_generation t + 1\<rparr>"

definition root_ref :: "('d, 'm, 'v) tree_ops \<Rightarrow> ('d, 'm, 'u) tree \<Rightarrow> dref" where
  "root_ref ops t = dom_root ops (t_dom t)"

definition get_instance :: "('d, 'm, 'v) tree_ops \<Rightarrow> ('d, 'm, 'u) tree \<Rightarrow> dref \<Rightarrow> 'v inst option" where
  "get_instance ops t i = dom_get ops (t_dom t) i"

definition get_meta :: "('d, 'm, 'u) tree \<Rightarrow> dref \<Rightarrow> 'u meta option" where
  "get_meta t i = t_id_to_meta t i"

definition get_ids :: "('d, 'm, 'v) tree_ops \<Rightarrow> ('d, 'm, 'u) tree \<Rightarrow> path \<Rightarrow> dref list option" where
  "get_ids ops t p = mm_get_vec ops (t_path_to_ids t) p"

definition exists_inst :: "('d, 'm, 'v) tree_ops \<Rightarrow> ('d, 'm, 'u) tree \<Rightarrow> dref \<Rightarrow> bool" where
  "exists_inst ops t i \<longleftrightarrow> dom_get ops (t_dom t) i \<noteq> None"

definition place_root_refs :: "('d, 'm, 'v) tree_ops \<Rightarrow> ('d, 'm, 'u) tree \<Rightarrow> dref list" where
  "place_root_refs ops t = kids (dom_get ops (t_dom t)) (dom_root ops (t_dom t))"

text \<open>The mutable accessors: the generation moves before the caller writes through them.\<close>

definition get_instance_mut ::
  "('d, 'm, 'v) tree_ops \<Rightarrow> dref \<Rightarrow> ('v inst \<Rightarrow> string \<times> string \<times> 'v properties) \<Rightarrow> ('d, 'm, 'u) tree \<Rightarrow> ('d, 'm, 'u) tree" where
  "get_instance_mut ops i write t =
     (let t = bump t in
      case dom_get ops (t_dom t) i of
        None \<Rightarrow> t
      | Some x \<Rightarrow> (case write x of (n, c, ps) \<Rightarrow> t\<lparr>t_dom := dom_modify ops i n c ps (t_dom t)\<rparr>))"

definition get_meta_mut :: "dref \<Rightarrow> ('u meta \<Rightarrow> 'u meta) \<Rightarrow> ('d, 'm, 'u) tree \<Rightarrow> ('d, 'm, 'u) tree" where
  "get_meta_mut i write t =
     (let t = bump t in t\<lparr>t_id_to_meta := (t_id_to_meta t)(i := map_option write (t_id_to_meta t i))\<rparr>)"

definition insert_meta :: "('d, 'm, 'v) tree_ops \<Rightarrow> dref \<Rightarrow> 'u meta \<Rightarrow> ('d, 'm, 'u) tree \<Rightarrow> ('d, 'm, 'u) tree" where
  "insert_meta ops i mt t =
     (let t = bump t in
      t\<lparr>t_path_to_ids := fold (\<lambda>p m. mm_insert ops p i m) (source_paths (mt_source mt)) (t_path_to_ids t),
        t_id_to_meta := (t_id_to_meta t)(i \<mapsto> mt)\<rparr>)"

definition unmap_path :: "('d, 'm, 'v) tree_ops \<Rightarrow> dref \<Rightarrow> path \<Rightarrow> 'm \<Rightarrow> 'm" where
  "unmap_path ops i p m =
     (case mm_get_vec ops m p of
        None \<Rightarrow> m
      | Some ids \<Rightarrow>
          (let ids = filter (\<lambda>mapped. mapped \<noteq> i) ids; m = mm_put_vec ops p ids m
           in if ids = [] then mm_remove ops p m else m))"

definition update_meta ::
  "('d, 'm, 'v) tree_ops \<Rightarrow> dref \<Rightarrow> 'u meta \<Rightarrow> ('d, 'm, 'u) tree \<Rightarrow> ('d, 'm, 'u) tree" where
  "update_meta ops i mt t =
     (let t = bump t;
          new_paths = source_paths (mt_source mt);
          t = (case t_id_to_meta t i of
                 None \<Rightarrow> t
               | Some old \<Rightarrow>
                   (let old_paths = source_paths (mt_source old);
                        removed = filter (\<lambda>p. p \<notin> set new_paths) old_paths;
                        added = filter (\<lambda>p. p \<notin> set old_paths) new_paths;
                        m = fold (unmap_path ops i) removed (t_path_to_ids t)
                    in t\<lparr>t_path_to_ids := fold (\<lambda>p m. mm_insert ops p i m) added m\<rparr>))
      in t\<lparr>t_id_to_meta := (t_id_to_meta t)(i \<mapsto> mt)\<rparr>)"

definition remove_meta :: "('d, 'm, 'v) tree_ops \<Rightarrow> dref \<Rightarrow> ('d, 'm, 'u) tree \<Rightarrow> ('d, 'm, 'u) tree" where
  "remove_meta ops i t =
     (let t = bump t in
      case t_id_to_meta t i of
        None \<Rightarrow> t
      | Some mt \<Rightarrow> t\<lparr>t_path_to_ids := fold (unmap_path ops i) (source_paths (mt_source mt)) (t_path_to_ids t),
          t_id_to_meta := (t_id_to_meta t)(i := None)\<rparr>)"

definition builder_name :: "('u, 'v) snapshot \<Rightarrow> string" where
  "builder_name s = (case mt_original_name (sn_meta s) of Some n \<Rightarrow> n | None \<Rightarrow> sn_name s)"

text \<open>The part the three insertions share: one instance under \<open>parent\<close> with a given referent.\<close>

definition insert_at ::
  "('d, 'm, 'v) tree_ops \<Rightarrow> dref \<Rightarrow> ('u, 'v) snapshot \<Rightarrow> dref \<Rightarrow> ('d, 'm, 'u) tree \<Rightarrow> ('d, 'm, 'u) tree option" where
  "insert_at ops i s parent t =
     (let t = bump t in
      case dom_insert ops parent i (builder_name s) (sn_class s) (sn_properties s) (t_dom t) of
        None \<Rightarrow> None
      | Some d \<Rightarrow> Some (insert_meta ops i (sn_meta s) (t\<lparr>t_dom := d\<rparr>)))"

definition insert_instance ::
  "('d, 'm, 'v) tree_ops \<Rightarrow> (nat \<Rightarrow> dref) \<Rightarrow> ('u, 'v) snapshot \<Rightarrow> dref \<Rightarrow> ('d, 'm, 'u) tree \<times> nat
   \<Rightarrow> (dref \<times> ('d, 'm, 'u) tree \<times> nat) option" where
  "insert_instance ops draw s parent = (\<lambda>(t, k).
     map_option (\<lambda>t. (draw k, t, Suc k)) (insert_at ops (draw k) s parent t))"

definition insert_instance_with_ref ::
  "('d, 'm, 'v) tree_ops \<Rightarrow> ('u, 'v) snapshot \<Rightarrow> dref \<Rightarrow> ('d, 'm, 'u) tree \<Rightarrow> ('d, 'm, 'u) tree option" where
  "insert_instance_with_ref ops s parent t = insert_at ops (sn_id s) s parent t"

fun insert_instance_recursive ::
  "('d, 'm, 'v) tree_ops \<Rightarrow> (nat \<Rightarrow> dref) \<Rightarrow> ('u, 'v) snapshot \<Rightarrow> dref \<Rightarrow> ('d, 'm, 'u) tree \<times> nat
   \<Rightarrow> (('d, 'm, 'u) tree \<times> nat) option" where
  "insert_instance_recursive ops draw (Snapshot sid mt name cls ps children) parent (t, k) =
     (case insert_at ops (draw k) (Snapshot sid mt name cls ps children) parent t of
        None \<Rightarrow> None
      | Some t \<Rightarrow> fold (\<lambda>child st. case st of
            None \<Rightarrow> None
          | Some tk \<Rightarrow> insert_instance_recursive ops draw child (draw k) tk) children (Some (t, Suc k)))"

definition tree_new ::
  "('d, 'm, 'v) tree_ops \<Rightarrow> (nat \<Rightarrow> dref) \<Rightarrow> ('u, 'v) snapshot \<Rightarrow> (('d, 'm, 'u) tree \<times> nat) option" where
  "tree_new ops draw s =
     (let t = \<lparr>t_dom = dom_new ops (draw 0) (sn_name s) (sn_class s) (sn_properties s),
               t_path_to_ids = mm_new ops, t_id_to_meta = Map.empty, t_generation = 0\<rparr>;
          root = root_ref ops t;
          t = insert_meta ops root (sn_meta s) t
      in fold (\<lambda>child st. case st of
            None \<Rightarrow> None
          | Some tk \<Rightarrow> insert_instance_recursive ops draw child root tk) (sn_children s) (Some (t, Suc 0)))"

text \<open>
  The walk of \<open>remove_instance\<close>, which pushes each child before it walks it, is a preorder with
  the calls still to make on a stack; \<open>unwrap\<close> on a missing instance is a panic.
\<close>

partial_function (option) walk ::
  "(dref \<Rightarrow> 'v inst option) \<Rightarrow> dref list \<Rightarrow> dref list \<Rightarrow> dref list option option" where
  "walk get stack to_remove =
     (case stack of
        [] \<Rightarrow> Some (Some to_remove)
      | i # rest \<Rightarrow> (case get i of
            None \<Rightarrow> Some None
          | Some x \<Rightarrow> walk get (in_children x @ rest) (to_remove @ [i])))"

definition remove_instance ::
  "('d, 'm, 'v) tree_ops \<Rightarrow> dref \<Rightarrow> ('d, 'm, 'u) tree \<Rightarrow> ('d, 'm, 'u) tree option option" where
  "remove_instance ops i t =
     (let t = bump t in
      if i = root_ref ops t then Some (Some t)
      else case walk (dom_get ops (t_dom t)) [i] [] of
        None \<Rightarrow> None
      | Some None \<Rightarrow> Some None
      | Some (Some to_remove) \<Rightarrow>
          (let t = fold (remove_meta ops) to_remove t in
           Some (map_option (\<lambda>d. t\<lparr>t_dom := d\<rparr>) (dom_destroy ops i (t_dom t)))))"

section \<open>Captures\<close>

text \<open>\<open>subtree_refs\<close>: the work list grows while the index walks it.\<close>

partial_function (option) subtree_loop ::
  "(dref \<Rightarrow> 'v inst option) \<Rightarrow> dref list \<Rightarrow> nat \<Rightarrow> dref list option" where
  "subtree_loop get refs index =
     (if index < length refs
      then subtree_loop get (refs @ (case get (refs ! index) of Some x \<Rightarrow> in_children x | None \<Rightarrow> [])) (Suc index)
      else Some refs)"

definition subtree_refs :: "('d, 'm, 'v) tree_ops \<Rightarrow> ('d, 'm, 'u) tree \<Rightarrow> dref \<Rightarrow> dref list option" where
  "subtree_refs ops t i = subtree_loop (dom_get ops (t_dom t)) [i] 0"

text \<open>The climb of \<open>instance_path\<close>, and the names joined with slashes.\<close>

partial_function (option) climb ::
  "(dref \<Rightarrow> 'v inst option) \<Rightarrow> dref \<Rightarrow> dref \<Rightarrow> string list \<Rightarrow> string list option" where
  "climb get root current names =
     (if current = root then Some names
      else case get current of
        None \<Rightarrow> Some names
      | Some x \<Rightarrow> climb get root (in_parent x) (names @ [in_name x]))"

fun join_slash :: "string list \<Rightarrow> string" where
  "join_slash [] = []"
| "join_slash [n] = n"
| "join_slash (n # ns) = n @ ''/'' @ join_slash ns"

definition instance_path :: "('d, 'm, 'v) tree_ops \<Rightarrow> ('d, 'm, 'u) tree \<Rightarrow> dref \<Rightarrow> string option" where
  "instance_path ops t i =
     map_option (\<lambda>names. join_slash (rev names)) (climb (dom_get ops (t_dom t)) (root_ref ops t) i [])"

text \<open>\<open>Path::strip_prefix\<close>, falling back to the path itself, as text.\<close>

definition strip_or_self :: "path \<Rightarrow> path \<Rightarrow> path" where
  "strip_or_self base p = (if prefix base p then drop (length base) p else p)"

definition relative_path ::
  "(path \<Rightarrow> string) \<Rightarrow> ('d, 'm, 'u) tree \<Rightarrow> dref \<Rightarrow> path \<Rightarrow> string option" where
  "relative_path show_path t i workspace_dir =
     (case get_meta t i of
        None \<Rightarrow> None
      | Some mt \<Rightarrow>
          (case sort_key entry_index (src_relevant (mt_source mt)) of
             [] \<Rightarrow> None
           | e # _ \<Rightarrow> Some (show_path (strip_or_self workspace_dir (entry_path e)))))"

definition capture_instance ::
  "('v, 'j) codec \<Rightarrow> (path \<Rightarrow> string) \<Rightarrow> ('d, 'm, 'v) tree_ops \<Rightarrow> ('d, 'm, 'u) tree \<Rightarrow> path \<Rightarrow> dref
   \<Rightarrow> ('v, 'j) captured option option" where
  "capture_instance c show_path ops t workspace_dir i =
     (case get_instance ops t i of
        None \<Rightarrow> Some None
      | Some x \<Rightarrow>
          (case instance_path ops t i of
             None \<Rightarrow> None
           | Some ip \<Rightarrow> Some (Some \<lparr>cap_info = \<lparr>info_id = i, info_parent = in_parent x, info_instance_path = ip,
                 info_rel_path = relative_path show_path t i workspace_dir\<rparr>,
               cap_content = content_new c (in_name x) (in_class x) (in_properties x),
               cap_properties = in_properties x\<rparr>)))"

text \<open>The walk of \<open>capture_subtree\<close>: a preorder that skips what the tree does not have.\<close>

partial_function (option) capture_walk ::
  "('v, 'j) codec \<Rightarrow> (path \<Rightarrow> string) \<Rightarrow> ('d, 'm, 'v) tree_ops \<Rightarrow> ('d, 'm, 'u) tree \<Rightarrow> path \<Rightarrow> dref list
   \<Rightarrow> ('v, 'j) captured list \<Rightarrow> ('v, 'j) captured list option" where
  "capture_walk c show_path ops t workspace_dir stack acc =
     (case stack of
        [] \<Rightarrow> Some acc
      | i # rest \<Rightarrow> Option.bind (capture_instance c show_path ops t workspace_dir i) (\<lambda>cap.
          capture_walk c show_path ops t workspace_dir
            ((case get_instance ops t i of Some x \<Rightarrow> in_children x | None \<Rightarrow> []) @ rest)
            (case cap of Some x \<Rightarrow> acc @ [x] | None \<Rightarrow> acc)))"

definition capture_subtree ::
  "('v, 'j) codec \<Rightarrow> (path \<Rightarrow> string) \<Rightarrow> ('d, 'm, 'v) tree_ops \<Rightarrow> ('d, 'm, 'u) tree \<Rightarrow> path \<Rightarrow> dref
   \<Rightarrow> ('v, 'j) captured list option" where
  "capture_subtree c show_path ops t workspace_dir i =
     capture_walk c show_path ops t workspace_dir [i] []"

end
