(* ===== verification/TreeSafety.thy ===== *)
theory TreeSafety
  imports Tree "HOL-Library.Multiset"
begin

text \<open>
  What the instance tree guarantees. A well-formed dom is unfolded into a rose tree, over which
  the walks of the code are structural; from it follow the termination and the exact result of
  every walk. The index from paths to instances is exact for every tree that the operations
  build, and the generation counter tells two trees of a run apart.
\<close>

section \<open>Rose trees of a dom\<close>

datatype rose = Rose (rid: dref) (rkids: "rose list")

fun represents :: "(dref \<Rightarrow> 'v inst option) \<Rightarrow> rose \<Rightarrow> bool" where
  "represents m (Rose i ts) \<longleftrightarrow>
     (\<exists>x. m i = Some x \<and> in_children x = map rid ts) \<and> (\<forall>t\<in>set ts. represents m t)"

fun labels :: "rose \<Rightarrow> dref list" where
  "labels (Rose i ts) = i # concat (map labels ts)"

abbreviation forest_labels :: "rose list \<Rightarrow> dref list" where
  "forest_labels ts \<equiv> concat (map labels ts)"

lemma dom_wf_rank:
  assumes "dom_wf root m"
  obtains rank :: "dref \<Rightarrow> nat" where "\<And>i j. j \<in> set (kids m i) \<Longrightarrow> rank j < rank i"
    and "\<And>i j. (i, j) \<in> (child_rel m)\<^sup>* \<Longrightarrow> rank j \<le> rank i"
proof -
  obtain rank :: "dref \<Rightarrow> nat" where rank: "\<And>i j. (i, j) \<in> child_rel m \<Longrightarrow> rank j < rank i"
    using assms unfolding dom_wf_def by blast
  have "rank j \<le> rank i" if "(i, j) \<in> (child_rel m)\<^sup>*" for i j
    using that by induction (auto dest: rank less_imp_le intro: order_trans)
  with rank that [of rank] show thesis by (simp add: child_rel_def)
qed

lemma dom_wf_kid:
  assumes "dom_wf root m" "j \<in> set (kids m i)"
  obtains y where "m j = Some y" "in_parent y = i"
  using assms unfolding dom_wf_def kids_def by (auto split: option.splits) metis

lemma in_kids_iff: "j \<in> set (kids m i) \<longleftrightarrow> (\<exists>x. m i = Some x \<and> j \<in> set (in_children x))"
  by (cases "m i") (simp_all add: kids_def)

lemma rose_exists:
  assumes wf: "dom_wf root m" and "m i \<noteq> None"
  shows "\<exists>t. rid t = i \<and> represents m t"
proof -
  obtain rank :: "dref \<Rightarrow> nat" where rank: "\<And>i j. j \<in> set (kids m i) \<Longrightarrow> rank j < rank i"
    using dom_wf_rank [OF wf] by metis
  from assms(2) show ?thesis
  proof (induction i rule: measure_induct_rule [of rank])
    case (less i)
    then obtain x where x: "m i = Some x" by auto
    have kid: "\<exists>t. rid t = j \<and> represents m t" if "j \<in> set (in_children x)" for j
    proof (rule less.IH)
      show "rank j < rank i" using rank [of j i] that x by (simp add: kids_def)
      show "m j \<noteq> None" using dom_wf_kid [OF wf, of j i] that x by (auto simp: kids_def)
    qed
    then obtain f where f: "\<And>j. j \<in> set (in_children x) \<Longrightarrow> rid (f j) = j \<and> represents m (f j)" by metis
    then have "map rid (map f (in_children x)) = in_children x" by (simp add: map_idI)
    then show ?case using f x by (intro exI [of _ "Rose i (map f (in_children x))"]) auto
  qed
qed

lemma represents_kids: "represents m t \<Longrightarrow> kids m (rid t) = map rid (rkids t)"
  by (cases t) (auto simp: kids_def)

lemma labels_rid: "rid t \<in> set (labels t)"
  by (cases t) simp

lemma labels_below: "represents m t \<Longrightarrow> set (labels t) = below m (rid t)"
proof (induction t)
  case (Rose i ts)
  then have sub: "\<forall>t\<in>set ts. set (labels t) = below m (rid t)" by auto
  have kids: "kids m i = map rid ts" using represents_kids [OF Rose.prems] by simp
  have "below m i = insert i (\<Union>j\<in>set (kids m i). below m j)"
    by (auto simp: child_rel_def intro: converse_rtrancl_into_rtrancl elim: converse_rtranclE)
  then show ?case using sub kids by auto
qed

lemma child_rel_unique: "dom_wf root m \<Longrightarrow> single_valued ((child_rel m)\<inverse>)"
  by (auto simp: single_valued_def child_rel_def) (metis dom_wf_kid option.inject)

lemma kids_disjoint:
  assumes wf: "dom_wf root m" and kids: "a \<in> set (kids m i)" "b \<in> set (kids m i)" "a \<noteq> b"
  shows "below m a \<inter> below m b = {}"
proof (rule ccontr)
  obtain rank :: "dref \<Rightarrow> nat" where rank: "\<And>i j. j \<in> set (kids m i) \<Longrightarrow> rank j < rank i"
    and falls: "\<And>x y. (x, y) \<in> (child_rel m)\<^sup>* \<Longrightarrow> rank y \<le> rank x"
    using dom_wf_rank [OF wf] by metis
  have apart: "(a, b) \<notin> (child_rel m)\<^sup>*" if ab: "a \<in> set (kids m i)" "b \<in> set (kids m i)" "a \<noteq> b" for a b
  proof
    assume "(a, b) \<in> (child_rel m)\<^sup>*"
    then obtain c where c: "(a, c) \<in> (child_rel m)\<^sup>*" "(c, b) \<in> child_rel m"
      using ab(3) by (metis rtranclE)
    then have "c = i" using child_rel_unique [OF wf] ab(2) by (auto simp: single_valued_def child_rel_def)
    then show False using falls [OF c(1)] rank [OF ab(1)] by simp
  qed
  assume "below m a \<inter> below m b \<noteq> {}"
  then obtain j where "(j, a) \<in> ((child_rel m)\<inverse>)\<^sup>*" "(j, b) \<in> ((child_rel m)\<inverse>)\<^sup>*"
    by (auto simp: rtrancl_converse)
  then show False
    using single_valued_confluent [OF child_rel_unique [OF wf], of j a b] apart kids
    by (auto simp: rtrancl_converse)
qed

lemma labels_distinct:
  assumes wf: "dom_wf root m" and "represents m t"
  shows "distinct (labels t)"
  using assms(2)
proof (induction t)
  case (Rose i ts)
  have kids: "kids m i = map rid ts" using represents_kids [OF Rose.prems] by simp
  have dist: "distinct (map rid ts)"
    using wf Rose.prems unfolding dom_wf_def by (metis represents.simps)
  obtain rank :: "dref \<Rightarrow> nat" where rank: "\<And>i j. j \<in> set (kids m i) \<Longrightarrow> rank j < rank i"
    and falls: "\<And>x y. (x, y) \<in> (child_rel m)\<^sup>* \<Longrightarrow> rank y \<le> rank x"
    using dom_wf_rank [OF wf] by metis
  have sub: "\<forall>t\<in>set ts. set (labels t) = below m (rid t)" using Rose.prems labels_below by auto
  have "i \<notin> set (forest_labels ts)"
    using sub falls rank [of _ i] kids by (fastforce simp: not_le)
  moreover have "distinct (forest_labels ts)"
  proof (rule distinct_concat)
    have "inj_on labels (set ts)"
      using dist by (auto simp: distinct_map inj_on_def) (metis labels.simps list.inject rose.collapse)
    then show "distinct (map labels ts)" using dist by (simp add: distinct_map)
    show "distinct ys" if "ys \<in> set (map labels ts)" for ys using that Rose by auto
    show "set ys \<inter> set zs = {}" if yz: "ys \<in> set (map labels ts)" "zs \<in> set (map labels ts)" "ys \<noteq> zs" for ys zs
    proof -
      obtain s t where st: "ys = labels s" "zs = labels t" "s \<in> set ts" "t \<in> set ts" using yz by auto
      then have "rid s \<noteq> rid t" using dist yz(3) by (auto simp: distinct_map inj_on_def)
      then show ?thesis using kids_disjoint [OF wf, of "rid s" i "rid t"] kids sub st by auto
    qed
  qed
  ultimately show ?case by simp
qed

section \<open>The walks end\<close>

lemma walk_forest:
  assumes "\<forall>t\<in>set ts. represents m t"
  shows "walk m (map rid ts @ rest) acc = walk m rest (acc @ forest_labels ts)"
  using assms
proof (induction ts arbitrary: rest acc rule: measure_induct_rule [of "\<lambda>ts. length (forest_labels ts)"])
  case (less ts)
  show ?case
  proof (cases ts)
    case (Cons t ts')
    obtain i us where t: "t = Rose i us" by (cases t)
    obtain x where x: "m i = Some x" "in_children x = map rid us" using less.prems Cons t by auto
    have "walk m (map rid ts @ rest) acc = walk m (map rid (us @ ts') @ rest) (acc @ [i])"
      using x Cons t by (subst walk.simps) simp
    also have "\<dots> = walk m rest ((acc @ [i]) @ forest_labels (us @ ts'))"
      using less.prems Cons t by (intro less.IH) auto
    finally show ?thesis using Cons t by simp
  qed simp
qed

lemma walk_result:
  assumes "dom_wf root m" "m i \<noteq> None"
  obtains ids where "walk m [i] [] = Some (Some ids)" "set ids = below m i" "distinct ids"
proof -
  obtain t where t: "rid t = i" "represents m t" using rose_exists [OF assms] by auto
  have "walk m [i] [] = walk m [] (labels t)" using walk_forest [of "[t]" m "[]" "[]"] t by simp
  also have "\<dots> = Some (Some (labels t))" by (subst walk.simps) simp
  finally show thesis
    using that labels_below [OF t(2)] labels_distinct [OF assms(1) t(2)] t(1) by metis
qed

lemma drop_ConsD: "drop n xs = y # ys \<Longrightarrow> n < length xs \<and> xs ! n = y \<and> drop (Suc n) xs = ys"
  by (metis Cons_nth_drop_Suc drop_eq_Nil linorder_not_less list.distinct(1) list.inject)

lemma subtree_loop_forest:
  assumes "\<forall>t\<in>set ts. represents m t" "drop index refs = map rid ts" "index \<le> length refs"
  shows "\<exists>out. subtree_loop m refs index = Some out \<and>
     mset out = mset (take index refs) + mset (forest_labels ts)"
  using assms
proof (induction ts arbitrary: refs index rule: measure_induct_rule [of "\<lambda>ts. length (forest_labels ts)"])
  case (less ts)
  show ?case
  proof (cases ts)
    case Nil
    then show ?thesis using less.prems by (subst subtree_loop.simps) auto
  next
    case (Cons t ts')
    obtain i us where t: "t = Rose i us" by (cases t)
    obtain x where x: "m i = Some x" "in_children x = map rid us" using less.prems(1) Cons t by auto
    have at: "index < length refs" "refs ! index = i" "drop (Suc index) refs = map rid ts'"
      using drop_ConsD [of index refs i "map rid ts'"] less.prems(2) Cons t by simp_all
    have "subtree_loop m refs index = subtree_loop m (refs @ map rid us) (Suc index)"
      using at x by (subst subtree_loop.simps) simp
    moreover have "\<exists>out. subtree_loop m (refs @ map rid us) (Suc index) = Some out \<and>
        mset out = mset (take (Suc index) (refs @ map rid us)) + mset (forest_labels (ts' @ us))"
      using less.prems(1) Cons t at by (intro less.IH) auto
    moreover have "mset (take (Suc index) (refs @ map rid us)) = add_mset i (mset (take index refs))"
      using at by (simp add: take_Suc_conv_app_nth)
    ultimately show ?thesis using Cons t by (auto simp: ac_simps)
  qed
qed

lemma subtree_refs_result:
  assumes "dom_wf (root_ref ops t) (dom_get ops (t_dom t))" "dom_get ops (t_dom t) i \<noteq> None"
  obtains ids where "subtree_refs ops t i = Some ids" "set ids = below (dom_get ops (t_dom t)) i" "distinct ids"
proof -
  let ?m = "dom_get ops (t_dom t)"
  obtain r where r: "rid r = i" "represents ?m r" using rose_exists [OF assms] by auto
  obtain out where out: "subtree_refs ops t i = Some out" "mset out = mset (labels r)"
    using subtree_loop_forest [of "[r]" ?m 0 "[i]"] r by (auto simp: subtree_refs_def)
  then show thesis
    using that labels_below [OF r(2)] labels_distinct [OF assms(1) r(2)] r(1)
      mset_eq_setD [OF out(2)] mset_eq_imp_distinct_iff [OF out(2)] by metis
qed

section \<open>The path index\<close>

lemma bump_fields [simp]:
  "t_dom (bump t) = t_dom t" "t_path_to_ids (bump t) = t_path_to_ids t"
  "t_id_to_meta (bump t) = t_id_to_meta t" "t_generation (bump t) = t_generation t + 1"
  "root_ref ops (bump t) = root_ref ops t"
  by (simp_all add: bump_def root_ref_def)

definition mapped :: "('d, 'm, 'v) tree_ops \<Rightarrow> 'm \<Rightarrow> path \<Rightarrow> dref set" where
  "mapped ops m p = (case mm_get_vec ops m p of None \<Rightarrow> {} | Some v \<Rightarrow> set v)"

definition tight :: "('d, 'm, 'v) tree_ops \<Rightarrow> 'm \<Rightarrow> bool" where
  "tight ops m \<longleftrightarrow> (\<forall>p. mm_get_vec ops m p \<noteq> Some [])"

abbreviation meta_paths :: "'u meta \<Rightarrow> path set" where
  "meta_paths mt \<equiv> set (source_paths (mt_source mt))"

definition ids_at :: "(dref \<Rightarrow> 'u meta option) \<Rightarrow> path \<Rightarrow> dref set" where
  "ids_at metas p = {i. \<exists>mt. metas i = Some mt \<and> p \<in> meta_paths mt}"

lemma mapped_insert:
  assumes "multi_laws ops"
  shows "mapped ops (mm_insert ops p i m) = (\<lambda>q. mapped ops m q \<union> (if q = p then {i} else {}))"
    and "tight ops m \<Longrightarrow> tight ops (mm_insert ops p i m)"
  using assms by (auto simp: multi_laws_def mapped_def tight_def fun_eq_iff split: option.splits)

lemma mapped_unmap:
  assumes "multi_laws ops"
  shows "mapped ops (unmap_path ops i p m) = (\<lambda>q. mapped ops m q - (if q = p then {i} else {}))"
    and "tight ops m \<Longrightarrow> tight ops (unmap_path ops i p m)"
proof -
  have put: "mm_get_vec ops (mm_put_vec ops p v m) = (mm_get_vec ops m)(p \<mapsto> v)"
    and del: "mm_get_vec ops (mm_remove ops p m) = (mm_get_vec ops m)(p := None)" for p v m
    using assms by (simp_all add: multi_laws_def)
  show "mapped ops (unmap_path ops i p m) = (\<lambda>q. mapped ops m q - (if q = p then {i} else {}))"
    by (auto simp: unmap_path_def mapped_def put del fun_eq_iff Let_def filter_empty_conv split: option.splits)
  show "tight ops (unmap_path ops i p m)" if "tight ops m"
    using that by (auto simp: unmap_path_def tight_def put del Let_def split: option.splits)
qed

lemma mapped_inserts:
  assumes "multi_laws ops"
  shows "mapped ops (fold (\<lambda>p m. mm_insert ops p i m) ps m) = (\<lambda>q. mapped ops m q \<union> (if q \<in> set ps then {i} else {})) \<and>
     (tight ops m \<longrightarrow> tight ops (fold (\<lambda>p m. mm_insert ops p i m) ps m))"
  by (induction ps arbitrary: m) (auto simp: mapped_insert [OF assms] fun_eq_iff)

lemma mapped_unmaps:
  assumes "multi_laws ops"
  shows "mapped ops (fold (unmap_path ops i) ps m) = (\<lambda>q. mapped ops m q - (if q \<in> set ps then {i} else {})) \<and>
     (tight ops m \<longrightarrow> tight ops (fold (unmap_path ops i) ps m))"
  by (induction ps arbitrary: m) (auto simp: mapped_unmap [OF assms] fun_eq_iff)

definition index_ok :: "('d, 'm, 'v) tree_ops \<Rightarrow> ('d, 'm, 'u) tree \<Rightarrow> bool" where
  "index_ok ops t \<longleftrightarrow> tight ops (t_path_to_ids t) \<and>
     (\<forall>p. mapped ops (t_path_to_ids t) p = ids_at (t_id_to_meta t) p)"

lemma insert_meta_index:
  assumes "multi_laws ops" "index_ok ops t" "t_id_to_meta t i = None"
  shows "index_ok ops (insert_meta ops i mt t)"
  using assms(2,3) mapped_inserts [OF assms(1), of i "source_paths (mt_source mt)" "t_path_to_ids t"]
  by (auto simp: index_ok_def insert_meta_def bump_def ids_at_def Let_def split: if_splits)

lemma remove_meta_index:
  assumes "multi_laws ops" "index_ok ops t"
  shows "index_ok ops (remove_meta ops i t)"
proof (cases "t_id_to_meta t i")
  case (Some mt)
  then show ?thesis
    using assms(2) mapped_unmaps [OF assms(1), of i "source_paths (mt_source mt)" "t_path_to_ids t"]
    by (auto simp: index_ok_def remove_meta_def bump_def ids_at_def Let_def split: if_splits)
qed (use assms in \<open>simp add: index_ok_def remove_meta_def bump_def\<close>)

lemma update_meta_index:
  assumes "multi_laws ops" "index_ok ops t" "t_id_to_meta t i = Some old"
  shows "index_ok ops (update_meta ops i mt t)"
proof -
  let ?new = "source_paths (mt_source mt)" and ?old = "source_paths (mt_source old)"
  let ?m = "fold (unmap_path ops i) (filter (\<lambda>p. p \<notin> set ?new) ?old) (t_path_to_ids t)"
  note un = mapped_unmaps [OF assms(1), of i "filter (\<lambda>p. p \<notin> set ?new) ?old" "t_path_to_ids t"]
  note ins = mapped_inserts [OF assms(1), of i "filter (\<lambda>p. p \<notin> set ?old) ?new" ?m]
  show ?thesis
    using assms(2,3) un ins
    by (auto simp: index_ok_def update_meta_def bump_def ids_at_def Let_def split: if_splits)
qed

text \<open>What the index has to say about a path, in the words of \<open>get_ids\<close>.\<close>

lemma index_ok_iff:
  "index_ok ops t \<longleftrightarrow> (\<forall>p. case get_ids ops t p of
      None \<Rightarrow> ids_at (t_id_to_meta t) p = {}
    | Some ids \<Rightarrow> ids \<noteq> [] \<and> set ids = ids_at (t_id_to_meta t) p)"
  unfolding index_ok_def tight_def mapped_def get_ids_def
  by (auto split: option.splits)

section \<open>The dom stays a tree\<close>

definition inst_ok :: "dref \<Rightarrow> (dref \<Rightarrow> 'v inst option) \<Rightarrow> dref \<Rightarrow> 'v inst \<Rightarrow> bool" where
  "inst_ok root m i x \<longleftrightarrow> distinct (in_children x) \<and>
     (\<forall>j\<in>set (in_children x). \<exists>y. m j = Some y \<and> in_parent y = i) \<and>
     (i = root \<or> (\<exists>y. m (in_parent x) = Some y \<and> i \<in> set (in_children y)))"

lemma dom_wfI:
  fixes rank :: "dref \<Rightarrow> nat"
  assumes "m ref_none = None" "m root = Some x" "in_parent x = ref_none"
    and "\<And>i x. m i = Some x \<Longrightarrow> inst_ok root m i x"
    and "\<And>i j. j \<in> set (kids m i) \<Longrightarrow> rank j < rank i"
  shows "dom_wf root m"
  using assms unfolding dom_wf_def child_rel_def inst_ok_def by blast

lemma dom_wf_node: "dom_wf root m \<Longrightarrow> m i = Some x \<Longrightarrow> inst_ok root m i x"
  unfolding dom_wf_def inst_ok_def by blast

lemma dom_wf_new:
  "r \<noteq> ref_none \<Longrightarrow> dom_wf r [r \<mapsto> \<lparr>in_name = n, in_class = c, in_properties = ps, in_parent = ref_none, in_children = []\<rparr>]"
  by (auto simp: dom_wf_def child_rel_def kids_def)

lemma dom_wf_insert:
  assumes wf: "dom_wf root m" and p: "m p = Some x" and r: "m r = None" "r \<noteq> ref_none"
  shows "dom_wf root (m(p \<mapsto> x\<lparr>in_children := in_children x @ [r]\<rparr>,
    r \<mapsto> \<lparr>in_name = n, in_class = c, in_properties = ps, in_parent = p, in_children = []\<rparr>))"
    (is "dom_wf root ?m")
proof -
  have pr: "p \<noteq> r" using p r by auto
  obtain rank :: "dref \<Rightarrow> nat" where rank: "\<And>i j. j \<in> set (kids m i) \<Longrightarrow> rank j < rank i"
    using dom_wf_rank [OF wf] by metis
  have kids: "kids ?m i = (if i = r then [] else if i = p then kids m p @ [r] else kids m i)" for i
    using p pr by (simp add: kids_def)
  have no_r: "r \<notin> set (kids m i)" for i using dom_wf_kid [OF wf, of r i] r by auto
  let ?rank = "\<lambda>k. if k = r then 0 else Suc (rank k)"
  have falls: "?rank j < ?rank i" if "j \<in> set (kids ?m i)" for i j
    using that rank no_r unfolding kids by (auto split: if_splits)
  note old = dom_wf_node [OF wf, unfolded inst_ok_def]
  have lift: "\<exists>z'. ?m j = Some z' \<and> in_parent z' = in_parent z \<and> set (in_children z) \<subseteq> set (in_children z')"
    if "m j = Some z" for j z
    using that p r pr by (cases "j = p") auto
  have node: "inst_ok root ?m i y" if y: "?m i = Some y" for i y
  proof (cases "i = r")
    case True then show ?thesis using y pr by (auto simp: inst_ok_def)
  next
    case False
    then obtain w where w: "m i = Some w" "in_parent y = in_parent w"
      "in_children y = in_children w @ (if i = p then [r] else [])"
      using y p by (cases "i = p") auto
    have kid: "\<exists>z. ?m j = Some z \<and> in_parent z = i" if "j \<in> set (in_children w)" for j
      using old [OF w(1)] that lift by metis
    have "r \<notin> set (in_children w)" using no_r [of i] w(1) by (simp add: kids_def)
    moreover have "i = root \<or> (\<exists>z. ?m (in_parent w) = Some z \<and> i \<in> set (in_children z))"
      using old [OF w(1)] lift by blast
    moreover have "\<exists>z. ?m j = Some z \<and> in_parent z = i" if "j \<in> set (in_children y)" for j
    proof (cases "j \<in> set (in_children w)")
      case False
      then have "j = r" "i = p" using that w(3) by (auto split: if_splits)
      then show ?thesis by simp
    qed (rule kid)
    ultimately show ?thesis using old [OF w(1)] w(2,3) unfolding inst_ok_def by (simp del: fun_upd_apply)
  qed
  obtain z where "m root = Some z" "in_parent z = ref_none" "m ref_none = None"
    using wf unfolding dom_wf_def by blast
  moreover from this obtain z' where z': "?m root = Some z'" "in_parent z' = ref_none" using lift by metis
  moreover have none: "?m ref_none = None" using calculation(3) p r by auto
  ultimately show ?thesis by (intro dom_wfI [OF none z', where rank = ?rank] node falls)
qed


lemma dom_wf_modify:
  assumes wf: "dom_wf root m"
  shows "dom_wf root (m(i := map_option (\<lambda>x. x\<lparr>in_name := n, in_class := c, in_properties := ps\<rparr>) (m i)))"
    (is "dom_wf root ?m")
proof -
  have lift: "\<exists>z'. ?m j = Some z' \<and> in_parent z' = in_parent z \<and> in_children z' = in_children z"
    if "m j = Some z" for j z using that by auto
  have origin: "\<exists>z. m j = Some z \<and> in_parent z' = in_parent z \<and> in_children z' = in_children z"
    if "?m j = Some z'" for j z' using that by (auto split: if_splits)
  have kids: "kids ?m j = kids m j" for j by (simp add: kids_def split: option.split)
  obtain rank :: "dref \<Rightarrow> nat" where rank: "\<And>i j. j \<in> set (kids m i) \<Longrightarrow> rank j < rank i"
    using dom_wf_rank [OF wf] by metis
  obtain z where z: "m root = Some z" "in_parent z = ref_none" "m ref_none = None"
    using wf unfolding dom_wf_def by blast
  then obtain z' where z': "?m root = Some z'" "in_parent z' = ref_none" using lift by metis
  have none: "?m ref_none = None" using z(3) by auto
  have node: "inst_ok root ?m j x" if x: "?m j = Some x" for j x
  proof -
    obtain w where w: "m j = Some w" "in_parent x = in_parent w" "in_children x = in_children w"
      using origin [OF x] by auto
    show ?thesis using dom_wf_node [OF wf w(1)] w(2,3) lift unfolding inst_ok_def by metis
  qed
  have "rank k < rank j" if "k \<in> set (kids ?m j)" for j k using that rank unfolding kids by blast
  then show ?thesis by (intro dom_wfI [OF none z', where rank = rank] node)
qed

lemma below_step: "j \<in> below m i \<Longrightarrow> k \<in> set (kids m j) \<Longrightarrow> k \<in> below m i"
  by (auto simp: child_rel_def intro: rtrancl_into_rtrancl)

lemma below_parent:
  assumes wf: "dom_wf root m" and "k \<in> below m i" "k \<noteq> i" "m k = Some y"
  shows "in_parent y \<in> below m i"
proof -
  obtain j where j: "(i, j) \<in> (child_rel m)\<^sup>*" "(j, k) \<in> child_rel m"
    using assms(2,3) by (metis mem_Collect_eq rtranclE)
  then have "in_parent y = j" using dom_wf_kid [OF wf, of k j] assms(4) by (auto simp: child_rel_def)
  then show ?thesis using j by simp
qed

definition destroyed :: "(dref \<Rightarrow> 'v inst option) \<Rightarrow> dref \<Rightarrow> dref \<Rightarrow> dref \<Rightarrow> 'v inst option" where
  "destroyed m i p = (\<lambda>j. if j \<in> below m i then None
     else if j = p then map_option (\<lambda>y. y\<lparr>in_children := filter (\<lambda>k. k \<noteq> i) (in_children y)\<rparr>) (m j)
     else m j)"

lemma dom_wf_destroyed:
  assumes wf: "dom_wf root m" and i: "m i = Some x" "i \<noteq> root"
  shows "dom_wf root (destroyed m i (in_parent x))" (is "dom_wf root ?m")
proof -
  obtain rank :: "dref \<Rightarrow> nat" where rank: "\<And>i j. j \<in> set (kids m i) \<Longrightarrow> rank j < rank i"
    and falls: "\<And>x y. (x, y) \<in> (child_rel m)\<^sup>* \<Longrightarrow> rank y \<le> rank x"
    using dom_wf_rank [OF wf] by metis
  obtain z where z: "m root = Some z" "in_parent z = ref_none" "m ref_none = None"
    using wf unfolding dom_wf_def by blast
  have origin: "j \<notin> below m i \<and> (\<exists>w. m j = Some w \<and> in_parent y = in_parent w \<and>
      in_children y = filter (\<lambda>k. k \<noteq> i) (in_children w))" if y: "?m j = Some y" for j y
  proof -
    have "i \<notin> set (in_children w)" if w: "m j = Some w" "j \<noteq> in_parent x" for w
      using dom_wf_node [OF wf w(1)] i(1) w(2) by (auto simp: inst_ok_def)
    then show ?thesis using y by (auto simp: destroyed_def intro!: filter_True [symmetric] split: if_splits)
  qed
  have lift: "\<exists>y. ?m j = Some y \<and> in_parent y = in_parent w \<and>
      in_children y = filter (\<lambda>k. k \<noteq> i) (in_children w)" if w: "m j = Some w" "j \<notin> below m i" for j w
  proof -
    have "i \<notin> set (in_children w)" if "j \<noteq> in_parent x"
      using dom_wf_node [OF wf w(1)] i(1) that by (auto simp: inst_ok_def)
    then show ?thesis using w by (auto simp: destroyed_def intro!: filter_True [symmetric])
  qed
  have root: "root \<notin> below m i"
  proof
    assume "root \<in> below m i"
    then have "ref_none \<in> below m i" using below_parent [OF wf _ i(2) [symmetric] z(1)] z(2) by simp
    moreover have "ref_none \<noteq> i" using i z(3) by auto
    ultimately obtain y where "ref_none \<in> set (kids m y)"
      by (metis (mono_tags, lifting) case_prodD child_rel_def mem_Collect_eq rtranclE)
    then show False using z(3) dom_wf_kid [OF wf] by (metis option.distinct(1))
  qed
  have node: "inst_ok root ?m j y" if y: "?m j = Some y" for j y
  proof -
    obtain w where w: "j \<notin> below m i" "m j = Some w" "in_parent y = in_parent w"
      "in_children y = filter (\<lambda>k. k \<noteq> i) (in_children w)" using origin [OF y] by auto
    note ok = dom_wf_node [OF wf w(2), unfolded inst_ok_def]
    have kid: "\<exists>z. ?m k = Some z \<and> in_parent z = j" if k: "k \<in> set (in_children y)" for k
    proof -
      obtain v where v: "m k = Some v" "in_parent v = j" "k \<noteq> i" using k ok w(4) by auto
      then have "k \<notin> below m i" using below_parent [OF wf _ v(3) v(1)] w(1) by auto
      then show ?thesis using lift [OF v(1)] v(2) by auto
    qed
    have up: "\<exists>z. ?m (in_parent y) = Some z \<and> j \<in> set (in_children z)" if nr: "j \<noteq> root"
    proof -
      obtain v where v: "m (in_parent w) = Some v" "j \<in> set (in_children v)" using ok nr by auto
      have "j \<in> set (kids m (in_parent w))" using v by (simp add: kids_def)
      then have "in_parent w \<notin> below m i" using w(1) below_step by blast
      moreover have "j \<noteq> i" using w(1) by auto
      ultimately show ?thesis using lift [OF v(1)] v(2) w(3) by auto
    qed
    show ?thesis unfolding inst_ok_def using ok kid up w(4) by auto
  qed
  obtain z' where z': "?m root = Some z'" "in_parent z' = ref_none" using lift [OF z(1) root] z(2) by auto
  have none: "?m ref_none = None" using z(3) by (simp add: destroyed_def)
  have "rank k < rank j" if k: "k \<in> set (kids ?m j)" for j k
  proof -
    obtain y where y: "?m j = Some y" "k \<in> set (in_children y)" using k by (cases "?m j") (auto simp: kids_def)
    then show ?thesis using origin [OF y(1)] rank [of k j] by (auto simp: kids_def)
  qed
  then show ?thesis by (intro dom_wfI [OF none z', where rank = rank] node)
qed

section \<open>Every operation keeps the tree well formed\<close>

definition tree_ok :: "('d, 'm, 'v) tree_ops \<Rightarrow> ('d, 'm, 'u) tree \<Rightarrow> bool" where
  "tree_ok ops t \<longleftrightarrow> dom_wf (root_ref ops t) (dom_get ops (t_dom t)) \<and>
     (\<forall>i. t_id_to_meta t i \<noteq> None \<longrightarrow> dom_get ops (t_dom t) i \<noteq> None) \<and> index_ok ops t"

lemma insert_lawD:
  "insert_law ops \<Longrightarrow> dom_get ops d p = Some x \<Longrightarrow> dom_get ops d r = None \<Longrightarrow> r \<noteq> ref_none \<Longrightarrow>
   \<exists>d'. dom_insert ops p r n c ps d = Some d' \<and> dom_root ops d' = dom_root ops d \<and>
     dom_get ops d' = (dom_get ops d) (p \<mapsto> x\<lparr>in_children := in_children x @ [r]\<rparr>,
       r \<mapsto> \<lparr>in_name = n, in_class = c, in_properties = ps, in_parent = p, in_children = []\<rparr>)"
  unfolding insert_law_def by blast

lemma destroy_lawD:
  "destroy_law ops \<Longrightarrow> dom_wf (dom_root ops d) (dom_get ops d) \<Longrightarrow> dom_get ops d i = Some x \<Longrightarrow>
   i \<noteq> dom_root ops d \<Longrightarrow> \<exists>d'. dom_destroy ops i d = Some d' \<and> dom_root ops d' = dom_root ops d \<and>
     dom_get ops d' = destroyed (dom_get ops d) i (in_parent x)"
  unfolding destroy_law_def destroyed_def by blast

lemma insert_at_result:
  assumes laws: "dom_laws ops" "multi_laws ops" and ok: "tree_ok ops t"
    and at: "dom_get ops (t_dom t) p = Some x" "dom_get ops (t_dom t) i = None" "i \<noteq> ref_none"
  obtains t' where "insert_at ops i s p t = Some t'" "tree_ok ops t'" "root_ref ops t' = root_ref ops t"
    "dom_get ops (t_dom t') = (dom_get ops (t_dom t))
       (p \<mapsto> x\<lparr>in_children := in_children x @ [i]\<rparr>,
        i \<mapsto> \<lparr>in_name = builder_name s, in_class = sn_class s, in_properties = sn_properties s,
              in_parent = p, in_children = []\<rparr>)"
    "t_id_to_meta t' = (t_id_to_meta t)(i \<mapsto> sn_meta s)" "t_generation t' = t_generation t + 2"
proof -
  obtain d where d: "dom_insert ops p i (builder_name s) (sn_class s) (sn_properties s) (t_dom t) = Some d"
    "dom_root ops d = dom_root ops (t_dom t)"
    "dom_get ops d = (dom_get ops (t_dom t)) (p \<mapsto> x\<lparr>in_children := in_children x @ [i]\<rparr>,
        i \<mapsto> \<lparr>in_name = builder_name s, in_class = sn_class s, in_properties = sn_properties s,
              in_parent = p, in_children = []\<rparr>)"
    using insert_lawD [of ops, OF _ at] laws(1) unfolding dom_laws_def by metis
  let ?u = "bump t\<lparr>t_dom := d\<rparr>" and ?t = "insert_meta ops i (sn_meta s) (bump t\<lparr>t_dom := d\<rparr>)"
  have meta: "t_id_to_meta t i = None" using ok at(2) by (auto simp: tree_ok_def)
  have res: "insert_at ops i s p t = Some ?t" using d(1) by (simp add: insert_at_def bump_def Let_def)
  have dom: "t_dom ?t = d" by (simp add: insert_meta_def bump_def Let_def)
  have metas: "t_id_to_meta ?t = (t_id_to_meta t)(i \<mapsto> sn_meta s)" by (simp add: insert_meta_def bump_def Let_def)
  have "index_ok ops ?t"
    using insert_meta_index [OF laws(2), of ?u i] ok meta by (simp add: tree_ok_def index_ok_def bump_def)
  moreover have "dom_wf (dom_root ops d) (dom_get ops d)"
    using dom_wf_insert [OF _ at] ok unfolding tree_ok_def root_ref_def d(2,3) by blast
  ultimately have "tree_ok ops ?t"
    using ok at(1) unfolding tree_ok_def root_ref_def dom metas d(3) by (auto split: if_splits)
  moreover have "t_generation ?t = t_generation t + 2" by (simp add: insert_meta_def bump_def Let_def)
  ultimately show thesis using that [OF res] dom d metas by (simp add: root_ref_def)
qed

lemma remove_meta_fields:
  "t_dom (remove_meta ops i t) = t_dom t" "t_id_to_meta (remove_meta ops i t) = (t_id_to_meta t)(i := None)"
  "t_generation (remove_meta ops i t) = t_generation t + 1"
  by (auto simp: remove_meta_def bump_def Let_def split: option.splits)

lemma remove_metas:
  assumes "multi_laws ops" "index_ok ops t"
  shows "index_ok ops (fold (remove_meta ops) ids t) \<and> t_dom (fold (remove_meta ops) ids t) = t_dom t \<and>
    t_id_to_meta (fold (remove_meta ops) ids t) = (\<lambda>i. if i \<in> set ids then None else t_id_to_meta t i) \<and>
    t_generation (fold (remove_meta ops) ids t) = t_generation t + of_nat (length ids)"
  using assms(2)
  by (induction ids arbitrary: t) (auto simp: remove_meta_fields remove_meta_index [OF assms(1)] fun_eq_iff algebra_simps)

lemma remove_instance_result:
  assumes laws: "dom_laws ops" "multi_laws ops" and ok: "tree_ok ops t"
    and at: "dom_get ops (t_dom t) i = Some x" "i \<noteq> root_ref ops t"
  obtains t' ids where "remove_instance ops i t = Some (Some t')" "tree_ok ops t'"
    "root_ref ops t' = root_ref ops t"
    "dom_get ops (t_dom t') = destroyed (dom_get ops (t_dom t)) i (in_parent x)"
    "t_id_to_meta t' = (\<lambda>j. if j \<in> below (dom_get ops (t_dom t)) i then None else t_id_to_meta t j)"
    "walk (dom_get ops (t_dom t)) [i] [] = Some (Some ids)"
    "t_generation t' = t_generation t + 1 + of_nat (length ids)"
proof -
  let ?m = "dom_get ops (t_dom t)"
  have wf: "dom_wf (root_ref ops t) ?m" and idx: "index_ok ops t" using ok by (simp_all add: tree_ok_def)
  have "?m i \<noteq> None" using at(1) by simp
  then obtain ids where ids: "walk ?m [i] [] = Some (Some ids)" "set ids = below ?m i" "distinct ids"
    by (rule walk_result [OF wf])
  let ?u = "fold (remove_meta ops) ids (bump t)"
  have u: "index_ok ops ?u" "t_dom ?u = t_dom t" "t_generation ?u = t_generation t + 1 + of_nat (length ids)"
    "t_id_to_meta ?u = (\<lambda>j. if j \<in> below ?m i then None else t_id_to_meta t j)"
    using remove_metas [OF laws(2), of "bump t" ids, unfolded bump_fields] idx ids(2)
    by (simp_all add: index_ok_def)
  obtain d where d: "dom_destroy ops i (t_dom t) = Some d" "dom_root ops d = dom_root ops (t_dom t)"
    "dom_get ops d = destroyed ?m i (in_parent x)"
    using destroy_lawD [OF _ wf [unfolded root_ref_def] at(1) at(2) [unfolded root_ref_def]] laws(1)
    unfolding dom_laws_def by blast
  have res: "remove_instance ops i t = Some (Some (?u\<lparr>t_dom := d\<rparr>))"
    using at(2) ids(1) d(1) u(2) by (simp add: remove_instance_def bump_def root_ref_def Let_def)
  have "dom_wf (dom_root ops d) (dom_get ops d)"
    using dom_wf_destroyed [OF wf at] by (simp add: d(2,3) root_ref_def)
  moreover have "dom_get ops d j \<noteq> None" if "t_id_to_meta ?u j \<noteq> None" for j
    using that ok by (auto simp: u(4) d(3) destroyed_def tree_ok_def split: if_splits)
  ultimately have "tree_ok ops (?u\<lparr>t_dom := d\<rparr>)"
    using u(1) by (simp add: tree_ok_def root_ref_def index_ok_def)
  then show thesis using that [OF res] d u ids(1) by (simp add: root_ref_def)
qed

section \<open>Runs of the tree\<close>

text \<open>
  One call on the tree, with the number of times it moves the generation. A writer that goes
  through \<open>get_meta_mut\<close> must leave the paths alone: the index is not told.
\<close>

inductive tree_step :: "('d, 'm, 'v) tree_ops \<Rightarrow> nat \<Rightarrow> ('d, 'm, 'u) tree \<Rightarrow> ('d, 'm, 'u) tree \<Rightarrow> bool"
  for ops where
  Insert: "exists_inst ops t p \<Longrightarrow> \<not> exists_inst ops t i \<Longrightarrow> i \<noteq> ref_none \<Longrightarrow>
    insert_at ops i s p t = Some t' \<Longrightarrow> tree_step ops 2 t t'"
| Remove: "exists_inst ops t i \<Longrightarrow> i \<noteq> root_ref ops t \<Longrightarrow>
    walk (dom_get ops (t_dom t)) [i] [] = Some (Some ids) \<Longrightarrow>
    remove_instance ops i t = Some (Some t') \<Longrightarrow> tree_step ops (Suc (length ids)) t t'"
| RemoveRoot: "remove_instance ops (root_ref ops t) t = Some (Some t') \<Longrightarrow> tree_step ops 1 t t'"
| Update: "get_meta t i \<noteq> None \<Longrightarrow> tree_step ops 1 t (update_meta ops i mt t)"
| Forget: "tree_step ops 1 t (remove_meta ops i t)"
| Write: "tree_step ops 1 t (get_instance_mut ops i write t)"
| WriteMeta: "(\<And>mt. meta_paths (write mt) = meta_paths mt) \<Longrightarrow> tree_step ops 1 t (get_meta_mut i write t)"

inductive_cases tree_step_cases: "tree_step ops n t t'"

inductive tree_run :: "('d, 'm, 'v) tree_ops \<Rightarrow> nat \<Rightarrow> ('d, 'm, 'u) tree \<Rightarrow> ('d, 'm, 'u) tree \<Rightarrow> bool"
  for ops where
  Stop: "tree_run ops 0 t t"
| Step: "tree_run ops n t u \<Longrightarrow> tree_step ops k u v \<Longrightarrow> tree_run ops (n + k) t v"

lemma update_meta_fields:
  "t_dom (update_meta ops i mt t) = t_dom t" "t_id_to_meta (update_meta ops i mt t) = (t_id_to_meta t)(i \<mapsto> mt)"
  "t_generation (update_meta ops i mt t) = t_generation t + 1"
  by (auto simp: update_meta_def Let_def split: option.splits)

lemma write_ok:
  assumes "dom_laws ops" "tree_ok ops t"
  shows "tree_ok ops (get_instance_mut ops i write t)" and "t_generation (get_instance_mut ops i write t) = t_generation t + 1"
proof -
  have law: "dom_root ops (dom_modify ops i n c ps d) = dom_root ops d"
    "dom_get ops (dom_modify ops i n c ps d) = (dom_get ops d)(i := map_option
       (\<lambda>x. x\<lparr>in_name := n, in_class := c, in_properties := ps\<rparr>) (dom_get ops d i))" for n c ps d
    using assms(1) by (simp_all add: dom_laws_def modify_law_def)
  obtain n c ps where w: "dom_get ops (t_dom t) i = Some x \<Longrightarrow> write x = (n, c, ps)" for x
    by (cases "dom_get ops (t_dom t) i") (auto, metis prod_cases3)
  show "tree_ok ops (get_instance_mut ops i write t)"
    using assms(2) dom_wf_modify [where root = "root_ref ops t" and m = "dom_get ops (t_dom t)" and i = i and n = n and c = c and ps = ps] w
    by (auto simp: tree_ok_def get_instance_mut_def root_ref_def index_ok_def law Let_def split: option.splits if_splits)
  show "t_generation (get_instance_mut ops i write t) = t_generation t + 1"
    by (simp add: get_instance_mut_def Let_def split: option.splits prod.splits)
qed

lemma write_meta_ok:
  assumes "tree_ok ops t" "\<And>mt. meta_paths (write mt) = meta_paths mt"
  shows "tree_ok ops (get_meta_mut i write t)"
proof -
  have "ids_at ((t_id_to_meta t)(i := map_option write (t_id_to_meta t i))) = ids_at (t_id_to_meta t)"
    using assms(2) by (auto simp: ids_at_def fun_eq_iff)
  then show ?thesis using assms(1)
    by (auto simp: tree_ok_def get_meta_mut_def root_ref_def index_ok_def Let_def split: if_splits)
qed

lemma step_ok:
  assumes "tree_step ops n t t'" "dom_laws ops" "multi_laws ops" "tree_ok ops t"
  shows "tree_ok ops t' \<and> t_generation t' = t_generation t + of_nat n \<and> 0 < n"
  using assms(1)
proof cases
  case (Insert p i s)
  then obtain x where "dom_get ops (t_dom t) p = Some x" "dom_get ops (t_dom t) i = None"
    by (auto simp: exists_inst_def)
  then show ?thesis by (rule insert_at_result [OF assms(2-4) _ _ Insert(4), where s = s]) (use Insert in simp)
next
  case (Remove i ids)
  then obtain x where "dom_get ops (t_dom t) i = Some x" by (auto simp: exists_inst_def)
  then show ?thesis by (rule remove_instance_result [OF assms(2-4) _ Remove(3)]) (use Remove in simp)
next
  case RemoveRoot
  then show ?thesis using assms(4)
    by (auto simp: remove_instance_def Let_def tree_ok_def index_ok_def)
next
  case (Update i mt)
  then obtain old where old: "t_id_to_meta t i = Some old" by (auto simp: get_meta_def)
  have "index_ok ops t" using assms(4) by (simp add: tree_ok_def)
  from update_meta_index [OF assms(3) this old] show ?thesis
    using Update assms(4) old by (auto simp: tree_ok_def update_meta_fields root_ref_def)
next
  case (Forget i)
  have "index_ok ops t" using assms(4) by (simp add: tree_ok_def)
  from remove_meta_index [OF assms(3) this] show ?thesis
    using Forget assms(4) by (auto simp: tree_ok_def remove_meta_fields root_ref_def)
next
  case (Write i wr)
  then show ?thesis using write_ok [OF assms(2,4)] by simp
next
  case (WriteMeta wr i)
  then show ?thesis using write_meta_ok [OF assms(4), of wr i] by (simp add: get_meta_mut_def Let_def)
qed

lemma run_ok:
  assumes "tree_run ops n t t'" "dom_laws ops" "multi_laws ops" "tree_ok ops t"
  shows "tree_ok ops t' \<and> t_generation t' = t_generation t + of_nat n \<and> (n = 0 \<longrightarrow> t' = t)"
  using assms(1,4)
proof induction
  case (Step n t u k v)
  then show ?case using step_ok [OF Step.hyps(2) assms(2,3)] by (auto simp: algebra_simps)
qed simp

section \<open>Whole snapshots\<close>

text \<open>The referents an insertion will draw are new and distinct; as many as the snapshot has instances.\<close>

fun snap_count :: "('u, 'v) snapshot \<Rightarrow> nat" where
  "snap_count (Snapshot _ _ _ _ _ children) = Suc (sum_list (map snap_count children))"

definition fresh_between :: "('d, 'm, 'v) tree_ops \<Rightarrow> (nat \<Rightarrow> dref) \<Rightarrow> nat \<Rightarrow> nat \<Rightarrow> ('d, 'm, 'u) tree \<Rightarrow> bool" where
  "fresh_between ops draw k n t \<longleftrightarrow> (\<forall>j\<in>{k..<n}. \<not> exists_inst ops t (draw j) \<and> draw j \<noteq> ref_none) \<and> inj_on draw {k..<n}"

text \<open>The state an insertion hands on: the tree is well formed and holds what it held before.\<close>

definition grown :: "('d, 'm, 'v) tree_ops \<Rightarrow> (nat \<Rightarrow> dref) \<Rightarrow> nat \<Rightarrow> ('d, 'm, 'u) tree \<Rightarrow> ('d, 'm, 'u) tree \<Rightarrow> nat \<Rightarrow> bool" where
  "grown ops draw n t t' k' \<longleftrightarrow> tree_ok ops t' \<and> fresh_between ops draw k' n t' \<and>
     root_ref ops t' = root_ref ops t \<and> (\<forall>i. exists_inst ops t i \<longrightarrow> exists_inst ops t' i)"

lemma insert_at_grows:
  assumes "dom_laws ops" "multi_laws ops" "tree_ok ops t" "fresh_between ops draw k n t" "exists_inst ops t p" "k < n"
  obtains t' where "insert_at ops (draw k) s p t = Some t'" "grown ops draw n t t' (Suc k)" "exists_inst ops t' (draw k)"
proof -
  obtain x where x: "dom_get ops (t_dom t) p = Some x" using assms(5) by (auto simp: exists_inst_def)
  have new: "dom_get ops (t_dom t) (draw k) = None" "draw k \<noteq> ref_none"
    using assms(4,6) by (auto simp: fresh_between_def exists_inst_def)
  show thesis
  proof (rule insert_at_result [OF assms(1-3) x new, where s = s])
    fix t' assume t': "insert_at ops (draw k) s p t = Some t'" "tree_ok ops t'" "root_ref ops t' = root_ref ops t"
      and get: "dom_get ops (t_dom t') = (dom_get ops (t_dom t)) (p \<mapsto> x\<lparr>in_children := in_children x @ [draw k]\<rparr>,
        draw k \<mapsto> \<lparr>in_name = builder_name s, in_class = sn_class s, in_properties = sn_properties s,
              in_parent = p, in_children = []\<rparr>)"
    have ex: "exists_inst ops t' i \<longleftrightarrow> exists_inst ops t i \<or> i = draw k" for i
      using x by (auto simp: exists_inst_def get)
    have "draw j \<noteq> draw k" if "Suc k \<le> j" "j < n" for j
      using assms(4,6) that by (auto simp: fresh_between_def dest: inj_onD [of draw _ j k])
    then have "fresh_between ops draw (Suc k) n t'"
      using assms(4) unfolding fresh_between_def ex by (auto intro: inj_on_subset)
    then show thesis using that [OF t'(1)] t' ex by (simp add: grown_def)
  qed
qed

lemma insert_fold_grows:
  assumes ih: "\<And>child t k. child \<in> set children \<Longrightarrow> tree_ok ops t \<Longrightarrow> fresh_between ops draw k n t \<Longrightarrow>
      exists_inst ops t p \<Longrightarrow> k + snap_count child \<le> n \<Longrightarrow>
      \<exists>t'. insert_instance_recursive ops draw child p (t, k) = Some (t', k + snap_count child) \<and>
        grown ops draw n t t' (k + snap_count child)"
    and "tree_ok ops t" "fresh_between ops draw k n t" "exists_inst ops t p"
    and "k + sum_list (map snap_count children) \<le> n"
  shows "\<exists>t'. fold (\<lambda>child st. case st of None \<Rightarrow> None
      | Some tk \<Rightarrow> insert_instance_recursive ops draw child p tk) children (Some (t, k)) =
        Some (t', k + sum_list (map snap_count children)) \<and>
    grown ops draw n t t' (k + sum_list (map snap_count children))"
  using assms
proof (induction children arbitrary: t k)
  case (Cons child children)
  obtain t1 where r: "insert_instance_recursive ops draw child p (t, k) = Some (t1, k + snap_count child)"
    "grown ops draw n t t1 (k + snap_count child)"
    using Cons.prems(1) [of child t k] Cons.prems(2-5) by auto
  have "\<exists>t'. fold (\<lambda>child st. case st of None \<Rightarrow> None
      | Some tk \<Rightarrow> insert_instance_recursive ops draw child p tk) children (Some (t1, k + snap_count child)) =
        Some (t', (k + snap_count child) + sum_list (map snap_count children)) \<and>
    grown ops draw n t1 t' ((k + snap_count child) + sum_list (map snap_count children))"
    using Cons.prems r(2) by (intro Cons.IH) (auto simp: grown_def)
  then obtain t' where t': "fold (\<lambda>child st. case st of None \<Rightarrow> None
      | Some tk \<Rightarrow> insert_instance_recursive ops draw child p tk) children (Some (t1, k + snap_count child)) =
        Some (t', (k + snap_count child) + sum_list (map snap_count children))"
    "grown ops draw n t1 t' ((k + snap_count child) + sum_list (map snap_count children))" by blast
  then show ?case using r by (auto simp: grown_def add.assoc)
qed (simp add: grown_def)

lemma insert_recursive_grows:
  assumes "dom_laws ops" "multi_laws ops" "tree_ok ops t" "fresh_between ops draw k n t" "exists_inst ops t p"
    and "k + snap_count s \<le> n"
  shows "\<exists>t'. insert_instance_recursive ops draw s p (t, k) = Some (t', k + snap_count s) \<and>
    grown ops draw n t t' (k + snap_count s)"
  using assms(3-6)
proof (induction s arbitrary: t k p)
  case (Snapshot sid mt name cls ps children)
  let ?s = "Snapshot sid mt name cls ps children"
  have "k < n" using Snapshot.prems(4) by simp
  then obtain t1 where t1: "insert_at ops (draw k) ?s p t = Some t1" "grown ops draw n t t1 (Suc k)" "exists_inst ops t1 (draw k)"
    using insert_at_grows [OF assms(1,2) Snapshot.prems(1-3), where s = ?s] by blast
  have "\<exists>t'. fold (\<lambda>child st. case st of None \<Rightarrow> None
      | Some tk \<Rightarrow> insert_instance_recursive ops draw child (draw k) tk) children (Some (t1, Suc k)) =
        Some (t', Suc k + sum_list (map snap_count children)) \<and>
    grown ops draw n t1 t' (Suc k + sum_list (map snap_count children))"
    using t1 Snapshot.IH Snapshot.prems(4) by (intro insert_fold_grows) (auto simp: grown_def)
  then show ?case using t1 by (auto simp: grown_def)
qed

text \<open>The draws \<open>Tree::new\<close> needs: one per instance, none of them the null referent.\<close>

definition draws_ok :: "(nat \<Rightarrow> dref) \<Rightarrow> ('u, 'v) snapshot \<Rightarrow> bool" where
  "draws_ok draw s \<longleftrightarrow> inj_on draw {0..<snap_count s} \<and> (\<forall>k\<in>{0..<snap_count s}. draw k \<noteq> ref_none)"

lemma tree_new_ok:
  assumes laws: "dom_laws ops" "multi_laws ops" and draw: "draws_ok draw s"
  obtains t where "tree_new ops draw s = Some (t, snap_count s)" "tree_ok ops t" "root_ref ops t = draw 0"
proof -
  let ?d = "dom_new ops (draw 0) (sn_name s) (sn_class s) (sn_properties s)"
  let ?t0 = "\<lparr>t_dom = ?d, t_path_to_ids = mm_new ops, t_id_to_meta = Map.empty, t_generation = 0\<rparr> :: ('a, 'b, 'd) tree"
  have count: "snap_count s = Suc (sum_list (map snap_count (sn_children s)))" by (cases s) simp
  have new: "dom_root ops ?d = draw 0" "dom_get ops ?d = [draw 0 \<mapsto> \<lparr>in_name = sn_name s, in_class = sn_class s,
      in_properties = sn_properties s, in_parent = ref_none, in_children = []\<rparr>]" and r0: "draw 0 \<noteq> ref_none"
    using laws(1) draw by (simp_all add: dom_laws_def new_law_def draws_ok_def count)
  have "index_ok ops ?t0" using laws(2) by (simp add: index_ok_def tight_def mapped_def ids_at_def multi_laws_def)
  then have idx: "index_ok ops (insert_meta ops (draw 0) (sn_meta s) ?t0)"
    by (intro insert_meta_index [OF laws(2)]) simp_all
  let ?t = "insert_meta ops (draw 0) (sn_meta s) ?t0"
  have f: "t_dom ?t = ?d" "t_id_to_meta ?t = [draw 0 \<mapsto> sn_meta s]" by (simp_all add: insert_meta_def Let_def)
  have ok: "tree_ok ops ?t"
    using idx dom_wf_new [OF r0] by (simp add: tree_ok_def root_ref_def f new)
  moreover have "draw j \<noteq> draw 0" if "Suc 0 \<le> j" "j < snap_count s" for j
    using inj_onD [of draw "{0..<snap_count s}" j 0] that draw by (auto simp: draws_ok_def)
  then have fresh: "fresh_between ops draw (Suc 0) (snap_count s) ?t"
    using draw by (auto simp: fresh_between_def exists_inst_def f new draws_ok_def intro: inj_on_subset)
  moreover have "exists_inst ops ?t (draw 0)" by (simp add: exists_inst_def f new)
  ultimately have "\<exists>t'. fold (\<lambda>child st. case st of None \<Rightarrow> None
      | Some tk \<Rightarrow> insert_instance_recursive ops draw child (draw 0) tk) (sn_children s) (Some (?t, Suc 0)) =
        Some (t', Suc 0 + sum_list (map snap_count (sn_children s))) \<and>
    grown ops draw (snap_count s) ?t t' (Suc 0 + sum_list (map snap_count (sn_children s)))"
    by (intro insert_fold_grows insert_recursive_grows [OF laws]) (simp_all add: count)
  then obtain t where tk: "tree_new ops draw s = Some (t, snap_count s)" "grown ops draw (snap_count s) ?t t (snap_count s)"
    by (auto simp: tree_new_def root_ref_def new Let_def count)
  moreover have "root_ref ops ?t = draw 0" by (simp add: root_ref_def f new)
  ultimately show thesis using that [OF tk(1)] by (simp add: grown_def)
qed

section \<open>Properties\<close>

text \<open>The packages as they are documented, on plain maps.\<close>

definition example_ops :: "(dref \<times> (dref \<Rightarrow> 'v inst option), path \<Rightarrow> dref list option, 'v) tree_ops" where
  "example_ops = \<lparr>
     dom_new = (\<lambda>r n c ps. (r, [r \<mapsto> \<lparr>in_name = n, in_class = c, in_properties = ps, in_parent = ref_none, in_children = []\<rparr>])),
     dom_root = fst,
     dom_get = snd,
     dom_modify = (\<lambda>i n c ps (r, m). (r, m(i := map_option (\<lambda>x. x\<lparr>in_name := n, in_class := c, in_properties := ps\<rparr>) (m i)))),
     dom_insert = (\<lambda>p i n c ps (r, m). map_option (\<lambda>x. (r, m(p \<mapsto> x\<lparr>in_children := in_children x @ [i]\<rparr>,
        i \<mapsto> \<lparr>in_name = n, in_class = c, in_properties = ps, in_parent = p, in_children = []\<rparr>))) (m p)),
     dom_destroy = (\<lambda>i (r, m). if i = r then None else map_option (\<lambda>x. (r, destroyed m i (in_parent x))) (m i)),
     mm_new = Map.empty,
     mm_get_vec = (\<lambda>m. m),
     mm_insert = (\<lambda>p i m. m(p \<mapsto> (case m p of None \<Rightarrow> [i] | Some v \<Rightarrow> v @ [i]))),
     mm_put_vec = (\<lambda>p v m. m(p \<mapsto> v)),
     mm_remove = (\<lambda>p m. m(p := None))\<rparr>"

lemma example_ops_laws: "dom_laws example_ops" "multi_laws example_ops"
  by (auto simp: example_ops_def dom_laws_def new_law_def modify_law_def insert_law_def destroy_law_def
      multi_laws_def destroyed_def)

definition example_meta :: "path \<Rightarrow> unit meta" where
  "example_meta p = meta_new\<lparr>mt_source := source_file p\<rparr>"

definition example_snapshot :: "(unit, bool) snapshot" where
  "example_snapshot = Snapshot 0 (example_meta [''a'']) ''Root'' ''Folder'' []
     [Snapshot 0 (example_meta [''a'', ''b'']) ''B'' ''ModuleScript'' [] []]"

definition example_draw :: "nat \<Rightarrow> dref" where
  "example_draw k = of_nat (Suc k)"

lemma example_draws: "draws_ok example_draw example_snapshot"
  by (auto simp: draws_ok_def example_draw_def example_snapshot_def inj_on_def less_Suc_eq)



text \<open>
  Removing an instance ends, does not panic, and removes exactly its subtree. From a well
  formed tree, \<open>remove_instance\<close> of an instance other than the root returns a well formed tree
  that has lost the instance and its descendants with their metadata, and kept every other
  instance (its parent without the child) and every other instance's metadata. On the root it
  changes nothing but the generation.
\<close>

theorem remove_instance_exact:
  assumes "dom_laws ops" "multi_laws ops" "tree_ok ops t" "exists_inst ops t i"
  shows "\<exists>t'. remove_instance ops i t = Some (Some t') \<and> tree_ok ops t' \<and>
    (if i = root_ref ops t then t' = bump t
     else \<forall>j. (exists_inst ops t' j \<longleftrightarrow> exists_inst ops t j \<and> j \<notin> below (get_instance ops t) i) \<and>
       get_meta t' j = (if j \<in> below (get_instance ops t) i then None else get_meta t j) \<and>
       (j \<notin> below (get_instance ops t) i \<longrightarrow> map_option in_properties (get_instance ops t' j) =
          map_option in_properties (get_instance ops t j)))"
proof (cases "i = root_ref ops t")
  case True
  moreover have "remove_instance ops i t = Some (Some (bump t))"
    using True by (simp add: remove_instance_def Let_def)
  moreover have "tree_ok ops (bump t)" using assms(3) by (simp add: tree_ok_def index_ok_def)
  ultimately show ?thesis by simp
next
  case False
  obtain x where x: "dom_get ops (t_dom t) i = Some x" using assms(4) by (auto simp: exists_inst_def)
  show ?thesis
  proof (rule remove_instance_result [OF assms(1-3) x False])
    fix t' assume t': "remove_instance ops i t = Some (Some t')" "tree_ok ops t'"
      "dom_get ops (t_dom t') = destroyed (dom_get ops (t_dom t)) i (in_parent x)"
      "t_id_to_meta t' = (\<lambda>j. if j \<in> below (dom_get ops (t_dom t)) i then None else t_id_to_meta t j)"
    have get: "get_instance ops t = dom_get ops (t_dom t)" by (simp add: fun_eq_iff get_instance_def)
    have "(exists_inst ops t' j \<longleftrightarrow> exists_inst ops t j \<and> j \<notin> below (get_instance ops t) i) \<and>
       get_meta t' j = (if j \<in> below (get_instance ops t) i then None else get_meta t j) \<and>
       (j \<notin> below (get_instance ops t) i \<longrightarrow> map_option in_properties (get_instance ops t' j) =
          map_option in_properties (get_instance ops t j))" for j
      unfolding exists_inst_def get_meta_def get get_instance_def t'(3,4) destroyed_def
      by (auto simp: option.map_comp o_def)
    then show ?thesis using t'(1,2) False by auto
  qed
qed

definition example_tree :: "(dref \<times> (dref \<Rightarrow> bool inst option), path \<Rightarrow> dref list option, unit) tree" where
  "example_tree = fst (the (tree_new example_ops example_draw example_snapshot))"

lemma example_tree_ok: "tree_ok example_ops example_tree" "root_ref example_ops example_tree = 1"
proof -
  obtain t where t: "tree_new example_ops example_draw example_snapshot = Some (t, snap_count example_snapshot)"
      "tree_ok example_ops t" "root_ref example_ops t = example_draw 0"
    by (rule tree_new_ok [OF example_ops_laws example_draws])
  then have "example_tree = t" by (simp add: example_tree_def)
  with t show "tree_ok example_ops example_tree" "root_ref example_ops example_tree = 1"
    by (simp_all add: example_draw_def)
qed

lemma example_tree_exists: "exists_inst example_ops example_tree 2"
  by (simp add: example_tree_def tree_new_def example_snapshot_def example_draw_def insert_at_def insert_meta_def
      exists_inst_def example_ops_def bump_def root_ref_def Let_def numeral_2_eq_2)

theorem remove_instance_exact_witness:
  "\<exists>t'. remove_instance example_ops 2 example_tree = Some (Some t') \<and> \<not> exists_inst example_ops t' 2"
proof -
  have "(2 :: dref) \<noteq> root_ref example_ops example_tree" by (simp add: example_tree_ok(2))
  with remove_instance_exact [OF example_ops_laws example_tree_ok(1) example_tree_exists] show ?thesis by auto
qed

text \<open>
  The generation counter answers "has anything changed" without a miss. Along a run of calls
  that moves the counter fewer than 2^64 times, two equal generations mean the very same tree:
  the skip of an unchanged generation in the sync base writer loses no change.
\<close>

theorem generation_detects_change:
  assumes "dom_laws ops" "multi_laws ops" "tree_ok ops t" "tree_run ops n t t'" "n < 2 ^ 64"
    and "t_generation t' = t_generation t"
  shows "t' = t"
proof -
  have run: "t_generation t' = t_generation t + of_nat n" "n = 0 \<longrightarrow> t' = t"
    using run_ok [OF assms(4,1-3)] by auto
  then have "(of_nat n :: u64) = 0" using assms(6) by simp
  then have "2 ^ 64 dvd n" by (simp add: word_of_nat_eq_0_iff)
  then have "n = 0" using assms(5) nat_dvd_not_less by blast
  then show ?thesis using run by blast
qed

theorem generation_detects_change_witness:
  "example_tree = example_tree \<and> tree_run example_ops 0 example_tree example_tree"
  using generation_detects_change [OF example_ops_laws example_tree_ok(1) tree_run.Stop] tree_run.Stop by simp

text \<open>
  Writing a new source through \<open>get_meta_mut\<close>, as \<open>apply_removal\<close> does when it turns a
  folder whose last child went back into a file, leaves the index behind: the new path resolves
  to nothing and every path the instance gave up still resolves to it.
\<close>

theorem demotion_unindexed:
  assumes "dom_laws ops" "multi_laws ops" "tree_ok ops t" "get_meta t i = Some mt"
    and "get_ids ops t new = None" "old \<in> set (source_paths (mt_source mt))" "old \<noteq> new"
  shows "let t' = get_meta_mut i (\<lambda>m. m\<lparr>mt_source := source_file new\<rparr>) t in
    map_option (\<lambda>m. source_paths (mt_source m)) (get_meta t' i) = Some [new] \<and>
    get_ids ops t' new = None \<and> (\<exists>ids. get_ids ops t' old = Some ids \<and> i \<in> set ids)"
proof -
  have "i \<in> ids_at (t_id_to_meta t) old" using assms(4,6) by (auto simp: ids_at_def get_meta_def)
  moreover have "index_ok ops t" using assms(3) by (simp add: tree_ok_def)
  ultimately have "\<exists>ids. get_ids ops t old = Some ids \<and> i \<in> set ids"
    unfolding index_ok_iff by (auto split: option.splits dest: spec [of _ old])
  then show ?thesis using assms(4,5)
    by (simp add: get_meta_mut_def get_ids_def get_meta_def source_file_def source_paths_def Let_def)
qed

theorem demotion_unindexed_witness:
  "let t' = get_meta_mut 2 (\<lambda>m. m\<lparr>mt_source := source_file [''c'']\<rparr>) example_tree in
    get_ids example_ops t' [''c''] = None \<and> (\<exists>ids. get_ids example_ops t' [''a'', ''b''] = Some ids \<and> 2 \<in> set ids)"
proof -
  have "get_meta example_tree 2 = Some (example_meta [''a'', ''b''])" "get_ids example_ops example_tree [''c''] = None"
    by (simp_all add: example_tree_def tree_new_def example_snapshot_def example_draw_def insert_at_def insert_meta_def
      get_meta_def get_ids_def example_ops_def bump_def root_ref_def Let_def example_meta_def source_file_def source_paths_def)
  from demotion_unindexed [OF example_ops_laws example_tree_ok(1) this, of "[''a'', ''b'']"] show ?thesis
    by (simp add: example_meta_def source_file_def source_paths_def Let_def)
qed

end
