(* ===== verification/BaseTree.thy ===== *)
theory BaseTree
  imports TreeSafety SyncBaseSafety
begin

text \<open>
  The walks of the sync base over the instance tree (\<^verbatim>\<open>src/server/sync_base.rs\<close>):
  \<open>snapshot_tree\<close>, which keys every instance path, and \<open>ambiguous_paths\<close>, the cheap scan for
  paths that occur more than once. The recursive walk keeps the calls still to make on a stack;
  both are \<open>partial_function\<close>s, and both are shown to return on every well formed tree.
\<close>

section \<open>Definitions\<close>

definition child_path :: "string \<Rightarrow> string \<Rightarrow> string" where
  "child_path pre name = (if pre = [] then name else pre @ ''/'' @ name)"

definition snapshot_default :: base_snapshot where
  "snapshot_default = \<lparr>sn_entries = [], sn_ambiguous = [], sn_held = []\<rparr>"

definition snapshot_step ::
  "base_codec \<Rightarrow> dref set \<Rightarrow> (dref \<Rightarrow> 'v inst option) \<Rightarrow> dref \<times> string \<Rightarrow> string set \<times> base_snapshot \<Rightarrow> string set \<times> base_snapshot" where
  "snapshot_step c hold get = (\<lambda>(child, path) (seen, out).
     (insert path seen,
      if path \<in> seen
      then out\<lparr>sn_entries := om_remove path (sn_entries out), sn_ambiguous := os_insert path (sn_ambiguous out)\<rparr>
      else if child \<in> hold then out\<lparr>sn_held := os_insert path (sn_held out)\<rparr>
      else case get child of
        None \<Rightarrow> out
      | Some x \<Rightarrow> out\<lparr>sn_entries := om_insert path (key_of c (in_class x) (in_properties x)) (sn_entries out)\<rparr>))"

partial_function (option) snapshot_walk ::
  "base_codec \<Rightarrow> dref set \<Rightarrow> (dref \<Rightarrow> 'v inst option) \<Rightarrow> (dref \<times> string) list \<Rightarrow> string set \<times> base_snapshot
   \<Rightarrow> (string set \<times> base_snapshot) option" where
  "snapshot_walk c hold get stack st =
     (case stack of
        [] \<Rightarrow> Some st
      | (child, pre) # rest \<Rightarrow> (case get child of
            None \<Rightarrow> snapshot_walk c hold get rest st
          | Some x \<Rightarrow>
              (let path = child_path pre (in_name x) in
               snapshot_walk c hold get (map (\<lambda>k. (k, path)) (in_children x) @ rest)
                 (snapshot_step c hold get (child, path) st))))"

definition snapshot_tree ::
  "base_codec \<Rightarrow> ('d, 'm, 'v) tree_ops \<Rightarrow> ('d, 'm, 'u) tree \<Rightarrow> dref set \<Rightarrow> base_snapshot option" where
  "snapshot_tree c ops t hold =
     (let get = dom_get ops (t_dom t) in
      map_option (\<lambda>(_, out). out\<lparr>sn_held := fold os_remove (sn_ambiguous out) (sn_held out)\<rparr>)
        (snapshot_walk c hold get (map (\<lambda>k. (k, [])) (kids get (root_ref ops t))) ({}, snapshot_default)))"

definition mark_step :: "string \<Rightarrow> string set \<times> oset \<Rightarrow> string set \<times> oset" where
  "mark_step path = (\<lambda>(seen, ambiguous).
     (insert path seen, if path \<in> seen then os_insert path ambiguous else ambiguous))"

text \<open>The children of one popped instance: each is marked and pushed; the last one is on top.\<close>

fun push_children ::
  "(dref \<Rightarrow> 'v inst option) \<Rightarrow> string \<Rightarrow> dref list \<Rightarrow> (dref \<times> string) list \<times> string set \<times> oset
   \<Rightarrow> (dref \<times> string) list \<times> string set \<times> oset" where
  "push_children get pre [] st = st"
| "push_children get pre (child # cs) (stack, marks) =
     (case get child of
        None \<Rightarrow> push_children get pre cs (stack, marks)
      | Some x \<Rightarrow> (let path = child_path pre (in_name x)
          in push_children get pre cs ((child, path) # stack, mark_step path marks)))"

partial_function (option) ambiguous_walk ::
  "(dref \<Rightarrow> 'v inst option) \<Rightarrow> (dref \<times> string) list \<times> string set \<times> oset \<Rightarrow> oset option" where
  "ambiguous_walk get st =
     (case st of (stack, marks) \<Rightarrow>
       (case stack of
          [] \<Rightarrow> Some (snd marks)
        | (i, pre) # rest \<Rightarrow> (case get i of
              None \<Rightarrow> ambiguous_walk get (rest, marks)
            | Some x \<Rightarrow> ambiguous_walk get (push_children get pre (in_children x) (rest, marks)))))"

definition ambiguous_paths :: "('d, 'm, 'v) tree_ops \<Rightarrow> ('d, 'm, 'u) tree \<Rightarrow> oset option" where
  "ambiguous_paths ops t = ambiguous_walk (dom_get ops (t_dom t)) ([(root_ref ops t, [])], {}, [])"

section \<open>The instances a walk visits\<close>

fun visits :: "(dref \<Rightarrow> 'v inst option) \<Rightarrow> string \<Rightarrow> rose \<Rightarrow> (dref \<times> string) list" where
  "visits m pre (Rose i ts) =
     (let p = child_path pre (case m i of Some x \<Rightarrow> in_name x | None \<Rightarrow> []) in (i, p) # concat (map (visits m p) ts))"

abbreviation kid_visits :: "(dref \<Rightarrow> 'v inst option) \<Rightarrow> string \<Rightarrow> rose \<Rightarrow> (dref \<times> string) list" where
  "kid_visits m pre t \<equiv> concat (map (visits m pre) (rkids t))"

lemma visits_rose:
  "m i = Some x \<Longrightarrow> visits m pre (Rose i ts) =
     (i, child_path pre (in_name x)) # concat (map (visits m (child_path pre (in_name x))) ts)"
  by (simp add: Let_def)

declare visits.simps [simp del]

lemma visits_labels: "map fst (visits m pre t) = labels t"
proof (induction t arbitrary: pre)
  case (Rose i ts)
  then show ?case by (simp add: visits.simps Let_def map_concat o_def cong: map_cong)
qed

lemma snapshot_walk_forest:
  assumes "\<forall>(t, p)\<in>set tps. represents m t"
  shows "snapshot_walk c hold m (map (\<lambda>(t, p). (rid t, p)) tps @ rest) st =
    snapshot_walk c hold m rest (fold (snapshot_step c hold m) (concat (map (\<lambda>(t, p). visits m p t) tps)) st)"
  using assms
proof (induction tps arbitrary: rest st rule: measure_induct_rule [of "\<lambda>tps. length (forest_labels (map fst tps))"])
  case (less tps)
  show ?case
  proof (cases tps)
    case (Cons tp tps')
    obtain i us p where tp: "tp = (Rose i us, p)" by (metis rose.exhaust surj_pair)
    obtain x where x: "m i = Some x" "in_children x = map rid us" using less.prems Cons tp by auto
    let ?p = "child_path p (in_name x)"
    have "snapshot_walk c hold m (map (\<lambda>(t, p). (rid t, p)) tps @ rest) st =
        snapshot_walk c hold m (map (\<lambda>(t, p). (rid t, p)) (map (\<lambda>u. (u, ?p)) us @ tps') @ rest)
          (snapshot_step c hold m (i, ?p) st)"
      using x Cons tp by (subst snapshot_walk.simps) (simp add: o_def Let_def)
    also have "\<dots> = snapshot_walk c hold m rest (fold (snapshot_step c hold m)
        (concat (map (\<lambda>(t, p). visits m p t) (map (\<lambda>u. (u, ?p)) us @ tps'))) (snapshot_step c hold m (i, ?p) st))"
      using less.prems Cons tp by (intro less.IH) (auto simp: o_def)
    finally show ?thesis using Cons tp x by (simp add: visits_rose o_def)
  qed simp
qed

lemma push_children_forest:
  assumes "\<forall>t\<in>set ts. represents m t"
  shows "push_children m p (map rid ts) (stack, marks) =
    (rev (map (\<lambda>t. (rid t, snd (hd (visits m p t)))) ts) @ stack,
     fold mark_step (map (\<lambda>t. snd (hd (visits m p t))) ts) marks)"
  using assms
proof (induction ts arbitrary: stack marks)
  case (Cons t ts)
  obtain i us x where t: "t = Rose i us" "m i = Some x" using Cons.prems by (cases t) auto
  then show ?case using Cons by (simp add: visits_rose Let_def)
qed simp

lemma sum_list_map_rev: "sum_list (map f (rev xs)) = (sum_list (map f xs) :: 'a :: comm_monoid_add)"
  by (simp add: rev_map [symmetric])

lemma ambiguous_walk_step:
  "m i = Some x \<Longrightarrow> ambiguous_walk m ((i, p) # rest, marks) =
     ambiguous_walk m (push_children m p (in_children x) (rest, marks))"
  by (subst ambiguous_walk.simps) simp

lemma ambiguous_walk_forest:
  assumes "\<forall>(t, p)\<in>set tps. represents m t"
  shows "\<exists>ps. mset ps = mset (map snd (concat (map (\<lambda>(t, p). kid_visits m p t) tps))) \<and>
    ambiguous_walk m (map (\<lambda>(t, p). (rid t, p)) tps, marks) = Some (snd (fold mark_step ps marks))"
  using assms
proof (induction tps arbitrary: marks rule: measure_induct_rule [of "\<lambda>tps. length (forest_labels (map fst tps))"])
  case (less tps)
  show ?case
  proof (cases tps)
    case Nil
    then show ?thesis by (subst ambiguous_walk.simps) simp
  next
    case (Cons tp tps')
    obtain i us p where tp: "tp = (Rose i us, p)" by (metis rose.exhaust surj_pair)
    obtain x where x: "m i = Some x" "in_children x = map rid us" using less.prems Cons tp by auto
    have us: "\<forall>u\<in>set us. represents m u" using less.prems Cons tp by auto
    let ?f = "\<lambda>t. (t, snd (hd (visits m p t)))" and ?heads = "map (\<lambda>t. snd (hd (visits m p t))) us"
    let ?tps = "rev (map ?f us) @ tps'"
    have step: "ambiguous_walk m (map (\<lambda>(t, p). (rid t, p)) tps, marks) =
        ambiguous_walk m (map (\<lambda>(t, p). (rid t, p)) ?tps, fold mark_step ?heads marks)"
      using Cons tp by (simp add: ambiguous_walk_step [of m i x] x push_children_forest [OF us] rev_map o_def)
    have smaller: "length (forest_labels (map fst ?tps)) < length (forest_labels (map fst tps))"
      using Cons tp by (simp add: length_concat rev_map [symmetric] sum_list_rev o_def)
    have "\<forall>(t, p)\<in>set ?tps. represents m t" using less.prems Cons us by auto
    from less.IH [OF smaller this, of "fold mark_step ?heads marks"]
    obtain ps where ps: "mset ps = mset (map snd (concat (map (\<lambda>(t, p). kid_visits m p t) ?tps)))"
      "ambiguous_walk m (map (\<lambda>(t, p). (rid t, p)) ?tps, fold mark_step ?heads marks) =
        Some (snd (fold mark_step ps (fold mark_step ?heads marks)))"
      by blast
    have split: "mset (map snd (visits m p u)) =
        add_mset (snd (hd (visits m p u))) (mset (map snd (kid_visits m (snd (hd (visits m p u))) u)))"
      if u: "u \<in> set us" for u
    proof -
      have "represents m u" using us u by simp
      then obtain j vs y where "u = Rose j vs" "m j = Some y" by (cases u) auto
      then show ?thesis by (simp add: visits_rose)
    qed
    have "mset (map snd (concat (map (visits m p) us))) =
        mset ?heads + mset (map snd (concat (map (\<lambda>u. kid_visits m (snd (hd (visits m p u))) u) us)))"
      using split by (induction us) (auto simp: ac_simps)
    then have "mset (?heads @ ps) = mset (map snd (concat (map (\<lambda>(t, p). kid_visits m p t) tps)))"
      using ps(1) Cons tp by (simp add: map_concat mset_concat rev_map sum_list_map_rev o_def ac_simps)
    then show ?thesis using step ps(2) by (intro exI [of _ "?heads @ ps"]) simp
  qed
qed

section \<open>What the marks and the snapshot hold\<close>

lemma fold_mark:
  assumes "os_ok amb"
  shows "fst (fold mark_step ps (seen, amb)) = seen \<union> set ps \<and> os_ok (snd (fold mark_step ps (seen, amb))) \<and>
    set (snd (fold mark_step ps (seen, amb))) =
      set amb \<union> {p \<in> set ps. p \<in> seen \<or> 2 \<le> count_list ps p}"
  using assms
proof (induction ps arbitrary: seen amb)
  case (Cons q ps)
  let ?amb = "if q \<in> seen then os_insert q amb else amb"
  have "os_ok ?amb" using Cons.prems by (simp add: os_insert_ok)
  note ih = Cons.IH [OF this, of "insert q seen"]
  have "count_list ps q \<noteq> 0 \<longleftrightarrow> q \<in> set ps" by (simp add: count_list_0_iff)
  then show ?case using ih by (auto simp: mark_step_def)
qed simp

lemma os_ok_unique: "os_ok a \<Longrightarrow> os_ok b \<Longrightarrow> set a = set b \<Longrightarrow> a = b"
  unfolding os_ok_def by (rule strict_sorted_equal)

lemma ambiguous_paths_result:
  assumes wf: "dom_wf (root_ref ops t) (dom_get ops (t_dom t))"
    and r: "rid r = root_ref ops t" "represents (dom_get ops (t_dom t)) r"
  obtains amb where "ambiguous_paths ops t = Some amb" "os_ok amb"
    "set amb = {p. 2 \<le> count_list (map snd (kid_visits (dom_get ops (t_dom t)) [] r)) p}"
proof -
  let ?m = "dom_get ops (t_dom t)" and ?ps = "map snd (kid_visits (dom_get ops (t_dom t)) [] r)"
  obtain ps where ps: "mset ps = mset ?ps"
    "ambiguous_walk ?m ([(root_ref ops t, [])], {}, []) = Some (snd (fold mark_step ps ({}, [])))"
    using ambiguous_walk_forest [of "[(r, [])]" ?m "({}, [])"] r by auto
  have marks: "os_ok (snd (fold mark_step ps ({}, [])))"
    "set (snd (fold mark_step ps ({}, []))) = {p \<in> set ps. 2 \<le> count_list ps p}"
    using fold_mark [of "[]" ps "{}"] by (simp_all add: os_ok_def)
  have "count_list ps p = count_list ?ps p" for p using ps(1) by (metis count_mset)
  moreover have "p \<in> set ps" if "2 \<le> count_list ps p" for p using that by (metis count_notin not_numeral_le_zero)
  ultimately have "set (snd (fold mark_step ps ({}, []))) = {p. 2 \<le> count_list ?ps p}" using marks(2) by auto
  then show thesis using that marks(1) ps(2) by (simp add: ambiguous_paths_def)
qed

text \<open>
  After the walk visited \<open>vs\<close>: the first instance at each path decides between an entry and a
  hold, and a second one at the same path makes the path ambiguous for good.
\<close>

definition first_at :: "(dref \<times> string) list \<Rightarrow> string \<Rightarrow> dref option" where
  "first_at vs = map_of (map prod.swap vs)"

definition snapshot_inv ::
  "base_codec \<Rightarrow> dref set \<Rightarrow> (dref \<Rightarrow> 'v inst option) \<Rightarrow> (dref \<times> string) list \<Rightarrow> string set \<times> base_snapshot \<Rightarrow> bool" where
  "snapshot_inv c hold m vs = (\<lambda>(seen, out).
     seen = set (map snd vs) \<and> om_ok (sn_entries out) \<and> os_ok (sn_ambiguous out) \<and> os_ok (sn_held out) \<and>
     set (sn_ambiguous out) = {p. 2 \<le> count_list (map snd vs) p} \<and>
     set (sn_held out) = {p. \<exists>i\<in>hold. first_at vs p = Some i} \<and>
     (\<forall>p. om_get (sn_entries out) p =
        (if count_list (map snd vs) p = 1 then (case first_at vs p of
             Some i \<Rightarrow> if i \<in> hold then None
               else map_option (\<lambda>x. key_of c (in_class x) (in_properties x)) (m i)
           | None \<Rightarrow> None) else None)))"

lemma first_at_snoc: "first_at (vs @ [(i, p)]) = (\<lambda>q. if q = p \<and> p \<notin> set (map snd vs) then Some i else first_at vs q)"
proof
  fix q
  have "map_of (map prod.swap vs) p = None \<longleftrightarrow> p \<notin> set (map snd vs)"
    by (simp add: map_of_eq_None_iff image_image)
  then show "first_at (vs @ [(i, p)]) q = (if q = p \<and> p \<notin> set (map snd vs) then Some i else first_at vs q)"
    by (auto simp: first_at_def map_add_def split: option.splits)
qed

lemma snapshot_inv_step:
  assumes inv: "snapshot_inv c hold m vs st"
  shows "snapshot_inv c hold m (vs @ [(i, p)]) (snapshot_step c hold m (i, p) st)"
proof -
  obtain seen out where st: "st = (seen, out)" by (cases st)
  have seen: "seen = set (map snd vs)" using inv st by (simp add: snapshot_inv_def)
  have fresh: "p \<notin> set (map snd vs) \<Longrightarrow> count_list (map snd vs) p = 0 \<and> first_at vs p = None"
    by (auto simp: first_at_def map_of_eq_None_iff image_image count_list_0_iff)
  have old: "p \<in> set (map snd vs) \<Longrightarrow> count_list (map snd vs) p \<noteq> 0" by (simp add: count_list_0_iff)
  show ?thesis
  proof (cases "p \<in> set (map snd vs)")
    case True
    then show ?thesis using inv old [OF True] unfolding st seen
      by (auto simp: snapshot_inv_def snapshot_step_def seen first_at_snoc om_remove_ok os_insert_ok om_get_remove)
  next
    case False
    then show ?thesis using inv fresh [OF False] unfolding st
      by (auto simp: snapshot_inv_def snapshot_step_def first_at_snoc os_insert_ok om_insert_ok om_get_insert
          split: option.splits)
  qed
qed

lemma snapshot_inv_fold: "snapshot_inv c hold m vs (fold (snapshot_step c hold m) vs ({}, snapshot_default))"
proof (induction vs rule: rev_induct)
  case (snoc v vs)
  then show ?case using snapshot_inv_step by (cases v) simp
qed (auto simp: snapshot_inv_def snapshot_default_def first_at_def om_ok_def os_ok_def)

section \<open>Where an instance is\<close>

text \<open>The path of an instance as the walks form it: the names from below the root down, joined with slashes.\<close>

inductive located :: "(dref \<Rightarrow> 'v inst option) \<Rightarrow> dref \<Rightarrow> dref \<Rightarrow> string \<Rightarrow> bool" for m root where
  Top: "j \<in> set (kids m root) \<Longrightarrow> m j = Some x \<Longrightarrow> located m root j (in_name x)"
| Sub: "located m root i p \<Longrightarrow> j \<in> set (kids m i) \<Longrightarrow> m j = Some x \<Longrightarrow> located m root j (child_path p (in_name x))"

lemma visits_closed:
  assumes "represents m t" "(i, p) \<in> set (visits m pre t)" "j \<in> set (kids m i)" "m j = Some x"
  shows "(j, child_path p (in_name x)) \<in> set (visits m pre t)"
  using assms(1,2)
proof (induction t arbitrary: pre)
  case (Rose k ts)
  then obtain y where y: "m k = Some y" "in_children y = map rid ts" by auto
  let ?q = "child_path pre (in_name y)"
  consider "i = k" "p = ?q" | t where "t \<in> set ts" "(i, p) \<in> set (visits m ?q t)"
    using Rose.prems(2) visits_rose [of m k y pre ts, OF y(1)] by auto
  then show ?case
  proof cases
    case 1
    then obtain t where t: "t \<in> set ts" "rid t = j" using assms(3) y by (auto simp: kids_def)
    then have "(j, child_path ?q (in_name x)) \<in> set (visits m ?q t)"
      using visits_rose [of m j x ?q "rkids t", OF assms(4)] by (cases t) auto
    then show ?thesis using visits_rose [of m k y pre ts, OF y(1)] t(1) 1(2) by auto
  next
    case 2
    then have "(j, child_path p (in_name x)) \<in> set (visits m ?q t)" using Rose by auto
    then show ?thesis using visits_rose [of m k y pre ts, OF y(1)] 2(1) by auto
  qed
qed

lemma visits_located:
  assumes "represents m t" "\<And>x. m (rid t) = Some x \<Longrightarrow> located m root (rid t) (child_path pre (in_name x))"
    and "(i, p) \<in> set (visits m pre t)"
  shows "located m root i p"
  using assms
proof (induction t arbitrary: pre)
  case (Rose k ts)
  then obtain y where y: "m k = Some y" "in_children y = map rid ts" by auto
  let ?q = "child_path pre (in_name y)"
  have here: "located m root k ?q" using Rose.prems(2) y(1) by simp
  consider "i = k" "p = ?q" | t where "t \<in> set ts" "(i, p) \<in> set (visits m ?q t)"
    using Rose.prems(3) visits_rose [of m k y pre ts, OF y(1)] by auto
  then show ?case
  proof cases
    case 2
    have "located m root (rid t) (child_path ?q (in_name x))" if "m (rid t) = Some x" for x
      using located.Sub [OF here _ that] 2(1) y by (auto simp: kids_def)
    then show ?thesis using Rose.IH [OF 2(1) _ _ 2(2)] Rose.prems(1) 2(1) by auto
  qed (use here in simp)
qed

lemma kid_visits_located:
  assumes "represents m r"
  shows "(i, p) \<in> set (kid_visits m [] r) \<longleftrightarrow> located m (rid r) i p"
proof
  assume "(i, p) \<in> set (kid_visits m [] r)"
  then obtain t where t: "t \<in> set (rkids r)" "(i, p) \<in> set (visits m [] t)" by auto
  then have rep: "represents m t" and kid: "rid t \<in> set (kids m (rid r))"
    using assms represents_kids [OF assms] by (cases r; auto)+
  have "located m (rid r) (rid t) (child_path [] (in_name x))" if "m (rid t) = Some x" for x
    using located.Top [OF kid that] by (simp add: child_path_def)
  then show "located m (rid r) i p" by (rule visits_located [OF rep _ t(2)])
next
  assume "located m (rid r) i p"
  then show "(i, p) \<in> set (kid_visits m [] r)"
  proof induction
    case (Top j x)
    then obtain t where "t \<in> set (rkids r)" "rid t = j" using represents_kids [OF assms] by auto
    then show ?case using visits_rose [of m j x "[]" "rkids t", OF Top(2)]
      by (cases t) (auto simp: child_path_def intro!: bexI [of _ t])
  next
    case (Sub i p j x)
    then obtain t where t: "t \<in> set (rkids r)" "(i, p) \<in> set (visits m [] t)" by auto
    then have "represents m t" using assms by (cases r) auto
    from visits_closed [OF this t(2) Sub(2,3)] show ?case using t(1) by auto
  qed
qed

lemma count_visits: "distinct (map fst vs) \<Longrightarrow> count_list (map snd vs) p = card {i. (i, p) \<in> set vs}"
proof (induction vs)
  case (Cons v vs)
  obtain i q where v: "v = (i, q)" by (cases v)
  have "finite {j. (j, p) \<in> set vs}" by (rule finite_subset [of _ "fst ` set vs"]) (auto intro: rev_image_eqI)
  moreover have "{j. (j, p) \<in> set (v # vs)} = (if q = p then insert i {j. (j, p) \<in> set vs} else {j. (j, p) \<in> set vs})"
    using v by auto
  moreover have "i \<notin> {j. (j, p) \<in> set vs}" using Cons.prems v by (auto intro: rev_image_eqI)
  ultimately show ?case using Cons v by auto
qed simp

lemma first_at_in: "first_at vs p = Some i \<Longrightarrow> (i, p) \<in> set vs"
  by (auto simp: first_at_def dest: map_of_SomeD)

lemma first_at_single:
  assumes "{i. (i, p) \<in> set vs} = {j}"
  shows "first_at vs p = Some j"
proof -
  have "(j, p) \<in> set vs" using assms by auto
  then have "(p, j) \<in> set (map prod.swap vs)" by (auto intro: rev_image_eqI)
  then have "first_at vs p \<noteq> None" unfolding first_at_def using weak_map_of_SomeI by fastforce
  then show ?thesis using assms first_at_in by fastforce
qed

lemma snapshot_tree_result:
  assumes r: "rid r = root_ref ops t" "represents (dom_get ops (t_dom t)) r"
  obtains seen out where "snapshot_tree c ops t hold = Some (out\<lparr>sn_held := fold os_remove (sn_ambiguous out) (sn_held out)\<rparr>)"
    "snapshot_inv c hold (dom_get ops (t_dom t)) (kid_visits (dom_get ops (t_dom t)) [] r) (seen, out)"
proof -
  let ?m = "dom_get ops (t_dom t)" and ?tps = "map (\<lambda>u. (u, [])) (rkids r)"
  have "\<forall>(u, p)\<in>set ?tps. represents ?m u" using r(2) by (cases r) auto
  from snapshot_walk_forest [OF this, of c hold "[]" "({}, snapshot_default)"]
  have "snapshot_walk c hold ?m (map (\<lambda>k. (k, [])) (kids ?m (root_ref ops t))) ({}, snapshot_default) =
      Some (fold (snapshot_step c hold ?m) (kid_visits ?m [] r) ({}, snapshot_default))"
    using represents_kids [OF r(2)] r(1) by (simp add: o_def snapshot_walk.simps [of c hold ?m "[]"])
  then show thesis
    using that snapshot_inv_fold [of c hold ?m "kid_visits ?m [] r"]
    by (cases "fold (snapshot_step c hold ?m) (kid_visits ?m [] r) ({}, snapshot_default)")
       (simp add: snapshot_tree_def Let_def)
qed

lemma set_fold_os_remove: "set (fold os_remove ps s) = set s - set ps"
  by (induction ps arbitrary: s) auto

text \<open>
  The sync base snapshot is the agreed state, no more and no less. On a well formed tree both
  walks return. A path is ambiguous exactly when two instances share it, and the cheap scan
  \<open>ambiguous_paths\<close> finds exactly those paths; a path has an entry exactly when one instance is
  there and it is not held, with that instance's key; it is held exactly when the one instance
  there is held.
\<close>

theorem snapshot_tree_exact:
  assumes "dom_wf (root_ref ops t) (dom_get ops (t_dom t))"
  shows "\<exists>sn. snapshot_tree c ops t hold = Some sn \<and> ambiguous_paths ops t = Some (sn_ambiguous sn) \<and>
    (\<forall>p. let at = {i. located (dom_get ops (t_dom t)) (root_ref ops t) i p} in
      (p \<in> set (sn_ambiguous sn) \<longleftrightarrow> 2 \<le> card at) \<and>
      (p \<in> set (sn_held sn) \<longleftrightarrow> (\<exists>i\<in>hold. at = {i})) \<and>
      (\<forall>k. om_get (sn_entries sn) p = Some k \<longleftrightarrow> (\<exists>i x. at = {i} \<and> i \<notin> hold \<and>
         get_instance ops t i = Some x \<and> k = key_of c (in_class x) (in_properties x))))"
proof -
  let ?m = "dom_get ops (t_dom t)"
  have "?m (root_ref ops t) \<noteq> None" using assms by (auto simp: dom_wf_def)
  then obtain r where r: "rid r = root_ref ops t" "represents ?m r" using rose_exists [OF assms] by blast
  let ?vs = "kid_visits ?m [] r" and ?at = "\<lambda>p. {i. located ?m (root_ref ops t) i p}"
  have at: "?at p = {i. (i, p) \<in> set ?vs}" for p using kid_visits_located [OF r(2)] r(1) by auto
  have "distinct (labels r)" by (rule labels_distinct [OF assms r(2)])
  then have "distinct (map fst ?vs)" by (cases r) (simp add: map_concat o_def visits_labels)
  then have count: "count_list (map snd ?vs) p = card (?at p)" for p using count_visits at by metis
  obtain seen out where out: "snapshot_tree c ops t hold = Some (out\<lparr>sn_held := fold os_remove (sn_ambiguous out) (sn_held out)\<rparr>)"
    "snapshot_inv c hold ?m ?vs (seen, out)" by (rule snapshot_tree_result [OF r])
  obtain amb where amb: "ambiguous_paths ops t = Some amb" "os_ok amb" "set amb = {p. 2 \<le> count_list (map snd ?vs) p}"
    by (rule ambiguous_paths_result [OF assms r])
  have same: "amb = sn_ambiguous out" using out(2) amb by (intro os_ok_unique) (auto simp: snapshot_inv_def)
  have first: "first_at ?vs p = Some j" if "?at p = {j}" for p j using first_at_single that at by metis
  have single: "\<exists>j. ?at p = {j} \<and> first_at ?vs p = Some j" if "card (?at p) = 1" for p
    using that first card_1_singletonE by metis
  have "p \<in> set (sn_held out) - set (sn_ambiguous out) \<longleftrightarrow> (\<exists>i\<in>hold. ?at p = {i})" for p
  proof -
    have "card (?at p) \<noteq> 0" if "first_at ?vs p = Some i" for i
    proof -
      have "finite (?at p)" unfolding at by (rule finite_subset [of _ "fst ` set ?vs"]) (auto intro: rev_image_eqI)
      then show ?thesis using first_at_in [OF that] at [of p] by (auto simp: card_eq_0_iff)
    qed
    moreover have "p \<in> set (sn_held out) \<longleftrightarrow> (\<exists>i\<in>hold. first_at ?vs p = Some i)"
      "p \<in> set (sn_ambiguous out) \<longleftrightarrow> 2 \<le> card (?at p)"
      using out(2) count by (auto simp: snapshot_inv_def)
    ultimately show ?thesis using single [of p] first by (auto simp: not_le less_2_cases_iff)
  qed
  moreover have "om_get (sn_entries out) p = Some k \<longleftrightarrow> (\<exists>i x. ?at p = {i} \<and> i \<notin> hold \<and>
      get_instance ops t i = Some x \<and> k = key_of c (in_class x) (in_properties x))" for p k
  proof (cases "card (?at p) = 1")
    case True
    with single [of p] show ?thesis using out(2) count [of p]
      by (auto simp: snapshot_inv_def get_instance_def split: if_splits)
  next
    case False
    then have "?at p \<noteq> {i}" for i by auto
    then show ?thesis using out(2) count [of p] False by (simp add: snapshot_inv_def)
  qed
  ultimately show ?thesis
    using out amb same count by (auto simp: set_fold_os_remove Let_def snapshot_inv_def)
qed

definition example_codec_base :: base_codec where
  "example_codec_base = \<lparr>sha_hex = (\<lambda>s. s), ser_stored = (\<lambda>_. []), de_stored = (\<lambda>_. None)\<rparr>"

theorem snapshot_tree_exact_witness:
  "\<exists>sn. snapshot_tree example_codec_base example_ops example_tree {} = Some sn \<and>
     ambiguous_paths example_ops example_tree = Some (sn_ambiguous sn)"
  using snapshot_tree_exact [of example_ops example_tree example_codec_base "{}"] example_tree_ok(1)
  by (auto simp: tree_ok_def)

end
