(* ===== verification/Queue.thy ===== *)
theory Queue
  imports Snapshot
begin

text \<open>
  The sync queue (\<^verbatim>\<open>src/core/queue.rs\<close>): the listeners, one channel per listener, and the
  delivery accounting \<open>wait-synced\<close> reads.

  The channels are \<open>crossbeam_channel::unbounded\<close> channels, a package outside the repository:
  their operations are the fields of a \<open>channel_ops\<close> every definition takes, and
  \<open>channel_laws\<close> states the documented behaviour (an unbounded FIFO whose send cannot fail
  while a receiver exists, as the listener's own entry holds one). Consumers clone the
  receiver and the flow counters and keep them after the locks are released, so a channel is
  a cell of a heap and the map \<open>queues\<close> holds its handle. Each operation that takes several
  locks one after the other is composed of the steps between them.
\<close>

section \<open>Definitions\<close>

record ('c, 'm) channel_ops =
  cb_unbounded :: 'c
  cb_send :: "'m \<Rightarrow> 'c \<Rightarrow> 'c option"
  cb_recv :: "'c \<Rightarrow> ('m \<times> 'c) option"

definition channel_laws :: "('c, 'm) channel_ops \<Rightarrow> ('c \<Rightarrow> 'm list) \<Rightarrow> bool" where
  "channel_laws cb contents \<longleftrightarrow>
     contents (cb_unbounded cb) = [] \<and>
     (\<forall>m c. \<exists>c'. cb_send cb m c = Some c' \<and> contents c' = contents c @ [m]) \<and>
     (\<forall>c. case cb_recv cb c of None \<Rightarrow> contents c = [] | Some (m, c') \<Rightarrow> contents c = m # contents c')"

datatype queue_error = NotSubscribed | AlreadySubscribed | SendError | Panic

record listener =
  ls_id :: u32
  ls_name :: string
  ls_internal :: bool

record flow =
  fl_pushed :: u64
  fl_pushed_changes :: u64
  fl_taken :: u64
  fl_taken_changes :: u64
  fl_settled :: u64
  fl_settled_changes :: u64
  fl_confirmed_changes :: u64

definition flow_default :: flow where
  "flow_default = \<lparr>fl_pushed = 0, fl_pushed_changes = 0, fl_taken = 0, fl_taken_changes = 0,
     fl_settled = 0, fl_settled_changes = 0, fl_confirmed_changes = 0\<rparr>"

definition change_count :: "('u, 'v) message \<Rightarrow> u64" where
  "change_count m = (case m of SyncChanges c \<Rightarrow> of_nat (changes_total c) | _ \<Rightarrow> 0)"

definition on_push :: "('u, 'v) message \<Rightarrow> flow \<Rightarrow> flow" where
  "on_push m f = f\<lparr>fl_pushed_changes := fl_pushed_changes f + change_count m, fl_pushed := fl_pushed f + 1\<rparr>"

definition on_wait :: "flow \<Rightarrow> flow" where
  "on_wait f = f\<lparr>fl_settled_changes := max (fl_settled_changes f) (fl_taken_changes f),
     fl_settled := max (fl_settled f) (fl_taken f)\<rparr>"

definition on_take :: "('u, 'v) message \<Rightarrow> flow \<Rightarrow> flow" where
  "on_take m f = f\<lparr>fl_taken_changes := fl_taken_changes f + change_count m, fl_taken := fl_taken f + 1\<rparr>"

record flow_mark =
  fm_pushed :: u64
  fm_pushed_changes :: u64
  fm_settled :: u64
  fm_settled_changes :: u64
  fm_confirmed_changes :: u64

definition mark :: "flow \<Rightarrow> flow_mark" where
  "mark f = \<lparr>fm_pushed = fl_pushed f, fm_pushed_changes = fl_pushed_changes f, fm_settled = fl_settled f,
     fm_settled_changes = fl_settled_changes f, fm_confirmed_changes = fl_confirmed_changes f\<rparr>"

definition saturating_sub :: "u64 \<Rightarrow> u64 \<Rightarrow> u64" where
  "saturating_sub a b = (if b \<le> a then a - b else 0)"

definition queued_changes :: "flow_mark \<Rightarrow> u64" where
  "queued_changes m = saturating_sub (fm_pushed_changes m) (fm_settled_changes m)"

definition unconfirmed_changes :: "flow_mark \<Rightarrow> u64" where
  "unconfirmed_changes m = saturating_sub (fm_settled_changes m) (fm_confirmed_changes m)"

record 'c channel =
  ch_chan :: 'c
  ch_flow :: flow

definition channel_new :: "('c, ('u, 'v) message) channel_ops \<Rightarrow> 'c channel" where
  "channel_new cb = \<lparr>ch_chan = cb_unbounded cb, ch_flow = flow_default\<rparr>"

subsection \<open>One channel\<close>

definition ch_push :: "('c, ('u, 'v) message) channel_ops \<Rightarrow> ('u, 'v) message \<Rightarrow> 'c channel \<Rightarrow>
    'c channel \<times> (queue_error + unit)" where
  "ch_push cb m ch =
     (let ch = ch\<lparr>ch_flow := on_push m (ch_flow ch)\<rparr>
      in case cb_send cb m (ch_chan ch) of
           None \<Rightarrow> (ch, Inl SendError)
         | Some c \<Rightarrow> (ch\<lparr>ch_chan := c\<rparr>, Inr ()))"

definition ch_wait :: "'c channel \<Rightarrow> 'c channel" where
  "ch_wait ch = ch\<lparr>ch_flow := on_wait (ch_flow ch)\<rparr>"

definition ch_take :: "('c, ('u, 'v) message) channel_ops \<Rightarrow> 'c channel \<Rightarrow> 'c channel \<times> ('u, 'v) message option" where
  "ch_take cb ch =
     (case cb_recv cb (ch_chan ch) of
        None \<Rightarrow> (ch, None)
      | Some (m, c) \<Rightarrow> (ch\<lparr>ch_chan := c, ch_flow := on_take m (ch_flow ch)\<rparr>, Some m))"

definition ch_confirm :: "flow_mark \<Rightarrow> 'c channel \<Rightarrow> 'c channel" where
  "ch_confirm mk ch = ch\<lparr>ch_flow := (ch_flow ch)
     \<lparr>fl_confirmed_changes := max (fl_confirmed_changes (ch_flow ch)) (fm_settled_changes mk)\<rparr>\<rparr>"

subsection \<open>The queue\<close>

record 'c queue =
  q_heap :: "'c channel list"
  q_queues :: "u32 \<rightharpoonup> nat"
  q_listeners :: "listener list"
  q_unsynced :: u64

definition queue_new :: "'c queue" where
  "queue_new = \<lparr>q_heap = [], q_queues = Map.empty, q_listeners = [], q_unsynced = 0\<rparr>"

definition is_subscribed :: "u32 \<Rightarrow> 'c queue \<Rightarrow> bool" where
  "is_subscribed iid q = list_ex (\<lambda>l. ls_id l = iid) (q_listeners q)"

text \<open>\<open>queues.get(&id).unwrap()\<close>\<close>

definition unwrap_channel :: "u32 \<Rightarrow> 'c queue \<Rightarrow> queue_error + nat" where
  "unwrap_channel iid q = (case q_queues q iid of None \<Rightarrow> Inl Panic | Some h \<Rightarrow> Inr h)"

text \<open>The check and the lookup every addressed operation starts with.\<close>

definition get_channel :: "u32 \<Rightarrow> 'c queue \<Rightarrow> queue_error + nat" where
  "get_channel iid q = (if is_subscribed iid q then unwrap_channel iid q else Inl NotSubscribed)"

definition push_handle :: "('c, ('u, 'v) message) channel_ops \<Rightarrow> ('u, 'v) message \<Rightarrow> nat \<Rightarrow> 'c queue \<Rightarrow>
    'c queue \<times> (queue_error + unit)" where
  "push_handle cb m h q =
     (case ch_push cb m (q_heap q ! h) of (ch, r) \<Rightarrow> (q\<lparr>q_heap := (q_heap q)[h := ch]\<rparr>, r))"

fun push_all :: "('c, ('u, 'v) message) channel_ops \<Rightarrow> ('u, 'v) message \<Rightarrow> listener list \<Rightarrow> 'c queue \<Rightarrow>
    'c queue \<times> (queue_error + unit)" where
  "push_all cb m [] q = (q, Inr ())"
| "push_all cb m (l # ls) q =
     (case unwrap_channel (ls_id l) q of
        Inl e \<Rightarrow> (q, Inl e)
      | Inr h \<Rightarrow> (case push_handle cb m h q of
                   (q, Inl e) \<Rightarrow> (q, Inl e)
                 | (q, Inr _) \<Rightarrow> push_all cb m ls q))"

definition push :: "('c, ('u, 'v) message) channel_ops \<Rightarrow> ('u, 'v) message \<Rightarrow> u32 option \<Rightarrow> 'c queue \<Rightarrow>
    'c queue \<times> (queue_error + unit)" where
  "push cb m target q =
     (case target of
        Some iid \<Rightarrow> (case get_channel iid q of Inl e \<Rightarrow> (q, Inl e) | Inr h \<Rightarrow> push_handle cb m h q)
      | None \<Rightarrow>
          (case push_all cb m (q_listeners q) q of
             (q, Inl e) \<Rightarrow> (q, Inl e)
           | (q, Inr _) \<Rightarrow>
               (if q_listeners q = [] then q\<lparr>q_unsynced := q_unsynced q + 1\<rparr> else q, Inr ())))"

text \<open>\<open>get\<close> and \<open>get_timeout\<close>: the part under the lock, then the wait on the cloned receiver.\<close>

definition get_wait :: "u32 \<Rightarrow> 'c queue \<Rightarrow> 'c queue \<times> (queue_error + nat)" where
  "get_wait iid q =
     (case get_channel iid q of
        Inl e \<Rightarrow> (q, Inl e)
      | Inr h \<Rightarrow> (q\<lparr>q_heap := (q_heap q)[h := ch_wait (q_heap q ! h)]\<rparr>, Inr h))"

definition get_take :: "('c, ('u, 'v) message) channel_ops \<Rightarrow> nat \<Rightarrow> 'c queue \<Rightarrow> 'c queue \<times> ('u, 'v) message option" where
  "get_take cb h q =
     (case ch_take cb (q_heap q ! h) of (ch, m) \<Rightarrow> (q\<lparr>q_heap := (q_heap q)[h := ch]\<rparr>, m))"

definition get_timeout :: "('c, ('u, 'v) message) channel_ops \<Rightarrow> u32 \<Rightarrow> 'c queue \<Rightarrow>
    'c queue \<times> (queue_error + ('u, 'v) message option)" where
  "get_timeout cb iid q =
     (case get_wait iid q of
        (q, Inl e) \<Rightarrow> (q, Inl e)
      | (q, Inr h) \<Rightarrow> (case get_take cb h q of (q, m) \<Rightarrow> (q, Inr m)))"

text \<open>\<open>get\<close> has no value while it waits for a message.\<close>

definition queue_get :: "('c, ('u, 'v) message) channel_ops \<Rightarrow> u32 \<Rightarrow> 'c queue \<Rightarrow>
    ('c queue \<times> (queue_error + ('u, 'v) message option)) option" where
  "queue_get cb iid q =
     (case get_wait iid q of
        (q, Inl e) \<Rightarrow> Some (q, Inl e)
      | (q, Inr h) \<Rightarrow> (case get_take cb h q of (q, None) \<Rightarrow> None | (q, Some m) \<Rightarrow> Some (q, Inr (Some m))))"

definition flow_of :: "u32 \<Rightarrow> 'c queue \<Rightarrow> flow_mark option" where
  "flow_of iid q = map_option (\<lambda>h. mark (ch_flow (q_heap q ! h))) (q_queues q iid)"

definition confirm :: "u32 \<Rightarrow> flow_mark \<Rightarrow> 'c queue \<Rightarrow> 'c queue" where
  "confirm iid mk q =
     (case q_queues q iid of
        None \<Rightarrow> q
      | Some h \<Rightarrow> q\<lparr>q_heap := (q_heap q)[h := ch_confirm mk (q_heap q ! h)]\<rparr>)"

text \<open>
  The receive loop of \<open>get_change\<close>, which keeps no account in the flow. It has no value while
  it waits for a message.
\<close>

partial_function (option) change_loop ::
  "('c, ('u, 'v) message) channel_ops \<Rightarrow> 'c \<Rightarrow> (('u, 'v) message \<times> 'c) option" where
  "change_loop cb c =
     (case cb_recv cb c of
        None \<Rightarrow> None
      | Some (m, c) \<Rightarrow> if is_change m then Some (m, c) else change_loop cb c)"

definition get_change :: "('c, ('u, 'v) message) channel_ops \<Rightarrow> u32 \<Rightarrow> 'c queue \<Rightarrow>
    ('c queue \<times> (queue_error + ('u, 'v) message)) option" where
  "get_change cb iid q =
     (case get_channel iid q of
        Inl e \<Rightarrow> Some (q, Inl e)
      | Inr h \<Rightarrow> (case change_loop cb (ch_chan (q_heap q ! h)) of
                   None \<Rightarrow> None
                 | Some (m, c) \<Rightarrow> Some (q\<lparr>q_heap := (q_heap q)[h := (q_heap q ! h)\<lparr>ch_chan := c\<rparr>]\<rparr>, Inr m)))"

text \<open>The two locks \<open>subscribe\<close> takes: the listener is registered first, its channel second.\<close>

definition add_listener :: "listener \<Rightarrow> 'c queue \<Rightarrow> 'c queue" where
  "add_listener l q = q\<lparr>q_listeners := q_listeners q @ [l]\<rparr>"

definition add_channel :: "('c, ('u, 'v) message) channel_ops \<Rightarrow> u32 \<Rightarrow> 'c queue \<Rightarrow> 'c queue" where
  "add_channel cb iid q =
     q\<lparr>q_heap := q_heap q @ [channel_new cb], q_queues := (q_queues q)(iid \<mapsto> length (q_heap q))\<rparr>"

definition subscribe :: "('c, ('u, 'v) message) channel_ops \<Rightarrow> u32 \<Rightarrow> string \<Rightarrow> 'c queue \<Rightarrow>
    'c queue \<times> (queue_error + unit)" where
  "subscribe cb iid name q =
     (if is_subscribed iid q then (q, Inl AlreadySubscribed)
      else (add_channel cb iid (add_listener \<lparr>ls_id = iid, ls_name = name, ls_internal = False\<rparr> q), Inr ()))"

text \<open>The search of \<open>subscribe_internal\<close> for the first free id; it wraps in \<open>u32\<close> as the code does.\<close>

partial_function (option) free_id :: "u32 \<Rightarrow> 'c queue \<Rightarrow> u32 option" where
  "free_id iid q = (if is_subscribed iid q then free_id (iid + 1) q else Some iid)"

definition subscribe_internal :: "('c, ('u, 'v) message) channel_ops \<Rightarrow> 'c queue \<Rightarrow> 'c queue option" where
  "subscribe_internal cb q =
     map_option (\<lambda>iid. add_channel cb iid (add_listener
       \<lparr>ls_id = iid, ls_name = ''Internal listener #'' @ show_nat (unat iid), ls_internal = True\<rparr> q)) (free_id 0 q)"

definition drop_listener :: "u32 \<Rightarrow> 'c queue \<Rightarrow> 'c queue" where
  "drop_listener iid q = q\<lparr>q_listeners := filter (\<lambda>l. ls_id l \<noteq> iid) (q_listeners q)\<rparr>"

definition drop_channel :: "u32 \<Rightarrow> 'c queue \<Rightarrow> 'c queue" where
  "drop_channel iid q = q\<lparr>q_queues := (q_queues q)(iid := None)\<rparr>"

definition unsubscribe :: "u32 \<Rightarrow> 'c queue \<Rightarrow> 'c queue \<times> (queue_error + unit)" where
  "unsubscribe iid q =
     (if is_subscribed iid q then (drop_channel iid (drop_listener iid q), Inr ()) else (q, Inl NotSubscribed))"

definition disconnect :: "('c, ('u, 'v) message) channel_ops \<Rightarrow> string \<Rightarrow> u32 \<Rightarrow> 'c queue \<Rightarrow>
    'c queue \<times> (queue_error + unit)" where
  "disconnect cb message iid q =
     (if is_subscribed iid q then push cb (Disconnect message) (Some iid) q else (q, Inl NotSubscribed))"

definition get_first_non_internal_listener_name :: "'c queue \<Rightarrow> string option" where
  "get_first_non_internal_listener_name q = map_option ls_name (find (\<lambda>l. \<not> ls_internal l) (q_listeners q))"

end
