(* ===== verification/QueueSafety.thy ===== *)
theory QueueSafety
  imports Queue
begin

text \<open>
  What the sync queue guarantees: delivery in order, the meaning of the flow counters, the
  agreement of the listener list with the channel map in every reachable state, broadcast to
  every listener, and what the separately locked halves of an operation leave open.
\<close>

section \<open>One channel\<close>

lemma unat_of_nat_u64: "n < 2 ^ 64 \<Longrightarrow> unat (of_nat n :: u64) = n"
  by (simp add: unat_of_nat)

lemma saturating_sub_of_nat:
  assumes "n \<le> m" "m < 2 ^ 64"
  shows "unat (saturating_sub (of_nat m) (of_nat n)) = m - n"
proof -
  have "(of_nat n :: u64) \<le> of_nat m" using assms by (simp add: word_le_nat_alt unat_of_nat_u64)
  then have "saturating_sub (of_nat m) (of_nat n) = of_nat (m - n)"
    using assms(1) by (simp add: saturating_sub_def)
  then show ?thesis using assms unat_of_nat_u64 [of "m - n"] by (metis diff_le_self order_le_less_trans)
qed

lemma channel_send:
  assumes "channel_laws cb contents"
  obtains c' where "cb_send cb m c = Some c'" "contents c' = contents c @ [m]"
  using assms unfolding channel_laws_def by blast

lemma channel_recv:
  assumes "channel_laws cb contents"
  shows "cb_recv cb c = None \<Longrightarrow> contents c = []"
    and "cb_recv cb c = Some (m, c') \<Longrightarrow> contents c = m # contents c'"
proof -
  have "case cb_recv cb c of None \<Rightarrow> contents c = [] | Some (m, c') \<Rightarrow> contents c = m # contents c'"
    using assms unfolding channel_laws_def by blast
  then show "cb_recv cb c = None \<Longrightarrow> contents c = []"
    and "cb_recv cb c = Some (m, c') \<Longrightarrow> contents c = m # contents c'" by simp_all
qed

datatype ('u, 'v) chan_event = CPush "('u, 'v) message" | CWait | CTake | CConfirm flow_mark

fun chan_exec :: "('c, ('u, 'v) message) channel_ops \<Rightarrow> ('u, 'v) chan_event \<Rightarrow> 'c channel \<Rightarrow> 'c channel" where
  "chan_exec cb (CPush m) ch = fst (ch_push cb m ch)"
| "chan_exec cb CWait ch = ch_wait ch"
| "chan_exec cb CTake ch = fst (ch_take cb ch)"
| "chan_exec cb (CConfirm mk) ch = ch_confirm mk ch"

text \<open>
  The history of a channel: the messages pushed to it, how many of them were taken, how many
  of those had been taken at the last wait, and the highest confirmed mark.
\<close>

record ('u, 'v) history =
  hs_log :: "('u, 'v) message list"
  hs_taken :: nat
  hs_settled :: nat
  hs_confirmed :: u64

definition history_new :: "('u, 'v) history" where
  "history_new = \<lparr>hs_log = [], hs_taken = 0, hs_settled = 0, hs_confirmed = 0\<rparr>"

fun hist_exec :: "('u, 'v) chan_event \<Rightarrow> ('u, 'v) history \<Rightarrow> ('u, 'v) history" where
  "hist_exec (CPush m) h = h\<lparr>hs_log := hs_log h @ [m]\<rparr>"
| "hist_exec CWait h = h\<lparr>hs_settled := hs_taken h\<rparr>"
| "hist_exec CTake h = (if hs_taken h < length (hs_log h) then h\<lparr>hs_taken := Suc (hs_taken h)\<rparr> else h)"
| "hist_exec (CConfirm mk) h = h\<lparr>hs_confirmed := max (hs_confirmed h) (fm_settled_changes mk)\<rparr>"

definition carried :: "('u, 'v) message list \<Rightarrow> nat" where
  "carried ms = sum_list (map (\<lambda>m. case m of SyncChanges c \<Rightarrow> changes_total c | _ \<Rightarrow> 0) ms)"

definition in_range :: "('u, 'v) message list \<Rightarrow> bool" where
  "in_range ms \<longleftrightarrow> length ms < 2 ^ 64 \<and> carried ms < 2 ^ 64"

text \<open>The flow a history stands for.\<close>

definition flow_for :: "('u, 'v) history \<Rightarrow> flow" where
  "flow_for h = \<lparr>fl_pushed = of_nat (length (hs_log h)), fl_pushed_changes = of_nat (carried (hs_log h)),
     fl_taken = of_nat (hs_taken h), fl_taken_changes = of_nat (carried (take (hs_taken h) (hs_log h))),
     fl_settled = of_nat (hs_settled h), fl_settled_changes = of_nat (carried (take (hs_settled h) (hs_log h))),
     fl_confirmed_changes = hs_confirmed h\<rparr>"

definition history_ok :: "('u, 'v) history \<Rightarrow> bool" where
  "history_ok h \<longleftrightarrow> hs_settled h \<le> hs_taken h \<and> hs_taken h \<le> length (hs_log h)"

lemma carried_append [simp]: "carried (xs @ ys) = carried xs + carried ys"
  by (simp add: carried_def)

lemma carried_take_mono: "i \<le> j \<Longrightarrow> carried (take i xs) \<le> carried (take j xs)"
  by (metis carried_append le_add1 le_add_diff_inverse take_add)

lemma carried_take_le: "carried (take i xs) \<le> carried xs"
  using carried_take_mono [of i "max i (length xs)" xs] by simp

lemma change_count_carried: "change_count m = of_nat (carried [m])"
  by (auto simp: change_count_def carried_def split: message.splits)

lemma max_of_nat_word:
  "m \<le> n \<Longrightarrow> n < 2 ^ 64 \<Longrightarrow> max (of_nat m :: u64) (of_nat n) = of_nat n"
  by (rule max_absorb2) (simp add: word_le_nat_alt unat_of_nat_u64)

lemma in_range_prefix: "in_range (xs @ ys) \<Longrightarrow> in_range xs"
  by (auto simp: in_range_def)

lemma hist_exec_ok: "history_ok h \<Longrightarrow> history_ok (hist_exec e h)"
  by (cases e) (auto simp: history_ok_def)

lemma hist_exec_log: "\<exists>ms. hs_log (hist_exec e h) = hs_log h @ ms"
  by (cases e) auto

lemma fold_hist_log: "\<exists>ms. hs_log (fold hist_exec es h) = hs_log h @ ms"
proof (induction es arbitrary: h)
  case (Cons e es)
  then show ?case using hist_exec_log [of e h] by (metis append_assoc fold_simps(2))
qed simp

lemma fold_hist_ok: "history_ok h \<Longrightarrow> history_ok (fold hist_exec es h)"
  by (induction es arbitrary: h) (auto intro: hist_exec_ok)

lemma chan_exec_refines:
  assumes laws: "channel_laws cb contents" and ok: "history_ok h" and rng: "in_range (hs_log (hist_exec e h))"
    and flow: "ch_flow ch = flow_for h" and cont: "contents (ch_chan ch) = drop (hs_taken h) (hs_log h)"
  shows "ch_flow (chan_exec cb e ch) = flow_for (hist_exec e h) \<and>
    contents (ch_chan (chan_exec cb e ch)) = drop (hs_taken (hist_exec e h)) (hs_log (hist_exec e h))"
proof (cases e)
  case (CPush m)
  obtain c' where "cb_send cb m (ch_chan ch) = Some c'" "contents c' = contents (ch_chan ch) @ [m]"
    using channel_send [OF laws] .
  with CPush flow cont ok show ?thesis
    by (simp add: ch_push_def on_push_def flow_for_def change_count_carried history_ok_def)
next
  case CWait
  have "hs_taken h < 2 ^ 64" "carried (take (hs_taken h) (hs_log h)) < 2 ^ 64"
    using ok rng CWait carried_take_le [of "hs_taken h" "hs_log h"]
    by (auto simp: history_ok_def in_range_def)
  then show ?thesis
    using CWait flow cont ok
    by (simp add: ch_wait_def on_wait_def flow_for_def history_ok_def max_of_nat_word carried_take_mono)
next
  case CTake
  show ?thesis
  proof (cases "cb_recv cb (ch_chan ch)")
    case None
    then have "contents (ch_chan ch) = []" by (rule channel_recv(1) [OF laws])
    with None CTake flow cont show ?thesis by (simp add: ch_take_def)
  next
    case (Some mc)
    obtain m c where mc: "mc = (m, c)" by (cases mc)
    have "contents (ch_chan ch) = m # contents c" using Some mc channel_recv(2) [OF laws] by simp
    then have split: "drop (hs_taken h) (hs_log h) = m # contents c" using cont by simp
    then have lt: "hs_taken h < length (hs_log h)" by (metis drop_eq_Nil linorder_not_le list.distinct(1))
    then have "hs_log h ! hs_taken h = m" "drop (Suc (hs_taken h)) (hs_log h) = contents c"
      using split Cons_nth_drop_Suc [OF lt] by auto
    then show ?thesis
      using CTake Some mc lt flow
      by (simp add: ch_take_def on_take_def flow_for_def change_count_carried take_Suc_conv_app_nth)
  qed
next
  case (CConfirm mk)
  then show ?thesis using flow cont by (simp add: ch_confirm_def flow_for_def)
qed

lemma chan_run_refines:
  assumes laws: "channel_laws cb contents"
  shows "history_ok h \<Longrightarrow> in_range (hs_log (fold hist_exec es h)) \<Longrightarrow> ch_flow ch = flow_for h \<Longrightarrow>
    contents (ch_chan ch) = drop (hs_taken h) (hs_log h) \<Longrightarrow>
    ch_flow (fold (chan_exec cb) es ch) = flow_for (fold hist_exec es h) \<and>
    contents (ch_chan (fold (chan_exec cb) es ch)) =
      drop (hs_taken (fold hist_exec es h)) (hs_log (fold hist_exec es h))"
proof (induction es arbitrary: ch h)
  case (Cons e es)
  obtain ms where "hs_log (fold hist_exec es (hist_exec e h)) = hs_log (hist_exec e h) @ ms"
    using fold_hist_log by blast
  then have "in_range (hs_log (hist_exec e h))" using Cons.prems(2) in_range_prefix by simp
  note step = chan_exec_refines [OF laws Cons.prems(1) this Cons.prems(3,4)]
  show ?case
    using Cons.IH [OF hist_exec_ok [OF Cons.prems(1)], of e "chan_exec cb e ch"] Cons.prems(2) step by simp
qed simp

lemma chan_new_refines:
  assumes laws: "channel_laws cb contents" and rng: "in_range (hs_log (fold hist_exec es history_new))"
  shows "ch_flow (fold (chan_exec cb) es (channel_new cb)) = flow_for (fold hist_exec es history_new) \<and>
    contents (ch_chan (fold (chan_exec cb) es (channel_new cb))) =
      drop (hs_taken (fold hist_exec es history_new)) (hs_log (fold hist_exec es history_new))"
proof (rule chan_run_refines [OF laws _ rng])
  show "contents (ch_chan (channel_new cb)) = drop (hs_taken history_new) (hs_log history_new)"
    using laws by (simp add: channel_laws_def channel_new_def history_new_def)
qed (simp_all add: history_ok_def history_new_def channel_new_def flow_default_def flow_for_def carried_def)

text \<open>
  C11: The delivery accounting of a listener is exact. After any sequence of pushes, waits,
  takes and confirmations on a fresh channel, and as long as no 64-bit counter wraps, the
  channel still holds exactly the messages not yet taken, in order; the messages settled are
  the ones taken before the consumer last came back; and \<open>queued_changes\<close> is the number of
  changes carried by the messages pushed but not settled.
\<close>

theorem flow_accounting:
  assumes "channel_laws cb contents" "h = fold hist_exec es history_new" "in_range (hs_log h)"
  shows "let ch = fold (chan_exec cb) es (channel_new cb) in
    contents (ch_chan ch) = drop (hs_taken h) (hs_log h) \<and>
    hs_settled h \<le> hs_taken h \<and> hs_taken h \<le> length (hs_log h) \<and>
    unat (fm_pushed (mark (ch_flow ch))) = length (hs_log h) \<and>
    unat (fm_settled (mark (ch_flow ch))) = hs_settled h \<and>
    unat (queued_changes (mark (ch_flow ch))) = carried (drop (hs_settled h) (hs_log h))"
proof -
  have ok: "history_ok h" unfolding assms(2) by (rule fold_hist_ok) (simp add: history_ok_def history_new_def)
  have run: "ch_flow (fold (chan_exec cb) es (channel_new cb)) = flow_for h \<and>
      contents (ch_chan (fold (chan_exec cb) es (channel_new cb))) = drop (hs_taken h) (hs_log h)"
    using chan_new_refines [OF assms(1), of es] assms(2,3) by simp
  let ?a = "carried (hs_log h)" and ?b = "carried (take (hs_settled h) (hs_log h))"
  have sum: "?a = ?b + carried (drop (hs_settled h) (hs_log h))"
    by (metis append_take_drop_id carried_append)
  have "?a < 2 ^ 64" "?b \<le> ?a"
    using assms(3) carried_take_le [of "hs_settled h" "hs_log h"] by (auto simp: in_range_def)
  from saturating_sub_of_nat [OF this(2,1)]
  have "unat (saturating_sub (of_nat ?a) (of_nat ?b)) = carried (drop (hs_settled h) (hs_log h))"
    using sum by linarith
  then show ?thesis
    using run ok assms(3)
    by (simp add: Let_def mark_def queued_changes_def flow_for_def history_ok_def in_range_def unat_of_nat_u64)
qed

text \<open>A channel of the witnesses: the list of its messages.\<close>

definition list_channel :: "('m list, 'm) channel_ops" where
  "list_channel = \<lparr>cb_unbounded = [], cb_send = (\<lambda>m c. Some (c @ [m])),
     cb_recv = (\<lambda>c. case c of [] \<Rightarrow> None | m # c \<Rightarrow> Some (m, c))\<rparr>"

lemma list_channel_laws: "channel_laws list_channel (\<lambda>c. c)"
  by (auto simp: channel_laws_def list_channel_def split: list.splits)

theorem flow_accounting_witness:
  "let ch = fold (chan_exec (list_channel :: (_, (unit, unit) message) channel_ops)) [CPush (SyncChanges \<lparr>additions = [], updates = [], removals = [1, 2, 3]\<rparr>),
       CPush (SyncChanges \<lparr>additions = [], updates = [], removals = [4, 5]\<rparr>), CWait, CTake, CWait, CTake]
       (channel_new list_channel)
   in unat (queued_changes (mark (ch_flow ch))) = 2 \<and> unat (fm_settled (mark (ch_flow ch))) = 1"
proof -
  let ?es = "[CPush (SyncChanges \<lparr>additions = [], updates = [], removals = [1, 2, 3]\<rparr>),
       CPush (SyncChanges \<lparr>additions = [], updates = [], removals = [4, 5]\<rparr>), CWait, CTake, CWait, CTake]"
  have "in_range (hs_log (fold hist_exec ?es (history_new :: (unit, unit) history)))"
    by (simp add: in_range_def history_new_def carried_def changes_total_def)
  from flow_accounting [OF list_channel_laws refl this]
  show ?thesis by (simp add: Let_def history_new_def carried_def changes_total_def)
qed

section \<open>The queue\<close>

subsection \<open>Listeners and channels agree\<close>

definition queue_ok :: "'c queue \<Rightarrow> bool" where
  "queue_ok q \<longleftrightarrow> distinct (map ls_id (q_listeners q)) \<and>
     dom (q_queues q) = ls_id ` set (q_listeners q) \<and>
     inj_on (q_queues q) (dom (q_queues q)) \<and>
     (\<forall>iid h. q_queues q iid = Some h \<longrightarrow> h < length (q_heap q))"

lemma is_subscribed_iff: "is_subscribed iid q \<longleftrightarrow> iid \<in> ls_id ` set (q_listeners q)"
  by (auto simp: is_subscribed_def list_ex_iff)

lemma queue_ok_subscribed:
  assumes "queue_ok q" "is_subscribed iid q"
  obtains h where "q_queues q iid = Some h" "h < length (q_heap q)"
  using assms unfolding queue_ok_def is_subscribed_iff by blast

lemma queue_ok_new: "queue_ok queue_new"
  by (simp add: queue_ok_def queue_new_def)

lemma queue_ok_heap: "length hp = length (q_heap q) \<Longrightarrow> queue_ok (q\<lparr>q_heap := hp\<rparr>) = queue_ok q"
  by (simp add: queue_ok_def)

lemma get_channel_ok:
  assumes "queue_ok q"
  shows "get_channel iid q \<noteq> Inl Panic"
proof
  assume "get_channel iid q = Inl Panic"
  then have "is_subscribed iid q" "q_queues q iid = None"
    by (auto simp: get_channel_def unwrap_channel_def split: if_splits option.splits)
  then show False using queue_ok_subscribed [OF assms, of iid] by auto
qed

text \<open>A push changes no more of the queue than the contents and counters of the channels.\<close>

definition same_listeners :: "'c queue \<Rightarrow> 'c queue \<Rightarrow> bool" where
  "same_listeners q q' \<longleftrightarrow> q_queues q' = q_queues q \<and> q_listeners q' = q_listeners q \<and>
     q_unsynced q' = q_unsynced q \<and> length (q_heap q') = length (q_heap q)"

lemma same_listeners_refl [simp]: "same_listeners q q"
  by (simp add: same_listeners_def)

lemma same_listeners_trans: "same_listeners q q' \<Longrightarrow> same_listeners q' q'' \<Longrightarrow> same_listeners q q''"
  by (simp add: same_listeners_def)

lemma same_listeners_ok: "same_listeners q q' \<Longrightarrow> queue_ok q' = queue_ok q"
  by (simp add: same_listeners_def queue_ok_def)

lemma push_handle_frame: "same_listeners q (fst (push_handle cb m h q))"
  by (simp add: push_handle_def same_listeners_def split: prod.splits)

lemma push_handle_error: "snd (push_handle cb m h q) \<noteq> Inl Panic"
  by (simp add: push_handle_def ch_push_def Let_def split: prod.splits option.splits)

lemma push_all_Cons:
  "push_all cb m (l # ls) q =
     (case unwrap_channel (ls_id l) q of
        Inl e \<Rightarrow> (q, Inl e)
      | Inr h \<Rightarrow> (case snd (push_handle cb m h q) of
                   Inl e \<Rightarrow> (fst (push_handle cb m h q), Inl e)
                 | Inr _ \<Rightarrow> push_all cb m ls (fst (push_handle cb m h q))))"
  by (simp split: sum.splits prod.splits)

lemma push_all_frame: "same_listeners q (fst (push_all cb m ls q))"
proof (induction ls arbitrary: q)
  case (Cons l ls)
  then show ?case
    using same_listeners_trans push_handle_frame
    unfolding push_all_Cons by (fastforce split: sum.splits)
qed simp

lemma push_all_no_panic:
  "\<forall>l\<in>set ls. q_queues q (ls_id l) \<noteq> None \<Longrightarrow> snd (push_all cb m ls q) \<noteq> Inl Panic"
proof (induction ls arbitrary: q)
  case (Cons l ls)
  obtain h where h: "unwrap_channel (ls_id l) q = Inr h" using Cons.prems by (auto simp: unwrap_channel_def)
  have "q_queues (fst (push_handle cb m h q)) = q_queues q"
    using push_handle_frame [of q cb m h] by (simp add: same_listeners_def)
  then show ?case
    using Cons push_handle_error [of cb m h q]
    unfolding push_all_Cons h by (cases "snd (push_handle cb m h q)") auto
qed simp

lemma push_ok:
  assumes "queue_ok q"
  shows "queue_ok (fst (push cb m target q)) \<and> snd (push cb m target q) \<noteq> Inl Panic"
proof (cases target)
  case None
  obtain q' r where p: "push_all cb m (q_listeners q) q = (q', r)" by fastforce
  have "\<forall>l\<in>set (q_listeners q). q_queues q (ls_id l) \<noteq> None"
    using assms unfolding queue_ok_def by blast
  from push_all_no_panic [OF this] have "r \<noteq> Inl Panic" using p by (metis snd_conv)
  moreover have "queue_ok q'" using same_listeners_ok [OF push_all_frame] p assms by (metis fst_conv)
  ultimately show ?thesis
    using None p by (cases r) (auto simp: push_def queue_ok_def)
next
  case (Some iid)
  show ?thesis
  proof (cases "get_channel iid q")
    case (Inl e)
    then show ?thesis using Some assms get_channel_ok [OF assms, of iid] by (simp add: push_def)
  next
    case (Inr h)
    then show ?thesis
      using Some assms same_listeners_ok [OF push_handle_frame [of q cb m h]] push_handle_error [of cb m h q] by (simp add: push_def)
  qed
qed

lemma add_pair_ok:
  assumes "queue_ok q" "\<not> is_subscribed (ls_id l) q"
  shows "queue_ok (add_channel cb (ls_id l) (add_listener l q))"
proof -
  let ?n = "length (q_heap q)"
  have dom: "ls_id l \<notin> dom (q_queues q)"
    using assms by (simp add: queue_ok_def is_subscribed_iff)
  have below: "q_queues q iid = Some h \<Longrightarrow> h < ?n" for iid h using assms(1) by (simp add: queue_ok_def)
  then have "Some ?n \<notin> q_queues q ` dom (q_queues q)" by (auto simp: image_iff) (metis less_irrefl)
  then have "inj_on ((q_queues q)(ls_id l \<mapsto> ?n)) (insert (ls_id l) (dom (q_queues q)))"
    using assms(1) dom unfolding queue_ok_def by (auto simp: inj_on_def)
  then show ?thesis
    using assms below
    by (auto simp: queue_ok_def add_channel_def add_listener_def is_subscribed_iff image_iff less_SucI
        split: if_splits)
qed

lemma unsubscribe_ok:
  assumes "queue_ok q"
  shows "queue_ok (fst (unsubscribe iid q))"
proof -
  have "inj_on ((q_queues q)(iid := None)) (dom (q_queues q) - {iid})"
    using assms unfolding queue_ok_def by (auto simp: inj_on_def)
  then show ?thesis
    using assms by (auto simp: queue_ok_def unsubscribe_def drop_channel_def drop_listener_def
        distinct_map_filter split: if_splits)
qed

subsection \<open>The search for a free internal id\<close>

text \<open>
  \<open>free_id\<close> stops at the first id that is not subscribed; there is one as long as fewer than
  \<open>2\<^sup>3\<^sup>2\<close> listeners are.
\<close>

lemma free_id_least:
  assumes "\<not> is_subscribed (of_nat (i + d)) q" "\<forall>j<d. is_subscribed (of_nat (i + j)) q"
  shows "free_id (of_nat i) q = Some (of_nat (i + d))"
  using assms
proof (induction d arbitrary: i)
  case 0
  then show ?case by (simp add: free_id.simps)
next
  case (Suc d)
  have "free_id (of_nat (Suc i)) q = Some (of_nat (Suc i + d))"
    using Suc.prems by (intro Suc.IH) (auto simp: add.assoc [symmetric] simp flip: add_Suc_right)
  moreover have "is_subscribed (of_nat i) q" using Suc.prems(2) [rule_format, of 0] by simp
  ultimately show ?case by (simp add: free_id.simps [of "of_nat i"] add.commute)
qed

lemma free_id_exists:
  assumes "length (q_listeners q) < 2 ^ 32"
  obtains d where "d < 2 ^ 32" "\<not> is_subscribed (of_nat d) q" "\<forall>j<d. is_subscribed (of_nat j) q"
proof -
  have "card (ls_id ` set (q_listeners q)) < 2 ^ 32"
    using assms by (metis card_image_le card_length le_trans linorder_not_le List.finite_set)
  then have "ls_id ` set (q_listeners q) \<noteq> UNIV" by (auto simp: card_word)
  then obtain iid where "\<not> is_subscribed iid q" by (auto simp: is_subscribed_iff)
  then have ex: "\<not> is_subscribed (of_nat (unat iid)) q" by simp
  let ?d = "LEAST d. \<not> is_subscribed (of_nat d) q"
  have "?d \<le> unat iid" by (rule Least_le) (rule ex)
  also have "unat iid < 2 ^ 32" using unsigned_less [of iid] by simp
  finally have "?d < 2 ^ 32" .
  moreover have "\<not> is_subscribed (of_nat ?d) q" by (rule LeastI) (rule ex)
  moreover have "\<forall>j<?d. is_subscribed (of_nat j) q" using not_less_Least by blast
  ultimately show ?thesis by (rule that)
qed

text \<open>
  The loop of \<open>subscribe_internal\<close> ends with the smallest id no listener holds, as long
  as fewer than \<open>2\<^sup>3\<^sup>2\<close> listeners exist, and the new internal listener then has a channel.
\<close>

theorem subscribe_internal_smallest:
  assumes "queue_ok q" "length (q_listeners q) < 2 ^ 32"
  shows "\<exists>d q'. d < 2 ^ 32 \<and> \<not> is_subscribed (of_nat d) q \<and> (\<forall>j<d. is_subscribed (of_nat j) q) \<and>
    subscribe_internal cb q = Some q' \<and> queue_ok q' \<and> is_subscribed (of_nat d) q' \<and>
    flow_of (of_nat d) q' = Some (mark flow_default)"
proof -
  obtain d where d: "d < 2 ^ 32" "\<not> is_subscribed (of_nat d) q" "\<forall>j<d. is_subscribed (of_nat j) q"
    using free_id_exists [OF assms(2)] .
  let ?l = "\<lparr>ls_id = of_nat d, ls_name = ''Internal listener #'' @ show_nat (unat (of_nat d :: u32)), ls_internal = True\<rparr>"
  have "free_id 0 q = Some (of_nat d)" using free_id_least [of 0 d q] d by simp
  then have sub: "subscribe_internal cb q = Some (add_channel cb (of_nat d) (add_listener ?l q))"
    by (simp add: subscribe_internal_def)
  moreover have "queue_ok (add_channel cb (of_nat d) (add_listener ?l q))"
    using add_pair_ok [OF assms(1), of ?l cb] d(2) by simp
  ultimately show ?thesis
    using d by (auto simp: add_channel_def add_listener_def flow_of_def is_subscribed_def channel_new_def
        nth_append intro!: exI [of _ d])
qed

theorem subscribe_internal_smallest_witness:
  "\<exists>q'. subscribe_internal (list_channel :: (_, (unit, unit) message) channel_ops) queue_new = Some q' \<and> queue_ok q'"
  using subscribe_internal_smallest [OF queue_ok_new,
      of "list_channel :: (_, (unit, unit) message) channel_ops"]
  by (auto simp: queue_new_def)

subsection \<open>Every reachable state\<close>

datatype ('u, 'v) queue_event = QPush "('u, 'v) message" "u32 option" | QWait u32 | QTake nat
  | QConfirm u32 flow_mark | QChange u32 | QSubscribe u32 string | QInternal | QUnsubscribe u32
  | QDisconnect string u32

text \<open>
  One operation of the queue: the new state and the error it ended with. A \<open>get_change\<close> or a
  \<open>subscribe_internal\<close> that does not return changes nothing. \<open>get\<close> and \<open>get_timeout\<close> are the two
  events \<open>QWait\<close> and \<open>QTake\<close>, so that other operations may come between them.
\<close>

fun queue_exec :: "('c, ('u, 'v) message) channel_ops \<Rightarrow> ('u, 'v) queue_event \<Rightarrow> 'c queue \<Rightarrow>
    'c queue \<times> queue_error option" where
  "queue_exec cb (QPush m t) q = (case push cb m t q of (q', r) \<Rightarrow> (q', case r of Inl e \<Rightarrow> Some e | Inr _ \<Rightarrow> None))"
| "queue_exec cb (QWait i) q = (case get_wait i q of (q', r) \<Rightarrow> (q', case r of Inl e \<Rightarrow> Some e | Inr _ \<Rightarrow> None))"
| "queue_exec cb (QTake h) q = (fst (get_take cb h q), None)"
| "queue_exec cb (QConfirm i mk) q = (confirm i mk q, None)"
| "queue_exec cb (QChange i) q =
     (case get_change cb i q of None \<Rightarrow> (q, None) | Some (q', r) \<Rightarrow> (q', case r of Inl e \<Rightarrow> Some e | Inr _ \<Rightarrow> None))"
| "queue_exec cb (QSubscribe i n) q = (case subscribe cb i n q of (q', r) \<Rightarrow> (q', case r of Inl e \<Rightarrow> Some e | Inr _ \<Rightarrow> None))"
| "queue_exec cb QInternal q = (case subscribe_internal cb q of None \<Rightarrow> (q, None) | Some q' \<Rightarrow> (q', None))"
| "queue_exec cb (QUnsubscribe i) q = (case unsubscribe i q of (q', r) \<Rightarrow> (q', case r of Inl e \<Rightarrow> Some e | Inr _ \<Rightarrow> None))"
| "queue_exec cb (QDisconnect t i) q = (case disconnect cb t i q of (q', r) \<Rightarrow> (q', case r of Inl e \<Rightarrow> Some e | Inr _ \<Rightarrow> None))"

lemma free_id_result:
  assumes "free_id i q = Some iid"
  shows "\<not> is_subscribed iid q"
  by (rule free_id.raw_induct [OF _ assms]) (auto split: if_splits)

lemma queue_exec_ok:
  assumes "queue_ok q"
  shows "queue_ok (fst (queue_exec cb e q)) \<and> snd (queue_exec cb e q) \<noteq> Some Panic"
proof (cases e)
  case (QPush m t)
  then show ?thesis using push_ok [OF assms, of cb m t] by (auto split: prod.splits sum.splits)
next
  case (QWait i)
  then show ?thesis
    using assms get_channel_ok [OF assms, of i]
    by (auto simp: get_wait_def queue_ok_heap split: sum.splits)
next
  case (QTake h)
  then show ?thesis using assms by (simp add: get_take_def queue_ok_heap split: prod.splits)
next
  case (QConfirm i mk)
  then show ?thesis using assms by (simp add: confirm_def queue_ok_heap split: option.splits)
next
  case (QChange i)
  then show ?thesis
    using assms get_channel_ok [OF assms, of i]
    by (auto simp: get_change_def queue_ok_heap split: sum.splits option.splits)
next
  case (QSubscribe i n)
  then show ?thesis
    using assms add_pair_ok [OF assms, of "\<lparr>ls_id = i, ls_name = n, ls_internal = False\<rparr>" cb]
    by (auto simp: subscribe_def)
next
  case QInternal
  then show ?thesis
    using assms add_pair_ok [OF assms, of _ cb] free_id_result [of 0 q]
    by (auto simp: subscribe_internal_def split: option.splits)
       (metis listener.select_convs(1))
next
  case (QUnsubscribe i)
  then show ?thesis using unsubscribe_ok [OF assms, of i] by (auto simp: unsubscribe_def)
next
  case (QDisconnect t i)
  then show ?thesis
    using assms push_ok [OF assms, of cb "Disconnect t" "Some i"]
    by (auto simp: disconnect_def split: prod.splits sum.splits)
qed

interpretation qm: invariant_system "\<lambda>q. q = queue_new" "\<lambda>q q'. \<exists>e. q' = fst (queue_exec cb e q)" queue_ok
  for cb :: "('c, ('u, 'v) message) channel_ops"
  using queue_exec_ok queue_ok_new by unfold_locales blast+

text \<open>
  In every state the queue reaches by any sequence of operations, including consumers that
  wait while others subscribe, unsubscribe and push, the listener ids are distinct, exactly
  the listeners have a channel, no two listeners share one, and no operation hits the
  \<open>unwrap\<close> of a missing channel.
\<close>

theorem queue_reachable_ok:
  assumes "(\<lambda>q q'. \<exists>e. q' = fst (queue_exec cb e q))\<^sup>*\<^sup>* queue_new q"
  shows "distinct (map ls_id (q_listeners q)) \<and> dom (q_queues q) = ls_id ` set (q_listeners q) \<and>
    inj_on (q_queues q) (dom (q_queues q)) \<and> snd (queue_exec cb e q) \<noteq> Some Panic"
  using qm.reachable_inv [OF refl assms] queue_exec_ok [of q cb e] by (auto simp: queue_ok_def)

theorem queue_reachable_ok_witness:
  "snd (queue_exec (list_channel :: (_, (unit, unit) message) channel_ops) (QPush SyncbackChanges None)
     (fst (queue_exec list_channel (QSubscribe 7 ''plugin'') queue_new))) \<noteq> Some Panic"
  using queue_reachable_ok [of "list_channel :: (_, (unit, unit) message) channel_ops"
      "fst (queue_exec list_channel (QSubscribe 7 ''plugin'') queue_new)" "QPush SyncbackChanges None",
      OF r_into_rtranclp [of _ queue_new]]
  by blast

subsection \<open>Delivery\<close>

lemma push_handle_delivers:
  assumes "channel_laws cb contents" "h < length (q_heap q)"
  shows "snd (push_handle cb m h q) = Inr () \<and>
    (\<forall>j<length (q_heap q). contents (ch_chan (q_heap (fst (push_handle cb m h q)) ! j)) =
       contents (ch_chan (q_heap q ! j)) @ (if j = h then [m] else []))"
proof -
  obtain c' where "cb_send cb m (ch_chan (q_heap q ! h)) = Some c'" "contents c' = contents (ch_chan (q_heap q ! h)) @ [m]"
    using channel_send [OF assms(1)] .
  then show ?thesis
    using assms(2) by (simp add: push_handle_def ch_push_def Let_def nth_list_update)
qed

lemma push_all_delivers:
  assumes "channel_laws cb contents"
  shows "queue_ok q \<Longrightarrow> distinct (map ls_id ls) \<Longrightarrow> set ls \<subseteq> set (q_listeners q) \<Longrightarrow>
    snd (push_all cb m ls q) = Inr () \<and>
    (\<forall>j<length (q_heap q). contents (ch_chan (q_heap (fst (push_all cb m ls q)) ! j)) =
       contents (ch_chan (q_heap q ! j)) @ (if \<exists>l\<in>set ls. q_queues q (ls_id l) = Some j then [m] else []))"
proof (induction ls arbitrary: q)
  case (Cons l ls)
  have "is_subscribed (ls_id l) q" using Cons.prems(3) by (auto simp: is_subscribed_iff)
  then obtain h where h: "q_queues q (ls_id l) = Some h" "h < length (q_heap q)"
    using queue_ok_subscribed [OF Cons.prems(1)] by blast
  let ?q1 = "fst (push_handle cb m h q)"
  have fr: "same_listeners q ?q1" by (rule push_handle_frame)
  have "set ls \<subseteq> set (q_listeners ?q1)" using fr Cons.prems(3) by (simp add: same_listeners_def)
  note IH = Cons.IH [of ?q1, OF _ _ this]
  have ih: "snd (push_all cb m ls ?q1) = Inr () \<and> (\<forall>j<length (q_heap q).
      contents (ch_chan (q_heap (fst (push_all cb m ls ?q1)) ! j)) = contents (ch_chan (q_heap ?q1 ! j)) @
        (if \<exists>l\<in>set ls. q_queues q (ls_id l) = Some j then [m] else []))"
    using IH fr Cons.prems(1,2) same_listeners_ok [OF fr] by (simp add: same_listeners_def)
  have other: "q_queues q (ls_id l') \<noteq> Some h" if "l' \<in> set ls" for l'
  proof
    assume "q_queues q (ls_id l') = Some h"
    then have "ls_id l' = ls_id l"
      using Cons.prems(1) h unfolding queue_ok_def by (metis domI inj_onD)
    then show False using Cons.prems(2) that by (metis distinct.simps(2) image_eqI list.map(2) set_map)
  qed
  have un: "unwrap_channel (ls_id l) q = Inr h" using h by (simp add: unwrap_channel_def)
  note one = push_handle_delivers [OF assms h(2), of m]
  show ?case
  proof (intro conjI allI impI)
    show "snd (push_all cb m (l # ls) q) = Inr ()" unfolding push_all_Cons un using one ih by simp
    fix j assume j: "j < length (q_heap q)"
    have "contents (ch_chan (q_heap (fst (push_all cb m (l # ls) q)) ! j)) =
        contents (ch_chan (q_heap (fst (push_all cb m ls ?q1)) ! j))"
      unfolding push_all_Cons un using one by simp
    also have "\<dots> = contents (ch_chan (q_heap q ! j)) @ (if j = h then [m] else []) @
        (if \<exists>l\<in>set ls. q_queues q (ls_id l) = Some j then [m] else [])"
      using ih one j by simp
    also have "\<dots> = contents (ch_chan (q_heap q ! j)) @
        (if \<exists>l'\<in>set (l # ls). q_queues q (ls_id l') = Some j then [m] else [])"
      using other h by auto
    finally show "contents (ch_chan (q_heap (fst (push_all cb m (l # ls) q)) ! j)) =
        contents (ch_chan (q_heap q ! j)) @
        (if \<exists>l'\<in>set (l # ls). q_queues q (ls_id l') = Some j then [m] else [])" .
  qed
qed simp

text \<open>
  A broadcast succeeds and reaches every listener exactly once: the message is appended to
  the channel of each listener and to no other channel. Only a broadcast with no listener at
  all counts as an unsynced change.
\<close>

theorem broadcast_reaches_all:
  assumes "channel_laws cb contents" "queue_ok q" "push cb m None q = (q', r)"
  shows "r = Inr () \<and>
    (\<forall>j<length (q_heap q). contents (ch_chan (q_heap q' ! j)) =
       contents (ch_chan (q_heap q ! j)) @ (if Some j \<in> range (q_queues q) then [m] else [])) \<and>
    q_unsynced q' = (if q_listeners q = [] then q_unsynced q + 1 else q_unsynced q)"
proof -
  have d: "distinct (map ls_id (q_listeners q))" using assms(2) by (simp add: queue_ok_def)
  have rng: "(\<exists>l\<in>set (q_listeners q). q_queues q (ls_id l) = Some j) \<longleftrightarrow> Some j \<in> range (q_queues q)" for j
  proof
    assume "Some j \<in> range (q_queues q)"
    then obtain iid where iid: "q_queues q iid = Some j" by (metis rangeE)
    then have "iid \<in> ls_id ` set (q_listeners q)" using assms(2) by (metis domI queue_ok_def)
    then show "\<exists>l\<in>set (q_listeners q). q_queues q (ls_id l) = Some j" using iid by auto
  qed (metis rangeI)
  obtain q1 r1 where p: "push_all cb m (q_listeners q) q = (q1, r1)" by fastforce
  have fr: "q_listeners q1 = q_listeners q" "q_unsynced q1 = q_unsynced q"
    using push_all_frame [of q cb m "q_listeners q"] p by (simp_all add: same_listeners_def)
  have del: "r1 = Inr ()" "\<forall>j<length (q_heap q). contents (ch_chan (q_heap q1 ! j)) =
      contents (ch_chan (q_heap q ! j)) @ (if Some j \<in> range (q_queues q) then [m] else [])"
    using push_all_delivers [OF assms(1,2) d subset_refl, of m] unfolding p rng by simp_all
  have "q' = (if q_listeners q = [] then q1\<lparr>q_unsynced := q_unsynced q1 + 1\<rparr> else q1)" "r = Inr ()"
    using assms(3) p del(1) fr(1) by (simp_all add: push_def)
  then show ?thesis using del(2) fr by simp
qed

theorem broadcast_reaches_all_witness:
  "let q = fst (subscribe list_channel 7 ''b'' (fst (subscribe list_channel 3 ''a'' queue_new)));
       q' = fst (push list_channel (SyncbackChanges :: (unit, unit) message) None q)
   in ch_chan (q_heap q' ! 0) = [SyncbackChanges] \<and> ch_chan (q_heap q' ! 1) = [SyncbackChanges]"
proof -
  let ?q = "fst (subscribe list_channel 7 ''b'' (fst (subscribe list_channel 3 ''a'' queue_new)))
      :: (unit, unit) message list queue"
  have q: "?q = \<lparr>q_heap = [channel_new list_channel, channel_new list_channel],
      q_queues = [3 \<mapsto> 0, 7 \<mapsto> 1], q_listeners = [\<lparr>ls_id = 3, ls_name = ''a'', ls_internal = False\<rparr>,
        \<lparr>ls_id = 7, ls_name = ''b'', ls_internal = False\<rparr>], q_unsynced = 0\<rparr>"
    by (simp add: subscribe_def is_subscribed_def queue_new_def add_channel_def add_listener_def)
  have "queue_ok ?q" unfolding q by (auto simp: queue_ok_def inj_on_def split: if_splits)
  from broadcast_reaches_all [OF list_channel_laws this prod.collapse [symmetric], of SyncbackChanges]
  show ?thesis unfolding q
    by (auto simp: Let_def channel_new_def list_channel_def image_iff)
qed

lemma change_loop_finds:
  assumes "channel_laws cb contents"
  shows "case find is_change (contents c) of
      None \<Rightarrow> change_loop cb c = None
    | Some m \<Rightarrow> (\<exists>c'. change_loop cb c = Some (m, c') \<and>
        contents c' = tl (dropWhile (\<lambda>m. \<not> is_change m) (contents c)))"
proof (induction "contents c" arbitrary: c)
  case Nil
  then have "cb_recv cb c = None" using channel_recv(2) [OF assms, of c] by (cases "cb_recv cb c") auto
  then have "change_loop cb c = None" by (subst change_loop.simps) simp
  then show ?case unfolding Nil.hyps [symmetric] by simp
next
  case (Cons m ms)
  have "cb_recv cb c \<noteq> None" using channel_recv(1) [OF assms, of c] Cons.hyps(2) by fastforce
  then obtain m' c' where r: "cb_recv cb c = Some (m', c')" by auto
  then have mc: "m' = m" "contents c' = ms" using channel_recv(2) [OF assms r] Cons.hyps(2) by auto
  have step: "change_loop cb c = (if is_change m then Some (m, c') else change_loop cb c')"
    using r mc by (subst change_loop.simps) simp
  have cc: "contents c = m # contents c'" using Cons.hyps(2) mc by simp
  show ?case
  proof (cases "is_change m")
    case True
    then show ?thesis unfolding cc step by simp
  next
    case False
    then show ?thesis using Cons.hyps(1) [of c'] mc unfolding cc step by (cases "find is_change ms") simp_all
  qed
qed

text \<open>
  \<open>get_change\<close> returns whenever its channel holds a change message: it returns the first
  one and leaves the messages after it in the channel; while there is none it keeps waiting.
\<close>

theorem get_change_first:
  assumes "channel_laws cb contents" "q_queues q iid = Some h" "is_subscribed iid q"
  shows "case find is_change (contents (ch_chan (q_heap q ! h))) of
      None \<Rightarrow> get_change cb iid q = None
    | Some m \<Rightarrow> (\<exists>c'. get_change cb iid q = Some (q\<lparr>q_heap := (q_heap q)[h := (q_heap q ! h)\<lparr>ch_chan := c'\<rparr>]\<rparr>, Inr m) \<and>
        contents c' = tl (dropWhile (\<lambda>m. \<not> is_change m) (contents (ch_chan (q_heap q ! h)))))"
  using change_loop_finds [OF assms(1), of "ch_chan (q_heap q ! h)"] assms(2,3)
  by (auto simp: get_change_def get_channel_def unwrap_channel_def split: option.splits)

theorem get_change_first_witness:
  "\<exists>c'. get_change list_channel 0 \<lparr>q_heap = [\<lparr>ch_chan = [ExecuteCode ''x'', SyncbackChanges, ExecuteCode ''y''],
       ch_flow = flow_default\<rparr>], q_queues = [0 \<mapsto> 0],
       q_listeners = [\<lparr>ls_id = 0, ls_name = ''i'', ls_internal = True\<rparr>], q_unsynced = 0\<rparr> =
     Some (\<lparr>q_heap = [\<lparr>ch_chan = c', ch_flow = flow_default\<rparr>], q_queues = [0 \<mapsto> 0],
       q_listeners = [\<lparr>ls_id = 0, ls_name = ''i'', ls_internal = True\<rparr>], q_unsynced = 0\<rparr>,
       Inr (SyncbackChanges :: (unit, unit) message)) \<and> c' = [ExecuteCode ''y'']"
  using get_change_first [OF list_channel_laws, of "\<lparr>q_heap = [\<lparr>ch_chan = [ExecuteCode ''x'',
       SyncbackChanges :: (unit, unit) message, ExecuteCode ''y''], ch_flow = flow_default\<rparr>], q_queues = [0 \<mapsto> 0],
       q_listeners = [\<lparr>ls_id = 0, ls_name = ''i'', ls_internal = True\<rparr>], q_unsynced = 0\<rparr>" 0 0]
  by (auto simp: is_subscribed_def is_change_def)

subsection \<open>Subscriptions\<close>

text \<open>What the plugin slot relies on: a set of subscribed ids with its two operations.\<close>

locale subscriptions =
  fixes ok :: "'q \<Rightarrow> bool"
    and subscribed :: "u32 \<Rightarrow> 'q \<Rightarrow> bool"
    and sub :: "u32 \<Rightarrow> string \<Rightarrow> 'q \<Rightarrow> 'q \<times> ('e + unit)"
    and unsub :: "u32 \<Rightarrow> 'q \<Rightarrow> 'q \<times> ('e + unit)"
  assumes sub_result: "(\<exists>e. snd (sub i n q) = Inl e) \<longleftrightarrow> subscribed i q"
    and sub_effect: "subscribed j (fst (sub i n q)) \<longleftrightarrow> j = i \<or> subscribed j q"
    and unsub_result: "(\<exists>e. snd (unsub i q) = Inl e) \<longleftrightarrow> \<not> subscribed i q"
    and unsub_effect: "subscribed j (fst (unsub i q)) \<longleftrightarrow> j \<noteq> i \<and> subscribed j q"
    and sub_ok: "ok q \<Longrightarrow> ok (fst (sub i n q))"
    and unsub_ok: "ok q \<Longrightarrow> ok (fst (unsub i q))"
begin

lemma resubscribe: "subscribed i q \<Longrightarrow> snd (sub i n (fst (unsub i q))) = Inr ()"
  using sub_result [of i n "fst (unsub i q)"] unsub_effect [of i i q]
  by (cases "snd (sub i n (fst (unsub i q)))") auto

end

interpretation qs: subscriptions queue_ok is_subscribed "subscribe cb" unsubscribe
  for cb :: "('c, ('u, 'v) message) channel_ops"
proof unfold_locales
  fix q :: "'c queue" and i n
  show "queue_ok q \<Longrightarrow> queue_ok (fst (subscribe cb i n q))"
    using add_pair_ok [of q "\<lparr>ls_id = i, ls_name = n, ls_internal = False\<rparr>" cb] by (simp add: subscribe_def)
  show "queue_ok q \<Longrightarrow> queue_ok (fst (unsubscribe i q))" by (rule unsubscribe_ok)
qed (auto simp: subscribe_def unsubscribe_def is_subscribed_def add_channel_def add_listener_def
    drop_channel_def drop_listener_def list_ex_iff)

subsection \<open>Between the locks\<close>

text \<open>
  The two locks an operation takes one after the other leave windows in which another
  thread's operation panics. A broadcast between the two halves of \<open>subscribe\<close> finds the
  new listener without its channel; and a consumer that has passed the subscription check
  panics at the lookup when the listener is unsubscribed in between.
\<close>

theorem unlocked_windows_panic:
  "snd (push cb m None (add_listener \<lparr>ls_id = 7, ls_name = name, ls_internal = False\<rparr> queue_new)) = Inl Panic \<and>
   (let q = fst (subscribe cb 7 name queue_new) in
      is_subscribed 7 q \<and> snd (unsubscribe 7 q) = Inr () \<and>
      unwrap_channel 7 (fst (unsubscribe 7 q)) = Inl Panic)"
  by (simp add: push_def add_listener_def queue_new_def unwrap_channel_def Let_def subscribe_def
      is_subscribed_def unsubscribe_def drop_channel_def drop_listener_def add_channel_def)

end
