(* ===== verification/Frames.thy ===== *)
theory Frames
  imports Snapshot
begin

text \<open>
  The protocol frames (\<^verbatim>\<open>src/server/ws/frames.rs\<close> and the reference codec of
  \<^verbatim>\<open>src/util.rs\<close>): the hello handshake, the validation of incoming frames and the split of a
  change set into \<open>sync\<close> frames.

  JSON values are the data type \<open>json\<close>; a number keeps what the code observes of it, its text
  and its value as a \<open>u64\<close> if it has one. The package functions, \<open>serde_json::from_str\<close>,
  the derived decoders and \<open>Ref::from_str\<close>, are parameters.
\<close>

section \<open>JSON values\<close>

record number =
  num_u64 :: "u64 option"
  num_text :: string

datatype json = JNull | JBool bool | JNumber number | JString string | JArray "json list"
  | JObject "(string \<times> json) list"

definition jget :: "string \<Rightarrow> json \<Rightarrow> json option" where
  "jget k j = (case j of JObject kvs \<Rightarrow> map_of kvs k | _ \<Rightarrow> None)"

definition as_str :: "json \<Rightarrow> string option" where
  "as_str j = (case j of JString s \<Rightarrow> Some s | _ \<Rightarrow> None)"

definition as_bool :: "json \<Rightarrow> bool option" where
  "as_bool j = (case j of JBool b \<Rightarrow> Some b | _ \<Rightarrow> None)"

definition as_u64 :: "json \<Rightarrow> u64 option" where
  "as_u64 j = (case j of JNumber n \<Rightarrow> num_u64 n | _ \<Rightarrow> None)"

definition as_array :: "json \<Rightarrow> json list option" where
  "as_array j = (case j of JArray js \<Rightarrow> Some js | _ \<Rightarrow> None)"

lemma as_str_JString [simp]: "as_str (JString s) = Some s"
  by (simp add: as_str_def)

lemma size_map_of_less: "map_of kvs k = Some v \<Longrightarrow> size v < Suc (size_list (size_prod (\<lambda>_. 0) size) kvs)"
  by (induction kvs) (auto split: if_splits)

lemma jget_size: "jget k j = Some v \<Longrightarrow> size v < size j"
  using size_map_of_less by (fastforce simp: jget_def split: json.splits)

section \<open>References\<close>

definition is_lower_hex :: "char \<Rightarrow> bool" where
  "is_lower_hex c \<longleftrightarrow> (CHR ''0'' \<le> c \<and> c \<le> CHR ''9'') \<or> (CHR ''a'' \<le> c \<and> c \<le> CHR ''f'')"

definition parse_ref :: "(string \<Rightarrow> dref option) \<Rightarrow> string \<Rightarrow> dref option" where
  "parse_ref from_str hex =
     (if length hex \<noteq> 32 \<or> \<not> list_all is_lower_hex hex then None else from_str hex)"

section \<open>Hello\<close>

definition PROTOCOL_VERSION :: nat where
  "PROTOCOL_VERSION = 1"

datatype client_role = Plugin | Agent | Watch | App

definition role_parse :: "string \<Rightarrow> client_role option" where
  "role_parse r =
     (if r = ''plugin'' then Some Plugin else if r = ''agent'' then Some Agent
      else if r = ''watch'' then Some Watch else if r = ''app'' then Some App else None)"

definition role_str :: "client_role \<Rightarrow> string" where
  "role_str r = (case r of Plugin \<Rightarrow> ''plugin'' | Agent \<Rightarrow> ''agent'' | Watch \<Rightarrow> ''watch'' | App \<Rightarrow> ''app'')"

record client_hello =
  ch_client_id :: string
  ch_role :: client_role
  ch_name :: string

text \<open>One constructor per refusal, each with the typed shutdown code the client gets.\<close>

datatype hello_error = BadJson | NotHello | MissingProtocol | UnsupportedProtocol u64 | MissingRole | MissingClientId

definition hello_error_code :: "hello_error \<Rightarrow> string" where
  "hello_error_code e =
     (case e of MissingProtocol \<Rightarrow> ''PROTOCOL_MISMATCH'' | UnsupportedProtocol _ \<Rightarrow> ''PROTOCOL_MISMATCH''
      | _ \<Rightarrow> ''BAD_HELLO'')"

definition client_id_of :: "json \<Rightarrow> string option" where
  "client_id_of v = (case jget ''clientId'' v of
     Some (JString s) \<Rightarrow> if s \<noteq> [] then Some s else None
   | Some (JNumber n) \<Rightarrow> Some (num_text n)
   | _ \<Rightarrow> None)"

definition parse_hello :: "(string \<Rightarrow> json option) \<Rightarrow> string \<Rightarrow> hello_error + client_hello" where
  "parse_hello from_str text =
     (case from_str text of
        None \<Rightarrow> Inl BadJson
      | Some v \<Rightarrow>
          if Option.bind (jget ''type'' v) as_str \<noteq> Some ''hello'' then Inl NotHello
          else case Option.bind (jget ''protocol'' v) as_u64 of
            None \<Rightarrow> Inl MissingProtocol
          | Some p \<Rightarrow>
              if p \<noteq> of_nat PROTOCOL_VERSION then Inl (UnsupportedProtocol p)
              else case Option.bind (Option.bind (jget ''role'' v) as_str) role_parse of
                None \<Rightarrow> Inl MissingRole
              | Some role \<Rightarrow>
                  (case client_id_of v of
                     None \<Rightarrow> Inl MissingClientId
                   | Some cid \<Rightarrow> Inr \<lparr>ch_client_id = cid, ch_role = role,
                       ch_name = (case Option.bind (jget ''name'' v) as_str of Some n \<Rightarrow> n | None \<Rightarrow> ''unnamed client'')\<rparr>))"

section \<open>Incoming frames\<close>

record op_error =
  oe_code :: string
  oe_message :: string

record response_frame =
  rf_request_id :: u32
  rf_ok :: bool
  rf_value :: "json option"
  rf_error :: "op_error option"
  rf_meta :: "json option"

datatype push_error = NotAnObject | MissingOps | MissingRef string | InvalidRef string | UndecodableOps

definition expect_ref :: "(string \<Rightarrow> dref option) \<Rightarrow> json option \<Rightarrow> string \<Rightarrow> push_error + unit" where
  "expect_ref from_str v at =
     (case Option.bind v as_str of
        None \<Rightarrow> Inl (MissingRef at)
      | Some hex \<Rightarrow> (case parse_ref from_str hex of None \<Rightarrow> Inl (InvalidRef at) | Some _ \<Rightarrow> Inr ()))"

definition child_at :: "string \<Rightarrow> nat \<Rightarrow> string" where
  "child_at at i = at @ ''.children['' @ show_nat i @ '']''"

text \<open>\<open>walk_children\<close>, from the child at index \<open>i\<close> on; a value that is no array has no children.\<close>

definition children_of :: "json \<Rightarrow> json list" where
  "children_of j = (case Option.bind (jget ''children'' j) as_array of None \<Rightarrow> [] | Some cs \<Rightarrow> cs)"

lemma children_of_size: "size_list size (children_of j) \<le> size j"
proof (cases "jget ''children'' j")
  case (Some v)
  then have "size v < size j" by (rule jget_size)
  then show ?thesis using Some by (cases v) (auto simp: children_of_def as_array_def)
qed (simp add: children_of_def)

function walk_children :: "(string \<Rightarrow> dref option) \<Rightarrow> string \<Rightarrow> nat \<Rightarrow> json list \<Rightarrow> push_error + unit" where
  "walk_children from_str at i [] = Inr ()"
| "walk_children from_str at i (c # cs) =
     (case expect_ref from_str (jget ''id'' c) (child_at at i @ ''.id'') of
        Inl e \<Rightarrow> Inl e
      | Inr _ \<Rightarrow>
          (case walk_children from_str (child_at at i) 0 (children_of c) of
             Inl e \<Rightarrow> Inl e
           | Inr _ \<Rightarrow> walk_children from_str at (Suc i) cs))"
  by pat_completeness auto
termination
  by (relation "measure (\<lambda>(_, _, _, cs). size_list size cs)")
     (auto simp: less_Suc_eq_le intro: order_trans [OF children_of_size] le_SucI le_add1 trans_le_add1)

fun each :: "(nat \<Rightarrow> 'a \<Rightarrow> 'e + unit) \<Rightarrow> nat \<Rightarrow> 'a list \<Rightarrow> 'e + unit" where
  "each f i [] = Inr ()"
| "each f i (x # xs) = (case f i x of Inl e \<Rightarrow> Inl e | Inr _ \<Rightarrow> each f (Suc i) xs)"

definition validate_addition :: "(string \<Rightarrow> dref option) \<Rightarrow> nat \<Rightarrow> json \<Rightarrow> push_error + unit" where
  "validate_addition from_str i a =
     (let at = ''additions['' @ show_nat i @ '']'' in
      case expect_ref from_str (jget ''id'' a) (at @ ''.id'') of
        Inl e \<Rightarrow> Inl e
      | Inr _ \<Rightarrow> (case expect_ref from_str (jget ''parent'' a) (at @ ''.parent'') of
                   Inl e \<Rightarrow> Inl e
                 | Inr _ \<Rightarrow> walk_children from_str at 0 (children_of a)))"

definition validate_push_refs :: "(string \<Rightarrow> dref option) \<Rightarrow> json \<Rightarrow> push_error + unit" where
  "validate_push_refs from_str ops =
     (case ops of
        JObject _ \<Rightarrow>
          (let arr = (\<lambda>k. case Option.bind (jget k ops) as_array of None \<Rightarrow> [] | Some xs \<Rightarrow> xs) in
           case each (validate_addition from_str) 0 (arr ''additions'') of
             Inl e \<Rightarrow> Inl e
           | Inr _ \<Rightarrow>
               (case each (\<lambda>i u. expect_ref from_str (jget ''id'' u) (''updates['' @ show_nat i @ ''].id'')) 0 (arr ''updates'') of
                  Inl e \<Rightarrow> Inl e
                | Inr _ \<Rightarrow> each (\<lambda>i r. expect_ref from_str (Some r) (''removals['' @ show_nat i @ '']'')) 0 (arr ''removals'')))
      | _ \<Rightarrow> Inl NotAnObject)"

datatype ('u, 'v) incoming = Push "('u, 'v) changes" | PushRejected push_error | Response response_frame
  | EventSub "string list" | Ping | Pong | UnknownFrame string

datatype frame_error = FrameNotJson | MissingType | BadResponse | MissingTopics

record ('u, 'v) wire =
  w_from_str :: "string \<Rightarrow> json option"
  w_ref :: "string \<Rightarrow> dref option"
  w_changes :: "json \<Rightarrow> ('u, 'v) changes option"
  w_response :: "json \<Rightarrow> response_frame option"

definition decode_push :: "('u, 'v) wire \<Rightarrow> json \<Rightarrow> ('u, 'v) incoming" where
  "decode_push w v =
     (case jget ''ops'' v of
        None \<Rightarrow> PushRejected MissingOps
      | Some ops \<Rightarrow>
          (case validate_push_refs (w_ref w) ops of
             Inl e \<Rightarrow> PushRejected e
           | Inr _ \<Rightarrow> (case w_changes w ops of None \<Rightarrow> PushRejected UndecodableOps | Some c \<Rightarrow> Push c)))"

definition parse_incoming :: "('u, 'v) wire \<Rightarrow> string \<Rightarrow> frame_error + ('u, 'v) incoming" where
  "parse_incoming w text =
     (case w_from_str w text of
        None \<Rightarrow> Inl FrameNotJson
      | Some v \<Rightarrow>
          (case Option.bind (jget ''type'' v) as_str of
             None \<Rightarrow> Inl MissingType
           | Some kind \<Rightarrow>
               if kind = ''push'' then Inr (decode_push w v)
               else if kind = ''response'' then
                 (case w_response w v of None \<Rightarrow> Inl BadResponse | Some r \<Rightarrow> Inr (Response r))
               else if kind = ''event-sub'' then
                 (case Option.bind (jget ''topics'' v) as_array of
                    None \<Rightarrow> Inl MissingTopics
                  | Some ts \<Rightarrow> Inr (EventSub (List.map_filter as_str ts)))
               else if kind = ''ping'' then Inr Ping
               else if kind = ''pong'' then Inr Pong
               else Inr (UnknownFrame kind)))"

section \<open>Outgoing sync frames\<close>

definition SYNC_FRAME_MAX_OPS :: nat where
  "SYNC_FRAME_MAX_OPS = 256"

definition SYNC_FRAME_MAX_BYTES :: nat where
  "SYNC_FRAME_MAX_BYTES = 512 * 1024"

text \<open>One operation of a change set, and the order in which the loops visit them.\<close>

datatype ('u, 'v) change_op = OpAdd "('u, 'v) added_snapshot" | OpUpdate "('u, 'v) updated_snapshot" | OpRemove dref

definition ops_of :: "('u, 'v) changes \<Rightarrow> ('u, 'v) change_op list" where
  "ops_of c = map OpAdd (additions c) @ map OpUpdate (updates c) @ map OpRemove (removals c)"

fun push_op :: "('u, 'v) change_op \<Rightarrow> ('u, 'v) changes \<Rightarrow> ('u, 'v) changes" where
  "push_op (OpAdd a) c = c\<lparr>additions := additions c @ [a]\<rparr>"
| "push_op (OpUpdate u) c = c\<lparr>updates := updates c @ [u]\<rparr>"
| "push_op (OpRemove r) c = c\<lparr>removals := removals c @ [r]\<rparr>"

definition chunk_step :: "nat \<Rightarrow> ('u, 'v) change_op \<Rightarrow> ('u, 'v) changes list \<times> ('u, 'v) changes \<times> nat \<Rightarrow>
    ('u, 'v) changes list \<times> ('u, 'v) changes \<times> nat" where
  "chunk_step max_ops op = (\<lambda>(chunks, current, count).
     if count = max_ops then (chunks @ [current], push_op op changes_new, 1)
     else (chunks, push_op op current, count + 1))"

definition chunk_by_ops :: "('u, 'v) changes \<Rightarrow> nat \<Rightarrow> ('u, 'v) changes list" where
  "chunk_by_ops c max_ops =
     (if changes_total c \<le> max_ops then [c]
      else case fold (chunk_step max_ops) (ops_of c) ([], changes_new, 0) of
        (chunks, current, _) \<Rightarrow> if changes_is_empty current then chunks else chunks @ [current])"

definition split_step :: "nat \<Rightarrow> ('u, 'v) change_op \<Rightarrow> ('u, 'v) changes \<times> ('u, 'v) changes \<times> nat \<Rightarrow>
    ('u, 'v) changes \<times> ('u, 'v) changes \<times> nat" where
  "split_step mid op = (\<lambda>(first, second, index).
     if index < mid then (push_op op first, second, index + 1) else (first, push_op op second, index + 1))"

definition split_half :: "('u, 'v) changes \<Rightarrow> ('u, 'v) changes \<times> ('u, 'v) changes" where
  "split_half c =
     (case fold (split_step (max (changes_total c div 2) 1)) (ops_of c) (changes_new, changes_new, 0) of
        (first, second, _) \<Rightarrow> (first, second))"

lemma changes_total_ops: "changes_total c = length (ops_of c)"
  by (simp add: changes_total_def ops_of_def)

text \<open>
  The operations are visited additions first, then updates, then removals, so a prefix of
  \<open>ops_of\<close> pushed one by one onto an empty change set has that prefix as its operations.
\<close>

definition changes_from :: "('u, 'v) change_op list \<Rightarrow> ('u, 'v) changes" where
  "changes_from ops = fold push_op ops changes_new"

definition op_rank :: "('u, 'v) change_op \<Rightarrow> nat" where
  "op_rank op = (case op of OpAdd _ \<Rightarrow> 0 | OpUpdate _ \<Rightarrow> 1 | OpRemove _ \<Rightarrow> 2)"

abbreviation ranked :: "('u, 'v) change_op list \<Rightarrow> bool" where
  "ranked ops \<equiv> sorted (map op_rank ops)"

lemma ops_of_ranked: "ranked (ops_of c)"
  by (auto simp: ops_of_def op_rank_def sorted_append comp_def map_replicate_const)

lemma ops_of_new [simp]: "ops_of changes_new = []"
  by (simp add: ops_of_def changes_new_def)

lemma ops_of_empty: "changes_is_empty c \<longleftrightarrow> ops_of c = []"
  by (simp add: changes_is_empty_def ops_of_def)

lemma push_op_ops:
  assumes "ranked (ops_of c @ [op])"
  shows "ops_of (push_op op c) = ops_of c @ [op]"
proof (cases op)
  case (OpAdd a)
  then have "updates c = []" "removals c = []"
    using assms by (auto simp: ops_of_def op_rank_def sorted_append)
  then show ?thesis using OpAdd by (simp add: ops_of_def)
next
  case (OpUpdate u)
  then have "removals c = []" using assms by (auto simp: ops_of_def op_rank_def sorted_append)
  then show ?thesis using OpUpdate by (simp add: ops_of_def)
next
  case (OpRemove r)
  then show ?thesis by (simp add: ops_of_def)
qed

lemma fold_push_ops:
  "ranked (ops_of c @ ops) \<Longrightarrow> ops_of (fold push_op ops c) = ops_of c @ ops"
proof (induction ops arbitrary: c)
  case (Cons op ops)
  have "ranked (ops_of c @ [op])" using Cons.prems by (auto simp: sorted_append)
  then show ?case using Cons push_op_ops [of c op] by simp
qed simp

lemma ops_changes_from: "ranked ops \<Longrightarrow> ops_of (changes_from ops) = ops"
  unfolding changes_from_def using fold_push_ops [of changes_new ops] by simp

lemma fold_split_step:
  "fold (split_step mid) ops (f, s, i) =
     (fold push_op (take (mid - i) ops) f, fold push_op (drop (mid - i) ops) s, i + length ops)"
proof (induction ops arbitrary: f s i)
  case (Cons op ops)
  show ?case
  proof (cases "i < mid")
    case True
    then have "mid - i = Suc (mid - Suc i)" by simp
    then show ?thesis using Cons True by (simp add: split_step_def)
  next
    case False
    then show ?thesis using Cons by (simp add: split_step_def)
  qed
qed simp

lemma split_half_ops:
  "split_half c = (changes_from (take (max (changes_total c div 2) 1) (ops_of c)),
     changes_from (drop (max (changes_total c div 2) 1) (ops_of c)))"
  by (simp add: split_half_def fold_split_step changes_from_def)

lemma ranked_take: "ranked ops \<Longrightarrow> ranked (take n ops)"
  and ranked_drop: "ranked ops \<Longrightarrow> ranked (drop n ops)"
  by (simp_all add: take_map [symmetric] drop_map [symmetric] sorted_wrt_take sorted_wrt_drop)

lemma split_half_parts:
  assumes "split_half c = (first, second)"
  shows "ops_of first = take (max (changes_total c div 2) 1) (ops_of c)"
    and "ops_of second = drop (max (changes_total c div 2) 1) (ops_of c)"
  using assms ops_of_ranked [of c]
  by (auto simp: split_half_ops intro!: ops_changes_from ranked_take ranked_drop)

text \<open>The loop of \<open>sync_frames\<close>: the chunks whose text is sent, in order.\<close>

function sync_chunks :: "(('u, 'v) changes \<Rightarrow> string) \<Rightarrow> ('u, 'v) changes list \<Rightarrow> ('u, 'v) changes list" where
  "sync_chunks text [] = []"
| "sync_chunks text (chunk # pending) =
     (if length (text chunk) \<le> SYNC_FRAME_MAX_BYTES \<or> changes_total chunk \<le> 1
      then chunk # sync_chunks text pending
      else case split_half chunk of (first, second) \<Rightarrow> sync_chunks text (first # second # pending))"
  by pat_completeness auto
termination
proof (relation "measure (\<lambda>(_, cs). sum_list (map (\<lambda>c. max 1 (2 * changes_total c - 1)) cs))")
  fix tx :: "('u, 'v) changes \<Rightarrow> string" and chunk pending first second
  assume a: "\<not> (length (tx chunk) \<le> SYNC_FRAME_MAX_BYTES \<or> changes_total chunk \<le> 1)"
    and p: "(first, second) = split_half chunk"
  note sp = p [symmetric]
  show "((tx, first # second # pending), tx, chunk # pending) \<in>
      measure (\<lambda>(_, cs). sum_list (map (\<lambda>c. max 1 (2 * changes_total c - 1)) cs))"
  proof -
    have "max (changes_total chunk div 2) 1 = changes_total chunk div 2" using a by (simp add: max_def) linarith
    then have "changes_total first = changes_total chunk div 2"
      "changes_total second = changes_total chunk - changes_total chunk div 2"
      using split_half_parts [OF sp] by (simp_all add: changes_total_ops)
    then have "changes_total first + changes_total second = changes_total chunk"
      "1 \<le> changes_total first" "1 \<le> changes_total second" using a by linarith+
    then show ?thesis by simp
  qed
qed auto

declare sync_chunks.simps(2) [simp del]

definition sync_frames :: "(('u, 'v) changes \<Rightarrow> string) \<Rightarrow> ('u, 'v) changes \<Rightarrow> string list" where
  "sync_frames text c = map text (sync_chunks text (chunk_by_ops c SYNC_FRAME_MAX_OPS))"

end
