(* ===== verification/Operation.thy ===== *)
theory Operation
  imports Frames
begin

text \<open>
  Operation receipts (\<^verbatim>\<open>src/server/operation.rs\<close>): bounded, expiring evidence of what became
  of a request, and the classification of a plugin response. \<open>now\<close> is the clock reading the
  operations take.
\<close>

section \<open>Definitions\<close>

definition RETAIN_FOR :: duration where
  "RETAIN_FOR = 10 * 60 * 1000"

definition MAX_RECEIPTS :: nat where
  "MAX_RECEIPTS = 256"

record receipt =
  rc_operation_id :: string
  rc_request_id :: u32
  rc_op :: string
  rc_completion :: string
  rc_completion_scope :: string
  rc_retry_safe :: bool
  rc_finished :: bool
  rc_error_code :: "string option"
  rc_created :: instant

type_synonym receipts = "receipt list"

definition receipts_prune :: "instant \<Rightarrow> receipts \<Rightarrow> receipts" where
  "receipts_prune now rs = filter (\<lambda>r. now - rc_created r < RETAIN_FOR) rs"

definition receipts_begin :: "instant \<Rightarrow> u32 \<Rightarrow> string \<Rightarrow> string \<Rightarrow> receipts \<Rightarrow> receipts \<times> bool" where
  "receipts_begin now request_id operation_id op rs =
     (let rs = receipts_prune now rs in
      if list_ex (\<lambda>r. rc_operation_id r = operation_id) rs then (rs, False)
      else
        (let rs = (if MAX_RECEIPTS \<le> length rs then tl rs else rs) in
         (rs @ [\<lparr>rc_operation_id = operation_id, rc_request_id = request_id, rc_op = op,
            rc_completion = ''unknown'', rc_completion_scope = ''requestedEffects'',
            rc_retry_safe = False, rc_finished = False, rc_error_code = None, rc_created = now\<rparr>], True)))"

definition receipt_finish :: "string \<Rightarrow> string option \<Rightarrow> receipt \<Rightarrow> receipt" where
  "receipt_finish completion error_code r =
     (if rc_finished r \<and> rc_completion r \<noteq> ''unknown'' then r
      else r\<lparr>rc_completion := completion, rc_retry_safe := completion = ''notStarted'',
        rc_finished := True, rc_error_code := error_code\<rparr>)"

definition receipts_finish :: "u32 \<Rightarrow> string \<Rightarrow> string option \<Rightarrow> receipts \<Rightarrow> receipts" where
  "receipts_finish request_id completion error_code rs =
     (case position (\<lambda>r. rc_request_id r = request_id) rs of
        None \<Rightarrow> rs
      | Some i \<Rightarrow> rs[i := receipt_finish completion error_code (rs ! i)])"

definition receipts_get :: "instant \<Rightarrow> string \<Rightarrow> receipts \<Rightarrow> receipts \<times> receipt option" where
  "receipts_get now operation_id rs =
     (let rs = receipts_prune now rs in (rs, find (\<lambda>r. rc_operation_id r = operation_id) rs))"

definition receipts_op :: "u32 \<Rightarrow> receipts \<Rightarrow> string option" where
  "receipts_op request_id rs =
     map_option rc_op (find (\<lambda>r. rc_request_id r = request_id \<and> \<not> rc_finished r) rs)"

definition acknowledgement_only :: "string option \<Rightarrow> bool" where
  "acknowledgement_only op \<longleftrightarrow>
     op \<in> {Some ''undo'', Some ''redo'', Some ''playtest_start'', Some ''playtest_run_start''}"

text \<open>\<open>value.get(k).and_then(f)\<close>\<close>

abbreviation field :: "string \<Rightarrow> (json \<Rightarrow> 'a option) \<Rightarrow> json \<Rightarrow> 'a option" where
  "field k f v \<equiv> Option.bind (jget k v) f"

definition set_batch_failed :: "json \<Rightarrow> bool" where
  "set_batch_failed v \<longleftrightarrow>
     (case field ''failed'' as_u64 v of Some n \<Rightarrow> n > 0 | None \<Rightarrow> False) \<or>
     (case field ''results'' as_array v of
        Some rs \<Rightarrow> list_ex (\<lambda>e. field ''ok'' as_bool e = Some False) rs
      | None \<Rightarrow> False)"

definition task_failed :: "string option \<Rightarrow> json option \<Rightarrow> bool" where
  "task_failed op v =
     (case (op, v) of
        (Some o1, Some v) \<Rightarrow>
          if o1 = ''playtest_exec'' then field ''ok'' as_bool v = Some False
          else if o1 = ''set_batch'' then set_batch_failed v
          else False
      | _ \<Rightarrow> False)"

definition completion :: "response_frame \<Rightarrow> string option \<Rightarrow> string" where
  "completion response op =
     (if rf_ok response \<and> acknowledgement_only op then ''unknown''
      else if rf_ok response \<and> \<not> task_failed op (rf_value response) then ''completed''
      else if op = Some ''set_batch'' \<and>
        (case Option.bind (rf_value response) (field ''applied'' as_u64) of Some n \<Rightarrow> n > 0 | None \<Rightarrow> False)
      then ''partial''
      else if Option.bind (rf_meta response) (field ''mutation'' as_bool) = Some True then ''partial''
      else case Option.bind (rf_meta response) (field ''completion'' as_str) of
        Some c \<Rightarrow>
          if c = ''notStarted'' then ''notStarted''
          else if c = ''completed'' then ''completed''
          else if c = ''partial'' then ''partial''
          else ''unknown''
      | None \<Rightarrow> ''unknown'')"

section \<open>The receipt store\<close>

definition receipt_ok :: "receipt \<Rightarrow> bool" where
  "receipt_ok r \<longleftrightarrow> (rc_retry_safe r \<longleftrightarrow> rc_finished r \<and> rc_completion r = ''notStarted'') \<and>
     (\<not> rc_finished r \<longrightarrow> rc_completion r = ''unknown'')"

definition receipts_ok :: "receipts \<Rightarrow> bool" where
  "receipts_ok rs \<longleftrightarrow> length rs \<le> MAX_RECEIPTS \<and> distinct (map rc_operation_id rs) \<and> list_all receipt_ok rs"

datatype receipt_event = RBegin instant u32 string string | RFinish u32 string "string option" | RGet instant string

fun receipt_exec :: "receipt_event \<Rightarrow> receipts \<Rightarrow> receipts" where
  "receipt_exec (RBegin now i oid op) rs = fst (receipts_begin now i oid op rs)"
| "receipt_exec (RFinish i c e) rs = receipts_finish i c e rs"
| "receipt_exec (RGet now oid) rs = fst (receipts_get now oid rs)"

lemma prune_ok: "receipts_ok rs \<Longrightarrow> receipts_ok (receipts_prune now rs)"
  unfolding receipts_ok_def receipts_prune_def
  by (auto simp: distinct_map_filter list_all_iff intro: order_trans [OF length_filter_le])

lemma receipt_finish_ok: "receipt_ok r \<Longrightarrow> receipt_ok (receipt_finish c e r)"
  by (simp add: receipt_ok_def receipt_finish_def)

lemma begin_ok:
  assumes "receipts_ok rs"
  shows "receipts_ok (fst (receipts_begin now i oid op rs))"
proof -
  let ?rs = "receipts_prune now rs"
  have ok: "receipts_ok ?rs" using assms by (rule prune_ok)
  have "distinct (map rc_operation_id (tl ?rs))" "list_all receipt_ok (tl ?rs)" "set (tl ?rs) \<subseteq> set ?rs"
    using ok by (cases ?rs; simp add: receipts_ok_def list_all_iff; blast)+
  then show ?thesis
    using ok
    by (auto simp: receipts_begin_def Let_def receipts_ok_def receipt_ok_def list_ex_iff MAX_RECEIPTS_def)
qed

lemma receipt_finish_id [simp]: "rc_operation_id (receipt_finish c e r) = rc_operation_id r"
  by (simp add: receipt_finish_def)

lemma receipts_finish_nth:
  "length (receipts_finish i c e rs) = length rs"
  "k < length rs \<Longrightarrow> receipts_finish i c e rs ! k \<in> {rs ! k, receipt_finish c e (rs ! k)}"
proof -
  show "length (receipts_finish i c e rs) = length rs"
    by (simp add: receipts_finish_def split: option.splits)
  assume "k < length rs"
  show "receipts_finish i c e rs ! k \<in> {rs ! k, receipt_finish c e (rs ! k)}"
  proof (cases "position (\<lambda>r. rc_request_id r = i) rs")
    case (Some a)
    from position_length [OF Some] show ?thesis by (simp add: receipts_finish_def Some nth_list_update)
  qed (simp add: receipts_finish_def del: position_None)
qed

lemma finish_ok:
  assumes "receipts_ok rs"
  shows "receipts_ok (receipts_finish i c e rs)"
proof (cases "position (\<lambda>r. rc_request_id r = i) rs")
  case (Some k)
  then have k: "k < length rs" by (rule position_length)
  have ids: "map rc_operation_id (rs[k := receipt_finish c e (rs ! k)]) = map rc_operation_id rs"
    using k by (simp add: map_update) (metis list_update_id nth_map)
  have "list_all receipt_ok (rs[k := receipt_finish c e (rs ! k)])"
    using assms k receipt_finish_ok
    by (auto simp: receipts_ok_def list_all_length nth_list_update)
  then show ?thesis using assms Some ids by (simp add: receipts_finish_def receipts_ok_def)
qed (simp add: receipts_finish_def assms del: position_None)

lemma receipt_exec_ok: "receipts_ok rs \<Longrightarrow> receipts_ok (receipt_exec ev rs)"
  by (cases ev) (simp_all add: begin_ok finish_ok receipts_get_def prune_ok Let_def)

interpretation rcpt: invariant_system "\<lambda>rs. rs = []" "\<lambda>rs rs'. \<exists>ev. rs' = receipt_exec ev rs" receipts_ok
proof unfold_locales
  show "rs = [] \<Longrightarrow> receipts_ok rs" for rs by (simp add: receipts_ok_def)
  show "\<exists>ev. rs' = receipt_exec ev rs \<Longrightarrow> receipts_ok rs \<Longrightarrow> receipts_ok rs'" for rs rs'
    using receipt_exec_ok by blast
qed

text \<open>
  In every reachable receipt store there are at most 256 receipts, no two for one operation
  id, an unfinished operation reads \<open>unknown\<close>, and a receipt calls a retry safe exactly when
  it is finished with \<open>notStarted\<close>.
\<close>

theorem receipts_reachable_ok:
  assumes "(\<lambda>rs rs'. \<exists>ev. rs' = receipt_exec ev rs)\<^sup>*\<^sup>* [] rs" "r \<in> set rs"
  shows "length rs \<le> 256 \<and> distinct (map rc_operation_id rs) \<and>
    (rc_retry_safe r \<longleftrightarrow> rc_finished r \<and> rc_completion r = ''notStarted'') \<and>
    (\<not> rc_finished r \<longrightarrow> rc_completion r = ''unknown'')"
  using rcpt.reachable_inv [OF refl assms(1)] assms(2)
  by (simp add: receipts_ok_def receipt_ok_def list_all_iff MAX_RECEIPTS_def)

theorem receipts_reachable_ok_witness:
  "\<not> rc_retry_safe (hd (receipt_exec (RBegin 0 1 ''a'' ''set'') []))"
proof -
  have "(\<lambda>rs rs'. \<exists>ev. rs' = receipt_exec ev rs)\<^sup>*\<^sup>* [] (receipt_exec (RBegin 0 1 ''a'' ''set'') [])" by blast
  from receipts_reachable_ok [OF this, of "hd (receipt_exec (RBegin 0 1 ''a'' ''set'') [])"]
  show ?thesis by (simp add: receipts_begin_def receipts_prune_def Let_def MAX_RECEIPTS_def)
qed

text \<open>
  Conclusive evidence is never replaced and an operation id is never reused while its
  receipt lives: a receipt that finished with anything but \<open>unknown\<close> stays as it is under
  every later operation until it expires or is evicted, and \<open>begin\<close> refuses an operation id
  exactly when an unexpired receipt has it.
\<close>

theorem conclusive_evidence_kept:
  assumes "receipts_ok rs" "r \<in> set rs" "rc_finished r" "rc_completion r \<noteq> ''unknown''"
  shows "(\<forall>r'\<in>set (receipt_exec ev rs). rc_operation_id r' = rc_operation_id r \<longrightarrow>
            r' = r \<or> (\<exists>now i op. ev = RBegin now i (rc_operation_id r) op \<and> RETAIN_FOR \<le> now - rc_created r)) \<and>
         (\<forall>now i op. snd (receipts_begin now i (rc_operation_id r) op rs) = False \<longleftrightarrow> now - rc_created r < RETAIN_FOR)"
proof -
  have uniq: "r' \<in> set rs \<Longrightarrow> rc_operation_id r' = rc_operation_id r \<Longrightarrow> r' = r" for r'
    using assms(1,2) unfolding receipts_ok_def distinct_map by (meson inj_onD)
  have live: "list_ex (\<lambda>r'. rc_operation_id r' = rc_operation_id r) (receipts_prune now rs) \<longleftrightarrow>
      now - rc_created r < RETAIN_FOR" for now
    using assms(2) uniq by (auto simp: receipts_prune_def list_ex_iff)
  have fin: "receipts_finish i c e rs ! k = rs ! k" if "k < length rs" "rs ! k = r" for i c e k
    using assms(3,4) that receipts_finish_nth(2) [OF that(1), of i c e] by (auto simp: receipt_finish_def)
  have "r' = r" if mem: "r' \<in> set (receipts_finish i c e rs)" and oid: "rc_operation_id r' = rc_operation_id r" for r' i c e
  proof -
    obtain k where k: "k < length rs" "receipts_finish i c e rs ! k = r'"
      using mem unfolding in_set_conv_nth receipts_finish_nth(1) by blast
    have "rc_operation_id (receipts_finish i c e rs ! k) = rc_operation_id (rs ! k)"
      using receipts_finish_nth(2) [OF k(1), of i c e] by auto
    then have "rs ! k = r" using k oid uniq by simp
    then show ?thesis using fin k by simp
  qed
  moreover have "r' = r \<or> oid = rc_operation_id r \<and> RETAIN_FOR \<le> now - rc_created r"
    if "r' \<in> set (fst (receipts_begin now i oid op rs))" "rc_operation_id r' = rc_operation_id r" for r' now i oid op
  proof -
    let ?rs = "receipts_prune now rs"
    have old: "r' \<in> set ?rs \<Longrightarrow> r' = r" using that(2) uniq by (auto simp: receipts_prune_def)
    have "set (tl ?rs) \<subseteq> set ?rs" by (cases ?rs) auto
    then have "r' \<in> set ?rs \<or> rc_operation_id r' = oid \<and>
        \<not> list_ex (\<lambda>r. rc_operation_id r = oid) ?rs"
      using that(1) by (auto simp: receipts_begin_def Let_def split: if_splits)
    then show ?thesis using old that(2) live [of now] by (auto simp: not_less)
  qed
  moreover have "r' = r" if "r' \<in> set (fst (receipts_get now oid rs))" "rc_operation_id r' = rc_operation_id r" for r' now oid
    using that uniq by (auto simp: receipts_get_def Let_def receipts_prune_def)
  ultimately have "\<forall>r'\<in>set (receipt_exec ev rs). rc_operation_id r' = rc_operation_id r \<longrightarrow>
            r' = r \<or> (\<exists>now i op. ev = RBegin now i (rc_operation_id r) op \<and> RETAIN_FOR \<le> now - rc_created r)"
    by (cases ev) fastforce+
  moreover have "snd (receipts_begin now i (rc_operation_id r) op rs) = False \<longleftrightarrow> now - rc_created r < RETAIN_FOR" for now i op
    using live [of now] by (simp add: receipts_begin_def Let_def)
  ultimately show ?thesis by blast
qed

theorem conclusive_evidence_kept_witness:
  "let r = \<lparr>rc_operation_id = ''a'', rc_request_id = 1, rc_op = ''set'', rc_completion = ''completed'',
       rc_completion_scope = ''requestedEffects'', rc_retry_safe = False, rc_finished = True,
       rc_error_code = None, rc_created = 0\<rparr>
   in snd (receipts_begin 1000 2 ''a'' ''set'' [r]) = False"
proof -
  let ?r = "\<lparr>rc_operation_id = ''a'', rc_request_id = 1, rc_op = ''set'', rc_completion = ''completed'',
       rc_completion_scope = ''requestedEffects'', rc_retry_safe = False, rc_finished = True,
       rc_error_code = None, rc_created = 0\<rparr>"
  have "receipts_ok [?r]" by (simp add: receipts_ok_def receipt_ok_def MAX_RECEIPTS_def)
  from conclusive_evidence_kept [OF this, of ?r] show ?thesis by (simp add: Let_def RETAIN_FOR_def)
qed

text \<open>
  A response proves that nothing was started only on the plugin's own word: \<open>completion\<close> is
  \<open>notStarted\<close> exactly when the request failed (the frame itself, or the task of a
  \<open>playtest_exec\<close> or \<open>set_batch\<close>), no change is reported as applied or as a mutation, and the
  plugin's meta says \<open>notStarted\<close>.
\<close>

theorem not_started_needs_evidence:
  "completion response op = ''notStarted'' \<longleftrightarrow>
     (\<not> rf_ok response \<or> \<not> acknowledgement_only op \<and> task_failed op (rf_value response)) \<and>
     \<not> (op = Some ''set_batch'' \<and> (\<exists>n. Option.bind (rf_value response) (field ''applied'' as_u64) = Some n \<and> n > 0)) \<and>
     Option.bind (rf_meta response) (field ''mutation'' as_bool) \<noteq> Some True \<and>
     Option.bind (rf_meta response) (field ''completion'' as_str) = Some ''notStarted''"
  unfolding completion_def by (auto split: option.splits)

theorem not_started_needs_evidence_witness:
  "completion \<lparr>rf_request_id = 1, rf_ok = False, rf_value = None, rf_error = None,
      rf_meta = Some (JObject [(''completion'', JString ''notStarted'')])\<rparr> (Some ''set'') = ''notStarted''"
  using not_started_needs_evidence [of "\<lparr>rf_request_id = 1, rf_ok = False, rf_value = None, rf_error = None,
      rf_meta = Some (JObject [(''completion'', JString ''notStarted'')])\<rparr>" "Some ''set''"]
  by (simp add: jget_def)

end
