(* ===== verification/WsState.thy ===== *)
theory WsState
  imports QueueSafety Operation
begin

text \<open>
  The WebSocket layer's shared state (\<^verbatim>\<open>src/server/ws/state.rs\<close>, the events of
  \<^verbatim>\<open>src/server/ws/frames.rs\<close>, and the admission of a plugin in \<^verbatim>\<open>src/server/ws/mod.rs\<close>):
  the single plugin slot shared by both transports, the watchers, and the request router.

  The tokio channels are packages outside the repository: a frame sender, a close signal and
  a one-shot reply sender are values of type parameters, what \<open>try_send\<close> answers is a
  parameter, and what an operation sends is the list of effects it returns. Random ids come
  from a parameter \<open>draws\<close>, the sequence of values \<open>Uuid::new_v4\<close> yields.
\<close>

section \<open>Events\<close>

datatype event =
    SyncActivity string nat nat nat "string list"
  | PluginStatus bool "string option" "string option"
  | DaemonNote string
  | ConflictEvent string "string option" string string
  | ChoiceNeeded string nat nat nat nat nat nat
  | ChoiceMade string string
  | DiskReview string nat nat nat
  | BacklogEvent nat nat

definition topic :: "event \<Rightarrow> string" where
  "topic e = (case e of
     SyncActivity _ _ _ _ _ \<Rightarrow> ''sync-activity'' | PluginStatus _ _ _ \<Rightarrow> ''plugin-status''
   | DaemonNote _ \<Rightarrow> ''daemon'' | ConflictEvent _ _ _ _ \<Rightarrow> ''conflict''
   | ChoiceNeeded _ _ _ _ _ _ _ \<Rightarrow> ''choice-needed'' | ChoiceMade _ _ \<Rightarrow> ''choice-made''
   | DiskReview _ _ _ _ \<Rightarrow> ''disk-review'' | BacklogEvent _ _ \<Rightarrow> ''backlog'')"

definition ACTIVITY_MAX_NAMES :: nat where
  "ACTIVITY_MAX_NAMES = 10"

definition ACTIVITY_MAX_NAME_LEN :: nat where
  "ACTIVITY_MAX_NAME_LEN = 120"

text \<open>\<open>chars().take(n)\<close> on UTF-8 bytes: a character starts at every byte that is no continuation byte.\<close>

definition continuation :: "char \<Rightarrow> bool" where
  "continuation c \<longleftrightarrow> (of_char c :: nat) div 64 = 2"

fun chars_take :: "nat \<Rightarrow> string \<Rightarrow> string" where
  "chars_take n [] = []"
| "chars_take n (c # cs) =
     (if continuation c then c # chars_take n cs
      else case n of 0 \<Rightarrow> [] | Suc m \<Rightarrow> c # chars_take m cs)"

definition sync_activity :: "string \<Rightarrow> ('u, 'v) changes \<Rightarrow> event" where
  "sync_activity direction c =
     SyncActivity direction (length (additions c)) (length (updates c)) (length (removals c))
       (map (chars_take ACTIVITY_MAX_NAME_LEN)
          (take ACTIVITY_MAX_NAMES (map as_name (additions c) @ List.map_filter us_name (updates c))))"

section \<open>State\<close>

record close_reason =
  cr_reason :: string
  cr_code :: string
  cr_retryable :: bool

datatype ('f, 'c) plugin_transport = WsTransport 'f 'c | LongPoll instant

record ('f, 'c) plugin_conn =
  pc_queue_id :: u32
  pc_name :: string
  pc_transport :: "('f, 'c) plugin_transport"

definition transport_name :: "('f, 'c) plugin_conn \<Rightarrow> string" where
  "transport_name p = (case pc_transport p of WsTransport _ _ \<Rightarrow> ''ws'' | LongPoll _ \<Rightarrow> ''long-poll'')"

record ('f, 'c) watcher =
  wt_frames :: 'f
  wt_close :: 'c
  wt_role :: string
  wt_topics :: "string list option"

datatype claim_error = ClaimAlreadySubscribed | SlotTaken string

record ('f, 'c, 'o) ws_state =
  ws_plugin :: "('f, 'c) plugin_conn option"
  ws_watchers :: "(u64 \<times> ('f, 'c) watcher) list"
  ws_next_watcher_id :: u64
  ws_next_request_id :: u32
  ws_pending :: "u32 \<rightharpoonup> 'o"
  ws_receipts :: receipts

definition ws_new :: "('f, 'c, 'o) ws_state" where
  "ws_new = \<lparr>ws_plugin = None, ws_watchers = [], ws_next_watcher_id = 1, ws_next_request_id = 1,
     ws_pending = Map.empty, ws_receipts = []\<rparr>"

section \<open>The plugin slot\<close>

definition LONGPOLL_EVICT_AFTER :: duration where
  "LONGPOLL_EVICT_AFTER = 130 * 1000"

partial_function (option) allocate_queue_id :: "(nat \<Rightarrow> 128 word) \<Rightarrow> nat \<Rightarrow> 'q queue \<Rightarrow> u32 option" where
  "allocate_queue_id draws i q =
     (let iid = ucast (drop_bit 96 (draws i)) :: u32 in
      if 0xFFFF < iid \<and> \<not> is_subscribed iid q then Some iid else allocate_queue_id draws (Suc i) q)"

definition stale :: "instant \<Rightarrow> ('f, 'c) plugin_conn \<Rightarrow> bool" where
  "stale now p = (case pc_transport p of LongPoll seen \<Rightarrow> LONGPOLL_EVICT_AFTER < now - seen | _ \<Rightarrow> False)"

definition evict_stale_longpoll :: "instant \<Rightarrow> ('f, 'c) plugin_conn option \<Rightarrow> 'q queue \<Rightarrow>
    ('f, 'c) plugin_conn option \<times> 'q queue" where
  "evict_stale_longpoll now slot q =
     (case slot of
        Some p \<Rightarrow> if stale now p then (None, fst (unsubscribe (pc_queue_id p) q)) else (slot, q)
      | None \<Rightarrow> (slot, q))"

definition claim_ws_plugin :: "instant \<Rightarrow> u32 \<Rightarrow> string \<Rightarrow> 'f \<Rightarrow> 'c \<Rightarrow> 'q queue \<Rightarrow> ('f, 'c, 'o) ws_state \<Rightarrow>
    'q queue \<times> ('f, 'c, 'o) ws_state \<times> (claim_error + unit)" where
  "claim_ws_plugin now iid name frames cls q ws =
     (case evict_stale_longpoll now (ws_plugin ws) q of
        (Some existing, q) \<Rightarrow> (q, ws\<lparr>ws_plugin := Some existing\<rparr>, Inl (SlotTaken (pc_name existing)))
      | (None, q) \<Rightarrow> (q, ws\<lparr>ws_plugin := Some \<lparr>pc_queue_id = iid, pc_name = name,
            pc_transport = WsTransport frames cls\<rparr>\<rparr>, Inr ()))"

definition claim_longpoll_plugin :: "('q, ('u, 'v) message) channel_ops \<Rightarrow> instant \<Rightarrow> u32 \<Rightarrow> string \<Rightarrow> 'q queue \<Rightarrow>
    ('f, 'c, 'o) ws_state \<Rightarrow> 'q queue \<times> ('f, 'c, 'o) ws_state \<times> (claim_error + unit)" where
  "claim_longpoll_plugin cb now client name q ws =
     (case evict_stale_longpoll now (ws_plugin ws) q of
        (Some existing, q) \<Rightarrow> (q, ws\<lparr>ws_plugin := Some existing\<rparr>, Inl (SlotTaken (pc_name existing)))
      | (None, q) \<Rightarrow>
          (case subscribe cb client name q of
             (q, Inl _) \<Rightarrow> (q, ws\<lparr>ws_plugin := None\<rparr>, Inl ClaimAlreadySubscribed)
           | (q, Inr _) \<Rightarrow> (q, ws\<lparr>ws_plugin := Some \<lparr>pc_queue_id = client, pc_name = name,
                pc_transport = LongPoll now\<rparr>\<rparr>, Inr ())))"

definition release_plugin :: "u32 \<Rightarrow> ('f, 'c, 'o) ws_state \<Rightarrow> ('f, 'c, 'o) ws_state \<times> ('f, 'c) plugin_conn option" where
  "release_plugin iid ws =
     (case ws_plugin ws of
        Some p \<Rightarrow> if pc_queue_id p = iid then (ws\<lparr>ws_plugin := None\<rparr>, Some p) else (ws, None)
      | None \<Rightarrow> (ws, None))"

definition touch_longpoll :: "instant \<Rightarrow> u32 \<Rightarrow> ('f, 'c, 'o) ws_state \<Rightarrow> ('f, 'c, 'o) ws_state" where
  "touch_longpoll now client ws =
     (case ws_plugin ws of
        Some p \<Rightarrow>
          (case pc_transport p of
             LongPoll _ \<Rightarrow> if pc_queue_id p = client then ws\<lparr>ws_plugin := Some (p\<lparr>pc_transport := LongPoll now\<rparr>)\<rparr> else ws
           | _ \<Rightarrow> ws)
      | None \<Rightarrow> ws)"

definition plugin_status :: "('f, 'c, 'o) ws_state \<Rightarrow> (string \<times> string) option" where
  "plugin_status ws = map_option (\<lambda>p. (pc_name p, transport_name p)) (ws_plugin ws)"

definition plugin_queue_id :: "('f, 'c, 'o) ws_state \<Rightarrow> u32 option" where
  "plugin_queue_id ws = Option.bind (ws_plugin ws)
     (\<lambda>p. case pc_transport p of WsTransport _ _ \<Rightarrow> Some (pc_queue_id p) | _ \<Rightarrow> None)"

datatype no_plugin = NoPlugin | LongPollPlugin

definition plugin_frames :: "('f, 'c, 'o) ws_state \<Rightarrow> no_plugin + 'f" where
  "plugin_frames ws =
     (case ws_plugin ws of
        None \<Rightarrow> Inl NoPlugin
      | Some p \<Rightarrow> (case pc_transport p of LongPoll _ \<Rightarrow> Inl LongPollPlugin | WsTransport f _ \<Rightarrow> Inr f))"

text \<open>
  The admission of a WS plugin, the part of \<open>plugin_connection\<close> up to its refusal: allocate an
  id, subscribe it, claim the slot, and unsubscribe again when the slot is taken.
\<close>

datatype admission = BadSubscription | SlotRefused string | Admitted u32

definition admit_plugin :: "('q, ('u, 'v) message) channel_ops \<Rightarrow> instant \<Rightarrow> u32 \<Rightarrow> string \<Rightarrow> 'f \<Rightarrow> 'c \<Rightarrow>
    'q queue \<Rightarrow> ('f, 'c, 'o) ws_state \<Rightarrow> 'q queue \<times> ('f, 'c, 'o) ws_state \<times> admission" where
  "admit_plugin cb now iid name frames cls q ws =
     (case subscribe cb iid name q of
        (q, Inl _) \<Rightarrow> (q, ws, BadSubscription)
      | (q, Inr _) \<Rightarrow>
          (case claim_ws_plugin now iid name frames cls q ws of
             (q, ws, Inl e) \<Rightarrow> (fst (unsubscribe iid q), ws,
               SlotRefused (case e of SlotTaken n \<Rightarrow> n | ClaimAlreadySubscribed \<Rightarrow> ''unknown''))
           | (q, ws, Inr _) \<Rightarrow> (q, ws, Admitted iid)))"

section \<open>The request router\<close>

definition begin_operation :: "instant \<Rightarrow> u32 \<Rightarrow> string \<Rightarrow> string \<Rightarrow> ('f, 'c, 'o) ws_state \<Rightarrow> ('f, 'c, 'o) ws_state \<times> bool" where
  "begin_operation now i oid op ws =
     (case receipts_begin now i oid op (ws_receipts ws) of (rs, b) \<Rightarrow> (ws\<lparr>ws_receipts := rs\<rparr>, b))"

definition finish_operation :: "u32 \<Rightarrow> string \<Rightarrow> string option \<Rightarrow> ('f, 'c, 'o) ws_state \<Rightarrow> ('f, 'c, 'o) ws_state" where
  "finish_operation i c e ws = ws\<lparr>ws_receipts := receipts_finish i c e (ws_receipts ws)\<rparr>"

definition operation_name :: "u32 \<Rightarrow> ('f, 'c, 'o) ws_state \<Rightarrow> string option" where
  "operation_name i ws = receipts_op i (ws_receipts ws)"

partial_function (option) request_id_from :: "u32 \<Rightarrow> (u32 \<times> u32) option" where
  "request_id_from n = (if n \<noteq> 0 then Some (n, n + 1) else request_id_from (n + 1))"

definition next_request_id :: "('f, 'c, 'o) ws_state \<Rightarrow> (u32 \<times> ('f, 'c, 'o) ws_state) option" where
  "next_request_id ws =
     map_option (\<lambda>(i, n). (i, ws\<lparr>ws_next_request_id := n\<rparr>)) (request_id_from (ws_next_request_id ws))"

definition register_request :: "u32 \<Rightarrow> 'o \<Rightarrow> ('f, 'c, 'o) ws_state \<Rightarrow> ('f, 'c, 'o) ws_state" where
  "register_request i sender ws = ws\<lparr>ws_pending := (ws_pending ws)(i \<mapsto> sender)\<rparr>"

definition abort_request :: "u32 \<Rightarrow> ('f, 'c, 'o) ws_state \<Rightarrow> ('f, 'c, 'o) ws_state" where
  "abort_request i ws = ws\<lparr>ws_pending := (ws_pending ws)(i := None)\<rparr>"

definition resolve_request :: "response_frame \<Rightarrow> ('f, 'c, 'o) ws_state \<Rightarrow> ('f, 'c, 'o) ws_state \<times> ('o \<times> response_frame) option" where
  "resolve_request r ws =
     (let i = rf_request_id r;
          ws = (case operation_name i ws of
                  Some op \<Rightarrow> finish_operation i (completion r (Some op)) (map_option oe_code (rf_error r)) ws
                | None \<Rightarrow> ws)
      in (ws\<lparr>ws_pending := (ws_pending ws)(i := None)\<rparr>, map_option (\<lambda>sender. (sender, r)) (ws_pending ws i)))"

definition fail_pending_requests :: "('f, 'c, 'o) ws_state \<Rightarrow> ('f, 'c, 'o) ws_state" where
  "fail_pending_requests ws = ws\<lparr>ws_pending := Map.empty\<rparr>"

section \<open>Watchers\<close>

datatype send_result = Sent | FullQueue | ClosedQueue

datatype ('f, 'c) ws_effect = SendFrame 'f string | CloseWith 'c close_reason

definition register_watcher :: "string \<Rightarrow> 'f \<Rightarrow> 'c \<Rightarrow> ('f, 'c, 'o) ws_state \<Rightarrow> ('f, 'c, 'o) ws_state \<times> u64" where
  "register_watcher role frames cls ws =
     (let wid = ws_next_watcher_id ws in
      (ws\<lparr>ws_next_watcher_id := wid + 1,
          ws_watchers := (wid, \<lparr>wt_frames = frames, wt_close = cls, wt_role = role, wt_topics = None\<rparr>) #
            filter (\<lambda>(w, _). w \<noteq> wid) (ws_watchers ws)\<rparr>, wid))"

definition remove_watcher :: "u64 \<Rightarrow> ('f, 'c, 'o) ws_state \<Rightarrow> ('f, 'c, 'o) ws_state" where
  "remove_watcher wid ws = ws\<lparr>ws_watchers := filter (\<lambda>(w, _). w \<noteq> wid) (ws_watchers ws)\<rparr>"

definition set_watcher_topics :: "u64 \<Rightarrow> string list \<Rightarrow> ('f, 'c, 'o) ws_state \<Rightarrow> ('f, 'c, 'o) ws_state" where
  "set_watcher_topics wid topics ws =
     ws\<lparr>ws_watchers := map (\<lambda>(w, x). (w, if w = wid then x\<lparr>wt_topics := Some topics\<rparr> else x)) (ws_watchers ws)\<rparr>"

definition wants :: "event \<Rightarrow> ('f, 'c) watcher \<Rightarrow> bool" where
  "wants e w = (case wt_topics w of None \<Rightarrow> True | Some ts \<Rightarrow> list_ex (\<lambda>t. t = topic e) ts)"

definition slow_consumer :: close_reason where
  "slow_consumer = \<lparr>cr_reason = ''Client is not reading events fast enough'', cr_code = ''SLOW_CONSUMER'',
     cr_retryable = True\<rparr>"

definition emit :: "(event \<Rightarrow> string) \<Rightarrow> ('f \<Rightarrow> string \<Rightarrow> send_result) \<Rightarrow> event \<Rightarrow> ('f, 'c, 'o) ws_state \<Rightarrow>
    ('f, 'c) ws_effect list" where
  "emit to_text try_send e ws =
     concat (map (\<lambda>(_, w).
       if wants e w
       then (case try_send (wt_frames w) (to_text e) of
               Sent \<Rightarrow> [SendFrame (wt_frames w) (to_text e)]
             | FullQueue \<Rightarrow> [CloseWith (wt_close w) slow_consumer]
             | ClosedQueue \<Rightarrow> [])
       else []) (ws_watchers ws))"

definition broadcast_close :: "string \<Rightarrow> string \<Rightarrow> ('f, 'c, 'o) ws_state \<Rightarrow> ('f, 'c) ws_effect list" where
  "broadcast_close reason code ws =
     (let r = \<lparr>cr_reason = reason, cr_code = code, cr_retryable = False\<rparr> in
      (case ws_plugin ws of
         Some p \<Rightarrow> (case pc_transport p of WsTransport _ c \<Rightarrow> [CloseWith c r] | LongPoll _ \<Rightarrow> [])
       | None \<Rightarrow> []) @
      map (\<lambda>(_, w). CloseWith (wt_close w) r) (ws_watchers ws))"

end
