(* ===== verification/WsSafety.thy ===== *)
theory WsSafety
  imports WsState
begin

text \<open>
  What the WebSocket layer guarantees: one live plugin, admission that leaves nothing behind
  when it is refused, request ids that do not repeat, and responses routed to their caller.
  The slot's relation to the sync queue rests on the queue's subscription contract.
\<close>

section \<open>The plugin slot\<close>

text \<open>The plugin that holds the slot is subscribed on the queue.\<close>

definition slot_ok :: "'q queue \<Rightarrow> ('f, 'c, 'o) ws_state \<Rightarrow> bool" where
  "slot_ok q ws \<longleftrightarrow> (\<forall>p. ws_plugin ws = Some p \<longrightarrow> is_subscribed (pc_queue_id p) q)"

lemma evict_cases:
  "(\<exists>p. slot = Some p \<and> stale now p \<and> evict_stale_longpoll now slot q = (None, fst (unsubscribe (pc_queue_id p) q))) \<or>
   (\<forall>p. slot = Some p \<longrightarrow> \<not> stale now p) \<and> evict_stale_longpoll now slot q = (slot, q)"
  by (cases slot) (auto simp: evict_stale_longpoll_def)

text \<open>
  C14: One Studio plugin owns the bridge. A WS plugin is admitted exactly when the slot is free or
  held by a long-poll plugin silent for more than 130 seconds; a live plugin keeps the slot.
  Admitted, the newcomer holds the slot and is subscribed; refused, the slot and every
  subscription are as before.
\<close>

theorem admission_exact:
  assumes "slot_ok q ws" "\<not> is_subscribed iid q"
  shows "let r = admit_plugin cb now iid name frames cls q ws; q' = fst r; ws' = fst (snd r) in
    (case snd (snd r) of
       Admitted i \<Rightarrow> i = iid \<and> (\<forall>p. ws_plugin ws = Some p \<longrightarrow> stale now p) \<and>
         map_option pc_queue_id (ws_plugin ws') = Some iid \<and> is_subscribed iid q' \<and>
         (\<forall>j. is_subscribed j q' \<longleftrightarrow> j = iid \<or> is_subscribed j q \<and> map_option pc_queue_id (ws_plugin ws) \<noteq> Some j)
     | SlotRefused n \<Rightarrow> (\<exists>p. ws_plugin ws = Some p \<and> \<not> stale now p \<and> n = pc_name p) \<and>
         ws_plugin ws' = ws_plugin ws \<and> (\<forall>j. is_subscribed j q' \<longleftrightarrow> is_subscribed j q)
     | BadSubscription \<Rightarrow> False)"
proof -
  obtain q1 where sub: "subscribe cb iid name q = (q1, Inr ())"
    using assms(2) by (simp add: subscribe_def)
  have sub1: "is_subscribed j q1 \<longleftrightarrow> j = iid \<or> is_subscribed j q" for j
    using qs.sub_effect [of j cb iid name q] sub by simp
  consider (stale) p where "ws_plugin ws = Some p" "stale now p"
      "evict_stale_longpoll now (ws_plugin ws) q1 = (None, fst (unsubscribe (pc_queue_id p) q1))"
    | (live) p where "ws_plugin ws = Some p" "\<not> stale now p" "evict_stale_longpoll now (ws_plugin ws) q1 = (ws_plugin ws, q1)"
    | (free) "ws_plugin ws = None" "evict_stale_longpoll now (ws_plugin ws) q1 = (None, q1)"
    using evict_cases [of "ws_plugin ws" now q1] by (cases "ws_plugin ws") auto
  then show ?thesis
  proof cases
    case stale
    then have "pc_queue_id p \<noteq> iid" using assms by (auto simp: slot_ok_def)
    with stale sub show ?thesis
      by (auto simp: admit_plugin_def claim_ws_plugin_def Let_def qs.unsub_effect sub1)
  next
    case live
    then have "ws\<lparr>ws_plugin := Some p\<rparr> = ws" by simp
    with live sub assms(2) show ?thesis
      by (auto simp: admit_plugin_def claim_ws_plugin_def Let_def qs.unsub_effect sub1)
  next
    case free
    with sub show ?thesis by (auto simp: admit_plugin_def claim_ws_plugin_def Let_def sub1)
  qed
qed

theorem admission_exact_witness:
  "snd (snd (admit_plugin (list_channel :: (_, (unit, unit) message) channel_ops) 200000 70000 ''b'' () ()
     (fst (subscribe list_channel 65536 ''a'' queue_new))
     ((ws_new :: (unit, unit, unit) ws_state)\<lparr>ws_plugin := Some \<lparr>pc_queue_id = 65536, pc_name = ''a'', pc_transport = LongPoll 100000\<rparr>\<rparr>))) =
   SlotRefused ''a''"
proof -
  let ?q = "fst (subscribe (list_channel :: (_, (unit, unit) message) channel_ops) 65536 ''a'' queue_new)"
  let ?ws = "(ws_new :: (unit, unit, unit) ws_state)\<lparr>ws_plugin := Some \<lparr>pc_queue_id = 65536, pc_name = ''a'', pc_transport = LongPoll 100000\<rparr>\<rparr>"
  have "slot_ok ?q ?ws" "\<not> is_subscribed 70000 ?q"
    by (simp_all add: slot_ok_def subscribe_def is_subscribed_def queue_new_def add_channel_def add_listener_def)
  from admission_exact [OF this, of "list_channel :: (_, (unit, unit) message) channel_ops" 200000 "''b''" "()" "()"]
  show ?thesis
    by (auto simp: Let_def stale_def LONGPOLL_EVICT_AFTER_def split: admission.splits)
qed

text \<open>
  The loop that draws a queue id returns as soon as some draw is usable, and what it returns
  lies outside the internal range and is not subscribed.
\<close>

theorem allocate_queue_id_usable:
  assumes "0xFFFF < (ucast (drop_bit 96 (draws n)) :: u32)" "\<not> is_subscribed (ucast (drop_bit 96 (draws n))) q"
  shows "\<exists>iid. allocate_queue_id draws 0 q = Some iid \<and> 0xFFFF < iid \<and> \<not> is_subscribed iid q"
proof -
  have "\<exists>iid. allocate_queue_id draws i q = Some iid \<and> 0xFFFF < iid \<and> \<not> is_subscribed iid q"
    if "i + k = n" for i k
    using that
  proof (induction k arbitrary: i)
    case 0
    then show ?case using assms by (subst allocate_queue_id.simps) (simp add: Let_def)
  next
    case (Suc k)
    then show ?case using Suc.IH [of "Suc i"] by (subst (1) allocate_queue_id.simps) (auto simp: Let_def)
  qed
  from this [of 0 n] show ?thesis by simp
qed

theorem allocate_queue_id_usable_witness:
  "\<exists>iid. allocate_queue_id (\<lambda>i. if i = 3 then push_bit 96 70000 else 0) 0 (queue_new :: unit queue) = Some iid \<and> 0xFFFF < iid"
  using allocate_queue_id_usable [of "\<lambda>i. if i = 3 then push_bit 96 70000 else 0" 3 "queue_new :: unit queue"]
  by (auto simp: is_subscribed_def queue_new_def)

section \<open>Request ids\<close>

lemma request_id_from_value: "request_id_from n = Some (if n = 0 then (1, 2) else (n, n + 1))"
  by (simp add: request_id_from.simps [of n] request_id_from.simps [of 1])

text \<open>The ids in the order they are handed out: 1 up to \<open>2\<^sup>3\<^sup>2 - 1\<close>, then from 1 again.\<close>

definition ID_CYCLE :: nat where
  "ID_CYCLE = 2 ^ 32 - 1"

definition id_after :: "nat \<Rightarrow> u32" where
  "id_after k = of_nat (Suc (k mod ID_CYCLE))"

fun request_ids :: "nat \<Rightarrow> ('f, 'c, 'o) ws_state \<Rightarrow> u32 list" where
  "request_ids 0 ws = []"
| "request_ids (Suc k) ws = (case next_request_id ws of None \<Rightarrow> [] | Some (i, ws) \<Rightarrow> i # request_ids k ws)"

lemma ID_CYCLE_bound: "k mod ID_CYCLE < ID_CYCLE" "Suc ID_CYCLE = 2 ^ 32"
  by (simp_all add: ID_CYCLE_def)

lemma unat_id_after: "unat (id_after k) = Suc (k mod ID_CYCLE)"
proof -
  have "Suc (k mod ID_CYCLE) < 2 ^ 32" using ID_CYCLE_bound(1) [of k] ID_CYCLE_bound(2) by linarith
  then have "Suc (k mod ID_CYCLE) mod 2 ^ 32 = Suc (k mod ID_CYCLE)" by (rule mod_less)
  then show ?thesis unfolding id_after_def unat_of_nat len_num0 len_num1 len_bit0 by simp
qed

lemma id_after_nonzero: "id_after k \<noteq> 0"
  using unat_id_after [of k] by (metis nat.distinct(1) unsigned_0)

lemma id_after_Suc: "id_after k + 1 = (if Suc k mod ID_CYCLE = 0 then 0 else id_after (Suc k))"
proof -
  have step: "id_after k + 1 = of_nat (Suc (Suc (k mod ID_CYCLE)))" by (simp add: id_after_def)
  show ?thesis
  proof (cases "Suc (k mod ID_CYCLE) = ID_CYCLE")
    case True
    then have "Suc k mod ID_CYCLE = 0" by (metis mod_Suc)
    moreover have "Suc (Suc (k mod ID_CYCLE)) = 2 ^ 32" using True ID_CYCLE_bound(2) by simp
    moreover have "(of_nat (2 ^ 32) :: u32) = 0" by simp
    ultimately show ?thesis using step by metis
  next
    case False
    then have "Suc k mod ID_CYCLE = Suc (k mod ID_CYCLE)" by (metis mod_Suc)
    then show ?thesis using step by (simp add: id_after_def)
  qed
qed

lemma request_ids_value:
  "ws_next_request_id ws \<in> {id_after s, if s mod ID_CYCLE = 0 then 0 else id_after s} \<Longrightarrow>
   request_ids k ws = map (\<lambda>j. id_after (s + j)) [0..<k]"
proof (induction k arbitrary: ws s)
  case (Suc k)
  have one: "s mod ID_CYCLE = 0 \<Longrightarrow> id_after s = 1" by (simp add: id_after_def)
  have nxt: "next_request_id ws = Some (id_after s, ws\<lparr>ws_next_request_id := id_after s + 1\<rparr>)"
    using Suc.prems id_after_nonzero [of s] one
    by (auto simp: next_request_id_def request_id_from_value split: if_splits)
  have "request_ids k (ws\<lparr>ws_next_request_id := id_after s + 1\<rparr>) = map (\<lambda>j. id_after (Suc s + j)) [0..<k]"
    by (rule Suc.IH) (simp add: id_after_Suc)
  moreover have "[0..<Suc k] = 0 # map Suc [0..<k]" by (metis map_Suc_upt upt_conv_Cons zero_less_Suc)
  ultimately show ?case using nxt by (simp add: comp_def)
qed simp

text \<open>
  Request ids never repeat while a request can be pending: the first \<open>2\<^sup>3\<^sup>2 - 1\<close> ids a
  daemon hands out are distinct, none is zero, and the wrapped counter starts over at 1.
\<close>

theorem request_ids_distinct:
  assumes "k < 2 ^ 32"
  shows "let ids = request_ids k (ws_new :: ('f, 'c, 'o) ws_state) in
    distinct ids \<and> length ids = k \<and> 0 \<notin> set ids \<and>
    request_ids (Suc ID_CYCLE) (ws_new :: ('f, 'c, 'o) ws_state) ! ID_CYCLE = 1"
proof -
  have start: "ws_next_request_id (ws_new :: ('f, 'c, 'o) ws_state) \<in> {id_after 0, if 0 mod ID_CYCLE = 0 then 0 else id_after 0}"
    by (simp add: ws_new_def id_after_def)
  have eq: "request_ids n (ws_new :: ('f, 'c, 'o) ws_state) = map id_after [0..<n]" for n
    using request_ids_value [OF start] by simp
  have "inj_on id_after {0..<k}"
  proof (rule inj_onI)
    fix x y assume xy: "x \<in> {0..<k}" "y \<in> {0..<k}" and "id_after x = id_after y"
    then have "x mod ID_CYCLE = y mod ID_CYCLE" by (metis unat_id_after nat.inject)
    moreover have "x < ID_CYCLE" "y < ID_CYCLE" using xy assms ID_CYCLE_bound(2) by auto
    ultimately show "x = y" by simp
  qed
  moreover have "id_after ID_CYCLE = 1" by (simp add: id_after_def)
  ultimately show ?thesis
    unfolding eq Let_def using id_after_nonzero
    by (auto simp: distinct_map nth_append simp del: upt_Suc simp add: nth_map)
qed

theorem request_ids_distinct_witness:
  "distinct (request_ids 3 (ws_new :: (unit, unit, unit) ws_state))"
  using request_ids_distinct [of 3, where 'f = unit and 'c = unit and 'o = unit] by (simp add: Let_def)

section \<open>Responses\<close>

text \<open>
  A response reaches the caller that waits for it and no other, each caller at most once, and
  its evidence is kept even when no caller waits any more: if the request's receipt is still
  open, it is finished with the completion the response proves.
\<close>

theorem response_routed:
  fixes ws :: "('f, 'c, 'o) ws_state"
  assumes "resolve_request r ws = (ws', delivered)"
  shows "delivered = map_option (\<lambda>sender. (sender, r)) (ws_pending ws (rf_request_id r)) \<and>
    ws_pending ws' = (ws_pending ws)(rf_request_id r := None) \<and>
    snd (resolve_request r ws') = None \<and>
    (\<forall>op. operation_name (rf_request_id r) ws = Some op \<and> receipts_ok (ws_receipts ws) \<longrightarrow>
       (\<exists>rc\<in>set (ws_receipts ws'). rc_request_id rc = rf_request_id r \<and>
          (rc_finished rc \<and> rc_completion rc = completion r (Some op) \<or> rc_completion rc \<noteq> ''unknown'')))"
proof -
  let ?i = "rf_request_id r"
  have pend: "delivered = map_option (\<lambda>sender. (sender, r)) (ws_pending ws ?i)"
      "ws_pending ws' = (ws_pending ws)(?i := None)"
    using assms by (auto simp: resolve_request_def Let_def finish_operation_def split: option.splits)
  have again: "snd (resolve_request r ws') = None"
    using pend(2) by (simp add: resolve_request_def Let_def finish_operation_def split: option.splits)
  have "\<exists>rc\<in>set (ws_receipts ws'). rc_request_id rc = ?i \<and>
      (rc_finished rc \<and> rc_completion rc = completion r (Some op) \<or> rc_completion rc \<noteq> ''unknown'')"
    if op: "operation_name ?i ws = Some op" for op
  proof -
    let ?rs = "ws_receipts ws" and ?c = "completion r (Some op)" and ?e = "map_option oe_code (rf_error r)"
    have rs': "ws_receipts ws' = receipts_finish ?i ?c ?e ?rs"
      using assms op by (auto simp: resolve_request_def Let_def finish_operation_def)
    have "\<exists>x\<in>set ?rs. rc_request_id x = ?i"
      using op by (auto simp: operation_name_def receipts_op_def find_Some_iff)
    then obtain k where k: "position (\<lambda>r. rc_request_id r = ?i) ?rs = Some k"
      using position_None [of "\<lambda>r. rc_request_id r = ?i" ?rs] by (metis option.exhaust)
    have len: "k < length ?rs" and at: "rc_request_id (?rs ! k) = ?i" using position_SomeD [OF k] by auto
    have "receipt_finish ?c ?e (?rs ! k) \<in> set (ws_receipts ws')"
      using rs' k len by (simp add: receipts_finish_def set_update_memI)
    moreover have "rc_request_id (receipt_finish ?c ?e (?rs ! k)) = ?i"
      using at by (simp add: receipt_finish_def)
    moreover have "rc_finished (receipt_finish ?c ?e (?rs ! k)) \<and> rc_completion (receipt_finish ?c ?e (?rs ! k)) = ?c \<or>
        rc_completion (receipt_finish ?c ?e (?rs ! k)) \<noteq> ''unknown''"
      by (auto simp: receipt_finish_def)
    ultimately show ?thesis by blast
  qed
  then show ?thesis using pend again by blast
qed

theorem response_routed_witness:
  "snd (resolve_request \<lparr>rf_request_id = 5, rf_ok = True, rf_value = None, rf_error = None, rf_meta = None\<rparr>
     (register_request 5 ''caller'' (ws_new :: (unit, unit, string) ws_state))) =
   Some (''caller'', \<lparr>rf_request_id = 5, rf_ok = True, rf_value = None, rf_error = None, rf_meta = None\<rparr>)"
  using response_routed [of "\<lparr>rf_request_id = 5, rf_ok = True, rf_value = None, rf_error = None, rf_meta = None\<rparr>"
      "register_request 5 ''caller'' (ws_new :: (unit, unit, string) ws_state)", OF prod.collapse [symmetric]]
  by (simp add: register_request_def)

section \<open>Events\<close>

text \<open>
  An event goes to exactly the watchers subscribed to its topic that can take it, and the frame sent
  carries the text of the event.
\<close>

theorem emit_exact:
  "SendFrame f t \<in> set (emit to_text try_send e ws) \<longleftrightarrow>
     t = to_text e \<and> try_send f t = Sent \<and> (\<exists>wid w. (wid, w) \<in> set (ws_watchers ws) \<and> wt_frames w = f \<and>
       (wt_topics w = None \<or> (\<exists>ts. wt_topics w = Some ts \<and> topic e \<in> set ts)))"
proof -
  have "SendFrame f t \<in> set (if wants e w then (case try_send (wt_frames w) (to_text e) of
          Sent \<Rightarrow> [SendFrame (wt_frames w) (to_text e)]
        | FullQueue \<Rightarrow> [CloseWith (wt_close w) slow_consumer] | ClosedQueue \<Rightarrow> []) else []) \<longleftrightarrow>
      t = to_text e \<and> try_send f t = Sent \<and> wt_frames w = f \<and> wants e w" for w :: "('a, 'b) watcher"
    by (cases "try_send (wt_frames w) (to_text e)") auto
  moreover have "wants e w \<longleftrightarrow> wt_topics w = None \<or> (\<exists>ts. wt_topics w = Some ts \<and> topic e \<in> set ts)" for w :: "('a, 'b) watcher"
    by (cases "wt_topics w") (auto simp: wants_def list_ex_iff)
  ultimately show ?thesis
    unfolding emit_def set_concat set_map by (simp add: split_def Bex_def) blast
qed

end
