(* ===== verification/Ops.thy ===== *)
theory Ops
  imports TreeSafety Frames
begin

text \<open>
  The requests the daemon answers itself (\<^verbatim>\<open>src/server/ops.rs\<close>): \<open>path\<close>, \<open>meta\<close> and
  \<open>where\<close>, resolved against the instance tree. \<open>path_clean\<close> is the parameter \<open>clean\<close>, the
  lossy text of a path \<open>show_path\<close>, and Unicode lower case \<open>lower\<close>. An error keeps its code;
  its message is the fixed part of the source's text. The outer \<open>None\<close> is a
  walk that does not end, which a well formed tree rules out.
\<close>

section \<open>Definitions\<close>

record op_world =
  ow_clean :: "path \<Rightarrow> path"
  ow_show_path :: "path \<Rightarrow> string"
  ow_lower :: "string \<Rightarrow> string"
  ow_workspace_dir :: path

type_synonym op_failure = "string \<times> string"

definition WHERE_MATCH_LIMIT :: nat where
  "WHERE_MATCH_LIMIT = 500"

definition NOT_FOUND :: string where "NOT_FOUND = ''NOT_FOUND''"
definition INVALID_ARGUMENT :: string where "INVALID_ARGUMENT = ''INVALID_ARGUMENT''"
definition CONFLICT :: string where "CONFLICT = ''CONFLICT''"
definition PLUGIN_ERROR :: string where "PLUGIN_ERROR = ''PLUGIN_ERROR''"
definition TIMEOUT :: string where "TIMEOUT = ''TIMEOUT''"
definition UNKNOWN_OP :: string where "UNKNOWN_OP = ''UNKNOWN_OP''"

definition arg_str :: "json \<Rightarrow> string \<Rightarrow> string option" where
  "arg_str args key = (case Option.bind (jget key args) as_str of
     Some v \<Rightarrow> if v \<noteq> [] then Some v else None | None \<Rightarrow> None)"

definition require_target :: "json \<Rightarrow> op_failure + string" where
  "require_target args = (case arg_str args ''target'' of
     Some t \<Rightarrow> Inr t | None \<Rightarrow> Inl (INVALID_ARGUMENT, ''target must be a non-empty string''))"

fun descend :: "(dref \<Rightarrow> 'v inst option) \<Rightarrow> dref \<Rightarrow> string list \<Rightarrow> dref option" where
  "descend get current [] = Some current"
| "descend get current (segment # segments) =
     (case get current of
        None \<Rightarrow> None
      | Some x \<Rightarrow> (case find (\<lambda>child. case get child of Some y \<Rightarrow> in_name y = segment | None \<Rightarrow> False) (in_children x) of
            None \<Rightarrow> None
          | Some child \<Rightarrow> descend get child segments))"

definition resolve_studio :: "('d, 'm, 'v) tree_ops \<Rightarrow> ('d, 'm, 'u) tree \<Rightarrow> string \<Rightarrow> dref option" where
  "resolve_studio ops t target =
     (let segments = filter (\<lambda>s. s \<noteq> []) (split_slash target);
          segments = (case segments of s # ss \<Rightarrow> if s = ''game'' then ss else segments | [] \<Rightarrow> [])
      in if segments = [] then None else descend (dom_get ops (t_dom t)) (root_ref ops t) segments)"

text \<open>\<open>Path::new\<close> on a string, as its components.\<close>

definition path_of_str :: "string \<Rightarrow> path" where
  "path_of_str s =
     (let segments = split_slash s;
          rel = filter (\<lambda>c. c \<noteq> [] \<and> c \<noteq> ''.'') segments
      in if prefix ''/'' s then ''/'' # rel
         else if hd segments = ''.'' then ''.'' # rel else rel)"

definition is_absolute :: "path \<Rightarrow> bool" where
  "is_absolute p \<longleftrightarrow> p \<noteq> [] \<and> hd p = ''/''"

definition resolve_fs :: "op_world \<Rightarrow> ('d, 'm, 'v) tree_ops \<Rightarrow> ('d, 'm, 'u) tree \<Rightarrow> string \<Rightarrow> dref option" where
  "resolve_fs w ops t target =
     (let p = path_of_str target;
          absolute = (if is_absolute p then ow_clean w p else ow_clean w (ow_workspace_dir w @ p))
      in Option.bind (get_ids ops t absolute) (\<lambda>ids. case ids of [] \<Rightarrow> None | i # _ \<Rightarrow> Some i))"

datatype from_side = FromAuto | FromStudio | FromFs

definition parse_from :: "json \<Rightarrow> op_failure + from_side" where
  "parse_from args =
     (case Option.bind (jget ''from'' args) as_str of
        None \<Rightarrow> Inr FromAuto
      | Some f \<Rightarrow>
          if f = ''auto'' then Inr FromAuto
          else if f = ''studio'' then Inr FromStudio
          else if f = ''fs'' then Inr FromFs
          else Inl (INVALID_ARGUMENT, ''from must be auto, studio or fs''))"

definition resolve_target ::
  "op_world \<Rightarrow> ('d, 'm, 'v) tree_ops \<Rightarrow> ('d, 'm, 'u) tree \<Rightarrow> string \<Rightarrow> from_side \<Rightarrow> op_failure + dref" where
  "resolve_target w ops t target from =
     (case (case from of
              FromStudio \<Rightarrow> resolve_studio ops t target
            | FromFs \<Rightarrow> resolve_fs w ops t target
            | FromAuto \<Rightarrow> (case resolve_studio ops t target of
                  Some i \<Rightarrow> Some i | None \<Rightarrow> resolve_fs w ops t target)) of
        Some i \<Rightarrow> Inr i
      | None \<Rightarrow> Inl (NOT_FOUND, target @ '' is not in the projected tree''))"

definition op_source_paths :: "op_world \<Rightarrow> ('d, 'm, 'u) tree \<Rightarrow> dref \<Rightarrow> string list" where
  "op_source_paths w t i =
     (case get_meta t i of
        None \<Rightarrow> []
      | Some mt \<Rightarrow> map (\<lambda>e. ow_show_path w (strip_or_self (ow_workspace_dir w) (entry_path e)))
          (sort_key entry_index (src_relevant (mt_source mt))))"

definition target_kind :: "('d, 'm, 'u) tree \<Rightarrow> dref \<Rightarrow> string" where
  "target_kind t i =
     (case get_meta t i of
        None \<Rightarrow> ''project-node''
      | Some mt \<Rightarrow>
          if list_ex (\<lambda>e. case e of EFolder _ \<Rightarrow> True | _ \<Rightarrow> False) (src_relevant (mt_source mt)) then ''dir''
          else if get_file (mt_source mt) \<noteq> None then ''file''
          else (case src_inner (mt_source mt) of SPath _ \<Rightarrow> ''dir'' | _ \<Rightarrow> ''project-node''))"

definition answer_path ::
  "op_world \<Rightarrow> ('d, 'm, 'v) tree_ops \<Rightarrow> ('d, 'm, 'u) tree \<Rightarrow> json \<Rightarrow> (op_failure + json) option" where
  "answer_path w ops t args =
     (case require_target args of Inl e \<Rightarrow> Some (Inl e) | Inr target \<Rightarrow>
      (case parse_from args of Inl e \<Rightarrow> Some (Inl e) | Inr from \<Rightarrow>
       (case resolve_target w ops t target from of Inl e \<Rightarrow> Some (Inl e) | Inr i \<Rightarrow>
        map_option (\<lambda>ip. Inr (JObject [(''studioPath'', JString ip),
          (''fsPaths'', JArray (map JString (op_source_paths w t i))),
          (''kind'', JString (target_kind t i))])) (instance_path ops t i))))"

text \<open>\<open>Middleware::from_class\<close> without properties, and its debug name.\<close>

definition middleware_from_class :: "string \<Rightarrow> string option" where
  "middleware_from_class cls = map_of [(''Script'', ''ServerScript''), (''LocalScript'', ''LocalScript''),
     (''ModuleScript'', ''ModuleScript''), (''StringValue'', ''StringValue''),
     (''LocalizationTable'', ''LocalizationTable'')] cls"

definition answer_meta ::
  "op_world \<Rightarrow> ('d, 'm, 'v) tree_ops \<Rightarrow> ('d, 'm, 'u) tree \<Rightarrow> json \<Rightarrow> (op_failure + json) option" where
  "answer_meta w ops t args =
     (case require_target args of Inl e \<Rightarrow> Some (Inl e) | Inr target \<Rightarrow>
      (case parse_from args of Inl e \<Rightarrow> Some (Inl e) | Inr from \<Rightarrow>
       (case resolve_target w ops t target from of Inl e \<Rightarrow> Some (Inl e) | Inr i \<Rightarrow>
        (case get_instance ops t i of
           None \<Rightarrow> Some (Inl (NOT_FOUND, target @ '' vanished while resolving''))
         | Some x \<Rightarrow> map_option (\<lambda>ip. Inr (JObject (
             [(''instancePath'', JString ip), (''class'', JString (in_class x)),
              (''sourcePaths'', JArray (map JString (op_source_paths w t i)))] @
             (case middleware_from_class (in_class x) of Some mw \<Rightarrow> [(''middleware'', JString mw)] | None \<Rightarrow> []) @
             (case get_meta t i of
                Some mt \<Rightarrow> if mt_keep_unknowns mt then [(''keepUnknowns'', JBool True)] else []
              | None \<Rightarrow> [])))) (instance_path ops t i)))))"

text \<open>The breadth-first search of \<open>where\<close>: \<open>skip\<close> names the scope root and the tree root.\<close>

definition where_matches :: "op_world \<Rightarrow> string \<Rightarrow> dref set \<Rightarrow> (dref \<Rightarrow> 'v inst option) \<Rightarrow> dref \<Rightarrow> bool" where
  "where_matches w needle skip get i \<longleftrightarrow> i \<notin> skip \<and>
     (case get i of Some x \<Rightarrow> sublist needle (ow_lower w (in_name x)) | None \<Rightarrow> False)"

partial_function (option) where_loop ::
  "op_world \<Rightarrow> string \<Rightarrow> dref set \<Rightarrow> (dref \<Rightarrow> 'v inst option) \<Rightarrow> dref list \<Rightarrow> nat \<Rightarrow> dref list
   \<Rightarrow> (dref list \<times> bool) option" where
  "where_loop w needle skip get pending index matches =
     (if index < length pending
      then (case get (pending ! index) of
          None \<Rightarrow> where_loop w needle skip get pending (Suc index) matches
        | Some x \<Rightarrow>
            (if where_matches w needle skip get (pending ! index)
             then (if WHERE_MATCH_LIMIT \<le> length matches then Some (matches, True)
                   else where_loop w needle skip get (pending @ in_children x) (Suc index) (matches @ [pending ! index]))
             else where_loop w needle skip get (pending @ in_children x) (Suc index) matches))
      else Some (matches, False))"

definition where_entry :: "op_world \<Rightarrow> ('d, 'm, 'v) tree_ops \<Rightarrow> ('d, 'm, 'u) tree \<Rightarrow> dref \<Rightarrow> json option" where
  "where_entry w ops t i = map_option (\<lambda>ip. JObject ((''instancePath'', JString ip) #
     (case relative_path (ow_show_path w) t i (ow_workspace_dir w) of
        Some p \<Rightarrow> [(''fsPath'', JString p)] | None \<Rightarrow> []))) (instance_path ops t i)"

definition answer_where ::
  "op_world \<Rightarrow> ('d, 'm, 'v) tree_ops \<Rightarrow> ('d, 'm, 'u) tree \<Rightarrow> json \<Rightarrow> (op_failure + json) option" where
  "answer_where w ops t args =
     (case require_target args of Inl e \<Rightarrow> Some (Inl e) | Inr target \<Rightarrow>
      (let under = arg_str args ''under'';
           scope = (case under of
               Some u \<Rightarrow> (case resolve_studio ops t u of
                   Some i \<Rightarrow> Inr i | None \<Rightarrow> Inl (NOT_FOUND, ''under: '' @ u @ '' is not in the projected tree''))
             | None \<Rightarrow> Inr (root_ref ops t))
       in case scope of Inl e \<Rightarrow> Some (Inl e) | Inr scope \<Rightarrow>
          Option.bind (where_loop w (ow_lower w target)
              ({root_ref ops t} \<union> (if under \<noteq> None then {scope} else {})) (dom_get ops (t_dom t)) [scope] 0 [])
            (\<lambda>(ids, truncated). map_option (\<lambda>entries. Inr (JObject [(''matches'', JArray entries), (''truncated'', JBool truncated)]))
               (those (map (where_entry w ops t) ids)))))"

definition try_answer ::
  "op_world \<Rightarrow> ('d, 'm, 'v) tree_ops \<Rightarrow> ('d, 'm, 'u) tree \<Rightarrow> string \<Rightarrow> json \<Rightarrow> (op_failure + json) option option" where
  "try_answer w ops t op args =
     (if op = ''path'' then Some (answer_path w ops t args)
      else if op = ''meta'' then Some (answer_meta w ops t args)
      else if op = ''where'' then Some (answer_where w ops t args)
      else None)"

section \<open>Properties\<close>

text \<open>The names from below the root down to an instance.\<close>

inductive chain :: "(dref \<Rightarrow> 'v inst option) \<Rightarrow> dref \<Rightarrow> dref \<Rightarrow> string list \<Rightarrow> bool" for m root where
  Here: "chain m root root []"
| Down: "chain m root i ns \<Longrightarrow> j \<in> set (kids m i) \<Longrightarrow> m j = Some x \<Longrightarrow> chain m root j (ns @ [in_name x])"

inductive_cases chain_nil: "chain m root i []"

lemma climb_chain:
  assumes wf: "dom_wf root m" and "chain m root i ns"
  shows "climb m root i acc = Some (acc @ rev ns)"
  using assms(2)
proof (induction arbitrary: acc)
  case Here
  then show ?case by (subst climb.simps) simp
next
  case (Down i ns j x)
  obtain y where y: "m j = Some y" "in_parent y = i" by (rule dom_wf_kid [OF wf Down.hyps(2)])
  have "m i \<noteq> None" using Down.hyps(2) by (auto simp: in_kids_iff)
  then have "j \<noteq> root" using wf y unfolding dom_wf_def by fastforce
  then show ?case using Down.IH [of "acc @ [in_name x]"] y Down.hyps(3) by (subst climb.simps) simp
qed

lemma split_slash_nonempty: "split_slash s \<noteq> []"
  by (cases s) (auto split: list.splits)

lemma split_slash_word: "CHR ''/'' \<notin> set w \<Longrightarrow> split_slash w = [w]"
  by (induction w) auto

lemma split_slash_append: "CHR ''/'' \<notin> set w \<Longrightarrow> split_slash (w @ ''/'' @ s) = w # split_slash s"
  by (induction w) auto

lemma split_join:
  "ns \<noteq> [] \<Longrightarrow> \<forall>n\<in>set ns. CHR ''/'' \<notin> set n \<Longrightarrow> split_slash (join_slash ns) = ns"
  by (induction ns rule: join_slash.induct) (simp_all add: split_slash_word split_slash_append [simplified])

definition names_distinct :: "(dref \<Rightarrow> 'v inst option) \<Rightarrow> bool" where
  "names_distinct m \<longleftrightarrow> (\<forall>i. distinct (map (\<lambda>j. map_option in_name (m j)) (kids m i)))"

lemma find_unique:
  assumes "distinct (map f xs)" "x \<in> set xs" "\<And>y. P y \<longleftrightarrow> f y = f x"
  shows "find P xs = Some x"
  using assms by (induction xs) (auto simp: rev_image_eqI)

lemma descend_append: "descend m i (ns @ ks) = Option.bind (descend m i ns) (\<lambda>j. descend m j ks)"
  by (induction ns arbitrary: i) (auto split: option.splits)

lemma descend_chain:
  assumes "names_distinct m" "chain m root i ns"
  shows "descend m root ns = Some i"
  using assms(2)
proof induction
  case (Down i ns j x)
  obtain y where y: "m i = Some y" "j \<in> set (in_children y)" using Down.hyps(2) by (auto simp: in_kids_iff)
  have "find (\<lambda>k. case m k of Some z \<Rightarrow> in_name z = in_name x | None \<Rightarrow> False) (in_children y) = Some j"
    using assms(1) y Down.hyps(3) by (intro find_unique [where f = "\<lambda>j. map_option in_name (m j)"])
      (auto simp: names_distinct_def kids_def dest: spec [of _ i] split: option.splits)
  then show ?case using Down.IH y by (simp add: descend_append)
qed simp

lemma instance_path_chain:
  assumes "dom_wf (root_ref ops t) (dom_get ops (t_dom t))" "chain (dom_get ops (t_dom t)) (root_ref ops t) i ns"
  shows "instance_path ops t i = Some (join_slash ns)"
  using climb_chain [OF assms, of "[]"] by (simp add: instance_path_def)

text \<open>
  A Studio path round-trips through the daemon. In a well formed tree whose siblings have
  distinct names, the path \<open>instance_path\<close> prints for an instance resolves back to that instance,
  as long as the names on it are non-empty and free of slashes and the first is not \<open>game\<close>.
\<close>

theorem studio_path_roundtrip:
  assumes "dom_wf (root_ref ops t) (dom_get ops (t_dom t))" "names_distinct (dom_get ops (t_dom t))"
    and "chain (dom_get ops (t_dom t)) (root_ref ops t) i ns" "ns \<noteq> []"
    and "\<forall>n\<in>set ns. n \<noteq> [] \<and> CHR ''/'' \<notin> set n" "hd ns \<noteq> ''game''"
  shows "\<exists>p. instance_path ops t i = Some p \<and> resolve_studio ops t p = Some i"
proof -
  have split: "split_slash (join_slash ns) = ns" using assms(4,5) by (intro split_join) auto
  have "filter (\<lambda>s. s \<noteq> []) ns = ns" using assms(5) by (simp add: filter_id_conv)
  moreover have "(case ns of s # ss \<Rightarrow> if s = ''game'' then ss else ns | [] \<Rightarrow> []) = ns"
    using assms(4,6) by (cases ns) auto
  ultimately have "resolve_studio ops t (join_slash ns) = Some i"
    using descend_chain [OF assms(2,3)] assms(4) by (simp add: resolve_studio_def split Let_def)
  then show ?thesis using instance_path_chain [OF assms(1,3)] by blast
qed

theorem studio_path_roundtrip_witness:
  "\<exists>p. instance_path example_ops example_tree 2 = Some p \<and> resolve_studio example_ops example_tree p = Some 2"
proof -
  let ?m = "dom_get example_ops (t_dom example_tree)"
  have m: "?m = [1 \<mapsto> \<lparr>in_name = ''Root'', in_class = ''Folder'', in_properties = [], in_parent = 0, in_children = [2]\<rparr>,
      2 \<mapsto> \<lparr>in_name = ''B'', in_class = ''ModuleScript'', in_properties = [], in_parent = 1, in_children = []\<rparr>]"
    by (simp add: example_tree_def tree_new_def example_snapshot_def example_draw_def insert_at_def insert_meta_def
      example_ops_def bump_def root_ref_def builder_name_def example_meta_def meta_new_def Let_def)
  have "chain ?m 1 2 ([] @ [in_name (the (?m 2))])"
    by (rule chain.Down [OF chain.Here]) (simp_all add: m kids_def)
  then have ch: "chain ?m 1 2 [''B'']" by (simp add: m)
  have "names_distinct ?m" by (auto simp: names_distinct_def m kids_def)
  moreover have "dom_wf (root_ref example_ops example_tree) ?m" using example_tree_ok(1) by (simp add: tree_ok_def)
  ultimately show ?thesis
    using studio_path_roundtrip [of example_ops example_tree 2 "[''B'']"] ch by (simp add: example_tree_ok(2))
qed

subsection \<open>The search\<close>

lemma where_loop_forest:
  assumes "\<forall>t\<in>set ts. represents m t" "drop index pending = map rid ts" "index \<le> length pending"
    and "length found \<le> WHERE_MATCH_LIMIT"
  shows "\<exists>ids. mset ids = mset (forest_labels ts) \<and> where_loop w needle skip m pending index found =
     Some (take WHERE_MATCH_LIMIT (found @ filter (where_matches w needle skip m) ids),
       WHERE_MATCH_LIMIT < length (found @ filter (where_matches w needle skip m) ids))"
  using assms
proof (induction ts arbitrary: pending index found rule: measure_induct_rule [of "\<lambda>ts. length (forest_labels ts)"])
  case (less ts)
  show ?case
  proof (cases ts)
    case Nil
    then show ?thesis using less.prems by (subst where_loop.simps) simp
  next
    case (Cons t ts')
    obtain i us where t: "t = Rose i us" by (cases t)
    obtain x where x: "m i = Some x" "in_children x = map rid us" using less.prems(1) Cons t by auto
    have at: "index < length pending" "pending ! index = i" "drop (Suc index) pending = map rid ts'"
      using drop_ConsD [of index pending i "map rid ts'"] less.prems(2) Cons t by simp_all
    let ?hit = "where_matches w needle skip m i"
    let ?found = "if ?hit then found @ [i] else found"
    have perm: "mset (i # ids) = mset (forest_labels ts)" if "mset ids = mset (forest_labels (ts' @ us))" for ids
      using that Cons t by (simp add: ac_simps)
    show ?thesis
    proof (cases "?hit \<and> WHERE_MATCH_LIMIT \<le> length found")
      case True
      then have "where_loop w needle skip m pending index found = Some (found, True)"
        using at x by (subst where_loop.simps) simp
      moreover have "take WHERE_MATCH_LIMIT found = found" using less.prems(4) by simp
      moreover have "length found = WHERE_MATCH_LIMIT" using True less.prems(4) by simp
      ultimately show ?thesis using True perm [OF refl]
        by (intro exI [of _ "i # forest_labels (ts' @ us)"]) simp
    next
      case False
      then have "where_loop w needle skip m pending index found =
          where_loop w needle skip m (pending @ map rid us) (Suc index) ?found"
        using at x by (subst where_loop.simps) simp
      moreover have "\<exists>ids. mset ids = mset (forest_labels (ts' @ us)) \<and>
          where_loop w needle skip m (pending @ map rid us) (Suc index) ?found =
          Some (take WHERE_MATCH_LIMIT (?found @ filter (where_matches w needle skip m) ids),
            WHERE_MATCH_LIMIT < length (?found @ filter (where_matches w needle skip m) ids))"
        using less.prems Cons t at False by (intro less.IH) auto
      ultimately obtain ids where ids: "mset ids = mset (forest_labels (ts' @ us))"
        "where_loop w needle skip m pending index found =
          Some (take WHERE_MATCH_LIMIT (?found @ filter (where_matches w needle skip m) ids),
            WHERE_MATCH_LIMIT < length (?found @ filter (where_matches w needle skip m) ids))" by auto
      have "?found @ filter (where_matches w needle skip m) ids =
          found @ filter (where_matches w needle skip m) (i # ids)" by simp
      then show ?thesis using ids perm [OF ids(1)] by metis
    qed
  qed
qed

text \<open>
  The search of the \<open>where\<close> request ends, lists each hit once, never more than the limit, and
  flags a cut exactly when it made one. Below a scope of a well formed tree, the ids it collects
  are distinct matching descendants, at most 500 of them; \<open>truncated\<close> is set exactly when more
  than 500 match, and otherwise every match is listed.
\<close>

theorem where_search_exact:
  assumes "dom_wf root m" "m scope \<noteq> None"
  shows "\<exists>ids truncated. where_loop w needle skip m [scope] 0 [] = Some (ids, truncated) \<and>
    distinct ids \<and> length ids \<le> 500 \<and>
    set ids \<subseteq> {i \<in> below m scope. where_matches w needle skip m i} \<and>
    (truncated \<longleftrightarrow> 500 < card {i \<in> below m scope. where_matches w needle skip m i}) \<and>
    (\<not> truncated \<longrightarrow> set ids = {i \<in> below m scope. where_matches w needle skip m i})"
proof -
  obtain r where r: "rid r = scope" "represents m r" using rose_exists [OF assms] by blast
  let ?P = "where_matches w needle skip m"
  obtain ids where ids: "mset ids = mset (labels r)" "where_loop w needle skip m [scope] 0 [] =
      Some (take WHERE_MATCH_LIMIT (filter ?P ids), WHERE_MATCH_LIMIT < length (filter ?P ids))"
    using where_loop_forest [of "[r]" m 0 "[scope]" "[]" w needle skip] r by auto
  have dist: "distinct ids"
    using labels_distinct [OF assms(1) r(2)] mset_eq_imp_distinct_iff [OF ids(1)] by simp
  have "set (filter ?P ids) = {i \<in> below m scope. ?P i}"
    using labels_below [OF r(2)] mset_eq_setD [OF ids(1)] r(1) by auto
  moreover from this have "length (filter ?P ids) = card {i \<in> below m scope. ?P i}"
    using dist by (metis distinct_card distinct_filter)
  ultimately show ?thesis using ids(2) dist set_take_subset [of WHERE_MATCH_LIMIT "filter ?P ids"]
    by (auto simp: WHERE_MATCH_LIMIT_def not_less)
qed

theorem where_search_exact_witness:
  "\<exists>ids truncated. where_loop \<lparr>ow_clean = (\<lambda>p. p), ow_show_path = concat, ow_lower = (\<lambda>s. s), ow_workspace_dir = []\<rparr>
     ''B'' {1} (dom_get example_ops (t_dom example_tree)) [2] 0 [] = Some (ids, truncated) \<and> length ids \<le> 500"
proof -
  have "dom_wf (root_ref example_ops example_tree) (dom_get example_ops (t_dom example_tree))"
    using example_tree_ok(1) by (simp add: tree_ok_def)
  moreover have "dom_get example_ops (t_dom example_tree) 2 \<noteq> None" using example_tree_exists by (simp add: exists_inst_def)
  ultimately show ?thesis
    using where_search_exact [of _ "dom_get example_ops (t_dom example_tree)" 2
      "\<lparr>ow_clean = (\<lambda>p. p), ow_show_path = concat, ow_lower = (\<lambda>s. s), ow_workspace_dir = []\<rparr>" "''B''" "{1}"] by blast
qed

end
