(* ===== verification/Request.thy ===== *)
theory Request
  imports WsSafety Ops
begin

text \<open>
  Remote requests (\<^verbatim>\<open>src/server/request.rs\<close>) and the daemon's own plugin calls
  (\<open>plugin_request\<close>, \<open>send_bracket_op\<close> and \<open>replay_disk_bracketed\<close> of
  \<^verbatim>\<open>src/server/bulk.rs\<close>). A handler runs up to the frame it sends, then waits; what it does
  after the wait is a second function on whatever the state has become, because other handlers
  run in between. The outcome of the wait (an answer, a dropped sender, the deadline) is its
  argument.

  The world a handler reads is a record: the clock, the identity of the daemon, a fresh UUID and
  its parser (\<open>uuid\<close>), the canonical project path, the bounded frame channel's \<open>try_send\<close>
  (\<open>tokio\<close>), the text of a request frame (\<open>serde_json\<close>), and the local answers of the
  instance tree.
\<close>

section \<open>Replies\<close>

record request =
  rq_op :: string
  rq_args :: "json option"
  rq_timeout_ms :: "u64 option"
  rq_operation_id :: "string option"
  rq_expected_project :: "string option"
  rq_expected_boot_id :: "string option"

record 'f request_world =
  rw_now :: instant
  rw_elapsed :: u64
  rw_uuid :: string
  rw_is_uuid :: "string \<Rightarrow> bool"
  rw_boot_id :: string
  rw_project :: "string option"
  rw_try_send :: "'f \<Rightarrow> string \<Rightarrow> send_result"
  rw_text :: "u32 \<Rightarrow> string \<Rightarrow> json \<Rightarrow> u64 \<Rightarrow> string"
  rw_answer :: "string \<Rightarrow> json \<Rightarrow> (op_failure + json) option"

record reply =
  rp_op :: string
  rp_operation_id :: string
  rp_request_id :: u32

definition jnum :: "u64 \<Rightarrow> json" where
  "jnum n = JNumber \<lparr>num_u64 = Some n, num_text = show_nat (unat n)\<rparr>"

definition REQUEST_DEFAULT_TIMEOUT_MS :: u64 where "REQUEST_DEFAULT_TIMEOUT_MS = 5000"
definition REQUEST_MAX_TIMEOUT_MS :: u64 where "REQUEST_MAX_TIMEOUT_MS = 600000"

definition op_error_json :: "string \<Rightarrow> string \<Rightarrow> json" where
  "op_error_json code message = JObject [(''code'', JString code), (''message'', JString message)]"

definition reply_make :: "u64 \<Rightarrow> reply \<Rightarrow> bool \<Rightarrow> string \<times> json \<Rightarrow> string \<Rightarrow> json option \<Rightarrow> json" where
  "reply_make elapsed r ok payload cmp plugin_meta =
     (let base = [(''op'', JString (rp_op r)), (''durationMs'', jnum elapsed),
            (''protocol'', jnum (of_nat PROTOCOL_VERSION)), (''operationId'', JString (rp_operation_id r)),
            (''requestId'', jnum (ucast (rp_request_id r))), (''completion'', JString cmp),
            (''completionScope'', JString ''requestedEffects''), (''retrySafe'', JBool (cmp = ''notStarted'')),
            (''statusPath'', JString (''/operations/'' @ rp_operation_id r))];
          plugin = (case plugin_meta of Some m \<Rightarrow> [(''plugin'', m)] | None \<Rightarrow> []);
          ack = (if ok \<and> acknowledgement_only (Some (rp_op r))
            then (''acknowledged'', JBool True) #
              (case (if fst payload = ''value'' then jget ''jobId'' (snd payload) else None) of
                 Some job \<Rightarrow> [(''jobId'', job), (''nextCheck'', JString ''Read playtest_status or playtest_run_poll for this job'')]
               | None \<Rightarrow> [(''nextCheck'', JString ''Studio accepted the request; inspect Studio state/output'')])
            else []);
          recovery = (if \<not> ok \<and> cmp \<noteq> ''notStarted''
            then [(''recovery'', JString ''Inspect the operation receipt and affected Studio state before retrying'')] else [])
      in JObject [(''ok'', JBool ok), payload, (''meta'', JObject (base @ plugin @ ack @ recovery))])"

definition reply_value :: "u64 \<Rightarrow> reply \<Rightarrow> json \<Rightarrow> json" where
  "reply_value elapsed r v = reply_make elapsed r True (''value'', v) ''completed'' None"

definition reply_error :: "u64 \<Rightarrow> reply \<Rightarrow> string \<Rightarrow> string \<Rightarrow> string \<Rightarrow> json" where
  "reply_error elapsed r code message cmp =
     reply_make elapsed r False (''error'', op_error_json code message) cmp None"

section \<open>The request handler\<close>

datatype 'f dispatch = Answered json | Dispatched reply 'f string u64

definition no_plugin_reason :: "no_plugin \<Rightarrow> string" where
  "no_plugin_reason e = (case e of NoPlugin \<Rightarrow> ''no Studio plugin connected'' | LongPollPlugin \<Rightarrow> ''the connected Studio plugin uses the long-poll compat transport, which does not support requests'')"

definition fail_before_send ::
  "u64 \<Rightarrow> reply \<Rightarrow> string \<Rightarrow> string \<Rightarrow> ('f, 'c, 'o) ws_state \<Rightarrow> ('f, 'c, 'o) ws_state \<times> 'f dispatch" where
  "fail_before_send elapsed r code message ws =
     (finish_operation (rp_request_id r) ''notStarted'' (Some code) ws,
      Answered (reply_error elapsed r code message ''notStarted''))"

text \<open>What the handler checks before it takes a receipt; \<open>Some\<close> is the refusal.\<close>

definition request_refused :: "'f request_world \<Rightarrow> reply \<Rightarrow> request \<Rightarrow> json option" where
  "request_refused w r rq =
     (let err = (\<lambda>code message. Some (reply_error (rw_elapsed w) r code message ''notStarted'')) in
      if rq_op rq = [] \<or> 128 < length (rq_op rq) then err INVALID_ARGUMENT ''op must contain 1-128 bytes''
      else if \<not> rw_is_uuid w (rp_operation_id r) then err INVALID_ARGUMENT ''operationId must be a UUID''
      else if (case rq_expected_boot_id rq of Some b \<Rightarrow> b \<noteq> rw_boot_id w | None \<Rightarrow> False)
        then err CONFLICT ''Daemon restarted after discovery''
      else case rq_expected_project rq of
        Some e \<Rightarrow> if rw_project w \<noteq> Some e then err CONFLICT ''Daemon project does not match'' else None
      | None \<Rightarrow> None)"

text \<open>The part after the receipt was taken: the timeout, the daemon's own answers, the plugin frame.\<close>

definition request_dispatch ::
  "'f request_world \<Rightarrow> 'o \<Rightarrow> reply \<Rightarrow> request \<Rightarrow> ('f, 'c, 'o) ws_state \<Rightarrow> ('f, 'c, 'o) ws_state \<times> 'f dispatch" where
  "request_dispatch w sender r rq ws =
     (let fail = (\<lambda>code message ws. fail_before_send (rw_elapsed w) r code message ws) in
      if rq_timeout_ms rq = Some 0 then fail INVALID_ARGUMENT ''timeoutMs must be at least 1'' ws
      else
        (let timeout_ms = (case rq_timeout_ms rq of None \<Rightarrow> REQUEST_DEFAULT_TIMEOUT_MS
               | Some ms \<Rightarrow> min ms REQUEST_MAX_TIMEOUT_MS);
             args = (case rq_args rq of Some a \<Rightarrow> a | None \<Rightarrow> JObject [])
         in case rw_answer w (rq_op rq) args of
              Some (Inr v) \<Rightarrow> (finish_operation (rp_request_id r) ''completed'' None ws,
                 Answered (reply_value (rw_elapsed w) r v))
            | Some (Inl (code, message)) \<Rightarrow> fail code message ws
            | None \<Rightarrow>
                (case plugin_frames ws of
                   Inl e \<Rightarrow> fail PLUGIN_ERROR (no_plugin_reason e) ws
                 | Inr frames \<Rightarrow>
                     (let ws = register_request (rp_request_id r) sender ws;
                          frame = rw_text w (rp_request_id r) (rq_op rq) args timeout_ms
                      in case rw_try_send w frames frame of
                           Sent \<Rightarrow> (ws, Dispatched r frames frame timeout_ms)
                         | _ \<Rightarrow> fail PLUGIN_ERROR ''Plugin outbound queue is overloaded or the plugin disconnected before dispatch''
                              (abort_request (rp_request_id r) ws)))))"

definition request_begin ::
  "'f request_world \<Rightarrow> 'o \<Rightarrow> request \<Rightarrow> ('f, 'c, 'o) ws_state \<Rightarrow> (('f, 'c, 'o) ws_state \<times> 'f dispatch) option" where
  "request_begin w sender rq ws =
     (let operation_id = (case rq_operation_id rq of Some i \<Rightarrow> i | None \<Rightarrow> rw_uuid w) in
      map_option (\<lambda>(reqid, ws).
        let r = \<lparr>rp_op = rq_op rq, rp_operation_id = operation_id, rp_request_id = reqid\<rparr> in
        case request_refused w r rq of
          Some body \<Rightarrow> (ws, Answered body)
        | None \<Rightarrow>
            (case begin_operation (rw_now w) reqid operation_id (rq_op rq) ws of
               (ws, False) \<Rightarrow> (ws, Answered (reply_error (rw_elapsed w) r CONFLICT
                  ''operationId already has a receipt; inspect it before creating a new operation'' ''unknown''))
             | (ws, True) \<Rightarrow> request_dispatch w sender r rq ws)) (next_request_id ws))"

datatype wait_outcome = Response_in response_frame | SenderDropped | DeadlinePassed

definition request_finish ::
  "u64 \<Rightarrow> reply \<Rightarrow> u64 \<Rightarrow> wait_outcome \<Rightarrow> ('f, 'c, 'o) ws_state \<Rightarrow> ('f, 'c, 'o) ws_state \<times> json" where
  "request_finish elapsed r timeout_ms outcome ws =
     (case outcome of
        Response_in response \<Rightarrow>
          (ws, let c = completion response (Some (rp_op r)) in
            if rf_ok response
            then reply_make elapsed r True (''value'', case rf_value response of Some v \<Rightarrow> v | None \<Rightarrow> JNull) c (rf_meta response)
            else (let e = (case rf_error response of Some e \<Rightarrow> e
                     | None \<Rightarrow> \<lparr>oe_code = PLUGIN_ERROR, oe_message = ''Plugin reported failure without error detail''\<rparr>)
                  in reply_make elapsed r False (''error'', op_error_json (oe_code e) (oe_message e)) c (rf_meta response)))
      | SenderDropped \<Rightarrow>
          (finish_operation (rp_request_id r) ''unknown'' (Some PLUGIN_ERROR) ws,
           reply_error elapsed r PLUGIN_ERROR ''Studio plugin disconnected before answering'' ''unknown'')
      | DeadlinePassed \<Rightarrow>
          (abort_request (rp_request_id r) ws, reply_error elapsed r TIMEOUT ''No plugin response'' ''unknown''))"

definition request_status :: "instant \<Rightarrow> string \<Rightarrow> ('f, 'c, 'o) ws_state \<Rightarrow> ('f, 'c, 'o) ws_state \<times> receipt option" where
  "request_status now operation_id ws =
     (case receipts_get now operation_id (ws_receipts ws) of (rs, r) \<Rightarrow> (ws\<lparr>ws_receipts := rs\<rparr>, r))"

section \<open>The daemon's own calls\<close>

record call_error =
  ce_code :: string
  ce_message :: string

definition call_transport :: "string \<Rightarrow> call_error" where
  "call_transport message = \<lparr>ce_code = PLUGIN_ERROR, ce_message = message\<rparr>"

definition plugin_call ::
  "('f \<Rightarrow> string \<Rightarrow> send_result) \<Rightarrow> (u32 \<Rightarrow> string \<Rightarrow> json \<Rightarrow> u64 \<Rightarrow> string) \<Rightarrow> 'o \<Rightarrow> string \<Rightarrow> json \<Rightarrow> u64
   \<Rightarrow> ('f, 'c, 'o) ws_state \<Rightarrow> (('f, 'c, 'o) ws_state \<times> (call_error + u32)) option" where
  "plugin_call try_send to_text sender op args timeout_ms ws =
     (case plugin_frames ws of
        Inl e \<Rightarrow> Some (ws, Inl (call_transport (no_plugin_reason e)))
      | Inr frames \<Rightarrow> map_option (\<lambda>(reqid, ws).
          let ws = register_request reqid sender ws in
          case try_send frames (to_text reqid op args timeout_ms) of
            Sent \<Rightarrow> (ws, Inr reqid)
          | _ \<Rightarrow> (abort_request reqid ws, Inl (call_transport ''Plugin outbound queue is overloaded or the plugin disconnected'')))
          (next_request_id ws))"

definition plugin_call_finish ::
  "u32 \<Rightarrow> wait_outcome \<Rightarrow> ('f, 'c, 'o) ws_state \<Rightarrow> ('f, 'c, 'o) ws_state \<times> (call_error + json)" where
  "plugin_call_finish reqid outcome ws =
     (case outcome of
        Response_in response \<Rightarrow>
          (ws, if rf_ok response then Inr (case rf_value response of Some v \<Rightarrow> v | None \<Rightarrow> JNull)
               else case rf_error response of
                 Some e \<Rightarrow> Inl \<lparr>ce_code = oe_code e, ce_message = oe_message e\<rparr>
               | None \<Rightarrow> Inl (call_transport ''Plugin reported failure without error detail''))
      | SenderDropped \<Rightarrow> (ws, Inl (call_transport ''Studio plugin disconnected before answering''))
      | DeadlinePassed \<Rightarrow> (abort_request reqid ws, Inl \<lparr>ce_code = TIMEOUT, ce_message = ''No plugin response''\<rparr>))"

text \<open>
  The frames a replay puts on the plugin's channel. \<open>try_send\<close> is asked once per frame and may
  refuse any of them, so it takes the frames already sent.
\<close>

definition send_bracket_op ::
  "(string list \<Rightarrow> string \<Rightarrow> bool) \<Rightarrow> (u32 \<Rightarrow> string \<Rightarrow> json \<Rightarrow> u64 \<Rightarrow> string) \<Rightarrow> 'o \<Rightarrow> string \<Rightarrow> json
   \<Rightarrow> ('f, 'c, 'o) ws_state \<times> string list \<Rightarrow> ((('f, 'c, 'o) ws_state \<times> string list) \<times> bool) option" where
  "send_bracket_op accepts to_text sender op args = (\<lambda>(ws, sent).
     map_option (\<lambda>(reqid, ws).
       let ws = register_request reqid sender ws; frame = to_text reqid op args REQUEST_DEFAULT_TIMEOUT_MS in
       if accepts sent frame then ((ws, sent @ [frame]), True) else ((abort_request reqid ws, sent), False))
       (next_request_id ws))"

text \<open>The loop over the sync frames: the frames sent so far and whether every one was taken.\<close>

fun send_frames :: "(string list \<Rightarrow> string \<Rightarrow> bool) \<Rightarrow> string list \<Rightarrow> string list \<Rightarrow> string list \<times> bool" where
  "send_frames accepts [] sent = (sent, True)"
| "send_frames accepts (f # fs) sent =
     (if accepts sent f then send_frames accepts fs (sent @ [f]) else (sent, False))"

datatype replay_error = ReplayNoPlugin no_plugin | BeginRefused | FrameRefused | FinishRefused

definition replay_disk_bracketed ::
  "(string list \<Rightarrow> string \<Rightarrow> bool) \<Rightarrow> (u32 \<Rightarrow> string \<Rightarrow> json \<Rightarrow> u64 \<Rightarrow> string) \<Rightarrow> 'o \<Rightarrow> (('u, 'v) changes \<Rightarrow> string) \<Rightarrow> string
   \<Rightarrow> ('u, 'v) changes \<Rightarrow> ('f, 'c, 'o) ws_state
   \<Rightarrow> ((('f, 'c, 'o) ws_state \<times> string list) \<times> (replay_error + unit)) option" where
  "replay_disk_bracketed accepts to_text sender sync_text choice_id changes ws =
     (case plugin_frames ws of
        Inl e \<Rightarrow> Some ((ws, []), Inl (ReplayNoPlugin e))
      | Inr _ \<Rightarrow>
          Option.bind (send_bracket_op accepts to_text sender ''transaction_begin''
              (JObject [(''name'', JString (''WSync: Pull '' @ choice_id))]) (ws, [])) (\<lambda>((ws, sent), ok).
            if \<not> ok then Some ((ws, sent), Inl BeginRefused)
            else case send_frames accepts (sync_frames sync_text changes) sent of
              (sent, False) \<Rightarrow> map_option (\<lambda>(st, _). (st, Inl FrameRefused))
                 (send_bracket_op accepts to_text sender ''transaction_finish'' (JObject [(''commit'', JBool False)]) (ws, sent))
            | (sent, True) \<Rightarrow> map_option (\<lambda>(st, ok). (st, if ok then Inr () else Inl FinishRefused))
                 (send_bracket_op accepts to_text sender ''transaction_finish'' (JObject [(''commit'', JBool True)]) (ws, sent))))"

end
