(* ===== verification/FramesSafety.thy ===== *)
theory FramesSafety
  imports Frames
begin

text \<open>
  What the frame layer guarantees: the split of a change set loses and reorders nothing and
  keeps its limits, a push is accepted only when every reference in it is well formed, and
  the handshake admits exactly the well-formed hellos of this protocol version.
\<close>

lemma bind_as_str: "Option.bind x as_str = Some s \<longleftrightarrow> x = Some (JString s)"
  by (cases x) (auto simp: as_str_def split: json.splits)

lemma bind_as_u64: "Option.bind x as_u64 = Some n \<longleftrightarrow> (\<exists>p. x = Some (JNumber p) \<and> num_u64 p = Some n)"
  by (cases x) (auto simp: as_u64_def split: json.splits)

section \<open>Splitting a change set\<close>

lemma chunk_fold:
  assumes "0 < n"
  shows "fold (chunk_step n) ops (chunks, current, length (ops_of current)) = (chunks', current', count') \<Longrightarrow>
    length (ops_of current) \<le> n \<Longrightarrow> ranked (ops_of current @ ops) \<Longrightarrow>
    \<forall>c\<in>set chunks. length (ops_of c) \<le> n \<and> ops_of c \<noteq> [] \<Longrightarrow>
    concat (map ops_of chunks') @ ops_of current' = concat (map ops_of chunks) @ ops_of current @ ops \<and>
    length (ops_of current') \<le> n \<and> (\<forall>c\<in>set chunks'. length (ops_of c) \<le> n \<and> ops_of c \<noteq> [])"
proof (induction ops arbitrary: chunks current)
  case (Cons op ops)
  show ?case
  proof (cases "length (ops_of current) = n")
    case True
    have r: "ranked [op]" "ranked (op # ops)" using Cons.prems(3) by (simp_all add: sorted_append)
    then have "ops_of (push_op op changes_new) = [op]" using push_op_ops [of changes_new op] by simp
    then show ?thesis
      using Cons.IH [of "chunks @ [current]" "push_op op changes_new"] Cons.prems True assms r
      by (auto simp: chunk_step_def)
  next
    case False
    have "ranked (ops_of current @ [op])" using Cons.prems(3) by (auto simp: sorted_append)
    then have "ops_of (push_op op current) = ops_of current @ [op]" by (rule push_op_ops)
    then show ?thesis
      using Cons.IH [of chunks "push_op op current"] Cons.prems False
      by (simp add: chunk_step_def)
  qed
qed auto

lemma chunk_by_ops_spec:
  assumes "0 < n"
  shows "concat (map ops_of (chunk_by_ops c n)) = ops_of c \<and>
    (\<forall>ch\<in>set (chunk_by_ops c n). changes_total ch \<le> n)"
proof (cases "changes_total c \<le> n")
  case True
  then show ?thesis by (simp add: chunk_by_ops_def)
next
  case False
  obtain chunks current count where
    f: "fold (chunk_step n) (ops_of c) ([], changes_new, length (ops_of (changes_new :: ('a, 'b) changes))) =
      (chunks, current, count)"
    by (metis prod_cases3)
  from chunk_fold [OF assms f] ops_of_ranked [of c]
  have "concat (map ops_of chunks) @ ops_of current = ops_of c" "length (ops_of current) \<le> n"
    "\<forall>ch\<in>set chunks. length (ops_of ch) \<le> n"
    by simp_all
  then show ?thesis using False f
    by (auto simp: chunk_by_ops_def ops_of_empty changes_total_ops)
qed

lemma sync_chunks_spec:
  "concat (map ops_of (sync_chunks tx cs)) = concat (map ops_of cs) \<and>
   (\<forall>n. (\<forall>c\<in>set cs. changes_total c \<le> n) \<longrightarrow> (\<forall>c\<in>set (sync_chunks tx cs). changes_total c \<le> n)) \<and>
   (\<forall>c\<in>set (sync_chunks tx cs). length (tx c) \<le> SYNC_FRAME_MAX_BYTES \<or> changes_total c \<le> 1)"
proof (induction tx cs rule: sync_chunks.induct)
  case (2 tx chunk pending)
  show ?case
  proof (cases "length (tx chunk) \<le> SYNC_FRAME_MAX_BYTES \<or> changes_total chunk \<le> 1")
    case True
    then show ?thesis using 2(1) [OF True] by (auto simp: sync_chunks.simps(2))
  next
    case False
    obtain first second where sp: "split_half chunk = (first, second)" by fastforce
    note parts = split_half_parts [OF sp]
    have ops: "ops_of first @ ops_of second = ops_of chunk" by (simp add: parts)
    have le: "changes_total first \<le> changes_total chunk" "changes_total second \<le> changes_total chunk"
      by (simp_all add: changes_total_ops parts)
    have eq: "sync_chunks tx (chunk # pending) = sync_chunks tx (first # second # pending)"
      using False sp by (subst sync_chunks.simps(2)) simp
    note ih = 2(2) [OF False sp [symmetric]]
    show ?thesis unfolding eq
    proof (intro conjI)
      show "concat (map ops_of (sync_chunks tx (first # second # pending))) = concat (map ops_of (chunk # pending))"
        using ih ops by (simp flip: append_assoc)
      show "\<forall>n. (\<forall>c\<in>set (chunk # pending). changes_total c \<le> n) \<longrightarrow>
          (\<forall>c\<in>set (sync_chunks tx (first # second # pending)). changes_total c \<le> n)"
      proof (intro allI impI)
        fix n assume "\<forall>c\<in>set (chunk # pending). changes_total c \<le> n"
        then have "\<forall>c\<in>set (first # second # pending). changes_total c \<le> n" using le by auto
        then show "\<forall>c\<in>set (sync_chunks tx (first # second # pending)). changes_total c \<le> n" using ih by blast
      qed
    qed (use ih in blast)
  qed
qed simp

lemma sync_frames_chunks:
  "\<exists>chunks. sync_frames tx c = map tx chunks \<and> concat (map ops_of chunks) = ops_of c"
proof (intro exI conjI)
  let ?cs = "sync_chunks tx (chunk_by_ops c SYNC_FRAME_MAX_OPS)"
  show "sync_frames tx c = map tx ?cs" by (simp add: sync_frames_def)
  show "concat (map ops_of ?cs) = ops_of c"
    using sync_chunks_spec [of tx "chunk_by_ops c SYNC_FRAME_MAX_OPS"] chunk_by_ops_spec [of SYNC_FRAME_MAX_OPS c]
    by (simp add: SYNC_FRAME_MAX_OPS_def)
qed

text \<open>
  C10: Splitting a change set into \<open>sync\<close> frames terminates, loses nothing and reorders
  nothing: the operations of the frames, read frame by frame, are the operations of the
  change set in the order additions, updates, removals. Every frame has at most 256
  operations, and a frame above the byte limit has a single one.
\<close>

theorem sync_frames_lossless:
  "\<exists>chunks. sync_frames tx c = map tx chunks \<and> concat (map ops_of chunks) = ops_of c \<and>
     (\<forall>ch\<in>set chunks. changes_total ch \<le> 256 \<and>
        (length (tx ch) \<le> 512 * 1024 \<or> changes_total ch \<le> 1))"
proof (intro exI conjI)
  let ?cs = "sync_chunks tx (chunk_by_ops c SYNC_FRAME_MAX_OPS)"
  show "sync_frames tx c = map tx ?cs" by (simp add: sync_frames_def)
  note by_ops = chunk_by_ops_spec [of SYNC_FRAME_MAX_OPS c]
  show "concat (map ops_of ?cs) = ops_of c"
    using sync_chunks_spec [of tx "chunk_by_ops c SYNC_FRAME_MAX_OPS"] by_ops by (simp add: SYNC_FRAME_MAX_OPS_def)
  have "\<forall>ch\<in>set ?cs. changes_total ch \<le> 256"
    using sync_chunks_spec [of tx "chunk_by_ops c SYNC_FRAME_MAX_OPS"] by_ops
    by (simp add: SYNC_FRAME_MAX_OPS_def)
  then show "\<forall>ch\<in>set ?cs. changes_total ch \<le> 256 \<and> (length (tx ch) \<le> 512 * 1024 \<or> changes_total ch \<le> 1)"
    using sync_chunks_spec [of tx "chunk_by_ops c SYNC_FRAME_MAX_OPS"] by (simp add: SYNC_FRAME_MAX_BYTES_def)
qed

theorem sync_frames_lossless_witness:
  "\<exists>chunks. sync_frames (\<lambda>_. ''t'') (changes_new :: (unit, unit) changes) = map (\<lambda>_. ''t'') chunks \<and>
     concat (map ops_of chunks) = ops_of (changes_new :: (unit, unit) changes)"
  using sync_frames_lossless [of "\<lambda>_. ''t''" "changes_new :: (unit, unit) changes"] by auto

section \<open>Push validation\<close>

text \<open>Every position of a push that must hold a reference, and when a value is one.\<close>

function child_refs :: "json list \<Rightarrow> json option list" where
  "child_refs [] = []"
| "child_refs (c # cs) = jget ''id'' c # child_refs (children_of c) @ child_refs cs"
  by pat_completeness auto
termination
  by (relation "measure (size_list size)")
     (auto simp: less_Suc_eq_le intro: order_trans [OF children_of_size] le_SucI le_add1 trans_le_add1)

definition array_at :: "string \<Rightarrow> json \<Rightarrow> json list" where
  "array_at k v = (case Option.bind (jget k v) as_array of None \<Rightarrow> [] | Some xs \<Rightarrow> xs)"

definition push_refs :: "json \<Rightarrow> json option list" where
  "push_refs ops =
     concat (map (\<lambda>a. jget ''id'' a # jget ''parent'' a # child_refs (children_of a)) (array_at ''additions'' ops)) @
     map (jget ''id'') (array_at ''updates'' ops) @ map Some (array_at ''removals'' ops)"

definition is_ref :: "(string \<Rightarrow> dref option) \<Rightarrow> json option \<Rightarrow> bool" where
  "is_ref from_str v \<longleftrightarrow> (\<exists>hex. v = Some (JString hex) \<and> length hex = 32 \<and> list_all is_lower_hex hex \<and>
     from_str hex \<noteq> None)"

lemma expect_ref_ok: "expect_ref from_str v at = Inr () \<longleftrightarrow> is_ref from_str v"
  by (cases "Option.bind v as_str")
    (auto simp: expect_ref_def is_ref_def parse_ref_def bind_as_str [symmetric] split: option.splits)

lemma walk_children_ok:
  "walk_children from_str at i cs = Inr () \<longleftrightarrow> (\<forall>v\<in>set (child_refs cs). is_ref from_str v)"
proof (induction from_str at i cs rule: walk_children.induct)
  case (2 from_str at i c cs)
  then show ?case
    using expect_ref_ok [of from_str "jget ''id'' c" "child_at at i @ ''.id''"]
    by (auto split: sum.splits)
qed simp

lemma each_ok: "each f i xs = Inr () \<longleftrightarrow> (\<forall>j<length xs. f (i + j) (xs ! j) = Inr ())"
proof (induction xs arbitrary: i)
  case (Cons x xs)
  have "(\<forall>j<length (x # xs). f (i + j) ((x # xs) ! j) = Inr ()) \<longleftrightarrow>
      f i x = Inr () \<and> (\<forall>j<length xs. f (Suc i + j) (xs ! j) = Inr ())"
    by (auto simp: less_Suc_eq_0_disj)
  then show ?case using Cons.IH [of "Suc i"] by (cases "f i x") auto
qed simp

lemma each_ok_uniform:
  assumes "\<And>i x. f i x = Inr () \<longleftrightarrow> P x"
  shows "each f i xs = Inr () \<longleftrightarrow> (\<forall>x\<in>set xs. P x)"
  unfolding each_ok assms by (metis in_set_conv_nth)

lemma validate_addition_ok:
  "validate_addition from_str i a = Inr () \<longleftrightarrow> is_ref from_str (jget ''id'' a) \<and>
     is_ref from_str (jget ''parent'' a) \<and> (\<forall>v\<in>set (child_refs (children_of a)). is_ref from_str v)"
  using expect_ref_ok [of from_str "jget ''id'' a"] expect_ref_ok [of from_str "jget ''parent'' a"]
    walk_children_ok [of from_str _ 0 "children_of a"]
  by (auto simp: validate_addition_def Let_def split: sum.splits)

lemma bind_sum_ok:
  "(case r of Inl e \<Rightarrow> Inl e | Inr _ \<Rightarrow> s) = Inr () \<longleftrightarrow> r = Inr () \<and> s = Inr ()" for r :: "'e + unit"
  by (cases r) auto

lemma validate_push_refs_ok:
  "validate_push_refs from_str ops = Inr () \<longleftrightarrow>
     (\<exists>kvs. ops = JObject kvs) \<and> (\<forall>v\<in>set (push_refs ops). is_ref from_str v)"
proof (cases ops)
  case (JObject kvs)
  have "validate_push_refs from_str ops = Inr () \<longleftrightarrow>
      each (validate_addition from_str) 0 (array_at ''additions'' ops) = Inr () \<and>
      each (\<lambda>i u. expect_ref from_str (jget ''id'' u) (''updates['' @ show_nat i @ ''].id'')) 0 (array_at ''updates'' ops) = Inr () \<and>
      each (\<lambda>i r. expect_ref from_str (Some r) (''removals['' @ show_nat i @ '']'')) 0 (array_at ''removals'' ops) = Inr ()"
    by (simp add: JObject validate_push_refs_def Let_def array_at_def bind_sum_ok)
  also have "\<dots> \<longleftrightarrow> (\<forall>v\<in>set (push_refs ops). is_ref from_str v)"
    unfolding each_ok_uniform [of "validate_addition from_str", OF validate_addition_ok]
      each_ok_uniform [where f = "\<lambda>i u. expect_ref from_str (jget ''id'' u) (''updates['' @ show_nat i @ ''].id'')", OF expect_ref_ok]
      each_ok_uniform [where f = "\<lambda>i r. expect_ref from_str (Some r) (''removals['' @ show_nat i @ '']'')", OF expect_ref_ok]
      push_refs_def by auto
  finally show ?thesis by (simp add: JObject)
qed (simp_all add: validate_push_refs_def)

text \<open>
  C12: A push frame is all or nothing: it is accepted exactly when its \<open>ops\<close> field is an object
  the decoder reads and every reference in it, in additions and their nested children at any
  depth, in updates and in removals, is a string of exactly 32 lowercase hexadecimal digits.
\<close>

theorem push_accepted_iff:
  assumes "w_from_str w tx = Some v" "jget ''type'' v = Some (JString ''push'')"
  shows "parse_incoming w tx = Inr (Push c) \<longleftrightarrow>
    (\<exists>ops kvs. jget ''ops'' v = Some ops \<and> ops = JObject kvs \<and> w_changes w ops = Some c \<and>
       (\<forall>r\<in>set (push_refs ops). is_ref (w_ref w) r))"
proof -
  have "parse_incoming w tx = Inr (decode_push w v)"
    using assms by (simp add: parse_incoming_def as_str_def)
  moreover have "decode_push w v = Push c \<longleftrightarrow> (\<exists>ops. jget ''ops'' v = Some ops \<and>
      validate_push_refs (w_ref w) ops = Inr () \<and> w_changes w ops = Some c)"
    by (auto simp: decode_push_def split: option.splits sum.splits)
  ultimately show ?thesis by (auto simp: validate_push_refs_ok)
qed

definition example_wire :: "(unit, unit) wire" where
  "example_wire = \<lparr>w_from_str = (\<lambda>_. Some (JObject [(''type'', JString ''push''),
      (''ops'', JObject [(''removals'', JArray [JString (replicate 32 (CHR ''a''))])])])),
     w_ref = (\<lambda>_. Some 1), w_changes = (\<lambda>_. Some \<lparr>additions = [], updates = [], removals = [1]\<rparr>),
     w_response = (\<lambda>_. None)\<rparr>"

theorem push_accepted_iff_witness:
  "parse_incoming example_wire ''x'' = Inr (Push \<lparr>additions = [], updates = [], removals = [1]\<rparr>)"
proof -
  let ?v = "JObject [(''type'', JString ''push''),
      (''ops'', JObject [(''removals'', JArray [JString (replicate 32 (CHR ''a''))])])]"
  have "w_from_str example_wire ''x'' = Some ?v" "jget ''type'' ?v = Some (JString ''push'')"
    by (simp_all add: example_wire_def jget_def)
  from push_accepted_iff [OF this]
  show ?thesis
    by (simp add: example_wire_def push_refs_def array_at_def jget_def as_array_def is_ref_def is_lower_hex_def list_all_iff)
qed

section \<open>The handshake\<close>

lemma client_id_of_Some:
  "client_id_of v = Some cid \<Longrightarrow> jget ''clientId'' v = Some (JString cid) \<and> cid \<noteq> [] \<or>
     (\<exists>n. jget ''clientId'' v = Some (JNumber n) \<and> cid = num_text n)"
  by (auto simp: client_id_of_def split: option.splits json.splits if_splits)

lemma role_of_Some:
  assumes "Option.bind (Option.bind (jget ''role'' v) as_str) role_parse = Some r"
  shows "jget ''role'' v = Some (JString (role_str r))"
proof -
  obtain s where s: "Option.bind (jget ''role'' v) as_str = Some s" "role_parse s = Some r"
    using assms by (auto simp: bind_eq_Some_conv simp del: Option.bind_assoc)
  then have "s = role_str r" by (auto simp: role_parse_def role_str_def split: if_splits)
  then show ?thesis using s(1) by (simp add: bind_as_str)
qed

text \<open>
  The handshake admits exactly the JSON hello frames of this protocol version with a known
  role and a client id, a non-empty string or a number, and reports the role as sent; a frame
  of another protocol version is refused with the code that stops the client from retrying.
\<close>

theorem hello_gate:
  "case parse_hello from_str tx of
     Inr h \<Rightarrow> (\<exists>v p. from_str tx = Some v \<and> jget ''type'' v = Some (JString ''hello'') \<and>
       jget ''protocol'' v = Some (JNumber p) \<and> num_u64 p = Some 1 \<and>
       jget ''role'' v = Some (JString (role_str (ch_role h))) \<and>
       (jget ''clientId'' v = Some (JString (ch_client_id h)) \<and> ch_client_id h \<noteq> [] \<or>
        (\<exists>n. jget ''clientId'' v = Some (JNumber n) \<and> ch_client_id h = num_text n)))
   | Inl e \<Rightarrow> (hello_error_code e = ''PROTOCOL_MISMATCH'' \<longleftrightarrow>
       (\<exists>v. from_str tx = Some v \<and> jget ''type'' v = Some (JString ''hello'') \<and>
          Option.bind (jget ''protocol'' v) as_u64 \<noteq> Some 1))"
proof -
  show ?thesis
  proof (cases "from_str tx")
    case (Some v)
    show ?thesis
    proof (cases "jget ''type'' v = Some (JString ''hello'')")
      case hello: True
      show ?thesis
      proof (cases "Option.bind (jget ''protocol'' v) as_u64 = Some 1")
        case True
        then obtain p where p: "jget ''protocol'' v = Some (JNumber p)" "num_u64 p = Some 1"
          by (auto simp: bind_as_u64)
        have "parse_hello from_str tx =
          (case Option.bind (Option.bind (jget ''role'' v) as_str) role_parse of
             None \<Rightarrow> Inl MissingRole
           | Some role \<Rightarrow> (case client_id_of v of
                None \<Rightarrow> Inl MissingClientId
              | Some cid \<Rightarrow> Inr \<lparr>ch_client_id = cid, ch_role = role, ch_name =
                  (case Option.bind (jget ''name'' v) as_str of Some n \<Rightarrow> n | None \<Rightarrow> ''unnamed client'')\<rparr>))"
          using Some hello True by (simp add: parse_hello_def bind_as_str PROTOCOL_VERSION_def)
        then show ?thesis
          using Some hello p True client_id_of_Some [of v] role_of_Some [of v]
          by (auto simp: hello_error_code_def split: option.splits)
      next
        case False
        then show ?thesis
          using Some hello
          by (auto simp: parse_hello_def bind_as_str PROTOCOL_VERSION_def hello_error_code_def split: option.splits)
      qed
    next
      case False
      then show ?thesis using Some by (simp add: parse_hello_def bind_as_str hello_error_code_def)
    qed
  qed (simp add: parse_hello_def hello_error_code_def)
qed

end
