(* ===== verification/RequestSafety.thy ===== *)
theory RequestSafety
  imports Request FramesSafety
begin

text \<open>
  What a remote caller may conclude from a reply: a retry is offered only when the operation did
  not start, an operation id is dispatched at most once while its receipt is kept, and a replay
  of disk changes is committed only as a whole.
\<close>

section \<open>Replies\<close>

lemma next_request_id_some:
  obtains n where "next_request_id ws = Some (n, ws\<lparr>ws_next_request_id := n + 1\<rparr>)"
proof (cases "ws_next_request_id ws = 0")
  case True
  then show thesis using that [of 1] by (simp add: next_request_id_def request_id_from_value)
next
  case False
  then show thesis using that [of "ws_next_request_id ws"] by (simp add: next_request_id_def request_id_from_value)
qed

definition reply_field :: "string \<Rightarrow> json \<Rightarrow> json option" where
  "reply_field k body = Option.bind (jget ''meta'' body) (jget k)"

definition retry_safe :: "json \<Rightarrow> bool" where
  "retry_safe body \<longleftrightarrow> reply_field ''retrySafe'' body = Some (JBool True)"

lemma reply_make_fields [simp]:
  "fst payload \<noteq> ''meta'' \<Longrightarrow> fst payload \<noteq> ''ok'' \<Longrightarrow>
     reply_field ''completion'' (reply_make e r ok payload c m) = Some (JString c)"
  "fst payload \<noteq> ''meta'' \<Longrightarrow> fst payload \<noteq> ''ok'' \<Longrightarrow> retry_safe (reply_make e r ok payload c m) \<longleftrightarrow> c = ''notStarted''"
  by (cases payload; simp add: reply_field_def retry_safe_def reply_make_def jget_def Let_def)+

lemma reply_error_fields [simp]:
  "reply_field ''completion'' (reply_error e r code msg c) = Some (JString c)"
  "retry_safe (reply_error e r code msg c) \<longleftrightarrow> c = ''notStarted''"
  by (simp_all add: reply_error_def)

lemma reply_value_fields [simp]:
  "reply_field ''completion'' (reply_value e r v) = Some (JString ''completed'')" "\<not> retry_safe (reply_value e r v)"
  by (simp_all add: reply_value_def)

section \<open>Retries\<close>

text \<open>The frame a handler put on the plugin's channel, if it did.\<close>

fun sent_frame :: "'f dispatch \<Rightarrow> ('f \<times> string) option" where
  "sent_frame (Answered _) = None"
| "sent_frame (Dispatched _ f t _) = Some (f, t)"

lemma completion_notStarted:
  assumes "completion response op = ''notStarted''"
  shows "Option.bind (rf_meta response) (field ''completion'' as_str) = Some ''notStarted'' \<and>
    Option.bind (rf_meta response) (field ''mutation'' as_bool) \<noteq> Some True \<and>
    (rf_ok response \<longrightarrow> task_failed op (rf_value response))"
  using assms unfolding completion_def by (auto split: if_splits option.splits)


definition example_world :: "unit request_world" where
  "example_world = \<lparr>rw_now = 0, rw_elapsed = 0, rw_uuid = ''u'', rw_is_uuid = (\<lambda>_. True), rw_boot_id = ''b'',
     rw_project = None, rw_try_send = (\<lambda>_ _. Sent), rw_text = (\<lambda>_ op _ _. op), rw_answer = (\<lambda>_ _. None)\<rparr>"

definition example_request :: request where
  "example_request = \<lparr>rq_op = ''ping'', rq_args = None, rq_timeout_ms = None, rq_operation_id = Some ''o'',
     rq_expected_project = None, rq_expected_boot_id = None\<rparr>"

definition example_ws :: "(unit, unit, string) ws_state" where
  "example_ws = ws_new\<lparr>ws_plugin := Some \<lparr>pc_queue_id = 7, pc_name = ''p'', pc_transport = WsTransport () ()\<rparr>\<rparr>"

lemma example_begin:
  "\<exists>ws1. request_begin example_world ''caller'' example_request example_ws =
     Some (ws1, Dispatched \<lparr>rp_op = ''ping'', rp_operation_id = ''o'', rp_request_id = 1\<rparr> () ''ping'' 5000)"
  by (simp add: request_begin_def request_refused_def request_dispatch_def example_world_def example_request_def
      example_ws_def ws_new_def next_request_id_def request_id_from_value begin_operation_def receipts_begin_def
      receipts_prune_def plugin_frames_def register_request_def REQUEST_DEFAULT_TIMEOUT_MS_def MAX_RECEIPTS_def Let_def)


text \<open>
  An operation id runs at most once while its receipt is kept. A request whose id already has
  a receipt younger than ten minutes is refused: no frame is sent, no caller is registered, no
  second receipt is made, and the reply says \<open>unknown\<close>, not retry-safe, unless the request is
  refused for its arguments first.
\<close>

theorem operation_runs_once:
  assumes "rc \<in> set (ws_receipts ws)" "rc_operation_id rc = oid" "rw_now w - rc_created rc < RETAIN_FOR"
    and "rq_operation_id rq = Some oid" "request_begin w sender rq ws = Some (ws1, d)"
  shows "sent_frame d = None \<and> ws_pending ws1 = ws_pending ws \<and> set (ws_receipts ws1) \<subseteq> set (ws_receipts ws) \<and>
    (\<exists>body. d = Answered body \<and>
       (reply_field ''completion'' body = Some (JString ''unknown'') \<and> \<not> retry_safe body \<or>
        (\<exists>r. request_refused w r rq = Some body)))"
proof -
  obtain n where n: "next_request_id ws = Some (n, ws\<lparr>ws_next_request_id := n + 1\<rparr>)"
    by (rule next_request_id_some)
  let ?r = "\<lparr>rp_op = rq_op rq, rp_operation_id = oid, rp_request_id = n\<rparr>"
  let ?ws = "ws\<lparr>ws_next_request_id := n + 1\<rparr>"
  have "rc \<in> set (receipts_prune (rw_now w) (ws_receipts ws))" using assms(1,3) by (simp add: receipts_prune_def)
  then have "list_ex (\<lambda>r. rc_operation_id r = oid) (receipts_prune (rw_now w) (ws_receipts ws))"
    using assms(2) by (auto simp: list_ex_iff)
  then have busy: "begin_operation (rw_now w) n oid (rq_op rq) ?ws =
      (?ws\<lparr>ws_receipts := receipts_prune (rw_now w) (ws_receipts ws)\<rparr>, False)"
    by (simp add: begin_operation_def receipts_begin_def Let_def)
  show ?thesis
  proof (cases "request_refused w ?r rq")
    case (Some body)
    then show ?thesis using assms(4,5) n by (auto simp: request_begin_def Let_def)
  next
    case None
    then have "d = Answered (reply_error (rw_elapsed w) ?r CONFLICT
        ''operationId already has a receipt; inspect it before creating a new operation'' ''unknown'')"
      "ws1 = ?ws\<lparr>ws_receipts := receipts_prune (rw_now w) (ws_receipts ws)\<rparr>"
      using assms(4,5) n busy by (auto simp: request_begin_def Let_def)
    then show ?thesis by (auto simp: receipts_prune_def)
  qed
qed

theorem operation_runs_once_witness:
  "\<exists>ws1 d ws2 d2. request_begin example_world ''caller'' example_request example_ws = Some (ws1, d) \<and>
     sent_frame d \<noteq> None \<and> request_begin example_world ''caller'' example_request ws1 = Some (ws2, d2) \<and> sent_frame d2 = None"
proof -
  obtain ws1 where one: "request_begin example_world ''caller'' example_request example_ws =
     Some (ws1, Dispatched \<lparr>rp_op = ''ping'', rp_operation_id = ''o'', rp_request_id = 1\<rparr> () ''ping'' 5000)"
    using example_begin by blast
  then obtain rc where rc: "rc \<in> set (ws_receipts ws1)" "rc_operation_id rc = ''o''" "rc_created rc = 0"
    by (auto simp: request_begin_def request_refused_def request_dispatch_def example_world_def example_request_def
      example_ws_def ws_new_def next_request_id_def request_id_from_value begin_operation_def receipts_begin_def
      receipts_prune_def plugin_frames_def register_request_def MAX_RECEIPTS_def Let_def)
  obtain ws2 d2 where two: "request_begin example_world ''caller'' example_request ws1 = Some (ws2, d2)"
    by (rule next_request_id_some [of ws1]) (cases "request_begin example_world ''caller'' example_request ws1",
      auto simp: request_begin_def Let_def)
  have "sent_frame d2 = None"
    using operation_runs_once [OF rc(1,2) _ _ two] rc(3) by (simp add: example_world_def example_request_def RETAIN_FOR_def)
  then show ?thesis using one two by auto
qed

section \<open>Bracketed replays\<close>

lemma send_frames_result:
  "send_frames accepts fs sent = (out, ok) \<Longrightarrow>
     \<exists>k. out = sent @ take k fs \<and> (ok \<longrightarrow> out = sent @ fs) \<and> (\<not> ok \<longrightarrow> k < length fs \<and> \<not> accepts out (fs ! k))"
proof (induction fs arbitrary: sent)
  case (Cons f fs)
  show ?case
  proof (cases "accepts sent f")
    case True
    then obtain k where k: "out = (sent @ [f]) @ take k fs" "ok \<longrightarrow> out = (sent @ [f]) @ fs"
        "\<not> ok \<longrightarrow> k < length fs \<and> \<not> accepts out (fs ! k)"
      using Cons.IH [of "sent @ [f]"] Cons.prems True by auto blast
    then show ?thesis by (intro exI [of _ "Suc k"]) auto
  next
    case False
    then show ?thesis using Cons.prems by (intro exI [of _ 0]) auto
  qed
qed simp

lemma bracket_op:
  obtains n where "send_bracket_op accepts to_text sender op args (ws, sent) =
    (let frame = to_text n op args REQUEST_DEFAULT_TIMEOUT_MS; ws = register_request n sender (ws\<lparr>ws_next_request_id := n + 1\<rparr>) in
     Some (if accepts sent frame then ((ws, sent @ [frame]), True) else ((abort_request n ws, sent), False)))"
  by (rule next_request_id_some [of ws]) (simp add: send_bracket_op_def Let_def)

text \<open>
  A replay of disk changes is all or nothing on the wire. It always returns. On success the
  plugin's channel got one begin, the sync frames, which carry exactly the operations of the
  change set in order, and one committing finish. On failure no committing finish was sent: what
  went out is a prefix of the begin and the sync frames, followed at most by an aborting finish.
\<close>

theorem replay_all_or_nothing:
  fixes changes :: "('u, 'v) changes"
  shows "\<exists>ws' sent res chunks. replay_disk_bracketed accepts to_text sender sync_text cid changes ws = Some ((ws', sent), res) \<and>
    concat (map ops_of chunks) = ops_of changes \<and>
    (let begin = (\<lambda>a. to_text a ''transaction_begin'' (JObject [(''name'', JString (''WSync: Pull '' @ cid))]) REQUEST_DEFAULT_TIMEOUT_MS);
         finish = (\<lambda>b commit. to_text b ''transaction_finish'' (JObject [(''commit'', JBool commit)]) REQUEST_DEFAULT_TIMEOUT_MS)
     in case res of
       Inr _ \<Rightarrow> (\<exists>a b. sent = [begin a] @ map sync_text chunks @ [finish b True])
     | Inl FrameRefused \<Rightarrow> (\<exists>a k. k < length chunks \<and> (sent = [begin a] @ take k (map sync_text chunks) \<or>
          (\<exists>b. sent = [begin a] @ take k (map sync_text chunks) @ [finish b False])))
     | Inl FinishRefused \<Rightarrow> (\<exists>a. sent = [begin a] @ map sync_text chunks)
     | Inl _ \<Rightarrow> sent = [])"
proof -
  obtain chunks where chunks: "sync_frames sync_text changes = map sync_text chunks" "concat (map ops_of chunks) = ops_of changes"
    using sync_frames_chunks by blast
  let ?fin = "\<lambda>c. JObject [(''commit'', JBool c)]" and ?T = REQUEST_DEFAULT_TIMEOUT_MS
  show ?thesis
  proof (cases "plugin_frames ws")
    case (Inl e)
    then show ?thesis using chunks(2) by (auto simp: replay_disk_bracketed_def Let_def)
  next
    case (Inr f)
    obtain a where a: "send_bracket_op accepts to_text sender ''transaction_begin'' (JObject [(''name'', JString (''WSync: Pull '' @ cid))]) (ws, []) =
      (let frame = to_text a ''transaction_begin'' (JObject [(''name'', JString (''WSync: Pull '' @ cid))]) ?T;
           ws = register_request a sender (ws\<lparr>ws_next_request_id := a + 1\<rparr>) in
       Some (if accepts [] frame then ((ws, [] @ [frame]), True) else ((abort_request a ws, []), False)))"
      by (rule bracket_op)
    let ?b = "to_text a ''transaction_begin'' (JObject [(''name'', JString (''WSync: Pull '' @ cid))]) ?T"
    let ?ws = "register_request a sender (ws\<lparr>ws_next_request_id := a + 1\<rparr>)"
    show ?thesis
    proof (cases "accepts [] ?b")
      case False
      then show ?thesis using Inr a chunks(2) by (auto simp: replay_disk_bracketed_def Let_def)
    next
      case True
      obtain out ok where run: "send_frames accepts (map sync_text chunks) [?b] = (out, ok)" by (cases "send_frames accepts (map sync_text chunks) [?b]")
      obtain k where k: "out = [?b] @ take k (map sync_text chunks)" "ok \<longrightarrow> out = [?b] @ map sync_text chunks"
        "\<not> ok \<longrightarrow> k < length chunks"
        using send_frames_result [OF run] by auto
      obtain b where b: "send_bracket_op accepts to_text sender ''transaction_finish'' (?fin ok) (?ws, out) =
        (let frame = to_text b ''transaction_finish'' (?fin ok) ?T; ws = register_request b sender (?ws\<lparr>ws_next_request_id := b + 1\<rparr>) in
         Some (if accepts out frame then ((ws, out @ [frame]), True) else ((abort_request b ws, out), False)))"
        by (rule bracket_op)
      show ?thesis
        using Inr a True run b k chunks
        by (cases ok; cases "accepts out (to_text b ''transaction_finish'' (?fin ok) ?T)")
           (auto simp: replay_disk_bracketed_def Let_def)
    qed
  qed
qed

text \<open>
  When the channel fills up behind the begin frame, the aborting finish does not fit either and its
  failure is ignored: the transaction stays open in Studio although the error says it was aborted.
\<close>

theorem replay_abort_lost:
  assumes "plugin_frames ws = Inr f" "sync_frames sync_text changes \<noteq> []"
  shows "\<exists>ws' a. replay_disk_bracketed (\<lambda>sent _. sent = []) to_text sender sync_text cid changes ws =
    Some ((ws', [to_text a ''transaction_begin'' (JObject [(''name'', JString (''WSync: Pull '' @ cid))]) REQUEST_DEFAULT_TIMEOUT_MS]),
      Inl FrameRefused)"
proof -
  obtain a where a: "next_request_id ws = Some (a, ws\<lparr>ws_next_request_id := a + 1\<rparr>)" by (rule next_request_id_some)
  let ?ws = "register_request a sender (ws\<lparr>ws_next_request_id := a + 1\<rparr>)"
  obtain b where b: "next_request_id ?ws = Some (b, ?ws\<lparr>ws_next_request_id := b + 1\<rparr>)" by (rule next_request_id_some)
  show ?thesis using assms a b
    by (cases "sync_frames sync_text changes") (auto simp: replay_disk_bracketed_def send_bracket_op_def Let_def)
qed

end
