(* ===== verification/Backlog.thy ===== *)
theory Backlog
  imports WPrelude "HOL-Library.AList"
begin

text \<open>
  The backlog (\<^verbatim>\<open>src/server/backlog.rs\<close>): disk content that lost to Studio, kept under an index
  until it expires or is restored.

  The file system is what the operations see of it: \<open>bl_work\<close> gives the file or directory tree
  at a workspace path, \<open>bl_store\<close> the one kept in an entry's directory and \<open>bl_index\<close> the
  index last written. Whether a directory can be prepared, a rename, a copy, a removal or the
  index write succeeds is the argument \<open>io\<close>; the clock and the new entry's UUID are arguments
  too. Times are 64-bit seconds that wrap as in a release build. The backlog of a workspace
  covers whole paths: a capture of a file inside another captured directory is outside the model.
\<close>

section \<open>File trees\<close>

datatype fnode = FFile string | FDir "(string \<times> fnode) list"

fun node_ok :: "fnode \<Rightarrow> bool" where
  "node_ok (FFile _) = True"
| "node_ok (FDir xs) = (distinct (map fst xs) \<and> list_all (\<lambda>(_, n). node_ok n) xs)"

lemma size_lookup_less: "map_of xs k = Some n \<Longrightarrow> size n < Suc (size_list (size_prod (\<lambda>_. 0) size) xs)"
  by (induction xs) (auto split: if_splits)

function same_tree :: "fnode \<Rightarrow> fnode \<Rightarrow> bool" where
  "same_tree (FFile a) (FFile b) = (a = b)"
| "same_tree (FDir xs) (FDir ys) =
     (sort (map fst xs) = sort (map fst ys) \<and>
      list_all (\<lambda>k. case (map_of xs k, map_of ys k) of (Some m, Some n) \<Rightarrow> same_tree m n | _ \<Rightarrow> False) (sort (map fst xs)))"
| "same_tree (FFile a) (FDir ys) = False"
| "same_tree (FDir xs) (FFile b) = False"
  by pat_completeness auto
termination
  by (relation "measure (\<lambda>(m, _). size m)") (auto dest: size_lookup_less [OF sym])

text \<open>\<open>copy_tree\<close> onto what is at the target; \<open>None\<close> is its error.\<close>

function copy_tree :: "fnode \<Rightarrow> fnode option \<Rightarrow> fnode option"
  and copy_entries :: "(string \<times> fnode) list \<Rightarrow> (string \<times> fnode) list \<Rightarrow> (string \<times> fnode) list option" where
  "copy_tree (FFile b) t = (case t of Some (FDir _) \<Rightarrow> None | _ \<Rightarrow> Some (FFile b))"
| "copy_tree (FDir xs) t =
     (case t of
        None \<Rightarrow> map_option FDir (copy_entries xs [])
      | Some (FDir ys) \<Rightarrow> map_option FDir (copy_entries xs ys)
      | Some (FFile _) \<Rightarrow> None)"
| "copy_entries [] ys = Some ys"
| "copy_entries ((k, n) # xs) ys =
     (case copy_tree n (map_of ys k) of
        None \<Rightarrow> None
      | Some n' \<Rightarrow> copy_entries xs (AList.update k n' ys))"
  by pat_completeness auto
termination
  by (relation "measure (case_sum (\<lambda>(n, _). 2 * size n) (\<lambda>(xs, _). Suc (2 * size_list (size_prod (\<lambda>_. 0) size) xs)))") auto

section \<open>Entries\<close>

definition ENTRY_TTL_SECONDS :: u64 where
  "ENTRY_TTL_SECONDS = 24 * 60 * 60"

definition saturating_mul :: "u64 \<Rightarrow> u64 \<Rightarrow> u64" where
  "saturating_mul a b = (if unat a * unat b < 2 ^ 64 then a * b else - 1)"

definition ttl_seconds :: "u64 \<Rightarrow> u64" where
  "ttl_seconds hours = (if hours = 0 then ENTRY_TTL_SECONDS else saturating_mul hours (60 * 60))"

datatype reason = InitialSync | ConflictReason

definition reason_str :: "reason \<Rightarrow> string" where
  "reason_str r = (case r of InitialSync \<Rightarrow> ''initial-sync'' | ConflictReason \<Rightarrow> ''conflict'')"

record entry =
  en_id :: string
  en_path :: string
  en_reason :: reason
  en_captured_at :: u64
  en_bytes :: u64
  en_pinned :: bool
  en_captures :: u32

definition expires_at :: "u64 \<Rightarrow> entry \<Rightarrow> u64 option" where
  "expires_at ttl e = (if en_pinned e then None else Some (en_captured_at e + ttl))"

definition entry_expired :: "u64 \<Rightarrow> u64 \<Rightarrow> entry \<Rightarrow> bool" where
  "entry_expired now ttl e = (case expires_at ttl e of Some t \<Rightarrow> t \<le> now | None \<Rightarrow> False)"

definition seconds_remaining :: "u64 \<Rightarrow> u64 \<Rightarrow> entry \<Rightarrow> u64 option" where
  "seconds_remaining now ttl e = map_option (\<lambda>t. if now \<le> t then t - now else 0) (expires_at ttl e)"

text \<open>
  \<open>Path::new(path).components()\<close> of a relative path: the parts between slashes, without the
  empty ones and without \<open>.\<close>, except that a leading \<open>.\<close> is a component of its own.
\<close>

definition path_components :: "string \<Rightarrow> string list" where
  "path_components p =
     (let parts = split_slash p
      in (if hd parts = ''.'' then [''.''] else []) @ filter (\<lambda>c. c \<noteq> [] \<and> c \<noteq> ''.'') parts)"

definition safe_rel_path :: "string \<Rightarrow> bool" where
  "safe_rel_path p \<longleftrightarrow> p \<noteq> [] \<and> hd p \<noteq> CHR ''/'' \<and> CHR 0x5C \<notin> set p \<and>
     list_all (\<lambda>c. c \<noteq> ''.'' \<and> c \<noteq> ''..'') (path_components p)"

section \<open>The store\<close>

record backlog =
  bl_entries :: "entry list"
  bl_index :: "entry list option"
  bl_store :: "string \<Rightarrow> fnode option"
  bl_work :: "string \<Rightarrow> fnode option"

record io =
  io_prepare :: bool
  io_rename :: bool
  io_copy :: bool
  io_remove :: bool
  io_persist :: bool

definition bl_persist :: "io \<Rightarrow> backlog \<Rightarrow> backlog" where
  "bl_persist io b = (if io_persist io then b\<lparr>bl_index := Some (bl_entries b)\<rparr> else b)"

definition sweep :: "io \<Rightarrow> u64 \<Rightarrow> u64 \<Rightarrow> backlog \<Rightarrow> backlog" where
  "sweep io now ttl b =
     (let kept = filter (\<lambda>e. \<not> entry_expired now ttl e) (bl_entries b);
          gone = map en_id (filter (entry_expired now ttl) (bl_entries b));
          b' = b\<lparr>bl_entries := kept,
                 bl_store := (\<lambda>i. if i \<in> set gone \<and> io_remove io then None else bl_store b i)\<rparr>
      in if length kept \<noteq> length (bl_entries b) then bl_persist io b' else b')"

definition bl_load :: "io \<Rightarrow> u64 \<Rightarrow> u64 \<Rightarrow> (string \<Rightarrow> fnode option) \<Rightarrow> (string \<Rightarrow> fnode option) \<Rightarrow> entry list option \<Rightarrow> backlog" where
  "bl_load io now ttl store work index =
     sweep io now ttl \<lparr>bl_entries = (case index of Some es \<Rightarrow> filter (\<lambda>e. safe_rel_path (en_path e)) es | None \<Rightarrow> []),
       bl_index = index, bl_store = store, bl_work = work\<rparr>"

definition identical_entry :: "string \<Rightarrow> fnode \<Rightarrow> backlog \<Rightarrow> entry option" where
  "identical_entry rel node b =
     find (\<lambda>e. case bl_store b (en_id e) of Some n \<Rightarrow> same_tree n node | None \<Rightarrow> False)
       (filter (\<lambda>e. en_path e = rel) (bl_entries b))"

definition remove_any :: "io \<Rightarrow> string \<Rightarrow> backlog \<Rightarrow> backlog" where
  "remove_any io p b = (if io_remove io then b\<lparr>bl_work := (bl_work b)(p := None)\<rparr> else b)"

text \<open>The first entry with an id, changed in place.\<close>

definition update_entry :: "string \<Rightarrow> (entry \<Rightarrow> entry) \<Rightarrow> entry list \<Rightarrow> entry list" where
  "update_entry i f es =
     (case position (\<lambda>e. en_id e = i) es of None \<Rightarrow> es | Some k \<Rightarrow> es[k := f (es ! k)])"

definition refresh :: "u64 \<Rightarrow> reason \<Rightarrow> entry \<Rightarrow> entry" where
  "refresh now r e = e\<lparr>en_captured_at := now,
     en_captures := (if en_captures e = - 1 then - 1 else en_captures e + 1), en_reason := r\<rparr>"

definition capture :: "io \<Rightarrow> string \<Rightarrow> u64 \<Rightarrow> u64 \<Rightarrow> string \<Rightarrow> string \<Rightarrow> reason \<Rightarrow> backlog \<Rightarrow> backlog \<times> entry option" where
  "capture io uuid now bytes rel source r b =
     (case bl_work b source of
        None \<Rightarrow> (b, None)
      | Some node \<Rightarrow>
          if \<not> safe_rel_path rel then (b, None)
          else case identical_entry rel node b of
            Some held \<Rightarrow>
              (let b = remove_any io source b;
                   b = b\<lparr>bl_entries := update_entry (en_id held) (refresh now r) (bl_entries b)\<rparr>
               in (bl_persist io b, find (\<lambda>e. en_id e = en_id held) (bl_entries b)))
          | None \<Rightarrow>
              if \<not> io_prepare io then (b, None)
              else
                (let moved = (if io_rename io then Some (b\<lparr>bl_work := (bl_work b)(source := None)\<rparr>)
                              else if io_copy io then Some (remove_any io source b) else None)
                 in case moved of
                      None \<Rightarrow> (b, None)
                    | Some b \<Rightarrow>
                        (let e = \<lparr>en_id = uuid, en_path = rel, en_reason = r, en_captured_at = now,
                               en_bytes = bytes, en_pinned = False, en_captures = 1\<rparr>;
                             b = b\<lparr>bl_store := (bl_store b)(uuid := Some node), bl_entries := bl_entries b @ [e]\<rparr>
                         in (bl_persist io b, Some e))))"

definition set_pinned :: "io \<Rightarrow> string \<Rightarrow> bool \<Rightarrow> backlog \<Rightarrow> backlog \<times> entry option" where
  "set_pinned io i pinned b =
     (case find (\<lambda>e. en_id e = i) (bl_entries b) of
        None \<Rightarrow> (b, None)
      | Some e \<Rightarrow>
          (let b = b\<lparr>bl_entries := update_entry i (\<lambda>e. e\<lparr>en_pinned := pinned\<rparr>) (bl_entries b)\<rparr>
           in (bl_persist io b, Some (e\<lparr>en_pinned := pinned\<rparr>))))"

definition bl_get :: "io \<Rightarrow> u64 \<Rightarrow> u64 \<Rightarrow> string \<Rightarrow> backlog \<Rightarrow> backlog \<times> entry option" where
  "bl_get io now ttl i b =
     (let b = sweep io now ttl b in (b, find (\<lambda>e. en_id e = i) (bl_entries b)))"

definition bl_forget :: "io \<Rightarrow> string \<Rightarrow> backlog \<Rightarrow> backlog \<times> bool" where
  "bl_forget io i b =
     (let kept = filter (\<lambda>e. en_id e \<noteq> i) (bl_entries b) in
      if length kept = length (bl_entries b) then (b, False)
      else (bl_persist io (b\<lparr>bl_entries := kept,
              bl_store := (if io_remove io then (bl_store b)(i := None) else bl_store b)\<rparr>), True))"

datatype restore_error = NoSuchEntry | CannotCreate | CannotRestore

definition bl_restore :: "io \<Rightarrow> u64 \<Rightarrow> u64 \<Rightarrow> string \<Rightarrow> backlog \<Rightarrow> backlog \<times> (restore_error + string)" where
  "bl_restore io now ttl i b =
     (case bl_get io now ttl i b of
        (b, None) \<Rightarrow> (b, Inl NoSuchEntry)
      | (b, Some e) \<Rightarrow>
          if \<not> io_prepare io then (b, Inl CannotCreate)
          else
            (case (if io_copy io then Option.bind (bl_store b (en_id e)) (\<lambda>n. copy_tree n (bl_work b (en_path e))) else None) of
               None \<Rightarrow> (b, Inl CannotRestore)
             | Some n \<Rightarrow>
                 (fst (bl_forget io i (b\<lparr>bl_work := (bl_work b)(en_path e := Some n)\<rparr>)), Inr (en_path e))))"

definition bl_clear :: "io \<Rightarrow> backlog \<Rightarrow> backlog \<times> nat" where
  "bl_clear io b =
     (b\<lparr>bl_entries := [], bl_store := (if io_remove io then (\<lambda>_. None) else bl_store b),
        bl_index := (if io_remove io then None else bl_index b)\<rparr>, length (bl_entries b))"

text \<open>\<open>olderVersions\<close> of the entry at an index, and the entries \<open>to_json\<close> shows.\<close>

definition older_versions :: "entry list \<Rightarrow> nat \<Rightarrow> nat" where
  "older_versions es i = length (filter (\<lambda>j. en_path (es ! j) = en_path (es ! i) \<and>
     (en_captured_at (es ! j) < en_captured_at (es ! i) \<or>
      en_captured_at (es ! j) = en_captured_at (es ! i) \<and> j < i)) [0..<length es])"

definition shown :: "u64 \<Rightarrow> u64 \<Rightarrow> backlog \<Rightarrow> entry list" where
  "shown now ttl b = filter (\<lambda>e. \<not> entry_expired now ttl e) (bl_entries b)"

end
