(* ===== verification/BacklogSafety.thy ===== *)
theory BacklogSafety
  imports Backlog
begin

text \<open>
  What the backlog guarantees: content moved into it is not lost and comes back unchanged, the
  sweep drops what expired and nothing pinned, and a stored path stays inside the workspace.
\<close>

section \<open>File trees\<close>

lemma same_tree_refl: "node_ok n \<Longrightarrow> same_tree n n"
proof (induction n)
  case (FDir xs)
  have "case (map_of xs k, map_of xs k) of (Some m, Some n) \<Rightarrow> same_tree m n | _ \<Rightarrow> False"
    if "k \<in> set (map fst xs)" for k
  proof -
    from that have "map_of xs k \<noteq> None" by (simp add: map_of_eq_None_iff)
    then obtain n where n: "map_of xs k = Some n" by blast
    then have "(k, n) \<in> set xs" by (rule map_of_SomeD)
    then have "same_tree n n" using FDir by (auto simp: list_all_iff)
    then show ?thesis using n by simp
  qed
  then show ?case by (simp add: list_all_iff)
qed simp

lemma update_fresh: "k \<notin> fst ` set ys \<Longrightarrow> AList.update k n ys = ys @ [(k, n)]"
  by (induction ys) auto

lemma copy_entries_fresh:
  "distinct (map fst (ys @ xs)) \<Longrightarrow> list_all (\<lambda>(_, n). copy_tree n None = Some n) xs \<Longrightarrow>
     copy_entries xs ys = Some (ys @ xs)"
proof (induction xs arbitrary: ys)
  case (Cons x xs)
  obtain k n where x: "x = (k, n)" by (cases x)
  have "k \<notin> fst ` set ys" using Cons.prems(1) x by auto
  then have "map_of ys k = None" "AList.update k n ys = ys @ [(k, n)]"
    by (simp_all add: map_of_eq_None_iff update_fresh)
  then show ?case using Cons x by simp
qed simp

lemma copy_tree_fresh: "node_ok n \<Longrightarrow> copy_tree n None = Some n"
proof (induction n)
  case (FDir xs)
  then have "list_all (\<lambda>(_, n). copy_tree n None = Some n) xs" by (auto simp: list_all_iff)
  then show ?case using FDir.prems copy_entries_fresh [of "[]" xs] by simp
qed simp

section \<open>The store\<close>

definition backlog_ok :: "backlog \<Rightarrow> bool" where
  "backlog_ok b \<longleftrightarrow> distinct (map en_id (bl_entries b)) \<and>
     (\<forall>e\<in>set (bl_entries b). safe_rel_path (en_path e) \<and> (\<exists>n. bl_store b (en_id e) = Some n \<and> node_ok n))"

lemma bl_persist_simps [simp]:
  "bl_entries (bl_persist io b) = bl_entries b" "bl_store (bl_persist io b) = bl_store b"
  "bl_work (bl_persist io b) = bl_work b" "backlog_ok (bl_persist io b) = backlog_ok b"
  by (simp_all add: bl_persist_def backlog_ok_def)

lemma remove_any_simps [simp]:
  "bl_entries (remove_any io p b) = bl_entries b" "bl_store (remove_any io p b) = bl_store b"
  "q \<noteq> p \<Longrightarrow> bl_work (remove_any io p b) q = bl_work b q"
  "backlog_ok (remove_any io p b) = backlog_ok b"
  by (simp_all add: remove_any_def backlog_ok_def)

lemma update_entry_nth:
  assumes "distinct (map en_id es)" "e \<in> set es" "en_id e = i" "\<And>e. en_id (f e) = en_id e"
  shows "map en_id (update_entry i f es) = map en_id es"
    and "set (update_entry i f es) = insert (f e) (set es - {e})"
    and "find (\<lambda>e. en_id e = i) (update_entry i f es) = Some (f e)"
proof -
  have "position (\<lambda>e. en_id e = i) es \<noteq> None" using assms(2,3) by auto
  then obtain k where k: "position (\<lambda>e. en_id e = i) es = Some k" by blast
  have len: "k < length es" and at: "en_id (es ! k) = i" and before: "\<forall>j<k. en_id (es ! j) \<noteq> i"
    using position_SomeD [OF k] by auto
  have "es ! k = e" using assms(1,2,3) at len by (metis distinct_map inj_onD nth_mem)
  then have up: "update_entry i f es = es[k := f e]" using k by (simp add: update_entry_def)
  show "map en_id (update_entry i f es) = map en_id es"
    unfolding up using len \<open>es ! k = e\<close> assms(4) by (simp add: map_update list_update_same_conv)
  have "distinct es" using assms(1) by (simp add: distinct_map)
  then show "set (update_entry i f es) = insert (f e) (set es - {e})"
    unfolding up using len \<open>es ! k = e\<close> set_update_distinct [of es k "f e"] by simp
  show "find (\<lambda>e. en_id e = i) (update_entry i f es) = Some (f e)"
    unfolding up find_Some_iff using len before assms(3,4) by (auto intro!: exI [of _ k] simp: nth_list_update)
qed

lemma identical_entry_Some:
  "identical_entry rel node b = Some e \<Longrightarrow>
     e \<in> set (bl_entries b) \<and> en_path e = rel \<and> (\<exists>n. bl_store b (en_id e) = Some n \<and> same_tree n node)"
  by (auto simp: identical_entry_def dest!: find_SomeD split: option.splits)

lemma capture_outcome:
  assumes ok: "backlog_ok b" and fresh: "uuid \<notin> en_id ` set (bl_entries b)"
    and work: "bl_work b source = Some node" "node_ok node"
    and cap: "capture io uuid now bytes rel source r b = (b', res)"
  shows "(case res of
      Some e \<Rightarrow> e \<in> set (bl_entries b') \<and> en_path e = rel \<and> en_captured_at e = now \<and>
        (\<exists>n. bl_store b' (en_id e) = Some n \<and> same_tree n node)
    | None \<Rightarrow> bl_work b' source = Some node \<and> bl_entries b' = bl_entries b) \<and>
    (\<forall>e\<in>set (bl_entries b). bl_store b' (en_id e) = bl_store b (en_id e) \<and> en_id e \<in> en_id ` set (bl_entries b')) \<and>
    (\<forall>p. p \<noteq> source \<longrightarrow> bl_work b' p = bl_work b p)"
proof (cases "safe_rel_path rel")
  case False
  then show ?thesis using cap work by (auto simp: capture_def)
next
  case safe: True
  show ?thesis
  proof (cases "identical_entry rel node b")
    case (Some held)
    note h = identical_entry_Some [OF Some]
    have d: "distinct (map en_id (bl_entries b))" using ok by (simp add: backlog_ok_def)
    have keep: "en_id (refresh now r e) = en_id e" for e by (simp add: refresh_def)
    note up = update_entry_nth [OF d conjunct1 [OF h] refl, of "refresh now r", OF keep]
    have b': "bl_entries b' = update_entry (en_id held) (refresh now r) (bl_entries b)"
        "bl_store b' = bl_store b" "\<forall>p. p \<noteq> source \<longrightarrow> bl_work b' p = bl_work b p" "res = Some (refresh now r held)"
      using cap work safe Some up(3) by (auto simp: capture_def Let_def)
    have "en_id ` set (bl_entries b') = en_id ` set (bl_entries b)"
      using up(1) b'(1) by (metis set_map)
    moreover have "refresh now r held \<in> set (bl_entries b')" using up(2) b'(1) by simp
    ultimately show ?thesis using h b'(2-4) by (auto simp: refresh_def)
  next
    case None
    then show ?thesis
      using cap work safe fresh same_tree_refl [OF work(2)]
      by (auto simp: capture_def Let_def split: if_splits)
  qed
qed

text \<open>
  C9: A capture never loses content, whatever file operation fails. When it answers with an
  entry, the entry is listed for that path and its stored tree is the content that was in the
  workspace; when it answers with nothing, the workspace still has the content where it was.
  Either way nothing stored before is lost.
\<close>

theorem capture_never_loses:
  assumes ok: "backlog_ok b" and fresh: "uuid \<notin> en_id ` set (bl_entries b)"
    and work: "bl_work b source = Some node" "node_ok node"
    and cap: "capture io uuid now bytes rel source r b = (b', res)"
  shows "(case res of
      Some e \<Rightarrow> e \<in> set (bl_entries b') \<and> en_path e = rel \<and> en_captured_at e = now \<and>
        (\<exists>n. bl_store b' (en_id e) = Some n \<and> same_tree n node)
    | None \<Rightarrow> bl_work b' source = Some node \<and> bl_entries b' = bl_entries b) \<and>
    (\<forall>e\<in>set (bl_entries b). bl_store b' (en_id e) = bl_store b (en_id e) \<and> en_id e \<in> en_id ` set (bl_entries b')) \<and>
    (\<forall>p. p \<noteq> source \<longrightarrow> bl_work b' p = bl_work b p)"
  by (rule capture_outcome [OF assms])

theorem capture_never_loses_witness:
  "\<exists>e. snd (capture \<lparr>io_prepare = True, io_rename = False, io_copy = True, io_remove = False, io_persist = False\<rparr>
      ''id-1'' 100 3 ''src/a.luau'' ''w/src/a.luau'' InitialSync
      \<lparr>bl_entries = [], bl_index = None, bl_store = (\<lambda>_. None),
       bl_work = (\<lambda>p. if p = ''w/src/a.luau'' then Some (FFile ''abc'') else None)\<rparr>) = Some e \<and> en_path e = ''src/a.luau''"
proof -
  let ?io = "\<lparr>io_prepare = True, io_rename = False, io_copy = True, io_remove = False, io_persist = False\<rparr>"
  let ?b = "\<lparr>bl_entries = [], bl_index = None, bl_store = (\<lambda>_. None),
       bl_work = (\<lambda>p. if p = ''w/src/a.luau'' then Some (FFile ''abc'') else None)\<rparr>"
  have "backlog_ok ?b" by (simp add: backlog_ok_def)
  from capture_never_loses [OF this, of "''id-1''" "''w/src/a.luau''" "FFile ''abc''" ?io 100 3 "''src/a.luau''" InitialSync,
      OF _ _ _ prod.collapse [symmetric]]
  have "case snd (capture ?io ''id-1'' 100 3 ''src/a.luau'' ''w/src/a.luau'' InitialSync ?b) of
      Some e \<Rightarrow> en_path e = ''src/a.luau'' | None \<Rightarrow> True"
    by (auto split: option.splits)
  moreover have "snd (capture ?io ''id-1'' 100 3 ''src/a.luau'' ''w/src/a.luau'' InitialSync ?b) \<noteq> None"
    by (simp add: capture_def identical_entry_def safe_rel_path_def path_components_def Let_def)
  ultimately show ?thesis by auto
qed

lemma capture_ok:
  assumes ok: "backlog_ok b" and fresh: "uuid \<notin> en_id ` set (bl_entries b)"
    and work: "bl_work b source = Some node" "node_ok node"
  shows "backlog_ok (fst (capture io uuid now bytes rel source r b))"
proof (cases "safe_rel_path rel")
  case safe: True
  show ?thesis
  proof (cases "identical_entry rel node b")
    case (Some held)
    note h = identical_entry_Some [OF Some]
    have d: "distinct (map en_id (bl_entries b))" using ok by (simp add: backlog_ok_def)
    have keep: "en_id (refresh now r e) = en_id e" "en_path (refresh now r e) = en_path e" for e
      by (simp_all add: refresh_def)
    note up = update_entry_nth [OF d conjunct1 [OF h] refl, of "refresh now r", OF keep(1)]
    have "backlog_ok (b\<lparr>bl_entries := update_entry (en_id held) (refresh now r) (bl_entries b)\<rparr>)"
      using ok h up(1,2) keep by (auto simp: backlog_ok_def)
    moreover have "backlog_ok ((remove_any io source b)\<lparr>bl_entries := es\<rparr>) = backlog_ok (b\<lparr>bl_entries := es\<rparr>)" for es
      by (simp add: backlog_ok_def)
    ultimately show ?thesis using work safe Some by (simp add: capture_def Let_def)
  next
    case None
    have "backlog_ok (b1\<lparr>bl_store := (bl_store b1)(uuid := Some node), bl_entries := bl_entries b1 @
        [\<lparr>en_id = uuid, en_path = rel, en_reason = r, en_captured_at = now, en_bytes = bytes, en_pinned = False, en_captures = 1\<rparr>]\<rparr>)"
      if "bl_entries b1 = bl_entries b" "bl_store b1 = bl_store b" for b1
      using that ok fresh safe work(2) by (auto simp: backlog_ok_def)
    then show ?thesis using work safe None ok by (simp add: capture_def Let_def)
  qed
qed (simp add: capture_def work ok)

lemma sweep_simps [simp]:
  "bl_entries (sweep io now ttl b) = filter (\<lambda>e. \<not> entry_expired now ttl e) (bl_entries b)"
  "bl_work (sweep io now ttl b) = bl_work b"
  by (simp_all add: sweep_def Let_def)

lemma sweep_store:
  assumes "distinct (map en_id (bl_entries b))" "e \<in> set (bl_entries b)" "\<not> entry_expired now ttl e"
  shows "bl_store (sweep io now ttl b) (en_id e) = bl_store b (en_id e)"
proof -
  have "en_id e \<notin> en_id ` set (filter (entry_expired now ttl) (bl_entries b))"
    using assms by (auto simp: distinct_map dest: inj_onD)
  then show ?thesis by (simp add: sweep_def Let_def)
qed

lemma restore_live:
  assumes ok: "backlog_ok b" and e: "e \<in> set (bl_entries b)" "\<not> entry_expired now ttl e"
    and vac: "bl_work b (en_path e) = None" and io: "io_prepare io" "io_copy io"
  shows "\<exists>b' n. bl_restore io now ttl (en_id e) b = (b', Inr (en_path e)) \<and>
    bl_store b (en_id e) = Some n \<and> bl_work b' (en_path e) = Some n \<and>
    en_id e \<notin> en_id ` set (bl_entries b')"
proof -
  have d: "distinct (map en_id (bl_entries b))" using ok by (simp add: backlog_ok_def)
  obtain n where n: "bl_store b (en_id e) = Some n" "node_ok n" using ok e(1) by (auto simp: backlog_ok_def)
  let ?es = "filter (\<lambda>e. \<not> entry_expired now ttl e) (bl_entries b)"
  have mem: "e \<in> set ?es" using e by simp
  have "find (\<lambda>x. en_id x = en_id e) ?es \<noteq> None" using mem by (auto simp: find_None_iff)
  then obtain x where x: "find (\<lambda>x. en_id x = en_id e) ?es = Some x" by blast
  have "x = e" using find_SomeD [OF x] e(1) d by (auto simp: distinct_map dest: inj_onD)
  with x have f: "find (\<lambda>x. en_id x = en_id e) ?es = Some e" by simp
  have "length (filter (\<lambda>x. en_id x \<noteq> en_id e) ?es) \<noteq> length ?es"
    using mem by (metis (mono_tags, lifting) length_filter_less less_irrefl)
  then show ?thesis
    using f n vac io sweep_store [OF d e, of io] copy_tree_fresh [OF n(2)]
    by (auto simp: bl_restore_def bl_get_def Let_def bl_forget_def)
qed

text \<open>
  C40: What is captured comes back: a file or directory tree moved into the backlog and restored
  before it expires, with the file operations succeeding, is again at its workspace path with
  the same bytes in every file, and its entry is gone.
\<close>

theorem capture_restore_roundtrip:
  assumes "backlog_ok b" "uuid \<notin> en_id ` set (bl_entries b)" "bl_work b rel = Some node" "node_ok node"
    "capture io uuid now bytes rel rel r b = (b1, Some e)" "io_remove io" "io_prepare io" "io_copy io"
    "\<not> entry_expired later ttl e"
  shows "\<exists>b2 n. bl_restore io later ttl (en_id e) b1 = (b2, Inr rel) \<and> bl_work b2 rel = Some n \<and>
    same_tree n node \<and> en_id e \<notin> en_id ` set (bl_entries b2)"
proof -
  have ok1: "backlog_ok b1" using capture_ok [OF assms(1-4), of io now bytes rel r] assms(5) by simp
  note kept = capture_outcome [OF assms(1-5), simplified]
  have "bl_work b1 rel = None"
    using assms(3,5,6) by (auto simp: capture_def remove_any_def Let_def split: if_splits option.splits)
  then show ?thesis
    using restore_live [OF ok1, of e later ttl io] kept assms(7-9) by fastforce
qed

theorem capture_restore_roundtrip_witness:
  "let io = \<lparr>io_prepare = True, io_rename = True, io_copy = True, io_remove = True, io_persist = True\<rparr>;
       b = \<lparr>bl_entries = [], bl_index = None, bl_store = (\<lambda>_. None), bl_work = (\<lambda>p. if p = ''a.luau'' then Some (FFile ''abc'') else None)\<rparr>;
       b1 = fst (capture io ''id-1'' 100 3 ''a.luau'' ''a.luau'' InitialSync b)
   in \<exists>b2 n. bl_restore io 500 86400 ''id-1'' b1 = (b2, Inr ''a.luau'') \<and> bl_work b2 ''a.luau'' = Some n \<and> same_tree n (FFile ''abc'')"
proof -
  let ?io = "\<lparr>io_prepare = True, io_rename = True, io_copy = True, io_remove = True, io_persist = True\<rparr>"
  let ?b = "\<lparr>bl_entries = [], bl_index = None, bl_store = (\<lambda>_. None), bl_work = (\<lambda>p. if p = ''a.luau'' then Some (FFile ''abc'') else None)\<rparr>"
  let ?e = "\<lparr>en_id = ''id-1'', en_path = ''a.luau'', en_reason = InitialSync, en_captured_at = 100, en_bytes = 3, en_pinned = False, en_captures = 1\<rparr>"
  have c: "snd (capture ?io ''id-1'' 100 3 ''a.luau'' ''a.luau'' InitialSync ?b) = Some ?e"
    by (simp add: capture_def identical_entry_def safe_rel_path_def path_components_def Let_def)
  have "backlog_ok ?b" by (simp add: backlog_ok_def)
  moreover have "\<not> entry_expired 500 86400 ?e" by (simp add: entry_expired_def expires_at_def)
  ultimately show ?thesis
    using capture_restore_roundtrip [of ?b "''id-1''" "''a.luau''" "FFile ''abc''" ?io 100 3 InitialSync
        "fst (capture ?io ''id-1'' 100 3 ''a.luau'' ''a.luau'' InitialSync ?b)" ?e 500 86400]
      c by (simp add: Let_def prod_eq_iff) blast
qed

section \<open>Expiry\<close>

text \<open>
  The sweep drops exactly the unpinned entries whose lifetime has passed, as long as capture
  time and lifetime do not overflow 64 bits; a pinned entry survives every sweep, and the
  stored bytes of what stays are untouched.
\<close>

theorem sweep_exact:
  assumes "distinct (map en_id (bl_entries b))" "e \<in> set (bl_entries b)"
    "unat (en_captured_at e) + unat ttl < 2 ^ 64"
  shows "(e \<in> set (bl_entries (sweep io now ttl b)) \<longleftrightarrow>
      en_pinned e \<or> unat now < unat (en_captured_at e) + unat ttl) \<and>
    (e \<in> set (bl_entries (sweep io now ttl b)) \<longrightarrow> bl_store (sweep io now ttl b) (en_id e) = bl_store b (en_id e))"
proof -
  have "unat (en_captured_at e + ttl) = unat (en_captured_at e) + unat ttl"
    using assms(3) by (simp add: unat_word_ariths(1))
  then have "entry_expired now ttl e \<longleftrightarrow> \<not> en_pinned e \<and> \<not> unat now < unat (en_captured_at e) + unat ttl"
    by (auto simp: entry_expired_def expires_at_def word_le_nat_alt)
  then show ?thesis using assms(1,2) sweep_store by auto
qed

theorem sweep_exact_witness:
  "let e = \<lparr>en_id = ''i'', en_path = ''p'', en_reason = InitialSync, en_captured_at = 100, en_bytes = 0, en_pinned = True, en_captures = 1\<rparr>
   in e \<in> set (bl_entries (sweep \<lparr>io_prepare = True, io_rename = True, io_copy = True, io_remove = True, io_persist = True\<rparr> 1000000 86400
      \<lparr>bl_entries = [e], bl_index = None, bl_store = (\<lambda>_. None), bl_work = (\<lambda>_. None)\<rparr>))"
  using sweep_exact [of "\<lparr>bl_entries = [\<lparr>en_id = ''i'', en_path = ''p'', en_reason = InitialSync, en_captured_at = 100, en_bytes = 0, en_pinned = True, en_captures = 1\<rparr>],
      bl_index = None, bl_store = (\<lambda>_. None), bl_work = (\<lambda>_. None)\<rparr>"
      "\<lparr>en_id = ''i'', en_path = ''p'', en_reason = InitialSync, en_captured_at = 100, en_bytes = 0, en_pinned = True, en_captures = 1\<rparr>" 86400]
  by (simp add: Let_def)

text \<open>
  A configured lifetime large enough to saturate makes every entry expire at once: with
  \<open>backlog_ttl_hours\<close> at its maximum the deadline of an entry captured after the epoch wraps
  to before its capture, so the very next sweep drops it and its stored bytes.
\<close>

theorem huge_ttl_expires_at_once:
  assumes "\<not> en_pinned e" "0 < en_captured_at e" "en_captured_at e \<le> now"
  shows "e \<notin> set (bl_entries (sweep io now (ttl_seconds (- 1)) b))"
proof -
  have max: "ttl_seconds (- 1) = - 1"
    by (simp add: ttl_seconds_def saturating_mul_def unsigned_minus_1_eq_mask mask_eq_exp_minus_1)
  have "en_captured_at e - 1 \<le> now" using assms(2,3) by unat_arith
  then have "en_captured_at e + (- 1) \<le> now" by simp
  then show ?thesis using assms(1) by (simp add: max entry_expired_def expires_at_def)
qed

theorem huge_ttl_expires_at_once_witness:
  "let e = \<lparr>en_id = ''i'', en_path = ''p'', en_reason = InitialSync, en_captured_at = 100, en_bytes = 0, en_pinned = False, en_captures = 1\<rparr>
   in e \<notin> set (bl_entries (sweep \<lparr>io_prepare = True, io_rename = True, io_copy = True, io_remove = True, io_persist = True\<rparr> 100 (ttl_seconds (- 1))
      \<lparr>bl_entries = [e], bl_index = None, bl_store = (\<lambda>_. None), bl_work = (\<lambda>_. None)\<rparr>))"
  unfolding Let_def by (rule huge_ttl_expires_at_once) simp_all

section \<open>Stored paths\<close>

text \<open>How the file system resolves the parts of a path below a base directory.\<close>

fun resolve_parts :: "string list \<Rightarrow> string list \<Rightarrow> string list" where
  "resolve_parts base [] = base"
| "resolve_parts base (c # cs) =
     (if c = ''..'' then resolve_parts (butlast base) cs
      else if c = ''.'' \<or> c = [] then resolve_parts base cs
      else resolve_parts (base @ [c]) cs)"

lemma resolve_parts_descends:
  "''..'' \<notin> set cs \<Longrightarrow> resolve_parts base cs = base @ filter (\<lambda>c. c \<noteq> [] \<and> c \<noteq> ''.'') cs"
  by (induction cs arbitrary: base) auto

text \<open>
  A path the backlog accepts stays inside the workspace: it is relative, and resolved below
  any base directory it only descends, by the components it lists.
\<close>

theorem safe_path_descends:
  assumes "safe_rel_path p"
  shows "hd p \<noteq> CHR ''/'' \<and> resolve_parts base (split_slash p) = base @ path_components p"
proof -
  have comps: "\<forall>c\<in>set (path_components p). c \<noteq> ''.'' \<and> c \<noteq> ''..''" and rel: "hd p \<noteq> CHR ''/''"
    using assms by (simp_all add: safe_rel_path_def list_all_iff)
  have no_dot: "hd (split_slash p) \<noteq> ''.''"
  proof
    assume "hd (split_slash p) = ''.''"
    then have "''.'' \<in> set (path_components p)" by (simp add: path_components_def Let_def)
    then show False using comps by blast
  qed
  have "''..'' \<notin> set (split_slash p)"
    using comps by (auto simp: path_components_def Let_def)
  from resolve_parts_descends [OF this] show ?thesis
    using rel no_dot by (simp add: path_components_def Let_def)
qed

theorem safe_path_descends_witness:
  "resolve_parts [''home'', ''w''] (split_slash ''src/a.luau'') = [''home'', ''w'', ''src'', ''a.luau'']"
  using safe_path_descends [of "''src/a.luau''" "[''home'', ''w'']"]
  by (simp add: safe_rel_path_def path_components_def Let_def)

end
