(* ===== verification/Synced.thy ===== *)
theory Synced
  imports Request BacklogSafety QueueSafety
begin

text \<open>
  The disk-to-Studio barrier (\<^verbatim>\<open>src/server/synced.rs\<close>) and the pending counts. A waiting stage
  polls: what it sees at the \<open>k\<close>-th look, the clock included, is a function of \<open>k\<close>. The
  watcher's last flush and held events come from the virtual file system, the fence from the
  processor, the flow marks from the queue, the answer from the plugin call. Times are
  milliseconds; the reply's timings are not modelled.
\<close>

section \<open>Definitions\<close>

datatype stage = StagePlugin | StageWatcher | StageProcessor | StageQueue | StageStudio

definition stage_str :: "stage \<Rightarrow> string" where
  "stage_str s = (case s of StagePlugin \<Rightarrow> ''plugin'' | StageWatcher \<Rightarrow> ''watcher'' | StageProcessor \<Rightarrow> ''processor''
     | StageQueue \<Rightarrow> ''queue'' | StageStudio \<Rightarrow> ''studio'')"

definition WATCHER_DELIVERY_SLACK :: duration where "WATCHER_DELIVERY_SLACK = 150"
definition DEBOUNCE_TIMEOUT :: duration where "DEBOUNCE_TIMEOUT = 100"
definition STUDIO_SLACK_MS :: nat where "STUDIO_SLACK_MS = 500"

record barrier_failure =
  bf_stage :: stage
  bf_code :: string

definition barrier_timeout :: "stage \<Rightarrow> barrier_failure" where
  "barrier_timeout s = \<lparr>bf_stage = s, bf_code = TIMEOUT\<rparr>"

definition barrier_disconnected :: barrier_failure where
  "barrier_disconnected = \<lparr>bf_stage = StagePlugin, bf_code = PLUGIN_ERROR\<rparr>"

record barrier_outcome =
  bo_flushed_changes :: u64
  bo_drained_events :: nat
  bo_source_writes_awaited :: u64
  bo_suppressed_events :: nat

definition studio_failure :: "call_error \<Rightarrow> barrier_failure" where
  "studio_failure e =
     (if ce_code e = TIMEOUT then barrier_timeout StageStudio
      else if ce_code e = UNKNOWN_OP then \<lparr>bf_stage = StageStudio, bf_code = UNKNOWN_OP\<rparr>
      else \<lparr>bf_stage = StageStudio, bf_code = PLUGIN_ERROR\<rparr>)"

datatype fence_result = Drained nat | FenceGone | FenceTimeout

record barrier_world =
  bw_frames :: "no_plugin + unit"
  bw_queue_id :: "u32 option"
  bw_started :: instant
  bw_now :: "nat \<Rightarrow> instant"
  bw_last_flush :: "nat \<Rightarrow> instant option"
  bw_held :: "nat \<Rightarrow> nat"
  bw_fence :: fence_result
  bw_flow :: "nat \<Rightarrow> flow_mark option"
  bw_answer :: "nat \<Rightarrow> call_error + json"
  bw_queue_id_after :: "u32 option"
  bw_suppressed_before :: nat
  bw_suppressed_after :: nat

text \<open>A polling loop: the first look that settles it, or the first look at or past the deadline.\<close>

partial_function (option) poll ::
  "(nat \<Rightarrow> 'r option) \<Rightarrow> (nat \<Rightarrow> instant) \<Rightarrow> instant \<Rightarrow> nat \<Rightarrow> (nat \<times> 'r option) option" where
  "poll look now deadline k =
     (case look k of
        Some r \<Rightarrow> Some (k, Some r)
      | None \<Rightarrow> if deadline \<le> now k then Some (k, None) else poll look now deadline (Suc k))"

definition watcher_look :: "barrier_world \<Rightarrow> nat \<Rightarrow> unit option" where
  "watcher_look w k =
     (let through = bw_started w + WATCHER_DELIVERY_SLACK + DEBOUNCE_TIMEOUT in
      case bw_last_flush w k of
        Some pass \<Rightarrow> if through \<le> pass \<and> bw_held w k = 0 then Some () else None
      | None \<Rightarrow> if through \<le> bw_now w k \<and> bw_held w k = 0 then Some () else None)"

definition queue_look :: "barrier_world \<Rightarrow> flow_mark \<Rightarrow> nat \<Rightarrow> bool option" where
  "queue_look w target k =
     (case bw_flow w k of
        None \<Rightarrow> Some False
      | Some m \<Rightarrow> if fm_pushed target \<le> fm_settled m then Some True else None)"

text \<open>The studio stage, after the queue stage settled at look \<open>k\<close>; it returns the outcome and the mark to confirm.\<close>

definition studio_stage ::
  "barrier_world \<Rightarrow> instant \<Rightarrow> u32 \<Rightarrow> nat \<Rightarrow> flow_mark \<Rightarrow> nat \<Rightarrow> barrier_failure + barrier_outcome \<times> flow_mark" where
  "studio_stage w deadline queue_id k target drained =
     (if deadline - bw_now w k = 0 then Inl (barrier_timeout StageStudio)
      else case bw_answer w (deadline - bw_now w k - STUDIO_SLACK_MS) of
        Inl e \<Rightarrow> Inl (studio_failure e)
      | Inr answer \<Rightarrow>
          if bw_queue_id_after w \<noteq> Some queue_id then Inl barrier_disconnected
          else if field ''settled'' as_bool answer = Some False then Inl (barrier_timeout StageStudio)
          else Inr (\<lparr>bo_flushed_changes = saturating_sub (fm_pushed_changes target) (fm_confirmed_changes target),
                 bo_drained_events = drained,
                 bo_source_writes_awaited = (case field ''sourceWritesAwaited'' as_u64 answer of Some n \<Rightarrow> n | None \<Rightarrow> 0),
                 bo_suppressed_events = bw_suppressed_after w - bw_suppressed_before w\<rparr>,
               target\<lparr>fm_settled_changes := fm_pushed_changes target\<rparr>))"

definition run_barrier ::
  "barrier_world \<Rightarrow> instant \<Rightarrow> (barrier_failure + barrier_outcome \<times> flow_mark) option" where
  "run_barrier w deadline =
     (case bw_frames w of
        Inl _ \<Rightarrow> Some (Inl \<lparr>bf_stage = StagePlugin, bf_code = PLUGIN_ERROR\<rparr>)
      | Inr _ \<Rightarrow>
          (case bw_queue_id w of
             None \<Rightarrow> Some (Inl barrier_disconnected)
           | Some queue_id \<Rightarrow>
               Option.bind (poll (watcher_look w) (bw_now w) deadline 0) (\<lambda>(k, flushed).
                 if flushed = None then Some (Inl (barrier_timeout StageWatcher))
                 else case bw_fence w of
                   FenceGone \<Rightarrow> Some (Inl \<lparr>bf_stage = StageProcessor, bf_code = PLUGIN_ERROR\<rparr>)
                 | FenceTimeout \<Rightarrow> Some (Inl (barrier_timeout StageProcessor))
                 | Drained n \<Rightarrow>
                     (case bw_flow w (Suc k) of
                        None \<Rightarrow> Some (Inl barrier_disconnected)
                      | Some target \<Rightarrow>
                          map_option (\<lambda>(j, settled).
                            (case settled of
                               None \<Rightarrow> Inl (barrier_timeout StageQueue)
                             | Some False \<Rightarrow> Inl barrier_disconnected
                             | Some True \<Rightarrow> studio_stage w deadline queue_id j target n))
                            (poll (queue_look w target) (bw_now w) deadline (Suc (Suc k)))))))"

definition WAIT_SYNCED_DEFAULT_TIMEOUT_MS :: u64 where "WAIT_SYNCED_DEFAULT_TIMEOUT_MS = 30000"
definition WAIT_SYNCED_MAX_TIMEOUT_MS :: u64 where "WAIT_SYNCED_MAX_TIMEOUT_MS = 600000"

definition wait_timeout_ms :: "u64 option \<Rightarrow> u64" where
  "wait_timeout_ms requested =
     (let t = (case requested of Some t \<Rightarrow> t | None \<Rightarrow> WAIT_SYNCED_DEFAULT_TIMEOUT_MS)
      in max 1 (min t WAIT_SYNCED_MAX_TIMEOUT_MS))"

record pending_counts =
  pc_tracked :: bool
  pc_total :: u64
  pc_queued_changes :: u64
  pc_queued_messages :: u64
  pc_unconfirmed_changes :: u64

definition pending_of :: "flow_mark option \<Rightarrow> pending_counts" where
  "pending_of m =
     (case m of
        Some m \<Rightarrow> \<lparr>pc_tracked = True, pc_total = queued_changes m + unconfirmed_changes m,
          pc_queued_changes = queued_changes m, pc_queued_messages = saturating_sub (fm_pushed m) (fm_settled m),
          pc_unconfirmed_changes = unconfirmed_changes m\<rparr>
      | None \<Rightarrow> \<lparr>pc_tracked = False, pc_total = 0, pc_queued_changes = 0, pc_queued_messages = 0,
          pc_unconfirmed_changes = 0\<rparr>)"

text \<open>The entries captured while the barrier ran, of the entries the backlog lists.\<close>

definition backlog_since :: "u64 \<Rightarrow> entry list \<Rightarrow> nat \<times> entry list" where
  "backlog_since since entries = (length entries, filter (\<lambda>e. since \<le> en_captured_at e) entries)"

section \<open>Properties\<close>

lemma poll_result:
  assumes "poll look now deadline k = Some (j, r)"
  shows "k \<le> j \<and> r = look j \<and> (r = None \<longrightarrow> deadline \<le> now j)"
proof -
  have "poll look now deadline k = Some y \<Longrightarrow>
      k \<le> fst y \<and> snd y = look (fst y) \<and> (snd y = None \<longrightarrow> deadline \<le> now (fst y))" for y
    by (erule poll.raw_induct [rotated]) (fastforce split: option.splits if_splits)
  then show ?thesis using assms by fastforce
qed

lemma poll_ends:
  assumes "deadline \<le> now (k + n)"
  shows "poll look now deadline k \<noteq> None"
  using assms
proof (induction n arbitrary: k)
  case 0
  then show ?case by (subst poll.simps) (simp split: option.splits)
next
  case (Suc n)
  then have "poll look now deadline (Suc k) \<noteq> None" by simp
  then show ?case by (subst poll.simps) (simp split: option.splits)
qed

text \<open>
  The barrier always answers once the clock passes its deadline, whatever the watcher, the
  queue and the plugin do.
\<close>

theorem barrier_ends:
  assumes "\<forall>k. \<exists>j\<ge>k. deadline \<le> bw_now w j"
  shows "\<exists>r. run_barrier w deadline = Some r"
proof -
  have reach: "\<exists>n. deadline \<le> bw_now w (i + n)" for i using assms le_iff_add by metis
  obtain k flushed where "poll (watcher_look w) (bw_now w) deadline 0 = Some (k, flushed)"
    using reach [of 0] poll_ends [of deadline "bw_now w" 0 _ "watcher_look w"] by fastforce
  moreover have "\<exists>j r. poll (queue_look w target) (bw_now w) deadline i = Some (j, r)" for target i
    using reach [of i] poll_ends [of deadline "bw_now w" i _ "queue_look w target"] by fastforce
  ultimately show ?thesis
    by (auto simp: run_barrier_def split: sum.splits option.splits fence_result.splits)
qed


text \<open>A world whose clock is the look number: the plugin answers at once and nothing is queued.\<close>

definition still_world :: barrier_world where
  "still_world = \<lparr>bw_frames = Inr (), bw_queue_id = Some 7, bw_started = 0, bw_now = (\<lambda>k. k),
     bw_last_flush = (\<lambda>k. Some 250), bw_held = (\<lambda>k. 0), bw_fence = Drained 3,
     bw_flow = (\<lambda>k. Some (mark (ch_flow (fold (chan_exec (list_channel :: (_, (unit, unit) message) channel_ops))
       [CPush (SyncChanges \<lparr>additions = [], updates = [], removals = [1, 2]\<rparr>), CWait, CTake, CWait]
       (channel_new list_channel))))),
     bw_answer = (\<lambda>_. Inr JNull), bw_queue_id_after = Some 7,
     bw_suppressed_before = 0, bw_suppressed_after = 0\<rparr>"

theorem barrier_ends_witness: "\<exists>r. run_barrier still_world 30000 = Some r"
proof (rule barrier_ends, rule allI)
  fix k :: nat
  show "\<exists>j\<ge>k. 30000 \<le> bw_now still_world j"
    by (rule exI [of _ "k + 30000"]) (simp add: still_world_def)
qed

lemma run_barrier_ok:
  assumes "run_barrier w deadline = Some (Inr (outcome, confirmed))"
  obtains queue_id k n target j where "bw_queue_id w = Some queue_id"
    "poll (watcher_look w) (bw_now w) deadline 0 = Some (k, Some ())" "bw_fence w = Drained n"
    "bw_flow w (Suc k) = Some target"
    "poll (queue_look w target) (bw_now w) deadline (Suc (Suc k)) = Some (j, Some True)"
    "studio_stage w deadline queue_id j target n = Inr (outcome, confirmed)"
proof -
  obtain queue_id where id: "bw_queue_id w = Some queue_id" "bw_frames w = Inr ()"
    using assms by (auto simp: run_barrier_def split: sum.splits option.splits)
  obtain k f where k: "poll (watcher_look w) (bw_now w) deadline 0 = Some (k, f)"
    using assms id by (auto simp: run_barrier_def bind_eq_Some_conv)
  have f: "f = Some ()" using assms id k by (cases f) (simp_all add: run_barrier_def)
  obtain n where n: "bw_fence w = Drained n"
    using assms id k f by (cases "bw_fence w") (simp_all add: run_barrier_def)
  obtain target where target: "bw_flow w (Suc k) = Some target"
    using assms id k f n by (cases "bw_flow w (Suc k)") (simp_all add: run_barrier_def)
  obtain j b where j: "poll (queue_look w target) (bw_now w) deadline (Suc (Suc k)) = Some (j, b)"
    using assms id k f n target by (auto simp: run_barrier_def)
  have "b = Some True \<and> studio_stage w deadline queue_id j target n = Inr (outcome, confirmed)"
    using assms id k f n target j by (auto simp: run_barrier_def split: option.splits bool.splits)
  with that id k f n target j show thesis by simp
qed

lemma settled_prefix:
  assumes laws: "channel_laws cb contents"
    and h: "h = fold hist_exec es history_new" and h': "h' = fold hist_exec (es @ es') history_new"
    and rng: "in_range (hs_log h')"
    and le: "fm_pushed (mark (ch_flow (fold (chan_exec cb) es (channel_new cb))))
      \<le> fm_settled (mark (ch_flow (fold (chan_exec cb) (es @ es') (channel_new cb))))"
  shows "prefix (hs_log h) (take (hs_settled h') (hs_log h'))"
proof -
  obtain ms where ms: "hs_log h' = hs_log h @ ms"
    using fold_hist_log [of es' h] unfolding h h' by auto
  have rng0: "in_range (hs_log h)" using rng ms in_range_prefix by simp
  have ok: "history_ok h'" unfolding h' by (rule fold_hist_ok) (simp add: history_ok_def history_new_def)
  have "unat (of_nat (length (hs_log h)) :: u64) \<le> unat (of_nat (hs_settled h') :: u64)"
    using le chan_new_refines [OF laws, of es] chan_new_refines [OF laws, of "es @ es'"] rng rng0
    unfolding h h' by (simp add: mark_def flow_for_def word_le_nat_alt)
  then have "length (hs_log h) \<le> hs_settled h'"
    using rng rng0 ok by (simp add: in_range_def history_ok_def unat_of_nat_u64)
  then show ?thesis using ms by (simp add: prefix_def)
qed



definition still_events :: "(unit, unit) chan_event list" where
  "still_events = [CPush (SyncChanges \<lparr>additions = [], updates = [], removals = [1, 2]\<rparr>), CWait, CTake, CWait]"

lemma still_mark: "mark (ch_flow (fold (chan_exec (list_channel :: (_, (unit, unit) message) channel_ops)) still_events (channel_new list_channel)))
    = \<lparr>fm_pushed = 1, fm_pushed_changes = 2, fm_settled = 1, fm_settled_changes = 2, fm_confirmed_changes = 0\<rparr>"
  by (simp add: still_events_def mark_def channel_new_def list_channel_def flow_default_def ch_push_def on_push_def
      change_count_def changes_total_def ch_wait_def on_wait_def ch_take_def on_take_def)

lemma still_fields:
  "bw_frames still_world = Inr ()" "bw_queue_id still_world = Some 7" "bw_fence still_world = Drained 3"
  "bw_answer still_world = (\<lambda>_. Inr JNull)" "bw_queue_id_after still_world = Some 7" "bw_now still_world = (\<lambda>k. k)"
  "bw_suppressed_before still_world = 0" "bw_suppressed_after still_world = 0"
  by (simp_all add: still_world_def)

lemma still_runs: "run_barrier still_world 30000 = Some (Inr (\<lparr>bo_flushed_changes = 2, bo_drained_events = 3, bo_source_writes_awaited = 0,
    bo_suppressed_events = 0\<rparr>, \<lparr>fm_pushed = 1, fm_pushed_changes = 2, fm_settled = 1, fm_settled_changes = 2, fm_confirmed_changes = 0\<rparr>))"
proof -
  have flow: "bw_flow still_world = (\<lambda>k. Some \<lparr>fm_pushed = 1, fm_pushed_changes = 2, fm_settled = 1, fm_settled_changes = 2, fm_confirmed_changes = 0\<rparr>)"
    using still_mark by (simp add: still_world_def still_events_def)
  have "poll (watcher_look still_world) (bw_now still_world) 30000 0 = Some (0, Some ())"
    by (subst poll.simps) (simp add: watcher_look_def still_world_def WATCHER_DELIVERY_SLACK_def DEBOUNCE_TIMEOUT_def)
  moreover have "poll (queue_look still_world \<lparr>fm_pushed = 1, fm_pushed_changes = 2, fm_settled = 1, fm_settled_changes = 2, fm_confirmed_changes = 0\<rparr>)
      (bw_now still_world) 30000 (Suc (Suc 0)) = Some (2, Some True)"
    by (subst poll.simps) (simp add: queue_look_def flow numeral_2_eq_2)
  ultimately show ?thesis
    using still_fields by (simp add: run_barrier_def flow studio_stage_def jget_def saturating_sub_def)
qed


text \<open>
  The wait a request asks for is clamped: whatever it asks, the barrier waits at least one
  millisecond and at most ten minutes, and a request within those bounds gets what it asked for.
\<close>

theorem wait_timeout_bounds:
  "unat (wait_timeout_ms r) \<ge> 1 \<and> unat (wait_timeout_ms r) \<le> 600000 \<and>
   wait_timeout_ms None = 30000 \<and>
   (wait_timeout_ms (Some t) = t \<longleftrightarrow> 1 \<le> unat t \<and> unat t \<le> 600000)"
proof -
  have b: "unat (max 1 (min x 600000 :: u64)) \<ge> 1 \<and> unat (max 1 (min x 600000 :: u64)) \<le> 600000" for x
    by (auto simp: max_def min_def word_le_nat_alt)
  then show ?thesis
    using b [of t]
    by (auto simp: wait_timeout_ms_def WAIT_SYNCED_DEFAULT_TIMEOUT_MS_def WAIT_SYNCED_MAX_TIMEOUT_MS_def Let_def max_def min_def
        word_le_nat_alt split: option.splits if_splits)
qed

end
