(* ===== verification/CrashGuard.thy ===== *)
theory CrashGuard
  imports WPrelude
begin

text \<open>
  Crash-loop protection (\<^verbatim>\<open>src/server/crash_guard.rs\<close>): the marker file a connect leaves while
  it applies, the safe mode a daemon boots into when it finds one, and the ways out.

  The guard is the daemon's memory, the disk what survives it. The text of a marker comes
  from \<open>serde_json\<close> and is read back by it: both directions are parameters, and \<open>codec_ok\<close>
  states that they agree. Whether a write or a removal succeeds is an argument.
\<close>

section \<open>Definitions\<close>

record marker =
  mk_boot_id :: string
  mk_pid :: u32
  mk_started_at :: u64

record safe_mode =
  sm_started_at :: u64
  sm_previous_pid :: u32
  sm_previous_boot_id :: string
  sm_report :: "string option"

record guard =
  g_backups_dir :: string
  g_boot_id :: string
  g_safe_mode :: "safe_mode option"
  g_generation :: u64

record 't guard_disk =
  gd_marker :: "'t option"
  gd_report :: "string option"

record 't marker_codec =
  mc_write :: "marker \<Rightarrow> 't"
  mc_read :: "'t \<Rightarrow> marker option"

definition codec_ok :: "'t marker_codec \<Rightarrow> bool" where
  "codec_ok mc \<longleftrightarrow> (\<forall>m. mc_read mc (mc_write mc m) = Some m)"

definition guard_load :: "'t marker_codec \<Rightarrow> string \<Rightarrow> string \<Rightarrow> 't guard_disk \<Rightarrow> guard" where
  "guard_load mc workspace_dir boot_id d =
     \<lparr>g_backups_dir = workspace_dir @ ''/.wsync-backups'', g_boot_id = boot_id,
      g_safe_mode = map_option (\<lambda>m. \<lparr>sm_started_at = mk_started_at m, sm_previous_pid = mk_pid m,
          sm_previous_boot_id = mk_boot_id m, sm_report = None\<rparr>) (Option.bind (gd_marker d) (mc_read mc)),
      g_generation = 0\<rparr>"

definition guard_resume :: "bool \<Rightarrow> guard \<Rightarrow> 't guard_disk \<Rightarrow> guard \<times> 't guard_disk \<times> bool" where
  "guard_resume removed g d =
     (g\<lparr>g_safe_mode := None\<rparr>, if removed then d\<lparr>gd_marker := None\<rparr> else d, g_safe_mode g \<noteq> None)"

definition guard_begin :: "'t marker_codec \<Rightarrow> bool \<Rightarrow> u32 \<Rightarrow> u64 \<Rightarrow> guard \<Rightarrow> 't guard_disk \<Rightarrow> guard \<times> 't guard_disk \<times> u64" where
  "guard_begin mc written pid now g d =
     (let generation = g_generation g + 1;
          m = \<lparr>mk_boot_id = g_boot_id g, mk_pid = pid, mk_started_at = now\<rparr>
      in (g\<lparr>g_generation := generation\<rparr>, if written then d\<lparr>gd_marker := Some (mc_write mc m)\<rparr> else d, generation))"

text \<open>The two steps of \<open>clear_if_current\<close>: the lock on the generation is released before the file goes.\<close>

definition is_current :: "u64 \<Rightarrow> guard \<Rightarrow> bool" where
  "is_current generation g \<longleftrightarrow> g_generation g = generation"

definition remove_marker :: "bool \<Rightarrow> 't guard_disk \<Rightarrow> 't guard_disk" where
  "remove_marker removed d = (if removed then d\<lparr>gd_marker := None\<rparr> else d)"

definition clear_if_current :: "bool \<Rightarrow> u64 \<Rightarrow> guard \<Rightarrow> 't guard_disk \<Rightarrow> 't guard_disk" where
  "clear_if_current removed generation g d = (if is_current generation g then remove_marker removed d else d)"

definition guard_on_shutdown :: "bool \<Rightarrow> 't guard_disk \<Rightarrow> 't guard_disk" where
  "guard_on_shutdown removed d = remove_marker removed d"

definition write_report :: "bool \<Rightarrow> string \<Rightarrow> guard \<Rightarrow> 't guard_disk \<Rightarrow> guard \<times> 't guard_disk \<times> string option" where
  "write_report written report g d =
     (let path = g_backups_dir g @ ''/safe-mode-report.json'' in
      if written
      then (g\<lparr>g_safe_mode := map_option (\<lambda>s. s\<lparr>sm_report := Some path\<rparr>) (g_safe_mode g)\<rparr>,
            d\<lparr>gd_report := Some report\<rparr>, Some path)
      else (g, d, None))"

section \<open>When a boot is in safe mode\<close>

datatype guard_event = GBegin u32 u64 | GSettle u64 | GResume | GReport string

text \<open>One event of a running daemon whose file operations succeed.\<close>

fun guard_exec :: "'t marker_codec \<Rightarrow> guard_event \<Rightarrow> guard \<times> 't guard_disk \<Rightarrow> guard \<times> 't guard_disk" where
  "guard_exec mc (GBegin pid now) (g, d) = (case guard_begin mc True pid now g d of (g, d, _) \<Rightarrow> (g, d))"
| "guard_exec mc (GSettle k) (g, d) = (g, clear_if_current True k g d)"
| "guard_exec mc GResume (g, d) = (case guard_resume True g d of (g, d, _) \<Rightarrow> (g, d))"
| "guard_exec mc (GReport v) (g, d) = (case write_report True v g d of (g, d, _) \<Rightarrow> (g, d))"

text \<open>
  What the marker stands for: the number of connects begun in this boot, and the latest
  connect of this or an earlier boot that may still be applying.
\<close>

fun risk :: "string \<Rightarrow> guard_event \<Rightarrow> u64 \<times> marker option \<Rightarrow> u64 \<times> marker option" where
  "risk boot (GBegin pid now) (n, _) = (n + 1, Some \<lparr>mk_boot_id = boot, mk_pid = pid, mk_started_at = now\<rparr>)"
| "risk boot (GSettle k) (n, m) = (n, if k = n then None else m)"
| "risk boot GResume (n, _) = (n, None)"
| "risk boot (GReport _) (n, m) = (n, m)"

lemma guard_exec_risk:
  assumes "codec_ok mc" "Option.bind (gd_marker d) (mc_read mc) = m" "guard_exec mc ev (g, d) = (g', d')"
  shows "g_boot_id g' = g_boot_id g \<and>
    (g_generation g', Option.bind (gd_marker d') (mc_read mc)) = risk (g_boot_id g) ev (g_generation g, m)"
  using assms
  by (cases ev) (auto simp: guard_begin_def clear_if_current_def is_current_def remove_marker_def
      guard_resume_def write_report_def codec_ok_def Let_def split: if_splits)

lemma guard_run_risk:
  assumes "codec_ok mc"
  shows "fold (guard_exec mc) evs (g, d) = (g', d') \<Longrightarrow>
    g_boot_id g' = g_boot_id g \<and>
    (g_generation g', Option.bind (gd_marker d') (mc_read mc)) =
      fold (risk (g_boot_id g)) evs (g_generation g, Option.bind (gd_marker d) (mc_read mc))"
proof (induction evs arbitrary: g d)
  case (Cons ev evs)
  obtain g1 d1 where s: "guard_exec mc ev (g, d) = (g1, d1)" by fastforce
  note one = guard_exec_risk [OF assms refl s]
  show ?case using Cons.IH [of g1 d1] Cons.prems s one by auto
qed simp


definition example_marker_codec :: "marker marker_codec" where
  "example_marker_codec = \<lparr>mc_write = (\<lambda>m. m), mc_read = Some\<rparr>"

lemma example_marker_codec_ok: "codec_ok example_marker_codec"
  by (simp add: codec_ok_def example_marker_codec_def)


text \<open>
  Ways out of safe mode other than \<open>resume\<close>: a daemon in safe mode that is stopped gracefully
  removes the marker, so the next boot applies connects again although nobody resumed; and a
  settle timer that has found its generation current, when a new connect begins before it
  removes the file, removes the new connect's marker, so a crash in that connect goes
  unnoticed.
\<close>

theorem safe_mode_escapes:
  "g_safe_mode (guard_load mc dir boot (guard_on_shutdown True d)) = None \<and>
   (is_current k g \<longrightarrow>
      (let (g', d', k') = guard_begin mc True pid now g d in
       k' \<noteq> k \<and> gd_marker d' = Some (mc_write mc \<lparr>mk_boot_id = g_boot_id g, mk_pid = pid, mk_started_at = now\<rparr>) \<and>
       g_safe_mode (guard_load mc dir boot (remove_marker True d')) = None))"
  by (simp add: guard_load_def guard_on_shutdown_def remove_marker_def guard_begin_def is_current_def Let_def)

theorem safe_mode_escapes_witness:
  "let d = \<lparr>gd_marker = Some \<lparr>mk_boot_id = ''boot-1'', mk_pid = 41, mk_started_at = 100\<rparr>, gd_report = None\<rparr>
   in g_safe_mode (guard_load example_marker_codec ''w'' ''boot-2'' d) \<noteq> None \<and>
      g_safe_mode (guard_load example_marker_codec ''w'' ''boot-3'' (guard_on_shutdown True d)) = None"
  using safe_mode_escapes [of example_marker_codec "''w''" "''boot-3''"
      "\<lparr>gd_marker = Some \<lparr>mk_boot_id = ''boot-1'', mk_pid = 41, mk_started_at = 100\<rparr>, gd_report = None\<rparr>"]
  by (simp add: Let_def guard_load_def example_marker_codec_def)

end
