(* ===== verification/Lifecycle.thy ===== *)
theory Lifecycle
  imports WPrelude
begin

text \<open>
  Daemon lifecycle (\<^verbatim>\<open>src/server/lifecycle.rs\<close> and the timer functions of
  \<^verbatim>\<open>src/daemon.rs\<close>): the shutdown trigger, the manager heartbeat, the watchdog loop and the
  owner-token check of the control routes. Instants are milliseconds; the watchdog's loop body
  is one function of the tick's clock reading, the heartbeat it reads and the suspicion it
  carries. The JSON body reader is the parameter \<open>read_token\<close>.
\<close>

section \<open>Definitions\<close>

definition MANAGER_HEARTBEAT_TIMEOUT :: duration where
  "MANAGER_HEARTBEAT_TIMEOUT = 5 * 60 * 1000"

definition HEARTBEAT_SUSPECT_GRACE :: duration where
  "HEARTBEAT_SUSPECT_GRACE = 30 * 1000"

definition WATCHDOG_INTERVAL :: duration where
  "WATCHDOG_INTERVAL = 2 * 1000"

record lifecycle =
  lc_shutdown :: "string option"
  lc_manager_last_seen :: instant
  lc_managed :: bool

definition lifecycle_new :: "instant \<Rightarrow> bool \<Rightarrow> lifecycle" where
  "lifecycle_new now managed = \<lparr>lc_shutdown = None, lc_manager_last_seen = now, lc_managed = managed\<rparr>"

definition trigger_shutdown :: "string \<Rightarrow> lifecycle \<Rightarrow> lifecycle" where
  "trigger_shutdown reason l =
     (case lc_shutdown l of None \<Rightarrow> l\<lparr>lc_shutdown := Some reason\<rparr> | Some _ \<Rightarrow> l)"

definition lc_heartbeat :: "instant \<Rightarrow> lifecycle \<Rightarrow> lifecycle" where
  "lc_heartbeat now l = l\<lparr>lc_manager_last_seen := now\<rparr>"

definition heartbeat_expired :: "duration \<Rightarrow> duration \<Rightarrow> bool" where
  "heartbeat_expired elapsed timeout \<longleftrightarrow> timeout < elapsed"

definition watchdog_should_terminate :: "duration \<Rightarrow> duration option \<Rightarrow> duration \<Rightarrow> duration \<Rightarrow> bool" where
  "watchdog_should_terminate elapsed suspect timeout grace \<longleftrightarrow>
     heartbeat_expired elapsed timeout \<and> (case suspect of Some s \<Rightarrow> grace < s | None \<Rightarrow> False)"

text \<open>One turn of the watchdog loop: the suspicion it carries on, or the decision to stop.\<close>

definition watchdog_tick :: "instant \<Rightarrow> instant \<Rightarrow> instant option \<Rightarrow> instant option + unit" where
  "watchdog_tick now last_seen suspect =
     (let elapsed = now - last_seen in
      if \<not> heartbeat_expired elapsed MANAGER_HEARTBEAT_TIMEOUT then Inl None
      else let first = (case suspect of None \<Rightarrow> now | Some t \<Rightarrow> t) in
        if watchdog_should_terminate elapsed (Some (now - first)) MANAGER_HEARTBEAT_TIMEOUT HEARTBEAT_SUSPECT_GRACE
        then Inr () else Inl (Some first))"

text \<open>
  The loop over the ticks' clock readings and the heartbeats they read: the time of the tick
  that stops the daemon, if one does.
\<close>

fun watchdog_run :: "instant option \<Rightarrow> (instant \<times> instant) list \<Rightarrow> instant option" where
  "watchdog_run suspect [] = None"
| "watchdog_run suspect ((now, seen) # ticks) =
     (case watchdog_tick now seen suspect of Inr _ \<Rightarrow> Some now | Inl s \<Rightarrow> watchdog_run s ticks)"

datatype refusal = NotManaged | BadBody | MissingToken | InvalidToken

definition refusal_status :: "refusal \<Rightarrow> nat" where
  "refusal_status r = (case r of NotManaged \<Rightarrow> 403 | BadBody \<Rightarrow> 400 | MissingToken \<Rightarrow> 401 | InvalidToken \<Rightarrow> 403)"

definition control_refusal :: "(string \<Rightarrow> string option option) \<Rightarrow> string option \<Rightarrow> string \<Rightarrow> refusal option" where
  "control_refusal read_token expected body =
     (case expected of
        None \<Rightarrow> Some NotManaged
      | Some token \<Rightarrow>
          (case (if body = [] then Some None else read_token body) of
             None \<Rightarrow> Some BadBody
           | Some None \<Rightarrow> Some MissingToken
           | Some (Some t) \<Rightarrow> if t = token then None else Some InvalidToken))"

text \<open>\<open>POST /manager-heartbeat\<close> and \<open>POST /manager-close\<close>\<close>

definition post_heartbeat :: "(string \<Rightarrow> string option option) \<Rightarrow> string option \<Rightarrow> instant \<Rightarrow> string \<Rightarrow> lifecycle \<Rightarrow> lifecycle \<times> nat" where
  "post_heartbeat read_token expected now body l =
     (case control_refusal read_token expected body of
        Some r \<Rightarrow> (l, refusal_status r) | None \<Rightarrow> (lc_heartbeat now l, 204))"

definition post_close :: "(string \<Rightarrow> string option option) \<Rightarrow> string option \<Rightarrow> string \<Rightarrow> lifecycle \<Rightarrow> lifecycle \<times> nat" where
  "post_close read_token expected body l =
     (case control_refusal read_token expected body of
        Some r \<Rightarrow> (l, refusal_status r) | None \<Rightarrow> (trigger_shutdown ''Manager requested close'' l, 204))"

section \<open>The watchdog\<close>

lemma watchdog_tick_cases:
  "watchdog_tick now seen s =
     (if now - seen \<le> MANAGER_HEARTBEAT_TIMEOUT then Inl None
      else case s of
        None \<Rightarrow> Inl (Some now)
      | Some t \<Rightarrow> if HEARTBEAT_SUSPECT_GRACE < now - t then Inr () else Inl (Some t))"
  by (auto simp: watchdog_tick_def heartbeat_expired_def watchdog_should_terminate_def Let_def
      HEARTBEAT_SUSPECT_GRACE_def split: option.splits)

text \<open>A stretch of ticks that all saw an expired heartbeat, ending at \<open>stop\<close>, more than the grace after \<open>t\<close>.\<close>

definition lost_since :: "instant \<Rightarrow> (instant \<times> instant) list \<Rightarrow> instant \<Rightarrow> bool" where
  "lost_since t ticks stop \<longleftrightarrow> ticks \<noteq> [] \<and> stop = fst (last ticks) \<and>
     (\<forall>(now, seen)\<in>set ticks. MANAGER_HEARTBEAT_TIMEOUT < now - seen) \<and> HEARTBEAT_SUSPECT_GRACE < stop - t"

lemma lost_since_Cons:
  "lost_since t ticks stop \<Longrightarrow> MANAGER_HEARTBEAT_TIMEOUT < now - seen \<Longrightarrow> lost_since t ((now, seen) # ticks) stop"
  by (auto simp: lost_since_def)

lemma watchdog_run_lost:
  "watchdog_run s ticks = Some stop \<Longrightarrow>
     (\<exists>before w rest. ticks = before @ w @ rest \<and> lost_since (fst (hd w)) w stop) \<or>
     (\<exists>t w rest. s = Some t \<and> ticks = w @ rest \<and> lost_since t w stop)"
proof (induction ticks arbitrary: s)
  case (Cons x ticks)
  obtain now seen where x: "x = (now, seen)" by (cases x)
  have shift: "\<exists>before w rest. x # ticks = before @ w @ rest \<and> lost_since (fst (hd w)) w stop"
    if "\<exists>before w rest. ticks = before @ w @ rest \<and> lost_since (fst (hd w)) w stop"
    using that by (metis append_Cons)
  show ?case
  proof (cases "now - seen \<le> MANAGER_HEARTBEAT_TIMEOUT")
    case True
    then have "watchdog_run None ticks = Some stop" using Cons.prems x by (simp add: watchdog_tick_cases)
    then show ?thesis using Cons.IH [of None] shift by blast
  next
    case old: False
    then have exp: "MANAGER_HEARTBEAT_TIMEOUT < now - seen" by simp
    show ?thesis
    proof (cases s)
      case None
      then have "watchdog_run (Some now) ticks = Some stop" using Cons.prems x old by (simp add: watchdog_tick_cases)
      from Cons.IH [OF this] show ?thesis
      proof
        assume "\<exists>t w rest. Some now = Some t \<and> ticks = w @ rest \<and> lost_since t w stop"
        then obtain w rest where w: "ticks = w @ rest" "lost_since now w stop" by auto
        have "x # ticks = [] @ ((now, seen) # w) @ rest" using w x by simp
        moreover have "lost_since (fst (hd ((now, seen) # w))) ((now, seen) # w) stop"
          using lost_since_Cons [OF w(2) exp] by simp
        ultimately show ?thesis by blast
      qed (use shift in blast)
    next
      case (Some t)
      show ?thesis
      proof (cases "HEARTBEAT_SUSPECT_GRACE < now - t")
        case True
        then have "stop = now" using Cons.prems x old Some by (simp add: watchdog_tick_cases)
        then have "lost_since t [x] stop" using x exp True by (simp add: lost_since_def)
        then show ?thesis using Some by (metis append_Cons append_Nil)
      next
        case False
        then have "watchdog_run (Some t) ticks = Some stop" using Cons.prems x old Some by (simp add: watchdog_tick_cases)
        from Cons.IH [OF this] show ?thesis
        proof
          assume "\<exists>t' w rest. Some t = Some t' \<and> ticks = w @ rest \<and> lost_since t' w stop"
          then obtain w rest where w: "ticks = w @ rest" "lost_since t w stop" by auto
          then have "x # ticks = ((now, seen) # w) @ rest" "lost_since t ((now, seen) # w) stop"
            using x lost_since_Cons [OF w(2) exp] by simp_all
          then show ?thesis using Some by blast
        qed (use shift in blast)
      qed
    qed
  qed
qed simp

text \<open>
  The watchdog never stops a daemon early: when a tick stops it, the heartbeat was more than
  five minutes old at that tick and at every earlier tick back to one more than thirty
  seconds before, so a manager that is heard once in the grace window after a long sleep
  keeps its daemon.
\<close>

theorem watchdog_never_early:
  assumes "watchdog_run None ticks = Some stop"
  shows "\<exists>before w rest. ticks = before @ w @ rest \<and> w \<noteq> [] \<and> stop = fst (last w) \<and>
    (\<forall>(now, seen)\<in>set w. 5 * 60 * 1000 < now - seen) \<and> 30 * 1000 < stop - fst (hd w)"
  using watchdog_run_lost [OF assms]
  by (auto simp: lost_since_def MANAGER_HEARTBEAT_TIMEOUT_def HEARTBEAT_SUSPECT_GRACE_def)

theorem watchdog_never_early_witness:
  "\<exists>before w rest. [(302000, 0), (304000, 0), (332000, 0), (334000 :: nat, 0 :: nat)] = before @ w @ rest \<and>
     w \<noteq> [] \<and> 334000 = fst (last w) \<and> (\<forall>(now, seen)\<in>set w. 5 * 60 * 1000 < now - seen) \<and> 30 * 1000 < 334000 - fst (hd w)"
  by (rule watchdog_never_early)
    (simp add: watchdog_tick_cases MANAGER_HEARTBEAT_TIMEOUT_def HEARTBEAT_SUSPECT_GRACE_def)

lemma watchdog_run_silent:
  assumes "\<forall>k<n. snd (ticks ! k) = seen \<and> MANAGER_HEARTBEAT_TIMEOUT < fst (ticks ! k) - seen" "n < length ticks"
    "snd (ticks ! n) = seen" "MANAGER_HEARTBEAT_TIMEOUT < fst (ticks ! n) - seen"
    "HEARTBEAT_SUSPECT_GRACE < fst (ticks ! n) - t"
  shows "\<exists>stop. watchdog_run (Some t) ticks = Some stop \<and> stop \<in> fst ` set (take (Suc n) ticks)"
  using assms
proof (induction n arbitrary: ticks)
  case 0
  then show ?case by (cases ticks) (auto simp: watchdog_tick_cases)
next
  case (Suc n)
  then obtain now s ticks' where tk: "ticks = (now, s) # ticks'" by (cases ticks) auto
  have first: "s = seen" "MANAGER_HEARTBEAT_TIMEOUT < now - seen" using Suc.prems(1) [rule_format, of 0] tk by auto
  have rest: "\<forall>k<n. snd (ticks' ! k) = seen \<and> MANAGER_HEARTBEAT_TIMEOUT < fst (ticks' ! k) - seen"
    using Suc.prems(1) tk by (metis Suc_mono nth_Cons_Suc)
  have "\<exists>stop. watchdog_run (Some t) ticks' = Some stop \<and> stop \<in> fst ` set (take (Suc n) ticks')"
    using Suc.IH [OF rest] Suc.prems(2-5) tk by simp
  then show ?case using tk first by (auto simp: watchdog_tick_cases)
qed

text \<open>
  The watchdog does stop an abandoned daemon: if the manager is silent from \<open>seen\<close> on, one
  tick finds the heartbeat expired and a later one comes more than thirty seconds after it,
  the loop stops the daemon at one of the ticks up to that one.
\<close>

theorem watchdog_stops_abandoned:
  assumes "\<forall>k\<le>n. snd (ticks ! k) = seen \<and> 5 * 60 * 1000 < fst (ticks ! k) - seen" "n < length ticks"
    "30 * 1000 < fst (ticks ! n) - fst (ticks ! 0)" "0 < n"
  shows "\<exists>stop. watchdog_run None ticks = Some stop \<and> stop \<in> fst ` set (take (Suc n) ticks)"
proof -
  obtain now s ticks' m where tk: "ticks = (now, s) # ticks'" and n: "n = Suc m"
    using assms(2,4) by (cases ticks; cases n) auto
  have first: "s = seen" "MANAGER_HEARTBEAT_TIMEOUT < now - seen"
    using assms(1) [rule_format, of 0] tk by (auto simp: MANAGER_HEARTBEAT_TIMEOUT_def)
  have later: "snd (ticks' ! k) = seen \<and> MANAGER_HEARTBEAT_TIMEOUT < fst (ticks' ! k) - seen" if "k \<le> m" for k
    using assms(1) [rule_format, of "Suc k"] that tk n by (simp add: MANAGER_HEARTBEAT_TIMEOUT_def)
  have "\<exists>stop. watchdog_run (Some now) ticks' = Some stop \<and> stop \<in> fst ` set (take (Suc m) ticks')"
    by (rule watchdog_run_silent [of m ticks' seen])
      (use later assms(2,3) tk n in \<open>simp_all add: HEARTBEAT_SUSPECT_GRACE_def\<close>)
  then show ?thesis using tk first n by (auto simp: watchdog_tick_cases)
qed

theorem watchdog_stops_abandoned_witness:
  "\<exists>stop. watchdog_run None [(302000, 0), (304000, 0), (334000, 0)] = Some stop"
proof -
  have "\<forall>k\<le>2. snd ([(302000, 0), (304000, 0), (334000, 0 :: nat)] ! k) = 0 \<and>
      5 * 60 * 1000 < fst ([(302000, 0), (304000, 0), (334000 :: nat, 0 :: nat)] ! k) - 0"
    by (auto simp: numeral_2_eq_2 le_Suc_eq)
  from watchdog_stops_abandoned [OF this] show ?thesis by auto
qed

section \<open>Control routes\<close>

text \<open>
  Only the owner's token controls a daemon: a heartbeat or close request changes the
  lifecycle exactly when the daemon is managed and the body carries its token, and then
  answers 204; and the first shutdown reason is the one that stays.
\<close>

theorem control_needs_token:
  "(snd (post_close read_token expected body l) = 204 \<longleftrightarrow>
      (\<exists>token. expected = Some token \<and> body \<noteq> [] \<and> read_token body = Some (Some token))) \<and>
   (snd (post_close read_token expected body l) \<noteq> 204 \<longrightarrow> fst (post_close read_token expected body l) = l \<and>
      fst (post_heartbeat read_token expected now body l) = l) \<and>
   lc_shutdown (trigger_shutdown r2 (trigger_shutdown r1 l)) =
     Some (case lc_shutdown l of Some r0 \<Rightarrow> r0 | None \<Rightarrow> r1)"
  by (auto simp: post_close_def post_heartbeat_def control_refusal_def refusal_status_def trigger_shutdown_def
      split: option.splits refusal.splits if_splits)

theorem control_needs_token_witness:
  "fst (post_close (\<lambda>_. Some (Some ''bad'')) (Some ''secret'') ''x'' (lifecycle_new 0 True)) = lifecycle_new 0 True"
  using control_needs_token [of "\<lambda>_. Some (Some ''bad'')" "Some ''secret''" "''x''" "lifecycle_new 0 True"]
  by auto

end
