(* ===== verification/Pull.thy ===== *)
theory Pull
  imports Request
begin

text \<open>
  Pulling a subtree from Studio (\<^verbatim>\<open>src/server/bulk.rs\<close>): the decoding of a \<open>read_subtree\<close>
  answer, the chunked and verified read of a script source, and the snapshot built from both.

  The plugin's answer to the \<open>k\<close>-th read of a source is an argument. Base64 (\<open>base64\<close>),
  the digest (\<open>sha2\<close>), the decoding of properties (\<open>serde_json\<close>, \<open>rbx_dom_weak\<close>) and the
  standard library's Unicode conversions are the fields of a \<open>pull_codec\<close>. Messages are
  constructors. The read loop is a \<open>partial_function\<close>, and it is shown to end whatever the
  plugin answers.
\<close>

section \<open>Definitions\<close>

record source_claim =
  sc_bytes :: u64
  sc_sha256 :: string

datatype pulled_node = PulledNode
  (pn_id: string)
  (pn_name: string)
  (pn_class: string)
  (pn_properties: "(string \<times> json) list")
  (pn_children: "pulled_node list")

datatype pull_error =
    MissingAt string string
  | BadRef string
  | NotObject string
  | NotArray string
  | ReadFailed call_error
  | TotalContradicts u64
  | BadBase64
  | PartTooLarge nat
  | NoProgress
  | TooManyBytes
  | EndedEarly nat
  | DigestMismatch string
  | BadProperties string
  | NoSource string

record 'v pull_codec =
  pc_ref :: "string \<Rightarrow> dref option"
  pc_lower :: "string \<Rightarrow> string"
  pc_base64 :: "string \<Rightarrow> string option"
  pc_digest :: "string \<Rightarrow> string"
  pc_properties :: "(string \<times> json) list \<Rightarrow> 'v properties option"
  pc_utf8_lossy :: "string \<Rightarrow> string"
  pc_content_of :: "string \<Rightarrow> 'v variant"

definition SOURCE_READ_CHUNK_BYTES :: nat where "SOURCE_READ_CHUNK_BYTES = 64 * 1024"

text \<open>The field of a node that must be a string.\<close>

definition str_field :: "string \<Rightarrow> string \<Rightarrow> json \<Rightarrow> pull_error + string" where
  "str_field at k v = (case field k as_str v of None \<Rightarrow> Inl (MissingAt at k) | Some s \<Rightarrow> Inr s)"

definition pulled_properties :: "string \<Rightarrow> json \<Rightarrow> pull_error + (string \<times> json) list" where
  "pulled_properties at v = (case jget ''properties'' v of
     None \<Rightarrow> Inr [] | Some JNull \<Rightarrow> Inr [] | Some (JObject kvs) \<Rightarrow> Inr kvs | Some _ \<Rightarrow> Inl (NotObject at))"

definition pulled_children :: "string \<Rightarrow> json \<Rightarrow> pull_error + json list" where
  "pulled_children at v = (case jget ''children'' v of
     None \<Rightarrow> Inr []
   | Some l \<Rightarrow> (case as_array l of None \<Rightarrow> Inl (NotArray at) | Some cs \<Rightarrow> Inr cs))"

lemma pulled_children_size: "pulled_children at v = Inr cs \<Longrightarrow> size_list size cs \<le> size v"
proof (cases "jget ''children'' v")
  case (Some l)
  assume "pulled_children at v = Inr cs"
  with Some jget_size [OF Some] show ?thesis
    by (cases l) (auto simp: pulled_children_def as_array_def)
qed (simp add: pulled_children_def)

function (sequential) parse_pulled_node :: "'v pull_codec \<Rightarrow> string \<Rightarrow> json \<Rightarrow> pull_error + pulled_node"
  and parse_pulled_list :: "'v pull_codec \<Rightarrow> string \<Rightarrow> nat \<Rightarrow> json list \<Rightarrow> pull_error + pulled_node list" where
  "parse_pulled_node c at v =
     (case str_field at ''id'' v of
        Inl e \<Rightarrow> Inl e
      | Inr i \<Rightarrow>
          if parse_ref (pc_ref c) i = None then Inl (BadRef at)
          else case str_field at ''name'' v of
            Inl e \<Rightarrow> Inl e
          | Inr name \<Rightarrow>
              (case str_field at ''class'' v of
                 Inl e \<Rightarrow> Inl e
               | Inr cls \<Rightarrow>
                   (case pulled_properties at v of
                      Inl e \<Rightarrow> Inl e
                    | Inr ps \<Rightarrow>
                        (case pulled_children at v of
                           Inl e \<Rightarrow> Inl e
                         | Inr cs \<Rightarrow>
                             (case parse_pulled_list c at 0 cs of
                                Inl e \<Rightarrow> Inl e
                              | Inr ns \<Rightarrow> Inr (PulledNode i name cls ps ns))))))"
| "parse_pulled_list c at i [] = Inr []"
| "parse_pulled_list c at i (v # vs) =
     (case parse_pulled_node c (child_at at i) v of
        Inl e \<Rightarrow> Inl e
      | Inr n \<Rightarrow> (case parse_pulled_list c at (Suc i) vs of Inl e \<Rightarrow> Inl e | Inr ns \<Rightarrow> Inr (n # ns)))"
  by pat_completeness auto
termination
  by (relation "measure (case_sum (\<lambda>(_, _, v). 2 * size v + 1) (\<lambda>(_, _, _, vs). 2 * size_list size vs))")
    (auto dest!: pulled_children_size)

text \<open>One claim of the \<open>sources\<close> map, and the map itself in the order of the object.\<close>

definition parse_claim :: "'v pull_codec \<Rightarrow> string \<times> json \<Rightarrow> pull_error + string \<times> source_claim" where
  "parse_claim c = (\<lambda>(reference, claim).
     if parse_ref (pc_ref c) reference = None then Inl (BadRef ''snapshot.sources key'')
     else case field ''bytes'' as_u64 claim of
       None \<Rightarrow> Inl (MissingAt reference ''bytes'')
     | Some bytes \<Rightarrow>
         (case field ''sha256'' as_str claim of
            None \<Rightarrow> Inl (MissingAt reference ''sha256'')
          | Some sha \<Rightarrow> Inr (reference, \<lparr>sc_bytes = bytes, sc_sha256 = pc_lower c sha\<rparr>)))"

fun all_ok :: "('e + 'a) list \<Rightarrow> 'e + 'a list" where
  "all_ok [] = Inr []"
| "all_ok (Inl e # _) = Inl e"
| "all_ok (Inr x # xs) = (case all_ok xs of Inl e \<Rightarrow> Inl e | Inr ys \<Rightarrow> Inr (x # ys))"

definition parse_read_subtree ::
  "'v pull_codec \<Rightarrow> json \<Rightarrow> pull_error + pulled_node \<times> (string \<times> source_claim) list" where
  "parse_read_subtree c v =
     (case jget ''snapshot'' v of
        None \<Rightarrow> Inl (MissingAt ''read_subtree'' ''snapshot'')
      | Some snap \<Rightarrow>
          (case parse_pulled_node c ''snapshot'' snap of
             Inl e \<Rightarrow> Inl e
           | Inr node \<Rightarrow>
               (case jget ''sources'' snap of
                  None \<Rightarrow> Inr (node, [])
                | Some (JObject kvs) \<Rightarrow>
                    (case all_ok (map (parse_claim c) kvs) of Inl e \<Rightarrow> Inl e | Inr cs \<Rightarrow> Inr (node, cs))
                | Some _ \<Rightarrow> Inl (NotObject ''snapshot.sources''))))"

text \<open>
  What one \<open>source_read\<close> answer adds: an error, the bytes so far with more to come, or the bytes
  at the end of the file.
\<close>

datatype read_part = More string | Eof string

definition read_step :: "'v pull_codec \<Rightarrow> source_claim \<Rightarrow> string \<Rightarrow> call_error + json \<Rightarrow> pull_error + read_part" where
  "read_step c claim assembled answer =
     (case answer of
        Inl e \<Rightarrow> Inl (ReadFailed e)
      | Inr v \<Rightarrow>
          (case field ''data'' as_str v of
             None \<Rightarrow> Inl (MissingAt ''source_read'' ''data'')
           | Some data \<Rightarrow>
               let eof = (case field ''eof'' as_bool v of Some b \<Rightarrow> b | None \<Rightarrow> False) in
               (case field ''totalBytes'' as_u64 v of
                  None \<Rightarrow> Inl (MissingAt ''source_read'' ''totalBytes'')
                | Some tb \<Rightarrow>
                    if tb \<noteq> sc_bytes claim then Inl (TotalContradicts tb)
                    else case pc_base64 c data of
                      None \<Rightarrow> Inl BadBase64
                    | Some part \<Rightarrow>
                        if SOURCE_READ_CHUNK_BYTES < length part then Inl (PartTooLarge (length part))
                        else if part = [] \<and> \<not> eof then Inl NoProgress
                        else if unat (sc_bytes claim) < length (assembled @ part) then Inl TooManyBytes
                        else Inr (if eof then Eof (assembled @ part) else More (assembled @ part)))))"

partial_function (option) read_loop ::
  "'v pull_codec \<Rightarrow> source_claim \<Rightarrow> (nat \<Rightarrow> nat \<Rightarrow> call_error + json) \<Rightarrow> nat \<Rightarrow> string \<Rightarrow> (pull_error + string) option" where
  "read_loop c claim answer k assembled =
     (case read_step c claim assembled (answer k (length assembled)) of
        Inl e \<Rightarrow> Some (Inl e)
      | Inr (Eof bytes) \<Rightarrow> Some (Inr bytes)
      | Inr (More bytes) \<Rightarrow> read_loop c claim answer (Suc k) bytes)"

definition pull_source ::
  "'v pull_codec \<Rightarrow> source_claim \<Rightarrow> (nat \<Rightarrow> nat \<Rightarrow> call_error + json) \<Rightarrow> (pull_error + string) option" where
  "pull_source c claim answer =
     map_option (\<lambda>r. case r of
         Inl e \<Rightarrow> Inl e
       | Inr bytes \<Rightarrow>
           if length bytes \<noteq> unat (sc_bytes claim) then Inl (EndedEarly (length bytes))
           else if pc_digest c bytes \<noteq> sc_sha256 claim then Inl (DigestMismatch (pc_digest c bytes))
           else Inr bytes)
       (read_loop c claim answer 0 [])"

fun to_snapshot :: "'v pull_codec \<Rightarrow> (string \<times> string) list \<Rightarrow> pulled_node \<Rightarrow> pull_error + ('u, 'v) snapshot" where
  "to_snapshot c sources (PulledNode i name cls properties children) =
     (case parse_ref (pc_ref c) i of
        None \<Rightarrow> Inl (BadRef i)
      | Some r \<Rightarrow>
          (case pc_properties c (filter (\<lambda>(k, _). k \<noteq> ''ArgonEmpty'' \<and> k \<noteq> ''Source'') properties) of
             None \<Rightarrow> Inl (BadProperties name)
           | Some ps \<Rightarrow>
               if is_script cls \<and> map_of sources i = None then Inl (NoSource i)
               else
                 (let ps = (if is_script cls
                       then prop_insert ''Source'' (VString (pc_utf8_lossy c (the (map_of sources i)))) ps else ps)
                  in case all_ok (map (to_snapshot c sources) children) of
                       Inl e \<Rightarrow> Inl e
                     | Inr cs \<Rightarrow> Inr (Snapshot r meta_new name cls (apply_migrations (pc_content_of c) cls ps) cs))))"


section \<open>Reading a source\<close>

lemma read_step_More:
  assumes "read_step c claim assembled answer = Inr (More bytes)"
  shows "length assembled < length bytes \<and> length bytes \<le> unat (sc_bytes claim) \<and>
    length bytes \<le> length assembled + SOURCE_READ_CHUNK_BYTES"
  using assms by (auto simp: read_step_def Let_def split: sum.splits option.splits if_splits)

lemma read_step_Eof:
  "read_step c claim assembled answer = Inr (Eof bytes) \<Longrightarrow> length bytes \<le> unat (sc_bytes claim)"
  by (auto simp: read_step_def Let_def split: sum.splits option.splits if_splits)

lemma read_loop_ends: "\<exists>r. read_loop c claim answer k assembled = Some r"
proof (induction "unat (sc_bytes claim) - length assembled" arbitrary: k assembled rule: less_induct)
  case less
  show ?case
  proof (cases "read_step c claim assembled (answer k (length assembled))")
    case (Inr part)
    show ?thesis
    proof (cases part)
      case (More bytes)
      then have "unat (sc_bytes claim) - length bytes < unat (sc_bytes claim) - length assembled"
        using read_step_More [of c claim assembled] Inr by fastforce
      from less [OF this, of "Suc k"] show ?thesis using Inr More by (subst read_loop.simps) simp
    qed (use Inr in \<open>subst read_loop.simps, simp\<close>)
  qed (subst read_loop.simps, simp)
qed

text \<open>
  C34: Reading a script source ends and is verified, whatever the plugin answers: the loop always
  returns, and the bytes it returns have exactly the claimed length and the claimed digest.
\<close>

theorem pull_source_verified:
  "\<exists>r. pull_source c claim answer = Some r \<and>
     (\<forall>bytes. r = Inr bytes \<longrightarrow> length bytes = unat (sc_bytes claim) \<and> pc_digest c bytes = sc_sha256 claim)"
proof -
  obtain r where "read_loop c claim answer 0 [] = Some r" using read_loop_ends by blast
  then show ?thesis by (auto simp: pull_source_def split: sum.splits)
qed

text \<open>
  A plugin that serves a source honestly: every read answers with the bytes from the offset on,
  as many as the chunk bound allows, and says truthfully whether the end was reached.
\<close>

definition honest_answer :: "(string \<Rightarrow> string) \<Rightarrow> string \<Rightarrow> nat \<Rightarrow> nat \<Rightarrow> call_error + json" where
  "honest_answer encode source k offset =
     Inr (JObject [(''data'', JString (encode (take SOURCE_READ_CHUNK_BYTES (drop offset source)))),
       (''eof'', JBool (length source \<le> offset + SOURCE_READ_CHUNK_BYTES)),
       (''totalBytes'', jnum (of_nat (length source)))])"

lemma honest_step:
  assumes "\<forall>b. pc_base64 c (encode b) = Some b" "length source < 2 ^ 64" "sc_bytes claim = of_nat (length source)"
    and off: "offset \<le> length source" and as: "assembled = take offset source"
  shows "read_step c claim assembled (honest_answer encode source k offset) =
    Inr (if length source \<le> offset + SOURCE_READ_CHUNK_BYTES then Eof source
         else More (take (offset + SOURCE_READ_CHUNK_BYTES) source))"
proof -
  have whole: "assembled @ take SOURCE_READ_CHUNK_BYTES (drop offset source) = take (offset + SOURCE_READ_CHUNK_BYTES) source"
    unfolding as by (simp add: take_add)
  have "unat (sc_bytes claim) = length source" using assms(2,3) by (simp add: unat_of_nat_u64)
  moreover have "0 < SOURCE_READ_CHUNK_BYTES" by (simp add: SOURCE_READ_CHUNK_BYTES_def)
  ultimately show ?thesis
    using assms(1,3) whole off
    by (auto simp: read_step_def honest_answer_def jget_def as_bool_def as_u64_def jnum_def Let_def min_def)
qed

lemma honest_loop:
  assumes "\<forall>b. pc_base64 c (encode b) = Some b" "length source < 2 ^ 64" "sc_bytes claim = of_nat (length source)"
  shows "offset \<le> length source \<Longrightarrow> read_loop c claim (honest_answer encode source) k (take offset source) = Some (Inr source)"
proof (induction "length source - offset" arbitrary: k offset rule: less_induct)
  case less
  have step: "read_step c claim (take offset source) (honest_answer encode source k (length (take offset source))) =
      Inr (if length source \<le> offset + SOURCE_READ_CHUNK_BYTES then Eof source
           else More (take (offset + SOURCE_READ_CHUNK_BYTES) source))"
  proof -
    have len: "length (take offset source) = offset" using less.prems by simp
    show ?thesis unfolding len by (rule honest_step [OF assms less.prems refl])
  qed
  show ?case
  proof (cases "length source \<le> offset + SOURCE_READ_CHUNK_BYTES")
    case True
    then show ?thesis using step by (subst read_loop.simps) simp
  next
    case False
    then have "read_loop c claim (honest_answer encode source) (Suc k) (take (offset + SOURCE_READ_CHUNK_BYTES) source) = Some (Inr source)"
      by (intro less.hyps) (auto simp: SOURCE_READ_CHUNK_BYTES_def)
    then show ?thesis using step False by (subst read_loop.simps) simp
  qed
qed

text \<open>
  A source read from a plugin that serves it honestly arrives unchanged, however many reads
  it takes: the loop returns exactly the source, which passes the length and digest checks.
\<close>

theorem pull_source_complete:
  assumes "\<forall>b. pc_base64 c (encode b) = Some b" "length source < 2 ^ 64"
  shows "pull_source c \<lparr>sc_bytes = of_nat (length source), sc_sha256 = pc_digest c source\<rparr> (honest_answer encode source)
    = Some (Inr source)"
  using honest_loop [OF assms, of "\<lparr>sc_bytes = of_nat (length source), sc_sha256 = pc_digest c source\<rparr>" 0 0] assms(2)
  by (simp add: pull_source_def unat_of_nat_u64)

definition plain_pull_codec :: "unit pull_codec" where
  "plain_pull_codec = \<lparr>pc_ref = (\<lambda>_. Some 7), pc_lower = (\<lambda>s. s), pc_base64 = Some, pc_digest = (\<lambda>s. ''d'' @ s),
     pc_properties = (\<lambda>_. Some []), pc_utf8_lossy = (\<lambda>s. s), pc_content_of = VContentId\<rparr>"

theorem pull_source_complete_witness:
  "pull_source plain_pull_codec \<lparr>sc_bytes = 5, sc_sha256 = ''dprint''\<rparr> (honest_answer (\<lambda>s. s) ''print'') = Some (Inr ''print'')"
  using pull_source_complete [of plain_pull_codec "\<lambda>s. s" "''print''"] by (simp add: plain_pull_codec_def)


theorem pull_source_verified_witness:
  "\<exists>bytes. pull_source plain_pull_codec \<lparr>sc_bytes = 5, sc_sha256 = ''dprint''\<rparr> (honest_answer (\<lambda>s. s) ''print'') = Some (Inr bytes) \<and>
     length bytes = 5"
proof -
  let ?claim = "\<lparr>sc_bytes = 5, sc_sha256 = ''dprint''\<rparr>"
  have "read_loop plain_pull_codec ?claim (honest_answer (\<lambda>s. s) ''print'') 0 [] = Some (Inr ''print'')"
    using honest_loop [of plain_pull_codec "\<lambda>s. s" "''print''" ?claim 0 0] by (simp add: plain_pull_codec_def)
  then have "pull_source plain_pull_codec ?claim (honest_answer (\<lambda>s. s) ''print'') = Some (Inr ''print'')"
    by (simp add: pull_source_def plain_pull_codec_def)
  with pull_source_verified [of plain_pull_codec ?claim "honest_answer (\<lambda>s. s) ''print''"] show ?thesis by auto
qed

section \<open>The snapshot of a pulled tree\<close>

text \<open>What a snapshot must be to stand for a pulled node: the same tree, every script with its verified source.\<close>

fun snap_matches :: "'v pull_codec \<Rightarrow> (string \<times> string) list \<Rightarrow> pulled_node \<Rightarrow> ('u, 'v) snapshot \<Rightarrow> bool" where
  "snap_matches c sources (PulledNode i name cls ps ns) s \<longleftrightarrow>
     parse_ref (pc_ref c) i = Some (sn_id s) \<and> sn_name s = name \<and> sn_class s = cls \<and>
     (is_script cls \<longrightarrow> (\<exists>bytes. map_of sources i = Some bytes \<and>
        map_of (sn_properties s) ''Source'' = Some (VString (pc_utf8_lossy c bytes)))) \<and>
     list_all2 (snap_matches c sources) ns (sn_children s)"

lemma all_ok_map_Inr [simp]: "all_ok (map Inr ys) = Inr ys"
  by (induction ys) simp_all

lemma all_ok_Inr: "all_ok xs = Inr ys \<longleftrightarrow> xs = map Inr ys"
proof
  show "all_ok xs = Inr ys \<Longrightarrow> xs = map Inr ys"
    by (induction xs arbitrary: ys rule: all_ok.induct) (auto split: sum.splits)
qed simp

lemma script_not_migrated: "is_script cls \<Longrightarrow> apply_migrations content_of cls ps = ps"
  by (auto simp: is_script_def apply_migrations_def migrations_def)

text \<open>
  The snapshot built from a pulled subtree is that subtree: the same names, classes and
  references in the same order at every depth, and every script, at every depth, carries the
  source that was read and verified for its reference. A script without one is an error, never
  an empty script.
\<close>

theorem to_snapshot_faithful:
  "to_snapshot c sources n = Inr s \<Longrightarrow> snap_matches c sources n (s :: ('u, 'v) snapshot)"
proof (induction n arbitrary: s)
  case (PulledNode i name cls ps ns)
  obtain r where r: "parse_ref (pc_ref c) i = Some r"
    using PulledNode.prems by (auto split: option.splits)
  obtain ps' where ps': "pc_properties c (filter (\<lambda>(k, _). k \<noteq> ''ArgonEmpty'' \<and> k \<noteq> ''Source'') ps) = Some ps'"
    using PulledNode.prems r by (cases "pc_properties c (filter (\<lambda>(k, _). k \<noteq> ''ArgonEmpty'' \<and> k \<noteq> ''Source'') ps)") auto
  have src: "is_script cls \<Longrightarrow> map_of sources i \<noteq> None"
    using PulledNode.prems r ps' by (auto split: if_splits)
  let ?q = "if is_script cls then prop_insert ''Source'' (VString (pc_utf8_lossy c (the (map_of sources i)))) ps' else ps'"
  obtain cs where cs: "all_ok (map (to_snapshot c sources) ns) = Inr cs"
    and s: "s = Snapshot r meta_new name cls (apply_migrations (pc_content_of c) cls ?q) cs"
    using PulledNode.prems r ps' src by (auto simp: Let_def split: sum.splits if_splits)
  have kids: "list_all2 (snap_matches c sources) ns cs"
    using cs PulledNode.IH unfolding all_ok_Inr list_all2_conv_all_nth
    by (metis (no_types, lifting) length_map nth_map nth_mem)
  have "is_script cls \<Longrightarrow> \<exists>bytes. map_of sources i = Some bytes \<and>
      map_of (sn_properties s) ''Source'' = Some (VString (pc_utf8_lossy c bytes))"
    using src unfolding s by (auto simp: script_not_migrated prop_get_insert)
  then show ?case using r kids s by simp
qed

theorem to_snapshot_faithful_witness:
  "snap_matches plain_pull_codec [(replicate 32 (CHR ''1''), ''print'')]
     (PulledNode (replicate 32 (CHR ''0'')) ''Root'' ''Folder'' [] [PulledNode (replicate 32 (CHR ''1'')) ''A'' ''Script'' [] []])
     (Snapshot 7 (meta_new :: unit meta) ''Root'' ''Folder'' [] [Snapshot 7 meta_new ''A'' ''Script'' [(''Source'', VString ''print'')] []])"
proof (rule to_snapshot_faithful)
  have "is_lower_hex (CHR ''0'')" "is_lower_hex (CHR ''1'')" by (simp_all add: is_lower_hex_def)
  then show "to_snapshot plain_pull_codec [(replicate 32 (CHR ''1''), ''print'')]
     (PulledNode (replicate 32 (CHR ''0'')) ''Root'' ''Folder'' [] [PulledNode (replicate 32 (CHR ''1'')) ''A'' ''Script'' [] []])
     = Inr (Snapshot 7 (meta_new :: unit meta) ''Root'' ''Folder'' [] [Snapshot 7 meta_new ''A'' ''Script'' [(''Source'', VString ''print'')] []])"
    by (simp add: parse_ref_def plain_pull_codec_def is_script_def prop_insert_def prop_remove_def apply_migrations_def migrations_def
        list_all_iff)
qed

end
