(* ===== verification/Fs.thy ===== *)
theory Fs
  imports Meta Backlog
begin

text \<open>
  The file system as the components that move files see it: one tree of files and directories,
  addressed by absolute paths. What the standard library's \<open>fs\<close> functions do to it, with
  \<open>None\<close> for the error they report; whether the operating system lets an operation happen is
  an argument of the operations that use them.
\<close>

section \<open>Definitions\<close>

fun node_at :: "path \<Rightarrow> fnode \<Rightarrow> fnode option" where
  "node_at [] n = Some n"
| "node_at (c # cs) (FFile _) = None"
| "node_at (c # cs) (FDir xs) = (case map_of xs c of None \<Rightarrow> None | Some m \<Rightarrow> node_at cs m)"

definition file_at :: "path \<Rightarrow> fnode \<Rightarrow> string option" where
  "file_at p n = (case node_at p n of Some (FFile b) \<Rightarrow> Some b | _ \<Rightarrow> None)"

definition is_file :: "path \<Rightarrow> fnode \<Rightarrow> bool" where
  "is_file p n \<longleftrightarrow> file_at p n \<noteq> None"

definition is_dir :: "path \<Rightarrow> fnode \<Rightarrow> bool" where
  "is_dir p n \<longleftrightarrow> (case node_at p n of Some (FDir _) \<Rightarrow> True | _ \<Rightarrow> False)"

definition fs_exists :: "path \<Rightarrow> fnode \<Rightarrow> bool" where
  "fs_exists p n \<longleftrightarrow> node_at p n \<noteq> None"

text \<open>Putting a tree at a path, or taking away what is there, in a directory that exists.\<close>

fun set_at :: "path \<Rightarrow> fnode option \<Rightarrow> fnode \<Rightarrow> fnode option" where
  "set_at [] v n = v"
| "set_at (c # cs) v (FFile _) = None"
| "set_at [c] v (FDir xs) = Some (FDir (case v of Some m \<Rightarrow> AList.update c m xs | None \<Rightarrow> AList.delete c xs))"
| "set_at (c # d # cs) v (FDir xs) =
     (case map_of xs c of
        None \<Rightarrow> None
      | Some m \<Rightarrow> map_option (\<lambda>m. FDir (AList.update c m xs)) (set_at (d # cs) v m))"

text \<open>\<open>create_dir_all\<close>\<close>

fun make_dirs :: "path \<Rightarrow> fnode \<Rightarrow> fnode option" where
  "make_dirs [] n = (case n of FDir _ \<Rightarrow> Some n | FFile _ \<Rightarrow> None)"
| "make_dirs (c # cs) (FFile _) = None"
| "make_dirs (c # cs) (FDir xs) =
     map_option (\<lambda>m. FDir (AList.update c m xs))
       (make_dirs cs (case map_of xs c of None \<Rightarrow> FDir [] | Some m \<Rightarrow> m))"

text \<open>A copy of a file or a whole tree to a path whose directory is made first.\<close>

definition copy_to :: "path \<Rightarrow> fnode \<Rightarrow> fnode \<Rightarrow> fnode option" where
  "copy_to target n fs =
     Option.bind (if target = [] then Some fs else make_dirs (butlast target) fs) (\<lambda>fs.
       Option.bind (copy_tree n (node_at target fs)) (\<lambda>m. set_at target (Some m) fs))"

text \<open>\<open>fs::rename\<close> of a tree to a path where nothing is.\<close>

definition rename_to :: "path \<Rightarrow> path \<Rightarrow> fnode \<Rightarrow> fnode option" where
  "rename_to from to fs =
     (case node_at from fs of
        None \<Rightarrow> None
      | Some n \<Rightarrow>
          if fs_exists to fs \<or> prefix from to then None
          else Option.bind (set_at from None fs) (set_at to (Some n)))"

section \<open>Lookups after a change\<close>

lemma map_of_update: "map_of (AList.update k v xs) = (map_of xs)(k \<mapsto> v)"
  by (simp add: update_conv')

lemma map_of_delete: "map_of (AList.delete k xs) = (map_of xs)(k := None)"
  by (simp add: delete_conv')

lemma node_at_append: "node_at (p @ q) n = Option.bind (node_at p n) (node_at q)"
  by (induction p n rule: node_at.induct) (auto split: option.splits)

lemma node_at_set_same:
  "set_at p v n = Some n' \<Longrightarrow> p \<noteq> [] \<Longrightarrow> node_at p n' = v"
  by (induction p v n arbitrary: n' rule: set_at.induct)
    (auto simp: map_of_update map_of_delete split: option.splits)

lemma node_at_set_below:
  "set_at p (Some m) n = Some n' \<Longrightarrow> p \<noteq> [] \<Longrightarrow> node_at (p @ q) n' = node_at q m"
  using node_at_set_same [of p "Some m" n n'] by (simp add: node_at_append)

lemma node_at_set_other:
  "set_at p v n = Some n' \<Longrightarrow> \<not> prefix p q \<Longrightarrow> \<not> prefix q p \<Longrightarrow> node_at q n' = node_at q n"
proof (induction p v n arbitrary: q n' rule: set_at.induct)
  case (3 c v xs)
  then show ?case by (cases q) (auto simp: map_of_update map_of_delete split: option.splits)
next
  case (4 c d cs v xs)
  then show ?case
    by (cases q) (auto simp: map_of_update split: option.splits if_splits)
qed auto

lemma make_dirs_other:
  "make_dirs p n = Some n' \<Longrightarrow> \<not> prefix q p \<Longrightarrow> node_at q n' = node_at q n"
proof (induction p n arbitrary: q n' rule: make_dirs.induct)
  case (3 c cs xs)
  show ?case
  proof (cases q)
    case (Cons d ds)
    show ?thesis
    proof (cases "d = c")
      case True
      obtain m where m: "make_dirs cs (case map_of xs c of None \<Rightarrow> FDir [] | Some m \<Rightarrow> m) = Some m"
        "n' = FDir (AList.update c m xs)"
        using "3.prems"(1) by auto
      show ?thesis
        using "3.IH" [OF m(1), of ds] "3.prems"(2) Cons True m(2)
        by (cases ds) (auto simp: map_of_update split: option.splits)
    qed (use 3 Cons in \<open>auto simp: map_of_update\<close>)
  qed (use 3 in auto)
qed (auto split: fnode.splits)

definition apart :: "path \<Rightarrow> path \<Rightarrow> bool" where
  "apart p q \<longleftrightarrow> \<not> prefix p q \<and> \<not> prefix q p"

lemma apart_sym: "apart p q \<Longrightarrow> apart q p"
  by (simp add: apart_def)

lemma apart_below: "apart p q \<Longrightarrow> apart p (q @ r)"
  by (auto simp: apart_def prefix_def dest: append_eq_append_conv2 [THEN iffD1])

lemma set_at_apart: "set_at p v n = Some n' \<Longrightarrow> apart p q \<Longrightarrow> node_at q n' = node_at q n"
  unfolding apart_def by (blast dest: node_at_set_other)

lemma copy_to_apart:
  assumes "copy_to p m n = Some n'" "apart p q"
  shows "node_at q n' = node_at q n"
proof -
  have p: "p \<noteq> []" using assms(2) by (auto simp: apart_def)
  obtain n1 m1 where steps: "make_dirs (butlast p) n = Some n1" "set_at p (Some m1) n1 = Some n'"
    using assms(1) p by (auto simp: copy_to_def bind_eq_Some_conv)
  have "prefix (butlast p) p" by (metis append_butlast_last_id p prefixI)
  then have q: "\<not> prefix q (butlast p)" using assms(2) prefix_order.trans unfolding apart_def by blast
  have "node_at q n1 = node_at q n" by (rule make_dirs_other [OF steps(1) q])
  then show ?thesis using set_at_apart [OF steps(2) assms(2)] by simp
qed

lemma set_at_entry:
  "node_at r fs = Some (FDir xs) \<Longrightarrow> \<exists>fs'. set_at (r @ [n]) v fs = Some fs' \<and>
     node_at r fs' = Some (FDir (case v of Some m \<Rightarrow> AList.update n m xs | None \<Rightarrow> AList.delete n xs))"
proof (induction r fs rule: node_at.induct)
  case (3 c cs zs)
  obtain m where m: "map_of zs c = Some m" "node_at cs m = Some (FDir xs)"
    using "3.prems" by (auto split: option.splits)
  from "3.IH" [OF m] obtain m' where "set_at (cs @ [n]) v m = Some m'"
    "node_at cs m' = Some (FDir (case v of Some m \<Rightarrow> AList.update n m xs | None \<Rightarrow> AList.delete n xs))" by blast
  then show ?case using m(1) by (cases "cs @ [n]") (auto simp: map_of_update)
qed auto

end
