(* ===== verification/Bulk.thy ===== *)
theory Bulk
  imports Pull Conflict Fs
begin

text \<open>
  Bulk transfers (\<^verbatim>\<open>src/server/bulk.rs\<close>): the fence, the staging of a pulled root, the swap
  that puts it in place, the loop over the roots of a transfer and the pruning of old backups.

  The file system is one \<open>fnode\<close> tree (\<open>Fs\<close>). The staged projection is written by the write
  middleware; what it left at the stage root, and the scratch tree it built, are arguments.
  Whether the operating system lets a rename happen is an argument as well; the other file
  operations fail where the tree makes them fail. The digest of \<open>sha2\<close> and the age of a backup
  name, which \<open>chrono\<close> parses, are parameters.
\<close>

section \<open>Staging\<close>

record studio_first_options =
  so_workspace_dir :: path
  so_staging :: path
  so_preserve :: "path list"
  so_disk_only :: "path list"
  so_keep_live :: "(dref \<times> path list) list"
  so_drop_staged :: "dref list"

record studio_first_report =
  sr_preserved :: "path set"
  sr_claimed :: "path set"
  sr_demoted :: "dref list"

definition report_default :: studio_first_report where
  "report_default = \<lparr>sr_preserved = {}, sr_claimed = {}, sr_demoted = []\<rparr>"

text \<open>\<open>staging.join(live)\<close> of an absolute path that is not below the workspace is that path.\<close>

definition preserved_path :: "studio_first_options \<Rightarrow> path \<Rightarrow> path" where
  "preserved_path o1 live =
     (case strip_path (so_workspace_dir o1) live of Some rel \<Rightarrow> so_staging o1 @ rel | None \<Rightarrow> live)"

definition file_entries :: "('d, 'm, 'u) tree \<Rightarrow> dref \<Rightarrow> path list" where
  "file_entries t i =
     (case get_meta t i of
        None \<Rightarrow> []
      | Some mt \<Rightarrow> concat (map (\<lambda>e. case e of EFile p \<Rightarrow> [p] | EData p \<Rightarrow> [p] | _ \<Rightarrow> []) (src_relevant (mt_source mt))))"

datatype apply_error =
    PullFailed pull_error
  | NotServed | NoMetadata | NoDirectory
  | OverBudget
  | StageFailed
  | DiskChanged
  | PreserveFailed path
  | KeepFailed path
  | DropFailed path
  | BackupFailed
  | SwapFailed bool

text \<open>
  The steps of the staging change the file system and the report as they go; an error ends them
  and keeps what was changed before it.
\<close>

type_synonym stage_state = "fnode \<times> studio_first_report"

type_synonym stage_step = "stage_state \<Rightarrow> stage_state \<times> apply_error option"

fun each_ok :: "('x \<Rightarrow> stage_step) \<Rightarrow> 'x list \<Rightarrow> stage_step" where
  "each_ok f [] st = (st, None)"
| "each_ok f (x # xs) st = (case f x st of (st, Some e) \<Rightarrow> (st, Some e) | (st, None) \<Rightarrow> each_ok f xs st)"

definition and_then :: "stage_step \<Rightarrow> stage_step \<Rightarrow> stage_step" where
  "and_then f g st = (case f st of (st, Some e) \<Rightarrow> (st, Some e) | (st, None) \<Rightarrow> g st)"

definition preserve_path :: "studio_first_options \<Rightarrow> path \<Rightarrow> stage_step" where
  "preserve_path o1 live = (\<lambda>(fs, report).
     case Option.bind (node_at live fs) (\<lambda>n. copy_to (preserved_path o1 live) n fs) of
       None \<Rightarrow> ((fs, report), Some (PreserveFailed live))
     | Some fs \<Rightarrow> ((fs, report\<lparr>sr_preserved := insert live (sr_preserved report)\<rparr>), None))"

definition preserve_if :: "studio_first_options \<Rightarrow> path \<Rightarrow> path \<Rightarrow> stage_step" where
  "preserve_if o1 live_dir live st =
     (if prefix live_dir live \<and> fs_exists live (fst st) then preserve_path o1 live st else (st, None))"

definition note_claimed :: "path \<Rightarrow> path \<Rightarrow> path \<Rightarrow> stage_step" where
  "note_claimed live_dir stage_root live = (\<lambda>(fs, report).
     ((fs, case strip_path live_dir live of
        None \<Rightarrow> report
      | Some rel \<Rightarrow> if fs_exists (stage_root @ rel) fs
          then report\<lparr>sr_claimed := insert live (sr_claimed report)\<rparr> else report), None))"

definition keep_file :: "path \<Rightarrow> path \<Rightarrow> path \<Rightarrow> stage_step" where
  "keep_file live_dir stage_root rel = (\<lambda>(fs, report).
     case Option.bind (file_at (live_dir @ rel) fs) (\<lambda>b.
         if is_dir (stage_root @ rel) fs then None else set_at (stage_root @ rel) (Some (FFile b)) fs) of
       None \<Rightarrow> ((fs, report), Some (KeepFailed rel))
     | Some fs \<Rightarrow> ((fs, report), None))"

definition relatives :: "path \<Rightarrow> path list \<Rightarrow> path list" where
  "relatives base ps = sort (remdups (List.map_filter (strip_path base) ps))"

definition demote :: "dref \<Rightarrow> stage_step" where
  "demote i = (\<lambda>(fs, report). ((fs, report\<lparr>sr_demoted := sr_demoted report @ [i]\<rparr>), None))"

definition keep_live_one ::
  "studio_first_options \<Rightarrow> path \<Rightarrow> path \<Rightarrow> ('d, 'm, 'u) tree \<Rightarrow> dref \<times> path list \<Rightarrow> stage_step" where
  "keep_live_one o1 live_dir stage_root scratch = (\<lambda>(i, files) st.
     let live_files = filter (prefix live_dir) files in
     if live_files = [] then (st, None)
     else
       (let live_relative = relatives live_dir live_files;
            staged_relative = relatives stage_root (file_entries scratch i)
        in if live_relative = staged_relative \<and> list_all (\<lambda>p. is_file p (fst st)) live_files
           then each_ok (keep_file live_dir stage_root) live_relative st
           else and_then (each_ok (preserve_if o1 live_dir) live_files) (demote i) st))"

definition drop_entry :: "path \<Rightarrow> source_entry \<Rightarrow> stage_step" where
  "drop_entry stage_root e = (\<lambda>(fs, report).
     let p = entry_path e in
     if \<not> prefix stage_root p \<or> p = stage_root \<or> \<not> fs_exists p fs then ((fs, report), None)
     else case set_at p None fs of None \<Rightarrow> ((fs, report), Some (DropFailed p)) | Some fs \<Rightarrow> ((fs, report), None))"

definition drop_one :: "path \<Rightarrow> ('d, 'm, 'u) tree \<Rightarrow> dref \<Rightarrow> stage_step" where
  "drop_one stage_root scratch i st =
     (case get_meta scratch i of
        None \<Rightarrow> (st, None)
      | Some mt \<Rightarrow> each_ok (drop_entry stage_root) (src_relevant (mt_source mt)) st)"

definition prepare_stage ::
  "studio_first_options \<Rightarrow> path \<Rightarrow> path \<Rightarrow> ('d, 'm, 'u) tree \<Rightarrow> stage_step" where
  "prepare_stage o1 live_dir stage_root scratch =
     and_then (each_ok (preserve_if o1 live_dir) (so_preserve o1 @ so_disk_only o1))
       (and_then (each_ok (note_claimed live_dir stage_root) (so_disk_only o1))
         (and_then (each_ok (keep_live_one o1 live_dir stage_root scratch) (so_keep_live o1))
           (each_ok (drop_one stage_root scratch) (so_drop_staged o1))))"

text \<open>The overlay: what the staged directory \<open>ys\<close> does not claim is copied in from the live one.\<close>

function overlay_entries :: "(string \<times> fnode) list \<Rightarrow> (string \<times> fnode) list \<Rightarrow> (string \<times> fnode) list" where
  "overlay_entries [] ys = ys"
| "overlay_entries ((k, FFile b) # rest) ys =
     overlay_entries rest (if map_of ys k = None then AList.update k (FFile b) ys else ys)"
| "overlay_entries ((k, FDir xs) # rest) ys =
     (case map_of ys k of
        Some (FFile _) \<Rightarrow> overlay_entries rest ys
      | Some (FDir zs) \<Rightarrow> overlay_entries rest (AList.update k (FDir (overlay_entries xs zs)) ys)
      | None \<Rightarrow> overlay_entries rest (AList.update k (FDir (overlay_entries xs [])) ys))"
  by pat_completeness auto
termination
  by (relation "measure (\<lambda>(xs, _). size_list (size_prod (\<lambda>_. 0) size) xs)") auto

definition overlay_unclaimed :: "path \<Rightarrow> path \<Rightarrow> stage_step" where
  "overlay_unclaimed live stage = (\<lambda>(fs, report).
     case (node_at live fs, node_at stage fs) of
       (Some (FDir xs), Some (FDir ys)) \<Rightarrow>
         (case set_at stage (Some (FDir (overlay_entries xs ys))) fs of
            Some fs \<Rightarrow> ((fs, report), None) | None \<Rightarrow> ((fs, report), Some StageFailed))
     | _ \<Rightarrow> ((fs, report), Some StageFailed))"

section \<open>The fence\<close>

text \<open>The files below a directory with their relative paths.\<close>

fun dir_files :: "path \<Rightarrow> fnode \<Rightarrow> (path \<times> string) list" where
  "dir_files at (FFile b) = [(at, b)]"
| "dir_files at (FDir xs) = concat (map (\<lambda>(k, n). dir_files (at @ [k]) n) xs)"

definition fingerprint_dir :: "(string \<Rightarrow> content_hash) \<Rightarrow> path \<Rightarrow> fnode \<Rightarrow> (path \<times> content_hash) list option" where
  "fingerprint_dir sha dir fs =
     (case node_at dir fs of
        Some (FDir xs) \<Rightarrow> Some (sort_key fst (map (\<lambda>(p, b). (p, sha b)) (dir_files [] (FDir xs))))
      | _ \<Rightarrow> None)"

definition same_contents :: "(string \<Rightarrow> content_hash) \<Rightarrow> path \<Rightarrow> path \<Rightarrow> fnode \<Rightarrow> bool" where
  "same_contents sha a b fs \<longleftrightarrow>
     (case (is_dir a fs, is_dir b fs) of
        (True, True) \<Rightarrow> fingerprint_dir sha a fs \<noteq> None \<and> fingerprint_dir sha a fs = fingerprint_dir sha b fs
      | (False, False) \<Rightarrow> file_at a fs \<noteq> None \<and> file_at a fs = file_at b fs
      | _ \<Rightarrow> False)"

section \<open>Applying one root\<close>

record root_target =
  rt_id :: dref
  rt_class :: string
  rt_live_dir :: path

text \<open>
  \<open>node.path\<close> of a project node is relative to the directory of the project file; \<open>clean\<close> is the
  lexical clean-up of \<open>path_clean\<close>.
\<close>

definition root_dir :: "(path \<Rightarrow> path) \<Rightarrow> 'u meta \<Rightarrow> path option" where
  "root_dir clean mt =
     (let backing = (case src_inner (mt_source mt) of
            SProject _ project_path node _ \<Rightarrow>
              map_option (\<lambda>custom. clean (if is_absolute (project_path_path custom) then project_path_path custom
                  else butlast project_path @ project_path_path custom)) (node_path node)
          | SPath p \<Rightarrow> Some p
          | SNone \<Rightarrow> None)
      in case backing of
           Some p \<Rightarrow> Some p
         | None \<Rightarrow> List.find (\<lambda>_. True) (concat (map (\<lambda>e. case e of EFolder p \<Rightarrow> [p] | _ \<Rightarrow> []) (src_relevant (mt_source mt)))))"

definition resolve_root ::
  "(path \<Rightarrow> path) \<Rightarrow> ('d, 'm, 'v) tree_ops \<Rightarrow> ('d, 'm, 'u) tree \<Rightarrow> string \<Rightarrow> apply_error + root_target" where
  "resolve_root clean ops t root_name =
     (case find (\<lambda>child. case get_instance ops t child of Some x \<Rightarrow> in_name x = root_name | None \<Rightarrow> False) (place_root_refs ops t) of
        None \<Rightarrow> Inl NotServed
      | Some i \<Rightarrow>
          (case get_meta t i of
             None \<Rightarrow> Inl NoMetadata
           | Some mt \<Rightarrow>
               (case root_dir clean mt of
                  None \<Rightarrow> Inl NoDirectory
                | Some live \<Rightarrow> Inr \<lparr>rt_id = i,
                    rt_class = (case get_instance ops t i of Some x \<Rightarrow> in_class x | None \<Rightarrow> root_name), rt_live_dir = live\<rparr>)))"

definition BULK_SCRIPT_MAX_BYTES :: u64 where "BULK_SCRIPT_MAX_BYTES = 32 * 1024 * 1024"
definition BULK_ROOT_MAX_BYTES :: u64 where "BULK_ROOT_MAX_BYTES = 64 * 1024 * 1024"
definition BULK_TRANSFER_MAX_BYTES :: u64 where "BULK_TRANSFER_MAX_BYTES = 128 * 1024 * 1024"

text \<open>The byte budgets: the transfer's new total, or nothing when a bound is exceeded.\<close>

fun root_budget :: "(string \<times> source_claim) list \<Rightarrow> u64 \<Rightarrow> u64 option" where
  "root_budget [] root_bytes = Some root_bytes"
| "root_budget ((_, claim) # claims) root_bytes =
     (if BULK_SCRIPT_MAX_BYTES < sc_bytes claim then None else root_budget claims (root_bytes + sc_bytes claim))"

definition charge_budget :: "(string \<times> source_claim) list \<Rightarrow> u64 \<Rightarrow> u64 option" where
  "charge_budget claims transfer_bytes =
     (case root_budget claims 0 of
        None \<Rightarrow> None
      | Some root_bytes \<Rightarrow>
          if BULK_ROOT_MAX_BYTES < root_bytes then None
          else if BULK_TRANSFER_MAX_BYTES < transfer_bytes + root_bytes then None
          else Some (transfer_bytes + root_bytes))"

record swap_io =
  si_backup :: bool
  si_swap :: bool
  si_restore :: bool

text \<open>
  The critical part, with the file system paused: the fence is checked again, the stage is
  adjusted and overlaid, the live root moves to the backup and the stage takes its place; when
  that fails the backup moves back.
\<close>

definition swap_in :: "swap_io \<Rightarrow> path \<Rightarrow> path \<Rightarrow> path \<Rightarrow> stage_step" where
  "swap_in io live_dir stage_root backup_path = (\<lambda>(fs, report).
     case (if si_backup io then rename_to live_dir backup_path fs else None) of
       None \<Rightarrow> ((fs, report), Some BackupFailed)
     | Some fs1 \<Rightarrow>
         (case (if si_swap io then rename_to stage_root live_dir fs1 else None) of
            Some fs2 \<Rightarrow> ((fs2, report), None)
          | None \<Rightarrow>
              (case (if si_restore io then rename_to backup_path live_dir fs1 else None) of
                 Some fs2 \<Rightarrow> ((fs2, report), Some (SwapFailed True))
               | None \<Rightarrow> ((fs1, report), Some (SwapFailed False)))))"

definition swap_root ::
  "(string \<Rightarrow> content_hash) \<Rightarrow> swap_io \<Rightarrow> studio_first_options option \<Rightarrow> ('d, 'm, 'u) tree \<Rightarrow> path \<Rightarrow> path \<Rightarrow> path
   \<Rightarrow> (path \<times> content_hash) list \<Rightarrow> stage_step" where
  "swap_root sha io studio_first scratch live_dir stage_root backup_path fence st =
     (if fingerprint_dir sha live_dir (fst st) \<noteq> Some fence then (st, Some DiskChanged)
      else
        and_then
          (case studio_first of
             None \<Rightarrow> (\<lambda>st. (st, None))
           | Some o1 \<Rightarrow> and_then (prepare_stage o1 live_dir stage_root scratch) (overlay_unclaimed live_dir stage_root))
          (swap_in io live_dir stage_root backup_path) st)"

text \<open>Baselines for the instances of a list that the tree has.\<close>

definition stamp_all ::
  "('v, 'j) codec \<Rightarrow> ('d, 'm, 'v) tree_ops \<Rightarrow> ('d, 'm, 'u) tree \<Rightarrow> dref list \<Rightarrow> ('v, 'j) engine_state \<Rightarrow> ('v, 'j) engine_state" where
  "stamp_all c ops t ids st =
     fold (\<lambda>i st. case get_instance ops t i of
         Some x \<Rightarrow> stamp i (cs_hash (content_new c (in_name x) (in_class x) (in_properties x))) st
       | None \<Rightarrow> st) ids st"

text \<open>
  What one root's apply meets: the plugin's answers, what else happens on disk while it pulls,
  the staging through the write middleware (\<open>None\<close> when it fails), and the tree after the
  refresh that reads the swapped root back.
\<close>

record ('d, 'm, 'u, 'v) apply_env =
  ae_clean :: "path \<Rightarrow> path"
  ae_ops :: "('d, 'm, 'v) tree_ops"
  ae_pull :: "'v pull_codec"
  ae_sha :: "string \<Rightarrow> content_hash"
  ae_io :: swap_io
  ae_read_subtree :: "dref \<Rightarrow> call_error + json"
  ae_source_read :: "string \<Rightarrow> nat \<Rightarrow> nat \<Rightarrow> call_error + json"
  ae_meanwhile :: "fnode \<Rightarrow> fnode"
  ae_materialize :: "root_target \<Rightarrow> pulled_node \<Rightarrow> (string \<times> string) list \<Rightarrow> path \<Rightarrow> fnode \<Rightarrow> (fnode \<times> ('d, 'm, 'u) tree) option"
  ae_refresh :: "dref \<Rightarrow> fnode \<Rightarrow> ('d, 'm, 'u) tree \<Rightarrow> ('d, 'm, 'u) tree"

record ('d, 'm, 'u, 'v, 'j) apply_state =
  ap_fs :: fnode
  ap_report :: studio_first_report
  ap_bytes :: u64
  ap_tree :: "('d, 'm, 'u) tree"
  ap_engine :: "('v, 'j) engine_state"

fun pull_sources ::
  "'v pull_codec \<Rightarrow> (string \<Rightarrow> nat \<Rightarrow> nat \<Rightarrow> call_error + json) \<Rightarrow> (string \<times> source_claim) list
   \<Rightarrow> (pull_error + (string \<times> string) list) option" where
  "pull_sources c reads [] = Some (Inr [])"
| "pull_sources c reads ((reference, claim) # claims) =
     (case pull_source c claim (reads reference) of
        None \<Rightarrow> None
      | Some (Inl e) \<Rightarrow> Some (Inl e)
      | Some (Inr bytes) \<Rightarrow>
          (case pull_sources c reads claims of
             None \<Rightarrow> None
           | Some (Inl e) \<Rightarrow> Some (Inl e)
           | Some (Inr rest) \<Rightarrow> Some (Inr ((reference, bytes) # rest))))"

text \<open>The part after the pull: staging, the swap, the refreshed tree and its baselines.\<close>

definition commit_root ::
  "('d, 'm, 'u, 'v) apply_env \<Rightarrow> ('v, 'j) codec \<Rightarrow> path \<Rightarrow> string \<Rightarrow> studio_first_options option \<Rightarrow> root_target
   \<Rightarrow> (path \<times> content_hash) list \<Rightarrow> pulled_node \<Rightarrow> (string \<times> string) list \<Rightarrow> ('d, 'm, 'u, 'v, 'j) apply_state
   \<Rightarrow> (('d, 'm, 'u, 'v, 'j) apply_state \<times> (apply_error + unit)) option" where
  "commit_root env c transfer_dir root_name studio_first target fence pulled sources st =
     (let stage_root = transfer_dir @ [''.stage'', root_name] in
      case Option.bind (make_dirs (transfer_dir @ [''.stage'']) (ap_fs st)) (ae_materialize env target pulled sources stage_root) of
        None \<Rightarrow> Some (st, Inl StageFailed)
      | Some (fs, scratch) \<Rightarrow>
          (case swap_root (ae_sha env) (ae_io env) studio_first scratch (rt_live_dir target) stage_root (transfer_dir @ [root_name]) fence
                  (ae_meanwhile env fs, ap_report st) of
             ((fs, report), Some e) \<Rightarrow> Some (st\<lparr>ap_fs := fs, ap_report := report\<rparr>, Inl e)
           | ((fs, report), None) \<Rightarrow>
               (let t = ae_refresh env (rt_id target) fs (ap_tree st) in
                map_option (\<lambda>ids. (st\<lparr>ap_fs := fs, ap_report := report, ap_tree := t,
                    ap_engine := stamp_all c (ae_ops env) t ids (ap_engine st)\<rparr>, Inr ()))
                  (subtree_refs (ae_ops env) t (rt_id target)))))"

definition apply_root ::
  "('d, 'm, 'u, 'v) apply_env \<Rightarrow> ('v, 'j) codec \<Rightarrow> path \<Rightarrow> string \<Rightarrow> string \<Rightarrow> studio_first_options option
   \<Rightarrow> ('d, 'm, 'u, 'v, 'j) apply_state \<Rightarrow> (('d, 'm, 'u, 'v, 'j) apply_state \<times> (apply_error + string)) option" where
  "apply_root env c transfer_dir transfer_name root_name studio_first st =
     (case resolve_root (ae_clean env) (ae_ops env) (ap_tree st) root_name of
        Inl e \<Rightarrow> Some (st, Inl e)
      | Inr target \<Rightarrow>
          (case (if is_dir (rt_live_dir target) (ap_fs st) then Some (ap_fs st) else make_dirs (rt_live_dir target) (ap_fs st)) of
             None \<Rightarrow> Some (st, Inl NoDirectory)
           | Some fs \<Rightarrow>
               (let st = st\<lparr>ap_fs := fs\<rparr> in
                case fingerprint_dir (ae_sha env) (rt_live_dir target) fs of
                  None \<Rightarrow> Some (st, Inl NoDirectory)
                | Some fence \<Rightarrow>
                    (case ae_read_subtree env (rt_id target) of
                       Inl e \<Rightarrow> Some (st, Inl (PullFailed (ReadFailed e)))
                     | Inr v \<Rightarrow>
                         (case parse_read_subtree (ae_pull env) v of
                            Inl e \<Rightarrow> Some (st, Inl (PullFailed e))
                          | Inr (pulled, claims) \<Rightarrow>
                              (case charge_budget claims (ap_bytes st) of
                                 None \<Rightarrow> Some (st, Inl OverBudget)
                               | Some bytes \<Rightarrow>
                                   (let st = st\<lparr>ap_bytes := bytes\<rparr> in
                                    case pull_sources (ae_pull env) (ae_source_read env) claims of
                                      None \<Rightarrow> None
                                    | Some (Inl e) \<Rightarrow> Some (st, Inl (PullFailed e))
                                    | Some (Inr sources) \<Rightarrow>
                                        map_option (\<lambda>(st, r). (st, case r of Inl e \<Rightarrow> Inl e | Inr _ \<Rightarrow> Inr (transfer_name @ ''/'' @ root_name)))
                                          (commit_root env c transfer_dir root_name studio_first target fence pulled sources st))))))))"

section \<open>The transfer\<close>

text \<open>The receipt of a failure lists the roots committed before it.\<close>

datatype transfer_result =
    TransferDone "string list"
  | TransferPartial string apply_error "(string \<times> string) list"
  | TransferNoDir

fun apply_loop ::
  "(string \<Rightarrow> ('d, 'm, 'u, 'v) apply_env) \<Rightarrow> ('v, 'j) codec \<Rightarrow> path \<Rightarrow> string \<Rightarrow> studio_first_options option
   \<Rightarrow> string list \<Rightarrow> (string \<times> string) list \<Rightarrow> ('d, 'm, 'u, 'v, 'j) apply_state
   \<Rightarrow> (('d, 'm, 'u, 'v, 'j) apply_state \<times> transfer_result) option" where
  "apply_loop env c transfer_dir transfer_name studio_first [] committed st = Some (st, TransferDone (map snd committed))"
| "apply_loop env c transfer_dir transfer_name studio_first (root # roots) committed st =
     (case apply_root (env root) c transfer_dir transfer_name root studio_first st of
        None \<Rightarrow> None
      | Some (st, Inr backup) \<Rightarrow>
          apply_loop env c transfer_dir transfer_name studio_first roots (committed @ [(root, backup)]) st
      | Some (st, Inl e) \<Rightarrow> Some (st, TransferPartial root e committed))"

definition BACKUP_KEEP_DAYS :: int where "BACKUP_KEEP_DAYS = 7"
definition BACKUP_KEEP_COUNT :: nat where "BACKUP_KEEP_COUNT = 32"
definition BACKUP_COMPLETE_MARKER :: string where "BACKUP_COMPLETE_MARKER = ''complete.json''"

text \<open>
  The pruning: of the completed transfers, newest first, the ones beyond the count and the ones
  too old. The index of a name is the number of newer completed ones.
\<close>

definition completed_names :: "path \<Rightarrow> fnode \<Rightarrow> string list" where
  "completed_names backups_root fs =
     (case node_at backups_root fs of
        Some (FDir xs) \<Rightarrow>
          rev (sort (filter (\<lambda>n. is_dir (backups_root @ [n]) fs \<and> is_file (backups_root @ [n, BACKUP_COMPLETE_MARKER]) fs) (map fst xs)))
      | _ \<Rightarrow> [])"

definition pruned_names :: "(string \<Rightarrow> int option) \<Rightarrow> string list \<Rightarrow> string list" where
  "pruned_names age_days completed =
     map snd (filter (\<lambda>(index, name). BACKUP_KEEP_COUNT \<le> index \<or>
         (case age_days name of Some days \<Rightarrow> BACKUP_KEEP_DAYS < days | None \<Rightarrow> False))
       (zip [0..<length completed] completed))"

definition prune_backups :: "(string \<Rightarrow> int option) \<Rightarrow> path \<Rightarrow> fnode \<Rightarrow> fnode" where
  "prune_backups age_days backups_root fs =
     fold (\<lambda>n fs. case set_at (backups_root @ [n]) None fs of Some fs \<Rightarrow> fs | None \<Rightarrow> fs)
       (pruned_names age_days (completed_names backups_root fs)) fs"

text \<open>The completion marker, which makes a transfer prunable, is written when every root is done.\<close>

definition write_marker :: "bool \<Rightarrow> string \<Rightarrow> path \<Rightarrow> fnode \<Rightarrow> fnode" where
  "write_marker written marker transfer_dir fs =
     (if \<not> written then fs
      else case set_at (transfer_dir @ [BACKUP_COMPLETE_MARKER]) (Some (FFile marker)) fs of Some fs \<Rightarrow> fs | None \<Rightarrow> fs)"

definition apply_roots ::
  "(string \<Rightarrow> ('d, 'm, 'u, 'v) apply_env) \<Rightarrow> ('v, 'j) codec \<Rightarrow> (string \<Rightarrow> int option) \<Rightarrow> bool \<Rightarrow> string \<Rightarrow> path \<Rightarrow> string
   \<Rightarrow> studio_first_options option \<Rightarrow> oset \<Rightarrow> ('d, 'm, 'u, 'v, 'j) apply_state
   \<Rightarrow> (('d, 'm, 'u, 'v, 'j) apply_state \<times> transfer_result) option" where
  "apply_roots env c age_days marker_written marker backups_root transfer_name studio_first roots st =
     (if roots = [] then Some (st, TransferDone [])
      else
        (let transfer_dir = backups_root @ [transfer_name];
             st = st\<lparr>ap_fs := prune_backups age_days backups_root (ap_fs st)\<rparr>
         in case make_dirs transfer_dir (ap_fs st) of
              None \<Rightarrow> Some (st, TransferNoDir)
            | Some fs \<Rightarrow>
                (case apply_loop env c transfer_dir transfer_name studio_first roots [] (st\<lparr>ap_fs := fs, ap_bytes := 0\<rparr>) of
                   Some (st, TransferDone backups) \<Rightarrow>
                     (let fs = write_marker marker_written marker transfer_dir (ap_fs st);
                          fs = (case set_at (transfer_dir @ [''.stage'']) None fs of Some fs \<Rightarrow> fs | None \<Rightarrow> fs)
                      in Some (st\<lparr>ap_fs := prune_backups age_days backups_root fs\<rparr>, TransferDone backups))
                 | r \<Rightarrow> r)))"

end
