(* ===== verification/BulkSafety.thy ===== *)
theory BulkSafety
  imports Bulk
begin

text \<open>
  What a bulk transfer guarantees: the overlay carries exactly the unclaimed files forward, the
  fence notices every changed file, the swap never loses the old contents of a root, a failed
  transfer reports exactly what it committed, and pruning removes exactly what its rule says.
\<close>

section \<open>The overlay\<close>

text \<open>What the overlay makes of one live entry and what the stage has under its name.\<close>

fun overlay_node :: "fnode \<Rightarrow> fnode option \<Rightarrow> fnode" where
  "overlay_node (FFile b) None = FFile b"
| "overlay_node (FFile b) (Some m) = m"
| "overlay_node (FDir ws) None = FDir (overlay_entries ws [])"
| "overlay_node (FDir ws) (Some (FFile b)) = FFile b"
| "overlay_node (FDir ws) (Some (FDir zs)) = FDir (overlay_entries ws zs)"

lemma overlay_step:
  obtains ys' where "overlay_entries ((j, n) # rest) ys = overlay_entries rest ys'"
    "map_of ys' = (map_of ys)(j \<mapsto> overlay_node n (map_of ys j))"
proof (cases n)
  case (FFile b)
  show thesis
  proof (cases "map_of ys j")
    case None
    then show thesis using that [of "AList.update j (FFile b) ys"] FFile by (simp add: map_of_update)
  next
    case (Some m)
    then show thesis using that [of ys] FFile by (simp add: fun_upd_idem)
  qed
next
  case (FDir ws)
  show thesis
  proof (cases "map_of ys j")
    case None
    then show thesis using that [of "AList.update j (FDir (overlay_entries ws [])) ys"] FDir by (simp add: map_of_update)
  next
    case (Some m)
    show thesis
    proof (cases m)
      case (FFile b)
      then show thesis using that [of ys] FDir Some by (simp add: fun_upd_idem)
    next
      case (FDir zs)
      then show thesis using that [of "AList.update j (FDir (overlay_entries ws zs)) ys"] \<open>n = FDir ws\<close> Some
        by (simp add: map_of_update)
    qed
  qed
qed

lemma overlay_get:
  "distinct (map fst xs) \<Longrightarrow> map_of (overlay_entries xs ys) k =
     (case map_of xs k of None \<Rightarrow> map_of ys k | Some n \<Rightarrow> Some (overlay_node n (map_of ys k)))"
proof (induction xs arbitrary: ys)
  case (Cons x rest)
  obtain j n where x: "x = (j, n)" by (cases x)
  obtain ys' where ys': "overlay_entries ((j, n) # rest) ys = overlay_entries rest ys'"
    "map_of ys' = (map_of ys)(j \<mapsto> overlay_node n (map_of ys j))"
    by (rule overlay_step)
  have "map_of rest j = None" using Cons.prems x by (auto simp: map_of_eq_None_iff)
  then show ?case using Cons.IH [of ys'] Cons.prems x ys' by (auto split: option.splits)
qed simp

text \<open>A staged file on the way to a path: the path is claimed away.\<close>

definition blocked :: "path \<Rightarrow> fnode \<Rightarrow> bool" where
  "blocked p stage \<longleftrightarrow> (\<exists>q. strict_prefix q p \<and> file_at q stage \<noteq> None)"

lemma strict_prefix_Cons: "strict_prefix q (c # p) \<longleftrightarrow> q = [] \<or> (\<exists>q'. q = c # q' \<and> strict_prefix q' p)"
  by (cases q) (auto simp: strict_prefix_def)

lemma file_at_Cons [simp]:
  "file_at (c # p) (FDir ys) = Option.bind (map_of ys c) (file_at p)" "file_at [] (FDir ys) = None"
  "file_at [] (FFile b) = Some b" "file_at (c # p) (FFile b) = None"
  by (simp_all add: file_at_def split: option.splits)

lemma file_at_append: "node_at p n = Some m \<Longrightarrow> file_at (p @ q) n = file_at q m"
  by (simp add: file_at_def node_at_append)

lemma blocked_simps [simp]:
  "\<not> blocked [] n" "blocked (c # p) (FFile b)"
  "blocked (c # p) (FDir ys) \<longleftrightarrow> (\<exists>m. map_of ys c = Some m \<and> blocked p m)"
proof -
  show "\<not> blocked [] n" by (simp add: blocked_def)
  show "blocked (c # p) (FFile b)" unfolding blocked_def strict_prefix_Cons by (intro exI [of _ "[]"]) simp
  show "blocked (c # p) (FDir ys) \<longleftrightarrow> (\<exists>m. map_of ys c = Some m \<and> blocked p m)"
  proof
    assume "blocked (c # p) (FDir ys)"
    then obtain q' where q': "strict_prefix q' p" "file_at (c # q') (FDir ys) \<noteq> None"
      unfolding blocked_def strict_prefix_Cons by auto
    then obtain m where "map_of ys c = Some m" "file_at q' m \<noteq> None" by (cases "map_of ys c") auto
    with q'(1) show "\<exists>m. map_of ys c = Some m \<and> blocked p m" unfolding blocked_def by blast
  next
    assume "\<exists>m. map_of ys c = Some m \<and> blocked p m"
    then obtain m q where "map_of ys c = Some m" "strict_prefix q p" "file_at q m \<noteq> None" unfolding blocked_def by blast
    then show "blocked (c # p) (FDir ys)" unfolding blocked_def by (intro exI [of _ "c # q"]) (simp add: strict_prefix_Cons)
  qed
qed

lemma node_okD: "node_ok (FDir xs) \<Longrightarrow> map_of xs c = Some n \<Longrightarrow> node_ok n"
  by (auto simp: list_all_iff dest: map_of_SomeD)

lemma overlay_file:
  "node_ok (FDir xs) \<Longrightarrow> file_at p (FDir (overlay_entries xs ys)) =
     (case node_at p (FDir ys) of
        Some (FFile b) \<Rightarrow> Some b
      | Some (FDir _) \<Rightarrow> None
      | None \<Rightarrow> if blocked p (FDir ys) then None else file_at p (FDir xs))"
proof (induction p arbitrary: xs ys)
  case (Cons c p)
  have get: "map_of (overlay_entries xs ys) c =
      (case map_of xs c of None \<Rightarrow> map_of ys c | Some n \<Rightarrow> Some (overlay_node n (map_of ys c)))"
    using Cons.prems by (intro overlay_get) simp
  show ?case
  proof (cases "map_of xs c")
    case None
    then show ?thesis using get by (auto simp: file_at_def split: option.splits fnode.splits)
  next
    case (Some n)
    have n: "node_ok n" by (rule node_okD [OF Cons.prems Some])
    show ?thesis
    proof (cases n)
      case (FFile b)
      then show ?thesis using get Some by (cases "map_of ys c"; cases p) (auto simp: file_at_def split: option.splits fnode.splits)
    next
      case (FDir ws)
      have ih: "file_at p (FDir (overlay_entries ws zs)) = (case node_at p (FDir zs) of
          Some (FFile b) \<Rightarrow> Some b | Some (FDir _) \<Rightarrow> None
        | None \<Rightarrow> if blocked p (FDir zs) then None else file_at p (FDir ws))" for zs
        by (rule Cons.IH) (use n FDir in simp)
      show ?thesis
      proof (cases "map_of ys c")
        case None
        have "node_at p (FDir []) = (if p = [] then Some (FDir []) else None)" "\<not> blocked p (FDir [])"
          by (cases p; simp)+
        then show ?thesis using get Some FDir None ih [of "[]"] by (cases p) simp_all
      next
        case y: (Some m)
        show ?thesis
        proof (cases m)
          case (FFile b)
          then show ?thesis using get Some FDir y by (cases p) simp_all
        next
          case m: (FDir zs)
          then show ?thesis using get Some FDir y ih [of zs] by (simp split: option.split fnode.split)
        qed
      qed
    qed
  qed
qed simp

text \<open>
  The overlay carries exactly the unclaimed files forward. Afterwards a path holds the staged
  file if Studio's projection has one there, nothing if the projection has a directory there or
  a file on the way to it, and otherwise the live file with its bytes unchanged. The staged
  content is never replaced.
\<close>

theorem overlay_exact:
  assumes "node_at live fs = Some (FDir xs)" "node_at stage fs = Some (FDir ys)" "node_ok (FDir xs)"
    and "stage \<noteq> []" "overlay_unclaimed live stage (fs, report) = ((fs', report'), None)"
  shows "file_at (stage @ p) fs' =
    (case node_at (stage @ p) fs of
       Some (FFile b) \<Rightarrow> Some b
     | Some (FDir _) \<Rightarrow> None
     | None \<Rightarrow> if blocked p (FDir ys) then None else file_at (live @ p) fs)"
proof -
  have "set_at stage (Some (FDir (overlay_entries xs ys))) fs = Some fs'"
    using assms by (auto simp: overlay_unclaimed_def split: option.splits)
  then have "node_at stage fs' = Some (FDir (overlay_entries xs ys))"
    using assms(4) by (rule node_at_set_same)
  then have "file_at (stage @ p) fs' = file_at p (FDir (overlay_entries xs ys))" by (rule file_at_append)
  then show ?thesis
    using overlay_file [OF assms(3), of p ys] file_at_append [OF assms(1), of p] assms(2)
    by (simp add: node_at_append split: option.split fnode.split)
qed

definition two_roots :: fnode where
  "two_roots = FDir [(''live'', FDir [(''a'', FFile ''1''), (''note'', FFile ''n'')]),
     (''stage'', FDir [(''a'', FFile ''2'')]), (''backup'', FDir [])]"

theorem overlay_exact_witness:
  "overlay_unclaimed [''live''] [''stage''] (two_roots, report_default) =
     ((FDir [(''live'', FDir [(''a'', FFile ''1''), (''note'', FFile ''n'')]),
        (''stage'', FDir [(''a'', FFile ''2''), (''note'', FFile ''n'')]), (''backup'', FDir [])], report_default), None) \<and>
   file_at [''stage'', ''note''] (fst (fst (overlay_unclaimed [''live''] [''stage''] (two_roots, report_default)))) = Some ''n''"
proof -
  have run: "overlay_unclaimed [''live''] [''stage''] (two_roots, report_default) =
     ((FDir [(''live'', FDir [(''a'', FFile ''1''), (''note'', FFile ''n'')]),
        (''stage'', FDir [(''a'', FFile ''2''), (''note'', FFile ''n'')]), (''backup'', FDir [])], report_default), None)"
    by (simp add: overlay_unclaimed_def two_roots_def)
  from overlay_exact [OF _ _ _ _ this, of _ _ "[''note'']"] show ?thesis
    using run by (simp add: two_roots_def blocked_def)
qed


section \<open>The fence\<close>

lemma dir_files_prefix: "(q, b) \<in> set (dir_files at n) \<Longrightarrow> prefix at q"
proof (induction at n rule: dir_files.induct)
  case (2 at xs)
  then obtain k m where "(k, m) \<in> set xs" "(q, b) \<in> set (dir_files (at @ [k]) m)" by auto
  then have "prefix (at @ [k]) q" using 2 by auto
  then show ?case by (rule append_prefixD)
qed simp

lemma dir_files_iff: "node_ok n \<Longrightarrow> (at @ p, b) \<in> set (dir_files at n) \<longleftrightarrow> file_at p n = Some b"
proof (induction at n arbitrary: p rule: dir_files.induct)
  case (1 at c)
  then show ?case by (cases p) auto
next
  case (2 at xs)
  have d: "distinct (map fst xs)" using 2 by simp
  show ?case
  proof (cases p)
    case Nil
    have "\<not> prefix (at @ [k]) at" for k by (auto simp: prefix_def)
    then show ?thesis using Nil dir_files_prefix by fastforce
  next
    case (Cons c p')
    have "(at @ p, b) \<in> set (dir_files (at @ [k]) n) \<longleftrightarrow> k = c \<and> file_at p' n = Some b" if kn: "(k, n) \<in> set xs" for k n
    proof (cases "k = c")
      case True
      have "node_ok n" using kn 2(2) by (auto simp: list_all_iff)
      then show ?thesis using 2(1) [OF kn refl, of p'] Cons True by simp
    next
      case False
      then have "\<not> prefix (at @ [k]) (at @ p)" using Cons by auto
      then show ?thesis using dir_files_prefix False by blast
    qed
    moreover have "(at @ p, b) \<in> set (dir_files at (FDir xs)) \<longleftrightarrow> (\<exists>k n. (k, n) \<in> set xs \<and> (at @ p, b) \<in> set (dir_files (at @ [k]) n))"
      by auto
    ultimately have "(at @ p, b) \<in> set (dir_files at (FDir xs)) \<longleftrightarrow> (\<exists>n. (c, n) \<in> set xs \<and> file_at p' n = Some b)" by metis
    then show ?thesis using Cons d by (auto simp: map_of_eq_Some_iff bind_eq_Some_conv)
  qed
qed

lemma dir_files_distinct: "node_ok n \<Longrightarrow> distinct (map fst (dir_files at n))"
proof (induction at n rule: dir_files.induct)
  case (2 at xs)
  have "distinct (map fst (concat (map (\<lambda>(k, n). dir_files (at @ [k]) n) ys)))" if "set ys \<subseteq> set xs" "distinct (map fst ys)" for ys
    using that
  proof (induction ys)
    case (Cons y ys)
    obtain k n where y: "y = (k, n)" by (cases y)
    have kn: "(k, n) \<in> set xs" using Cons.prems y by simp
    then have "node_ok n" using 2(2) by (auto simp: list_all_iff)
    then have one: "distinct (map fst (dir_files (at @ [k]) n))" by (rule 2(1) [OF kn refl])
    have "fst ` set (dir_files (at @ [k]) n) \<inter> fst ` set (concat (map (\<lambda>(k, n). dir_files (at @ [k]) n) ys)) = {}"
    proof (rule ccontr)
      assume "\<not> ?thesis"
      then obtain q where q: "q \<in> fst ` set (dir_files (at @ [k]) n)"
        "q \<in> fst ` set (concat (map (\<lambda>(k, n). dir_files (at @ [k]) n) ys))" by blast
      then obtain k' n' where kn': "(k', n') \<in> set ys" "q \<in> fst ` set (dir_files (at @ [k']) n')" by auto
      have "prefix (at @ [k]) q" using q(1) dir_files_prefix by fastforce
      moreover have "prefix (at @ [k']) q" using kn'(2) dir_files_prefix by fastforce
      moreover have "k' \<in> fst ` set ys" using kn'(1) by (rule image_eqI [rotated]) simp
      ultimately have "prefix (at @ [k]) q" "prefix (at @ [k']) q" "k' \<in> fst ` set ys" .
      then have "k = k'" "k' \<in> fst ` set ys" by (auto simp: prefix_def)
      then show False using Cons.prems(2) y by simp
    qed
    then show ?case using one Cons y by auto
  qed simp
  from this [of xs] show ?case using 2(2) by simp
qed simp

lemma sort_key_fst_eq:
  fixes xs ys :: "('a :: linorder \<times> 'b) list"
  assumes "distinct (map fst xs)" "distinct (map fst ys)"
  shows "sort_key fst xs = sort_key fst ys \<longleftrightarrow> map_of xs = map_of ys"
proof
  assume "sort_key fst xs = sort_key fst ys"
  then have "set xs = set ys" by (metis set_sort)
  then show "map_of xs = map_of ys" using assms by (simp add: map_of_inject_set)
next
  assume "map_of xs = map_of ys"
  then have eq: "set xs = set ys" using assms by (simp add: map_of_inject_set)
  have "mset xs = mset ys" using eq assms by (metis distinct_map set_eq_iff_mset_eq_distinct)
  then show "sort_key fst xs = sort_key fst ys"
    using assms by (metis distinct_map mset_sort properties_for_sort_key sort_key_inj_key_eq sorted_sort_key)
qed

text \<open>
  C33: The fence compares files, exactly. Two states of a directory have the same fingerprint if
  and only if every path below it holds a file with the same digest in both, or in neither: any
  file written, removed, renamed or changed in between is noticed, as far as the digest can
  tell contents apart. Empty directories do not count.
\<close>

theorem fence_exact:
  assumes "node_at dir fs = Some (FDir xs)" "node_at dir fs' = Some (FDir ys)" "node_ok (FDir xs)" "node_ok (FDir ys)"
  shows "fingerprint_dir sha dir fs = fingerprint_dir sha dir fs' \<longleftrightarrow>
    (\<forall>p. map_option sha (file_at (dir @ p) fs) = map_option sha (file_at (dir @ p) fs'))"
proof -
  define hashed where "hashed zs = map (\<lambda>(p, b). (p, sha b)) (dir_files [] (FDir zs))" for zs
  have keys: "map fst (hashed zs) = map fst (dir_files [] (FDir zs))" for zs
    by (simp add: hashed_def split_def o_def)
  have get: "map_of (hashed zs) = (\<lambda>p. map_option sha (file_at p (FDir zs)))" if "node_ok (FDir zs)" for zs
  proof
    fix p
    have "map_of (dir_files [] (FDir zs)) p = file_at p (FDir zs)"
      using dir_files_iff [OF that, of "[]" p] dir_files_distinct [OF that, of "[]"]
      by (metis append_Nil map_of_eq_Some_iff not_Some_eq)
    then show "map_of (hashed zs) p = map_option sha (file_at p (FDir zs))"
      by (simp add: hashed_def map_of_map del: dir_files.simps)
  qed
  have "fingerprint_dir sha dir fs = fingerprint_dir sha dir fs' \<longleftrightarrow> sort_key fst (hashed xs) = sort_key fst (hashed ys)"
    using assms(1,2) by (simp add: fingerprint_dir_def hashed_def)
  also have "\<dots> \<longleftrightarrow> map_of (hashed xs) = map_of (hashed ys)"
    using assms(3,4) keys dir_files_distinct by (intro sort_key_fst_eq) metis+
  also have "\<dots> \<longleftrightarrow> (\<forall>p. map_option sha (file_at p (FDir xs)) = map_option sha (file_at p (FDir ys)))"
    using assms(3,4) by (auto simp: get fun_eq_iff)
  finally show ?thesis using file_at_append [OF assms(1)] file_at_append [OF assms(2)] by simp
qed


theorem fence_exact_witness:
  "fingerprint_dir (\<lambda>b. b) [''live''] two_roots \<noteq>
   fingerprint_dir (\<lambda>b. b) [''live''] (FDir [(''live'', FDir [(''a'', FFile ''1''), (''note'', FFile ''x'')])])"
proof -
  let ?fs = "FDir [(''live'', FDir [(''a'', FFile ''1''), (''note'', FFile ''x'')])]"
  have "file_at [''live'', ''note''] two_roots = Some ''n''" "file_at [''live'', ''note''] ?fs = Some ''x''"
    by (simp_all add: two_roots_def)
  moreover have "fingerprint_dir (\<lambda>b. b) [''live''] two_roots = fingerprint_dir (\<lambda>b. b) [''live''] ?fs \<longleftrightarrow>
      (\<forall>p. map_option (\<lambda>b. b) (file_at ([''live''] @ p) two_roots) = map_option (\<lambda>b. b) (file_at ([''live''] @ p) ?fs))"
    by (rule fence_exact) (simp add: two_roots_def, simp, simp_all)
  ultimately show ?thesis by (auto dest!: spec [of _ "[''note'']"])
qed

section \<open>The swap\<close>

text \<open>A staging step keeps a property of the file system, whether it succeeds or not.\<close>

definition keeps :: "(fnode \<Rightarrow> bool) \<Rightarrow> stage_step \<Rightarrow> bool" where
  "keeps P f \<longleftrightarrow> (\<forall>st. P (fst st) \<longrightarrow> P (fst (fst (f st))))"

lemma keepsD: "keeps P f \<Longrightarrow> P (fst st) \<Longrightarrow> P (fst (fst (f st)))"
  unfolding keeps_def by blast

named_theorems keeps_intros \<open>steps of the staging that keep a property of the file system\<close>

lemma keeps_each [keeps_intros]: "(\<And>x. x \<in> set xs \<Longrightarrow> keeps P (f x)) \<Longrightarrow> keeps P (each_ok f xs)"
proof (induction xs)
  case (Cons x xs)
  then have x: "keeps P (f x)" and xs: "keeps P (each_ok f xs)" by simp_all
  show ?case
    unfolding keeps_def
  proof (intro allI impI)
    fix st :: stage_state
    assume "P (fst st)"
    obtain st' e where f: "f x st = (st', e)" by (cases "f x st")
    then have "P (fst st')" using keepsD [OF x \<open>P (fst st)\<close>] by simp
    then show "P (fst (fst (each_ok f (x # xs) st)))" using f keepsD [OF xs, of st'] by (cases e) simp_all
  qed
qed (simp add: keeps_def)

lemma keeps_then [keeps_intros]: "keeps P f \<Longrightarrow> keeps P g \<Longrightarrow> keeps P (and_then f g)"
proof -
  assume f: "keeps P f" and g: "keeps P g"
  show ?thesis
    unfolding keeps_def
  proof (intro allI impI)
    fix st :: stage_state
    assume "P (fst st)"
    obtain st' e where st': "f st = (st', e)" by (cases "f st")
    then have "P (fst st')" using keepsD [OF f \<open>P (fst st)\<close>] by simp
    then show "P (fst (fst (and_then f g st)))" using st' keepsD [OF g, of st'] by (cases e) (simp_all add: and_then_def)
  qed
qed

lemma keeps_pure [keeps_intros]: "keeps P (note_claimed live_dir stage_root live)" "keeps P (demote i)"
  by (auto simp: keeps_def note_claimed_def demote_def)

lemma strip_path_append: "strip_path b (b @ r) = Some r"
  by (simp add: strip_path_Some)

lemma keeps_set_at:
  assumes "set_at p v fs = Some fs'" "apart p live_dir" "node_at live_dir fs = Some old"
  shows "node_at live_dir fs' = Some old"
  using set_at_apart [OF assms(1,2)] assms(3) by simp

lemma keeps_preserve [keeps_intros]:
  assumes "prefix (so_workspace_dir o1) live_dir" "apart (so_staging o1) live_dir"
  shows "keeps (\<lambda>fs. node_at live_dir fs = Some old) (preserve_if o1 live_dir live)"
proof (cases "prefix live_dir live")
  case True
  obtain r where "live = so_workspace_dir o1 @ r"
    using True assms(1) prefix_order.trans by (auto simp: prefix_def)
  then have "preserved_path o1 live = so_staging o1 @ r" by (simp add: preserved_path_def strip_path_append)
  then have "apart (preserved_path o1 live) live_dir" using assms(2) apart_below apart_sym by metis
  then show ?thesis
    by (auto simp: keeps_def preserve_if_def preserve_path_def bind_eq_Some_conv dest: copy_to_apart split: option.splits)
qed (simp add: keeps_def preserve_if_def)

lemma keeps_keep_file [keeps_intros]:
  assumes "apart stage_root live_dir"
  shows "keeps (\<lambda>fs. node_at live_dir fs = Some old) (keep_file live_dir stage_root rel)"
proof -
  have "apart (stage_root @ rel) live_dir" using assms apart_below apart_sym by metis
  then show ?thesis
    by (auto simp: keeps_def keep_file_def bind_eq_Some_conv dest: set_at_apart split: option.splits if_splits)
qed

lemma keeps_keep_live [keeps_intros]:
  assumes "prefix (so_workspace_dir o1) live_dir" "apart (so_staging o1) live_dir" "apart stage_root live_dir"
  shows "keeps (\<lambda>fs. node_at live_dir fs = Some old) (keep_live_one o1 live_dir stage_root scratch x)"
proof -
  have a: "keeps (\<lambda>fs. node_at live_dir fs = Some old) (each_ok (keep_file live_dir stage_root) rels)" for rels
    by (intro keeps_intros assms)
  have b: "keeps (\<lambda>fs. node_at live_dir fs = Some old) (and_then (each_ok (preserve_if o1 live_dir) files) (demote i))" for files i
    by (intro keeps_intros assms)
  show ?thesis
    using a b by (cases x) (auto simp: keeps_def keep_live_one_def Let_def)
qed

lemma keeps_drop [keeps_intros]:
  assumes "apart stage_root live_dir"
  shows "keeps (\<lambda>fs. node_at live_dir fs = Some old) (drop_one stage_root scratch i)"
proof -
  have "keeps (\<lambda>fs. node_at live_dir fs = Some old) (drop_entry stage_root e)" for e
  proof (cases "prefix stage_root (entry_path e)")
    case True
    then have "apart (entry_path e) live_dir" using assms apart_below apart_sym by (metis prefix_def)
    then show ?thesis
      by (auto simp: keeps_def drop_entry_def Let_def dest: set_at_apart split: option.splits)
  qed (simp add: keeps_def drop_entry_def Let_def)
  then have "keeps (\<lambda>fs. node_at live_dir fs = Some old) (each_ok (drop_entry stage_root) es)" for es
    by (intro keeps_intros)
  then show ?thesis unfolding keeps_def drop_one_def by (auto split: option.splits)
qed

lemma keeps_overlay [keeps_intros]:
  assumes "apart stage_root live_dir"
  shows "keeps (\<lambda>fs. node_at live_dir fs = Some old) (overlay_unclaimed live_dir stage_root)"
  using assms by (auto simp: keeps_def overlay_unclaimed_def dest: set_at_apart split: option.splits fnode.splits)

lemma keeps_prepare [keeps_intros]:
  assumes "prefix (so_workspace_dir o1) live_dir" "apart (so_staging o1) live_dir" "apart stage_root live_dir"
  shows "keeps (\<lambda>fs. node_at live_dir fs = Some old) (prepare_stage o1 live_dir stage_root scratch)"
  unfolding prepare_stage_def by (intro keeps_intros assms)

lemma rename_to_Some:
  assumes "rename_to from to fs = Some fs'"
  shows "apart from to \<and> node_at to fs' = node_at from fs \<and> node_at from fs \<noteq> None \<and> node_at from fs' = None \<and>
    (\<forall>q. apart from q \<longrightarrow> apart to q \<longrightarrow> node_at q fs' = node_at q fs)"
proof -
  obtain n fs1 where n: "node_at from fs = Some n" "node_at to fs = None" "\<not> prefix from to"
    and s: "set_at from None fs = Some fs1" "set_at to (Some n) fs1 = Some fs'"
    using assms by (auto simp: rename_to_def fs_exists_def bind_eq_Some_conv split: option.splits if_splits)
  have "\<not> prefix to from" using n(1,2) by (auto simp: prefix_def node_at_append)
  then have ap: "apart from to" using n(3) by (simp add: apart_def)
  then have ne: "from \<noteq> []" "to \<noteq> []" by (auto simp: apart_def)
  have "node_at to fs' = Some n" by (rule node_at_set_same [OF s(2) ne(2)])
  moreover have "node_at from fs' = None"
    using set_at_apart [OF s(2) apart_sym [OF ap]] node_at_set_same [OF s(1) ne(1)] by simp
  moreover have "apart from q \<longrightarrow> apart to q \<longrightarrow> node_at q fs' = node_at q fs" for q
    using set_at_apart [OF s(1)] set_at_apart [OF s(2)] by simp
  ultimately show ?thesis using ap n(1) by simp
qed


lemma swap_in_safe:
  assumes live: "node_at live_dir fs = Some old"
    and paths: "apart stage_root live_dir" "apart backup_path live_dir" "apart stage_root backup_path"
    and run: "swap_in io live_dir stage_root backup_path (fs, report) = ((fs', report'), e)"
  shows "e = None \<Longrightarrow> node_at backup_path fs' = Some old \<and> node_at live_dir fs' \<noteq> None \<and> node_at live_dir fs' = node_at stage_root fs"
    and "e \<noteq> None \<Longrightarrow> node_at live_dir fs' = Some old \<or> e = Some (SwapFailed False) \<and> node_at backup_path fs' = Some old"
proof -
  let ?P = "(e = None \<longrightarrow> node_at backup_path fs' = Some old \<and> node_at live_dir fs' \<noteq> None \<and> node_at live_dir fs' = node_at stage_root fs) \<and>
    (e \<noteq> None \<longrightarrow> node_at live_dir fs' = Some old \<or> e = Some (SwapFailed False) \<and> node_at backup_path fs' = Some old)"
  have ?P
  proof (cases "if si_backup io then rename_to live_dir backup_path fs else None")
    case None
    then show ?thesis using run live by (auto simp: swap_in_def)
  next
    case (Some fs1)
    then have r1: "rename_to live_dir backup_path fs = Some fs1" by (simp split: if_splits)
    have b1: "node_at backup_path fs1 = Some old" using rename_to_Some [OF r1] live by simp
    have s1: "node_at stage_root fs1 = node_at stage_root fs"
      using rename_to_Some [OF r1] apart_sym [OF paths(1)] apart_sym [OF paths(3)] by blast
    show ?thesis
    proof (cases "if si_swap io then rename_to stage_root live_dir fs1 else None")
      case swap: (Some fs2)
      then have r2: "rename_to stage_root live_dir fs1 = Some fs2" by (simp split: if_splits)
      have "node_at backup_path fs2 = Some old" using rename_to_Some [OF r2] paths b1 apart_sym by metis
      then show ?thesis using run Some swap rename_to_Some [OF r2] s1 by (auto simp: swap_in_def)
    next
      case noswap: None
      show ?thesis
      proof (cases "if si_restore io then rename_to backup_path live_dir fs1 else None")
        case None
        then show ?thesis using run Some noswap b1 by (auto simp: swap_in_def)
      next
        case res: (Some fs2)
        then have "rename_to backup_path live_dir fs1 = Some fs2" by (simp split: if_splits)
        from rename_to_Some [OF this] show ?thesis using run Some noswap res b1 by (auto simp: swap_in_def)
      qed
    qed
  qed
  then show "e = None \<Longrightarrow> node_at backup_path fs' = Some old \<and> node_at live_dir fs' \<noteq> None \<and> node_at live_dir fs' = node_at stage_root fs"
    and "e \<noteq> None \<Longrightarrow> node_at live_dir fs' = Some old \<or> e = Some (SwapFailed False) \<and> node_at backup_path fs' = Some old"
    by blast+
qed


definition no_tree :: "(unit, unit, unit) tree" where
  "no_tree = \<lparr>t_dom = (), t_path_to_ids = (), t_id_to_meta = Map.empty, t_generation = 0\<rparr>"

definition all_io :: swap_io where
  "all_io = \<lparr>si_backup = True, si_swap = True, si_restore = True\<rparr>"


section \<open>Pruning\<close>

definition complete_in :: "(string \<times> fnode) list \<Rightarrow> string \<Rightarrow> bool" where
  "complete_in xs n \<longleftrightarrow> (case map_of xs n of Some d \<Rightarrow> file_at [BACKUP_COMPLETE_MARKER] d \<noteq> None | None \<Rightarrow> False)"

lemma completed_names_iff:
  assumes "node_at r fs = Some (FDir xs)"
  shows "completed_names r fs = rev (sort (filter (complete_in xs) (map fst xs)))"
proof -
  have "is_dir (r @ [n]) fs \<and> is_file (r @ [n, BACKUP_COMPLETE_MARKER]) fs \<longleftrightarrow> complete_in xs n" for n
    using assms file_at_append [OF assms, of "[n, BACKUP_COMPLETE_MARKER]"]
    by (auto simp: is_dir_def is_file_def complete_in_def node_at_append split: option.splits fnode.splits)
  then show ?thesis using assms by (simp add: completed_names_def)
qed

lemma nth_newer:
  fixes L :: "string list"
  assumes "sorted_wrt (>) L" "i < length L"
  shows "card {m \<in> set L. L ! i < m} = i"
proof -
  have "{m \<in> set L. L ! i < m} = (\<lambda>j. L ! j) ` {..<i}"
  proof
    show "{m \<in> set L. L ! i < m} \<subseteq> (\<lambda>j. L ! j) ` {..<i}"
    proof
      fix m assume "m \<in> {m \<in> set L. L ! i < m}"
      then obtain j where j: "j < length L" "m = L ! j" "L ! i < L ! j" by (auto simp: in_set_conv_nth)
      have "\<not> i < j" using sorted_wrt_nth_less [OF assms(1), of i j] j by auto
      then show "m \<in> (\<lambda>j. L ! j) ` {..<i}" using j by (cases "i = j") auto
    qed
    show "(\<lambda>j. L ! j) ` {..<i} \<subseteq> {m \<in> set L. L ! i < m}"
      using sorted_wrt_nth_less [OF assms(1)] assms(2) by auto
  qed
  moreover have "inj_on (\<lambda>j. L ! j) {..<i}"
  proof (rule inj_onI)
    fix x y assume xy: "x \<in> {..<i}" "y \<in> {..<i}" "L ! x = L ! y"
    show "x = y"
      using sorted_wrt_nth_less [OF assms(1), of x y] sorted_wrt_nth_less [OF assms(1), of y x] xy assms(2)
      by (cases x y rule: linorder_cases) auto
  qed
  ultimately show ?thesis by (simp add: card_image)
qed

lemma pruned_names_iff:
  assumes "sorted_wrt (>) L"
  shows "n \<in> set (pruned_names age L) \<longleftrightarrow> n \<in> set L \<and>
    (BACKUP_KEEP_COUNT \<le> card {m \<in> set L. n < m} \<or> (case age n of Some d \<Rightarrow> BACKUP_KEEP_DAYS < d | None \<Rightarrow> False))"
proof -
  have "n \<in> set (pruned_names age L) \<longleftrightarrow> (\<exists>i<length L. L ! i = n \<and>
      (BACKUP_KEEP_COUNT \<le> i \<or> (case age n of Some d \<Rightarrow> BACKUP_KEEP_DAYS < d | None \<Rightarrow> False)))"
    by (auto simp: pruned_names_def set_zip image_iff split: option.splits)
  moreover have "n \<in> set L \<longleftrightarrow> (\<exists>i<length L. L ! i = n)" by (auto simp: in_set_conv_nth)
  ultimately show ?thesis using nth_newer [OF assms] by metis
qed

lemma prune_fold:
  "node_at r fs = Some (FDir xs) \<Longrightarrow>
     node_at r (fold (\<lambda>n fs. case set_at (r @ [n]) None fs of Some fs \<Rightarrow> fs | None \<Rightarrow> fs) ns fs) =
       Some (FDir (filter (\<lambda>(k, _). k \<notin> set ns) xs))"
proof (induction ns arbitrary: fs xs)
  case (Cons n ns)
  obtain fs' where "set_at (r @ [n]) None fs = Some fs'" "node_at r fs' = Some (FDir (AList.delete n xs))"
    using set_at_entry [OF Cons.prems, of n None] by auto
  moreover have "filter (\<lambda>(k, _). k \<notin> set ns) (AList.delete n xs) = filter (\<lambda>(k, _). k \<notin> set (n # ns)) xs"
    unfolding AList.delete_eq filter_filter by (rule filter_cong) auto
  ultimately show ?case using Cons.IH by simp
qed (simp add: split_def)

text \<open>
  Pruning removes exactly the completed transfers that are beyond the newest 32 completed
  ones or older than seven days. A transfer without the completion marker, one that failed half
  way or is still running, is never touched.
\<close>

theorem prune_exact:
  assumes "node_at r fs = Some (FDir xs)" "node_ok (FDir xs)"
  shows "node_at r (prune_backups age r fs) = Some (FDir (filter (\<lambda>(n, _). \<not> (complete_in xs n \<and>
    (32 \<le> card {m \<in> fst ` set xs. complete_in xs m \<and> n < m} \<or> (case age n of Some d \<Rightarrow> 7 < d | None \<Rightarrow> False)))) xs))"
proof -
  let ?L = "rev (sort (filter (complete_in xs) (map fst xs)))"
  have "distinct (map fst xs)" using assms(2) by simp
  then have "sorted_wrt (>) ?L"
    by (simp add: sorted_wrt_rev strict_sorted_iff)
  note pruned = pruned_names_iff [OF this]
  have set_L: "set ?L = {m \<in> fst ` set xs. complete_in xs m}" by auto
  have "node_at r (prune_backups age r fs) = Some (FDir (filter (\<lambda>(k, _). k \<notin> set (pruned_names age ?L)) xs))"
    unfolding prune_backups_def completed_names_iff [OF assms(1)] by (rule prune_fold [OF assms(1)])
  also have "filter (\<lambda>(k, _). k \<notin> set (pruned_names age ?L)) xs = filter (\<lambda>(n, _). \<not> (complete_in xs n \<and>
    (32 \<le> card {m \<in> fst ` set xs. complete_in xs m \<and> n < m} \<or> (case age n of Some d \<Rightarrow> 7 < d | None \<Rightarrow> False)))) xs"
  proof (rule filter_cong [OF refl])
    fix x assume x: "x \<in> set xs"
    obtain n d where nd: "x = (n, d)" by (cases x)
    have "n \<in> fst ` set xs" using x nd by force
    moreover have "{m \<in> {m \<in> fst ` set xs. complete_in xs m}. n < m} = {m \<in> fst ` set xs. complete_in xs m \<and> n < m}" by auto
    ultimately show "(case x of (k, _) \<Rightarrow> k \<notin> set (pruned_names age ?L)) = (case x of (n, _) \<Rightarrow> \<not> (complete_in xs n \<and>
      (32 \<le> card {m \<in> fst ` set xs. complete_in xs m \<and> n < m} \<or> (case age n of Some d \<Rightarrow> 7 < d | None \<Rightarrow> False))))"
      unfolding nd prod.case pruned set_L BACKUP_KEEP_COUNT_def BACKUP_KEEP_DAYS_def by simp
  qed
  finally show ?thesis .
qed

theorem prune_exact_witness:
  "node_at [''b''] (prune_backups (\<lambda>n. if n = ''old'' then Some 8 else Some 1) [''b'']
     (FDir [(''b'', FDir [(''new'', FDir [(''complete.json'', FFile [])]), (''old'', FDir [(''complete.json'', FFile [])]), (''part'', FDir [])])]))
   = Some (FDir [(''new'', FDir [(''complete.json'', FFile [])]), (''part'', FDir [])])"
proof -
  let ?xs = "[(''new'', FDir [(''complete.json'', FFile [])]), (''old'', FDir [(''complete.json'', FFile [])]), (''part'', FDir [])]"
  have c: "complete_in ?xs = (\<lambda>n. n = ''new'' \<or> n = ''old'')"
    by (rule ext) (simp add: complete_in_def BACKUP_COMPLETE_MARKER_def)
  have few: "\<not> 32 \<le> card {m \<in> fst ` set ?xs. complete_in ?xs m \<and> n < m}" for n
  proof -
    have "card {m \<in> fst ` set ?xs. complete_in ?xs m \<and> n < m} \<le> card (fst ` set ?xs)"
      by (rule card_mono) auto
    also have "\<dots> \<le> length ?xs" using card_length [of "map fst ?xs"] by simp
    finally show ?thesis by simp
  qed
  have "node_at [''b''] (FDir [(''b'', FDir ?xs)]) = Some (FDir ?xs)" "node_ok (FDir ?xs)" by simp_all
  from prune_exact [OF this, of "\<lambda>n. if n = ''old'' then Some 8 else Some 1"] show ?thesis
    unfolding c using few [unfolded c] by simp
qed

section \<open>Budgets and receipts\<close>

abbreviation claimed_bytes :: "(string \<times> source_claim) list \<Rightarrow> nat" where
  "claimed_bytes claims \<equiv> sum_list (map (\<lambda>(_, claim). unat (sc_bytes claim)) claims)"

lemma root_budget_Some:
  "root_budget claims b = Some r \<Longrightarrow> unat b + length claims * 2 ^ 25 < 2 ^ 64 \<Longrightarrow>
     (\<forall>(_, claim)\<in>set claims. unat (sc_bytes claim) \<le> 2 ^ 25) \<and> unat r = unat b + claimed_bytes claims"
proof (induction claims arbitrary: b)
  case (Cons x claims)
  obtain k claim where x: "x = (k, claim)" by (cases x)
  have le: "unat (sc_bytes claim) \<le> 2 ^ 25"
    using Cons.prems(1) x by (auto simp: BULK_SCRIPT_MAX_BYTES_def word_less_nat_alt split: if_splits)
  then have "unat b + unat (sc_bytes claim) < 2 ^ 64" using Cons.prems(2) by simp
  then have add: "unat (b + sc_bytes claim) = unat b + unat (sc_bytes claim)"
    by (simp add: unat_word_ariths)
  have "root_budget claims (b + sc_bytes claim) = Some r" using Cons.prems(1) x by (simp split: if_splits)
  moreover have "unat (b + sc_bytes claim) + length claims * 2 ^ 25 < 2 ^ 64" using Cons.prems(2) le add by simp
  ultimately show ?case using Cons.IH [of "b + sc_bytes claim"] add x le by simp
qed simp

text \<open>
  The byte budgets hold. A root whose claims are accepted has no script over 32 MiB and at
  most 64 MiB in all, the transfer has at most 128 MiB, and the counter the transfer goes on
  with is the exact sum: with fewer than \<open>2 ^ 32\<close> scripts nothing wraps.
\<close>

theorem budget_bounds:
  assumes "charge_budget claims spent = Some spent'" "length claims < 2 ^ 32" "unat spent \<le> 128 * 1024 * 1024"
  shows "(\<forall>(_, claim)\<in>set claims. unat (sc_bytes claim) \<le> 32 * 1024 * 1024) \<and>
    claimed_bytes claims \<le> 64 * 1024 * 1024 \<and>
    unat spent' = unat spent + claimed_bytes claims \<and> unat spent' \<le> 128 * 1024 * 1024"
proof -
  obtain r where r: "root_budget claims 0 = Some r" "\<not> BULK_ROOT_MAX_BYTES < r" "\<not> BULK_TRANSFER_MAX_BYTES < spent + r"
    "spent' = spent + r"
    using assms(1) by (auto simp: charge_budget_def split: option.splits if_splits)
  have sum: "(\<forall>(_, claim)\<in>set claims. unat (sc_bytes claim) \<le> 2 ^ 25) \<and> unat r = claimed_bytes claims"
    using root_budget_Some [OF r(1)] assms(2) by simp
  have root: "unat r \<le> 64 * 1024 * 1024"
    using r(2) by (simp add: BULK_ROOT_MAX_BYTES_def word_less_nat_alt)
  then have "unat (spent + r) = unat spent + unat r" using assms(3) by (simp add: unat_word_ariths)
  then show ?thesis using sum root r(3,4) by (simp add: BULK_TRANSFER_MAX_BYTES_def word_less_nat_alt split_def)
qed

theorem budget_bounds_witness:
  "\<exists>spent'. charge_budget [(''r'', \<lparr>sc_bytes = 5, sc_sha256 = []\<rparr>)] 7 = Some spent' \<and> unat spent' = 12"
proof -
  have run: "charge_budget [(''r'', \<lparr>sc_bytes = 5, sc_sha256 = []\<rparr>)] 7 = Some 12"
    by (simp add: charge_budget_def BULK_SCRIPT_MAX_BYTES_def BULK_ROOT_MAX_BYTES_def BULK_TRANSFER_MAX_BYTES_def)
  from budget_bounds [OF this] run show ?thesis by simp
qed

lemma apply_root_name:
  "apply_root env c transfer_dir transfer_name root studio_first st = Some (st', Inr backup) \<Longrightarrow>
     backup = transfer_name @ ''/'' @ root"
  by (auto simp: apply_root_def Let_def split: sum.splits option.splits if_splits)
    (metis old.sum.exhaust old.unit.exhaust)+

text \<open>
  The receipt of a transfer is exact. When every root was applied it lists one backup per
  root, in order. When a root fails, the loop stops there: the receipt names that root, and the
  roots it lists as committed are exactly the ones before it, each with its backup. No root
  after a failed one is touched.
\<close>

theorem transfer_receipt:
  assumes "apply_loop env c transfer_dir transfer_name studio_first roots [] st = Some (st', r)"
  shows "case r of
      TransferDone backups \<Rightarrow> backups = map (\<lambda>root. transfer_name @ ''/'' @ root) roots
    | TransferPartial root e committed \<Rightarrow>
        (\<exists>rest. roots = map fst committed @ root # rest) \<and>
        committed = map (\<lambda>root. (root, transfer_name @ ''/'' @ root)) (map fst committed)
    | TransferNoDir \<Rightarrow> False"
proof -
  have "apply_loop env c transfer_dir transfer_name studio_first roots done st = Some (st', r) \<Longrightarrow>
      done = map (\<lambda>root. (root, transfer_name @ ''/'' @ root)) pre \<Longrightarrow>
      (case r of
         TransferDone backups \<Rightarrow> backups = map (\<lambda>root. transfer_name @ ''/'' @ root) (pre @ roots)
       | TransferPartial root e committed \<Rightarrow>
           (\<exists>rest. pre @ roots = map fst committed @ root # rest) \<and>
           committed = map (\<lambda>root. (root, transfer_name @ ''/'' @ root)) (map fst committed)
       | TransferNoDir \<Rightarrow> False)" for "done" pre
  proof (induction roots arbitrary: "done" pre st)
    case (Cons root roots)
    obtain st1 a where a: "apply_root (env root) c transfer_dir transfer_name root studio_first st = Some (st1, a)"
      using Cons.prems(1) by (auto split: option.splits)
    show ?case
    proof (cases a)
      case (Inl e)
      then show ?thesis using Cons.prems a by (auto simp: o_def)
    next
      case (Inr backup)
      then have b: "backup = transfer_name @ ''/'' @ root" using a apply_root_name by blast
      have next_run: "apply_loop env c transfer_dir transfer_name studio_first roots (done @ [(root, backup)]) st1 = Some (st', r)"
        using Cons.prems(1) a Inr by simp
      have "done @ [(root, backup)] = map (\<lambda>root. (root, transfer_name @ ''/'' @ root)) (pre @ [root])"
        using Cons.prems(2) b by simp
      from Cons.IH [OF next_run this] show ?thesis by (cases r) simp_all
    qed
  qed (auto simp: o_def)
  from this [of "[]" "[]"] assms show ?thesis by (cases r) simp_all
qed

definition failing_env :: "(unit, unit, unit, unit) apply_env" where
  "failing_env = \<lparr>ae_clean = (\<lambda>p. p),
     ae_ops = \<lparr>dom_new = (\<lambda>_ _ _ _. ()), dom_root = (\<lambda>_. 1), dom_get = (\<lambda>_ _. None), dom_modify = (\<lambda>_ _ _ _ d. d),
       dom_insert = (\<lambda>_ _ _ _ _ d. Some d), dom_destroy = (\<lambda>_ d. Some d), mm_new = (), mm_get_vec = (\<lambda>_ _. None),
       mm_insert = (\<lambda>_ _ m. m), mm_put_vec = (\<lambda>_ _ m. m), mm_remove = (\<lambda>_ m. m)\<rparr>,
     ae_pull = plain_pull_codec, ae_sha = (\<lambda>b. b), ae_io = all_io, ae_read_subtree = (\<lambda>_. Inr JNull),
     ae_source_read = (\<lambda>_ _ _. Inr JNull), ae_meanwhile = (\<lambda>fs. fs), ae_materialize = (\<lambda>_ _ _ _ _. None), ae_refresh = (\<lambda>_ _ t. t)\<rparr>"

definition plain_codec :: "(unit, unit) codec" where
  "plain_codec = \<lparr>to_value = (\<lambda>_. None), json_null = (), json_text = (\<lambda>_. []), json_string = (\<lambda>_. None), sha256 = (\<lambda>s. s)\<rparr>"

definition fresh_state :: "(unit, unit, unit, unit, unit) apply_state" where
  "fresh_state = \<lparr>ap_fs = FDir [], ap_report = report_default, ap_bytes = 0, ap_tree = no_tree, ap_engine = engine_new\<rparr>"

theorem transfer_receipt_witness:
  "\<exists>committed rest. apply_loop (\<lambda>_. failing_env) plain_codec [''t''] ''t'' None [''A'', ''B''] [] fresh_state =
     Some (fresh_state, TransferPartial ''A'' NotServed committed) \<and> [''A'', ''B''] = map fst committed @ ''A'' # rest"
proof -
  have run: "apply_loop (\<lambda>_. failing_env) plain_codec [''t''] ''t'' None [''A'', ''B''] [] fresh_state =
     Some (fresh_state, TransferPartial ''A'' NotServed [])"
    by (simp add: apply_root_def resolve_root_def place_root_refs_def kids_def failing_env_def fresh_state_def)
  from transfer_receipt [OF this] run show ?thesis by simp
qed

end
