(* ===== verification/Divergence.thy ===== *)
theory Divergence
  imports Bulk BaseTree ThreeWay CrashGuard
begin

text \<open>
  The connect (\<^verbatim>\<open>src/server/divergence.rs\<close>): the chunked upload of a comparison, the frozen set
  of differences and the decision of each against the sync base. The commit that carries the
  decision out is in \<open>Connect\<close>, the choice endpoints are in \<open>Choice\<close>.

  A request arrives decoded. The divergence lock covers a chunk; the commit runs after it.
  Responses are constructors; their wording is not modelled. Walks over the tree are \<open>None\<close>
  when they do not end.
\<close>

section \<open>Data\<close>

datatype entry_change = EcAdd | EcUpdate | EcRemove

definition change_parse :: "string \<Rightarrow> entry_change option" where
  "change_parse s = (if s = ''add'' then Some EcAdd else if s = ''update'' then Some EcUpdate
     else if s = ''remove'' then Some EcRemove else None)"

definition ONLY_ON_DISK :: string where "ONLY_ON_DISK = ''only-on-disk''"
definition DIFFERS :: string where "DIFFERS = ''differs''"
definition MISSING_ON_DISK :: string where "MISSING_ON_DISK = ''missing-on-disk''"

definition change_state :: "entry_change \<Rightarrow> string" where
  "change_state c = (case c of EcAdd \<Rightarrow> ONLY_ON_DISK | EcUpdate \<Rightarrow> DIFFERS | EcRemove \<Rightarrow> MISSING_ON_DISK)"

record studio_side =
  ss_key :: "key option"
  ss_descendants :: "key option omap option"

record dv_entry =
  de_instance :: dref
  de_change :: entry_change
  de_class :: string
  de_instance_path :: string
  de_studio :: studio_side

record dv_item =
  it_id :: u32
  it_instance :: dref
  it_path :: "string option"
  it_instance_path :: string
  it_state :: string
  it_class :: string
  it_studio :: studio_side

definition three_way_state :: "dv_item \<Rightarrow> diff_state" where
  "three_way_state it = (if it_state it = ONLY_ON_DISK then OnlyOnDisk
     else if it_state it = DIFFERS then Differs else MissingOnDisk)"

definition item_root :: "dv_item \<Rightarrow> string option" where
  "item_root it = (let r = hd (split_slash (it_instance_path it)) in if r = [] then None else Some r)"

record dv_stats =
  st_total :: nat
  st_studio_count :: nat
  st_disk_count :: nat
  st_only_on_disk :: nat
  st_differs :: nat
  st_missing_on_disk :: nat

record upload =
  up_submission_id :: string
  up_next_chunk :: u64
  up_entries :: "dv_entry list"
  up_place :: "place option"

record selection =
  sl_submission_id :: string
  sl_next_chunk :: u64
  sl_ids :: "u32 set"
  sl_committed :: bool

record divergence_set =
  dvs_choice_id :: string
  dvs_items :: "dv_item list"
  dvs_stats :: dv_stats
  dvs_selection :: "selection option"

record divergence =
  dv_upload :: "upload option"
  dv_set :: "divergence_set option"

text \<open>The short circuit of \<open>||\<close>: when an upload was in progress, the set is not taken.\<close>

definition invalidate :: "divergence \<Rightarrow> divergence" where
  "invalidate d = (if dv_upload d \<noteq> None then d\<lparr>dv_upload := None\<rparr> else d\<lparr>dv_set := None\<rparr>)"

section \<open>The upload\<close>

definition COMPARE_CHUNK_MAX_ENTRIES :: nat where "COMPARE_CHUNK_MAX_ENTRIES = 512"
definition COMPARE_BODY_MAX_BYTES :: nat where "COMPARE_BODY_MAX_BYTES = 512 * 1024"

record compare_descendant =
  cd_path :: string
  cd_class :: string
  cd_source_sha256 :: "string option"

record compare_entry =
  cy_instance :: string
  cy_change :: string
  cy_class :: string
  cy_instance_path :: string
  cy_source_sha256 :: "string option"
  cy_descendants :: "compare_descendant list option"
  cy_descendants_truncated :: bool

record compare_request =
  cq_submission_id :: string
  cq_chunk_index :: u64
  cq_final_chunk :: bool
  cq_restart :: bool
  cq_place :: "place option"
  cq_entries :: "compare_entry list"

definition compare_studio :: "scope \<Rightarrow> entry_change \<Rightarrow> compare_entry \<Rightarrow> studio_side" where
  "compare_studio scope change e =
     (if change = EcAdd then \<lparr>ss_key = None, ss_descendants = None\<rparr>
      else \<lparr>ss_key = key_from_studio (cy_class e) (cy_source_sha256 e),
        ss_descendants = (case cy_descendants e of
            Some ds \<Rightarrow> if change = EcRemove \<and> \<not> cy_descendants_truncated e
              then Some (fold (\<lambda>d. om_insert (cd_path d) (key_from_studio (cd_class d) (cd_source_sha256 d)))
                     (filter (\<lambda>d. allows_class scope (cd_class d)) ds) [])
              else None
          | None \<Rightarrow> None)\<rparr>)"

datatype dv_error =
    BodyTooLarge | MalformedRequest | TooManyEntries
  | BadEntryRef nat | BadEntryChange nat
  | NoUpload | OtherSubmission | ReceiptMismatch u64 u64
  | NoPendingSet | StaleChoice | TooManyIds | IdOutOfRange u32
  | NoSelection | SelectionCommitted | OtherSelection
  | BadChoice | Resolved | SelectionInProgress
  | IdRequired | NoSuchRow | NotScript

fun compare_entries ::
  "(string \<Rightarrow> dref option) \<Rightarrow> scope \<Rightarrow> nat \<Rightarrow> compare_entry list \<Rightarrow> dv_error + dv_entry list" where
  "compare_entries from_str scope index [] = Inr []"
| "compare_entries from_str scope index (e # es) =
     (case parse_ref from_str (cy_instance e) of
        None \<Rightarrow> Inl (BadEntryRef index)
      | Some i \<Rightarrow>
          (case change_parse (cy_change e) of
             None \<Rightarrow> Inl (BadEntryChange index)
           | Some change \<Rightarrow>
               (case compare_entries from_str scope (Suc index) es of
                  Inl err \<Rightarrow> Inl err
                | Inr rest \<Rightarrow>
                    Inr (if allows_class scope (cy_class e)
                      then \<lparr>de_instance = i, de_change = change, de_class = cy_class e,
                             de_instance_path = cy_instance_path e, de_studio = compare_studio scope change e\<rparr> # rest
                      else rest))))"

text \<open>The receipt machine: the upload a chunk continues or begins, or the conflict.\<close>

definition receive_chunk :: "compare_request \<Rightarrow> upload option \<Rightarrow> dv_error + upload \<times> bool" where
  "receive_chunk rq up =
     (case up of
        None \<Rightarrow>
          if cq_chunk_index rq \<noteq> 0 then Inl NoUpload
          else Inr (\<lparr>up_submission_id = cq_submission_id rq, up_next_chunk = 0, up_entries = [], up_place = cq_place rq\<rparr>, True)
      | Some u \<Rightarrow>
          if up_submission_id u \<noteq> cq_submission_id rq then Inl OtherSubmission
          else if cq_chunk_index rq \<noteq> up_next_chunk u then Inl (ReceiptMismatch (up_next_chunk u) (cq_chunk_index rq))
          else Inr (u, False))"

definition extend_upload :: "compare_request \<Rightarrow> dv_entry list \<Rightarrow> upload \<Rightarrow> upload" where
  "extend_upload rq entries u = u\<lparr>up_entries := up_entries u @ entries, up_next_chunk := up_next_chunk u + 1,
     up_place := (case up_place u of Some p \<Rightarrow> Some p | None \<Rightarrow> cq_place rq)\<rparr>"

section \<open>The connect's world\<close>

record ('d, 'm, 'v, 'j) connect_env =
  cx_ops :: "('d, 'm, 'v) tree_ops"
  cx_codec :: "('v, 'j) codec"
  cx_base :: base_codec
  cx_content_of :: "string \<Rightarrow> 'v variant"
  cx_show_path :: "path \<Rightarrow> string"
  cx_sha :: "string \<Rightarrow> content_hash"
  cx_from_str :: "string \<Rightarrow> dref option"
  cx_workspace_dir :: path
  cx_scope :: scope
  cx_written :: bool
  cx_now :: u64

record ('d, 'm, 'u, 'v, 'j, 't) connect_state =
  cn_divergence :: divergence
  cn_base :: sync_base
  cn_tree :: "('d, 'm, 'u) tree"
  cn_engine :: "('v, 'j) engine_state"
  cn_backlog :: backlog
  cn_fs :: fnode
  cn_guard :: guard
  cn_guard_disk :: "'t guard_disk"

definition seed_all_baselines ::
  "('d, 'm, 'v, 'j) connect_env \<Rightarrow> ('d, 'm, 'u, 'v, 'j, 't) connect_state \<Rightarrow> ('d, 'm, 'u, 'v, 'j, 't) connect_state option" where
  "seed_all_baselines env st =
     map_option (\<lambda>ids. st\<lparr>cn_engine := stamp_all (cx_codec env) (cx_ops env) (cn_tree st) ids (cn_engine st)\<rparr>)
       (subtree_refs (cx_ops env) (cn_tree st) (root_ref (cx_ops env) (cn_tree st)))"

definition commit_sync_base ::
  "('d, 'm, 'v, 'j) connect_env \<Rightarrow> dref set \<Rightarrow> oset \<Rightarrow> bool \<Rightarrow> ('d, 'm, 'u, 'v, 'j, 't) connect_state
   \<Rightarrow> ('d, 'm, 'u, 'v, 'j, 't) connect_state option" where
  "commit_sync_base env hold held_paths settle st =
     map_option (\<lambda>sn. st\<lparr>cn_base := commit (cx_base env) (cx_written env) (cx_now env)
         (sn\<lparr>sn_held := fold os_insert held_paths (sn_held sn)\<rparr>) (t_generation (cn_tree st)) settle (cn_base st)\<rparr>)
       (snapshot_tree (cx_base env) (cx_ops env) (cn_tree st) hold)"

definition freeze_item :: "('d, 'm, 'v, 'j) connect_env \<Rightarrow> ('d, 'm, 'u) tree \<Rightarrow> nat \<Rightarrow> dv_entry \<Rightarrow> dv_item" where
  "freeze_item env t index e =
     \<lparr>it_id = of_nat index, it_instance = de_instance e,
      it_path = relative_path (cx_show_path env) t (de_instance e) (cx_workspace_dir env),
      it_instance_path = de_instance_path e, it_state = change_state (de_change e), it_class = de_class e,
      it_studio = de_studio e\<rparr>"

definition freeze ::
  "('d, 'm, 'v, 'j) connect_env \<Rightarrow> ('d, 'm, 'u) tree \<Rightarrow> dv_entry list \<Rightarrow> dv_item list \<times> dv_stats" where
  "freeze env t entries =
     (let items = map (\<lambda>(i, e). freeze_item env t i e) (zip [0..<length entries] entries);
          adds = length (filter (\<lambda>e. de_change e = EcAdd) entries);
          differs = length (filter (\<lambda>e. de_change e = EcUpdate) entries);
          missing = length (filter (\<lambda>e. de_change e = EcRemove) entries)
      in (items, \<lparr>st_total = length items, st_studio_count = differs + missing, st_disk_count = differs + adds,
            st_only_on_disk = adds, st_differs = differs, st_missing_on_disk = missing\<rparr>))"

datatype dv_reply =
    Refused nat dv_error
  | ChunkAccepted u64 u64
  | CommittedClean u64 u64
  | SafeModeRefused u64 u64 nat "string option"
  | ApplyFailed u64 u64 transfer_result
  | Applied u64 u64 "string list" nat nat nat bool bool

datatype ingested =
    IngestDone dv_reply
  | StudioFirst "dv_item list" u64 u64 "place option"

definition ingest_chunk ::
  "('d, 'm, 'v, 'j) connect_env \<Rightarrow> compare_request \<Rightarrow> dv_entry list \<Rightarrow> ('d, 'm, 'u, 'v, 'j, 't) connect_state
   \<Rightarrow> (('d, 'm, 'u, 'v, 'j, 't) connect_state \<times> ingested) option" where
  "ingest_chunk env rq entries st =
     (let d = (if cq_restart rq then \<lparr>dv_upload = None, dv_set = None\<rparr> else cn_divergence st) in
      case receive_chunk rq (dv_upload d) of
        Inl err \<Rightarrow> Some (st\<lparr>cn_divergence := d\<rparr>, IngestDone (Refused 409 err))
      | Inr (u, begins) \<Rightarrow>
          (let base = (if begins then begin_compare (cq_place rq) (cn_base st) else cn_base st);
               u = extend_upload rq entries u; accepted = cq_chunk_index rq; next = up_next_chunk u
           in if \<not> cq_final_chunk rq
              then Some (st\<lparr>cn_divergence := d\<lparr>dv_upload := Some u\<rparr>, cn_base := base\<rparr>, IngestDone (ChunkAccepted accepted next))
              else
                (let st = st\<lparr>cn_divergence := d\<lparr>dv_upload := None\<rparr>, cn_base := base\<rparr> in
                 if up_entries u = []
                 then Option.bind (seed_all_baselines env st) (\<lambda>st.
                   map_option (\<lambda>st. (st, IngestDone (CommittedClean accepted next)))
                     (commit_sync_base env {} [] False st))
                 else Some (st, StudioFirst (fst (freeze env (cn_tree st) (up_entries u))) accepted next (up_place u)))))"

text \<open>The handler up to the commit: body size, decoding, entry limit, entries, receipt machine.\<close>

definition compare_chunk ::
  "('d, 'm, 'v, 'j) connect_env \<Rightarrow> nat \<Rightarrow> compare_request option \<Rightarrow> ('d, 'm, 'u, 'v, 'j, 't) connect_state
   \<Rightarrow> (('d, 'm, 'u, 'v, 'j, 't) connect_state \<times> ingested) option" where
  "compare_chunk env body_len request st =
     (if COMPARE_BODY_MAX_BYTES < body_len then Some (st, IngestDone (Refused 413 BodyTooLarge))
      else case request of
        None \<Rightarrow> Some (st, IngestDone (Refused 400 MalformedRequest))
      | Some rq \<Rightarrow>
          if COMPARE_CHUNK_MAX_ENTRIES < length (cq_entries rq) then Some (st, IngestDone (Refused 400 TooManyEntries))
          else case compare_entries (cx_from_str env) (cx_scope env) 0 (cq_entries rq) of
            Inl err \<Rightarrow> Some (st, IngestDone (Refused 400 err))
          | Inr entries \<Rightarrow> ingest_chunk env rq entries st)"

section \<open>The decision\<close>

definition item_input ::
  "('d, 'm, 'v, 'j) connect_env \<Rightarrow> ('d, 'm, 'u) tree \<Rightarrow> oset \<Rightarrow> dv_item list \<Rightarrow> dv_item \<Rightarrow> diff_input" where
  "item_input env t tree_ambiguous items it =
     \<lparr>di_state = three_way_state it, di_path = it_instance_path it,
      di_disk = (if it_state it = MISSING_ON_DISK then None
        else map_option (\<lambda>x. key_of (cx_base env) (in_class x) (in_properties x)) (get_instance (cx_ops env) t (it_instance it))),
      di_studio = ss_key (it_studio it), di_descendants = ss_descendants (it_studio it),
      di_ambiguous = (1 < length (filter (\<lambda>other. it_instance_path other = it_instance_path it) items) \<or>
        it_instance_path it \<in> set tree_ambiguous)\<rparr>"

definition decide ::
  "('d, 'm, 'v, 'j) connect_env \<Rightarrow> ('d, 'm, 'u) tree \<Rightarrow> dv_item list \<Rightarrow> base_view option \<Rightarrow> winner list option" where
  "decide env t items base =
     map_option (\<lambda>tree_ambiguous. map (\<lambda>it. classify base (item_input env t tree_ambiguous items it)) items)
       (ambiguous_paths (cx_ops env) t)"

text \<open>An environment over the example tree operations, for the witnesses.\<close>

definition example_env :: "(dref \<times> (dref \<Rightarrow> bool inst option), path \<Rightarrow> dref list option, bool, unit) connect_env" where
  "example_env = \<lparr>cx_ops = example_ops,
     cx_codec = \<lparr>to_value = (\<lambda>_. None), json_null = (), json_text = (\<lambda>_. []), json_string = (\<lambda>_. None), sha256 = (\<lambda>s. s)\<rparr>,
     cx_base = example_codec_base, cx_content_of = VContentId, cx_show_path = join_slash, cx_sha = (\<lambda>b. b),
     cx_from_str = (\<lambda>_. Some 7), cx_workspace_dir = [], cx_scope = Full, cx_written = True, cx_now = 0\<rparr>"

definition example_state ::
  "(dref \<times> (dref \<Rightarrow> bool inst option), path \<Rightarrow> dref list option, unit, bool, unit, unit) connect_state" where
  "example_state = \<lparr>cn_divergence = \<lparr>dv_upload = None, dv_set = None\<rparr>,
     cn_base = \<lparr>sb_inner = inner_default, sb_file = None\<rparr>, cn_tree = example_tree, cn_engine = engine_new,
     cn_backlog = \<lparr>bl_entries = [], bl_index = None, bl_store = Map.empty, bl_work = Map.empty\<rparr>,
     cn_fs = FDir [],
     cn_guard = \<lparr>g_backups_dir = [], g_boot_id = [], g_safe_mode = None, g_generation = 0\<rparr>,
     cn_guard_disk = \<lparr>gd_marker = None, gd_report = None\<rparr>\<rparr>"

definition one_entry :: dv_entry where
  "one_entry = \<lparr>de_instance = 2, de_change = EcUpdate, de_class = ''Script'', de_instance_path = ''A/B'',
     de_studio = \<lparr>ss_key = None, ss_descendants = None\<rparr>\<rparr>"

definition final_request :: compare_request where
  "final_request = \<lparr>cq_submission_id = ''s'', cq_chunk_index = 0, cq_final_chunk = True, cq_restart = False,
     cq_place = None, cq_entries = []\<rparr>"

end
