(* ===== verification/DivergenceSafety.thy ===== *)
theory DivergenceSafety
  imports Divergence
begin

text \<open>
  What the upload of a comparison guarantees: what is frozen is exactly what was sent, chunk by
  chunk, and every difference is decided on its own, with Studio winning wherever an instance
  path does not name one instance.
\<close>

section \<open>The upload\<close>

datatype upload_event = Chunk compare_request "dv_entry list" | Invalidated

text \<open>What an event does to the upload in progress, and the chunks it is made of.\<close>

definition before_chunk :: "compare_request \<Rightarrow> 'a option \<Rightarrow> 'a option" where
  "before_chunk rq up = (if cq_restart rq then None else up)"

fun upload_exec :: "upload_event \<Rightarrow> upload option \<Rightarrow> upload option" where
  "upload_exec Invalidated up = None"
| "upload_exec (Chunk rq es) up =
     (case receive_chunk rq (before_chunk rq up) of
        Inl _ \<Rightarrow> before_chunk rq up
      | Inr (u, _) \<Rightarrow> if cq_final_chunk rq then None else Some (extend_upload rq es u))"

lemma ingest_upload:
  assumes "ingest_chunk env rq es st = Some (st', r)"
  shows "dv_upload (cn_divergence st') = upload_exec (Chunk rq es) (dv_upload (cn_divergence st))"
  using assms
  by (auto simp: ingest_chunk_def before_chunk_def Let_def bind_eq_Some_conv seed_all_baselines_def commit_sync_base_def
      split: sum.splits if_splits)

lemma invalidate_upload: "dv_upload (invalidate d) = upload_exec Invalidated (dv_upload d)"
  by (simp add: invalidate_def)

text \<open>The chunks an upload in progress stands for, among the events that led to it.\<close>

definition stands_for :: "upload \<Rightarrow> (compare_request \<times> dv_entry list) list \<Rightarrow> bool" where
  "stands_for u chunks \<longleftrightarrow>
     up_entries u = concat (map snd chunks) \<and> up_next_chunk u = of_nat (length chunks) \<and>
     (\<forall>c\<in>set chunks. cq_submission_id (fst c) = up_submission_id u) \<and>
     map (\<lambda>c. cq_chunk_index (fst c)) chunks = map of_nat [0..<length chunks]"

fun chunks_of :: "upload_event list \<Rightarrow> (compare_request \<times> dv_entry list) list" where
  "chunks_of [] = []"
| "chunks_of (Chunk rq es # evs) = (rq, es) # chunks_of evs"
| "chunks_of (Invalidated # evs) = chunks_of evs"

lemma chunks_of_append [simp]: "chunks_of (xs @ ys) = chunks_of xs @ chunks_of ys"
  by (induction xs rule: chunks_of.induct) simp_all

lemma receive_stands_for:
  assumes "receive_chunk rq up = Inr (u, b)" "up = None \<or> (\<exists>v. up = Some v \<and> stands_for v chunks)"
  shows "\<exists>cs. stands_for u cs \<and> (up = None \<longrightarrow> cs = []) \<and> (up \<noteq> None \<longrightarrow> cs = chunks) \<and>
    stands_for (extend_upload rq es u) (cs @ [(rq, es)])"
proof (cases up)
  case None
  then show ?thesis using assms(1) by (auto simp: receive_chunk_def stands_for_def extend_upload_def split: if_splits)
next
  case (Some v)
  then show ?thesis using assms by (auto simp: receive_chunk_def stands_for_def extend_upload_def split: if_splits)
qed

lemma upload_run:
  "fold upload_exec evs None = Some u \<Longrightarrow> \<exists>chunks. stands_for u chunks \<and> subseq chunks (chunks_of evs)"
proof (induction evs arbitrary: u rule: rev_induct)
  case (snoc ev evs)
  let ?up = "fold upload_exec evs None"
  show ?case
  proof (cases ev)
    case (Chunk rq es)
    show ?thesis
    proof (cases "receive_chunk rq (before_chunk rq ?up)")
      case (Inl e)
      then have "?up = Some u" using snoc.prems Chunk by (auto simp: before_chunk_def split: if_splits)
      then obtain chunks where c: "stands_for u chunks" "subseq chunks (chunks_of evs)" using snoc.IH by blast
      have "subseq (chunks @ []) (chunks_of evs @ chunks_of [ev])" by (rule list_emb_append_mono [OF c(2)]) simp
      then show ?thesis using c(1) by auto
    next
      case (Inr p)
      obtain v b where p: "p = (v, b)" by (cases p)
      have u: "u = extend_upload rq es v" using snoc.prems Chunk Inr p by (auto split: if_splits)
      have "\<exists>chunks. subseq chunks (chunks_of evs) \<and> (before_chunk rq ?up = None \<or> (\<exists>w. before_chunk rq ?up = Some w \<and> stands_for w chunks))"
        using snoc.IH by (cases "before_chunk rq ?up") (auto simp: before_chunk_def split: if_splits)
      then obtain chunks where c: "subseq chunks (chunks_of evs)"
        "before_chunk rq ?up = None \<or> (\<exists>w. before_chunk rq ?up = Some w \<and> stands_for w chunks)" by blast
      obtain cs where cs: "stands_for (extend_upload rq es v) (cs @ [(rq, es)])" "cs = [] \<or> cs = chunks"
        using receive_stands_for [OF Inr [unfolded p] c(2), of es] by blast
      then have "subseq (cs @ [(rq, es)]) (chunks_of (evs @ [ev]))"
        using c(1) Chunk by (auto simp: list_emb_append_mono)
      then show ?thesis using cs(1) u by blast
    qed
  qed (use snoc in simp)
qed simp

text \<open>
  C35: What a comparison freezes is what the plugin sent. Whatever chunks, retries, restarts and
  invalidations went before, the items a final chunk freezes are the entries of the chunks
  \<open>0, 1, \<dots>\<close> of one submission, each taken once, in order, with the final chunk last: a chunk that
  is repeated, skipped or belongs to another submission is never part of it.
\<close>

theorem upload_exact:
  assumes hist: "dv_upload (cn_divergence st) = fold upload_exec evs None"
    and run: "ingest_chunk env rq es st = Some (st', StudioFirst items accepted next pl)"
  shows "\<exists>chunks. items = fst (freeze env (cn_tree st') (concat (map snd chunks))) \<and>
    chunks \<noteq> [] \<and> last chunks = (rq, es) \<and> subseq chunks (chunks_of evs @ [(rq, es)]) \<and>
    (\<forall>c\<in>set chunks. cq_submission_id (fst c) = cq_submission_id rq) \<and>
    map (\<lambda>c. cq_chunk_index (fst c)) chunks = map of_nat [0..<length chunks]"
proof -
  let ?up = "before_chunk rq (dv_upload (cn_divergence st))"
  obtain u b where recv: "receive_chunk rq ?up = Inr (u, b)"
    and items: "items = fst (freeze env (cn_tree st') (up_entries (extend_upload rq es u)))"
    using run by (auto simp: ingest_chunk_def before_chunk_def Let_def bind_eq_Some_conv split: sum.splits if_splits)
  have "\<exists>chunks. subseq chunks (chunks_of evs) \<and> (?up = None \<or> (\<exists>w. ?up = Some w \<and> stands_for w chunks))"
    using upload_run [of evs] hist by (cases ?up) (auto simp: before_chunk_def split: if_splits)
  then obtain chunks where c: "subseq chunks (chunks_of evs)" "?up = None \<or> (\<exists>w. ?up = Some w \<and> stands_for w chunks)" by blast
  obtain cs where cs: "stands_for (extend_upload rq es u) (cs @ [(rq, es)])" "cs = [] \<or> cs = chunks"
    using receive_stands_for [OF recv c(2), of es] by blast
  have "subseq (cs @ [(rq, es)]) (chunks_of evs @ [(rq, es)])" using c(1) cs(2) by (auto simp: list_emb_append_mono)
  moreover have "up_submission_id (extend_upload rq es u) = cq_submission_id rq"
    using cs(1) by (simp add: stands_for_def)
  ultimately show ?thesis
    using cs(1) items by (intro exI [of _ "cs @ [(rq, es)]"]) (simp add: stands_for_def)
qed

theorem upload_exact_witness:
  "\<exists>st' chunks. ingest_chunk example_env final_request [one_entry] example_state =
      Some (st', StudioFirst (fst (freeze example_env example_tree (concat (map snd chunks)))) 0 1 None) \<and>
    chunks \<noteq> [] \<and> last chunks = (final_request, [one_entry])"
proof -
  let ?st = "example_state\<lparr>cn_divergence := \<lparr>dv_upload = None, dv_set = None\<rparr>, cn_base := begin_compare None (cn_base example_state)\<rparr>"
  have run: "ingest_chunk example_env final_request [one_entry] example_state =
      Some (?st, StudioFirst (fst (freeze example_env example_tree [one_entry])) 0 1 None)"
    by (simp add: ingest_chunk_def final_request_def receive_chunk_def extend_upload_def example_state_def)
  have "dv_upload (cn_divergence example_state) = fold upload_exec [] None" by (simp add: example_state_def)
  from upload_exact [OF this run] obtain chunks where
    "fst (freeze example_env example_tree [one_entry]) = fst (freeze example_env (cn_tree ?st) (concat (map snd chunks)))"
    "chunks \<noteq> []" "last chunks = (final_request, [one_entry])" by blast
  then show ?thesis using run by (auto simp: example_state_def)
qed

section \<open>The decision\<close>

lemma ambiguous_paths_card:
  assumes "dom_wf (root_ref ops t) (dom_get ops (t_dom t))"
  obtains amb where "ambiguous_paths ops t = Some amb"
    "\<forall>p. p \<in> set amb \<longleftrightarrow> 2 \<le> card {i. located (dom_get ops (t_dom t)) (root_ref ops t) i p}"
proof -
  let ?m = "dom_get ops (t_dom t)"
  have "?m (root_ref ops t) \<noteq> None" using assms by (auto simp: dom_wf_def)
  then obtain r where r: "rid r = root_ref ops t" "represents ?m r" using rose_exists [OF assms] by blast
  let ?vs = "kid_visits ?m [] r" and ?at = "\<lambda>p. {i. located ?m (root_ref ops t) i p}"
  have at: "?at p = {i. (i, p) \<in> set ?vs}" for p using kid_visits_located [OF r(2)] r(1) by auto
  have "distinct (labels r)" by (rule labels_distinct [OF assms r(2)])
  then have "distinct (map fst ?vs)" by (cases r) (simp add: map_concat o_def visits_labels)
  then have count: "count_list (map snd ?vs) p = card (?at p)" for p using count_visits at by metis
  obtain amb where "ambiguous_paths ops t = Some amb" "set amb = {p. 2 \<le> count_list (map snd ?vs) p}"
    by (rule ambiguous_paths_result [OF assms r])
  then show thesis using that count by simp
qed

text \<open>
  A connect decides every difference, on its own, and only where the path is unambiguous. On
  a well formed tree the decision ends with one winner per item. Disk wins an item only if a
  sync base of this place is there, no other item of the comparison has the same instance
  path, and at most one instance of the tree is at that path.
\<close>

theorem decide_unambiguous:
  assumes "dom_wf (root_ref (cx_ops env) t) (dom_get (cx_ops env) (t_dom t))"
  shows "\<exists>winners. decide env t items base = Some winners \<and> length winners = length items \<and>
    (\<forall>i < length items. winners ! i = DiskWins \<longrightarrow>
       base \<noteq> None \<and>
       (\<forall>j < length items. it_instance_path (items ! j) = it_instance_path (items ! i) \<longrightarrow> j = i) \<and>
       card {k. located (dom_get (cx_ops env) (t_dom t)) (root_ref (cx_ops env) t) k (it_instance_path (items ! i))} \<le> 1)"
proof -
  obtain amb where amb: "ambiguous_paths (cx_ops env) t = Some amb"
    "\<forall>p. p \<in> set amb \<longleftrightarrow> 2 \<le> card {i. located (dom_get (cx_ops env) (t_dom t)) (root_ref (cx_ops env) t) i p}"
    by (rule ambiguous_paths_card [OF assms])
  let ?w = "map (\<lambda>it. classify base (item_input env t amb items it)) items"
  have disk: "base \<noteq> None \<and> \<not> di_ambiguous inp" if w: "classify base inp = DiskWins" for inp
    using w by (auto simp: classify_def studio_first_def split: option.splits diff_state.splits if_splits)
  have unique: "j = i" if len: "\<not> 1 < length (filter (\<lambda>other. it_instance_path other = it_instance_path (items ! i)) items)"
    and ij: "i < length items" "j < length items" "it_instance_path (items ! j) = it_instance_path (items ! i)" for i j
  proof (rule ccontr)
    assume "j \<noteq> i"
    then have "card {i, j} \<le> card {k. k < length items \<and> it_instance_path (items ! k) = it_instance_path (items ! i)}"
      using ij by (intro card_mono) auto
    then show False using len \<open>j \<noteq> i\<close> by (simp add: length_filter_conv_card)
  qed
  have "decide env t items base = Some ?w" using amb(1) by (simp add: decide_def)
  moreover have "base \<noteq> None \<and> (\<forall>j < length items. it_instance_path (items ! j) = it_instance_path (items ! i) \<longrightarrow> j = i) \<and>
       card {k. located (dom_get (cx_ops env) (t_dom t)) (root_ref (cx_ops env) t) k (it_instance_path (items ! i))} \<le> 1"
    if i: "i < length items" "?w ! i = DiskWins" for i
  proof -
    have "base \<noteq> None" "\<not> di_ambiguous (item_input env t amb items (items ! i))" using disk i by auto
    then show ?thesis using unique [OF _ i(1)] amb(2) by (auto simp: item_input_def not_le)
  qed
  ultimately show ?thesis by auto
qed

theorem decide_unambiguous_witness:
  "\<exists>winners. decide example_env example_tree (fst (freeze example_env example_tree [one_entry])) None = Some winners \<and> length winners = 1"
proof -
  have "dom_wf (root_ref (cx_ops example_env) example_tree) (dom_get (cx_ops example_env) (t_dom example_tree))"
    using example_tree_ok(1) by (simp add: tree_ok_def example_env_def)
  from decide_unambiguous [OF this, of "fst (freeze example_env example_tree [one_entry])" None] show ?thesis
    by (auto simp: freeze_def Let_def)
qed

end
