(* ===== verification/Choice.thy ===== *)
theory Choice
  imports Divergence WsState
begin

text \<open>
  The choice endpoints (\<^verbatim>\<open>src/server/divergence.rs\<close>): the status of a pending set, its paged
  details, the chunked selection, the decision and the two sides of a row. What a decision
  applies is modelled with the commit; here is what each endpoint reads and changes of the
  pending set. The size of a row's JSON is a parameter.
\<close>

section \<open>Definitions\<close>

definition choice_get :: "divergence \<Rightarrow> (string \<times> dv_stats) option" where
  "choice_get d = map_option (\<lambda>s. (dvs_choice_id s, dvs_stats s)) (dv_set d)"

text \<open>The pending set a request names, or why there is none.\<close>

definition pending_set :: "string option \<Rightarrow> divergence \<Rightarrow> dv_error + divergence_set" where
  "pending_set choice_id d =
     (case dv_set d of
        None \<Rightarrow> Inl NoPendingSet
      | Some s \<Rightarrow> if choice_id \<noteq> Some (dvs_choice_id s) then Inl StaleChoice else Inr s)"

definition CHOICE_DETAILS_DEFAULT_LIMIT :: nat where "CHOICE_DETAILS_DEFAULT_LIMIT = 512"
definition CHOICE_DETAILS_MAX_LIMIT :: nat where "CHOICE_DETAILS_MAX_LIMIT = 1024"
definition CHOICE_DETAILS_BYTE_BUDGET :: nat where "CHOICE_DETAILS_BYTE_BUDGET = 512 * 1024"

text \<open>The loop over the rows from the cursor on: the page and the cursor of the next one.\<close>

fun page_loop :: "(dv_item \<Rightarrow> nat) \<Rightarrow> nat \<Rightarrow> dv_item list \<Rightarrow> dv_item list \<Rightarrow> nat \<Rightarrow> dv_item list \<times> u32 option" where
  "page_loop size_of limit [] items bytes = (items, None)"
| "page_loop size_of limit (it # rest) items bytes =
     (if limit \<le> length items then (items, Some (it_id it))
      else
        (let sz = size_of it + 1 in
         if items \<noteq> [] \<and> CHOICE_DETAILS_BYTE_BUDGET < bytes + sz then (items, Some (it_id it))
         else page_loop size_of limit rest (items @ [it]) (bytes + sz)))"

definition details_limit :: "nat option \<Rightarrow> nat" where
  "details_limit limit = max 1 (min (case limit of Some n \<Rightarrow> n | None \<Rightarrow> CHOICE_DETAILS_DEFAULT_LIMIT) CHOICE_DETAILS_MAX_LIMIT)"

definition choice_details ::
  "(dv_item \<Rightarrow> nat) \<Rightarrow> string option \<Rightarrow> u32 option \<Rightarrow> nat option \<Rightarrow> divergence \<Rightarrow> dv_error + dv_item list \<times> u32 option" where
  "choice_details size_of choice_id cursor limit d =
     (case pending_set choice_id d of
        Inl e \<Rightarrow> Inl e
      | Inr s \<Rightarrow>
          Inr (page_loop size_of (details_limit limit)
            (drop (case cursor of Some k \<Rightarrow> unat k | None \<Rightarrow> 0) (dvs_items s)) [] 0))"

definition SELECTION_CHUNK_MAX_IDS :: nat where "SELECTION_CHUNK_MAX_IDS = 2048"
definition SELECTION_BODY_MAX_BYTES :: nat where "SELECTION_BODY_MAX_BYTES = 64 * 1024"

record selection_request =
  sq_choice_id :: string
  sq_submission_id :: string
  sq_chunk_index :: u64
  sq_final_chunk :: bool
  sq_restart :: bool
  sq_ids :: "u32 list"

definition receive_selection :: "selection_request \<Rightarrow> selection option \<Rightarrow> dv_error + selection" where
  "receive_selection rq sel =
     (case sel of
        None \<Rightarrow>
          if sq_chunk_index rq \<noteq> 0 then Inl NoSelection
          else Inr \<lparr>sl_submission_id = sq_submission_id rq, sl_next_chunk = 0, sl_ids = {}, sl_committed = False\<rparr>
      | Some s \<Rightarrow>
          if sl_committed s then Inl SelectionCommitted
          else if sl_submission_id s \<noteq> sq_submission_id rq then Inl OtherSelection
          else if sq_chunk_index rq \<noteq> sl_next_chunk s then Inl (ReceiptMismatch (sl_next_chunk s) (sq_chunk_index rq))
          else Inr s)"

definition choice_selection ::
  "nat \<Rightarrow> selection_request option \<Rightarrow> divergence \<Rightarrow> divergence \<times> (dv_error + selection)" where
  "choice_selection body_len request d =
     (if SELECTION_BODY_MAX_BYTES < body_len then (d, Inl BodyTooLarge)
      else case request of
        None \<Rightarrow> (d, Inl MalformedRequest)
      | Some rq \<Rightarrow>
          if SELECTION_CHUNK_MAX_IDS < length (sq_ids rq) then (d, Inl TooManyIds)
          else case dv_set d of
            None \<Rightarrow> (d, Inl NoPendingSet)
          | Some s \<Rightarrow>
              if dvs_choice_id s \<noteq> sq_choice_id rq then (d, Inl StaleChoice)
              else case find (\<lambda>i. of_nat (length (dvs_items s)) \<le> i) (sq_ids rq) of
                Some i \<Rightarrow> (d, Inl (IdOutOfRange i))
              | None \<Rightarrow>
                  (let s = (if sq_restart rq then s\<lparr>dvs_selection := None\<rparr> else s) in
                   case receive_selection rq (dvs_selection s) of
                     Inl e \<Rightarrow> (d\<lparr>dv_set := Some s\<rparr>, Inl e)
                   | Inr sel \<Rightarrow>
                       (let sel = sel\<lparr>sl_ids := sl_ids sel \<union> set (sq_ids rq), sl_next_chunk := sl_next_chunk sel + 1,
                              sl_committed := sq_final_chunk rq\<rparr>
                        in (d\<lparr>dv_set := Some (s\<lparr>dvs_selection := Some sel\<rparr>)\<rparr>, Inr sel))))"

definition staged_items :: "string option \<Rightarrow> divergence_set \<Rightarrow> dv_error + dv_item list" where
  "staged_items mode s =
     (if mode = Some ''all'' then Inr (dvs_items s)
      else case dvs_selection s of
        Some sel \<Rightarrow> if sl_committed sel then Inr (filter (\<lambda>it. it_id it \<in> sl_ids sel) (dvs_items s)) else Inl SelectionInProgress
      | None \<Rightarrow> Inr (dvs_items s))"

datatype decision =
    DecisionRefused dv_error
  | DecisionCancel string
  | DecisionStudio string "dv_item list"
  | DecisionDisk string "dv_item list"

definition choice_decide :: "string option \<Rightarrow> string option \<Rightarrow> string option \<Rightarrow> divergence \<Rightarrow> divergence \<times> decision" where
  "choice_decide choice_id choice mode d =
     (let choice = (case choice of Some c \<Rightarrow> c | None \<Rightarrow> []) in
      if choice \<noteq> ''studio'' \<and> choice \<noteq> ''disk'' \<and> choice \<noteq> ''cancel'' then (d, DecisionRefused BadChoice)
      else case dv_set d of
        None \<Rightarrow> (d, DecisionRefused Resolved)
      | Some s \<Rightarrow>
          if choice_id \<noteq> Some (dvs_choice_id s) then (d, DecisionRefused Resolved)
          else if choice = ''cancel'' then (d\<lparr>dv_set := None\<rparr>, DecisionCancel (dvs_choice_id s))
          else case staged_items mode s of
            Inl e \<Rightarrow> (d, DecisionRefused e)
          | Inr staged \<Rightarrow> (d\<lparr>dv_set := None\<rparr>,
              if choice = ''studio'' then DecisionStudio (dvs_choice_id s) staged else DecisionDisk (dvs_choice_id s) staged))"

definition choice_row :: "string option \<Rightarrow> u32 option \<Rightarrow> divergence \<Rightarrow> dv_error + dv_item" where
  "choice_row choice_id i d =
     (case pending_set choice_id d of
        Inl e \<Rightarrow> Inl e
      | Inr s \<Rightarrow>
          (case i of
             None \<Rightarrow> Inl IdRequired
           | Some i \<Rightarrow>
               (case find (\<lambda>it. it_id it = i) (dvs_items s) of
                  None \<Rightarrow> Inl NoSuchRow
                | Some it \<Rightarrow> if \<not> is_script (it_class it) then Inl NotScript else Inr it)))"

definition CONFLICT_SOURCE_CAP :: nat where "CONFLICT_SOURCE_CAP = 256 * 1024"

text \<open>\<open>is_char_boundary\<close> of a UTF-8 string, and the walk back to one.\<close>

definition is_char_boundary :: "string \<Rightarrow> nat \<Rightarrow> bool" where
  "is_char_boundary s i \<longleftrightarrow> i = 0 \<or> i = length s \<or> i < length s \<and> \<not> continuation (s ! i)"

fun boundary_before :: "string \<Rightarrow> nat \<Rightarrow> nat" where
  "boundary_before s 0 = 0"
| "boundary_before s (Suc i) = (if is_char_boundary s (Suc i) then Suc i else boundary_before s i)"

definition capped_source :: "string \<Rightarrow> string \<times> bool" where
  "capped_source source =
     (if length source \<le> CONFLICT_SOURCE_CAP then (source, False)
      else (take (boundary_before source CONFLICT_SOURCE_CAP) source, True))"

text \<open>The disk side of a row, from the live tree; a side is present or not, with its capped source.\<close>

definition side_json :: "string option \<Rightarrow> (string \<times> bool) option" where
  "side_json source = map_option capped_source source"

definition disk_side :: "('d, 'm, 'v, 'j) connect_env \<Rightarrow> ('d, 'm, 'u) tree \<Rightarrow> dv_item \<Rightarrow> (string \<times> bool) option" where
  "disk_side env t it =
     (if it_state it = MISSING_ON_DISK then side_json None
      else side_json (Option.bind (get_instance (cx_ops env) t (it_instance it)) (\<lambda>x.
        case map_of (in_properties x) ''Source'' of Some (VString s) \<Rightarrow> Some s | _ \<Rightarrow> None)))"

text \<open>The Studio side, from the plugin's answer: a string, or an object with a string value; a row gone from Studio is absent.\<close>

definition studio_side_of :: "dv_item \<Rightarrow> call_error + json \<Rightarrow> call_error + (string \<times> bool) option" where
  "studio_side_of it fetched =
     (if it_state it = ONLY_ON_DISK then Inr (side_json None)
      else case fetched of
        Inr v \<Rightarrow> Inr (side_json (case as_str v of Some s \<Rightarrow> Some s | None \<Rightarrow> field ''value'' as_str v))
      | Inl e \<Rightarrow> if ce_code e = NOT_FOUND then Inr (side_json None) else Inl e)"

section \<open>Paging\<close>

lemma page_loop_result:
  "\<exists>n \<le> length rest. page_loop size_of limit rest items bytes =
       (items @ take n rest, if n < length rest then Some (it_id (rest ! n)) else None) \<and>
     (items = [] \<and> rest \<noteq> [] \<and> 1 \<le> limit \<longrightarrow> 1 \<le> n) \<and> length items + n \<le> max limit (length items)"
proof (induction rest arbitrary: items bytes)
  case (Cons it rest)
  let ?stop = "limit \<le> length items \<or> items \<noteq> [] \<and> CHOICE_DETAILS_BYTE_BUDGET < bytes + (size_of it + 1)"
  show ?case
  proof (cases ?stop)
    case True
    then show ?thesis by (intro exI [of _ 0]) (auto simp: Let_def)
  next
    case False
    then have eq: "page_loop size_of limit (it # rest) items bytes = page_loop size_of limit rest (items @ [it]) (bytes + (size_of it + 1))"
      by (auto simp: Let_def)
    obtain n where "n \<le> length rest" "page_loop size_of limit rest (items @ [it]) (bytes + (size_of it + 1)) =
        ((items @ [it]) @ take n rest, if n < length rest then Some (it_id (rest ! n)) else None)"
      "length (items @ [it]) + n \<le> max limit (length (items @ [it]))"
      using Cons.IH [of "items @ [it]" "bytes + (size_of it + 1)"] by blast
    then show ?thesis unfolding eq using False by (intro exI [of _ "Suc n"]) auto
  qed
qed simp

text \<open>A client that follows the cursor from page to page, for at most \<open>n\<close> pages.\<close>

fun all_pages :: "(dv_item \<Rightarrow> nat) \<Rightarrow> nat \<Rightarrow> dv_item list \<Rightarrow> nat \<Rightarrow> u32 \<Rightarrow> dv_item list" where
  "all_pages size_of limit items 0 cursor = []"
| "all_pages size_of limit items (Suc n) cursor =
     (case page_loop size_of limit (drop (unat cursor) items) [] 0 of
        (page, None) \<Rightarrow> page
      | (page, Some next) \<Rightarrow> page @ all_pages size_of limit items n next)"

lemma all_pages_drop:
  assumes dense: "\<forall>i < length items. it_id (items ! i) = of_nat i" and small: "length items < 2 ^ 32" and limit: "1 \<le> limit"
  shows "k \<le> length items \<Longrightarrow> length items - k < n \<Longrightarrow> all_pages size_of limit items n (of_nat k) = drop k items"
proof (induction n arbitrary: k)
  case (Suc n)
  have k: "unat (of_nat k :: u32) = k" using Suc.prems(1) small by (simp add: unat_of_nat take_bit_nat_eq_self)
  obtain m where m: "m \<le> length (drop k items)" "page_loop size_of limit (drop k items) [] 0 =
      (take m (drop k items), if m < length (drop k items) then Some (it_id (drop k items ! m)) else None)"
    "drop k items \<noteq> [] \<longrightarrow> 1 \<le> m"
    using page_loop_result [of "drop k items" size_of limit "[]" 0] limit by auto
  show ?case
  proof (cases "m < length (drop k items)")
    case True
    then have "it_id (drop k items ! m) = of_nat (k + m)" using dense by simp
    moreover have "all_pages size_of limit items n (of_nat (k + m)) = drop (k + m) items"
      using Suc.prems True m(3) by (intro Suc.IH) auto
    moreover have "take m (drop k items) @ drop (k + m) items = drop k items"
      by (metis add.commute append_take_drop_id drop_drop)
    ultimately show ?thesis using True m(2) k by simp
  next
    case False
    then show ?thesis using m k by simp
  qed
qed simp

text \<open>
  Paging through a frozen set terminates and misses nothing. Whatever page size the client
  asks for and however large the rows are, following the cursors from the start yields every
  row of the set exactly once, in order, after at most one page per row.
\<close>

theorem paging_complete:
  assumes "length entries < 2 ^ 32"
  shows "let items = fst (freeze env t entries) in
    all_pages size_of (details_limit limit) items (Suc (length entries)) 0 = items"
proof -
  let ?items = "fst (freeze env t entries)"
  have len: "length ?items = length entries" by (simp add: freeze_def Let_def)
  have "\<forall>i < length ?items. it_id (?items ! i) = of_nat i" by (simp add: freeze_def Let_def freeze_item_def)
  moreover have "1 \<le> details_limit limit" by (simp add: details_limit_def)
  ultimately have "all_pages size_of (details_limit limit) ?items (Suc (length entries)) (of_nat 0) = drop 0 ?items"
    using assms len by (intro all_pages_drop) simp_all
  then show ?thesis by simp
qed

theorem paging_complete_witness:
  "let items = fst (freeze example_env example_tree [one_entry, one_entry]) in
     all_pages (\<lambda>_. 600 * 1024) (details_limit (Some 0)) items 3 0 = items"
  using paging_complete [of "[one_entry, one_entry]" example_env example_tree "\<lambda>_. 600 * 1024" "Some 0"] by (simp add: numeral_3_eq_3)

end
