(* ===== verification/Connect.thy ===== *)
theory Connect
  imports Choice Request
begin

text \<open>
  The commit of a comparison (\<open>connect_commit\<close> of \<^verbatim>\<open>src/server/divergence.rs\<close>): what the decision
  does to the workspace, the backlog, the tree, the conflict engine and the sync base, and
  \<open>Core::snapshot\<close> (\<^verbatim>\<open>src/core/mod.rs\<close>), which additions are pushed with.

  The workspace is the \<open>fnode\<close> tree of \<open>Fs\<close>; a capture sees of it the node at its source. The
  fenced apply of the roots (\<open>Bulk\<close>) waits for the plugin; everything it meets is in the
  environments the commit takes. Each capture has its own file operation outcomes, UUID, clock
  and size, read from a stream at the number of the capture. The changes for Studio are handed
  out: sending them (\<open>send_to_studio\<close>) changes only the WebSocket state and the queue, and the
  commit ignores whether it worked. So is the number of the backlog event.
\<close>

section \<open>Snapshots of the tree\<close>

text \<open>The recursion of \<open>Core::snapshot\<close>. The inner \<open>None\<close> is the panic of \<open>unwrap\<close>.\<close>

partial_function (option) snapshot_kids ::
  "(string \<Rightarrow> 'v variant) \<Rightarrow> ('d, 'm, 'v) tree_ops \<Rightarrow> ('d, 'm, 'u) tree \<Rightarrow> dref list
   \<Rightarrow> ('u, 'v) snapshot list option option" where
  "snapshot_kids content_of ops t children =
     (case children of
        [] \<Rightarrow> Some (Some [])
      | child # rest \<Rightarrow>
          (case (get_meta t child, get_instance ops t child) of
             (Some mt, Some x) \<Rightarrow>
               Option.bind (snapshot_kids content_of ops t (in_children x)) (\<lambda>below.
                 Option.bind (snapshot_kids content_of ops t rest) (\<lambda>others.
                   Some (case (below, others) of
                     (Some cs, Some ss) \<Rightarrow>
                       Some (Snapshot child mt (in_name x) (in_class x) (apply_migrations content_of (in_class x) (in_properties x)) cs # ss)
                   | _ \<Rightarrow> None)))
           | _ \<Rightarrow> Some None))"

definition core_snapshot ::
  "(string \<Rightarrow> 'v variant) \<Rightarrow> ('d, 'm, 'v) tree_ops \<Rightarrow> ('d, 'm, 'u) tree \<Rightarrow> dref
   \<Rightarrow> ('u, 'v) added_snapshot option option option" where
  "core_snapshot content_of ops t i =
     (let root = (if i \<noteq> ref_none then i else root_ref ops t) in
      case get_instance ops t root of
        None \<Rightarrow> Some (Some None)
      | Some x \<Rightarrow>
          (case get_meta t root of
             None \<Rightarrow> Some None
           | Some mt \<Rightarrow>
               map_option (map_option (\<lambda>cs. Some (as_new (in_parent x)
                   (Snapshot root mt (in_name x) (in_class x) (apply_migrations content_of (in_class x) (in_properties x)) cs))))
                 (snapshot_kids content_of ops t (in_children x))))"

section \<open>Paths\<close>

definition safe_live_path :: "(string \<Rightarrow> path) \<Rightarrow> path \<Rightarrow> string option \<Rightarrow> path option" where
  "safe_live_path parse workspace_dir p =
     (case p of Some s \<Rightarrow> if safe_rel_path s then Some (workspace_dir @ parse s) else None | None \<Rightarrow> None)"

definition own_paths :: "('d, 'm, 'u) tree \<Rightarrow> dref \<Rightarrow> path \<Rightarrow> path list" where
  "own_paths t i workspace_dir =
     (case get_meta t i of
        None \<Rightarrow> []
      | Some mt \<Rightarrow>
          (let entries = src_relevant (mt_source mt); inside = (\<lambda>p. prefix workspace_dir p \<and> p \<noteq> workspace_dir) in
           case find inside (concat (map (\<lambda>e. case e of EFolder p \<Rightarrow> [p] | _ \<Rightarrow> []) entries)) of
             Some folder \<Rightarrow> [folder]
           | None \<Rightarrow> filter inside (concat (map (\<lambda>e. case e of EFile p \<Rightarrow> [p] | EData p \<Rightarrow> [p] | _ \<Rightarrow> []) entries))))"

section \<open>The plan\<close>

definition staged_roots :: "(dv_item \<times> winner) list \<Rightarrow> oset" where
  "staged_roots decided =
     fold os_insert (List.map_filter (\<lambda>(it, w). if w \<noteq> DiskWins \<and> it_state it \<noteq> ONLY_ON_DISK then item_root it else None) decided) []"

record connect_plan =
  pl_options :: studio_first_options
  pl_disk_only :: "u32 \<Rightarrow> path list option"

definition plan_item ::
  "(string \<Rightarrow> path) \<Rightarrow> ('d, 'm, 'u) tree \<Rightarrow> fnode \<Rightarrow> path \<Rightarrow> oset \<Rightarrow> dv_item \<times> winner \<Rightarrow> connect_plan \<Rightarrow> connect_plan" where
  "plan_item parse t fs workspace_dir roots = (\<lambda>(it, w) plan.
     let staged = (case item_root it of Some r \<Rightarrow> r \<in> set roots | None \<Rightarrow> False); o1 = pl_options plan in
     if it_state it = DIFFERS \<and> w = StudioKeepDisk then
       (case safe_live_path parse workspace_dir (it_path it) of
          Some live \<Rightarrow> if is_file live fs then plan\<lparr>pl_options := o1\<lparr>so_preserve := so_preserve o1 @ [live]\<rparr>\<rparr> else plan
        | None \<Rightarrow> plan)
     else if it_state it = DIFFERS \<and> w = DiskWins \<and> staged then
       plan\<lparr>pl_options := o1\<lparr>so_keep_live := so_keep_live o1 @ [(it_instance it, file_entries t (it_instance it))]\<rparr>\<rparr>
     else if it_state it = ONLY_ON_DISK then
       (let paths = own_paths t (it_instance it) workspace_dir in
        plan\<lparr>pl_options := (if staged then o1\<lparr>so_disk_only := so_disk_only o1 @ paths\<rparr> else o1),
             pl_disk_only := (pl_disk_only plan)(it_id it \<mapsto> paths)\<rparr>)
     else if it_state it = MISSING_ON_DISK \<and> w = DiskWins \<and> staged then
       plan\<lparr>pl_options := o1\<lparr>so_drop_staged := so_drop_staged o1 @ [it_instance it]\<rparr>\<rparr>
     else plan)"

definition connect_options ::
  "(string \<Rightarrow> path) \<Rightarrow> ('d, 'm, 'u) tree \<Rightarrow> fnode \<Rightarrow> path \<Rightarrow> path \<Rightarrow> oset \<Rightarrow> (dv_item \<times> winner) list \<Rightarrow> connect_plan" where
  "connect_options parse t fs workspace_dir staging roots decided =
     fold (plan_item parse t fs workspace_dir roots) decided
       \<lparr>pl_options = \<lparr>so_workspace_dir = workspace_dir, so_staging = staging, so_preserve = [], so_disk_only = [],
          so_keep_live = [], so_drop_staged = []\<rparr>, pl_disk_only = Map.empty\<rparr>"

section \<open>Keeping what loses\<close>

text \<open>
  What a capture does to the workspace: it reads the node at its source, and takes it away when
  the backlog moved or removed it.
\<close>

record capture_event =
  ce_io :: io
  ce_uuid :: string
  ce_now :: u64
  ce_bytes :: u64

record connect_io =
  co_show :: "path \<Rightarrow> string"
  co_parse :: "string \<Rightarrow> path"
  co_sha :: "string \<Rightarrow> content_hash"
  co_workspace_dir :: path
  co_events :: "nat \<Rightarrow> capture_event"
  co_removed :: "path \<Rightarrow> bool"

record commit_state =
  cm_fs :: fnode
  cm_backlog :: backlog
  cm_captures :: nat
  cm_backlogged :: nat
  cm_disk_only :: "u32 \<Rightarrow> path list option"
  cm_to_studio :: "dv_item list"
  cm_left_disk :: "dref list"

definition drop_path :: "path \<Rightarrow> fnode \<Rightarrow> fnode" where
  "drop_path p fs = (case set_at p None fs of Some fs \<Rightarrow> fs | None \<Rightarrow> fs)"

definition keep :: "connect_io \<Rightarrow> path \<Rightarrow> path \<Rightarrow> commit_state \<Rightarrow> commit_state" where
  "keep co live source st =
     (case (strip_path (co_workspace_dir co) live, node_at source (cm_fs st)) of
        (Some rel, Some node) \<Rightarrow>
          (let ev = co_events co (cm_captures st); src = co_show co source in
           case capture (ce_io ev) (ce_uuid ev) (ce_now ev) (ce_bytes ev) (co_show co rel) src InitialSync
                  ((cm_backlog st)\<lparr>bl_work := [src \<mapsto> node]\<rparr>) of
             (b, res) \<Rightarrow> st\<lparr>cm_backlog := b\<lparr>bl_work := bl_work (cm_backlog st)\<rparr>,
               cm_fs := (if bl_work b src = None then drop_path source (cm_fs st) else cm_fs st),
               cm_captures := Suc (cm_captures st),
               cm_backlogged := cm_backlogged st + (if res \<noteq> None then 1 else 0)\<rparr>)
      | _ \<Rightarrow> st)"

definition remove_live :: "connect_io \<Rightarrow> path \<Rightarrow> commit_state \<Rightarrow> commit_state" where
  "remove_live co p st = (if co_removed co p then st\<lparr>cm_fs := drop_path p (cm_fs st)\<rparr> else st)"

section \<open>Resolving the items\<close>

text \<open>One path of a disk-only item; the flags say whether the item is pushed and whether it leaves disk.\<close>

definition resolve_live ::
  "connect_io \<Rightarrow> studio_first_options \<Rightarrow> studio_first_report \<Rightarrow> path \<Rightarrow> commit_state \<times> bool \<times> bool \<Rightarrow> commit_state \<times> bool \<times> bool" where
  "resolve_live co o1 report live = (\<lambda>(st, pushable, leaves).
     if live \<in> sr_preserved report then
       (let original = preserved_path o1 live in
        if live \<in> sr_claimed report then
          (if same_contents (co_sha co) original live (cm_fs st) then st else keep co live original st, False, leaves)
        else if \<not> pushable then (remove_live co live (keep co live original st), pushable, True)
        else (st, pushable, leaves))
     else if \<not> pushable then (keep co live live st, pushable, True)
     else (st, pushable, leaves))"

definition resolve_disk_only ::
  "connect_io \<Rightarrow> studio_first_options \<Rightarrow> studio_first_report \<Rightarrow> dv_item \<Rightarrow> winner \<Rightarrow> commit_state \<Rightarrow> commit_state" where
  "resolve_disk_only co o1 report it w st =
     (let paths = (case cm_disk_only st (it_id it) of Some ps \<Rightarrow> ps | None \<Rightarrow> []);
          st = st\<lparr>cm_disk_only := (cm_disk_only st)(it_id it := None)\<rparr>
      in case fold (resolve_live co o1 report) paths (st, w = DiskWins, False) of
           (st, pushable, leaves) \<Rightarrow>
             if pushable then st\<lparr>cm_to_studio := cm_to_studio st @ [it]\<rparr>
             else if leaves then st\<lparr>cm_left_disk := cm_left_disk st @ [it_instance it]\<rparr>
             else st)"

definition keep_demoted ::
  "connect_io \<Rightarrow> studio_first_options \<Rightarrow> studio_first_report \<Rightarrow> dref \<Rightarrow> commit_state \<Rightarrow> commit_state" where
  "keep_demoted co o1 report i st =
     fold (\<lambda>live. keep co live (preserved_path o1 live))
       (filter (\<lambda>live. live \<in> sr_preserved report) (concat (map snd (filter (\<lambda>(j, _). j = i) (so_keep_live o1))))) st"

definition resolve_item ::
  "connect_io \<Rightarrow> studio_first_options \<Rightarrow> studio_first_report \<Rightarrow> dv_item \<times> winner \<Rightarrow> commit_state \<Rightarrow> commit_state" where
  "resolve_item co o1 report = (\<lambda>(it, w) st.
     if it_state it = DIFFERS \<and> w = StudioKeepDisk then
       (case safe_live_path (co_parse co) (co_workspace_dir co) (it_path it) of
          Some live \<Rightarrow> if live \<in> sr_preserved report then keep co live (preserved_path o1 live) st else st
        | None \<Rightarrow> st)
     else if it_state it = DIFFERS \<and> w = DiskWins then
       (if it_instance it \<in> set (sr_demoted report) then keep_demoted co o1 report (it_instance it) st
        else st\<lparr>cm_to_studio := cm_to_studio st @ [it]\<rparr>)
     else if it_state it = ONLY_ON_DISK then resolve_disk_only co o1 report it w st
     else if it_state it = MISSING_ON_DISK \<and> w = DiskWins then st\<lparr>cm_to_studio := cm_to_studio st @ [it]\<rparr>
     else st)"

section \<open>The tree and Studio\<close>

text \<open>From here on \<open>None\<close> is a walk that does not end or an \<open>unwrap\<close> that panics.\<close>

fun forget_instances ::
  "('d, 'm, 'v) tree_ops \<Rightarrow> dref list \<Rightarrow> ('d, 'm, 'u) tree \<times> ('v, 'j) engine_state
   \<Rightarrow> (('d, 'm, 'u) tree \<times> ('v, 'j) engine_state) option" where
  "forget_instances ops [] st = Some st"
| "forget_instances ops (i # ids) (t, engine) =
     (if \<not> exists_inst ops t i then forget_instances ops ids (t, engine)
      else Option.bind (subtree_refs ops t i) (\<lambda>refs.
        case remove_instance ops i t of
          Some (Some t) \<Rightarrow> forget_instances ops ids (t, fold forget refs engine)
        | _ \<Rightarrow> None))"

definition apply_staged ::
  "('v, 'j) codec \<Rightarrow> ('d, 'm, 'v) tree_ops \<Rightarrow> ('d, 'm, 'u) tree \<Rightarrow> dv_item
   \<Rightarrow> ('u, 'v) changes \<times> ('v, 'j) engine_state \<Rightarrow> ('u, 'v) changes \<times> ('v, 'j) engine_state" where
  "apply_staged c ops t it = (\<lambda>(ch, engine).
     if it_state it = DIFFERS then
       (case get_instance ops t (it_instance it) of
          None \<Rightarrow> (ch, engine)
        | Some x \<Rightarrow>
            (changes_update ((updated_new (it_instance it))\<lparr>us_name := Some (in_name x), us_class := Some (in_class x),
               us_properties := Some (in_properties x)\<rparr>) ch,
             stamp (it_instance it) (cs_hash (content_new c (in_name x) (in_class x) (in_properties x))) engine))
     else if it_state it = MISSING_ON_DISK then (changes_remove (it_instance it) ch, engine)
     else (ch, engine))"

definition stamp_subtree ::
  "('v, 'j) codec \<Rightarrow> ('d, 'm, 'v) tree_ops \<Rightarrow> ('d, 'm, 'u) tree \<Rightarrow> dref \<Rightarrow> ('v, 'j) engine_state \<Rightarrow> ('v, 'j) engine_state option" where
  "stamp_subtree c ops t i engine = map_option (\<lambda>ids. stamp_all c ops t ids engine) (subtree_refs ops t i)"

fun add_staged ::
  "(string \<Rightarrow> 'v variant) \<Rightarrow> ('v, 'j) codec \<Rightarrow> ('d, 'm, 'v) tree_ops \<Rightarrow> ('d, 'm, 'u) tree \<Rightarrow> dv_item list
   \<Rightarrow> ('u, 'v) changes \<times> ('v, 'j) engine_state \<Rightarrow> (('u, 'v) changes \<times> ('v, 'j) engine_state) option" where
  "add_staged content_of c ops t [] st = Some st"
| "add_staged content_of c ops t (it # its) (ch, engine) =
     (if it_state it \<noteq> ONLY_ON_DISK then add_staged content_of c ops t its (ch, engine)
      else case core_snapshot content_of ops t (it_instance it) of
        Some (Some (Some s)) \<Rightarrow>
          Option.bind (stamp_subtree c ops t (it_instance it) engine) (\<lambda>engine.
            add_staged content_of c ops t its (ch\<lparr>additions := additions ch @ [s]\<rparr>, engine))
      | Some (Some None) \<Rightarrow> add_staged content_of c ops t its (ch, engine)
      | _ \<Rightarrow> None)"

definition build_disk_apply ::
  "(string \<Rightarrow> 'v variant) \<Rightarrow> ('v, 'j) codec \<Rightarrow> ('d, 'm, 'v) tree_ops \<Rightarrow> ('d, 'm, 'u) tree \<Rightarrow> dv_item list \<Rightarrow> ('v, 'j) engine_state
   \<Rightarrow> (('u, 'v) changes \<times> ('v, 'j) engine_state) option" where
  "build_disk_apply content_of c ops t staged engine =
     add_staged content_of c ops t staged (fold (apply_staged c ops t) staged (changes_new, engine))"

text \<open>The transport of the changes: bracketed over a live WebSocket plugin, queued for whichever connects otherwise.\<close>

definition send_to_studio ::
  "(('f, 'c, 'o) ws_state \<Rightarrow> ((('f, 'c, 'o) ws_state \<times> string list) \<times> (replay_error + unit)) option)
   \<Rightarrow> ('q, ('u, 'v) message) channel_ops \<Rightarrow> ('u, 'v) changes \<Rightarrow> ('f, 'c, 'o) ws_state \<times> 'q queue
   \<Rightarrow> (('f, 'c, 'o) ws_state \<times> 'q queue \<times> string list \<times> bool) option" where
  "send_to_studio replay cb ch = (\<lambda>(ws, q).
     case plugin_frames ws of
       Inr _ \<Rightarrow> map_option (\<lambda>((ws, sent), r). (ws, q, sent, \<not> isl r)) (replay ws)
     | Inl _ \<Rightarrow> (case push cb (SyncChanges ch) None q of (q, r) \<Rightarrow> Some (ws, q, [], \<not> isl r)))"


section \<open>The commit\<close>

definition BACKUPS_DIR :: string where "BACKUPS_DIR = ''.wsync-backups''"

record ('d, 'm, 'u, 'v, 't) commit_env =
  ct_transfer_id :: string
  ct_stamp :: string
  ct_io :: connect_io
  ct_apply :: "string \<Rightarrow> ('d, 'm, 'u, 'v) apply_env"
  ct_age_days :: "string \<Rightarrow> int option"
  ct_marker_written :: bool
  ct_marker :: string
  ct_guard :: "'t marker_codec"
  ct_guard_written :: bool
  ct_pid :: u32
  ct_guard_now :: u64
  ct_report_written :: bool
  ct_report_text :: "(dv_item \<times> winner) list \<Rightarrow> bool \<Rightarrow> safe_mode \<Rightarrow> string"
  ct_staging_removed :: bool
  ct_list_io :: io
  ct_list_now :: u64
  ct_ttl :: u64

text \<open>What the commit leaves to others: changes for Studio, the settle timer of the guard, the backlog event.\<close>

record ('u, 'v) connect_output =
  ot_changes :: "('u, 'v) changes option"
  ot_settle :: "u64 option"
  ot_event :: "(nat \<times> nat) option"

definition no_output :: "('u, 'v) connect_output" where
  "no_output = \<lparr>ot_changes = None, ot_settle = None, ot_event = None\<rparr>"

definition refuse_in_safe_mode ::
  "('d, 'm, 'u, 'v, 't) commit_env \<Rightarrow> (dv_item \<times> winner) list \<Rightarrow> bool \<Rightarrow> safe_mode \<Rightarrow> u64 \<Rightarrow> u64
   \<Rightarrow> ('d, 'm, 'u, 'v, 'j, 't) connect_state \<Rightarrow> ('d, 'm, 'u, 'v, 'j, 't) connect_state \<times> dv_reply" where
  "refuse_in_safe_mode ct decided three_way sm accepted next st =
     (case write_report (ct_report_written ct) (ct_report_text ct decided three_way sm) (cn_guard st) (cn_guard_disk st) of
        (g, d, written) \<Rightarrow> (st\<lparr>cn_guard := g, cn_guard_disk := d\<rparr>, SafeModeRefused accepted next (length decided) written))"

definition drop_staging :: "bool \<Rightarrow> path \<Rightarrow> fnode \<Rightarrow> fnode" where
  "drop_staging removed staging fs = (if removed then drop_path staging fs else fs)"

text \<open>The fenced apply of the staged roots, on the commit's state.\<close>

definition run_apply ::
  "('d, 'm, 'v, 'j) connect_env \<Rightarrow> ('d, 'm, 'u, 'v, 't) commit_env \<Rightarrow> string \<Rightarrow> studio_first_options option \<Rightarrow> oset
   \<Rightarrow> ('d, 'm, 'u, 'v, 'j, 't) connect_state
   \<Rightarrow> (('d, 'm, 'u, 'v, 'j, 't) connect_state \<times> studio_first_report \<times> transfer_result) option" where
  "run_apply env ct transfer_id sf roots st =
     map_option (\<lambda>(ap, r). (st\<lparr>cn_fs := ap_fs ap, cn_tree := ap_tree ap, cn_engine := ap_engine ap\<rparr>, ap_report ap, r))
       (apply_roots (ct_apply ct) (cx_codec env) (ct_age_days ct) (ct_marker_written ct) (ct_marker ct)
         (cx_workspace_dir env @ [BACKUPS_DIR]) (ct_stamp ct @ ''-'' @ transfer_id) sf roots
         \<lparr>ap_fs = cn_fs st, ap_report = report_default, ap_bytes = 0, ap_tree = cn_tree st, ap_engine = cn_engine st\<rparr>)"

text \<open>The part after the apply: the losing originals, the tree, Studio, the baselines and the base.\<close>

definition finish_commit ::
  "('d, 'm, 'v, 'j) connect_env \<Rightarrow> ('d, 'm, 'u, 'v, 't) commit_env \<Rightarrow> connect_plan \<Rightarrow> studio_first_report
   \<Rightarrow> (dv_item \<times> winner) list \<Rightarrow> ('d, 'm, 'u, 'v, 'j, 't) connect_state
   \<Rightarrow> (('d, 'm, 'u, 'v, 'j, 't) connect_state \<times> commit_state \<times> ('u, 'v) changes option) option" where
  "finish_commit env ct plan report decided st =
     (let o1 = pl_options plan;
          cm = fold (resolve_item (ct_io ct) o1 report) decided
            \<lparr>cm_fs = cn_fs st, cm_backlog = cn_backlog st, cm_captures = 0, cm_backlogged = 0,
             cm_disk_only = pl_disk_only plan, cm_to_studio = [], cm_left_disk = []\<rparr>;
          st = st\<lparr>cn_fs := drop_staging (ct_staging_removed ct) (so_staging o1) (cm_fs cm), cn_backlog := cm_backlog cm\<rparr>
      in Option.bind (forget_instances (cx_ops env) (cm_left_disk cm) (cn_tree st, cn_engine st)) (\<lambda>(t, engine).
         Option.bind (if cm_to_studio cm = [] then Some (None, engine)
             else map_option (\<lambda>(ch, engine). (Some ch, engine))
               (build_disk_apply (cx_content_of env) (cx_codec env) (cx_ops env) t (cm_to_studio cm) engine)) (\<lambda>(ch, engine).
         Option.bind (seed_all_baselines env (st\<lparr>cn_tree := t, cn_engine := engine\<rparr>)) (\<lambda>st.
         map_option (\<lambda>st. (st, cm, ch))
           (commit_sync_base env
             (set (map it_instance (filter (\<lambda>it. it_state it \<noteq> MISSING_ON_DISK) (cm_to_studio cm))))
             (fold os_insert (map it_instance_path (filter (\<lambda>it. it_state it = MISSING_ON_DISK) (cm_to_studio cm))) [])
             (cm_to_studio cm \<noteq> []) st)))))"

definition connect_commit ::
  "('d, 'm, 'v, 'j) connect_env \<Rightarrow> ('d, 'm, 'u, 'v, 't) commit_env \<Rightarrow> dv_item list \<Rightarrow> u64 \<Rightarrow> u64 \<Rightarrow> place option
   \<Rightarrow> ('d, 'm, 'u, 'v, 'j, 't) connect_state
   \<Rightarrow> (('d, 'm, 'u, 'v, 'j, 't) connect_state \<times> ('u, 'v) connect_output \<times> dv_reply) option" where
  "connect_commit env ct items accepted next pl st =
     (let base = sync_view pl (sb_inner (cn_base st)) in
      Option.bind (decide env (cn_tree st) items base) (\<lambda>winners.
        let decided = zip items winners in
        case g_safe_mode (cn_guard st) of
          Some sm \<Rightarrow>
            (case refuse_in_safe_mode ct decided (base \<noteq> None) sm accepted next st of (st, reply) \<Rightarrow> Some (st, no_output, reply))
        | None \<Rightarrow>
            (case guard_begin (ct_guard ct) (ct_guard_written ct) (ct_pid ct) (ct_guard_now ct) (cn_guard st) (cn_guard_disk st) of
               (g, d, generation) \<Rightarrow>
                 (let st = st\<lparr>cn_guard := g, cn_guard_disk := d\<rparr>;
                      roots = staged_roots decided;
                      staging = cx_workspace_dir env @ [BACKUPS_DIR, ''backlog-staging'', ct_transfer_id ct];
                      plan = connect_options (co_parse (ct_io ct)) (cn_tree st) (cn_fs st) (cx_workspace_dir env) staging roots decided
                  in Option.bind (run_apply env ct (ct_transfer_id ct) (Some (pl_options plan)) roots st) (\<lambda>(st, report, r).
                       case r of
                         TransferDone backups \<Rightarrow>
                           map_option (\<lambda>(st, cm, ch).
                             let b = (if 0 < cm_backlogged cm then sweep (ct_list_io ct) (ct_list_now ct) (ct_ttl ct) (cn_backlog st)
                                      else cn_backlog st)
                             in (st\<lparr>cn_backlog := b\<rparr>,
                                 \<lparr>ot_changes = ch, ot_settle = Some generation,
                                  ot_event = (if 0 < cm_backlogged cm then Some (length (bl_entries b), cm_backlogged cm) else None)\<rparr>,
                                 Applied accepted next backups (cm_backlogged cm) (length (cm_to_studio cm))
                                   (length (filter (\<lambda>w. w \<noteq> DiskWins) winners)) (base \<noteq> None) (roots \<noteq> [])))
                             (finish_commit env ct plan report decided st)
                       | _ \<Rightarrow> Some (st\<lparr>cn_fs := drop_staging (ct_staging_removed ct) staging (cn_fs st)\<rparr>,
                           no_output\<lparr>ot_settle := Some generation\<rparr>, ApplyFailed accepted next r))))))"

text \<open>The whole route: a chunk, and the commit when it was the last of a comparison that differs.\<close>

definition compare_route ::
  "('d, 'm, 'v, 'j) connect_env \<Rightarrow> ('d, 'm, 'u, 'v, 't) commit_env \<Rightarrow> nat \<Rightarrow> compare_request option
   \<Rightarrow> ('d, 'm, 'u, 'v, 'j, 't) connect_state
   \<Rightarrow> (('d, 'm, 'u, 'v, 'j, 't) connect_state \<times> ('u, 'v) connect_output \<times> dv_reply) option" where
  "compare_route env ct body_len request st =
     Option.bind (compare_chunk env body_len request st) (\<lambda>(st, ing). case ing of
        IngestDone reply \<Rightarrow> Some (st, no_output, reply)
      | StudioFirst items accepted next pl \<Rightarrow> connect_commit env ct items accepted next pl st)"


section \<open>The choice\<close>

text \<open>
  \<open>POST /choice\<close> and \<open>GET /choice/source\<close>. Whether a WebSocket plugin is connected, whether the
  replay of the changes succeeds and what the plugin answers are arguments; events are handed out.
\<close>

datatype choice_reply =
    ChoiceRefused dv_error
  | ChoiceCancelled
  | ChoicePending
  | ChoiceStudio transfer_result
  | ChoiceDisk
  | ChoiceDiskFailed

definition choice_roots :: "dv_item list \<Rightarrow> oset" where
  "choice_roots staged = fold os_insert (List.map_filter item_root staged) []"

definition choice_post ::
  "('d, 'm, 'v, 'j) connect_env \<Rightarrow> ('d, 'm, 'u, 'v, 't) commit_env \<Rightarrow> bool \<Rightarrow> (('u, 'v) changes \<Rightarrow> bool)
   \<Rightarrow> string option \<Rightarrow> string option \<Rightarrow> string option \<Rightarrow> ('d, 'm, 'u, 'v, 'j, 't) connect_state
   \<Rightarrow> (('d, 'm, 'u, 'v, 'j, 't) connect_state \<times> (string \<times> string) list \<times> ('u, 'v) changes option \<times> choice_reply) option" where
  "choice_post env ct connected replayed choice_id choice mode st =
     (case choice_decide choice_id choice mode (cn_divergence st) of
        (d, dec) \<Rightarrow>
          (let st = st\<lparr>cn_divergence := d\<rparr> in
           case dec of
             DecisionRefused e \<Rightarrow> Some (st, [], None, ChoiceRefused e)
           | DecisionCancel cid \<Rightarrow> Some (st, [(cid, ''cancel'')], None, ChoiceCancelled)
           | DecisionStudio cid staged \<Rightarrow>
               if \<not> connected then Some (st, [(cid, ''studio'')], None, ChoicePending)
               else map_option (\<lambda>(st, _, r). (st, [(cid, ''studio'')], None, ChoiceStudio r))
                 (run_apply env ct cid None (choice_roots staged) st)
           | DecisionDisk cid staged \<Rightarrow>
               map_option (\<lambda>(ch, engine).
                 (st\<lparr>cn_engine := engine\<rparr>, if replayed ch then [(cid, ''disk'')] else [], Some ch,
                  if replayed ch then ChoiceDisk else ChoiceDiskFailed))
                 (build_disk_apply (cx_content_of env) (cx_codec env) (cx_ops env) (cn_tree st) staged (cn_engine st))))"

datatype source_reply =
    SourceRefused dv_error
  | SourceUnavailable "no_plugin + call_error"
  | SourceSides dv_item "(string \<times> bool) option" "(string \<times> bool) option"

definition choice_source ::
  "('d, 'm, 'v, 'j) connect_env \<Rightarrow> ('f, 'c, 'o) ws_state \<Rightarrow> (dv_item \<Rightarrow> call_error + json) \<Rightarrow> string option \<Rightarrow> u32 option
   \<Rightarrow> ('d, 'm, 'u, 'v, 'j, 't) connect_state \<Rightarrow> source_reply" where
  "choice_source env ws fetch choice_id i st =
     (case choice_row choice_id i (cn_divergence st) of
        Inl e \<Rightarrow> SourceRefused e
      | Inr it \<Rightarrow>
          (let disk = disk_side env (cn_tree st) it in
           if it_state it = ONLY_ON_DISK then SourceSides it disk (side_json None)
           else case plugin_frames ws of
             Inl e \<Rightarrow> SourceUnavailable (Inl e)
           | Inr _ \<Rightarrow> (case studio_side_of it (fetch it) of
               Inl e \<Rightarrow> SourceUnavailable (Inr e)
             | Inr studio \<Rightarrow> SourceSides it disk studio)))"

end
