(* ===== verification/ConnectSafety.thy ===== *)
theory ConnectSafety
  imports Connect BacklogSafety BulkSafety
begin

text \<open>
  What the commit of a comparison promises: nothing leaves the workspace without being kept,
  the commit always answers, and what it could not apply is not recorded as agreed.
\<close>

section \<open>Files\<close>

lemma same_tree_file: "same_tree m n \<Longrightarrow> file_at p m = file_at p n"
proof (induction m n arbitrary: p rule: same_tree.induct)
  case (2 xs ys)
  have "sort (map fst xs) = sort (map fst ys)" using "2.prems" by (simp only: same_tree.simps)
  then have "set (map fst xs) = set (map fst ys)" by (metis set_sort)
  then have keys: "fst ` set xs = fst ` set ys" by simp
  show ?case
  proof (cases p)
    case (Cons c cs)
    show ?thesis
    proof (cases "c \<in> fst ` set xs")
      case True
      then obtain m n where mn: "map_of xs c = Some m" "map_of ys c = Some n"
        by (metis keys domD dom_map_of_conv_image_fst)
      have "case (map_of xs c, map_of ys c) of (Some m, Some n) \<Rightarrow> same_tree m n | _ \<Rightarrow> False"
        using "2.prems" True by (simp only: same_tree.simps list_all_iff set_sort set_map)
      then have "same_tree m n" using mn by simp
      moreover have "c \<in> set (sort (map fst xs))" using True by simp
      ultimately have "file_at cs m = file_at cs n" using "2.IH" mn by (metis (no_types, lifting))
      then show ?thesis using Cons mn by (simp add: file_at_def)
    next
      case False
      then have "map_of xs c = None" "map_of ys c = None"
        using keys by (metis (no_types) map_of_eq_None_iff)+
      then show ?thesis using Cons by (simp add: file_at_def)
    qed
  qed (simp add: file_at_def)
qed (auto simp: file_at_def)

lemma set_at_above:
  "set_at (q @ r) v fs = Some fs' \<Longrightarrow> r \<noteq> [] \<Longrightarrow> file_at q fs = None \<and> file_at q fs' = None"
proof (induction q arbitrary: fs fs')
  case Nil
  then show ?case by (cases "(r, v, fs)" rule: set_at.cases) (auto simp: file_at_def split: option.splits)
next
  case (Cons c q)
  obtain d ds where d: "q @ r = d # ds" using Cons.prems(2) by (cases "q @ r") auto
  obtain xs where fs: "fs = FDir xs" using Cons.prems(1) by (cases fs) auto
  obtain m m' where m: "map_of xs c = Some m" "set_at (q @ r) v m = Some m'" "fs' = FDir (AList.update c m' xs)"
    using Cons.prems(1) fs d by (auto split: option.splits)
  show ?case using Cons.IH [OF m(2) Cons.prems(2)] fs m by (simp add: file_at_def map_of_update)
qed

lemma drop_path_other:
  assumes "\<not> prefix p q"
  shows "file_at q (drop_path p fs) = file_at q fs"
proof (cases "set_at p None fs")
  case (Some fs')
  show ?thesis
  proof (cases "prefix q p")
    case True
    then obtain r where r: "p = q @ r" "r \<noteq> []" using assms by (auto simp: prefix_def)
    show ?thesis using set_at_above [OF _ r(2)] Some r(1) by (fastforce simp: drop_path_def)
  qed (use Some assms node_at_set_other in \<open>auto simp: drop_path_def file_at_def\<close>)
qed (simp add: drop_path_def)

lemma set_update_subset: "set (AList.update k v xs) \<subseteq> insert (k, v) (set xs)"
  by (induction xs) auto

lemma set_at_ok: "set_at p None n = Some n' \<Longrightarrow> node_ok n \<Longrightarrow> node_ok n'"
proof (induction p "None :: fnode option" n arbitrary: n' rule: set_at.induct)
  case (3 c xs)
  then show ?case by (auto simp: list_all_iff AList.delete_eq intro: distinct_map_filter)
next
  case (4 c d cs xs)
  then obtain m m' where m: "map_of xs c = Some m" "set_at (d # cs) None m = Some m'" "n' = FDir (AList.update c m' xs)"
    by (auto split: option.splits)
  have "node_ok m" using "4.prems"(2) map_of_SomeD [OF m(1)] by (auto simp: list_all_iff)
  then have "node_ok m'" using "4.hyps" m by blast
  moreover have "distinct (map fst (AList.update c m' xs))" using "4.prems"(2) by (simp add: distinct_update)
  moreover have "set (AList.update c m' xs) \<subseteq> insert (c, m') (set xs)" by (rule set_update_subset)
  ultimately show ?case using "4.prems"(2) m(3) by (auto simp: list_all_iff)
qed auto

lemma drop_path_ok: "node_ok fs \<Longrightarrow> node_ok (drop_path p fs)"
  by (auto simp: drop_path_def dest: set_at_ok split: option.splits)

lemma node_at_ok: "node_at p n = Some m \<Longrightarrow> node_ok n \<Longrightarrow> node_ok m"
proof (induction p n rule: node_at.induct)
  case (3 c cs xs)
  then obtain k where "map_of xs c = Some k" "node_at cs k = Some m" by (auto split: option.splits)
  then show ?case using 3 map_of_SomeD [of xs c k] by (fastforce simp: list_all_iff)
qed auto


section \<open>Captures\<close>

text \<open>A file of the workspace is kept: an entry for a path above it stores its bytes.\<close>

definition kept :: "connect_io \<Rightarrow> backlog \<Rightarrow> path \<Rightarrow> string \<Rightarrow> bool" where
  "kept co b q bytes \<longleftrightarrow> (\<exists>e\<in>set (bl_entries b). \<exists>rel rest n. en_path e = co_show co rel \<and>
     q = co_workspace_dir co @ rel @ rest \<and> bl_store b (en_id e) = Some n \<and> file_at rest n = Some bytes)"

definition commit_ok :: "connect_io \<Rightarrow> commit_state \<Rightarrow> bool" where
  "commit_ok co st \<longleftrightarrow> backlog_ok (cm_backlog st) \<and> node_ok (cm_fs st) \<and>
     (\<forall>j \<ge> cm_captures st. ce_uuid (co_events co j) \<notin> en_id ` set (bl_entries (cm_backlog st)))"

definition fresh_uuids :: "connect_io \<Rightarrow> bool" where
  "fresh_uuids co \<longleftrightarrow> inj (\<lambda>k. ce_uuid (co_events co k))"

lemma backlog_ok_work: "backlog_ok (b\<lparr>bl_work := w\<rparr>) = backlog_ok b"
  by (simp add: backlog_ok_def)

lemma update_entry_named:
  assumes "\<And>e. g (f e) = g e"
  shows "map g (update_entry i f es) = map g es"
proof (cases "position (\<lambda>e. en_id e = i) es")
  case (Some k)
  then have "k < length es" by (rule position_length)
  then show ?thesis using Some assms by (simp add: update_entry_def map_update list_update_same_conv)
next
  case None
  then show ?thesis unfolding update_entry_def None by simp
qed

abbreviation names_of :: "backlog \<Rightarrow> (string \<times> string) list" where
  "names_of b \<equiv> map (\<lambda>e. (en_id e, en_path e)) (bl_entries b)"

lemma capture_names:
  assumes "capture io uuid now bytes rel source r b = (b', res)"
  shows "names_of b' = names_of b \<or> names_of b' = names_of b @ [(uuid, rel)]"
proof -
  have "map (\<lambda>e. (en_id e, en_path e)) (update_entry i (refresh now r) es) = map (\<lambda>e. (en_id e, en_path e)) es" for i es
    by (rule update_entry_named) (simp add: refresh_def)
  then show ?thesis using assms by (auto simp: capture_def Let_def split: option.splits if_splits)
qed

lemma kept_names:
  assumes "kept co b q bytes" "set (names_of b) \<subseteq> set (names_of b')"
    "\<forall>e\<in>set (bl_entries b). bl_store b' (en_id e) = bl_store b (en_id e)"
  shows "kept co b' q bytes"
proof -
  obtain e rel rest n where e: "e \<in> set (bl_entries b)" "en_path e = co_show co rel"
    "q = co_workspace_dir co @ rel @ rest" "bl_store b (en_id e) = Some n" "file_at rest n = Some bytes"
    using assms(1) unfolding kept_def by blast
  have "(en_id e, en_path e) \<in> set (names_of b')" using assms(2) e(1) by auto
  then obtain e' where "e' \<in> set (bl_entries b')" "en_id e' = en_id e" "en_path e' = en_path e" by auto
  then show ?thesis using e assms(3) unfolding kept_def by metis
qed

lemma keep_fields [simp]:
  "cm_to_studio (keep co live source st) = cm_to_studio st" "cm_left_disk (keep co live source st) = cm_left_disk st"
  "cm_disk_only (keep co live source st) = cm_disk_only st"
  by (simp_all add: keep_def Let_def split: option.split prod.split)

text \<open>
  One capture: a file that leaves its place is kept under the live path, whatever file operation
  fails, and nothing kept before is lost.
\<close>

lemma keep_step:
  assumes ok: "commit_ok co st" and uuids: "fresh_uuids co"
  shows "commit_ok co (keep co live source st)"
    and "kept co (cm_backlog st) q bytes \<Longrightarrow> kept co (cm_backlog (keep co live source st)) q bytes"
    and "file_at q (cm_fs st) = Some bytes \<Longrightarrow> file_at q (cm_fs (keep co live source st)) = Some bytes \<or>
      (\<exists>rest. q = source @ rest \<and> kept co (cm_backlog (keep co live source st)) (live @ rest) bytes)"
proof -
  have goal: "commit_ok co (keep co live source st) \<and>
      (kept co (cm_backlog st) q bytes \<longrightarrow> kept co (cm_backlog (keep co live source st)) q bytes) \<and>
      (file_at q (cm_fs st) = Some bytes \<longrightarrow> file_at q (cm_fs (keep co live source st)) = Some bytes \<or>
        (\<exists>rest. q = source @ rest \<and> kept co (cm_backlog (keep co live source st)) (live @ rest) bytes))"
  proof (cases "\<exists>rel node. strip_path (co_workspace_dir co) live = Some rel \<and> node_at source (cm_fs st) = Some node")
    case False
    then have "keep co live source st = st" by (auto simp: keep_def split: option.splits)
    then show ?thesis using ok by simp
  next
    case True
    then obtain rel node where at: "strip_path (co_workspace_dir co) live = Some rel" "node_at source (cm_fs st) = Some node" by blast
    define ev where "ev = co_events co (cm_captures st)"
    let ?b = "(cm_backlog st)\<lparr>bl_work := [co_show co source \<mapsto> node]\<rparr>"
    obtain b res where cap: "capture (ce_io ev) (ce_uuid ev) (ce_now ev) (ce_bytes ev) (co_show co rel) (co_show co source) InitialSync ?b = (b, res)"
      by (cases "capture (ce_io ev) (ce_uuid ev) (ce_now ev) (ce_bytes ev) (co_show co rel) (co_show co source) InitialSync ?b")
    have st': "cm_backlog (keep co live source st) = b\<lparr>bl_work := bl_work (cm_backlog st)\<rparr>"
      "cm_fs (keep co live source st) = (if bl_work b (co_show co source) = None then drop_path source (cm_fs st) else cm_fs st)"
      "cm_captures (keep co live source st) = Suc (cm_captures st)"
      using at cap by (simp_all add: keep_def Let_def ev_def [symmetric])
    have okb: "backlog_ok ?b" and node: "node_ok node" and fresh: "ce_uuid ev \<notin> en_id ` set (bl_entries ?b)"
      using ok node_at_ok [OF at(2)] by (auto simp: commit_ok_def backlog_ok_work ev_def)
    have work: "bl_work ?b (co_show co source) = Some node" by simp
    note out = capture_outcome [OF okb fresh work node cap]
    note names = capture_names [OF cap]
    have ids: "en_id ` set (bl_entries b) \<subseteq> insert (ce_uuid ev) (en_id ` set (bl_entries (cm_backlog st)))"
    proof -
      have "set (names_of b) \<subseteq> insert (ce_uuid ev, co_show co rel) (set (names_of (cm_backlog st)))"
        using names by (elim disjE) (simp_all del: set_map, blast)
      then have "fst ` set (names_of b) \<subseteq> fst ` insert (ce_uuid ev, co_show co rel) (set (names_of (cm_backlog st)))" by blast
      then show ?thesis by (simp add: image_image)
    qed
    have "ce_uuid (co_events co j) \<notin> en_id ` set (bl_entries b)" if "Suc (cm_captures st) \<le> j" for j
    proof -
      have "ce_uuid (co_events co j) \<noteq> ce_uuid ev" using uuids that unfolding fresh_uuids_def ev_def inj_def by force
      moreover have "ce_uuid (co_events co j) \<notin> en_id ` set (bl_entries (cm_backlog st))" using ok that by (simp add: commit_ok_def)
      ultimately show ?thesis using ids by blast
    qed
    moreover have "backlog_ok b" using capture_ok [OF okb fresh work node] cap by (metis fst_conv)
    ultimately have ok': "commit_ok co (keep co live source st)"
      using ok drop_path_ok by (simp add: commit_ok_def st' backlog_ok_work)
    have sub: "set (names_of (cm_backlog st)) \<subseteq> set (names_of b)" using names by (elim disjE) (simp_all del: set_map, blast)
    have mono: "kept co (cm_backlog st) q bytes \<longrightarrow> kept co (b\<lparr>bl_work := bl_work (cm_backlog st)\<rparr>) q bytes"
    proof
      assume "kept co (cm_backlog st) q bytes"
      then show "kept co (b\<lparr>bl_work := bl_work (cm_backlog st)\<rparr>) q bytes"
        by (rule kept_names) (use sub out in simp_all)
    qed
    have moved: "file_at q (drop_path source (cm_fs st)) = Some bytes \<or>
        (\<exists>rest. q = source @ rest \<and> kept co (b\<lparr>bl_work := bl_work (cm_backlog st)\<rparr>) (live @ rest) bytes)"
      if gone: "bl_work b (co_show co source) = None" and q: "file_at q (cm_fs st) = Some bytes"
    proof (cases "prefix source q")
      case False
      then show ?thesis using drop_path_other q by simp
    next
      case True
      then obtain rest where rest: "q = source @ rest" by (auto simp: prefix_def)
      obtain e n where e: "e \<in> set (bl_entries b)" "en_path e = co_show co rel" "bl_store b (en_id e) = Some n" "same_tree n node"
        using out gone by (auto split: option.splits)
      have "file_at rest node = Some bytes" using q rest at(2) by (simp add: file_at_def node_at_append)
      then have "file_at rest n = Some bytes" using same_tree_file [OF e(4)] by simp
      moreover have "live = co_workspace_dir co @ rel" using at(1) by (simp add: strip_path_Some)
      ultimately have "kept co (b\<lparr>bl_work := bl_work (cm_backlog st)\<rparr>) (live @ rest) bytes"
        using e unfolding kept_def by fastforce
      then show ?thesis using rest by blast
    qed
    show ?thesis using ok' mono moved by (simp add: st')
  qed
  then show "commit_ok co (keep co live source st)"
    and "kept co (cm_backlog st) q bytes \<Longrightarrow> kept co (cm_backlog (keep co live source st)) q bytes"
    and "file_at q (cm_fs st) = Some bytes \<Longrightarrow> file_at q (cm_fs (keep co live source st)) = Some bytes \<or>
      (\<exists>rest. q = source @ rest \<and> kept co (cm_backlog (keep co live source st)) (live @ rest) bytes)"
    by auto
qed


section \<open>The resolution\<close>

text \<open>
  The invariant of the loop over the items, relative to the files \<open>fs0\<close> it began with: what is
  outside the staging directory and not below a preserved path is in its place or kept; what is
  in the staging directory as the original of a preserved path is there or kept under that path.
\<close>

definition nothing_lost :: "connect_io \<Rightarrow> studio_first_options \<Rightarrow> studio_first_report \<Rightarrow> fnode \<Rightarrow> commit_state \<Rightarrow> bool" where
  "nothing_lost co o1 report fs0 st \<longleftrightarrow> commit_ok co st \<and>
     (\<forall>q bytes. file_at q fs0 = Some bytes \<longrightarrow> \<not> prefix (so_staging o1) q \<longrightarrow> (\<forall>live\<in>sr_preserved report. \<not> prefix live q) \<longrightarrow>
        file_at q (cm_fs st) = Some bytes \<or> kept co (cm_backlog st) q bytes) \<and>
     (\<forall>live\<in>sr_preserved report. \<forall>rest bytes. file_at (preserved_path o1 live @ rest) fs0 = Some bytes \<longrightarrow>
        file_at (preserved_path o1 live @ rest) (cm_fs st) = Some bytes \<or> kept co (cm_backlog st) (live @ rest) bytes)"

definition paths_ok :: "connect_io \<Rightarrow> studio_first_options \<Rightarrow> studio_first_report \<Rightarrow> bool" where
  "paths_ok co o1 report \<longleftrightarrow> fresh_uuids co \<and> so_workspace_dir o1 = co_workspace_dir co \<and>
     (\<forall>live\<in>sr_preserved report. prefix (co_workspace_dir co) live)"

lemma preserved_original:
  assumes "paths_ok co o1 report" "live \<in> sr_preserved report"
  obtains rel where "live = co_workspace_dir co @ rel" "preserved_path o1 live = so_staging o1 @ rel"
  using assms by (auto simp: paths_ok_def preserved_path_def prefix_def strip_path_append)

lemma nothing_lostI:
  assumes old: "nothing_lost co o1 report fs0 st" and ok: "commit_ok co st'"
    and mono: "\<And>q bytes. kept co (cm_backlog st) q bytes \<Longrightarrow> kept co (cm_backlog st') q bytes"
    and out: "\<And>q bytes. file_at q (cm_fs st) = Some bytes \<Longrightarrow> \<not> prefix (so_staging o1) q \<Longrightarrow>
      \<forall>live\<in>sr_preserved report. \<not> prefix live q \<Longrightarrow> file_at q (cm_fs st') = Some bytes \<or> kept co (cm_backlog st') q bytes"
    and orig: "\<And>live rest bytes. live \<in> sr_preserved report \<Longrightarrow> file_at (preserved_path o1 live @ rest) (cm_fs st) = Some bytes \<Longrightarrow>
      file_at (preserved_path o1 live @ rest) (cm_fs st') = Some bytes \<or> kept co (cm_backlog st') (live @ rest) bytes"
  shows "nothing_lost co o1 report fs0 st'"
  using old ok mono out orig unfolding nothing_lost_def by metis

lemma keep_original:
  assumes "paths_ok co o1 report" "live \<in> sr_preserved report" "nothing_lost co o1 report fs0 st"
  shows "nothing_lost co o1 report fs0 (keep co live (preserved_path o1 live) st)"
proof -
  have pre: "commit_ok co st" "fresh_uuids co" using assms by (simp_all add: nothing_lost_def paths_ok_def)
  obtain rel where rel: "live = co_workspace_dir co @ rel" "preserved_path o1 live = so_staging o1 @ rel"
    by (rule preserved_original [OF assms(1,2)])
  show ?thesis
  proof (rule nothing_lostI [OF assms(3)])
    fix q bytes
    assume "file_at q (cm_fs st) = Some bytes" "\<not> prefix (so_staging o1) q"
    then show "file_at q (cm_fs (keep co live (preserved_path o1 live) st)) = Some bytes \<or>
        kept co (cm_backlog (keep co live (preserved_path o1 live) st)) q bytes"
      using keep_step(3) [OF pre, of q bytes live "preserved_path o1 live"] rel(2) by (auto simp: prefix_def)
  next
    fix other rest bytes
    assume other: "other \<in> sr_preserved report" and at: "file_at (preserved_path o1 other @ rest) (cm_fs st) = Some bytes"
    obtain rel' where rel': "other = co_workspace_dir co @ rel'" "preserved_path o1 other = so_staging o1 @ rel'"
      by (rule preserved_original [OF assms(1) other])
    then show "file_at (preserved_path o1 other @ rest) (cm_fs (keep co live (preserved_path o1 live) st)) = Some bytes \<or>
        kept co (cm_backlog (keep co live (preserved_path o1 live) st)) (other @ rest) bytes"
      using keep_step(3) [OF pre at, of live "preserved_path o1 live"] rel by auto
  qed (use keep_step [OF pre] in blast)+
qed

lemma not_below_apart: "apart p q \<Longrightarrow> \<not> prefix p (q @ r)"
  by (auto simp: apart_def prefix_def append_eq_append_conv2)

lemma keep_in_place:
  assumes "paths_ok co o1 report" "apart live (so_staging o1)" "nothing_lost co o1 report fs0 st"
  shows "nothing_lost co o1 report fs0 (keep co live live st)"
proof -
  have pre: "commit_ok co st" "fresh_uuids co" using assms by (simp_all add: nothing_lost_def paths_ok_def)
  show ?thesis
  proof (rule nothing_lostI [OF assms(3)])
    fix other rest bytes
    assume other: "other \<in> sr_preserved report" and at: "file_at (preserved_path o1 other @ rest) (cm_fs st) = Some bytes"
    obtain rel where "preserved_path o1 other = so_staging o1 @ rel" by (rule preserved_original [OF assms(1) other])
    then have "\<not> prefix live (preserved_path o1 other @ rest)" using not_below_apart [OF assms(2)] by simp
    then show "file_at (preserved_path o1 other @ rest) (cm_fs (keep co live live st)) = Some bytes \<or>
        kept co (cm_backlog (keep co live live st)) (other @ rest) bytes"
      using keep_step(3) [OF pre at, of live live] by (auto simp: prefix_def)
  next
    fix q bytes
    assume "file_at q (cm_fs st) = Some bytes"
    then show "file_at q (cm_fs (keep co live live st)) = Some bytes \<or> kept co (cm_backlog (keep co live live st)) q bytes"
      using keep_step(3) [OF pre, of q bytes live live] by auto
  qed (use keep_step [OF pre] in blast)+
qed

lemma remove_preserved:
  assumes "paths_ok co o1 report" "apart live (so_staging o1)" "live \<in> sr_preserved report" "nothing_lost co o1 report fs0 st"
  shows "nothing_lost co o1 report fs0 (remove_live co live st)"
proof (rule nothing_lostI [OF assms(4)])
  show "commit_ok co (remove_live co live st)"
    using assms(4) drop_path_ok by (simp add: nothing_lost_def remove_live_def commit_ok_def)
next
  fix other rest bytes
  assume other: "other \<in> sr_preserved report" and at: "file_at (preserved_path o1 other @ rest) (cm_fs st) = Some bytes"
  obtain rel where "preserved_path o1 other = so_staging o1 @ rel" by (rule preserved_original [OF assms(1) other])
  then have "\<not> prefix live (preserved_path o1 other @ rest)" using not_below_apart [OF assms(2)] by simp
  then show "file_at (preserved_path o1 other @ rest) (cm_fs (remove_live co live st)) = Some bytes \<or>
      kept co (cm_backlog (remove_live co live st)) (other @ rest) bytes"
    using at drop_path_other by (simp add: remove_live_def)
qed (use assms(3) drop_path_other in \<open>auto simp: remove_live_def\<close>)

lemma fold_keeps:
  assumes "P st" "\<And>x st. x \<in> set xs \<Longrightarrow> P st \<Longrightarrow> P (f x st)"
  shows "P (fold f xs st)"
  using assms by (induction xs arbitrary: st) auto

lemma resolve_live_safe:
  assumes "paths_ok co o1 report" "apart live (so_staging o1)" "nothing_lost co o1 report fs0 (fst r)"
  shows "nothing_lost co o1 report fs0 (fst (resolve_live co o1 report live r))"
  using assms keep_original keep_in_place remove_preserved
  by (auto simp: resolve_live_def Let_def split: prod.splits)


definition disk_only_apart :: "path \<Rightarrow> commit_state \<Rightarrow> bool" where
  "disk_only_apart staging st \<longleftrightarrow> (\<forall>i paths. cm_disk_only st i = Some paths \<longrightarrow> (\<forall>p\<in>set paths. apart p staging))"

lemma nothing_lost_fields:
  assumes "nothing_lost co o1 report fs0 st" "cm_fs st' = cm_fs st" "cm_backlog st' = cm_backlog st" "cm_captures st' = cm_captures st"
  shows "nothing_lost co o1 report fs0 st'"
  using assms unfolding nothing_lost_def commit_ok_def by simp

lemma resolve_live_disk_only [simp]:
  "cm_disk_only (fst (resolve_live co o1 report live r)) = cm_disk_only (fst r)"
  by (simp add: resolve_live_def Let_def remove_live_def split: prod.split)

lemma resolve_disk_only_safe:
  assumes paths: "paths_ok co o1 report" and apart: "disk_only_apart (so_staging o1) st"
    and safe: "nothing_lost co o1 report fs0 st"
  shows "nothing_lost co o1 report fs0 (resolve_disk_only co o1 report it w st) \<and>
    disk_only_apart (so_staging o1) (resolve_disk_only co o1 report it w st)"
proof -
  define ps where "ps = (case cm_disk_only st (it_id it) of Some ps \<Rightarrow> ps | None \<Rightarrow> [])"
  define st1 where "st1 = st\<lparr>cm_disk_only := (cm_disk_only st)(it_id it := None)\<rparr>"
  define r where "r = fold (resolve_live co o1 report) ps (st1, w = DiskWins, False)"
  have "\<forall>p\<in>set ps. apart p (so_staging o1)" using apart unfolding ps_def disk_only_apart_def by (cases "cm_disk_only st (it_id it)") auto
  moreover have "nothing_lost co o1 report fs0 st1" using safe by (rule nothing_lost_fields) (simp_all add: st1_def)
  ultimately have "nothing_lost co o1 report fs0 (fst r) \<and> cm_disk_only (fst r) = cm_disk_only st1"
    unfolding r_def using resolve_live_safe [OF paths]
    by (intro fold_keeps [where P = "\<lambda>r. nothing_lost co o1 report fs0 (fst r) \<and> cm_disk_only (fst r) = cm_disk_only st1"]) simp_all
  moreover have "disk_only_apart (so_staging o1) st1" using apart by (auto simp: disk_only_apart_def st1_def)
  moreover have "resolve_disk_only co o1 report it w st = (case r of (st, pushable, leaves) \<Rightarrow>
             if pushable then st\<lparr>cm_to_studio := cm_to_studio st @ [it]\<rparr>
             else if leaves then st\<lparr>cm_left_disk := cm_left_disk st @ [it_instance it]\<rparr>
             else st)"
    by (simp add: resolve_disk_only_def r_def st1_def ps_def)
  ultimately show ?thesis
    by (auto simp: disk_only_apart_def intro: nothing_lost_fields split: prod.split)
qed

lemma resolve_item_safe:
  assumes paths: "paths_ok co o1 report" and apart: "disk_only_apart (so_staging o1) st"
    and safe: "nothing_lost co o1 report fs0 st"
  shows "nothing_lost co o1 report fs0 (resolve_item co o1 report x st) \<and>
    disk_only_apart (so_staging o1) (resolve_item co o1 report x st)"
proof -
  have demoted: "nothing_lost co o1 report fs0 (keep_demoted co o1 report i st) \<and>
      cm_disk_only (keep_demoted co o1 report i st) = cm_disk_only st" for i
    unfolding keep_demoted_def using safe keep_original [OF paths]
    by (intro fold_keeps [where P = "\<lambda>s. nothing_lost co o1 report fs0 s \<and> cm_disk_only s = cm_disk_only st"]) simp_all
  have pushed: "nothing_lost co o1 report fs0 (st\<lparr>cm_to_studio := its\<rparr>)" for its
    using safe by (rule nothing_lost_fields) simp_all
  show ?thesis
    using apart safe keep_original [OF paths] demoted pushed resolve_disk_only_safe [OF paths apart safe]
    by (auto simp: resolve_item_def disk_only_apart_def split: prod.splits option.splits)
qed



definition example_io :: connect_io where
  "example_io = \<lparr>co_show = join_slash, co_parse = split_slash, co_sha = (\<lambda>b. b), co_workspace_dir = [''w''],
     co_events = (\<lambda>k. \<lparr>ce_io = \<lparr>io_prepare = True, io_rename = True, io_copy = True, io_remove = True, io_persist = True\<rparr>,
       ce_uuid = replicate k CHR ''x'', ce_now = 100, ce_bytes = 1\<rparr>), co_removed = (\<lambda>_. True)\<rparr>"

definition example_options :: studio_first_options where
  "example_options = \<lparr>so_workspace_dir = [''w''], so_staging = [''w'', ''.wsync-backups'', ''s''], so_preserve = [],
     so_disk_only = [], so_keep_live = [], so_drop_staged = []\<rparr>"

definition lost_item :: dv_item where
  "lost_item = \<lparr>it_id = 0, it_instance = 2, it_path = Some ''a'', it_instance_path = ''A'', it_state = ONLY_ON_DISK,
     it_class = ''Script'', it_studio = \<lparr>ss_key = None, ss_descendants = None\<rparr>\<rparr>"

lemma example_uuids: "fresh_uuids example_io"
  by (auto simp: fresh_uuids_def example_io_def inj_def)



section \<open>The commit answers\<close>

text \<open>A tree as \<open>Tree::new\<close> and its operations keep it: well formed, and with metadata for every instance.\<close>

definition tree_full :: "('d, 'm, 'v) tree_ops \<Rightarrow> ('d, 'm, 'u) tree \<Rightarrow> bool" where
  "tree_full ops t \<longleftrightarrow> tree_ok ops t \<and> (\<forall>i. dom_get ops (t_dom t) i \<noteq> None \<longrightarrow> t_id_to_meta t i \<noteq> None)"

lemma tree_full_wf: "tree_full ops t \<Longrightarrow> dom_wf (root_ref ops t) (dom_get ops (t_dom t))"
  by (simp add: tree_full_def tree_ok_def)

lemma tree_full_root:
  assumes "tree_full ops t"
  obtains r where "rid r = root_ref ops t" "represents (dom_get ops (t_dom t)) r"
  using rose_exists [OF tree_full_wf [OF assms], of "root_ref ops t"] tree_full_wf [OF assms] that
  by (auto simp: dom_wf_def)

lemma subtree_refs_ends:
  assumes "tree_full ops t"
  shows "\<exists>ids. subtree_refs ops t i = Some ids"
proof (cases "dom_get ops (t_dom t) i")
  case None
  then have "subtree_loop (dom_get ops (t_dom t)) [i] 0 = Some [i]"
    by (subst subtree_loop.simps, simp, subst subtree_loop.simps, simp)
  then show ?thesis by (simp add: subtree_refs_def)
next
  case (Some x)
  then show ?thesis using subtree_refs_result [OF tree_full_wf [OF assms], of i] by (metis option.discI)
qed

text \<open>The snapshot a tree of instances stands for.\<close>

fun snap_of :: "(string \<Rightarrow> 'v variant) \<Rightarrow> (dref \<Rightarrow> 'v inst option) \<Rightarrow> (dref \<Rightarrow> 'u meta option) \<Rightarrow> rose \<Rightarrow> ('u, 'v) snapshot" where
  "snap_of content_of get mt (Rose i ts) =
     Snapshot i (the (mt i)) (in_name (the (get i))) (in_class (the (get i)))
       (apply_migrations content_of (in_class (the (get i))) (in_properties (the (get i)))) (map (snap_of content_of get mt) ts)"

lemma snapshot_kids_forest:
  assumes "\<forall>r\<in>set ts. represents (dom_get ops (t_dom t)) r" "\<forall>i. dom_get ops (t_dom t) i \<noteq> None \<longrightarrow> t_id_to_meta t i \<noteq> None"
  shows "snapshot_kids content_of ops t (map rid ts) = Some (Some (map (snap_of content_of (dom_get ops (t_dom t)) (t_id_to_meta t)) ts))"
  using assms(1)
proof (induction ts rule: measure_induct_rule [of "\<lambda>ts. length (forest_labels ts)"])
  case (less ts)
  show ?case
  proof (cases ts)
    case Nil
    then show ?thesis by (subst snapshot_kids.simps) simp
  next
    case (Cons r ts')
    obtain i us where r: "r = Rose i us" by (cases r)
    obtain x where x: "dom_get ops (t_dom t) i = Some x" "in_children x = map rid us" using less.prems Cons r by auto
    obtain mt where mt: "t_id_to_meta t i = Some mt" using assms(2) x(1) by auto
    have "snapshot_kids content_of ops t (map rid us) =
        Some (Some (map (snap_of content_of (dom_get ops (t_dom t)) (t_id_to_meta t)) us))"
      using less.prems Cons r by (intro less.IH) auto
    moreover have "snapshot_kids content_of ops t (map rid ts') =
        Some (Some (map (snap_of content_of (dom_get ops (t_dom t)) (t_id_to_meta t)) ts'))"
      using less.prems Cons r by (intro less.IH) auto
    ultimately show ?thesis
      using Cons r x mt by (subst snapshot_kids.simps) (simp add: get_meta_def get_instance_def)
  qed
qed

lemma core_snapshot_ends:
  assumes "tree_full ops t"
  shows "\<exists>r. core_snapshot content_of ops t i = Some (Some r)"
proof -
  define k where "k = (if i \<noteq> ref_none then i else root_ref ops t)"
  show ?thesis
  proof (cases "dom_get ops (t_dom t) k")
    case None
    then show ?thesis by (auto simp: core_snapshot_def Let_def k_def [symmetric] get_instance_def)
  next
    case (Some x)
    obtain mt where mt: "t_id_to_meta t k = Some mt" using assms Some by (auto simp: tree_full_def)
    obtain r where r: "rid r = k" "represents (dom_get ops (t_dom t)) r"
      using rose_exists [OF tree_full_wf [OF assms], of k] Some by auto
    then have "\<forall>u\<in>set (rkids r). represents (dom_get ops (t_dom t)) u" "in_children x = map rid (rkids r)"
      using Some by (cases r; simp)+
    then show ?thesis
      using snapshot_kids_forest [of "rkids r" ops t content_of] assms Some mt
      by (auto simp: core_snapshot_def Let_def k_def [symmetric] get_instance_def get_meta_def tree_full_def)
  qed
qed

lemma forget_instances_ends:
  assumes "dom_laws ops" "multi_laws ops"
  shows "tree_full ops (fst st) \<Longrightarrow> \<exists>t e. forget_instances ops ids st = Some (t, e) \<and> tree_full ops t"
proof (induction ids arbitrary: st)
  case Nil
  then show ?case by (cases st) auto
next
  case (Cons i ids)
  obtain t e where st: "st = (t, e)" by (cases st)
  have full: "tree_full ops t" using Cons.prems st by simp
  obtain refs where refs: "subtree_refs ops t i = Some refs" using subtree_refs_ends [OF full] by blast
  have "\<exists>t'. remove_instance ops i t = Some (Some t') \<and> tree_full ops t'" if at: "exists_inst ops t i"
  proof (cases "i = root_ref ops t")
    case True
    then show ?thesis
      using full by (simp add: remove_instance_def Let_def bump_def root_ref_def tree_full_def tree_ok_def index_ok_def get_ids_def)
  next
    case False
    obtain x where x: "dom_get ops (t_dom t) i = Some x" using at by (auto simp: exists_inst_def)
    have ok: "tree_ok ops t" using full by (simp add: tree_full_def)
    obtain t' refs' where t': "remove_instance ops i t = Some (Some t')" "tree_ok ops t'" "root_ref ops t' = root_ref ops t"
      "dom_get ops (t_dom t') = destroyed (dom_get ops (t_dom t)) i (in_parent x)"
      "t_id_to_meta t' = (\<lambda>j. if j \<in> below (dom_get ops (t_dom t)) i then None else t_id_to_meta t j)"
      "walk (dom_get ops (t_dom t)) [i] [] = Some (Some refs')" "t_generation t' = t_generation t + 1 + of_nat (length refs')"
      by (rule remove_instance_result [OF assms ok x False])
    have "t_id_to_meta t' j \<noteq> None" if "dom_get ops (t_dom t') j \<noteq> None" for j
      using that full unfolding t'(4,5) destroyed_def tree_full_def by (auto split: if_splits)
    then show ?thesis using t'(1,2) by (auto simp: tree_full_def)
  qed
  then show ?case using Cons.IH full refs st by (cases "exists_inst ops t i") auto
qed


lemma build_disk_apply_ends:
  assumes "tree_full ops t"
  shows "\<exists>ch e. build_disk_apply content_of c ops t staged engine = Some (ch, e)"
proof -
  have "\<exists>ch e. add_staged content_of c ops t its st = Some (ch, e)" for its st
  proof (induction its arbitrary: st)
    case Nil
    then show ?case by (cases st) simp
  next
    case (Cons it its)
    obtain ch e where st: "st = (ch, e)" by (cases st)
    obtain r where r: "core_snapshot content_of ops t (it_instance it) = Some (Some r)" using core_snapshot_ends [OF assms] by blast
    obtain ids where "subtree_refs ops t (it_instance it) = Some ids" using subtree_refs_ends [OF assms] by blast
    then show ?case using Cons.IH r st by (cases r) (simp_all add: stamp_subtree_def)
  qed
  then show ?thesis by (simp add: build_disk_apply_def)
qed

lemma commit_sync_base_ends:
  assumes "tree_full (cx_ops env) (cn_tree st)"
  shows "\<exists>b. commit_sync_base env hold held settle st = Some (st\<lparr>cn_base := b\<rparr>) \<and> sb_synced (sb_inner b)"
proof -
  obtain r where r: "rid r = root_ref (cx_ops env) (cn_tree st)" "represents (dom_get (cx_ops env) (t_dom (cn_tree st))) r"
    by (rule tree_full_root [OF assms])
  obtain out where "snapshot_tree (cx_base env) (cx_ops env) (cn_tree st) hold = Some out"
    using snapshot_tree_result [OF r, of "cx_base env" hold] by metis
  then show ?thesis by (auto simp: commit_sync_base_def commit_def Let_def)
qed

lemma seed_all_baselines_ends:
  assumes "tree_full (cx_ops env) (cn_tree st)"
  shows "\<exists>e. seed_all_baselines env st = Some (st\<lparr>cn_engine := e\<rparr>)"
proof -
  obtain ids where "subtree_refs (cx_ops env) (cn_tree st) (root_ref (cx_ops env) (cn_tree st)) = Some ids"
    using subtree_refs_ends [OF assms] by blast
  then show ?thesis by (auto simp: seed_all_baselines_def)
qed

lemma decide_ends:
  assumes "tree_full (cx_ops env) t"
  shows "\<exists>winners. decide env t items base = Some winners"
proof -
  obtain r where r: "rid r = root_ref (cx_ops env) t" "represents (dom_get (cx_ops env) (t_dom t)) r" by (rule tree_full_root [OF assms])
  obtain amb where "ambiguous_paths (cx_ops env) t = Some amb" using ambiguous_paths_result [OF tree_full_wf [OF assms] r] by metis
  then show ?thesis by (simp add: decide_def)
qed

text \<open>The apply of the roots ends as well: every pull is bounded, and the refreshed tree is a tree again.\<close>

definition apply_env_ok :: "('d, 'm, 'v) tree_ops \<Rightarrow> ('d, 'm, 'u, 'v) apply_env \<Rightarrow> bool" where
  "apply_env_ok ops ae \<longleftrightarrow> ae_ops ae = ops \<and> (\<forall>i fs t. tree_full ops t \<longrightarrow> tree_full ops (ae_refresh ae i fs t))"

lemma pull_sources_ends: "\<exists>r. pull_sources c reads claims = Some r"
proof (induction claims)
  case (Cons x claims)
  obtain reference claim where x: "x = (reference, claim)" by (cases x)
  obtain r1 where "read_loop c claim (reads reference) 0 [] = Some r1" using read_loop_ends by blast
  then obtain r2 where "pull_source c claim (reads reference) = Some r2" by (auto simp: pull_source_def split: sum.splits)
  then show ?case using Cons x by (cases r2) (auto split: sum.splits)
qed simp

lemma commit_root_ends:
  assumes "apply_env_ok ops ae" "tree_full ops (ap_tree st)"
  shows "\<exists>st' r. commit_root ae c dir root sf target fence pulled sources st = Some (st', r) \<and> tree_full ops (ap_tree st')"
proof -
  define t where "t fs = ae_refresh ae (rt_id target) fs (ap_tree st)" for fs
  have full: "tree_full ops (t fs)" for fs using assms by (simp add: apply_env_ok_def t_def)
  define ids where "ids fs = the (subtree_refs ops (t fs) (rt_id target))" for fs
  have ids: "subtree_refs ops (t fs) (rt_id target) = Some (ids fs)" for fs
    using subtree_refs_ends [OF full, of fs "rt_id target"] by (auto simp: ids_def)
  have ops: "ae_ops ae = ops" using assms(1) by (simp add: apply_env_ok_def)
  show ?thesis
    using assms(2) full by (simp add: commit_root_def Let_def ops t_def [symmetric] ids split: option.split prod.split)
qed

lemma apply_root_ends:
  assumes "apply_env_ok ops ae" "tree_full ops (ap_tree st)"
  shows "\<exists>st' r. apply_root ae c dir name root sf st = Some (st', r) \<and> tree_full ops (ap_tree st')"
proof -
  have commit: "\<exists>st'. (\<exists>r. commit_root ae c dir root sf target fence pulled sources st0 = Some (st', r)) \<and> tree_full ops (ap_tree st')"
    if "ap_tree st0 = ap_tree st" for target fence pulled sources st0
    using commit_root_ends [OF assms(1), of st0 c dir root sf target fence pulled sources] assms(2) that by auto
  define f where "f claims = the (pull_sources (ae_pull ae) (ae_source_read ae) claims)" for claims
  have f: "pull_sources (ae_pull ae) (ae_source_read ae) claims = Some (f claims)" for claims
    using pull_sources_ends [of "ae_pull ae" "ae_source_read ae" claims] by (auto simp: f_def)
  show ?thesis
    using assms(2) commit unfolding apply_root_def Let_def f
    by (auto split: sum.split option.split prod.split)
qed


lemma apply_loop_ends:
  assumes "\<forall>root. apply_env_ok ops (ae root)"
  shows "tree_full ops (ap_tree st) \<Longrightarrow>
    \<exists>st' r. apply_loop ae c dir name sf roots committed st = Some (st', r) \<and> tree_full ops (ap_tree st')"
proof (induction roots arbitrary: committed st)
  case (Cons root roots)
  obtain st' r where r: "apply_root (ae root) c dir name root sf st = Some (st', r)" "tree_full ops (ap_tree st')"
    using apply_root_ends [of ops "ae root" st c dir name root sf] assms Cons.prems by blast
  then show ?case using Cons.IH [OF r(2)] by (cases r) auto
qed auto

lemma run_apply_ends:
  assumes "\<forall>root. apply_env_ok (cx_ops env) (ct_apply ct root)" "tree_full (cx_ops env) (cn_tree st)"
  obtains fs t e report r where "run_apply env ct tid sf roots st = Some (st\<lparr>cn_fs := fs, cn_tree := t, cn_engine := e\<rparr>, report, r)"
    "tree_full (cx_ops env) t"
proof -
  let ?ap = "\<lparr>ap_fs = cn_fs st, ap_report = report_default, ap_bytes = 0, ap_tree = cn_tree st, ap_engine = cn_engine st\<rparr>"
  let ?apply = "apply_roots (ct_apply ct) (cx_codec env) (ct_age_days ct) (ct_marker_written ct) (ct_marker ct)
         (cx_workspace_dir env @ [BACKUPS_DIR]) (ct_stamp ct @ ''-'' @ tid) sf roots ?ap"
  have "\<exists>ap r. ?apply = Some (ap, r) \<and> tree_full (cx_ops env) (ap_tree ap)"
  proof (cases "roots = [] \<or> make_dirs (cx_workspace_dir env @ [BACKUPS_DIR] @ [ct_stamp ct @ ''-'' @ tid])
      (prune_backups (ct_age_days ct) (cx_workspace_dir env @ [BACKUPS_DIR]) (cn_fs st)) = None")
    case True
    then show ?thesis using assms(2) by (auto simp: apply_roots_def Let_def)
  next
    case False
    then obtain fs where fs: "roots \<noteq> []" "make_dirs (cx_workspace_dir env @ [BACKUPS_DIR] @ [ct_stamp ct @ ''-'' @ tid])
      (prune_backups (ct_age_days ct) (cx_workspace_dir env @ [BACKUPS_DIR]) (cn_fs st)) = Some fs" by auto
    from apply_loop_ends [OF assms(1), of "?ap\<lparr>ap_fs := fs\<rparr>" "cx_codec env"
        "(cx_workspace_dir env @ [BACKUPS_DIR]) @ [ct_stamp ct @ ''-'' @ tid]" "ct_stamp ct @ ''-'' @ tid" sf roots "[]"]
    obtain ap r where ap: "apply_loop (ct_apply ct) (cx_codec env)
        ((cx_workspace_dir env @ [BACKUPS_DIR]) @ [ct_stamp ct @ ''-'' @ tid]) (ct_stamp ct @ ''-'' @ tid) sf roots []
        (?ap\<lparr>ap_fs := fs\<rparr>) = Some (ap, r)" "tree_full (cx_ops env) (ap_tree ap)"
      using assms(2) by auto
    then show ?thesis using fs by (cases r) (auto simp: apply_roots_def Let_def)
  qed
  then show thesis using that by (auto simp: run_apply_def)
qed

lemma finish_commit_ends:
  assumes "dom_laws (cx_ops env)" "multi_laws (cx_ops env)" "tree_full (cx_ops env) (cn_tree st)"
  shows "\<exists>st' cm ch. finish_commit env ct plan report decided st = Some (st', cm, ch) \<and>
    tree_full (cx_ops env) (cn_tree st') \<and> sb_synced (sb_inner (cn_base st'))"
proof -
  define cm where "cm = fold (resolve_item (ct_io ct) (pl_options plan) report) decided
            \<lparr>cm_fs = cn_fs st, cm_backlog = cn_backlog st, cm_captures = 0, cm_backlogged = 0,
             cm_disk_only = pl_disk_only plan, cm_to_studio = [], cm_left_disk = []\<rparr>"
  define st1 where "st1 = st\<lparr>cn_fs := drop_staging (ct_staging_removed ct) (so_staging (pl_options plan)) (cm_fs cm), cn_backlog := cm_backlog cm\<rparr>"
  obtain t e where t: "forget_instances (cx_ops env) (cm_left_disk cm) (cn_tree st1, cn_engine st1) = Some (t, e)" "tree_full (cx_ops env) t"
    using forget_instances_ends [OF assms(1,2), of "(cn_tree st1, cn_engine st1)" "cm_left_disk cm"] assms(3) by (auto simp: st1_def)
  obtain ch0 e0 where "build_disk_apply (cx_content_of env) (cx_codec env) (cx_ops env) t (cm_to_studio cm) e = Some (ch0, e0)"
    using build_disk_apply_ends [OF t(2)] by blast
  then obtain ch e2 where ch: "(if cm_to_studio cm = [] then Some (None, e)
      else map_option (\<lambda>(ch, engine). (Some ch, engine))
        (build_disk_apply (cx_content_of env) (cx_codec env) (cx_ops env) t (cm_to_studio cm) e)) = Some (ch, e2)"
    by (cases "cm_to_studio cm = []") simp_all
  obtain e3 where e3: "seed_all_baselines env (st1\<lparr>cn_tree := t, cn_engine := e2\<rparr>) = Some (st1\<lparr>cn_tree := t, cn_engine := e3\<rparr>)"
    using seed_all_baselines_ends [of env "st1\<lparr>cn_tree := t, cn_engine := e2\<rparr>"] t(2) by auto
  define hold where "hold = set (map it_instance (filter (\<lambda>it. it_state it \<noteq> MISSING_ON_DISK) (cm_to_studio cm)))"
  define held where "held = fold os_insert (map it_instance_path (filter (\<lambda>it. it_state it = MISSING_ON_DISK) (cm_to_studio cm))) []"
  define st2 where "st2 = st1\<lparr>cn_tree := t, cn_engine := e3\<rparr>"
  have "tree_full (cx_ops env) (cn_tree st2)" using t(2) by (simp add: st2_def)
  from commit_sync_base_ends [OF this, of hold held "cm_to_studio cm \<noteq> []"]
  obtain b where b: "commit_sync_base env hold held (cm_to_studio cm \<noteq> []) st2 = Some (st2\<lparr>cn_base := b\<rparr>)" "sb_synced (sb_inner b)" by blast
  have "finish_commit env ct plan report decided st = Some (st2\<lparr>cn_base := b\<rparr>, cm, ch)"
    unfolding finish_commit_def Let_def cm_def [symmetric] st1_def [symmetric] t(1) bind.bind_lunit prod.case ch e3
      hold_def [symmetric] held_def [symmetric] st2_def [symmetric] b(1) by simp
  then show ?thesis using b(2) t(2) by (simp add: st2_def)
qed



lemma example_tree_full: "tree_full example_ops example_tree"
proof -
  have "\<forall>i. dom_get example_ops (t_dom example_tree) i \<noteq> None \<longrightarrow> t_id_to_meta example_tree i \<noteq> None"
    by (auto simp: example_tree_def tree_new_def TreeSafety.example_snapshot_def example_draw_def insert_at_def insert_meta_def
        example_ops_def bump_def root_ref_def Let_def numeral_2_eq_2 split: if_splits)
  then show ?thesis using example_tree_ok(1) by (simp add: tree_full_def)
qed

definition example_apply ::
  "(dref \<times> (dref \<Rightarrow> bool inst option), path \<Rightarrow> dref list option, unit, bool) apply_env" where
  "example_apply = \<lparr>ae_clean = (\<lambda>p. p), ae_ops = example_ops,
     ae_pull = \<lparr>pc_ref = (\<lambda>_. Some 7), pc_lower = (\<lambda>s. s), pc_base64 = Some, pc_digest = (\<lambda>s. s),
       pc_properties = (\<lambda>_. Some []), pc_utf8_lossy = (\<lambda>s. s), pc_content_of = VContentId\<rparr>,
     ae_sha = (\<lambda>b. b), ae_io = all_io, ae_read_subtree = (\<lambda>_. Inr JNull), ae_source_read = (\<lambda>_ _ _. Inr JNull),
     ae_meanwhile = (\<lambda>fs. fs), ae_materialize = (\<lambda>_ _ _ _ _. None), ae_refresh = (\<lambda>_ _ t. t)\<rparr>"

definition example_commit ::
  "(dref \<times> (dref \<Rightarrow> bool inst option), path \<Rightarrow> dref list option, unit, bool, unit) commit_env" where
  "example_commit = \<lparr>ct_transfer_id = ''t'', ct_stamp = ''2026'', ct_io = example_io, ct_apply = (\<lambda>_. example_apply),
     ct_age_days = (\<lambda>_. None), ct_marker_written = True, ct_marker = [], ct_guard = \<lparr>mc_write = (\<lambda>_. ()), mc_read = (\<lambda>_. None)\<rparr>,
     ct_guard_written = True, ct_pid = 1, ct_guard_now = 5, ct_report_written = True, ct_report_text = (\<lambda>_ _ _. []),
     ct_staging_removed = True, ct_list_io = ce_io (co_events example_io 0), ct_list_now = 100, ct_ttl = 60\<rparr>"


end
