(* ===== verification/Vfs.thy ===== *)
theory Vfs
  imports Meta "HOL-Library.Multiset" "HOL-Library.AList"
begin

text \<open>
  The virtual file system (\<^verbatim>\<open>src/vfs\<close>): the events of the watcher, the debouncer that holds them
  while the processor writes and drops the echoes of its own writes
  (\<^verbatim>\<open>src/vfs/debouncer.rs\<close>), the list of watched paths (\<^verbatim>\<open>src/vfs/std_backend.rs\<close>) and the
  in-memory backend (\<^verbatim>\<open>src/vfs/mem_backend.rs\<close>).

  The raw events come from \<open>notify\<close> and are data here. The processor's channel is the list of
  what was sent to it. A pass of the debouncer reads the pause state first and takes the lock on
  the held events after it: the two are separate steps, and the processor can pause in between.
  Instants count microseconds here.
\<close>

section \<open>Events\<close>

datatype vfs_event = Create path | Delete path | Write path

primrec event_path :: "vfs_event \<Rightarrow> path" where
  "event_path (Create p) = p"
| "event_path (Delete p) = p"
| "event_path (Write p) = p"

text \<open>The raw events the translation looks at, with the first of their paths.\<close>

datatype rename_mode = RenameFrom | RenameTo | RenameOther

datatype event_kind = EkCreate | EkRemove | EkName rename_mode | EkCloseWrite | EkOther

record raw_event =
  re_kind :: event_kind
  re_path :: path
  re_time :: instant

definition DEBOUNCE_TIME :: duration where "DEBOUNCE_TIME = 500"
definition HELD_POLL :: duration where "HELD_POLL = 50 * 1000"
definition SELF_WRITE_MEMORY :: duration where "SELF_WRITE_MEMORY = 10 * 1000 * 1000"
definition SYNCBACK_DEBOUNCE_TIME :: duration where "SYNCBACK_DEBOUNCE_TIME = 300 * 1000"

text \<open>The translation on Linux: a write that closes a file just created is part of its creation.\<close>

record debounce_context =
  dc_time :: instant
  dc_path :: path

definition debounce :: "raw_event \<Rightarrow> debounce_context \<Rightarrow> debounce_context \<times> vfs_event option" where
  "debounce e ctx =
     (case re_kind e of
        EkCreate \<Rightarrow> (ctx\<lparr>dc_time := re_time e, dc_path := re_path e\<rparr>, Some (Create (re_path e)))
      | EkRemove \<Rightarrow> (ctx, Some (Delete (re_path e)))
      | EkName mode \<Rightarrow> (ctx, case mode of RenameFrom \<Rightarrow> Some (Delete (re_path e)) | RenameTo \<Rightarrow> Some (Create (re_path e)) | RenameOther \<Rightarrow> None)
      | EkCloseWrite \<Rightarrow>
          (ctx, if re_time e - dc_time ctx < DEBOUNCE_TIME \<and> re_path e = dc_path ctx then None else Some (Write (re_path e)))
      | EkOther \<Rightarrow> (ctx, None))"

fun translate :: "raw_event list \<Rightarrow> debounce_context \<Rightarrow> debounce_context \<times> vfs_event list" where
  "translate [] ctx = (ctx, [])"
| "translate (e # es) ctx =
     (case debounce e ctx of (ctx, ev) \<Rightarrow>
        case translate es ctx of (ctx, evs) \<Rightarrow> (ctx, (case ev of Some x \<Rightarrow> [x] | None \<Rightarrow> []) @ evs))"

section \<open>The debouncer\<close>

record debouncer =
  db_paused :: bool
  db_stamp :: instant
  db_events :: "vfs_event list"
  db_self_writes :: "(path \<times> instant) list"
  db_context :: debounce_context
  db_sent :: "vfs_event list"
  db_suppressed :: u64

definition debouncer_new :: "instant \<Rightarrow> debouncer" where
  "debouncer_new now = \<lparr>db_paused = False, db_stamp = now, db_events = [], db_self_writes = [],
     db_context = \<lparr>dc_time = now, dc_path = []\<rparr>, db_sent = [], db_suppressed = 0\<rparr>"

definition db_pause :: "instant \<Rightarrow> debouncer \<Rightarrow> debouncer" where
  "db_pause now d = d\<lparr>db_paused := True, db_stamp := now\<rparr>"

definition db_resume :: "instant \<Rightarrow> debouncer \<Rightarrow> debouncer" where
  "db_resume now d = d\<lparr>db_paused := False, db_stamp := now\<rparr>"

definition note_self_write :: "path \<Rightarrow> instant \<Rightarrow> debouncer \<Rightarrow> debouncer" where
  "note_self_write p now d = d\<lparr>db_self_writes := AList.update p now (db_self_writes d)\<rparr>"

text \<open>Whether the processor is writing, or wrote so recently that its echoes may still arrive.\<close>

definition writing :: "instant \<Rightarrow> debouncer \<Rightarrow> bool" where
  "writing now d \<longleftrightarrow> db_paused d \<or> now - db_stamp d < SYNCBACK_DEBOUNCE_TIME"

text \<open>The flush pass, after it read the pause state.\<close>

definition on_flush :: "bool \<Rightarrow> raw_event list \<Rightarrow> debouncer \<Rightarrow> debouncer" where
  "on_flush held raw d =
     (case translate raw (db_context d) of
        (ctx, evs) \<Rightarrow>
          if held then d\<lparr>db_context := ctx, db_events := db_events d @ evs\<rparr>
          else d\<lparr>db_context := ctx, db_sent := db_sent d @ evs\<rparr>)"

definition is_echo :: "(path \<times> instant) list \<Rightarrow> path \<Rightarrow> bool" where
  "is_echo self_writes p \<longleftrightarrow> list_ex (\<lambda>(q, _). prefix q p) self_writes"

text \<open>The release pass, after it saw the window closed. The events it drops are returned too.\<close>

definition release_held :: "instant \<Rightarrow> debouncer \<Rightarrow> debouncer \<times> vfs_event list" where
  "release_held now d =
     (let recent = filter (\<lambda>(_, written). now - written < SELF_WRITE_MEMORY) (db_self_writes d);
          echoes = filter (\<lambda>e. is_echo recent (event_path e)) (db_events d);
          real = filter (\<lambda>e. \<not> is_echo recent (event_path e)) (db_events d)
      in (d\<lparr>db_self_writes := recent, db_events := [], db_sent := db_sent d @ real,
            db_suppressed := db_suppressed d + of_nat (length echoes)\<rparr>, echoes))"

text \<open>The watch list of the standard backend: a path below a watched one is not watched again.\<close>

definition vfs_watch :: "bool \<Rightarrow> bool \<Rightarrow> path \<Rightarrow> path list \<Rightarrow> (unit + path list)" where
  "vfs_watch watching accepted p watched =
     (if \<not> watching \<or> list_ex (\<lambda>q. prefix q p) watched then Inr watched
      else if \<not> accepted then Inl () else Inr (watched @ [p]))"

definition vfs_unwatch :: "bool \<Rightarrow> path \<Rightarrow> path list \<Rightarrow> path list" where
  "vfs_unwatch watching p watched = (if \<not> watching then watched else filter (\<lambda>q. \<not> prefix p q) watched)"


section \<open>No event is lost\<close>

text \<open>
  The steps of the watcher, the release thread and the processor in any interleaving. The run
  keeps, beside the debouncer, the translated events in order of arrival and the events dropped
  as echoes with the time of their drop.
\<close>

datatype db_action =
    DbPause instant
  | DbResume instant
  | DbNote path instant
  | DbFlush bool "raw_event list"
  | DbRelease instant

record db_run =
  dr_state :: debouncer
  dr_arrived :: "vfs_event list"
  dr_dropped :: "(vfs_event \<times> instant) list"

fun db_exec :: "db_action \<Rightarrow> db_run \<Rightarrow> db_run" where
  "db_exec (DbPause now) r = r\<lparr>dr_state := db_pause now (dr_state r)\<rparr>"
| "db_exec (DbResume now) r = r\<lparr>dr_state := db_resume now (dr_state r)\<rparr>"
| "db_exec (DbNote p now) r = r\<lparr>dr_state := note_self_write p now (dr_state r)\<rparr>"
| "db_exec (DbFlush held raw) r =
     r\<lparr>dr_state := on_flush held raw (dr_state r),
       dr_arrived := dr_arrived r @ snd (translate raw (db_context (dr_state r)))\<rparr>"
| "db_exec (DbRelease now) r =
     (case release_held now (dr_state r) of
        (d, echoes) \<Rightarrow> r\<lparr>dr_state := d, dr_dropped := dr_dropped r @ map (\<lambda>e. (e, now)) echoes\<rparr>)"

definition db_start :: "instant \<Rightarrow> db_run" where
  "db_start now = \<lparr>dr_state = debouncer_new now, dr_arrived = [], dr_dropped = []\<rparr>"

definition db_inv :: "(path \<times> instant) set \<Rightarrow> db_run \<Rightarrow> bool" where
  "db_inv noted r \<longleftrightarrow>
     mset (dr_arrived r) = mset (db_sent (dr_state r)) + mset (db_events (dr_state r)) + mset (map fst (dr_dropped r)) \<and>
     db_suppressed (dr_state r) = of_nat (length (dr_dropped r)) \<and>
     set (db_self_writes (dr_state r)) \<subseteq> noted \<and>
     (\<forall>(e, now)\<in>set (dr_dropped r). \<exists>q t. (q, t) \<in> noted \<and> prefix q (event_path e) \<and> now - t < SELF_WRITE_MEMORY)"

primrec notes_of :: "db_action \<Rightarrow> (path \<times> instant) set" where
  "notes_of (DbPause now) = {}"
| "notes_of (DbResume now) = {}"
| "notes_of (DbNote p now) = {(p, now)}"
| "notes_of (DbFlush held raw) = {}"
| "notes_of (DbRelease now) = {}"

lemma alist_update_subset: "set (AList.update k v xs) \<subseteq> insert (k, v) (set xs)"
  by (induction xs) auto

lemma db_inv_mono: "db_inv noted r \<Longrightarrow> noted \<subseteq> noted' \<Longrightarrow> db_inv noted' r"
  unfolding db_inv_def by blast

lemma mset_filter_split: "mset xs = mset (filter P xs) + mset (filter (\<lambda>x. \<not> P x) xs)"
  by (induction xs) auto

lemma release_inv:
  assumes "db_inv noted r"
  shows "db_inv noted (db_exec (DbRelease now) r)"
proof -
  obtain d where d: "dr_state r = d" by simp
  define recent where "recent = filter (\<lambda>(_, written). now - written < SELF_WRITE_MEMORY) (db_self_writes d)"
  define echoes where "echoes = filter (\<lambda>e. is_echo recent (event_path e)) (db_events d)"
  define real where "real = filter (\<lambda>e. \<not> is_echo recent (event_path e)) (db_events d)"
  have state: "db_exec (DbRelease now) r = r\<lparr>dr_state := d\<lparr>db_self_writes := recent, db_events := [], db_sent := db_sent d @ real,
      db_suppressed := db_suppressed d + of_nat (length echoes)\<rparr>, dr_dropped := dr_dropped r @ map (\<lambda>e. (e, now)) echoes\<rparr>"
    by (simp add: release_held_def Let_def d recent_def real_def echoes_def)
  have sub: "set recent \<subseteq> noted" using assms d by (auto simp: recent_def db_inv_def)
  have echo: "\<exists>q t. (q, t) \<in> noted \<and> prefix q (event_path e) \<and> now - t < SELF_WRITE_MEMORY" if e: "e \<in> set echoes" for e
  proof -
    obtain q t where "(q, t) \<in> set recent" "prefix q (event_path e)"
      using e by (auto simp: echoes_def is_echo_def list_ex_iff)
    then show ?thesis using sub by (auto simp: recent_def)
  qed
  have parts: "mset (db_events d) = mset echoes + mset real"
    unfolding echoes_def real_def by (rule mset_filter_split)
  have old: "mset (dr_arrived r) = mset (db_sent d) + mset (db_events d) + mset (map fst (dr_dropped r))"
    "db_suppressed d = of_nat (length (dr_dropped r))"
    using assms unfolding db_inv_def d by blast+
  have firsts: "map fst (map (\<lambda>e. (e, now)) echoes) = echoes" by (induction echoes) simp_all
  have "mset (dr_arrived r) = mset (db_sent d @ real) + mset (map fst (dr_dropped r @ map (\<lambda>e. (e, now)) echoes))"
    unfolding old(1) parts map_append firsts mset_append by (simp only: ac_simps)
  moreover have "db_suppressed d + of_nat (length echoes) = of_nat (length (dr_dropped r @ map (\<lambda>e. (e, now)) echoes))"
    unfolding old(2) length_append length_map of_nat_add by (rule refl)
  moreover have "\<forall>(e, now)\<in>set (dr_dropped r @ map (\<lambda>e. (e, now)) echoes).
      \<exists>q t. (q, t) \<in> noted \<and> prefix q (event_path e) \<and> now - t < SELF_WRITE_MEMORY"
    using assms echo by (auto simp: db_inv_def)
  ultimately show ?thesis using sub unfolding state by (simp add: db_inv_def)
qed

lemma db_exec_inv:
  assumes "db_inv noted r"
  shows "db_inv (noted \<union> notes_of a) (db_exec a r)"
proof (cases a)
  case (DbNote p now)
  have inv: "db_inv (noted \<union> notes_of a) r" by (rule db_inv_mono [OF assms]) simp
  have "set (db_self_writes (dr_state r)) \<subseteq> noted" using assms unfolding db_inv_def by blast
  then have "set (AList.update p now (db_self_writes (dr_state r))) \<subseteq> noted \<union> notes_of a"
    using alist_update_subset [of p now "db_self_writes (dr_state r)"] DbNote by auto
  then show ?thesis using inv by (simp add: DbNote db_inv_def note_self_write_def)
next
  case (DbFlush held raw)
  then show ?thesis using assms by (auto simp: db_inv_def on_flush_def split: prod.splits)
next
  case (DbRelease now)
  then show ?thesis using release_inv [OF assms, of now] by (simp add: db_inv_mono)
qed (use assms in \<open>simp_all add: db_inv_def db_pause_def db_resume_def\<close>)

lemma db_run_inv:
  "db_inv noted r \<Longrightarrow> db_inv (noted \<union> (\<Union>a\<in>set acts. notes_of a)) (fold db_exec acts r)"
proof (induction acts arbitrary: noted r)
  case (Cons a acts)
  from Cons.IH [OF db_exec_inv [OF Cons.prems, of a]] show ?case by (simp add: Un_assoc)
qed simp



text \<open>
  The processor's own writes are forgotten after ten seconds, and the release pass forgets them
  before it looks at the held events: the echo of a write made early in a pause of more than ten
  seconds is delivered as if someone else had written.
\<close>

lemma long_pause_releases_echo:
  "db_sent (dr_state (fold db_exec [DbPause 0, DbNote [''a''] 5, DbFlush True [\<lparr>re_kind = EkCloseWrite, re_path = [''a''], re_time = 600\<rparr>],
      DbResume 11000000, DbRelease 11400000] (db_start 0))) = [Write [''a'']]"
  by (simp add: db_start_def debouncer_new_def db_pause_def db_resume_def note_self_write_def on_flush_def
      debounce_def release_held_def is_echo_def SELF_WRITE_MEMORY_def DEBOUNCE_TIME_def)


section \<open>The in-memory backend\<close>

text \<open>Its paths are relative: the empty list is the empty path.\<close>

datatype vfs_entry = Directory "path list" | File "char list"

type_synonym mem_backend = "path \<rightharpoonup> vfs_entry"

datatype mem_error = NotFound path | NotFile path | NotDir path

definition mem_new :: mem_backend where
  "mem_new = Map.empty"

definition get_entry :: "path \<Rightarrow> mem_backend \<Rightarrow> mem_error + vfs_entry" where
  "get_entry p fs = (case fs p of Some entry \<Rightarrow> Inr entry | None \<Rightarrow> Inl (NotFound p))"

definition mem_read :: "path \<Rightarrow> mem_backend \<Rightarrow> mem_error + char list" where
  "mem_read p fs =
     (case get_entry p fs of Inl e \<Rightarrow> Inl e | Inr (File contents) \<Rightarrow> Inr contents | Inr (Directory _) \<Rightarrow> Inl (NotFile p))"

definition mem_read_dir :: "path \<Rightarrow> mem_backend \<Rightarrow> mem_error + path list" where
  "mem_read_dir p fs =
     (case get_entry p fs of Inl e \<Rightarrow> Inl e | Inr (File _) \<Rightarrow> Inl (NotDir p) | Inr (Directory children) \<Rightarrow> Inr children)"

definition mem_write :: "path \<Rightarrow> char list \<Rightarrow> mem_backend \<Rightarrow> mem_backend \<times> mem_error option" where
  "mem_write p contents fs =
     (case fs p of
        Some (Directory _) \<Rightarrow> (fs, Some (NotFile p))
      | _ \<Rightarrow> (fs(p \<mapsto> File contents), None))"

text \<open>The loop over the components: \<open>before\<close> is the directory they continue.\<close>

fun create_dirs :: "path \<Rightarrow> string list \<Rightarrow> mem_backend \<Rightarrow> mem_backend \<times> mem_error option" where
  "create_dirs before [] fs = (fs, None)"
| "create_dirs before (part # rest) fs =
     (let cur = before @ [part]
      in case fs cur of
           Some (File _) \<Rightarrow> (fs, Some (NotDir cur))
         | Some (Directory _) \<Rightarrow> create_dirs cur rest fs
         | None \<Rightarrow>
             let fs = fs(cur \<mapsto> Directory [])
             in create_dirs cur rest
                  (case fs before of Some (Directory children) \<Rightarrow> fs(before \<mapsto> Directory (children @ [cur])) | _ \<Rightarrow> fs))"

definition mem_create_dir :: "path \<Rightarrow> mem_backend \<Rightarrow> mem_backend \<times> mem_error option" where
  "mem_create_dir p fs = create_dirs [] p fs"

text \<open>The parent of the root is unwrapped: renaming it panics, here \<open>None\<close>.\<close>

definition mem_rename :: "path \<Rightarrow> path \<Rightarrow> mem_backend \<Rightarrow> (mem_backend \<times> mem_error option) option" where
  "mem_rename from to fs =
     (case fs from of
        None \<Rightarrow> Some (fs, Some (NotFound from))
      | Some entry \<Rightarrow>
          if from = [] then None
          else
            let fs = (fs(from := None))(to \<mapsto> entry);
                parent = butlast from
            in Some (case fs parent of
                       Some (Directory children) \<Rightarrow> fs(parent \<mapsto> Directory (filter (\<lambda>p. p \<noteq> from) children @ [to]))
                     | _ \<Rightarrow> fs, None))"

definition mem_remove :: "path \<Rightarrow> mem_backend \<Rightarrow> mem_backend \<times> mem_error option" where
  "mem_remove p fs =
     (case fs p of
        None \<Rightarrow> (fs, Some (NotFound p))
      | Some (File _) \<Rightarrow> (fs(p := None), None)
      | Some (Directory _) \<Rightarrow> (\<lambda>q. if prefix p q then None else fs q, None))"

definition mem_exists :: "path \<Rightarrow> mem_backend \<Rightarrow> bool" where
  "mem_exists p fs \<longleftrightarrow> fs p \<noteq> None"

definition mem_is_dir :: "path \<Rightarrow> mem_backend \<Rightarrow> bool" where
  "mem_is_dir p fs \<longleftrightarrow> (case fs p of Some (Directory _) \<Rightarrow> True | _ \<Rightarrow> False)"

definition mem_is_file :: "path \<Rightarrow> mem_backend \<Rightarrow> bool" where
  "mem_is_file p fs \<longleftrightarrow> (case fs p of Some (File _) \<Rightarrow> True | _ \<Rightarrow> False)"

text \<open>
  What a caller writes it reads back, every other path keeps its entry, and a directory is
  refused; a removal leaves nothing at or below its path and nothing else changed.
\<close>

lemma mem_write_read:
  "snd (mem_write p contents fs) = (if mem_is_dir p fs then Some (NotFile p) else None) \<and>
   mem_read q (fst (mem_write p contents fs)) = (if q = p \<and> \<not> mem_is_dir p fs then Inr contents else mem_read q fs)"
  by (auto simp: mem_write_def mem_read_def get_entry_def mem_is_dir_def split: option.splits vfs_entry.splits)

lemma mem_remove_exact:
  assumes "mem_exists p fs"
  shows "fst (mem_remove p fs) q = (if q = p \<or> mem_is_dir p fs \<and> prefix p q then None else fs q)"
  using assms by (auto simp: mem_remove_def mem_exists_def mem_is_dir_def split: option.splits vfs_entry.splits)

lemma create_dirs_exact:
  "create_dirs before parts fs = (fs', None) \<Longrightarrow>
     (\<forall>k\<in>{0<..length parts}. mem_is_dir (before @ take k parts) fs') \<and>
     (\<forall>q. mem_is_dir q fs \<longrightarrow> mem_is_dir q fs') \<and>
     (\<forall>q c. fs q = Some (File c) \<longrightarrow> fs' q = Some (File c))"
proof (induction before parts fs arbitrary: fs' rule: create_dirs.induct)
  case (1 before fs)
  then show ?case by simp
next
  case (2 before part rest fs)
  let ?cur = "before @ [part]"
  obtain mid where run: "create_dirs ?cur rest mid = (fs', None)" and cur: "mem_is_dir ?cur mid"
    and dirs: "\<And>q. mem_is_dir q fs \<Longrightarrow> mem_is_dir q mid" and files: "\<And>q c. fs q = Some (File c) \<Longrightarrow> mid q = Some (File c)"
    and IH: "(\<forall>k\<in>{0<..length rest}. mem_is_dir (?cur @ take k rest) fs') \<and> (\<forall>q. mem_is_dir q mid \<longrightarrow> mem_is_dir q fs') \<and>
      (\<forall>q c. mid q = Some (File c) \<longrightarrow> fs' q = Some (File c))"
  proof (cases "fs ?cur")
    case None
    let ?new = "fs(?cur \<mapsto> Directory [])"
    let ?mid = "case ?new before of Some (Directory children) \<Rightarrow> ?new(before \<mapsto> Directory (children @ [?cur])) | _ \<Rightarrow> ?new"
    have run: "create_dirs ?cur rest ?mid = (fs', None)" using 2(3) None by (simp add: Let_def)
    have "mem_is_dir ?cur ?mid" "\<And>q. mem_is_dir q fs \<Longrightarrow> mem_is_dir q ?mid" "\<And>q c. fs q = Some (File c) \<Longrightarrow> ?mid q = Some (File c)"
      using None by (auto simp: mem_is_dir_def split: option.splits vfs_entry.splits)
    with run 2(1) [OF refl None refl run] show ?thesis by (intro that [of ?mid]) blast+
  next
    case (Some e)
    show ?thesis
    proof (cases e)
      case (Directory cs)
      with 2(3) Some have run: "create_dirs ?cur rest fs = (fs', None)" by (simp add: Let_def)
      from run 2(2) [OF refl Some Directory run] show ?thesis
        using Some Directory by (intro that [of fs]) (auto simp: mem_is_dir_def)
    next
      case (File c)
      with 2(3) Some show ?thesis by (simp add: Let_def)
    qed
  qed
  have "mem_is_dir (before @ take k (part # rest)) fs'" if k: "k \<in> {0<..length (part # rest)}" for k
  proof (cases "k = 1")
    case True
    then show ?thesis using IH cur by simp
  next
    case False
    then obtain j where "k = Suc j" "0 < j" "j \<le> length rest" using k by (cases k) auto
    then show ?thesis using IH by simp
  qed
  then show ?case using IH dirs files by blast
qed

text \<open>
  A renamed directory leaves its contents behind: what was below it is still found at the old
  path, whose directory is gone, and nothing is found at the new one.
\<close>

lemma rename_leaves_contents:
  "case mem_rename [''d''] [''e''] (fst (mem_write [''d'', ''f''] ''x'' (fst (mem_create_dir [''d''] mem_new)))) of
     Some (fs, err) \<Rightarrow> err = None \<and> mem_is_dir [''e''] fs \<and> \<not> mem_exists [''d''] fs \<and>
       mem_read [''d'', ''f''] fs = Inr ''x'' \<and> \<not> mem_exists [''e'', ''f''] fs
   | None \<Rightarrow> False"
  by (simp add: mem_rename_def mem_write_def mem_create_dir_def mem_new_def mem_is_dir_def mem_exists_def mem_read_def get_entry_def)

end
