(* ===== verification/FsView.thy ===== *)
theory FsView
  imports Fs
begin

text \<open>
  What is at each path of a file system, as a function on paths: two trees that differ only in
  the order of directory entries have the same view. One law per file operation says when it
  succeeds and what its result looks like, so a proof about a sequence of operations is a proof
  about functions.
\<close>

datatype kind = KFile string | KDir

primrec kind_of :: "fnode \<Rightarrow> kind" where
  "kind_of (FFile b) = KFile b"
| "kind_of (FDir xs) = KDir"

definition kind_at :: "fnode \<Rightarrow> path \<Rightarrow> kind option" where
  "kind_at n p = map_option kind_of (node_at p n)"

lemma kind_at_exists: "fs_exists p n \<longleftrightarrow> kind_at n p \<noteq> None"
  by (simp add: fs_exists_def kind_at_def)

lemma kind_at_is_dir: "is_dir p n \<longleftrightarrow> kind_at n p = Some KDir"
  by (auto simp: is_dir_def kind_at_def split: option.splits fnode.splits)

lemma kind_at_file: "file_at p n = Some b \<longleftrightarrow> kind_at n p = Some (KFile b)"
  by (auto simp: file_at_def kind_at_def split: option.splits fnode.splits)

lemma kind_at_below: "kind_at n (p @ q) = Option.bind (node_at p n) (\<lambda>m. kind_at m q)"
  by (simp add: kind_at_def node_at_append map_option_bind comp_def)

lemma node_at_none_below: "node_at p n = None \<Longrightarrow> node_at (p @ q) n = None"
  by (simp add: node_at_append)

lemma kind_at_none_below: "kind_at n p = None \<Longrightarrow> kind_at n (p @ q) = None"
  by (simp add: kind_at_def node_at_none_below)

lemma kind_at_parent:
  assumes "kind_at n (p @ c # q) \<noteq> None"
  shows "kind_at n p = Some KDir"
proof -
  obtain m where m: "node_at p n = Some m" "node_at (c # q) m \<noteq> None"
    using assms by (auto simp: kind_at_def node_at_append split: bind_splits)
  then show ?thesis by (cases m) (auto simp: kind_at_def)
qed

lemma kind_at_prefix:
  assumes "kind_at n q \<noteq> None" "strict_prefix p q"
  shows "kind_at n p = Some KDir"
proof -
  obtain c r where "q = p @ c # r" using assms(2) by (auto elim: strict_prefixE')
  then show ?thesis using assms(1) kind_at_parent by blast
qed

lemma kind_at_prefix_none: "kind_at n p = None \<Longrightarrow> prefix p q \<Longrightarrow> kind_at n q = None"
  by (auto simp: prefix_def kind_at_none_below)

section \<open>Putting and taking away\<close>

lemma set_at_succeeds:
  "p \<noteq> [] \<Longrightarrow> is_dir (butlast p) n \<Longrightarrow> \<exists>n'. set_at p v n = Some n'"
proof (induction p v n rule: set_at.induct)
  case (4 c d cs v xs)
  then show ?case by (auto simp: is_dir_def split: option.splits)
qed (auto simp: is_dir_def split: if_splits)

lemma kind_at_set_above:
  "set_at p v n = Some n' \<Longrightarrow> strict_prefix q p \<Longrightarrow> kind_at n' q = Some KDir \<and> kind_at n q = Some KDir"
proof (induction p v n arbitrary: q n' rule: set_at.induct)
  case (3 c v xs)
  then show ?case by (cases q) (auto simp: kind_at_def)
next
  case (4 c d cs v xs)
  obtain m m' where m: "map_of xs c = Some m" "set_at (d # cs) v m = Some m'" "n' = FDir (AList.update c m' xs)"
    using "4.prems"(1) by (auto split: option.splits)
  show ?case
  proof (cases q)
    case (Cons e es)
    then have "e = c" "strict_prefix es (d # cs)" using "4.prems"(2) by auto
    with "4.IH" [OF m(1,2)] show ?thesis using m Cons by (simp add: kind_at_def map_of_update)
  qed (use m in \<open>simp add: kind_at_def\<close>)
qed auto

lemma kind_at_set:
  assumes "set_at p (Some m) n = Some n'" "p \<noteq> []"
  shows "kind_at n' q = (if prefix p q then kind_at m (drop (length p) q) else kind_at n q)"
proof (cases "prefix p q")
  case True
  then obtain r where "q = p @ r" by (auto elim: prefixE)
  then show ?thesis using node_at_set_below [OF assms, of r] by (simp add: kind_at_def)
next
  case False
  show ?thesis
  proof (cases "prefix q p")
    case True
    then have "strict_prefix q p" using False by (metis prefix_order.order_iff_strict)
    then show ?thesis using kind_at_set_above [OF assms(1)] False by simp
  qed (use False node_at_set_other [OF assms(1), of q] in \<open>simp add: kind_at_def\<close>)
qed

lemma kind_at_unset:
  assumes "set_at p None n = Some n'" "p \<noteq> []"
  shows "kind_at n' q = (if prefix p q then None else kind_at n q)"
proof (cases "prefix p q")
  case True
  then obtain r where r: "q = p @ r" by (auto elim: prefixE)
  have "node_at p n' = None" by (rule node_at_set_same [OF assms])
  then show ?thesis by (simp add: r kind_at_def node_at_none_below)
next
  case False
  show ?thesis
  proof (cases "prefix q p")
    case True
    then have "strict_prefix q p" using False by (metis prefix_order.order_iff_strict)
    then show ?thesis using kind_at_set_above [OF assms(1)] False by simp
  qed (use False node_at_set_other [OF assms(1), of q] in \<open>simp add: kind_at_def\<close>)
qed

section \<open>Directories\<close>

lemma make_dirs_ok:
  "(\<And>q. prefix q p \<Longrightarrow> kind_at n q \<in> {None, Some KDir}) \<Longrightarrow> \<exists>n'. make_dirs p n = Some n'"
proof (induction p n rule: make_dirs.induct)
  case (1 n)
  from 1 [of "[]"] show ?case by (cases n) (auto simp: kind_at_def)
next
  case (2 c cs b)
  from 2 [of "[]"] show ?case by (simp add: kind_at_def)
next
  case (3 c cs xs)
  have "kind_at (case map_of xs c of None \<Rightarrow> FDir [] | Some m \<Rightarrow> m) q \<in> {None, Some KDir}" if q: "prefix q cs" for q
    using "3.prems" [of "c # q"] q by (cases q) (auto simp: kind_at_def split: option.splits)
  with "3.IH" show ?case by auto
qed

lemma make_dirs_files:
  "make_dirs p n = Some n' \<Longrightarrow> prefix q p \<Longrightarrow> kind_at n q \<in> {None, Some KDir}"
proof (induction p n arbitrary: q n' rule: make_dirs.induct)
  case (1 n)
  then show ?case by (cases n) (auto simp: kind_at_def)
next
  case (3 c cs xs)
  then show ?case by (cases q) (fastforce simp: kind_at_def split: option.splits)+
qed auto

lemma make_dirs_above: "make_dirs p n = Some n' \<Longrightarrow> prefix q p \<Longrightarrow> kind_at n' q = Some KDir"
proof (induction p n arbitrary: q n' rule: make_dirs.induct)
  case (1 n)
  then show ?case by (cases n) (auto simp: kind_at_def)
next
  case (3 c cs xs)
  then show ?case by (cases q) (auto simp: kind_at_def map_of_update)
qed auto

lemma kind_at_make_dirs:
  assumes "make_dirs p n = Some n'"
  shows "kind_at n' q = (if prefix q p then Some KDir else kind_at n q)"
  using make_dirs_above [OF assms, of q] make_dirs_other [OF assms, of q] by (simp add: kind_at_def)

section \<open>Renames\<close>

lemma rename_ok:
  assumes "fs_exists from n" "\<not> fs_exists to n" "\<not> prefix from to" "to \<noteq> []" "is_dir (butlast to) n"
  shows "\<exists>n'. rename_to from to n = Some n'"
proof -
  obtain m where m: "node_at from n = Some m" using assms(1) by (auto simp: fs_exists_def)
  have "from \<noteq> []" using assms(3) by auto
  have "is_dir (butlast from) n"
  proof -
    have "from = butlast from @ last from # []" using \<open>from \<noteq> []\<close> by simp
    then have "kind_at n (butlast from @ last from # []) \<noteq> None" using m by (simp add: kind_at_def)
    then show ?thesis using kind_at_parent kind_at_is_dir by blast
  qed
  then obtain n1 where n1: "set_at from None n = Some n1" using set_at_succeeds \<open>from \<noteq> []\<close> by blast
  have "\<not> prefix from (butlast to)" using assms(3) prefix_order.trans prefix_def
    by (metis append_butlast_last_id assms(4))
  then have "is_dir (butlast to) n1"
    using assms(5) kind_at_unset [OF n1 \<open>from \<noteq> []\<close>] by (simp add: kind_at_is_dir)
  then obtain n2 where "set_at to (Some m) n1 = Some n2" using set_at_succeeds assms(4) by blast
  then show ?thesis using assms m n1 by (simp add: rename_to_def)
qed

lemma kind_at_rename:
  assumes "rename_to from to n = Some n'" "to \<noteq> []"
  shows "kind_at n' q =
    (if prefix to q then kind_at n (from @ drop (length to) q) else if prefix from q then None else kind_at n q)"
proof -
  obtain m n1 where m: "node_at from n = Some m" "\<not> prefix from to" "set_at from None n = Some n1" "set_at to (Some m) n1 = Some n'"
    using assms(1) by (auto simp: rename_to_def bind_eq_Some_conv split: option.splits if_splits)
  have "from \<noteq> []" using m(2) by auto
  show ?thesis
    using kind_at_set [OF m(4) assms(2), of q] kind_at_unset [OF m(3) \<open>from \<noteq> []\<close>, of q] m(1) by (simp add: kind_at_below)
qed

end
