(* ===== verification/Reshape.thy ===== *)
theory Reshape
  imports FsView
begin

text \<open>
  Crash-safe reshapes between the flat and the folder form of an instance
  (\<^verbatim>\<open>src/core/helpers/reshape.rs\<close>): the plan, the journaled transaction in its staging directory,
  and the recovery of an interrupted one.

  The daemon may die at any file operation, and the operating system may refuse any of them; the
  disk sees the same. So a run is given the number of operations it survives. The operation it
  does not survive is not atomic unless it is a rename: a cut creation leaves some of the
  directories, a cut write part of the bytes, a cut removal part of the tree. The journal's
  text is \<open>serde_json\<close>'s.
\<close>

section \<open>File operations that may be the last\<close>

datatype reshape_error =
    IoError
  | DifferentParents path path
  | OutsideParent path
  | NotPlain path
  | ReplacesItself path
  | NothingToReshape path
  | TargetExists path path
  | CannotFinish path path
  | CorruptedManifest path
  | UnsupportedManifest path

datatype 'a outcome = Done 'a | Bailed reshape_error | Died

record disk =
  d_fs :: fnode
  d_left :: nat

text \<open>What the operation that is cut off leaves.\<close>

record crash =
  cr_made :: nat
  cr_written :: "string \<Rightarrow> string option"
  cr_torn :: "fnode \<Rightarrow> fnode"

definition crash_ok :: "crash \<Rightarrow> bool" where
  "crash_ok c \<longleftrightarrow> (\<forall>n p. kind_at (cr_torn c n) p \<noteq> None \<longrightarrow> kind_at (cr_torn c n) p = kind_at n p)"

definition rbind :: "'a outcome \<times> disk \<Rightarrow> ('a \<Rightarrow> disk \<Rightarrow> 'b outcome \<times> disk) \<Rightarrow> 'b outcome \<times> disk" where
  "rbind r f = (case r of (Done x, d) \<Rightarrow> f x d | (Bailed e, d) \<Rightarrow> (Bailed e, d) | (Died, d) \<Rightarrow> (Died, d))"

definition mutate :: "(fnode \<Rightarrow> fnode option) \<Rightarrow> (fnode \<Rightarrow> fnode option) \<Rightarrow> disk \<Rightarrow> unit outcome \<times> disk" where
  "mutate halfway op d =
     (if d_left d = 0 then (Died, case halfway (d_fs d) of Some fs \<Rightarrow> d\<lparr>d_fs := fs\<rparr> | None \<Rightarrow> d)
      else case op (d_fs d) of
             None \<Rightarrow> (Bailed IoError, d)
           | Some fs \<Rightarrow> (Done (), \<lparr>d_fs = fs, d_left = d_left d - 1\<rparr>))"

definition vfs_create_dir :: "crash \<Rightarrow> path \<Rightarrow> disk \<Rightarrow> unit outcome \<times> disk" where
  "vfs_create_dir c p = mutate (make_dirs (take (cr_made c) p)) (make_dirs p)"

definition vfs_rename :: "path \<Rightarrow> path \<Rightarrow> disk \<Rightarrow> unit outcome \<times> disk" where
  "vfs_rename from to = mutate Some (rename_to from to)"

definition vfs_write :: "crash \<Rightarrow> path \<Rightarrow> string \<Rightarrow> disk \<Rightarrow> unit outcome \<times> disk" where
  "vfs_write c p contents =
     mutate (\<lambda>fs. case cr_written c contents of None \<Rightarrow> None | Some part \<Rightarrow> if is_dir p fs then None else set_at p (Some (FFile part)) fs)
       (\<lambda>fs. if is_dir p fs then None else set_at p (Some (FFile contents)) fs)"

definition vfs_remove :: "crash \<Rightarrow> path \<Rightarrow> disk \<Rightarrow> unit outcome \<times> disk" where
  "vfs_remove c p =
     mutate (\<lambda>fs. case node_at p fs of None \<Rightarrow> None | Some n \<Rightarrow> set_at p (Some (cr_torn c n)) fs)
       (\<lambda>fs. if fs_exists p fs then set_at p None fs else None)"

section \<open>The plan\<close>

definition RESHAPE_SUFFIX :: string where "RESHAPE_SUFFIX = ''.wsync-reshape''"
definition RMANIFEST :: string where "RMANIFEST = ''reshape.json''"
definition MANIFEST_VERSION :: "32 word" where "MANIFEST_VERSION = 1"

record manifest =
  rm_version :: "32 word"
  rm_old :: "path list"
  rm_new :: "path list"
  rm_moves :: "(path \<times> path) list"

datatype recovery = Discarded | RolledForward

definition staging_dir :: "path \<Rightarrow> string \<Rightarrow> path" where
  "staging_dir parent name = parent @ [CHR ''.'' # name @ RESHAPE_SUFFIX]"

record reshape =
  rs_parent :: path
  rs_name :: string
  rs_manifest :: manifest

definition relative :: "path \<Rightarrow> path \<Rightarrow> reshape_error + path" where
  "relative parent p =
     (case strip_path parent p of
        None \<Rightarrow> Inl (OutsideParent p)
      | Some r \<Rightarrow> if ''..'' \<in> set r then Inl (NotPlain p) else Inr r)"

definition top_level :: "path \<Rightarrow> path" where
  "top_level p = take 1 p"

fun plan_moves ::
  "path \<Rightarrow> path \<Rightarrow> (path \<Rightarrow> bool) \<Rightarrow> (path \<times> path) list \<Rightarrow> path list \<Rightarrow> path list \<Rightarrow> (path \<times> path) list \<Rightarrow>
   reshape_error + path list \<times> path list \<times> (path \<times> path) list" where
  "plan_moves parent new_primary ex [] old new planned = Inr (old, new, planned)"
| "plan_moves parent new_primary ex ((source, target) # moves) old new planned =
     (if \<not> ex source then plan_moves parent new_primary ex moves old new planned
      else case relative parent source of
             Inl e \<Rightarrow> Inl e
           | Inr source \<Rightarrow>
               (case relative parent target of
                  Inl e \<Rightarrow> Inl e
                | Inr target \<Rightarrow>
                    let old_entry = top_level source;
                        new_entry = top_level target;
                        old = (if old_entry \<in> set old then old else old @ [old_entry]);
                        new = (if new_entry \<noteq> new_primary \<and> new_entry \<notin> set new then new @ [new_entry] else new)
                    in plan_moves parent new_primary ex moves old new (planned @ [(source, target)])))"

definition plan_reshape ::
  "path \<Rightarrow> path \<Rightarrow> string \<Rightarrow> (path \<times> path) list \<Rightarrow> (path \<Rightarrow> bool) \<Rightarrow> reshape_error + reshape" where
  "plan_reshape from to name moves ex =
     (let parent = path_parent from
      in if path_parent to \<noteq> parent then Inl (DifferentParents from to)
         else case relative parent from of
                Inl e \<Rightarrow> Inl e
              | Inr old_primary \<Rightarrow>
                  (case relative parent to of
                     Inl e \<Rightarrow> Inl e
                   | Inr new_primary \<Rightarrow>
                       (case plan_moves parent new_primary ex moves [old_primary] [] [] of
                          Inl e \<Rightarrow> Inl e
                        | Inr (old, new, planned) \<Rightarrow>
                            let new = new @ [new_primary]
                            in if list_ex (\<lambda>entry. entry \<in> set new) old then Inl (ReplacesItself from)
                               else Inr \<lparr>rs_parent = parent, rs_name = name,
                                      rs_manifest = \<lparr>rm_version = MANIFEST_VERSION, rm_old = old, rm_new = new, rm_moves = planned\<rparr>\<rparr>)))"

definition to_folder :: "path \<Rightarrow> path \<Rightarrow> (path \<times> path) list \<Rightarrow> (path \<Rightarrow> bool) \<Rightarrow> reshape_error + reshape" where
  "to_folder flat folder moves ex = plan_reshape flat folder (path_name folder) moves ex"

definition to_flat :: "path \<Rightarrow> path \<Rightarrow> (path \<times> path) list \<Rightarrow> (path \<Rightarrow> bool) \<Rightarrow> reshape_error + reshape" where
  "to_flat folder flat moves ex = plan_reshape folder flat (path_name folder) moves ex"

definition rs_targets :: "reshape \<Rightarrow> path list" where
  "rs_targets r = map (\<lambda>entry. rs_parent r @ entry) (rm_new (rs_manifest r))"

section \<open>The transaction\<close>

definition move_step :: "crash \<Rightarrow> path option \<Rightarrow> path \<Rightarrow> path \<Rightarrow> disk \<Rightarrow> unit outcome \<times> disk" where
  "move_step c dir source target d =
     (if fs_exists source (d_fs d) \<and> \<not> fs_exists target (d_fs d)
      then rbind (case dir of None \<Rightarrow> (Done (), d) | Some p \<Rightarrow> vfs_create_dir c p d) (\<lambda>_. vfs_rename source target)
      else (Done (), d))"

fun retire :: "crash \<Rightarrow> path \<Rightarrow> path \<Rightarrow> path list \<Rightarrow> disk \<Rightarrow> unit outcome \<times> disk" where
  "retire c parent old_dir [] d = (Done (), d)"
| "retire c parent old_dir (entry # es) d =
     rbind (move_step c None (parent @ entry) (old_dir @ entry) d) (\<lambda>_. retire c parent old_dir es)"

fun settle :: "crash \<Rightarrow> path \<Rightarrow> path \<Rightarrow> (path \<times> path) list \<Rightarrow> disk \<Rightarrow> unit outcome \<times> disk" where
  "settle c old_dir new_dir [] d = (Done (), d)"
| "settle c old_dir new_dir ((source, target) # ms) d =
     rbind (move_step c (Some (path_parent (new_dir @ target))) (old_dir @ source) (new_dir @ target) d)
       (\<lambda>_. settle c old_dir new_dir ms)"

fun publish :: "path \<Rightarrow> path \<Rightarrow> path \<Rightarrow> path list \<Rightarrow> disk \<Rightarrow> unit outcome \<times> disk" where
  "publish staging parent new_dir [] d = (Done (), d)"
| "publish staging parent new_dir (entry # es) d =
     (if \<not> fs_exists (new_dir @ entry) (d_fs d) then publish staging parent new_dir es d
      else if fs_exists (parent @ entry) (d_fs d) then (Bailed (CannotFinish (parent @ entry) staging), d)
      else rbind (vfs_rename (new_dir @ entry) (parent @ entry) d) (\<lambda>_. publish staging parent new_dir es))"

definition advance :: "crash \<Rightarrow> path \<Rightarrow> path \<Rightarrow> manifest \<Rightarrow> disk \<Rightarrow> unit outcome \<times> disk" where
  "advance c staging parent man d =
     rbind (retire c parent (staging @ [''old'']) (rm_old man) d) (\<lambda>_ d.
     rbind (settle c (staging @ [''old'']) (staging @ [''new'']) (rm_moves man) d) (\<lambda>_ d.
     rbind (publish staging parent (staging @ [''new'']) (rm_new man) d) (\<lambda>_ d.
     vfs_remove c staging d)))"

definition recover :: "(string \<Rightarrow> manifest option) \<Rightarrow> crash \<Rightarrow> path \<Rightarrow> disk \<Rightarrow> recovery outcome \<times> disk" where
  "recover from_json c staging d =
     (let parent = path_parent staging;
          manifest_path = staging @ [RMANIFEST]
      in if \<not> fs_exists staging (d_fs d) then (Done Discarded, d)
         else if \<not> fs_exists manifest_path (d_fs d) then rbind (vfs_remove c staging d) (\<lambda>_ d. (Done Discarded, d))
         else case file_at manifest_path (d_fs d) of
                None \<Rightarrow> (Bailed IoError, d)
              | Some text \<Rightarrow>
                  (case from_json text of
                     None \<Rightarrow> (Bailed (CorruptedManifest manifest_path), d)
                   | Some man \<Rightarrow>
                       if rm_version man \<noteq> MANIFEST_VERSION \<or> rm_old man = [] \<or> rm_new man = []
                       then (Bailed (UnsupportedManifest manifest_path), d)
                       else if fs_exists (parent @ hd (rm_old man)) (d_fs d)
                       then rbind (vfs_remove c staging d) (\<lambda>_ d. (Done Discarded, d))
                       else rbind (advance c staging parent man d) (\<lambda>_ d. (Done RolledForward, d))))"

definition run_reshape ::
  "(manifest \<Rightarrow> string) \<Rightarrow> (string \<Rightarrow> manifest option) \<Rightarrow> crash \<Rightarrow> reshape \<Rightarrow> disk \<Rightarrow> unit outcome \<times> disk" where
  "run_reshape to_json from_json c r d =
     (let staging = staging_dir (rs_parent r) (rs_name r);
          man = rs_manifest r
      in rbind (if fs_exists staging (d_fs d) then rbind (recover from_json c staging d) (\<lambda>_ d. (Done (), d)) else (Done (), d)) (\<lambda>_ d.
         let old_primary = rs_parent r @ hd (rm_old man)
         in if \<not> fs_exists old_primary (d_fs d) then (Bailed (NothingToReshape old_primary), d)
            else case find (\<lambda>target. fs_exists target (d_fs d)) (rs_targets r) of
                   Some target \<Rightarrow> (Bailed (TargetExists old_primary target), d)
                 | None \<Rightarrow>
                     rbind (vfs_create_dir c (staging @ [''old'']) d) (\<lambda>_ d.
                     rbind (vfs_create_dir c (staging @ [''new'']) d) (\<lambda>_ d.
                     rbind (vfs_write c (staging @ [RMANIFEST @ ''.tmp'']) (to_json man) d) (\<lambda>_ d.
                     rbind (vfs_rename (staging @ [RMANIFEST @ ''.tmp'']) (staging @ [RMANIFEST]) d) (\<lambda>_ d.
                     advance c staging (rs_parent r) man d))))))"

text \<open>The daemon settles every leftover it finds when it starts.\<close>

fun recover_project ::
  "(string \<Rightarrow> manifest option) \<Rightarrow> crash \<Rightarrow> path list \<Rightarrow> disk \<Rightarrow> (path \<times> recovery outcome) list \<times> disk" where
  "recover_project from_json c [] d = ([], d)"
| "recover_project from_json c (staging # rest) d =
     (case recover from_json c staging d of
        (Died, d) \<Rightarrow> ([(staging, Died)], d)
      | (res, d) \<Rightarrow> (case recover_project from_json c rest d of (out, d) \<Rightarrow> ((staging, res) # out, d)))"

definition BLACKLISTED_PATHS :: "string list" where
  "BLACKLISTED_PATHS = [''.DS_Store'']"

definition holds_only :: "path \<Rightarrow> path list \<Rightarrow> fnode \<Rightarrow> reshape_error + bool" where
  "holds_only folder files fs =
     (case node_at folder fs of
        Some (FDir entries) \<Rightarrow>
          Inr (list_all (\<lambda>(name, _). folder @ [name] \<in> set files \<or> name \<in> set BLACKLISTED_PATHS) entries)
      | _ \<Rightarrow> Inl IoError)"

definition is_empty_dir :: "path \<Rightarrow> fnode \<Rightarrow> reshape_error + bool" where
  "is_empty_dir p fs = (if \<not> is_dir p fs then Inr False else holds_only p [] fs)"

end
