(* ===== verification/ReshapeSafety.thy ===== *)
theory ReshapeSafety
  imports Reshape
begin

text \<open>
  A reshape interrupted anywhere is settled by the next recovery. The three loops of the
  transaction are one list of steps over views of the file system: a step that is done is
  skipped, one that is ready moves its source, and no later step undoes or blocks an earlier or a
  pending one. So running the list again from any interrupted state ends where the first run
  would have ended.
\<close>

section \<open>Steps on views\<close>

type_synonym view = "path \<Rightarrow> kind option"

text \<open>A step: whether it makes the directory of its target, its source and its target.\<close>

type_synonym rstep = "bool \<times> path \<times> path"

definition mkdirs_view :: "path \<Rightarrow> view \<Rightarrow> view" where
  "mkdirs_view p k = (\<lambda>q. if prefix q p then Some KDir else k q)"

definition move_view :: "path \<Rightarrow> path \<Rightarrow> view \<Rightarrow> view" where
  "move_view s t k = (\<lambda>q. if prefix t q then k (s @ drop (length t) q) else if prefix s q then None else k q)"

definition cut_view :: "path \<Rightarrow> view \<Rightarrow> view" where
  "cut_view p k = (\<lambda>q. if prefix p q then None else k q)"

fun astep :: "rstep \<Rightarrow> view \<Rightarrow> view" where
  "astep (m, s, t) k =
     (if k s \<noteq> None \<and> k t = None then move_view s t (if m then mkdirs_view (butlast t) k else k) else k)"

fun wf_step :: "rstep \<Rightarrow> bool" where
  "wf_step (m, s, t) \<longleftrightarrow> t \<noteq> [] \<and> \<not> prefix s t \<and> \<not> prefix t s"

fun before :: "rstep \<Rightarrow> rstep \<Rightarrow> bool" where
  "before (ma, sa, ta) (mb, sb, tb) \<longleftrightarrow>
     \<not> prefix tb sa \<and> \<not> prefix ta tb \<and> \<not> prefix tb (butlast ta) \<and> \<not> prefix sa (butlast tb)"

fun done_step :: "view \<Rightarrow> rstep \<Rightarrow> bool" where
  "done_step k (m, s, t) \<longleftrightarrow> k s = None"

fun ready_step :: "view \<Rightarrow> rstep \<Rightarrow> bool" where
  "ready_step k (m, s, t) \<longleftrightarrow>
     k t = None \<and> (if m then \<forall>q. prefix q (butlast t) \<longrightarrow> k q \<in> {None, Some KDir} else k (butlast t) = Some KDir)"

lemma prefix_butlast: "prefix p (butlast q) \<Longrightarrow> prefix p q"
  by (meson prefix_order.trans prefixeq_butlast)

lemma not_prefix_butlast: "t \<noteq> [] \<Longrightarrow> \<not> prefix t (butlast t)"
  by (metis length_butlast length_greater_0_conv diff_less not_less prefix_length_le zero_less_one)

lemma astep_done: "done_step k a \<Longrightarrow> astep a k = k"
  by (cases a) auto

lemma astep_all_done: "\<forall>a\<in>set as. done_step k a \<Longrightarrow> fold astep as k = k"
  by (induction as) (simp_all add: astep_done)

lemma done_after: "wf_step a \<Longrightarrow> ready_step k a \<Longrightarrow> done_step (astep a k) a"
  by (cases a) (auto simp: move_view_def)

lemma done_stays: "before a b \<Longrightarrow> done_step k a \<Longrightarrow> done_step (astep b k) a"
  by (cases a; cases b) (auto simp: move_view_def mkdirs_view_def)

lemma ready_stays:
  assumes "before a b" "ready_step k b"
  shows "ready_step (astep a k) b"
proof -
  obtain ma sa ta mb sb tb where [simp]: "a = (ma, sa, ta)" "b = (mb, sb, tb)" by (cases a; cases b) auto
  have up: "\<not> prefix ta q" if q: "prefix q (butlast tb)" for q
    using q assms(1) prefix_order.trans prefix_butlast unfolding \<open>a = _\<close> \<open>b = _\<close> before.simps by blast
  show ?thesis
    using assms up by (auto simp: move_view_def mkdirs_view_def)
qed

text \<open>Directories on the way to the target of the next step do no harm.\<close>

lemma done_mkdirs: "before a (m, s, t) \<Longrightarrow> done_step k a \<Longrightarrow> prefix p (butlast t) \<Longrightarrow> done_step (mkdirs_view p k) a"
  by (cases a) (auto simp: mkdirs_view_def dest: prefix_order.trans)

lemma ready_mkdirs:
  assumes "before (m, s, t) b \<or> b = (m, s, t) \<and> t \<noteq> []" "ready_step k b" "prefix p (butlast t)"
  shows "ready_step (mkdirs_view p k) b"
proof -
  obtain mb sb tb where [simp]: "b = (mb, sb, tb)" by (cases b) auto
  have "\<not> prefix tb (butlast t)" using assms(1) not_prefix_butlast by auto
  then have "\<not> prefix tb p" using assms(3) prefix_order.trans by blast
  then show ?thesis using assms(2) by (auto simp: mkdirs_view_def)
qed

lemma mkdirs_absorb: "prefix p q \<Longrightarrow> mkdirs_view q (mkdirs_view p k) = mkdirs_view q k"
  by (auto simp: mkdirs_view_def fun_eq_iff dest: prefix_order.trans)

lemma astep_mkdirs:
  assumes "wf_step (True, s, t)" "prefix p (butlast t)" "k s \<noteq> None" "k t = None"
  shows "astep (True, s, t) (mkdirs_view p k) = astep (True, s, t) k"
proof -
  have "\<not> prefix s p" "\<not> prefix t p"
    using assms(1,2) not_prefix_butlast [of t] prefix_order.trans [OF _ assms(2)] prefix_butlast by auto
  then have "mkdirs_view p k s \<noteq> None" "mkdirs_view p k t = None" using assms(3,4) by (auto simp: mkdirs_view_def)
  then show ?thesis using assms(3,4) mkdirs_absorb [OF assms(2)] by simp
qed

declare astep.simps [simp del] before.simps [simp del] done_step.simps [simp del] ready_step.simps [simp del] wf_step.simps [simp del]

section \<open>Lists of steps\<close>

definition steps_ok :: "rstep list \<Rightarrow> view \<Rightarrow> bool" where
  "steps_ok steps k \<longleftrightarrow> list_all wf_step steps \<and> sorted_wrt before steps \<and>
     (\<exists>A B. steps = A @ B \<and> list_all (done_step k) A \<and> list_all (ready_step k) B)"

definition halted :: "rstep list \<Rightarrow> view \<Rightarrow> view \<Rightarrow> bool" where
  "halted steps k k' \<longleftrightarrow>
     (\<exists>A m s t B. steps = A @ (m, s, t) # B \<and> fold astep A k s \<noteq> None \<and> fold astep A k t = None \<and>
        (k' = fold astep A k \<or> m \<and> (\<exists>p. prefix p (butlast t) \<and> k' = mkdirs_view p (fold astep A k))))"

lemma steps_ok_tail:
  assumes "steps_ok (a # as) k"
  shows "steps_ok as (astep a k)"
proof -
  obtain A B where AB: "a # as = A @ B" "list_all (done_step k) A" "list_all (ready_step k) B"
    using assms by (auto simp: steps_ok_def)
  have wf: "list_all wf_step as" "sorted_wrt before as" "\<forall>b\<in>set as. before a b" using assms by (auto simp: steps_ok_def)
  show ?thesis
  proof (cases A)
    case Nil
    then have "list_all (ready_step (astep a k)) as" using AB ready_stays [OF bspec [OF wf(3)]] unfolding list_all_iff by fastforce
    then show ?thesis using wf unfolding steps_ok_def by (intro conjI exI [of _ "[]"] exI [of _ as]) auto
  next
    case (Cons x xs)
    then have "x = a" "as = xs @ B" "astep a k = k" using AB astep_done by auto
    then show ?thesis using wf AB Cons unfolding steps_ok_def by (intro conjI exI [of _ xs] exI [of _ B]) auto
  qed
qed

lemma steps_ok_append: "steps_ok (as @ bs) k \<Longrightarrow> steps_ok bs (fold astep as k)"
  by (induction as arbitrary: k) (simp_all add: steps_ok_tail)

lemma steps_ok_head:
  assumes "steps_ok ((m, s, t) # as) k" "k s \<noteq> None"
  shows "list_all (ready_step k) ((m, s, t) # as)"
proof -
  obtain A B where AB: "(m, s, t) # as = A @ B" "list_all (done_step k) A" "list_all (ready_step k) B"
    using assms(1) unfolding steps_ok_def by blast
  show ?thesis
  proof (cases A)
    case (Cons x xs)
    then show ?thesis using AB assms(2) by (auto simp: done_step.simps)
  qed (use AB in simp)
qed

lemma steps_done_prefix: "steps_ok (as @ bs) k \<Longrightarrow> \<forall>a\<in>set as. done_step (fold astep as k) a"
proof (induction as arbitrary: bs rule: rev_induct)
  case (snoc a as)
  have ok: "steps_ok (a # bs) (fold astep as k)" using steps_ok_append [of as "a # bs" k] snoc.prems by simp
  have wf: "wf_step a" "\<forall>b\<in>set as. before b a" using snoc.prems by (auto simp: steps_ok_def sorted_wrt_append)
  have "\<forall>b\<in>set as. done_step (fold astep as k) b" using snoc.IH [of "a # bs"] snoc.prems by simp
  then have "\<forall>b\<in>set as. done_step (astep a (fold astep as k)) b" using done_stays [OF bspec [OF wf(2)]] by blast
  moreover have "done_step (astep a (fold astep as k)) a"
  proof (cases "done_step (fold astep as k) a")
    case False
    obtain m s t where a: "a = (m, s, t)" by (cases a) auto
    have "ready_step (fold astep as k) a" using steps_ok_head [of m s t bs] ok False a by (auto simp: done_step.simps)
    then show ?thesis using done_after wf(1) by blast
  qed (simp add: astep_done)
  ultimately show ?case by simp
qed simp

text \<open>Running all steps again from an interrupted state ends where the first run would have.\<close>

lemma resume:
  assumes "steps_ok steps k" "halted steps k k'"
  shows "steps_ok steps k' \<and> fold astep steps k' = fold astep steps k"
proof -
  obtain A m s t B where split: "steps = A @ (m, s, t) # B" "fold astep A k s \<noteq> None" "fold astep A k t = None"
    and k': "k' = fold astep A k \<or> m \<and> (\<exists>p. prefix p (butlast t) \<and> k' = mkdirs_view p (fold astep A k))"
    using assms(2) unfolding halted_def by blast
  let ?k = "fold astep A k" and ?b = "(m, s, t)"
  have "steps_ok (?b # B) ?k" using steps_ok_append [of A "?b # B" k] assms(1) split(1) by simp
  then have ready: "list_all (ready_step ?k) (?b # B)" using steps_ok_head [of m s t B ?k] split(2) by blast
  have done_A: "\<forall>a\<in>set A. done_step ?k a" using steps_done_prefix assms(1) split(1) by blast
  have wf: "wf_step ?b" "\<forall>a\<in>set A. before a ?b" "\<forall>b\<in>set B. before ?b b" "list_all wf_step steps" "sorted_wrt before steps"
    using assms(1) split(1) by (auto simp: steps_ok_def sorted_wrt_append)
  have state: "(\<forall>a\<in>set A. done_step k' a) \<and> list_all (ready_step k') (?b # B) \<and> astep ?b k' = astep ?b ?k"
  proof (cases "k' = ?k")
    case False
    then obtain p where p: "m" "prefix p (butlast t)" "k' = mkdirs_view p ?k" using k' by blast
    have "\<forall>a\<in>set A. done_step k' a" using done_A wf(2) done_mkdirs [OF _ _ p(2)] p(3) by blast
    moreover have "list_all (ready_step k') (?b # B)"
      using ready wf(1,3) ready_mkdirs [OF _ _ p(2), of m s _ ?k] p(3) unfolding list_all_iff wf_step.simps by auto
    moreover have "astep ?b k' = astep ?b ?k" using astep_mkdirs [of s t p ?k] wf(1) p split(2,3) by simp
    ultimately show ?thesis by blast
  qed (use done_A ready in simp)
  have "steps_ok steps k'"
    using wf(4,5) state split(1) unfolding steps_ok_def by (intro conjI exI [of _ A] exI [of _ "?b # B"]) (auto simp: list_all_iff)
  moreover have "fold astep steps k' = fold astep steps k"
    using state astep_all_done [of A k'] unfolding split(1) fold_append fold_Cons comp_apply by simp
  ultimately show ?thesis ..
qed

lemma fold_unchanged:
  "(\<And>m s t. (m, s, t) \<in> set steps \<Longrightarrow> \<not> prefix s q \<and> \<not> prefix t q \<and> (prefix q (butlast t) \<longrightarrow> k q = Some KDir)) \<Longrightarrow>
     fold astep steps k q = k q"
proof (induction steps arbitrary: k)
  case (Cons a steps)
  obtain m s t where a: "a = (m, s, t)" by (cases a) auto
  have same: "astep a k q = k q" using Cons.prems [of m s t] by (auto simp: a astep.simps move_view_def mkdirs_view_def)
  then have "fold astep steps (astep a k) q = astep a k q" using Cons.prems by (intro Cons.IH) auto
  then show ?case using same by simp
qed simp


section \<open>The loops run the steps\<close>

definition progress :: "rstep list \<Rightarrow> disk \<Rightarrow> unit outcome \<times> disk \<Rightarrow> bool" where
  "progress steps d r \<longleftrightarrow>
     (case r of
        (Done _, d') \<Rightarrow> kind_at (d_fs d') = fold astep steps (kind_at (d_fs d)) \<and> d_left d \<le> d_left d' + 2 * length steps
      | (Died, d') \<Rightarrow> halted steps (kind_at (d_fs d)) (kind_at (d_fs d')) \<and> d_left d < 2 * length steps
      | (Bailed _, _) \<Rightarrow> False)"

lemma halted_append: "halted as k k' \<Longrightarrow> halted (as @ bs) k k'"
  unfolding halted_def by (elim exE conjE, rule exI, rule exI, rule exI, rule exI, rule exI, intro conjI) (erule ssubst, simp, assumption+)

lemma halted_later: "halted bs (fold astep as k) k' \<Longrightarrow> halted (as @ bs) k k'"
  unfolding halted_def by (elim exE conjE, rule exI [of _ "as @ A" for A], rule exI, rule exI, rule exI, rule exI, intro conjI) (erule ssubst, simp, simp_all)

lemma progress_nil: "progress [] d (Done (), d)"
  by (simp add: progress_def)

lemma progress_bind:
  assumes "progress as d r" "\<And>d'. r = (Done (), d') \<Longrightarrow> progress bs d' (f () d')"
  shows "progress (as @ bs) d (rbind r f)"
proof -
  obtain res d' where r: "r = (res, d')" by (cases r) auto
  show ?thesis
  proof (cases res)
    case (Done u)
    then have "progress bs d' (f () d')" using assms(2) r by simp
    moreover have "kind_at (d_fs d') = fold astep as (kind_at (d_fs d))" "d_left d \<le> d_left d' + 2 * length as"
      using assms(1) r Done by (auto simp: progress_def)
    ultimately show ?thesis
      using r Done by (auto simp: progress_def rbind_def intro: halted_later split: prod.splits outcome.splits)
  next
    case Died
    then show ?thesis using assms(1) r by (auto simp: progress_def rbind_def intro: halted_append)
  qed (use assms(1) r in \<open>auto simp: progress_def\<close>)
qed

lemma rename_progress:
  assumes "kind_at (d_fs d) s \<noteq> None" "ready_step (kind_at (d_fs d)) (False, s, t)" "wf_step (False, s, t)"
  obtains (moved) d' where "vfs_rename s t d = (Done (), d')" "kind_at (d_fs d') = move_view s t (kind_at (d_fs d))" "d_left d = Suc (d_left d')"
  | (died) "vfs_rename s t d = (Died, d)" "d_left d = 0"
proof (cases "d_left d")
  case 0
  then show ?thesis using died by (simp add: vfs_rename_def mutate_def)
next
  case (Suc n)
  have "\<exists>n'. rename_to s t (d_fs d) = Some n'"
    using assms by (intro rename_ok) (auto simp: kind_at_exists kind_at_is_dir ready_step.simps wf_step.simps)
  then obtain fs where fs: "rename_to s t (d_fs d) = Some fs" ..
  have "kind_at fs = move_view s t (kind_at (d_fs d))"
    using kind_at_rename [OF fs] assms(3) by (auto simp: move_view_def wf_step.simps)
  then show ?thesis using moved [of "\<lparr>d_fs = fs, d_left = n\<rparr>"] fs Suc by (simp add: vfs_rename_def mutate_def)
qed

lemma mkdirs_progress:
  assumes "\<forall>q. prefix q p \<longrightarrow> kind_at (d_fs d) q \<in> {None, Some KDir}"
  obtains (made) d' where "vfs_create_dir c p d = (Done (), d')" "kind_at (d_fs d') = mkdirs_view p (kind_at (d_fs d))" "d_left d = Suc (d_left d')"
  | (died) d' q where "vfs_create_dir c p d = (Died, d')" "d_left d = 0" "prefix q p" "kind_at (d_fs d') = mkdirs_view q (kind_at (d_fs d))"
proof (cases "d_left d")
  case 0
  let ?q = "take (cr_made c) p"
  have q: "prefix ?q p" by (rule take_is_prefix)
  have "\<exists>fs. make_dirs ?q (d_fs d) = Some fs"
    using assms prefix_order.trans [OF _ q] by (intro make_dirs_ok) blast
  then obtain fs where fs: "make_dirs ?q (d_fs d) = Some fs" ..
  have "kind_at fs = mkdirs_view ?q (kind_at (d_fs d))" using kind_at_make_dirs [OF fs] by (auto simp: mkdirs_view_def)
  then show ?thesis using died [of "d\<lparr>d_fs := fs\<rparr>" ?q] fs 0 q by (simp add: vfs_create_dir_def mutate_def)
next
  case (Suc n)
  have "\<exists>fs. make_dirs p (d_fs d) = Some fs" using assms by (intro make_dirs_ok) blast
  then obtain fs where fs: "make_dirs p (d_fs d) = Some fs" ..
  have "kind_at fs = mkdirs_view p (kind_at (d_fs d))" using kind_at_make_dirs [OF fs] by (auto simp: mkdirs_view_def)
  then show ?thesis using made [of "\<lparr>d_fs = fs, d_left = n\<rparr>"] fs Suc by (simp add: vfs_create_dir_def mutate_def)
qed

lemma halted_one:
  "k s \<noteq> None \<Longrightarrow> k t = None \<Longrightarrow> k' = k \<or> m \<and> (\<exists>p. prefix p (butlast t) \<and> k' = mkdirs_view p k) \<Longrightarrow> halted [(m, s, t)] k k'"
  unfolding halted_def by (intro exI [of _ "[]"] exI [of _ m] exI [of _ s] exI [of _ t]) auto

lemma move_step_progress:
  assumes "steps_ok [(m, s, t)] (kind_at (d_fs d))" "dir = (if m then Some (butlast t) else None)"
  shows "progress [(m, s, t)] d (move_step c dir s t d)"
proof (cases "kind_at (d_fs d) s = None")
  case True
  then show ?thesis by (simp add: progress_def move_step_def kind_at_exists astep.simps)
next
  case False
  let ?k = "kind_at (d_fs d)"
  have ready: "ready_step ?k (m, s, t)" using steps_ok_head [OF assms(1) False] by simp
  have wf: "wf_step (False, s, t)" using assms(1) by (simp add: steps_ok_def wf_step.simps)
  have free: "?k t = None" using ready by (simp add: ready_step.simps)
  have run: "move_step c dir s t d = rbind (case dir of None \<Rightarrow> (Done (), d) | Some p \<Rightarrow> vfs_create_dir c p d) (\<lambda>_. vfs_rename s t)"
    using False free by (simp add: move_step_def kind_at_exists)
  show ?thesis
  proof (cases m)
    case False
    have here: "ready_step ?k (False, s, t)" using ready False by simp
    show ?thesis
    proof (cases rule: rename_progress [OF \<open>?k s \<noteq> None\<close> here wf, case_names moved died])
      case (moved d')
      then show ?thesis using run assms(2) False \<open>?k s \<noteq> None\<close> free by (simp add: progress_def rbind_def astep.simps)
    next
      case died
      then show ?thesis using run assms(2) False halted_one [of ?k s t ?k] \<open>?k s \<noteq> None\<close> free by (simp add: progress_def rbind_def)
    qed
  next
    case True
    have dirs: "\<forall>q. prefix q (butlast t) \<longrightarrow> ?k q \<in> {None, Some KDir}" using ready True by (simp add: ready_step.simps)
    have nots: "\<not> prefix s (butlast t)" "\<not> prefix t (butlast t)"
      using wf prefix_butlast not_prefix_butlast by (auto simp: wf_step.simps)
    show ?thesis
    proof (cases rule: mkdirs_progress [OF dirs, of c, case_names made died])
      case (made d1)
      have d1: "kind_at (d_fs d1) s \<noteq> None" "ready_step (kind_at (d_fs d1)) (False, s, t)"
        using made(2) \<open>?k s \<noteq> None\<close> free nots by (simp_all add: mkdirs_view_def ready_step.simps)
      show ?thesis
      proof (cases rule: rename_progress [OF d1 wf, case_names moved died])
        case (moved d')
        then show ?thesis using run assms(2) True made \<open>?k s \<noteq> None\<close> free by (simp add: progress_def rbind_def astep.simps)
      next
        case died
        have "halted [(True, s, t)] ?k (kind_at (d_fs d1))"
          using \<open>?k s \<noteq> None\<close> free made(2) by (intro halted_one) blast+
        then show ?thesis using run assms(2) True made died by (simp add: progress_def rbind_def)
      qed
    next
      case (died d1 q)
      have "halted [(True, s, t)] ?k (kind_at (d_fs d1))"
        using \<open>?k s \<noteq> None\<close> free died by (intro halted_one) blast+
      then show ?thesis using run assms(2) True died by (simp add: progress_def rbind_def)
    qed
  qed
qed


lemma steps_ok_prefix:
  assumes "steps_ok (as @ bs) k"
  shows "steps_ok as k"
proof -
  obtain A B where AB: "as @ bs = A @ B" "list_all (done_step k) A" "list_all (ready_step k) B"
    using assms by (auto simp: steps_ok_def)
  have "\<exists>A' B'. as = A' @ B' \<and> list_all (done_step k) A' \<and> list_all (ready_step k) B'"
  proof -
    from AB(1) obtain us where "as = A @ us \<and> us @ bs = B \<or> as @ us = A \<and> bs = us @ B" by (auto simp: append_eq_append_conv2)
    then show ?thesis
    proof
      assume "as = A @ us \<and> us @ bs = B"
      then show ?thesis using AB by (intro exI [of _ A] exI [of _ us]) auto
    next
      assume "as @ us = A \<and> bs = us @ B"
      then show ?thesis using AB by (intro exI [of _ as] exI [of _ "[]"]) auto
    qed
  qed
  then show ?thesis using assms by (simp add: steps_ok_def sorted_wrt_append)
qed

lemma progress_cons:
  assumes "steps_ok (b # bs) (kind_at (d_fs d))" "progress [b] d r"
    "\<And>d'. steps_ok bs (kind_at (d_fs d')) \<Longrightarrow> progress bs d' (f () d')"
  shows "progress (b # bs) d (rbind r f)"
proof -
  have "progress ([b] @ bs) d (rbind r f)"
  proof (rule progress_bind [OF assms(2)])
    fix d' assume "r = (Done (), d')"
    then have "kind_at (d_fs d') = astep b (kind_at (d_fs d))" using assms(2) by (simp add: progress_def)
    then show "progress bs d' (f () d')" using assms(3) steps_ok_tail [OF assms(1)] by simp
  qed
  then show ?thesis by simp
qed

abbreviation retire_steps :: "path \<Rightarrow> path \<Rightarrow> path list \<Rightarrow> rstep list" where
  "retire_steps parent old_dir es \<equiv> map (\<lambda>e. (False, parent @ e, old_dir @ e)) es"

abbreviation settle_steps :: "path \<Rightarrow> path \<Rightarrow> (path \<times> path) list \<Rightarrow> rstep list" where
  "settle_steps old_dir new_dir ms \<equiv> map (\<lambda>(s, t). (True, old_dir @ s, new_dir @ t)) ms"

abbreviation publish_steps :: "path \<Rightarrow> path \<Rightarrow> path list \<Rightarrow> rstep list" where
  "publish_steps parent new_dir es \<equiv> map (\<lambda>e. (False, new_dir @ e, parent @ e)) es"

lemma retire_progress:
  "steps_ok (retire_steps parent old_dir es) (kind_at (d_fs d)) \<Longrightarrow>
     progress (retire_steps parent old_dir es) d (retire c parent old_dir es d)"
proof (induction es arbitrary: d)
  case (Cons e es)
  let ?b = "(False, parent @ e, old_dir @ e)"
  have ok: "steps_ok (?b # retire_steps parent old_dir es) (kind_at (d_fs d))" using Cons.prems by simp
  have "steps_ok [?b] (kind_at (d_fs d))" using steps_ok_prefix [of "[?b]"] ok by simp
  then have "progress [?b] d (move_step c None (parent @ e) (old_dir @ e) d)" by (rule move_step_progress) simp
  from progress_cons [OF ok this] Cons.IH show ?case by simp
qed (simp add: progress_nil)

lemma settle_progress:
  "2 \<le> length new_dir \<Longrightarrow> steps_ok (settle_steps old_dir new_dir ms) (kind_at (d_fs d)) \<Longrightarrow>
     progress (settle_steps old_dir new_dir ms) d (settle c old_dir new_dir ms d)"
proof (induction ms arbitrary: d)
  case (Cons m ms)
  obtain s t where m: "m = (s, t)" by (cases m) auto
  let ?b = "(True, old_dir @ s, new_dir @ t)"
  have ok: "steps_ok (?b # settle_steps old_dir new_dir ms) (kind_at (d_fs d))" using Cons.prems m by simp
  have parent: "path_parent (new_dir @ t) = butlast (new_dir @ t)"
    using Cons.prems(1) by (auto simp: path_parent_def append_eq_Cons_conv)
  have "steps_ok [?b] (kind_at (d_fs d))" using steps_ok_prefix [of "[?b]"] ok by simp
  then have "progress [?b] d (move_step c (Some (path_parent (new_dir @ t))) (old_dir @ s) (new_dir @ t) d)"
    unfolding parent by (rule move_step_progress) simp
  from progress_cons [OF ok this, of "\<lambda>_. settle c old_dir new_dir ms"] Cons.IH Cons.prems(1) show ?case by (simp add: m)
qed (simp add: progress_nil)

lemma publish_progress:
  "steps_ok (publish_steps parent new_dir es) (kind_at (d_fs d)) \<Longrightarrow>
     progress (publish_steps parent new_dir es) d (publish staging parent new_dir es d)"
proof (induction es arbitrary: d)
  case (Cons e es)
  let ?b = "(False, new_dir @ e, parent @ e)" and ?k = "kind_at (d_fs d)"
  have ok: "steps_ok (?b # publish_steps parent new_dir es) ?k" using Cons.prems by simp
  show ?case
  proof (cases "?k (new_dir @ e) = None")
    case True
    then have skip: "astep ?b ?k = ?k" by (simp add: astep.simps)
    then have "steps_ok (publish_steps parent new_dir es) ?k" using steps_ok_tail [OF ok] by simp
    from progress_cons [OF ok, of "(Done (), d)" "\<lambda>_. publish staging parent new_dir es"] Cons.IH True skip show ?thesis
      by (simp add: progress_def rbind_def kind_at_exists)
  next
    case False
    have ready: "ready_step ?k ?b" using steps_ok_head [OF ok False] by simp
    then have free: "?k (parent @ e) = None" by (simp add: ready_step.simps)
    have "steps_ok [?b] ?k" using steps_ok_prefix [of "[?b]"] ok by simp
    then have "progress [?b] d (move_step undefined None (new_dir @ e) (parent @ e) d)" by (rule move_step_progress) simp
    then have "progress [?b] d (vfs_rename (new_dir @ e) (parent @ e) d)"
      using False free by (simp add: move_step_def kind_at_exists rbind_def)
    from progress_cons [OF ok this, of "\<lambda>_. publish staging parent new_dir es"] Cons.IH show ?thesis
      using False free by (simp add: kind_at_exists)
  qed
qed (simp add: progress_nil)

text \<open>All steps of a manifest.\<close>

definition all_steps :: "path \<Rightarrow> path \<Rightarrow> manifest \<Rightarrow> rstep list" where
  "all_steps staging parent man =
     retire_steps parent (staging @ [''old'']) (rm_old man) @
     settle_steps (staging @ [''old'']) (staging @ [''new'']) (rm_moves man) @
     publish_steps parent (staging @ [''new'']) (rm_new man)"

text \<open>The removal that ends a transaction, and what is left of the staging when it is cut.\<close>

definition remains :: "path \<Rightarrow> view \<Rightarrow> view \<Rightarrow> bool" where
  "remains st k k' \<longleftrightarrow> cut_view st k' = cut_view st k \<and> (\<forall>q. prefix st q \<longrightarrow> k' q = None \<or> k' q = k q)"

lemma remove_progress:
  assumes "crash_ok c" "kind_at (d_fs d) st \<noteq> None" "st \<noteq> []"
  obtains (removed) d' where "vfs_remove c st d = (Done (), d')" "kind_at (d_fs d') = cut_view st (kind_at (d_fs d))" "d_left d = Suc (d_left d')"
  | (died) d' where "vfs_remove c st d = (Died, d')" "d_left d = 0" "remains st (kind_at (d_fs d)) (kind_at (d_fs d'))"
proof -
  obtain n where n: "node_at st (d_fs d) = Some n" using assms(2) by (auto simp: kind_at_def)
  have "kind_at (d_fs d) (butlast st @ last st # []) \<noteq> None" using assms(2,3) by simp
  then have "is_dir (butlast st) (d_fs d)" using kind_at_parent kind_at_is_dir by blast
  then have put: "\<exists>fs. set_at st v (d_fs d) = Some fs" for v using set_at_succeeds assms(3) by blast
  show ?thesis
  proof (cases "d_left d")
    case 0
    obtain fs where fs: "set_at st (Some (cr_torn c n)) (d_fs d) = Some fs" using put by blast
    have "remains st (kind_at (d_fs d)) (kind_at fs)"
      using assms(1) n unfolding remains_def cut_view_def fun_eq_iff kind_at_set [OF fs assms(3)] crash_ok_def
      by (auto simp: prefix_def kind_at_below) (metis not_None_eq)
    then show ?thesis using died [of "d\<lparr>d_fs := fs\<rparr>"] 0 n fs by (simp add: vfs_remove_def mutate_def)
  next
    case (Suc m)
    obtain fs where fs: "set_at st None (d_fs d) = Some fs" using put by blast
    have "kind_at fs = cut_view st (kind_at (d_fs d))" using kind_at_unset [OF fs assms(3)] by (auto simp: cut_view_def)
    then show ?thesis using removed [of "\<lparr>d_fs = fs, d_left = m\<rparr>"] Suc n fs by (simp add: vfs_remove_def mutate_def fs_exists_def)
  qed
qed


section \<open>The steps of a plan\<close>

definition shape :: "string \<Rightarrow> manifest \<Rightarrow> bool" where
  "shape sn man \<longleftrightarrow>
     rm_version man = MANIFEST_VERSION \<and> rm_old man \<noteq> [] \<and> rm_new man \<noteq> [] \<and>
     list_all (\<lambda>e. length e = 1 \<and> e \<noteq> [sn]) (rm_old man @ rm_new man) \<and> distinct (rm_old man @ rm_new man) \<and>
     list_all (\<lambda>(s, t). s \<noteq> [] \<and> t \<noteq> [] \<and> take 1 s \<in> set (rm_old man) \<and> take 1 t \<in> set (rm_new man)) (rm_moves man) \<and>
     sorted_wrt (\<lambda>(s, t) (s', t'). apart s s' \<and> apart t t') (rm_moves man)"

lemma shape_entry:
  assumes "shape sn man" "e \<in> set (rm_old man) \<or> e \<in> set (rm_new man)"
  obtains c where "e = [c]" "c \<noteq> sn"
proof -
  have "length e = 1" "e \<noteq> [sn]" using assms unfolding shape_def list_all_iff set_append by blast+
  then show ?thesis using that by (auto simp: length_Suc_conv)
qed

lemma distinct_sorted_wrt: "distinct xs = sorted_wrt (\<noteq>) xs"
  by (induction xs) auto

lemma shape_move:
  assumes "shape sn man" "(s, t) \<in> set (rm_moves man)"
  shows "s \<noteq> []" "t \<noteq> []" "take 1 s \<in> set (rm_old man)" "take 1 t \<in> set (rm_new man)"
  using assms by (auto simp: shape_def list_all_iff)

lemma shape_disjoint: "shape sn man \<Longrightarrow> e \<in> set (rm_old man) \<Longrightarrow> e' \<in> set (rm_new man) \<Longrightarrow> e \<noteq> e'"
  by (auto simp: shape_def)

lemma all_steps_cases:
  assumes "x \<in> set (all_steps st parent man)"
  obtains (retire) e where "e \<in> set (rm_old man)" "x = (False, parent @ e, st @ ''old'' # e)"
  | (settle) s t where "(s, t) \<in> set (rm_moves man)" "x = (True, st @ ''old'' # s, st @ ''new'' # t)"
  | (publish) e where "e \<in> set (rm_new man)" "x = (False, st @ ''new'' # e, parent @ e)"
  using assms unfolding all_steps_def by auto

lemma all_steps_wf:
  assumes "shape sn man"
  shows "list_all wf_step (all_steps (parent @ [sn]) parent man)"
proof -
  have "wf_step x" if x: "x \<in> set (all_steps (parent @ [sn]) parent man)" for x
    using x
  proof (cases rule: all_steps_cases)
    case (retire e)
    then obtain c where "e = [c]" "c \<noteq> sn" using shape_entry [OF assms] by blast
    then show ?thesis using retire by (simp add: wf_step.simps)
  next
    case (publish e)
    then obtain c where "e = [c]" "c \<noteq> sn" using shape_entry [OF assms] by blast
    then show ?thesis using publish by (simp add: wf_step.simps)
  qed (simp add: wf_step.simps)
  then show ?thesis by (simp add: list_all_iff)
qed

lemma all_steps_sorted:
  assumes "shape sn man"
  shows "sorted_wrt before (all_steps (parent @ [sn]) parent man)"
proof -
  let ?st = "parent @ [sn]"
  have old: "sorted_wrt before (retire_steps parent (?st @ [''old'']) (rm_old man))"
  proof -
    have "sorted_wrt (\<noteq>) (rm_old man)" using assms by (simp add: shape_def distinct_sorted_wrt sorted_wrt_append)
    moreover have "before (False, parent @ e, ?st @ ''old'' # e) (False, parent @ e', ?st @ ''old'' # e')"
      if e: "e \<in> set (rm_old man)" "e' \<in> set (rm_old man)" "e \<noteq> e'" for e e'
    proof -
      obtain c c' where "e = [c]" "c \<noteq> sn" "e' = [c']" "c' \<noteq> sn" using shape_entry [OF assms] e(1,2) by metis
      then show ?thesis using e(3) by (simp add: before.simps butlast_append)
    qed
    ultimately show ?thesis unfolding sorted_wrt_map by (elim sorted_wrt_mono_rel [rotated]) auto
  qed
  have new: "sorted_wrt before (publish_steps parent (?st @ [''new'']) (rm_new man))"
  proof -
    have "sorted_wrt (\<noteq>) (rm_new man)" using assms by (simp add: shape_def distinct_sorted_wrt sorted_wrt_append)
    moreover have "before (False, ?st @ ''new'' # e, parent @ e) (False, ?st @ ''new'' # e', parent @ e')"
      if e: "e \<in> set (rm_new man)" "e' \<in> set (rm_new man)" "e \<noteq> e'" for e e'
    proof -
      obtain c c' where "e = [c]" "c \<noteq> sn" "e' = [c']" "c' \<noteq> sn" using shape_entry [OF assms] e(1,2) by metis
      then show ?thesis using e(3) by (simp add: before.simps butlast_append)
    qed
    ultimately show ?thesis unfolding sorted_wrt_map by (elim sorted_wrt_mono_rel [rotated]) auto
  qed
  have mid: "sorted_wrt before (settle_steps (?st @ [''old'']) (?st @ [''new'']) (rm_moves man))"
  proof -
    have "sorted_wrt (\<lambda>(s, t) (s', t'). apart s s' \<and> apart t t') (rm_moves man)" using assms by (simp add: shape_def)
    moreover have "before (True, ?st @ ''old'' # s, ?st @ ''new'' # t) (True, ?st @ ''old'' # s', ?st @ ''new'' # t')"
      if m: "(s, t) \<in> set (rm_moves man)" "(s', t') \<in> set (rm_moves man)" "apart t t'" for s t s' t'
      using shape_move [OF assms m(1)] shape_move [OF assms m(2)] m(3)
      by (auto simp: before.simps butlast_append apart_def dest: prefix_butlast)
    ultimately show ?thesis unfolding sorted_wrt_map by (elim sorted_wrt_mono_rel [rotated]) auto
  qed
  have "before x y" if x: "x \<in> set (retire_steps parent (?st @ [''old'']) (rm_old man))"
    and y: "y \<in> set (settle_steps (?st @ [''old'']) (?st @ [''new'']) (rm_moves man)) \<union> set (publish_steps parent (?st @ [''new'']) (rm_new man))" for x y
  proof -
    obtain e where e: "e \<in> set (rm_old man)" "x = (False, parent @ e, ?st @ ''old'' # e)" using x by auto
    then obtain c where c: "e = [c]" "c \<noteq> sn" using shape_entry [OF assms] by blast
    show ?thesis using y
    proof
      assume "y \<in> set (settle_steps (?st @ [''old'']) (?st @ [''new'']) (rm_moves man))"
      then show ?thesis using e c shape_move [OF assms] by (auto simp: before.simps butlast_append)
    next
      assume "y \<in> set (publish_steps parent (?st @ [''new'']) (rm_new man))"
      then obtain e' where e': "e' \<in> set (rm_new man)" "y = (False, ?st @ ''new'' # e', parent @ e')" by auto
      then obtain c' where "e' = [c']" "c' \<noteq> sn" using shape_entry [OF assms] by blast
      then show ?thesis using e c e' shape_disjoint [OF assms e(1) e'(1)] by (simp add: before.simps butlast_append)
    qed
  qed
  moreover have "before x y" if x: "x \<in> set (settle_steps (?st @ [''old'']) (?st @ [''new'']) (rm_moves man))"
    and y: "y \<in> set (publish_steps parent (?st @ [''new'']) (rm_new man))" for x y
  proof -
    obtain e' where e': "e' \<in> set (rm_new man)" "y = (False, ?st @ ''new'' # e', parent @ e')" using y by auto
    then obtain c where "e' = [c]" "c \<noteq> sn" using shape_entry [OF assms] by blast
    then show ?thesis using e' x shape_move [OF assms] by (auto simp: before.simps butlast_append)
  qed
  ultimately show ?thesis using old mid new unfolding all_steps_def by (auto simp: sorted_wrt_append)
qed

text \<open>The journal stays where it is, whatever steps ran.\<close>

lemma steps_keep_journal:
  assumes "shape sn man" "set steps \<subseteq> set (all_steps (parent @ [sn]) parent man)" "q = parent @ [sn] @ [RMANIFEST]"
  shows "fold astep steps k q = k q"
proof (rule fold_unchanged)
  fix m s t assume "(m, s, t) \<in> set steps"
  then have "(m, s, t) \<in> set (all_steps (parent @ [sn]) parent man)" using assms(2) by blast
  then show "\<not> prefix s q \<and> \<not> prefix t q \<and> (prefix q (butlast t) \<longrightarrow> k q = Some KDir)"
  proof (cases rule: all_steps_cases)
    case (retire e)
    then obtain c where "e = [c]" "c \<noteq> sn" using shape_entry [OF assms(1)] by blast
    then show ?thesis using retire by (simp add: assms(3) butlast_append RMANIFEST_def)
  next
    case (settle s t)
    then show ?thesis using shape_move [OF assms(1) settle(1)] by (simp add: assms(3) butlast_append RMANIFEST_def)
  next
    case (publish e)
    then obtain c where "e = [c]" "c \<noteq> sn" using shape_entry [OF assms(1)] by blast
    then show ?thesis using publish by (simp add: assms(3) butlast_append RMANIFEST_def)
  qed
qed


section \<open>Interrupted states\<close>

lemma advance_cases:
  assumes "crash_ok c" "shape sn man" "st = parent @ [sn]" "steps = all_steps st parent man"
    and ok: "steps_ok steps (kind_at (d_fs d))" and journal: "kind_at (d_fs d) (st @ [RMANIFEST]) \<noteq> None"
  obtains (finished) d' where "advance c st parent man d = (Done (), d')"
      "kind_at (d_fs d') = cut_view st (fold astep steps (kind_at (d_fs d)))" "d_left d \<le> d_left d' + 2 * length steps + 1"
  | (died) d' where "advance c st parent man d = (Died, d')" "d_left d \<le> 2 * length steps"
      "halted steps (kind_at (d_fs d)) (kind_at (d_fs d')) \<or> remains st (fold astep steps (kind_at (d_fs d))) (kind_at (d_fs d'))"
proof -
  define od nd where "od = st @ [''old'']" and "nd = st @ [''new'']"
  define loops where "loops = rbind (retire c parent od (rm_old man) d) (\<lambda>_ d.
     rbind (settle c od nd (rm_moves man) d) (\<lambda>_. publish st parent nd (rm_new man)))"
  have run: "advance c st parent man d = rbind loops (\<lambda>_. vfs_remove c st)"
    unfolding advance_def loops_def rbind_def od_def nd_def by (auto split: prod.splits outcome.splits)
  have steps: "steps = retire_steps parent od (rm_old man) @ settle_steps od nd (rm_moves man) @ publish_steps parent nd (rm_new man)"
    by (simp add: assms(4) all_steps_def od_def nd_def)
  have prog: "progress steps d loops"
    unfolding steps loops_def
  proof (rule progress_bind [OF retire_progress])
    show "steps_ok (retire_steps parent od (rm_old man)) (kind_at (d_fs d))" using ok steps_ok_prefix unfolding steps by blast
    fix d1 assume "retire c parent od (rm_old man) d = (Done (), d1)"
    moreover have "progress (retire_steps parent od (rm_old man)) d (retire c parent od (rm_old man) d)"
      using ok steps_ok_prefix retire_progress unfolding steps by blast
    ultimately have d1: "kind_at (d_fs d1) = fold astep (retire_steps parent od (rm_old man)) (kind_at (d_fs d))" by (simp add: progress_def)
    then have ok1: "steps_ok (settle_steps od nd (rm_moves man) @ publish_steps parent nd (rm_new man)) (kind_at (d_fs d1))"
      using steps_ok_append [OF ok [unfolded steps]] by simp
    then have prog1: "progress (settle_steps od nd (rm_moves man)) d1 (settle c od nd (rm_moves man) d1)"
      using steps_ok_prefix by (intro settle_progress) (auto simp: nd_def assms(3))
    show "progress (settle_steps od nd (rm_moves man) @ publish_steps parent nd (rm_new man)) d1
        (rbind (settle c od nd (rm_moves man) d1) (\<lambda>_. publish st parent nd (rm_new man)))"
    proof (rule progress_bind [OF prog1])
      fix d2 assume "settle c od nd (rm_moves man) d1 = (Done (), d2)"
      then have "kind_at (d_fs d2) = fold astep (settle_steps od nd (rm_moves man)) (kind_at (d_fs d1))"
        using prog1 by (simp add: progress_def)
      then show "progress (publish_steps parent nd (rm_new man)) d2 (publish st parent nd (rm_new man) d2)"
        using steps_ok_append [OF ok1] by (intro publish_progress) simp
    qed
  qed
  obtain res d1 where loops: "loops = (res, d1)" by (cases loops) auto
  show ?thesis
  proof (cases res)
    case (Done u)
    then have d1: "kind_at (d_fs d1) = fold astep steps (kind_at (d_fs d))" "d_left d \<le> d_left d1 + 2 * length steps"
      using prog loops by (auto simp: progress_def)
    have "fold astep steps (kind_at (d_fs d)) (st @ [RMANIFEST]) = kind_at (d_fs d) (st @ [RMANIFEST])"
      by (rule steps_keep_journal [OF assms(2), of _ parent]) (simp_all add: assms(3,4))
    then have "kind_at (d_fs d1) (st @ [RMANIFEST]) \<noteq> None" using journal unfolding d1(1) by argo
    then have here: "kind_at (d_fs d1) st \<noteq> None" using kind_at_none_below [of "d_fs d1" st "[RMANIFEST]"] by argo
    have ne: "st \<noteq> []" using assms(3) by simp
    show ?thesis
    proof (cases rule: remove_progress [OF assms(1) here ne, case_names removed gone])
      case (removed d')
      then show ?thesis using finished [of d'] run loops Done d1 by (simp add: rbind_def)
    next
      case (gone d')
      then show ?thesis using died [of d'] run loops Done d1 by (simp add: rbind_def)
    qed
  next
    case Died
    then show ?thesis using died [of d1] run loops prog by (simp add: rbind_def progress_def)
  qed (use prog loops in \<open>auto simp: progress_def\<close>)
qed

text \<open>Nothing has moved yet; something has moved.\<close>

definition unstarted :: "path \<Rightarrow> path \<Rightarrow> manifest \<Rightarrow> string \<Rightarrow> view \<Rightarrow> view \<Rightarrow> bool" where
  "unstarted st parent man text before_view k \<longleftrightarrow>
     cut_view st k = before_view \<and>
     (k (st @ [RMANIFEST]) = None \<or> k (st @ [RMANIFEST]) = Some (KFile text) \<and> before_view (parent @ hd (rm_old man)) \<noteq> None)"

definition started :: "path \<Rightarrow> path \<Rightarrow> manifest \<Rightarrow> string \<Rightarrow> view \<Rightarrow> view \<Rightarrow> bool" where
  "started st parent man text after_view k \<longleftrightarrow>
     k (parent @ hd (rm_old man)) = None \<and>
     (k (st @ [RMANIFEST]) = None \<and> cut_view st k = after_view \<or>
      k (st @ [RMANIFEST]) = Some (KFile text) \<and> steps_ok (all_steps st parent man) k \<and>
      cut_view st (fold astep (all_steps st parent man) k) = after_view)"

lemma halted_first:
  assumes "steps_ok ((False, s, t) # as) k" "halted ((False, s, t) # as) k k'"
  shows "k' = k \<or> k' s = None"
proof -
  obtain A m s' t' B where split: "(False, s, t) # as = A @ (m, s', t') # B"
    and k': "k' = fold astep A k \<or> m \<and> (\<exists>p. prefix p (butlast t') \<and> k' = mkdirs_view p (fold astep A k))"
    using assms(2) unfolding halted_def by blast
  show ?thesis
  proof (cases A)
    case Nil
    then show ?thesis using split k' by simp
  next
    case (Cons x xs)
    then have x: "x = (False, s, t)" using split by simp
    have "done_step (fold astep A k) x" using steps_done_prefix [of A "(m, s', t') # B" k] assms(1) split Cons by simp
    moreover have "before x (m, s', t')" using assms(1) split Cons by (auto simp: steps_ok_def sorted_wrt_append)
    ultimately have "done_step k' x" using k' done_mkdirs by blast
    then show ?thesis using x by (simp add: done_step.simps)
  qed
qed

lemma halted_journal:
  assumes "shape sn man" "st = parent @ [sn]" "halted (all_steps st parent man) k k'"
  shows "k' (st @ [RMANIFEST]) = k (st @ [RMANIFEST])"
proof -
  obtain A m s t B where split: "all_steps st parent man = A @ (m, s, t) # B"
    and k': "k' = fold astep A k \<or> m \<and> (\<exists>p. prefix p (butlast t) \<and> k' = mkdirs_view p (fold astep A k))"
    using assms(3) unfolding halted_def by blast
  have same: "fold astep A k (st @ [RMANIFEST]) = k (st @ [RMANIFEST])"
    by (rule steps_keep_journal [OF assms(1), of A parent]) (use split assms(2) in auto)
  have "\<not> prefix (st @ [RMANIFEST]) (butlast t)" if m: "m"
  proof -
    have "(m, s, t) \<in> set (all_steps st parent man)" using split by simp
    then show ?thesis using m shape_move [OF assms(1)]
      by (cases rule: all_steps_cases) (auto simp: butlast_append RMANIFEST_def)
  qed
  then show ?thesis using k' same by (auto simp: mkdirs_view_def dest: prefix_order.trans)
qed


lemma unstarted_remains: "unstarted st parent man text kf k \<Longrightarrow> remains st k k' \<Longrightarrow> unstarted st parent man text kf k'"
  unfolding unstarted_def remains_def by (metis prefixI)

lemma not_below_staging:
  assumes "shape sn man" "st = parent @ [sn]"
  shows "\<not> prefix st (parent @ hd (rm_old man))"
proof -
  have "hd (rm_old man) \<in> set (rm_old man)" using assms(1) by (simp add: shape_def)
  then obtain c where "hd (rm_old man) = [c]" "c \<noteq> sn" using shape_entry [OF assms(1)] by blast
  then show ?thesis using assms(2) by simp
qed

text \<open>The recovery of a transaction in which nothing moved discards it, or dies and leaves one.\<close>

lemma recover_unstarted:
  assumes "crash_ok c" "shape sn man" "st = parent @ [sn]" "path_parent st = parent" "from_json text = Some man"
    and state: "unstarted st parent man text kf (kind_at (d_fs d))"
  obtains (finished) d' where "recover from_json c st d = (Done Discarded, d')" "kind_at (d_fs d') = kf" "d_left d \<le> d_left d' + 1"
  | (died) d' where "recover from_json c st d = (Died, d')" "d_left d = 0" "unstarted st parent man text kf (kind_at (d_fs d'))"
proof (cases "kind_at (d_fs d) st = None")
  case True
  have "cut_view st (kind_at (d_fs d)) = kind_at (d_fs d)"
    using kind_at_prefix_none [OF True] by (auto simp: cut_view_def fun_eq_iff)
  then show ?thesis using finished [of d] state True by (simp add: recover_def kind_at_exists unstarted_def)
next
  case False
  have ne: "st \<noteq> []" using assms(3) by simp
  have "kind_at (d_fs d) (st @ [RMANIFEST]) \<noteq> None \<Longrightarrow> kind_at (d_fs d) (parent @ hd (rm_old man)) \<noteq> None"
    using state not_below_staging [OF assms(2,3)] by (auto simp: unstarted_def cut_view_def)
  then have run: "recover from_json c st d = rbind (vfs_remove c st d) (\<lambda>_ d. (Done Discarded, d))"
    using state False assms(2,4,5) by (auto simp: recover_def kind_at_exists unstarted_def shape_def kind_at_file [THEN iffD2])
  show ?thesis
  proof (cases rule: remove_progress [OF assms(1) False ne, case_names removed gone])
    case (removed d')
    then show ?thesis using finished [of d'] run state by (simp add: rbind_def unstarted_def)
  next
    case (gone d')
    then show ?thesis using died [of d'] run unstarted_remains [OF state] by (simp add: rbind_def)
  qed
qed

lemma finished_started:
  assumes "shape sn man" "st = parent @ [sn]" "steps_ok (all_steps st parent man) k" "k (st @ [RMANIFEST]) = Some (KFile text)"
    and left: "remains st (fold astep (all_steps st parent man) k) k'"
  shows "started st parent man text (cut_view st (fold astep (all_steps st parent man) k)) k'"
proof -
  let ?steps = "all_steps st parent man"
  let ?F = "fold astep ?steps k"
  have done_F: "\<forall>a\<in>set ?steps. done_step ?F a" using steps_done_prefix [of ?steps "[]" k] assms(3) by simp
  have low: "k' q = None" if q: "?F q = None" for q
    using left q unfolding remains_def cut_view_def fun_eq_iff by metis
  have done_k': "\<forall>a\<in>set ?steps. done_step k' a"
  proof
    fix a assume "a \<in> set ?steps"
    then have "done_step ?F a" using done_F by blast
    then show "done_step k' a" using low by (cases a rule: prod_cases3) (simp add: done_step.simps)
  qed
  have "steps_ok ?steps k'"
    using assms(3) done_k' unfolding steps_ok_def by (intro conjI exI [of _ ?steps] exI [of _ "[]"]) (auto simp: list_all_iff)
  moreover have "fold astep ?steps k' = k'" by (rule astep_all_done [OF done_k'])
  moreover have "k' (parent @ hd (rm_old man)) = None"
  proof -
    have "(False, parent @ hd (rm_old man), st @ ''old'' # hd (rm_old man)) \<in> set ?steps"
      using assms(1) by (auto simp: all_steps_def shape_def)
    then show ?thesis using done_k' by (auto simp: done_step.simps)
  qed
  moreover have "?F (st @ [RMANIFEST]) = Some (KFile text)"
    using steps_keep_journal [OF assms(1), of ?steps parent "st @ [RMANIFEST]" k] assms(2,4) by simp
  moreover have "cut_view st k' = cut_view st ?F" "k' (st @ [RMANIFEST]) = None \<or> k' (st @ [RMANIFEST]) = ?F (st @ [RMANIFEST])"
    using left by (auto simp: remains_def)
  ultimately show ?thesis by (auto simp: started_def)
qed

lemma halted_started:
  assumes "shape sn man" "st = parent @ [sn]" "steps_ok (all_steps st parent man) k" "k (st @ [RMANIFEST]) = Some (KFile text)"
    and halt: "halted (all_steps st parent man) k k'" and gone: "k' (parent @ hd (rm_old man)) = None"
  shows "started st parent man text (cut_view st (fold astep (all_steps st parent man) k)) k'"
  using resume [OF assms(3) halt] halted_journal [OF assms(1,2) halt] assms(4) gone by (simp add: started_def)

lemma all_steps_first:
  "shape sn man \<Longrightarrow> \<exists>as. all_steps st parent man = (False, parent @ hd (rm_old man), st @ ''old'' # hd (rm_old man)) # as"
  by (cases "rm_old man") (auto simp: all_steps_def shape_def)

text \<open>The recovery of a started transaction completes it, or dies and leaves a started one.\<close>

lemma recover_started:
  assumes "crash_ok c" "shape sn man" "st = parent @ [sn]" "path_parent st = parent" "from_json text = Some man"
    and state: "started st parent man text kg (kind_at (d_fs d))"
  obtains (finished) d' r where "recover from_json c st d = (Done r, d')" "kind_at (d_fs d') = kg"
      "d_left d \<le> d_left d' + 2 * length (all_steps st parent man) + 1"
  | (died) d' where "recover from_json c st d = (Died, d')" "d_left d \<le> 2 * length (all_steps st parent man)"
      "started st parent man text kg (kind_at (d_fs d'))"
proof (cases "kind_at (d_fs d) (st @ [RMANIFEST]) = None")
  case none: True
  show ?thesis
  proof (cases "kind_at (d_fs d) st = None")
    case True
    have "cut_view st (kind_at (d_fs d)) = kind_at (d_fs d)"
      using kind_at_prefix_none [OF True] by (auto simp: cut_view_def fun_eq_iff)
    then show ?thesis using finished [of Discarded d] state True none by (simp add: recover_def kind_at_exists started_def)
  next
    case False
    have ne: "st \<noteq> []" using assms(3) by simp
    have run: "recover from_json c st d = rbind (vfs_remove c st d) (\<lambda>_ d. (Done Discarded, d))"
      using none False by (simp add: recover_def kind_at_exists)
    show ?thesis
    proof (cases rule: remove_progress [OF assms(1) False ne, case_names removed gone])
      case (removed d')
      then show ?thesis using finished [of Discarded d'] run state none by (simp add: rbind_def started_def)
    next
      case (gone d')
      have "kind_at (d_fs d') (parent @ hd (rm_old man)) = kind_at (d_fs d) (parent @ hd (rm_old man))"
        using gone(3) not_below_staging [OF assms(2,3)] unfolding remains_def cut_view_def fun_eq_iff by metis
      moreover have "kind_at (d_fs d') (st @ [RMANIFEST]) = None" using gone(3) none unfolding remains_def by (metis prefixI)
      ultimately have "started st parent man text kg (kind_at (d_fs d'))"
        using state none gone(3) by (simp add: started_def remains_def)
      then show ?thesis using died [of d'] run gone by (simp add: rbind_def)
    qed
  qed
next
  case False
  let ?k = "kind_at (d_fs d)" and ?steps = "all_steps st parent man"
  have here: "?k (st @ [RMANIFEST]) = Some (KFile text)" "steps_ok ?steps ?k" "cut_view st (fold astep ?steps ?k) = kg"
    "?k (parent @ hd (rm_old man)) = None" using state False by (auto simp: started_def)
  have "?k st \<noteq> None" using False kind_at_none_below [of "d_fs d" st "[RMANIFEST]"] by argo
  then have run: "recover from_json c st d = rbind (advance c st parent man d) (\<lambda>_ d. (Done RolledForward, d))"
    using here assms(2,4,5) by (simp add: recover_def kind_at_exists shape_def kind_at_file [THEN iffD2])
  show ?thesis
  proof (cases rule: advance_cases [OF assms(1-3) refl here(2) False, case_names ended gone])
    case (ended d')
    then show ?thesis using finished [of RolledForward d'] run here(3) by (simp add: rbind_def)
  next
    case (gone d')
    have "started st parent man text kg (kind_at (d_fs d'))"
      using gone(3)
    proof
      assume halt: "halted ?steps ?k (kind_at (d_fs d'))"
      obtain as where first: "?steps = (False, parent @ hd (rm_old man), st @ ''old'' # hd (rm_old man)) # as"
        using all_steps_first [OF assms(2)] by blast
      have "kind_at (d_fs d') (parent @ hd (rm_old man)) = None"
        using halted_first [OF here(2) [unfolded first] halt [unfolded first]] here(4) by auto
      then show ?thesis using halted_started [OF assms(2,3) here(2,1) halt] here(3) by simp
    qed (use finished_started [OF assms(2,3) here(2,1)] here(3) in simp)
    then show ?thesis using died [of d'] run gone by (simp add: rbind_def)
  qed
qed


section \<open>The run\<close>

definition opened :: "path \<Rightarrow> string \<Rightarrow> view \<Rightarrow> view" where
  "opened st text k = (\<lambda>q. if q = st \<or> q = st @ [''old''] \<or> q = st @ [''new''] then Some KDir
     else if q = st @ [RMANIFEST] then Some (KFile text) else k q)"

definition settled :: "path \<Rightarrow> path \<Rightarrow> manifest \<Rightarrow> string \<Rightarrow> view \<Rightarrow> view" where
  "settled st parent man text k = cut_view st (fold astep (all_steps st parent man) (opened st text k))"

lemma opened_ok:
  assumes "shape sn man" "st = parent @ [sn]" "\<And>q. prefix st q \<Longrightarrow> k q = None" "\<And>q. prefix q parent \<Longrightarrow> k q = Some KDir"
    "\<And>e. e \<in> set (rm_new man) \<Longrightarrow> k (parent @ e) = None"
  shows "steps_ok (all_steps st parent man) (opened st text k)"
proof -
  have "ready_step (opened st text k) x" if x: "x \<in> set (all_steps st parent man)" for x
    using x
  proof (cases rule: all_steps_cases)
    case (retire e)
    then obtain c where "e = [c]" "c \<noteq> sn" using shape_entry [OF assms(1)] by blast
    then show ?thesis using retire(2) assms(3) by (simp add: ready_step.simps opened_def butlast_append RMANIFEST_def)
  next
    case (publish e)
    then obtain c where "e = [c]" "c \<noteq> sn" using shape_entry [OF assms(1)] by blast
    then show ?thesis using publish assms(2,4,5) by (simp add: ready_step.simps opened_def butlast_append RMANIFEST_def)
  next
    case (settle s t)
    have t: "t \<noteq> []" using shape_move [OF assms(1) settle(1)] by simp
    have "opened st text k q \<in> {None, Some KDir}" if q: "prefix q (st @ ''new'' # butlast t)" for q
    proof -
      have "prefix q parent \<or> prefix st q"
        using prefix_same_cases [OF q, of st] by (auto simp: assms(2) prefix_snoc)
      moreover have "q \<noteq> st @ [RMANIFEST]" using q by (auto simp: RMANIFEST_def)
      ultimately show ?thesis using assms(3,4) by (auto simp: opened_def)
    qed
    then show ?thesis using settle(2) t assms(3) by (simp add: ready_step.simps opened_def butlast_append RMANIFEST_def)
  qed
  then show ?thesis
    using all_steps_wf [OF assms(1)] all_steps_sorted [OF assms(1)] unfolding steps_ok_def assms(2)
    by (intro conjI exI [of _ "[]"] exI [of _ "all_steps (parent @ [sn]) parent man"]) (simp_all add: list_all_iff)
qed

lemma cut_mkdirs:
  assumes "\<And>q. prefix q parent \<Longrightarrow> k q = Some KDir" "st = parent @ [sn]" "prefix p (st @ r)"
  shows "cut_view st (mkdirs_view p k) = cut_view st k"
proof -
  have "prefix q parent" if q: "prefix q p" "\<not> prefix st q" for q
    using prefix_order.trans [OF q(1) assms(3)] q(2) prefix_same_cases [of q "st @ r" st] by (auto simp: assms(2) prefix_snoc)
  then show ?thesis using assms(1) by (auto simp: cut_view_def mkdirs_view_def fun_eq_iff)
qed

lemma write_progress:
  assumes "kind_at (d_fs d) st = Some KDir" "kind_at (d_fs d) (st @ [n]) = None"
  obtains (written) d' where "vfs_write c (st @ [n]) text d = (Done (), d')"
      "kind_at (d_fs d') = (kind_at (d_fs d))(st @ [n] \<mapsto> KFile text)" "d_left d = Suc (d_left d')"
  | (died) d' where "vfs_write c (st @ [n]) text d = (Died, d')" "d_left d = 0"
      "\<And>q. q \<noteq> st @ [n] \<Longrightarrow> kind_at (d_fs d') q = kind_at (d_fs d) q"
proof -
  have put: "\<exists>fs. set_at (st @ [n]) (Some (FFile b)) (d_fs d) = Some fs" for b
    using assms(1) by (intro set_at_succeeds) (simp_all add: kind_at_is_dir)
  have view: "kind_at fs = (kind_at (d_fs d))(st @ [n] \<mapsto> KFile b)" if fs: "set_at (st @ [n]) (Some (FFile b)) (d_fs d) = Some fs" for b fs
  proof
    fix q
    have below: "kind_at (d_fs d) (st @ n # r) = None" for r using kind_at_none_below [OF assms(2), of r] by simp
    show "kind_at fs q = ((kind_at (d_fs d))(st @ [n] \<mapsto> KFile b)) q"
      using kind_at_set [OF fs, of q] below by (cases "drop (length st + 1) q") (auto simp: prefix_def kind_at_def)
  qed
  have free: "\<not> is_dir (st @ [n]) (d_fs d)" using assms(2) by (simp add: kind_at_is_dir)
  show ?thesis
  proof (cases "d_left d")
    case 0
    show ?thesis
    proof (cases "cr_written c text")
      case None
      then show ?thesis using died [of d] 0 by (simp add: vfs_write_def mutate_def)
    next
      case (Some part)
      obtain fs where fs: "set_at (st @ [n]) (Some (FFile part)) (d_fs d) = Some fs" using put by blast
      then show ?thesis using died [of "d\<lparr>d_fs := fs\<rparr>"] 0 Some free view [OF fs] by (simp add: vfs_write_def mutate_def)
    qed
  next
    case (Suc m)
    obtain fs where fs: "set_at (st @ [n]) (Some (FFile text)) (d_fs d) = Some fs" using put by blast
    then show ?thesis using written [of "\<lparr>d_fs = fs, d_left = m\<rparr>"] Suc free view [OF fs] by (simp add: vfs_write_def mutate_def)
  qed
qed


lemma rbind_simps [simp]:
  "rbind (Done x, d) f = f x d" "rbind (Bailed e, d) f = (Bailed e, d)" "rbind (Died, d) f = (Died, d)"
  by (simp_all add: rbind_def)

lemma journal_view:
  assumes "st \<noteq> []" "\<And>q. prefix st q \<Longrightarrow> k q = None" "\<And>q. strict_prefix q st \<Longrightarrow> k q = Some KDir"
  shows "move_view (st @ [RMANIFEST @ ''.tmp'']) (st @ [RMANIFEST])
     ((mkdirs_view (st @ [''new'']) (mkdirs_view (st @ [''old'']) k))(st @ [RMANIFEST @ ''.tmp''] \<mapsto> KFile text)) = opened st text k"
proof
  fix q
  show "move_view (st @ [RMANIFEST @ ''.tmp'']) (st @ [RMANIFEST])
     ((mkdirs_view (st @ [''new'']) (mkdirs_view (st @ [''old'']) k))(st @ [RMANIFEST @ ''.tmp''] \<mapsto> KFile text)) q = opened st text k q"
  proof (cases "prefix st q")
    case True
    then obtain r where q: "q = st @ r" by (auto elim: prefixE)
    have below: "k (st @ r) = None" for r by (rule assms(2)) simp
    show ?thesis
    proof (cases r)
      case (Cons a as)
      then show ?thesis by (cases as) (auto simp: q move_view_def mkdirs_view_def opened_def RMANIFEST_def below)
    qed (auto simp: q move_view_def mkdirs_view_def opened_def RMANIFEST_def)
  next
    case False
    have off: "\<not> prefix (st @ r) q" for r using False by (meson append_prefixD)
    have "q \<noteq> st @ r" for r using False by auto
    moreover have "prefix q (st @ [x]) \<Longrightarrow> k q = Some KDir" for x
      using False assms(3) by (metis prefix_order.le_neq_trans prefix_order.order_refl prefix_snoc prefixI)
    ultimately show ?thesis using off by (auto simp: move_view_def mkdirs_view_def opened_def)
  qed
qed

text \<open>Opening the transaction: the staging directories and the journal.\<close>

lemma open_cases:
  assumes "st = parent @ [sn]" and parents: "\<forall>q. prefix q parent \<longrightarrow> kind_at (d_fs d) q = Some KDir"
    and absent: "kind_at (d_fs d) st = None"
    and prog: "prog = rbind (vfs_create_dir c (st @ [''old'']) d) (\<lambda>_ d.
       rbind (vfs_create_dir c (st @ [''new'']) d) (\<lambda>_ d.
       rbind (vfs_write c (st @ [RMANIFEST @ ''.tmp'']) text d) (\<lambda>_ d.
       vfs_rename (st @ [RMANIFEST @ ''.tmp'']) (st @ [RMANIFEST]) d)))"
  obtains (opened) d' where "prog = (Done (), d')" "kind_at (d_fs d') = opened st text (kind_at (d_fs d))"
  | (died) d' where "prog = (Died, d')" "cut_view st (kind_at (d_fs d')) = kind_at (d_fs d)" "kind_at (d_fs d') (st @ [RMANIFEST]) = None"
proof -
  let ?k = "kind_at (d_fs d)" and ?old = "st @ [''old'']" and ?new = "st @ [''new'']" and ?tmp = "st @ [RMANIFEST @ ''.tmp'']" and ?man = "st @ [RMANIFEST]"
  have above: "?k q = Some KDir" if q: "prefix q parent" for q using parents q by blast
  have below: "?k q = None" if q: "prefix st q" for q by (rule kind_at_prefix_none [OF absent q])
  have cut_k: "cut_view st ?k = ?k" using below by (auto simp: cut_view_def fun_eq_iff)
  have cut_dirs: "cut_view st (mkdirs_view p k) = cut_view st k" if p: "prefix p (st @ [x])" and k: "\<And>q. prefix q parent \<Longrightarrow> k q = Some KDir" for p x k
    by (rule cut_mkdirs [OF k assms(1) p])
  have on_way: "prefix q parent \<or> prefix st q" if q: "prefix q (st @ [x])" for q x
    using prefix_same_cases [OF q, of st] by (auto simp: assms(1) prefix_snoc)
  have no_man: "\<not> prefix ?man p" if p: "prefix p (st @ [x])" "x \<noteq> RMANIFEST" for p x
    using prefix_order.trans [OF _ p(1), of ?man] p(2) by auto
  have names: "''old'' \<noteq> RMANIFEST" "''new'' \<noteq> RMANIFEST" by (simp_all add: RMANIFEST_def)
  have ways1: "\<forall>q. prefix q ?old \<longrightarrow> ?k q \<in> {None, Some KDir}" using on_way above below by blast
  show ?thesis
  proof (cases rule: mkdirs_progress [OF ways1, of c, case_names made gone])
    case (gone d1 q)
    then show ?thesis
      using died [of d1] prog cut_dirs [OF gone(3) above] no_man [OF gone(3) names(1)] below cut_k by (simp add: mkdirs_view_def)
  next
    case m1: (made d1)
    have above1: "kind_at (d_fs d1) q = Some KDir" if q: "prefix q parent" for q using m1(2) above [OF q] by (simp add: mkdirs_view_def)
    have ways2: "\<forall>q. prefix q ?new \<longrightarrow> kind_at (d_fs d1) q \<in> {None, Some KDir}"
      using on_way above below m1(2) by (auto simp: mkdirs_view_def)
    have cut1: "cut_view st (kind_at (d_fs d1)) = ?k" using m1(2) cut_dirs [of ?old "''old''" ?k] above cut_k by simp
    have man1: "kind_at (d_fs d1) ?man = None" using m1(2) names below by (simp add: mkdirs_view_def)
    show ?thesis
    proof (cases rule: mkdirs_progress [OF ways2, of c, case_names made gone])
      case (gone d2 q)
      then show ?thesis
        using died [of d2] prog m1 cut_dirs [OF gone(3) above1] no_man [OF gone(3) names(2)] man1 cut1 by (simp add: mkdirs_view_def)
    next
      case m2: (made d2)
      have cut2: "cut_view st (kind_at (d_fs d2)) = ?k" using m2(2) cut_dirs [of ?new "''new''", OF _ above1] cut1 by simp
      have man2: "kind_at (d_fs d2) ?man = None" using m2(2) names man1 by (simp add: mkdirs_view_def)
      have st2: "kind_at (d_fs d2) st = Some KDir" using m2(2) by (simp add: mkdirs_view_def)
      have tmp2: "kind_at (d_fs d2) ?tmp = None"
        using m2(2) m1(2) below [of ?tmp] by (simp add: mkdirs_view_def RMANIFEST_def)
      have tmp_man: "?tmp \<noteq> ?man" by simp
      show ?thesis
      proof (cases rule: write_progress [OF st2 tmp2, of c "text", case_names written gone])
        case (gone d3)
        have "cut_view st (kind_at (d_fs d3)) = ?k"
          unfolding cut2 [symmetric] cut_view_def fun_eq_iff using gone(3) by (metis prefixI)
        moreover have "kind_at (d_fs d3) ?man = None" using gone(3) man2 by simp
        ultimately show ?thesis using died [of d3] prog m1 m2 gone by simp
      next
        case w: (written d3)
        have here: "kind_at (d_fs d3) ?tmp \<noteq> None" "ready_step (kind_at (d_fs d3)) (False, ?tmp, ?man)" "wf_step (False, ?tmp, ?man)"
          using w(2) man2 st2 by (simp_all add: ready_step.simps wf_step.simps)
        show ?thesis
        proof (cases rule: rename_progress [OF here, case_names moved gone])
          case (moved d4)
          have "kind_at (d_fs d4) = opened st text ?k"
            unfolding moved(2) w(2) m2(2) m1(2)
          proof (rule journal_view)
            fix q assume "strict_prefix q st"
            then have "prefix q parent" by (auto simp: assms(1) strict_prefix_def prefix_snoc)
            then show "?k q = Some KDir" by (rule above)
          qed (use below assms(1) in auto)
          then show ?thesis using opened [of d4] prog m1 m2 w moved by simp
        next
          case gone
          have "cut_view st (kind_at (d_fs d3)) = ?k"
            unfolding cut2 [symmetric] cut_view_def fun_eq_iff w(2) by auto
          then show ?thesis using died [of d3] prog m1 m2 w gone man2 by simp
        qed
      qed
    qed
  qed
qed


lemma run_cases:
  assumes "crash_ok c" "shape sn man" "st = parent @ [sn]" "staging_dir (rs_parent r) (rs_name r) = st" "rs_parent r = parent"
    "rs_manifest r = man" "to_json man = text" and absent: "kind_at (d_fs d) st = None"
  obtains (finished) d' where "run_reshape to_json from_json c r d = (Done (), d')"
      "kind_at (d_fs d') = settled st parent man text (kind_at (d_fs d))" "kind_at (d_fs d) (parent @ hd (rm_old man)) \<noteq> None"
      "\<And>e. e \<in> set (rm_new man) \<Longrightarrow> kind_at (d_fs d) (parent @ e) = None"
  | (refused) e where "run_reshape to_json from_json c r d = (Bailed e, d)"
  | (died) d' where "run_reshape to_json from_json c r d = (Died, d')"
      "unstarted st parent man text (kind_at (d_fs d)) (kind_at (d_fs d')) \<or>
       started st parent man text (settled st parent man text (kind_at (d_fs d))) (kind_at (d_fs d'))"
      "kind_at (d_fs d) (parent @ hd (rm_old man)) \<noteq> None"
      "\<And>e. e \<in> set (rm_new man) \<Longrightarrow> kind_at (d_fs d) (parent @ e) = None"
proof -
  let ?k = "kind_at (d_fs d)" and ?prim = "parent @ hd (rm_old man)" and ?steps = "all_steps st parent man"
  define prog where "prog = rbind (vfs_create_dir c (st @ [''old'']) d) (\<lambda>_ d.
       rbind (vfs_create_dir c (st @ [''new'']) d) (\<lambda>_ d.
       rbind (vfs_write c (st @ [RMANIFEST @ ''.tmp'']) text d) (\<lambda>_ d.
       vfs_rename (st @ [RMANIFEST @ ''.tmp'']) (st @ [RMANIFEST]) d)))"
  have tail: "rbind (vfs_create_dir c (st @ [''old'']) d) (\<lambda>_ d.
     rbind (vfs_create_dir c (st @ [''new'']) d) (\<lambda>_ d.
     rbind (vfs_write c (st @ [RMANIFEST @ ''.tmp'']) text d) (\<lambda>_ d.
     rbind (vfs_rename (st @ [RMANIFEST @ ''.tmp'']) (st @ [RMANIFEST]) d) (\<lambda>_ d.
     advance c st parent man d)))) = rbind prog (\<lambda>_. advance c st parent man)"
    unfolding prog_def rbind_def by (auto split: prod.splits outcome.splits)
  have run: "run_reshape to_json from_json c r d =
      (if ?k ?prim = None then (Bailed (NothingToReshape ?prim), d)
       else case find (\<lambda>t. fs_exists t (d_fs d)) (rs_targets r) of Some t \<Rightarrow> (Bailed (TargetExists ?prim t), d)
            | None \<Rightarrow> rbind prog (\<lambda>_. advance c st parent man))"
    unfolding run_reshape_def Let_def assms(4,6,7) unfolding assms(5) tail [symmetric] by (simp add: absent kind_at_exists)
  show ?thesis
  proof (cases "?k ?prim = None \<or> find (\<lambda>t. fs_exists t (d_fs d)) (rs_targets r) \<noteq> None")
    case True
    then show ?thesis using run refused by (auto split: option.splits if_splits)
  next
    case False
    then have run: "run_reshape to_json from_json c r d = rbind prog (\<lambda>_. advance c st parent man)" and prim: "?k ?prim \<noteq> None"
      and free: "find (\<lambda>t. fs_exists t (d_fs d)) (rs_targets r) = None" using run by auto
    have targets: "?k (parent @ e) = None" if e: "e \<in> set (rm_new man)" for e
      using free e by (auto simp: find_None_iff rs_targets_def assms(5,6) kind_at_exists)
    obtain p0 where p0: "hd (rm_old man) = [p0]" using shape_entry [OF assms(2), of "hd (rm_old man)"] assms(2) by (auto simp: shape_def)
    have above: "?k q = Some KDir" if q: "prefix q parent" for q
      using kind_at_prefix [OF prim] prefix_order.le_less_trans [OF q, of ?prim] p0 by (simp add: strict_prefix_def)
    have below: "?k q = None" if q: "prefix st q" for q by (rule kind_at_prefix_none [OF absent q])
    have parents: "\<forall>q. prefix q parent \<longrightarrow> ?k q = Some KDir" using above by blast
    show ?thesis
    proof (cases rule: open_cases [OF assms(3) parents absent prog_def, case_names opened gone])
      case (gone d1)
      then show ?thesis using died [of d1] run prim targets by (simp add: unstarted_def)
    next
      case (opened d1)
      have ok: "steps_ok ?steps (kind_at (d_fs d1))"
        unfolding opened(2) by (rule opened_ok [OF assms(2,3)]) (fact below above targets)+
      have journal: "kind_at (d_fs d1) (st @ [RMANIFEST]) = Some (KFile text)"
        unfolding opened(2) by (simp add: opened_def RMANIFEST_def)
      then have there: "kind_at (d_fs d1) (st @ [RMANIFEST]) \<noteq> None" by simp
      show ?thesis
      proof (cases rule: advance_cases [OF assms(1-3) refl ok there, case_names ended gone])
        case (ended d')
        then show ?thesis using finished [of d'] run opened prim targets by (simp add: settled_def)
      next
        case (gone d')
        have "unstarted st parent man text ?k (kind_at (d_fs d')) \<or> started st parent man text (settled st parent man text ?k) (kind_at (d_fs d'))"
          using gone(3)
        proof
          assume halt: "halted ?steps (kind_at (d_fs d1)) (kind_at (d_fs d'))"
          obtain as where first: "?steps = (False, ?prim, st @ ''old'' # hd (rm_old man)) # as" using all_steps_first [OF assms(2)] by blast
          from halted_first [OF ok [unfolded first] halt [unfolded first]] show ?thesis
          proof
            assume same: "kind_at (d_fs d') = kind_at (d_fs d1)"
            have "cut_view st (opened st text ?k) = ?k" using below by (auto simp: cut_view_def opened_def fun_eq_iff)
            then show ?thesis using same opened(2) journal prim by (simp add: unstarted_def)
          next
            assume "kind_at (d_fs d') ?prim = None"
            then show ?thesis using halted_started [OF assms(2,3) ok journal halt] opened(2) by (simp add: settled_def)
          qed
        qed (use finished_started [OF assms(2,3) ok journal] opened(2) in \<open>simp add: settled_def\<close>)
        then show ?thesis using died [of d'] run opened gone prim targets by simp
      qed
    qed
  qed
qed


section \<open>What a reshape does\<close>

text \<open>
  Every moved file or directory is at its new place with all that is below it, the old form is
  gone, and every path outside the two forms is as it was.
\<close>

definition reshaped :: "path \<Rightarrow> manifest \<Rightarrow> view \<Rightarrow> view \<Rightarrow> bool" where
  "reshaped parent man k k' \<longleftrightarrow>
     (\<forall>(s, t)\<in>set (rm_moves man). \<forall>q. k' (parent @ t @ q) = k (parent @ s @ q)) \<and>
     (\<forall>e\<in>set (rm_old man). k' (parent @ e) = None) \<and>
     (\<forall>q. (\<forall>e\<in>set (rm_old man @ rm_new man). \<not> prefix (parent @ e) q) \<longrightarrow> k' q = k q)"

lemma fold_moved:
  assumes "steps_ok (A @ (m, s, t) # B) k" "fold astep A k s \<noteq> None"
    and later: "\<And>m' s' t'. (m', s', t') \<in> set B \<Longrightarrow> \<not> prefix s' (t @ r) \<and> \<not> prefix t' (t @ r) \<and> \<not> prefix (t @ r) (butlast t')"
    and earlier: "\<And>m' s' t'. (m', s', t') \<in> set A \<Longrightarrow> \<not> prefix s' (s @ r) \<and> \<not> prefix t' (s @ r) \<and> \<not> prefix (s @ r) (butlast t')"
  shows "fold astep (A @ (m, s, t) # B) k (t @ r) = k (s @ r)"
proof -
  let ?k = "fold astep A k"
  have head: "steps_ok ((m, s, t) # B) ?k" by (rule steps_ok_append [OF assms(1)])
  have ready: "ready_step ?k (m, s, t)" using steps_ok_head [OF head assms(2)] by simp
  have wf: "wf_step (m, s, t)" using assms(1) by (simp add: steps_ok_def)
  have "\<not> prefix (s @ r) (butlast t)" using wf append_prefixD [OF prefix_butlast, of s r t] by (auto simp: wf_step.simps)
  then have "astep (m, s, t) ?k (t @ r) = ?k (s @ r)"
    using assms(2) ready by (simp add: astep.simps move_view_def mkdirs_view_def ready_step.simps)
  moreover have "?k (s @ r) = k (s @ r)" by (rule fold_unchanged) (use earlier in blast)
  moreover have "fold astep B (astep (m, s, t) ?k) (t @ r) = astep (m, s, t) ?k (t @ r)" by (rule fold_unchanged) (use later in blast)
  ultimately show ?thesis by simp
qed

lemma sorted_wrt_split:
  assumes "sorted_wrt P xs" "x \<in> set xs"
  obtains as bs where "xs = as @ x # bs" "\<forall>a\<in>set as. P a x" "\<forall>b\<in>set bs. P x b"
  using assms by (metis (no_types, lifting) in_set_conv_decomp list.set_intros(1) sorted_wrt.simps(2) sorted_wrt_append)

text \<open>The path of a moved file through the three loops.\<close>

lemma retire_moved:
  assumes "shape sn man" "st = parent @ [sn]" "e \<in> set (rm_old man)" "k (parent @ e) \<noteq> None"
    "steps_ok (retire_steps parent (st @ [''old'']) (rm_old man)) k"
  shows "fold astep (retire_steps parent (st @ [''old'']) (rm_old man)) k (st @ ''old'' # e @ q) = k (parent @ e @ q)"
proof -
  have "sorted_wrt (\<noteq>) (rm_old man)" using assms(1) by (simp add: shape_def distinct_sorted_wrt sorted_wrt_append)
  then obtain as bs where old: "rm_old man = as @ e # bs" "\<forall>a\<in>set as. a \<noteq> e" "\<forall>b\<in>set bs. e \<noteq> b"
    using assms(3) by (rule sorted_wrt_split)
  obtain c where c: "e = [c]" "c \<noteq> sn" using shape_entry [OF assms(1)] assms(3) by blast
  have single: "\<exists>c'. x = [c'] \<and> c' \<noteq> sn" if x: "x \<in> set as \<union> set bs" for x
    using shape_entry [OF assms(1), of x] x old(1) by auto
  have A: "\<not> prefix s' (parent @ e @ r) \<and> \<not> prefix t' (parent @ e @ r) \<and> \<not> prefix (parent @ e @ r) (butlast t')"
    if x: "(m', s', t') \<in> set (retire_steps parent (st @ [''old'']) as)" for m' s' t' r
  proof -
    obtain a where a: "a \<in> set as" "(m', s', t') = (False, parent @ a, (st @ [''old'']) @ a)" using x by auto
    then obtain c' where "a = [c']" "c' \<noteq> sn" using single by blast
    then show ?thesis using a old(2) c assms(2) by (auto simp: butlast_append)
  qed
  have B: "\<not> prefix s' (st @ ''old'' # e @ r) \<and> \<not> prefix t' (st @ ''old'' # e @ r) \<and> \<not> prefix (st @ ''old'' # e @ r) (butlast t')"
    if x: "(m', s', t') \<in> set (retire_steps parent (st @ [''old'']) bs)" for m' s' t' r
  proof -
    obtain a where a: "a \<in> set bs" "(m', s', t') = (False, parent @ a, (st @ [''old'']) @ a)" using x by auto
    then obtain c' where "a = [c']" "c' \<noteq> sn" using single by blast
    then show ?thesis using a old(3) c assms(2) by (auto simp: butlast_append)
  qed
  have "fold astep (retire_steps parent (st @ [''old'']) as) k (parent @ e) = k (parent @ e)"
    by (rule fold_unchanged) (use A [of _ _ _ "[]"] in simp)
  then have "fold astep (retire_steps parent (st @ [''old'']) as @ (False, parent @ e, (st @ [''old'']) @ e) # retire_steps parent (st @ [''old'']) bs) k
      (((st @ [''old'']) @ e) @ q) = k ((parent @ e) @ q)"
    using assms(4,5) old(1)
    by (intro fold_moved) (use A B in simp_all)
  then show ?thesis using old(1) by simp
qed

lemma publish_moved:
  assumes "shape sn man" "st = parent @ [sn]" "e \<in> set (rm_new man)" "k (st @ ''new'' # e) \<noteq> None"
    "steps_ok (publish_steps parent (st @ [''new'']) (rm_new man)) k"
  shows "fold astep (publish_steps parent (st @ [''new'']) (rm_new man)) k (parent @ e @ q) = k (st @ ''new'' # e @ q)"
proof -
  have "sorted_wrt (\<noteq>) (rm_new man)" using assms(1) by (simp add: shape_def distinct_sorted_wrt sorted_wrt_append)
  then obtain as bs where new: "rm_new man = as @ e # bs" "\<forall>a\<in>set as. a \<noteq> e" "\<forall>b\<in>set bs. e \<noteq> b"
    using assms(3) by (rule sorted_wrt_split)
  obtain c where c: "e = [c]" "c \<noteq> sn" using shape_entry [OF assms(1)] assms(3) by blast
  have single: "\<exists>c'. x = [c'] \<and> c' \<noteq> sn" if x: "x \<in> set as \<union> set bs" for x
    using shape_entry [OF assms(1), of x] x new(1) by auto
  have A: "\<not> prefix s' (st @ ''new'' # e @ r) \<and> \<not> prefix t' (st @ ''new'' # e @ r) \<and> \<not> prefix (st @ ''new'' # e @ r) (butlast t')"
    if x: "(m', s', t') \<in> set (publish_steps parent (st @ [''new'']) as)" for m' s' t' r
  proof -
    obtain a where a: "a \<in> set as" "(m', s', t') = (False, (st @ [''new'']) @ a, parent @ a)" using x by auto
    then obtain c' where "a = [c']" "c' \<noteq> sn" using single by blast
    then show ?thesis using a new(2) c assms(2) by (auto simp: butlast_append)
  qed
  have B: "\<not> prefix s' (parent @ e @ r) \<and> \<not> prefix t' (parent @ e @ r) \<and> \<not> prefix (parent @ e @ r) (butlast t')"
    if x: "(m', s', t') \<in> set (publish_steps parent (st @ [''new'']) bs)" for m' s' t' r
  proof -
    obtain a where a: "a \<in> set bs" "(m', s', t') = (False, (st @ [''new'']) @ a, parent @ a)" using x by auto
    then obtain c' where "a = [c']" "c' \<noteq> sn" using single by blast
    then show ?thesis using a new(3) c assms(2) by (auto simp: butlast_append)
  qed
  have "fold astep (publish_steps parent (st @ [''new'']) as) k (st @ ''new'' # e) = k (st @ ''new'' # e)"
    by (rule fold_unchanged) (use A [of _ _ _ "[]"] in simp)
  then have "fold astep (publish_steps parent (st @ [''new'']) as @ (False, (st @ [''new'']) @ e, parent @ e) # publish_steps parent (st @ [''new'']) bs) k
      ((parent @ e) @ q) = k (((st @ [''new'']) @ e) @ q)"
    using assms(4,5) new(1)
    by (intro fold_moved) (use A B in simp_all)
  then show ?thesis using new(1) by simp
qed

lemma settle_moved:
  assumes "shape sn man" "(s, t) \<in> set (rm_moves man)" "k (st @ ''old'' # s) \<noteq> None"
    "steps_ok (settle_steps (st @ [''old'']) (st @ [''new'']) (rm_moves man)) k"
  shows "fold astep (settle_steps (st @ [''old'']) (st @ [''new'']) (rm_moves man)) k (st @ ''new'' # t @ q) = k (st @ ''old'' # s @ q)"
proof -
  have "sorted_wrt (\<lambda>(s, t) (s', t'). apart s s' \<and> apart t t') (rm_moves man)" using assms(1) by (simp add: shape_def)
  then obtain as bs where moves: "rm_moves man = as @ (s, t) # bs"
    "\<forall>a\<in>set as. (\<lambda>(s, t) (s', t'). apart s s' \<and> apart t t') a (s, t)" "\<forall>b\<in>set bs. (\<lambda>(s, t) (s', t'). apart s s' \<and> apart t t') (s, t) b"
    using assms(2) by (rule sorted_wrt_split)
  have off_s: "\<not> prefix s' (s @ r)" if m: "(s', t') \<in> set as" for s' t' r
    using moves(2) m apart_below [of s' s r] by (auto simp: apart_def)
  have off_t: "\<not> prefix t' (t @ r) \<and> \<not> prefix (t @ r) (butlast t')" if m: "(s', t') \<in> set bs" for s' t' r
  proof -
    have "apart t' t" using moves(3) m apart_sym by auto
    then show ?thesis using apart_below [of t' t r] prefix_butlast by (auto simp: apart_def)
  qed
  have ne: "t' \<noteq> []" if m: "(s', t') \<in> set as \<union> set bs" for s' t' using shape_move [OF assms(1), of s' t'] m moves(1) by auto
  have A: "\<not> prefix s' (st @ ''old'' # s @ r) \<and> \<not> prefix t' (st @ ''old'' # s @ r) \<and> \<not> prefix (st @ ''old'' # s @ r) (butlast t')"
    if x: "(m', s', t') \<in> set (settle_steps (st @ [''old'']) (st @ [''new'']) as)" for m' s' t' r
  proof -
    obtain a b where "(a, b) \<in> set as" "s' = st @ ''old'' # a" "t' = st @ ''new'' # b" using x by auto
    then show ?thesis using off_s [of a b r] ne [of a b] by (simp add: butlast_append)
  qed
  have B: "\<not> prefix s' (st @ ''new'' # t @ r) \<and> \<not> prefix t' (st @ ''new'' # t @ r) \<and> \<not> prefix (st @ ''new'' # t @ r) (butlast t')"
    if x: "(m', s', t') \<in> set (settle_steps (st @ [''old'']) (st @ [''new'']) bs)" for m' s' t' r
  proof -
    obtain a b where "(a, b) \<in> set bs" "s' = st @ ''old'' # a" "t' = st @ ''new'' # b" using x by auto
    then show ?thesis using off_t [of a b r] ne [of a b] by (simp add: butlast_append)
  qed
  have "fold astep (settle_steps (st @ [''old'']) (st @ [''new'']) as) k (st @ ''old'' # s) = k (st @ ''old'' # s)"
    by (rule fold_unchanged) (use A [of _ _ _ "[]"] in simp)
  then have "fold astep (settle_steps (st @ [''old'']) (st @ [''new'']) as @ (True, (st @ [''old'']) @ s, (st @ [''new'']) @ t) #
      settle_steps (st @ [''old'']) (st @ [''new'']) bs) k (((st @ [''new'']) @ t) @ q) = k (((st @ [''old'']) @ s) @ q)"
    using assms(3,4) moves(1)
    by (intro fold_moved) (use A B in simp_all)
  then show ?thesis using moves(1) by simp
qed


text \<open>Views of a file system are closed: what is above something is a directory.\<close>

definition closed_view :: "view \<Rightarrow> bool" where
  "closed_view k \<longleftrightarrow> (\<forall>p q. strict_prefix p q \<longrightarrow> k q \<noteq> None \<longrightarrow> k p = Some KDir)"

lemma closed_kind_at: "closed_view (kind_at fs)"
  using kind_at_prefix unfolding closed_view_def by blast

lemma closed_mkdirs: "closed_view k \<Longrightarrow> closed_view (mkdirs_view p k)"
  unfolding closed_view_def mkdirs_view_def by (metis prefix_order.less_le_trans prefix_order.less_imp_le)

lemma closed_move:
  assumes k: "closed_view k" and dir: "k (butlast t) = Some KDir" and wf: "wf_step (m, s, t)"
  shows "closed_view (move_view s t k)"
  unfolding closed_view_def
proof (intro allI impI)
  fix p q assume pq: "strict_prefix p q" and some: "move_view s t k q \<noteq> None"
  have up: "k p' = Some KDir" if p': "strict_prefix p' q'" "k q' \<noteq> None" for p' q' using k p' unfolding closed_view_def by blast
  show "move_view s t k p = Some KDir"
  proof (cases "prefix t q")
    case True
    then obtain r where q: "q = t @ r" by (auto elim: prefixE)
    show ?thesis
    proof (cases "prefix t p")
      case True
      then obtain r' where p: "p = t @ r'" by (auto elim: prefixE)
      have "strict_prefix (s @ r') (s @ r)" using pq unfolding p q by (simp add: strict_prefix_def)
      then show ?thesis using up some unfolding p q by (simp add: move_view_def)
    next
      case False
      have "prefix p t" using prefix_same_cases [of p q t] pq True False by (auto simp: strict_prefix_def)
      then have below: "prefix p (butlast t)"
        using False by (metis append_butlast_last_id butlast.simps(1) prefix_order.order_refl prefix_snoc)
      have "k p = Some KDir" using up [of p "butlast t"] dir below by (cases "p = butlast t") (auto simp: strict_prefix_def)
      moreover have "\<not> prefix s p"
      proof
        assume "prefix s p"
        then have "prefix s t" using below prefix_butlast prefix_order.trans by blast
        then show False using wf by (simp add: wf_step.simps)
      qed
      ultimately show ?thesis using False by (simp add: move_view_def)
    qed
  next
    case False
    then have q: "\<not> prefix s q" "k q \<noteq> None" using some by (auto simp: move_view_def split: if_splits)
    moreover have "prefix p q" using pq by (simp add: strict_prefix_def)
    ultimately have "\<not> prefix t p" "\<not> prefix s p" using False prefix_order.trans by blast+
    then show ?thesis using up [OF pq q(2)] by (simp add: move_view_def)
  qed
qed

lemma closed_astep:
  assumes k: "closed_view k" and ok: "steps_ok (a # as) k"
  shows "closed_view (astep a k)"
proof -
  obtain m s t where a: "a = (m, s, t)" by (cases a) auto
  show ?thesis
  proof (cases "k s \<noteq> None \<and> k t = None")
    case True
    have "ready_step k (m, s, t)" using steps_ok_head [OF ok [unfolded a]] True by simp
    then have "(if m then mkdirs_view (butlast t) k else k) (butlast t) = Some KDir" by (simp add: ready_step.simps mkdirs_view_def)
    moreover have "wf_step (m, s, t)" using ok a by (simp add: steps_ok_def)
    moreover have "closed_view (if m then mkdirs_view (butlast t) k else k)" using k closed_mkdirs by simp
    ultimately show ?thesis unfolding a astep.simps using closed_move True by presburger
  qed (use k in \<open>auto simp: a astep.simps\<close>)
qed

lemma closed_fold: "closed_view k \<Longrightarrow> steps_ok (as @ bs) k \<Longrightarrow> closed_view (fold astep as k)"
proof (induction as arbitrary: k)
  case (Cons a as)
  have "closed_view (astep a k)" using closed_astep [OF Cons.prems(1)] Cons.prems(2) by simp
  moreover have "steps_ok (as @ bs) (astep a k)" using steps_ok_tail Cons.prems(2) by simp
  ultimately show ?case using Cons.IH by simp
qed simp

lemma closed_opened:
  assumes "closed_view k" "\<And>q. prefix st q \<Longrightarrow> k q = None" "\<And>q. strict_prefix q st \<Longrightarrow> k q = Some KDir"
  shows "closed_view (opened st text k)"
  unfolding closed_view_def
proof (intro allI impI)
  fix p q assume pq: "strict_prefix p q" and some: "opened st text k q \<noteq> None"
  show "opened st text k p = Some KDir"
  proof (cases "k q = None")
    case True
    then have "q = st \<or> (\<exists>x. q = st @ [x])" using some by (auto simp: opened_def split: if_splits)
    then have "p = st \<or> strict_prefix p st" using pq by (auto simp: strict_prefix_def prefix_snoc)
    then show ?thesis using assms(3) by (auto simp: opened_def strict_prefix_def)
  next
    case False
    then have "k p = Some KDir" using assms(1) pq unfolding closed_view_def by blast
    then show ?thesis using assms(2) [of p] by (auto simp: opened_def)
  qed
qed


lemma settled_reshaped:
  assumes "shape sn man" "st = parent @ [sn]" "k = kind_at fs" "k st = None" "k (parent @ hd (rm_old man)) \<noteq> None"
    "\<And>e. e \<in> set (rm_new man) \<Longrightarrow> k (parent @ e) = None"
    "\<And>s t. (s, t) \<in> set (rm_moves man) \<Longrightarrow> k (parent @ s) \<noteq> None"
  shows "reshaped parent man k (settled st parent man text k)"
proof -
  let ?o = "opened st text k"
  define F2 where "F2 = fold astep (retire_steps parent (st @ [''old'']) (rm_old man)) ?o"
  define F3 where "F3 = fold astep (settle_steps (st @ [''old'']) (st @ [''new'']) (rm_moves man)) F2"
  define F where "F = fold astep (publish_steps parent (st @ [''new'']) (rm_new man)) F3"
  have F: "settled st parent man text k = cut_view st F" "fold astep (all_steps st parent man) ?o = F"
    by (simp_all add: settled_def all_steps_def F2_def F3_def F_def)
  have below: "k q = None" if q: "prefix st q" for q using kind_at_prefix_none [OF _ q, of fs] assms(3,4) by simp
  obtain p0 where p0: "hd (rm_old man) = [p0]" using shape_entry [OF assms(1), of "hd (rm_old man)"] assms(1) by (auto simp: shape_def)
  have above: "k q = Some KDir" if q: "prefix q parent" for q
    using kind_at_prefix [OF assms(5) [unfolded assms(3)]] prefix_order.le_less_trans [OF q, of "parent @ hd (rm_old man)"] p0 assms(3)
    by (simp add: strict_prefix_def)
  have ok: "steps_ok (all_steps st parent man) ?o" by (rule opened_ok [OF assms(1,2)]) (fact below above assms(6))+
  have "closed_view ?o"
  proof (rule closed_opened)
    fix q assume "strict_prefix q st"
    then show "k q = Some KDir" using above assms(2) by (auto simp: strict_prefix_def prefix_snoc)
  qed (use below assms(3) closed_kind_at in auto)
  have ok2: "steps_ok (retire_steps parent (st @ [''old'']) (rm_old man)) ?o" using ok steps_ok_prefix unfolding all_steps_def by blast
  have ok3: "steps_ok (settle_steps (st @ [''old'']) (st @ [''new'']) (rm_moves man) @ publish_steps parent (st @ [''new'']) (rm_new man)) F2"
    using steps_ok_append [OF ok [unfolded all_steps_def]] by (simp add: F2_def)
  have ok4: "steps_ok (publish_steps parent (st @ [''new'']) (rm_new man)) F3"
    using steps_ok_append [OF ok3] by (simp add: F3_def)
  have closed2: "closed_view F2"
    using closed_fold [OF \<open>closed_view ?o\<close>] ok unfolding all_steps_def F2_def by blast
  have closed3: "closed_view F3" using closed_fold [OF closed2 ok3] by (simp add: F3_def)
  have moved: "F (parent @ t @ q) = k (parent @ s @ q)" if m: "(s, t) \<in> set (rm_moves man)" for s t q
  proof -
    note sh = shape_move [OF assms(1) m]
    obtain c s' where s: "s = c # s'" using sh(1) by (cases s) auto
    obtain e t' where t: "t = e # t'" using sh(2) by (cases t) auto
    have c: "[c] \<in> set (rm_old man)" "[e] \<in> set (rm_new man)" using sh(3,4) s t by auto
    have out: "?o (parent @ c # r) = k (parent @ c # r)" for r
      using shape_entry [OF assms(1), of "[c]"] c(1) assms(2) by (auto simp: opened_def)
    have "k (parent @ [c]) \<noteq> None"
      using assms(7) [OF m] kind_at_none_below [of fs "parent @ [c]" s'] assms(3) s by (cases "k (parent @ [c])") auto
    then have "F2 (st @ ''old'' # [c] @ r) = k (parent @ c # r)" for r
      using retire_moved [OF assms(1,2) c(1) _ ok2, of r] out by (simp add: F2_def)
    then have F2: "F2 (st @ ''old'' # s @ r) = k (parent @ s @ r)" for r using s by simp
    then have "F2 (st @ ''old'' # s) \<noteq> None" using assms(7) [OF m] F2 [of "[]"] by simp
    then have F3: "F3 (st @ ''new'' # t @ r) = k (parent @ s @ r)" for r
      using settle_moved [OF assms(1) m _ steps_ok_prefix [OF ok3]] F2 by (simp add: F3_def)
    have "F3 (st @ ''new'' # t) \<noteq> None" using F3 [of "[]"] assms(7) [OF m] by simp
    moreover have "t' \<noteq> [] \<Longrightarrow> strict_prefix (st @ ''new'' # [e]) (st @ ''new'' # t)" using t by (simp add: strict_prefix_def)
    ultimately have "F3 (st @ ''new'' # [e]) \<noteq> None"
      using closed3 t unfolding closed_view_def by (cases "t' = []") auto
    then show ?thesis using publish_moved [OF assms(1,2) c(2) _ ok4, of "t' @ q"] F3 t by (simp add: F_def)
  qed
  have "cut_view st F (parent @ t @ q) = k (parent @ s @ q)" if m: "(s, t) \<in> set (rm_moves man)" for s t q
  proof -
    obtain e t' where t: "t = e # t'" using shape_move [OF assms(1) m] by (cases t) auto
    then have "e \<noteq> sn" using shape_move [OF assms(1) m] shape_entry [OF assms(1), of "[e]"] by auto
    then show ?thesis using moved [OF m] t assms(2) by (simp add: cut_view_def)
  qed
  moreover have "cut_view st F (parent @ e) = None" if e: "e \<in> set (rm_old man)" for e
  proof -
    have "(False, parent @ e, st @ ''old'' # e) \<in> set (all_steps st parent man)" using e by (auto simp: all_steps_def)
    then have "F (parent @ e) = None"
      using steps_done_prefix [of "all_steps st parent man" "[]" ?o] ok F(2) by (auto simp: done_step.simps)
    then show ?thesis by (simp add: cut_view_def)
  qed
  moreover have "cut_view st F q = k q" if q: "\<forall>e\<in>set (rm_old man @ rm_new man). \<not> prefix (parent @ e) q" for q
  proof (cases "prefix st q")
    case False
    have off: "\<not> prefix (st @ r) q" for r using False append_prefixD by blast
    have same: "?o q = k q" using False by (auto simp: opened_def)
    have dir: "?o q = Some KDir" if "prefix q (st @ r)" for r
      using prefix_same_cases [OF that, of st] False above same by (auto simp: assms(2) prefix_snoc)
    have "fold astep (all_steps st parent man) ?o q = ?o q"
    proof (rule fold_unchanged)
      fix m s t assume "(m, s, t) \<in> set (all_steps st parent man)"
      then show "\<not> prefix s q \<and> \<not> prefix t q \<and> (prefix q (butlast t) \<longrightarrow> ?o q = Some KDir)"
      proof (cases rule: all_steps_cases)
        case (retire e)
        then show ?thesis using q off dir [OF prefix_butlast] by auto
      next
        case (settle s t)
        then show ?thesis using off dir [OF prefix_butlast] by auto
      next
        case (publish e)
        then obtain c where "e = [c]" using shape_entry [OF assms(1)] by blast
        then show ?thesis using publish q off dir [of "[]"] by (auto simp: assms(2) butlast_append)
      qed
    qed
    then show ?thesis using F(2) same False by (simp add: cut_view_def)
  qed (use below in \<open>simp add: cut_view_def\<close>)
  ultimately show ?thesis unfolding reshaped_def F(1) by blast
qed


section \<open>Plans\<close>

definition entries_ok :: "string \<Rightarrow> path list \<Rightarrow> bool" where
  "entries_ok sn es \<longleftrightarrow> list_all (\<lambda>e. length e = 1 \<and> e \<noteq> [sn]) es \<and> distinct es"

definition moves_ok :: "string \<Rightarrow> (path \<times> path) list \<Rightarrow> bool" where
  "moves_ok sn ms \<longleftrightarrow> list_all (\<lambda>(s, t). s \<noteq> [] \<and> t \<noteq> [] \<and> hd s \<noteq> sn \<and> hd t \<noteq> sn) ms \<and>
     sorted_wrt (\<lambda>(s, t) (s', t'). apart s s' \<and> apart t t') ms"

lemma relative_below: "relative parent (parent @ s) = (if ''..'' \<in> set s then Inl (NotPlain (parent @ s)) else Inr s)"
  by (simp add: relative_def strip_path_Some [THEN iffD2])

lemma top_level_entry: "s \<noteq> [] \<Longrightarrow> hd s \<noteq> sn \<Longrightarrow> length (top_level s) = 1 \<and> top_level s \<noteq> [sn]"
  by (cases s) (auto simp: top_level_def)

lemma plan_moves_ok:
  assumes "plan_moves parent np ex (map (\<lambda>(s, t). (parent @ s, parent @ t)) ms) old new planned = Inr (old', new', planned')"
    "entries_ok sn old" "entries_ok sn (new @ [np])" "moves_ok sn (planned @ ms)"
    "\<forall>(s, t)\<in>set planned. top_level s \<in> set old \<and> top_level t \<in> set (new @ [np]) \<and> ex (parent @ s)" "old \<noteq> []"
  shows "entries_ok sn old' \<and> entries_ok sn (new' @ [np]) \<and> moves_ok sn planned' \<and> old' \<noteq> [] \<and> hd old' = hd old \<and>
    (\<forall>(s, t)\<in>set planned'. top_level s \<in> set old' \<and> top_level t \<in> set (new' @ [np]) \<and> ex (parent @ s))"
  using assms
proof (induction ms arbitrary: old new planned)
  case Nil
  then show ?case by simp
next
  case (Cons m ms)
  obtain s t where m: "m = (s, t)" by (cases m) auto
  have rest: "moves_ok sn (planned @ ms)" using Cons.prems(4) by (auto simp: moves_ok_def sorted_wrt_append)
  show ?case
  proof (cases "ex (parent @ s)")
    case False
    then show ?thesis using Cons.IH [OF _ Cons.prems(2,3) rest Cons.prems(5,6)] Cons.prems(1) m by simp
  next
    case True
    have plain: "''..'' \<notin> set s" "''..'' \<notin> set t" using Cons.prems(1) True m by (auto simp: relative_below split: if_splits)
    let ?old = "if top_level s \<in> set old then old else old @ [top_level s]"
    let ?new = "if top_level t \<noteq> np \<and> top_level t \<notin> set new then new @ [top_level t] else new"
    have run: "plan_moves parent np ex (map (\<lambda>(s, t). (parent @ s, parent @ t)) ms) ?old ?new (planned @ [(s, t)]) = Inr (old', new', planned')"
      using Cons.prems(1) True plain m by (simp add: relative_below Let_def)
    have st: "s \<noteq> []" "t \<noteq> []" "hd s \<noteq> sn" "hd t \<noteq> sn" using Cons.prems(4) m by (auto simp: moves_ok_def)
    have old: "entries_ok sn ?old" using Cons.prems(2) top_level_entry [OF st(1,3)] by (auto simp: entries_ok_def)
    have new: "entries_ok sn (?new @ [np])" using Cons.prems(3) top_level_entry [OF st(2,4)] by (auto simp: entries_ok_def)
    have "moves_ok sn ((planned @ [(s, t)]) @ ms)" using Cons.prems(4) m by simp
    moreover have "\<forall>(s', t')\<in>set (planned @ [(s, t)]). top_level s' \<in> set ?old \<and> top_level t' \<in> set (?new @ [np]) \<and> ex (parent @ s')"
      using Cons.prems(5) True by auto
    moreover have "?old \<noteq> []" "hd ?old = hd old" using Cons.prems(6) by auto
    ultimately show ?thesis using Cons.IH [OF run old new] by simp
  qed
qed

lemma plan_shape:
  assumes "plan_reshape (parent @ [a]) (parent @ [b]) name (map (\<lambda>(s, t). (parent @ s, parent @ t)) ms) ex = Inr r"
    "parent \<noteq> []" "sn = CHR ''.'' # name @ RESHAPE_SUFFIX" "a \<noteq> sn" "b \<noteq> sn" "moves_ok sn ms"
  shows "shape sn (rs_manifest r) \<and> rs_parent r = parent \<and> rs_name r = name \<and> hd (rm_old (rs_manifest r)) = [a] \<and>
    (\<forall>(s, t)\<in>set (rm_moves (rs_manifest r)). ex (parent @ s))"
proof -
  have parents: "path_parent (parent @ [x]) = parent" for x using assms(2) by (auto simp: path_parent_def append_eq_Cons_conv)
  obtain old new planned where plan: "plan_moves parent [b] ex (map (\<lambda>(s, t). (parent @ s, parent @ t)) ms) [[a]] [] [] = Inr (old, new, planned)"
    and r: "r = \<lparr>rs_parent = parent, rs_name = name,
      rs_manifest = \<lparr>rm_version = MANIFEST_VERSION, rm_old = old, rm_new = new @ [[b]], rm_moves = planned\<rparr>\<rparr>"
    and disjoint: "\<not> list_ex (\<lambda>entry. entry \<in> set (new @ [[b]])) old"
    using assms(1) unfolding plan_reshape_def parents Let_def
    by (auto simp: relative_below split: sum.splits if_splits prod.splits)
  have "entries_ok sn old \<and> entries_ok sn (new @ [[b]]) \<and> moves_ok sn planned \<and> old \<noteq> [] \<and> hd old = hd [[a]] \<and>
      (\<forall>(s, t)\<in>set planned. top_level s \<in> set old \<and> top_level t \<in> set (new @ [[b]]) \<and> ex (parent @ s))"
    using assms(4-6) by (intro plan_moves_ok [OF plan]) (auto simp: entries_ok_def)
  then show ?thesis
    using r disjoint by (auto simp: shape_def entries_ok_def moves_ok_def list_ex_iff list_all_iff top_level_def)
qed


section \<open>Crash safety\<close>

text \<open>Attempts at recovery, each surviving some number of operations.\<close>

definition retries :: "(string \<Rightarrow> manifest option) \<Rightarrow> path \<Rightarrow> (crash \<times> nat) list \<Rightarrow> fnode \<Rightarrow> fnode" where
  "retries from_json st tries fs =
     fold (\<lambda>(c, n) fs. d_fs (snd (recover from_json c st \<lparr>d_fs = fs, d_left = n\<rparr>))) tries fs"

definition settling :: "path \<Rightarrow> path \<Rightarrow> manifest \<Rightarrow> string \<Rightarrow> view \<Rightarrow> view \<Rightarrow> view \<Rightarrow> bool" where
  "settling st parent man text kf kg k \<longleftrightarrow> unstarted st parent man text kf k \<or> started st parent man text kg k"

lemma settled_started:
  assumes "shape sn man" "st = parent @ [sn]" "started st parent man text kg k" "kg = k'" "cut_view st k' = k'"
    "k' (parent @ hd (rm_old man)) = None"
  shows "started st parent man text kg k'"
proof -
  have "k' (st @ [RMANIFEST]) = None" using assms(5) by (metis cut_view_def prefixI)
  then show ?thesis using assms by (simp add: started_def)
qed

lemma started_view: "started st parent man text kg k \<Longrightarrow> cut_view st kg = kg"
  unfolding started_def by (auto simp: cut_view_def)

lemma retry_settling:
  assumes "crash_ok c" "shape sn man" "st = parent @ [sn]" "path_parent st = parent" "from_json text = Some man"
    and kf: "cut_view st kf = kf" and kg: "kg (parent @ hd (rm_old man)) = None"
    and state: "settling st parent man text kf kg (kind_at (d_fs d))"
  shows "settling st parent man text kf kg (kind_at (d_fs (snd (recover from_json c st d)))) \<and>
    (2 * length (all_steps st parent man) < d_left d \<longrightarrow>
      (\<exists>res. fst (recover from_json c st d) = Done res) \<and>
      kind_at (d_fs (snd (recover from_json c st d))) = (if unstarted st parent man text kf (kind_at (d_fs d)) then kf else kg))"
proof (cases "unstarted st parent man text kf (kind_at (d_fs d))")
  case True
  show ?thesis
  proof (cases rule: recover_unstarted [of c sn man st parent from_json "text", OF assms(1-5) True, case_names ended gone])
    case (ended d')
    have "kf (st @ [RMANIFEST]) = None" using kf by (metis cut_view_def prefixI)
    then show ?thesis using ended True kf by (simp add: settling_def unstarted_def)
  qed (use True in \<open>auto simp: settling_def\<close>)
next
  case False
  then have started: "started st parent man text kg (kind_at (d_fs d))" using state by (simp add: settling_def)
  show ?thesis
  proof (cases rule: recover_started [of c sn man st parent from_json "text", OF assms(1-5) started, case_names ended gone])
    case (ended d' r)
    then show ?thesis
      using False settled_started [OF assms(2,3) started refl started_view [OF started] kg] by (simp add: settling_def)
  qed (use False in \<open>auto simp: settling_def\<close>)
qed

lemma retries_settling:
  assumes "\<forall>(c, n)\<in>set tries. crash_ok c" "shape sn man" "st = parent @ [sn]" "path_parent st = parent" "from_json text = Some man"
    "cut_view st kf = kf" "kg (parent @ hd (rm_old man)) = None" "settling st parent man text kf kg (kind_at fs)"
  shows "settling st parent man text kf kg (kind_at (retries from_json st tries fs))"
  using assms(1,8)
proof (induction tries arbitrary: fs)
  case (Cons x tries)
  obtain c n where x: "x = (c, n)" by (cases x) auto
  have "crash_ok c" using Cons.prems(1) x by simp
  from retry_settling [of c sn man st parent from_json "text" kf kg "\<lparr>d_fs = fs, d_left = n\<rparr>", OF this assms(2-7)] Cons.prems(2)
  have "settling st parent man text kf kg (kind_at (d_fs (snd (recover from_json c st \<lparr>d_fs = fs, d_left = n\<rparr>))))" by simp
  then show ?case using Cons.IH Cons.prems(1) x by (simp add: retries_def)
qed (simp add: retries_def)


lemma recover_nothing: "\<not> fs_exists st (d_fs d) \<Longrightarrow> recover from_json c st d = (Done Discarded, d)"
  by (simp add: recover_def)

lemma retries_nothing: "\<not> fs_exists st fs \<Longrightarrow> retries from_json st tries fs = fs"
  by (induction tries) (auto simp: retries_def recover_nothing)

text \<open>
  C17: A reshape survives crashes. Whatever operation is the last one a reshape survives, whatever
  that operation leaves half done, and however many attempts at recovery die in the same way:
  the next recovery that is not cut off succeeds, and then the file system is either exactly as
  before the reshape, or every moved file is at its new place with its contents, the old form
  is gone, and nothing outside the two forms has changed; the staging directory is gone. A
  reshape that reports success has reshaped, and one that bails out has changed nothing.
\<close>

theorem reshape_crash_safe:
  assumes plan: "plan_reshape (parent @ [a]) (parent @ [b]) name (map (\<lambda>(s, t). (parent @ s, parent @ t)) ms) (\<lambda>p. fs_exists p fs) = Inr r"
    and names: "parent \<noteq> []" "sn = CHR ''.'' # name @ RESHAPE_SUFFIX" "a \<noteq> sn" "b \<noteq> sn" "moves_ok sn ms"
    and absent: "\<not> fs_exists (parent @ [sn]) fs" and journal: "from_json (to_json (rs_manifest r)) = Some (rs_manifest r)"
    and crashes: "crash_ok c0" "\<forall>(c, n)\<in>set tries. crash_ok c" "crash_ok c1"
    and run: "run_reshape to_json from_json c0 r \<lparr>d_fs = fs, d_left = n0\<rparr> = (out, d)"
    and last: "recover from_json c1 (parent @ [sn]) \<lparr>d_fs = retries from_json (parent @ [sn]) tries (d_fs d), d_left = n1\<rparr> = (res, d')"
    and enough: "2 * (length (rm_old (rs_manifest r)) + length (rm_moves (rs_manifest r)) + length (rm_new (rs_manifest r))) < n1"
  shows "res \<in> {Done Discarded, Done RolledForward} \<and>
    (kind_at (d_fs d') = kind_at fs \<or> reshaped parent (rs_manifest r) (kind_at fs) (kind_at (d_fs d')) \<and> \<not> fs_exists (parent @ [sn]) (d_fs d')) \<and>
    (out = Done () \<longrightarrow> reshaped parent (rs_manifest r) (kind_at fs) (kind_at (d_fs d))) \<and>
    (\<forall>e. out = Bailed e \<longrightarrow> d_fs d = fs)"
proof -
  define st man js where "st = parent @ [sn]" and "man = rs_manifest r" and "js = to_json man"
  let ?k = "kind_at fs" and ?kg = "settled st parent man js (kind_at fs)" and ?prim = "parent @ hd (rm_old man)"
  have shape: "shape sn man" and r: "rs_parent r = parent" "rs_name r = name"
    and sources: "\<forall>(s, t)\<in>set (rm_moves man). fs_exists (parent @ s) fs"
    using plan_shape [OF plan names] by (simp_all add: man_def)
  have st: "staging_dir (rs_parent r) (rs_name r) = st" "path_parent st = parent"
    using r names(1,2) by (auto simp: st_def staging_dir_def path_parent_def append_eq_Cons_conv)
  have none: "?k st = None" using absent by (simp add: st_def kind_at_exists)
  have kf: "cut_view st ?k = ?k" using kind_at_prefix_none [OF none] by (auto simp: cut_view_def fun_eq_iff)
  have codec: "from_json js = Some man" using journal by (simp add: js_def man_def)
  have cut_kg: "cut_view st ?kg = ?kg" "?kg (st @ [RMANIFEST]) = None" "?kg st = None" by (auto simp: settled_def cut_view_def)
  have spec: "reshaped parent man ?k ?kg \<and> ?kg ?prim = None"
    if free: "?k ?prim \<noteq> None" "\<And>e. e \<in> set (rm_new man) \<Longrightarrow> ?k (parent @ e) = None"
  proof -
    have "reshaped parent man ?k ?kg"
      by (rule settled_reshaped [OF shape st_def refl none free]) (use sources in \<open>auto simp: kind_at_exists\<close>)
    then show ?thesis using shape by (auto simp: reshaped_def shape_def)
  qed
  have main: ?thesis
    if free: "?k ?prim \<noteq> None" "\<And>e. e \<in> set (rm_new man) \<Longrightarrow> ?k (parent @ e) = None"
      and state: "settling st parent man js ?k ?kg (kind_at (d_fs d))"
      and out: "out = Done () \<and> kind_at (d_fs d) = ?kg \<or> out = Died"
  proof -
    have spec: "reshaped parent man ?k ?kg" and gone: "?kg ?prim = None" using spec free by blast+
    let ?last = "\<lparr>d_fs = retries from_json st tries (d_fs d), d_left = n1\<rparr>"
    have "settling st parent man js ?k ?kg (kind_at (d_fs ?last))"
      using retries_settling [of tries sn man st parent from_json js ?k ?kg, OF crashes(2) shape st_def st(2) codec kf gone state] by simp
    from retry_settling [of c1 sn man st parent from_json js ?k ?kg, OF crashes(3) shape st_def st(2) codec kf gone this]
    have "(\<exists>x. res = Done x) \<and> (kind_at (d_fs d') = ?k \<or> kind_at (d_fs d') = ?kg)"
      using last enough by (auto simp: st_def man_def all_steps_def split: if_splits)
    moreover have "x \<in> {Discarded, RolledForward}" for x by (cases x) simp_all
    ultimately show ?thesis using spec out cut_kg by (auto simp: man_def [symmetric] st_def [symmetric] kind_at_exists)
  qed
  have none': "kind_at (d_fs \<lparr>d_fs = fs, d_left = n0\<rparr>) st = None" using none by simp
  show ?thesis
  proof (cases rule: run_cases [of c0 sn man st parent r to_json js "\<lparr>d_fs = fs, d_left = n0\<rparr>" from_json,
      OF crashes(1) shape st_def st(1) r(1) man_def [symmetric] js_def [symmetric] none', case_names finished refused died])
    case (finished d1)
    then have d: "out = Done ()" "kind_at (d_fs d) = ?kg" using run by auto
    have "?kg ?prim = None" using spec finished(3,4) by simp
    then have "settling st parent man js ?k ?kg (kind_at (d_fs d))" using d cut_kg by (simp add: settling_def started_def)
    then show ?thesis using main d finished(3,4) by simp
  next
    case (refused e)
    then have "out = Bailed e" "d_fs d = fs" using run by auto
    then show ?thesis using last absent retries_nothing [of "parent @ [sn]" fs from_json tries] recover_nothing by auto
  next
    case (died d1)
    then show ?thesis using main run by (simp add: settling_def)
  qed
qed


text \<open>A promotion that dies right after the flat file left its place, and a recovery that dies at once.\<close>

definition flat_fs :: fnode where
  "flat_fs = FDir [(''p'', FDir [(''X.luau'', FFile ''s'')])]"

definition promotion :: reshape where
  "promotion = \<lparr>rs_parent = [''p''], rs_name = ''X'', rs_manifest = \<lparr>rm_version = 1, rm_old = [[''X.luau'']], rm_new = [[''X'']],
     rm_moves = [([''X.luau''], [''X'', ''init.luau''])]\<rparr>\<rparr>"

definition clean_cut :: crash where
  "clean_cut = \<lparr>cr_made = 0, cr_written = (\<lambda>_. None), cr_torn = (\<lambda>n. n)\<rparr>"

theorem reshape_crash_safe_witness:
  "let st = [''p'', ''.X.wsync-reshape'']; codec = (\<lambda>_. Some (rs_manifest promotion));
       (out, d) = run_reshape (\<lambda>_. ''m'') codec clean_cut promotion \<lparr>d_fs = flat_fs, d_left = 5\<rparr>;
       (res, d') = recover codec clean_cut st \<lparr>d_fs = retries codec st [(clean_cut, 0)] (d_fs d), d_left = 9\<rparr>
   in out = Died \<and> kind_at (d_fs d) [''p'', ''X.luau''] = None \<and>
      reshaped [''p''] (rs_manifest promotion) (kind_at flat_fs) (kind_at (d_fs d')) \<and>
      kind_at (d_fs d') [''p'', ''X'', ''init.luau''] = Some (KFile ''s'')"
proof -
  define codec where "codec = (\<lambda>_::string. Some (rs_manifest promotion))"
  obtain out d where run: "run_reshape (\<lambda>_. ''m'') codec clean_cut promotion \<lparr>d_fs = flat_fs, d_left = 5\<rparr> = (out, d)" by fastforce
  obtain res d' where rec: "recover codec clean_cut [''p'', ''.X.wsync-reshape'']
      \<lparr>d_fs = retries codec [''p'', ''.X.wsync-reshape''] [(clean_cut, 0)] (d_fs d), d_left = 9\<rparr> = (res, d')" by fastforce
  note defs = run_reshape_def promotion_def flat_fs_def clean_cut_def Let_def staging_dir_def RESHAPE_SUFFIX_def fs_exists_def
    rs_targets_def vfs_create_dir_def vfs_write_def vfs_rename_def mutate_def is_dir_def rename_to_def RMANIFEST_def advance_def move_step_def
  have died: "out = Died" "kind_at (d_fs d) [''p'', ''X.luau''] = None"
    using run by (auto simp: defs kind_at_def)
  have plan: "plan_reshape ([''p''] @ [''X.luau'']) ([''p''] @ [''X'']) ''X''
      (map (\<lambda>(s, t). ([''p''] @ s, [''p''] @ t)) [([''X.luau''], [''X'', ''init.luau''])]) (\<lambda>p. fs_exists p flat_fs) = Inr promotion"
    by (simp add: plan_reshape_def path_parent_def relative_def top_level_def Let_def promotion_def MANIFEST_VERSION_def fs_exists_def flat_fs_def)
  have safe: "res \<in> {Done Discarded, Done RolledForward} \<and>
    (kind_at (d_fs d') = kind_at flat_fs \<or> reshaped [''p''] (rs_manifest promotion) (kind_at flat_fs) (kind_at (d_fs d')) \<and>
      \<not> fs_exists ([''p''] @ [''.X.wsync-reshape'']) (d_fs d')) \<and>
    (out = Done () \<longrightarrow> reshaped [''p''] (rs_manifest promotion) (kind_at flat_fs) (kind_at (d_fs d))) \<and>
    (\<forall>e. out = Bailed e \<longrightarrow> d_fs d = flat_fs)"
    by (rule reshape_crash_safe [OF plan, of "''.X.wsync-reshape''" codec "\<lambda>_. ''m''" clean_cut "[(clean_cut, 0)]" clean_cut 5 out d 9 res d'])
      (use run rec in \<open>simp_all add: RESHAPE_SUFFIX_def moves_ok_def fs_exists_def flat_fs_def codec_def crash_ok_def clean_cut_def promotion_def\<close>)
  have "kind_at (d_fs d') [''p'', ''X.luau''] = None"
    using run rec by (auto simp: defs kind_at_def retries_def recover_def path_parent_def codec_def file_at_def MANIFEST_VERSION_def vfs_remove_def)
  moreover have "kind_at flat_fs [''p'', ''X.luau''] = Some (KFile ''s'')" by (simp add: kind_at_def flat_fs_def)
  ultimately have moved: "reshaped [''p''] (rs_manifest promotion) (kind_at flat_fs) (kind_at (d_fs d'))" using safe by auto
  have "(([''X.luau''], [''X'', ''init.luau''])) \<in> set (rm_moves (rs_manifest promotion))" by (simp add: promotion_def)
  then have "kind_at (d_fs d') ([''p''] @ [''X'', ''init.luau''] @ []) = kind_at flat_fs ([''p''] @ [''X.luau''] @ [])"
    using moved unfolding reshaped_def by fast
  then show ?thesis
    using died moved run rec unfolding codec_def Let_def by (simp add: \<open>kind_at flat_fs _ = _\<close>)
qed

text \<open>
  The converse hazard: a file created at the old primary's path while an interrupted reshape
  waits makes the recovery believe that nothing had moved. It discards the staging directory
  with the moved content in it.
\<close>

lemma recreated_primary_loses:
  "let st = [''p'', ''.X.wsync-reshape'']; codec = (\<lambda>_. Some (rs_manifest promotion));
       d = snd (run_reshape (\<lambda>_. ''m'') codec clean_cut promotion \<lparr>d_fs = flat_fs, d_left = 5\<rparr>);
       fs = the (set_at [''p'', ''X.luau''] (Some (FFile ''new'')) (d_fs d));
       (res, d') = recover codec clean_cut st \<lparr>d_fs = fs, d_left = 9\<rparr>
   in file_at (st @ [''old'', ''X.luau'']) fs = Some ''s'' \<and> res = Done Discarded \<and> d_fs d' = FDir [(''p'', FDir [(''X.luau'', FFile ''new'')])]"
  by (simp add: run_reshape_def promotion_def flat_fs_def clean_cut_def Let_def staging_dir_def RESHAPE_SUFFIX_def fs_exists_def
    rs_targets_def vfs_create_dir_def vfs_write_def vfs_rename_def mutate_def is_dir_def rename_to_def RMANIFEST_def advance_def move_step_def
    recover_def path_parent_def file_at_def MANIFEST_VERSION_def vfs_remove_def)

end
