(* ===== verification/Read.thy ===== *)
theory Read
  imports TreeSafety
begin

text \<open>
  The read path of the change processor (\<^verbatim>\<open>src/core/processor/read.rs\<close>): a file event makes the
  processor read an instance's source again; the new snapshot is compared with the tree, the
  tree is brought in line with it, and the difference becomes the change set for Studio.

  The middleware that turns a path into a snapshot (\<open>new_snapshot\<close>, \<open>new_snapshot_node\<close>) and the
  directory listing are arguments. A panic, or a walk that does not end, is \<open>None\<close>.
\<close>

section \<open>Definitions\<close>

text \<open>Properties are hash maps: equal when they agree at every key.\<close>

definition same_properties :: "'v properties \<Rightarrow> 'v properties \<Rightarrow> bool" where
  "same_properties ps qs \<longleftrightarrow> list_all (\<lambda>k. map_of ps k = map_of qs k) (map fst ps @ map fst qs)"

type_synonym ('d, 'm, 'u, 'v) read_state = "('u, 'v) changes \<times> ('d, 'm, 'u) tree \<times> nat"

text \<open>The first snapshot child not yet paired that has the name, and the class when one is given.\<close>

definition pair_child :: "('u, 'v) snapshot list \<Rightarrow> dref option list \<Rightarrow> string \<Rightarrow> string option \<Rightarrow> nat option" where
  "pair_child children paired name cls =
     find (\<lambda>i. paired ! i = None \<and> sn_name (children ! i) = name \<and>
         (case cls of None \<Rightarrow> True | Some c \<Rightarrow> sn_class (children ! i) = c)) [0..<length children]"

text \<open>
  The first pass pairs by name and class; it returns the children left over. A snapshot child
  is hydrated exactly when it has been given an instance, so one list holds both.
\<close>

fun pair_exact ::
  "(dref \<Rightarrow> 'v inst option) \<Rightarrow> ('u, 'v) snapshot list \<Rightarrow> dref list \<Rightarrow> dref option list \<Rightarrow> dref list \<Rightarrow> (dref option list \<times> dref list) option" where
  "pair_exact get children [] paired unpaired = Some (paired, unpaired)"
| "pair_exact get children (child_id # rest) paired unpaired =
     (case get child_id of
        None \<Rightarrow> None
      | Some x \<Rightarrow>
          (case pair_child children paired (in_name x) (Some (in_class x)) of
             Some i \<Rightarrow> pair_exact get children rest (paired[i := Some child_id]) unpaired
           | None \<Rightarrow> pair_exact get children rest paired (unpaired @ [child_id])))"

text \<open>The second pass pairs by name alone, and removes what still has no partner.\<close>

fun pair_renamed ::
  "('d, 'm, 'v) tree_ops \<Rightarrow> ('u, 'v) snapshot list \<Rightarrow> dref list \<Rightarrow> dref option list \<Rightarrow> ('u, 'v) changes \<Rightarrow> ('d, 'm, 'u) tree
   \<Rightarrow> (dref option list \<times> ('u, 'v) changes \<times> ('d, 'm, 'u) tree) option" where
  "pair_renamed ops children [] paired ch t = Some (paired, ch, t)"
| "pair_renamed ops children (child_id # rest) paired ch t =
     (case get_instance ops t child_id of
        None \<Rightarrow> None
      | Some x \<Rightarrow>
          (case pair_child children paired (in_name x) None of
             Some i \<Rightarrow> pair_renamed ops children rest (paired[i := Some child_id]) ch t
           | None \<Rightarrow>
               (case remove_instance ops child_id t of
                  Some (Some t) \<Rightarrow> pair_renamed ops children rest paired (changes_remove child_id ch) t
                | _ \<Rightarrow> None)))"

text \<open>Inserts a snapshot with all that is below it; the snapshot comes back with its new ids.\<close>

fun insert_children ::
  "('d, 'm, 'v) tree_ops \<Rightarrow> (nat \<Rightarrow> dref) \<Rightarrow> ('u, 'v) snapshot \<Rightarrow> dref \<Rightarrow> ('d, 'm, 'u) tree \<times> nat
   \<Rightarrow> (('u, 'v) snapshot \<times> ('d, 'm, 'u) tree \<times> nat) option" where
  "insert_children ops draw (Snapshot sid mt name cls ps children) parent (t, k) =
     (case insert_at ops (draw k) (Snapshot sid mt name cls ps children) parent t of
        None \<Rightarrow> None
      | Some t \<Rightarrow>
          map_option (\<lambda>(cs, t, k'). (Snapshot (draw k) mt name cls ps cs, t, k'))
            (fold (\<lambda>child st. case st of
                 None \<Rightarrow> None
               | Some (cs, t, k') \<Rightarrow>
                   map_option (\<lambda>(c, t, k'). (cs @ [c], t, k')) (insert_children ops draw child (draw k) (t, k')))
              children (Some ([], t, Suc k))))"

text \<open>The fields that differ, written to the tree and noted in the update.\<close>

definition process_fields ::
  "('d, 'm, 'v) tree_ops \<Rightarrow> dref \<Rightarrow> ('u, 'v) snapshot \<Rightarrow> ('u, 'v) changes \<Rightarrow> ('d, 'm, 'u) tree \<Rightarrow> (('u, 'v) changes \<times> ('d, 'm, 'u) tree) option" where
  "process_fields ops i s ch t =
     (case get_meta t i of
        None \<Rightarrow> None
      | Some old \<Rightarrow>
          let (new_meta, t) = (if sn_meta s \<noteq> old then (Some (sn_meta s), update_meta ops i (sn_meta s) t) else (None, t))
          in case get_instance ops t i of
               None \<Rightarrow> None
             | Some x \<Rightarrow>
                 let t = get_instance_mut ops i (\<lambda>x. (sn_name s, sn_class s,
                       if same_properties (sn_properties s) (in_properties x) then in_properties x else sn_properties s)) t;
                     u = \<lparr>us_id = i, us_meta = new_meta,
                          us_name = (if sn_name s \<noteq> in_name x then Some (sn_name s) else None),
                          us_class = (if sn_class s \<noteq> in_class x then Some (sn_class s) else None),
                          us_properties = (if same_properties (sn_properties s) (in_properties x) then None else Some (sn_properties s))\<rparr>
                 in Some (if updated_is_empty u then ch else changes_update u ch, t))"

lemma size_child: "c \<in> set children \<Longrightarrow> size c < size (Snapshot sid mt name cls ps children)"
  by (induction children) auto

function process_child_changes ::
  "('d, 'm, 'v) tree_ops \<Rightarrow> (nat \<Rightarrow> dref) \<Rightarrow> dref \<Rightarrow> ('u, 'v) snapshot \<Rightarrow> ('d, 'm, 'u, 'v) read_state \<Rightarrow> ('d, 'm, 'u, 'v) read_state option" where
  "process_child_changes ops draw i (Snapshot sid mt name cls ps children) (ch, t, k) =
     (case process_fields ops i (Snapshot sid mt name cls ps children) ch t of
        None \<Rightarrow> None
      | Some (ch, t) \<Rightarrow>
          (case pair_exact (get_instance ops t) children (kids (get_instance ops t) i) (replicate (length children) None) [] of
             None \<Rightarrow> None
           | Some (paired, unpaired) \<Rightarrow>
               (case pair_renamed ops children unpaired paired ch t of
                  None \<Rightarrow> None
                | Some (paired, ch, t) \<Rightarrow>
                    fold (\<lambda>(child, p) st. case st of
                        None \<Rightarrow> None
                      | Some (ch, t, k) \<Rightarrow>
                          let child_id = (case p of Some j \<Rightarrow> j | None \<Rightarrow> sn_id child)
                          in if child_id \<noteq> ref_none then process_child_changes ops draw child_id child (ch, t, k)
                             else map_option (\<lambda>(c, t, k). (changes_add c i ch, t, k)) (insert_children ops draw child i (t, k)))
                      (zip children paired) (Some (ch, t, k)))))"
  by pat_completeness auto

termination
  by (relation "measure (\<lambda>(ops, draw, i, s, st). size s)") (auto simp del: snapshot.size dest!: set_zip_leftD intro!: size_child)

text \<open>Whether a sibling that nothing claims now resolves to the name of an instance whose source is gone.\<close>

fun find_class_change ::
  "(path \<Rightarrow> meta_context \<Rightarrow> unit + ('u, 'v) snapshot option) \<Rightarrow> (glob \<Rightarrow> path \<Rightarrow> bool) \<Rightarrow> (path \<Rightarrow> bool)
   \<Rightarrow> ('d, 'm, 'v) tree_ops \<Rightarrow> ('d, 'm, 'u) tree \<Rightarrow> meta_context \<Rightarrow> path \<Rightarrow> string \<Rightarrow> path list \<Rightarrow> ('u, 'v) snapshot option" where
  "find_class_change new_snapshot matches is_dir ops t cx p name [] = None"
| "find_class_change new_snapshot matches is_dir ops t cx p name (entry # entries) =
     (let next_entry = find_class_change new_snapshot matches is_dir ops t cx p name entries
      in if entry = p \<or> get_ids ops t entry \<noteq> None then next_entry
         else
           let candidate = (if is_dir entry then Some (path_name entry)
                 else (case List.map_filter (\<lambda>r. resolve_rule matches is_dir r entry) (sync_rules cx) of
                         [] \<Rightarrow> None | resolved # _ \<Rightarrow> Some (rr_name resolved)))
           in if candidate \<noteq> Some name then next_entry
              else case new_snapshot entry cx of
                     Inr (Some s) \<Rightarrow> if sn_name s = name then Some s else next_entry
                   | _ \<Rightarrow> next_entry)"

text \<open>What the read path asks of the middleware and the file system.\<close>

record ('u, 'v) reader =
  rd_snapshot :: "path \<Rightarrow> meta_context \<Rightarrow> unit + ('u, 'v) snapshot option"
  rd_node :: "string \<Rightarrow> path \<Rightarrow> 'u project_node \<Rightarrow> nodepath \<Rightarrow> meta_context \<Rightarrow> unit + ('u, 'v) snapshot"
  rd_dir :: "path \<Rightarrow> path list option"
  rd_is_dir :: "path \<Rightarrow> bool"
  rd_matches :: "glob \<Rightarrow> path \<Rightarrow> bool"

text \<open>
  The re-read of one instance. The inner \<open>None\<close> is the function's own: the instance has no
  metadata, or its source could not be read.
\<close>

definition process_changes ::
  "('u, 'v) reader \<Rightarrow> ('d, 'm, 'v) tree_ops \<Rightarrow> (nat \<Rightarrow> dref) \<Rightarrow> dref \<Rightarrow> ('d, 'm, 'u) tree \<times> nat
   \<Rightarrow> (('u, 'v) changes option \<times> ('d, 'm, 'u) tree \<times> nat) option" where
  "process_changes rd ops draw i = (\<lambda>(t, k).
     case get_meta t i of
       None \<Rightarrow> Some (None, t, k)
     | Some mt \<Rightarrow>
         (case (case src_inner (mt_source mt) of
              SProject name p node np \<Rightarrow>
                if np_is_root np then (case rd_snapshot rd p (mt_context mt) of Inr s \<Rightarrow> Inr s | Inl _ \<Rightarrow> Inl (Some (None, t, k)))
                else (case rd_node rd name p node np (mt_context mt) of
                        Inr s \<Rightarrow> Inr (Some s) | Inl _ \<Rightarrow> Inl (Some (Some changes_new, t, k)))
            | SPath p \<Rightarrow> (case rd_snapshot rd p (mt_context mt) of Inr s \<Rightarrow> Inr s | Inl _ \<Rightarrow> Inl (Some (None, t, k)))
            | SNone \<Rightarrow> Inl None) of
            Inl out \<Rightarrow> out
          | Inr s \<Rightarrow>
              (let s = (case s of
                     Some s \<Rightarrow> Some s
                   | None \<Rightarrow>
                       (case src_inner (mt_source mt) of
                          SPath p \<Rightarrow>
                            (case get_instance ops t i of
                               None \<Rightarrow> None
                             | Some x \<Rightarrow>
                                 if p = path_parent p then None
                                 else case rd_dir rd (path_parent p) of
                                        None \<Rightarrow> None
                                      | Some entries \<Rightarrow>
                                          find_class_change (rd_snapshot rd) (rd_matches rd) (rd_is_dir rd) ops t (mt_context mt) p (in_name x) entries)
                        | _ \<Rightarrow> None))
               in case s of
                    Some s \<Rightarrow> map_option (\<lambda>(ch, t, k). (Some ch, t, k)) (process_child_changes ops draw i s (changes_new, t, k))
                  | None \<Rightarrow>
                      (case remove_instance ops i t of
                         Some (Some t) \<Rightarrow> Some (Some (changes_remove i changes_new), t, k)
                       | _ \<Rightarrow> None))))"

end
