(* ===== verification/ReadSafety.thy ===== *)
theory ReadSafety
  imports Read
begin

text \<open>
  What the read path guarantees: it always returns, the tree then mirrors what was read, nothing
  outside the instance that was read again changes, and the change set tells Studio every
  difference. A step of the read path is described by its effect, a relation between the trees
  before and after it; effects compose.
\<close>

section \<open>Mirrors\<close>

abbreviation insts :: "('d, 'm, 'v) tree_ops \<Rightarrow> ('d, 'm, 'u) tree \<Rightarrow> dref \<Rightarrow> 'v inst option" where
  "insts ops t \<equiv> dom_get ops (t_dom t)"

text \<open>An instance mirrors a snapshot: the same content and metadata, and children that mirror its children.\<close>

inductive mirrors :: "(dref \<Rightarrow> 'v inst option) \<Rightarrow> (dref \<Rightarrow> 'u meta option) \<Rightarrow> dref \<Rightarrow> ('u, 'v) snapshot \<Rightarrow> bool"
  for m mt where
  Mirror: "m i = Some x \<Longrightarrow> in_name x = name \<Longrightarrow> in_class x = cls \<Longrightarrow> map_of (in_properties x) = map_of ps \<Longrightarrow> mt i = Some me \<Longrightarrow>
    mset ids = mset (in_children x) \<Longrightarrow> list_all2 (mirrors m mt) ids children \<Longrightarrow>
    mirrors m mt i (Snapshot sid me name cls ps children)"

inductive_cases mirrors_cases: "mirrors m mt i (Snapshot sid me name cls ps children)"

lemma below_refl [simp]: "i \<in> below m i"
  by simp

lemma below_kid: "m i = Some x \<Longrightarrow> j \<in> set (in_children x) \<Longrightarrow> below m j \<subseteq> below m i"
  by (auto simp: child_rel_def kids_def intro: converse_rtrancl_into_rtrancl)

lemma list_all2_mono': "list_all2 P xs ys \<Longrightarrow> (\<And>x y. x \<in> set xs \<Longrightarrow> P x y \<Longrightarrow> Q x y) \<Longrightarrow> list_all2 Q xs ys"
  by (induction rule: list_all2_induct) auto

lemma mirrors_frame:
  assumes "mirrors m mt i s" "\<forall>j\<in>below m i. m' j = m j \<and> mt' j = mt j"
  shows "mirrors m' mt' i s"
  using assms
proof (induction rule: mirrors.induct)
  case (Mirror i x name cls ps me ids children sid)
  have kid: "\<forall>j\<in>below m k. m' j = m j \<and> mt' j = mt j" if k: "k \<in> set ids" for k
  proof -
    have "k \<in> set (in_children x)" using k Mirror.hyps(6) by (metis set_mset_mset)
    then show ?thesis using below_kid [where m = m and i = i, OF Mirror.hyps(1)] Mirror.prems by blast
  qed
  have "list_all2 (mirrors m' mt') ids children"
    by (rule list_all2_mono' [OF Mirror.IH]) (use kid in blast)
  moreover have "m' i = Some x" "mt' i = Some me" using Mirror.prems Mirror.hyps(1,5) below_refl by metis+
  ultimately show ?case using Mirror.hyps by (intro mirrors.Mirror) auto
qed

lemma below_closed:
  assumes "i \<in> C" "\<And>a. a \<in> C \<Longrightarrow> set (kids m a) \<subseteq> C"
  shows "below m i \<subseteq> C"
proof
  fix j assume "j \<in> below m i"
  then have "(i, j) \<in> (child_rel m)\<^sup>*" by simp
  then show "j \<in> C" by (induction rule: rtrancl_induct) (use assms in \<open>auto simp: child_rel_def\<close>)
qed

lemma below_closed_self: "a \<in> below m i \<Longrightarrow> set (kids m a) \<subseteq> below m i"
  by (auto simp: child_rel_def intro: rtrancl_into_rtrancl)

text \<open>The ids a labelled snapshot carries.\<close>

fun snap_ids :: "('u, 'v) snapshot \<Rightarrow> dref set" where
  "snap_ids (Snapshot sid _ _ _ _ children) = insert sid (\<Union>c\<in>set children. snap_ids c)"

text \<open>What the middleware hands over: no ids yet, and the name the tree will use.\<close>

fun fresh_snapshot :: "('u, 'v) snapshot \<Rightarrow> bool" where
  "fresh_snapshot (Snapshot sid me name cls ps children) \<longleftrightarrow>
     sid = ref_none \<and> (case mt_original_name me of None \<Rightarrow> True | Some orig \<Rightarrow> orig = name) \<and> (\<forall>c\<in>set children. fresh_snapshot c)"

section \<open>Effects\<close>

definition metas_full :: "('d, 'm, 'v) tree_ops \<Rightarrow> ('d, 'm, 'u) tree \<Rightarrow> bool" where
  "metas_full ops t \<longleftrightarrow> (\<forall>i. insts ops t i \<noteq> None \<longrightarrow> t_id_to_meta t i \<noteq> None)"

definition state_ok :: "('d, 'm, 'v) tree_ops \<Rightarrow> (nat \<Rightarrow> dref) \<Rightarrow> nat \<Rightarrow> ('d, 'm, 'u) tree \<Rightarrow> nat \<Rightarrow> bool" where
  "state_ok ops draw n t k \<longleftrightarrow> tree_ok ops t \<and> metas_full ops t \<and> fresh_between ops draw k n t"

text \<open>
  Only the region \<open>R\<close> and the drawn referents change; what was drawn has drawn children only, old
  instances get no other new children, and the region stays closed.
\<close>

definition effect ::
  "('d, 'm, 'v) tree_ops \<Rightarrow> (nat \<Rightarrow> dref) \<Rightarrow> nat \<Rightarrow> dref set \<Rightarrow> ('d, 'm, 'u) tree \<Rightarrow> nat \<Rightarrow> ('d, 'm, 'u) tree \<Rightarrow> nat \<Rightarrow> bool" where
  "effect ops draw n R t k t' k' \<longleftrightarrow>
     k \<le> k' \<and> k' \<le> n \<and> state_ok ops draw n t' k' \<and> root_ref ops t' = root_ref ops t \<and>
     (\<forall>j. j \<notin> R \<and> j \<notin> draw ` {k..<k'} \<longrightarrow> insts ops t' j = insts ops t j \<and> t_id_to_meta t' j = t_id_to_meta t j) \<and>
     (\<forall>a\<in>R \<union> draw ` {k..<k'}. set (kids (insts ops t') a) \<subseteq> R \<union> draw ` {k..<k'}) \<and>
     (\<forall>a\<in>draw ` {k..<k'}. set (kids (insts ops t') a) \<subseteq> draw ` {k..<k'}) \<and>
     (\<forall>a. insts ops t a \<noteq> None \<longrightarrow> set (kids (insts ops t') a) \<subseteq> set (kids (insts ops t) a) \<union> draw ` {k..<k'}) \<and>
     (\<forall>a. insts ops t a = None \<longrightarrow> insts ops t' a \<noteq> None \<longrightarrow> a \<in> draw ` {k..<k'})"

lemma draw_split: "k \<le> (k' :: nat) \<Longrightarrow> k' \<le> k'' \<Longrightarrow> draw ` {k..<k''} = draw ` {k..<k'} \<union> draw ` {k'..<k''}"
  by (simp add: ivl_disj_un_two(3) image_Un [symmetric])

lemma effect_refl:
  assumes "state_ok ops draw n t k" "k \<le> n" "\<And>a. a \<in> R \<Longrightarrow> set (kids (insts ops t) a) \<subseteq> R"
  shows "effect ops draw n R t k t k"
  using assms by (auto simp: effect_def)

lemma effect_refl_below: "state_ok ops draw n t k \<Longrightarrow> k \<le> n \<Longrightarrow> effect ops draw n (below (insts ops t) i) t k t k"
  by (rule effect_refl) (auto simp: child_rel_def intro: rtrancl_into_rtrancl)

lemma effectD:
  assumes "effect ops draw n R t k t' k'"
  shows "k \<le> k'" "k' \<le> n" "state_ok ops draw n t' k'" "root_ref ops t' = root_ref ops t"
    "\<And>j. j \<notin> R \<Longrightarrow> j \<notin> draw ` {k..<k'} \<Longrightarrow> insts ops t' j = insts ops t j"
    "\<And>j. j \<notin> R \<Longrightarrow> j \<notin> draw ` {k..<k'} \<Longrightarrow> t_id_to_meta t' j = t_id_to_meta t j"
    "\<And>a. a \<in> R \<or> a \<in> draw ` {k..<k'} \<Longrightarrow> set (kids (insts ops t') a) \<subseteq> R \<union> draw ` {k..<k'}"
    "\<And>a. a \<in> draw ` {k..<k'} \<Longrightarrow> set (kids (insts ops t') a) \<subseteq> draw ` {k..<k'}"
    "\<And>a. insts ops t a \<noteq> None \<Longrightarrow> set (kids (insts ops t') a) \<subseteq> set (kids (insts ops t) a) \<union> draw ` {k..<k'}"
    "\<And>a. insts ops t a = None \<Longrightarrow> insts ops t' a \<noteq> None \<Longrightarrow> a \<in> draw ` {k..<k'}"
  using assms unfolding effect_def by (blast, blast, blast, blast, blast, blast, blast, blast, blast, blast)

lemma effectI:
  assumes "k \<le> k'" "k' \<le> n" "state_ok ops draw n t' k'" "root_ref ops t' = root_ref ops t"
    "\<And>j. j \<notin> R \<Longrightarrow> j \<notin> draw ` {k..<k'} \<Longrightarrow> insts ops t' j = insts ops t j"
    "\<And>j. j \<notin> R \<Longrightarrow> j \<notin> draw ` {k..<k'} \<Longrightarrow> t_id_to_meta t' j = t_id_to_meta t j"
    "\<And>a. a \<in> R \<or> a \<in> draw ` {k..<k'} \<Longrightarrow> set (kids (insts ops t') a) \<subseteq> R \<union> draw ` {k..<k'}"
    "\<And>a. a \<in> draw ` {k..<k'} \<Longrightarrow> set (kids (insts ops t') a) \<subseteq> draw ` {k..<k'}"
    "\<And>a. insts ops t a \<noteq> None \<Longrightarrow> set (kids (insts ops t') a) \<subseteq> set (kids (insts ops t) a) \<union> draw ` {k..<k'}"
    "\<And>a. insts ops t a = None \<Longrightarrow> insts ops t' a \<noteq> None \<Longrightarrow> a \<in> draw ` {k..<k'}"
  shows "effect ops draw n R t k t' k'"
  using assms unfolding effect_def by simp

lemma effect_trans:
  assumes e: "effect ops draw n R t k t' k'" and e': "effect ops draw n R' t' k' t'' k''" and sub: "R' \<subseteq> R \<union> draw ` {k..<k'}"
  shows "effect ops draw n R t k t'' k''"
proof -
  let ?D = "draw ` {k..<k'}" and ?D' = "draw ` {k'..<k''}"
  have D: "draw ` {k..<k''} = ?D \<union> ?D'" using effectD(1) [OF e] effectD(1) [OF e'] by (intro draw_split)
  have kids_keep: "kids (insts ops t'') j = kids (insts ops t') j" if j: "j \<notin> R'" "j \<notin> ?D'" for j
    using effectD(5) [OF e' j] by (simp add: kids_def)
  show ?thesis
  proof (rule effectI)
    show "k \<le> k''" "k'' \<le> n" "state_ok ops draw n t'' k''" "root_ref ops t'' = root_ref ops t"
      using effectD(1-4) [OF e] effectD(1-4) [OF e'] by simp_all
    show "insts ops t'' j = insts ops t j" "t_id_to_meta t'' j = t_id_to_meta t j" if j: "j \<notin> R" "j \<notin> draw ` {k..<k''}" for j
    proof -
      have off: "j \<notin> R'" "j \<notin> ?D'" "j \<notin> ?D" using j sub D by blast+
      show "insts ops t'' j = insts ops t j" using effectD(5) [OF e j(1) off(3)] effectD(5) [OF e' off(1,2)] by simp
      show "t_id_to_meta t'' j = t_id_to_meta t j" using effectD(6) [OF e j(1) off(3)] effectD(6) [OF e' off(1,2)] by simp
    qed
    show "set (kids (insts ops t'') a) \<subseteq> R \<union> draw ` {k..<k''}" if a: "a \<in> R \<or> a \<in> draw ` {k..<k''}" for a
    proof (cases "a \<in> R' \<or> a \<in> ?D'")
      case True
      then show ?thesis using effectD(7) [OF e' True] sub D by blast
    next
      case False
      then have "a \<in> R \<or> a \<in> ?D" using a D by blast
      then show ?thesis using effectD(7) [OF e, of a] kids_keep False D by simp blast
    qed
    show "set (kids (insts ops t'') a) \<subseteq> draw ` {k..<k''}" if a: "a \<in> draw ` {k..<k''}" for a
    proof (cases "a \<in> ?D'")
      case False
      then have old: "set (kids (insts ops t') a) \<subseteq> ?D" using effectD(8) [OF e] a D by blast
      show ?thesis
      proof (cases "insts ops t' a = None")
        case True
        then have "insts ops t'' a = None" using effectD(10) [OF e' True] False by blast
        then show ?thesis by (simp add: kids_def)
      next
        case alive: False
        then show ?thesis using effectD(9) [OF e' alive] old D by blast
      qed
    qed (use effectD(8) [OF e'] D in blast)
    show "set (kids (insts ops t'') a) \<subseteq> set (kids (insts ops t) a) \<union> draw ` {k..<k''}" if a: "insts ops t a \<noteq> None" for a
    proof (cases "insts ops t' a = None")
      case True
      show ?thesis
      proof (cases "insts ops t'' a = None")
        case False
        then show ?thesis using effectD(8) [OF e' effectD(10) [OF e' True]] D by blast
      qed (simp add: kids_def)
    next
      case False
      then show ?thesis using effectD(9) [OF e' False] effectD(9) [OF e a] D by blast
    qed
    show "a \<in> draw ` {k..<k''}" if a: "insts ops t a = None" "insts ops t'' a \<noteq> None" for a
      using effectD(10) [OF e a(1)] effectD(10) [OF e' _ a(2)] D by blast
  qed
qed


lemma drawn_new:
  assumes "state_ok ops draw n t k" "k' \<le> n" "a \<in> draw ` {k..<k'}"
  shows "insts ops t a = None" "t_id_to_meta t a = None"
  using assms by (auto simp: state_ok_def fresh_between_def exists_inst_def tree_ok_def)

lemma below_old:
  assumes e: "effect ops draw n R t k t' k'" and ok: "state_ok ops draw n t k"
    and path: "j \<in> below (insts ops t') r" and old: "insts ops t j \<noteq> None"
  shows "j \<in> below (insts ops t) r"
proof -
  have "(r, j) \<in> (child_rel (insts ops t'))\<^sup>*" using path by simp
  then have "insts ops t j \<noteq> None \<longrightarrow> (r, j) \<in> (child_rel (insts ops t))\<^sup>*"
  proof (induction rule: rtrancl_induct)
    case (step b j)
    show ?case
    proof
      assume j: "insts ops t j \<noteq> None"
      have edge: "j \<in> set (kids (insts ops t') b)" using step.hyps(2) by (simp add: child_rel_def)
      have not_drawn: "j \<notin> draw ` {k..<k'}" using drawn_new(1) [OF ok effectD(2) [OF e], of j] j by argo
      have b_old: "b \<notin> draw ` {k..<k'}" using effectD(8) [OF e, of b] edge not_drawn by blast
      have "insts ops t' b \<noteq> None" using edge by (cases "insts ops t' b") (auto simp: kids_def)
      then have alive: "insts ops t b \<noteq> None" using effectD(10) [OF e, of b] b_old by blast
      then have "j \<in> set (kids (insts ops t) b)" using effectD(9) [OF e alive] edge not_drawn by blast
      then have "(b, j) \<in> child_rel (insts ops t)" by (simp add: child_rel_def)
      then show "(r, j) \<in> (child_rel (insts ops t))\<^sup>*" using step.IH alive by (blast intro: rtrancl_into_rtrancl)
    qed
  qed simp
  then show ?thesis using old by simp
qed

section \<open>What the change set tells\<close>

definition told ::
  "('d, 'm, 'v) tree_ops \<Rightarrow> ('d, 'm, 'u) tree \<Rightarrow> ('d, 'm, 'u) tree \<Rightarrow> ('u, 'v) changes \<Rightarrow> bool" where
  "told ops t t' ch \<longleftrightarrow>
     (\<forall>j x x'. insts ops t j = Some x \<and> insts ops t' j = Some x' \<longrightarrow>
        (in_name x' \<noteq> in_name x \<longrightarrow> (\<exists>u\<in>set (updates ch). us_id u = j \<and> us_name u = Some (in_name x'))) \<and>
        (in_class x' \<noteq> in_class x \<longrightarrow> (\<exists>u\<in>set (updates ch). us_id u = j \<and> us_class u = Some (in_class x'))) \<and>
        (map_of (in_properties x') \<noteq> map_of (in_properties x) \<longrightarrow>
          (\<exists>u\<in>set (updates ch). us_id u = j \<and> (\<exists>ps. us_properties u = Some ps \<and> map_of ps = map_of (in_properties x')))) \<and>
        (t_id_to_meta t' j \<noteq> t_id_to_meta t j \<longrightarrow> (\<exists>u\<in>set (updates ch). us_id u = j \<and> us_meta u = t_id_to_meta t' j))) \<and>
     (\<forall>j. insts ops t j \<noteq> None \<and> insts ops t' j = None \<longrightarrow> (\<exists>r\<in>set (removals ch). j \<in> below (insts ops t) r)) \<and>
     (\<forall>j. insts ops t j = None \<and> insts ops t' j \<noteq> None \<longrightarrow> (\<exists>a\<in>set (additions ch). j \<in> snap_ids (from_added a)))"

text \<open>The change set only grows.\<close>

definition ch_le :: "('u, 'v) changes \<Rightarrow> ('u, 'v) changes \<Rightarrow> bool" where
  "ch_le ch ch' \<longleftrightarrow> prefix (updates ch) (updates ch') \<and> prefix (additions ch) (additions ch') \<and> prefix (removals ch) (removals ch')"

lemma ch_le_refl [simp]: "ch_le ch ch"
  by (simp add: ch_le_def)

lemma ch_le_trans: "ch_le a b \<Longrightarrow> ch_le b c \<Longrightarrow> ch_le a c"
  unfolding ch_le_def by (blast intro: prefix_order.trans)

lemma ch_le_set: "ch_le ch ch' \<Longrightarrow> set (updates ch) \<subseteq> set (updates ch') \<and> set (additions ch) \<subseteq> set (additions ch') \<and> set (removals ch) \<subseteq> set (removals ch')"
  by (auto simp: ch_le_def dest: set_mono_prefix)

lemma bex_subset: "A \<subseteq> B \<Longrightarrow> (\<exists>x\<in>A. P x) \<longrightarrow> (\<exists>x\<in>B. P x)"
  by blast

lemma told_mono:
  assumes "told ops t t' ch" "ch_le ch ch'"
  shows "told ops t t' ch'"
proof -
  from ch_le_set [OF assms(2)]
  have sub: "set (updates ch) \<subseteq> set (updates ch')" "set (additions ch) \<subseteq> set (additions ch')" "set (removals ch) \<subseteq> set (removals ch')"
    by simp_all
  have "told ops t t' ch \<longrightarrow> told ops t t' ch'"
    unfolding told_def by (intro conj_mono all_mono imp_mono bex_subset sub impI; assumption)
  then show ?thesis using assms(1) by blast
qed

lemma told_refl: "told ops t t ch"
  by (auto simp: told_def)

lemma told_trans:
  assumes e: "effect ops draw n R t k t' k'" and ok: "state_ok ops draw n t k" and e': "effect ops draw n R' t' k' t'' k''"
    and a: "told ops t t' ch" and b: "told ops t' t'' ch"
  shows "told ops t t'' ch"
proof -
  have between: "insts ops t' j \<noteq> None" if j: "insts ops t j \<noteq> None" "insts ops t'' j \<noteq> None" for j
  proof
    assume "insts ops t' j = None"
    then have "j \<in> draw ` {k'..<k''}" using effectD(10) [OF e' _ j(2)] by blast
    then have "j \<in> draw ` {k..<k''}" using effectD(1) [OF e] by auto
    then show False using drawn_new(1) [OF ok effectD(2) [OF e'], of j] j(1) by argo
  qed
  show ?thesis
    unfolding told_def
  proof (intro conjI allI impI)
    fix j x x' assume jx: "insts ops t j = Some x \<and> insts ops t'' j = Some x'"
    then obtain y where y: "insts ops t' j = Some y" using between [of j] by auto
    note A = a [unfolded told_def, THEN conjunct1, rule_format, of j x y] and B = b [unfolded told_def, THEN conjunct1, rule_format, of j y x']
    show "\<exists>u\<in>set (updates ch). us_id u = j \<and> us_name u = Some (in_name x')" if "in_name x' \<noteq> in_name x"
      using A B jx y that by (cases "in_name x' = in_name y") auto
    show "\<exists>u\<in>set (updates ch). us_id u = j \<and> us_class u = Some (in_class x')" if "in_class x' \<noteq> in_class x"
      using A B jx y that by (cases "in_class x' = in_class y") auto
    show "\<exists>u\<in>set (updates ch). us_id u = j \<and> (\<exists>ps. us_properties u = Some ps \<and> map_of ps = map_of (in_properties x'))"
      if "map_of (in_properties x') \<noteq> map_of (in_properties x)"
      using A B jx y that by (cases "map_of (in_properties x') = map_of (in_properties y)") auto
    show "\<exists>u\<in>set (updates ch). us_id u = j \<and> us_meta u = t_id_to_meta t'' j" if "t_id_to_meta t'' j \<noteq> t_id_to_meta t j"
      using A B jx y that by (cases "t_id_to_meta t'' j = t_id_to_meta t' j") auto
  next
    fix j assume j: "insts ops t j \<noteq> None \<and> insts ops t'' j = None"
    show "\<exists>r\<in>set (removals ch). j \<in> below (insts ops t) r"
    proof (cases "insts ops t' j = None")
      case False
      then obtain r where "r \<in> set (removals ch)" "j \<in> below (insts ops t') r" using b j unfolding told_def by blast
      then show ?thesis using below_old [OF e ok] j by blast
    qed (use a j in \<open>unfold told_def, blast\<close>)
  next
    fix j assume j: "insts ops t j = None \<and> insts ops t'' j \<noteq> None"
    show "\<exists>a\<in>set (additions ch). j \<in> snap_ids (from_added a)"
    proof (cases "insts ops t' j = None")
      case True
      then show ?thesis using b j unfolding told_def by blast
    next
      case False
      then show ?thesis using a j unfolding told_def by blast
    qed
  qed
qed


section \<open>The single steps\<close>

lemma same_properties_iff: "same_properties ps qs \<longleftrightarrow> map_of ps = map_of qs"
proof
  assume same: "same_properties ps qs"
  show "map_of ps = map_of qs"
  proof
    fix k
    show "map_of ps k = map_of qs k"
    proof (cases "k \<in> set (map fst ps @ map fst qs)")
      case True
      then show ?thesis using same unfolding same_properties_def list_all_iff by blast
    next
      case False
      then have "k \<notin> fst ` set ps" "k \<notin> fst ` set qs" by auto
      then show ?thesis by (simp add: map_of_eq_None_iff [THEN iffD2])
    qed
  qed
qed (simp add: same_properties_def list_all_iff)

lemma tree_ok_wf: "tree_ok ops t \<Longrightarrow> dom_wf (root_ref ops t) (insts ops t)"
  by (simp add: tree_ok_def)

lemma state_ok_wf: "state_ok ops draw n t k \<Longrightarrow> dom_wf (root_ref ops t) (insts ops t)"
  by (simp add: state_ok_def tree_ok_def)

text \<open>The children of an instance: they exist, are distinct and lie below it.\<close>

lemma child_alive:
  assumes "state_ok ops draw n t k" "insts ops t i = Some x" "j \<in> set (in_children x)"
  obtains y where "insts ops t j = Some y" "in_parent y = i"
  using dom_wf_kid [OF state_ok_wf [OF assms(1)], of j i] assms(2,3) by (auto simp: kids_def)

lemma children_distinct: "state_ok ops draw n t k \<Longrightarrow> insts ops t i = Some x \<Longrightarrow> distinct (in_children x)"
  using state_ok_wf unfolding dom_wf_def by blast

lemma not_below_child:
  assumes "state_ok ops draw n t k" "insts ops t i = Some x" "j \<in> set (in_children x)"
  shows "i \<notin> below (insts ops t) j"
proof -
  obtain rank :: "dref \<Rightarrow> nat" where rank: "\<And>i j. j \<in> set (kids (insts ops t) i) \<Longrightarrow> rank j < rank i"
    and falls: "\<And>x y. (x, y) \<in> (child_rel (insts ops t))\<^sup>* \<Longrightarrow> rank y \<le> rank x"
    using dom_wf_rank [OF state_ok_wf [OF assms(1)]] by metis
  have "rank j < rank i" using rank [of j i] assms(2,3) by (simp add: kids_def)
  then show ?thesis using falls [of j i] by auto
qed

lemma siblings_apart:
  assumes "state_ok ops draw n t k" "insts ops t i = Some x" "a \<in> set (in_children x)" "b \<in> set (in_children x)" "a \<noteq> b"
  shows "below (insts ops t) a \<inter> below (insts ops t) b = {}"
  using kids_disjoint [OF state_ok_wf [OF assms(1)], of a i b] assms(2-5) by (simp add: kids_def)

text \<open>What lies below a living instance lives.\<close>

lemma below_alive:
  assumes "state_ok ops draw n t k" "insts ops t i \<noteq> None" "j \<in> below (insts ops t) i"
  shows "insts ops t j \<noteq> None"
proof -
  have "(i, j) \<in> (child_rel (insts ops t))\<^sup>*" using assms(3) by simp
  then show ?thesis
  proof (induction rule: rtrancl_induct)
    case (step a b)
    then have "b \<in> set (kids (insts ops t) a)" by (simp add: child_rel_def)
    then show ?case using dom_wf_kid [OF state_ok_wf [OF assms(1)]] by (metis option.distinct(1))
  qed (rule assms(2))
qed

text \<open>The fields of an instance.\<close>

lemma modify_view:
  assumes "dom_laws ops" "insts ops t i = Some x"
  shows "insts ops (get_instance_mut ops i (\<lambda>x. (n, c, f x)) t) = (insts ops t)(i \<mapsto> x\<lparr>in_name := n, in_class := c, in_properties := f x\<rparr>)"
    "root_ref ops (get_instance_mut ops i (\<lambda>x. (n, c, f x)) t) = root_ref ops t"
    "t_id_to_meta (get_instance_mut ops i (\<lambda>x. (n, c, f x)) t) = t_id_to_meta t"
  using assms by (auto simp: get_instance_mut_def Let_def dom_laws_def modify_law_def root_ref_def)

lemma fields_step:
  fixes ops :: "('d, 'm, 'v) tree_ops" and t :: "('d, 'm, 'u) tree"
  assumes laws: "dom_laws ops" "multi_laws ops" and ok: "state_ok ops draw n t k" "k \<le> n" and x: "insts ops t i = Some x"
  obtains ch' t' x' where "process_fields ops i (Snapshot sid me name cls ps children) ch t = Some (ch', t')"
    "effect ops draw n (below (insts ops t) i) t k t' k" "told ops t t' ch'" "ch_le ch ch'"
    "insts ops t' i = Some x'" "in_name x' = name" "in_class x' = cls" "map_of (in_properties x') = map_of ps"
    "in_children x' = in_children x" "t_id_to_meta t' i = Some me"
proof -
  let ?s = "Snapshot sid me name cls ps children"
  have tok: "tree_ok ops t" using ok(1) by (simp add: state_ok_def)
  obtain old where old: "t_id_to_meta t i = Some old" using ok(1) x by (auto simp: state_ok_def metas_full_def)
  define t1 where "t1 = (if me \<noteq> old then update_meta ops i me t else t)"
  have t1: "tree_ok ops t1" "insts ops t1 = insts ops t" "t_id_to_meta t1 = (t_id_to_meta t)(i \<mapsto> me)" "root_ref ops t1 = root_ref ops t"
  proof -
    have "index_ok ops (update_meta ops i me t)" using update_meta_index [OF laws(2) _ old] tok by (simp add: tree_ok_def)
    then show "tree_ok ops t1" using tok old unfolding t1_def by (auto simp: tree_ok_def update_meta_fields root_ref_def)
  qed (use old in \<open>auto simp: t1_def update_meta_fields root_ref_def\<close>)
  define f where "f = (\<lambda>x :: 'v inst. if same_properties ps (in_properties x) then in_properties x else ps)"
  define t2 where "t2 = get_instance_mut ops i (\<lambda>x. (name, cls, f x)) t1"
  have x1: "insts ops t1 i = Some x" using x t1(2) by simp
  let ?x' = "x\<lparr>in_name := name, in_class := cls, in_properties := f x\<rparr>"
  have t2: "insts ops t2 = (insts ops t)(i \<mapsto> ?x')" "root_ref ops t2 = root_ref ops t" "t_id_to_meta t2 = (t_id_to_meta t)(i \<mapsto> me)"
    unfolding t2_def modify_view [OF laws(1) x1] using t1 by simp_all
  have tok2: "tree_ok ops t2" unfolding t2_def by (rule write_ok(1) [OF laws(1) t1(1)])
  define u where "u = \<lparr>us_id = i, us_meta = (if me \<noteq> old then Some me else None),
     us_name = (if name \<noteq> in_name x then Some name else None), us_class = (if cls \<noteq> in_class x then Some cls else None),
     us_properties = (if same_properties ps (in_properties x) then None else Some ps)\<rparr>"
  let ?ch = "if updated_is_empty u then ch else changes_update u ch"
  have run: "process_fields ops i ?s ch t = Some (?ch, t2)"
    unfolding process_fields_def get_meta_def get_instance_def t2_def u_def f_def snapshot.sel
    using old x1 by (auto simp: Let_def t1_def x update_meta_fields)
  have kids: "kids (insts ops t2) a = kids (insts ops t) a" for a using x by (simp add: t2(1) kids_def)
  have alive: "insts ops t2 j = None \<longleftrightarrow> insts ops t j = None" for j using x by (simp add: t2(1))
  have "state_ok ops draw n t2 k"
    using ok(1) tok2 x alive by (auto simp: state_ok_def metas_full_def fresh_between_def exists_inst_def t2(3))
  then have eff: "effect ops draw n (below (insts ops t) i) t k t2 k"
    using ok(2) t2 kids alive below_closed_self [where m = "insts ops t" and i = i] by (intro effectI) (auto split: if_splits)
  have "told ops t t2 ?ch"
  proof -
    have same: "map_of ps = map_of (in_properties x)" if "same_properties ps (in_properties x)" using that same_properties_iff by blast
    show ?thesis
      using x old alive unfolding told_def
      by (auto simp: t2 u_def f_def updated_is_empty_def changes_update_def same_properties_iff split: if_splits)
  qed
  moreover have "ch_le ch ?ch" by (simp add: ch_le_def changes_update_def)
  moreover have "map_of (f x) = map_of ps" by (simp add: f_def same_properties_iff)
  ultimately show thesis using that [OF run eff, of ?x'] t2 by simp
qed


text \<open>The removal of a child.\<close>

lemma remove_step:
  assumes laws: "dom_laws ops" "multi_laws ops" and ok: "state_ok ops draw n t k" "k \<le> n"
    and x: "insts ops t i = Some x" and c: "c \<in> set (in_children x)"
  obtains t' where "remove_instance ops c t = Some (Some t')" "effect ops draw n (below (insts ops t) i) t k t' k"
    "told ops t t' (changes_remove c ch)" "t_id_to_meta t' i = t_id_to_meta t i"
    "insts ops t' i = Some (x\<lparr>in_children := filter (\<lambda>j. j \<noteq> c) (in_children x)\<rparr>)"
    "\<forall>j\<in>set (in_children x). j \<noteq> c \<longrightarrow> insts ops t' j = insts ops t j"
proof -
  let ?m = "insts ops t"
  have tok: "tree_ok ops t" using ok(1) by (simp add: state_ok_def)
  obtain y where y: "?m c = Some y" "in_parent y = i" by (rule child_alive [OF ok(1) x c])
  have "c \<noteq> root_ref ops t"
  proof
    assume "c = root_ref ops t"
    then have "in_parent y = ref_none" using state_ok_wf [OF ok(1)] y(1) by (auto simp: dom_wf_def)
    then show False using state_ok_wf [OF ok(1)] x y(2) by (auto simp: dom_wf_def)
  qed
  then obtain t' ids where t': "remove_instance ops c t = Some (Some t')"
    "tree_ok ops t'" "root_ref ops t' = root_ref ops t" "insts ops t' = destroyed ?m c (in_parent y)"
    "t_id_to_meta t' = (\<lambda>j. if j \<in> below ?m c then None else t_id_to_meta t j)"
    "walk ?m [c] [] = Some (Some ids)" "t_generation t' = t_generation t + 1 + of_nat (length ids)"
    by (rule remove_instance_result [OF laws tok y(1)])
  have i: "i \<notin> below ?m c" by (rule not_below_child [OF ok(1) x c])
  have c_below: "below ?m c \<subseteq> below ?m i" by (rule below_kid [where m = ?m and i = i, OF x c])
  have view: "insts ops t' j = (if j \<in> below ?m c then None else if j = i then Some (x\<lparr>in_children := filter (\<lambda>j. j \<noteq> c) (in_children x)\<rparr>) else ?m j)" for j
    unfolding t'(4) y(2) destroyed_def using x by simp
  have kids: "set (kids (insts ops t') a) \<subseteq> set (kids ?m a)" for a
    unfolding kids_def view using x by (auto split: option.splits)
  have st: "state_ok ops draw n t' k"
    using ok(1) t'(2) view x unfolding state_ok_def metas_full_def fresh_between_def exists_inst_def t'(5) by (auto split: if_splits)
  have eff: "effect ops draw n (below ?m i) t k t' k"
  proof (rule effectI)
    show "set (kids (insts ops t') a) \<subseteq> below ?m i \<union> draw ` {k..<k}" if "a \<in> below ?m i \<or> a \<in> draw ` {k..<k}" for a
      using kids [of a] below_closed_self [where a = a and m = ?m and i = i] that by auto
  qed (use ok(2) st t'(3,5) view kids c_below x below_refl [where m = ?m and i = i] in \<open>auto simp del: below_refl split: if_splits\<close>)
  have "told ops t t' (changes_remove c ch)"
    unfolding told_def using x i by (auto simp: view t'(5) changes_remove_def split: if_splits)
  moreover have "insts ops t' j = ?m j" if j: "j \<in> set (in_children x)" "j \<noteq> c" for j
  proof -
    have "j \<notin> below ?m c" using siblings_apart [OF ok(1) x j(1) c j(2)] by (metis below_refl disjoint_iff)
    moreover have "j \<noteq> i" using not_below_child [OF ok(1) x j(1)] below_refl by metis
    ultimately show ?thesis by (simp add: view)
  qed
  ultimately show thesis using that [OF t'(1) eff] i view t'(5) by simp
qed

text \<open>The insertion of one instance under \<open>p\<close>, with a referent of its own.\<close>

lemma insert_step:
  assumes laws: "dom_laws ops" "multi_laws ops" and ok: "state_ok ops draw n t k" "k < n" and x: "insts ops t p = Some x"
  obtains t' where "insert_at ops (draw k) s p t = Some t'" "effect ops draw n (below (insts ops t) p) t k t' (Suc k)"
    "insts ops t' p = Some (x\<lparr>in_children := in_children x @ [draw k]\<rparr>)" "t_id_to_meta t' p = t_id_to_meta t p"
    "\<forall>j. j \<noteq> p \<and> j \<noteq> draw k \<longrightarrow> insts ops t' j = insts ops t j \<and> t_id_to_meta t' j = t_id_to_meta t j"
    "insts ops t' (draw k) = Some \<lparr>in_name = builder_name s, in_class = sn_class s, in_properties = sn_properties s, in_parent = p, in_children = []\<rparr>"
    "t_id_to_meta t' (draw k) = Some (sn_meta s)"
proof -
  let ?m = "insts ops t"
  have tok: "tree_ok ops t" using ok(1) by (simp add: state_ok_def)
  have new: "?m (draw k) = None" "draw k \<noteq> ref_none" using ok by (auto simp: state_ok_def fresh_between_def exists_inst_def)
  have ne: "draw k \<noteq> p" using new(1) x by auto
  obtain t' where t': "insert_at ops (draw k) s p t = Some t'" "tree_ok ops t'"
    "root_ref ops t' = root_ref ops t"
    "insts ops t' = ?m (p \<mapsto> x\<lparr>in_children := in_children x @ [draw k]\<rparr>,
        draw k \<mapsto> \<lparr>in_name = builder_name s, in_class = sn_class s, in_properties = sn_properties s, in_parent = p, in_children = []\<rparr>)"
    "t_id_to_meta t' = (t_id_to_meta t)(draw k \<mapsto> sn_meta s)" "t_generation t' = t_generation t + 2"
    by (rule insert_at_result [OF laws tok x new])
  have later: "draw j \<noteq> draw k" if "Suc k \<le> j" "j < n" for j
    using ok that by (auto simp: state_ok_def fresh_between_def dest: inj_onD [of draw _ j k])
  have kids: "set (kids (insts ops t') a) \<subseteq> set (kids ?m a) \<union> {draw k}" for a
    using x ne by (auto simp: kids_def t'(4))
  have st: "state_ok ops draw n t' (Suc k)"
    using ok t'(2) later x unfolding state_ok_def metas_full_def fresh_between_def exists_inst_def t'(4,5)
    by (auto intro: inj_on_subset split: if_splits)
  have D: "draw ` {k..<Suc k} = {draw k}" by auto
  have eff: "effect ops draw n (below ?m p) t k t' (Suc k)"
  proof (rule effectI)
    show "set (kids (insts ops t') a) \<subseteq> below ?m p \<union> draw ` {k..<Suc k}" if a: "a \<in> below ?m p \<or> a \<in> draw ` {k..<Suc k}" for a
    proof (cases "a = draw k")
      case True
      then show ?thesis by (simp add: kids_def t'(4))
    qed (use a D kids [of a] below_closed_self [where a = a and m = ?m and i = p] in blast)
    show "set (kids (insts ops t') a) \<subseteq> draw ` {k..<Suc k}" if "a \<in> draw ` {k..<Suc k}" for a
      using that D by (simp add: kids_def t'(4))
  qed (use ok(2) st t' x kids D below_refl [where m = ?m and i = p] in \<open>auto simp del: below_refl split: if_splits\<close>)
  show thesis using that [OF t'(1) eff] t'(4,5) ne by simp
qed


text \<open>A mirror that lies apart from an effect's region stays.\<close>

lemma mirrors_kept:
  assumes e: "effect ops draw n R t k t' k'" and ok: "state_ok ops draw n t k"
    and m: "mirrors (insts ops t) (t_id_to_meta t) j s" and off: "below (insts ops t) j \<inter> R = {}"
  shows "mirrors (insts ops t') (t_id_to_meta t') j s"
proof (rule mirrors_frame [OF m])
  have alive: "insts ops t j \<noteq> None" using m by (cases rule: mirrors.cases) auto
  show "\<forall>a\<in>below (insts ops t) j. insts ops t' a = insts ops t a \<and> t_id_to_meta t' a = t_id_to_meta t a"
  proof
    fix a assume a: "a \<in> below (insts ops t) j"
    have "insts ops t a \<noteq> None" by (rule below_alive [OF ok alive a])
    then have "a \<notin> draw ` {k..<k'}" using drawn_new(1) [OF ok effectD(2) [OF e], of a] by argo
    moreover have "a \<notin> R" using off a by blast
    ultimately show "insts ops t' a = insts ops t a \<and> t_id_to_meta t' a = t_id_to_meta t a"
      using effectD(5,6) [OF e] by blast
  qed
qed

section \<open>Insertions\<close>

text \<open>What an insertion under \<open>p\<close> did: one more child, drawn with all that is below it, that mirrors the snapshot.\<close>

definition inserted ::
  "('d, 'm, 'v) tree_ops \<Rightarrow> (nat \<Rightarrow> dref) \<Rightarrow> nat \<Rightarrow> dref \<Rightarrow> ('u, 'v) snapshot \<Rightarrow> ('d, 'm, 'u) tree \<Rightarrow> nat \<Rightarrow> ('u, 'v) snapshot \<Rightarrow> ('d, 'm, 'u) tree \<Rightarrow> nat \<Rightarrow> bool" where
  "inserted ops draw n p s t k s' t' k' \<longleftrightarrow>
     effect ops draw n (below (insts ops t) p) t k t' k' \<and> k' = k + snap_count s \<and>
     insts ops t' p = map_option (\<lambda>x. x\<lparr>in_children := in_children x @ [draw k]\<rparr>) (insts ops t p) \<and>
     (\<forall>j. j \<noteq> p \<and> j \<notin> draw ` {k..<k'} \<longrightarrow> insts ops t' j = insts ops t j) \<and> (\<forall>j. j \<notin> draw ` {k..<k'} \<longrightarrow> t_id_to_meta t' j = t_id_to_meta t j) \<and>
     mirrors (insts ops t') (t_id_to_meta t') (draw k) s \<and> snap_ids s' = draw ` {k..<k'}"

lemma snap_count_pos: "0 < snap_count s"
  by (cases s) simp

text \<open>The same for the children of a snapshot, one after the other.\<close>

definition inserted_all ::
  "('d, 'm, 'v) tree_ops \<Rightarrow> (nat \<Rightarrow> dref) \<Rightarrow> nat \<Rightarrow> dref \<Rightarrow> ('u, 'v) snapshot list \<Rightarrow> ('d, 'm, 'u) tree \<Rightarrow> nat \<Rightarrow> ('u, 'v) snapshot list
   \<Rightarrow> dref list \<Rightarrow> ('d, 'm, 'u) tree \<Rightarrow> nat \<Rightarrow> bool" where
  "inserted_all ops draw n p children t k cs ids t' k' \<longleftrightarrow>
     effect ops draw n (below (insts ops t) p) t k t' k' \<and> k' = k + sum_list (map snap_count children) \<and>
     insts ops t' p = map_option (\<lambda>x. x\<lparr>in_children := in_children x @ ids\<rparr>) (insts ops t p) \<and>
     (\<forall>j. j \<noteq> p \<and> j \<notin> draw ` {k..<k'} \<longrightarrow> insts ops t' j = insts ops t j) \<and> (\<forall>j. j \<notin> draw ` {k..<k'} \<longrightarrow> t_id_to_meta t' j = t_id_to_meta t j) \<and>
     list_all2 (mirrors (insts ops t') (t_id_to_meta t')) ids children \<and> (\<Union>c\<in>set cs. snap_ids c) = draw ` {k..<k'}"

lemma inserted_all_nil:
  assumes "state_ok ops draw n t k" "k \<le> n"
  shows "inserted_all ops draw n p [] t k [] [] t k"
proof -
  have "effect ops draw n (below (insts ops t) p) t k t k" by (rule effect_refl_below [OF assms])
  then show ?thesis by (cases "insts ops t p") (simp_all add: inserted_all_def)
qed

lemma inserted_all_cons:
  assumes ok: "state_ok ops draw n t k" and p: "insts ops t p \<noteq> None" and ins: "inserted ops draw n p child t k c t1 k1"
    and all: "inserted_all ops draw n p children t1 k1 cs ids t' k'"
  shows "inserted_all ops draw n p (child # children) t k (c # cs) (draw k # ids) t' k'"
proof -
  have e1: "effect ops draw n (below (insts ops t) p) t k t1 k1" and k1: "k1 = k + snap_count child" using ins unfolding inserted_def by blast+
  have e2: "effect ops draw n (below (insts ops t1) p) t1 k1 t' k'" and k': "k' = k1 + sum_list (map snap_count children)"
    using all unfolding inserted_all_def by blast+
  have D: "draw ` {k..<k'} = draw ` {k..<k1} \<union> draw ` {k1..<k'}" using k1 k' by (intro draw_split) auto
  have "below (insts ops t1) p \<subseteq> below (insts ops t) p \<union> draw ` {k..<k1}"
    using effectD(7) [OF e1] by (intro below_closed) auto
  then have e: "effect ops draw n (below (insts ops t) p) t k t' k'" by (rule effect_trans [OF e1 e2])
  have apart: "a \<noteq> p \<and> a \<notin> draw ` {k1..<k'}" if a: "a \<in> draw ` {k..<k1}" for a
  proof
    show "a \<noteq> p" using drawn_new(1) [OF ok effectD(2) [OF e1] a] p by auto
    show "a \<notin> draw ` {k1..<k'}"
    proof
      assume "a \<in> draw ` {k1..<k'}"
      then obtain v where "a = draw v" "v \<in> {k1..<k'}" by blast
      moreover obtain u where "a = draw u" "u \<in> {k..<k1}" using a by blast
      ultimately have uv: "draw u = draw v" "u \<in> {k..<k1}" "v \<in> {k1..<k'}" by simp_all
      have "inj_on draw {k..<n}" using ok by (simp add: state_ok_def fresh_between_def)
      then show False using inj_onD [of draw "{k..<n}" u v] uv effectD(2) [OF e] by auto
    qed
  qed
  have keep_insts: "\<forall>j. j \<noteq> p \<and> j \<notin> draw ` {k1..<k'} \<longrightarrow> insts ops t' j = insts ops t1 j"
    and keep_metas: "\<forall>j. j \<notin> draw ` {k1..<k'} \<longrightarrow> t_id_to_meta t' j = t_id_to_meta t1 j"
    using all unfolding inserted_all_def by argo+
  have "mirrors (insts ops t') (t_id_to_meta t') (draw k) child"
  proof (rule mirrors_frame)
    show "mirrors (insts ops t1) (t_id_to_meta t1) (draw k) child" using ins by (simp add: inserted_def)
    have k: "draw k \<in> draw ` {k..<k1}" using snap_count_pos [of child] k1 by auto
    have "below (insts ops t1) (draw k) \<subseteq> draw ` {k..<k1}" using effectD(8) [OF e1] k by (intro below_closed) auto
    then show "\<forall>a\<in>below (insts ops t1) (draw k). insts ops t' a = insts ops t1 a \<and> t_id_to_meta t' a = t_id_to_meta t1 a"
      using keep_insts keep_metas apart by blast
  qed
  moreover have "insts ops t' p = map_option (\<lambda>x. x\<lparr>in_children := in_children x @ draw k # ids\<rparr>) (insts ops t p)"
    using ins all p by (auto simp: inserted_def inserted_all_def)
  moreover have "\<forall>j. j \<noteq> p \<and> j \<notin> draw ` {k..<k'} \<longrightarrow> insts ops t' j = insts ops t j" "\<forall>j. j \<notin> draw ` {k..<k'} \<longrightarrow> t_id_to_meta t' j = t_id_to_meta t j"
    using ins all unfolding inserted_def inserted_all_def D by auto
  moreover have "snap_ids c = draw ` {k..<k1}" "(\<Union>c\<in>set cs. snap_ids c) = draw ` {k1..<k'}" "list_all2 (mirrors (insts ops t') (t_id_to_meta t')) ids children"
    using ins all unfolding inserted_def inserted_all_def by argo+
  ultimately show ?thesis using e k1 k' D unfolding inserted_all_def by simp
qed

abbreviation insert_all ::
  "('d, 'm, 'v) tree_ops \<Rightarrow> (nat \<Rightarrow> dref) \<Rightarrow> dref \<Rightarrow> ('u, 'v) snapshot list \<Rightarrow> (('u, 'v) snapshot list \<times> ('d, 'm, 'u) tree \<times> nat) option
   \<Rightarrow> (('u, 'v) snapshot list \<times> ('d, 'm, 'u) tree \<times> nat) option" where
  "insert_all ops draw p children st \<equiv> fold (\<lambda>child st. case st of None \<Rightarrow> None
      | Some (cs, t, k') \<Rightarrow> map_option (\<lambda>(c, t, k'). (cs @ [c], t, k')) (insert_children ops draw child p (t, k'))) children st"

lemma insert_all_step:
  assumes ih: "\<And>child t k. child \<in> set children \<Longrightarrow> state_ok ops draw n t k \<Longrightarrow> insts ops t p \<noteq> None \<Longrightarrow> k + snap_count child \<le> n \<Longrightarrow>
      \<exists>s' t' k'. insert_children ops draw child p (t, k) = Some (s', t', k') \<and> inserted ops draw n p child t k s' t' k'"
    and ok: "state_ok ops draw n t k" "insts ops t p \<noteq> None" "k + sum_list (map snap_count children) \<le> n"
  shows "\<exists>cs ids t' k'. insert_all ops draw p children (Some (cs0, t, k)) = Some (cs0 @ cs, t', k') \<and>
    inserted_all ops draw n p children t k cs ids t' k'"
  using assms
proof (induction children arbitrary: t k cs0)
  case Nil
  then show ?case using inserted_all_nil [OF Nil.prems(2)] by fastforce
next
  case (Cons child children)
  obtain c t1 k1 where c: "insert_children ops draw child p (t, k) = Some (c, t1, k1)" and ins: "inserted ops draw n p child t k c t1 k1"
    using Cons.prems(1) [of child t k] Cons.prems(2-4) by auto
  have ok1: "state_ok ops draw n t1 k1" "insts ops t1 p \<noteq> None" "k1 + sum_list (map snap_count children) \<le> n"
    using ins Cons.prems(3,4) effectD(3) unfolding inserted_def by auto
  have "\<exists>cs ids t' k'. insert_all ops draw p children (Some (cs0 @ [c], t1, k1)) = Some ((cs0 @ [c]) @ cs, t', k') \<and>
    inserted_all ops draw n p children t1 k1 cs ids t' k'"
    by (rule Cons.IH) (use Cons.prems(1) ok1 in auto)
  then obtain cs ids t' k' where rest: "insert_all ops draw p children (Some (cs0 @ [c], t1, k1)) = Some ((cs0 @ [c]) @ cs, t', k')"
    "inserted_all ops draw n p children t1 k1 cs ids t' k'" by blast
  have "inserted_all ops draw n p (child # children) t k (c # cs) (draw k # ids) t' k'"
    by (rule inserted_all_cons [OF Cons.prems(2,3) ins rest(2)])
  moreover have "insert_all ops draw p (child # children) (Some (cs0, t, k)) = Some (cs0 @ c # cs, t', k')" using rest(1) c by simp
  ultimately show ?case by blast
qed

lemma insert_children_result:
  assumes laws: "dom_laws ops" "multi_laws ops"
  shows "state_ok ops draw n t k \<Longrightarrow> insts ops t p \<noteq> None \<Longrightarrow> k + snap_count s \<le> n \<Longrightarrow> fresh_snapshot s \<Longrightarrow>
    \<exists>s' t' k'. insert_children ops draw s p (t, k) = Some (s', t', k') \<and> inserted ops draw n p s t k s' t' k'"
proof (induction s arbitrary: t k p)
  case (Snapshot sid me name cls ps children)
  let ?s = "Snapshot sid me name cls ps children"
  obtain x where x: "insts ops t p = Some x" using Snapshot.prems(2) by blast
  have "k < n" using Snapshot.prems(3) by simp
  then obtain t1 where t1: "insert_at ops (draw k) ?s p t = Some t1" "effect ops draw n (below (insts ops t) p) t k t1 (Suc k)"
    "insts ops t1 p = Some (x\<lparr>in_children := in_children x @ [draw k]\<rparr>)" "t_id_to_meta t1 p = t_id_to_meta t p"
    "\<forall>j. j \<noteq> p \<and> j \<noteq> draw k \<longrightarrow> insts ops t1 j = insts ops t j \<and> t_id_to_meta t1 j = t_id_to_meta t j"
    "insts ops t1 (draw k) = Some \<lparr>in_name = builder_name ?s, in_class = sn_class ?s, in_properties = sn_properties ?s, in_parent = p, in_children = []\<rparr>"
    "t_id_to_meta t1 (draw k) = Some (sn_meta ?s)"
    by (rule insert_step [OF laws Snapshot.prems(1) _ x, where s = ?s])
  have name: "builder_name ?s = name" using Snapshot.prems(4) by (auto simp: builder_name_def split: option.splits)
  have "\<exists>cs ids t' k'. insert_all ops draw (draw k) children (Some ([], t1, Suc k)) = Some ([] @ cs, t', k') \<and>
    inserted_all ops draw n (draw k) children t1 (Suc k) cs ids t' k'"
    by (rule insert_all_step) (use Snapshot.IH Snapshot.prems(3,4) effectD(3) [OF t1(2)] t1(6) in auto)
  then obtain cs ids t' k' where all: "insert_all ops draw (draw k) children (Some ([], t1, Suc k)) = Some (cs, t', k')"
    and ins: "inserted_all ops draw n (draw k) children t1 (Suc k) cs ids t' k'" by auto
  have run: "insert_children ops draw ?s p (t, k) = Some (Snapshot (draw k) me name cls ps cs, t', k')"
    unfolding insert_children.simps t1(1) option.case all by simp
  have e2: "effect ops draw n (below (insts ops t1) (draw k)) t1 (Suc k) t' k'" using ins unfolding inserted_all_def by blast
  have single: "below (insts ops t1) (draw k) \<subseteq> draw ` {k..<Suc k}" using effectD(8) [OF t1(2)] by (intro below_closed) auto
  then have e: "effect ops draw n (below (insts ops t) p) t k t' k'" by (intro effect_trans [OF t1(2) e2]) blast
  have D: "draw ` {k..<k'} = {draw k} \<union> draw ` {Suc k..<k'}" using effectD(1) [OF e2] draw_split [of k "Suc k" k' draw] by auto
  have p: "p \<notin> draw ` {k..<k'}" using drawn_new(1) [OF Snapshot.prems(1) effectD(2) [OF e], of p] x by auto
  have keep: "insts ops t' j = insts ops t1 j" if "j \<noteq> draw k" "j \<notin> draw ` {Suc k..<k'}" for j using ins that unfolding inserted_all_def by blast
  have keep_meta: "t_id_to_meta t' j = t_id_to_meta t1 j" if "j \<notin> draw ` {Suc k..<k'}" for j using ins that unfolding inserted_all_def by blast
  have k_new: "draw k \<notin> draw ` {Suc k..<k'}"
    using drawn_new(1) [OF effectD(3) [OF t1(2)] effectD(2) [OF e], of "draw k"] t1(6) by auto
  have "mirrors (insts ops t') (t_id_to_meta t') (draw k) ?s"
  proof (rule mirrors.Mirror)
    show "insts ops t' (draw k) = Some \<lparr>in_name = name, in_class = cls, in_properties = ps, in_parent = p, in_children = ids\<rparr>"
      using ins t1(6) name by (simp add: inserted_all_def)
    show "t_id_to_meta t' (draw k) = Some me" using keep_meta [OF k_new] t1(7) by simp
    show "list_all2 (mirrors (insts ops t') (t_id_to_meta t')) ids children" using ins by (simp add: inserted_all_def)
  qed simp_all
  moreover have "insts ops t' p = map_option (\<lambda>x. x\<lparr>in_children := in_children x @ [draw k]\<rparr>) (insts ops t p)"
    using keep [of p] p D t1(3) x by auto
  moreover have "\<forall>j. j \<noteq> p \<and> j \<notin> draw ` {k..<k'} \<longrightarrow> insts ops t' j = insts ops t j" using keep t1(5) D by auto
  moreover have "\<forall>j. j \<notin> draw ` {k..<k'} \<longrightarrow> t_id_to_meta t' j = t_id_to_meta t j"
  proof (intro allI impI)
    fix j assume "j \<notin> draw ` {k..<k'}"
    then show "t_id_to_meta t' j = t_id_to_meta t j" using keep_meta [of j] t1(4,5) D by (cases "j = p") auto
  qed
  moreover have "k' = k + snap_count ?s" "snap_ids (Snapshot (draw k) me name cls ps cs) = draw ` {k..<k'}"
    using ins D by (simp_all add: inserted_all_def)
  ultimately have "inserted ops draw n p ?s t k (Snapshot (draw k) me name cls ps cs) t' k'" using e unfolding inserted_def by blast
  then show ?case using run by blast
qed


section \<open>Pairing\<close>

definition somes :: "'a option list \<Rightarrow> 'a list" where
  "somes ps = concat (map (\<lambda>p. case p of Some x \<Rightarrow> [x] | None \<Rightarrow> []) ps)"

lemma somes_simps [simp]: "somes [] = []" "somes (Some x # ps) = x # somes ps" "somes (None # ps) = somes ps"
  by (simp_all add: somes_def)

lemma somes_replicate: "somes (replicate n None) = []"
  by (induction n) simp_all

lemma somes_update: "i < length ps \<Longrightarrow> ps ! i = None \<Longrightarrow> mset (somes (ps[i := Some x])) = add_mset x (mset (somes ps))"
proof (induction ps arbitrary: i)
  case (Cons p ps)
  then show ?case by (cases i; cases p) auto
qed simp

lemma pair_child_Some:
  assumes "pair_child children paired name cls = Some i"
  shows "i < length children" "paired ! i = None"
  using assms by (auto simp: pair_child_def find_Some_iff)

lemma pair_exact_result:
  assumes "\<forall>j\<in>set js. get j \<noteq> None" "length paired = length children"
  shows "\<exists>paired' unpaired'. pair_exact get children js paired unpaired = Some (paired', unpaired') \<and> length paired' = length children \<and>
    mset (somes paired') + mset unpaired' = mset (somes paired) + mset unpaired + mset js"
  using assms
proof (induction js arbitrary: paired unpaired)
  case (Cons j js)
  obtain x where x: "get j = Some x" using Cons.prems(1) by auto
  show ?case
  proof (cases "pair_child children paired (in_name x) (Some (in_class x))")
    case None
    then show ?thesis using Cons.IH [of paired "unpaired @ [j]"] Cons.prems x by (fastforce simp: ac_simps)
  next
    case (Some i)
    have i: "i < length paired" "paired ! i = None" using pair_child_Some [OF Some] Cons.prems(2) by auto
    then show ?thesis using Cons.IH [of "paired[i := Some j]" unpaired] Cons.prems x Some somes_update [OF i, of j] by (fastforce simp: ac_simps)
  qed
qed simp

lemma mset_drop_one: "distinct xs \<Longrightarrow> c \<in> set xs \<Longrightarrow> mset xs = add_mset c (mset (filter (\<lambda>j. j \<noteq> c) xs))"
proof (induction xs)
  case (Cons a xs)
  show ?case
  proof (cases "a = c")
    case True
    have "filter (\<lambda>j. j \<noteq> c) xs = xs" by (rule filter_True) (use Cons.prems True in auto)
    then show ?thesis using True by (simp del: mset_filter)
  qed (use Cons in \<open>simp del: mset_filter\<close>)
qed simp

lemma pair_renamed_result:
  fixes ops :: "('d, 'm, 'v) tree_ops" and t :: "('d, 'm, 'u) tree"
  assumes laws: "dom_laws ops" "multi_laws ops"
  shows "state_ok ops draw n t k \<Longrightarrow> k \<le> n \<Longrightarrow> insts ops t i = Some x \<Longrightarrow> length paired = length children \<Longrightarrow>
    mset (in_children x) = mset (somes paired) + mset rest \<Longrightarrow>
    \<exists>paired' ch' t' cs. pair_renamed ops children rest paired ch t = Some (paired', ch', t') \<and> length paired' = length children \<and>
      effect ops draw n (below (insts ops t) i) t k t' k \<and> told ops t t' ch' \<and> ch_le ch ch' \<and>
      insts ops t' i = Some (x\<lparr>in_children := cs\<rparr>) \<and> t_id_to_meta t' i = t_id_to_meta t i \<and> mset cs = mset (somes paired')"
proof (induction rest arbitrary: paired ch t x)
  case Nil
  have "effect ops draw n (below (insts ops t) i) t k t k" by (rule effect_refl_below [OF Nil.prems(1,2)])
  then show ?case using Nil.prems told_refl by (fastforce intro: exI [of _ "in_children x"])
next
  case (Cons c rest)
  have c: "c \<in> set (in_children x)" using Cons.prems(5) by (metis in_multiset_in_set list.set_intros(1) union_iff)
  obtain y where y: "insts ops t c = Some y" "in_parent y = i" by (rule child_alive [OF Cons.prems(1,3) c])
  show ?case
  proof (cases "pair_child children paired (in_name y) None")
    case (Some j)
    have j: "j < length paired" "paired ! j = None" using pair_child_Some [OF Some] Cons.prems(4) by auto
    have run: "pair_renamed ops children (c # rest) paired ch t = pair_renamed ops children rest (paired[j := Some c]) ch t"
      using y Some by (simp add: get_instance_def)
    have "mset (in_children x) = mset (somes (paired[j := Some c])) + mset rest" using Cons.prems(5) somes_update [OF j, of c] by simp
    from Cons.IH [OF Cons.prems(1-3) _ this, of ch] show ?thesis unfolding run using Cons.prems(4) by simp
  next
    case None
    obtain t1 where t1: "remove_instance ops c t = Some (Some t1)" "effect ops draw n (below (insts ops t) i) t k t1 k"
      "told ops t t1 (changes_remove c ch)" "t_id_to_meta t1 i = t_id_to_meta t i"
      "insts ops t1 i = Some (x\<lparr>in_children := filter (\<lambda>j. j \<noteq> c) (in_children x)\<rparr>)"
      "\<forall>j\<in>set (in_children x). j \<noteq> c \<longrightarrow> insts ops t1 j = insts ops t j"
      by (rule remove_step [OF laws Cons.prems(1-3) c])
    let ?x = "x\<lparr>in_children := filter (\<lambda>j. j \<noteq> c) (in_children x)\<rparr>"
    have run: "pair_renamed ops children (c # rest) paired ch t = pair_renamed ops children rest paired (changes_remove c ch) t1"
      using y None t1(1) by (simp add: get_instance_def)
    have "mset (in_children ?x) = mset (somes paired) + mset rest"
      using mset_drop_one [OF children_distinct [OF Cons.prems(1,3)] c] Cons.prems(5) by (simp del: mset_filter)
    from Cons.IH [OF effectD(3) [OF t1(2)] Cons.prems(2) t1(5) Cons.prems(4) this, of "changes_remove c ch"]
    obtain paired' ch' t' cs where rest: "pair_renamed ops children rest paired (changes_remove c ch) t1 = Some (paired', ch', t')" "length paired' = length children"
      and e2: "effect ops draw n (below (insts ops t1) i) t1 k t' k" and told2: "told ops t1 t' ch'" and le: "ch_le (changes_remove c ch) ch'"
      and fin: "insts ops t' i = Some (?x\<lparr>in_children := cs\<rparr>)" "t_id_to_meta t' i = t_id_to_meta t1 i" "mset cs = mset (somes paired')"
      by blast
    have "below (insts ops t1) i \<subseteq> below (insts ops t) i \<union> draw ` {k..<k}" using effectD(7) [OF t1(2)] by (intro below_closed) auto
    then have e: "effect ops draw n (below (insts ops t) i) t k t' k" by (rule effect_trans [OF t1(2) e2])
    have "told ops t t' ch'" by (rule told_trans [OF t1(2) Cons.prems(1) e2 told_mono [OF t1(3) le] told2])
    moreover have "ch_le ch ch'" using ch_le_trans [OF _ le] by (simp add: ch_le_def changes_remove_def)
    ultimately show ?thesis unfolding run using rest e fin t1(4) by auto
  qed
qed


section \<open>The whole read\<close>

definition read_ok ::
  "('d, 'm, 'v) tree_ops \<Rightarrow> (nat \<Rightarrow> dref) \<Rightarrow> nat \<Rightarrow> dref \<Rightarrow> ('u, 'v) snapshot \<Rightarrow> ('d, 'm, 'u, 'v) read_state \<Rightarrow> ('d, 'm, 'u, 'v) read_state \<Rightarrow> bool" where
  "read_ok ops draw n i s = (\<lambda>(ch, t, k) (ch', t', k').
     effect ops draw n (below (insts ops t) i) t k t' k' \<and> k' \<le> k + snap_count s \<and> told ops t t' ch' \<and> ch_le ch ch' \<and>
     mirrors (insts ops t') (t_id_to_meta t') i s)"

abbreviation read_children ::
  "('d, 'm, 'v) tree_ops \<Rightarrow> (nat \<Rightarrow> dref) \<Rightarrow> dref \<Rightarrow> (('u, 'v) snapshot \<times> dref option) list \<Rightarrow> ('d, 'm, 'u, 'v) read_state option \<Rightarrow> ('d, 'm, 'u, 'v) read_state option" where
  "read_children ops draw i pairs st \<equiv> fold (\<lambda>(child, p) st. case st of
        None \<Rightarrow> None
      | Some (ch, t, k) \<Rightarrow>
          let child_id = (case p of Some j \<Rightarrow> j | None \<Rightarrow> sn_id child)
          in if child_id \<noteq> ref_none then process_child_changes ops draw child_id child (ch, t, k)
             else map_option (\<lambda>(c, t, k). (changes_add c i ch, t, k)) (insert_children ops draw child i (t, k))) pairs st"

text \<open>The state between two children: those done are mirrored, those to come are still children.\<close>

definition mid_read ::
  "('d, 'm, 'v) tree_ops \<Rightarrow> dref \<Rightarrow> 'v inst \<Rightarrow> 'u meta option \<Rightarrow> ('u, 'v) snapshot list \<Rightarrow> dref option list \<Rightarrow> ('d, 'm, 'u) tree \<Rightarrow> bool" where
  "mid_read ops i x me finished pending t \<longleftrightarrow>
     (\<exists>cs ids. insts ops t i = Some (x\<lparr>in_children := cs\<rparr>) \<and> t_id_to_meta t i = me \<and> mset cs = mset ids + mset (somes pending) \<and>
        list_all2 (mirrors (insts ops t) (t_id_to_meta t)) ids finished)"

lemma child_read:
  assumes ok: "state_ok ops draw n t k" and mid: "mid_read ops i x me finished (Some j # pending) t"
    and sub: "effect ops draw n (below (insts ops t) j) t k t' k'" and mirror: "mirrors (insts ops t') (t_id_to_meta t') j child"
  shows "mid_read ops i x me (finished @ [child]) pending t' \<and> effect ops draw n (below (insts ops t) i) t k t' k'"
proof -
  obtain cs ids where i: "insts ops t i = Some (x\<lparr>in_children := cs\<rparr>)" "t_id_to_meta t i = me" "mset cs = mset ids + mset (j # somes pending)"
    and mirrored: "list_all2 (mirrors (insts ops t) (t_id_to_meta t)) ids finished"
    using mid by (auto simp: mid_read_def)
  let ?y = "x\<lparr>in_children := cs\<rparr>"
  have kid: "a \<in> set (in_children ?y)" if "a \<in> set ids \<or> a = j" for a
    using i(3) that by (metis in_multiset_in_set inst.select_convs(5) inst.surjective inst.update_convs(5) list.set_intros(1) union_iff)
  have "distinct cs" using children_distinct [OF ok i(1)] by simp
  moreover have "mset cs = mset (ids @ j # somes pending)" using i(3) by simp
  ultimately have "distinct (ids @ j # somes pending)" using mset_eq_imp_distinct_iff by blast
  then have ne: "a \<noteq> j" if "a \<in> set ids" for a using that by auto
  have i_off: "i \<notin> below (insts ops t) j" by (rule not_below_child [OF ok i(1) kid]) simp
  have i_old: "i \<notin> draw ` {k..<k'}" using drawn_new(1) [OF ok effectD(2) [OF sub], of i] i(1) by auto
  have same: "insts ops t' i = insts ops t i" "t_id_to_meta t' i = t_id_to_meta t i"
    using effectD(5,6) [OF sub i_off i_old] by simp_all
  have "list_all2 (mirrors (insts ops t') (t_id_to_meta t')) ids finished"
  proof (rule list_all2_mono' [OF mirrored])
    fix a s assume a: "a \<in> set ids" and m: "mirrors (insts ops t) (t_id_to_meta t) a s"
    have "below (insts ops t) a \<inter> below (insts ops t) j = {}"
      by (rule siblings_apart [OF ok i(1) kid kid ne]) (use a in simp_all)
    then show "mirrors (insts ops t') (t_id_to_meta t') a s" by (rule mirrors_kept [OF sub ok m])
  qed
  then have "list_all2 (mirrors (insts ops t') (t_id_to_meta t')) (ids @ [j]) (finished @ [child])" using mirror by (simp add: list_all2_appendI)
  moreover have "mset cs = mset (ids @ [j]) + mset (somes pending)" using i(3) by simp
  ultimately have mid': "mid_read ops i x me (finished @ [child]) pending t'" unfolding mid_read_def using same i(1,2) by metis
  have "below (insts ops t) j \<subseteq> below (insts ops t) i \<union> draw ` {k..<k}" using below_kid [where m = "insts ops t" and i = i, OF i(1) kid] by auto
  moreover have "effect ops draw n (below (insts ops t) i) t k t k"
    using effect_refl_below [OF ok] effectD(1,2) [OF sub] by simp
  ultimately have "effect ops draw n (below (insts ops t) i) t k t' k'" using effect_trans sub by blast
  then show ?thesis using mid' by blast
qed

lemma child_inserted:
  assumes ok: "state_ok ops draw n t k" and mid: "mid_read ops i x me finished (None # pending) t"
    and ins: "inserted ops draw n i child t k c t' k'"
  shows "mid_read ops i x me (finished @ [child]) pending t' \<and> told ops t t' (changes_add c i ch)"
proof -
  obtain cs ids where i: "insts ops t i = Some (x\<lparr>in_children := cs\<rparr>)" "t_id_to_meta t i = me" "mset cs = mset ids + mset (somes pending)"
    and mirrored: "list_all2 (mirrors (insts ops t) (t_id_to_meta t)) ids finished"
    using mid by (auto simp: mid_read_def)
  have e: "effect ops draw n (below (insts ops t) i) t k t' k'"
    and i': "insts ops t' i = map_option (\<lambda>x. x\<lparr>in_children := in_children x @ [draw k]\<rparr>) (insts ops t i)"
    and keep: "\<forall>j. j \<noteq> i \<and> j \<notin> draw ` {k..<k'} \<longrightarrow> insts ops t' j = insts ops t j" "\<forall>j. j \<notin> draw ` {k..<k'} \<longrightarrow> t_id_to_meta t' j = t_id_to_meta t j"
    and new: "mirrors (insts ops t') (t_id_to_meta t') (draw k) child" "snap_ids c = draw ` {k..<k'}"
    using ins unfolding inserted_def by argo+
  have old: "j \<notin> draw ` {k..<k'}" if "insts ops t j \<noteq> None" for j
    using drawn_new(1) [OF ok effectD(2) [OF e], of j] that by argo
  have "list_all2 (mirrors (insts ops t') (t_id_to_meta t')) ids finished"
  proof (rule list_all2_mono' [OF mirrored])
    fix a s assume a: "a \<in> set ids" and m: "mirrors (insts ops t) (t_id_to_meta t) a s"
    have kid: "a \<in> set (in_children (x\<lparr>in_children := cs\<rparr>))" using a i(3) by (metis in_multiset_in_set inst.select_convs(5) inst.surjective inst.update_convs(5) union_iff)
    have "insts ops t a \<noteq> None" by (rule child_alive [OF ok i(1) kid]) simp
    show "mirrors (insts ops t') (t_id_to_meta t') a s"
    proof (rule mirrors_frame [OF m], intro ballI)
      fix b assume b: "b \<in> below (insts ops t) a"
      have "b \<noteq> i" using not_below_child [OF ok i(1) kid] b by blast
      moreover have "b \<notin> draw ` {k..<k'}" by (rule old [OF below_alive [OF ok \<open>insts ops t a \<noteq> None\<close> b]])
      ultimately show "insts ops t' b = insts ops t b \<and> t_id_to_meta t' b = t_id_to_meta t b" using keep by blast
    qed
  qed
  then have "list_all2 (mirrors (insts ops t') (t_id_to_meta t')) (ids @ [draw k]) (finished @ [child])" using new(1) by (simp add: list_all2_appendI)
  moreover have "insts ops t' i = Some (x\<lparr>in_children := cs @ [draw k]\<rparr>)" "t_id_to_meta t' i = me" using i i' keep old [of i] by auto
  moreover have "mset (cs @ [draw k]) = mset (ids @ [draw k]) + mset (somes pending)" using i(3) by simp
  ultimately have "mid_read ops i x me (finished @ [child]) pending t'" unfolding mid_read_def by metis
  moreover have "told ops t t' (changes_add c i ch)"
    unfolding told_def
  proof (intro conjI allI impI)
    fix j y y' assume j: "insts ops t j = Some y \<and> insts ops t' j = Some y'"
    then have content: "in_name y' = in_name y" "in_class y' = in_class y" "in_properties y' = in_properties y" "t_id_to_meta t' j = t_id_to_meta t j"
      using i' keep old [of j] by (cases "j = i"; auto)+
    show "\<exists>u\<in>set (updates (changes_add c i ch)). us_id u = j \<and> us_name u = Some (in_name y')" if "in_name y' \<noteq> in_name y" using that content by simp
    show "\<exists>u\<in>set (updates (changes_add c i ch)). us_id u = j \<and> us_class u = Some (in_class y')" if "in_class y' \<noteq> in_class y" using that content by simp
    show "\<exists>u\<in>set (updates (changes_add c i ch)). us_id u = j \<and> (\<exists>ps. us_properties u = Some ps \<and> map_of ps = map_of (in_properties y'))"
      if "map_of (in_properties y') \<noteq> map_of (in_properties y)" using that content by simp
    show "\<exists>u\<in>set (updates (changes_add c i ch)). us_id u = j \<and> us_meta u = t_id_to_meta t' j" if "t_id_to_meta t' j \<noteq> t_id_to_meta t j"
      using that content by simp
  next
    fix j assume j: "insts ops t j \<noteq> None \<and> insts ops t' j = None"
    then show "\<exists>r\<in>set (removals (changes_add c i ch)). j \<in> below (insts ops t) r" using i' keep(1) old [of j] by (cases "j = i") auto
  next
    fix j assume "insts ops t j = None \<and> insts ops t' j \<noteq> None"
    then have "j \<in> snap_ids c" using effectD(10) [OF e, of j] new(2) by blast
    then show "\<exists>a\<in>set (additions (changes_add c i ch)). j \<in> snap_ids (from_added a)" by (simp add: changes_add_def)
  qed
  ultimately show ?thesis ..
qed


lemma read_children_step:
  assumes laws: "dom_laws ops" "multi_laws ops"
    and ih: "\<And>child j ch t k. child \<in> fst ` set pairs \<Longrightarrow> state_ok ops draw n t k \<Longrightarrow> insts ops t j \<noteq> None \<Longrightarrow> k + snap_count child \<le> n \<Longrightarrow>
      \<exists>st. process_child_changes ops draw j child (ch, t, k) = Some st \<and> read_ok ops draw n j child (ch, t, k) st"
    and fresh: "\<forall>child\<in>fst ` set pairs. fresh_snapshot child"
    and ok: "state_ok ops draw n t k" "k + (\<Sum>pr\<leftarrow>pairs. snap_count (fst pr)) \<le> n" and mid: "mid_read ops i x me finished (map snd pairs) t"
  shows "\<exists>ch' t' k'. read_children ops draw i pairs (Some (ch, t, k)) = Some (ch', t', k') \<and>
    effect ops draw n (below (insts ops t) i) t k t' k' \<and> k' \<le> k + (\<Sum>pr\<leftarrow>pairs. snap_count (fst pr)) \<and>
    told ops t t' ch' \<and> ch_le ch ch' \<and> mid_read ops i x me (finished @ map fst pairs) [] t'"
  using ih fresh ok mid
proof (induction pairs arbitrary: ch t k finished)
  case Nil
  have "effect ops draw n (below (insts ops t) i) t k t k"
    using effect_refl_below [OF Nil.prems(3)] Nil.prems(4) by simp
  then show ?case using Nil.prems(5) told_refl by auto
next
  case (Cons pr pairs)
  obtain child p where pr: "pr = (child, p)" by (cases pr) auto
  have child: "fresh_snapshot child" "sn_id child = ref_none" using Cons.prems(2) pr by (cases child, auto)+
  have count: "k + snap_count child + (\<Sum>pr\<leftarrow>pairs. snap_count (fst pr)) \<le> n" using Cons.prems(4) pr by simp
  obtain cs where i: "insts ops t i = Some (x\<lparr>in_children := cs\<rparr>)" using Cons.prems(5) by (auto simp: mid_read_def)
  have member: "child \<in> fst ` set (pr # pairs)" and small: "k + snap_count child \<le> n" using count by (simp_all add: pr)
  obtain ch1 t1 k1 where step: "read_children ops draw i [pr] (Some (ch, t, k)) = Some (ch1, t1, k1)"
    and e1: "effect ops draw n (below (insts ops t) i) t k t1 k1" and k1: "k1 \<le> k + snap_count child" and told1: "told ops t t1 ch1" and le1: "ch_le ch ch1"
    and mid1: "mid_read ops i x me (finished @ [child]) (map snd pairs) t1"
  proof (cases p)
    case (Some j)
    have mid: "mid_read ops i x me finished (Some j # map snd pairs) t" using Cons.prems(5) pr Some by simp
    then obtain ds ids where ds: "insts ops t i = Some (x\<lparr>in_children := ds\<rparr>)" "mset ds = mset ids + mset (somes (Some j # map snd pairs))"
      unfolding mid_read_def by blast
    have "j \<in># mset ds" unfolding ds(2) by simp
    moreover have "ds = cs" using ds(1) i by (metis inst.select_convs(5) inst.surjective inst.update_convs(5) option.inject)
    ultimately have "j \<in> set (in_children (x\<lparr>in_children := cs\<rparr>))" by simp
    then obtain y where y: "insts ops t j = Some y" by (rule child_alive [OF Cons.prems(3) i])
    then have "j \<noteq> ref_none" using state_ok_wf [OF Cons.prems(3)] by (auto simp: dom_wf_def)
    obtain ch1 t1 k1 where run: "process_child_changes ops draw j child (ch, t, k) = Some (ch1, t1, k1)"
      and r: "read_ok ops draw n j child (ch, t, k) (ch1, t1, k1)"
      using Cons.prems(1) [OF member Cons.prems(3) _ small, of j ch] y by auto
    have sub: "effect ops draw n (below (insts ops t) j) t k t1 k1" "mirrors (insts ops t1) (t_id_to_meta t1) j child"
      using r by (simp_all add: read_ok_def)
    from child_read [OF Cons.prems(3) mid sub] show ?thesis
      using that [of ch1 t1 k1] run r pr Some \<open>j \<noteq> ref_none\<close> by (simp add: read_ok_def Let_def)
  next
    case None
    have mid: "mid_read ops i x me finished (None # map snd pairs) t" using Cons.prems(5) pr None by simp
    obtain c t1 k1 where run: "insert_children ops draw child i (t, k) = Some (c, t1, k1)" and ins: "inserted ops draw n i child t k c t1 k1"
      using insert_children_result [OF laws Cons.prems(3), of i child] i count child by auto
    have "effect ops draw n (below (insts ops t) i) t k t1 k1" "k1 = k + snap_count child" using ins unfolding inserted_def by argo+
    then show ?thesis
      using that [of "changes_add c i ch" t1 k1] child_inserted [OF Cons.prems(3) mid ins, of ch] run pr None child(2)
      by (simp add: Let_def ch_le_def changes_add_def)
  qed
  have "k1 + (\<Sum>pr\<leftarrow>pairs. snap_count (fst pr)) \<le> n" using count k1 by simp
  then obtain ch' t' k' where rest: "read_children ops draw i pairs (Some (ch1, t1, k1)) = Some (ch', t', k')"
    and e2: "effect ops draw n (below (insts ops t1) i) t1 k1 t' k'" and k': "k' \<le> k1 + (\<Sum>pr\<leftarrow>pairs. snap_count (fst pr))"
    and told2: "told ops t1 t' ch'" and le2: "ch_le ch1 ch'" and mid2: "mid_read ops i x me ((finished @ [child]) @ map fst pairs) [] t'"
    using Cons.IH [OF _ _ effectD(3) [OF e1] _ mid1, of ch1] Cons.prems(1,2) by auto
  have "below (insts ops t1) i \<subseteq> below (insts ops t) i \<union> draw ` {k..<k1}" using effectD(7) [OF e1] by (intro below_closed) auto
  then have e: "effect ops draw n (below (insts ops t) i) t k t' k'" by (rule effect_trans [OF e1 e2])
  have "told ops t t' ch'" by (rule told_trans [OF e1 Cons.prems(3) e2 told_mono [OF told1 le2] told2])
  moreover have "read_children ops draw i (pr # pairs) (Some (ch, t, k)) = Some (ch', t', k')" using step rest by simp
  ultimately show ?case using e k1 k' ch_le_trans [OF le1 le2] mid2 pr by auto
qed


lemma process_child_changes_ok:
  fixes ops :: "('d, 'm, 'v) tree_ops" and t :: "('d, 'm, 'u) tree"
  assumes laws: "dom_laws ops" "multi_laws ops"
  shows "state_ok ops draw n t k \<Longrightarrow> insts ops t i \<noteq> None \<Longrightarrow> k + snap_count s \<le> n \<Longrightarrow> fresh_snapshot s \<Longrightarrow>
    \<exists>st. process_child_changes ops draw i s (ch, t, k) = Some st \<and> read_ok ops draw n i s (ch, t, k) st"
proof (induction s arbitrary: i ch t k)
  case (Snapshot sid me name cls ps children)
  let ?s = "Snapshot sid me name cls ps children"
  obtain x where x: "insts ops t i = Some x" using Snapshot.prems(2) by blast
  have kn: "k \<le> n" using Snapshot.prems(3) by simp
  obtain ch1 t1 x1 where fields: "process_fields ops i ?s ch t = Some (ch1, t1)"
    and e1: "effect ops draw n (below (insts ops t) i) t k t1 k" and told1: "told ops t t1 ch1" and le1: "ch_le ch ch1"
    and x1: "insts ops t1 i = Some x1" "in_name x1 = name" "in_class x1 = cls" "map_of (in_properties x1) = map_of ps"
      "in_children x1 = in_children x" "t_id_to_meta t1 i = Some me"
    by (rule fields_step [OF laws Snapshot.prems(1) kn x])
  have ok1: "state_ok ops draw n t1 k" by (rule effectD(3) [OF e1])
  have kids: "kids (insts ops t1) i = in_children x1" using x1(1) by (simp add: kids_def)
  have "\<forall>j\<in>set (kids (insts ops t1) i). insts ops t1 j \<noteq> None"
  proof
    fix j assume "j \<in> set (kids (insts ops t1) i)"
    then have "j \<in> set (in_children x1)" by (simp only: kids)
    then show "insts ops t1 j \<noteq> None" by (rule child_alive [OF ok1 x1(1)]) simp
  qed
  then obtain paired unpaired where exact: "pair_exact (insts ops t1) children (kids (insts ops t1) i) (replicate (length children) None) [] = Some (paired, unpaired)"
    "length paired = length children" "mset (somes paired) + mset unpaired = mset (in_children x1)"
    using pair_exact_result [of "kids (insts ops t1) i" "insts ops t1" "replicate (length children) None" children "[]"] kids
    by (auto simp: somes_replicate)
  obtain paired' ch2 t2 cs where renamed: "pair_renamed ops children unpaired paired ch1 t1 = Some (paired', ch2, t2)" "length paired' = length children"
    and e2: "effect ops draw n (below (insts ops t1) i) t1 k t2 k" and told2: "told ops t1 t2 ch2" and le2: "ch_le ch1 ch2"
    and x2: "insts ops t2 i = Some (x1\<lparr>in_children := cs\<rparr>)" "t_id_to_meta t2 i = t_id_to_meta t1 i" "mset cs = mset (somes paired')"
    using pair_renamed_result [OF laws ok1 kn x1(1) exact(2) exact(3) [symmetric], of ch1] by blast
  have pairs: "map fst (zip children paired') = children" "map snd (zip children paired') = paired'" using renamed(2) by simp_all
  have "\<exists>ch3 t3 k3. read_children ops draw i (zip children paired') (Some (ch2, t2, k)) = Some (ch3, t3, k3) \<and>
    effect ops draw n (below (insts ops t2) i) t2 k t3 k3 \<and> k3 \<le> k + (\<Sum>pr\<leftarrow>zip children paired'. snap_count (fst pr)) \<and>
    told ops t2 t3 ch3 \<and> ch_le ch2 ch3 \<and> mid_read ops i x1 (Some me) ([] @ map fst (zip children paired')) [] t3"
  proof (rule read_children_step [OF laws])
    show "\<exists>st. process_child_changes ops draw j child (ch, t, k) = Some st \<and> read_ok ops draw n j child (ch, t, k) st"
      if c: "child \<in> fst ` set (zip children paired')" and rest: "state_ok ops draw n t k" "insts ops t j \<noteq> None" "k + snap_count child \<le> n" for child j ch t k
    proof -
      have "child \<in> set children" using c by (auto dest: set_zip_leftD)
      then show ?thesis using Snapshot.IH [of child t k j ch] rest Snapshot.prems(4) by auto
    qed
    show "\<forall>child\<in>fst ` set (zip children paired'). fresh_snapshot child" using Snapshot.prems(4) by (auto dest: set_zip_leftD)
    show "state_ok ops draw n t2 k" by (rule effectD(3) [OF e2])
    have "(\<Sum>pr\<leftarrow>zip children paired'. snap_count (fst pr)) = sum_list (map snap_count (map fst (zip children paired')))" by (simp add: comp_def)
    then show "k + (\<Sum>pr\<leftarrow>zip children paired'. snap_count (fst pr)) \<le> n" using Snapshot.prems(3) unfolding pairs by simp
    show "mid_read ops i x1 (Some me) [] (map snd (zip children paired')) t2"
      unfolding pairs mid_read_def using x2 x1(6) by (intro exI [of _ cs] exI [of _ "[]"]) simp
  qed
  then obtain ch3 t3 k3 where folded: "read_children ops draw i (zip children paired') (Some (ch2, t2, k)) = Some (ch3, t3, k3)"
    and e3: "effect ops draw n (below (insts ops t2) i) t2 k t3 k3" and k3: "k3 \<le> k + (\<Sum>pr\<leftarrow>zip children paired'. snap_count (fst pr))"
    and told3: "told ops t2 t3 ch3" and le3: "ch_le ch2 ch3" and mid3: "mid_read ops i x1 (Some me) children [] t3"
    unfolding pairs append_Nil by blast
  have get: "get_instance ops t1 = insts ops t1" by (simp add: fun_eq_iff get_instance_def)
  have run: "process_child_changes ops draw i ?s (ch, t, k) = Some (ch3, t3, k3)"
    unfolding process_child_changes.simps fields option.case prod.case get exact(1) renamed(1) by (rule folded)
  have "below (insts ops t1) i \<subseteq> below (insts ops t) i \<union> draw ` {k..<k}" using effectD(7) [OF e1] by (intro below_closed) auto
  then have e12: "effect ops draw n (below (insts ops t) i) t k t2 k" by (rule effect_trans [OF e1 e2])
  have "below (insts ops t2) i \<subseteq> below (insts ops t) i \<union> draw ` {k..<k}" using effectD(7) [OF e12] by (intro below_closed) auto
  then have e: "effect ops draw n (below (insts ops t) i) t k t3 k3" by (rule effect_trans [OF e12 e3])
  have "told ops t t2 ch3" by (rule told_trans [OF e1 Snapshot.prems(1) e2 told_mono [OF told1 ch_le_trans [OF le2 le3]] told_mono [OF told2 le3]])
  then have "told ops t t3 ch3" by (rule told_trans [OF e12 Snapshot.prems(1) e3 _ told3])
  moreover have "mirrors (insts ops t3) (t_id_to_meta t3) i ?s"
  proof -
    obtain ds ids where m: "insts ops t3 i = Some (x1\<lparr>in_children := ds\<rparr>)" "t_id_to_meta t3 i = Some me" "mset ds = mset ids"
      "list_all2 (mirrors (insts ops t3) (t_id_to_meta t3)) ids children" using mid3 by (auto simp: mid_read_def)
    show ?thesis by (rule mirrors.Mirror [OF m(1) _ _ _ m(2) _ m(4)]) (simp_all add: x1 m(3))
  qed
  moreover have "k3 \<le> k + snap_count ?s"
  proof -
    have "(\<Sum>pr\<leftarrow>zip children paired'. snap_count (fst pr)) = sum_list (map snap_count (map fst (zip children paired')))" by (simp add: comp_def)
    then show ?thesis using k3 unfolding pairs by simp
  qed
  ultimately show ?case using run e ch_le_trans [OF ch_le_trans [OF le1 le2] le3] by (auto simp: read_ok_def)
qed


section \<open>Reading an instance again\<close>

text \<open>
  Re-reading an instance whose path source could be read always returns. Afterwards the
  tree mirrors what was read from that instance down (names, classes, properties, metadata and
  children), every instance outside that subtree is untouched, the tree is well formed, and the
  change set sent to Studio accounts for every difference: each changed field of a surviving
  instance is in an update, each instance that is gone is at or below a removal, and each new one
  is in an addition.
\<close>

theorem read_mirrors_disk:
  fixes ops :: "('d, 'm, 'v) tree_ops" and t :: "('d, 'm, 'u) tree"
  assumes laws: "dom_laws ops" "multi_laws ops" and t: "tree_ok ops t" "metas_full ops t" "exists_inst ops t i"
    and mt: "get_meta t i = Some mt" "src_inner (mt_source mt) = SPath p"
    and s: "rd_snapshot rd p (mt_context mt) = Inr (Some s)" "fresh_snapshot s"
    and draw: "fresh_between ops draw k (k + snap_count s) t"
  shows "\<exists>ch t' k'. process_changes rd ops draw i (t, k) = Some (Some ch, t', k') \<and> tree_ok ops t' \<and>
    mirrors (insts ops t') (t_id_to_meta t') i s \<and> told ops t t' ch \<and>
    (\<forall>j. exists_inst ops t j \<and> j \<notin> below (insts ops t) i \<longrightarrow> insts ops t' j = insts ops t j \<and> get_meta t' j = get_meta t j)"
proof -
  have ok: "state_ok ops draw (k + snap_count s) t k" using t draw by (simp add: state_ok_def)
  obtain ch t' k' where run: "process_child_changes ops draw i s (changes_new, t, k) = Some (ch, t', k')"
    and e: "effect ops draw (k + snap_count s) (below (insts ops t) i) t k t' k'"
    and rest: "told ops t t' ch" "mirrors (insts ops t') (t_id_to_meta t') i s"
    using process_child_changes_ok [OF laws ok _ _ s(2), of i changes_new] t(3) by (auto simp: read_ok_def exists_inst_def)
  have "j \<notin> draw ` {k..<k'}" if "exists_inst ops t j" for j
    using draw that effectD(2) [OF e] by (auto simp: fresh_between_def)
  then have "\<forall>j. exists_inst ops t j \<and> j \<notin> below (insts ops t) i \<longrightarrow> insts ops t' j = insts ops t j \<and> get_meta t' j = get_meta t j"
    using effectD(5,6) [OF e] by (auto simp: get_meta_def)
  moreover have "process_changes rd ops draw i (t, k) = Some (Some ch, t', k')"
    by (simp add: process_changes_def mt s(1) run)
  ultimately show ?thesis using rest effectD(3) [OF e] by (auto simp: state_ok_def)
qed

text \<open>The disk has gained a property and a module below \<open>B\<close>.\<close>

definition example_reread :: "(unit, bool) snapshot" where
  "example_reread = Snapshot 0 (example_meta [''a'', ''b'']) ''B'' ''ModuleScript'' [(''Source'', VString ''return 1'')]
     [Snapshot 0 (example_meta [''a'', ''b'', ''c'']) ''C'' ''ModuleScript'' [] []]"

definition example_reader :: "(unit, bool) reader" where
  "example_reader = \<lparr>rd_snapshot = \<lambda>p cx. Inr (if p = [''a'', ''b''] then Some example_reread else None), rd_node = \<lambda>_ _ _ _ _. Inl (),
     rd_dir = \<lambda>_. None, rd_is_dir = \<lambda>_. False, rd_matches = \<lambda>_ _. False\<rparr>"

lemma example_tree_metas: "metas_full example_ops example_tree" "get_meta example_tree 2 = Some (example_meta [''a'', ''b''])"
  "\<And>j. exists_inst example_ops example_tree j \<longleftrightarrow> j = 1 \<or> j = 2"
  by (auto simp: metas_full_def example_tree_def tree_new_def example_snapshot_def example_draw_def insert_at_def insert_meta_def
      get_meta_def exists_inst_def example_ops_def bump_def root_ref_def Let_def numeral_2_eq_2 split: if_splits)

lemma example_fresh: "fresh_between example_ops example_draw 2 (2 + snap_count example_reread) example_tree"
proof -
  have "{2..<2 + snap_count example_reread} = {2, 3}" by (auto simp: example_reread_def)
  then show ?thesis by (simp add: fresh_between_def example_tree_metas(3) example_draw_def inj_on_def)
qed

theorem read_mirrors_disk_witness:
  "\<exists>ch t' k'. process_changes example_reader example_ops example_draw 2 (example_tree, 2) = Some (Some ch, t', k') \<and>
    mirrors (insts example_ops t') (t_id_to_meta t') 2 example_reread \<and> told example_ops example_tree t' ch"
proof -
  have "src_inner (mt_source (example_meta [''a'', ''b''])) = SPath [''a'', ''b'']"
    by (simp add: example_meta_def source_file_def)
  moreover have "rd_snapshot example_reader [''a'', ''b''] (mt_context (example_meta [''a'', ''b''])) = Inr (Some example_reread)"
    by (simp add: example_reader_def)
  moreover have "fresh_snapshot example_reread" by (simp add: example_reread_def example_meta_def meta_new_def)
  ultimately show ?thesis
    using read_mirrors_disk [OF example_ops_laws example_tree_ok(1) example_tree_metas(1) example_tree_exists example_tree_metas(2)] example_fresh by blast
qed

end
