(* ===== verification/Formats.thy ===== *)
theory Formats
  imports Snapshot Reshape
begin

text \<open>
  What the write path does to single files: the script, text, table and data middlewares
  (\<^verbatim>\<open>src/middleware/mod.rs\<close>, \<^verbatim>\<open>luau.rs\<close>, \<^verbatim>\<open>txt.rs\<close>, \<^verbatim>\<open>csv.rs\<close>, \<^verbatim>\<open>data.rs\<close>, \<^verbatim>\<open>dir.rs\<close>), the name and
  path checks of \<^verbatim>\<open>src/core/helpers/syncback.rs\<close>, and \<open>SyncRule::locate\<close>.

  The packages (\<open>serde_json\<close>, \<open>csv\<close>, \<open>glob\<close>, \<open>path_clean\<close>, the enum variants of \<open>rbx_types\<close>), the
  configuration and the conversion of property values are fields of an environment. A name is the bytes
  of its UTF-8 text; the checks are those of a target that is not Windows.
\<close>

section \<open>Results\<close>

datatype write_error =
    WReshape reshape_error
  | WNoFilePath path
  | WNoDataPath path
  | WNoRule path
  | WTooDeep string
  | WNoNode nodepath
  | WNotJson path
  | WBadContents

text \<open>A write returns, fails, panics, or is cut off by the daemon's death.\<close>

datatype 'a wres = WOk 'a | WErr write_error | WPanic | WCut

definition wbind :: "'a wres \<times> 's \<Rightarrow> ('a \<Rightarrow> 's \<Rightarrow> 'b wres \<times> 's) \<Rightarrow> 'b wres \<times> 's" where
  "wbind r f = (case r of (WOk x, s) \<Rightarrow> f x s | (WErr e, s) \<Rightarrow> (WErr e, s) | (WPanic, s) \<Rightarrow> (WPanic, s) | (WCut, s) \<Rightarrow> (WCut, s))"

definition io :: "'a outcome \<times> disk \<Rightarrow> 'a wres \<times> disk" where
  "io r = (case r of (Done x, d) \<Rightarrow> (WOk x, d) | (Bailed e, d) \<Rightarrow> (WErr (WReshape e), d) | (Died, d) \<Rightarrow> (WCut, d))"

section \<open>Environment\<close>

record 'u data_file =
  df_class_name :: "string option"
  df_properties :: "(string \<times> 'u) list"
  df_attributes :: "'u option"
  df_tags :: "string list"
  df_keep_unknowns :: "bool option"
  df_original_name :: "string option"

record 'u writable_data =
  wd_class_name :: "string option"
  wd_properties :: "(string \<times> 'u) list"
  wd_keep_unknowns :: "bool option"
  wd_original_name :: "string option"

record localization_entry =
  le_key :: "string option"
  le_context :: "string option"
  le_example :: "string option"
  le_source :: "string option"
  le_values :: "(string \<times> string) list"

record ('u, 'v) write_env =
  we_crash :: crash
  we_rename_instances :: bool
  we_keep_duplicates :: bool
  we_rojo_mode :: bool
  we_lua_extension :: bool
  we_uuid :: "nat \<Rightarrow> string"
  we_stack :: "nat \<Rightarrow> nat"
  we_valid :: "glob \<Rightarrow> bool"
  we_matches :: "glob \<Rightarrow> path \<Rightarrow> bool"
  we_clean :: "path \<Rightarrow> path"
  we_enum :: "'v variant \<Rightarrow> u32 option"
  we_of_enum :: "u32 \<Rightarrow> 'v variant"
  we_unresolved :: "'v variant \<Rightarrow> string \<Rightarrow> string \<Rightarrow> 'u"
  we_data_text :: "'u writable_data \<Rightarrow> string"
  we_data_parse :: "string \<Rightarrow> 'u data_file option"
  we_table_text :: "localization_entry list \<Rightarrow> string"
  we_table_parse :: "string \<Rightarrow> localization_entry list option"
  we_csv_text :: "string list list \<Rightarrow> string"
  we_csv_rows :: "string \<Rightarrow> string list list option"
  we_manifest_text :: "manifest \<Rightarrow> string"
  we_manifest_parse :: "string \<Rightarrow> manifest option"
  we_project_text :: "'u project \<Rightarrow> string"
  we_project_parse :: "string \<Rightarrow> 'u project option"

section \<open>Paths\<close>

text \<open>\<open>Path::join\<close> of text: an absolute text replaces the path, \<open>.\<close> adds nothing.\<close>

definition path_join :: "path \<Rightarrow> string \<Rightarrow> path" where
  "path_join p n =
     (let parts = filter (\<lambda>c. c \<noteq> [] \<and> c \<noteq> ''.'') (split_slash n)
      in if n \<noteq> [] \<and> hd n = CHR ''/'' then ''/'' # parts else p @ parts)"

text \<open>\<open>Path::with_file_name\<close>: a path that ends in \<open>..\<close> or is a root has no file name to replace.\<close>

definition with_file_name :: "path \<Rightarrow> string \<Rightarrow> path" where
  "with_file_name p n = path_join (if path_name p = '''' then p else butlast p) n"

definition strip_pre :: "string \<Rightarrow> string \<Rightarrow> string option" where
  "strip_pre pre s = (if prefix pre s then Some (drop (length pre) s) else None)"

definition rename_path :: "path \<Rightarrow> string \<Rightarrow> string \<Rightarrow> path" where
  "rename_path p from to =
     with_file_name p (to @ (case strip_pre from (path_name p) of Some sfx \<Rightarrow> sfx | None \<Rightarrow> ''''))"

text \<open>\<open>SyncRule::locate\<close>: \<open>replace('*', name)\<close> on the pattern.\<close>

definition replace_star :: "glob \<Rightarrow> string \<Rightarrow> string" where
  "replace_star pat name = concat (map (\<lambda>c. if c = CHR ''*'' then name else [c]) pat)"

definition locate :: "sync_rule \<Rightarrow> path \<Rightarrow> string \<Rightarrow> bool \<Rightarrow> path option" where
  "locate r p name dir =
     (if dir then (case sr_child_pattern r of Some child \<Rightarrow> Some (path_join p child) | None \<Rightarrow> None)
      else (case sr_pattern r of Some pat \<Rightarrow> Some (with_file_name p (replace_star pat name)) | None \<Rightarrow> None))"

definition find_map :: "('a \<Rightarrow> 'b option) \<Rightarrow> 'a list \<Rightarrow> 'b option" where
  "find_map f xs = (case List.map_filter f xs of [] \<Rightarrow> None | y # _ \<Rightarrow> Some y)"

section \<open>Names\<close>

definition FORBIDDEN_CHARACTERS :: "char list" where
  "FORBIDDEN_CHARACTERS = [CHR ''/'']"

definition is_char_boundary :: "string \<Rightarrow> nat \<Rightarrow> bool" where
  "is_char_boundary s n \<longleftrightarrow> n = 0 \<or> n = length s \<or>
     (n < length s \<and> \<not> (128 \<le> (of_char (s ! n) :: nat) \<and> (of_char (s ! n) :: nat) < 192))"

text \<open>\<open>None\<close> is the panic of a slice that cuts a character in two.\<close>

definition verify_name :: "('u, 'v) write_env \<Rightarrow> string \<Rightarrow> 'u meta \<Rightarrow> (bool \<times> string \<times> 'u meta) option" where
  "verify_name env name mt =
     (if length name > 255 \<and> \<not> is_char_boundary name 255 then None
      else
        let short = (if length name > 255 then take 255 name else name);
            clean = filter (\<lambda>c. c \<notin> set FORBIDDEN_CHARACTERS) short;
            renamed = (if clean = '''' then ''EmptyName'' else clean)
        in Some (if length name > 255 \<or> (\<exists>c\<in>set short. c \<in> set FORBIDDEN_CHARACTERS) \<or> clean = '''' then
                   if we_rename_instances env then (True, renamed, mt\<lparr>mt_original_name := Some name\<rparr>) else (False, name, mt)
                 else (True, name, mt\<lparr>mt_original_name := None\<rparr>)))"

text \<open>The counter is the number of identifiers drawn so far.\<close>

definition verify_path ::
  "('u, 'v) write_env \<Rightarrow> path \<Rightarrow> string \<Rightarrow> 'u meta \<Rightarrow> fnode \<Rightarrow> nat \<Rightarrow> bool \<times> path \<times> string \<times> 'u meta \<times> nat" where
  "verify_path env p name mt fs k =
     (if \<not> fs_exists p fs \<or> sk_path (src_inner (mt_source mt)) = Some p then (True, p, name, mt, k)
      else if we_keep_duplicates env then
        let sfx = (case strip_pre name (path_name p) of Some sfx \<Rightarrow> sfx | None \<Rightarrow> '''');
            renamed = name @ ''_'' @ we_uuid env k
        in (True, with_file_name p (renamed @ sfx), renamed, mt\<lparr>mt_original_name := Some name\<rparr>, Suc k)
      else (False, p, name, mt, k))"

definition matches_name :: "syncback_filter \<Rightarrow> string \<Rightarrow> bool" where
  "matches_name f name \<longleftrightarrow> name \<in> set (sf_ignore_names f)"

definition matches_class :: "syncback_filter \<Rightarrow> string \<Rightarrow> bool" where
  "matches_class f cls \<longleftrightarrow> cls \<in> set (sf_ignore_classes f)"

definition matches_property :: "syncback_filter \<Rightarrow> string \<Rightarrow> bool" where
  "matches_property f k \<longleftrightarrow> k \<in> set (sf_ignore_properties f)"

definition validate_properties :: "'v properties \<Rightarrow> syncback_filter \<Rightarrow> 'v properties" where
  "validate_properties ps f =
     (if map_of ps ''ArgonEmpty'' \<noteq> None then [] else filter (\<lambda>(k, _). \<not> matches_property f k) ps)"

definition serialize_properties :: "('u, 'v) write_env \<Rightarrow> string \<Rightarrow> 'v properties \<Rightarrow> (string \<times> 'u) list" where
  "serialize_properties env cls ps = map (\<lambda>(k, v). (k, we_unresolved env v cls k)) ps"

section \<open>Middlewares\<close>

text \<open>The run context of a script is taken out of its properties: the file suffix says it.\<close>

definition from_class :: "('u, 'v) write_env \<Rightarrow> string \<Rightarrow> 'v properties \<Rightarrow> middleware option \<times> 'v properties" where
  "from_class env cls ps =
     (if cls = ''Script'' then
        let ps' = prop_remove ''RunContext'' ps
        in case Option.bind (map_of ps ''RunContext'') (we_enum env) of
             Some rc \<Rightarrow>
               if rc = 1 then (Some RunServerScript, ps')
               else if rc = 2 then (Some ClientScript, ps')
               else if rc = 0 then (Some ServerScript, ps')
               else (Some ServerScript, prop_insert ''RunContext'' (we_of_enum env rc) ps')
           | None \<Rightarrow> (Some ServerScript, ps')
      else if cls = ''LocalScript'' then (Some LocalScript, ps)
      else if cls = ''ModuleScript'' then (Some ModuleScript, ps)
      else if cls = ''StringValue'' then (Some StringValue, ps)
      else if cls = ''LocalizationTable'' then (Some LocalizationTable, ps)
      else (None, ps))"

definition taken_string :: "string \<Rightarrow> 'v properties \<Rightarrow> string" where
  "taken_string k ps = (case map_of ps k of Some (VString s) \<Rightarrow> s | _ \<Rightarrow> '''')"

definition write_luau :: "('u, 'v) write_env \<Rightarrow> 'v properties \<Rightarrow> path \<Rightarrow> disk \<Rightarrow> 'v properties wres \<times> disk" where
  "write_luau env ps p d =
     wbind (io (vfs_write (we_crash env) p (taken_string ''Source'' ps) d)) (\<lambda>_ d. (WOk (prop_remove ''Source'' ps), d))"

definition write_txt :: "('u, 'v) write_env \<Rightarrow> 'v properties \<Rightarrow> path \<Rightarrow> disk \<Rightarrow> 'v properties wres \<times> disk" where
  "write_txt env ps p d =
     wbind (io (vfs_write (we_crash env) p (taken_string ''Value'' ps) d)) (\<lambda>_ d. (WOk (prop_remove ''Value'' ps), d))"

text \<open>The values of an entry are written in the order the hash map gives, here its list order.\<close>

definition csv_record :: "localization_entry \<Rightarrow> string list" where
  "csv_record e =
     (let or_empty = (\<lambda>v. case v of Some s \<Rightarrow> s | None \<Rightarrow> '''')
      in [or_empty (le_key e), or_empty (le_source e), or_empty (le_context e), or_empty (le_example e)] @ map snd (le_values e))"

definition write_csv :: "('u, 'v) write_env \<Rightarrow> 'v properties \<Rightarrow> path \<Rightarrow> disk \<Rightarrow> 'v properties wres \<times> disk" where
  "write_csv env ps p d =
     (case map_of ps ''Contents'' of
        Some (VString contents) \<Rightarrow>
          (case we_table_parse env contents of
             None \<Rightarrow> (WErr WBadContents, d)
           | Some entries \<Rightarrow>
               wbind (io (vfs_write (we_crash env) p
                   (we_csv_text env ([''Key'', ''Source'', ''Context'', ''Example''] # map csv_record entries)) d))
                 (\<lambda>_ d. (WOk (prop_remove ''Contents'' ps), d)))
      | _ \<Rightarrow> (WOk (prop_remove ''Contents'' ps), d))"

definition middleware_write ::
  "('u, 'v) write_env \<Rightarrow> middleware \<Rightarrow> 'v properties \<Rightarrow> path \<Rightarrow> disk \<Rightarrow> 'v properties wres \<times> disk" where
  "middleware_write env mw ps p d =
     (case mw of
        ServerScript \<Rightarrow> write_luau env ps p d
      | ClientScript \<Rightarrow> write_luau env ps p d
      | LocalScript \<Rightarrow> write_luau env ps p d
      | RunServerScript \<Rightarrow> write_luau env ps p d
      | ModuleScript \<Rightarrow> write_luau env ps p d
      | StringValue \<Rightarrow> write_txt env ps p d
      | LocalizationTable \<Rightarrow> write_csv env ps p d
      | _ \<Rightarrow> (WPanic, d))"

text \<open>What the reading side makes of the same files: class and properties.\<close>

definition read_luau :: "('u, 'v) write_env \<Rightarrow> middleware \<Rightarrow> path \<Rightarrow> fnode \<Rightarrow> (string \<times> 'v properties) option" where
  "read_luau env mw p fs =
     (let (cls, rc) = (case mw of
            ServerScript \<Rightarrow> (''Script'', Some 0)
          | RunServerScript \<Rightarrow> (''Script'', Some 1)
          | ClientScript \<Rightarrow> (''Script'', Some 2)
          | LocalScript \<Rightarrow> (''LocalScript'', None)
          | _ \<Rightarrow> (''ModuleScript'', None))
      in map_option (\<lambda>source.
           (cls, prop_insert ''Source'' (VString source)
              (case rc of Some rc \<Rightarrow> prop_insert ''RunContext'' (we_of_enum env rc) [] | None \<Rightarrow> []))) (file_at p fs))"

definition read_txt :: "path \<Rightarrow> fnode \<Rightarrow> (string \<times> 'v properties) option" where
  "read_txt p fs = map_option (\<lambda>v. (''StringValue'', [(''Value'', VString v)])) (file_at p fs)"

fun csv_fields :: "string list \<Rightarrow> string list \<Rightarrow> localization_entry \<Rightarrow> localization_entry" where
  "csv_fields (header # headers) (cell # cells) e =
     csv_fields headers cells
       (if cell = '''' then e
        else if header = ''Key'' then e\<lparr>le_key := Some cell\<rparr>
        else if header = ''Source'' then e\<lparr>le_source := Some cell\<rparr>
        else if header = ''Context'' then e\<lparr>le_context := Some cell\<rparr>
        else if header = ''Example'' then e\<lparr>le_example := Some cell\<rparr>
        else e\<lparr>le_values := om_insert header cell (le_values e)\<rparr>)"
| "csv_fields headers cells e = e"

definition le_default :: localization_entry where
  "le_default = \<lparr>le_key = None, le_context = None, le_example = None, le_source = None, le_values = []\<rparr>"

definition csv_entries :: "string list list \<Rightarrow> localization_entry list" where
  "csv_entries rows =
     (case rows of
        [] \<Rightarrow> []
      | headers # records \<Rightarrow>
          filter (\<lambda>e. le_key e \<noteq> None \<or> le_source e \<noteq> None) (map (\<lambda>r. csv_fields headers r le_default) records))"

definition read_csv :: "('u, 'v) write_env \<Rightarrow> path \<Rightarrow> fnode \<Rightarrow> (string \<times> 'v properties) option" where
  "read_csv env p fs =
     (case file_at p fs of
        None \<Rightarrow> None
      | Some contents \<Rightarrow>
          if contents = '''' then Some (''LocalizationTable'', [])
          else map_option (\<lambda>rows. (''LocalizationTable'', [(''Contents'', VString (we_table_text env (csv_entries rows)))]))
                 (we_csv_rows env contents))"

section \<open>The data file beside an instance\<close>

definition wd_default :: "'u writable_data" where
  "wd_default = \<lparr>wd_class_name = None, wd_properties = [], wd_keep_unknowns = None, wd_original_name = None\<rparr>"

definition to_btree :: "(string \<times> 'a) list \<Rightarrow> (string \<times> 'a) list" where
  "to_btree xs = fold (\<lambda>(k, v). om_insert k v) xs []"

definition write_data ::
  "('u, 'v) write_env \<Rightarrow> bool \<Rightarrow> string \<Rightarrow> 'v properties \<Rightarrow> path \<Rightarrow> 'u meta \<Rightarrow> disk \<Rightarrow> path option wres \<times> disk" where
  "write_data env has_file cls ps p mt d =
     (let data = \<lparr>wd_class_name = (if \<not> has_file \<and> cls \<noteq> ''Folder'' then Some cls else None),
            wd_properties = to_btree (serialize_properties env cls ps),
            wd_keep_unknowns = (if mt_keep_unknowns mt then Some True else None),
            wd_original_name = mt_original_name mt\<rparr>
      in if data = wd_default then
           wbind (if fs_exists p (d_fs d) then io (vfs_remove (we_crash env) p d) else (WOk (), d)) (\<lambda>_ d. (WOk None, d))
         else wbind (io (vfs_write (we_crash env) p (we_data_text env data) d)) (\<lambda>_ d. (WOk (Some p), d)))"

definition write_original_name ::
  "('u, 'v) write_env \<Rightarrow> path \<Rightarrow> 'u meta \<Rightarrow> disk \<Rightarrow> unit wres \<times> disk" where
  "write_original_name env p mt d =
     (if fs_exists p (d_fs d) then
        (case file_at p (d_fs d) of
           None \<Rightarrow> (WErr (WReshape IoError), d)
         | Some text \<Rightarrow>
             if text = '''' then (WOk (), d)
             else case we_data_parse env text of
                    None \<Rightarrow> (WErr (WNotJson p), d)
                  | Some df \<Rightarrow>
                      if df_original_name df = mt_original_name mt then (WOk (), d)
                      else let data = \<lparr>wd_class_name = df_class_name df, wd_properties = to_btree (df_properties df),
                                 wd_keep_unknowns = df_keep_unknowns df, wd_original_name = mt_original_name mt\<rparr>
                           in if data = wd_default then io (vfs_remove (we_crash env) p d)
                              else io (vfs_write (we_crash env) p (we_data_text env data) d))
      else let data = wd_default\<lparr>wd_original_name := mt_original_name mt\<rparr>
           in if data = wd_default then (WOk (), d) else io (vfs_write (we_crash env) p (we_data_text env data) d))"

text \<open>\<open>fs::rename\<close> replaces a file by a file and an empty directory by a directory.\<close>

definition rename_over :: "path \<Rightarrow> path \<Rightarrow> fnode \<Rightarrow> fnode option" where
  "rename_over from to fs =
     (case node_at from fs of
        None \<Rightarrow> None
      | Some n \<Rightarrow>
          if from = to then Some fs
          else if prefix from to then None
          else if (case (node_at to fs, n) of
              (None, _) \<Rightarrow> True | (Some (FFile _), FFile _) \<Rightarrow> True | (Some (FDir es), FDir _) \<Rightarrow> es = [] | _ \<Rightarrow> False)
          then Option.bind (set_at from None fs) (set_at to (Some n)) else None)"

definition fs_rename :: "path \<Rightarrow> path \<Rightarrow> disk \<Rightarrow> unit outcome \<times> disk" where
  "fs_rename from to = mutate Some (rename_over from to)"

end
