(* ===== verification/FormatsSafety.thy ===== *)
theory FormatsSafety
  imports Formats
begin

text \<open>
  What the file formats keep: a script survives its file and its data file, a name that passes the
  check is one path component, and the two places where a write loses what it was given (the
  translations of a localization table, the attributes and tags of a data file).
\<close>

section \<open>Scripts\<close>

definition enum_laws :: "('u, 'v) write_env \<Rightarrow> bool" where
  "enum_laws env \<longleftrightarrow> (\<forall>v n. we_enum env v = Some n \<longleftrightarrow> v = we_of_enum env n)"

lemma wbind_WOk: "wbind r f = (WOk y, s') \<longleftrightarrow> (\<exists>x s. r = (WOk x, s) \<and> f x s = (WOk y, s'))"
  by (auto simp: wbind_def split: prod.splits wres.splits)

lemma io_WOk: "io r = (WOk x, d) \<longleftrightarrow> r = (Done x, d)"
  by (auto simp: io_def split: prod.splits outcome.splits)

lemma file_at_set: "set_at p (Some (FFile b)) n = Some n' \<Longrightarrow> file_at p n' = Some b"
  by (cases "p = []") (auto simp: kind_at_file kind_at_set, simp_all add: kind_at_def)

lemma vfs_write_Done: "vfs_write c p b d = (Done u, d') \<Longrightarrow> file_at p (d_fs d') = Some b"
  by (auto simp: vfs_write_def mutate_def file_at_set split: if_splits option.splits)

lemma write_luau_ok:
  assumes "write_luau env ps p d = (WOk rest, d')"
  shows "file_at p (d_fs d') = Some (taken_string ''Source'' ps)" "rest = prop_remove ''Source'' ps"
  using assms by (auto simp: write_luau_def wbind_WOk io_WOk dest: vfs_write_Done)

lemma prop_extend_distinct: "distinct (map fst new) \<Longrightarrow> map_of (prop_extend new ps) = map_of ps ++ map_of new"
proof -
  assume d: "distinct (map fst new)"
  then have "map_of (rev new) = map_of new" by (intro map_of_eqI) (auto simp: rev_map [symmetric] map_of_eq_Some_iff)
  then show ?thesis by (simp add: prop_get_extend)
qed

lemma prop_remove_distinct: "distinct (map fst ps) \<Longrightarrow> distinct (map fst (prop_remove k ps))"
  by (induction ps) (auto simp: prop_remove_def)

lemma prop_insert_distinct: "distinct (map fst ps) \<Longrightarrow> distinct (map fst (prop_insert k v ps))"
  by (auto simp: prop_insert_def prop_remove_distinct) (auto simp: prop_remove_def)

definition script_classes :: "string list" where
  "script_classes = [''Script'', ''LocalScript'', ''ModuleScript'']"

definition script_properties :: "('u, 'v) write_env \<Rightarrow> string \<Rightarrow> 'v properties \<Rightarrow> bool" where
  "script_properties env cls ps \<longleftrightarrow> distinct (map fst ps) \<and> (\<exists>s. map_of ps ''Source'' = Some (VString s)) \<and>
     (cls = ''Script'' \<longrightarrow> (\<exists>n. map_of ps ''RunContext'' = Some (we_of_enum env n)))"

text \<open>What the reading side adds to the properties the file is written from.\<close>

definition read_back :: "('u, 'v) write_env \<Rightarrow> middleware \<Rightarrow> string \<Rightarrow> string \<Rightarrow> 'v variant option" where
  "read_back env mw b = (case mw of
       ServerScript \<Rightarrow> [''RunContext'' \<mapsto> we_of_enum env 0, ''Source'' \<mapsto> VString b]
     | RunServerScript \<Rightarrow> [''RunContext'' \<mapsto> we_of_enum env 1, ''Source'' \<mapsto> VString b]
     | ClientScript \<Rightarrow> [''RunContext'' \<mapsto> we_of_enum env 2, ''Source'' \<mapsto> VString b]
     | _ \<Rightarrow> [''Source'' \<mapsto> VString b])"

definition script_class :: "middleware \<Rightarrow> string" where
  "script_class mw = (if mw = LocalScript then ''LocalScript'' else if mw = ModuleScript then ''ModuleScript'' else ''Script'')"

definition script_middlewares :: "middleware list" where
  "script_middlewares = [ServerScript, ClientScript, LocalScript, RunServerScript, ModuleScript]"

lemma read_luau_ok:
  assumes "mw \<in> set script_middlewares" "file_at p fs = Some b"
  shows "\<exists>qs. read_luau env mw p fs = Some (script_class mw, qs) \<and> map_of qs = read_back env mw b"
  using assms by (auto simp: script_middlewares_def read_luau_def script_class_def read_back_def prop_get_insert)

lemma from_class_script:
  assumes "enum_laws env" "cls \<in> set script_classes" "script_properties env cls ps" "from_class env cls ps = (Some mw, ps')"
  shows "mw \<in> set script_middlewares \<and> script_class mw = cls \<and> distinct (map fst ps') \<and> map_of ps' ''Source'' = map_of ps ''Source'' \<and>
    (\<forall>b k. k \<noteq> ''Source'' \<longrightarrow> (read_back env mw b ++ map_of ps') k = map_of ps k)"
proof -
  have d: "distinct (map fst ps)" using assms(3) by (simp add: script_properties_def)
  note defs = from_class_def script_middlewares_def script_class_def read_back_def map_add_def
  consider (script) n where "cls = ''Script''" "map_of ps ''RunContext'' = Some (we_of_enum env n)" | (other) "cls = ''LocalScript'' \<or> cls = ''ModuleScript''"
    using assms(2,3) by (auto simp: script_classes_def script_properties_def)
  then show ?thesis
  proof cases
    case (script n)
    have e: "we_enum env (we_of_enum env n) = Some n" using assms(1) by (simp add: enum_laws_def)
    let ?rest = "prop_remove ''RunContext'' ps"
    have r: "distinct (map fst ?rest)" by (rule prop_remove_distinct [OF d])
    consider "n = 1" "mw = RunServerScript" "ps' = ?rest" | "n = 2" "mw = ClientScript" "ps' = ?rest" | "n = 0" "mw = ServerScript" "ps' = ?rest"
      | "mw = ServerScript" "ps' = prop_insert ''RunContext'' (we_of_enum env n) ?rest"
      using assms(4) script e by (simp add: from_class_def Let_def split: if_splits)
    then show ?thesis
      by cases (simp_all add: script_middlewares_def script_class_def read_back_def map_add_def script r prop_insert_distinct prop_get_insert prop_get_remove split: option.splits)
  next
    case other
    then show ?thesis using assms(4) d by (auto simp: defs split: option.splits)
  qed
qed



text \<open>An environment in which the packages are identities or constants.\<close>

definition test_env :: "('v variant \<Rightarrow> u32 option) \<Rightarrow> (u32 \<Rightarrow> 'v variant) \<Rightarrow> (unit, 'v) write_env" where
  "test_env enum of_enum = \<lparr>we_crash = \<lparr>cr_made = 0, cr_written = \<lambda>_. None, cr_torn = \<lambda>n. n\<rparr>,
     we_rename_instances = True, we_keep_duplicates = False, we_rojo_mode = False, we_lua_extension = False,
     we_uuid = show_nat, we_stack = \<lambda>_. 0, we_valid = \<lambda>_. True, we_matches = \<lambda>_ _. False, we_clean = \<lambda>p. p,
     we_enum = enum, we_of_enum = of_enum, we_unresolved = \<lambda>_ _ _. (),
     we_data_text = \<lambda>_. ''data'', we_data_parse = \<lambda>_. None, we_table_text = \<lambda>_. ''table'', we_table_parse = \<lambda>_. None,
     we_csv_text = \<lambda>_. ''csv'', we_csv_rows = \<lambda>_. None, we_manifest_text = \<lambda>_. ''manifest'', we_manifest_parse = \<lambda>_. None,
     we_project_text = \<lambda>_. ''project'', we_project_parse = \<lambda>_. None\<rparr>"

definition example_env :: "(unit, u32) write_env" where
  "example_env = test_env (\<lambda>v. case v of VOther n \<Rightarrow> Some n | _ \<Rightarrow> None) VOther"

lemma example_enum: "enum_laws example_env"
  by (auto simp: enum_laws_def example_env_def test_env_def split: variant.splits)


section \<open>Names\<close>


text \<open>The panic can happen: 254 letters and one two-byte character.\<close>

lemma long_name_panics: "verify_name env (replicate 254 CHR ''a'' @ [CHR 0xC3, CHR 0xA9]) mt = None"
  by (simp add: verify_name_def is_char_boundary_def nth_append)

text \<open>A name of two dots passes, and puts the file into the directory above.\<close>

lemma dots_escape:
  "verify_name env ''..'' mt = Some (True, ''..'', mt\<lparr>mt_original_name := None\<rparr>)"
  "locate (rule ModuleScript ''*.luau'' ''init.luau'' None []) (path_join dir ''..'') ''..'' False = Some (dir @ [''..'', ''...luau''])"
  by (simp_all add: verify_name_def FORBIDDEN_CHARACTERS_def locate_def rule_def rule_new_def with_file_name_def path_join_def
      path_name_def replace_star_def Let_def)

section \<open>What a write loses\<close>

definition csv_laws :: "('u, 'v) write_env \<Rightarrow> bool" where
  "csv_laws env \<longleftrightarrow> (\<forall>rows. rows \<noteq> [] \<longrightarrow> we_csv_text env rows \<noteq> '''' \<and> we_csv_rows env (we_csv_text env rows) = Some rows)"

lemma csv_fields_values:
  "set headers \<subseteq> {''Key'', ''Source'', ''Context'', ''Example''} \<Longrightarrow> le_values (csv_fields headers cells e) = le_values e"
  by (induction headers cells e rule: csv_fields.induct) auto

text \<open>
  The header row names no locale, so the reading side drops every translation: a localization table
  that goes to its file and back has none left.
\<close>

lemma table_loses_translations:
  assumes "csv_laws env" "map_of ps ''Contents'' = Some (VString contents)" "we_table_parse env contents = Some entries"
    and w: "write_csv env ps p d = (WOk rest, d')"
  shows "\<exists>es. read_csv env p (d_fs d') = Some (''LocalizationTable'', [(''Contents'', VString (we_table_text env es))]) \<and> (\<forall>e\<in>set es. le_values e = [])"
proof -
  let ?rows = "[''Key'', ''Source'', ''Context'', ''Example''] # map csv_record entries"
  have "file_at p (d_fs d') = Some (we_csv_text env ?rows)"
    using assms(2,3) w by (auto simp: write_csv_def wbind_WOk io_WOk dest: vfs_write_Done)
  then have "read_csv env p (d_fs d') = Some (''LocalizationTable'', [(''Contents'', VString (we_table_text env (csv_entries ?rows)))])"
    using assms(1) by (simp add: read_csv_def csv_laws_def)
  moreover have "\<forall>e\<in>set (csv_entries ?rows). le_values e = []"
    by (auto simp: csv_entries_def csv_fields_values le_default_def)
  ultimately show ?thesis by blast
qed

text \<open>
  Taking the original name out of a data file rewrites it without its attributes and tags; a file that
  held nothing else is removed.
\<close>

lemma original_name_drops_tags:
  assumes "d_left d > 0" "file_at p (d_fs d) = Some text" "text \<noteq> ''''" "we_data_parse env text = Some df"
    and df: "df = \<lparr>df_class_name = None, df_properties = [], df_attributes = attrs, df_tags = tags, df_keep_unknowns = None, df_original_name = Some n\<rparr>"
    and mt: "mt_original_name mt = None" and p: "p \<noteq> []"
  shows "\<exists>d'. write_original_name env p mt d = (WOk (), d') \<and> file_at p (d_fs d') = None"
proof -
  have ex: "fs_exists p (d_fs d)" using assms(2) by (auto simp: file_at_def fs_exists_def split: option.splits)
  have run: "write_original_name env p mt d = io (vfs_remove (we_crash env) p d)"
    using assms(2-4) ex by (simp add: write_original_name_def df mt wd_default_def to_btree_def)
  have "is_dir (butlast p) (d_fs d)" using kind_at_parent [of "d_fs d" "butlast p" "last p" "[]"] ex p by (simp add: kind_at_exists kind_at_is_dir)
  then obtain fs' where fs': "set_at p None (d_fs d) = Some fs'" using set_at_succeeds p by blast
  have "file_at p fs' = None" using kind_at_unset [OF fs' p, of p] by (auto simp: kind_at_file kind_at_def file_at_def split: option.splits)
  then show ?thesis using assms(1) ex fs' by (simp add: run vfs_remove_def mutate_def io_def)
qed

end
