(* ===== verification/Write.thy ===== *)
theory Write
  imports Formats TreeSafety
begin

text \<open>
  The write path of the change processor (\<^verbatim>\<open>src/core/processor/write.rs\<close>): one Studio operation (an
  addition, an update, a removal) applied to the disk and the instance tree.

  The state is the tree, the disk and the number of identifiers drawn so far. An operation
  returns, fails with the error the code reports, panics, or is cut off with the daemon; what it had
  done until then stays done.
\<close>

section \<open>State\<close>

record ('d, 'm, 'u) wstate =
  ws_tree :: "('d, 'm, 'u) tree"
  ws_disk :: disk
  ws_uuid :: nat

definition on_disk :: "(disk \<Rightarrow> 'a wres \<times> disk) \<Rightarrow> ('d, 'm, 'u) wstate \<Rightarrow> 'a wres \<times> ('d, 'm, 'u) wstate" where
  "on_disk f st = (case f (ws_disk st) of (r, d) \<Rightarrow> (r, st\<lparr>ws_disk := d\<rparr>))"

definition on_tree :: "(('d, 'm, 'u) tree \<Rightarrow> ('d, 'm, 'u) tree) \<Rightarrow> ('d, 'm, 'u) wstate \<Rightarrow> ('d, 'm, 'u) wstate" where
  "on_tree f st = st\<lparr>ws_tree := f (ws_tree st)\<rparr>"

abbreviation ws_fs :: "('d, 'm, 'u) wstate \<Rightarrow> fnode" where
  "ws_fs st \<equiv> d_fs (ws_disk st)"

definition insert_with_ref ::
  "('d, 'm, 'v) tree_ops \<Rightarrow> ('u, 'v) snapshot \<Rightarrow> dref \<Rightarrow> ('d, 'm, 'u) wstate \<Rightarrow> unit wres \<times> ('d, 'm, 'u) wstate" where
  "insert_with_ref ops s parent st =
     (case insert_instance_with_ref ops s parent (ws_tree st) of
        None \<Rightarrow> (WPanic, st)
      | Some t \<Rightarrow> (WOk (), st\<lparr>ws_tree := t\<rparr>))"

text \<open>A write through the reference \<open>get_instance_mut\<close> returned.\<close>

definition put_instance ::
  "('d, 'm, 'v) tree_ops \<Rightarrow> dref \<Rightarrow> ('v inst \<Rightarrow> string \<times> 'v properties) \<Rightarrow> ('d, 'm, 'u) tree \<Rightarrow> ('d, 'm, 'u) tree" where
  "put_instance ops i f t =
     (case dom_get ops (t_dom t) i of
        None \<Rightarrow> t
      | Some x \<Rightarrow> (case f x of (n, ps) \<Rightarrow> t\<lparr>t_dom := dom_modify ops i n (in_class x) ps (t_dom t)\<rparr>))"

section \<open>Limits, rules and project files\<close>

definition MAX_MODEL_DEPTH :: nat where "MAX_MODEL_DEPTH = 256"
definition SNAPSHOT_STACK_BUDGET :: nat where "SNAPSHOT_STACK_BUDGET = 1024 * 1024"

definition nesting_check :: "('u, 'v) write_env \<Rightarrow> nat \<Rightarrow> bool" where
  "nesting_check env depth \<longleftrightarrow> \<not> (depth > MAX_MODEL_DEPTH \<or> we_stack env depth > SNAPSHOT_STACK_BUDGET)"

abbreviation rules_of :: "('u, 'v) write_env \<Rightarrow> meta_context \<Rightarrow> middleware \<Rightarrow> sync_rule list" where
  "rules_of env cx mw \<equiv> sync_rules_of_type (we_rojo_mode env) (we_lua_extension env) cx mw True"

definition locate_by :: "('u, 'v) write_env \<Rightarrow> meta_context \<Rightarrow> middleware \<Rightarrow> path \<Rightarrow> string \<Rightarrow> bool \<Rightarrow> path option" where
  "locate_by env cx mw p name dir = find_map (\<lambda>r. locate r p name dir) (rules_of env cx mw)"

abbreviation filtered :: "('u, 'v) write_env \<Rightarrow> meta_context \<Rightarrow> path \<Rightarrow> bool" where
  "filtered env cx p \<equiv> filter_matches_path (we_valid env) (we_matches env) (cx_syncback_filter cx) p"

text \<open>\<open>with_file_name\<close> of a path.\<close>

definition with_file_path :: "path \<Rightarrow> path \<Rightarrow> path" where
  "with_file_path p q =
     (if q \<noteq> [] \<and> hd q = ''/'' then q else (if path_name p = '''' then p else butlast p) @ q)"

definition load_project :: "('u, 'v) write_env \<Rightarrow> path \<Rightarrow> fnode \<Rightarrow> 'u project wres" where
  "load_project env p fs =
     (case file_at p fs of
        None \<Rightarrow> WErr (WReshape IoError)
      | Some text \<Rightarrow>
          (case we_project_parse env text of
             None \<Rightarrow> WErr (WNotJson p)
           | Some proj \<Rightarrow> WOk (proj\<lparr>pj_path := p, pj_workspace_dir := path_parent p\<rparr>)))"

definition save_project :: "('u, 'v) write_env \<Rightarrow> 'u project \<Rightarrow> path \<Rightarrow> disk \<Rightarrow> unit wres \<times> disk" where
  "save_project env proj p d = io (vfs_write (we_crash env) p (we_project_text env proj) d)"

definition with_tree :: "'u project_node \<Rightarrow> (string \<times> 'u project_node) list \<Rightarrow> 'u project_node" where
  "with_tree node tree = ProjectNode (class_name node) (node_path node) tree (node_properties node) (node_attributes node)
     (node_tags node) (node_keep_unknowns node)"

text \<open>What a write through \<open>find_node_by_path\<close> makes of the project.\<close>

fun set_node :: "string list \<Rightarrow> 'u project_node \<Rightarrow> 'u project_node \<Rightarrow> 'u project_node" where
  "set_node [] new node = new"
| "set_node (name # names) new node =
     (case map_of (node_tree node) name of
        None \<Rightarrow> node
      | Some child \<Rightarrow> with_tree node (om_insert name (set_node names new child) (node_tree node)))"

definition put_node :: "nodepath \<Rightarrow> 'u project_node \<Rightarrow> 'u project \<Rightarrow> 'u project" where
  "put_node np new proj = proj\<lparr>pj_node := set_node (np_inner np) new (pj_node proj)\<rparr>"

section \<open>Additions\<close>

text \<open>The part of \<open>write_instance\<close> after the file is located: the file, then what it cannot carry.\<close>

definition write_file ::
  "('u, 'v) write_env \<Rightarrow> bool \<Rightarrow> middleware \<Rightarrow> 'v properties \<Rightarrow> path \<Rightarrow> path \<Rightarrow> string \<Rightarrow> string \<Rightarrow> meta_context \<Rightarrow> 'u meta
   \<Rightarrow> disk \<Rightarrow> ('u meta option \<times> path \<times> string) wres \<times> disk" where
  "write_file env has_children mw ps file_path p name cls cx mt d =
     (if filtered env cx file_path then (WOk (None, p, name), d)
      else wbind (middleware_write env mw ps file_path d) (\<lambda>rest d.
        case locate_by env cx InstanceData p name has_children of
          None \<Rightarrow> (WErr (WNoDataPath p), d)
        | Some data_path \<Rightarrow>
            if filtered env cx data_path then (WOk (Some mt, p, name), d)
            else wbind (write_data env True cls rest data_path mt d) (\<lambda>data_path d.
              (WOk (Some (mt\<lparr>mt_source := set_data data_path (mt_source mt)\<rparr>), p, name), d))))"

text \<open>An instance without a file of its own: a directory and its data file.\<close>

definition write_folder ::
  "('u, 'v) write_env \<Rightarrow> 'v properties \<Rightarrow> path \<Rightarrow> string \<Rightarrow> string \<Rightarrow> meta_context \<Rightarrow> 'u meta
   \<Rightarrow> disk \<Rightarrow> ('u meta option \<times> path \<times> string) wres \<times> disk" where
  "write_folder env ps p name cls cx mt d =
     wbind (io (vfs_create_dir (we_crash env) p d)) (\<lambda>_ d.
       let mt = mt\<lparr>mt_source := source_directory p\<rparr>
       in case locate_by env cx InstanceData p name True of
            None \<Rightarrow> (WErr (WNoDataPath p), d)
          | Some data_path \<Rightarrow>
              if filtered env cx data_path then (WOk (Some mt, p, name), d)
              else wbind (write_data env False cls ps data_path mt d) (\<lambda>data_path d.
                (WOk (Some (mt\<lparr>mt_source := set_data data_path (mt_source mt)\<rparr>), p, name), d)))"

text \<open>
  The result is the metadata of the written instance, \<open>None\<close> when it was skipped, with the path and
  the name, which the check for a taken path may have changed.
\<close>

definition write_instance ::
  "('u, 'v) write_env \<Rightarrow> bool \<Rightarrow> path \<Rightarrow> ('u, 'v) snapshot \<Rightarrow> 'u meta \<Rightarrow> ('d, 'm, 'u) wstate
   \<Rightarrow> ('u meta option \<times> path \<times> string) wres \<times> ('d, 'm, 'u) wstate" where
  "write_instance env has_children p s parent_meta st =
     (let cx = mt_context parent_meta;
          mt = (sn_meta s)\<lparr>mt_context := cx\<rparr>;
          name = sn_name s
      in case from_class env (sn_class s) (sn_properties s) of
           (Some mw, ps) \<Rightarrow>
             (case locate_by env cx mw p name has_children of
                None \<Rightarrow> (WErr (WNoFilePath p), st)
              | Some file_path \<Rightarrow>
                  if has_children then
                    if filtered env cx p then (WOk (None, p, name), st)
                    else (case verify_path env p name mt (ws_fs st) (ws_uuid st) of (ok, p, name, mt, k) \<Rightarrow>
                      let st = st\<lparr>ws_uuid := k\<rparr>
                      in if \<not> ok then (WOk (None, p, name), st)
                         else wbind (on_disk (\<lambda>d. io (vfs_create_dir (we_crash env) p d)) st) (\<lambda>_.
                           on_disk (write_file env True mw ps file_path p name (sn_class s) cx (mt\<lparr>mt_source := source_child_file p file_path\<rparr>))))
                  else (case verify_path env file_path name mt (ws_fs st) (ws_uuid st) of (ok, file_path, name, mt, k) \<Rightarrow>
                    let st = st\<lparr>ws_uuid := k\<rparr>
                    in if \<not> ok then (WOk (None, p, name), st)
                       else on_disk (write_file env False mw ps file_path p name (sn_class s) cx (mt\<lparr>mt_source := source_file file_path\<rparr>)) st))
         | (None, ps) \<Rightarrow>
             if filtered env cx p then (WOk (None, p, name), st)
             else (case verify_path env p name mt (ws_fs st) (ws_uuid st) of (ok, p, name, mt, k) \<Rightarrow>
               let st = st\<lparr>ws_uuid := k\<rparr>
               in if \<not> ok then (WOk (None, p, name), st)
                  else on_disk (write_folder env ps p name (sn_class s) cx mt) st))"


text \<open>The rule that names a flat parent, without the ones Rojo mode turns off.\<close>

definition flat_rule :: "('u, 'v) write_env \<Rightarrow> meta_context \<Rightarrow> path \<Rightarrow> fnode \<Rightarrow> sync_rule option" where
  "flat_rule env cx p fs =
     find (\<lambda>r. resolve_rule (we_matches env) (\<lambda>q. is_dir q fs) r p \<noteq> None)
       (filter (\<lambda>r. case sr_child_pattern r of
            Some pat \<Rightarrow> \<not> ((prefix ''.src'' pat \<or> suffix ''.data.json'' pat) \<and> we_rojo_mode env) | None \<Rightarrow> True) (sync_rules cx))"

definition run_moves :: "('u, 'v) write_env \<Rightarrow> reshape_error + reshape \<Rightarrow> disk \<Rightarrow> unit wres \<times> disk" where
  "run_moves env plan d =
     (case plan of
        Inl e \<Rightarrow> (WErr (WReshape e), d)
      | Inr r \<Rightarrow> io (run_reshape (we_manifest_text env) (we_manifest_parse env) (we_crash env) r d))"

text \<open>An empty folder under the wanted name does not block the reshape.\<close>

definition clear_leftover :: "('u, 'v) write_env \<Rightarrow> path \<Rightarrow> disk \<Rightarrow> unit wres \<times> disk" where
  "clear_leftover env folder d =
     (case is_empty_dir folder (d_fs d) of
        Inl e \<Rightarrow> (WErr (WReshape e), d)
      | Inr vacant \<Rightarrow> if vacant then io (vfs_remove (we_crash env) folder d) else (WOk (), d))"

text \<open>
  The parent's flat file becomes a folder. The result is the new parent source and folder with the
  child's name, \<open>None\<close> when the folder's path is taken, and the parent's metadata.
\<close>

definition promote_parent ::
  "('u, 'v) write_env \<Rightarrow> path \<Rightarrow> string \<Rightarrow> 'u meta \<Rightarrow> ('d, 'm, 'u) wstate
   \<Rightarrow> (('u source \<times> path \<times> string) option \<times> 'u meta) wres \<times> ('d, 'm, 'u) wstate" where
  "promote_parent env parent_path child_name parent_meta st =
     (let cx = mt_context parent_meta
      in case flat_rule env cx parent_path (ws_fs st) of
           None \<Rightarrow> (WErr (WNoRule parent_path), st)
         | Some r \<Rightarrow>
             let name = rule_name (\<lambda>q. is_dir q (ws_fs st)) r parent_path;
                 folder_path = with_file_name parent_path name
             in wbind (on_disk (clear_leftover env folder_path) st) (\<lambda>_ st.
                  case verify_path env folder_path child_name parent_meta (ws_fs st) (ws_uuid st) of (ok, folder_path, child_name, parent_meta, k) \<Rightarrow>
                  let st = st\<lparr>ws_uuid := k\<rparr>
                  in if \<not> ok then (WOk (None, parent_meta), st)
                     else case locate r folder_path name True of
                            None \<Rightarrow> (WErr (WNoFilePath folder_path), st)
                          | Some file_path \<Rightarrow>
                              let finish = (\<lambda>src moves.
                                    wbind (on_disk (\<lambda>d. run_moves env (to_folder parent_path folder_path moves (\<lambda>q. fs_exists q (d_fs d))) d) st)
                                      (\<lambda>_ st. (WOk (Some (src, folder_path, child_name), parent_meta), st)))
                              in case get_data (mt_source parent_meta) of
                                   None \<Rightarrow> finish (source_child_file folder_path file_path) [(parent_path, file_path)]
                                 | Some data \<Rightarrow>
                                     (case locate_by env cx InstanceData folder_path name True of
                                        None \<Rightarrow> (WErr (WNoDataPath folder_path), st)
                                      | Some new_data \<Rightarrow>
                                          finish (add_data new_data (source_child_file folder_path file_path))
                                            [(parent_path, file_path), (entry_path data, new_data)])))"

text \<open>
  An instance and all below it under a parent on disk. The result is the parent's source and
  its metadata; \<open>parent_meta\<close> is passed by mutable reference.
\<close>

function (sequential) add_non_project_instances ::
  "('u, 'v) write_env \<Rightarrow> ('d, 'm, 'v) tree_ops \<Rightarrow> dref \<Rightarrow> path \<Rightarrow> ('u, 'v) snapshot \<Rightarrow> 'u meta \<Rightarrow> nat \<Rightarrow> ('d, 'm, 'u) wstate
   \<Rightarrow> ('u source \<times> 'u meta) wres \<times> ('d, 'm, 'u) wstate"
and add_children ::
  "('u, 'v) write_env \<Rightarrow> ('d, 'm, 'v) tree_ops \<Rightarrow> dref \<Rightarrow> path \<Rightarrow> ('u, 'v) snapshot list \<Rightarrow> 'u meta \<Rightarrow> nat \<Rightarrow> ('d, 'm, 'u) wstate
   \<Rightarrow> unit wres \<times> ('d, 'm, 'u) wstate" where
  "add_non_project_instances env ops parent_id parent_path (Snapshot sid smt name cls ps children) parent_meta depth st =
     (if \<not> nesting_check env depth then (WErr (WTooDeep name), st)
      else if \<not> allows_class (cx_scope (mt_context parent_meta)) cls then (WOk (mt_source parent_meta, parent_meta), st)
      else wbind (if is_file parent_path (ws_fs st) then promote_parent env parent_path name parent_meta st
                  else (WOk (Some (mt_source parent_meta, parent_path, name), parent_meta), st)) (\<lambda>(promoted, parent_meta) st.
        case promoted of
          None \<Rightarrow> (WOk (mt_source parent_meta, parent_meta), st)
        | Some (parent_source, parent_path, name) \<Rightarrow>
            (case verify_name env name smt of
               None \<Rightarrow> (WPanic, st)
             | Some (ok, name, smt) \<Rightarrow>
                 if \<not> ok then (WOk (parent_source, parent_meta), st)
                 else wbind (write_instance env (children \<noteq> []) (path_join parent_path name) (Snapshot sid smt name cls ps children) parent_meta st)
                   (\<lambda>(mt, path, name) st.
                     case mt of
                       None \<Rightarrow> (WOk (parent_source, parent_meta), st)
                     | Some mt \<Rightarrow>
                         wbind (insert_with_ref ops (Snapshot sid mt name cls ps children) parent_id st) (\<lambda>_ st.
                         wbind (add_children env ops sid path children mt (Suc depth) st) (\<lambda>_ st.
                           (WOk (parent_source, parent_meta), st)))))))"
| "add_children env ops parent_id path [] mt depth st = (WOk (), st)"
| "add_children env ops parent_id path (Snapshot sid smt name cls ps cs # children) mt depth st =
     wbind (add_non_project_instances env ops parent_id path
         (Snapshot sid smt name cls (validate_properties ps (cx_syncback_filter (mt_context mt))) cs) mt depth st)
       (\<lambda>(_, mt) st. add_children env ops parent_id path children mt depth st)"
  by pat_completeness auto

termination
  by (relation "measure (case_sum (\<lambda>(_, _, _, _, s, _). 2 * snap_count s) (\<lambda>(_, _, _, _, cs, _). Suc (2 * (\<Sum>c\<leftarrow>cs. snap_count c))))") auto

text \<open>The same under a parent that is a node of a project file; the result is the parent's node.\<close>

function (sequential) add_project_instances ::
  "('u, 'v) write_env \<Rightarrow> ('d, 'm, 'v) tree_ops \<Rightarrow> dref \<Rightarrow> path \<Rightarrow> nodepath \<Rightarrow> ('u, 'v) snapshot \<Rightarrow> 'u project_node \<Rightarrow> 'u meta \<Rightarrow> nat
   \<Rightarrow> ('d, 'm, 'u) wstate \<Rightarrow> 'u project_node wres \<times> ('d, 'm, 'u) wstate"
and add_project_children ::
  "('u, 'v) write_env \<Rightarrow> ('d, 'm, 'v) tree_ops \<Rightarrow> dref \<Rightarrow> path \<Rightarrow> nodepath \<Rightarrow> ('u, 'v) snapshot list \<Rightarrow> 'u project_node \<Rightarrow> 'u meta \<Rightarrow> nat
   \<Rightarrow> ('d, 'm, 'u) wstate \<Rightarrow> 'u project_node wres \<times> ('d, 'm, 'u) wstate" where
  "add_project_instances env ops parent_id path np (Snapshot sid smt name cls ps children) parent_node parent_meta depth st =
     (if \<not> nesting_check env depth then (WErr (WTooDeep name), st)
      else if \<not> allows_class (cx_scope (mt_context parent_meta)) cls then (WOk parent_node, st)
      else
        let node = ProjectNode (Some cls) None [] (serialize_properties env cls ps) None [] (if mt_keep_unknowns smt then Some True else None);
            np = np_join np name;
            mt = smt\<lparr>mt_context := mt_context parent_meta, mt_source := source_project name path node np\<rparr>
        in wbind (insert_with_ref ops (Snapshot sid mt name cls ps children) parent_id st) (\<lambda>_ st.
           wbind (add_project_children env ops parent_id path np children node parent_meta (Suc depth) st) (\<lambda>node st.
             (WOk (with_tree parent_node (om_insert name node (node_tree parent_node))), st))))"
| "add_project_children env ops parent_id path np [] node parent_meta depth st = (WOk node, st)"
| "add_project_children env ops parent_id path np (Snapshot sid smt name cls ps cs # children) node parent_meta depth st =
     wbind (add_project_instances env ops parent_id path np
         (Snapshot sid smt name cls (validate_properties ps (cx_syncback_filter (mt_context parent_meta))) cs) node parent_meta depth st)
       (\<lambda>node st. add_project_children env ops parent_id path np children node parent_meta depth st)"
  by pat_completeness auto

termination
  by (relation "measure (case_sum (\<lambda>(_, _, _, _, _, s, _). 2 * snap_count s) (\<lambda>(_, _, _, _, _, cs, _). Suc (2 * (\<Sum>c\<leftarrow>cs. snap_count c))))") auto

declare add_non_project_instances.simps [simp del] add_project_instances.simps [simp del]

definition apply_addition ::
  "('u, 'v) write_env \<Rightarrow> ('d, 'm, 'v) tree_ops \<Rightarrow> ('u, 'v) added_snapshot \<Rightarrow> ('d, 'm, 'u) wstate \<Rightarrow> unit wres \<times> ('d, 'm, 'u) wstate" where
  "apply_addition env ops a st =
     (let parent_id = as_parent a
      in if \<not> exists_inst ops (ws_tree st) parent_id then (WOk (), st)
         else case get_meta (ws_tree st) parent_id of
                None \<Rightarrow> (WPanic, st)
              | Some parent_meta \<Rightarrow>
                  let flt = cx_syncback_filter (mt_context parent_meta);
                      s = Snapshot (as_id a) (as_meta a) (as_name a) (as_class a) (validate_properties (as_properties a) flt) (as_children a)
                  in if matches_name flt (as_name a) \<or> matches_class flt (as_class a) then (WOk (), st)
                     else if \<not> allows_class (cx_scope (mt_context parent_meta)) (as_class a) then (WOk (), st)
                     else case src_inner (mt_source parent_meta) of
                            SPath p \<Rightarrow>
                              wbind (add_non_project_instances env ops parent_id p s parent_meta 0 st) (\<lambda>(src, parent_meta) st.
                                (WOk (), on_tree (update_meta ops parent_id (parent_meta\<lparr>mt_source := src\<rparr>)) st))
                          | SProject name p node np \<Rightarrow>
                              (case node_path node of
                                 Some custom \<Rightarrow>
                                   wbind (add_non_project_instances env ops parent_id (we_clean env (with_file_path p (project_path_path custom))) s parent_meta 0 st)
                                     (\<lambda>(src, parent_meta) st.
                                       (WOk (), on_tree (update_meta ops parent_id
                                          (parent_meta\<lparr>mt_source := (source_project name p node np)\<lparr>src_relevant := src_relevant src\<rparr>\<rparr>)) st))
                               | None \<Rightarrow>
                                   wbind (load_project env p (ws_fs st), st) (\<lambda>proj st.
                                     case find_node_by_path proj np of
                                       None \<Rightarrow> (WErr (WNoNode np), st)
                                     | Some parent_node \<Rightarrow>
                                         wbind (add_project_instances env ops parent_id p np s parent_node parent_meta 0 st)
                                           (\<lambda>parent_node. on_disk (save_project env (put_node np parent_node proj) p))))
                          | SNone \<Rightarrow> (WPanic, st))"


section \<open>Updates\<close>

definition locate_instance_data :: "('u, 'v) write_env \<Rightarrow> string \<Rightarrow> path \<Rightarrow> 'u meta \<Rightarrow> fnode \<Rightarrow> path option" where
  "locate_instance_data env name p mt fs =
     (case get_data (mt_source mt) of
        Some data \<Rightarrow> Some (entry_path data)
      | None \<Rightarrow> locate_by env (mt_context mt) InstanceData p name (is_dir p fs))"

text \<open>The first entry of a kind, replaced through the mutable reference to it.\<close>

fun set_first_file :: "path \<Rightarrow> source_entry list \<Rightarrow> source_entry list" where
  "set_first_file p [] = []"
| "set_first_file p (EFile _ # es) = EFile p # es"
| "set_first_file p (e # es) = e # set_first_file p es"

fun set_first_folder :: "path \<Rightarrow> source_entry list \<Rightarrow> source_entry list" where
  "set_first_folder p [] = []"
| "set_first_folder p (EFolder _ # es) = EFolder p # es"
| "set_first_folder p (e # es) = e # set_first_folder p es"

definition get_folder :: "'u source \<Rightarrow> source_entry option" where
  "get_folder s = find (\<lambda>e. case e of EFolder _ \<Rightarrow> True | _ \<Rightarrow> False) (src_relevant s)"

definition map_source :: "(source_entry list \<Rightarrow> source_entry list) \<Rightarrow> 'u meta \<Rightarrow> 'u meta" where
  "map_source f mt = mt\<lparr>mt_source := (mt_source mt)\<lparr>src_relevant := f (src_relevant (mt_source mt))\<rparr>\<rparr>"

text \<open>The data file of an update, when it can be located and the filter allows it.\<close>

definition update_data ::
  "('u, 'v) write_env \<Rightarrow> bool \<Rightarrow> 'v properties \<Rightarrow> path \<Rightarrow> 'v inst \<Rightarrow> 'u meta \<Rightarrow> disk \<Rightarrow> 'u meta wres \<times> disk" where
  "update_data env has_file ps p x mt d =
     (case locate_instance_data env (in_name x) p mt (d_fs d) of
        None \<Rightarrow> (WOk mt, d)
      | Some data_path \<Rightarrow>
          if filtered env (mt_context mt) data_path then (WOk mt, d)
          else wbind (write_data env has_file (in_class x) ps data_path mt d) (\<lambda>data_path d.
            (WOk (mt\<lparr>mt_source := set_data data_path (mt_source mt)\<rparr>), d)))"

text \<open>\<open>sort_by_key(|path| !path.exists())\<close> and \<open>first\<close>: an existing path, else the first.\<close>

definition update_target :: "('u, 'v) write_env \<Rightarrow> middleware \<Rightarrow> path \<Rightarrow> string \<Rightarrow> meta_context \<Rightarrow> fnode \<Rightarrow> path option" where
  "update_target env mw p name cx fs =
     (let paths = List.map_filter (\<lambda>r. locate r p name (is_dir p fs)) (rules_of env cx mw)
      in case find (\<lambda>q. fs_exists q fs) paths of Some q \<Rightarrow> Some q | None \<Rightarrow> (case paths of [] \<Rightarrow> None | q # _ \<Rightarrow> Some q))"

definition update_file ::
  "path option \<Rightarrow> 'u meta \<Rightarrow> disk \<Rightarrow> (path option \<times> 'u meta) wres \<times> disk" where
  "update_file new_path mt d =
     (case get_file (mt_source mt) of
        Some (EFile current) \<Rightarrow>
          (case new_path of
             Some new_path \<Rightarrow>
               if current \<noteq> new_path then
                 wbind (io (fs_rename current new_path d)) (\<lambda>_ d. (WOk (Some new_path, map_source (set_first_file new_path) mt), d))
               else (WOk (Some current, mt), d)
           | None \<Rightarrow> (WOk (Some current, mt), d))
      | _ \<Rightarrow>
          (case new_path of
             Some new_path \<Rightarrow> (WOk (Some new_path, map_source (\<lambda>es. es @ [EFile new_path]) mt), d)
           | None \<Rightarrow> (WOk (None, mt), d)))"

text \<open>The result is the metadata and the properties the instance gets, \<open>None\<close> when its path is filtered.\<close>

definition update_non_project_properties ::
  "('u, 'v) write_env \<Rightarrow> path \<Rightarrow> 'v properties \<Rightarrow> 'v inst \<Rightarrow> 'u meta \<Rightarrow> disk \<Rightarrow> ('u meta \<times> 'v properties option) wres \<times> disk" where
  "update_non_project_properties env p ps x mt d =
     (let cx = mt_context mt
      in if filtered env cx p then (WOk (mt, None), d)
         else case from_class env (in_class x) (validate_properties ps (cx_syncback_filter cx)) of
                (Some mw, ps) \<Rightarrow>
                  wbind (update_file (update_target env mw p (in_name x) cx (d_fs d)) mt d) (\<lambda>(file_path, mt) d.
                    case file_path of
                      None \<Rightarrow> (WOk (mt, Some ps), d)
                    | Some file_path \<Rightarrow>
                        wbind (middleware_write env mw ps file_path d) (\<lambda>rest d.
                        wbind (update_data env True rest p x mt d) (\<lambda>mt d. (WOk (mt, Some ps), d))))
              | (None, ps) \<Rightarrow> wbind (update_data env False ps p x mt d) (\<lambda>mt d. (WOk (mt, Some ps), d)))"

fun rename_entries ::
  "('u, 'v) write_env \<Rightarrow> meta_context \<Rightarrow> string \<Rightarrow> string \<Rightarrow> source_entry list \<Rightarrow> disk \<Rightarrow> source_entry list wres \<times> disk" where
  "rename_entries env cx from to [] d = (WOk [], d)"
| "rename_entries env cx from to (e # es) d =
     (let rest = (\<lambda>e d. wbind (rename_entries env cx from to es d) (\<lambda>es d. (WOk (e # es), d)));
          move = (\<lambda>p mk.
            let new_path = rename_path p from to
            in if filtered env cx p \<and> filtered env cx new_path then rest e d
               else wbind (io (fs_rename p new_path d)) (\<lambda>_. rest (mk new_path)))
      in case e of
           EFile p \<Rightarrow> move p EFile
         | EData p \<Rightarrow> move p EData
         | _ \<Rightarrow> rest e d)"

text \<open>The files of a renamed instance: its folder with what is in it, else each file.\<close>

definition rename_source ::
  "('u, 'v) write_env \<Rightarrow> string \<Rightarrow> string \<Rightarrow> 'u meta \<Rightarrow> disk \<Rightarrow> 'u meta wres \<times> disk" where
  "rename_source env from to mt d =
     (let cx = mt_context mt
      in case get_folder (mt_source mt) of
           Some (EFolder p) \<Rightarrow>
             let new_path = with_file_name p to
             in if filtered env cx p \<and> filtered env cx new_path then (WOk mt, d)
                else wbind (io (fs_rename p new_path d)) (\<lambda>_ d.
                  (WOk (map_source (\<lambda>es. map (\<lambda>e. case e of
                       EFile q \<Rightarrow> EFile (path_join new_path (path_name q))
                     | EData q \<Rightarrow> EData (path_join new_path (path_name q))
                     | _ \<Rightarrow> e) (set_first_folder new_path es)) mt), d))
         | _ \<Rightarrow>
             wbind (rename_entries env cx from to (src_relevant (mt_source mt)) d) (\<lambda>es d. (WOk (map_source (\<lambda>_. es) mt), d)))"

text \<open>The rename of an update; \<open>None\<close> when the new name or path is refused. The result is the path and the metadata.\<close>

definition update_name ::
  "('u, 'v) write_env \<Rightarrow> ('d, 'm, 'v) tree_ops \<Rightarrow> dref \<Rightarrow> string \<Rightarrow> bool \<Rightarrow> path \<Rightarrow> 'v inst \<Rightarrow> 'u meta \<Rightarrow> ('d, 'm, 'u) wstate
   \<Rightarrow> (path \<times> 'u meta) option wres \<times> ('d, 'm, 'u) wstate" where
  "update_name env ops i name only_name p x mt st =
     (case verify_name env name mt of
        None \<Rightarrow> (WPanic, st)
      | Some (ok, name, mt') \<Rightarrow>
          if \<not> ok then (WOk None, st)
          else (case verify_path env (rename_path p (in_name x) name) name mt' (ws_fs st) (ws_uuid st) of (ok, p, name, mt', k) \<Rightarrow>
            let st = st\<lparr>ws_uuid := k\<rparr>
            in if \<not> ok then (WOk None, st)
               else
                 wbind (on_disk (rename_source env (in_name x) name
                     (mt'\<lparr>mt_source := (mt_source mt')\<lparr>src_inner := SPath p\<rparr>\<rparr>)) st) (\<lambda>mt' st.
                 wbind (if mt_original_name mt \<noteq> mt_original_name mt' \<and> only_name then
                     (case locate_instance_data env name p mt' (ws_fs st) of
                        None \<Rightarrow> (WOk (), st)
                      | Some data_path \<Rightarrow>
                          if filtered env (mt_context mt') data_path then (WOk (), st)
                          else on_disk (write_original_name env data_path mt') st)
                   else (WOk (), st)) (\<lambda>_ st.
                 (WOk (Some (p, mt')),
                  on_tree (put_instance ops i (\<lambda>x. (case mt_original_name mt' of Some n \<Rightarrow> n | None \<Rightarrow> name, in_properties x))) st)))))"

text \<open>\<open>unreachable!()\<close> when the update names a class or metadata.\<close>

definition refuse_rest :: "('u, 'v) updated_snapshot \<Rightarrow> ('d, 'm, 'u) wstate \<Rightarrow> unit wres \<times> ('d, 'm, 'u) wstate" where
  "refuse_rest u st = (if us_class u \<noteq> None \<or> us_meta u \<noteq> None then (WPanic, st) else (WOk (), st))"

definition update_properties ::
  "('u, 'v) write_env \<Rightarrow> ('d, 'm, 'v) tree_ops \<Rightarrow> dref \<Rightarrow> path \<Rightarrow> 'v properties \<Rightarrow> 'u meta \<Rightarrow> ('d, 'm, 'u) wstate
   \<Rightarrow> 'u meta wres \<times> ('d, 'm, 'u) wstate" where
  "update_properties env ops i p ps mt st =
     (case get_instance ops (ws_tree st) i of
        None \<Rightarrow> (WPanic, st)
      | Some x \<Rightarrow>
          wbind (on_disk (update_non_project_properties env p ps x mt) st) (\<lambda>(mt, ps) st.
            (WOk mt, case ps of None \<Rightarrow> st | Some ps \<Rightarrow> on_tree (put_instance ops i (\<lambda>x. (in_name x, ps))) st)))"

definition update_at_path ::
  "('u, 'v) write_env \<Rightarrow> ('d, 'm, 'v) tree_ops \<Rightarrow> ('u, 'v) updated_snapshot \<Rightarrow> path \<Rightarrow> 'v inst \<Rightarrow> 'u meta \<Rightarrow> ('d, 'm, 'u) wstate
   \<Rightarrow> unit wres \<times> ('d, 'm, 'u) wstate" where
  "update_at_path env ops u p x mt st =
     wbind (case us_name u of
              None \<Rightarrow> (WOk (Some (p, mt)), st)
            | Some name \<Rightarrow> update_name env ops (us_id u) name (us_properties u = None) p x mt st) (\<lambda>renamed st.
       case renamed of
         None \<Rightarrow> (WOk (), st)
       | Some (p, mt) \<Rightarrow>
           wbind (case us_properties u of
                    None \<Rightarrow> (WOk mt, st)
                  | Some ps \<Rightarrow> update_properties env ops (us_id u) p ps mt st) (\<lambda>mt st.
             refuse_rest u (on_tree (update_meta ops (us_id u) mt) st)))"


text \<open>The properties of a node: emptied when they go to its mapped path, else written into it.\<close>

definition cleared_node :: "'u project_node \<Rightarrow> 'u project_node" where
  "cleared_node n = ProjectNode (class_name n) (node_path n) (node_tree n) [] None [] None"

definition filled_node :: "'u project_node \<Rightarrow> (string \<times> 'u) list \<Rightarrow> 'u project_node" where
  "filled_node n ps = ProjectNode (class_name n) (node_path n) (node_tree n) ps (node_attributes n) [] None"

definition update_node_properties ::
  "('u, 'v) write_env \<Rightarrow> ('d, 'm, 'v) tree_ops \<Rightarrow> dref \<Rightarrow> 'v properties \<Rightarrow> string \<Rightarrow> path \<Rightarrow> 'u project_node \<Rightarrow> nodepath \<Rightarrow> 'u project
   \<Rightarrow> 'u meta \<Rightarrow> ('d, 'm, 'u) wstate \<Rightarrow> ('u project \<times> 'u meta) wres \<times> ('d, 'm, 'u) wstate" where
  "update_node_properties env ops i ps name p node np proj mt st =
     (case node_path node of
        Some custom \<Rightarrow>
          wbind (update_properties env ops i (we_clean env (with_file_path p (project_path_path custom))) ps mt st) (\<lambda>mt st.
            case find_node_by_path proj np of
              None \<Rightarrow> (WErr (WNoNode np), st)
            | Some n \<Rightarrow> (WOk (put_node np (cleared_node n) proj, mt), st))
      | None \<Rightarrow>
          (case find_node_by_path proj np of
             None \<Rightarrow> (WErr (WNoNode np), st)
           | Some n \<Rightarrow>
               let cls = (case class_name n of Some c \<Rightarrow> c | None \<Rightarrow> name);
                   ps = validate_properties ps (cx_syncback_filter (mt_context mt))
               in (WOk (put_node np (filled_node n (serialize_properties env cls ps)) proj, mt),
                   on_tree (put_instance ops i (\<lambda>x. (in_name x, ps))) st)))"

definition rename_node ::
  "('d, 'm, 'v) tree_ops \<Rightarrow> dref \<Rightarrow> string \<Rightarrow> string \<Rightarrow> path \<Rightarrow> nodepath \<Rightarrow> 'u project \<Rightarrow> 'u meta \<Rightarrow> ('d, 'm, 'u) wstate
   \<Rightarrow> ('u project \<times> 'u meta) wres \<times> ('d, 'm, 'u) wstate" where
  "rename_node ops i new_name name p np proj mt st =
     (case find_node_by_path proj (np_parent np) of
        None \<Rightarrow> (WErr (WNoNode (np_parent np)), st)
      | Some parent_node \<Rightarrow>
          (case map_of (node_tree parent_node) name of
             None \<Rightarrow> (WErr (WNoNode np), st)
           | Some node \<Rightarrow>
               let parent_node = with_tree parent_node (om_insert new_name node (om_remove name (node_tree parent_node)))
               in (WOk (put_node (np_parent np) parent_node proj,
                     mt\<lparr>mt_source := (mt_source mt)\<lparr>src_inner := SProject new_name p node (np_join (np_parent np) new_name)\<rparr>\<rparr>),
                   on_tree (put_instance ops i (\<lambda>x. (new_name, in_properties x))) st)))"

definition update_in_project ::
  "('u, 'v) write_env \<Rightarrow> ('d, 'm, 'v) tree_ops \<Rightarrow> ('u, 'v) updated_snapshot \<Rightarrow> string \<Rightarrow> path \<Rightarrow> 'u project_node \<Rightarrow> nodepath \<Rightarrow> 'u meta
   \<Rightarrow> ('d, 'm, 'u) wstate \<Rightarrow> unit wres \<times> ('d, 'm, 'u) wstate" where
  "update_in_project env ops u name p node np mt st =
     wbind (load_project env p (ws_fs st), st) (\<lambda>proj st.
     wbind (case us_properties u of
              None \<Rightarrow> (WOk (proj, mt), st)
            | Some ps \<Rightarrow> update_node_properties env ops (us_id u) ps name p node np proj mt st) (\<lambda>(proj, mt) st.
     wbind (case us_name u of
              None \<Rightarrow> (WOk (proj, mt), st)
            | Some new_name \<Rightarrow> rename_node ops (us_id u) new_name name p np proj mt st) (\<lambda>(proj, mt) st.
     wbind (on_disk (save_project env proj p) (on_tree (update_meta ops (us_id u) mt) st)) (\<lambda>_. refuse_rest u))))"

text \<open>An update the filter or the scope keeps out.\<close>

definition update_refused :: "('u, 'v) updated_snapshot \<Rightarrow> 'v inst \<Rightarrow> meta_context \<Rightarrow> bool" where
  "update_refused u x cx \<longleftrightarrow>
     (let flt = cx_syncback_filter cx
      in \<not> allows_class (cx_scope cx) (in_class x) \<or> matches_name flt (in_name x) \<or> matches_class flt (in_class x) \<or>
         (case us_name u of Some n \<Rightarrow> matches_name flt n | None \<Rightarrow> False) \<or>
         (case us_class u of Some c \<Rightarrow> matches_class flt c | None \<Rightarrow> False))"

definition apply_update ::
  "('u, 'v) write_env \<Rightarrow> ('d, 'm, 'v) tree_ops \<Rightarrow> ('u, 'v) updated_snapshot \<Rightarrow> ('d, 'm, 'u) wstate \<Rightarrow> unit wres \<times> ('d, 'm, 'u) wstate" where
  "apply_update env ops u st =
     (case get_instance ops (ws_tree st) (us_id u) of
        None \<Rightarrow> (WOk (), st)
      | Some x \<Rightarrow>
          (case get_meta (ws_tree st) (us_id u) of
             None \<Rightarrow> (WPanic, st)
           | Some mt \<Rightarrow>
               if update_refused u x (mt_context mt) then (WOk (), st)
               else let st = on_tree bump st
                    in case src_inner (mt_source mt) of
                         SPath p \<Rightarrow> update_at_path env ops u p x mt st
                       | SProject name p node np \<Rightarrow> update_in_project env ops u name p node np mt st
                       | SNone \<Rightarrow> (WPanic, st)))"

section \<open>Removals\<close>

fun remove_entries :: "('u, 'v) write_env \<Rightarrow> meta_context \<Rightarrow> source_entry list \<Rightarrow> disk \<Rightarrow> unit wres \<times> disk" where
  "remove_entries env cx [] d = (WOk (), d)"
| "remove_entries env cx (e # es) d =
     (let gone = (case e of EProject _ \<Rightarrow> False | _ \<Rightarrow> fs_exists (entry_path e) (d_fs d) \<and> \<not> filtered env cx (entry_path e))
      in if gone then wbind (io (vfs_remove (we_crash env) (entry_path e) d)) (\<lambda>_. remove_entries env cx es)
         else remove_entries env cx es d)"

text \<open>
  The plan that turns a parent that loses its last child from a folder into a file: its new source, the
  moves and the folder; \<open>None\<close> when no rule gives the flat form.
\<close>

definition demote_plan :: "('u, 'v) write_env \<Rightarrow> 'u meta \<Rightarrow> ('u source \<times> (path \<times> path) list \<times> path \<times> path) option" where
  "demote_plan env mt =
     (case src_inner (mt_source mt) of
        SPath folder_path \<Rightarrow>
          (case get_file (mt_source mt) of
             None \<Rightarrow> None
           | Some file \<Rightarrow>
               let cx = mt_context mt; name = path_name folder_path; init_path = entry_path file
               in case Option.bind (find (\<lambda>r. resolve_child (we_matches env) r init_path \<noteq> None) (sync_rules cx)) (\<lambda>r. locate r folder_path name False) of
                    None \<Rightarrow> None
                  | Some new_path \<Rightarrow>
                      (case get_data (mt_source mt) of
                         None \<Rightarrow> Some (source_file new_path, [(init_path, new_path)], folder_path, new_path)
                       | Some data \<Rightarrow>
                           (case locate_by env cx InstanceData folder_path name False of
                              None \<Rightarrow> Some (source_file new_path, [(init_path, new_path)], folder_path, new_path)
                            | Some new_data \<Rightarrow>
                                Some (add_data new_data (source_file new_path), [(init_path, new_path), (entry_path data, new_data)], folder_path, new_path))))
      | _ \<Rightarrow> None)"

definition demote_parent ::
  "('u, 'v) write_env \<Rightarrow> dref \<Rightarrow> ('d, 'm, 'u) wstate \<Rightarrow> unit wres \<times> ('d, 'm, 'u) wstate" where
  "demote_parent env parent st =
     (case get_meta (ws_tree st) parent of
        None \<Rightarrow> (WPanic, on_tree bump st)
      | Some mt \<Rightarrow>
          let st = on_tree bump st
          in case demote_plan env mt of
               None \<Rightarrow> (WOk (), st)
             | Some (src, moves, folder_path, new_path) \<Rightarrow>
                 (case to_flat folder_path new_path moves (\<lambda>q. fs_exists q (ws_fs st)) of
                    Inl e \<Rightarrow> (WErr (WReshape e), st)
                  | Inr r \<Rightarrow>
                      (case holds_only folder_path (map fst moves) (ws_fs st) of
                         Inl e \<Rightarrow> (WErr (WReshape e), st)
                       | Inr only \<Rightarrow>
                           if \<not> only \<or> find (\<lambda>target. fs_exists target (ws_fs st)) (rs_targets r) \<noteq> None then (WOk (), st)
                           else wbind (on_disk (run_moves env (Inr r)) st) (\<lambda>_ st.
                             (WOk (), on_tree (\<lambda>t. t\<lparr>t_id_to_meta := (t_id_to_meta t)(parent := map_option (\<lambda>mt. mt\<lparr>mt_source := src\<rparr>) (t_id_to_meta t parent))\<rparr>) st)))))"

definition remove_non_project_instances ::
  "('u, 'v) write_env \<Rightarrow> ('d, 'm, 'v) tree_ops \<Rightarrow> dref \<Rightarrow> 'u meta \<Rightarrow> ('d, 'm, 'u) wstate \<Rightarrow> unit wres \<times> ('d, 'm, 'u) wstate" where
  "remove_non_project_instances env ops i mt st =
     wbind (on_disk (remove_entries env (mt_context mt) (src_relevant (mt_source mt))) st) (\<lambda>_ st.
       case Option.bind (get_instance ops (ws_tree st) i) (\<lambda>x. map_option (\<lambda>px. (in_parent x, px)) (get_instance ops (ws_tree st) (in_parent x))) of
         None \<Rightarrow> (WPanic, st)
       | Some (parent, px) \<Rightarrow> if length (in_children px) \<noteq> 1 then (WOk (), st) else demote_parent env parent st)"

definition remove_source ::
  "('u, 'v) write_env \<Rightarrow> ('d, 'm, 'v) tree_ops \<Rightarrow> dref \<Rightarrow> 'u meta \<Rightarrow> ('d, 'm, 'u) wstate \<Rightarrow> unit wres \<times> ('d, 'm, 'u) wstate" where
  "remove_source env ops i mt st =
     (case src_inner (mt_source mt) of
        SPath _ \<Rightarrow> remove_non_project_instances env ops i mt st
      | SProject name p node np \<Rightarrow>
          wbind (load_project env p (ws_fs st), st) (\<lambda>proj st.
            case Option.bind (find_node_by_path proj (np_parent np)) (\<lambda>n. if map_of (node_tree n) name = None then None else Some n) of
              None \<Rightarrow> (WErr (WNoNode np), st)
            | Some n \<Rightarrow>
                wbind (if node_path node \<noteq> None then remove_non_project_instances env ops i mt st else (WOk (), st)) (\<lambda>_.
                  on_disk (save_project env (put_node (np_parent np) (with_tree n (om_remove name (node_tree n))) proj) p)))
      | SNone \<Rightarrow> (WOk (), st))"

definition apply_removal ::
  "('u, 'v) write_env \<Rightarrow> ('d, 'm, 'v) tree_ops \<Rightarrow> dref \<Rightarrow> ('d, 'm, 'u) wstate \<Rightarrow> unit wres \<times> ('d, 'm, 'u) wstate" where
  "apply_removal env ops i st =
     (case get_instance ops (ws_tree st) i of
        None \<Rightarrow> (WOk (), st)
      | Some x \<Rightarrow>
          (case get_meta (ws_tree st) i of
             None \<Rightarrow> (WPanic, st)
           | Some mt \<Rightarrow>
               let flt = cx_syncback_filter (mt_context mt)
               in if matches_name flt (in_name x) \<or> matches_class flt (in_class x) then (WOk (), st)
                  else wbind (remove_source env ops i mt st) (\<lambda>_ st.
                    case remove_instance ops i (ws_tree st) of
                      Some (Some t) \<Rightarrow> (WOk (), st\<lparr>ws_tree := t\<rparr>)
                    | _ \<Rightarrow> (WPanic, st))))"

end
