(* ===== verification/Processor.thy ===== *)
theory Processor
  imports Write Read Vfs Queue Conflict
begin

text \<open>
  The change processor (\<^verbatim>\<open>src/core/processor/mod.rs\<close>): the handler of file events, which reads what
  changed and passes it through the conflict engine to the queue; the handler of client writes, which
  decides each operation, applies it and reports the batch; the fence; and the loop that serves the
  three channels in any order.

  One thread runs the loop and holds the tree for a whole event, so an event is one step. The clock
  reads the same during one event. A panic, or a walk that does not end, is \<open>None\<close> for a
  file event and \<open>WPanic\<close> inside a batch: the thread is gone and nothing is answered.
\<close>

section \<open>State\<close>

definition RESOLUTION_CLIENT_ID :: u32 where "RESOLUTION_CLIENT_ID = - 1"

record ('u, 'v) write_request =
  wq_changes :: "('u, 'v) changes"
  wq_client_id :: u32
  wq_reply :: bool

datatype batch_error = ThresholdDeclined | OperationFailed write_error

record write_result =
  wr_applied :: nat
  wr_skipped :: nat
  wr_conflicts :: nat
  wr_errors :: "batch_error list"

definition result_ok :: "write_result \<Rightarrow> bool" where
  "result_ok r \<longleftrightarrow> wr_errors r = []"

record ('c, 'd, 'm, 'u, 'v, 'j) handler =
  hd_write :: "('d, 'm, 'u) wstate"
  hd_draws :: nat
  hd_engine :: "('v, 'j) engine_state"
  hd_notices :: "('v, 'j) parked_rec list"
  hd_queue :: "'c queue"
  hd_project :: "'u project"

record ('c, 'd, 'm, 'u, 'v, 'j) handler_env =
  he_write :: "('u, 'v) write_env"
  he_ops :: "('d, 'm, 'v) tree_ops"
  he_draw :: "nat \<Rightarrow> dref"
  he_reader :: "fnode \<Rightarrow> ('u, 'v) reader"
  he_codec :: "('v, 'j) codec"
  he_show_path :: "path \<Rightarrow> string"
  he_channels :: "('c, ('u, 'v) message) channel_ops"
  he_now :: instant
  he_stamp :: string
  he_conflict_engine :: bool
  he_changes_threshold :: nat
  he_accept :: bool
  he_version :: string

abbreviation hd_tree :: "('c, 'd, 'm, 'u, 'v, 'j) handler \<Rightarrow> ('d, 'm, 'u) tree" where
  "hd_tree h \<equiv> ws_tree (hd_write h)"

abbreviation content_at :: "('c, 'd, 'm, 'u, 'v, 'j) handler_env \<Rightarrow> 'v inst \<Rightarrow> 'j content_state" where
  "content_at env x \<equiv> content_new (he_codec env) (in_name x) (in_class x) (in_properties x)"

section \<open>File events\<close>

text \<open>The instances of the nearest path that has any.\<close>

function tracked_ids :: "('d, 'm, 'v) tree_ops \<Rightarrow> ('d, 'm, 'u) tree \<Rightarrow> path \<Rightarrow> dref list option" where
  "tracked_ids ops t p =
     (case get_ids ops t p of
        Some ids \<Rightarrow> Some ids
      | None \<Rightarrow> if path_parent p = p then None else tracked_ids ops t (path_parent p))"
  by pat_completeness auto

termination
  by (relation "measure (\<lambda>(ops, t, p). length p)") (auto simp: path_parent_def split: if_splits)

declare tracked_ids.simps [simp del]

definition event_ignored :: "path \<Rightarrow> bool" where
  "event_ignored p \<longleftrightarrow> (p \<noteq> [] \<and> last p \<in> set BLACKLISTED_PATHS) \<or> list_ex (\<lambda>c. c \<in> set RUNTIME_DIRS) p"

text \<open>Every instance of the path is captured and read again; the captures go by instance.\<close>

fun read_ids ::
  "('c, 'd, 'm, 'u, 'v, 'j) handler_env \<Rightarrow> dref list \<Rightarrow> ('u, 'v) changes \<Rightarrow> (dref \<rightharpoonup> ('v, 'j) captured) \<Rightarrow> ('c, 'd, 'm, 'u, 'v, 'j) handler
   \<Rightarrow> (('u, 'v) changes \<times> (dref \<rightharpoonup> ('v, 'j) captured) \<times> ('c, 'd, 'm, 'u, 'v, 'j) handler) option" where
  "read_ids env [] ch pre h = Some (ch, pre, h)"
| "read_ids env (i # ids) ch pre h =
     (case (if he_conflict_engine env then capture_subtree (he_codec env) (he_show_path env) (he_ops env) (hd_tree h) (pj_workspace_dir (hd_project h)) i else Some []) of
        None \<Rightarrow> None
      | Some caps \<Rightarrow>
          let pre = fold (\<lambda>c m. m(info_id (cap_info c) \<mapsto> c)) caps pre
          in (case process_changes (he_reader env (ws_fs (hd_write h))) (he_ops env) (he_draw env) i (hd_tree h, hd_draws h) of
                None \<Rightarrow> None
              | Some (processed, t, k) \<Rightarrow>
                  read_ids env ids (case processed of Some p \<Rightarrow> changes_extend p ch | None \<Rightarrow> ch) pre
                    (h\<lparr>hd_write := (hd_write h)\<lparr>ws_tree := t\<rparr>, hd_draws := k\<rparr>)))"

text \<open>The gate: what was parked or did not change is withheld from Studio.\<close>

fun stamp_added :: "('c, 'd, 'm, 'u, 'v, 'j) handler_env \<Rightarrow> ('u, 'v) snapshot \<Rightarrow> ('v, 'j) engine_state \<Rightarrow> ('v, 'j) engine_state" where
  "stamp_added env (Snapshot sid mt name cls ps children) e =
     fold (stamp_added env) children (snd (on_fs_addition (he_now env) sid (content_new (he_codec env) name cls ps) e))"

definition gate_addition ::
  "('c, 'd, 'm, 'u, 'v, 'j) handler_env \<Rightarrow> ('u, 'v) added_snapshot \<Rightarrow> ('u, 'v) changes \<times> ('v, 'j) engine_state \<times> ('v, 'j) parked_rec list
   \<Rightarrow> ('u, 'v) changes \<times> ('v, 'j) engine_state \<times> ('v, 'j) parked_rec list" where
  "gate_addition env a = (\<lambda>(g, e, notes). (g\<lparr>additions := additions g @ [a]\<rparr>, stamp_added env (from_added a) e, notes))"

definition gate_update ::
  "('c, 'd, 'm, 'u, 'v, 'j) handler_env \<Rightarrow> ('d, 'm, 'u) tree \<Rightarrow> (dref \<rightharpoonup> ('v, 'j) captured) \<Rightarrow> ('u, 'v) updated_snapshot
   \<Rightarrow> ('u, 'v) changes \<times> ('v, 'j) engine_state \<times> ('v, 'j) parked_rec list \<Rightarrow> ('u, 'v) changes \<times> ('v, 'j) engine_state \<times> ('v, 'j) parked_rec list" where
  "gate_update env t pre u = (\<lambda>(g, e, notes).
     if us_name u = None \<and> us_class u = None \<and> us_properties u = None then (changes_update u g, e, notes)
     else case (pre (us_id u), get_instance (he_ops env) t (us_id u)) of
            (Some c, Some x) \<Rightarrow>
              (case on_fs_update (he_now env) c (content_at env x) e of
                 (Propagate, e) \<Rightarrow> (changes_update u g, e, notes)
               | (_, e) \<Rightarrow> (g, e, notes))
          | _ \<Rightarrow> (changes_update u g, e, notes))"

definition gate_removal ::
  "('c, 'd, 'm, 'u, 'v, 'j) handler_env \<Rightarrow> (dref \<rightharpoonup> ('v, 'j) captured) \<Rightarrow> dref
   \<Rightarrow> ('u, 'v) changes \<times> ('v, 'j) engine_state \<times> ('v, 'j) parked_rec list \<Rightarrow> ('u, 'v) changes \<times> ('v, 'j) engine_state \<times> ('v, 'j) parked_rec list" where
  "gate_removal env pre i = (\<lambda>(g, e, notes).
     case pre i of
       None \<Rightarrow> (changes_remove i g, e, notes)
     | Some c \<Rightarrow>
         (case on_fs_removal (he_now env) c e of
            (Propagate, e, new) \<Rightarrow> (changes_remove i g, e, notes @ new)
          | (_, e, new) \<Rightarrow> (g, e, notes @ new)))"

definition gate_fs_changes ::
  "('c, 'd, 'm, 'u, 'v, 'j) handler_env \<Rightarrow> ('u, 'v) changes \<Rightarrow> ('d, 'm, 'u) tree \<Rightarrow> (dref \<rightharpoonup> ('v, 'j) captured) \<Rightarrow> ('v, 'j) engine_state
   \<Rightarrow> ('u, 'v) changes \<times> ('v, 'j) engine_state \<times> ('v, 'j) parked_rec list" where
  "gate_fs_changes env ch t pre e =
     fold (gate_removal env pre) (removals ch)
       (fold (gate_update env t pre) (updates ch)
         (fold (gate_addition env) (additions ch) (changes_new, e, [])))"


definition project_details_of :: "('c, 'd, 'm, 'u, 'v, 'j) handler_env \<Rightarrow> 'u project \<Rightarrow> ('d, 'm, 'u) tree \<Rightarrow> project_details" where
  "project_details_of env p t =
     \<lparr>pd_version = he_version env, pd_name = pj_name p, pd_game_id = pj_game_id p, pd_place_ids = pj_place_ids p,
      pd_root_refs = (if is_place p then place_root_refs (he_ops env) t else [root_ref (he_ops env) t])\<rparr>"

text \<open>A failed push is only logged.\<close>

definition push_message ::
  "('c, 'd, 'm, 'u, 'v, 'j) handler_env \<Rightarrow> ('u, 'v) message \<Rightarrow> u32 option \<Rightarrow> ('c, 'd, 'm, 'u, 'v, 'j) handler \<Rightarrow> ('c, 'd, 'm, 'u, 'v, 'j) handler" where
  "push_message env m target h = h\<lparr>hd_queue := fst (push (he_channels env) m target (hd_queue h))\<rparr>"

text \<open>A write to the project file itself reloads the project and tells the clients what changed.\<close>

definition reload_project ::
  "('c, 'd, 'm, 'u, 'v, 'j) handler_env \<Rightarrow> vfs_event \<Rightarrow> ('c, 'd, 'm, 'u, 'v, 'j) handler \<Rightarrow> ('c, 'd, 'm, 'u, 'v, 'j) handler" where
  "reload_project env ev h =
     (if pj_path (hd_project h) \<noteq> event_path ev then h
      else case ev of
             vfs_event.Write _ \<Rightarrow>
               (case load_project (he_write env) (pj_path (hd_project h)) (ws_fs (hd_write h)) of
                  WOk p \<Rightarrow>
                    let old = project_details_of env (hd_project h) (hd_tree h);
                        details = project_details_of env p (hd_tree h);
                        h = h\<lparr>hd_project := p\<rparr>
                    in if details = old then h else push_message env (SyncDetails details) None h
                | _ \<Rightarrow> h)
           | _ \<Rightarrow> h)"

definition on_vfs_event ::
  "('c, 'd, 'm, 'u, 'v, 'j) handler_env \<Rightarrow> vfs_event \<Rightarrow> ('c, 'd, 'm, 'u, 'v, 'j) handler \<Rightarrow> ('c, 'd, 'm, 'u, 'v, 'j) handler option" where
  "on_vfs_event env ev h =
     (if event_ignored (event_path ev) then Some h
      else case tracked_ids (he_ops env) (hd_tree h) (event_path ev) of
             None \<Rightarrow> Some h
           | Some ids \<Rightarrow>
               (case read_ids env ids changes_new Map.empty h of
                  None \<Rightarrow> None
                | Some (ch, pre, h) \<Rightarrow>
                    let (ch, e, notes) = (if he_conflict_engine env then gate_fs_changes env ch (hd_tree h) pre (hd_engine h) else (ch, hd_engine h, []));
                        h = h\<lparr>hd_engine := e, hd_notices := hd_notices h @ notes\<rparr>;
                        h = (if changes_is_empty ch then h else push_message env (SyncChanges ch) None h)
                    in Some (reload_project env ev h)))"

section \<open>Client writes\<close>

record ('c, 'd, 'm, 'u, 'v, 'j) batch =
  b_applied :: nat
  b_conflicts :: nat
  b_handler :: "('c, 'd, 'm, 'u, 'v, 'j) handler"

type_synonym ('c, 'd, 'm, 'u, 'v, 'j) bstep = "('c, 'd, 'm, 'u, 'v, 'j) batch \<Rightarrow> unit wres \<times> ('c, 'd, 'm, 'u, 'v, 'j) batch"

definition on_engine :: "(('v, 'j) engine_state \<Rightarrow> ('v, 'j) engine_state) \<Rightarrow> ('c, 'd, 'm, 'u, 'v, 'j) batch \<Rightarrow> ('c, 'd, 'm, 'u, 'v, 'j) batch" where
  "on_engine f b = b\<lparr>b_handler := (b_handler b)\<lparr>hd_engine := f (hd_engine (b_handler b))\<rparr>\<rparr>"

definition on_write ::
  "(('d, 'm, 'u) wstate \<Rightarrow> unit wres \<times> ('d, 'm, 'u) wstate) \<Rightarrow> ('c, 'd, 'm, 'u, 'v, 'j) bstep" where
  "on_write f b = (case f (hd_write (b_handler b)) of (r, w) \<Rightarrow> (r, b\<lparr>b_handler := (b_handler b)\<lparr>hd_write := w\<rparr>\<rparr>))"

definition count_applied :: "('c, 'd, 'm, 'u, 'v, 'j) bstep" where
  "count_applied b = (WOk (), b\<lparr>b_applied := b_applied b + 1\<rparr>)"

definition stamp_instance :: "('c, 'd, 'm, 'u, 'v, 'j) handler_env \<Rightarrow> dref \<Rightarrow> ('c, 'd, 'm, 'u, 'v, 'j) batch \<Rightarrow> ('c, 'd, 'm, 'u, 'v, 'j) batch" where
  "stamp_instance env i b =
     (case get_instance (he_ops env) (hd_tree (b_handler b)) i of
        None \<Rightarrow> b
      | Some x \<Rightarrow> on_engine (stamp i (cs_hash (content_at env x))) b)"

definition stamp_added_tree :: "('c, 'd, 'm, 'u, 'v, 'j) handler_env \<Rightarrow> dref \<Rightarrow> ('c, 'd, 'm, 'u, 'v, 'j) bstep" where
  "stamp_added_tree env i b =
     (case subtree_refs (he_ops env) (hd_tree (b_handler b)) i of
        None \<Rightarrow> (WPanic, b)
      | Some ids \<Rightarrow> (WOk (), fold (stamp_instance env) ids b))"

text \<open>The decision of the engine; the notices of what it parks are kept.\<close>

definition decide ::
  "(('v, 'j) engine_state \<Rightarrow> push_decision \<times> ('v, 'j) engine_state \<times> ('v, 'j) parked_rec list)
   \<Rightarrow> ('c, 'd, 'm, 'u, 'v, 'j) batch \<Rightarrow> push_decision wres \<times> ('c, 'd, 'm, 'u, 'v, 'j) batch" where
  "decide f b =
     (case f (hd_engine (b_handler b)) of (dec, e, new) \<Rightarrow>
        (WOk dec, b\<lparr>b_handler := (b_handler b)\<lparr>hd_engine := e, hd_notices := hd_notices (b_handler b) @ new\<rparr>\<rparr>))"

definition capture_of ::
  "('c, 'd, 'm, 'u, 'v, 'j) handler_env \<Rightarrow> dref \<Rightarrow> ('c, 'd, 'm, 'u, 'v, 'j) handler \<Rightarrow> ('v, 'j) captured option option" where
  "capture_of env i h = capture_instance (he_codec env) (he_show_path env) (he_ops env) (hd_tree h) (pj_workspace_dir (hd_project h)) i"

definition decide_push_update ::
  "('c, 'd, 'm, 'u, 'v, 'j) handler_env \<Rightarrow> ('u, 'v) updated_snapshot \<Rightarrow> ('c, 'd, 'm, 'u, 'v, 'j) batch
   \<Rightarrow> push_decision wres \<times> ('c, 'd, 'm, 'u, 'v, 'j) batch" where
  "decide_push_update env u b =
     (if us_name u = None \<and> us_properties u = None then (WOk Apply, b)
      else case capture_of env (us_id u) (b_handler b) of
             None \<Rightarrow> (WPanic, b)
           | Some (Some pre) \<Rightarrow>
               let name = (case us_name u of Some n \<Rightarrow> n | None \<Rightarrow> cs_name (cap_content pre));
                   ps = (case us_properties u of Some ps \<Rightarrow> ps | None \<Rightarrow> cap_properties pre);
                   cls = cs_class (cap_content pre)
               in decide (on_push_update (he_now env) (he_stamp env) pre (content_new (he_codec env) name cls ps)
                    \<lparr>sa_name = name, sa_class = cls, sa_properties = ps\<rparr>) b
           | Some None \<Rightarrow> decide (on_push_update_missing (he_codec env) (he_now env) (he_stamp env) (us_id u) (us_name u) (us_properties u)) b)"

definition decide_push_removal ::
  "('c, 'd, 'm, 'u, 'v, 'j) handler_env \<Rightarrow> dref \<Rightarrow> ('c, 'd, 'm, 'u, 'v, 'j) batch \<Rightarrow> push_decision wres \<times> ('c, 'd, 'm, 'u, 'v, 'j) batch" where
  "decide_push_removal env i b =
     (case capture_of env i (b_handler b) of
        None \<Rightarrow> (WPanic, b)
      | Some (Some pre) \<Rightarrow> decide (on_push_removal (he_now env) (he_stamp env) pre) b
      | Some None \<Rightarrow> decide (\<lambda>e. case on_push_removal_missing (he_now env) i e of (dec, e) \<Rightarrow> (dec, e, [])) b)"

definition push_addition :: "('c, 'd, 'm, 'u, 'v, 'j) handler_env \<Rightarrow> bool \<Rightarrow> ('u, 'v) added_snapshot \<Rightarrow> ('c, 'd, 'm, 'u, 'v, 'j) bstep" where
  "push_addition env bypass a b =
     (let b = (if he_conflict_engine env \<and> \<not> bypass then on_engine (\<lambda>e. snd (on_push_addition (he_now env) (as_id a) e)) b else b)
      in wbind (on_write (apply_addition (he_write env) (he_ops env) a) b) (\<lambda>_ b.
         wbind (if he_conflict_engine env then stamp_added_tree env (as_id a) b else (WOk (), b)) (\<lambda>_. count_applied)))"

text \<open>What is decided before an update or a removal is applied.\<close>

definition by_decision ::
  "push_decision wres \<times> ('c, 'd, 'm, 'u, 'v, 'j) batch \<Rightarrow> ('c, 'd, 'm, 'u, 'v, 'j) bstep
   \<Rightarrow> unit wres \<times> ('c, 'd, 'm, 'u, 'v, 'j) batch" where
  "by_decision decided go =
     wbind decided (\<lambda>dec b.
       case dec of
         Apply \<Rightarrow> go b
       | PushNoChange \<Rightarrow> count_applied b
       | PushConflict \<Rightarrow> (WOk (), b\<lparr>b_conflicts := b_conflicts b + 1\<rparr>))"

definition push_update :: "('c, 'd, 'm, 'u, 'v, 'j) handler_env \<Rightarrow> bool \<Rightarrow> ('u, 'v) updated_snapshot \<Rightarrow> ('c, 'd, 'm, 'u, 'v, 'j) bstep" where
  "push_update env bypass u b =
     by_decision (if he_conflict_engine env \<and> \<not> bypass then decide_push_update env u b else (WOk Apply, b)) (\<lambda>b.
       wbind (on_write (apply_update (he_write env) (he_ops env) u) b) (\<lambda>_ b.
         count_applied (if he_conflict_engine env then stamp_instance env (us_id u) b else b)))"

definition push_removal :: "('c, 'd, 'm, 'u, 'v, 'j) handler_env \<Rightarrow> bool \<Rightarrow> dref \<Rightarrow> ('c, 'd, 'm, 'u, 'v, 'j) bstep" where
  "push_removal env bypass i b =
     by_decision (if he_conflict_engine env \<and> \<not> bypass then decide_push_removal env i b else (WOk Apply, b)) (\<lambda>b.
       case (if he_conflict_engine env then subtree_refs (he_ops env) (hd_tree (b_handler b)) i else Some []) of
         None \<Rightarrow> (WPanic, b)
       | Some refs \<Rightarrow>
           wbind (on_write (apply_removal (he_write env) (he_ops env) i) b) (\<lambda>_ b.
             count_applied (fold (\<lambda>r. on_engine (forget r)) refs b)))"

fun run_steps :: "('a \<Rightarrow> ('c, 'd, 'm, 'u, 'v, 'j) bstep) \<Rightarrow> 'a list \<Rightarrow> ('c, 'd, 'm, 'u, 'v, 'j) bstep" where
  "run_steps f [] b = (WOk (), b)"
| "run_steps f (x # xs) b = wbind (f x b) (\<lambda>_. run_steps f xs)"

definition run_batch :: "('c, 'd, 'm, 'u, 'v, 'j) handler_env \<Rightarrow> bool \<Rightarrow> ('u, 'v) changes \<Rightarrow> ('c, 'd, 'm, 'u, 'v, 'j) bstep" where
  "run_batch env bypass ch b =
     wbind (run_steps (push_addition env bypass) (additions ch) b) (\<lambda>_ b.
     wbind (run_steps (push_update env bypass) (updates ch) b) (\<lambda>_.
     run_steps (push_removal env bypass) (removals ch)))"

text \<open>Subtraction of \<open>usize\<close>: \<open>None\<close> is the overflow.\<close>

definition checked_sub :: "nat \<Rightarrow> nat \<Rightarrow> nat option" where
  "checked_sub a b = (if b \<le> a then Some (a - b) else None)"

definition batch_result :: "nat \<Rightarrow> unit wres \<Rightarrow> ('c, 'd, 'm, 'u, 'v, 'j) batch \<Rightarrow> write_result option" where
  "batch_result total_ops res b =
     (let errors = (case res of WErr e \<Rightarrow> [OperationFailed e] | _ \<Rightarrow> []);
          errored = (if errors = [] then 0 else 1)
      in Option.bind (checked_sub total_ops (b_applied b)) (\<lambda>n. Option.bind (checked_sub n (b_conflicts b)) (\<lambda>n.
         map_option (\<lambda>n. \<lparr>wr_applied = b_applied b, wr_skipped = n, wr_conflicts = b_conflicts b, wr_errors = errors\<rparr>) (checked_sub n errored))))"

text \<open>The outer \<open>None\<close>: the thread is gone. The inner one: no reply was asked for.\<close>

definition on_client_event ::
  "('c, 'd, 'm, 'u, 'v, 'j) handler_env \<Rightarrow> ('u, 'v) write_request \<Rightarrow> ('c, 'd, 'm, 'u, 'v, 'j) handler
   \<Rightarrow> (write_result option \<times> ('c, 'd, 'm, 'u, 'v, 'j) handler) option" where
  "on_client_event env rq h =
     (let n = changes_total (wq_changes rq);
          bypass = (wq_client_id rq = RESOLUTION_CLIENT_ID)
      in if \<not> he_conflict_engine env \<and> \<not> bypass \<and> n > he_changes_threshold env \<and> \<not> he_accept env then
           Some (if wq_reply rq then Some \<lparr>wr_applied = 0, wr_skipped = n, wr_conflicts = 0, wr_errors = [ThresholdDeclined]\<rparr> else None,
             h\<lparr>hd_queue := fst (disconnect (he_channels env) ''Client and server got out of sync!'' (wq_client_id rq) (hd_queue h))\<rparr>)
         else case run_batch env bypass (wq_changes rq) \<lparr>b_applied = 0, b_conflicts = 0, b_handler = h\<rparr> of
                (WPanic, _) \<Rightarrow> None
              | (WCut, _) \<Rightarrow> None
              | (res, b) \<Rightarrow>
                  (let h = push_message env SyncbackChanges (Some 0) (b_handler b)
                   in if \<not> wq_reply rq then Some (None, h)
                      else map_option (\<lambda>r. (Some r, h)) (batch_result n res b)))"


section \<open>The loop\<close>

text \<open>
  The thread takes from whichever of its channels is ready. A fence handles the events its
  channel holds at that moment before it answers with their number.
\<close>

record ('c, 'd, 'm, 'u, 'v, 'j) processor =
  pr_handler :: "('c, 'd, 'm, 'u, 'v, 'j) handler"
  pr_events :: "vfs_event list"
  pr_writes :: "('u, 'v) write_request list"
  pr_fences :: "nat list"

datatype ('u, 'v) proc_label =
    Arrives vfs_event
  | Handles vfs_event
  | AsksWrite "('u, 'v) write_request"
  | Writes "write_result option"
  | AsksFence nat
  | AnswersFence nat "vfs_event list"

fun drain ::
  "('c, 'd, 'm, 'u, 'v, 'j) handler_env \<Rightarrow> vfs_event list \<Rightarrow> ('c, 'd, 'm, 'u, 'v, 'j) handler \<Rightarrow> ('c, 'd, 'm, 'u, 'v, 'j) handler option" where
  "drain env [] h = Some h"
| "drain env (ev # evs) h = Option.bind (on_vfs_event env ev h) (drain env evs)"

inductive proc_step ::
  "('c, 'd, 'm, 'u, 'v, 'j) handler_env \<Rightarrow> ('c, 'd, 'm, 'u, 'v, 'j) processor \<Rightarrow> ('u, 'v) proc_label
   \<Rightarrow> ('c, 'd, 'm, 'u, 'v, 'j) processor \<Rightarrow> bool" for env where
  Arrive: "proc_step env p (Arrives ev) (p\<lparr>pr_events := pr_events p @ [ev]\<rparr>)"
| AskWrite: "proc_step env p (AsksWrite rq) (p\<lparr>pr_writes := pr_writes p @ [rq]\<rparr>)"
| AskFence: "proc_step env p (AsksFence f) (p\<lparr>pr_fences := pr_fences p @ [f]\<rparr>)"
| Event: "pr_events p = ev # evs \<Longrightarrow> on_vfs_event env ev (pr_handler p) = Some h \<Longrightarrow>
    proc_step env p (Handles ev) (p\<lparr>pr_handler := h, pr_events := evs\<rparr>)"
| Client: "pr_writes p = rq # rqs \<Longrightarrow> on_client_event env rq (pr_handler p) = Some (r, h) \<Longrightarrow>
    proc_step env p (Writes r) (p\<lparr>pr_handler := h, pr_writes := rqs\<rparr>)"
| Fence: "pr_fences p = f # fs \<Longrightarrow> drain env (pr_events p) (pr_handler p) = Some h \<Longrightarrow>
    proc_step env p (AnswersFence f (pr_events p)) (p\<lparr>pr_handler := h, pr_events := [], pr_fences := fs\<rparr>)"

inductive proc_run ::
  "('c, 'd, 'm, 'u, 'v, 'j) handler_env \<Rightarrow> ('c, 'd, 'm, 'u, 'v, 'j) processor \<Rightarrow> ('u, 'v) proc_label list
   \<Rightarrow> ('c, 'd, 'm, 'u, 'v, 'j) processor \<Rightarrow> bool" for env where
  Start: "proc_run env p [] p"
| Step: "proc_run env p ls q \<Longrightarrow> proc_step env q l r \<Longrightarrow> proc_run env p (ls @ [l]) r"

inductive_cases proc_step_cases: "proc_step env p l q"

end
