(* ===== verification/WriteSafety.thy ===== *)
theory WriteSafety
  imports Write ReadSafety FormatsSafety
begin

text \<open>
  What the write path guarantees, whatever the outcome: an operation that fails, panics or is cut off
  leaves a well-formed tree, an addition adds only the instances it names and only of classes in the
  project's scope, an update changes its own instance only, a removal spares what the filter protects.
\<close>

section \<open>Steps that keep a relation\<close>

locale write_frame =
  fixes R :: "'s \<Rightarrow> 's \<Rightarrow> bool"
  assumes kept_refl: "R s s"
    and kept_trans: "R s t \<Longrightarrow> R t u \<Longrightarrow> R s u"
begin

lemma bind_kept:
  assumes "R s (snd r)" "\<And>x t. r = (WOk x, t) \<Longrightarrow> R t (snd (f x t))"
  shows "R s (snd (wbind r f))"
proof -
  obtain res t where r: "r = (res, t)" by fastforce
  show ?thesis using assms kept_trans [of s t] by (cases res) (auto simp: wbind_def r)
qed

lemma both_kept: "R s t \<Longrightarrow> R t (snd r) \<Longrightarrow> R s (snd r)"
  by (rule kept_trans)

end

definition tree_same :: "('d, 'm, 'u) wstate \<Rightarrow> ('d, 'm, 'u) wstate \<Rightarrow> bool" where
  "tree_same st st' \<longleftrightarrow> ws_tree st' = ws_tree st"

interpretation st: write_frame tree_same
  by unfold_locales (simp_all add: tree_same_def)

lemma tree_same_disk: "tree_same st (snd (on_disk f st))"
  by (simp add: tree_same_def on_disk_def split: prod.splits)

lemma tree_same_drop: "tree_same (st\<lparr>ws_uuid := k\<rparr>) st' \<longleftrightarrow> tree_same st st'" "tree_same st (st\<lparr>ws_uuid := k\<rparr>)" "tree_same st st"
  by (simp_all add: tree_same_def)

lemma tree_same_next: "tree_same st (snd (on_disk f (st\<lparr>ws_uuid := k\<rparr>)))"
  using tree_same_disk [of "st\<lparr>ws_uuid := k\<rparr>" f] by (simp only: tree_same_drop(1))

lemma tree_same_then: "tree_same st (snd (wbind (on_disk f (st\<lparr>ws_uuid := k\<rparr>)) (\<lambda>_. on_disk g)))"
  "tree_same st (snd (wbind (on_disk f (st\<lparr>ws_uuid := k\<rparr>)) (\<lambda>x st. (g' x, st))))"
  by (rule st.bind_kept [OF tree_same_next], simp add: tree_same_disk tree_same_drop)+

lemmas tree_same_rules = tree_same_disk tree_same_next tree_same_then tree_same_drop

lemma write_instance_same: "tree_same st (snd (write_instance env hc p s pm st))"
  by (simp add: write_instance_def Let_def tree_same_rules split: prod.splits option.splits)

lemma promote_parent_same: "tree_same st (snd (promote_parent env p n pm st))"
proof (cases "flat_rule env (mt_context pm) p (ws_fs st)")
  case (Some r)
  show ?thesis
    unfolding promote_parent_def Let_def Some option.case
    by (rule st.bind_kept [OF tree_same_disk]) (simp add: tree_same_rules split: prod.splits option.splits)
qed (simp add: promote_parent_def tree_same_drop)

lemma promote_parent_context:
  "promote_parent env p n pm st = (WOk (res, pm'), st') \<Longrightarrow> mt_context pm' = mt_context pm"
  by (auto simp: promote_parent_def verify_path_def Let_def wbind_WOk split: option.splits if_splits prod.splits)


section \<open>Additions\<close>

abbreviation alive :: "('d, 'm, 'v) tree_ops \<Rightarrow> ('d, 'm, 'u) wstate \<Rightarrow> dref \<Rightarrow> bool" where
  "alive ops st i \<equiv> exists_inst ops (ws_tree st) i"

text \<open>Nothing goes, nothing changes its class, and what is new is named by \<open>ids\<close> and of a class in scope.\<close>

definition grew :: "('d, 'm, 'v) tree_ops \<Rightarrow> scope \<Rightarrow> dref set \<Rightarrow> ('d, 'm, 'u) wstate \<Rightarrow> ('d, 'm, 'u) wstate \<Rightarrow> bool" where
  "grew ops sc ids st st' \<longleftrightarrow>
     (tree_ok ops (ws_tree st) \<longrightarrow> tree_ok ops (ws_tree st')) \<and>
     (\<forall>i x. get_instance ops (ws_tree st) i = Some x \<longrightarrow> (\<exists>y. get_instance ops (ws_tree st') i = Some y \<and> in_class y = in_class x)) \<and>
     (\<forall>i. get_meta (ws_tree st) i \<noteq> None \<longrightarrow> get_meta (ws_tree st') i \<noteq> None) \<and>
     (\<forall>i x. get_instance ops (ws_tree st) i = None \<and> get_instance ops (ws_tree st') i = Some x \<longrightarrow> i \<in> ids \<and> allows_class sc (in_class x))"

lemma grewD:
  assumes "grew ops sc ids st st'"
  shows "tree_ok ops (ws_tree st) \<Longrightarrow> tree_ok ops (ws_tree st')" "alive ops st i \<Longrightarrow> alive ops st' i"
    "get_meta (ws_tree st) i \<noteq> None \<Longrightarrow> get_meta (ws_tree st') i \<noteq> None" "\<not> alive ops st i \<Longrightarrow> alive ops st' i \<Longrightarrow> i \<in> ids"
  using assms unfolding grew_def exists_inst_def get_instance_def by (blast, fastforce, blast, fastforce)

lemma grew_trans:
  assumes a: "grew ops sc ids st t" and b: "grew ops sc ids t u"
  shows "grew ops sc ids st u"
proof -
  have "i \<in> ids \<and> allows_class sc (in_class x)" if i: "get_instance ops (ws_tree st) i = None" "get_instance ops (ws_tree u) i = Some x" for i x
  proof (cases "get_instance ops (ws_tree t) i")
    case None
    then show ?thesis using b i(2) unfolding grew_def by blast
  next
    case (Some y)
    then have "i \<in> ids \<and> allows_class sc (in_class y)" using a i(1) unfolding grew_def by blast
    moreover have "in_class x = in_class y" using b Some i(2) unfolding grew_def by fastforce
    ultimately show ?thesis by simp
  qed
  moreover have "\<exists>y. get_instance ops (ws_tree u) i = Some y \<and> in_class y = in_class x" if "get_instance ops (ws_tree st) i = Some x" for i x
    using a b that unfolding grew_def by metis
  ultimately show ?thesis using a b unfolding grew_def by blast
qed

interpretation gr: write_frame "grew ops sc ids"
proof
  show "grew ops sc ids s s" for s by (auto simp: grew_def)
qed (rule grew_trans)

lemma grew_same: "tree_same st st' \<Longrightarrow> grew ops sc ids st st'"
  by (auto simp: tree_same_def grew_def)

lemma grew_mono: "grew ops sc ids st st' \<Longrightarrow> ids \<subseteq> ids' \<Longrightarrow> grew ops sc ids' st st'"
  unfolding grew_def by blast

text \<open>The ids a subtree names are new, and no two instances share one.\<close>

fun snap_id_list :: "('u, 'v) snapshot \<Rightarrow> dref list" where
  "snap_id_list (Snapshot sid _ _ _ _ children) = sid # concat (map snap_id_list children)"

definition new_ids :: "('d, 'm, 'v) tree_ops \<Rightarrow> dref list \<Rightarrow> ('d, 'm, 'u) wstate \<Rightarrow> bool" where
  "new_ids ops ids st \<longleftrightarrow> distinct ids \<and> (\<forall>i\<in>set ids. i \<noteq> ref_none \<and> \<not> alive ops st i)"

lemma new_ids_grew:
  assumes "new_ids ops (xs @ ys) st" "grew ops sc (set xs) st st'"
  shows "new_ids ops ys st'"
  using assms(1) grewD(4) [OF assms(2)] by (fastforce simp: new_ids_def)

lemma new_ids_append: "new_ids ops (xs @ ys) st \<Longrightarrow> new_ids ops xs st"
  by (simp add: new_ids_def)

lemma insert_with_ref_grew:
  assumes laws: "dom_laws ops" "multi_laws ops" and ok: "tree_ok ops (ws_tree st)" "alive ops st parent"
    and new: "new_ids ops [sn_id s] st" and cls: "allows_class sc (sn_class s)"
  shows "grew ops sc {sn_id s} st (snd (insert_with_ref ops s parent st))"
    "insert_with_ref ops s parent st = (WOk u, st') \<Longrightarrow> alive ops st' (sn_id s)"
proof -
  obtain x where x: "dom_get ops (t_dom (ws_tree st)) parent = Some x" using ok(2) by (auto simp: exists_inst_def)
  have i: "dom_get ops (t_dom (ws_tree st)) (sn_id s) = None" "sn_id s \<noteq> ref_none" using new by (simp_all add: new_ids_def exists_inst_def)
  obtain t' where t': "insert_at ops (sn_id s) s parent (ws_tree st) = Some t'" "tree_ok ops t'"
    "dom_get ops (t_dom t') = (dom_get ops (t_dom (ws_tree st))) (parent \<mapsto> x\<lparr>in_children := in_children x @ [sn_id s]\<rparr>,
       sn_id s \<mapsto> \<lparr>in_name = builder_name s, in_class = sn_class s, in_properties = sn_properties s, in_parent = parent, in_children = []\<rparr>)"
    "t_id_to_meta t' = (t_id_to_meta (ws_tree st))(sn_id s \<mapsto> sn_meta s)"
    by (rule insert_at_result [OF laws ok(1) x i])
  have run: "insert_with_ref ops s parent st = (WOk (), st\<lparr>ws_tree := t'\<rparr>)"
    by (simp add: insert_with_ref_def insert_instance_with_ref_def t'(1))
  show "grew ops sc {sn_id s} st (snd (insert_with_ref ops s parent st))"
    using x i cls by (auto simp: run grew_def get_instance_def get_meta_def t'(2-4) split: if_splits)
  show "insert_with_ref ops s parent st = (WOk u, st') \<Longrightarrow> alive ops st' (sn_id s)"
    by (auto simp: run exists_inst_def t'(3))
qed

lemma verify_path_context: "verify_path env p n mt fs k = (ok, p', n', mt', k') \<Longrightarrow> mt_context mt' = mt_context mt"
  by (auto simp: verify_path_def Let_def split: if_splits)

lemma write_file_context: "write_file env hc mw ps fp p n cls cx mt d = (WOk (Some mt', p', n'), d') \<Longrightarrow> mt_context mt' = mt_context mt"
  by (auto simp: write_file_def wbind_WOk split: if_splits option.splits)

lemma write_folder_context: "write_folder env ps p n cls cx mt d = (WOk (Some mt', p', n'), d') \<Longrightarrow> mt_context mt' = mt_context mt"
  by (auto simp: write_folder_def wbind_WOk Let_def split: if_splits option.splits)

lemma on_disk_WOk: "on_disk f st = (WOk x, st') \<longleftrightarrow> (\<exists>d. f (ws_disk st) = (WOk x, d) \<and> st' = st\<lparr>ws_disk := d\<rparr>)"
  by (auto simp: on_disk_def split: prod.splits)

lemma write_instance_context:
  assumes "write_instance env hc p s pm st = (WOk (Some mt, p', n'), st')"
  shows "mt_context mt = mt_context pm"
  using assms
  by (auto simp: write_instance_def on_disk_WOk wbind_WOk Let_def simp del: One_nat_def
      dest!: verify_path_context write_file_context write_folder_context split: option.splits if_splits prod.splits)


text \<open>The instance itself and what follows, given what holds of its children.\<close>

lemma insert_then_children_grew:
  fixes ops :: "('d, 'm, 'v) tree_ops"
  assumes laws: "dom_laws ops" "multi_laws ops" and ok: "tree_ok ops (ws_tree st)" "alive ops st parent"
    and new: "new_ids ops (sid # ids) st" and cls: "allows_class sc cls"
    and kids: "\<And>t. tree_ok ops (ws_tree t) \<Longrightarrow> alive ops t sid \<Longrightarrow> alive ops t parent \<Longrightarrow> new_ids ops ids t \<Longrightarrow> grew ops sc (set ids) t (snd (next_step t))"
  shows "grew ops sc (set (sid # ids)) st (snd (wbind (insert_with_ref ops (Snapshot sid mt name cls ps children) parent st) (\<lambda>_ t. wbind (next_step t) (\<lambda>x t. (WOk (f x), t)))))"
proof -
  let ?s = "Snapshot sid mt name cls ps children"
  have one: "new_ids ops [sn_id ?s] st" using new by (simp add: new_ids_def)
  note ins = insert_with_ref_grew [OF laws ok one, of sc]
  have g: "grew ops sc {sid} st (snd (insert_with_ref ops ?s parent st))" using ins(1) cls by simp
  show ?thesis
  proof (rule gr.bind_kept)
    show "grew ops sc (set (sid # ids)) st (snd (insert_with_ref ops ?s parent st))" by (rule grew_mono [OF g]) simp
    fix u t assume r: "insert_with_ref ops ?s parent st = (WOk u, t)"
    have gt: "grew ops sc (set [sid]) st t" using g r by simp
    have "grew ops sc (set ids) t (snd (next_step t))"
    proof (rule kids)
      show "tree_ok ops (ws_tree t)" "alive ops t parent" using grewD(1,2) [OF gt] ok by blast+
      show "alive ops t sid" using ins(2) [of u t] r cls by simp
      show "new_ids ops ids t" by (rule new_ids_grew [OF _ gt]) (use new in simp)
    qed
    then have "grew ops sc (set (sid # ids)) t (snd (next_step t))" by (rule grew_mono) auto
    then show "grew ops sc (set (sid # ids)) t (snd (wbind (next_step t) (\<lambda>x t. (WOk (f x), t))))"
      by (rule gr.bind_kept) (simp add: gr.kept_refl)
  qed
qed

text \<open>The part of an addition after the parent has its folder form.\<close>

definition placed where
  "placed env ops parent sid cls ps children next_step psrc pp name smt pm st =
     (case verify_name env name smt of
        None \<Rightarrow> (WPanic, st)
      | Some (ok, name, smt) \<Rightarrow>
          if \<not> ok then (WOk (psrc, pm), st)
          else wbind (write_instance env (children \<noteq> []) (path_join pp name) (Snapshot sid smt name cls ps children) pm st)
            (\<lambda>(mt, path, name) st. case mt of
                None \<Rightarrow> (WOk (psrc, pm), st)
              | Some mt \<Rightarrow> wbind (insert_with_ref ops (Snapshot sid mt name cls ps children) parent st)
                  (\<lambda>_ st. wbind (next_step path mt st) (\<lambda>_ st. (WOk (psrc, pm), st)))))"

lemma add_non_project_eq:
  "add_non_project_instances env ops parent pp (Snapshot sid smt name cls ps children) pm depth st =
     (if \<not> nesting_check env depth then (WErr (WTooDeep name), st)
      else if \<not> allows_class (cx_scope (mt_context pm)) cls then (WOk (mt_source pm, pm), st)
      else wbind (if is_file pp (ws_fs st) then promote_parent env pp name pm st else (WOk (Some (mt_source pm, pp, name), pm), st))
        (\<lambda>(promoted, pm) st. case promoted of
            None \<Rightarrow> (WOk (mt_source pm, pm), st)
          | Some (psrc, pp, name) \<Rightarrow>
              placed env ops parent sid cls ps children (\<lambda>path mt. add_children env ops sid path children mt (Suc depth)) psrc pp name smt pm st))"
  unfolding placed_def by (rule add_non_project_instances.simps)

lemma placed_grew:
  fixes ops :: "('d, 'm, 'v) tree_ops"
  assumes laws: "dom_laws ops" "multi_laws ops" and ok: "tree_ok ops (ws_tree st)" "alive ops st parent"
    and new: "new_ids ops (sid # ids) st" and cls: "allows_class sc cls" and pm: "cx_scope (mt_context pm) = sc"
    and kids: "\<And>path mt t. cx_scope (mt_context mt) = sc \<Longrightarrow> tree_ok ops (ws_tree t) \<Longrightarrow> alive ops t sid \<Longrightarrow> new_ids ops ids t \<Longrightarrow>
      grew ops sc (set ids) t (snd (next_step path mt t))"
  shows "grew ops sc (set (sid # ids)) st (snd (placed env ops parent sid cls ps children next_step psrc pp name smt pm st))"
proof (cases "verify_name env name smt")
  case (Some v)
  obtain okn n1 smt1 where v: "v = (okn, n1, smt1)" by (cases v)
  let ?w = "write_instance env (children \<noteq> []) (path_join pp n1) (Snapshot sid smt1 n1 cls ps children) pm st"
  have "grew ops sc (set (sid # ids)) st (snd (wbind ?w
      (\<lambda>(mt, path, name) st. case mt of
          None \<Rightarrow> (WOk (psrc, pm), st)
        | Some mt \<Rightarrow> wbind (insert_with_ref ops (Snapshot sid mt name cls ps children) parent st)
            (\<lambda>_ st. wbind (next_step path mt st) (\<lambda>_ st. (WOk (psrc, pm), st))))))"
  proof (rule gr.bind_kept [OF grew_same [OF write_instance_same]])
    fix y t assume y: "?w = (WOk y, t)"
    obtain mt path n2 where y2: "y = (mt, path, n2)" by (cases y)
    have t: "ws_tree t = ws_tree st" using write_instance_same [of st env "children \<noteq> []" "path_join pp n1" "Snapshot sid smt1 n1 cls ps children" pm] by (simp add: y tree_same_def)
    show "grew ops sc (set (sid # ids)) t (snd ((case y of (mt, path, name) \<Rightarrow> \<lambda>st. case mt of
          None \<Rightarrow> (WOk (psrc, pm), st)
        | Some mt \<Rightarrow> wbind (insert_with_ref ops (Snapshot sid mt name cls ps children) parent st)
            (\<lambda>_ st. wbind (next_step path mt st) (\<lambda>_ st. (WOk (psrc, pm), st)))) t))"
    proof (cases mt)
      case (Some m)
      have scm: "cx_scope (mt_context m) = sc" using write_instance_context y pm unfolding y2 Some by metis
      have "grew ops sc (set (sid # ids)) t (snd (wbind (insert_with_ref ops (Snapshot sid m n2 cls ps children) parent t)
          (\<lambda>_ st. wbind (next_step path m st) (\<lambda>_ st. (WOk (psrc, pm), st)))))"
        by (rule insert_then_children_grew [OF laws]) (use ok new cls t kids scm in \<open>simp_all add: new_ids_def exists_inst_def\<close>)
      then show ?thesis by (simp add: y2 Some)
    qed (simp add: y2 gr.kept_refl)
  qed
  then show ?thesis by (auto simp: placed_def Some v gr.kept_refl)
qed (simp add: placed_def gr.kept_refl)

lemma add_one_grew:
  fixes ops :: "('d, 'm, 'v) tree_ops"
  assumes laws: "dom_laws ops" "multi_laws ops"
    and kids: "\<And>path mt t. cx_scope (mt_context mt) = sc \<Longrightarrow> tree_ok ops (ws_tree t) \<Longrightarrow> alive ops t sid \<Longrightarrow> new_ids ops (concat (map snap_id_list children)) t \<Longrightarrow>
      grew ops sc (set (concat (map snap_id_list children))) t (snd (add_children env ops sid path children mt (Suc depth) t))"
    and ok: "tree_ok ops (ws_tree st)" "alive ops st parent" and new: "new_ids ops (snap_id_list (Snapshot sid smt name cls ps children)) st"
    and sc: "cx_scope (mt_context pm) = sc"
  shows "grew ops sc (set (snap_id_list (Snapshot sid smt name cls ps children))) st
    (snd (add_non_project_instances env ops parent pp (Snapshot sid smt name cls ps children) pm depth st))"
proof (cases "nesting_check env depth \<and> allows_class sc cls")
  case True
  let ?ids = "concat (map snap_id_list children)"
  let ?first = "if is_file pp (ws_fs st) then promote_parent env pp name pm st else (WOk (Some (mt_source pm, pp, name), pm), st)"
  let ?rest = "\<lambda>(promoted, pm) st. case promoted of
        None \<Rightarrow> (WOk (mt_source pm, pm), st)
      | Some (psrc, pp, name) \<Rightarrow>
          placed env ops parent sid cls ps children (\<lambda>path mt. add_children env ops sid path children mt (Suc depth)) psrc pp name smt pm st"
  have "grew ops sc (set (sid # ?ids)) st (snd (wbind ?first ?rest))"
  proof (rule gr.bind_kept)
    show "grew ops sc (set (sid # ?ids)) st (snd ?first)"
      by (rule grew_same) (simp add: promote_parent_same tree_same_drop)
    fix x t assume x: "?first = (WOk x, t)"
    obtain promoted pm1 where p1: "x = (promoted, pm1)" by fastforce
    have sc1: "cx_scope (mt_context pm1) = sc" using x sc by (auto simp: p1 split: if_splits dest: promote_parent_context)
    have t: "ws_tree t = ws_tree st" using promote_parent_same [of st env pp name pm] x by (auto simp: tree_same_def split: if_splits)
    have "grew ops sc (set (sid # ?ids)) t (snd (placed env ops parent sid cls ps children
        (\<lambda>path mt. add_children env ops sid path children mt (Suc depth)) psrc pp1 n1 smt pm1 t))" for psrc pp1 n1
      by (rule placed_grew [OF laws]) (use ok new True t kids sc1 in \<open>simp_all add: new_ids_def exists_inst_def\<close>)
    then show "grew ops sc (set (sid # ?ids)) t (snd (?rest x t))" by (auto simp: p1 gr.kept_refl split: option.splits)
  qed
  then show ?thesis using True by (simp only: add_non_project_eq sc snap_id_list.simps not_True_eq_False if_False simp_thms)
qed (auto simp: add_non_project_eq sc gr.kept_refl)


lemma placed_context: "placed env ops parent sid cls ps children f psrc pp name smt pm st = (WOk (src, pm'), st') \<Longrightarrow> pm' = pm"
  by (auto simp: placed_def wbind_WOk split: option.splits if_splits prod.splits)

lemma add_non_project_context:
  assumes "add_non_project_instances env ops parent pp s pm depth st = (WOk (src, pm'), st')"
  shows "mt_context pm' = mt_context pm"
  using assms
  by (cases s) (auto simp: add_non_project_eq wbind_WOk
      split: option.splits if_splits prod.splits dest!: placed_context promote_parent_context)

lemma add_children_grew:
  fixes ops :: "('d, 'm, 'v) tree_ops"
  assumes each: "\<And>s ps pm t. s \<in> set cs \<Longrightarrow> tree_ok ops (ws_tree t) \<Longrightarrow> alive ops t parent \<Longrightarrow> new_ids ops (snap_id_list s) t \<Longrightarrow> cx_scope (mt_context pm) = sc \<Longrightarrow>
      grew ops sc (set (snap_id_list s)) t
        (snd (add_non_project_instances env ops parent path (Snapshot (sn_id s) (sn_meta s) (sn_name s) (sn_class s) ps (sn_children s)) pm depth t))"
    and "tree_ok ops (ws_tree st)" "alive ops st parent" "new_ids ops (concat (map snap_id_list cs)) st" "cx_scope (mt_context mt) = sc"
  shows "grew ops sc (set (concat (map snap_id_list cs))) st (snd (add_children env ops parent path cs mt depth st))"
  using assms
proof (induction cs arbitrary: mt st)
  case (Cons c cs)
  obtain sid smt name cls ps kids where c: "c = Snapshot sid smt name cls ps kids" by (cases c)
  let ?ids = "snap_id_list c" and ?rest = "concat (map snap_id_list cs)"
  let ?r = "add_non_project_instances env ops parent path (Snapshot sid smt name cls (validate_properties ps (cx_syncback_filter (mt_context mt))) kids) mt depth st"
  have new: "new_ids ops (?ids @ ?rest) st" using Cons.prems(4) by simp
  have g: "grew ops sc (set ?ids) st (snd ?r)"
    using Cons.prems(1) [of c st mt] new_ids_append [OF new] Cons.prems(2,3,5) c by simp
  have "grew ops sc (set (?ids @ ?rest)) st (snd (wbind ?r (\<lambda>(_, mt) st. add_children env ops parent path cs mt depth st)))"
  proof (rule gr.bind_kept)
    show "grew ops sc (set (?ids @ ?rest)) st (snd ?r)" by (rule grew_mono [OF g]) simp
    fix x t assume x: "?r = (WOk x, t)"
    obtain src mt1 where x1: "x = (src, mt1)" by fastforce
    have gt: "grew ops sc (set ?ids) st t" using g x by simp
    have "grew ops sc (set ?rest) t (snd (add_children env ops parent path cs mt1 depth t))"
    proof (rule Cons.IH)
      show "grew ops sc (set (snap_id_list s)) t
        (snd (add_non_project_instances env ops parent path (Snapshot (sn_id s) (sn_meta s) (sn_name s) (sn_class s) ps (sn_children s)) pm depth t))"
        if "s \<in> set cs" "tree_ok ops (ws_tree t)" "alive ops t parent" "new_ids ops (snap_id_list s) t" "cx_scope (mt_context pm) = sc" for s ps pm t
        using Cons.prems(1) that by simp
      show "tree_ok ops (ws_tree t)" "alive ops t parent" using grewD(1,2) [OF gt] Cons.prems(2,3) by blast+
      show "new_ids ops ?rest t" by (rule new_ids_grew [OF new gt])
      show "cx_scope (mt_context mt1) = sc" using add_non_project_context x Cons.prems(5) unfolding x1 by metis
    qed
    then show "grew ops sc (set (?ids @ ?rest)) t (snd ((case x of (_, mt) \<Rightarrow> \<lambda>st. add_children env ops parent path cs mt depth st) t))"
      unfolding x1 by (auto intro: grew_mono)
  qed
  then show ?case by (simp add: c)
qed (simp add: gr.kept_refl)

lemma snap_count_child: "c \<in> set children \<Longrightarrow> snap_count c < Suc (\<Sum>c\<leftarrow>children. snap_count c)"
  using member_le_sum_list [of "snap_count c" "map snap_count children"] by auto

lemma add_non_project_grew:
  fixes ops :: "('d, 'm, 'v) tree_ops" and st :: "('d, 'm, 'u) wstate"
  assumes laws: "dom_laws ops" "multi_laws ops"
  shows "tree_ok ops (ws_tree st) \<Longrightarrow> alive ops st parent \<Longrightarrow> new_ids ops (snap_id_list s) st \<Longrightarrow> cx_scope (mt_context pm) = sc \<Longrightarrow>
      grew ops sc (set (snap_id_list s)) st (snd (add_non_project_instances env ops parent pp s pm depth st))"
proof (induction "snap_count s" arbitrary: s parent pp pm depth st rule: less_induct)
  case less
  obtain sid smt name cls ps children where s: "s = Snapshot sid smt name cls ps children" by (cases s)
  show ?case
    unfolding s
  proof (rule add_one_grew [OF laws])
    fix path and mt :: "'u meta" and t :: "('d, 'm, 'u) wstate"
    assume *: "cx_scope (mt_context mt) = sc" "tree_ok ops (ws_tree t)" "alive ops t sid" "new_ids ops (concat (map snap_id_list children)) t"
    show "grew ops sc (set (concat (map snap_id_list children))) t (snd (add_children env ops sid path children mt (Suc depth) t))"
    proof (rule add_children_grew [OF _ *(2-4) *(1)])
      fix c :: "('u, 'v) snapshot" and ps :: "'v properties" and pm :: "'u meta" and u :: "('d, 'm, 'u) wstate"
      assume c: "c \<in> set children" "tree_ok ops (ws_tree u)" "alive ops u sid" "new_ids ops (snap_id_list c) u" "cx_scope (mt_context pm) = sc"
      let ?c = "Snapshot (sn_id c) (sn_meta c) (sn_name c) (sn_class c) ps (sn_children c)"
      have ids: "snap_id_list ?c = snap_id_list c" by (cases c) simp
      have "snap_count ?c < snap_count s" using snap_count_child [OF c(1)] by (cases c) (simp add: s)
      from less.hyps [OF this c(2,3) _ c(5), of path "Suc depth"] c(4)
      show "grew ops sc (set (snap_id_list c)) u (snd (add_non_project_instances env ops sid path ?c pm (Suc depth) u))"
        by (simp only: ids)
    qed
  qed (use less.prems s in simp_all)
qed


lemma add_project_children_grew:
  fixes ops :: "('d, 'm, 'v) tree_ops"
  assumes each: "\<And>s ps node t. s \<in> set cs \<Longrightarrow> tree_ok ops (ws_tree t) \<Longrightarrow> alive ops t parent \<Longrightarrow> new_ids ops (snap_id_list s) t \<Longrightarrow>
      grew ops sc (set (snap_id_list s)) t
        (snd (add_project_instances env ops parent p np (Snapshot (sn_id s) (sn_meta s) (sn_name s) (sn_class s) ps (sn_children s)) node pm depth t))"
    and "tree_ok ops (ws_tree st)" "alive ops st parent" "new_ids ops (concat (map snap_id_list cs)) st"
  shows "grew ops sc (set (concat (map snap_id_list cs))) st (snd (add_project_children env ops parent p np cs node pm depth st))"
  using assms
proof (induction cs arbitrary: node st)
  case (Cons c cs)
  obtain sid smt name cls ps kids where c: "c = Snapshot sid smt name cls ps kids" by (cases c)
  let ?ids = "snap_id_list c" and ?rest = "concat (map snap_id_list cs)"
  let ?r = "add_project_instances env ops parent p np (Snapshot sid smt name cls (validate_properties ps (cx_syncback_filter (mt_context pm))) kids) node pm depth st"
  have new: "new_ids ops (?ids @ ?rest) st" using Cons.prems(4) by simp
  have g: "grew ops sc (set ?ids) st (snd ?r)"
    using Cons.prems(1) [of c st] new_ids_append [OF new] Cons.prems(2,3) c by simp
  have "grew ops sc (set (?ids @ ?rest)) st (snd (wbind ?r (\<lambda>node st. add_project_children env ops parent p np cs node pm depth st)))"
  proof (rule gr.bind_kept)
    show "grew ops sc (set (?ids @ ?rest)) st (snd ?r)" by (rule grew_mono [OF g]) simp
    fix x t assume x: "?r = (WOk x, t)"
    have gt: "grew ops sc (set ?ids) st t" using g x by simp
    have "grew ops sc (set ?rest) t (snd (add_project_children env ops parent p np cs x pm depth t))"
      by (rule Cons.IH) (use Cons.prems(1-3) grewD(1,2) [OF gt] new_ids_grew [OF new gt] in simp_all)
    then show "grew ops sc (set (?ids @ ?rest)) t (snd (add_project_children env ops parent p np cs x pm depth t))"
      by (rule grew_mono) simp
  qed
  then show ?case by (simp add: c)
qed (simp add: gr.kept_refl)

lemma add_project_grew:
  fixes ops :: "('d, 'm, 'v) tree_ops" and st :: "('d, 'm, 'u) wstate"
  assumes laws: "dom_laws ops" "multi_laws ops"
  shows "tree_ok ops (ws_tree st) \<Longrightarrow> alive ops st parent \<Longrightarrow> new_ids ops (snap_id_list s) st \<Longrightarrow> cx_scope (mt_context pm) = sc \<Longrightarrow>
      grew ops sc (set (snap_id_list s)) st (snd (add_project_instances env ops parent p np s node pm depth st))"
proof (induction "snap_count s" arbitrary: s np node depth st rule: less_induct)
  case less
  obtain sid smt name cls ps children where s: "s = Snapshot sid smt name cls ps children" by (cases s)
  let ?ids = "concat (map snap_id_list children)"
  have kids: "grew ops sc (set ?ids) t (snd (add_project_children env ops parent p np children node pm (Suc depth) t))"
    if t: "tree_ok ops (ws_tree t)" "alive ops t parent" "new_ids ops ?ids t" for np node and t :: "('d, 'm, 'u) wstate"
  proof (rule add_project_children_grew [OF _ t])
    fix c :: "('u, 'v) snapshot" and ps :: "'v properties" and node and u :: "('d, 'm, 'u) wstate"
    assume c: "c \<in> set children" "tree_ok ops (ws_tree u)" "alive ops u parent" "new_ids ops (snap_id_list c) u"
    let ?c = "Snapshot (sn_id c) (sn_meta c) (sn_name c) (sn_class c) ps (sn_children c)"
    have ids: "snap_id_list ?c = snap_id_list c" by (cases c) simp
    have "snap_count ?c < snap_count s" using snap_count_child [OF c(1)] by (cases c) (simp add: s)
    from less.hyps [OF this c(2,3) _ less.prems(4), of np node "Suc depth"] c(4)
    show "grew ops sc (set (snap_id_list c)) u (snd (add_project_instances env ops parent p np ?c node pm (Suc depth) u))"
      by (simp only: ids)
  qed
  have "grew ops sc (set (sid # ?ids)) st (snd (wbind (insert_with_ref ops (Snapshot sid mt name cls ps children) parent st) (\<lambda>_ t.
      wbind (add_project_children env ops parent p np' children node' pm (Suc depth) t) (\<lambda>x t. (WOk (f x), t)))))"
    if "allows_class sc cls" for mt np' node' and f :: "'u project_node \<Rightarrow> 'u project_node"
    by (rule insert_then_children_grew [OF laws]) (use less.prems s that kids in simp_all)
  then show ?case using less.prems(4) by (auto simp: s add_project_instances.simps Let_def gr.kept_refl)
qed

lemma update_meta_ok:
  assumes "multi_laws ops" "tree_ok ops t" "get_meta t i \<noteq> None"
  shows "tree_ok ops (update_meta ops i mt t)"
  using update_meta_index [OF assms(1), of t i] assms(2,3)
  by (auto simp: tree_ok_def update_meta_fields root_ref_def get_meta_def)

lemma grew_update_meta:
  assumes "multi_laws ops" "get_meta (ws_tree st) i \<noteq> None"
  shows "grew ops sc ids st (on_tree (update_meta ops i mt) st)"
  using update_meta_ok [OF assms(1) _ assms(2), of mt]
  by (auto simp: grew_def on_tree_def get_instance_def get_meta_def update_meta_fields)



definition example_wenv :: "(unit, bool) write_env" where
  "example_wenv = test_env (\<lambda>_. None) (\<lambda>_. VOther False)"

definition example_wstate :: "(dref \<times> (dref \<Rightarrow> bool inst option), path \<Rightarrow> dref list option, unit) wstate" where
  "example_wstate = \<lparr>ws_tree = example_tree, ws_disk = \<lparr>d_fs = FDir [(''a'', FDir [(''b'', FDir [])])], d_left = 9\<rparr>, ws_uuid = 0\<rparr>"

definition example_added :: "(unit, bool) added_snapshot" where
  "example_added = \<lparr>as_id = 7, as_meta = meta_new, as_parent = 2, as_name = ''Sub'', as_class = ''Folder'', as_properties = [], as_children = []\<rparr>"


section \<open>Updates\<close>

text \<open>Only the name, the properties and the metadata of instance \<open>i\<close> may differ.\<close>

definition touched :: "('d, 'm, 'v) tree_ops \<Rightarrow> dref \<Rightarrow> ('d, 'm, 'u) wstate \<Rightarrow> ('d, 'm, 'u) wstate \<Rightarrow> bool" where
  "touched ops i st st' \<longleftrightarrow>
     (tree_ok ops (ws_tree st) \<longrightarrow> tree_ok ops (ws_tree st')) \<and>
     (\<forall>j. j \<noteq> i \<longrightarrow> get_instance ops (ws_tree st') j = get_instance ops (ws_tree st) j \<and> get_meta (ws_tree st') j = get_meta (ws_tree st) j) \<and>
     (\<exists>n ps. get_instance ops (ws_tree st') i = map_option (\<lambda>x. x\<lparr>in_name := n, in_properties := ps\<rparr>) (get_instance ops (ws_tree st) i)) \<and>
     (get_meta (ws_tree st) i \<noteq> None \<longrightarrow> get_meta (ws_tree st') i \<noteq> None)"

lemma touched_trans: "touched ops i s t \<Longrightarrow> touched ops i t u \<Longrightarrow> touched ops i s u"
  unfolding touched_def by (fastforce simp: option.map_comp comp_def)

lemma touched_same:
  assumes "tree_same st st'"
  shows "touched ops i st st'"
proof (cases "get_instance ops (ws_tree st) i")
  case (Some x)
  have "\<exists>n ps. x = x\<lparr>in_name := n, in_properties := ps\<rparr>" by (rule exI [of _ "in_name x"], rule exI [of _ "in_properties x"]) simp
  then show ?thesis using assms Some by (auto simp: touched_def tree_same_def)
qed (use assms in \<open>auto simp: touched_def tree_same_def\<close>)

interpretation td: write_frame "touched ops i"
proof
  show "touched ops i s s" for s by (rule touched_same) (simp add: tree_same_def)
qed (rule touched_trans)

lemma put_instance_touched:
  assumes "dom_laws ops"
  shows "touched ops i st (on_tree (put_instance ops i f) st)"
proof (cases "get_instance ops (ws_tree st) i")
  case (Some x)
  obtain n ps where f: "f x = (n, ps)" by fastforce
  let ?t = "ws_tree st"
  have law: "dom_root ops (dom_modify ops i n c ps d) = dom_root ops d"
    "dom_get ops (dom_modify ops i n c ps d) = (dom_get ops d)(i := map_option
       (\<lambda>x. x\<lparr>in_name := n, in_class := c, in_properties := ps\<rparr>) (dom_get ops d i))" for n c ps d
    using assms by (simp_all add: dom_laws_def modify_law_def)
  have run: "put_instance ops i f ?t = ?t\<lparr>t_dom := dom_modify ops i n (in_class x) ps (t_dom ?t)\<rparr>"
    using Some by (simp add: put_instance_def get_instance_def f)
  have "tree_ok ops (put_instance ops i f ?t)" if "tree_ok ops ?t"
    using that dom_wf_modify [where root = "root_ref ops ?t" and m = "dom_get ops (t_dom ?t)" and i = i and n = n and c = "in_class x" and ps = ps] Some
    by (auto simp: run tree_ok_def root_ref_def index_ok_def law get_instance_def)
  moreover have "x\<lparr>in_name := n, in_class := in_class x, in_properties := ps\<rparr> = x\<lparr>in_name := n, in_properties := ps\<rparr>" by simp
  ultimately show ?thesis using Some by (auto simp: touched_def on_tree_def run get_instance_def get_meta_def law)
qed (simp add: put_instance_def get_instance_def on_tree_def td.kept_refl)

lemma bump_keeps: "tree_ok ops (bump t) = tree_ok ops t" "get_instance ops (bump t) = get_instance ops t" "get_meta (bump t) = get_meta t"
  by (simp_all add: tree_ok_def index_ok_def fun_eq_iff get_instance_def get_meta_def)

lemma bump_touched: "touched ops i st (on_tree bump st)"
  using td.kept_refl [of ops i st] by (simp add: touched_def on_tree_def bump_keeps)

lemma update_meta_touched:
  assumes "multi_laws ops" "get_meta (ws_tree st) i \<noteq> None"
  shows "touched ops i st (on_tree (update_meta ops i mt) st)"
proof -
  have "get_instance ops (update_meta ops i mt t) = get_instance ops t" for t by (simp add: fun_eq_iff get_instance_def update_meta_fields)
  then show ?thesis using update_meta_ok [OF assms(1) _ assms(2), of mt] td.kept_refl [of ops i st]
    by (auto simp: touched_def on_tree_def get_meta_def update_meta_fields)
qed

lemma touched_meta: "touched ops i st st' \<Longrightarrow> get_meta (ws_tree st) i \<noteq> None \<Longrightarrow> get_meta (ws_tree st') i \<noteq> None"
  by (simp add: touched_def)


lemmas touched_rules = touched_same [OF tree_same_disk] touched_same [OF tree_same_next] touched_same [OF tree_same_drop(2)] td.kept_refl

lemma put_touched:
  assumes "dom_laws ops" "touched ops i st t"
  shows "touched ops i st (on_tree (put_instance ops i f) t)"
  by (rule touched_trans [OF assms(2) put_instance_touched [OF assms(1)]])

lemma maybe_disk_then_put:
  assumes "dom_laws ops"
  shows "touched ops i t (snd (wbind (if c then (case dp of None \<Rightarrow> (WOk (), t) | Some data \<Rightarrow> if b data then (WOk (), t) else on_disk (f data) t) else (WOk (), t))
    (\<lambda>_ st. (WOk y, on_tree (put_instance ops i g) st))))"
  by (rule td.bind_kept) (auto simp: touched_rules put_instance_touched [OF assms] split: option.splits)

lemma update_name_touched:
  fixes ops :: "('d, 'm, 'v) tree_ops" and st :: "('d, 'm, 'u) wstate"
  assumes "dom_laws ops"
  shows "touched ops i st (snd (update_name env ops i name only p x mt st))"
proof (cases "verify_name env name mt")
  case (Some v)
  obtain ok n mt1 where v: "v = (ok, n, mt1)" by (cases v)
  obtain ok2 p2 n2 mt2 k where vp: "verify_path env (rename_path p (in_name x) n) n mt1 (ws_fs st) (ws_uuid st) = (ok2, p2, n2, mt2, k)"
    by (metis prod_cases5)
  have "touched ops i st (snd (wbind (on_disk f (st\<lparr>ws_uuid := k\<rparr>)) (\<lambda>m t. wbind (if c m then (case dp m t of None \<Rightarrow> (WOk (), t) | Some data \<Rightarrow>
      if b m data then (WOk (), t) else on_disk (g m data) t) else (WOk (), t)) (\<lambda>_ st. (WOk (y m), on_tree (put_instance ops i (h m)) st)))))"
    for f :: "disk \<Rightarrow> 'u meta wres \<times> disk" and c dp b y h and g :: "'u meta \<Rightarrow> path \<Rightarrow> disk \<Rightarrow> unit wres \<times> disk"
    by (rule td.bind_kept [OF touched_same [OF tree_same_next]]) (rule maybe_disk_then_put [OF assms])
  then show ?thesis by (auto simp: update_name_def Some v vp Let_def touched_rules)
qed (simp add: update_name_def touched_rules)

lemma update_properties_touched:
  assumes "dom_laws ops"
  shows "touched ops i st (snd (update_properties env ops i p ps mt st))"
  unfolding update_properties_def
  by (auto split: option.splits prod.splits simp: touched_rules put_instance_touched [OF assms] intro!: td.bind_kept)

text \<open>The metadata of the instance is there at every step of an update.\<close>

lemma bind_touched:
  assumes "touched ops i st (snd r)" "get_meta (ws_tree st) i \<noteq> None"
    "\<And>x t. touched ops i st t \<Longrightarrow> get_meta (ws_tree t) i \<noteq> None \<Longrightarrow> touched ops i t (snd (f x t))"
  shows "touched ops i st (snd (wbind r f))"
proof (rule td.bind_kept [OF assms(1)])
  fix x t assume "r = (WOk x, t)"
  then have "touched ops i st t" using assms(1) by simp
  then show "touched ops i t (snd (f x t))" using assms(2,3) touched_meta by blast
qed

lemma refuse_rest_touched: "touched ops i st st' \<Longrightarrow> touched ops i st (snd (refuse_rest u st'))"
  by (simp add: refuse_rest_def)

lemma update_at_path_touched:
  fixes ops :: "('d, 'm, 'v) tree_ops" and st :: "('d, 'm, 'u) wstate"
  assumes laws: "dom_laws ops" "multi_laws ops" and mt: "get_meta (ws_tree st) (us_id u) \<noteq> None"
  shows "touched ops (us_id u) st (snd (update_at_path env ops u p x m st))"
  unfolding update_at_path_def
proof (rule bind_touched [OF _ mt])
  show "touched ops (us_id u) st (snd (case us_name u of None \<Rightarrow> (WOk (Some (p, m)), st)
      | Some name \<Rightarrow> update_name env ops (us_id u) name (us_properties u = None) p x m st))"
    by (simp add: touched_rules update_name_touched [OF laws(1)] split: option.splits)
  fix r and t :: "('d, 'm, 'u) wstate" assume t: "get_meta (ws_tree t) (us_id u) \<noteq> None"
  have "touched ops (us_id u) t (snd (wbind (case us_properties u of None \<Rightarrow> (WOk m, t) | Some ps \<Rightarrow> update_properties env ops (us_id u) p ps m t)
      (\<lambda>mt st. refuse_rest u (on_tree (update_meta ops (us_id u) mt) st))))" for p m
  proof (rule bind_touched [OF _ t])
    show "touched ops (us_id u) t (snd (case us_properties u of None \<Rightarrow> (WOk m, t) | Some ps \<Rightarrow> update_properties env ops (us_id u) p ps m t))"
      by (simp add: touched_rules update_properties_touched [OF laws(1)] split: option.splits)
  qed (intro refuse_rest_touched update_meta_touched [OF laws(2)])
  then show "touched ops (us_id u) t (snd (case r of None \<Rightarrow> (WOk (), t) | Some (p, m) \<Rightarrow>
      wbind (case us_properties u of None \<Rightarrow> (WOk m, t) | Some ps \<Rightarrow> update_properties env ops (us_id u) p ps m t)
        (\<lambda>mt st. refuse_rest u (on_tree (update_meta ops (us_id u) mt) st))))"
    by (simp add: touched_rules split: option.splits prod.splits)
qed

lemma update_node_properties_touched:
  fixes ops :: "('d, 'm, 'v) tree_ops" and st :: "('d, 'm, 'u) wstate"
  assumes "dom_laws ops"
  shows "touched ops i st (snd (update_node_properties env ops i ps name p node np proj mt st))"
proof (cases "node_path node")
  case (Some custom)
  have "touched ops i st (snd (wbind (update_properties env ops i q ps mt st) (\<lambda>mt st. case find_node_by_path proj np of
      None \<Rightarrow> (WErr (WNoNode np), st) | Some n \<Rightarrow> (WOk (f mt n), st))))" for q f
    by (rule td.bind_kept [OF update_properties_touched [OF assms]]) (simp add: td.kept_refl split: option.splits)
  then show ?thesis by (simp add: update_node_properties_def Some)
qed (simp add: update_node_properties_def Let_def td.kept_refl put_instance_touched [OF assms] split: option.splits)

lemma rename_node_touched:
  assumes "dom_laws ops"
  shows "touched ops i st (snd (rename_node ops i new_name name p np proj mt st))"
  by (simp add: rename_node_def Let_def td.kept_refl put_instance_touched [OF assms] split: option.splits)

lemma update_in_project_touched:
  fixes ops :: "('d, 'm, 'v) tree_ops" and st :: "('d, 'm, 'u) wstate"
  assumes laws: "dom_laws ops" "multi_laws ops" and mt: "get_meta (ws_tree st) (us_id u) \<noteq> None"
  shows "touched ops (us_id u) st (snd (update_in_project env ops u name p node np m st))"
proof -
  have save: "touched ops i t (snd (wbind (on_disk f (on_tree (update_meta ops i m) t)) (\<lambda>_. refuse_rest u)))"
    if "get_meta (ws_tree t) i \<noteq> None" for i m and f :: "disk \<Rightarrow> unit wres \<times> disk" and t :: "('d, 'm, 'u) wstate"
    by (rule td.bind_kept [OF td.kept_trans [OF update_meta_touched [OF laws(2) that] touched_same [OF tree_same_disk]]])
      (simp add: refuse_rest_touched td.kept_refl)
  have named: "touched ops (us_id u) t (snd (wbind (case us_name u of None \<Rightarrow> (WOk (proj, m), t) | Some new_name \<Rightarrow> rename_node ops (us_id u) new_name name p np proj m t)
      (\<lambda>(proj, m) t. wbind (on_disk (save_project env proj p) (on_tree (update_meta ops (us_id u) m) t)) (\<lambda>_. refuse_rest u))))"
    if t: "get_meta (ws_tree t) (us_id u) \<noteq> None" for proj m and t :: "('d, 'm, 'u) wstate"
    by (rule bind_touched [OF _ t]) (auto simp: td.kept_refl rename_node_touched [OF laws(1)] save split: option.splits)
  have filled: "touched ops (us_id u) t (snd (wbind (case us_properties u of None \<Rightarrow> (WOk (proj, m), t)
        | Some ps \<Rightarrow> update_node_properties env ops (us_id u) ps name p node np proj m t) (\<lambda>(proj, m) t.
      wbind (case us_name u of None \<Rightarrow> (WOk (proj, m), t) | Some new_name \<Rightarrow> rename_node ops (us_id u) new_name name p np proj m t)
      (\<lambda>(proj, m) t. wbind (on_disk (save_project env proj p) (on_tree (update_meta ops (us_id u) m) t)) (\<lambda>_. refuse_rest u)))))"
    if t: "get_meta (ws_tree t) (us_id u) \<noteq> None" for proj m and t :: "('d, 'm, 'u) wstate"
    by (rule bind_touched [OF _ t]) (use named in \<open>auto simp: td.kept_refl update_node_properties_touched [OF laws(1)] split: option.splits\<close>)
  show ?thesis
    unfolding update_in_project_def by (rule bind_touched [OF _ mt]) (simp_all add: td.kept_refl filled)
qed

text \<open>
  C23: A Studio update, whatever its outcome, changes the name, the properties and the metadata of its
  own instance only: class, parent, children and every other instance stay, and the tree stays
  well formed.
\<close>

theorem update_touches_one:
  fixes ops :: "('d, 'm, 'v) tree_ops" and st :: "('d, 'm, 'u) wstate"
  assumes "dom_laws ops" "multi_laws ops"
  shows "touched ops (us_id u) st (snd (apply_update env ops u st))"
proof -
  have step: "touched ops (us_id u) st (snd (f (on_tree bump st)))"
    if "\<And>t. get_meta (ws_tree t) (us_id u) \<noteq> None \<Longrightarrow> touched ops (us_id u) t (snd (f t))" "get_meta (ws_tree st) (us_id u) \<noteq> None"
    for f :: "('d, 'm, 'u) wstate \<Rightarrow> unit wres \<times> ('d, 'm, 'u) wstate"
    by (rule td.kept_trans [OF bump_touched that(1)]) (use that(2) in \<open>simp add: on_tree_def bump_keeps\<close>)
  show ?thesis
    by (auto simp: apply_update_def Let_def td.kept_refl bump_touched intro!: step update_at_path_touched update_in_project_touched assms
        split: option.splits source_kind.splits)
qed


definition example_update :: "(unit, bool) updated_snapshot" where
  "example_update = \<lparr>us_id = 2, us_meta = None, us_name = Some ''C'', us_class = None, us_properties = None\<rparr>"

theorem update_touches_one_witness:
  "touched example_ops 2 example_wstate (snd (apply_update example_wenv example_ops example_update example_wstate))"
  using update_touches_one [OF example_ops_laws, of example_update example_wstate example_wenv] by (simp add: example_update_def)

section \<open>Removals\<close>

text \<open>The instances are untouched; metadata may change.\<close>

definition dom_same :: "('d, 'm, 'u) wstate \<Rightarrow> ('d, 'm, 'u) wstate \<Rightarrow> bool" where
  "dom_same st st' \<longleftrightarrow> t_dom (ws_tree st') = t_dom (ws_tree st)"

interpretation ds: write_frame dom_same
  by unfold_locales (simp_all add: dom_same_def)

lemma dom_same_disk: "dom_same st (snd (on_disk f st))"
  by (simp add: dom_same_def on_disk_def split: prod.splits)

lemma dom_same_bump: "dom_same st (on_tree bump st)"
  by (simp add: dom_same_def on_tree_def)

lemma demote_parent_same: "dom_same st (snd (demote_parent env parent st))"
proof -
  have "dom_same (on_tree bump st) (snd (wbind (on_disk f (on_tree bump st)) (\<lambda>_ st. (WOk (), on_tree (\<lambda>t. t\<lparr>t_id_to_meta := g t\<rparr>) st))))"
    for f :: "disk \<Rightarrow> unit wres \<times> disk" and g
    by (rule ds.bind_kept [OF dom_same_disk]) (simp add: dom_same_def on_tree_def)
  then have run: "dom_same st (snd (wbind (on_disk f (on_tree bump st)) (\<lambda>_ st. (WOk (), on_tree (\<lambda>t. t\<lparr>t_id_to_meta := g t\<rparr>) st))))"
    for f :: "disk \<Rightarrow> unit wres \<times> disk" and g
    by (rule ds.kept_trans [OF dom_same_bump])
  show ?thesis by (simp add: demote_parent_def Let_def dom_same_bump run split: option.splits prod.splits sum.splits)
qed

lemma remove_non_project_same: "dom_same st (snd (remove_non_project_instances env ops i mt st))"
  unfolding remove_non_project_instances_def
  by (rule ds.bind_kept [OF dom_same_disk]) (simp add: ds.kept_refl demote_parent_same split: option.splits)

lemma remove_source_same: "dom_same st (snd (remove_source env ops i mt st))"
  unfolding remove_source_def
  by (auto simp: ds.kept_refl remove_non_project_same dom_same_disk intro!: ds.bind_kept split: source_kind.splits option.splits)

lemma remove_instance_dom:
  assumes "dom_laws ops" "dom_wf (root_ref ops t) (dom_get ops (t_dom t))" and at: "dom_get ops (t_dom t) i = Some x" "i \<noteq> root_ref ops t"
  obtains t' where "remove_instance ops i t = Some (Some t')" "dom_get ops (t_dom t') = destroyed (dom_get ops (t_dom t)) i (in_parent x)"
proof -
  let ?m = "dom_get ops (t_dom t)"
  obtain ids where ids: "walk ?m [i] [] = Some (Some ids)" using walk_result [OF assms(2), of i] at(1) by auto
  have dom: "t_dom (fold (remove_meta ops) js u) = t_dom u" for js u by (induction js arbitrary: u) (simp_all add: remove_meta_fields)
  obtain d where d: "dom_destroy ops i (t_dom t) = Some d" "dom_get ops d = destroyed ?m i (in_parent x)"
    using destroy_lawD [OF _ assms(2) [unfolded root_ref_def] at(1) at(2) [unfolded root_ref_def]] assms(1) unfolding dom_laws_def by blast
  show thesis
    by (rule that [of "(fold (remove_meta ops) ids (bump t))\<lparr>t_dom := d\<rparr>"])
      (use at(2) ids d in \<open>simp_all add: remove_instance_def Let_def dom\<close>)
qed

text \<open>
  C21: A removal either fails before the tree is touched, and then every instance is still there as it
  was; or it takes the instance and all below it out of the tree and nothing else; an instance the
  syncback filter names stays.
\<close>

theorem removal_exact:
  fixes ops :: "('d, 'm, 'v) tree_ops" and st :: "('d, 'm, 'u) wstate"
  assumes laws: "dom_laws ops" and ok: "tree_ok ops (ws_tree st)"
    and i: "get_instance ops (ws_tree st) i = Some x" "i \<noteq> root_ref ops (ws_tree st)" and mt: "get_meta (ws_tree st) i = Some mt"
  shows "case apply_removal env ops i st of (r, st') \<Rightarrow>
    if r = WOk () \<and> \<not> matches_name (cx_syncback_filter (mt_context mt)) (in_name x) \<and> \<not> matches_class (cx_syncback_filter (mt_context mt)) (in_class x)
    then (\<forall>j. get_instance ops (ws_tree st') j = destroyed (get_instance ops (ws_tree st)) i (in_parent x) j)
    else (\<forall>j. get_instance ops (ws_tree st') j = get_instance ops (ws_tree st) j)"
proof (cases "matches_name (cx_syncback_filter (mt_context mt)) (in_name x) \<or> matches_class (cx_syncback_filter (mt_context mt)) (in_class x)")
  case False
  have get: "get_instance ops t = dom_get ops (t_dom t)" for t :: "('d, 'm, 'u) tree" by (simp add: fun_eq_iff get_instance_def)
  obtain r st1 where run: "remove_source env ops i mt st = (r, st1)" by fastforce
  have same: "t_dom (ws_tree st1) = t_dom (ws_tree st)" using remove_source_same [of st env ops i mt] run by (simp add: dom_same_def)
  have "dom_wf (root_ref ops (ws_tree st1)) (dom_get ops (t_dom (ws_tree st1)))" "dom_get ops (t_dom (ws_tree st1)) i = Some x" "i \<noteq> root_ref ops (ws_tree st1)"
    using ok i same by (simp_all add: tree_ok_def get root_ref_def)
  then obtain t' where t': "remove_instance ops i (ws_tree st1) = Some (Some t')" "dom_get ops (t_dom t') = destroyed (dom_get ops (t_dom (ws_tree st))) i (in_parent x)"
    using remove_instance_dom [OF laws, of "ws_tree st1" i x] same by metis
  then show ?thesis using False i(1) mt same
    by (cases r) (auto simp: apply_removal_def run Let_def wbind_def get)
qed (auto simp: apply_removal_def i mt Let_def)

theorem removal_exact_witness:
  "case apply_removal example_wenv example_ops 2 example_wstate of (r, st') \<Rightarrow>
     r = WOk () \<longrightarrow> \<not> exists_inst example_ops (ws_tree st') 2"
proof -
  obtain x where x: "get_instance example_ops (ws_tree example_wstate) 2 = Some x"
    using example_tree_exists by (auto simp: example_wstate_def exists_inst_def get_instance_def)
  have meta: "get_meta (ws_tree example_wstate) 2 = Some (example_meta [''a'', ''b''])" by (simp add: example_wstate_def example_tree_metas(2))
  have "tree_ok example_ops (ws_tree example_wstate)" "2 \<noteq> root_ref example_ops (ws_tree example_wstate)"
    using example_tree_ok by (simp_all add: example_wstate_def)
  from removal_exact [OF example_ops_laws(1) this(1) x this(2) meta, of example_wenv]
  show ?thesis
    by (auto simp: exists_inst_def get_instance_def destroyed_def example_meta_def meta_new_def context_new_def filter_default_def matches_name_def matches_class_def
        split: prod.splits if_splits)
qed

text \<open>On disk a removal reaches only the entries of the instance's source that the filter does not protect.\<close>

lemma vfs_remove_spares:
  assumes "\<not> prefix p q"
  shows "kind_at (d_fs (snd (vfs_remove c p d))) q = kind_at (d_fs d) q"
proof -
  have p: "p \<noteq> []" using assms by auto
  show ?thesis using assms
    by (auto simp: vfs_remove_def mutate_def kind_at_set [OF _ p] kind_at_unset [OF _ p] split: option.splits)
qed

lemma remove_entries_spares:
  assumes "\<forall>e\<in>set es. (\<exists>p. e = EProject p) \<or> filtered env cx (entry_path e) \<or> \<not> prefix (entry_path e) q"
  shows "kind_at (d_fs (snd (remove_entries env cx es d))) q = kind_at (d_fs d) q"
  using assms
proof (induction es arbitrary: d)
  case (Cons e es)
  have IH: "kind_at (d_fs (snd (remove_entries env cx es d))) q = kind_at (d_fs d) q" for d using Cons by simp
  have step: "kind_at (d_fs (snd (wbind (io r) (\<lambda>_. remove_entries env cx es)))) q = kind_at (d_fs (snd r)) q" for r :: "unit outcome \<times> disk"
    by (simp add: wbind_def io_def IH split: prod.splits outcome.splits)
  show ?case
  proof (cases "(\<exists>p. e = EProject p) \<or> filtered env cx (entry_path e) \<or> \<not> fs_exists (entry_path e) (d_fs d)")
    case True
    then show ?thesis using IH by (auto split: source_entry.splits)
  next
    case False
    then have "\<not> prefix (entry_path e) q" using Cons.prems by auto
    then show ?thesis using IH step vfs_remove_spares by (auto simp: Let_def)
  qed
qed simp


section \<open>Where the write path goes wrong\<close>

text \<open>
  A nested addition below a project node is inserted under the outermost parent at every level: the
  project file nests the nodes, the tree does not.
\<close>

lemma project_nesting_flattened:
  fixes ops :: "('d, 'm, 'v) tree_ops" and st :: "('d, 'm, 'u) wstate"
  assumes laws: "dom_laws ops" "multi_laws ops" and ok: "tree_ok ops (ws_tree st)" "alive ops st parent"
    and new: "new_ids ops [sid, cid] st" and nest: "nesting_check env 0" "nesting_check env 1"
    and cls: "allows_class (cx_scope (mt_context pm)) cls" "allows_class (cx_scope (mt_context pm)) ccls"
  shows "\<exists>node st' y. add_project_instances env ops parent p np (Snapshot sid smt name cls ps [Snapshot cid cmt cname ccls cps []]) pnode pm 0 st = (WOk node, st') \<and>
    get_instance ops (ws_tree st') cid = Some y \<and> in_parent y = parent"
proof -
  have ins: "\<exists>t. insert_with_ref ops s parent st = (WOk (), t) \<and> tree_ok ops (ws_tree t) \<and> alive ops t parent \<and>
      (\<exists>y. get_instance ops (ws_tree t) (sn_id s) = Some y \<and> in_parent y = parent) \<and> (\<forall>j. j \<noteq> sn_id s \<longrightarrow> \<not> alive ops st j \<longrightarrow> \<not> alive ops t j)"
    if st: "tree_ok ops (ws_tree st)" "alive ops st parent" "\<not> alive ops st (sn_id s)" "sn_id s \<noteq> ref_none" for s :: "('u, 'v) snapshot" and st :: "('d, 'm, 'u) wstate"
  proof -
    obtain x where x: "dom_get ops (t_dom (ws_tree st)) parent = Some x" using st(2) by (auto simp: exists_inst_def)
    have i: "dom_get ops (t_dom (ws_tree st)) (sn_id s) = None" using st(3) by (simp add: exists_inst_def)
    show ?thesis
      by (rule insert_at_result [OF laws st(1) x i st(4), of s])
        (use x i in \<open>auto simp: insert_with_ref_def insert_instance_with_ref_def exists_inst_def get_instance_def\<close>)
  qed
  let ?s = "\<lambda>m. Snapshot sid m name cls ps [Snapshot cid cmt cname ccls cps []]"
  define m where "m = smt\<lparr>mt_context := mt_context pm, mt_source := source_project name p
     (ProjectNode (Some cls) None [] (serialize_properties env cls ps) None [] (if mt_keep_unknowns smt then Some True else None)) (np_join np name)\<rparr>"
  obtain t where t: "insert_with_ref ops (?s m) parent st = (WOk (), t)" "tree_ok ops (ws_tree t)" "alive ops t parent" "\<not> alive ops t cid"
    using ins [OF ok, of "?s m"] new by (auto simp: new_ids_def)
  let ?ps = "validate_properties cps (cx_syncback_filter (mt_context pm))"
  define cm where "cm = cmt\<lparr>mt_context := mt_context pm, mt_source := source_project cname p
     (ProjectNode (Some ccls) None [] (serialize_properties env ccls ?ps) None [] (if mt_keep_unknowns cmt then Some True else None)) (np_join (np_join np name) cname)\<rparr>"
  obtain u y where u: "insert_with_ref ops (Snapshot cid cm cname ccls ?ps []) parent t = (WOk (), u)" "get_instance ops (ws_tree u) cid = Some y" "in_parent y = parent"
    using ins [OF t(2,3), of "Snapshot cid cm cname ccls ?ps []"] t(4) new by (auto simp: new_ids_def)
  have "\<exists>node. add_project_instances env ops parent p np (?s smt) pnode pm 0 st = (WOk node, u)"
    using nest cls t(1) u(1) by (simp add: add_project_instances.simps Let_def wbind_def m_def cm_def)
  then show ?thesis using u by blast
qed

text \<open>
  A pushed update of a script takes its run context out of the tree's properties (the file suffix has
  it), while reading the file back puts it in: the two differ until the next read reports a change.
\<close>

lemma update_forgets_run_context:
  assumes "in_class x = ''Script''" "update_non_project_properties env p ps x mt d = (WOk (mt', Some ps'), d')"
    and rc: "\<And>v. map_of (validate_properties ps (cx_syncback_filter (mt_context mt))) ''RunContext'' = Some v \<Longrightarrow> we_enum env v \<in> {None, Some 0, Some 1, Some 2}"
  shows "map_of ps' ''RunContext'' = None"
proof -
  let ?qs = "validate_properties ps (cx_syncback_filter (mt_context mt))"
  have "map_of (snd (from_class env ''Script'' ?qs)) ''RunContext'' = None"
    using rc by (cases "map_of ?qs ''RunContext''") (auto simp: from_class_def prop_get_remove Let_def split: option.splits)
  moreover have "ps' = snd (from_class env ''Script'' ?qs)"
    using assms(1,2) by (auto simp: update_non_project_properties_def Let_def wbind_WOk split: if_splits prod.splits option.splits)
  ultimately show ?thesis by simp
qed

definition star_matches :: "glob \<Rightarrow> path \<Rightarrow> bool" where
  "star_matches g p = (case g of [] \<Rightarrow> False | c # rest \<Rightarrow> c = CHR ''*'' \<and> suffix rest (path_name p))"

definition duplicate_env :: "(unit, bool) write_env" where
  "duplicate_env = example_wenv\<lparr>we_keep_duplicates := True, we_matches := star_matches\<rparr>"

text \<open>
  With duplicates kept, a script with children whose folder exists gets a folder of its own, but its source is
  written to the path located before: over the script of the folder that was there.
\<close>

lemma duplicate_overwrites:
  "file_at [''w'', ''X'', ''init.luau''] (d_fs (ws_disk (snd (write_instance duplicate_env True [''w'', ''X'']
      (Snapshot 8 meta_new ''X'' ''ModuleScript'' [(''Source'', VString ''new'')] [Snapshot 9 meta_new ''Y'' ''Folder'' [] []]) meta_new
      (example_wstate\<lparr>ws_disk := \<lparr>d_fs = FDir [(''w'', FDir [(''X'', FDir [(''init.luau'', FFile ''old'')])])], d_left = 9\<rparr>\<rparr>)))))
   = Some ''new''"
  by code_simp


text \<open>
  The folder a flat parent moves into is checked under the child's name: when it is taken, the parent's new
  folder is called after the child, and the parent remembers the child's name as its own.
\<close>

lemma promotion_takes_child_name:
  "case promote_parent duplicate_env [''w'', ''P.luau''] ''Kid'' (example_meta [''w'', ''P.luau''])
      (example_wstate\<lparr>ws_disk := \<lparr>d_fs = FDir [(''w'', FDir [(''P.luau'', FFile ''s''), (''P'', FDir [(''x'', FFile '''')])])], d_left = 20\<rparr>\<rparr>) of
     (WOk (Some (src, folder, name), mt), st) \<Rightarrow> folder = [''w'', ''Kid_0''] \<and> mt_original_name mt = Some ''Kid'' \<and>
       file_at [''w'', ''Kid_0'', ''init.luau''] (ws_fs st) = Some ''s''
   | _ \<Rightarrow> False"
  by code_simp

end
