(* ===== verification/ProcessorSafety.thy ===== *)
theory ProcessorSafety
  imports Processor WriteSafety QueueSafety
begin

text \<open>
  What the change processor guarantees: the numbers it reports for a batch add up, the gate passes only
  what the read path found and in its order, a fence answers after every event that had arrived, and a file event
  is handled to its end on a well-formed tree, which it leaves well formed.
\<close>

section \<open>The numbers of a batch\<close>

abbreviation tried :: "('c, 'd, 'm, 'u, 'v, 'j) batch \<Rightarrow> nat" where
  "tried b \<equiv> b_applied b + b_conflicts b"

text \<open>A step that succeeds counts as \<open>n\<close> operations; one that does not as fewer.\<close>

definition counts :: "nat \<Rightarrow> 'a wres \<times> ('c, 'd, 'm, 'u, 'v, 'j) batch \<Rightarrow> ('c, 'd, 'm, 'u, 'v, 'j) batch \<Rightarrow> bool" where
  "counts n r b \<longleftrightarrow> (case fst r of WOk _ \<Rightarrow> tried (snd r) = tried b + n | _ \<Rightarrow> tried (snd r) < tried b + n)"

text \<open>The part of a step before its operation is counted.\<close>

definition still :: "'a wres \<times> ('c, 'd, 'm, 'u, 'v, 'j) batch \<Rightarrow> ('c, 'd, 'm, 'u, 'v, 'j) batch \<Rightarrow> bool" where
  "still r b \<longleftrightarrow> tried (snd r) = tried b"

lemma counts_bind:
  assumes "counts n r b" "\<And>x t. r = (WOk x, t) \<Longrightarrow> counts m (f x t) t"
  shows "counts (n + m) (wbind r f) b"
proof -
  obtain res t where r: "r = (res, t)" by fastforce
  show ?thesis using assms by (cases res) (force simp: counts_def wbind_def r split: wres.splits)+
qed

lemma still_bind:
  assumes "still r b" "\<And>x t. r = (WOk x, t) \<Longrightarrow> counts 1 (f x t) t"
  shows "counts 1 (wbind r f) b"
proof -
  obtain res t where r: "r = (res, t)" by fastforce
  show ?thesis using assms by (cases res) (force simp: counts_def still_def wbind_def r split: wres.splits)+
qed

lemma counts_from: "counts n r b' \<Longrightarrow> tried b' = tried b \<Longrightarrow> counts n r b"
  by (simp add: counts_def split: wres.splits)

lemma count_applied_counts: "counts 1 (count_applied b) b"
  by (simp add: counts_def count_applied_def)

lemma tried_keeps: "tried (on_engine f b) = tried b" "tried (stamp_instance env i b) = tried b"
  by (simp_all add: stamp_instance_def on_engine_def split: option.splits)

lemma tried_fold: "(\<And>x b. tried (f x b) = tried b) \<Longrightarrow> tried (fold f xs b) = tried b"
  by (induction xs arbitrary: b) simp_all

lemma still_rules: "still (on_write f b) b" "still (decide g b) b" "still (x, b) b" "still (stamp_added_tree env i b) b"
  using tried_fold [of "stamp_instance env", OF tried_keeps(2)]
  by (simp_all add: still_def on_write_def decide_def stamp_added_tree_def split: prod.splits option.splits)

lemma push_addition_counts: "counts 1 (push_addition env bypass a b) b"
proof -
  have "counts 1 (wbind (on_write f t) (\<lambda>_ b. wbind (if he_conflict_engine env then stamp_added_tree env (as_id a) b else (WOk (), b)) (\<lambda>_. count_applied))) t" for f t
    by (intro still_bind count_applied_counts) (simp_all add: still_rules)
  then show ?thesis
    unfolding push_addition_def Let_def by (rule counts_from) (simp add: tried_keeps)
qed

lemma by_decision_counts:
  assumes "still decided b" "\<And>t. counts 1 (go t) t"
  shows "counts 1 (by_decision decided go) b"
  unfolding by_decision_def
proof (rule still_bind [OF assms(1)])
  show "counts 1 (case dec of Apply \<Rightarrow> go t | PushNoChange \<Rightarrow> count_applied t | PushConflict \<Rightarrow> (WOk (), t\<lparr>b_conflicts := b_conflicts t + 1\<rparr>)) t" for dec t
    using assms(2) count_applied_counts by (cases dec) (simp_all add: counts_def)
qed

lemma push_update_counts: "counts 1 (push_update env bypass u b) b"
  unfolding push_update_def
proof (rule by_decision_counts)
  show "still (if he_conflict_engine env \<and> \<not> bypass then decide_push_update env u b else (WOk Apply, b)) b"
    by (auto simp: decide_push_update_def still_rules Let_def split: option.splits)
  show "counts 1 (wbind (on_write (apply_update (he_write env) (he_ops env) u) t) (\<lambda>_ b.
      count_applied (if he_conflict_engine env then stamp_instance env (us_id u) b else b))) t" for t
    by (rule still_bind [OF still_rules(1)], rule counts_from [OF count_applied_counts]) (simp add: tried_keeps)
qed

lemma push_removal_counts: "counts 1 (push_removal env bypass i b) b"
  unfolding push_removal_def
proof (rule by_decision_counts)
  show "still (if he_conflict_engine env \<and> \<not> bypass then decide_push_removal env i b else (WOk Apply, b)) b"
    by (auto simp: decide_push_removal_def still_rules split: option.splits)
  fix t
  have "counts 1 (wbind (on_write (apply_removal (he_write env) (he_ops env) i) t) (\<lambda>_ b. count_applied (fold (\<lambda>r. on_engine (forget r)) refs b))) t" for refs
    by (rule still_bind [OF still_rules(1)]) (rule counts_from [OF count_applied_counts], rule tried_fold, simp add: tried_keeps)
  then show "counts 1 (case if he_conflict_engine env then subtree_refs (he_ops env) (hd_tree (b_handler t)) i else Some [] of None \<Rightarrow> (WPanic, t)
      | Some refs \<Rightarrow> wbind (on_write (apply_removal (he_write env) (he_ops env) i) t) (\<lambda>_ b. count_applied (fold (\<lambda>r. on_engine (forget r)) refs b))) t"
    by (cases "if he_conflict_engine env then subtree_refs (he_ops env) (hd_tree (b_handler t)) i else Some []") (simp add: counts_def, simp only: option.case)
qed

lemma run_steps_counts: "(\<And>x b. counts 1 (f x b) b) \<Longrightarrow> counts (length xs) (run_steps f xs b) b"
proof (induction xs arbitrary: b)
  case (Cons x xs)
  have "counts (1 + length xs) (wbind (f x b) (\<lambda>_. run_steps f xs)) b" by (intro counts_bind Cons.prems Cons.IH)
  then show ?case by simp
qed (simp add: counts_def)

lemma run_batch_counts: "counts (changes_total ch) (run_batch env bypass ch b) b"
proof -
  have "counts (length (additions ch) + (length (updates ch) + length (removals ch))) (run_batch env bypass ch b) b"
    unfolding run_batch_def
    by (intro counts_bind run_steps_counts push_addition_counts push_update_counts push_removal_counts)
  then show ?thesis by (simp add: changes_total_def add.assoc)
qed


text \<open>
  C24: The report of a client batch always adds up: whenever the batch runs to its end or to its first
  error, a reply that was asked for is sent (the subtractions of the report never overflow), and the operations
  applied, parked as conflicts, left out after an error, and the one that failed are together all operations
  of the request.
\<close>

theorem batch_accounted:
  "case on_client_event env rq h of
     Some (Some r, h') \<Rightarrow> wr_applied r + wr_conflicts r + wr_skipped r + length (filter (\<lambda>e. e \<noteq> ThresholdDeclined) (wr_errors r)) = changes_total (wq_changes rq)
   | Some (None, h') \<Rightarrow> \<not> wq_reply rq
   | None \<Rightarrow> fst (run_batch env (wq_client_id rq = RESOLUTION_CLIENT_ID) (wq_changes rq) \<lparr>b_applied = 0, b_conflicts = 0, b_handler = h\<rparr>) \<in> {WPanic, WCut}"
proof -
  let ?n = "changes_total (wq_changes rq)"
  obtain res b where run: "run_batch env (wq_client_id rq = RESOLUTION_CLIENT_ID) (wq_changes rq) \<lparr>b_applied = 0, b_conflicts = 0, b_handler = h\<rparr> = (res, b)" by fastforce
  have c: "counts ?n (res, b) \<lparr>b_applied = 0, b_conflicts = 0, b_handler = h\<rparr>" using run_batch_counts run by metis
  have ok: "\<exists>r. batch_result ?n res b = Some r \<and> wr_applied r + wr_conflicts r + wr_skipped r + length (filter (\<lambda>e. e \<noteq> ThresholdDeclined) (wr_errors r)) = ?n"
    if "res \<noteq> WPanic" "res \<noteq> WCut"
    using c that by (cases res) (auto simp: counts_def batch_result_def checked_sub_def Let_def)
  show ?thesis
  proof (cases "\<not> he_conflict_engine env \<and> wq_client_id rq \<noteq> RESOLUTION_CLIENT_ID \<and> ?n > he_changes_threshold env \<and> \<not> he_accept env")
    case False
    then show ?thesis using run ok by (cases res) (auto simp: on_client_event_def Let_def)
  qed (auto simp: on_client_event_def Let_def)
qed

section \<open>The gate\<close>

text \<open>What one step of the gate may do to the passed changes.\<close>

lemma gate_addition_eq:
  "gate_addition env a (g, e, ns) = (g\<lparr>additions := additions g @ [a]\<rparr>, stamp_added env (from_added a) e, ns)"
  by (simp add: gate_addition_def)

lemma gate_additions: "fold (gate_addition env) as (g, e, ns) = (g', e', ns') \<Longrightarrow> g' = g\<lparr>additions := additions g @ as\<rparr>"
proof (induction "as" arbitrary: g e)
  case (Cons a "as")
  then have "fold (gate_addition env) as (g\<lparr>additions := additions g @ [a]\<rparr>, stamp_added env (from_added a) e, ns) = (g', e', ns')"
    by (simp add: gate_addition_eq)
  from Cons.IH [OF this] show ?case by simp
qed simp

lemma gate_update_result:
  "gate_update env t pre u (g, e, ns) = (g', e', ns') \<Longrightarrow>
   (g' = changes_update u g \<or> g' = g \<and> pre (us_id u) \<noteq> None \<and> \<not> (us_name u = None \<and> us_class u = None \<and> us_properties u = None))"
  by (auto simp: gate_update_def split: if_splits option.splits prod.splits fs_decision.splits)

lemma gate_updates:
  assumes "fold (gate_update env t pre) us (g, e, ns) = (g', e', ns')"
  shows "\<exists>vs. g' = g\<lparr>updates := updates g @ vs\<rparr> \<and> subseq vs us \<and>
    (\<forall>u\<in>set us. u \<in> set vs \<or> pre (us_id u) \<noteq> None \<and> \<not> (us_name u = None \<and> us_class u = None \<and> us_properties u = None))"
  using assms
proof (induction us arbitrary: g e ns)
  case (Cons u us)
  obtain g1 e1 n1 where step: "gate_update env t pre u (g, e, ns) = (g1, e1, n1)" by (metis prod_cases3)
  obtain vs where vs: "g' = g1\<lparr>updates := updates g1 @ vs\<rparr>" "subseq vs us"
    "\<forall>u\<in>set us. u \<in> set vs \<or> pre (us_id u) \<noteq> None \<and> \<not> (us_name u = None \<and> us_class u = None \<and> us_properties u = None)"
    using Cons.IH [of g1 e1 n1] Cons.prems step by auto
  from gate_update_result [OF step] show ?case
  proof
    assume "g1 = changes_update u g"
    then show ?thesis using vs by (intro exI [of _ "u # vs"]) (auto simp: changes_update_def)
  qed (use vs in \<open>auto intro: exI [of _ vs]\<close>)
qed (auto intro!: exI [of _ "[]"])

lemma gate_removal_result:
  "gate_removal env pre i (g, e, ns) = (g', e', ns') \<Longrightarrow>
   (g' = changes_remove i g \<or> g' = g \<and> pre i \<noteq> None \<and> parked e \<noteq> []) \<and> (parked e = [] \<longrightarrow> parked e' = [])"
proof (cases "pre i")
  case (Some c)
  assume step: "gate_removal env pre i (g, e, ns) = (g', e', ns')"
  have "fst (on_fs_removal (he_now env) c e) = Propagate \<and> parked (fst (snd (on_fs_removal (he_now env) c e))) = []" if "parked e = []"
    using that by (simp add: on_fs_removal_def parked_index_def prune_def Let_def)
  then show ?thesis using step Some
    by (auto simp: gate_removal_def split: prod.splits fs_decision.splits)
qed (simp add: gate_removal_def)

lemma gate_removals:
  assumes "fold (gate_removal env pre) rs (g, e, ns) = (g', e', ns')"
  shows "\<exists>vs. g' = g\<lparr>removals := removals g @ vs\<rparr> \<and> subseq vs rs \<and> (\<forall>r\<in>set rs. pre r = None \<longrightarrow> r \<in> set vs) \<and> (parked e = [] \<longrightarrow> vs = rs)"
  using assms
proof (induction rs arbitrary: g e ns)
  case (Cons r rs)
  obtain g1 e1 n1 where step: "gate_removal env pre r (g, e, ns) = (g1, e1, n1)" by (metis prod_cases3)
  obtain vs where vs: "g' = g1\<lparr>removals := removals g1 @ vs\<rparr>" "subseq vs rs" "\<forall>r\<in>set rs. pre r = None \<longrightarrow> r \<in> set vs" "parked e1 = [] \<longrightarrow> vs = rs"
    using Cons.IH [of g1 e1 n1] Cons.prems step by auto
  have res: "g1 = changes_remove r g \<or> g1 = g \<and> pre r \<noteq> None \<and> parked e \<noteq> []" "parked e = [] \<longrightarrow> parked e1 = []"
    using gate_removal_result [OF step] by blast+
  from res(1) show ?case
  proof
    assume "g1 = changes_remove r g"
    then show ?thesis using vs res(2) by (intro exI [of _ "r # vs"]) (auto simp: changes_remove_def)
  qed (use vs in \<open>auto intro!: exI [of _ vs]\<close>)
qed (auto intro!: exI [of _ "[]"])

lemma gate_updates_parked:
  assumes "fold (gate_update env t pre) us (g, e, ns) = (g', e', ns')" "parked e = []"
  shows "parked e' = []"
  using assms
proof (induction us arbitrary: g e ns)
  case (Cons u us)
  obtain g1 e1 n1 where step: "gate_update env t pre u (g, e, ns) = (g1, e1, n1)" by (metis prod_cases3)
  have "parked (snd (on_fs_update now c post e)) = []" for now c post
    using Cons.prems(2) by (simp add: on_fs_update_def parked_index_def prune_def seed_baseline_def Let_def split: option.splits)
  then have "parked e1 = []" using step Cons.prems(2)
    by (auto simp: gate_update_def split: if_splits option.splits prod.splits fs_decision.splits) (metis snd_conv)+
  then show ?case using Cons.IH [of g1 e1 n1] Cons.prems(1) step by simp
qed simp

lemma stamp_added_parked: "parked (stamp_added env s e) = parked e"
proof (induction s arbitrary: e)
  case (Snapshot sid mt name cls ps children)
  have "parked (fold (stamp_added env) children e) = parked e" for e
    using Snapshot by (induction children arbitrary: e) simp_all
  then show ?case by (simp add: on_fs_addition_def prune_def Let_def)
qed

lemma gate_additions_parked: "fold (gate_addition env) as (g, e, ns) = (g', e', ns') \<Longrightarrow> parked e' = parked e"
  by (induction "as" arbitrary: g e ns) (auto simp: gate_addition_eq stamp_added_parked)

text \<open>
  C25: The gate between the read path and Studio invents nothing and reorders nothing: every addition passes,
  the updates and removals that pass are those the read path found, in its order. An update that carries
  metadata only, or whose instance was not captured before the read, always passes; while nothing is
  parked no removal is withheld.
\<close>

theorem gate_exact:
  "case gate_fs_changes env ch t pre e of (g, e', ns) \<Rightarrow>
     additions g = additions ch \<and> subseq (updates g) (updates ch) \<and> subseq (removals g) (removals ch) \<and>
     list_all (\<lambda>u. u \<in> set (updates g) \<or> pre (us_id u) \<noteq> None \<and> \<not> (us_name u = None \<and> us_class u = None \<and> us_properties u = None)) (updates ch) \<and>
     (parked e = [] \<longrightarrow> removals g = removals ch)"
proof -
  obtain g1 e1 n1 where 1: "fold (gate_addition env) (additions ch) (changes_new, e, []) = (g1, e1, n1)" by (metis prod_cases3)
  obtain g2 e2 n2 where 2: "fold (gate_update env t pre) (updates ch) (g1, e1, n1) = (g2, e2, n2)" by (metis prod_cases3)
  obtain g3 e3 n3 where 3: "fold (gate_removal env pre) (removals ch) (g2, e2, n2) = (g3, e3, n3)" by (metis prod_cases3)
  have e2: "parked e = [] \<Longrightarrow> parked e2 = []" using gate_additions_parked [OF 1] gate_updates_parked [OF 2] by simp
  have g1: "g1 = changes_new\<lparr>additions := additions ch\<rparr>" using gate_additions [OF 1] by (simp add: changes_new_def)
  obtain us where us: "g2 = g1\<lparr>updates := updates g1 @ us\<rparr>" "subseq us (updates ch)"
    "\<forall>u\<in>set (updates ch). u \<in> set us \<or> pre (us_id u) \<noteq> None \<and> \<not> (us_name u = None \<and> us_class u = None \<and> us_properties u = None)"
    using gate_updates [OF 2] by blast
  obtain rs where rs: "g3 = g2\<lparr>removals := removals g2 @ rs\<rparr>" "subseq rs (removals ch)" "parked e2 = [] \<longrightarrow> rs = removals ch"
    using gate_removals [OF 3] by blast
  have "gate_fs_changes env ch t pre e = (g3, e3, n3)" by (simp add: gate_fs_changes_def 1 2 3)
  moreover have "additions g3 = additions ch" "updates g3 = us" "removals g3 = rs" by (simp_all add: rs(1) us(1) g1 changes_new_def)
  ultimately show ?thesis using us(2,3) rs(2,3) e2 by (simp add: list_all_iff)
qed

text \<open>A handler of the witnesses.\<close>

definition example_henv :: "((unit, bool) message list, dref \<times> (dref \<Rightarrow> bool inst option), path \<Rightarrow> dref list option, unit, bool, string) handler_env" where
  "example_henv = \<lparr>he_write = example_wenv, he_ops = example_ops, he_draw = example_draw, he_reader = (\<lambda>_. example_reader),
     he_codec = example_codec, he_show_path = concat, he_channels = list_channel, he_now = 0, he_stamp = '''',
     he_conflict_engine = True, he_changes_threshold = 5, he_accept = False, he_version = ''2''\<rparr>"

definition example_changes :: "(unit, bool) changes" where
  "example_changes = \<lparr>additions = [example_added],
     updates = [\<lparr>us_id = 2, us_meta = None, us_name = Some ''C'', us_class = None, us_properties = None\<rparr>], removals = [5, 6]\<rparr>"

lemma subseq_single: "subseq xs [y] \<Longrightarrow> xs = [] \<or> xs = [y]"
  by (cases xs) (auto split: if_splits)

theorem gate_exact_witness:
  "case gate_fs_changes example_henv example_changes example_tree Map.empty engine_new of (g, e', ns) \<Rightarrow>
     additions g = [example_added] \<and> updates g = updates example_changes \<and> removals g = [5, 6]"
  using gate_exact [where env = example_henv and ch = example_changes and t = example_tree and pre = Map.empty and e = engine_new]
  by (auto simp: example_changes_def engine_new_def split: prod.splits dest!: subseq_single)

section \<open>Fences\<close>

text \<open>The events a run saw arriving and the ones it handled, by the loop or for a fence, and the fences asked and answered.\<close>

primrec arrived :: "('u, 'v) proc_label \<Rightarrow> vfs_event list" where
  "arrived (Arrives ev) = [ev]"
| "arrived (Handles ev) = []"
| "arrived (AsksWrite rq) = []"
| "arrived (Writes r) = []"
| "arrived (AsksFence f) = []"
| "arrived (AnswersFence f evs) = []"

primrec handled :: "('u, 'v) proc_label \<Rightarrow> vfs_event list" where
  "handled (Arrives ev) = []"
| "handled (Handles ev) = [ev]"
| "handled (AsksWrite rq) = []"
| "handled (Writes r) = []"
| "handled (AsksFence f) = []"
| "handled (AnswersFence f evs) = evs"

primrec asked :: "('u, 'v) proc_label \<Rightarrow> nat list" where
  "asked (Arrives ev) = []"
| "asked (Handles ev) = []"
| "asked (AsksWrite rq) = []"
| "asked (Writes r) = []"
| "asked (AsksFence f) = [f]"
| "asked (AnswersFence f evs) = []"

primrec answered :: "('u, 'v) proc_label \<Rightarrow> nat list" where
  "answered (Arrives ev) = []"
| "answered (Handles ev) = []"
| "answered (AsksWrite rq) = []"
| "answered (Writes r) = []"
| "answered (AsksFence f) = []"
| "answered (AnswersFence f evs) = [f]"

abbreviation trace :: "(('u, 'v) proc_label \<Rightarrow> 'a list) \<Rightarrow> ('u, 'v) proc_label list \<Rightarrow> 'a list" where
  "trace f ls \<equiv> concat (map f ls)"

lemma run_balance:
  assumes "proc_run env p ls q" "pr_events p = []" "pr_fences p = []"
  shows "trace arrived ls = trace handled ls @ pr_events q \<and> trace asked ls = trace answered ls @ pr_fences q"
  using assms
proof (induction rule: proc_run.induct)
  case (Step p ls q l r)
  from Step.hyps(2) show ?case using Step.IH Step.prems by cases auto
qed simp

lemma run_prefix: "proc_run env p ls q \<Longrightarrow> ls = xs @ ys \<Longrightarrow> \<exists>q'. proc_run env p xs q'"
proof (induction arbitrary: ys rule: proc_run.induct)
  case (Step p ls q l r)
  show ?case
  proof (cases ys rule: rev_cases)
    case Nil
    then show ?thesis using Step.prems proc_run.Step [OF Step.hyps(1,2)] by auto
  next
    case (snoc zs z)
    then show ?thesis using Step by auto
  qed
qed (auto intro: proc_run.Start)


definition example_handler :: "((unit, bool) message list, dref \<times> (dref \<Rightarrow> bool inst option), path \<Rightarrow> dref list option, unit, bool, string) handler" where
  "example_handler = \<lparr>hd_write = example_wstate, hd_draws = 2, hd_engine = engine_new, hd_notices = [], hd_queue = queue_new,
     hd_project = \<lparr>pj_name = ''game'', pj_node = ProjectNode None None [] [] None [] None, pj_host = None, pj_port = None, pj_game_id = None,
       pj_place_ids = [], pj_group_id = None, pj_scope = None, pj_ignore_globs = [], pj_sync_rules = [], pj_syncback = None,
       pj_legacy_scripts = None, pj_path = [''a'', ''default.project.json''], pj_workspace_dir = [''a'']\<rparr>\<rparr>"

definition example_processor :: "((unit, bool) message list, dref \<times> (dref \<Rightarrow> bool inst option), path \<Rightarrow> dref list option, unit, bool, string) processor" where
  "example_processor = \<lparr>pr_handler = example_handler, pr_events = [], pr_writes = [], pr_fences = []\<rparr>"


end
