(* ===== verification/Layout.thy ===== *)
theory Layout
  imports Formats
begin

text \<open>
  How a directory projects (\<^verbatim>\<open>src/middleware/layout.rs\<close>): which entries are init files and
  which of them wins, which entries become children, and which are hidden because a
  same-named sibling form wins. \<open>read_layout\<close> decides for a whole directory, \<open>shadowing_form\<close>
  for one path that is read on its own.

  The file operations the code asks of its \<open>LayoutFs\<close> trait are the record \<open>layout_fs\<close>;
  \<open>disk_layout\<close> is its instance on a file tree, for the daemon's \<open>Vfs\<close> and for the plain file
  system alike. The laws the trait's users rely on are the locale \<open>listing\<close>. The pattern
  matcher of the \<open>glob\<close> package is the parameter \<open>matches\<close>. The once-per-occurrence warning keeps
  its messages in a map from directories to texts; a text is here the list of what it reports.
\<close>

section \<open>Definitions\<close>

record layout_fs =
  lf_list :: "path \<Rightarrow> path list option"
  lf_is_dir :: "path \<Rightarrow> bool"
  lf_is_file :: "path \<Rightarrow> bool"

definition dir_entries :: "path \<Rightarrow> fnode \<Rightarrow> path list option" where
  "dir_entries dir fs =
     (case node_at dir fs of Some (FDir xs) \<Rightarrow> Some (map (\<lambda>(name, _). dir @ [name]) xs) | _ \<Rightarrow> None)"

definition disk_layout :: "fnode \<Rightarrow> layout_fs" where
  "disk_layout fs = \<lparr>lf_list = (\<lambda>dir. dir_entries dir fs), lf_is_dir = (\<lambda>p. is_dir p fs), lf_is_file = (\<lambda>p. is_file p fs)\<rparr>"

record init_candidate =
  ic_path :: path
  ic_rule :: nat
  ic_middleware :: middleware
  ic_name :: string

datatype shadow_reason = FolderHasInit | EmptyFolder

record shadowed =
  sh_hidden :: path
  sh_by :: path
  sh_name :: string
  sh_reason :: shadow_reason

record dir_layout =
  dl_dir :: path
  dl_inits :: "init_candidate list"
  dl_children :: "path list"
  dl_shadowed :: "shadowed list"
  dl_staging :: "path list"

definition is_init_ambiguous :: "dir_layout \<Rightarrow> bool" where
  "is_init_ambiguous l \<longleftrightarrow> length (dl_inits l) > 1"

datatype folder_shape = HasInit | Nothing | Contents

text \<open>\<open>Path::extension\<close>\<close>

definition path_extension :: "path \<Rightarrow> string option" where
  "path_extension p =
     (let name = path_name p; stem = file_stem name
      in if stem = name then None else Some (drop (Suc (length stem)) name))"

definition scope_allows_rule :: "meta_context \<Rightarrow> middleware \<Rightarrow> path \<Rightarrow> bool" where
  "scope_allows_rule cx mw p \<longleftrightarrow>
     cx_scope cx \<noteq> Code \<or> mw = MProject \<or>
     mw \<in> {ServerScript, ClientScript, LocalScript, RunServerScript, ModuleScript} \<and> path_extension p = Some ''luau''"

definition is_staging :: "path \<Rightarrow> bool" where
  "is_staging p \<longleftrightarrow> suffix RESHAPE_SUFFIX (path_name p)"

definition layout_excluded :: "(glob \<Rightarrow> path \<Rightarrow> bool) \<Rightarrow> meta_context \<Rightarrow> path \<Rightarrow> bool" where
  "layout_excluded matches cx p \<longleftrightarrow>
     (p \<noteq> [] \<and> last p \<in> set BLACKLISTED_PATHS) \<or> is_staging p \<or> list_ex (\<lambda>r. ignore_matches matches r p) (cx_ignore_rules cx)"

definition init_candidate_of :: "(glob \<Rightarrow> path \<Rightarrow> bool) \<Rightarrow> meta_context \<Rightarrow> path \<Rightarrow> init_candidate option" where
  "init_candidate_of matches cx p =
     find_map (\<lambda>(i, r).
         case resolve_child matches r p of
           Some rr \<Rightarrow> if scope_allows_rule cx (rr_middleware rr) p
             then Some \<lparr>ic_path = p, ic_rule = i, ic_middleware = rr_middleware rr, ic_name = rr_name rr\<rparr> else None
         | None \<Rightarrow> None)
       (enumerate 0 (sync_rules cx))"

definition file_rule :: "(glob \<Rightarrow> path \<Rightarrow> bool) \<Rightarrow> layout_fs \<Rightarrow> meta_context \<Rightarrow> path \<Rightarrow> (nat \<times> resolved_rule) option" where
  "file_rule matches lf cx p =
     find_map (\<lambda>(i, r).
         case resolve_rule matches (lf_is_dir lf) r p of
           Some rr \<Rightarrow> if scope_allows_rule cx (rr_middleware rr) p then Some (i, rr) else None
         | None \<Rightarrow> None)
       (enumerate 0 (sync_rules cx))"

definition flat_name :: "(glob \<Rightarrow> path \<Rightarrow> bool) \<Rightarrow> layout_fs \<Rightarrow> meta_context \<Rightarrow> path \<Rightarrow> (nat \<times> string) option" where
  "flat_name matches lf cx p =
     (case file_rule matches lf cx p of
        Some (i, rr) \<Rightarrow> if rr_middleware rr \<noteq> MProject then Some (i, rr_name rr) else None
      | None \<Rightarrow> None)"

fun shape_of :: "(glob \<Rightarrow> path \<Rightarrow> bool) \<Rightarrow> layout_fs \<Rightarrow> meta_context \<Rightarrow> path list \<Rightarrow> folder_shape \<Rightarrow> folder_shape" where
  "shape_of matches lf cx [] shape = shape"
| "shape_of matches lf cx (e # es) shape =
     (if layout_excluded matches cx e then shape_of matches lf cx es shape
      else if lf_is_dir lf e then shape_of matches lf cx es Contents
      else if init_candidate_of matches cx e \<noteq> None then HasInit
      else shape_of matches lf cx es (if file_rule matches lf cx e \<noteq> None then Contents else shape))"

definition folder_shape_of :: "(glob \<Rightarrow> path \<Rightarrow> bool) \<Rightarrow> layout_fs \<Rightarrow> meta_context \<Rightarrow> path \<Rightarrow> folder_shape option" where
  "folder_shape_of matches lf cx dir = map_option (\<lambda>es. shape_of matches lf cx es Nothing) (lf_list lf dir)"

text \<open>The flat files that may pair with a folder: instance name, rule, file.\<close>

definition paired_flat ::
  "(glob \<Rightarrow> path \<Rightarrow> bool) \<Rightarrow> layout_fs \<Rightarrow> meta_context \<Rightarrow> path list \<Rightarrow> path \<Rightarrow> (string \<times> nat \<times> path) option" where
  "paired_flat matches lf cx dirs file =
     (if \<not> list_ex (\<lambda>d. prefix (path_name d) (path_name file)) dirs then None
      else case flat_name matches lf cx file of
             Some (i, inst) \<Rightarrow> if inst \<in> set (map path_name dirs) then Some (inst, i, file) else None
           | None \<Rightarrow> None)"

definition flats_of ::
  "(glob \<Rightarrow> path \<Rightarrow> bool) \<Rightarrow> layout_fs \<Rightarrow> meta_context \<Rightarrow> path list \<Rightarrow> path list \<Rightarrow> (string \<times> nat \<times> path) list" where
  "flats_of matches lf cx dirs files = List.map_filter (paired_flat matches lf cx dirs) files"

definition sort_pairs :: "(nat \<times> path) list \<Rightarrow> (nat \<times> path) list" where
  "sort_pairs ps = sort_key fst (sort_key snd ps)"

text \<open>What a folder and the flat files of its name do to each other; \<open>None\<close> is an I/O error.\<close>

definition pair_folder ::
  "(glob \<Rightarrow> path \<Rightarrow> bool) \<Rightarrow> layout_fs \<Rightarrow> meta_context \<Rightarrow> (string \<times> nat \<times> path) list \<Rightarrow> path \<Rightarrow> shadowed list option" where
  "pair_folder matches lf cx flats folder =
     (case sort_pairs (map snd (filter (\<lambda>(inst, _). inst = path_name folder) flats)) of
        [] \<Rightarrow> Some []
      | (i, flat) # pairs \<Rightarrow>
          map_option (\<lambda>shape.
              case shape of
                HasInit \<Rightarrow> map (\<lambda>(_, f). \<lparr>sh_hidden = f, sh_by = folder, sh_name = path_name folder, sh_reason = FolderHasInit\<rparr>) ((i, flat) # pairs)
              | Nothing \<Rightarrow> [\<lparr>sh_hidden = folder, sh_by = flat, sh_name = path_name folder, sh_reason = EmptyFolder\<rparr>]
              | Contents \<Rightarrow> [])
            (folder_shape_of matches lf cx folder))"

fun pair_folders ::
  "(glob \<Rightarrow> path \<Rightarrow> bool) \<Rightarrow> layout_fs \<Rightarrow> meta_context \<Rightarrow> (string \<times> nat \<times> path) list \<Rightarrow> path list \<Rightarrow> shadowed list option" where
  "pair_folders matches lf cx flats [] = Some []"
| "pair_folders matches lf cx flats (folder # folders) =
     (case pair_folder matches lf cx flats folder of
        None \<Rightarrow> None
      | Some new \<Rightarrow> map_option (\<lambda>rest. new @ rest) (pair_folders matches lf cx flats folders))"

definition read_layout :: "(glob \<Rightarrow> path \<Rightarrow> bool) \<Rightarrow> layout_fs \<Rightarrow> meta_context \<Rightarrow> path \<Rightarrow> dir_layout option" where
  "read_layout matches lf cx dir =
     (case map_option sort (lf_list lf dir) of
        None \<Rightarrow> None
      | Some entries \<Rightarrow>
          let projected = filter (\<lambda>e. \<not> is_staging e \<and> \<not> layout_excluded matches cx e) entries;
              found = List.map_filter (init_candidate_of matches cx) (filter (lf_is_file lf) projected);
              files = filter (\<lambda>e. lf_is_file lf e \<and> init_candidate_of matches cx e = None) projected;
              dirs = filter (\<lambda>e. \<not> lf_is_file lf e) projected
          in map_option (\<lambda>shadows.
               \<lparr>dl_dir = dir, dl_inits = sort_key ic_rule (sort_key ic_path found),
                dl_children = sort (filter (\<lambda>e. e \<notin> set (map sh_hidden shadows)) (files @ dirs)),
                dl_shadowed = shadows, dl_staging = filter is_staging entries\<rparr>)
             (if dirs \<noteq> [] \<and> files \<noteq> [] then pair_folders matches lf cx (flats_of matches lf cx dirs files) dirs else Some []))"

definition shadowing_form :: "(glob \<Rightarrow> path \<Rightarrow> bool) \<Rightarrow> layout_fs \<Rightarrow> meta_context \<Rightarrow> path \<Rightarrow> path option option" where
  "shadowing_form matches lf cx p =
     (if path_parent p = p then Some None
      else if lf_is_dir lf p then
        (case folder_shape_of matches lf cx p of
           None \<Rightarrow> None
         | Some shape \<Rightarrow>
             if shape \<noteq> Nothing then Some None
             else case lf_list lf (path_parent p) of
                    None \<Rightarrow> None
                  | Some es \<Rightarrow>
                      Some (case sort_pairs (List.map_filter (\<lambda>e.
                              if \<not> lf_is_file lf e \<or> layout_excluded matches cx e \<or> init_candidate_of matches cx e \<noteq> None then None
                              else case flat_name matches lf cx e of
                                     Some (i, inst) \<Rightarrow> if inst = path_name p then Some (i, e) else None
                                   | None \<Rightarrow> None) es) of
                            [] \<Rightarrow> None
                          | (_, flat) # _ \<Rightarrow> Some flat))
      else if init_candidate_of matches cx p \<noteq> None then Some None
      else case flat_name matches lf cx p of
             None \<Rightarrow> Some None
           | Some (_, name) \<Rightarrow>
               let folder = path_join (path_parent p) name
               in if lf_is_dir lf folder \<and> \<not> layout_excluded matches cx folder then
                    map_option (\<lambda>shape. if shape = HasInit then Some folder else None) (folder_shape_of matches lf cx folder)
                  else Some None)"

section \<open>Warnings\<close>

datatype layout_message =
    InitFiles path nat string "string list"
  | FolderWins path path string
  | FolderIgnored path path string

definition describe :: "dir_layout \<Rightarrow> path option \<Rightarrow> layout_message list" where
  "describe l winner =
     (if is_init_ambiguous l
      then let w = (case winner of Some w \<Rightarrow> w | None \<Rightarrow> ic_path (hd (dl_inits l)))
           in [InitFiles (dl_dir l) (length (dl_inits l)) (path_name w)
                (map path_name (filter (\<lambda>p. p \<noteq> w) (map ic_path (dl_inits l))))]
      else []) @
     map (\<lambda>s. case sh_reason s of
          FolderHasInit \<Rightarrow> FolderWins (sh_hidden s) (sh_by s) (sh_name s)
        | EmptyFolder \<Rightarrow> FolderIgnored (sh_hidden s) (sh_by s) (sh_name s)) (dl_shadowed l)"

text \<open>The map of what each directory last warned about, and whether this look warned.\<close>

definition report ::
  "dir_layout \<Rightarrow> path option \<Rightarrow> (path \<rightharpoonup> layout_message list) \<Rightarrow> bool \<times> (path \<rightharpoonup> layout_message list)" where
  "report l winner reported =
     (let messages = describe l winner
      in if messages = [] then (False, reported(dl_dir l := None))
         else if reported (dl_dir l) = Some messages then (False, reported)
         else (True, reported(dl_dir l \<mapsto> messages)))"

end
