(* ===== verification/Readers.thy ===== *)
theory Readers
  imports Write SyncBase
begin

text \<open>
  The file formats that are only read (\<^verbatim>\<open>src/middleware\<close>: JSON, TOML, YAML, MessagePack and
  Markdown files, JSON models and Roblox models, with \<^verbatim>\<open>helpers\<close>) and the data file beside an
  instance: what each makes of the text of a file. The parsers are those of packages and parameters of the
  environment, and so are property resolution, the reflection data behind \<open>is_service\<close> and the
  temporary mesh files in the Studio installation; a Roblox model arrives as the tree of its
  instances.
\<close>

section \<open>Formats that are only read\<close>

datatype mp_value =
    MNil | MBoolean bool | MInteger string | MFloat bool string | MString string | MBinary string
  | MArray "mp_value list" | MMap "(mp_value \<times> mp_value) list" | MExt

definition escape_chars :: "string \<Rightarrow> string" where
  "escape_chars s = concat (map (\<lambda>c.
     if c = CHR 0x0A then [CHR 0x5C, CHR ''n''] else if c = CHR 0x09 then [CHR 0x5C, CHR ''t'']
     else if c = CHR 0x0D then [CHR 0x5C, CHR ''r''] else if c = CHR 0x5C then [CHR 0x5C, CHR 0x5C]
     else if c = CHR 0x22 then [CHR 0x5C, CHR 0x22] else [c]) s)"

fun msgpack_to_lua :: "mp_value \<Rightarrow> string" where
  "msgpack_to_lua MNil = ''nil''"
| "msgpack_to_lua (MBoolean b) = (if b then ''true'' else ''false'')"
| "msgpack_to_lua (MInteger digits) = digits"
| "msgpack_to_lua (MFloat huge digits) = (if huge then ''math.huge'' else digits)"
| "msgpack_to_lua (MString s) = [CHR 0x22] @ escape_chars s @ [CHR 0x22]"
| "msgpack_to_lua (MBinary lossy) = lossy"
| "msgpack_to_lua (MArray vs) = ''{'' @ concat (map (\<lambda>v. msgpack_to_lua v @ '','') vs) @ ''}''"
| "msgpack_to_lua (MMap kvs) =
     ''{'' @ concat (map (\<lambda>(k, v). ''['' @ msgpack_to_lua k @ ''] = '' @ msgpack_to_lua v @ '','') kvs) @ ''}''"
| "msgpack_to_lua MExt = ''''"

datatype md_span = MdText string | MdStrong "md_span list" | MdEmphasis "md_span list" | MdCode string | MdLink string | MdImage | MdBreak

datatype md_block = MdHeader "md_span list" nat | MdParagraph "md_span list" | MdBlockquote "md_block list" | MdCodeBlock string
  | MdUnordered "md_item list" | MdOrdered "md_item list" | MdRaw string | MdHr
and md_item = MdSimple "md_span list" | MdItemParagraph "md_block list"

definition md_escape :: "string \<Rightarrow> string" where
  "md_escape s = concat (map (\<lambda>c.
     if c = CHR ''&'' then ''&amp;'' else if c = CHR ''<'' then ''&lt;'' else if c = CHR 0x22 then ''&quot;''
     else if c = CHR 0x27 then ''&#8217;'' else if c = CHR ''>'' then ''&gt;'' else [c]) s)"

definition MD_FONT :: string where
  "MD_FONT = ''<font family='' @ [CHR 0x27] @ ''rbxasset://fonts/families/RobotoMono.json'' @ [CHR 0x27] @ ''>''"

text \<open>The bullet of a list element, in UTF-8.\<close>

definition LIST_ELEMENT_PREFIX :: string where
  "LIST_ELEMENT_PREFIX = ''<b>'' @ [CHR 0xE2, CHR 0x80, CHR 0xA2] @ ''</b>''"

fun format_span :: "md_span \<Rightarrow> string" where
  "format_span (MdText s) = md_escape s"
| "format_span (MdStrong xs) = ''<b>'' @ concat (map format_span xs) @ ''</b>''"
| "format_span (MdEmphasis xs) = ''<i>'' @ concat (map format_span xs) @ ''</i>''"
| "format_span (MdCode s) = MD_FONT @ md_escape s @ ''</font>''"
| "format_span (MdLink s) = md_escape s"
| "format_span MdImage = ''''"
| "format_span MdBreak = [CHR 0x0A]"

definition format_spans :: "md_span list \<Rightarrow> string" where
  "format_spans xs = concat (map format_span xs)"

abbreviation newline :: string where "newline \<equiv> [CHR 0x0A]"

function (sequential) md_walk :: "md_block list \<Rightarrow> string" and md_block_text :: "md_block \<Rightarrow> string"
  and md_list :: "bool \<Rightarrow> nat \<Rightarrow> md_item list \<Rightarrow> string" where
  "md_walk blocks = trim (concat (map md_block_text blocks))"
| "md_block_text (MdHeader xs level) = ''<b>'' @ format_spans xs @ ''</b>'' @ newline @ newline"
| "md_block_text (MdParagraph xs) = format_spans xs @ newline @ newline"
| "md_block_text (MdBlockquote bs) = ''<i>'' @ md_walk bs @ ''</i>'' @ newline @ newline"
| "md_block_text (MdCodeBlock s) = MD_FONT @ md_escape s @ ''</font>'' @ newline @ newline"
| "md_block_text (MdUnordered items) = md_list False 0 items @ newline"
| "md_block_text (MdOrdered items) = md_list True 0 items @ newline"
| "md_block_text (MdRaw s) = s"
| "md_block_text MdHr = newline @ newline"
| "md_list ordered n [] = ''''"
| "md_list ordered n (item # items) =
     (if ordered then show_nat (Suc n) @ ''.'' else LIST_ELEMENT_PREFIX) @ '' '' @
     (case item of MdSimple xs \<Rightarrow> format_spans xs | MdItemParagraph bs \<Rightarrow> md_walk bs) @ newline @ md_list ordered (Suc n) items"
  by pat_completeness auto
termination
proof (relation "measure (\<lambda>x. case x of Inl bs \<Rightarrow> Suc (2 * size_list size bs) | Inr (Inl b) \<Rightarrow> 2 * size b | Inr (Inr (_, _, is)) \<Rightarrow> 2 * size_list size is)", goal_cases)
  case (2 blocks b)
  then have "size b \<le> size_list size blocks" by (rule size_list_estimation') simp
  then show ?case by simp
qed auto

section \<open>Readers\<close>

datatype 'u json_model = JsonModelNode
  (jm_name: "string option")
  (jm_class_name: "string option")
  (jm_properties: "(string \<times> 'u) list option")
  (jm_attributes: "'u option")
  (jm_tags: "string list option")
  (jm_children: "'u json_model list option")

text \<open>An instance of a Roblox model with what is below it.\<close>

datatype 'v dom_node = DomNode (dn_name: string) (dn_class: string) (dn_properties: "'v properties") (dn_children: "'v dom_node list")

record ('u, 'v) read_env =
  re_write :: "('u, 'v) write_env"
  re_content_of :: "string \<Rightarrow> 'v variant"
  re_resolve :: "'u \<Rightarrow> string \<Rightarrow> string \<Rightarrow> 'v variant option"
  re_tags :: "string list \<Rightarrow> 'v variant"
  re_is_service :: "string \<Rightarrow> bool"
  re_save_mesh :: "'v properties \<Rightarrow> string option"
  re_stack :: "path \<Rightarrow> nat \<Rightarrow> nat"
  re_model_stack :: "path \<Rightarrow> nat \<Rightarrow> nat"
  re_json_lua :: "string \<Rightarrow> string option"
  re_toml_lua :: "string \<Rightarrow> string option"
  re_yaml_lua :: "string \<Rightarrow> string option"
  re_msgpack :: "string \<Rightarrow> mp_value option"
  re_markdown :: "string \<Rightarrow> md_block list"
  re_json_model :: "string \<Rightarrow> 'u json_model option"
  re_rbxm :: "string \<Rightarrow> 'v dom_node option"
  re_rbxmx :: "string \<Rightarrow> 'v dom_node option"

datatype walk_error =
    TooDeep path nat
  | Unreadable path
  | BadText path
  | DeepModel path nat
  | ClassAndPath path
  | Unreachable
  | ReadFailed middleware path walk_error

definition MODEL_STACK_BUDGET :: nat where "MODEL_STACK_BUDGET = 512 * 1024"

definition model_depth_allowed :: "('u, 'v) read_env \<Rightarrow> path \<Rightarrow> nat \<Rightarrow> bool" where
  "model_depth_allowed env p depth \<longleftrightarrow> depth \<le> MAX_MODEL_DEPTH \<and> re_model_stack env p depth \<le> MODEL_STACK_BUDGET"

text \<open>\<open>Snapshot::new().with_class(..).with_properties(..)\<close>\<close>

definition plain_snapshot :: "('u, 'v) read_env \<Rightarrow> string \<Rightarrow> 'v properties \<Rightarrow> ('u, 'v) snapshot" where
  "plain_snapshot env cls ps = Snapshot ref_none meta_new '''' cls (apply_migrations (re_content_of env) cls ps) []"

definition save_mesh :: "('u, 'v) read_env \<Rightarrow> 'v properties \<Rightarrow> string option" where
  "save_mesh env ps = re_save_mesh env (apply_migrations (re_content_of env) ''MeshPart'' ps)"

text \<open>Properties, attributes and tags of a text file; one that does not resolve is left out.\<close>

definition resolve_properties ::
  "('u, 'v) read_env \<Rightarrow> string \<Rightarrow> (string \<times> 'u) list \<Rightarrow> 'u option \<Rightarrow> string list option \<Rightarrow> 'v properties" where
  "resolve_properties env cls props attrs tags =
     (let ps = fold (\<lambda>(k, v) ps. case re_resolve env v cls k of Some x \<Rightarrow> prop_insert k x ps | None \<Rightarrow> ps) props [];
          ps = (case attrs of
              Some a \<Rightarrow> (case re_resolve env a cls ''Attributes'' of Some x \<Rightarrow> prop_insert ''Attributes'' x ps | None \<Rightarrow> ps)
            | None \<Rightarrow> ps)
      in case tags of Some ts \<Rightarrow> prop_insert ''Tags'' (re_tags env ts) ps | None \<Rightarrow> ps)"

fun json_model_walk :: "('u, 'v) read_env \<Rightarrow> path \<Rightarrow> nat \<Rightarrow> 'u json_model \<Rightarrow> walk_error + ('u, 'v) snapshot"
  and json_model_children :: "('u, 'v) read_env \<Rightarrow> path \<Rightarrow> nat \<Rightarrow> 'u json_model list \<Rightarrow> walk_error + ('u, 'v) snapshot list" where
  "json_model_walk env p depth (JsonModelNode name cls props attrs tags children) =
     (if \<not> model_depth_allowed env p depth then Inl (DeepModel p depth)
      else
        let cls = (case cls of Some c \<Rightarrow> c | None \<Rightarrow> ''Folder'');
            name = (case name of Some n \<Rightarrow> n | None \<Rightarrow> '''');
            ps = resolve_properties env cls (case props of Some xs \<Rightarrow> xs | None \<Rightarrow> []) attrs tags;
            mt = (if cls = ''MeshPart'' then meta_new\<lparr>mt_mesh_source := save_mesh env ps\<rparr> else meta_new)
        in case (case children of Some cs \<Rightarrow> json_model_children env p (Suc depth) cs | None \<Rightarrow> Inr []) of
             Inl e \<Rightarrow> Inl e
           | Inr cs \<Rightarrow> Inr (Snapshot ref_none mt name cls (apply_migrations (re_content_of env) cls ps) cs))"
| "json_model_children env p depth [] = Inr []"
| "json_model_children env p depth (c # cs) =
     (case json_model_walk env p depth c of
        Inl e \<Rightarrow> Inl e
      | Inr s \<Rightarrow> (case json_model_children env p depth cs of Inl e \<Rightarrow> Inl e | Inr ss \<Rightarrow> Inr (s # ss)))"

definition read_json_model :: "('u, 'v) read_env \<Rightarrow> path \<Rightarrow> string \<Rightarrow> walk_error + ('u, 'v) snapshot" where
  "read_json_model env p contents =
     (if contents = '''' then Inr (plain_snapshot env ''Folder'' [])
      else case re_json_model env contents of None \<Rightarrow> Inl (BadText p) | Some model \<Rightarrow> json_model_walk env p 0 model)"

fun dom_walk :: "('u, 'v) read_env \<Rightarrow> path \<Rightarrow> nat \<Rightarrow> 'v dom_node \<Rightarrow> walk_error + ('u, 'v) snapshot"
  and dom_children :: "('u, 'v) read_env \<Rightarrow> path \<Rightarrow> nat \<Rightarrow> 'v dom_node list \<Rightarrow> walk_error + ('u, 'v) snapshot list" where
  "dom_walk env p depth (DomNode name cls ps children) =
     (if \<not> model_depth_allowed env p depth then Inl (DeepModel p depth)
      else case dom_children env p (Suc depth) children of
             Inl e \<Rightarrow> Inl e
           | Inr cs \<Rightarrow>
               Inr (Snapshot ref_none (if cls = ''MeshPart'' then meta_new\<lparr>mt_mesh_source := save_mesh env ps\<rparr> else meta_new)
                 name cls (apply_migrations (re_content_of env) cls ps) cs))"
| "dom_children env p depth [] = Inr []"
| "dom_children env p depth (c # cs) =
     (case dom_walk env p depth c of
        Inl e \<Rightarrow> Inl e
      | Inr s \<Rightarrow> (case dom_children env p depth cs of Inl e \<Rightarrow> Inl e | Inr ss \<Rightarrow> Inr (s # ss)))"

text \<open>A model with one instance at its top is that instance; any other is a folder of its instances.\<close>

definition read_model :: "('u, 'v) read_env \<Rightarrow> (string \<Rightarrow> 'v dom_node option) \<Rightarrow> path \<Rightarrow> string \<Rightarrow> walk_error + ('u, 'v) snapshot" where
  "read_model env parse p contents =
     (case parse contents of
        None \<Rightarrow> Inl (BadText p)
      | Some root \<Rightarrow>
          (case dn_children root of
             [c] \<Rightarrow> dom_walk env p 0 c
           | _ \<Rightarrow> (case dom_walk env p 0 root of
                     Inl e \<Rightarrow> Inl e
                   | Inr (Snapshot i mt name cls ps cs) \<Rightarrow> Inr (Snapshot i mt name ''Folder'' ps cs))))"

definition read_lua_module :: "('u, 'v) read_env \<Rightarrow> (string \<Rightarrow> string option) \<Rightarrow> path \<Rightarrow> string \<Rightarrow> walk_error + ('u, 'v) snapshot" where
  "read_lua_module env to_lua p contents =
     (case to_lua contents of
        None \<Rightarrow> Inl (BadText p)
      | Some lua \<Rightarrow> Inr (plain_snapshot env ''ModuleScript'' [(''Source'', VString (''return '' @ lua))]))"

definition read_json :: "('u, 'v) read_env \<Rightarrow> path \<Rightarrow> string \<Rightarrow> walk_error + ('u, 'v) snapshot" where
  "read_json env p contents =
     (if contents = '''' then Inr (plain_snapshot env ''ModuleScript'' []) else read_lua_module env (re_json_lua env) p contents)"

definition read_msgpack :: "('u, 'v) read_env \<Rightarrow> path \<Rightarrow> string \<Rightarrow> walk_error + ('u, 'v) snapshot" where
  "read_msgpack env p contents =
     (if contents = '''' then Inr (plain_snapshot env ''ModuleScript'' [])
      else read_lua_module env (\<lambda>s. map_option msgpack_to_lua (re_msgpack env s)) p contents)"

definition read_md :: "('u, 'v) read_env \<Rightarrow> string \<Rightarrow> ('u, 'v) snapshot" where
  "read_md env contents = plain_snapshot env ''StringValue'' [(''Value'', VString (md_walk (re_markdown env contents)))]"

text \<open>The data file beside an instance.\<close>

definition ds_default :: "'v data_snapshot" where
  "ds_default = \<lparr>ds_path = [], ds_class = None, ds_keep_unknowns = None, ds_original_name = None, ds_mesh_source = None, ds_properties = []\<rparr>"

definition data_class :: "('u, 'v) read_env \<Rightarrow> path \<Rightarrow> string option \<Rightarrow> string option \<Rightarrow> string" where
  "data_class env p cls own =
     (case (case cls of Some c \<Rightarrow> Some c | None \<Rightarrow> own) of
        Some c \<Rightarrow> c
      | None \<Rightarrow>
          if re_is_service env (path_name p) then path_name p
          else if re_is_service env (path_name (path_parent p)) then path_name (path_parent p) else ''Folder'')"

definition read_data :: "('u, 'v) read_env \<Rightarrow> path \<Rightarrow> string option \<Rightarrow> fnode \<Rightarrow> walk_error + 'v data_snapshot" where
  "read_data env p cls fs =
     (case file_at p fs of
        None \<Rightarrow> Inl (Unreadable p)
      | Some contents \<Rightarrow>
          if contents = '''' then Inr ds_default
          else case we_data_parse (re_write env) contents of
                 None \<Rightarrow> Inl (BadText p)
               | Some data \<Rightarrow>
                   let c = data_class env p cls (df_class_name data);
                       ps = resolve_properties env c (df_properties data) (df_attributes data)
                         (if df_tags data = [] then None else Some (df_tags data))
                   in Inr \<lparr>ds_path = p, ds_class = df_class_name data, ds_keep_unknowns = df_keep_unknowns data,
                        ds_original_name = df_original_name data,
                        ds_mesh_source = (if c = ''MeshPart'' then save_mesh env ps else None), ds_properties = ps\<rparr>)"

end
