(* ===== verification/Walk.thy ===== *)
theory Walk
  imports Layout Readers Read
begin

text \<open>
  The snapshot walk (\<^verbatim>\<open>src/middleware/mod.rs\<close>, \<^verbatim>\<open>dir.rs\<close> and \<^verbatim>\<open>project.rs\<close> beside it): a path
  becomes the snapshot of the instance it projects with everything below it, under a limit
  on the nesting; a project file becomes the snapshot of its nodes and of the paths they map.

  Every level of the walk first enters a frame, which fails past \<open>MAX_SNAPSHOT_DEPTH\<close> levels or
  past the stack budget. The three functions that enter one are the constructors of
  \<open>walk_call\<close>; one level is \<open>walk_step\<close>, which is given the next level as an argument, and \<open>walk_from\<close>
  ties the knot. The stack in use at a path and a level is a parameter. Registering paths with
  the watcher does not influence the result and is left out, as are the texts of warnings.
\<close>

section \<open>Calls, frames and results\<close>

datatype 'u walk_call =
    CPath bool path meta_context
  | CChild path meta_context
  | CNode string path "'u project_node" nodepath meta_context

type_synonym ('u, 'v) walked = "walk_error + ('u, 'v) snapshot option"

definition MAX_SNAPSHOT_DEPTH :: nat where "MAX_SNAPSHOT_DEPTH = 128"

definition ebind :: "'e + 'a \<Rightarrow> ('a \<Rightarrow> 'e + 'b) \<Rightarrow> 'e + 'b" where
  "ebind x f = (case x of Inl e \<Rightarrow> Inl e | Inr y \<Rightarrow> f y)"

definition enter :: "('u, 'v) read_env \<Rightarrow> path \<Rightarrow> nat \<Rightarrow> walk_error + nat" where
  "enter env p depth =
     (if Suc depth > MAX_SNAPSHOT_DEPTH \<or> re_stack env p (Suc depth) > SNAPSHOT_STACK_BUDGET
      then Inl (TooDeep p (Suc depth)) else Inr (Suc depth))"

abbreviation globs_of :: "('u, 'v) read_env \<Rightarrow> glob \<Rightarrow> path \<Rightarrow> bool" where
  "globs_of env \<equiv> we_matches (re_write env)"

section \<open>Reading one file\<close>

definition add_project :: "path \<Rightarrow> 'u source \<Rightarrow> 'u source" where
  "add_project p s = s\<lparr>src_relevant := src_relevant s @ [EProject p]\<rparr>"

fun map_meta :: "('u meta \<Rightarrow> 'u meta) \<Rightarrow> ('u, 'v) snapshot \<Rightarrow> ('u, 'v) snapshot" where
  "map_meta f (Snapshot i mt name cls ps cs) = Snapshot i (f mt) name cls ps cs"

definition read_project ::
  "('u, 'v) read_env \<Rightarrow> fnode \<Rightarrow> ('u walk_call \<Rightarrow> ('u, 'v) walked) \<Rightarrow> path \<Rightarrow> meta_context option \<Rightarrow> walk_error + ('u, 'v) snapshot" where
  "read_project env fs rec p parent =
     (case load_project (re_write env) p fs of
        WOk proj \<Rightarrow>
          let cx = mt_context (from_project (we_valid (re_write env)) proj);
              cx = (case (pj_scope proj, parent) of (None, Some up) \<Rightarrow> cx\<lparr>cx_scope := cx_scope up\<rparr> | _ \<Rightarrow> cx)
          in ebind (rec (CNode (pj_name proj) p (pj_node proj) np_new cx)) (\<lambda>r.
               case r of
                 Some s \<Rightarrow> Inr (map_meta (\<lambda>mt. mt\<lparr>mt_source := add_project p (mt_source mt)\<rparr>) s)
               | None \<Rightarrow> Inl Unreachable)
      | WErr (WNotJson q) \<Rightarrow> Inl (BadText q)
      | _ \<Rightarrow> Inl (Unreadable p))"

definition with_contents :: "path \<Rightarrow> fnode \<Rightarrow> (string \<Rightarrow> walk_error + 'a) \<Rightarrow> walk_error + 'a" where
  "with_contents p fs f = (case file_at p fs of None \<Rightarrow> Inl (Unreadable p) | Some contents \<Rightarrow> f contents)"

definition of_properties :: "('u, 'v) read_env \<Rightarrow> path \<Rightarrow> (string \<times> 'v properties) option \<Rightarrow> walk_error + ('u, 'v) snapshot" where
  "of_properties env p r = (case r of None \<Rightarrow> Inl (BadText p) | Some (cls, ps) \<Rightarrow> Inr (plain_snapshot env cls ps))"

text \<open>A walk that nests too deep names its path already; every other error names the file it came from.\<close>

definition described :: "middleware \<Rightarrow> path \<Rightarrow> walk_error + 'a \<Rightarrow> walk_error + 'a" where
  "described mw p r =
     (case r of Inl (TooDeep q n) \<Rightarrow> Inl (TooDeep q n) | Inl e \<Rightarrow> Inl (ReadFailed mw p e) | Inr x \<Rightarrow> Inr x)"

definition middleware_read ::
  "('u, 'v) read_env \<Rightarrow> fnode \<Rightarrow> ('u walk_call \<Rightarrow> ('u, 'v) walked) \<Rightarrow> middleware \<Rightarrow> path \<Rightarrow> meta_context \<Rightarrow> walk_error + ('u, 'v) snapshot" where
  "middleware_read env fs rec mw p cx = described mw p
     (case mw of
        MProject \<Rightarrow> read_project env fs rec p (Some cx)
      | InstanceData \<Rightarrow> Inl Unreachable
      | StringValue \<Rightarrow> with_contents p fs (\<lambda>_. of_properties env p (read_txt p fs))
      | RichStringValue \<Rightarrow> with_contents p fs (\<lambda>c. Inr (read_md env c))
      | LocalizationTable \<Rightarrow> with_contents p fs (\<lambda>_. of_properties env p (read_csv (re_write env) p fs))
      | JsonModule \<Rightarrow> with_contents p fs (read_json env p)
      | TomlModule \<Rightarrow> with_contents p fs (read_lua_module env (re_toml_lua env) p)
      | YamlModule \<Rightarrow> with_contents p fs (read_lua_module env (re_yaml_lua env) p)
      | MsgpackModule \<Rightarrow> with_contents p fs (read_msgpack env p)
      | JsonModel \<Rightarrow> with_contents p fs (read_json_model env p)
      | RbxmModel \<Rightarrow> with_contents p fs (read_model env (re_rbxm env) p)
      | RbxmxModel \<Rightarrow> with_contents p fs (read_model env (re_rbxmx env) p)
      | _ \<Rightarrow> with_contents p fs (\<lambda>_. of_properties env p (read_luau (re_write env) mw p fs)))"

text \<open>The first data file that exists.\<close>

fun first_data ::
  "('u, 'v) read_env \<Rightarrow> fnode \<Rightarrow> string \<Rightarrow> string option \<Rightarrow> path \<Rightarrow> sync_rule list \<Rightarrow> walk_error + 'v data_snapshot option" where
  "first_data env fs name cls p [] = Inr None"
| "first_data env fs name cls p (r # rs) =
     (case locate r p name (is_dir p fs) of
        Some q \<Rightarrow> if fs_exists q fs then ebind (read_data env q cls fs) (\<lambda>d. Inr (Some d)) else first_data env fs name cls p rs
      | None \<Rightarrow> first_data env fs name cls p rs)"

definition get_instance_data ::
  "('u, 'v) read_env \<Rightarrow> fnode \<Rightarrow> string \<Rightarrow> string option \<Rightarrow> path \<Rightarrow> meta_context \<Rightarrow> walk_error + 'v data_snapshot option" where
  "get_instance_data env fs name cls p cx =
     first_data env fs name cls p (sync_rules_of_type (we_rojo_mode (re_write env)) (we_lua_extension (re_write env)) cx InstanceData False)"

definition with_instance_data ::
  "('u, 'v) read_env \<Rightarrow> fnode \<Rightarrow> string \<Rightarrow> path \<Rightarrow> meta_context \<Rightarrow> ('u, 'v) snapshot \<Rightarrow> ('u, 'v) walked" where
  "with_instance_data env fs name p cx s =
     ebind (get_instance_data env fs name (Some (sn_class s)) p cx) (\<lambda>d.
       Inr (Some (case d of Some d \<Rightarrow> apply_data (re_content_of env) d s | None \<Rightarrow> s)))"

text \<open>A snapshot that no project names takes its name, its context and its source from the walk.\<close>

fun placed :: "string \<Rightarrow> meta_context \<Rightarrow> 'u source \<Rightarrow> ('u, 'v) snapshot \<Rightarrow> ('u, 'v) snapshot" where
  "placed name cx src (Snapshot i mt _ cls ps cs) = Snapshot i (mt\<lparr>mt_context := cx, mt_source := src\<rparr>) name cls ps cs"

definition is_blank :: "('u, 'v) snapshot \<Rightarrow> bool" where
  "is_blank s \<longleftrightarrow> sn_class s = ''Folder'' \<and> sn_children s = []"

definition new_snapshot_file ::
  "('u, 'v) read_env \<Rightarrow> fnode \<Rightarrow> ('u walk_call \<Rightarrow> ('u, 'v) walked) \<Rightarrow> path \<Rightarrow> meta_context \<Rightarrow> ('u, 'v) walked" where
  "new_snapshot_file env fs rec p cx =
     (case file_rule (globs_of env) (disk_layout fs) cx p of
        None \<Rightarrow> Inr None
      | Some (_, rr) \<Rightarrow>
          ebind (middleware_read env fs rec (rr_middleware rr) p cx) (\<lambda>s.
            if rr_middleware rr \<noteq> MProject
            then with_instance_data env fs (rr_name rr) p cx (placed (rr_name rr) cx (source_file p) s)
            else if is_blank s then Inr None
            else with_instance_data env fs (rr_name rr) p cx s))"

section \<open>Directories\<close>

fun snapshot_children ::
  "('u walk_call \<Rightarrow> ('u, 'v) walked) \<Rightarrow> meta_context \<Rightarrow> path list \<Rightarrow> walk_error + ('u, 'v) snapshot list" where
  "snapshot_children rec cx [] = Inr []"
| "snapshot_children rec cx (p # ps) =
     ebind (rec (CChild p cx)) (\<lambda>r. ebind (snapshot_children rec cx ps) (\<lambda>ss. Inr (case r of Some s \<Rightarrow> s # ss | None \<Rightarrow> ss)))"

fun append_children :: "('u, 'v) snapshot list \<Rightarrow> ('u, 'v) snapshot \<Rightarrow> ('u, 'v) snapshot" where
  "append_children new (Snapshot i mt name cls ps cs) = Snapshot i mt name cls ps (cs @ new)"

definition layout_of :: "('u, 'v) read_env \<Rightarrow> fnode \<Rightarrow> path \<Rightarrow> meta_context \<Rightarrow> walk_error + dir_layout" where
  "layout_of env fs dir cx = (case read_layout (globs_of env) (disk_layout fs) cx dir of None \<Rightarrow> Inl (Unreadable dir) | Some l \<Rightarrow> Inr l)"

definition snapshot_init ::
  "('u, 'v) read_env \<Rightarrow> fnode \<Rightarrow> ('u walk_call \<Rightarrow> ('u, 'v) walked) \<Rightarrow> path \<Rightarrow> init_candidate \<Rightarrow> dir_layout option \<Rightarrow> meta_context \<Rightarrow> ('u, 'v) walked" where
  "snapshot_init env fs rec dir cand lay cx =
     ebind (middleware_read env fs rec (ic_middleware cand) (ic_path cand) cx) (\<lambda>s.
       if ic_middleware cand \<noteq> MProject then
         ebind (case lay of Some l \<Rightarrow> Inr l | None \<Rightarrow> layout_of env fs dir cx) (\<lambda>l.
         ebind (snapshot_children rec cx (dl_children l)) (\<lambda>cs.
           with_instance_data env fs (ic_name cand) dir cx
             (append_children cs (placed (ic_name cand) cx (source_child_file dir (ic_path cand)) s))))
       else if is_blank s then Inr None
       else with_instance_data env fs (ic_name cand) dir cx s)"

definition dir_container_class :: "string \<Rightarrow> string option" where
  "dir_container_class name =
     (if name \<in> {''StarterPlayerScripts'', ''StarterCharacterScripts''} then Some name else None)"

definition read_dir ::
  "('u walk_call \<Rightarrow> ('u, 'v) walked) \<Rightarrow> path \<Rightarrow> path list \<Rightarrow> meta_context \<Rightarrow> walk_error + ('u, 'v) snapshot" where
  "read_dir rec p children cx =
     ebind (snapshot_children rec cx children) (\<lambda>cs.
       Inr (Snapshot ref_none (meta_new\<lparr>mt_context := cx, mt_source := source_directory p\<rparr>) (path_name p) ''Folder'' [] cs))"

definition new_snapshot_dir ::
  "('u, 'v) read_env \<Rightarrow> fnode \<Rightarrow> ('u walk_call \<Rightarrow> ('u, 'v) walked) \<Rightarrow> path \<Rightarrow> dir_layout \<Rightarrow> meta_context \<Rightarrow> ('u, 'v) walked" where
  "new_snapshot_dir env fs rec p l cx =
     ebind (read_dir rec p (dl_children l) cx) (\<lambda>s. case s of Snapshot i mt name cls ps cs \<Rightarrow>
       with_instance_data env fs name p cx
         (Snapshot i mt name (case dir_container_class name of Some c \<Rightarrow> c | None \<Rightarrow> cls) ps cs))"

fun try_inits ::
  "('u, 'v) read_env \<Rightarrow> fnode \<Rightarrow> ('u walk_call \<Rightarrow> ('u, 'v) walked) \<Rightarrow> path \<Rightarrow> dir_layout \<Rightarrow> meta_context \<Rightarrow> init_candidate list \<Rightarrow> ('u, 'v) walked" where
  "try_inits env fs rec p l cx [] = new_snapshot_dir env fs rec p l cx"
| "try_inits env fs rec p l cx (cand # cands) =
     ebind (snapshot_init env fs rec p cand (Some l) cx) (\<lambda>r.
       case r of Some s \<Rightarrow> Inr (Some s) | None \<Rightarrow> try_inits env fs rec p l cx cands)"

definition snapshot_dir ::
  "('u, 'v) read_env \<Rightarrow> fnode \<Rightarrow> ('u walk_call \<Rightarrow> ('u, 'v) walked) \<Rightarrow> path \<Rightarrow> meta_context \<Rightarrow> ('u, 'v) walked" where
  "snapshot_dir env fs rec p cx = ebind (layout_of env fs p cx) (\<lambda>l. try_inits env fs rec p l cx (dl_inits l))"

section \<open>Paths\<close>

definition snapshot_path ::
  "('u, 'v) read_env \<Rightarrow> fnode \<Rightarrow> nat \<Rightarrow> ('u walk_call \<Rightarrow> ('u, 'v) walked) \<Rightarrow> bool \<Rightarrow> path \<Rightarrow> meta_context \<Rightarrow> ('u, 'v) walked" where
  "snapshot_path env fs depth rec redirect p cx =
     (if layout_excluded (globs_of env) cx p then Inr None
      else if \<not> fs_exists p fs then Inr None
      else ebind (enter env p depth) (\<lambda>_.
        case (if redirect then shadowing_form (globs_of env) (disk_layout fs) cx p else Some None) of
          None \<Rightarrow> Inl (Unreadable p)
        | Some (Some form) \<Rightarrow>
            ebind (if path_parent p = p then Inr () else ebind (layout_of env fs (path_parent p) cx) (\<lambda>_. Inr ()))
              (\<lambda>_. rec (CPath False form cx))
        | Some None \<Rightarrow>
            if is_file p fs then
              ebind (case init_candidate_of (globs_of env) cx p of
                  Some cand \<Rightarrow> snapshot_init env fs rec (path_parent p) cand None cx
                | None \<Rightarrow> Inr None) (\<lambda>r.
              case r of Some s \<Rightarrow> Inr (Some s) | None \<Rightarrow> new_snapshot_file env fs rec p cx)
            else snapshot_dir env fs rec p cx))"

definition snapshot_child ::
  "('u, 'v) read_env \<Rightarrow> fnode \<Rightarrow> nat \<Rightarrow> ('u walk_call \<Rightarrow> ('u, 'v) walked) \<Rightarrow> path \<Rightarrow> meta_context \<Rightarrow> ('u, 'v) walked" where
  "snapshot_child env fs depth rec p cx =
     (if \<not> fs_exists p fs then Inr None
      else ebind (enter env p depth) (\<lambda>_.
        if is_file p fs then new_snapshot_file env fs rec p cx else snapshot_dir env fs rec p cx))"

section \<open>Project nodes\<close>

definition node_class :: "('u, 'v) read_env \<Rightarrow> string \<Rightarrow> 'u project_node \<Rightarrow> string" where
  "node_class env name node =
     (case class_name node of Some c \<Rightarrow> c | None \<Rightarrow> if re_is_service env name then name else ''Folder'')"

definition node_snapshot ::
  "('u, 'v) read_env \<Rightarrow> string \<Rightarrow> path \<Rightarrow> 'u project_node \<Rightarrow> nodepath \<Rightarrow> meta_context \<Rightarrow> ('u, 'v) snapshot" where
  "node_snapshot env name p node np cx =
     (let cls = node_class env name node;
          ps = resolve_properties env cls (node_properties node) (node_attributes node) (if node_tags node = [] then None else Some (node_tags node));
          mt = meta_new\<lparr>mt_source := source_project name p node np, mt_context := cx,
            mt_keep_unknowns := (case node_keep_unknowns node of Some b \<Rightarrow> b | None \<Rightarrow> re_is_service env cls)\<rparr>;
          mt = (if cls = ''MeshPart'' then mt\<lparr>mt_mesh_source := save_mesh env ps\<rparr> else mt)
      in Snapshot ref_none mt name cls (apply_migrations (re_content_of env) cls ps) [])"

text \<open>What is at a mapped path, under the name and with the source of its node.\<close>

definition merge_mapped :: "('u, 'v) read_env \<Rightarrow> ('u, 'v) snapshot \<Rightarrow> ('u, 'v) snapshot \<Rightarrow> ('u, 'v) snapshot" where
  "merge_mapped env node s =
     (case extend_properties (re_content_of env) (sn_properties node) s of Snapshot i mt name cls ps cs \<Rightarrow>
        let src = mt_source (sn_meta node)
        in Snapshot i (mt\<lparr>mt_source := src\<lparr>src_relevant := src_relevant src @ src_relevant (mt_source mt)\<rparr>,
               mt_keep_unknowns := mt_keep_unknowns mt \<or> mt_keep_unknowns (sn_meta node)\<rparr>)
             (sn_name node) (if cls = ''Folder'' then sn_class node else cls) ps cs)"

fun node_children ::
  "('u walk_call \<Rightarrow> ('u, 'v) walked) \<Rightarrow> path \<Rightarrow> nodepath \<Rightarrow> meta_context \<Rightarrow> (string \<times> 'u project_node) list \<Rightarrow> walk_error + ('u, 'v) snapshot list" where
  "node_children rec p np cx [] = Inr []"
| "node_children rec p np cx ((name, node) # nodes) =
     ebind (rec (CNode name p node (np_join np name) cx)) (\<lambda>r.
       ebind (node_children rec p np cx nodes) (\<lambda>ss. Inr (case r of Some s \<Rightarrow> s # ss | None \<Rightarrow> ss)))"

definition new_snapshot_node ::
  "('u, 'v) read_env \<Rightarrow> fnode \<Rightarrow> nat \<Rightarrow> ('u walk_call \<Rightarrow> ('u, 'v) walked) \<Rightarrow> string \<Rightarrow> path \<Rightarrow> 'u project_node \<Rightarrow> nodepath \<Rightarrow> meta_context
   \<Rightarrow> ('u, 'v) walked" where
  "new_snapshot_node env fs depth rec name p node np cx =
     ebind (enter env p depth) (\<lambda>_.
       if class_name node \<noteq> None \<and> node_path node \<noteq> None then Inl (ClassAndPath p)
       else
         let s = node_snapshot env name p node np cx
         in ebind (case node_path node of
              None \<Rightarrow> Inr s
            | Some pp \<Rightarrow>
                let q = we_clean (re_write env) (with_file_path p (project_path_path pp))
                in if fs_exists q fs then
                     ebind (rec (CPath False q cx)) (\<lambda>r. Inr (case r of Some m \<Rightarrow> merge_mapped env s m | None \<Rightarrow> s))
                   else Inr s) (\<lambda>s.
            ebind (node_children rec p np cx (node_tree node)) (\<lambda>cs. Inr (Some (append_children cs s)))))"

section \<open>The walk\<close>

definition walk_step ::
  "('u, 'v) read_env \<Rightarrow> fnode \<Rightarrow> nat \<Rightarrow> ('u walk_call \<Rightarrow> ('u, 'v) walked) \<Rightarrow> 'u walk_call \<Rightarrow> ('u, 'v) walked" where
  "walk_step env fs depth rec c =
     (case c of
        CPath redirect p cx \<Rightarrow> snapshot_path env fs depth rec redirect p cx
      | CChild p cx \<Rightarrow> snapshot_child env fs depth rec p cx
      | CNode name p node np cx \<Rightarrow> new_snapshot_node env fs depth rec name p node np cx)"

text \<open>No level below the last one is ever asked for: its frame fails first.\<close>

function walk_from :: "('u, 'v) read_env \<Rightarrow> fnode \<Rightarrow> nat \<Rightarrow> 'u walk_call \<Rightarrow> ('u, 'v) walked" where
  "walk_from env fs depth c =
     walk_step env fs depth (\<lambda>c. if depth < MAX_SNAPSHOT_DEPTH then walk_from env fs (Suc depth) c else Inl Unreachable) c"
  by pat_completeness auto
termination
  by (relation "measure (\<lambda>(_, _, depth, _). MAX_SNAPSHOT_DEPTH - depth)") auto

declare walk_from.simps [simp del]

text \<open>The equation by the kind of call, so that evaluation unfolds a level only when it is asked for.\<close>

lemmas walk_from_code [code] =
  walk_from.simps [of env fs depth "CPath redirect p cx"]
  walk_from.simps [of env fs depth "CChild p cx"]
  walk_from.simps [of env fs depth "CNode name p node np cx"]
  for env fs depth redirect p cx name node np

definition new_snapshot :: "('u, 'v) read_env \<Rightarrow> fnode \<Rightarrow> path \<Rightarrow> meta_context \<Rightarrow> ('u, 'v) walked" where
  "new_snapshot env fs p cx = walk_from env fs 0 (CPath True p cx)"

text \<open>The reader of the read path, on a file tree.\<close>

definition walk_reader :: "('u, 'v) read_env \<Rightarrow> fnode \<Rightarrow> ('u, 'v) reader" where
  "walk_reader env fs = \<lparr>
     rd_snapshot = (\<lambda>p cx. case new_snapshot env fs p cx of Inl _ \<Rightarrow> Inl () | Inr s \<Rightarrow> Inr s),
     rd_node = (\<lambda>name p node np cx. case walk_from env fs 0 (CNode name p node np cx) of Inr (Some s) \<Rightarrow> Inr s | _ \<Rightarrow> Inl ()),
     rd_dir = (\<lambda>p. dir_entries p fs),
     rd_is_dir = (\<lambda>p. is_dir p fs),
     rd_matches = globs_of env\<rparr>"

end
