(* ===== verification/Hazards.thy ===== *)
theory Hazards
  imports Walk
begin

text \<open>
  The disk-side hazard scanner (\<^verbatim>\<open>src/core/hazards.rs\<close>): what in the directories a project maps
  makes the projection ambiguous, lossy or fragile. It reads directories through the layout
  rules of the snapshot walk, follows nested project files, and reports each directory once.

  Files come from a tree without symbolic links, so the canonical form of a cleaned path is the path itself.
  The sentences of a hazard (message and fix) are prose and are left out; its kind, severity, paths
  and winner are kept. The scanner's calls of itself go through the argument \<open>rec\<close>, and
  \<open>scan_from\<close> closes the recursion with as many nested calls as it is given; \<open>scan\<close> gives it one more than
  there are files and directories.
\<close>

section \<open>Hazards and reports\<close>

definition SOURCE_SIZE_LIMIT :: nat where "SOURCE_SIZE_LIMIT = 1024 * 1024"

definition BINARY_SIZE_LIMIT :: nat where "BINARY_SIZE_LIMIT = 16 * 1024 * 1024"

datatype hazard_kind =
    AmbiguousInit | FlatFolderPair | EmptyFolderPair | ReshapeLeftover | DuplicateSibling | OversizedFile | ScanError

definition hazard_kind_str :: "hazard_kind \<Rightarrow> string" where
  "hazard_kind_str k = (case k of
     AmbiguousInit \<Rightarrow> ''ambiguous-init'' | FlatFolderPair \<Rightarrow> ''flat-folder-pair'' | EmptyFolderPair \<Rightarrow> ''empty-folder''
   | ReshapeLeftover \<Rightarrow> ''reshape-leftover'' | DuplicateSibling \<Rightarrow> ''duplicate-sibling''
   | OversizedFile \<Rightarrow> ''oversized-file'' | ScanError \<Rightarrow> ''scan-error'')"

text \<open>The derived order of the kinds.\<close>

definition kind_rank :: "hazard_kind \<Rightarrow> nat" where
  "kind_rank k = (case k of
     AmbiguousInit \<Rightarrow> 0 | FlatFolderPair \<Rightarrow> 1 | EmptyFolderPair \<Rightarrow> 2 | ReshapeLeftover \<Rightarrow> 3 | DuplicateSibling \<Rightarrow> 4
   | OversizedFile \<Rightarrow> 5 | ScanError \<Rightarrow> 6)"

datatype severity = SevError | SevWarning

definition severity_of :: "hazard_kind \<Rightarrow> severity" where
  "severity_of k = (if k = DuplicateSibling \<or> k = OversizedFile then SevWarning else SevError)"

record hazard =
  hz_kind :: hazard_kind
  hz_severity :: severity
  hz_paths :: "path list"
  hz_winner :: "path option"

definition hazard_new :: "hazard_kind \<Rightarrow> path list \<Rightarrow> hazard" where
  "hazard_new k ps = \<lparr>hz_kind = k, hz_severity = severity_of k, hz_paths = ps, hz_winner = None\<rparr>"

definition with_winner :: "path \<Rightarrow> hazard \<Rightarrow> hazard" where
  "with_winner w h = h\<lparr>hz_winner := Some w\<rparr>"

record scan_report =
  rp_roots :: "path list"
  rp_directories :: nat
  rp_files :: nat
  rp_hazards :: "hazard list"

definition hazard_count :: "severity \<Rightarrow> scan_report \<Rightarrow> nat" where
  "hazard_count sev r = length (filter (\<lambda>h. hz_severity h = sev) (rp_hazards r))"

definition report_errors :: "scan_report \<Rightarrow> nat" where
  "report_errors r = hazard_count SevError r"

definition report_warnings :: "scan_report \<Rightarrow> nat" where
  "report_warnings r = hazard_count SevWarning r"

definition is_clean :: "scan_report \<Rightarrow> bool" where
  "is_clean r \<longleftrightarrow> rp_hazards r = []"

section \<open>The scanner\<close>

record scanner =
  sc_report :: scan_report
  sc_visited :: "path set"
  sc_ancestors :: "path list"

definition scanner_default :: scanner where
  "scanner_default = \<lparr>sc_report = \<lparr>rp_roots = [], rp_directories = 0, rp_files = 0, rp_hazards = []\<rparr>, sc_visited = {}, sc_ancestors = []\<rparr>"

definition add_hazards :: "hazard list \<Rightarrow> scanner \<Rightarrow> scanner" where
  "add_hazards hs st = st\<lparr>sc_report := (sc_report st)\<lparr>rp_hazards := rp_hazards (sc_report st) @ hs\<rparr>\<rparr>"

definition scan_enter :: "path \<Rightarrow> scanner \<Rightarrow> bool \<times> scanner" where
  "scan_enter p st =
     (if p \<in> set (sc_ancestors st) then (False, add_hazards [hazard_new ScanError [p]] st)
      else if p \<in> sc_visited st then (False, st)
      else (True, st\<lparr>sc_visited := insert p (sc_visited st), sc_ancestors := sc_ancestors st @ [p]\<rparr>))"

definition scan_leave :: "scanner \<Rightarrow> scanner" where
  "scan_leave st = st\<lparr>sc_ancestors := butlast (sc_ancestors st)\<rparr>"

section \<open>Checks of one directory\<close>

definition layout_hazards :: "dir_layout \<Rightarrow> hazard list" where
  "layout_hazards l =
     (if is_init_ambiguous l
      then [with_winner (ic_path (hd (dl_inits l))) (hazard_new AmbiguousInit (map ic_path (dl_inits l)))] else []) @
     map (\<lambda>s. with_winner (sh_by s) (hazard_new (case sh_reason s of FolderHasInit \<Rightarrow> FlatFolderPair | EmptyFolder \<Rightarrow> EmptyFolderPair)
       [sh_by s, sh_hidden s])) (dl_shadowed l) @
     map (\<lambda>p. hazard_new ReshapeLeftover [p]) (dl_staging l)"

definition check_layout :: "dir_layout \<Rightarrow> scanner \<Rightarrow> scanner" where
  "check_layout l = add_hazards (layout_hazards l)"

text \<open>The name a child projects under.\<close>

definition child_name :: "('u, 'v) write_env \<Rightarrow> fnode \<Rightarrow> meta_context \<Rightarrow> path \<Rightarrow> string option" where
  "child_name env fs cx p =
     (if is_dir p fs then Some (path_name p)
      else case file_rule (we_matches env) (disk_layout fs) cx p of
             Some (_, rr) \<Rightarrow> if rr_middleware rr \<noteq> MProject then Some (rr_name rr) else None
           | None \<Rightarrow> None)"

definition duplicate_hazards :: "('u, 'v) write_env \<Rightarrow> fnode \<Rightarrow> meta_context \<Rightarrow> dir_layout \<Rightarrow> hazard list" where
  "duplicate_hazards env fs cx l =
     List.map_filter (\<lambda>name.
         let paths = filter (\<lambda>p. child_name env fs cx p = Some name) (dl_children l)
         in if length paths < 2 then None else Some (hazard_new DuplicateSibling paths))
       (sort (remdups (List.map_filter (child_name env fs cx) (dl_children l))))"

definition check_duplicates :: "('u, 'v) write_env \<Rightarrow> fnode \<Rightarrow> meta_context \<Rightarrow> dir_layout \<Rightarrow> scanner \<Rightarrow> scanner" where
  "check_duplicates env fs cx l = add_hazards (duplicate_hazards env fs cx l)"

definition size_limit :: "middleware option \<Rightarrow> nat" where
  "size_limit mw =
     (case mw of
        Some m \<Rightarrow> if m = RbxmModel \<or> m = RbxmxModel then BINARY_SIZE_LIMIT else SOURCE_SIZE_LIMIT
      | None \<Rightarrow> BINARY_SIZE_LIMIT)"

definition file_middleware :: "('u, 'v) write_env \<Rightarrow> fnode \<Rightarrow> meta_context \<Rightarrow> path \<Rightarrow> middleware option" where
  "file_middleware env fs cx p =
     (case init_candidate_of (we_matches env) cx p of
        Some c \<Rightarrow> Some (ic_middleware c)
      | None \<Rightarrow> map_option (\<lambda>(_, rr). rr_middleware rr) (file_rule (we_matches env) (disk_layout fs) cx p))"

definition oversized :: "('u, 'v) write_env \<Rightarrow> fnode \<Rightarrow> meta_context \<Rightarrow> path \<Rightarrow> bool" where
  "oversized env fs cx p \<longleftrightarrow>
     (case file_at p fs of
        None \<Rightarrow> False
      | Some contents \<Rightarrow> length contents > size_limit (file_middleware env fs cx p))"

definition check_size :: "('u, 'v) write_env \<Rightarrow> fnode \<Rightarrow> meta_context \<Rightarrow> path \<Rightarrow> scanner \<Rightarrow> scanner" where
  "check_size env fs cx p st =
     (let st = st\<lparr>sc_report := (sc_report st)\<lparr>rp_files := Suc (rp_files (sc_report st))\<rparr>\<rparr>
      in if oversized env fs cx p then add_hazards [hazard_new OversizedFile [p]] st else st)"

section \<open>The scan\<close>

datatype 'u scan_call = ScanProject "'u project" meta_context nat | ScanDir path meta_context nat

text \<open>A loop whose body may call the scanner.\<close>

fun scan_each :: "('a \<Rightarrow> scanner \<Rightarrow> scanner option) \<Rightarrow> 'a list \<Rightarrow> scanner \<Rightarrow> scanner option" where
  "scan_each f [] st = Some st"
| "scan_each f (x # xs) st = Option.bind (f x st) (scan_each f xs)"

function collect_paths :: "('u, 'v) write_env \<Rightarrow> path \<Rightarrow> 'u project_node \<Rightarrow> path list" where
  "collect_paths env p node =
     (case node_path node of Some pp \<Rightarrow> [we_clean env (with_file_path p (project_path_path pp))] | None \<Rightarrow> []) @
     concat (map (\<lambda>(_, child). collect_paths env p child) (node_tree node))"
  by pat_completeness auto
termination
proof (relation "measure (\<lambda>(_, _, node). size node)", goal_cases)
  case (2 env p node x n child)
  then have "size child \<le> size_list (size_prod (\<lambda>_. 0) size) (node_tree node)" by (auto intro: size_list_estimation')
  then show ?case by (cases node) simp
qed simp

definition scan_nested_project ::
  "('u, 'v) write_env \<Rightarrow> fnode \<Rightarrow> ('u scan_call \<Rightarrow> scanner \<Rightarrow> scanner option) \<Rightarrow> path \<Rightarrow> meta_context \<Rightarrow> nat \<Rightarrow> scanner \<Rightarrow> scanner option" where
  "scan_nested_project env fs rec p parent depth st =
     (case load_project env p fs of
        WOk proj \<Rightarrow>
          let cx = mt_context (from_project (we_valid env) proj);
              cx = (if pj_scope proj = None then cx\<lparr>cx_scope := cx_scope parent\<rparr> else cx)
          in rec (ScanProject proj cx (Suc depth)) st
      | _ \<Rightarrow> Some (add_hazards [hazard_new ScanError [p]] st))"

definition is_project_file :: "('u, 'v) write_env \<Rightarrow> fnode \<Rightarrow> meta_context \<Rightarrow> path \<Rightarrow> bool" where
  "is_project_file env fs cx p \<longleftrightarrow>
     (case file_rule (we_matches env) (disk_layout fs) cx p of Some (_, rr) \<Rightarrow> rr_middleware rr = MProject | None \<Rightarrow> False)"

definition scan_path ::
  "('u, 'v) write_env \<Rightarrow> fnode \<Rightarrow> ('u scan_call \<Rightarrow> scanner \<Rightarrow> scanner option) \<Rightarrow> path \<Rightarrow> meta_context \<Rightarrow> nat \<Rightarrow> scanner \<Rightarrow> scanner option" where
  "scan_path env fs rec p cx depth st =
     (if layout_excluded (we_matches env) cx p then Some st
      else if is_dir p fs then rec (ScanDir p cx depth) st
      else if is_file p fs then
        if is_project_file env fs cx p then scan_nested_project env fs rec p cx depth st else Some (check_size env fs cx p st)
      else Some st)"

definition scan_root ::
  "('u, 'v) write_env \<Rightarrow> fnode \<Rightarrow> ('u scan_call \<Rightarrow> scanner \<Rightarrow> scanner option) \<Rightarrow> meta_context \<Rightarrow> nat \<Rightarrow> path \<Rightarrow> scanner \<Rightarrow> scanner option" where
  "scan_root env fs rec cx depth p st =
     (if \<not> fs_exists p fs then Some st
      else scan_path env fs rec p cx (Suc depth) (st\<lparr>sc_report := (sc_report st)\<lparr>rp_roots := rp_roots (sc_report st) @ [p]\<rparr>\<rparr>))"

definition scan_project ::
  "('u, 'v) write_env \<Rightarrow> fnode \<Rightarrow> ('u scan_call \<Rightarrow> scanner \<Rightarrow> scanner option) \<Rightarrow> 'u project \<Rightarrow> meta_context \<Rightarrow> nat \<Rightarrow> scanner \<Rightarrow> scanner option" where
  "scan_project env fs rec proj cx depth st =
     (let (ok, st) = scan_enter (pj_path proj) st
      in if \<not> ok then Some st
         else map_option scan_leave (scan_each (scan_root env fs rec cx depth) (collect_paths env (pj_path proj) (pj_node proj)) st))"

definition scan_child ::
  "('u, 'v) write_env \<Rightarrow> fnode \<Rightarrow> ('u scan_call \<Rightarrow> scanner \<Rightarrow> scanner option) \<Rightarrow> meta_context \<Rightarrow> nat \<Rightarrow> path \<Rightarrow> scanner \<Rightarrow> scanner option" where
  "scan_child env fs rec cx depth p st =
     (if is_dir p fs then rec (ScanDir p cx (Suc depth)) st else Some (check_size env fs cx p st))"

text \<open>Whether the first init file of a folder is a project file.\<close>

definition project_winner :: "dir_layout \<Rightarrow> path option" where
  "project_winner l = (case dl_inits l of c # _ \<Rightarrow> if ic_middleware c = MProject then Some (ic_path c) else None | [] \<Rightarrow> None)"

definition walk_dir ::
  "('u, 'v) write_env \<Rightarrow> fnode \<Rightarrow> ('u scan_call \<Rightarrow> scanner \<Rightarrow> scanner option) \<Rightarrow> path \<Rightarrow> meta_context \<Rightarrow> nat \<Rightarrow> scanner \<Rightarrow> scanner option" where
  "walk_dir env fs rec dir cx depth st =
     (case read_layout (we_matches env) (disk_layout fs) cx dir of
        None \<Rightarrow> Some (add_hazards [hazard_new ScanError [dir]] st)
      | Some l \<Rightarrow>
          let st = st\<lparr>sc_report := (sc_report st)\<lparr>rp_directories := Suc (rp_directories (sc_report st))\<rparr>\<rparr>;
              st = check_layout l st;
              st = fold (\<lambda>c. check_size env fs cx (ic_path c)) (dl_inits l) st
          in case project_winner l of
               Some w \<Rightarrow> scan_nested_project env fs rec w cx depth st
             | None \<Rightarrow> scan_each (scan_child env fs rec cx depth) (dl_children l) (check_duplicates env fs cx l st))"

definition scan_dir ::
  "('u, 'v) write_env \<Rightarrow> fnode \<Rightarrow> ('u scan_call \<Rightarrow> scanner \<Rightarrow> scanner option) \<Rightarrow> path \<Rightarrow> meta_context \<Rightarrow> nat \<Rightarrow> scanner \<Rightarrow> scanner option" where
  "scan_dir env fs rec dir cx depth st =
     (if depth > MAX_SNAPSHOT_DEPTH then Some (add_hazards [hazard_new ScanError [dir]] st)
      else
        let (ok, st) = scan_enter dir st
        in if \<not> ok then Some st else map_option scan_leave (walk_dir env fs rec dir cx depth st))"

definition scan_step ::
  "('u, 'v) write_env \<Rightarrow> fnode \<Rightarrow> ('u scan_call \<Rightarrow> scanner \<Rightarrow> scanner option) \<Rightarrow> 'u scan_call \<Rightarrow> scanner \<Rightarrow> scanner option" where
  "scan_step env fs rec c st =
     (case c of
        ScanProject proj cx depth \<Rightarrow> scan_project env fs rec proj cx depth st
      | ScanDir dir cx depth \<Rightarrow> scan_dir env fs rec dir cx depth st)"

primrec scan_from :: "('u, 'v) write_env \<Rightarrow> fnode \<Rightarrow> nat \<Rightarrow> 'u scan_call \<Rightarrow> scanner \<Rightarrow> scanner option" where
  "scan_from env fs 0 c st = None"
| "scan_from env fs (Suc n) c st = scan_step env fs (scan_from env fs n) c st"

text \<open>The files and directories of a tree.\<close>

fun fs_count :: "fnode \<Rightarrow> nat" where
  "fs_count (FFile _) = 1"
| "fs_count (FDir xs) = Suc (sum_list (map (\<lambda>(_, m). fs_count m) xs))"

definition scan :: "('u, 'v) write_env \<Rightarrow> fnode \<Rightarrow> 'u project \<Rightarrow> scan_report option" where
  "scan env fs proj =
     map_option (\<lambda>st. (sc_report st)\<lparr>rp_hazards := sort_key (\<lambda>h. kind_rank (hz_kind h)) (sort_key hz_paths (rp_hazards (sc_report st)))\<rparr>)
       (scan_from env fs (Suc (Suc (fs_count fs))) (ScanProject proj (mt_context (from_project (we_valid env) proj)) 0) scanner_default)"

definition reshape_leftovers :: "('u, 'v) write_env \<Rightarrow> fnode \<Rightarrow> 'u project \<Rightarrow> path list option" where
  "reshape_leftovers env fs proj =
     map_option (\<lambda>r. List.map_filter (\<lambda>h. case hz_paths h of p # _ \<Rightarrow> Some p | [] \<Rightarrow> None)
         (filter (\<lambda>h. hz_kind h = ReshapeLeftover) (rp_hazards r))) (scan env fs proj)"

end
