(* ===== verification/LayoutSafety.thy ===== *)
theory LayoutSafety
  imports Layout FsView Ops
begin

text \<open>
  The two readings of a directory agree: reading one path on its own hides exactly the
  entries that listing the directory hides, behind the same sibling, and the directory's
  entries are split into init files, children and hidden ones with none lost.
\<close>

section \<open>What a listing promises\<close>

locale listing =
  fixes lf :: layout_fs
  assumes entry_below: "lf_list lf d = Some es \<Longrightarrow> e \<in> set es \<Longrightarrow> \<exists>n. e = d @ [n]"
    and entry_kind: "lf_list lf d = Some es \<Longrightarrow> e \<in> set es \<Longrightarrow> lf_is_file lf e \<longleftrightarrow> \<not> lf_is_dir lf e"
    and folder_listed: "lf_list lf d = Some es \<Longrightarrow> lf_is_dir lf (d @ [n]) \<Longrightarrow> d @ [n] \<in> set es"
    and folder_lists: "lf_is_dir lf d \<longleftrightarrow> lf_list lf d \<noteq> None"
begin

lemma shape_known: "lf_is_dir lf d \<Longrightarrow> \<exists>shape. folder_shape_of matches lf cx d = Some shape"
  using folder_lists by (auto simp: folder_shape_of_def)

end

lemma dir_entries_iff: "dir_entries d fs = Some es \<longleftrightarrow> (\<exists>xs. node_at d fs = Some (FDir xs) \<and> es = map (\<lambda>(n, _). d @ [n]) xs)"
  by (auto simp: dir_entries_def split: option.splits fnode.splits)

lemma child_known: "node_at d fs = Some (FDir xs) \<Longrightarrow> node_at (d @ [n]) fs = map_of xs n"
  by (simp add: node_at_append split: option.splits)

interpretation disk: listing "disk_layout fs"
proof
  fix d es e assume l: "lf_list (disk_layout fs) d = Some es" "e \<in> set es"
  then obtain xs where xs: "node_at d fs = Some (FDir xs)" "es = map (\<lambda>(n, _). d @ [n]) xs"
    by (auto simp: disk_layout_def dir_entries_iff)
  then obtain n m where n: "e = d @ [n]" "(n, m) \<in> set xs" using l(2) by auto
  then show "\<exists>n. e = d @ [n]" by blast
  obtain m' where "map_of xs n = Some m'" using n(2) weak_map_of_SomeI by fastforce
  then have "node_at e fs = Some m'" using child_known [OF xs(1)] n(1) by simp
  then show "lf_is_file (disk_layout fs) e \<longleftrightarrow> \<not> lf_is_dir (disk_layout fs) e"
    by (cases m') (simp_all add: disk_layout_def is_file_def is_dir_def file_at_def)
next
  fix d es n assume l: "lf_list (disk_layout fs) d = Some es" "lf_is_dir (disk_layout fs) (d @ [n])"
  then obtain xs where xs: "node_at d fs = Some (FDir xs)" "es = map (\<lambda>(n, _). d @ [n]) xs"
    by (auto simp: disk_layout_def dir_entries_iff)
  then have "map_of xs n \<noteq> None" using l(2) child_known [OF xs(1), of n] by (auto simp: disk_layout_def is_dir_def split: option.splits)
  then show "d @ [n] \<in> set es" using xs(2) by (auto dest: map_of_SomeD)
next
  show "lf_is_dir (disk_layout fs) d \<longleftrightarrow> lf_list (disk_layout fs) d \<noteq> None" for d
    by (auto simp: disk_layout_def is_dir_def dir_entries_def split: option.splits fnode.splits)
qed

section \<open>Names\<close>

lemma file_stem_prefix: "prefix (file_stem name) name"
proof -
  have "name = rev (dropWhile (\<lambda>c. c \<noteq> CHR ''.'') (rev name)) @ rev (takeWhile (\<lambda>c. c \<noteq> CHR ''.'') (rev name))"
    by (metis rev_append rev_rev_ident takeWhile_dropWhile_id)
  moreover have "prefix (rev (tl xs)) (rev xs)" for xs :: string by (cases xs) simp_all
  ultimately have "prefix (rev (tl (dropWhile (\<lambda>c. c \<noteq> CHR ''.'') (rev name)))) name"
    by (metis prefix_order.trans prefixI)
  then show ?thesis by (simp add: file_stem_def Let_def)
qed

text \<open>The comment of the code: an instance name is always a prefix of its file name.\<close>

lemma rule_name_prefix: "prefix (rule_name isd r p) (path_name p)"
  using file_stem_prefix by (auto simp: rule_name_def path_stem_def strip_suffix_def take_is_prefix split: option.splits)

lemma find_map_Some: "find_map f xs = Some y \<Longrightarrow> \<exists>x\<in>set xs. f x = Some y"
  by (induction xs) (auto simp: find_map_def List.map_filter_simps split: option.splits)

lemma flat_name_prefix: "flat_name matches lf cx p = Some (i, n) \<Longrightarrow> prefix n (path_name p)"
  by (auto simp: flat_name_def file_rule_def resolve_rule_def rule_name_prefix
      dest!: find_map_Some split: option.splits if_splits)

section \<open>Sorting pairs\<close>

lemma set_sort_pairs [simp]: "set (sort_pairs ps) = set ps"
  by (simp add: sort_pairs_def)

lemma sort_pairs_Nil [simp]: "sort_pairs ps = [] \<longleftrightarrow> ps = []" "sort_pairs [] = []"
  by (metis set_empty set_sort_pairs) (simp add: sort_pairs_def)

text \<open>The first pair is the least one, so it depends on the set of pairs only.\<close>

lemma sort_pairs_least:
  assumes "sort_pairs ps = p # rest" "q \<in> set ps"
  shows "fst p < fst q \<or> fst p = fst q \<and> snd p \<le> snd q"
proof -
  have s: "sorted (map fst (p # rest))" using assms(1) by (metis sort_pairs_def sorted_sort_key)
  have q: "q \<in> set (p # rest)" using assms by (metis set_sort_pairs)
  have le: "fst p \<le> fst q" using s q by auto
  show ?thesis
  proof (cases "fst p = fst q")
    case True
    have "filter (\<lambda>x. fst x = fst p) (sort_pairs ps) = filter (\<lambda>x. fst x = fst p) (sort_key snd ps)"
      unfolding sort_pairs_def by (rule sort_key_stable)
    moreover have "sorted (map snd (filter (\<lambda>x. fst x = fst p) (sort_key snd ps)))"
      by (rule sorted_filter) simp
    ultimately have "sorted (map snd (filter (\<lambda>x. fst x = fst p) (p # rest)))" using assms(1) by simp
    then show ?thesis using q True by auto
  qed (use le in simp)
qed

lemma sort_pairs_first:
  assumes "set ps = set qs"
  shows "map_option snd (case sort_pairs ps of [] \<Rightarrow> None | p # _ \<Rightarrow> Some p) = map_option snd (case sort_pairs qs of [] \<Rightarrow> None | p # _ \<Rightarrow> Some p)"
proof (cases "sort_pairs ps")
  case (Cons p rest)
  then obtain q rest' where q: "sort_pairs qs = q # rest'" using assms by (metis list.exhaust set_empty sort_pairs_Nil(1))
  have "p \<in> set qs" "q \<in> set ps" using Cons q assms by (metis list.set_intros(1) set_sort_pairs)+
  then have "snd p = snd q" using sort_pairs_least [OF Cons] sort_pairs_least [OF q] by fastforce
  then show ?thesis using Cons q by simp
qed (use assms in \<open>metis set_empty sort_pairs_Nil(1)\<close>)

section \<open>Pairing\<close>

lemma mem_map_filter: "y \<in> set (List.map_filter f xs) \<longleftrightarrow> (\<exists>x\<in>set xs. f x = Some y)"
  by (induction xs) (auto split: option.splits)

lemma paired_flat_iff:
  "paired_flat matches lf cx dirs file = Some (inst, i, f) \<longleftrightarrow>
     f = file \<and> flat_name matches lf cx file = Some (i, inst) \<and> inst \<in> path_name ` set dirs"
proof -
  have "list_ex (\<lambda>d. prefix (path_name d) (path_name file)) dirs" if "flat_name matches lf cx file = Some (i, inst)" "inst \<in> path_name ` set dirs"
    using that flat_name_prefix by (fastforce simp: list_ex_iff)
  then show ?thesis by (auto simp: paired_flat_def split: option.splits if_splits)
qed

lemma flats_of_iff:
  "(inst, i, f) \<in> set (flats_of matches lf cx dirs files) \<longleftrightarrow>
     f \<in> set files \<and> flat_name matches lf cx f = Some (i, inst) \<and> inst \<in> path_name ` set dirs"
  by (auto simp: flats_of_def mem_map_filter paired_flat_iff)

lemma pair_folders_iff:
  assumes "pair_folders matches lf cx flats folders = Some sh"
  shows "s \<in> set sh \<longleftrightarrow> (\<exists>folder\<in>set folders. \<exists>new. pair_folder matches lf cx flats folder = Some new \<and> s \<in> set new)"
  using assms by (induction folders arbitrary: sh) (auto split: option.splits)

lemma pair_folders_all:
  "pair_folders matches lf cx flats folders = Some sh \<Longrightarrow> folder \<in> set folders \<Longrightarrow> pair_folder matches lf cx flats folder \<noteq> None"
  by (induction folders arbitrary: sh) (auto split: option.splits)

text \<open>The flat files of one folder.\<close>

definition flats_at :: "(glob \<Rightarrow> path \<Rightarrow> bool) \<Rightarrow> layout_fs \<Rightarrow> meta_context \<Rightarrow> path list \<Rightarrow> string \<Rightarrow> (nat \<times> path) set" where
  "flats_at matches lf cx files name = {(i, f). f \<in> set files \<and> flat_name matches lf cx f = Some (i, name)}"

text \<open>What the pairing of a folder hides.\<close>

definition hides :: "(glob \<Rightarrow> path \<Rightarrow> bool) \<Rightarrow> layout_fs \<Rightarrow> meta_context \<Rightarrow> path list \<Rightarrow> path \<Rightarrow> shadowed \<Rightarrow> bool" where
  "hides matches lf cx files folder s \<longleftrightarrow>
    (\<exists>i f. (i, f) \<in> flats_at matches lf cx files (path_name folder) \<and> folder_shape_of matches lf cx folder = Some HasInit \<and>
       s = \<lparr>sh_hidden = f, sh_by = folder, sh_name = path_name folder, sh_reason = FolderHasInit\<rparr>) \<or>
    (\<exists>ps i flat rest. set ps = flats_at matches lf cx files (path_name folder) \<and> sort_pairs ps = (i, flat) # rest \<and>
       folder_shape_of matches lf cx folder = Some Nothing \<and>
       s = \<lparr>sh_hidden = folder, sh_by = flat, sh_name = path_name folder, sh_reason = EmptyFolder\<rparr>)"

lemma hides_files: "hides matches lf cx [] folder s \<Longrightarrow> False"
  by (auto simp: hides_def flats_at_def)

lemma pair_folder_iff:
  assumes "pair_folder matches lf cx (flats_of matches lf cx dirs files) folder = Some new" "folder \<in> set dirs"
  shows "s \<in> set new \<longleftrightarrow> hides matches lf cx files folder s"
proof -
  define ps where "ps = map snd (filter (\<lambda>(inst, _). inst = path_name folder) (flats_of matches lf cx dirs files))"
  have set: "set ps = flats_at matches lf cx files (path_name folder)"
    using assms(2) by (auto simp: ps_def flats_at_def flats_of_iff image_iff)
  have new: "case sort_pairs ps of [] \<Rightarrow> new = [] | (i, flat) # pairs \<Rightarrow>
      (\<exists>shape. folder_shape_of matches lf cx folder = Some shape \<and> new = (case shape of
         HasInit \<Rightarrow> map (\<lambda>(_, f). \<lparr>sh_hidden = f, sh_by = folder, sh_name = path_name folder, sh_reason = FolderHasInit\<rparr>) (sort_pairs ps)
       | Nothing \<Rightarrow> [\<lparr>sh_hidden = folder, sh_by = flat, sh_name = path_name folder, sh_reason = EmptyFolder\<rparr>]
       | Contents \<Rightarrow> []))"
  proof (cases "sort_pairs ps")
    case (Cons p rest)
    then show ?thesis using assms(1) by (cases p) (auto simp: pair_folder_def ps_def [symmetric] simp del: sort_pairs_Nil split: folder_shape.splits)
  qed (use assms(1) in \<open>simp add: pair_folder_def ps_def [symmetric] del: sort_pairs_Nil\<close>)
  show ?thesis
  proof (cases "sort_pairs ps")
    case Nil
    then have "flats_at matches lf cx files (path_name folder) = {}" using set by simp
    then show ?thesis using new Nil by (auto simp: hides_def)
  next
    case (Cons p rest)
    obtain i flat where p: "p = (i, flat)" by fastforce
    obtain shape where shape: "folder_shape_of matches lf cx folder = Some shape" using new Cons p by auto
    have all: "(j, f) \<in> set (sort_pairs ps) \<longleftrightarrow> (j, f) \<in> flats_at matches lf cx files (path_name folder)" for j f using set by simp
    have first: "flat' = flat" if "set qs = flats_at matches lf cx files (path_name folder)" "sort_pairs qs = (i', flat') # rest'" for qs i' flat' rest'
      using sort_pairs_first [of ps qs] that set Cons p by simp
    show ?thesis
    proof (cases shape)
      case HasInit
      then have "new = map (\<lambda>(_, f). \<lparr>sh_hidden = f, sh_by = folder, sh_name = path_name folder, sh_reason = FolderHasInit\<rparr>) (sort_pairs ps)"
        using new Cons p shape by simp
      then have "s \<in> set new \<longleftrightarrow> (\<exists>j f. (j, f) \<in> flats_at matches lf cx files (path_name folder) \<and>
          s = \<lparr>sh_hidden = f, sh_by = folder, sh_name = path_name folder, sh_reason = FolderHasInit\<rparr>)"
        using set by auto
      then show ?thesis using shape HasInit by (simp add: hides_def)
    next
      case Nothing
      then have n: "new = [\<lparr>sh_hidden = folder, sh_by = flat, sh_name = path_name folder, sh_reason = EmptyFolder\<rparr>]"
        using new Cons p shape by simp
      have "(\<exists>qs j flat' rest'. set qs = flats_at matches lf cx files (path_name folder) \<and> sort_pairs qs = (j, flat') # rest' \<and>
          s = \<lparr>sh_hidden = folder, sh_by = flat', sh_name = path_name folder, sh_reason = EmptyFolder\<rparr>) \<longleftrightarrow>
        s = \<lparr>sh_hidden = folder, sh_by = flat, sh_name = path_name folder, sh_reason = EmptyFolder\<rparr>"
        using first set Cons p by blast
      then show ?thesis unfolding n using shape Nothing by (simp add: hides_def)
    qed (use new Cons p shape in \<open>simp add: hides_def\<close>)
  qed
qed

lemma hides_iff:
  "(\<exists>s. hides matches lf cx files folder s \<and> sh_hidden s = e \<and> sh_by s = w) \<longleftrightarrow>
     w = folder \<and> (\<exists>i. (i, e) \<in> flats_at matches lf cx files (path_name folder)) \<and> folder_shape_of matches lf cx folder = Some HasInit \<or>
     e = folder \<and> folder_shape_of matches lf cx folder = Some Nothing \<and>
       (\<exists>ps i rest. sort_pairs ps = (i, w) # rest \<and> set ps = flats_at matches lf cx files (path_name folder))" (is "?L \<longleftrightarrow> ?A \<or> ?B")
proof
  assume ?L
  then obtain s where s: "hides matches lf cx files folder s" "sh_hidden s = e" "sh_by s = w" by blast
  from s(1) consider
      (a) i f where "(i, f) \<in> flats_at matches lf cx files (path_name folder)" "folder_shape_of matches lf cx folder = Some HasInit"
        "s = \<lparr>sh_hidden = f, sh_by = folder, sh_name = path_name folder, sh_reason = FolderHasInit\<rparr>"
    | (b) ps i flat rest where "set ps = flats_at matches lf cx files (path_name folder)" "sort_pairs ps = (i, flat) # rest"
        "folder_shape_of matches lf cx folder = Some Nothing"
        "s = \<lparr>sh_hidden = folder, sh_by = flat, sh_name = path_name folder, sh_reason = EmptyFolder\<rparr>"
    unfolding hides_def by blast
  then show "?A \<or> ?B"
  proof cases
    case b
    then have "e = folder" "flat = w" using s by simp_all
    then show ?thesis using b by blast
  qed (use s in auto)
next
  assume "?A \<or> ?B"
  then show ?L
  proof
    assume ?A
    then show ?thesis unfolding hides_def
      by (intro exI [of _ "\<lparr>sh_hidden = e, sh_by = folder, sh_name = path_name folder, sh_reason = FolderHasInit\<rparr>"]) auto
  next
    assume ?B
    moreover have "\<exists>s. s = \<lparr>sh_hidden = folder, sh_by = w, sh_name = path_name folder, sh_reason = EmptyFolder\<rparr> \<and> sh_hidden s = folder \<and> sh_by s = w" by simp
    ultimately show ?thesis unfolding hides_def by metis
  qed
qed

section \<open>The two readings agree\<close>

text \<open>A name as the operating system lists it.\<close>

definition real_name :: "string \<Rightarrow> bool" where
  "real_name n \<longleftrightarrow> n \<notin> {'''', ''.'', ''..''} \<and> CHR ''/'' \<notin> set n"

lemma real_name_path: "real_name n \<Longrightarrow> path_name (d @ [n]) = n \<and> path_parent (d @ [n]) = d \<and> path_join d n = d @ [n]"
  by (cases n) (auto simp: real_name_def path_name_def path_parent_def path_join_def split_slash_word)

lemma projected_iff:
  "\<not> is_staging e \<and> \<not> layout_excluded matches cx e \<longleftrightarrow> \<not> layout_excluded matches cx e"
  by (auto simp: layout_excluded_def)

context listing
begin

text \<open>The files and the folders of a directory that the pairing looks at.\<close>

lemma read_layout_parts:
  assumes "read_layout matches lf cx d = Some l"
  obtains es files dirs where "lf_list lf d = Some es"
    "set files = {e \<in> set es. \<not> layout_excluded matches cx e \<and> lf_is_file lf e \<and> init_candidate_of matches cx e = None}"
    "set dirs = {e \<in> set es. \<not> layout_excluded matches cx e \<and> lf_is_dir lf e}"
    "\<And>folder. folder \<in> set dirs \<Longrightarrow> files \<noteq> [] \<Longrightarrow> pair_folder matches lf cx (flats_of matches lf cx dirs files) folder \<noteq> None"
    "\<And>s. s \<in> set (dl_shadowed l) \<longleftrightarrow> (\<exists>folder\<in>set dirs. \<exists>new. files \<noteq> [] \<and> pair_folder matches lf cx (flats_of matches lf cx dirs files) folder = Some new \<and> s \<in> set new)"
    "set (dl_children l) = {e \<in> set files \<union> set dirs. e \<notin> sh_hidden ` set (dl_shadowed l)}"
proof -
  obtain es where es: "lf_list lf d = Some es" using assms by (auto simp: read_layout_def split: option.splits)
  define proj where "proj = filter (\<lambda>e. \<not> is_staging e \<and> \<not> layout_excluded matches cx e) (sort es)"
  define files where "files = filter (\<lambda>e. lf_is_file lf e \<and> init_candidate_of matches cx e = None) proj"
  define dirs where "dirs = filter (\<lambda>e. \<not> lf_is_file lf e) proj"
  define out where "out = (\<lambda>shadows. \<lparr>dl_dir = d,
    dl_inits = sort_key ic_rule (sort_key ic_path (List.map_filter (init_candidate_of matches cx) (filter (lf_is_file lf) proj))),
    dl_children = sort (filter (\<lambda>e. e \<notin> set (map sh_hidden shadows)) (files @ dirs)),
    dl_shadowed = shadows, dl_staging = filter is_staging (sort es)\<rparr>)"
  define pairing where "pairing = (if dirs \<noteq> [] \<and> files \<noteq> [] then pair_folders matches lf cx (flats_of matches lf cx dirs files) dirs else Some [])"
  have "read_layout matches lf cx d = map_option out pairing"
    by (simp add: read_layout_def es Let_def out_def pairing_def files_def dirs_def proj_def)
  then obtain sh where pairing: "pairing = Some sh"
    and out: "l = out sh"
    using assms by (cases pairing) auto
  have l: "dl_shadowed l = sh" "dl_children l = sort (filter (\<lambda>e. e \<notin> set (map sh_hidden sh)) (files @ dirs))"
    by (simp_all add: out out_def)
  note sh = pairing [unfolded pairing_def] l(1)
  show thesis
  proof (rule that [OF es])
    show "set files = {e \<in> set es. \<not> layout_excluded matches cx e \<and> lf_is_file lf e \<and> init_candidate_of matches cx e = None}"
      by (auto simp: files_def proj_def projected_iff)
    show "set dirs = {e \<in> set es. \<not> layout_excluded matches cx e \<and> lf_is_dir lf e}"
      using entry_kind [OF es] by (auto simp: dirs_def proj_def projected_iff)
    show "pair_folder matches lf cx (flats_of matches lf cx dirs files) folder \<noteq> None" if "folder \<in> set dirs" "files \<noteq> []" for folder
      using sh(1) that pair_folders_all by (fastforce split: if_splits)
    show "s \<in> set (dl_shadowed l) \<longleftrightarrow> (\<exists>folder\<in>set dirs. \<exists>new. files \<noteq> [] \<and> pair_folder matches lf cx (flats_of matches lf cx dirs files) folder = Some new \<and> s \<in> set new)" for s
      using sh(1,2) pair_folders_iff by (fastforce split: if_splits)
    show "set (dl_children l) = {e \<in> set files \<union> set dirs. e \<notin> sh_hidden ` set (dl_shadowed l)}" using l by auto
  qed
qed

text \<open>Which entries listing the directory hides, and behind what.\<close>

lemma shadowed_iff:
  assumes read: "read_layout matches lf cx d = Some l" and list: "lf_list lf d = Some es" "e \<in> set es" "\<not> layout_excluded matches cx e"
  shows "lf_is_file lf e \<Longrightarrow> (\<exists>s\<in>set (dl_shadowed l). sh_hidden s = e \<and> sh_by s = w) \<longleftrightarrow>
      init_candidate_of matches cx e = None \<and> (\<exists>i. flat_name matches lf cx e = Some (i, path_name w)) \<and>
      w \<in> set es \<and> \<not> layout_excluded matches cx w \<and> lf_is_dir lf w \<and> folder_shape_of matches lf cx w = Some HasInit" (is "_ \<Longrightarrow> ?F")
    and "lf_is_dir lf e \<Longrightarrow> (\<exists>s\<in>set (dl_shadowed l). sh_hidden s = e \<and> sh_by s = w) \<longleftrightarrow>
      folder_shape_of matches lf cx e = Some Nothing \<and>
      (\<exists>ps i rest. sort_pairs ps = (i, w) # rest \<and> set ps = {(i, f). f \<in> set es \<and> \<not> layout_excluded matches cx f \<and> lf_is_file lf f \<and>
         init_candidate_of matches cx f = None \<and> flat_name matches lf cx f = Some (i, path_name e)})" (is "_ \<Longrightarrow> ?D")
    and "e \<in> set (dl_children l) \<longleftrightarrow> \<not> (lf_is_file lf e \<and> init_candidate_of matches cx e \<noteq> None) \<and> (\<nexists>s. s \<in> set (dl_shadowed l) \<and> sh_hidden s = e)"
proof -
  obtain files dirs where files: "set files = {e \<in> set es. \<not> layout_excluded matches cx e \<and> lf_is_file lf e \<and> init_candidate_of matches cx e = None}"
    and dirs: "set dirs = {e \<in> set es. \<not> layout_excluded matches cx e \<and> lf_is_dir lf e}"
    and some: "\<And>folder. folder \<in> set dirs \<Longrightarrow> files \<noteq> [] \<Longrightarrow> pair_folder matches lf cx (flats_of matches lf cx dirs files) folder \<noteq> None"
    and sh: "\<And>s. s \<in> set (dl_shadowed l) \<longleftrightarrow> (\<exists>folder\<in>set dirs. \<exists>new. files \<noteq> [] \<and> pair_folder matches lf cx (flats_of matches lf cx dirs files) folder = Some new \<and> s \<in> set new)"
    and ch: "set (dl_children l) = {e \<in> set files \<union> set dirs. e \<notin> sh_hidden ` set (dl_shadowed l)}"
    by (rule read_layout_parts [OF read]) (use list in simp)
  have kind: "lf_is_file lf f \<longleftrightarrow> \<not> lf_is_dir lf f" if "f \<in> set es" for f using entry_kind [OF list(1) that] .
  have mem: "s \<in> set (dl_shadowed l) \<longleftrightarrow> (\<exists>folder\<in>set dirs. hides matches lf cx files folder s)" for s
    unfolding sh using some pair_folder_iff hides_files by (metis not_None_eq)
  have hidden: "(\<exists>s\<in>set (dl_shadowed l). sh_hidden s = e \<and> sh_by s = w) \<longleftrightarrow>
     (\<exists>folder\<in>set dirs. \<exists>s. hides matches lf cx files folder s \<and> sh_hidden s = e \<and> sh_by s = w)"
    using mem by blast
  have at: "flats_at matches lf cx files m = {(i, f). f \<in> set es \<and> \<not> layout_excluded matches cx f \<and> lf_is_file lf f \<and>
         init_candidate_of matches cx f = None \<and> flat_name matches lf cx f = Some (i, m)}" for m
    by (auto simp: flats_at_def files)
  show ?F if "lf_is_file lf e"
    using that list(2,3) kind unfolding hidden hides_iff at by (auto simp: dirs)
  show ?D if "lf_is_dir lf e"
    using that list(2,3) kind unfolding hidden hides_iff at by (auto simp: dirs)
  show "e \<in> set (dl_children l) \<longleftrightarrow> \<not> (lf_is_file lf e \<and> init_candidate_of matches cx e \<noteq> None) \<and> (\<nexists>s. s \<in> set (dl_shadowed l) \<and> sh_hidden s = e)"
    using list kind by (auto simp: ch files dirs)
qed

lemma form_agrees:
  assumes read: "read_layout matches lf cx d = Some l" and list: "lf_list lf d = Some es" "d @ [n] \<in> set es"
    and e: "\<not> layout_excluded matches cx (d @ [n])" and names: "\<And>m. d @ [m] \<in> set es \<Longrightarrow> real_name m"
    and flat: "\<And>i m. flat_name matches lf cx (d @ [n]) = Some (i, m) \<Longrightarrow> real_name m"
  shows "\<exists>w. shadowing_form matches lf cx (d @ [n]) = Some w \<and>
    (\<forall>f. w = Some f \<longleftrightarrow> (\<exists>s\<in>set (dl_shadowed l). sh_hidden s = d @ [n] \<and> sh_by s = f))"
proof -
  have n: "path_name (d @ [n]) = n" "path_parent (d @ [n]) = d" using real_name_path [OF names [OF list(2)]] by simp_all
  note sh = shadowed_iff [OF read list e]
  show ?thesis
  proof (cases "lf_is_dir lf (d @ [n])")
    case True
    obtain shape where shape: "folder_shape_of matches lf cx (d @ [n]) = Some shape" using shape_known [OF True] by blast
    define g where "g = (\<lambda>e.
      if \<not> lf_is_file lf e \<or> layout_excluded matches cx e \<or> init_candidate_of matches cx e \<noteq> None then None
      else case flat_name matches lf cx e of Some (i, inst) \<Rightarrow> if inst = path_name (d @ [n]) then Some (i, e) else None | None \<Rightarrow> None)"
    define ps where "ps = List.map_filter g es"
    have g: "g e = Some (i, f) \<longleftrightarrow> f = e \<and> \<not> layout_excluded matches cx e \<and> lf_is_file lf e \<and>
        init_candidate_of matches cx e = None \<and> flat_name matches lf cx e = Some (i, n)" for e i f
      by (auto simp: g_def n split: option.splits if_splits)
    have set: "set ps = {(i, f). f \<in> set es \<and> \<not> layout_excluded matches cx f \<and> lf_is_file lf f \<and>
         init_candidate_of matches cx f = None \<and> flat_name matches lf cx f = Some (i, n)}"
      by (auto simp: ps_def mem_map_filter g)
    have least: "\<exists>i rest. sort_pairs ps = (i, f) # rest" if "sort_pairs qs = (j, f) # rest'" "set qs = set ps" for qs j rest' f
      using sort_pairs_first [OF that(2)] that(1) by (auto split: list.splits)
    have first: "(\<exists>qs i rest. sort_pairs qs = (i, f) # rest \<and> set qs = set ps) \<longleftrightarrow> (\<exists>i rest. sort_pairs ps = (i, f) # rest)" for f
      by (blast intro: least)
    have run: "shadowing_form matches lf cx (d @ [n]) = Some (if shape \<noteq> Nothing then None else case sort_pairs ps of [] \<Rightarrow> None | (_, flat) # _ \<Rightarrow> Some flat)"
      by (simp add: shadowing_form_def n True shape list(1) ps_def g_def)
    show ?thesis unfolding run sh(2) [OF True] n set [symmetric] first using shape by (auto split: list.splits)
  next
    case False
    then have isf: "lf_is_file lf (d @ [n])" using entry_kind [OF list] by blast
    have dir: "w = d @ [path_name w]" if mem: "w \<in> set es" for w
    proof -
      obtain m where m: "w = d @ [m]" using entry_below [OF list(1) mem] by blast
      then show ?thesis using real_name_path [OF names, of m d] mem by simp
    qed
    show ?thesis
    proof (cases "flat_name matches lf cx (d @ [n])")
      case None
      then show ?thesis unfolding sh(1) [OF isf] by (simp add: shadowing_form_def n False)
    next
      case (Some im)
      obtain i m where im: "im = (i, m)" by fastforce
      have m: "path_name (d @ [m]) = m" "path_join d m = d @ [m]" using real_name_path flat Some im by blast+
      have run: "shadowing_form matches lf cx (d @ [n]) = (if init_candidate_of matches cx (d @ [n]) \<noteq> None then Some None
         else if lf_is_dir lf (d @ [m]) \<and> \<not> layout_excluded matches cx (d @ [m])
           then map_option (\<lambda>shape. if shape = HasInit then Some (d @ [m]) else None) (folder_shape_of matches lf cx (d @ [m])) else Some None)"
        by (simp add: shadowing_form_def n False Some im m Let_def cong: if_cong)
      have "w \<in> set es \<and> lf_is_dir lf w \<and> path_name w = m \<longleftrightarrow> w = d @ [m] \<and> lf_is_dir lf w" for w
        using dir folder_listed [OF list(1)] m(1) by metis
      then have sh1: "(\<exists>s\<in>set (dl_shadowed l). sh_hidden s = d @ [n] \<and> sh_by s = w) \<longleftrightarrow> init_candidate_of matches cx (d @ [n]) = None \<and>
          w = d @ [m] \<and> lf_is_dir lf w \<and> \<not> layout_excluded matches cx w \<and> folder_shape_of matches lf cx w = Some HasInit" for w
        unfolding sh(1) [OF isf] Some im using m(1) by auto
      show ?thesis
      proof (cases "lf_is_dir lf (d @ [m])")
        case True
        then obtain shape where "folder_shape_of matches lf cx (d @ [m]) = Some shape" using shape_known by blast
        then show ?thesis unfolding run sh1 by auto
      qed (auto simp: run sh1)
    qed
  qed
qed

end


section \<open>Examples\<close>

text \<open>A matcher for the patterns of the default rules: a star, or none, before a fixed text.\<close>

definition star_match :: "glob \<Rightarrow> path \<Rightarrow> bool" where
  "star_match g p \<longleftrightarrow> (case g of c # sfx \<Rightarrow> if c = CHR ''*'' then suffix sfx (path_name p) else path_name p = g | [] \<Rightarrow> False)"

text \<open>A flat file beside its folder form, a flat file beside an empty folder, and an ordinary folder.\<close>

definition pair_fs :: fnode where
  "pair_fs = FDir [(''src'', FDir [
     (''X.luau'', FFile ''return 1''), (''X'', FDir [(''init.luau'', FFile ''return 2''), (''init.client.luau'', FFile '''')]),
     (''Y.luau'', FFile ''return 3''), (''Y'', FDir [(''.DS_Store'', FFile '''')]), (''Z'', FDir [(''K.luau'', FFile '''')])])]"

lemma pair_layout:
  "map_option dl_children (read_layout star_match (disk_layout pair_fs) context_new [''src'']) = Some [[''src'', ''X''], [''src'', ''Y.luau''], [''src'', ''Z'']]"
  "shadowing_form star_match (disk_layout pair_fs) context_new [''src'', ''X.luau''] = Some (Some [''src'', ''X''])"
  "flat_name star_match (disk_layout pair_fs) context_new [''src'', ''X.luau''] = Some (7, ''X'')"
  "\<not> layout_excluded star_match context_new [''src'', ''X.luau'']"
  by code_simp+

lemma pair_names: "fs_exists ([''src''] @ [m]) pair_fs \<Longrightarrow> m \<in> {''X.luau'', ''X'', ''Y.luau'', ''Y'', ''Z''}"
  by (auto simp: fs_exists_def pair_fs_def split: if_splits)


text \<open>
  A script file that is nothing but its suffix projects with an empty name. Reading it on its own joins that
  name to the directory, finds the directory itself and answers with it when it has an init file, although listing the
  directory keeps the file as a child.
\<close>

definition nameless_fs :: fnode where
  "nameless_fs = FDir [(''src'', FDir [(''init.luau'', FFile ''''), (''.server.luau'', FFile '''')])]"

lemma nameless_script_diverges:
  "map_option dl_children (read_layout star_match (disk_layout nameless_fs) context_new [''src'']) = Some [[''src'', ''.server.luau'']]"
  "shadowing_form star_match (disk_layout nameless_fs) context_new [''src'', ''.server.luau''] = Some (Some [''src''])"
  by code_simp+

text \<open>A warning is given when the ambiguity is new, not while it lasts, and again when it comes back.\<close>

lemma report_once:
  "describe l w \<noteq> [] \<Longrightarrow> fst (report l w (snd (report l w seen))) = False"
  "describe l w \<noteq> [] \<Longrightarrow> describe l' w' = [] \<Longrightarrow> dl_dir l' = dl_dir l \<Longrightarrow> fst (report l w (snd (report l' w' seen)))"
  by (simp_all add: report_def Let_def)

end
