(* ===== verification/WalkSafety.thy ===== *)
theory WalkSafety
  imports Walk LayoutSafety ReadSafety FormatsSafety
begin

text \<open>
  What the snapshot walk guarantees: it never reaches the places the code marks unreachable, the
  snapshots it returns nest within the limits however the project and the directories refer
  to each other, and they carry what the read path relies on, so that re-reading an
  instance from disk makes the tree mirror the walk.
\<close>

section \<open>Good results\<close>

fun panics :: "walk_error \<Rightarrow> bool" where
  "panics Unreachable = True"
| "panics (ReadFailed _ _ e) = panics e"
| "panics _ = False"

fun snap_height :: "('u, 'v) snapshot \<Rightarrow> nat" where
  "snap_height (Snapshot _ _ _ _ _ cs) = Suc (foldr max (map snap_height cs) 0)"

fun walk_wf :: "('u, 'v) snapshot \<Rightarrow> bool" where
  "walk_wf (Snapshot sid mt name cls ps cs) \<longleftrightarrow>
     sid = ref_none \<and> (case src_inner (mt_source mt) of SProject _ _ _ _ \<Rightarrow> True | _ \<Rightarrow> mt_original_name mt \<in> {None, Some name}) \<and>
     (\<forall>c\<in>set cs. walk_wf c)"

abbreviation height_limit :: nat where
  "height_limit \<equiv> MAX_SNAPSHOT_DEPTH + Suc MAX_MODEL_DEPTH"

definition snap_good :: "nat \<Rightarrow> ('u, 'v) snapshot \<Rightarrow> bool" where
  "snap_good d s \<longleftrightarrow> snap_height s + d \<le> height_limit \<and> walk_wf s"

lemma foldr_max_le: "foldr max xs 0 \<le> (n::nat) \<longleftrightarrow> (\<forall>x\<in>set xs. x \<le> n)"
  by (induction xs) auto

lemma snap_good_iff:
  "snap_good d (Snapshot sid mt name cls ps cs) \<longleftrightarrow>
     d < height_limit \<and> sid = ref_none \<and> (case src_inner (mt_source mt) of SProject _ _ _ _ \<Rightarrow> True | _ \<Rightarrow> mt_original_name mt \<in> {None, Some name}) \<and>
     (\<forall>c\<in>set cs. snap_good (Suc d) c)"
proof -
  have "Suc (foldr max (map snap_height cs) 0) + d \<le> height_limit \<longleftrightarrow> d < height_limit \<and> (\<forall>c\<in>set cs. snap_height c + Suc d \<le> height_limit)"
    using foldr_max_le [of "map snap_height cs" "height_limit - Suc d"] by (auto simp: le_diff_conv2)
  then show ?thesis unfolding snap_good_def by auto
qed

lemma snap_good_mono: "snap_good (Suc d) s \<Longrightarrow> snap_good d s"
  by (simp add: snap_good_def)

text \<open>A step that may fail, without panic, and whose result has a property.\<close>

definition safe :: "('a \<Rightarrow> bool) \<Rightarrow> walk_error + 'a \<Rightarrow> bool" where
  "safe P r \<longleftrightarrow> (case r of Inl e \<Rightarrow> \<not> panics e | Inr x \<Rightarrow> P x)"

lemma safe_simps [simp]: "safe P (Inl e) \<longleftrightarrow> \<not> panics e" "safe P (Inr x) \<longleftrightarrow> P x"
  by (simp_all add: safe_def)

lemma safe_ebind: "safe P x \<Longrightarrow> (\<And>y. P y \<Longrightarrow> safe Q (f y)) \<Longrightarrow> safe Q (ebind x f)"
  by (cases x) (simp_all add: ebind_def)

lemma safe_mono: "safe P r \<Longrightarrow> (\<And>x. P x \<Longrightarrow> Q x) \<Longrightarrow> safe Q r"
  by (cases r) simp_all

lemma safe_described: "safe P r \<Longrightarrow> safe P (described mw p r)"
  by (auto simp: described_def split: sum.splits walk_error.splits)

lemma safe_contents: "(\<And>c. safe P (f c)) \<Longrightarrow> safe P (with_contents p fs f)"
  by (simp add: with_contents_def split: option.splits)

section \<open>Files\<close>

text \<open>A snapshot that has not been placed yet.\<close>

abbreviation unplaced :: "nat \<Rightarrow> ('u, 'v) snapshot \<Rightarrow> bool" where
  "unplaced d s \<equiv> snap_good d s \<and> src_inner (mt_source (sn_meta s)) = SNone \<and> mt_original_name (sn_meta s) = None"

lemma meta_new_plain: "mt_original_name meta_new = None" "src_inner (mt_source meta_new) = SNone"
  by (simp_all add: meta_new_def source_new_def)

lemma plain_unplaced: "d \<le> MAX_SNAPSHOT_DEPTH \<Longrightarrow> unplaced d (plain_snapshot env cls ps)"
  by (simp add: plain_snapshot_def snap_good_iff meta_new_plain)

lemma plain_meta [simp]: "sn_meta (plain_snapshot env cls ps) = meta_new"
  by (simp add: plain_snapshot_def)

text \<open>Models: depth \<open>k\<close> of a model sits at most at \<open>MAX_SNAPSHOT_DEPTH + k\<close>.\<close>

lemma model_allowed: "model_depth_allowed env p k \<Longrightarrow> MAX_SNAPSHOT_DEPTH + k < height_limit"
  by (simp add: model_depth_allowed_def)

lemma json_model_good:
  "safe (unplaced (MAX_SNAPSHOT_DEPTH + k)) (json_model_walk env p k m)"
  "safe (list_all (snap_good (MAX_SNAPSHOT_DEPTH + k))) (json_model_children env p k ms)"
proof (induction env p k m and env p k ms rule: json_model_walk_json_model_children.induct)
  case (1 env p depth name cls props attrs tags children)
  show ?case
  proof (cases "model_depth_allowed env p depth")
    case True
    let ?cs = "case children of Some cs \<Rightarrow> json_model_children env p (Suc depth) cs | None \<Rightarrow> Inr []"
    have cs: "safe (list_all (snap_good (Suc (MAX_SNAPSHOT_DEPTH + depth)))) ?cs" using 1 True by (cases children) auto
    show ?thesis using True cs model_allowed [OF True]
      by (cases ?cs) (auto simp: Let_def snap_good_iff meta_new_plain list_all_iff)
  qed simp
next
  case (3 env p depth c cs)
  then show ?case by (auto simp: safe_def split: sum.splits)
qed simp

lemma dom_good:
  "safe (unplaced (MAX_SNAPSHOT_DEPTH + k)) (dom_walk env p k m)"
  "safe (list_all (snap_good (MAX_SNAPSHOT_DEPTH + k))) (dom_children env p k ms)"
proof (induction env p k m and env p k ms rule: dom_walk_dom_children.induct)
  case (1 env p depth name cls ps children)
  show ?case
  proof (cases "model_depth_allowed env p depth")
    case True
    then show ?thesis using 1 model_allowed [OF True]
      by (cases "dom_children env p (Suc depth) children") (auto simp: snap_good_iff meta_new_plain list_all_iff)
  qed simp
next
  case (3 env p depth c cs)
  then show ?case by (auto simp: safe_def split: sum.splits)
qed simp

lemma snap_good_le: "snap_good k s \<Longrightarrow> d \<le> k \<Longrightarrow> snap_good d s"
  by (simp add: snap_good_def)

lemma read_model_good: "safe (unplaced MAX_SNAPSHOT_DEPTH) (read_model env parse p c)"
proof -
  have w: "safe (unplaced MAX_SNAPSHOT_DEPTH) (dom_walk env p 0 m)" for m using dom_good(1) [of 0 env p m] by simp
  have "safe (unplaced MAX_SNAPSHOT_DEPTH) (case dom_walk env p 0 m of Inl e \<Rightarrow> Inl e | Inr (Snapshot i mt name cls ps cs) \<Rightarrow> Inr (Snapshot i mt name ''Folder'' ps cs))" for m
    using w [of m] by (auto simp: snap_good_iff split: sum.splits snapshot.splits)
  then show ?thesis using w by (auto simp: read_model_def split: option.splits list.splits)
qed

lemma read_lua_good: "safe (unplaced MAX_SNAPSHOT_DEPTH) (read_lua_module env f p c)"
  by (simp add: read_lua_module_def plain_unplaced meta_new_plain split: option.splits)

lemma readers_good:
  "safe (unplaced MAX_SNAPSHOT_DEPTH) (read_json env p c)" "safe (unplaced MAX_SNAPSHOT_DEPTH) (read_msgpack env p c)"
  "safe (unplaced MAX_SNAPSHOT_DEPTH) (read_json_model env p c)" "unplaced MAX_SNAPSHOT_DEPTH (read_md env c)"
  "safe (unplaced MAX_SNAPSHOT_DEPTH) (of_properties env p r)"
  using json_model_good(1) [of 0 env p]
  by (simp_all add: read_json_def read_msgpack_def read_json_model_def read_md_def of_properties_def read_lua_good plain_unplaced meta_new_plain split: option.splits)

section \<open>One level\<close>

text \<open>What a call promises: a result without panic, within the limits, and a node call always has one.\<close>

definition call_good :: "nat \<Rightarrow> 'u walk_call \<Rightarrow> ('u, 'v) walked \<Rightarrow> bool" where
  "call_good d c r \<longleftrightarrow> safe (\<lambda>x. case x of Some s \<Rightarrow> snap_good d s | None \<Rightarrow> (\<nexists>name p node np cx. c = CNode name p node np cx)) r"

abbreviation result_good :: "nat \<Rightarrow> ('u, 'v) walked \<Rightarrow> bool" where
  "result_good d r \<equiv> safe (pred_option (snap_good d)) r"

lemma call_result: "call_good d c r \<Longrightarrow> result_good d r"
  by (auto simp: call_good_def safe_def split: sum.splits option.splits)

lemma map_meta_good: "snap_good d s \<Longrightarrow> snap_good d (map_meta (\<lambda>mt. mt\<lparr>mt_source := add_project p (mt_source mt)\<rparr>) s)"
  by (cases s) (auto simp: snap_good_iff add_project_def split: source_kind.splits)

lemma placed_good: "unplaced d s \<Longrightarrow> snap_good d (placed name cx (source_file p) s)" "unplaced d s \<Longrightarrow> snap_good d (placed name cx (source_child_file q p) s)"
  by (cases s; simp add: snap_good_iff source_file_def source_child_file_def)+

lemma append_children_good: "snap_good d s \<Longrightarrow> list_all (snap_good (Suc d)) cs \<Longrightarrow> snap_good d (append_children cs s)"
  by (cases s) (auto simp: snap_good_iff list_all_iff)

lemma extend_good: "snap_good d (extend_properties f ps s) \<longleftrightarrow> snap_good d s"
  by (cases s) (simp add: snap_good_iff)

lemma apply_data_good: "snap_good d s \<Longrightarrow> snap_good d (apply_data f x s)"
  by (cases s; cases "ds_original_name x")
    (auto simp: snap_good_iff apply_data_def Let_def add_data_def split: option.splits source_kind.splits)

lemma instance_data_good: "snap_good d s \<Longrightarrow> result_good d (with_instance_data env fs name p cx s)"
proof -
  have data: "safe (\<lambda>_. True) (first_data env fs name cls p rs)" for cls rs
  proof (induction rs)
    case (Cons r rs)
    have "safe (\<lambda>_. True) (read_data env q cls fs)" for q by (simp add: read_data_def Let_def split: option.splits)
    then have "safe (\<lambda>_. True) (ebind (read_data env q cls fs) (\<lambda>d. Inr (Some d)))" for q by (rule safe_ebind) simp
    then show ?case using Cons by (simp split: option.splits)
  qed simp
  assume "snap_good d s"
  then show ?thesis unfolding with_instance_data_def get_instance_data_def
    by (rule_tac safe_ebind [OF data]) (auto simp: apply_data_good split: option.splits)
qed

text \<open>The level below is good and within the limit.\<close>

definition level_good :: "nat \<Rightarrow> ('u walk_call \<Rightarrow> ('u, 'v) walked) \<Rightarrow> bool" where
  "level_good d rec \<longleftrightarrow> d < MAX_SNAPSHOT_DEPTH \<and> (\<forall>c. call_good (Suc d) c (rec c))"

lemma read_project_good:
  assumes "level_good d rec"
  shows "safe (snap_good d) (read_project env fs rec p parent)"
proof -
  have node: "safe (\<lambda>x. \<exists>s. x = Some s \<and> snap_good (Suc d) s) (rec (CNode name p node np cx))" for name node np cx
  proof -
    have "call_good (Suc d) (CNode name p node np cx) (rec (CNode name p node np cx))" using assms by (simp add: level_good_def)
    then show ?thesis by (auto simp: call_good_def elim!: safe_mono split: option.splits)
  qed
  show ?thesis
    by (auto simp: read_project_def Let_def map_meta_good snap_good_mono intro!: safe_ebind [OF node] split: wres.splits write_error.splits)
qed

lemma middleware_read_good:
  assumes "level_good d rec" "mw \<noteq> InstanceData"
  shows "safe (\<lambda>s. if mw = MProject then snap_good d s else unplaced d s) (middleware_read env fs rec mw p cx)"
proof (cases "mw = MProject")
  case True
  then show ?thesis using read_project_good [OF assms(1)] by (simp add: middleware_read_def safe_described)
next
  case False
  have d: "d \<le> MAX_SNAPSHOT_DEPTH" using assms(1) by (simp add: level_good_def)
  have "safe (unplaced MAX_SNAPSHOT_DEPTH) (middleware_read env fs rec mw p cx)"
    unfolding middleware_read_def using False assms(2)
    by (cases mw) (auto intro!: safe_described safe_contents readers_good read_lua_good read_model_good simp: readers_good(4) [simplified])
  then show ?thesis using False snap_good_le [OF _ d] by (auto intro: safe_mono)
qed

lemma rule_middleware: "file_rule m lf cx p = Some (i, rr) \<Longrightarrow> rr_middleware rr \<noteq> InstanceData"
  "init_candidate_of m cx p = Some ic \<Longrightarrow> ic_middleware ic \<noteq> InstanceData"
  by (auto simp: file_rule_def init_candidate_of_def resolve_rule_def resolve_child_def dest!: find_map_Some split: option.splits if_splits)

lemma new_snapshot_file_good:
  assumes "level_good d rec"
  shows "result_good d (new_snapshot_file env fs rec p cx)"
proof (cases "file_rule (globs_of env) (disk_layout fs) cx p")
  case (Some x)
  obtain i rr where x: "x = (i, rr)" by fastforce
  have "rr_middleware rr \<noteq> InstanceData" using rule_middleware(1) Some x by blast
  from middleware_read_good [OF assms this] show ?thesis
    unfolding new_snapshot_file_def Some x option.case prod.case
    by (rule safe_ebind) (auto intro!: instance_data_good placed_good split: if_splits)
qed (simp add: new_snapshot_file_def)

lemma snapshot_children_good:
  assumes "level_good d rec"
  shows "safe (list_all (snap_good (Suc d))) (snapshot_children rec cx ps)"
proof (induction ps)
  case (Cons p ps)
  have "result_good (Suc d) (rec (CChild p cx))" using assms call_result by (auto simp: level_good_def)
  then show ?case unfolding snapshot_children.simps
    by (rule safe_ebind) (rule safe_ebind [OF Cons], auto split: option.splits)
qed simp

lemma layout_read: "safe (\<lambda>l. read_layout (globs_of env) (disk_layout fs) cx dir = Some l) (layout_of env fs dir cx)"
  by (simp add: layout_of_def split: option.splits)

lemma layout_safe: "safe (\<lambda>_. True) (layout_of env fs dir cx)"
  by (rule safe_mono [OF layout_read]) simp

lemma snapshot_init_good:
  assumes "level_good d rec" "ic_middleware cand \<noteq> InstanceData"
  shows "result_good d (snapshot_init env fs rec dir cand lay cx)"
  unfolding snapshot_init_def
proof (rule safe_ebind [OF middleware_read_good [OF assms]])
  fix s :: "('a, 'b) snapshot" assume s: "if ic_middleware cand = MProject then snap_good d s else unplaced d s"
  have lay: "safe (\<lambda>_. True) (case lay of Some l \<Rightarrow> Inr l | None \<Rightarrow> layout_of env fs dir cx)"
    by (simp add: layout_safe split: option.splits)
  have "result_good d (with_instance_data env fs (ic_name cand) dir cx (append_children cs (placed (ic_name cand) cx (source_child_file dir (ic_path cand)) s)))"
    if "ic_middleware cand \<noteq> MProject" "list_all (snap_good (Suc d)) cs" for cs
    using s that by (auto intro!: instance_data_good append_children_good placed_good)
  then show "result_good d (if ic_middleware cand \<noteq> MProject then
         ebind (case lay of Some l \<Rightarrow> Inr l | None \<Rightarrow> layout_of env fs dir cx) (\<lambda>l.
         ebind (snapshot_children rec cx (dl_children l)) (\<lambda>cs.
           with_instance_data env fs (ic_name cand) dir cx
             (append_children cs (placed (ic_name cand) cx (source_child_file dir (ic_path cand)) s))))
       else if is_blank s then Inr None
       else with_instance_data env fs (ic_name cand) dir cx s)"
    using s instance_data_good by (auto intro!: safe_ebind [OF lay] safe_ebind [OF snapshot_children_good [OF assms(1)]])
qed

lemma new_snapshot_dir_good:
  assumes "level_good d rec"
  shows "result_good d (new_snapshot_dir env fs rec p l cx)"
proof -
  have lim: "d < height_limit" using assms by (simp add: level_good_def)
  have "safe (snap_good d) (read_dir rec p (dl_children l) cx)"
    unfolding read_dir_def using lim
    by (intro safe_ebind [OF snapshot_children_good [OF assms]]) (simp add: snap_good_iff list_all_iff meta_new_plain source_directory_def)
  then show ?thesis unfolding new_snapshot_dir_def
    by (rule safe_ebind) (auto intro!: instance_data_good simp: snap_good_iff split: snapshot.splits)
qed

lemma try_inits_good:
  assumes "level_good d rec" "\<forall>c\<in>set cands. ic_middleware c \<noteq> InstanceData"
  shows "result_good d (try_inits env fs rec p l cx cands)"
  using assms(2)
proof (induction cands)
  case (Cons c cs)
  have "result_good d (snapshot_init env fs rec p c (Some l) cx)" using snapshot_init_good [OF assms(1)] Cons.prems by simp
  then show ?case unfolding try_inits.simps by (rule safe_ebind) (use Cons in \<open>auto split: option.splits\<close>)
qed (simp add: new_snapshot_dir_good [OF assms(1)])

lemma layout_inits:
  assumes "read_layout m lf cx dir = Some l" "c \<in> set (dl_inits l)"
  shows "ic_middleware c \<noteq> InstanceData"
  using assms rule_middleware(2)
  by (auto simp: read_layout_def Let_def mem_map_filter split: option.splits)

lemma snapshot_dir_good:
  assumes "level_good d rec"
  shows "result_good d (snapshot_dir env fs rec p cx)"
  unfolding snapshot_dir_def using try_inits_good [OF assms] layout_inits
  by (intro safe_ebind [OF layout_read]) blast

lemma enter_safe: "safe (\<lambda>_. d < MAX_SNAPSHOT_DEPTH) (enter env p d)"
  by (simp add: enter_def)

text \<open>A level is good when the one below is, or is never asked for.\<close>

definition below_good :: "nat \<Rightarrow> ('u walk_call \<Rightarrow> ('u, 'v) walked) \<Rightarrow> bool" where
  "below_good d rec \<longleftrightarrow> (d < MAX_SNAPSHOT_DEPTH \<longrightarrow> level_good d rec)"

lemma rec_result:
  assumes "level_good d rec"
  shows "result_good d (rec c)"
proof (rule safe_mono)
  show "result_good (Suc d) (rec c)" using assms call_result by (simp add: level_good_def) blast
  show "pred_option (snap_good (Suc d)) x \<Longrightarrow> pred_option (snap_good d) x" for x :: "('a, 'b) snapshot option"
    by (cases x) (simp_all add: snap_good_mono)
qed

lemma frame_good: "(d < MAX_SNAPSHOT_DEPTH \<Longrightarrow> safe P x) \<Longrightarrow> safe P (ebind (enter env p d) (\<lambda>_. x))"
  by (rule safe_ebind [OF enter_safe])

lemma unless_good: "result_good d x \<Longrightarrow> result_good d (if b then Inr None else x)"
  by simp

lemma refuse_good: "safe P x \<Longrightarrow> safe P (if b then Inl (ClassAndPath p) else x)"
  by simp

lemma snapshot_path_good:
  assumes "below_good d rec"
  shows "result_good d (snapshot_path env fs d rec redirect p cx)"
proof -
  have inner: "result_good d (case (if redirect then shadowing_form (globs_of env) (disk_layout fs) cx p else Some None) of
          None \<Rightarrow> Inl (Unreadable p)
        | Some (Some form) \<Rightarrow>
            ebind (if path_parent p = p then Inr () else ebind (layout_of env fs (path_parent p) cx) (\<lambda>_. Inr ()))
              (\<lambda>_. rec (CPath False form cx))
        | Some None \<Rightarrow>
            if is_file p fs then
              ebind (case init_candidate_of (globs_of env) cx p of
                  Some cand \<Rightarrow> snapshot_init env fs rec (path_parent p) cand None cx
                | None \<Rightarrow> Inr None) (\<lambda>r.
              case r of Some s \<Rightarrow> Inr (Some s) | None \<Rightarrow> new_snapshot_file env fs rec p cx)
            else snapshot_dir env fs rec p cx)" if "d < MAX_SNAPSHOT_DEPTH"
  proof -
    have lg: "level_good d rec" using assms that by (simp add: below_good_def)
    have lay: "safe (\<lambda>_. True) (if path_parent p = p then Inr () else ebind (layout_of env fs (path_parent p) cx) (\<lambda>_. Inr ()))"
      by (auto intro!: safe_ebind [OF layout_safe])
    have init: "result_good d (case init_candidate_of (globs_of env) cx p of
                  Some cand \<Rightarrow> snapshot_init env fs rec (path_parent p) cand None cx | None \<Rightarrow> Inr None)"
      using snapshot_init_good [OF lg] rule_middleware(2) by (auto split: option.splits)
    have reg: "result_good d (ebind (case init_candidate_of (globs_of env) cx p of
                  Some cand \<Rightarrow> snapshot_init env fs rec (path_parent p) cand None cx | None \<Rightarrow> Inr None)
                (\<lambda>r. case r of Some s \<Rightarrow> Inr (Some s) | None \<Rightarrow> new_snapshot_file env fs rec p cx))"
      by (rule safe_ebind [OF init]) (auto simp: new_snapshot_file_good [OF lg] split: option.splits)
    have redir: "result_good d (ebind (if path_parent p = p then Inr () else ebind (layout_of env fs (path_parent p) cx) (\<lambda>_. Inr ()))
              (\<lambda>_. rec (CPath False form cx)))" for form
      by (rule safe_ebind [OF lay]) (rule rec_result [OF lg])
    show ?thesis
    proof (cases "if redirect then shadowing_form (globs_of env) (disk_layout fs) cx p else Some None")
      case (Some w)
      show ?thesis
      proof (cases w)
        case None
        have "result_good d (if is_file p fs then x else snapshot_dir env fs rec p cx)" if "result_good d x" for x
          using that snapshot_dir_good [OF lg] by simp
        from this [OF reg] show ?thesis unfolding Some None option.case .
      next
        case (Some form)
        then show ?thesis using \<open>_ = Some w\<close> redir by (simp only: option.case)
      qed
    qed (simp only: option.case safe_simps panics.simps simp_thms)
  qed
  show ?thesis unfolding snapshot_path_def by (intro unless_good frame_good inner)
qed

lemma snapshot_child_good:
  assumes "below_good d rec"
  shows "result_good d (snapshot_child env fs d rec p cx)"
proof -
  have "result_good d (if is_file p fs then new_snapshot_file env fs rec p cx else snapshot_dir env fs rec p cx)" if "d < MAX_SNAPSHOT_DEPTH"
    using assms that by (cases "is_file p fs") (auto simp: below_good_def intro: new_snapshot_file_good snapshot_dir_good)
  then show ?thesis unfolding snapshot_child_def by (intro unless_good frame_good)
qed

lemma node_snapshot_good: "d < MAX_SNAPSHOT_DEPTH \<Longrightarrow> snap_good d (node_snapshot env name p node np cx)"
  by (auto simp: node_snapshot_def Let_def snap_good_iff source_project_def)

lemma merge_mapped_good:
  assumes "snap_good d s" "src_inner (mt_source (sn_meta node)) = SProject n p x np"
  shows "snap_good d (merge_mapped env node s)"
  using extend_good [of d "re_content_of env" "sn_properties node" s, symmetric] assms
  by (cases "extend_properties (re_content_of env) (sn_properties node) s") (simp add: merge_mapped_def Let_def snap_good_iff)

lemma node_children_good:
  assumes "level_good d rec"
  shows "safe (list_all (snap_good (Suc d))) (node_children rec p np cx nodes)"
proof (induction nodes)
  case (Cons x nodes)
  obtain name node where x: "x = (name, node)" by fastforce
  have "result_good (Suc d) (rec c)" for c using assms call_result by (simp add: level_good_def) blast
  then show ?case unfolding x node_children.simps
    by (rule safe_ebind) (rule safe_ebind [OF Cons], auto split: option.splits)
qed simp

lemma new_snapshot_node_good:
  assumes "below_good d rec"
  shows "safe (\<lambda>x. \<exists>s. x = Some s \<and> snap_good d s) (new_snapshot_node env fs d rec name p node np cx)"
  unfolding new_snapshot_node_def
proof (rule safe_ebind [OF enter_safe])
  assume d: "d < MAX_SNAPSHOT_DEPTH"
  then have lg: "level_good d rec" using assms by (simp add: below_good_def)
  let ?s = "node_snapshot env name p node np cx"
  have s: "snap_good d ?s" "src_inner (mt_source (sn_meta ?s)) = SProject name p node np"
    by (rule node_snapshot_good [OF d]) (simp add: node_snapshot_def Let_def source_project_def)
  have mapped: "safe (snap_good d) (ebind (rec (CPath False q cx)) (\<lambda>r. Inr (case r of Some m \<Rightarrow> merge_mapped env ?s m | None \<Rightarrow> ?s)))" for q
    by (rule safe_ebind [OF rec_result [OF lg]]) (use s merge_mapped_good in \<open>auto split: option.splits\<close>)
  have base: "safe (snap_good d) (case node_path node of None \<Rightarrow> Inr ?s
            | Some pp \<Rightarrow> let q = we_clean (re_write env) (with_file_path p (project_path_path pp))
                in if fs_exists q fs then ebind (rec (CPath False q cx)) (\<lambda>r. Inr (case r of Some m \<Rightarrow> merge_mapped env ?s m | None \<Rightarrow> ?s)) else Inr ?s)"
    using mapped s(1) by (simp add: Let_def split: option.splits)
  show "safe (\<lambda>x. \<exists>s. x = Some s \<and> snap_good d s) (if class_name node \<noteq> None \<and> node_path node \<noteq> None then Inl (ClassAndPath p)
       else let s = ?s in ebind (case node_path node of None \<Rightarrow> Inr s
            | Some pp \<Rightarrow> let q = we_clean (re_write env) (with_file_path p (project_path_path pp))
                in if fs_exists q fs then ebind (rec (CPath False q cx)) (\<lambda>r. Inr (case r of Some m \<Rightarrow> merge_mapped env s m | None \<Rightarrow> s)) else Inr s)
            (\<lambda>s. ebind (node_children rec p np cx (node_tree node)) (\<lambda>cs. Inr (Some (append_children cs s)))))"
    unfolding Let_def [of ?s]
    by (rule refuse_good, rule safe_ebind [OF base], rule safe_ebind [OF node_children_good [OF lg]]) (simp add: append_children_good)
qed

lemma walk_step_good: "below_good d rec \<Longrightarrow> call_good d c (walk_step env fs d rec c)"
proof (cases c)
  case (CNode name p node np cx)
  assume "below_good d rec"
  from new_snapshot_node_good [OF this] show ?thesis
    unfolding call_good_def walk_step_def CNode walk_call.case by (rule safe_mono) auto
next
  case (CPath redirect p cx)
  assume "below_good d rec"
  from snapshot_path_good [OF this] show ?thesis
    unfolding call_good_def walk_step_def CPath walk_call.case by (rule safe_mono) (auto split: option.splits)
next
  case (CChild p cx)
  assume "below_good d rec"
  from snapshot_child_good [OF this] show ?thesis
    unfolding call_good_def walk_step_def CChild walk_call.case by (rule safe_mono) (auto split: option.splits)
qed

lemma walk_good: "call_good d c (walk_from env fs d c)"
proof (induction env fs d c rule: walk_from.induct)
  case (1 env fs depth c)
  have "below_good depth (\<lambda>c. if depth < MAX_SNAPSHOT_DEPTH then walk_from env fs (Suc depth) c else Inl Unreachable)"
    using 1 by (simp add: below_good_def level_good_def)
  from walk_step_good [OF this] show ?case by (subst walk_from.simps)
qed

text \<open>
  C19: The snapshot walk never recurses out of hand. Whatever the project files, the mapped paths and the
  directories are, cycles included, it returns; it never reaches what the code marks unreachable; and
  a snapshot it returns nests no deeper than the limit on levels and the limit on one model together.
\<close>

theorem walk_bounded:
  "case new_snapshot env fs p cx of
     Inl e \<Rightarrow> \<not> panics e
   | Inr None \<Rightarrow> True
   | Inr (Some s) \<Rightarrow> snap_height s \<le> MAX_SNAPSHOT_DEPTH + Suc MAX_MODEL_DEPTH"
  using walk_good [of 0 "CPath True p cx" env fs]
  by (auto simp: new_snapshot_def call_good_def safe_def snap_good_def split: sum.splits option.splits)

section \<open>From the disk to the tree\<close>

fun path_sourced :: "('u, 'v) snapshot \<Rightarrow> bool" where
  "path_sourced (Snapshot _ mt _ _ _ cs) \<longleftrightarrow>
     (case src_inner (mt_source mt) of SProject _ _ _ _ \<Rightarrow> False | _ \<Rightarrow> True) \<and> (\<forall>c\<in>set cs. path_sourced c)"

lemma walk_wf_fresh: "walk_wf s \<Longrightarrow> path_sourced s \<Longrightarrow> fresh_snapshot s"
  by (induction s) (auto split: source_kind.splits option.splits)

lemma walked_fresh:
  assumes "new_snapshot env fs p cx = Inr (Some s)" "path_sourced s"
  shows "fresh_snapshot s"
proof -
  have "walk_wf s" using walk_good [of 0 "CPath True p cx" env fs] assms(1) by (simp add: new_snapshot_def call_good_def snap_good_def)
  then show ?thesis using assms(2) by (rule walk_wf_fresh)
qed


text \<open>The example: a folder with an init file, a script and an empty data file.\<close>

definition example_renv :: "(unit, bool) read_env" where
  "example_renv = \<lparr>re_write = (test_env (\<lambda>_. None) (\<lambda>_. VOther False))\<lparr>we_matches := star_match\<rparr>, re_content_of = (\<lambda>s. VString s), re_resolve = (\<lambda>_ _ _. None),
     re_tags = (\<lambda>_. VOther False), re_is_service = (\<lambda>n. n = ''ReplicatedStorage''), re_save_mesh = (\<lambda>_. None), re_stack = (\<lambda>_ n. n),
     re_model_stack = (\<lambda>_ n. n), re_json_lua = (\<lambda>_. None), re_toml_lua = (\<lambda>_. None), re_yaml_lua = (\<lambda>_. None),
     re_msgpack = (\<lambda>_. None), re_markdown = (\<lambda>_. []), re_json_model = (\<lambda>_. None), re_rbxm = (\<lambda>_. None), re_rbxmx = (\<lambda>_. None)\<rparr>"

definition example_fs :: fnode where
  "example_fs = FDir [(''a'', FDir [(''b'', FDir [(''init.luau'', FFile ''return 1''), (''C.luau'', FFile ''return 2'')])])]"

definition example_walked :: "(unit, bool) snapshot" where
  "example_walked = Snapshot 0 (meta_new\<lparr>mt_source := source_child_file [''a'', ''b''] [''a'', ''b'', ''init.luau'']\<rparr>) ''b'' ''ModuleScript''
     [(''Source'', VString ''return 1'')]
     [Snapshot 0 (meta_new\<lparr>mt_source := source_file [''a'', ''b'', ''C.luau'']\<rparr>) ''C'' ''ModuleScript'' [(''Source'', VString ''return 2'')] []]"

text \<open>The comparison with the budget, on binary numbers.\<close>

lemma enter_code [code]:
  "enter env p depth =
     (if MAX_SNAPSHOT_DEPTH < Suc depth \<or> 1048576 < int (re_stack env p (Suc depth)) then Inl (TooDeep p (Suc depth)) else Inr (Suc depth))"
  by (simp add: enter_def SNAPSHOT_STACK_BUDGET_def)

lemma example_walk: "new_snapshot example_renv example_fs [''a'', ''b''] context_new = Inr (Some example_walked)"
  by code_simp


section \<open>What the walk gets wrong\<close>

text \<open>
  A node that maps a path takes the properties and the metadata of what is there but not its name. An original
  name in the data file of that path stays in the metadata, and the tree prefers it to the
  name of the node when it creates the instance.
\<close>

lemma mapped_keeps_original_name:
  "sn_name (merge_mapped env node (Snapshot i mt name cls ps cs)) = sn_name node \<and>
   mt_original_name (sn_meta (merge_mapped env node (Snapshot i mt name cls ps cs))) = mt_original_name mt"
  by (simp add: merge_mapped_def Let_def)

text \<open>
  An empty data file is read as the default data, whose path is empty: the instance gets the empty path as its
  data file, and the file itself is not among its sources.
\<close>

lemma empty_data_file:
  fixes env :: "('u, 'v) read_env" and s :: "('u, 'v) snapshot"
  assumes "file_at q fs = Some ''''"
  shows "read_data env q cls fs = Inr ds_default \<and>
    src_relevant (mt_source (sn_meta (apply_data (re_content_of env) ds_default s))) = src_relevant (mt_source (sn_meta s)) @ [EData []]"
  by (cases s) (simp add: assms read_data_def apply_data_def ds_default_def add_data_def)

end
