(* ===== verification/HazardsSafety.thy ===== *)
theory HazardsSafety
  imports Hazards WalkSafety
begin

text \<open>
  What the hazard scanner guarantees: it always returns, whatever the project files map; every
  hazard it reports is one; and when it reports none, the directories and project files it went through are
  closed under everything the projection reads next, and none of them is ambiguous. A step of the scanner is described
  by \<open>sure\<close>, which holds of the parts and is composed along the code.
\<close>

section \<open>What a scan promises\<close>

definition nested_clean :: "('u, 'v) write_env \<Rightarrow> fnode \<Rightarrow> path set \<Rightarrow> path \<Rightarrow> bool" where
  "nested_clean env fs V p \<longleftrightarrow> p \<in> V \<and> (\<exists>pj. load_project env p fs = WOk pj)"

definition project_clean :: "('u, 'v) write_env \<Rightarrow> fnode \<Rightarrow> path set \<Rightarrow> meta_context \<Rightarrow> 'u project \<Rightarrow> bool" where
  "project_clean env fs V cx pj \<longleftrightarrow>
     (\<forall>p\<in>set (collect_paths env (pj_path pj) (pj_node pj)). fs_exists p fs \<and> \<not> layout_excluded (we_matches env) cx p \<longrightarrow>
        (if is_dir p fs then p \<in> V else if is_project_file env fs cx p then nested_clean env fs V p else \<not> oversized env fs cx p))"

definition dir_clean :: "('u, 'v) write_env \<Rightarrow> fnode \<Rightarrow> path set \<Rightarrow> meta_context \<Rightarrow> path \<Rightarrow> bool" where
  "dir_clean env fs V cx d \<longleftrightarrow>
     (case read_layout (we_matches env) (disk_layout fs) cx d of
        None \<Rightarrow> False
      | Some l \<Rightarrow>
          length (dl_inits l) \<le> 1 \<and> dl_shadowed l = [] \<and> dl_staging l = [] \<and> (\<forall>c\<in>set (dl_inits l). \<not> oversized env fs cx (ic_path c)) \<and>
          (case project_winner l of
             Some w \<Rightarrow> nested_clean env fs V w
           | None \<Rightarrow> distinct (List.map_filter (child_name env fs cx) (dl_children l)) \<and>
               (\<forall>p\<in>set (dl_children l). if is_dir p fs then p \<in> V else \<not> oversized env fs cx p)))"

text \<open>What was gone through: a directory, or a project file under its own rules (its scope may be inherited).\<close>

definition scanned_clean :: "('u, 'v) write_env \<Rightarrow> fnode \<Rightarrow> 'u project \<Rightarrow> path set \<Rightarrow> path \<Rightarrow> bool" where
  "scanned_clean env fs root V p \<longleftrightarrow>
     (\<exists>cx. dir_clean env fs V cx p) \<or>
     (\<exists>pj s. pj_path pj = p \<and> (pj = root \<or> load_project env p fs = WOk pj) \<and>
        project_clean env fs V ((mt_context (from_project (we_valid env) pj))\<lparr>cx_scope := s\<rparr>) pj)"

definition real_hazard :: "('u, 'v) write_env \<Rightarrow> fnode \<Rightarrow> hazard \<Rightarrow> bool" where
  "real_hazard env fs h \<longleftrightarrow>
     hz_kind h = ScanError \<or>
     (\<exists>cx d l. read_layout (we_matches env) (disk_layout fs) cx d = Some l \<and> h \<in> set (layout_hazards l @ duplicate_hazards env fs cx l)) \<or>
     (\<exists>cx p. h = hazard_new OversizedFile [p] \<and> oversized env fs cx p)"

abbreviation found :: "scanner \<Rightarrow> hazard list" where
  "found st \<equiv> rp_hazards (sc_report st)"

definition sure ::
  "('u, 'v) write_env \<Rightarrow> fnode \<Rightarrow> 'u project \<Rightarrow> path set \<Rightarrow> nat \<Rightarrow> (scanner \<Rightarrow> scanner option) \<Rightarrow> (path set \<Rightarrow> bool) \<Rightarrow> bool" where
  "sure env fs root P k f Q \<longleftrightarrow>
     (\<forall>st. card (P - sc_visited st) < k \<longrightarrow>
       (\<exists>st' new. f st = Some st' \<and> sc_visited st \<subseteq> sc_visited st' \<and> found st' = found st @ new \<and> list_all (real_hazard env fs) new \<and>
         (new = [] \<longrightarrow> (\<forall>p\<in>sc_visited st' - sc_visited st. scanned_clean env fs root (sc_visited st') p) \<and> Q (sc_visited st'))))"

lemma nested_clean_mono: "nested_clean env fs V p \<Longrightarrow> V \<subseteq> W \<Longrightarrow> nested_clean env fs W p"
  by (auto simp: nested_clean_def)

lemma project_clean_mono: "project_clean env fs V cx pj \<Longrightarrow> V \<subseteq> W \<Longrightarrow> project_clean env fs W cx pj"
  unfolding project_clean_def nested_clean_def by (meson subsetD)

lemma dir_clean_mono: "dir_clean env fs V cx d \<Longrightarrow> V \<subseteq> W \<Longrightarrow> dir_clean env fs W cx d"
  unfolding dir_clean_def nested_clean_def by (auto split: option.splits if_splits)

lemma scanned_clean_mono: "scanned_clean env fs root V p \<Longrightarrow> V \<subseteq> W \<Longrightarrow> scanned_clean env fs root W p"
  unfolding scanned_clean_def using dir_clean_mono project_clean_mono by metis

section \<open>Composition\<close>

lemma sure_mono: "sure env fs root P k f Q \<Longrightarrow> (\<And>V. Q V \<Longrightarrow> R V) \<Longrightarrow> sure env fs root P k f R"
  by (fastforce simp: sure_def)

lemma sure_pure:
  assumes "\<And>st. \<exists>new. f st = Some (g st) \<and> sc_visited (g st) = sc_visited st \<and> found (g st) = found st @ new \<and>
      list_all (real_hazard env fs) new \<and> (new = [] \<longrightarrow> Q)"
  shows "sure env fs root P k f (\<lambda>_. Q)"
  unfolding sure_def using assms by (metis DiffE order_refl)

lemma sure_bind:
  assumes f: "sure env fs root P k f Q" and g: "sure env fs root P k g R" and fin: "finite P"
    and mono: "\<And>V W. Q V \<Longrightarrow> V \<subseteq> W \<Longrightarrow> Q W"
  shows "sure env fs root P k (\<lambda>st. Option.bind (f st) g) (\<lambda>V. Q V \<and> R V)"
  unfolding sure_def
proof (intro allI impI)
  fix st :: scanner assume st: "card (P - sc_visited st) < k"
  obtain st1 new1 where 1: "f st = Some st1" "sc_visited st \<subseteq> sc_visited st1" "found st1 = found st @ new1" "list_all (real_hazard env fs) new1"
    "new1 = [] \<Longrightarrow> (\<forall>p\<in>sc_visited st1 - sc_visited st. scanned_clean env fs root (sc_visited st1) p) \<and> Q (sc_visited st1)"
    using f st unfolding sure_def by blast
  have "card (P - sc_visited st1) \<le> card (P - sc_visited st)" using fin 1(2) by (intro card_mono) auto
  then obtain st2 new2 where 2: "g st1 = Some st2" "sc_visited st1 \<subseteq> sc_visited st2" "found st2 = found st1 @ new2" "list_all (real_hazard env fs) new2"
    "new2 = [] \<Longrightarrow> (\<forall>p\<in>sc_visited st2 - sc_visited st1. scanned_clean env fs root (sc_visited st2) p) \<and> R (sc_visited st2)"
    using g st unfolding sure_def by (meson le_less_trans)
  have "(\<forall>p\<in>sc_visited st2 - sc_visited st. scanned_clean env fs root (sc_visited st2) p) \<and> Q (sc_visited st2) \<and> R (sc_visited st2)" if "new1 @ new2 = []"
    using that 1(5) 2(2,5) mono scanned_clean_mono by (metis DiffE DiffI append_is_Nil_conv)
  then show "\<exists>st' new. Option.bind (f st) g = Some st' \<and> sc_visited st \<subseteq> sc_visited st' \<and> found st' = found st @ new \<and>
      list_all (real_hazard env fs) new \<and>
      (new = [] \<longrightarrow> (\<forall>p\<in>sc_visited st' - sc_visited st. scanned_clean env fs root (sc_visited st') p) \<and> Q (sc_visited st') \<and> R (sc_visited st'))"
    using 1(1-4) 2(1-4) by (intro exI [of _ st2] exI [of _ "new1 @ new2"]) auto
qed

lemma sure_each:
  assumes "\<And>x. x \<in> set xs \<Longrightarrow> sure env fs root P k (f x) (Q x)" "finite P" "\<And>x V W. Q x V \<Longrightarrow> V \<subseteq> W \<Longrightarrow> Q x W"
  shows "sure env fs root P k (scan_each f xs) (\<lambda>V. \<forall>x\<in>set xs. Q x V)"
  using assms(1)
proof (induction xs)
  case Nil
  have "sure env fs root P k Some (\<lambda>_. True)" by (rule sure_pure [where g = "\<lambda>st. st"]) simp
  moreover have "scan_each f [] = Some" by (simp add: fun_eq_iff)
  ultimately show ?case by simp
next
  case (Cons x xs)
  have "sure env fs root P k (\<lambda>st. Option.bind (f x st) (scan_each f xs)) (\<lambda>V. Q x V \<and> (\<forall>x\<in>set xs. Q x V))"
    by (rule sure_bind) (use Cons assms(2,3) in auto)
  moreover have "scan_each f (x # xs) = (\<lambda>st. Option.bind (f x st) (scan_each f xs))" by (simp add: fun_eq_iff)
  ultimately show ?case by simp
qed

lemma add_hazards_simps [simp]:
  "found (add_hazards hs st) = found st @ hs" "sc_visited (add_hazards hs st) = sc_visited st" "sc_ancestors (add_hazards hs st) = sc_ancestors st"
  by (simp_all add: add_hazards_def)

lemma scan_leave_simps [simp]: "found (scan_leave st) = found st" "sc_visited (scan_leave st) = sc_visited st"
  by (simp_all add: scan_leave_def)

text \<open>Entering and leaving a directory or a project file around a step that leaves it clean.\<close>

lemma sure_entered:
  assumes body: "sure env fs root P k body Q" and "finite P" "p \<in> P" and Q: "\<And>V. Q V \<Longrightarrow> scanned_clean env fs root V p"
  shows "sure env fs root P (Suc k)
    (\<lambda>st. let (ok, st) = scan_enter p st in if \<not> ok then Some st else map_option scan_leave (body st)) (\<lambda>V. p \<in> V)"
  unfolding sure_def
proof (intro allI impI)
  fix st :: scanner assume st: "card (P - sc_visited st) < Suc k"
  show "\<exists>st' new. (let (ok, st) = scan_enter p st in if \<not> ok then Some st else map_option scan_leave (body st)) = Some st' \<and>
      sc_visited st \<subseteq> sc_visited st' \<and> found st' = found st @ new \<and> list_all (real_hazard env fs) new \<and>
      (new = [] \<longrightarrow> (\<forall>p\<in>sc_visited st' - sc_visited st. scanned_clean env fs root (sc_visited st') p) \<and> p \<in> sc_visited st')"
  proof (cases "p \<in> set (sc_ancestors st) \<or> p \<in> sc_visited st")
    case True
    then show ?thesis by (auto simp: scan_enter_def real_hazard_def hazard_new_def)
  next
    case False
    define st1 where "st1 = st\<lparr>sc_visited := insert p (sc_visited st), sc_ancestors := sc_ancestors st @ [p]\<rparr>"
    have "card (P - insert p (sc_visited st)) < card (P - sc_visited st)" using False assms(2,3) by (intro psubset_card_mono) auto
    then obtain st2 new where 2: "body st1 = Some st2" "sc_visited st1 \<subseteq> sc_visited st2" "found st2 = found st1 @ new" "list_all (real_hazard env fs) new"
      "new = [] \<Longrightarrow> (\<forall>p\<in>sc_visited st2 - sc_visited st1. scanned_clean env fs root (sc_visited st2) p) \<and> Q (sc_visited st2)"
      using body [unfolded sure_def, rule_format, of st1] st by (auto simp: st1_def)
    have "scanned_clean env fs root (sc_visited st2) q" if "new = []" "q \<in> sc_visited st2 - sc_visited st" for q
      using 2(5) [OF that(1)] that(2) Q by (cases "q = p") (auto simp: st1_def)
    then show ?thesis using 2 False
      by (intro exI [of _ "scan_leave st2"] exI [of _ new]) (auto simp: scan_enter_def st1_def)
  qed
qed

section \<open>The parts of the scanner\<close>

lemma sure_add:
  assumes "list_all (real_hazard env fs) hs" "hs = [] \<Longrightarrow> Q"
  shows "sure env fs root P k (\<lambda>st. Some (add_hazards hs st)) (\<lambda>_. Q)"
  by (rule sure_pure) (use assms in \<open>auto intro!: exI [of _ hs]\<close>)

lemma scan_error_real: "list_all (real_hazard env fs) [hazard_new ScanError ps]"
  by (simp add: real_hazard_def hazard_new_def)

lemma sure_check_size: "sure env fs root P k (\<lambda>st. Some (check_size env fs cx p st)) (\<lambda>_. \<not> oversized env fs cx p)"
proof (rule sure_pure)
  fix st
  show "\<exists>new. Some (check_size env fs cx p st) = Some (check_size env fs cx p st) \<and> sc_visited (check_size env fs cx p st) = sc_visited st \<and>
      found (check_size env fs cx p st) = found st @ new \<and> list_all (real_hazard env fs) new \<and> (new = [] \<longrightarrow> \<not> oversized env fs cx p)"
    by (rule exI [of _ "if oversized env fs cx p then [hazard_new OversizedFile [p]] else []"])
      (auto simp: check_size_def Let_def real_hazard_def)
qed

definition call_ok :: "('u, 'v) write_env \<Rightarrow> fnode \<Rightarrow> 'u project \<Rightarrow> path set \<Rightarrow> 'u scan_call \<Rightarrow> bool" where
  "call_ok env fs root P c \<longleftrightarrow>
     (case c of
        ScanProject pj cx depth \<Rightarrow> pj_path pj \<in> P \<and> (pj = root \<or> load_project env (pj_path pj) fs = WOk pj) \<and>
          (\<exists>s. cx = (mt_context (from_project (we_valid env) pj))\<lparr>cx_scope := s\<rparr>)
      | ScanDir d cx depth \<Rightarrow> d \<in> P)"

fun call_key :: "'u scan_call \<Rightarrow> path" where
  "call_key (ScanProject pj cx depth) = pj_path pj"
| "call_key (ScanDir d cx depth) = d"

definition rec_sure ::
  "('u, 'v) write_env \<Rightarrow> fnode \<Rightarrow> 'u project \<Rightarrow> path set \<Rightarrow> nat \<Rightarrow> ('u scan_call \<Rightarrow> scanner \<Rightarrow> scanner option) \<Rightarrow> bool" where
  "rec_sure env fs root P k rec \<longleftrightarrow>
     finite P \<and> {p. fs_exists p fs} \<subseteq> P \<and> (\<forall>c. call_ok env fs root P c \<longrightarrow> sure env fs root P k (rec c) (\<lambda>V. call_key c \<in> V))"

lemma load_project_path: "load_project env p fs = WOk pj \<Longrightarrow> pj_path pj = p \<and> fs_exists p fs"
  by (auto simp: load_project_def file_at_def fs_exists_def split: option.splits fnode.splits)

lemma sure_nested:
  assumes "rec_sure env fs root P k rec"
  shows "sure env fs root P k (scan_nested_project env fs rec p cx depth) (\<lambda>V. nested_clean env fs V p)"
proof (cases "\<exists>pj. load_project env p fs = WOk pj")
  case True
  then obtain pj where pj: "load_project env p fs = WOk pj" by blast
  define cx' where "cx' = (if pj_scope pj = None then (mt_context (from_project (we_valid env) pj))\<lparr>cx_scope := cx_scope cx\<rparr>
    else mt_context (from_project (we_valid env) pj))"
  have "\<exists>s. cx' = (mt_context (from_project (we_valid env) pj))\<lparr>cx_scope := s\<rparr>"
    by (cases "pj_scope pj = None") (auto simp: cx'_def intro: exI [of _ "cx_scope (mt_context (from_project (we_valid env) pj))"])
  then have "call_ok env fs root P (ScanProject pj cx' (Suc depth))"
    using assms pj load_project_path [OF pj] by (auto simp: call_ok_def rec_sure_def)
  then have "sure env fs root P k (rec (ScanProject pj cx' (Suc depth))) (\<lambda>V. p \<in> V)"
    using assms load_project_path [OF pj] by (fastforce simp: rec_sure_def)
  moreover have "scan_nested_project env fs rec p cx depth = rec (ScanProject pj cx' (Suc depth))"
    by (simp add: fun_eq_iff scan_nested_project_def pj cx'_def Let_def)
  ultimately show ?thesis using pj by (simp add: nested_clean_def)
next
  case False
  then have "scan_nested_project env fs rec p cx depth = (\<lambda>st. Some (add_hazards [hazard_new ScanError [p]] st))"
    by (auto simp: fun_eq_iff scan_nested_project_def split: wres.splits)
  moreover have "sure env fs root P k (\<lambda>st. Some (add_hazards [hazard_new ScanError [p]] st)) (\<lambda>_. False)"
    by (rule sure_add [OF scan_error_real]) simp
  ultimately show ?thesis by (auto elim: sure_mono)
qed

lemma sure_cong: "(\<And>st. f st = g st) \<Longrightarrow> sure env fs root P k g Q \<Longrightarrow> sure env fs root P k f Q"
  by (simp add: sure_def)

lemma sure_dir_call:
  assumes "rec_sure env fs root P k rec" "is_dir p fs"
  shows "sure env fs root P k (rec (ScanDir p cx depth)) (\<lambda>V. p \<in> V)"
proof -
  have "p \<in> P" using assms by (auto simp: rec_sure_def is_dir_def fs_exists_def split: option.splits)
  then have "call_ok env fs root P (ScanDir p cx depth)" by (simp add: call_ok_def)
  then show ?thesis using assms(1) unfolding rec_sure_def by (metis call_key.simps(2))
qed

lemma sure_same: "sure env fs root P k Some (\<lambda>_. True)"
  by (rule sure_pure [where g = "\<lambda>st. st"]) simp

lemma sure_path:
  assumes "rec_sure env fs root P k rec" "fs_exists p fs"
  shows "sure env fs root P k (scan_path env fs rec p cx depth)
    (\<lambda>V. \<not> layout_excluded (we_matches env) cx p \<longrightarrow>
      (if is_dir p fs then p \<in> V else if is_project_file env fs cx p then nested_clean env fs V p else \<not> oversized env fs cx p))"
proof -
  have isf: "is_file p fs" if "\<not> is_dir p fs" using assms(2) that
    by (auto simp: is_file_def file_at_def is_dir_def fs_exists_def split: option.splits fnode.splits)
  consider "layout_excluded (we_matches env) cx p" | "\<not> layout_excluded (we_matches env) cx p" "is_dir p fs"
    | "\<not> layout_excluded (we_matches env) cx p" "\<not> is_dir p fs" "is_project_file env fs cx p"
    | "\<not> layout_excluded (we_matches env) cx p" "\<not> is_dir p fs" "\<not> is_project_file env fs cx p" by blast
  then show ?thesis
  proof cases
    case 1
    show ?thesis by (rule sure_cong [OF _ sure_mono [OF sure_same]]) (simp_all add: 1 scan_path_def)
  next
    case 2
    show ?thesis by (rule sure_cong [OF _ sure_mono [OF sure_dir_call [OF assms(1)]]]) (simp_all add: 2 scan_path_def)
  next
    case 3
    show ?thesis by (rule sure_cong [OF _ sure_mono [OF sure_nested [OF assms(1)]]]) (simp_all add: 3 scan_path_def isf)
  next
    case 4
    show ?thesis by (rule sure_cong [OF _ sure_mono [OF sure_check_size]]) (simp_all add: 4 scan_path_def isf)
  qed
qed

text \<open>A change of the counters of the report before a step.\<close>

lemma sure_counted:
  fixes g :: "scanner \<Rightarrow> scanner"
  assumes "sure env fs root P k f Q" "\<And>st. found (g st) = found st" "\<And>st. sc_visited (g st) = sc_visited st"
  shows "sure env fs root P k (\<lambda>st. f (g st)) Q"
  unfolding sure_def
proof (intro allI impI)
  fix st :: scanner assume "card (P - sc_visited st) < k"
  then show "\<exists>st' new. f (g st) = Some st' \<and> sc_visited st \<subseteq> sc_visited st' \<and> found st' = found st @ new \<and> list_all (real_hazard env fs) new \<and>
      (new = [] \<longrightarrow> (\<forall>p\<in>sc_visited st' - sc_visited st. scanned_clean env fs root (sc_visited st') p) \<and> Q (sc_visited st'))"
    using assms(1) [unfolded sure_def, rule_format, of "g st"] by (simp add: assms(2,3))
qed

lemma sure_root:
  assumes "rec_sure env fs root P k rec"
  shows "sure env fs root P k (scan_root env fs rec cx depth p)
    (\<lambda>V. fs_exists p fs \<and> \<not> layout_excluded (we_matches env) cx p \<longrightarrow>
      (if is_dir p fs then p \<in> V else if is_project_file env fs cx p then nested_clean env fs V p else \<not> oversized env fs cx p))"
proof (cases "fs_exists p fs")
  case True
  then show ?thesis
    by (intro sure_cong [OF _ sure_mono [OF sure_counted [OF sure_path [OF assms True, of cx "Suc depth"],
          of "\<lambda>st. st\<lparr>sc_report := (sc_report st)\<lparr>rp_roots := rp_roots (sc_report st) @ [p]\<rparr>\<rparr>"]]]) (simp_all add: scan_root_def)
next
  case False
  show ?thesis by (rule sure_cong [OF _ sure_mono [OF sure_same]]) (simp_all add: False scan_root_def)
qed

lemma sure_project:
  assumes "rec_sure env fs root P k rec" "call_ok env fs root P (ScanProject pj cx depth)"
  shows "sure env fs root P (Suc k) (scan_project env fs rec pj cx depth) (\<lambda>V. pj_path pj \<in> V)"
proof -
  have "sure env fs root P k (scan_each (scan_root env fs rec cx depth) (collect_paths env (pj_path pj) (pj_node pj)))
    (\<lambda>V. project_clean env fs V cx pj)"
    unfolding project_clean_def
    by (rule sure_each [OF sure_root [OF assms(1)]]) (use assms(1) in \<open>auto simp: rec_sure_def nested_clean_def split: if_splits\<close>)
  then have "sure env fs root P (Suc k) (\<lambda>st. let (ok, st) = scan_enter (pj_path pj) st in if \<not> ok then Some st
      else map_option scan_leave (scan_each (scan_root env fs rec cx depth) (collect_paths env (pj_path pj) (pj_node pj)) st)) (\<lambda>V. pj_path pj \<in> V)"
    by (rule sure_entered) (use assms in \<open>auto simp: rec_sure_def call_ok_def scanned_clean_def\<close>)
  then show ?thesis by (simp add: scan_project_def [abs_def])
qed

lemma sure_child:
  assumes "rec_sure env fs root P k rec"
  shows "sure env fs root P k (scan_child env fs rec cx depth p) (\<lambda>V. if is_dir p fs then p \<in> V else \<not> oversized env fs cx p)"
proof (cases "is_dir p fs")
  case True
  show ?thesis by (rule sure_cong [OF _ sure_mono [OF sure_dir_call [OF assms True]]]) (simp_all add: True scan_child_def)
next
  case False
  show ?thesis by (rule sure_cong [OF _ sure_mono [OF sure_check_size]]) (simp_all add: False scan_child_def)
qed

lemma sure_sizes:
  assumes "finite P"
  shows "sure env fs root P k (\<lambda>st. Some (fold (\<lambda>c. check_size env fs cx (ic_path c)) cs st)) (\<lambda>_. \<forall>c\<in>set cs. \<not> oversized env fs cx (ic_path c))"
proof -
  have "scan_each (\<lambda>c st. Some (check_size env fs cx (ic_path c) st)) cs st = Some (fold (\<lambda>c. check_size env fs cx (ic_path c)) cs st)" for st
    by (induction cs arbitrary: st) simp_all
  moreover have "sure env fs root P k (scan_each (\<lambda>c st. Some (check_size env fs cx (ic_path c) st)) cs) (\<lambda>_. \<forall>c\<in>set cs. \<not> oversized env fs cx (ic_path c))"
    by (rule sure_each [OF sure_check_size assms]) simp
  ultimately show ?thesis by (simp add: sure_def)
qed

text \<open>A name no two children share.\<close>

lemma distinct_names:
  "(\<And>y. y \<in> set (List.map_filter f xs) \<Longrightarrow> length (filter (\<lambda>x. f x = Some y) xs) < 2) \<Longrightarrow> distinct (List.map_filter f xs)"
proof (induction xs)
  case Nil
  then show ?case by simp
next
  case (Cons x xs)
  have rest: "length (filter (\<lambda>x. f x = Some y) xs) < 2" if "y \<in> set (List.map_filter f xs)" for y
  proof -
    have "length (filter (\<lambda>x. f x = Some y) xs) \<le> length (filter (\<lambda>x. f x = Some y) (x # xs))" by simp
    moreover have "length (filter (\<lambda>x. f x = Some y) (x # xs)) < 2" by (rule Cons.prems) (use that in \<open>auto simp: List.map_filter_simps split: option.splits\<close>)
    ultimately show ?thesis by linarith
  qed
  have "y \<notin> set (List.map_filter f xs)" if "f x = Some y" for y
  proof
    assume y: "y \<in> set (List.map_filter f xs)"
    then obtain z where "z \<in> set xs" "f z = Some y" by (auto simp: List.map_filter_def)
    then have "filter (\<lambda>x. f x = Some y) xs \<noteq> []" by (auto simp: filter_empty_conv)
    then have "length (filter (\<lambda>x. f x = Some y) (x # xs)) \<ge> 2" using that by (cases "filter (\<lambda>x. f x = Some y) xs") simp_all
    then show False using Cons.prems [of y] that y by (simp add: List.map_filter_simps)
  qed
  then show ?case using Cons.IH [OF rest] by (simp add: List.map_filter_simps split: option.splits)
qed

lemma no_duplicates:
  assumes "duplicate_hazards env fs cx l = []"
  shows "distinct (List.map_filter (child_name env fs cx) (dl_children l))"
proof (rule distinct_names)
  fix y assume "y \<in> set (List.map_filter (child_name env fs cx) (dl_children l))"
  then show "length (filter (\<lambda>x. child_name env fs cx x = Some y) (dl_children l)) < 2"
    using assms by (auto simp: duplicate_hazards_def List.map_filter_def filter_empty_conv Let_def split: if_splits)
qed

lemma layout_quiet:
  "layout_hazards l = [] \<longleftrightarrow> length (dl_inits l) \<le> 1 \<and> dl_shadowed l = [] \<and> dl_staging l = []"
  by (auto simp: layout_hazards_def is_init_ambiguous_def)

lemma sure_walk_dir:
  assumes "rec_sure env fs root P k rec"
  shows "sure env fs root P k (walk_dir env fs rec d cx depth) (\<lambda>V. dir_clean env fs V cx d)"
proof (cases "read_layout (we_matches env) (disk_layout fs) cx d")
  case None
  show ?thesis by (rule sure_cong [OF _ sure_mono [OF sure_add [OF scan_error_real, of _ False]]]) (simp_all add: None walk_dir_def)
next
  case (Some l)
  have fin: "finite P" using assms by (simp add: rec_sure_def)
  have real: "list_all (real_hazard env fs) (layout_hazards l)" "list_all (real_hazard env fs) (duplicate_hazards env fs cx l)"
    using Some by (auto simp: real_hazard_def list_all_iff)
  define tail where "tail = (case project_winner l of Some w \<Rightarrow> scan_nested_project env fs rec w cx depth
    | None \<Rightarrow> (\<lambda>st. Option.bind (Some (add_hazards (duplicate_hazards env fs cx l) st)) (scan_each (scan_child env fs rec cx depth) (dl_children l))))"
  have "sure env fs root P k tail (\<lambda>V. case project_winner l of Some w \<Rightarrow> nested_clean env fs V w
    | None \<Rightarrow> duplicate_hazards env fs cx l = [] \<and> (\<forall>p\<in>set (dl_children l). if is_dir p fs then p \<in> V else \<not> oversized env fs cx p))"
  proof (cases "project_winner l")
    case None
    have "sure env fs root P k (scan_each (scan_child env fs rec cx depth) (dl_children l))
        (\<lambda>V. \<forall>p\<in>set (dl_children l). if is_dir p fs then p \<in> V else \<not> oversized env fs cx p)"
      by (rule sure_each [OF sure_child [OF assms] fin]) (auto split: if_splits)
    from sure_bind [OF sure_add [OF real(2), of "duplicate_hazards env fs cx l = []"] this fin] show ?thesis
      unfolding tail_def None option.case by simp
  next
    case (Some w)
    then show ?thesis using sure_nested [OF assms] by (simp add: tail_def)
  qed
  from sure_counted [OF sure_bind [OF sure_add [OF real(1), of "layout_hazards l = []"]
        sure_bind [OF sure_sizes [OF fin, of _ _ _ _ cx "dl_inits l"] this fin] fin],
      of "\<lambda>st. st\<lparr>sc_report := (sc_report st)\<lparr>rp_directories := Suc (rp_directories (sc_report st))\<rparr>\<rparr>"]
  show ?thesis
    by (rule sure_cong [OF _ sure_mono, rotated])
      (auto simp: walk_dir_def dir_clean_def Some tail_def check_layout_def check_duplicates_def Let_def layout_quiet no_duplicates split: option.splits)
qed

lemma sure_dir:
  assumes "rec_sure env fs root P k rec" "d \<in> P"
  shows "sure env fs root P (Suc k) (scan_dir env fs rec d cx depth) (\<lambda>V. d \<in> V)"
proof (cases "depth > MAX_SNAPSHOT_DEPTH")
  case True
  show ?thesis by (rule sure_cong [OF _ sure_mono [OF sure_add [OF scan_error_real, of _ False]]]) (simp_all add: True scan_dir_def)
next
  case False
  have "sure env fs root P (Suc k) (\<lambda>st. let (ok, st) = scan_enter d st in if \<not> ok then Some st
      else map_option scan_leave (walk_dir env fs rec d cx depth st)) (\<lambda>V. d \<in> V)"
    by (rule sure_entered [OF sure_walk_dir [OF assms(1)]]) (use assms in \<open>auto simp: rec_sure_def scanned_clean_def\<close>)
  then show ?thesis using False by (simp add: scan_dir_def [abs_def])
qed

lemma sure_from:
  assumes "finite P" "{p. fs_exists p fs} \<subseteq> P"
  shows "rec_sure env fs root P k (scan_from env fs k)"
proof (induction k)
  case 0
  show ?case using assms by (simp add: rec_sure_def sure_def)
next
  case (Suc k)
  have "sure env fs root P (Suc k) (scan_from env fs (Suc k) c) (\<lambda>V. call_key c \<in> V)" if "call_ok env fs root P c" for c
  proof (cases c)
    case (ScanProject pj cx depth)
    show ?thesis by (rule sure_cong [OF _ sure_mono [OF sure_project [OF Suc, of pj cx depth]]])
        (use that in \<open>simp_all add: ScanProject scan_step_def\<close>)
  next
    case (ScanDir d cx depth)
    show ?thesis by (rule sure_cong [OF _ sure_mono [OF sure_dir [OF Suc, of d cx depth]]])
        (use that in \<open>simp_all add: ScanDir scan_step_def call_ok_def\<close>)
  qed
  then show ?case using assms unfolding rec_sure_def by blast
qed

section \<open>The scan is exact\<close>

lemma paths_counted: "finite {p. fs_exists p fs} \<and> card {p. fs_exists p fs} \<le> fs_count fs"
proof (induction fs)
  case (FFile b)
  have "{p. fs_exists p (FFile b)} = {[]}"
  proof
    show "{p. fs_exists p (FFile b)} \<subseteq> {[]}" by (auto simp: fs_exists_def elim: node_at.elims)
  qed (simp add: fs_exists_def)
  then show ?case by simp
next
  case (FDir xs)
  define S where "S m = {p. fs_exists p m}" for m
  have sub: "S (FDir xs) \<subseteq> insert [] (\<Union>(n, m)\<in>set xs. (#) n ` S m)"
  proof
    fix p assume "p \<in> S (FDir xs)"
    then show "p \<in> insert [] (\<Union>(n, m)\<in>set xs. (#) n ` S m)"
      by (cases p) (auto simp: S_def fs_exists_def split: option.splits dest!: map_of_SomeD)
  qed
  have ih: "finite (S m) \<and> card (S m) \<le> fs_count m" if "(n, m) \<in> set xs" for n m
    unfolding S_def by (rule FDir.IH [OF that]) simp
  have "card (\<Union>(n, m)\<in>set ys. (#) n ` S m) \<le> sum_list (map (\<lambda>(_, m). fs_count m) ys)" if "set ys \<subseteq> set xs" for ys
    using that
  proof (induction ys)
    case (Cons y ys)
    obtain n m where y: "y = (n, m)" by (cases y)
    have "card ((#) n ` S m \<union> (\<Union>(n, m)\<in>set ys. (#) n ` S m)) \<le> card ((#) n ` S m) + card (\<Union>(n, m)\<in>set ys. (#) n ` S m)" by (rule card_Un_le)
    moreover have "card ((#) n ` S m) \<le> fs_count m" using ih [of n m] Cons.prems card_image_le [of "S m" "(#) n"] by (auto simp: y)
    ultimately show ?case using Cons by (simp add: y)
  qed simp
  from this [of xs] have c: "card (\<Union>(n, m)\<in>set xs. (#) n ` S m) \<le> sum_list (map (\<lambda>(_, m). fs_count m) xs)" by simp
  have f: "finite (insert [] (\<Union>(n, m)\<in>set xs. (#) n ` S m))" using ih by auto
  have "card (S (FDir xs)) \<le> card (insert [] (\<Union>(n, m)\<in>set xs. (#) n ` S m))" by (rule card_mono [OF f sub])
  also have "\<dots> \<le> Suc (card (\<Union>(n, m)\<in>set xs. (#) n ` S m))" by (rule card_insert_le_m1) simp_all
  finally show ?case using c finite_subset [OF sub f] by (simp add: S_def)
qed

text \<open>The scan reaches its end with the fuel of the files there are, whatever the project.\<close>

lemma scan_ends:
  obtains st where
    "scan env fs root = Some ((sc_report st)\<lparr>rp_hazards := sort_key (\<lambda>h. kind_rank (hz_kind h)) (sort_key hz_paths (found st))\<rparr>)"
    "list_all (real_hazard env fs) (found st)"
    "found st = [] \<Longrightarrow> (\<forall>p\<in>sc_visited st. scanned_clean env fs root (sc_visited st) p) \<and> pj_path root \<in> sc_visited st"
proof -
  define P where "P = insert (pj_path root) {p. fs_exists p fs}"
  define c where "c = ScanProject root (mt_context (from_project (we_valid env) root)) 0"
  have P: "finite P" "{p. fs_exists p fs} \<subseteq> P" "card P < Suc (Suc (fs_count fs))"
    using paths_counted [of fs] card_insert_le_m1 [of "Suc (fs_count fs)" "{p. fs_exists p fs}" "pj_path root"] by (auto simp: P_def)
  have "call_ok env fs root P c"
    by (auto simp: call_ok_def c_def P_def intro: exI [of _ "cx_scope (mt_context (from_project (we_valid env) root))"])
  then have "sure env fs root P (Suc (Suc (fs_count fs))) (scan_from env fs (Suc (Suc (fs_count fs))) c) (\<lambda>V. pj_path root \<in> V)"
    using sure_from [OF P(1,2), of env root "Suc (Suc (fs_count fs))"] unfolding rec_sure_def by (metis c_def call_key.simps(1))
  then obtain st where st: "scan_from env fs (Suc (Suc (fs_count fs))) c scanner_default = Some st" "list_all (real_hazard env fs) (found st)"
    "found st = [] \<Longrightarrow> (\<forall>p\<in>sc_visited st. scanned_clean env fs root (sc_visited st) p) \<and> pj_path root \<in> sc_visited st"
    unfolding sure_def using P(3) by (auto simp: scanner_default_def simp del: scan_from.simps dest!: spec [of _ scanner_default])
  then show thesis using that [of st] by (simp add: scan_def c_def [symmetric] del: scan_from.simps)
qed

lemma scan_returns: "\<exists>r. scan env fs root = Some r"
  using scan_ends [of env fs root] by metis


section \<open>Examples\<close>

text \<open>The comparison with the limits, on binary numbers.\<close>

lemma oversized_code [code]:
  "oversized env fs cx p \<longleftrightarrow>
     (case file_at p fs of
        None \<Rightarrow> False
      | Some contents \<Rightarrow> int (length contents) >
          (case file_middleware env fs cx p of
             Some m \<Rightarrow> if m = RbxmModel \<or> m = RbxmxModel then 16777216 else 1048576
           | None \<Rightarrow> 16777216))"
  by (auto simp: oversized_def size_limit_def BINARY_SIZE_LIMIT_def SOURCE_SIZE_LIMIT_def split: option.splits)

definition blank_node :: "unit project_node" where
  "blank_node = ProjectNode None None [] [] None [] None"

definition project_of :: "path \<Rightarrow> unit project_node \<Rightarrow> unit project" where
  "project_of p node = \<lparr>pj_name = ''fixture'', pj_node = node, pj_host = None, pj_port = None, pj_game_id = None, pj_place_ids = [], pj_group_id = None,
     pj_scope = Some ''full'', pj_ignore_globs = [], pj_sync_rules = [], pj_syncback = None, pj_legacy_scripts = None, pj_path = p, pj_workspace_dir = []\<rparr>"

definition mapping_project :: "unit project" where
  "mapping_project = project_of [''default.project.json'']
     (ProjectNode (Some ''DataModel'') None [(''ServerScriptService'', ProjectNode None (Some (Required [''src''])) [] [] None [] None)] [] None [] None)"

text \<open>Every project file of the example has an empty tree.\<close>

definition scan_env :: "(unit, bool) read_env" where
  "scan_env = example_renv\<lparr>re_write := (re_write example_renv)\<lparr>we_project_parse := \<lambda>_. Some (project_of [] blank_node)\<rparr>\<rparr>"

definition tidy_fs :: fnode where
  "tidy_fs = FDir [(''src'', FDir [(''a'', FDir [(''init.luau'', FFile ''return 1''), (''C.luau'', FFile ''return 2'')]), (''D.luau'', FFile ''return 3'')])]"

lemma tidy_scan:
  "scan (re_write scan_env) tidy_fs mapping_project = Some \<lparr>rp_roots = [[''src'']], rp_directories = 2, rp_files = 3, rp_hazards = []\<rparr>"
  by code_simp


text \<open>
  The scan takes the first init file for the one that defines the folder. A project file whose tree is empty defines
  nothing: the walk passes to the next init file, while the scan names the project file as the winner, and does not
  look at what is in the folder (here two children of one name).
\<close>

definition yielding_fs :: fnode where
  "yielding_fs = FDir [(''src'', FDir [(''default.project.json'', FFile ''{}''), (''init.luau'', FFile ''return 1''),
     (''E.luau'', FFile ''return 2''), (''E.server.luau'', FFile ''return 3'')])]"

lemma scan_names_wrong_winner:
  "map_option rp_hazards (scan (re_write scan_env) yielding_fs mapping_project) =
     Some [with_winner [''src'', ''default.project.json'']
       (hazard_new AmbiguousInit [[''src'', ''default.project.json''], [''src'', ''init.luau'']])]"
  "map_sum (\<lambda>e. e) (map_option (\<lambda>s. (sn_class s, map sn_name (sn_children s))))
     (new_snapshot scan_env yielding_fs [''src''] (mt_context (from_project (\<lambda>_. True) mapping_project))) = Inr (Some (''ModuleScript'', [''E'', ''E'']))"
  by code_simp+

end
