(* ===== verification/Resolve.thy ===== *)
theory Resolve
  imports Connect Processor
begin

text \<open>
  Resolving parked conflicts (\<^verbatim>\<open>src/server/resolve.rs\<close>): the listing of the records, the route that keeps one
  side of a record, and the automatic resolution toward Studio with its copy in the backlog.

  The state is the processor's handler, which has the engine, the tree, the disk and the queue. A resolution
  toward disk changes the engine and pushes to the queue; one toward Studio is a write request of the
  processor under the reserved client. \<open>None\<close> is a processor thread that is gone, or a walk over the tree
  that does not end. The JSON of records and answers is \<open>serde_json\<close>'s; a side is shown by its presence, its hash
  and its capped source. The pause of the watcher around the move into the backlog is in \<open>Vfs\<close>.
\<close>

section \<open>The listing\<close>

record 'j side_view =
  sv_present :: bool
  sv_hash :: string
  sv_source :: "(string \<times> bool) option"

definition resolve_side :: "('v, 'j) codec \<Rightarrow> 'j side \<Rightarrow> bool \<Rightarrow> 'j side_view" where
  "resolve_side c s script =
     \<lparr>sv_present = present s,
      sv_hash = (case content s of Some x \<Rightarrow> hash_hex (cs_hash x) | None \<Rightarrow> ''''),
      sv_source = (if script then map_option capped_source (Option.bind (content s) (content_source c)) else None)\<rparr>"

record 'j record_view =
  rv_id :: string
  rv_path :: "string option"
  rv_instance_path :: string
  rv_class :: string
  rv_kind :: string
  rv_classification :: string
  rv_fs :: "'j side_view"
  rv_studio :: "'j side_view"
  rv_detected_at :: string
  rv_fs_props :: "(string \<times> 'j) list option"
  rv_studio_props :: "(string \<times> 'j) list option"

definition record_json :: "('v, 'j) codec \<Rightarrow> ('v, 'j) parked_rec \<Rightarrow> 'j record_view" where
  "record_json c p =
     (let script = (parked_kind p = ''script'')
      in \<lparr>rv_id = pk_id p, rv_path = info_rel_path (pk_info p), rv_instance_path = info_instance_path (pk_info p),
          rv_class = parked_class p, rv_kind = parked_kind p, rv_classification = classification_str (pk_classification p),
          rv_fs = resolve_side c (pk_fs p) script, rv_studio = resolve_side c (pk_studio p) script, rv_detected_at = pk_detected_at p,
          rv_fs_props = (if script then None else map_option cs_properties (content (pk_fs p))),
          rv_studio_props = (if script then None else map_option cs_properties (content (pk_studio p)))\<rparr>)"

definition list_conflicts :: "('v, 'j) codec \<Rightarrow> ('v, 'j) engine_state \<Rightarrow> 'j record_view list" where
  "list_conflicts c e = map (record_json c) (parked e)"

section \<open>Keeping a side\<close>

datatype direction = KeepLocal | KeepStudio

datatype resolve_failure =
    NotOnDisk
  | NothingToRestore
  | ParentGone
  | QueueFailed
  | WriteFailed "batch_error list"

text \<open>Disk wins: Studio is told what the tree has, and the baselines follow.\<close>

definition local_changes ::
  "('c, 'd, 'm, 'u, 'v, 'j) handler_env \<Rightarrow> (string \<Rightarrow> 'v variant) \<Rightarrow> ('v, 'j) parked_rec \<Rightarrow> ('c, 'd, 'm, 'u, 'v, 'j) handler
   \<Rightarrow> (resolve_failure + ('u, 'v) changes \<times> ('v, 'j) engine_state) option" where
  "local_changes env content_of p h =
     (case pk_classification p of
        FsDeletedStudioEdited \<Rightarrow>
          Some (Inr (changes_remove (pk_instance p) changes_new, forget (pk_instance p) (hd_engine h)))
      | StudioDeletedFsEdited \<Rightarrow>
          (case core_snapshot content_of (he_ops env) (hd_tree h) (pk_instance p) of
             Some (Some (Some s)) \<Rightarrow>
               map_option (\<lambda>e. Inr (changes_new\<lparr>additions := [s]\<rparr>, e))
                 (stamp_subtree (he_codec env) (he_ops env) (hd_tree h) (pk_instance p) (hd_engine h))
           | Some (Some None) \<Rightarrow> Some (Inl NotOnDisk)
           | _ \<Rightarrow> None)
      | BothEdited \<Rightarrow>
          (case get_instance (he_ops env) (hd_tree h) (pk_instance p) of
             None \<Rightarrow> Some (Inl NotOnDisk)
           | Some x \<Rightarrow>
               Some (Inr (changes_update ((updated_new (pk_instance p))\<lparr>us_name := Some (in_name x), us_properties := Some (in_properties x)\<rparr>) changes_new,
                 stamp (pk_instance p) (cs_hash (content_at env x)) (hd_engine h)))))"

definition keep_local ::
  "('c, 'd, 'm, 'u, 'v, 'j) handler_env \<Rightarrow> (string \<Rightarrow> 'v variant) \<Rightarrow> ('v, 'j) parked_rec \<Rightarrow> ('c, 'd, 'm, 'u, 'v, 'j) handler
   \<Rightarrow> ((resolve_failure + unit) \<times> ('c, 'd, 'm, 'u, 'v, 'j) handler) option" where
  "keep_local env content_of p h =
     (case local_changes env content_of p h of
        None \<Rightarrow> None
      | Some (Inl f) \<Rightarrow> Some (Inl f, h)
      | Some (Inr (ch, e)) \<Rightarrow>
          (case push (he_channels env) (SyncChanges ch) None (hd_queue h) of (q, r) \<Rightarrow>
             Some (case r of Inl _ \<Rightarrow> Inl QueueFailed | Inr _ \<Rightarrow> Inr (), h\<lparr>hd_engine := e, hd_queue := q\<rparr>)))"

text \<open>Studio wins: its state is written to disk by the processor, which stamps the baselines.\<close>

definition studio_changes ::
  "('c, 'd, 'm, 'u, 'v, 'j) handler_env \<Rightarrow> ('v, 'j) parked_rec \<Rightarrow> ('c, 'd, 'm, 'u, 'v, 'j) handler \<Rightarrow> resolve_failure + ('u, 'v) changes" where
  "studio_changes env p h =
     (case pk_classification p of
        StudioDeletedFsEdited \<Rightarrow> Inr (changes_remove (pk_instance p) changes_new)
      | FsDeletedStudioEdited \<Rightarrow>
          (case pk_studio_apply p of
             None \<Rightarrow> Inl NothingToRestore
           | Some sa \<Rightarrow>
               if \<not> exists_inst (he_ops env) (hd_tree h) (info_parent (pk_info p)) then Inl ParentGone
               else Inr (changes_new\<lparr>additions := [\<lparr>as_id = pk_instance p, as_meta = meta_new, as_parent = info_parent (pk_info p),
                      as_name = sa_name sa, as_class = sa_class sa, as_properties = sa_properties sa, as_children = []\<rparr>]\<rparr>))
      | BothEdited \<Rightarrow>
          (case pk_studio_apply p of
             None \<Rightarrow> Inl NothingToRestore
           | Some sa \<Rightarrow>
               (case get_instance (he_ops env) (hd_tree h) (pk_instance p) of
                  None \<Rightarrow> Inl NotOnDisk
                | Some x \<Rightarrow>
                    Inr (changes_update ((updated_new (pk_instance p))\<lparr>us_properties := Some (sa_properties sa),
                      us_name := (if sa_name sa \<noteq> in_name x then Some (sa_name sa) else None)\<rparr>) changes_new))))"

definition keep_studio ::
  "('c, 'd, 'm, 'u, 'v, 'j) handler_env \<Rightarrow> ('v, 'j) parked_rec \<Rightarrow> ('c, 'd, 'm, 'u, 'v, 'j) handler
   \<Rightarrow> ((resolve_failure + unit) \<times> ('c, 'd, 'm, 'u, 'v, 'j) handler) option" where
  "keep_studio env p h =
     (case studio_changes env p h of
        Inl f \<Rightarrow> Some (Inl f, h)
      | Inr ch \<Rightarrow>
          (case on_client_event env \<lparr>wq_changes = ch, wq_client_id = RESOLUTION_CLIENT_ID, wq_reply = True\<rparr> h of
             Some (Some r, h) \<Rightarrow> Some (if result_ok r then Inr () else Inl (WriteFailed (wr_errors r)), h)
           | _ \<Rightarrow> None))"

section \<open>The route\<close>

datatype resolve_answer =
    BadKeep string
  | MissingKeep
  | UnknownConflict
  | Resolved string
  | NotResolved resolve_failure

record resolve_body =
  rr_id :: "string option"
  rr_keep :: "string option"
  rr_choice :: "string option"

definition resolve_direction :: "resolve_body \<Rightarrow> resolve_answer + direction" where
  "resolve_direction rq =
     (case (case rr_keep rq of Some k \<Rightarrow> Some k | None \<Rightarrow> rr_choice rq) of
        None \<Rightarrow> Inl MissingKeep
      | Some k \<Rightarrow> if k = ''local'' then Inr KeepLocal else if k = ''studio'' then Inr KeepStudio else Inl (BadKeep k))"

definition keep_side ::
  "('c, 'd, 'm, 'u, 'v, 'j) handler_env \<Rightarrow> (string \<Rightarrow> 'v variant) \<Rightarrow> direction \<Rightarrow> ('v, 'j) parked_rec \<Rightarrow> ('c, 'd, 'm, 'u, 'v, 'j) handler
   \<Rightarrow> ((resolve_failure + unit) \<times> ('c, 'd, 'm, 'u, 'v, 'j) handler) option" where
  "keep_side env content_of d p h = (case d of KeepLocal \<Rightarrow> keep_local env content_of p h | KeepStudio \<Rightarrow> keep_studio env p h)"

definition resolve ::
  "('c, 'd, 'm, 'u, 'v, 'j) handler_env \<Rightarrow> (string \<Rightarrow> 'v variant) \<Rightarrow> resolve_body \<Rightarrow> ('c, 'd, 'm, 'u, 'v, 'j) handler
   \<Rightarrow> (resolve_answer \<times> ('c, 'd, 'm, 'u, 'v, 'j) handler) option" where
  "resolve env content_of rq h =
     (case resolve_direction rq of
        Inl a \<Rightarrow> Some (a, h)
      | Inr d \<Rightarrow>
          (case (case rr_id rq of Some i \<Rightarrow> take_parked i (hd_engine h) | None \<Rightarrow> (None, hd_engine h)) of
             (None, _) \<Rightarrow> Some (UnknownConflict, h)
           | (Some p, e) \<Rightarrow>
               map_option (\<lambda>(r, h). case r of
                   Inr _ \<Rightarrow> (Resolved (pk_id p), h)
                 | Inl f \<Rightarrow> (NotResolved f, h\<lparr>hd_engine := restore p (hd_engine h)\<rparr>))
                 (keep_side env content_of d p (h\<lparr>hd_engine := e\<rparr>))))"

section \<open>The automatic resolution\<close>

text \<open>What the backlog reads of its surroundings while it captures, and the spelling of paths.\<close>

record auto_io =
  au_show :: "path \<Rightarrow> string"
  au_parse :: "string \<Rightarrow> path"
  au_event :: capture_event

definition auto_capture ::
  "auto_io \<Rightarrow> ('v, 'j) parked_rec \<Rightarrow> ('c, 'd, 'm, 'u, 'v, 'j) handler \<times> backlog \<Rightarrow> bool \<times> ('c, 'd, 'm, 'u, 'v, 'j) handler \<times> backlog" where
  "auto_capture au p = (\<lambda>(h, b).
     case info_rel_path (pk_info p) of
       None \<Rightarrow> (False, h, b)
     | Some rel \<Rightarrow>
         let live = pj_workspace_dir (hd_project h) @ au_parse au rel; fs = ws_fs (hd_write h)
         in (case node_at live fs of
               None \<Rightarrow> (False, h, b)
             | Some node \<Rightarrow>
                 let ev = au_event au; src = au_show au live
                 in (case capture (ce_io ev) (ce_uuid ev) (ce_now ev) (ce_bytes ev) rel src ConflictReason (b\<lparr>bl_work := [src \<mapsto> node]\<rparr>) of
                       (b', e) \<Rightarrow>
                         (e \<noteq> None,
                          if bl_work b' src = None
                          then h\<lparr>hd_write := (hd_write h)\<lparr>ws_disk := (ws_disk (hd_write h))\<lparr>d_fs := drop_path live fs\<rparr>\<rparr>\<rparr> else h,
                          b'\<lparr>bl_work := bl_work b\<rparr>))))"

definition auto_keep_studio ::
  "('c, 'd, 'm, 'u, 'v, 'j) handler_env \<Rightarrow> auto_io \<Rightarrow> ('v, 'j) parked_rec \<Rightarrow> ('c, 'd, 'm, 'u, 'v, 'j) handler \<times> backlog
   \<Rightarrow> (('c, 'd, 'm, 'u, 'v, 'j) handler \<times> backlog) option" where
  "auto_keep_studio env au p st =
     (case auto_capture au p st of (_, h, b) \<Rightarrow>
        map_option (\<lambda>(r, h).
            (case r of Inr _ \<Rightarrow> h\<lparr>hd_engine := snd (take_parked (pk_id p) (hd_engine h))\<rparr> | Inl _ \<Rightarrow> h, b))
          (keep_studio env p h))"

end
