(* ===== verification/ResolveSafety.thy ===== *)
theory ResolveSafety
  imports Resolve ProcessorSafety ConnectSafety
begin

text \<open>
  What resolving guarantees: the route removes exactly the record it resolves and leaves every other
  record alone, a resolution that fails puts its record back, and after one that succeeds the baseline of
  the instance is what the tree holds. The automatic resolution keeps the disk side in the backlog unless
  the capture fails, and then overwrites it all the same.
\<close>

section \<open>What a resolution does to the engine\<close>

text \<open>The reserved client bypasses the engine's decisions: its writes park nothing and tell nobody.\<close>

definition parks_none :: "('c, 'd, 'm, 'u, 'v, 'j) batch \<Rightarrow> ('c, 'd, 'm, 'u, 'v, 'j) batch \<Rightarrow> bool" where
  "parks_none b b' \<longleftrightarrow> parked (hd_engine (b_handler b')) = parked (hd_engine (b_handler b)) \<and> hd_notices (b_handler b') = hd_notices (b_handler b)"

lemma parks_none_refl [simp]: "parks_none b b"
  by (simp add: parks_none_def)

lemma parks_none_trans: "parks_none a b \<Longrightarrow> parks_none b c \<Longrightarrow> parks_none a c"
  by (simp add: parks_none_def)

lemma parks_none_bind:
  assumes "parks_none b (snd r)" "\<And>x t. r = (WOk x, t) \<Longrightarrow> parks_none t (snd (f x t))"
  shows "parks_none b (snd (wbind r f))"
  using assms by (cases r; cases "fst r") (auto simp: wbind_def intro: parks_none_trans)

lemma stamp_parked [simp]: "parked (stamp i x e) = parked e" "parked (forget i e) = parked e"
  by (simp_all add: stamp_def forget_def)

lemma parks_none_fold: "(\<And>x b. parks_none b (f x b)) \<Longrightarrow> parks_none b (fold f xs b)"
  by (induction xs arbitrary: b) (auto intro: parks_none_trans)

lemma parks_none_rules:
  "parks_none b (snd (on_write f b))" "parks_none b (snd (count_applied b))" "parks_none b (stamp_instance env i b)" "parks_none b (on_engine (forget i) b)"
  "parks_none b (snd (stamp_added_tree env i b))"
  using parks_none_fold [of "stamp_instance env"]
  by (auto simp: parks_none_def on_write_def count_applied_def stamp_instance_def on_engine_def stamp_added_tree_def split: prod.splits option.splits)

lemma parks_none_then: "parks_none b b' \<Longrightarrow> parks_none b (snd (count_applied b'))"
  by (rule parks_none_trans [OF _ parks_none_rules(2)])

lemma push_parks_none:
  "parks_none b (snd (push_addition env True a b))" "parks_none b (snd (push_update env True u b))" "parks_none b (snd (push_removal env True i b))"
proof -
  show "parks_none b (snd (push_addition env True a b))"
    unfolding push_addition_def Let_def by (simp del: split_paired_All) (intro parks_none_bind parks_none_rules; simp add: parks_none_rules)
  show "parks_none b (snd (push_update env True u b))"
    unfolding push_update_def by_decision_def
    by (simp add: wbind_def [of "(WOk Apply, b)"]) (intro parks_none_bind parks_none_rules parks_none_then; simp add: parks_none_rules)
  have "parks_none b (snd (wbind (on_write (apply_removal (he_write env) (he_ops env) i) b) (\<lambda>_ b. count_applied (fold (\<lambda>r. on_engine (forget r)) refs b))))" for refs
    by (intro parks_none_bind parks_none_rules parks_none_then parks_none_fold)
  from this this [of "[]"] show "parks_none b (snd (push_removal env True i b))"
    unfolding push_removal_def by_decision_def by (simp add: wbind_def [of "(WOk Apply, b)"] split: option.splits)
qed

lemma run_steps_parks_none: "(\<And>x b. parks_none b (snd (f x b))) \<Longrightarrow> parks_none b (snd (run_steps f xs b))"
  by (induction xs arbitrary: b) (auto intro: parks_none_bind)

lemma run_batch_parks_none: "parks_none b (snd (run_batch env True ch b))"
  unfolding run_batch_def by (intro parks_none_bind run_steps_parks_none push_parks_none)

text \<open>A request of the reserved client that was answered.\<close>

lemma reserved_request:
  assumes "on_client_event env \<lparr>wq_changes = ch, wq_client_id = RESOLUTION_CLIENT_ID, wq_reply = True\<rparr> h = Some (Some r, h')"
  obtains res b where "run_batch env True ch \<lparr>b_applied = 0, b_conflicts = 0, b_handler = h\<rparr> = (res, b)"
    "h' = push_message env SyncbackChanges (Some 0) (b_handler b)" "result_ok r \<longleftrightarrow> res = WOk ()"
proof -
  obtain res b where run: "run_batch env True ch \<lparr>b_applied = 0, b_conflicts = 0, b_handler = h\<rparr> = (res, b)" by fastforce
  have r: "batch_result (changes_total ch) res b = Some r" "h' = push_message env SyncbackChanges (Some 0) (b_handler b)" "res \<noteq> WPanic" "res \<noteq> WCut"
    using assms run by (auto simp: on_client_event_def Let_def split: wres.splits)
  then have "result_ok r \<longleftrightarrow> res = WOk ()"
    by (cases res) (auto simp: batch_result_def result_ok_def Let_def bind_eq_Some_conv split: option.splits)
  then show ?thesis using that run r by blast
qed

lemma push_message_simps [simp]:
  "hd_engine (push_message env m target h) = hd_engine h" "hd_write (push_message env m target h) = hd_write h"
  "hd_notices (push_message env m target h) = hd_notices h"
  by (simp_all add: push_message_def)

section \<open>Baselines\<close>

lemma subtree_loop_prefix:
  assumes "subtree_loop get refs k = Some ids"
  shows "prefix refs ids"
proof (rule subtree_loop.raw_induct [of "\<lambda>get refs k ids. prefix refs ids", OF _ assms], goal_cases)
  case (1 rec get refs k ids)
  show ?case
  proof (cases "k < length refs")
    case True
    then have "prefix (refs @ (case get (refs ! k) of Some x \<Rightarrow> in_children x | None \<Rightarrow> [])) ids" using 1 by auto
    then show ?thesis by (rule append_prefixD)
  qed (use 1 in auto)
qed

lemma subtree_refs_root: "subtree_refs ops t i = Some ids \<Longrightarrow> i \<in> set ids"
  unfolding subtree_refs_def by (drule subtree_loop_prefix) (auto simp: prefix_def)

text \<open>The baseline is what the tree holds.\<close>

definition in_step :: "('c, 'd, 'm, 'u, 'v, 'j) handler_env \<Rightarrow> dref \<Rightarrow> ('c, 'd, 'm, 'u, 'v, 'j) handler \<Rightarrow> bool" where
  "in_step env i h \<longleftrightarrow>
     (case get_instance (he_ops env) (hd_tree h) i of
        None \<Rightarrow> True
      | Some x \<Rightarrow> baselines (hd_engine h) i = Some (cs_hash (content_at env x)))"

lemma stamp_all_baseline:
  "baselines (stamp_all c ops t ids e) i =
     (if i \<in> set ids then (case get_instance ops t i of
          Some x \<Rightarrow> Some (cs_hash (content_new c (in_name x) (in_class x) (in_properties x))) | None \<Rightarrow> baselines e i)
      else baselines e i)"
  by (induction ids arbitrary: e) (auto simp: stamp_all_def stamp_def split: option.splits)

lemma stamp_instances:
  "hd_engine (b_handler (fold (stamp_instance env) ids b)) = stamp_all (he_codec env) (he_ops env) (hd_tree (b_handler b)) ids (hd_engine (b_handler b)) \<and>
   hd_tree (b_handler (fold (stamp_instance env) ids b)) = hd_tree (b_handler b)"
proof (induction ids arbitrary: b)
  case (Cons i ids)
  show ?case using Cons [of "stamp_instance env i b"]
    by (auto simp: stamp_instance_def stamp_all_def on_engine_def split: option.splits)
qed (simp add: stamp_all_def)

lemma stamped_in_step: "in_step env i (b_handler (stamp_instance env i b))"
  by (auto simp: in_step_def stamp_instance_def on_engine_def stamp_def split: option.splits)

lemma count_applied_handler [simp]: "b_handler (snd (count_applied b)) = b_handler b"
  by (simp add: count_applied_def)

lemma addition_in_step:
  assumes "he_conflict_engine env" "push_addition env True a b = (WOk (), b')"
  shows "in_step env (as_id a) (b_handler b')"
proof -
  obtain b1 where 1: "on_write (apply_addition (he_write env) (he_ops env) a) b = (WOk (), b1)" "wbind (stamp_added_tree env (as_id a) b1) (\<lambda>_. count_applied) = (WOk (), b')"
    using assms by (cases "on_write (apply_addition (he_write env) (he_ops env) a) b")
      (auto simp: push_addition_def wbind_def split: wres.splits)
  then obtain ids where ids: "subtree_refs (he_ops env) (hd_tree (b_handler b1)) (as_id a) = Some ids" "b' = snd (count_applied (fold (stamp_instance env) ids b1))"
    by (auto simp: stamp_added_tree_def wbind_def count_applied_def split: option.splits)
  show ?thesis using stamp_instances [of env ids b1] subtree_refs_root [OF ids(1)] by (simp add: in_step_def ids(2) stamp_all_baseline split: option.splits)
qed

lemma update_in_step:
  assumes "he_conflict_engine env" "push_update env True u b = (WOk (), b')"
  shows "in_step env (us_id u) (b_handler b')"
proof -
  obtain b1 where "on_write (apply_update (he_write env) (he_ops env) u) b = (WOk (), b1)" "b' = snd (count_applied (stamp_instance env (us_id u) b1))"
    using assms by (cases "on_write (apply_update (he_write env) (he_ops env) u) b")
      (auto simp: push_update_def by_decision_def wbind_def count_applied_def split: wres.splits)
  then show ?thesis using stamped_in_step [of env "us_id u" b1] by simp
qed

lemma forget_fold: "i \<in> set refs \<Longrightarrow> baselines (hd_engine (b_handler (fold (\<lambda>r. on_engine (forget r)) refs b))) i = None"
proof -
  have keep: "baselines (hd_engine (b_handler b)) i = None \<Longrightarrow> baselines (hd_engine (b_handler (fold (\<lambda>r. on_engine (forget r)) refs b))) i = None" for refs b
    by (induction refs arbitrary: b) (auto simp: on_engine_def forget_def)
  show "i \<in> set refs \<Longrightarrow> baselines (hd_engine (b_handler (fold (\<lambda>r. on_engine (forget r)) refs b))) i = None"
  proof (induction refs arbitrary: b)
    case (Cons a refs)
    have "baselines (hd_engine (b_handler (on_engine (forget a) b))) a = None" by (simp add: on_engine_def forget_def)
    then show ?case using Cons keep by (cases "i = a") simp_all
  qed simp
qed

lemma removal_forgets:
  assumes "he_conflict_engine env" "push_removal env True i b = (WOk (), b')"
  shows "baselines (hd_engine (b_handler b')) i = None"
proof -
  obtain refs b1 where "subtree_refs (he_ops env) (hd_tree (b_handler b)) i = Some refs" "b' = snd (count_applied (fold (\<lambda>r. on_engine (forget r)) refs b1))"
    using assms by (cases "on_write (apply_removal (he_write env) (he_ops env) i) b")
      (auto simp: push_removal_def by_decision_def wbind_def count_applied_def split: wres.splits option.splits)
  then show ?thesis using forget_fold [of i refs b1] subtree_refs_root by fastforce
qed

section \<open>The route\<close>

text \<open>After a resolution: a side that was a deletion leaves no baseline, any other leaves what the tree holds.\<close>

definition settled :: "('c, 'd, 'm, 'u, 'v, 'j) handler_env \<Rightarrow> direction \<Rightarrow> ('v, 'j) parked_rec \<Rightarrow> ('c, 'd, 'm, 'u, 'v, 'j) handler \<Rightarrow> bool" where
  "settled env d p h \<longleftrightarrow>
     (if pk_classification p = (case d of KeepLocal \<Rightarrow> FsDeletedStudioEdited | KeepStudio \<Rightarrow> StudioDeletedFsEdited)
      then baselines (hd_engine h) (pk_instance p) = None else in_step env (pk_instance p) h)"

lemma stamp_all_parked: "parked (stamp_all c ops t ids e) = parked e"
  by (induction ids arbitrary: e) (auto simp: stamp_all_def stamp_def split: option.splits)

lemma local_changes_engine:
  assumes "local_changes env content_of p h = Some (Inr (ch, e))"
  shows "parked e = parked (hd_engine h)" "settled env KeepLocal p (h\<lparr>hd_engine := e\<rparr>)"
  using assms subtree_refs_root
  by (fastforce simp: local_changes_def settled_def in_step_def stamp_subtree_def stamp_all_parked stamp_all_baseline stamp_def forget_def
      split: classification.splits option.splits)+

lemma keep_local_outcome:
  assumes "keep_local env content_of p h = Some (r, h')"
  shows "parked (hd_engine h') = parked (hd_engine h)" "hd_notices h' = hd_notices h" "r = Inr () \<Longrightarrow> settled env KeepLocal p h'"
proof -
  have "parked (hd_engine h') = parked (hd_engine h) \<and> hd_notices h' = hd_notices h \<and> (r = Inr () \<longrightarrow> settled env KeepLocal p h')"
    using assms local_changes_engine [of env content_of p h]
    by (fastforce simp: keep_local_def settled_def in_step_def split: option.splits sum.splits prod.splits)
  then show "parked (hd_engine h') = parked (hd_engine h)" "hd_notices h' = hd_notices h" "r = Inr () \<Longrightarrow> settled env KeepLocal p h'" by auto
qed

text \<open>The single step of the request a resolution makes.\<close>

lemma studio_changes_step:
  assumes "studio_changes env p h = Inr ch" "he_conflict_engine env" "run_batch env True ch b = (WOk (), b')"
  shows "settled env KeepStudio p (b_handler b')"
proof -
  have one: "wbind r (\<lambda>_. run_steps f []) = r" for r :: "unit wres \<times> ('c, 'd, 'm, 'u, 'v, 'j) batch" and f :: "'x \<Rightarrow> ('c, 'd, 'm, 'u, 'v, 'j) bstep"
    by (cases r; cases "fst r") (auto simp: wbind_def)
  have pair: "wbind r (\<lambda>_. Pair (WOk ())) = r" for r :: "unit wres \<times> ('c, 'd, 'm, 'u, 'v, 'j) batch"
    by (cases r; cases "fst r") (auto simp: wbind_def)
  have none: "wbind (WOk (), b) f = f () b" for f :: "unit \<Rightarrow> ('c, 'd, 'm, 'u, 'v, 'j) batch \<Rightarrow> unit wres \<times> ('c, 'd, 'm, 'u, 'v, 'j) batch" and b
    by (simp add: wbind_def)
  show ?thesis
  proof (cases "pk_classification p")
    case BothEdited
    then obtain u where u: "ch = changes_update u changes_new" "us_id u = pk_instance p"
      using assms(1) by (auto simp: studio_changes_def updated_new_def split: option.splits)
    have "push_update env True u b = (WOk (), b')" using assms(3) by (simp add: u(1) run_batch_def changes_update_def changes_new_def one none pair)
    then show ?thesis using update_in_step [OF assms(2)] u(2) BothEdited by (fastforce simp: settled_def)
  next
    case FsDeletedStudioEdited
    then obtain a where a: "ch = changes_new\<lparr>additions := [a]\<rparr>" "as_id a = pk_instance p"
      using assms(1) by (auto simp: studio_changes_def split: option.splits if_splits)
    have "push_addition env True a b = (WOk (), b')" using assms(3) by (simp add: a(1) run_batch_def changes_new_def one none pair)
    then show ?thesis using addition_in_step [OF assms(2)] a(2) FsDeletedStudioEdited by (fastforce simp: settled_def)
  next
    case StudioDeletedFsEdited
    then have "push_removal env True (pk_instance p) b = (WOk (), b')"
      using assms(1,3) by (auto simp: studio_changes_def run_batch_def changes_remove_def changes_new_def one none pair)
    then show ?thesis using removal_forgets [OF assms(2)] StudioDeletedFsEdited by (fastforce simp: settled_def)
  qed
qed

lemma keep_studio_outcome:
  assumes "keep_studio env p h = Some (r, h')"
  shows "parked (hd_engine h') = parked (hd_engine h)" "hd_notices h' = hd_notices h"
    "r = Inr () \<Longrightarrow> he_conflict_engine env \<Longrightarrow> settled env KeepStudio p h'"
proof -
  have "parked (hd_engine h') = parked (hd_engine h) \<and> hd_notices h' = hd_notices h \<and> (r = Inr () \<longrightarrow> he_conflict_engine env \<longrightarrow> settled env KeepStudio p h')"
  proof (cases "studio_changes env p h")
    case (Inl f)
    then show ?thesis using assms by (auto simp: keep_studio_def)
  next
    case (Inr ch)
    then obtain w where w: "on_client_event env \<lparr>wq_changes = ch, wq_client_id = RESOLUTION_CLIENT_ID, wq_reply = True\<rparr> h = Some (Some w, h')"
      "r = (if result_ok w then Inr () else Inl (WriteFailed (wr_errors w)))"
      using assms by (auto simp: keep_studio_def split: option.splits prod.splits)
    obtain res b where b: "run_batch env True ch \<lparr>b_applied = 0, b_conflicts = 0, b_handler = h\<rparr> = (res, b)"
      "h' = push_message env SyncbackChanges (Some 0) (b_handler b)" "result_ok w \<longleftrightarrow> res = WOk ()"
      using reserved_request [OF w(1)] by blast
    have "parks_none \<lparr>b_applied = 0, b_conflicts = 0, b_handler = h\<rparr> b" using run_batch_parks_none b(1) by (metis snd_conv)
    moreover have "settled env KeepStudio p h' = settled env KeepStudio p (b_handler b)"
      by (simp add: settled_def in_step_def b(2) cong: option.case_cong)
    ultimately show ?thesis using studio_changes_step [OF Inr] b w(2) by (auto simp: parks_none_def)
  qed
  then show "parked (hd_engine h') = parked (hd_engine h)" "hd_notices h' = hd_notices h"
    "r = Inr () \<Longrightarrow> he_conflict_engine env \<Longrightarrow> settled env KeepStudio p h'" by auto
qed

lemma keep_side_outcome:
  assumes "keep_side env content_of d p h = Some (r, h')"
  shows "parked (hd_engine h') = parked (hd_engine h)" "hd_notices h' = hd_notices h"
    "r = Inr () \<Longrightarrow> he_conflict_engine env \<Longrightarrow> settled env d p h'"
  using assms keep_local_outcome keep_studio_outcome by (auto simp: keep_side_def split: direction.splits)

lemma take_parked_split:
  assumes "take_parked cid e = (Some p, e')"
  obtains pre post where "parked e = pre @ p # post" "pk_id p = cid" "e' = e\<lparr>parked := pre @ post\<rparr>"
proof -
  obtain i where i: "position (\<lambda>p. pk_id p = cid) (parked e) = Some i" "p = parked e ! i" "e' = e\<lparr>parked := remove_nth i (parked e)\<rparr>"
    using assms by (auto simp: take_parked_def split: option.splits)
  then show ?thesis using that [of "take i (parked e)" "drop (Suc i) (parked e)"] position_SomeD [OF i(1)]
    by (simp add: remove_nth_def id_take_nth_drop)
qed

text \<open>
  C28: The resolution route is exact. When it answers that a conflict is resolved, the record of that id was parked and is
  gone, every other record is parked as before, nobody was told of a new conflict, and the baseline of the instance is settled: none when
  the side that was kept is a deletion, and otherwise the hash of what the tree now holds. When it answers that the resolution
  failed, the record is parked again, last, and every other record as before. Any other answer changes nothing.
\<close>

theorem resolution_exact:
  assumes "resolve env content_of rq h = Some (ans, h')" "he_conflict_engine env"
  shows "case ans of
      Resolved cid \<Rightarrow> \<exists>d p pre post. resolve_direction rq = Inr d \<and> rr_id rq = Some cid \<and> pk_id p = cid \<and>
        parked (hd_engine h) = pre @ p # post \<and> parked (hd_engine h') = pre @ post \<and> hd_notices h' = hd_notices h \<and> settled env d p h'
    | NotResolved f \<Rightarrow> \<exists>p pre post. rr_id rq = Some (pk_id p) \<and>
        parked (hd_engine h) = pre @ p # post \<and> parked (hd_engine h') = pre @ post @ [p] \<and> hd_notices h' = hd_notices h
    | _ \<Rightarrow> h' = h"
proof (cases "resolve_direction rq")
  case (Inl a)
  then show ?thesis using assms by (auto simp: resolve_def resolve_direction_def split: option.splits if_splits)
next
  case (Inr d)
  show ?thesis
  proof (cases "rr_id rq")
    case None
    then show ?thesis using assms Inr by (simp add: resolve_def)
  next
    case (Some cid)
    show ?thesis
    proof (cases "take_parked cid (hd_engine h)")
      case (Pair o1 e)
      show ?thesis
      proof (cases o1)
        case None
        then show ?thesis using assms Inr Some Pair by (simp add: resolve_def)
      next
        case (Some p)
        then obtain r h1 where r: "keep_side env content_of d p (h\<lparr>hd_engine := e\<rparr>) = Some (r, h1)"
          "(ans, h') = (case r of Inr _ \<Rightarrow> (Resolved (pk_id p), h1) | Inl f \<Rightarrow> (NotResolved f, h1\<lparr>hd_engine := restore p (hd_engine h1)\<rparr>))"
          using assms(1) Inr \<open>rr_id rq = Some cid\<close> Pair by (auto simp: resolve_def)
        obtain pre post where split: "parked (hd_engine h) = pre @ p # post" "pk_id p = cid" "e = (hd_engine h)\<lparr>parked := pre @ post\<rparr>"
          using take_parked_split Pair Some by metis
        show ?thesis using r(2) split keep_side_outcome [OF r(1)] assms(2) Inr \<open>rr_id rq = Some cid\<close>
          by (cases r) (auto simp: restore_def)
      qed
    qed
  qed
qed

text \<open>The example: disk and Studio both edited the second instance of the example tree, and disk is kept.\<close>

definition example_record :: "(bool, string) parked_rec" where
  "example_record = \<lparr>pk_id = ''c1'', pk_instance = 2, pk_info = \<lparr>info_id = 2, info_parent = 1, info_instance_path = ''a/b'', info_rel_path = Some ''b''\<rparr>,
     pk_classification = BothEdited, pk_fs = side_absent, pk_studio = side_absent, pk_studio_apply = None, pk_detected_at = ''''\<rparr>"

definition conflicted_handler :: "((unit, bool) message list, dref \<times> (dref \<Rightarrow> bool inst option), path \<Rightarrow> dref list option, unit, bool, string) handler" where
  "conflicted_handler = example_handler\<lparr>hd_engine := engine_new\<lparr>parked := [example_record]\<rparr>\<rparr>"

theorem resolution_exact_witness:
  "\<exists>h'. resolve example_henv VString \<lparr>rr_id = Some ''c1'', rr_keep = None, rr_choice = Some ''local''\<rparr> conflicted_handler = Some (Resolved ''c1'', h') \<and>
     parked (hd_engine h') = [] \<and> settled example_henv KeepLocal example_record h'"
proof -
  let ?rq = "\<lparr>rr_id = Some ''c1'', rr_keep = None, rr_choice = Some ''local''\<rparr>"
  have "get_instance example_ops example_tree 2 \<noteq> None" using example_tree_metas(3) [of 2] by (simp add: exists_inst_def get_instance_def)
  then obtain h' where h: "resolve example_henv VString ?rq conflicted_handler = Some (Resolved ''c1'', h')"
    by (auto simp: resolve_def resolve_direction_def take_parked_def keep_side_def keep_local_def local_changes_def conflicted_handler_def
        example_record_def example_henv_def example_handler_def example_wstate_def push_def queue_new_def split: prod.splits option.splits)
  have "parked (hd_engine conflicted_handler) = [example_record]" "resolve_direction ?rq = Inr KeepLocal"
    by (simp_all add: conflicted_handler_def resolve_direction_def)
  then show ?thesis using h resolution_exact [OF h] by (auto simp: example_henv_def Cons_eq_append_conv)
qed

section \<open>The automatic resolution\<close>

text \<open>
  Before Studio's side is written the disk side is in the backlog, or it is untouched because the capture failed; either
  way nothing the backlog had is lost.
\<close>

lemma auto_capture_keeps:
  assumes ok: "backlog_ok b" "ce_uuid (au_event au) \<notin> en_id ` set (bl_entries b)"
    and live: "info_rel_path (pk_info p) = Some rel" "node_at (pj_workspace_dir (hd_project h) @ au_parse au rel) (ws_fs (hd_write h)) = Some node" "node_ok node"
    and cap: "auto_capture au p (h, b) = (captured, h', b')"
  shows "if captured then \<exists>e\<in>set (bl_entries b'). en_path e = rel \<and> (\<exists>n. bl_store b' (en_id e) = Some n \<and> same_tree n node)
      else h' = h \<and> bl_entries b' = bl_entries b"
    "\<forall>e\<in>set (bl_entries b). bl_store b' (en_id e) = bl_store b (en_id e) \<and> en_id e \<in> en_id ` set (bl_entries b')"
proof -
  let ?src = "au_show au (pj_workspace_dir (hd_project h) @ au_parse au rel)" and ?ev = "au_event au"
  obtain b1 e where c: "capture (ce_io ?ev) (ce_uuid ?ev) (ce_now ?ev) (ce_bytes ?ev) rel ?src ConflictReason (b\<lparr>bl_work := [?src \<mapsto> node]\<rparr>) = (b1, e)"
    by fastforce
  have out: "captured = (e \<noteq> None)" "b' = b1\<lparr>bl_work := bl_work b\<rparr>" "bl_work b1 ?src \<noteq> None \<Longrightarrow> h' = h"
    using cap live(1,2) c by (auto simp: auto_capture_def Let_def)
  have ok1: "backlog_ok (b\<lparr>bl_work := [?src \<mapsto> node]\<rparr>)" using ok(1) by (simp add: backlog_ok_def)
  have res: "case e of Some e \<Rightarrow> e \<in> set (bl_entries b1) \<and> en_path e = rel \<and> en_captured_at e = ce_now ?ev \<and> (\<exists>n. bl_store b1 (en_id e) = Some n \<and> same_tree n node)
      | None \<Rightarrow> bl_work b1 ?src = Some node \<and> bl_entries b1 = bl_entries b"
    "\<forall>e\<in>set (bl_entries b). bl_store b1 (en_id e) = bl_store b (en_id e) \<and> en_id e \<in> en_id ` set (bl_entries b1)"
    using capture_outcome [OF ok1 _ _ live(3) c] ok(2) by (auto split: option.splits)
  show "if captured then \<exists>e\<in>set (bl_entries b'). en_path e = rel \<and> (\<exists>n. bl_store b' (en_id e) = Some n \<and> same_tree n node) else h' = h \<and> bl_entries b' = bl_entries b"
    using res(1) out by (cases e) auto
  show "\<forall>e\<in>set (bl_entries b). bl_store b' (en_id e) = bl_store b (en_id e) \<and> en_id e \<in> en_id ` set (bl_entries b')"
    using res(2) out(2) by simp
qed

text \<open>
  A capture that failed stops nothing: Studio's side is written over a disk side of which there is no
  copy, although the order of the two is what is said to make the resolution safe.
\<close>

lemma failed_capture_overwrites:
  assumes "auto_capture au p (h, b) = (False, h, b')"
  shows "auto_keep_studio env au p (h, b) =
    map_option (\<lambda>(r, h'). (case r of Inr _ \<Rightarrow> h'\<lparr>hd_engine := snd (take_parked (pk_id p) (hd_engine h'))\<rparr> | Inl _ \<Rightarrow> h', b')) (keep_studio env p h)"
  using assms by (simp add: auto_keep_studio_def)

text \<open>
  A write that the syncback filter or the scope refuses succeeds without doing anything. A resolution toward
  Studio of such an instance is answered as resolved: the record is dropped and the disk keeps its side.
\<close>

lemma refused_resolution_lands:
  fixes env :: "('c, 'd, 'm, 'u, 'v, 'j) handler_env" and h :: "('c, 'd, 'm, 'u, 'v, 'j) handler"
  assumes "pk_classification p = BothEdited" "pk_studio_apply p = Some sa"
    and x: "get_instance (he_ops env) (hd_tree h) (pk_instance p) = Some x" "get_meta (hd_tree h) (pk_instance p) = Some mt"
    and refused: "\<not> allows_class (meta_context.cx_scope (mt_context mt)) (in_class x)"
  shows "\<exists>h'. keep_studio env p h = Some (Inr (), h') \<and> hd_write h' = hd_write h"
proof -
  define u :: "('u, 'v) updated_snapshot" where "u = (updated_new (pk_instance p))\<lparr>us_properties := Some (sa_properties sa), us_name := (if sa_name sa \<noteq> in_name x then Some (sa_name sa) else None)\<rparr>"
  have ch: "studio_changes env p h = Inr (changes_update u changes_new)" using assms by (simp add: studio_changes_def u_def)
  have same: "apply_update (he_write env) (he_ops env) u (hd_write h) = (WOk (), hd_write h)"
    using x refused by (simp add: apply_update_def u_def updated_new_def update_refused_def Let_def)
  have "hd_write (b_handler (stamp_instance env i b)) = hd_write (b_handler b)" "b_applied (stamp_instance env i b) = b_applied b"
    "b_conflicts (stamp_instance env i b) = b_conflicts b" for i b
    by (simp_all add: stamp_instance_def on_engine_def split: option.splits)
  then show ?thesis using same
    by (auto simp: keep_studio_def ch on_client_event_def run_batch_def changes_update_def changes_new_def wbind_def push_update_def by_decision_def
        on_write_def count_applied_def batch_result_def checked_sub_def changes_total_def result_ok_def Let_def)
qed

end
