(* ===== verification/Verify.thy ===== *)
theory Verify
  imports Hazards Synced
begin

text \<open>
  The verification route (\<^verbatim>\<open>src/server/verify.rs\<close>): disk against the daemon's tree against what Studio
  holds. The daemon side is collected from the tree, the files and the backlog; the plugin answers
  per instance in chunks and lists its scripts in pages; the differences are sorted into categories, and the
  report is clean when no problem category has an entry.

  The plugin's answers are an argument: to the \<open>k\<close>-th chunk of entries, and to the \<open>k\<close>-th page from an
  offset. So are the digest (\<open>sha2\<close>), the spelling of references and paths, the decoding of UTF-8, and the
  barrier that runs first. The entries of a category keep the script they are about and what the plugin
  said of it; the JSON around them is \<open>serde_json\<close>'s. The walk over the tree and the loop over the
  pages are partial functions; \<open>None\<close> is one that does not end.
\<close>

section \<open>The daemon side\<close>

definition VERIFY_CHUNK_MAX_ENTRIES :: nat where "VERIFY_CHUNK_MAX_ENTRIES = 256"
definition VERIFY_CHUNK_MAX_BYTES :: nat where "VERIFY_CHUNK_MAX_BYTES = 4 * 1024 * 1024"
definition VERIFY_TREE_PAGE :: nat where "VERIFY_TREE_PAGE = 2000"
definition VERIFY_LIST_LIMIT :: nat where "VERIFY_LIST_LIMIT = 500"

record verify_world =
  vw_show_path :: "path \<Rightarrow> string"
  vw_parse_path :: "string \<Rightarrow> path"
  vw_ref :: "dref \<Rightarrow> string"
  vw_sha :: "string \<Rightarrow> string"
  vw_utf8 :: "string \<Rightarrow> string option"
  vw_json_text :: "string \<Rightarrow> string"

definition verify_normalize :: "string \<Rightarrow> string" where
  "verify_normalize s = (if CR \<in> set s then fold_crlf s else s)"

definition is_luau_file :: "path \<Rightarrow> bool" where
  "is_luau_file p \<longleftrightarrow> path_extension p = Some ''luau'' \<or> path_extension p = Some ''lua''"

record pending_script =
  ps_ref :: string
  ps_path :: string
  ps_fs_path :: "string option"
  ps_class :: string
  ps_file :: "path option"
  ps_tree_source :: "string option"

datatype script_origin = FromFile | Generated

record verify_script =
  vs_ref :: string
  vs_path :: string
  vs_fs_path :: "string option"
  vs_class :: string
  vs_origin :: script_origin
  vs_disk :: "(nat \<times> string) option"
  vs_unreadable :: bool
  vs_stale_tree_bytes :: "nat option"

record sibling_group =
  sg_parent :: string
  sg_name :: string
  sg_classes :: "string list"
  sg_fs_paths :: "string list"

record daemon_side =
  da_scope :: scope
  da_is_place :: bool
  da_roots :: "(string \<times> string option) list"
  da_scripts :: "verify_script list"
  da_instance_paths :: "string list"
  da_known_refs :: "string list"
  da_keep_unknowns :: "string list"
  da_duplicates :: "sibling_group list"
  da_backlog :: "(entry \<times> string list) list"

text \<open>The instances the walk visits, in its order: the children of an instance are pushed, and the last one is popped first.\<close>

partial_function (option) verify_walk :: "(dref \<Rightarrow> 'v inst option) \<Rightarrow> dref list \<Rightarrow> dref list \<Rightarrow> dref list option" where
  "verify_walk get stack seen =
     (case stack of
        [] \<Rightarrow> Some seen
      | i # rest \<Rightarrow>
          (case get i of
             None \<Rightarrow> verify_walk get rest seen
           | Some x \<Rightarrow> verify_walk get (rev (in_children x) @ rest) (seen @ [i])))"

definition pending_of_instance ::
  "verify_world \<Rightarrow> ('d, 'm, 'v) tree_ops \<Rightarrow> ('d, 'm, 'u) tree \<Rightarrow> path \<Rightarrow> dref \<Rightarrow> string \<Rightarrow> pending_script option" where
  "pending_of_instance w ops t workspace_dir i path =
     (case get_instance ops t i of
        None \<Rightarrow> None
      | Some x \<Rightarrow>
          if \<not> is_script (in_class x) then None
          else Some \<lparr>ps_ref = vw_ref w i, ps_path = path, ps_fs_path = relative_path (vw_show_path w) t i workspace_dir, ps_class = in_class x,
                 ps_file = (case Option.bind (get_meta t i) (\<lambda>mt. get_file (mt_source mt)) of
                     Some e \<Rightarrow> if is_luau_file (entry_path e) then Some (entry_path e) else None | None \<Rightarrow> None),
                 ps_tree_source = (case map_of (in_properties x) ''Source'' of Some (VString s) \<Rightarrow> Some (verify_normalize s) | _ \<Rightarrow> None)\<rparr>)"

definition sibling_groups ::
  "verify_world \<Rightarrow> ('d, 'm, 'v) tree_ops \<Rightarrow> ('d, 'm, 'u) tree \<Rightarrow> path \<Rightarrow> dref \<Rightarrow> string \<Rightarrow> sibling_group list" where
  "sibling_groups w ops t workspace_dir i path =
     (let children = (case get_instance ops t i of Some x \<Rightarrow> in_children x | None \<Rightarrow> []);
          present = List.map_filter (\<lambda>c. map_option (\<lambda>x. (c, x)) (get_instance ops t c)) children
      in List.map_filter (\<lambda>name.
           let members = filter (\<lambda>(_, x). in_name x = name) present
           in if length members < 2 then None
              else Some \<lparr>sg_parent = path, sg_name = name, sg_classes = map (in_class \<circ> snd) members,
                     sg_fs_paths = List.map_filter (\<lambda>(c, _). relative_path (vw_show_path w) t c workspace_dir) members\<rparr>)
         (sort (remdups (map (in_name \<circ> snd) present))))"

definition backlog_on_disk ::
  "verify_world \<Rightarrow> ('d, 'm, 'v) tree_ops \<Rightarrow> ('d, 'm, 'u) tree \<Rightarrow> fnode \<Rightarrow> path \<Rightarrow> entry list \<Rightarrow> (entry \<times> string list) list" where
  "backlog_on_disk w ops t fs workspace_dir entries =
     List.map_filter (\<lambda>e.
       let live = workspace_dir @ vw_parse_path w (en_path e)
       in if \<not> fs_exists live fs then None
          else Some (e, case get_ids ops t live of Some ids \<Rightarrow> map (vw_ref w) ids | None \<Rightarrow> [])) entries"

text \<open>The disk side of a script; the files are read after the tree was left.\<close>

definition script_of_pending :: "verify_world \<Rightarrow> fnode \<Rightarrow> pending_script \<Rightarrow> verify_script" where
  "script_of_pending w fs p =
     (case ps_file p of
        Some file \<Rightarrow>
          (case Option.bind (file_at file fs) (vw_utf8 w) of
             Some text \<Rightarrow>
               let text = verify_normalize text
               in \<lparr>vs_ref = ps_ref p, vs_path = ps_path p, vs_fs_path = ps_fs_path p, vs_class = ps_class p, vs_origin = FromFile,
                   vs_disk = Some (length text, vw_sha w text), vs_unreadable = False,
                   vs_stale_tree_bytes = (case ps_tree_source p of Some s \<Rightarrow> if s \<noteq> text then Some (length s) else None | None \<Rightarrow> None)\<rparr>
           | None \<Rightarrow>
               \<lparr>vs_ref = ps_ref p, vs_path = ps_path p, vs_fs_path = ps_fs_path p, vs_class = ps_class p, vs_origin = FromFile,
                vs_disk = None, vs_unreadable = fs_exists file fs, vs_stale_tree_bytes = None\<rparr>)
      | None \<Rightarrow>
          let text = (case ps_tree_source p of Some s \<Rightarrow> s | None \<Rightarrow> '''')
          in \<lparr>vs_ref = ps_ref p, vs_path = ps_path p, vs_fs_path = ps_fs_path p, vs_class = ps_class p, vs_origin = Generated,
              vs_disk = Some (length text, vw_sha w text), vs_unreadable = False, vs_stale_tree_bytes = None\<rparr>)"

definition collect ::
  "verify_world \<Rightarrow> ('d, 'm, 'v) tree_ops \<Rightarrow> ('d, 'm, 'u) tree \<Rightarrow> fnode \<Rightarrow> 'u project \<Rightarrow> entry list \<Rightarrow> daemon_side option" where
  "collect w ops t fs proj entries =
     (let dir = pj_workspace_dir proj; root_refs = (if is_place proj then place_root_refs ops t else [root_ref ops t])
      in Option.bind (those (map (\<lambda>i. map_option (\<lambda>p. (vw_ref w i, if is_place proj then Some p else None)) (instance_path ops t i)) root_refs)) (\<lambda>roots.
         Option.bind (verify_walk (get_instance ops t) [root_ref ops t] []) (\<lambda>ids.
         map_option (\<lambda>paths.
             let visited = zip ids paths
             in \<lparr>da_scope = project_scope proj, da_is_place = is_place proj, da_roots = roots,
                 da_scripts = map (script_of_pending w fs) (List.map_filter (\<lambda>(i, p). pending_of_instance w ops t dir i p) visited),
                 da_instance_paths = (if is_place proj then paths else []),
                 da_known_refs = map (vw_ref w) ids,
                 da_keep_unknowns = map (vw_ref w) (filter (\<lambda>i. case get_meta t i of Some mt \<Rightarrow> mt_keep_unknowns mt | None \<Rightarrow> False) ids),
                 da_duplicates = concat (map (\<lambda>(i, p). sibling_groups w ops t dir i p) visited),
                 da_backlog = backlog_on_disk w ops t fs dir entries\<rparr>)
           (those (map (instance_path ops t) ids)))))"

text \<open>The hazards of a freshly loaded copy of the project: errors, warnings and the reported list; \<open>None\<close> when it does not load.\<close>

definition disk_hazards :: "('u, 'v) write_env \<Rightarrow> fnode \<Rightarrow> path \<Rightarrow> (nat \<times> nat \<times> hazard list) option option" where
  "disk_hazards env fs project_path =
     (case load_project env project_path fs of
        WOk proj \<Rightarrow>
          map_option (\<lambda>r. Some (report_errors r, report_warnings r, take VERIFY_LIST_LIMIT (rp_hazards r))) (scan env fs proj)
      | _ \<Rightarrow> Some None)"

section \<open>Asking Studio\<close>

record check_entry =
  ck_ref :: string
  ck_source :: "(nat \<times> string) option"
  ck_path :: "string option"

definition check_bytes :: "check_entry \<Rightarrow> nat" where
  "check_bytes c = (case ck_source c of Some (n, _) \<Rightarrow> n | None \<Rightarrow> 0)"

fun chunk_loop :: "check_entry list \<Rightarrow> nat \<Rightarrow> check_entry list \<Rightarrow> check_entry list list" where
  "chunk_loop current bytes [] = (if current = [] then [] else [current])"
| "chunk_loop current bytes (c # cs) =
     (if current \<noteq> [] \<and> (VERIFY_CHUNK_MAX_ENTRIES \<le> length current \<or> VERIFY_CHUNK_MAX_BYTES < bytes + check_bytes c)
      then current # chunk_loop [c] (check_bytes c) cs
      else chunk_loop (current @ [c]) (bytes + check_bytes c) cs)"

definition chunk :: "check_entry list \<Rightarrow> check_entry list list" where
  "chunk checks = chunk_loop [] 0 checks"

text \<open>What the plugin is asked about: the scripts whose text is known, then the other instances of the backlog, once each.\<close>

definition script_checks :: "daemon_side \<Rightarrow> check_entry list" where
  "script_checks side =
     List.map_filter (\<lambda>s. case vs_disk s of
         None \<Rightarrow> None
       | Some d \<Rightarrow> Some \<lparr>ck_ref = vs_ref s, ck_source = Some d, ck_path = (if da_is_place side then Some (vs_path s) else None)\<rparr>) (da_scripts side)"

fun first_seen :: "string list \<Rightarrow> string list \<Rightarrow> string list" where
  "first_seen seen [] = []"
| "first_seen seen (r # rs) = (if r \<in> set seen then first_seen seen rs else r # first_seen (r # seen) rs)"

definition presence_checks :: "daemon_side \<Rightarrow> check_entry list" where
  "presence_checks side =
     map (\<lambda>r. \<lparr>ck_ref = r, ck_source = None, ck_path = None\<rparr>)
       (first_seen [] (filter (\<lambda>r. r \<notin> set (map vs_ref (da_scripts side))) (concat (map snd (da_backlog side)))))"

definition results_of :: "json \<Rightarrow> (string \<times> json) list" where
  "results_of answer =
     List.map_filter (\<lambda>r. map_option (\<lambda>k. (k, r)) (Option.bind (jget ''ref'' r) as_str))
       (case Option.bind (jget ''results'' answer) as_array of Some rs \<Rightarrow> rs | None \<Rightarrow> [])"

text \<open>The answers by reference; a later one replaces an earlier one.\<close>

fun ask_sources :: "(nat \<Rightarrow> check_entry list \<Rightarrow> call_error + json) \<Rightarrow> nat \<Rightarrow> check_entry list list \<Rightarrow> (string \<rightharpoonup> json) \<Rightarrow> call_error + (string \<rightharpoonup> json)" where
  "ask_sources ask k [] studio = Inr studio"
| "ask_sources ask k (entries # rest) studio =
     (case ask k entries of
        Inl e \<Rightarrow> Inl e
      | Inr answer \<Rightarrow> ask_sources ask (Suc k) rest (fold (\<lambda>(r, v) m. m(r \<mapsto> v)) (results_of answer) studio))"

definition array_field :: "string \<Rightarrow> json \<Rightarrow> json list" where
  "array_field k v = (case Option.bind (jget k v) as_array of Some xs \<Rightarrow> xs | None \<Rightarrow> [])"

partial_function (option) ask_tree ::
  "(nat \<Rightarrow> nat \<Rightarrow> call_error + json) \<Rightarrow> nat \<Rightarrow> nat \<Rightarrow> json list \<Rightarrow> (call_error + json list) option" where
  "ask_tree ask k offset scripts =
     (case ask k offset of
        Inl e \<Rightarrow> Some (Inl e)
      | Inr answer \<Rightarrow>
          (let page = array_field ''scripts'' answer;
               total_scripts = (case Option.bind (jget ''total'' answer) as_u64 of Some n \<Rightarrow> unat n | None \<Rightarrow> 0);
               offset = offset + length page
           in if length page < VERIFY_TREE_PAGE \<or> total_scripts \<le> offset \<or> total_scripts + VERIFY_TREE_PAGE < offset
              then Some (Inr (scripts @ page))
              else ask_tree ask (Suc k) offset (scripts @ page)))"

section \<open>The categories\<close>

datatype disk_gap = FileGone verify_script | StudioOnly json

record verify_findings =
  vf_missing_in_studio :: "verify_script list"
  vf_missing_on_disk :: "disk_gap list"
  vf_mismatch :: "(verify_script \<times> json) list"
  vf_stale_daemon :: "verify_script list"
  vf_draft :: "(verify_script \<times> json) list"
  vf_untracked :: "verify_script list"

definition findings_none :: verify_findings where
  "findings_none = \<lparr>vf_missing_in_studio = [], vf_missing_on_disk = [], vf_mismatch = [], vf_stale_daemon = [], vf_draft = [], vf_untracked = []\<rparr>"

definition bool_field :: "string \<Rightarrow> json \<Rightarrow> bool option" where
  "bool_field k v = Option.bind (jget k v) as_bool"

definition classify_found :: "verify_script \<Rightarrow> json \<Rightarrow> verify_findings \<Rightarrow> verify_findings" where
  "classify_found s r f =
     (let f = (if bool_field ''tracked'' r \<noteq> Some True then f\<lparr>vf_untracked := vf_untracked f @ [s]\<rparr> else f);
          f = (if bool_field ''match'' r = Some False then f\<lparr>vf_mismatch := vf_mismatch f @ [(s, r)]\<rparr> else f)
      in case jget ''draft'' r of Some (JObject kvs) \<Rightarrow> f\<lparr>vf_draft := vf_draft f @ [(s, r)]\<rparr> | _ \<Rightarrow> f)"

definition classify_script :: "(string \<rightharpoonup> json) \<Rightarrow> verify_script \<Rightarrow> verify_findings \<Rightarrow> verify_findings" where
  "classify_script studio s f =
     (let f = (if vs_stale_tree_bytes s \<noteq> None then f\<lparr>vf_stale_daemon := vf_stale_daemon f @ [s]\<rparr> else f)
      in if vs_disk s = None then f\<lparr>vf_missing_on_disk := vf_missing_on_disk f @ [FileGone s]\<rparr>
         else case studio (vs_ref s) of
                None \<Rightarrow> f
              | Some r \<Rightarrow>
                  if bool_field ''found'' r \<noteq> Some True then f\<lparr>vf_missing_in_studio := vf_missing_in_studio f @ [s]\<rparr>
                  else classify_found s r f)"

text \<open>A script of Studio that the projection does not have; full scope keeps those under a container that keeps unknowns.\<close>

definition studio_known :: "daemon_side \<Rightarrow> json \<Rightarrow> bool" where
  "studio_known side r \<longleftrightarrow>
     (case Option.bind (jget ''ref'' r) as_str of Some k \<Rightarrow> k \<in> set (da_known_refs side) | None \<Rightarrow> False) \<or>
     da_is_place side \<and> (case Option.bind (jget ''path'' r) as_str of Some p \<Rightarrow> p | None \<Rightarrow> '''') \<in> set (da_instance_paths side)"

definition studio_kept :: "daemon_side \<Rightarrow> json \<Rightarrow> bool" where
  "studio_kept side r \<longleftrightarrow> da_scope side = Full \<and>
     (case Option.bind (jget ''parentRef'' r) as_str of Some k \<Rightarrow> k \<in> set (da_keep_unknowns side) | None \<Rightarrow> False)"

definition studio_only :: "daemon_side \<Rightarrow> json list \<Rightarrow> disk_gap list" where
  "studio_only side scripts = map StudioOnly (filter (\<lambda>r. \<not> studio_known side r \<and> \<not> studio_kept side r) scripts)"

definition kept_studio_only :: "daemon_side \<Rightarrow> json list \<Rightarrow> nat" where
  "kept_studio_only side scripts = length (filter (\<lambda>r. \<not> studio_known side r \<and> studio_kept side r) scripts)"

datatype stuck_reason = NeverPickedUp | NeverReachedStudio

definition backlog_stuck :: "(string \<rightharpoonup> json) \<Rightarrow> daemon_side \<Rightarrow> (entry \<times> stuck_reason) list" where
  "backlog_stuck studio side =
     List.map_filter (\<lambda>(e, refs).
       if refs = [] then Some (e, NeverPickedUp)
       else if \<not> list_ex (\<lambda>r. Option.bind (studio r) (bool_field ''found'') = Some True) refs then Some (e, NeverReachedStudio)
       else None) (da_backlog side)"

section \<open>The report\<close>

text \<open>A category list, sorted and cut, with the number of entries that were cut.\<close>

definition bounded :: "('a \<Rightarrow> string) \<Rightarrow> 'a list \<Rightarrow> 'a list \<times> nat option" where
  "bounded key xs =
     (let xs = sort_key key xs
      in if VERIFY_LIST_LIMIT < length xs then (take VERIFY_LIST_LIMIT xs, Some (length xs - VERIFY_LIST_LIMIT)) else (xs, None))"

record verify_report =
  vr_clean :: bool
  vr_findings :: verify_findings
  vr_studio_duplicates :: "json list"
  vr_daemon_duplicates :: "sibling_group list"
  vr_backlog_stuck :: "(entry \<times> stuck_reason) list"
  vr_hazards :: nat
  vr_kept_studio_only :: nat
  vr_scripts :: nat
  vr_studio_scripts :: nat

definition report_of ::
  "daemon_side \<Rightarrow> (nat \<times> nat \<times> hazard list) option \<Rightarrow> (string \<rightharpoonup> json) \<Rightarrow> json list \<Rightarrow> json list \<Rightarrow> verify_report" where
  "report_of side hazards studio scripts dups =
     (let f = fold (classify_script studio) (da_scripts side) findings_none;
          f = f\<lparr>vf_missing_on_disk := vf_missing_on_disk f @ studio_only side scripts\<rparr>;
          stuck = backlog_stuck studio side;
          errors = (case hazards of Some (n, _) \<Rightarrow> n | None \<Rightarrow> 0)
      in \<lparr>vr_clean = vf_missing_in_studio f = [] \<and> vf_missing_on_disk f = [] \<and> vf_mismatch f = [] \<and> vf_stale_daemon f = [] \<and>
            length dups + length (da_duplicates side) = 0 \<and> stuck = [] \<and> errors = 0,
          vr_findings = f, vr_studio_duplicates = dups, vr_daemon_duplicates = da_duplicates side, vr_backlog_stuck = stuck,
          vr_hazards = errors, vr_kept_studio_only = kept_studio_only side scripts,
          vr_scripts = length (da_scripts side), vr_studio_scripts = length scripts\<rparr>)"

record plugin_answers =
  pa_frames :: "no_plugin + unit"
  pa_sources :: "nat \<Rightarrow> check_entry list \<Rightarrow> call_error + json"
  pa_tree :: "nat \<Rightarrow> nat \<Rightarrow> call_error + json"

datatype verify_answer =
    VerifyFailed string
  | Verified "(barrier_failure + barrier_outcome \<times> flow_mark) option" verify_report

record verify_request =
  vq_no_settle :: bool
  vq_timeout_ms :: "u64 option"

text \<open>The barrier of the request, if it asks for one; its outcome is reported and decides nothing.\<close>

definition verify_settle :: "barrier_world \<Rightarrow> instant \<Rightarrow> verify_request \<Rightarrow> (barrier_failure + barrier_outcome \<times> flow_mark) option option" where
  "verify_settle b now rq =
     (if vq_no_settle rq then Some None else map_option Some (run_barrier b (now + unat (wait_timeout_ms (vq_timeout_ms rq)))))"

definition verify ::
  "verify_world \<Rightarrow> ('u, 'v) write_env \<Rightarrow> ('d, 'm, 'v) tree_ops \<Rightarrow> barrier_world \<Rightarrow> instant \<Rightarrow> plugin_answers \<Rightarrow> verify_request
   \<Rightarrow> ('d, 'm, 'u) tree \<Rightarrow> fnode \<Rightarrow> 'u project \<Rightarrow> entry list \<Rightarrow> verify_answer option" where
  "verify w env ops b now pa rq t fs proj entries =
     (case pa_frames pa of
        Inl _ \<Rightarrow> Some (VerifyFailed PLUGIN_ERROR)
      | Inr _ \<Rightarrow>
          Option.bind (verify_settle b now rq) (\<lambda>settled.
          Option.bind (collect w ops t fs proj entries) (\<lambda>side.
          Option.bind (disk_hazards env fs (pj_path proj)) (\<lambda>hazards.
            case ask_sources (pa_sources pa) 0 (chunk (script_checks side @ presence_checks side)) Map.empty of
              Inl e \<Rightarrow> Some (VerifyFailed (ce_code e))
            | Inr studio \<Rightarrow>
                map_option (\<lambda>r. case r of
                    Inl e \<Rightarrow> VerifyFailed (ce_code e)
                  | Inr scripts \<Rightarrow>
                      Verified settled (report_of side hazards studio scripts
                        (case pa_tree pa 0 0 of Inr a \<Rightarrow> array_field ''duplicates'' a | Inl _ \<Rightarrow> [])))
                  (ask_tree (pa_tree pa) 0 0 [])))))"

end
