(* ===== verification/VerifySafety.thy ===== *)
theory VerifySafety
  imports Verify HazardsSafety TreeSafety
begin

text \<open>
  What the verification route guarantees: its chunks lose nothing and stay within their bounds, its pages
  end when the totals the plugin reports are bounded, and a clean report of an honest plugin means that every script of
  the tree is the same on disk, in the tree and in Studio. What a clean report does not mean is shown at the end.
\<close>

section \<open>Chunks and pages\<close>

definition chunk_bytes :: "check_entry list \<Rightarrow> nat" where
  "chunk_bytes es = sum_list (map check_bytes es)"

definition chunk_fits :: "check_entry list \<Rightarrow> bool" where
  "chunk_fits es \<longleftrightarrow> es \<noteq> [] \<and> length es \<le> VERIFY_CHUNK_MAX_ENTRIES \<and> (chunk_bytes es \<le> VERIFY_CHUNK_MAX_BYTES \<or> length es = 1)"

lemma chunk_loop_exact:
  assumes "current = [] \<or> chunk_fits current" "bytes = chunk_bytes current"
  shows "concat (chunk_loop current bytes cs) = current @ cs \<and> list_all chunk_fits (chunk_loop current bytes cs)"
  using assms
proof (induction current bytes cs rule: chunk_loop.induct)
  case (1 current bytes)
  then show ?case by auto
next
  case (2 current bytes c cs)
  have one: "chunk_fits [c]" by (simp add: chunk_fits_def VERIFY_CHUNK_MAX_ENTRIES_def)
  show ?case
  proof (cases "current \<noteq> [] \<and> (VERIFY_CHUNK_MAX_ENTRIES \<le> length current \<or> VERIFY_CHUNK_MAX_BYTES < bytes + check_bytes c)")
    case True
    moreover have "concat (chunk_loop [c] (check_bytes c) cs) = [c] @ cs \<and> list_all chunk_fits (chunk_loop [c] (check_bytes c) cs)"
      by (rule 2(1) [OF True]) (simp_all add: one chunk_bytes_def)
    ultimately show ?thesis using 2(3) by simp
  next
    case False
    then have "chunk_fits (current @ [c])"
      using 2(3,4) one by (cases "current = []") (auto simp: chunk_fits_def chunk_bytes_def)
    then have "concat (chunk_loop (current @ [c]) (bytes + check_bytes c) cs) = (current @ [c]) @ cs \<and>
        list_all chunk_fits (chunk_loop (current @ [c]) (bytes + check_bytes c) cs)"
      using 2(4) by (intro 2(2) [OF False]) (simp_all add: chunk_bytes_def)
    moreover have "chunk_loop current bytes (c # cs) = chunk_loop (current @ [c]) (bytes + check_bytes c) cs"
      unfolding chunk_loop.simps(2) if_not_P [OF False] ..
    ultimately show ?thesis by simp
  qed
qed

lemma chunk_exact: "concat (chunk cs) = cs" "list_all chunk_fits (chunk cs)"
  using chunk_loop_exact [of "[]" 0 cs] by (simp_all add: chunk_def chunk_bytes_def)

text \<open>The number of scripts an answer says there are.\<close>

definition page_total :: "call_error + json \<Rightarrow> nat" where
  "page_total a = (case a of Inl _ \<Rightarrow> 0 | Inr v \<Rightarrow> (case Option.bind (jget ''total'' v) as_u64 of Some n \<Rightarrow> unat n | None \<Rightarrow> 0))"

lemma ask_tree_returns:
  assumes "\<And>k offset. page_total (ask k offset) \<le> N"
  shows "\<exists>r. ask_tree ask k offset scripts = Some r"
proof (induction "N - offset" arbitrary: k offset scripts rule: less_induct)
  case less
  show ?case
  proof (cases "ask k offset")
    case (Inl e)
    then show ?thesis by (subst ask_tree.simps) simp
  next
    case (Inr v)
    let ?page = "array_field ''scripts'' v"
    show ?thesis
    proof (cases "length ?page < VERIFY_TREE_PAGE \<or> page_total (ask k offset) \<le> offset + length ?page")
      case True
      then show ?thesis by (subst ask_tree.simps) (auto simp: Inr Let_def page_total_def)
    next
      case False
      then have "N - (offset + length ?page) < N - offset"
        using assms [of k offset] by (simp add: VERIFY_TREE_PAGE_def) linarith
      then show ?thesis using less by (subst ask_tree.simps) (simp add: Inr Let_def)
    qed
  qed
qed

section \<open>The walk over the tree\<close>

lemma verify_walk_forest:
  assumes "\<forall>t\<in>set ts. represents m t"
  shows "\<exists>out. verify_walk m (map rid ts @ rest) seen = verify_walk m rest (seen @ out) \<and> mset out = mset (forest_labels ts)"
  using assms
proof (induction ts arbitrary: rest seen rule: measure_induct_rule [of "\<lambda>ts. length (forest_labels ts)"])
  case (less ts)
  show ?case
  proof (cases ts)
    case Nil
    then show ?thesis by simp
  next
    case (Cons t ts')
    obtain i us where t: "t = Rose i us" by (cases t)
    obtain x where x: "m i = Some x" "in_children x = map rid us" using less.prems Cons t by auto
    have "verify_walk m (map rid ts @ rest) seen = verify_walk m (map rid (rev us @ ts') @ rest) (seen @ [i])"
      by (subst verify_walk.simps) (simp add: Cons t x rev_map)
    moreover have len: "length (forest_labels (rev us @ ts')) < length (forest_labels ts)"
      by (simp add: Cons t length_concat flip: rev_map)
    obtain out where "verify_walk m (map rid (rev us @ ts') @ rest) (seen @ [i]) = verify_walk m rest ((seen @ [i]) @ out)"
      "mset out = mset (forest_labels (rev us @ ts'))"
      using less.IH [OF len, of rest "seen @ [i]"] less.prems Cons t by auto
    ultimately show ?thesis by (intro exI [of _ "i # out"]) (auto simp: Cons t mset_concat simp flip: rev_map)
  qed
qed

lemma verify_walk_result:
  assumes "dom_wf root m" "m i \<noteq> None" "verify_walk m [i] [] = Some ids"
  shows "set ids = below m i" "distinct ids"
proof -
  obtain r where r: "rid r = i" "represents m r" using rose_exists [OF assms(1,2)] by auto
  obtain out where "verify_walk m [i] [] = verify_walk m [] out" "mset out = mset (labels r)"
    using verify_walk_forest [of "[r]" m "[]" "[]"] r by auto
  then have out: "mset ids = mset (labels r)" using assms(3) by (simp add: verify_walk.simps)
  then show "set ids = below m i" "distinct ids"
    using labels_below [OF r(2)] labels_distinct [OF assms(1) r(2)] r(1) mset_eq_setD [OF out] mset_eq_imp_distinct_iff [OF out] by auto
qed

section \<open>Answers\<close>

text \<open>
  The documented behaviour of the plugin: it answers about exactly what it was asked, says whether the instance is in
  Studio, and whether the text Studio holds has the digest it was sent.
\<close>

definition honest :: "verify_world \<Rightarrow> (string \<rightharpoonup> string) \<Rightarrow> (nat \<Rightarrow> check_entry list \<Rightarrow> call_error + json) \<Rightarrow> bool" where
  "honest w S ask \<longleftrightarrow>
     (\<forall>k es a. ask k es = Inr a \<longrightarrow> fst ` set (results_of a) = ck_ref ` set es \<and>
        (\<forall>e\<in>set es. \<forall>v. (ck_ref e, v) \<in> set (results_of a) \<longrightarrow> bool_field ''found'' v = Some (S (ck_ref e) \<noteq> None) \<and>
           (\<forall>n h text. ck_source e = Some (n, h) \<longrightarrow> S (ck_ref e) = Some text \<longrightarrow> bool_field ''match'' v = Some (vw_sha w text = h))))"

lemma fold_answers:
  "(r \<notin> fst ` set xs \<longrightarrow> fold (\<lambda>(r, v) m. m(r \<mapsto> v)) xs m r = m r) \<and>
   (r \<in> fst ` set xs \<longrightarrow> (\<exists>v. (r, v) \<in> set xs \<and> fold (\<lambda>(r, v) m. m(r \<mapsto> v)) xs m r = Some v))"
proof (induction xs arbitrary: m)
  case (Cons p xs)
  show ?case using Cons [of "m(fst p \<mapsto> snd p)"] by (cases p; cases "r \<in> fst ` set xs") (force split: if_splits)+
qed simp

lemma ask_sources_answers:
  assumes "ask_sources ask k chunks m = Inr studio" "honest w S ask"
  shows "(r \<notin> ck_ref ` set (concat chunks) \<longrightarrow> studio r = m r) \<and>
    (r \<in> ck_ref ` set (concat chunks) \<longrightarrow>
      (\<exists>j es a v. es \<in> set chunks \<and> ask j es = Inr a \<and> (r, v) \<in> set (results_of a) \<and> studio r = Some v))"
  using assms(1)
proof (induction chunks arbitrary: k m)
  case (Cons es chunks)
  obtain a where a: "ask k es = Inr a" "ask_sources ask (Suc k) chunks (fold (\<lambda>(r, v) m. m(r \<mapsto> v)) (results_of a) m) = Inr studio"
    using Cons.prems by (auto split: sum.splits)
  have asked: "fst ` set (results_of a) = ck_ref ` set es" using assms(2) a(1) by (simp add: honest_def)
  show ?case
  proof (cases "r \<in> ck_ref ` set (concat chunks)")
    case True
    then obtain j es' a' v where "es' \<in> set chunks" "ask j es' = Inr a'" "(r, v) \<in> set (results_of a')" "studio r = Some v"
      using Cons.IH [OF a(2)] by blast
    then show ?thesis using True by (metis (no_types, opaque_lifting) UnI2 concat.simps(2) image_Un list.set_intros(2) set_append)
  next
    case False
    then have "studio r = fold (\<lambda>(r, v) m. m(r \<mapsto> v)) (results_of a) m r" using Cons.IH [OF a(2)] by blast
    with fold_answers [of r "results_of a" m] asked
    consider "r \<notin> ck_ref ` set es" "studio r = m r"
      | v where "r \<in> ck_ref ` set es" "(r, v) \<in> set (results_of a)" "studio r = Some v" by metis
    then show ?thesis
    proof cases
      case 1
      then show ?thesis using False by auto
    next
      case 2
      then show ?thesis using a(1) False by (intro conjI impI exI [of _ k] exI [of _ es] exI [of _ a] exI [of _ v]) auto
    qed
  qed
qed simp

section \<open>The categories\<close>

definition no_finding :: "verify_findings \<Rightarrow> bool" where
  "no_finding f \<longleftrightarrow> vf_missing_in_studio f = [] \<and> vf_missing_on_disk f = [] \<and> vf_mismatch f = [] \<and> vf_stale_daemon f = []"

definition script_fine :: "(string \<rightharpoonup> json) \<Rightarrow> verify_script \<Rightarrow> bool" where
  "script_fine studio s \<longleftrightarrow> vs_stale_tree_bytes s = None \<and> vs_disk s \<noteq> None \<and>
     (case studio (vs_ref s) of None \<Rightarrow> True | Some r \<Rightarrow> bool_field ''found'' r = Some True \<and> bool_field ''match'' r \<noteq> Some False)"

lemma classify_found_none: "no_finding (classify_found s r f) \<longleftrightarrow> no_finding f \<and> bool_field ''match'' r \<noteq> Some False"
  by (auto simp: classify_found_def no_finding_def Let_def split: option.splits json.splits)

lemma classify_script_none: "no_finding (classify_script studio s f) \<longleftrightarrow> no_finding f \<and> script_fine studio s"
proof (cases "studio (vs_ref s)")
  case None
  then show ?thesis by (auto simp: classify_script_def script_fine_def no_finding_def Let_def)
next
  case (Some r)
  show ?thesis
  proof (cases "bool_field ''found'' r = Some True")
    case True
    then show ?thesis by (auto simp: classify_script_def script_fine_def Some Let_def classify_found_none) (auto simp: no_finding_def)
  next
    case False
    then show ?thesis by (auto simp: classify_script_def script_fine_def Some Let_def no_finding_def)
  qed
qed

lemma classify_all_none: "no_finding (fold (classify_script studio) ss f) \<longleftrightarrow> no_finding f \<and> list_all (script_fine studio) ss"
  by (induction ss arbitrary: f) (auto simp: classify_script_none)

lemma clean_report:
  assumes "vr_clean (report_of side hazards studio scripts dups)"
  shows "list_all (script_fine studio) (da_scripts side)" "list_all (\<lambda>r. studio_known side r \<or> studio_kept side r) scripts"
    "dups = []" "da_duplicates side = []" "backlog_stuck studio side = []" "case hazards of Some (n, _) \<Rightarrow> n = 0 | None \<Rightarrow> True"
proof -
  have "no_finding (fold (classify_script studio) (da_scripts side) findings_none)" "studio_only side scripts = []"
    using assms by (simp_all add: report_of_def Let_def no_finding_def)
  then show "list_all (script_fine studio) (da_scripts side)" "list_all (\<lambda>r. studio_known side r \<or> studio_kept side r) scripts"
    by (auto simp: classify_all_none studio_only_def filter_empty_conv list_all_iff)
  show "dups = []" "da_duplicates side = []" "backlog_stuck studio side = []" "case hazards of Some (n, _) \<Rightarrow> n = 0 | None \<Rightarrow> True"
    using assms by (auto simp: report_of_def Let_def split: option.splits)
qed

section \<open>Scripts in sync\<close>

text \<open>The three texts of a script: the Source of the tree, the file on disk (the tree's own text when it has none), what Studio holds.\<close>

definition tree_text :: "'v inst \<Rightarrow> string option" where
  "tree_text x = (case map_of (in_properties x) ''Source'' of Some (VString s) \<Rightarrow> Some (verify_normalize s) | _ \<Rightarrow> None)"

definition script_file :: "('d, 'm, 'u) tree \<Rightarrow> dref \<Rightarrow> path option" where
  "script_file t i = (case Option.bind (get_meta t i) (\<lambda>mt. get_file (mt_source mt)) of
     Some e \<Rightarrow> if is_luau_file (entry_path e) then Some (entry_path e) else None | None \<Rightarrow> None)"

definition disk_text :: "verify_world \<Rightarrow> fnode \<Rightarrow> ('d, 'm, 'u) tree \<Rightarrow> dref \<Rightarrow> 'v inst \<Rightarrow> string option" where
  "disk_text w fs t i x = (case script_file t i of
     Some f \<Rightarrow> map_option verify_normalize (Option.bind (file_at f fs) (vw_utf8 w))
   | None \<Rightarrow> Some (case tree_text x of Some s \<Rightarrow> s | None \<Rightarrow> ''''))"

definition in_sync :: "verify_world \<Rightarrow> (string \<rightharpoonup> string) \<Rightarrow> fnode \<Rightarrow> ('d, 'm, 'u) tree \<Rightarrow> dref \<Rightarrow> 'v inst \<Rightarrow> bool" where
  "in_sync w S fs t i x \<longleftrightarrow>
     (\<exists>text held. disk_text w fs t i x = Some text \<and> (tree_text x = None \<or> tree_text x = Some text) \<and>
        S (vw_ref w i) = Some held \<and> vw_sha w held = vw_sha w text)"

lemma pending_fields:
  assumes "pending_of_instance w ops t dir i path = Some p"
  obtains x where "get_instance ops t i = Some x" "is_script (in_class x)" "ps_ref p = vw_ref w i"
    "ps_file p = script_file t i" "ps_tree_source p = tree_text x"
  using assms by (auto simp: pending_of_instance_def script_file_def tree_text_def split: option.splits if_splits)

lemma script_fields:
  assumes "pending_of_instance w ops t dir i path = Some p" "get_instance ops t i = Some x"
  shows "vs_ref (script_of_pending w fs p) = vw_ref w i"
    "vs_disk (script_of_pending w fs p) = map_option (\<lambda>text. (length text, vw_sha w text)) (disk_text w fs t i x)"
    "vs_stale_tree_bytes (script_of_pending w fs p) = None \<longleftrightarrow>
       (case disk_text w fs t i x of Some text \<Rightarrow> tree_text x = None \<or> tree_text x = Some text | None \<Rightarrow> True)"
proof -
  obtain y where "get_instance ops t i = Some y" and p: "ps_ref p = vw_ref w i" "ps_file p = script_file t i" "ps_tree_source p = tree_text y"
    by (rule pending_fields [OF assms(1)]) blast
  then have x: "y = x" using assms(2) by simp
  show "vs_ref (script_of_pending w fs p) = vw_ref w i"
    by (simp add: script_of_pending_def p Let_def split: option.splits)
  show "vs_disk (script_of_pending w fs p) = map_option (\<lambda>text. (length text, vw_sha w text)) (disk_text w fs t i x)"
    by (simp add: script_of_pending_def p x disk_text_def Let_def split: option.splits)
  show "vs_stale_tree_bytes (script_of_pending w fs p) = None \<longleftrightarrow>
       (case disk_text w fs t i x of Some text \<Rightarrow> tree_text x = None \<or> tree_text x = Some text | None \<Rightarrow> True)"
    by (auto simp: script_of_pending_def p x disk_text_def Let_def split: option.splits)
qed

text \<open>What the collection of a well formed tree holds: every script below the root, once.\<close>

lemma those_zip:
  assumes "those (map f xs) = Some ys"
  shows "set (zip xs ys) = {(x, y). x \<in> set xs \<and> f x = Some y}" "\<forall>x\<in>set xs. f x \<noteq> None"
  using assms by (induction xs arbitrary: ys) (auto split: option.splits)

lemma in_map_filter: "y \<in> set (List.map_filter f xs) \<longleftrightarrow> (\<exists>x\<in>set xs. f x = Some y)"
  by (force simp: List.map_filter_def)

lemma collected_scripts:
  assumes wf: "dom_wf (root_ref ops t) (get_instance ops t)" and c: "collect w ops t fs proj entries = Some side"
  shows "s \<in> set (da_scripts side) \<longleftrightarrow> (\<exists>i path p. i \<in> below (get_instance ops t) (root_ref ops t) \<and>
      pending_of_instance w ops t (pj_workspace_dir proj) i path = Some p \<and> instance_path ops t i = Some path \<and> s = script_of_pending w fs p)"
    "i \<in> below (get_instance ops t) (root_ref ops t) \<Longrightarrow> instance_path ops t i \<noteq> None"
proof -
  obtain ids paths where ids: "verify_walk (get_instance ops t) [root_ref ops t] [] = Some ids"
    and paths: "those (map (instance_path ops t) ids) = Some paths"
    and scripts: "da_scripts side = map (script_of_pending w fs)
      (List.map_filter (\<lambda>(i, p). pending_of_instance w ops t (pj_workspace_dir proj) i p) (zip ids paths))"
    using c by (auto simp: collect_def Let_def bind_eq_Some_conv)
  have below: "set ids = below (get_instance ops t) (root_ref ops t)"
    using verify_walk_result(1) [OF wf _ ids] wf by (auto simp: dom_wf_def)
  show "s \<in> set (da_scripts side) \<longleftrightarrow> (\<exists>i path p. i \<in> below (get_instance ops t) (root_ref ops t) \<and>
      pending_of_instance w ops t (pj_workspace_dir proj) i path = Some p \<and> instance_path ops t i = Some path \<and> s = script_of_pending w fs p)"
    unfolding scripts set_map image_iff Bex_def in_map_filter those_zip(1) [OF paths] below by force
  show "i \<in> below (get_instance ops t) (root_ref ops t) \<Longrightarrow> instance_path ops t i \<noteq> None"
    using those_zip(2) [OF paths] below by blast
qed

text \<open>An honest plugin's answers about a script that was asked about.\<close>

lemma first_seen_sub: "set (first_seen seen rs) \<subseteq> set rs"
  by (induction seen rs rule: first_seen.induct) auto

lemma asked_of_script:
  assumes "e \<in> set (script_checks side @ presence_checks side)" "ck_ref e = vs_ref s" "s \<in> set (da_scripts side)"
  shows "\<exists>s'\<in>set (da_scripts side). vs_ref s' = vs_ref s \<and> ck_source e = vs_disk s'"
proof -
  have "e \<notin> set (presence_checks side)"
    using assms(2,3) first_seen_sub by (fastforce simp: presence_checks_def)
  then obtain s' d where "s' \<in> set (da_scripts side)" "vs_disk s' = Some d"
      "e = \<lparr>ck_ref = vs_ref s', ck_source = Some d, ck_path = (if da_is_place side then Some (vs_path s') else None)\<rparr>"
    using assms(1) by (auto simp: script_checks_def in_map_filter split: option.splits)
  then show ?thesis using assms(2) by auto
qed

lemma script_answered:
  assumes ok: "ask_sources ask 0 (chunk (script_checks side @ presence_checks side)) Map.empty = Inr studio" and h: "honest w S ask"
    and s: "s \<in> set (da_scripts side)" "vs_disk s = Some d"
    and one: "\<And>s'. s' \<in> set (da_scripts side) \<Longrightarrow> vs_ref s' = vs_ref s \<Longrightarrow> s' = s"
  shows "\<exists>v. studio (vs_ref s) = Some v \<and> bool_field ''found'' v = Some (S (vs_ref s) \<noteq> None) \<and>
    (\<forall>text. S (vs_ref s) = Some text \<longrightarrow> bool_field ''match'' v = Some (vw_sha w text = snd d))"
proof -
  have "\<lparr>ck_ref = vs_ref s, ck_source = Some d, ck_path = (if da_is_place side then Some (vs_path s) else None)\<rparr> \<in> set (script_checks side)"
    using s by (auto simp: script_checks_def in_map_filter intro!: bexI [of _ s])
  then have "vs_ref s \<in> ck_ref ` set (script_checks side)" by force
  then obtain j es a v where es: "es \<in> set (chunk (script_checks side @ presence_checks side))" "ask j es = Inr a"
      "(vs_ref s, v) \<in> set (results_of a)" "studio (vs_ref s) = Some v"
    using ask_sources_answers [OF ok h, of "vs_ref s"] by (auto simp: chunk_exact)
  moreover have "fst ` set (results_of a) = ck_ref ` set es" using h es(2) by (simp add: honest_def)
  then have "vs_ref s \<in> ck_ref ` set es" using es(3) image_eqI [of "vs_ref s" fst "(vs_ref s, v)"] by auto
  then obtain e where e: "e \<in> set es" "ck_ref e = vs_ref s" by force
  moreover have "e \<in> set (script_checks side @ presence_checks side)"
    using es(1) e(1) arg_cong [OF chunk_exact(1), of set "script_checks side @ presence_checks side"] by auto
  then have "ck_source e = Some d" using asked_of_script [of e side s] e(2) one s by metis
  ultimately show ?thesis using h unfolding honest_def by (cases d) (metis snd_conv)
qed

lemma fine_iff_sync:
  assumes "pending_of_instance w ops t dir i path = Some p" "get_instance ops t i = Some x" "s = script_of_pending w fs p"
    and "\<And>d. vs_disk s = Some d \<Longrightarrow> \<exists>v. studio (vs_ref s) = Some v \<and> bool_field ''found'' v = Some (S (vs_ref s) \<noteq> None) \<and>
      (\<forall>text. S (vs_ref s) = Some text \<longrightarrow> bool_field ''match'' v = Some (vw_sha w text = snd d))"
  shows "script_fine studio s \<longleftrightarrow> in_sync w S fs t i x"
proof (cases "disk_text w fs t i x")
  case None
  then show ?thesis using script_fields(2) [OF assms(1,2)] assms(3) by (simp add: script_fine_def in_sync_def)
next
  case (Some body)
  then have "vs_disk s = Some (length body, vw_sha w body)" using script_fields(2) [OF assms(1,2)] assms(3) by simp
  then obtain v where v: "studio (vs_ref s) = Some v" "bool_field ''found'' v = Some (S (vs_ref s) \<noteq> None)"
      "\<And>held. S (vs_ref s) = Some held \<Longrightarrow> bool_field ''match'' v = Some (vw_sha w held = vw_sha w body)"
    using assms(4) by (metis snd_conv)
  show ?thesis
  proof (cases "S (vs_ref s)")
    case None
    then show ?thesis using v script_fields(1) [OF assms(1,2)] assms(3) by (simp add: script_fine_def in_sync_def)
  next
    case (Some held)
    then show ?thesis using v(1,2) v(3) [OF Some] script_fields [OF assms(1,2), of fs] assms(3) \<open>disk_text w fs t i x = Some body\<close>
      by (simp add: script_fine_def in_sync_def)
  qed
qed

definition all_in_sync :: "verify_world \<Rightarrow> (string \<rightharpoonup> string) \<Rightarrow> fnode \<Rightarrow> ('d, 'm, 'v) tree_ops \<Rightarrow> ('d, 'm, 'u) tree \<Rightarrow> bool" where
  "all_in_sync w S fs ops t \<longleftrightarrow> (\<forall>i\<in>below (get_instance ops t) (root_ref ops t).
     \<forall>x. get_instance ops t i = Some x \<longrightarrow> is_script (in_class x) \<longrightarrow> in_sync w S fs t i x)"

lemma scripts_fine_exact:
  assumes wf: "dom_wf (root_ref ops t) (get_instance ops t)" and "inj (vw_ref w)" and h: "honest w S ask"
    and c: "collect w ops t fs proj entries = Some side"
    and ok: "ask_sources ask 0 (chunk (script_checks side @ presence_checks side)) Map.empty = Inr studio"
  shows "list_all (script_fine studio) (da_scripts side) \<longleftrightarrow> all_in_sync w S fs ops t"
proof -
  note at = collected_scripts(1) [OF wf c]
  have one: "s' = s" if s: "s' \<in> set (da_scripts side)" "s \<in> set (da_scripts side)" "vs_ref s' = vs_ref s" for s s'
  proof -
    obtain i path p x where i: "pending_of_instance w ops t (pj_workspace_dir proj) i path = Some p" "instance_path ops t i = Some path"
      "s = script_of_pending w fs p" "get_instance ops t i = Some x" using s(2) at by (metis pending_fields)
    obtain j path' p' y where j: "pending_of_instance w ops t (pj_workspace_dir proj) j path' = Some p'" "instance_path ops t j = Some path'"
      "s' = script_of_pending w fs p'" "get_instance ops t j = Some y" using s(1) at by (metis pending_fields)
    have "i = j" using s(3) script_fields(1) [OF i(1,4)] script_fields(1) [OF j(1,4)] i(3) j(3) assms(2) by (metis injD)
    then show ?thesis using i j by simp
  qed
  have fine: "script_fine studio (script_of_pending w fs p) \<longleftrightarrow> in_sync w S fs t i x"
    if "pending_of_instance w ops t (pj_workspace_dir proj) i path = Some p" "get_instance ops t i = Some x"
      "script_of_pending w fs p \<in> set (da_scripts side)" for i path p x
    using that one by (intro fine_iff_sync [OF that(1,2) refl] script_answered [OF ok h]) auto
  have pending: "\<exists>p. pending_of_instance w ops t (pj_workspace_dir proj) i path = Some p"
    if "get_instance ops t i = Some x" "is_script (in_class x)" for i x path
    using that by (simp add: pending_of_instance_def)
  show ?thesis
  proof
    assume all: "list_all (script_fine studio) (da_scripts side)"
    show "all_in_sync w S fs ops t" unfolding all_in_sync_def
    proof (intro ballI allI impI)
      fix i x assume i: "i \<in> below (get_instance ops t) (root_ref ops t)" "get_instance ops t i = Some x" "is_script (in_class x)"
      then obtain path p where p: "instance_path ops t i = Some path" "pending_of_instance w ops t (pj_workspace_dir proj) i path = Some p"
        using collected_scripts(2) [OF wf c] pending by blast
      then have "script_of_pending w fs p \<in> set (da_scripts side)" using at i(1) by blast
      then show "in_sync w S fs t i x" using fine [OF p(2) i(2)] all by (auto simp: list_all_iff)
    qed
  next
    assume "all_in_sync w S fs ops t"
    then show "list_all (script_fine studio) (da_scripts side)"
      unfolding list_all_iff all_in_sync_def using at fine by (metis pending_fields)
  qed
qed

section \<open>The route answers\<close>

lemma below_chain:
  assumes "dom_wf root m" "i \<in> below m root"
  shows "\<exists>ns. chain m root i ns"
proof -
  have "(root, i) \<in> (child_rel m)\<^sup>*" using assms(2) by simp
  then show ?thesis
  proof induction
    case base
    then show ?case using chain.Here by blast
  next
    case (step i j)
    then obtain ns where ns: "chain m root i ns" by blast
    have j: "j \<in> set (kids m i)" using step(2) by (simp add: child_rel_def)
    obtain y where "m j = Some y" by (rule dom_wf_kid [OF assms(1) j])
    then show ?case using chain.Down [OF ns j] by blast
  qed
qed

lemma those_total: "\<forall>x\<in>set xs. f x \<noteq> None \<Longrightarrow> \<exists>ys. those (map f xs) = Some ys"
  by (induction xs) auto

lemma collect_returns:
  assumes "dom_wf (root_ref ops t) (get_instance ops t)"
  shows "\<exists>side. collect w ops t fs proj entries = Some side"
proof -
  let ?m = "get_instance ops t" and ?root = "root_ref ops t"
  have m: "?m = dom_get ops (t_dom t)" by (rule ext) (simp add: get_instance_def)
  have path: "instance_path ops t i \<noteq> None" if "i \<in> below ?m ?root" for i
    using below_chain [OF assms that] assms instance_path_chain [of ops t i] by (auto simp: m)
  have root: "?m ?root \<noteq> None" using assms by (auto simp: dom_wf_def)
  obtain r where r: "rid r = ?root" "represents ?m r" using rose_exists [OF assms root] by auto
  obtain ids where ids: "verify_walk ?m [?root] [] = Some ids"
    using verify_walk_forest [of "[r]" ?m "[]" "[]"] r by (auto simp: verify_walk.simps [of _ "[]"])
  have "set (if is_place proj then place_root_refs ops t else [?root]) \<subseteq> below ?m ?root"
    by (auto simp: place_root_refs_def m root_ref_def child_rel_def)
  then have "\<exists>roots. those (map (\<lambda>i. map_option (\<lambda>p. (vw_ref w i, if is_place proj then Some p else None)) (instance_path ops t i))
      (if is_place proj then place_root_refs ops t else [?root])) = Some roots"
    using path by (intro those_total) (auto split: if_splits)
  moreover have "\<exists>paths. those (map (instance_path ops t) ids) = Some paths"
    using path verify_walk_result(1) [OF assms root ids] by (intro those_total) auto
  ultimately show ?thesis using ids by (auto simp: collect_def Let_def simp del: map_option_eq_Some)
qed

lemma ask_sources_fails:
  assumes "ask_sources ask k chunks m = Inl e"
  shows "\<exists>k es. isl (ask k es)"
  using assms by (induction chunks arbitrary: k m) (auto split: sum.splits, metis sum.disc(1))

lemma ask_tree_fails:
  assumes "ask_tree ask k offset scripts = Some r" "isl r"
  shows "\<exists>k offset. isl (ask k offset)"
proof -
  have "isl r \<longrightarrow> (\<exists>k offset. isl (ask k offset))"
    by (rule ask_tree.raw_induct [of "\<lambda>ask k offset scripts r. isl r \<longrightarrow> (\<exists>k offset. isl (ask k offset))", OF _ assms(1)])
      (auto simp: Let_def split: sum.splits if_splits, metis sum.disc(1))
  with assms(2) show ?thesis by simp
qed

lemma settle_returns:
  assumes "\<And>deadline k. \<exists>j\<ge>k. deadline \<le> bw_now b j"
  shows "\<exists>settled. verify_settle b now rq = Some settled"
  using barrier_ends [of "now + unat (wait_timeout_ms (vq_timeout_ms rq))" b] assms by (auto simp: verify_settle_def)

lemma hazards_return: "\<exists>hazards. disk_hazards env fs p = Some hazards"
  using scan_returns [of env fs] by (auto simp: disk_hazards_def split: wres.splits)

definition script_gaps :: "verify_findings \<Rightarrow> bool" where
  "script_gaps f \<longleftrightarrow> vf_missing_in_studio f \<noteq> [] \<or> vf_mismatch f \<noteq> [] \<or> vf_stale_daemon f \<noteq> [] \<or>
     list_ex (\<lambda>g. case g of FileGone _ \<Rightarrow> True | StudioOnly _ \<Rightarrow> False) (vf_missing_on_disk f)"

lemma only_file_gone:
  "list_all (\<lambda>g. case g of FileGone _ \<Rightarrow> True | StudioOnly _ \<Rightarrow> False) (vf_missing_on_disk f) \<Longrightarrow>
   list_all (\<lambda>g. case g of FileGone _ \<Rightarrow> True | StudioOnly _ \<Rightarrow> False) (vf_missing_on_disk (fold (classify_script studio) ss f))"
  by (induction ss arbitrary: f) (auto simp: classify_script_def classify_found_def Let_def split: option.splits json.splits)

lemma report_gaps: "script_gaps (vr_findings (report_of side hazards studio scripts dups)) \<longleftrightarrow> \<not> list_all (script_fine studio) (da_scripts side)"
proof -
  let ?f = "fold (classify_script studio) (da_scripts side) findings_none"
  have "list_all (\<lambda>g. case g of FileGone _ \<Rightarrow> True | StudioOnly _ \<Rightarrow> False) (vf_missing_on_disk ?f)"
    by (rule only_file_gone) (simp add: findings_none_def)
  then have "list_ex (\<lambda>g. case g of FileGone _ \<Rightarrow> True | StudioOnly _ \<Rightarrow> False) (vf_missing_on_disk ?f @ studio_only side scripts) \<longleftrightarrow>
      vf_missing_on_disk ?f \<noteq> []"
    by (cases "vf_missing_on_disk ?f") (auto simp: studio_only_def list_ex_iff)
  then have "script_gaps (vr_findings (report_of side hazards studio scripts dups)) \<longleftrightarrow> \<not> no_finding ?f"
    by (auto simp: report_of_def Let_def script_gaps_def no_finding_def)
  then show ?thesis by (simp add: classify_all_none) (simp add: no_finding_def findings_none_def)
qed

text \<open>
  C29: The verification route answers and is right about every script: in a well formed tree, with distinct references, a clock that goes on, an honest
  plugin and totals that stay bounded, it returns; it fails only when the plugin is away or does not answer;
  and the report has an entry in one of the script categories exactly when some script below the root is not the same on disk,
  in the tree and in Studio. So a clean report means that every one of them is.
\<close>

theorem verify_exact:
  assumes "tree_ok ops t" "inj (vw_ref w)" "honest w S (pa_sources pa)"
    and "\<And>deadline k. \<exists>j\<ge>k. deadline \<le> bw_now b j"
    and "\<And>k offset. page_total (pa_tree pa k offset) \<le> N"
  shows "\<exists>ans. verify w env ops b now pa rq t fs proj entries = Some ans \<and>
    (case ans of
       VerifyFailed _ \<Rightarrow> isl (pa_frames pa) \<or> (\<exists>k es. isl (pa_sources pa k es)) \<or> (\<exists>k offset. isl (pa_tree pa k offset))
     | Verified _ r \<Rightarrow> (script_gaps (vr_findings r) \<longleftrightarrow> \<not> all_in_sync w S fs ops t) \<and> (vr_clean r \<longrightarrow> all_in_sync w S fs ops t))"
proof -
  have wf: "dom_wf (root_ref ops t) (get_instance ops t)"
    using assms(1) by (simp add: tree_ok_def get_instance_def [abs_def])
  obtain side settled hazards where c: "collect w ops t fs proj entries = Some side"
    and st: "verify_settle b now rq = Some settled" "disk_hazards env fs (pj_path proj) = Some hazards"
    using collect_returns [OF wf] settle_returns [OF assms(4)] hazards_return by blast
  obtain pages where pages: "ask_tree (pa_tree pa) 0 0 [] = Some pages"
    using ask_tree_returns [of "pa_tree pa" N 0 0 "[]"] assms(5) by blast
  note run = verify_def c st pages
  show ?thesis
  proof (cases "pa_frames pa")
    case (Inl e)
    then show ?thesis by (simp add: run)
  next
    case frames: (Inr u)
    show ?thesis
    proof (cases "ask_sources (pa_sources pa) 0 (chunk (script_checks side @ presence_checks side)) Map.empty")
      case (Inl e)
      then show ?thesis using ask_sources_fails [OF Inl] by (simp add: run frames)
    next
      case (Inr studio)
      note fine = scripts_fine_exact [OF wf assms(2,3) c Inr]
      show ?thesis
      proof (cases pages)
        case (Inl e)
        then show ?thesis using ask_tree_fails [OF pages] by (simp add: run frames Inr)
      next
        case pg: (Inr scripts)
        then show ?thesis using fine clean_report(1) by (simp add: run frames Inr report_gaps) blast
      qed
    qed
  qed
qed

section \<open>Examples\<close>

text \<open>A plugin that answers as it is documented, from the texts Studio holds.\<close>

definition answer_for :: "verify_world \<Rightarrow> (string \<rightharpoonup> string) \<Rightarrow> check_entry \<Rightarrow> json" where
  "answer_for w S e = JObject [(''ref'', JString (ck_ref e)), (''found'', JBool (S (ck_ref e) \<noteq> None)), (''tracked'', JBool True),
     (''match'', JBool (case (S (ck_ref e), ck_source e) of (Some held, Some (_, h)) \<Rightarrow> vw_sha w held = h | _ \<Rightarrow> False))]"

definition plain_ask :: "verify_world \<Rightarrow> (string \<rightharpoonup> string) \<Rightarrow> nat \<Rightarrow> check_entry list \<Rightarrow> call_error + json" where
  "plain_ask w S k es = (if distinct (map ck_ref es) then Inr (JObject [(''results'', JArray (map (answer_for w S) es))])
     else Inl (call_transport ''an instance was asked about twice''))"

lemma plain_results: "results_of (JObject [(''results'', JArray (map (answer_for w S) es))]) = map (\<lambda>e. (ck_ref e, answer_for w S e)) es"
  by (induction es) (simp_all add: results_of_def answer_for_def List.map_filter_def jget_def as_array_def)

lemma plain_honest: "honest w S (plain_ask w S)"
proof -
  have "bool_field ''found'' (answer_for w S e) = Some (S (ck_ref e) \<noteq> None)"
    "\<And>n h held. ck_source e = Some (n, h) \<Longrightarrow> S (ck_ref e) = Some held \<Longrightarrow> bool_field ''match'' (answer_for w S e) = Some (vw_sha w held = h)" for e
    by (simp_all add: bool_field_def answer_for_def jget_def as_bool_def)
  note answer = this
  have "bool_field ''match'' (answer_for w S e') = Some (vw_sha w held = h)"
    if "distinct (map ck_ref es)" "e \<in> set es" "e' \<in> set es" "ck_ref e = ck_ref e'" "ck_source e = Some (n, h)" "S (ck_ref e') = Some held"
    for es e e' n h held
  proof -
    have "e = e'" using that(1-4) by (auto simp: distinct_map inj_on_def)
    then show ?thesis using answer(2) that(5,6) by simp
  qed
  then show ?thesis
    unfolding honest_def plain_ask_def by (auto simp: plain_results image_image answer(1) split: if_splits)
qed

definition example_verify :: verify_world where
  "example_verify = \<lparr>vw_show_path = join_slash, vw_parse_path = split_slash, vw_ref = (\<lambda>i. replicate (unat i) (CHR ''x'')), vw_sha = (\<lambda>s. s),
     vw_utf8 = Some, vw_json_text = (\<lambda>s. s)\<rparr>"

definition example_answers :: "(string \<rightharpoonup> string) \<Rightarrow> plugin_answers" where
  "example_answers S = \<lparr>pa_frames = Inr (), pa_sources = plain_ask example_verify S, pa_tree = (\<lambda>_ _. Inr (JObject []))\<rparr>"

definition run_example :: "(string \<rightharpoonup> string) \<Rightarrow> verify_answer option" where
  "run_example S = verify example_verify (re_write scan_env) example_ops still_world 0 (example_answers S) \<lparr>vq_no_settle = True, vq_timeout_ms = None\<rparr>
     example_tree tidy_fs mapping_project []"

text \<open>The loops and the comparisons with the limits as equations to compute with.\<close>

declare verify_walk.simps [code] climb.simps [code]

lemma chunk_loop_code [code]:
  "chunk_loop current bytes [] = (if current = [] then [] else [current])"
  "chunk_loop current bytes (c # cs) =
     (if current \<noteq> [] \<and> (256 \<le> int (length current) \<or> 4194304 < int bytes + int (check_bytes c))
      then current # chunk_loop [c] (check_bytes c) cs
      else chunk_loop (current @ [c]) (bytes + check_bytes c) cs)"
proof -
  have "VERIFY_CHUNK_MAX_ENTRIES \<le> length current \<longleftrightarrow> 256 \<le> int (length current)"
    "VERIFY_CHUNK_MAX_BYTES < bytes + check_bytes c \<longleftrightarrow> 4194304 < int bytes + int (check_bytes c)"
    unfolding VERIFY_CHUNK_MAX_ENTRIES_def VERIFY_CHUNK_MAX_BYTES_def by linarith+
  then show "chunk_loop current bytes (c # cs) =
     (if current \<noteq> [] \<and> (256 \<le> int (length current) \<or> 4194304 < int bytes + int (check_bytes c))
      then current # chunk_loop [c] (check_bytes c) cs
      else chunk_loop (current @ [c]) (bytes + check_bytes c) cs)" by simp
qed simp

lemma ask_tree_code [code]:
  "ask_tree ask k offset scripts =
     (case ask k offset of
        Inl e \<Rightarrow> Some (Inl e)
      | Inr answer \<Rightarrow>
          (let page = array_field ''scripts'' answer;
               total_scripts = (case Option.bind (jget ''total'' answer) as_u64 of Some n \<Rightarrow> unat n | None \<Rightarrow> 0);
               offset = offset + length page
           in if int (length page) < 2000 \<or> total_scripts \<le> offset \<or> int total_scripts + 2000 < int offset
              then Some (Inr (scripts @ page))
              else ask_tree ask (Suc k) offset (scripts @ page)))"
proof -
  have "n < VERIFY_TREE_PAGE \<longleftrightarrow> int n < 2000" "n + VERIFY_TREE_PAGE < m \<longleftrightarrow> int n + 2000 < int m" for n m
    unfolding VERIFY_TREE_PAGE_def by linarith+
  then show ?thesis by (subst ask_tree.simps) (simp only:)
qed

lemma example_runs:
  "map_option (\<lambda>a. case a of Verified _ r \<Rightarrow> vr_clean r | _ \<Rightarrow> False) (run_example [''xx'' \<mapsto> '''']) = Some True"
  "map_option (\<lambda>a. case a of Verified _ r \<Rightarrow> vr_clean r | _ \<Rightarrow> False) (run_example [''xx'' \<mapsto> ''return 1'']) = Some False"
  by code_simp+

lemma example_refs: "inj (vw_ref example_verify)"
  by (rule injI) (metis example_verify_def verify_world.select_convs(3) length_replicate word_unat_eq_iff)

theorem verify_exact_witness:
  "\<exists>st r. run_example [''xx'' \<mapsto> ''''] = Some (Verified st r) \<and> vr_clean r \<and>
     all_in_sync example_verify [''xx'' \<mapsto> ''''] tidy_fs example_ops example_tree"
proof -
  have "\<exists>j\<ge>k. deadline \<le> bw_now still_world j" for deadline k
    by (rule exI [of _ "k + deadline"]) (simp add: still_world_def)
  then obtain ans where ans: "run_example [''xx'' \<mapsto> ''''] = Some ans"
      "case ans of VerifyFailed _ \<Rightarrow> True | Verified _ r \<Rightarrow> vr_clean r \<longrightarrow> all_in_sync example_verify [''xx'' \<mapsto> ''''] tidy_fs example_ops example_tree"
    using verify_exact [OF example_tree_ok(1) example_refs, where S = "[''xx'' \<mapsto> '''']" and pa = "example_answers [''xx'' \<mapsto> '''']" and b = still_world
        and now = 0 and rq = "\<lparr>vq_no_settle = True, vq_timeout_ms = None\<rparr>" and env = "re_write scan_env" and fs = tidy_fs and proj = mapping_project
        and N = 0 and entries = "[]"] plain_honest
    unfolding run_example_def
    by (fastforce simp: example_answers_def verify_settle_def page_total_def jget_def split: verify_answer.splits)
  then show ?thesis using example_runs(1) by (cases ans) auto
qed

text \<open>
  What a clean report does not mean. A script the plugin says nothing about is passed over, and a project file that does not load
  counts as one without hazards: a plugin that answers every question with an empty object gives a clean report, over a Studio that
  holds another text and a disk without a project file.
\<close>

definition silent_answers :: plugin_answers where
  "silent_answers = \<lparr>pa_frames = Inr (), pa_sources = (\<lambda>_ _. Inr (JObject [])), pa_tree = (\<lambda>_ _. Inr (JObject []))\<rparr>"

lemma silence_is_clean:
  "map_option (\<lambda>a. case a of Verified _ r \<Rightarrow> (vr_clean r, vr_scripts r) | _ \<Rightarrow> (False, 0))
     (verify example_verify (re_write scan_env) example_ops still_world 0 silent_answers \<lparr>vq_no_settle = True, vq_timeout_ms = None\<rparr>
        example_tree tidy_fs mapping_project []) = Some (True, 1)"
  "disk_hazards (re_write scan_env) tidy_fs (pj_path mapping_project) = Some None"
  by code_simp+

end
